(* ===== verification/Prelude.thy ===== *)
theory Prelude
  imports Main "HOL-Library.Word" "HOL-Library.Monad_Syntax"
begin

text \<open>
  Shared vocabulary of the development: the fixed-width integer types of
  Fw/Types/BasicTypes.hpp, the outcome of a failed \<open>FW_ASSERT\<close>, \<open>memcpy\<close>-like
  reads and writes of byte arrays, and the lemmas on words and lists every component uses.
\<close>

unbundle bit_operations_syntax

section \<open>Machine integers\<close>

text \<open>
  Unsigned integers are words. Signed integers are words too, read with \<^const>\<open>sint\<close>
  where the sign matters. \<open>F32\<close> and \<open>F64\<close> are the IEEE-754 bit patterns, since the code
  moves floating point values through the buffers with \<open>memcpy\<close>. \<open>NATIVE_UINT_TYPE\<close> is
  \<open>unsigned int\<close>, 32 bits wide on the platforms the repository builds for.
\<close>

type_synonym U8 = "8 word"
type_synonym U16 = "16 word"
type_synonym U32 = "32 word"
type_synonym U64 = "64 word"
type_synonym I8 = "8 word"
type_synonym I16 = "16 word"
type_synonym I32 = "32 word"
type_synonym I64 = "64 word"
type_synonym F32 = "32 word"
type_synonym F64 = "64 word"
type_synonym NATIVE_UINT = "32 word"

named_theorems word_nat_simps \<open>unsigned 32-bit arithmetic that does not wrap, read as naturals\<close>

lemma unat_add_small:
  fixes a b :: "'a::len word"
  assumes "unat a + unat b < 2 ^ LENGTH('a)"
  shows "unat (a + b) = unat a + unat b"
  using assms by (simp add: unat_word_ariths)

lemma unat_sub_small:
  fixes a b :: "'a::len word"
  assumes "unat b \<le> unat a"
  shows "unat (a - b) = unat a - unat b"
  using assms by (simp add: unat_sub word_le_nat_alt)

lemma unat_dec: "0 < unat w \<Longrightarrow> unat (w - 1) = unat w - 1"
  by (rule unat_minus_one) auto

lemma unat_ucast_mod: "unat (ucast (w :: 'a::len word) :: 'b::len word) = unat w mod 2 ^ LENGTH('b)"
  by (simp add: unsigned_ucast_eq take_bit_eq_mod)

lemma unat_lt16: "unat (w :: 16 word) < 65536"
  using unsigned_less [of w] by simp

lemma unat_lt8: "unat (w :: 8 word) < 256"
  using unsigned_less [of w] by simp

lemma unat_ucast16_32 [simp]: "unat (ucast (w :: 16 word) :: 32 word) = unat w"
  using unat_lt16 [of w] by (simp add: unat_ucast_mod)

lemma unat_ucast8_32 [simp]: "unat (ucast (w :: 8 word) :: 32 word) = unat w"
  using unat_lt8 [of w] by (simp add: unat_ucast_mod)

lemma unat_of_nat32:
  "n < 4294967296 \<Longrightarrow> unat (of_nat n :: 32 word) = n"
  by (simp add: unat_of_nat)

lemma unat_lt32 [simp]: "unat (w :: 32 word) < 4294967296"
  using unsigned_less [of w] by simp

lemma unat_ucast32_64 [simp]: "unat (ucast (w :: 32 word) :: 64 word) = unat w"
proof -
  have "unat w < 2 ^ LENGTH(64)"
    by (rule order.strict_trans [OF unat_lt32]) simp
  then show ?thesis by (simp only: unat_ucast_mod mod_less)
qed

lemma ucast_ucast_64 [simp]: "ucast (ucast (w :: 32 word) :: 64 word) = w"
  by (rule bit_word_eqI) (auto simp: bit_simps)

lemma of_nat_eq_iff32:
  "m < 4294967296 \<Longrightarrow> n < 4294967296 \<Longrightarrow> (of_nat m :: 32 word) = of_nat n \<longleftrightarrow> m = n"
  by (metis unat_of_nat32)

lemma word_eq_of_unat: "unat w = n \<Longrightarrow> w = of_nat n"
  by auto

lemma sint_small:
  assumes "unat (w :: 32 word) < 2147483648"
  shows "sint w = int (unat w)"
proof -
  have "uint w < 2147483648" using assms unfolding uint_nat by linarith
  moreover have "- 2147483648 \<le> uint w"
    by (rule order_trans [OF _ uint_ge_0]) simp
  ultimately have "signed_take_bit 31 (uint w) = uint w"
    by (simp add: signed_take_bit_int_eq_self_iff)
  then show ?thesis by (simp add: sint_uint)
qed

lemma sint_eq_iff: "sint (a :: 'a::len word) = sint b \<longleftrightarrow> a = b"
  by (auto intro: signed_word_eqI)

lemma ex_bool_simps [simp]:
  "\<exists>ok. ok" "\<exists>ok. \<not> ok" "(\<exists>ok. \<not> ok \<and> P ok) = P False" "(\<exists>ok. ok \<and> P ok) = P True"
  by (auto; (metis (full_types)))+

section \<open>Failed assertions and byte arrays\<close>

text \<open>
  A run that stops in \<open>FW_ASSERT\<close>, or that leaves the bounds of an array, has no next state:
  it is \<^const>\<open>None\<close> in every model. A theorem that an operation returns \<^const>\<open>Some\<close>
  state therefore says that no assertion of it fails and that no access of it leaves its array.
\<close>

definition fw_assert :: "bool \<Rightarrow> unit option" where
  "fw_assert p = (if p then Some () else None)"

lemma fw_assert_True [simp]: "fw_assert True = Some ()"
  by (simp add: fw_assert_def)

lemma fw_assert_False [simp]: "fw_assert False = None"
  by (simp add: fw_assert_def)

lemma fw_assert_eq_Some [simp]: "fw_assert p = Some u \<longleftrightarrow> p"
  by (simp add: fw_assert_def)

lemma bind_fw_assert [simp]: "Option.bind (fw_assert p) f = (if p then f () else None)"
  by (simp add: fw_assert_def)

definition write_at :: "'a list \<Rightarrow> nat \<Rightarrow> 'a list \<Rightarrow> 'a list option" where
  "write_at xs i ys =
     (if i + length ys \<le> length xs
      then Some (take i xs @ ys @ drop (i + length ys) xs) else None)"

definition read_at :: "'a list \<Rightarrow> nat \<Rightarrow> nat \<Rightarrow> 'a list option" where
  "read_at xs i n = (if i + n \<le> length xs then Some (take n (drop i xs)) else None)"

lemma write_at_in_bounds:
  "i + length ys \<le> length xs \<Longrightarrow>
     write_at xs i ys = Some (take i xs @ ys @ drop (i + length ys) xs)"
  by (simp add: write_at_def)

lemma write_at_SomeD:
  "write_at xs i ys = Some zs \<Longrightarrow>
     i + length ys \<le> length xs \<and> zs = take i xs @ ys @ drop (i + length ys) xs"
  by (simp add: write_at_def split: if_splits)

lemma write_at_length: "write_at xs i ys = Some zs \<Longrightarrow> length zs = length xs"
  by (auto simp: write_at_def split: if_splits)

lemma read_at_in_bounds: "i + n \<le> length xs \<Longrightarrow> read_at xs i n = Some (take n (drop i xs))"
  by (simp add: read_at_def)

lemma read_at_SomeD:
  "read_at xs i n = Some ys \<Longrightarrow> i + n \<le> length xs \<and> ys = take n (drop i xs) \<and> length ys = n"
  by (auto simp: read_at_def split: if_splits)

lemma read_at_0_full [simp]: "read_at xs 0 (length xs) = Some xs"
  by (simp add: read_at_def)

lemma take_write: "take (i + length ys) (take i xs @ ys @ zs) = take i xs @ ys"
  if "i \<le> length xs"
  using that by (simp add: min_absorb2)

lemma read_after_write:
  assumes "write_at xs i ys = Some zs"
  shows "read_at zs i (length ys) = Some ys"
  using assms by (auto simp: write_at_def read_at_def split: if_splits)

text \<open>List facts about consuming a byte stream from the front.\<close>

lemma take_drop_prefix: "drop d xs = ys @ zs \<Longrightarrow> take (length ys) (drop d xs) = ys"
  by simp

lemma drop_prefix_add: "drop d xs = ys @ zs \<Longrightarrow> drop (d + length ys) xs = zs"
  by (metis append_eq_conv_conj drop_drop add.commute)

lemma drop_take_split:
  "d + n \<le> s \<Longrightarrow> s \<le> length xs \<Longrightarrow>
     drop d (take s xs) = take n (drop d xs) @ drop (d + n) (take s xs)"
proof -
  assume h: "d + n \<le> s" "s \<le> length xs"
  have "drop d (take s xs) = take n (drop d (take s xs)) @ drop n (drop d (take s xs))"
    by (simp only: append_take_drop_id)
  also have "take n (drop d (take s xs)) = take n (drop d xs)"
    using h by (simp add: drop_take)
  finally show ?thesis by (simp add: add.commute)
qed

text \<open>The index of the first element with a property, where a loop breaks.\<close>

fun first_index :: "('a \<Rightarrow> bool) \<Rightarrow> 'a list \<Rightarrow> nat option" where
  "first_index P [] = None"
| "first_index P (x # xs) = (if P x then Some 0 else map_option Suc (first_index P xs))"

lemma first_index_Some: "first_index P xs = Some i \<Longrightarrow> i < length xs \<and> P (xs ! i)"
  by (induction xs arbitrary: i) (auto split: if_splits)

lemma first_index_None: "first_index P xs = None \<longleftrightarrow> (\<forall>x \<in> set xs. \<not> P x)"
  by (induction xs) auto

end
