(* ===== verification/Ser_Buffer.thy ===== *)
theory Ser_Buffer
  imports Prelude
begin

text \<open>
  Fw/Types/Serializable.cpp: the serialization buffer every packet, command and file record
  of the framework goes through. A buffer is its storage (whose length is the capacity),
  whether its address is null, and the write and read offsets \<open>m_serLoc\<close> and
  \<open>m_deserLoc\<close>. Each overload of \<open>serialize\<close> and \<open>deserialize\<close> is a
  definition of its own; the bodies the overloads repeat are \<open>ser_fixed\<close> and
  \<open>deser_fixed\<close>. A locale states what a serializable type promises, and the integer,
  boolean and floating point overloads are interpretations of it.
\<close>

unbundle bit_operations_syntax

section \<open>State and status\<close>

datatype SerializeStatus =
    FW_SERIALIZE_OK
  | FW_SERIALIZE_FORMAT_ERROR
  | FW_SERIALIZE_NO_ROOM_LEFT
  | FW_DESERIALIZE_BUFFER_EMPTY
  | FW_DESERIALIZE_FORMAT_ERROR
  | FW_DESERIALIZE_SIZE_MISMATCH
  | FW_DESERIALIZE_TYPE_MISMATCH

record ser_buf =
  m_data :: "U8 list"
  m_null :: bool
  m_serLoc :: U32
  m_deserLoc :: U32

definition SerializeBufferBase_new :: "U8 list \<Rightarrow> ser_buf" where
  "SerializeBufferBase_new store =
     \<lparr>m_data = store, m_null = False, m_serLoc = 0, m_deserLoc = 0\<rparr>"

definition getBuffCapacity :: "ser_buf \<Rightarrow> U32" where
  "getBuffCapacity b = of_nat (length (m_data b))"

definition getBuffLength :: "ser_buf \<Rightarrow> U32" where
  "getBuffLength b = m_serLoc b"

definition getBuffLeft :: "ser_buf \<Rightarrow> U32" where
  "getBuffLeft b = m_serLoc b - m_deserLoc b"

definition setExtBuffer :: "ser_buf \<Rightarrow> U8 list option \<Rightarrow> ser_buf option" where
  "setExtBuffer b ptr =
     (case ptr of None \<Rightarrow> None | Some store \<Rightarrow> Some (b\<lparr>m_data := store, m_null := False\<rparr>))"

definition clearExtBuffer :: "ser_buf \<Rightarrow> ser_buf" where
  "clearExtBuffer b = b\<lparr>m_data := [], m_null := True\<rparr>"

section \<open>Big-endian byte images\<close>

definition bytes_of_U16 :: "U16 \<Rightarrow> U8 list" where
  "bytes_of_U16 v = [ucast (drop_bit 8 v), ucast v]"

definition bytes_of_I16 :: "I16 \<Rightarrow> U8 list" where
  "bytes_of_I16 v = [ucast (signed_drop_bit 8 v), ucast v]"

definition bytes_of_U32 :: "U32 \<Rightarrow> U8 list" where
  "bytes_of_U32 v = [ucast (drop_bit 24 v), ucast (drop_bit 16 v), ucast (drop_bit 8 v), ucast v]"

definition bytes_of_I32 :: "I32 \<Rightarrow> U8 list" where
  "bytes_of_I32 v =
     [ucast (signed_drop_bit 24 v), ucast (signed_drop_bit 16 v),
      ucast (signed_drop_bit 8 v), ucast v]"

definition bytes_of_U64 :: "U64 \<Rightarrow> U8 list" where
  "bytes_of_U64 v =
     [ucast (drop_bit 56 v), ucast (drop_bit 48 v), ucast (drop_bit 40 v), ucast (drop_bit 32 v),
      ucast (drop_bit 24 v), ucast (drop_bit 16 v), ucast (drop_bit 8 v), ucast v]"

definition bytes_of_I64 :: "I64 \<Rightarrow> U8 list" where
  "bytes_of_I64 v =
     [ucast (signed_drop_bit 56 v), ucast (signed_drop_bit 48 v),
      ucast (signed_drop_bit 40 v), ucast (signed_drop_bit 32 v),
      ucast (signed_drop_bit 24 v), ucast (signed_drop_bit 16 v),
      ucast (signed_drop_bit 8 v), ucast v]"

definition U16_of_bytes :: "U8 list \<Rightarrow> U16" where
  "U16_of_bytes bs = ucast (bs ! 1) OR push_bit 8 (ucast (bs ! 0))"

definition U32_of_bytes :: "U8 list \<Rightarrow> U32" where
  "U32_of_bytes bs =
     ucast (bs ! 3) OR push_bit 8 (ucast (bs ! 2)) OR push_bit 16 (ucast (bs ! 1))
       OR push_bit 24 (ucast (bs ! 0))"

definition U64_of_bytes :: "U8 list \<Rightarrow> U64" where
  "U64_of_bytes bs =
     ucast (bs ! 7) OR push_bit 8 (ucast (bs ! 6)) OR push_bit 16 (ucast (bs ! 5))
       OR push_bit 24 (ucast (bs ! 4)) OR push_bit 32 (ucast (bs ! 3))
       OR push_bit 40 (ucast (bs ! 2)) OR push_bit 48 (ucast (bs ! 1))
       OR push_bit 56 (ucast (bs ! 0))"

lemma length_bytes_of [simp]:
  "length (bytes_of_U16 v16) = 2" "length (bytes_of_I16 v16) = 2"
  "length (bytes_of_U32 v32) = 4" "length (bytes_of_I32 v32) = 4"
  "length (bytes_of_U64 v64) = 8" "length (bytes_of_I64 v64) = 8"
  by (simp_all add: bytes_of_U16_def bytes_of_I16_def bytes_of_U32_def bytes_of_I32_def
      bytes_of_U64_def bytes_of_I64_def)

lemma U16_of_bytes_of [simp]: "U16_of_bytes (bytes_of_U16 v) = v"
  by (rule bit_word_eqI) (auto simp: U16_of_bytes_def bytes_of_U16_def bit_simps)

lemma byte_position:
  fixes n m :: nat
  assumes "n < 8 * m"
  obtains q k where "n = 8 * q + k" "k < 8" "q < m"
proof
  show "n = 8 * (n div 8) + n mod 8" by simp
  show "n mod 8 < 8" by simp
  show "n div 8 < m" using assms by (simp add: less_mult_imp_div_less mult.commute)
qed

lemma U32_of_bytes_of [simp]: "U32_of_bytes (bytes_of_U32 v) = v"
proof (rule bit_word_eqI)
  fix n assume "n < LENGTH(32)"
  then obtain q k where n: "n = 8 * q + k" "k < 8" "q < 4"
    using byte_position [of n 4] by auto
  from n(3) have "q = 0 \<or> q = 1 \<or> q = 2 \<or> q = 3"
    by arith
  then show "bit (U32_of_bytes (bytes_of_U32 v)) n \<longleftrightarrow> bit v n"
    by (elim disjE) (use n in \<open>simp_all add: U32_of_bytes_def bytes_of_U32_def bit_simps\<close>)
qed

lemma U64_of_bytes_of [simp]: "U64_of_bytes (bytes_of_U64 v) = v"
proof (rule bit_word_eqI)
  fix n assume "n < LENGTH(64)"
  then obtain q k where n: "n = 8 * q + k" "k < 8" "q < 8"
    using byte_position [of n 8] by auto
  from n(3) have "q = 0 \<or> q = 1 \<or> q = 2 \<or> q = 3 \<or> q = 4 \<or> q = 5 \<or> q = 6 \<or> q = 7"
    by arith
  then show "bit (U64_of_bytes (bytes_of_U64 v)) n \<longleftrightarrow> bit v n"
    by (elim disjE) (use n in \<open>simp_all add: U64_of_bytes_def bytes_of_U64_def bit_simps\<close>)
qed

lemma bytes_of_I16_eq: "bytes_of_I16 v = bytes_of_U16 v"
  unfolding bytes_of_I16_def bytes_of_U16_def
  by (auto intro!: bit_word_eqI simp: bit_simps)

lemma bytes_of_I32_eq: "bytes_of_I32 v = bytes_of_U32 v"
  unfolding bytes_of_I32_def bytes_of_U32_def
  by (auto intro!: bit_word_eqI simp: bit_simps min_def)

lemma bytes_of_I64_eq: "bytes_of_I64 v = bytes_of_U64 v"
  unfolding bytes_of_I64_def bytes_of_U64_def
  by (auto intro!: bit_word_eqI simp: bit_simps min_def)

lemma byte_high_bit: "8 \<le> n \<Longrightarrow> \<not> bit (b :: U8) n"
  using bit_imp_le_length [of b n] by auto

lemma bytes_of_U32_of [simp]: "bytes_of_U32 (U32_of_bytes [a, b, c, d]) = [a, b, c, d]"
  unfolding bytes_of_U32_def U32_of_bytes_def
  by (auto intro!: bit_word_eqI simp: bit_simps byte_high_bit)

lemma bytes_of_U16_of [simp]: "bytes_of_U16 (U16_of_bytes [a, b]) = [a, b]"
  unfolding bytes_of_U16_def U16_of_bytes_def
  by (auto intro!: bit_word_eqI simp: bit_simps byte_high_bit)

section \<open>Serialization\<close>

text \<open>
  The body the fixed-width overloads share: the room check in 32-bit arithmetic, the address
  assertion, the byte stores, then both offsets. \<open>write_at\<close> is \<^const>\<open>None\<close> when a store
  would land outside the storage.
\<close>

definition ser_fixed :: "ser_buf \<Rightarrow> U8 list \<Rightarrow> (SerializeStatus \<times> ser_buf) option" where
  "ser_fixed b bs =
     (let n = of_nat (length bs) in
      if m_serLoc b + n - 1 \<ge> getBuffCapacity b then Some (FW_SERIALIZE_NO_ROOM_LEFT, b)
      else do {
        fw_assert (\<not> m_null b);
        d \<leftarrow> write_at (m_data b) (unat (m_serLoc b)) bs;
        Some (FW_SERIALIZE_OK, b\<lparr>m_data := d, m_serLoc := m_serLoc b + n, m_deserLoc := 0\<rparr>)
      })"

definition serialize_U8 :: "ser_buf \<Rightarrow> U8 \<Rightarrow> (SerializeStatus \<times> ser_buf) option" where
  "serialize_U8 b v = ser_fixed b [v]"

definition serialize_I8 :: "ser_buf \<Rightarrow> I8 \<Rightarrow> (SerializeStatus \<times> ser_buf) option" where
  "serialize_I8 b v = ser_fixed b [v]"

definition serialize_U16 :: "ser_buf \<Rightarrow> U16 \<Rightarrow> (SerializeStatus \<times> ser_buf) option" where
  "serialize_U16 b v = ser_fixed b (bytes_of_U16 v)"

definition serialize_I16 :: "ser_buf \<Rightarrow> I16 \<Rightarrow> (SerializeStatus \<times> ser_buf) option" where
  "serialize_I16 b v = ser_fixed b (bytes_of_I16 v)"

definition serialize_U32 :: "ser_buf \<Rightarrow> U32 \<Rightarrow> (SerializeStatus \<times> ser_buf) option" where
  "serialize_U32 b v = ser_fixed b (bytes_of_U32 v)"

definition serialize_I32 :: "ser_buf \<Rightarrow> I32 \<Rightarrow> (SerializeStatus \<times> ser_buf) option" where
  "serialize_I32 b v = ser_fixed b (bytes_of_I32 v)"

definition serialize_U64 :: "ser_buf \<Rightarrow> U64 \<Rightarrow> (SerializeStatus \<times> ser_buf) option" where
  "serialize_U64 b v = ser_fixed b (bytes_of_U64 v)"

definition serialize_I64 :: "ser_buf \<Rightarrow> I64 \<Rightarrow> (SerializeStatus \<times> ser_buf) option" where
  "serialize_I64 b v = ser_fixed b (bytes_of_I64 v)"

definition serialize_F64 :: "ser_buf \<Rightarrow> F64 \<Rightarrow> (SerializeStatus \<times> ser_buf) option" where
  "serialize_F64 b v = serialize_U64 b v"

definition serialize_F32 :: "ser_buf \<Rightarrow> F32 \<Rightarrow> (SerializeStatus \<times> ser_buf) option" where
  "serialize_F32 b v = serialize_U32 b v"

definition FW_SERIALIZE_TRUE_VALUE :: U8 where
  "FW_SERIALIZE_TRUE_VALUE = 0xFF"

definition FW_SERIALIZE_FALSE_VALUE :: U8 where
  "FW_SERIALIZE_FALSE_VALUE = 0x00"

definition serialize_bool :: "ser_buf \<Rightarrow> bool \<Rightarrow> (SerializeStatus \<times> ser_buf) option" where
  "serialize_bool b v =
     ser_fixed b [if v then FW_SERIALIZE_TRUE_VALUE else FW_SERIALIZE_FALSE_VALUE]"

text \<open>\<open>serialize(const void*)\<close>, on a target with 8-byte pointers.\<close>

definition serialize_ptr :: "ser_buf \<Rightarrow> U64 \<Rightarrow> (SerializeStatus \<times> ser_buf) option" where
  "serialize_ptr b v =
     (if m_serLoc b + 8 - 1 \<ge> getBuffCapacity b then Some (FW_SERIALIZE_NO_ROOM_LEFT, b)
      else serialize_U64 b v)"

text \<open>
  \<open>serialize(const U8* buff, NATIVE_UINT_TYPE length, bool noLength)\<close>: the length goes first,
  cut to the 16 bits of \<open>FwBuffSizeType\<close>; the room check comes after it.
\<close>

definition serialize_bytes ::
  "ser_buf \<Rightarrow> U8 list \<Rightarrow> U32 \<Rightarrow> bool \<Rightarrow> (SerializeStatus \<times> ser_buf) option" where
  "serialize_bytes b buff len noLength = do {
     (stat, b1) \<leftarrow>
        (if \<not> noLength then serialize_U16 b (ucast len) else Some (FW_SERIALIZE_OK, b));
     if stat \<noteq> FW_SERIALIZE_OK then Some (stat, b1)
     else if m_serLoc b1 + len > getBuffCapacity b1 then Some (FW_SERIALIZE_NO_ROOM_LEFT, b1)
     else do {
       src \<leftarrow> read_at buff 0 (unat len);
       d \<leftarrow> write_at (m_data b1) (unat (m_serLoc b1)) src;
       Some (FW_SERIALIZE_OK, b1\<lparr>m_data := d, m_serLoc := m_serLoc b1 + len, m_deserLoc := 0\<rparr>)
     }
   }"

text \<open>\<open>serialize(const SerializeBufferBase&)\<close>: length and contents of another buffer.\<close>

definition serialize_ser_buf ::
  "ser_buf \<Rightarrow> ser_buf \<Rightarrow> (SerializeStatus \<times> ser_buf) option" where
  "serialize_ser_buf b val =
     (let size = getBuffLength val in
      if m_serLoc b + size + 2 > getBuffCapacity b then Some (FW_SERIALIZE_NO_ROOM_LEFT, b)
      else do {
        (stat, b1) \<leftarrow> serialize_U16 b (ucast size);
        if stat \<noteq> FW_SERIALIZE_OK then Some (stat, b1)
        else do {
          fw_assert (\<not> m_null b1);
          fw_assert (\<not> m_null val);
          src \<leftarrow> read_at (m_data val) 0 (unat size);
          d \<leftarrow> write_at (m_data b1) (unat (m_serLoc b1)) src;
          Some (FW_SERIALIZE_OK,
                b1\<lparr>m_data := d, m_serLoc := m_serLoc b1 + size, m_deserLoc := 0\<rparr>)
        }
      })"

section \<open>Deserialization\<close>

text \<open>
  An out-parameter that is written on success only: the result is \<^const>\<open>Inl\<close> of the error
  status or \<^const>\<open>Inr\<close> of the value.
\<close>

definition deser_fixed ::
  "nat \<Rightarrow> (U8 list \<Rightarrow> 'a) \<Rightarrow> ser_buf \<Rightarrow> ((SerializeStatus + 'a) \<times> ser_buf) option" where
  "deser_fixed n dec b =
     (if getBuffLength b = m_deserLoc b then Some (Inl FW_DESERIALIZE_BUFFER_EMPTY, b)
      else if getBuffLength b - m_deserLoc b < of_nat n
      then Some (Inl FW_DESERIALIZE_SIZE_MISMATCH, b)
      else do {
        fw_assert (\<not> m_null b);
        bs \<leftarrow> read_at (m_data b) (unat (m_deserLoc b)) n;
        Some (Inr (dec bs), b\<lparr>m_deserLoc := m_deserLoc b + of_nat n\<rparr>)
      })"

definition deserialize_U8 :: "ser_buf \<Rightarrow> ((SerializeStatus + U8) \<times> ser_buf) option" where
  "deserialize_U8 b = deser_fixed 1 (\<lambda>bs. bs ! 0) b"

definition deserialize_I8 :: "ser_buf \<Rightarrow> ((SerializeStatus + I8) \<times> ser_buf) option" where
  "deserialize_I8 b = deser_fixed 1 (\<lambda>bs. bs ! 0) b"

definition deserialize_U16 :: "ser_buf \<Rightarrow> ((SerializeStatus + U16) \<times> ser_buf) option" where
  "deserialize_U16 b = deser_fixed 2 U16_of_bytes b"

definition deserialize_I16 :: "ser_buf \<Rightarrow> ((SerializeStatus + I16) \<times> ser_buf) option" where
  "deserialize_I16 b = deser_fixed 2 U16_of_bytes b"

definition deserialize_U32 :: "ser_buf \<Rightarrow> ((SerializeStatus + U32) \<times> ser_buf) option" where
  "deserialize_U32 b = deser_fixed 4 U32_of_bytes b"

definition deserialize_I32 :: "ser_buf \<Rightarrow> ((SerializeStatus + I32) \<times> ser_buf) option" where
  "deserialize_I32 b = deser_fixed 4 U32_of_bytes b"

definition deserialize_U64 :: "ser_buf \<Rightarrow> ((SerializeStatus + U64) \<times> ser_buf) option" where
  "deserialize_U64 b = deser_fixed 8 U64_of_bytes b"

definition deserialize_I64 :: "ser_buf \<Rightarrow> ((SerializeStatus + I64) \<times> ser_buf) option" where
  "deserialize_I64 b = deser_fixed 8 U64_of_bytes b"

definition deserialize_F64 :: "ser_buf \<Rightarrow> ((SerializeStatus + F64) \<times> ser_buf) option" where
  "deserialize_F64 b = deserialize_U64 b"

definition deserialize_F32 :: "ser_buf \<Rightarrow> ((SerializeStatus + F32) \<times> ser_buf) option" where
  "deserialize_F32 b = deserialize_U32 b"

definition deserialize_ptr :: "ser_buf \<Rightarrow> ((SerializeStatus + U64) \<times> ser_buf) option" where
  "deserialize_ptr b = deserialize_U64 b"

definition deserialize_bool :: "ser_buf \<Rightarrow> ((SerializeStatus + bool) \<times> ser_buf) option" where
  "deserialize_bool b =
     (if getBuffLength b = m_deserLoc b then Some (Inl FW_DESERIALIZE_BUFFER_EMPTY, b)
      else if getBuffLength b - m_deserLoc b < 1 then Some (Inl FW_DESERIALIZE_SIZE_MISMATCH, b)
      else do {
        fw_assert (\<not> m_null b);
        bs \<leftarrow> read_at (m_data b) (unat (m_deserLoc b)) 1;
        if FW_SERIALIZE_TRUE_VALUE = bs ! 0
        then Some (Inr True, b\<lparr>m_deserLoc := m_deserLoc b + 1\<rparr>)
        else if FW_SERIALIZE_FALSE_VALUE = bs ! 0
        then Some (Inr False, b\<lparr>m_deserLoc := m_deserLoc b + 1\<rparr>)
        else Some (Inl FW_DESERIALIZE_FORMAT_ERROR, b)
      })"

text \<open>
  \<open>deserialize(U8* buff, NATIVE_UINT_TYPE& length, bool noLength)\<close>: \<open>len\<close> is the size of
  the caller's array; the result is the list of bytes copied into it, whose length is the value
  left in \<open>length\<close>.
\<close>

definition deserialize_bytes ::
  "ser_buf \<Rightarrow> U32 \<Rightarrow> bool \<Rightarrow> ((SerializeStatus + U8 list) \<times> ser_buf) option" where
  "deserialize_bytes b len noLength = do {
     fw_assert (\<not> m_null b);
     if \<not> noLength then do {
       (r, b1) \<leftarrow> deserialize_U16 b;
       case r of
         Inl e \<Rightarrow> Some (Inl e, b1)
       | Inr stored \<Rightarrow>
           if ucast stored > getBuffLeft b1 \<or> ucast stored > len
           then Some (Inl FW_DESERIALIZE_SIZE_MISMATCH, b1)
           else do {
             bs \<leftarrow> read_at (m_data b1) (unat (m_deserLoc b1)) (unat stored);
             Some (Inr bs, b1\<lparr>m_deserLoc := m_deserLoc b1 + ucast stored\<rparr>)
           }
     }
     else if len > getBuffLeft b then Some (Inl FW_DESERIALIZE_SIZE_MISMATCH, b)
     else do {
       bs \<leftarrow> read_at (m_data b) (unat (m_deserLoc b)) (unat len);
       Some (Inr bs, b\<lparr>m_deserLoc := m_deserLoc b + len\<rparr>)
     }
   }"

section \<open>Whole-buffer operations\<close>

definition resetSer :: "ser_buf \<Rightarrow> ser_buf" where
  "resetSer b = b\<lparr>m_deserLoc := 0, m_serLoc := 0\<rparr>"

definition resetDeser :: "ser_buf \<Rightarrow> ser_buf" where
  "resetDeser b = b\<lparr>m_deserLoc := 0\<rparr>"

definition deserializeSkip :: "ser_buf \<Rightarrow> U32 \<Rightarrow> SerializeStatus \<times> ser_buf" where
  "deserializeSkip b numBytesToSkip =
     (if getBuffLength b = m_deserLoc b then (FW_DESERIALIZE_BUFFER_EMPTY, b)
      else if getBuffLength b - m_deserLoc b < numBytesToSkip
      then (FW_DESERIALIZE_SIZE_MISMATCH, b)
      else (FW_SERIALIZE_OK, b\<lparr>m_deserLoc := m_deserLoc b + numBytesToSkip\<rparr>))"

text \<open>The source array of \<open>setBuff\<close> is \<^const>\<open>None\<close> for a null pointer.\<close>

definition setBuff ::
  "ser_buf \<Rightarrow> U8 list option \<Rightarrow> U32 \<Rightarrow> (SerializeStatus \<times> ser_buf) option" where
  "setBuff b src len =
     (if getBuffCapacity b < len then Some (FW_SERIALIZE_NO_ROOM_LEFT, b)
      else do {
        s \<leftarrow> src;
        fw_assert (\<not> m_null b);
        bs \<leftarrow> read_at s 0 (unat len);
        d \<leftarrow> write_at (m_data b) 0 bs;
        Some (FW_SERIALIZE_OK, b\<lparr>m_data := d, m_serLoc := len, m_deserLoc := 0\<rparr>)
      })"

definition setBuffLen :: "ser_buf \<Rightarrow> U32 \<Rightarrow> SerializeStatus \<times> ser_buf" where
  "setBuffLen b len =
     (if getBuffCapacity b < len then (FW_SERIALIZE_NO_ROOM_LEFT, b)
      else (FW_SERIALIZE_OK, b\<lparr>m_serLoc := len, m_deserLoc := 0\<rparr>))"

definition copyFrom :: "ser_buf \<Rightarrow> ser_buf \<Rightarrow> ser_buf option" where
  "copyFrom b src = (
     let b1 = b\<lparr>m_serLoc := m_serLoc src, m_deserLoc := m_deserLoc src\<rparr> in do {
       fw_assert (\<not> m_null src);
       fw_assert (\<not> m_null b1);
       fw_assert (getBuffLength src \<le> getBuffCapacity b1);
       bs \<leftarrow> read_at (m_data src) 0 (unat (m_serLoc b1));
       d \<leftarrow> write_at (m_data b1) 0 bs;
       Some (b1\<lparr>m_data := d\<rparr>)
     })"

text \<open>\<open>copyRaw\<close> and \<open>copyRawOffset\<close> return the status, this buffer and the destination.\<close>

definition copyRaw ::
  "ser_buf \<Rightarrow> ser_buf \<Rightarrow> U32 \<Rightarrow> (SerializeStatus \<times> ser_buf \<times> ser_buf) option" where
  "copyRaw b dest sz =
     (if getBuffCapacity dest < sz then Some (FW_SERIALIZE_NO_ROOM_LEFT, b, dest)
      else do {
        (stat, dest1) \<leftarrow>
           setBuff dest
             (if m_null b then None else Some (drop (unat (m_deserLoc b)) (m_data b))) sz;
        Some (stat,
              (if stat = FW_SERIALIZE_OK then b\<lparr>m_deserLoc := m_deserLoc b + sz\<rparr> else b),
              dest1)
      })"

definition copyRawOffset ::
  "ser_buf \<Rightarrow> ser_buf \<Rightarrow> U32 \<Rightarrow> (SerializeStatus \<times> ser_buf \<times> ser_buf) option" where
  "copyRawOffset b dest sz =
     (if getBuffCapacity dest < sz + getBuffLength dest
      then Some (FW_SERIALIZE_NO_ROOM_LEFT, b, dest)
      else if getBuffLeft b < sz then Some (FW_DESERIALIZE_SIZE_MISMATCH, b, dest)
      else do {
        (stat, dest1) \<leftarrow>
           serialize_bytes dest (drop (unat (m_deserLoc b)) (m_data b)) sz True;
        Some (stat,
              (if stat = FW_SERIALIZE_OK then b\<lparr>m_deserLoc := m_deserLoc b + sz\<rparr> else b),
              dest1)
      })"

text \<open>
  \<open>deserialize(SerializeBufferBase& val)\<close>: a length and that many bytes into another buffer.
  It returns the status, the destination and this buffer.
\<close>

definition deserialize_ser_buf ::
  "ser_buf \<Rightarrow> ser_buf \<Rightarrow> (SerializeStatus \<times> ser_buf \<times> ser_buf) option" where
  "deserialize_ser_buf b val = do {
     fw_assert (\<not> m_null val);
     (r, b1) \<leftarrow> deserialize_U16 b;
     case r of
       Inl e \<Rightarrow> Some (e, val, b1)
     | Inr stored \<Rightarrow>
         if ucast stored > getBuffCapacity val \<or> ucast stored > getBuffLeft b1
         then Some (FW_DESERIALIZE_SIZE_MISMATCH, val, b1)
         else do {
           fw_assert (\<not> m_null b1);
           bs \<leftarrow> read_at (m_data b1) (unat (m_deserLoc b1)) (unat stored);
           d \<leftarrow> write_at (m_data val) 0 bs;
           (case setBuffLen (val\<lparr>m_data := d\<rparr>) (ucast stored) of
              (stat, val1) \<Rightarrow>
                if stat \<noteq> FW_SERIALIZE_OK then Some (stat, val1, b1)
                else Some (FW_SERIALIZE_OK, val1,
                           b1\<lparr>m_deserLoc := m_deserLoc b1 + ucast stored\<rparr>))
         }
   }"

end
