(* ===== verification/Ser_Spec.thy ===== *)
theory Ser_Spec
  imports Ser_Buffer
begin

text \<open>
  The contract of the serialization buffer: a well-formed buffer is a byte string
  (\<open>contents\<close>) with a read position (\<open>unread\<close> is what is left), \<open>serialize\<close> appends the
  byte image of its value or leaves the buffer as it is, \<open>deserialize\<close> takes the image off
  the front. The locale \<open>codec\<close> states this for one type, \<open>atomic_codec\<close> adds that a
  failed operation changes nothing, and the overloads of Ser_Buffer interpret them.
\<close>

section \<open>Well-formed buffers and their contents\<close>

definition ser_wf :: "ser_buf \<Rightarrow> bool" where
  "ser_wf b \<longleftrightarrow> length (m_data b) < 2147483648 \<and> unat (m_deserLoc b) \<le> unat (m_serLoc b) \<and>
     unat (m_serLoc b) \<le> length (m_data b) \<and> (m_null b \<longrightarrow> m_data b = [])"

definition contents :: "ser_buf \<Rightarrow> U8 list" where
  "contents b = take (unat (m_serLoc b)) (m_data b)"

definition unread :: "ser_buf \<Rightarrow> U8 list" where
  "unread b = drop (unat (m_deserLoc b)) (contents b)"

definition room :: "ser_buf \<Rightarrow> nat" where
  "room b = length (m_data b) - unat (m_serLoc b)"

definition append_to :: "ser_buf \<Rightarrow> U8 list \<Rightarrow> ser_buf" where
  "append_to b bs =
     b\<lparr>m_data := take (unat (m_serLoc b)) (m_data b) @ bs
                  @ drop (unat (m_serLoc b) + length bs) (m_data b),
       m_serLoc := m_serLoc b + of_nat (length bs), m_deserLoc := 0\<rparr>"

definition consume :: "ser_buf \<Rightarrow> nat \<Rightarrow> ser_buf" where
  "consume b n = b\<lparr>m_deserLoc := m_deserLoc b + of_nat n\<rparr>"

named_theorems buf_simps \<open>how the buffer operations act on contents, unread bytes and room\<close>

lemma length_contents: "ser_wf b \<Longrightarrow> length (contents b) = unat (m_serLoc b)"
  by (simp add: ser_wf_def contents_def)

lemma length_unread:
  "ser_wf b \<Longrightarrow> length (unread b) = unat (m_serLoc b) - unat (m_deserLoc b)"
  by (simp add: unread_def length_contents)

lemma unread_Nil_iff: "ser_wf b \<Longrightarrow> unread b = [] \<longleftrightarrow> m_serLoc b = m_deserLoc b"
  by (auto simp: length_0_conv [symmetric] length_unread ser_wf_def
      intro: word_unat_eq_iff [THEN iffD2] simp del: length_0_conv)

lemma unat_getBuffLeft: "ser_wf b \<Longrightarrow> unat (getBuffLeft b) = length (unread b)"
  by (simp add: getBuffLeft_def length_unread unat_sub_small ser_wf_def)

lemma unat_getBuffCapacity: "ser_wf b \<Longrightarrow> unat (getBuffCapacity b) = length (m_data b)"
  by (simp add: getBuffCapacity_def unat_of_nat32 ser_wf_def)

lemma unat_getBuffLength: "ser_wf b \<Longrightarrow> unat (getBuffLength b) = length (contents b)"
  by (simp add: getBuffLength_def length_contents)

lemma append_to_serLoc:
  assumes "ser_wf b" "length bs \<le> room b"
  shows "unat (m_serLoc (append_to b bs)) = unat (m_serLoc b) + length bs"
proof -
  have "unat (m_serLoc b) + length bs < 4294967296"
    using assms unfolding ser_wf_def room_def by linarith
  then show ?thesis
    by (simp add: append_to_def unat_add_small unat_of_nat32)
qed

lemma append_to_facts [buf_simps]:
  assumes "ser_wf b" "length bs \<le> room b"
  shows append_to_wf: "ser_wf (append_to b bs)"
    and append_to_contents: "contents (append_to b bs) = contents b @ bs"
    and append_to_unread: "unread (append_to b bs) = contents b @ bs"
    and append_to_room: "room (append_to b bs) = room b - length bs"
proof -
  have len: "length (m_data (append_to b bs)) = length (m_data b)"
    using assms by (auto simp: append_to_def ser_wf_def room_def)
  have bs: "m_null b \<Longrightarrow> bs = []"
    using assms by (simp add: ser_wf_def room_def)
  show "ser_wf (append_to b bs)"
    using assms bs len append_to_serLoc [OF assms]
    by (auto simp: ser_wf_def room_def append_to_def)
  show c: "contents (append_to b bs) = contents b @ bs"
    unfolding contents_def append_to_serLoc [OF assms]
    using assms by (simp add: append_to_def ser_wf_def)
  show "unread (append_to b bs) = contents b @ bs"
    unfolding unread_def c by (simp add: append_to_def)
  show "room (append_to b bs) = room b - length bs"
    unfolding room_def append_to_serLoc [OF assms] len by simp
qed

lemma append_to_append:
  assumes "ser_wf b" "length bs + length cs \<le> room b"
  shows "append_to (append_to b bs) cs = append_to b (bs @ cs)"
proof -
  have s: "unat (m_serLoc (append_to b bs)) = unat (m_serLoc b) + length bs"
    by (rule append_to_serLoc) (use assms in auto)
  show ?thesis
    unfolding append_to_def [of "append_to b bs"] s
    using assms
    by (simp add: append_to_def [of b] ser_wf_def room_def add.assoc add.commute [of "length cs"])
qed

lemma consume_facts [buf_simps]:
  assumes "ser_wf b" "n \<le> length (unread b)"
  shows consume_wf: "ser_wf (consume b n)"
    and consume_contents: "contents (consume b n) = contents b"
    and consume_unread: "unread (consume b n) = drop n (unread b)"
    and consume_room: "room (consume b n) = room b"
proof -
  have "unat (m_deserLoc b) + n \<le> unat (m_serLoc b)"
    using assms length_unread [OF assms(1)] unfolding ser_wf_def by linarith
  moreover from this have "unat (m_deserLoc b + of_nat n) = unat (m_deserLoc b) + n"
  proof -
    have "unat (m_deserLoc b) + n < 4294967296"
      using calculation unat_lt32 [of "m_serLoc b"] by linarith
    then show ?thesis by (simp add: unat_add_small unat_of_nat32)
  qed
  ultimately show "ser_wf (consume b n)" and "unread (consume b n) = drop n (unread b)"
    using assms by (auto simp: ser_wf_def consume_def unread_def contents_def add.commute)
  show "contents (consume b n) = contents b" and "room (consume b n) = room b"
    by (simp_all add: consume_def contents_def room_def)
qed

lemma consume_consume:
  "consume (consume b m) n = consume b (m + n)"
  by (simp add: consume_def add.assoc)

lemma consume_sel [simp]:
  "m_null (consume b n) = m_null b" "m_data (consume b n) = m_data b"
  "m_serLoc (consume b n) = m_serLoc b"
  by (simp_all add: consume_def)

lemma consume_0 [simp]: "consume b 0 = b"
  by (simp add: consume_def)

section \<open>The shared bodies\<close>

lemma ser_fixed_ok:
  assumes "ser_wf b" "0 < length bs" "length bs \<le> room b"
  shows "ser_fixed b bs = Some (FW_SERIALIZE_OK, append_to b bs)"
proof -
  have b: "unat (m_serLoc b) + length bs \<le> length (m_data b)" "length (m_data b) < 2147483648"
    using assms by (auto simp: ser_wf_def room_def)
  have u: "unat (m_serLoc b + of_nat (length bs)) = unat (m_serLoc b) + length bs"
    using b by (simp add: unat_add_small unat_of_nat32)
  have "unat (m_serLoc b + of_nat (length bs) - 1) = unat (m_serLoc b) + length bs - 1"
    using assms(2) u unat_dec [of "m_serLoc b + of_nat (length bs)"] by linarith
  then have "unat (m_serLoc b + of_nat (length bs) - 1) < unat (getBuffCapacity b)"
    using b(1) assms(2) unat_getBuffCapacity [OF assms(1)] by linarith
  then have "\<not> m_serLoc b + of_nat (length bs) - 1 \<ge> getBuffCapacity b"
    by (simp add: word_le_nat_alt)
  moreover have "\<not> m_null b"
    using assms by (auto simp: ser_wf_def room_def)
  ultimately show ?thesis
    using b by (simp add: ser_fixed_def write_at_in_bounds append_to_def Let_def)
qed

lemma ser_fixed_full:
  assumes "ser_wf b" "0 < length bs" "length bs < 2147483648" "room b < length bs"
  shows "ser_fixed b bs = Some (FW_SERIALIZE_NO_ROOM_LEFT, b)"
proof -
  have b: "unat (m_serLoc b) \<le> length (m_data b)" "length (m_data b) < 2147483648"
    using assms by (auto simp: ser_wf_def room_def)
  have u: "unat (m_serLoc b + of_nat (length bs)) = unat (m_serLoc b) + length bs"
    using b assms by (simp add: unat_add_small unat_of_nat32)
  have "unat (m_serLoc b + of_nat (length bs) - 1) = unat (m_serLoc b) + length bs - 1"
    using assms(2) u unat_dec [of "m_serLoc b + of_nat (length bs)"] by linarith
  then have "m_serLoc b + of_nat (length bs) - 1 \<ge> getBuffCapacity b"
    using b assms by (simp add: word_le_nat_alt unat_getBuffCapacity room_def)
  then show ?thesis
    by (simp add: ser_fixed_def Let_def)
qed

lemma unat_unread_left:
  "ser_wf b \<Longrightarrow> unat (getBuffLength b - m_deserLoc b) = length (unread b)"
  using unat_getBuffLeft [of b] by (simp add: getBuffLeft_def getBuffLength_def)

lemma deser_fixed_ok:
  assumes "ser_wf b" "0 < n" "n \<le> length (unread b)"
  shows "deser_fixed n dec b = Some (Inr (dec (take n (unread b))), consume b n)"
proof -
  have ne: "getBuffLength b \<noteq> m_deserLoc b"
    using assms unread_Nil_iff [OF assms(1)] by (auto simp: getBuffLength_def)
  have n: "n < 4294967296"
    using assms(3) length_unread [OF assms(1)] unat_lt32 [of "m_serLoc b"] by linarith
  have "\<not> getBuffLength b - m_deserLoc b < of_nat n"
    using assms n by (simp add: word_less_nat_alt unat_unread_left unat_of_nat32)
  moreover have bd: "unat (m_deserLoc b) + n \<le> unat (m_serLoc b)"
    "unat (m_serLoc b) \<le> length (m_data b)"
    using assms by (auto simp: length_unread ser_wf_def)
  moreover have "\<not> m_null b"
    using assms bd by (auto simp: ser_wf_def)
  moreover have "take n (unread b) = take n (drop (unat (m_deserLoc b)) (m_data b))"
    using bd by (simp add: unread_def contents_def drop_take min_def)
  ultimately show ?thesis
    using ne by (simp add: deser_fixed_def read_at_in_bounds consume_def)
qed

lemma deser_fixed_short:
  assumes "ser_wf b" "length (unread b) < n" "n < 2147483648"
  shows "deser_fixed n dec b =
    Some (Inl (if unread b = [] then FW_DESERIALIZE_BUFFER_EMPTY
               else FW_DESERIALIZE_SIZE_MISMATCH), b)"
proof -
  have "getBuffLength b - m_deserLoc b < of_nat n"
    using assms by (simp add: word_less_nat_alt unat_unread_left unat_of_nat32)
  then show ?thesis
    using unread_Nil_iff [OF assms(1)] by (auto simp: deser_fixed_def getBuffLength_def)
qed

lemma deser_fixed_image:
  assumes "ser_wf b" "unread b = bs @ rest" "0 < n" "length bs = n"
  shows "deser_fixed n dec b = Some (Inr (dec bs), consume b n)"
  using deser_fixed_ok [OF assms(1,3), of dec] assms by simp

section \<open>Calls one after the other\<close>

text \<open>
  The shape of every hand-written \<open>serialize\<close> and \<open>deserialize\<close>: a call, a return of its status
  if it is not \<open>FW_SERIALIZE_OK\<close>, then the rest.
\<close>

definition ser_then ::
  "(SerializeStatus \<times> ser_buf) option \<Rightarrow> (ser_buf \<Rightarrow> (SerializeStatus \<times> ser_buf) option) \<Rightarrow>
     (SerializeStatus \<times> ser_buf) option" where
  "ser_then r rest = do {
     (stat, b) \<leftarrow> r;
     if stat \<noteq> FW_SERIALIZE_OK then Some (stat, b) else rest b
   }"

definition deser_then ::
  "((SerializeStatus + 'a) \<times> ser_buf) option \<Rightarrow>
     ('a \<Rightarrow> ser_buf \<Rightarrow> ((SerializeStatus + 'b) \<times> ser_buf) option) \<Rightarrow>
     ((SerializeStatus + 'b) \<times> ser_buf) option" where
  "deser_then r rest = do {
     (res, b) \<leftarrow> r;
     (case res of Inl e \<Rightarrow> Some (Inl e, b) | Inr v \<Rightarrow> rest v b)
   }"

lemma ser_then_simps [simp]:
  "ser_then (Some (FW_SERIALIZE_OK, b)) rest = rest b"
  "stat \<noteq> FW_SERIALIZE_OK \<Longrightarrow> ser_then (Some (stat, b)) rest = Some (stat, b)"
  by (simp_all add: ser_then_def)

lemma deser_then_simps [simp]:
  "deser_then (Some (Inr v, b)) rest = rest v b"
  "deser_then (Some (Inl e, b)) rest = Some (Inl e, b)"
  by (simp_all add: deser_then_def)

section \<open>The contract of a serializable type\<close>

text \<open>Serializing or deserializing a list of values stops at the first bad status.\<close>

fun put_all ::
  "(ser_buf \<Rightarrow> 'a \<Rightarrow> (SerializeStatus \<times> ser_buf) option) \<Rightarrow> ser_buf \<Rightarrow> 'a list
     \<Rightarrow> (SerializeStatus \<times> ser_buf) option" where
  "put_all put b [] = Some (FW_SERIALIZE_OK, b)"
| "put_all put b (v # vs) = do {
     (stat, b1) \<leftarrow> put b v;
     if stat \<noteq> FW_SERIALIZE_OK then Some (stat, b1) else put_all put b1 vs
   }"

fun get_all ::
  "(ser_buf \<Rightarrow> ((SerializeStatus + 'a) \<times> ser_buf) option) \<Rightarrow> nat \<Rightarrow> ser_buf
     \<Rightarrow> ((SerializeStatus + 'a list) \<times> ser_buf) option" where
  "get_all get 0 b = Some (Inr [], b)"
| "get_all get (Suc n) b = do {
     (r, b1) \<leftarrow> get b;
     case r of
       Inl e \<Rightarrow> Some (Inl e, b1)
     | Inr v \<Rightarrow> do {
         (rs, b2) \<leftarrow> get_all get n b1;
         Some ((case rs of Inl e \<Rightarrow> Inl e | Inr vs \<Rightarrow> Inr (v # vs)), b2)
       }
   }"

definition put_pair ::
  "(ser_buf \<Rightarrow> 'a \<Rightarrow> (SerializeStatus \<times> ser_buf) option) \<Rightarrow>
   (ser_buf \<Rightarrow> 'b \<Rightarrow> (SerializeStatus \<times> ser_buf) option) \<Rightarrow>
   ser_buf \<Rightarrow> 'a \<times> 'b \<Rightarrow> (SerializeStatus \<times> ser_buf) option" where
  "put_pair put1 put2 b v = do {
     (stat, b1) \<leftarrow> put1 b (fst v);
     if stat \<noteq> FW_SERIALIZE_OK then Some (stat, b1) else put2 b1 (snd v)
   }"

definition get_pair ::
  "(ser_buf \<Rightarrow> ((SerializeStatus + 'a) \<times> ser_buf) option) \<Rightarrow>
   (ser_buf \<Rightarrow> ((SerializeStatus + 'b) \<times> ser_buf) option) \<Rightarrow>
   ser_buf \<Rightarrow> ((SerializeStatus + 'a \<times> 'b) \<times> ser_buf) option" where
  "get_pair get1 get2 b = do {
     (r1, b1) \<leftarrow> get1 b;
     case r1 of
       Inl e \<Rightarrow> Some (Inl e, b1)
     | Inr v \<Rightarrow> do {
         (r2, b2) \<leftarrow> get2 b1;
         Some ((case r2 of Inl e \<Rightarrow> Inl e | Inr w \<Rightarrow> Inr (v, w)), b2)
       }
   }"

locale codec =
  fixes put :: "ser_buf \<Rightarrow> 'a \<Rightarrow> (SerializeStatus \<times> ser_buf) option"
    and get :: "ser_buf \<Rightarrow> ((SerializeStatus + 'a) \<times> ser_buf) option"
    and enc :: "'a \<Rightarrow> U8 list"
  assumes put_ok: "ser_wf b \<Longrightarrow> length (enc v) \<le> room b \<Longrightarrow>
      put b v = Some (FW_SERIALIZE_OK, append_to b (enc v))"
    and get_ok: "ser_wf b \<Longrightarrow> unread b = enc v @ rest \<Longrightarrow>
      get b = Some (Inr v, consume b (length (enc v)))"
begin

lemma put_all_ok:
  "ser_wf b \<Longrightarrow> length (concat (map enc vs)) \<le> room b \<Longrightarrow> vs \<noteq> [] \<Longrightarrow>
     put_all put b vs = Some (FW_SERIALIZE_OK, append_to b (concat (map enc vs)))"
proof (induction vs arbitrary: b)
  case Nil
  then show ?case by simp
next
  case (Cons v vs)
  then have p: "put b v = Some (FW_SERIALIZE_OK, append_to b (enc v))"
    and wf: "ser_wf (append_to b (enc v))"
    by (auto intro: put_ok append_to_wf)
  show ?case
  proof (cases "vs = []")
    case True
    with p show ?thesis by simp
  next
    case False
    have "put_all put (append_to b (enc v)) vs =
        Some (FW_SERIALIZE_OK, append_to (append_to b (enc v)) (concat (map enc vs)))"
      by (rule Cons.IH) (use Cons.prems wf False in \<open>auto simp: append_to_room\<close>)
    with p Cons.prems show ?thesis by (simp add: append_to_append)
  qed
qed

lemma get_all_ok:
  "ser_wf b \<Longrightarrow> unread b = concat (map enc vs) @ rest \<Longrightarrow>
     get_all get (length vs) b = Some (Inr vs, consume b (length (concat (map enc vs))))"
proof (induction vs arbitrary: b)
  case Nil
  then show ?case by simp
next
  case (Cons v vs)
  then have u: "unread b = enc v @ concat (map enc vs) @ rest" by simp
  have g: "get b = Some (Inr v, consume b (length (enc v)))"
    by (rule get_ok) (use Cons.prems u in auto)
  have "get_all get (length vs) (consume b (length (enc v))) =
      Some (Inr vs, consume (consume b (length (enc v))) (length (concat (map enc vs))))"
    by (rule Cons.IH) (use Cons.prems u in \<open>simp_all add: consume_wf consume_unread\<close>)
  with g show ?case by (simp add: consume_consume)
qed

text \<open>What a run of \<open>serialize\<close> calls wrote, as many \<open>deserialize\<close> calls read back.\<close>

lemma roundtrip:
  assumes "ser_wf b" "contents b = []" "length (concat (map enc vs)) \<le> room b" "vs \<noteq> []"
  obtains b' b'' where "put_all put b vs = Some (FW_SERIALIZE_OK, b')"
    "contents b' = concat (map enc vs)"
    "get_all get (length vs) b' = Some (Inr vs, b'')" "unread b'' = []"
proof -
  let ?img = "concat (map enc vs)"
  let ?b' = "append_to b ?img"
  have u: "unread ?b' = ?img" and c: "contents ?b' = ?img" and wf: "ser_wf ?b'"
    using assms by (simp_all add: append_to_unread append_to_contents append_to_wf)
  have "get_all get (length vs) ?b' = Some (Inr vs, consume ?b' (length ?img))"
    by (rule get_all_ok [where rest = "[]"]) (simp_all add: wf u)
  moreover have "unread (consume ?b' (length ?img)) = []"
    using wf u by (simp add: consume_unread)
  ultimately show ?thesis
    using that put_all_ok assms c by blast
qed

end

text \<open>
  Most types keep more: a failed call leaves the buffer as it was. \<open>Time\<close>, whose
  \<open>serialize\<close> writes its members one after the other, does not.
\<close>

locale atomic_codec = codec put get enc
  for put :: "ser_buf \<Rightarrow> 'a \<Rightarrow> (SerializeStatus \<times> ser_buf) option"
    and get :: "ser_buf \<Rightarrow> ((SerializeStatus + 'a) \<times> ser_buf) option"
    and enc :: "'a \<Rightarrow> U8 list" +
  assumes put_full: "ser_wf b \<Longrightarrow> room b < length (enc v) \<Longrightarrow>
      put b v = Some (FW_SERIALIZE_NO_ROOM_LEFT, b)"
    and get_total: "ser_wf b \<Longrightarrow>
      (\<exists>e. get b = Some (Inl e, b)) \<or>
      (\<exists>v rest. unread b = enc v @ rest \<and> get b = Some (Inr v, consume b (length (enc v))))"
    and get_error: "get b = Some (Inl e, b') \<Longrightarrow> e \<noteq> FW_SERIALIZE_OK"
begin

lemma put_cases:
  assumes "ser_wf b"
  shows "put b v = (if length (enc v) \<le> room b then Some (FW_SERIALIZE_OK, append_to b (enc v))
                    else Some (FW_SERIALIZE_NO_ROOM_LEFT, b))"
  using assms put_ok put_full by auto

lemma put_wf: "ser_wf b \<Longrightarrow> put b v = Some (stat, b') \<Longrightarrow> ser_wf b'"
  by (auto simp: put_cases append_to_wf split: if_splits)

text \<open>What a caller sees: an error, or a value and the buffer with the read position moved.\<close>

lemma get_cases:
  assumes "ser_wf b"
  obtains (err) e where "get b = Some (Inl e, b)" "e \<noteq> FW_SERIALIZE_OK"
  | (ok) v b' where "get b = Some (Inr v, b')" "ser_wf b'" "m_null b' = m_null b"
      "m_data b' = m_data b"
  using get_total [OF assms]
proof (elim disjE exE conjE, goal_cases)
  case (1 e)
  then show ?case using get_error by blast
next
  case (2 v rest)
  with assms show ?case by (intro 2(2) [of v "consume b (length (enc v))"]) (simp_all add: consume_wf)
qed

lemma get_wf: "ser_wf b \<Longrightarrow> get b = Some (r, b') \<Longrightarrow> ser_wf b' \<and> contents b' = contents b"
  using get_total [of b] by (auto simp: consume_wf consume_contents)

end

text \<open>Two types serialized one after the other make a third.\<close>

locale codec_pair = c1: codec put1 get1 enc1 + c2: codec put2 get2 enc2
  for put1 :: "ser_buf \<Rightarrow> 'a \<Rightarrow> (SerializeStatus \<times> ser_buf) option"
    and get1 :: "ser_buf \<Rightarrow> ((SerializeStatus + 'a) \<times> ser_buf) option"
    and enc1 :: "'a \<Rightarrow> U8 list"
    and put2 :: "ser_buf \<Rightarrow> 'b \<Rightarrow> (SerializeStatus \<times> ser_buf) option"
    and get2 :: "ser_buf \<Rightarrow> ((SerializeStatus + 'b) \<times> ser_buf) option"
    and enc2 :: "'b \<Rightarrow> U8 list"

sublocale codec_pair \<subseteq> both: codec "put_pair put1 put2" "get_pair get1 get2"
  "\<lambda>v. enc1 (fst v) @ enc2 (snd v)"
proof
  fix b and v :: "'a \<times> 'b"
  assume h: "ser_wf b" "length (enc1 (fst v) @ enc2 (snd v)) \<le> room b"
  then have "ser_wf (append_to b (enc1 (fst v)))"
    and "length (enc2 (snd v)) \<le> room (append_to b (enc1 (fst v)))"
    by (simp_all add: append_to_wf append_to_room)
  with h show "put_pair put1 put2 b v =
      Some (FW_SERIALIZE_OK, append_to b (enc1 (fst v) @ enc2 (snd v)))"
    by (simp add: put_pair_def c1.put_ok c2.put_ok append_to_append)
next
  fix b and v :: "'a \<times> 'b" and rest
  assume h: "ser_wf b" "unread b = (enc1 (fst v) @ enc2 (snd v)) @ rest"
  then have u: "unread b = enc1 (fst v) @ enc2 (snd v) @ rest" by simp
  then have wf: "ser_wf (consume b (length (enc1 (fst v))))"
    and u2: "unread (consume b (length (enc1 (fst v)))) = enc2 (snd v) @ rest"
    using h(1) by (simp_all add: consume_wf consume_unread)
  show "get_pair get1 get2 b = Some (Inr v, consume b (length (enc1 (fst v) @ enc2 (snd v))))"
    by (simp add: get_pair_def c1.get_ok [OF h(1) u] c2.get_ok [OF wf u2] consume_consume)
qed

end
