(* ===== verification/Ser_Codecs.thy ===== *)
theory Ser_Codecs
  imports Ser_Spec
begin

text \<open>
  The overloads of \<open>SerializeBufferBase::serialize\<close> and \<open>deserialize\<close> as instances of the
  buffer contract, and the properties of the buffer as a whole: round trips of mixed packets,
  totality, atomicity, length-prefixed data, and the operations that fall outside the contract.
\<close>

section \<open>The fixed-width overloads\<close>

lemma bytes_of_U64_of [simp]:
  "bytes_of_U64 (U64_of_bytes [a, b, c, d, e, f, g, h]) = [a, b, c, d, e, f, g, h]"
  unfolding bytes_of_U64_def U64_of_bytes_def
  by (simp, intro conjI; rule bit_word_eqI; simp add: bit_simps byte_high_bit)

lemma fixed_atomic_codec:
  assumes "0 < n" "n < 16" "\<And>v. length (enc v) = n" "\<And>v. dec (enc v) = v"
    and "\<And>bs. length bs = n \<Longrightarrow> enc (dec bs) = bs"
  shows "atomic_codec (\<lambda>b v. ser_fixed b (enc v)) (deser_fixed n dec) enc"
proof
  fix b v assume "ser_wf b" "length (enc v) \<le> room b"
  then show "ser_fixed b (enc v) = Some (FW_SERIALIZE_OK, append_to b (enc v))"
    by (intro ser_fixed_ok) (simp_all add: assms)
next
  fix b v rest assume "ser_wf b" "unread b = enc v @ rest"
  then show "deser_fixed n dec b = Some (Inr v, consume b (length (enc v)))"
    by (simp add: deser_fixed_image [where bs = "enc v"] assms)
next
  fix b v assume "ser_wf b" "room b < length (enc v)"
  then show "ser_fixed b (enc v) = Some (FW_SERIALIZE_NO_ROOM_LEFT, b)"
    by (intro ser_fixed_full) (use assms in auto)
next
  fix b assume wf: "ser_wf b"
  show "(\<exists>e. deser_fixed n dec b = Some (Inl e, b)) \<or>
    (\<exists>v rest. unread b = enc v @ rest \<and>
       deser_fixed n dec b = Some (Inr v, consume b (length (enc v))))"
  proof (cases "n \<le> length (unread b)")
    case True
    then have "unread b = enc (dec (take n (unread b))) @ drop n (unread b)"
      by (simp add: assms)
    with True show ?thesis
      using deser_fixed_ok [OF wf assms(1) True, of dec] assms(3) by metis
  next
    case False
    then show ?thesis
      using deser_fixed_short [OF wf, of n dec] assms by auto
  qed
next
  fix b e b' assume "deser_fixed n dec b = Some (Inl e, b')"
  then show "e \<noteq> FW_SERIALIZE_OK"
    by (auto simp: deser_fixed_def split: if_splits bind_splits)
qed

lemmas list_of_length = length_Suc_conv numeral_eq_Suc

interpretation u8: atomic_codec serialize_U8 deserialize_U8 "\<lambda>v. [v]"
proof -
  have "atomic_codec (\<lambda>b v. ser_fixed b [v]) (deser_fixed 1 (\<lambda>bs. bs ! 0)) (\<lambda>v. [v])"
    by (rule fixed_atomic_codec) (auto simp: length_Suc_conv)
  then show "atomic_codec serialize_U8 deserialize_U8 (\<lambda>v. [v])"
    unfolding serialize_U8_def [abs_def] deserialize_U8_def [abs_def] by simp
qed

interpretation i8: atomic_codec serialize_I8 deserialize_I8 "\<lambda>v. [v]"
  using u8.atomic_codec_axioms
  unfolding serialize_U8_def [abs_def] deserialize_U8_def [abs_def]
    serialize_I8_def [abs_def] deserialize_I8_def [abs_def] .

interpretation u16: atomic_codec serialize_U16 deserialize_U16 bytes_of_U16
proof -
  have "atomic_codec (\<lambda>b v. ser_fixed b (bytes_of_U16 v)) (deser_fixed 2 U16_of_bytes) bytes_of_U16"
    by (rule fixed_atomic_codec) (auto simp: list_of_length)
  then show "atomic_codec serialize_U16 deserialize_U16 bytes_of_U16"
    unfolding serialize_U16_def [abs_def] deserialize_U16_def [abs_def] .
qed

interpretation i16: atomic_codec serialize_I16 deserialize_I16 bytes_of_U16
  using u16.atomic_codec_axioms
  unfolding serialize_U16_def [abs_def] deserialize_U16_def [abs_def]
    serialize_I16_def [abs_def] deserialize_I16_def [abs_def] bytes_of_I16_eq [abs_def] .

interpretation u32: atomic_codec serialize_U32 deserialize_U32 bytes_of_U32
proof -
  have "atomic_codec (\<lambda>b v. ser_fixed b (bytes_of_U32 v)) (deser_fixed 4 U32_of_bytes) bytes_of_U32"
    by (rule fixed_atomic_codec) (auto simp: list_of_length)
  then show "atomic_codec serialize_U32 deserialize_U32 bytes_of_U32"
    unfolding serialize_U32_def [abs_def] deserialize_U32_def [abs_def] .
qed

interpretation i32: atomic_codec serialize_I32 deserialize_I32 bytes_of_U32
  using u32.atomic_codec_axioms
  unfolding serialize_U32_def [abs_def] deserialize_U32_def [abs_def]
    serialize_I32_def [abs_def] deserialize_I32_def [abs_def] bytes_of_I32_eq [abs_def] .

interpretation f32: atomic_codec serialize_F32 deserialize_F32 bytes_of_U32
  using u32.atomic_codec_axioms
  unfolding serialize_F32_def [abs_def] deserialize_F32_def [abs_def] by simp

interpretation u64: atomic_codec serialize_U64 deserialize_U64 bytes_of_U64
proof -
  have "atomic_codec (\<lambda>b v. ser_fixed b (bytes_of_U64 v)) (deser_fixed 8 U64_of_bytes) bytes_of_U64"
    by (rule fixed_atomic_codec) (auto simp: list_of_length)
  then show "atomic_codec serialize_U64 deserialize_U64 bytes_of_U64"
    unfolding serialize_U64_def [abs_def] deserialize_U64_def [abs_def] .
qed

interpretation i64: atomic_codec serialize_I64 deserialize_I64 bytes_of_U64
  using u64.atomic_codec_axioms
  unfolding serialize_U64_def [abs_def] deserialize_U64_def [abs_def]
    serialize_I64_def [abs_def] deserialize_I64_def [abs_def] bytes_of_I64_eq [abs_def] .

interpretation f64: atomic_codec serialize_F64 deserialize_F64 bytes_of_U64
  using u64.atomic_codec_axioms
  unfolding serialize_F64_def [abs_def] deserialize_F64_def [abs_def] by simp

text \<open>\<open>serialize(const void*)\<close> checks for room once more than the integer overload does.\<close>

lemma serialize_ptr_eq: "serialize_ptr b v = serialize_U64 b v"
  by (simp add: serialize_ptr_def serialize_U64_def ser_fixed_def Let_def)

interpretation ptr: atomic_codec serialize_ptr deserialize_ptr bytes_of_U64
  using u64.atomic_codec_axioms
  unfolding serialize_ptr_eq [abs_def] deserialize_ptr_def [abs_def] by simp

definition bytes_of_bool :: "bool \<Rightarrow> U8 list" where
  "bytes_of_bool v = [if v then FW_SERIALIZE_TRUE_VALUE else FW_SERIALIZE_FALSE_VALUE]"

lemma deserialize_bool_alt:
  "deserialize_bool b =
    (case deserialize_U8 b of None \<Rightarrow> None
     | Some (Inl e, b1) \<Rightarrow> Some (Inl e, b1)
     | Some (Inr v, b1) \<Rightarrow>
         if v = FW_SERIALIZE_TRUE_VALUE then Some (Inr True, b1)
         else if v = FW_SERIALIZE_FALSE_VALUE then Some (Inr False, b1)
         else Some (Inl FW_DESERIALIZE_FORMAT_ERROR, b))"
  unfolding deserialize_bool_def deserialize_U8_def deser_fixed_def
  by (auto split: option.split bind_split)

interpretation boolean: atomic_codec serialize_bool deserialize_bool bytes_of_bool
proof
  fix b v assume "ser_wf b" "length (bytes_of_bool v) \<le> room b"
  then show "serialize_bool b v = Some (FW_SERIALIZE_OK, append_to b (bytes_of_bool v))"
    by (auto simp: serialize_bool_def bytes_of_bool_def ser_fixed_ok)
next
  fix b v rest assume h: "ser_wf b" "unread b = bytes_of_bool v @ rest"
  then have "deserialize_U8 b =
      Some (Inr (if v then FW_SERIALIZE_TRUE_VALUE else FW_SERIALIZE_FALSE_VALUE), consume b 1)"
    using u8.get_ok [OF h(1)] by (simp add: bytes_of_bool_def)
  then show "deserialize_bool b = Some (Inr v, consume b (length (bytes_of_bool v)))"
    by (simp add: deserialize_bool_alt bytes_of_bool_def
        FW_SERIALIZE_TRUE_VALUE_def FW_SERIALIZE_FALSE_VALUE_def)
next
  fix b v assume "ser_wf b" "room b < length (bytes_of_bool v)"
  then show "serialize_bool b v = Some (FW_SERIALIZE_NO_ROOM_LEFT, b)"
    by (auto simp: serialize_bool_def bytes_of_bool_def ser_fixed_full)
next
  fix b assume wf: "ser_wf b"
  show "(\<exists>e. deserialize_bool b = Some (Inl e, b)) \<or>
    (\<exists>v rest. unread b = bytes_of_bool v @ rest \<and>
       deserialize_bool b = Some (Inr v, consume b (length (bytes_of_bool v))))"
    using u8.get_total [OF wf]
  proof (elim disjE exE conjE)
    fix e assume "deserialize_U8 b = Some (Inl e, b)"
    then show ?thesis by (simp add: deserialize_bool_alt)
  next
    fix v rest
    assume h: "unread b = [v] @ rest" "deserialize_U8 b = Some (Inr v, consume b (length [v]))"
    show ?thesis
    proof (cases "\<exists>w. [v] = bytes_of_bool w")
      case True
      then obtain w where w: "[v] = bytes_of_bool w" by blast
      then have "deserialize_bool b = Some (Inr w, consume b (length (bytes_of_bool w)))"
        using h by (auto simp: deserialize_bool_alt bytes_of_bool_def
            FW_SERIALIZE_TRUE_VALUE_def FW_SERIALIZE_FALSE_VALUE_def split: if_splits)
      with h(1) w show ?thesis by metis
    next
      case False
      from this [simplified not_ex, rule_format, of True]
        this [simplified not_ex, rule_format, of False]
      have "v \<noteq> FW_SERIALIZE_TRUE_VALUE" "v \<noteq> FW_SERIALIZE_FALSE_VALUE"
        by (auto simp: bytes_of_bool_def)
      then have "deserialize_bool b = Some (Inl FW_DESERIALIZE_FORMAT_ERROR, b)"
        using h(2) by (auto simp: deserialize_bool_alt)
      then show ?thesis by blast
    qed
  qed
next
  fix b e b' assume "deserialize_bool b = Some (Inl e, b')"
  then show "e \<noteq> FW_SERIALIZE_OK"
    by (auto simp: deserialize_bool_alt u8.get_error split: if_splits option.splits sum.splits)
qed

section \<open>Packets of mixed values\<close>

text \<open>
  A packet is a sequence of values of the built-in types; \<open>serialize_prim\<close> and
  \<open>deserialize_prim\<close> are the overload the compiler picks from the static type of the argument.
\<close>

datatype prim =
    PU8 U8 | PI8 I8 | PU16 U16 | PI16 I16 | PU32 U32 | PI32 I32 | PU64 U64 | PI64 I64
  | PF32 F32 | PF64 F64 | PBool bool | PPtr U64

datatype prim_type =
    TU8 | TI8 | TU16 | TI16 | TU32 | TI32 | TU64 | TI64 | TF32 | TF64 | TBool | TPtr

fun prim_type_of :: "prim \<Rightarrow> prim_type" where
  "prim_type_of (PU8 _) = TU8" | "prim_type_of (PI8 _) = TI8"
| "prim_type_of (PU16 _) = TU16" | "prim_type_of (PI16 _) = TI16"
| "prim_type_of (PU32 _) = TU32" | "prim_type_of (PI32 _) = TI32"
| "prim_type_of (PU64 _) = TU64" | "prim_type_of (PI64 _) = TI64"
| "prim_type_of (PF32 _) = TF32" | "prim_type_of (PF64 _) = TF64"
| "prim_type_of (PBool _) = TBool" | "prim_type_of (PPtr _) = TPtr"

fun prim_bytes :: "prim \<Rightarrow> U8 list" where
  "prim_bytes (PU8 v) = [v]" | "prim_bytes (PI8 v) = [v]"
| "prim_bytes (PU16 v) = bytes_of_U16 v" | "prim_bytes (PI16 v) = bytes_of_U16 v"
| "prim_bytes (PU32 v) = bytes_of_U32 v" | "prim_bytes (PI32 v) = bytes_of_U32 v"
| "prim_bytes (PU64 v) = bytes_of_U64 v" | "prim_bytes (PI64 v) = bytes_of_U64 v"
| "prim_bytes (PF32 v) = bytes_of_U32 v" | "prim_bytes (PF64 v) = bytes_of_U64 v"
| "prim_bytes (PBool v) = bytes_of_bool v" | "prim_bytes (PPtr v) = bytes_of_U64 v"

fun serialize_prim :: "ser_buf \<Rightarrow> prim \<Rightarrow> (SerializeStatus \<times> ser_buf) option" where
  "serialize_prim b (PU8 v) = serialize_U8 b v"
| "serialize_prim b (PI8 v) = serialize_I8 b v"
| "serialize_prim b (PU16 v) = serialize_U16 b v"
| "serialize_prim b (PI16 v) = serialize_I16 b v"
| "serialize_prim b (PU32 v) = serialize_U32 b v"
| "serialize_prim b (PI32 v) = serialize_I32 b v"
| "serialize_prim b (PU64 v) = serialize_U64 b v"
| "serialize_prim b (PI64 v) = serialize_I64 b v"
| "serialize_prim b (PF32 v) = serialize_F32 b v"
| "serialize_prim b (PF64 v) = serialize_F64 b v"
| "serialize_prim b (PBool v) = serialize_bool b v"
| "serialize_prim b (PPtr v) = serialize_ptr b v"

definition map_get ::
  "('a \<Rightarrow> 'b) \<Rightarrow> ((SerializeStatus + 'a) \<times> ser_buf) option
     \<Rightarrow> ((SerializeStatus + 'b) \<times> ser_buf) option" where
  "map_get f = map_option (\<lambda>(r, b). (map_sum id f r, b))"

fun deserialize_prim ::
  "prim_type \<Rightarrow> ser_buf \<Rightarrow> ((SerializeStatus + prim) \<times> ser_buf) option" where
  "deserialize_prim TU8 b = map_get PU8 (deserialize_U8 b)"
| "deserialize_prim TI8 b = map_get PI8 (deserialize_I8 b)"
| "deserialize_prim TU16 b = map_get PU16 (deserialize_U16 b)"
| "deserialize_prim TI16 b = map_get PI16 (deserialize_I16 b)"
| "deserialize_prim TU32 b = map_get PU32 (deserialize_U32 b)"
| "deserialize_prim TI32 b = map_get PI32 (deserialize_I32 b)"
| "deserialize_prim TU64 b = map_get PU64 (deserialize_U64 b)"
| "deserialize_prim TI64 b = map_get PI64 (deserialize_I64 b)"
| "deserialize_prim TF32 b = map_get PF32 (deserialize_F32 b)"
| "deserialize_prim TF64 b = map_get PF64 (deserialize_F64 b)"
| "deserialize_prim TBool b = map_get PBool (deserialize_bool b)"
| "deserialize_prim TPtr b = map_get PPtr (deserialize_ptr b)"

fun deserialize_all ::
  "prim_type list \<Rightarrow> ser_buf \<Rightarrow> ((SerializeStatus + prim list) \<times> ser_buf) option" where
  "deserialize_all [] b = Some (Inr [], b)"
| "deserialize_all (t # ts) b = do {
     (r, b1) \<leftarrow> deserialize_prim t b;
     case r of
       Inl e \<Rightarrow> Some (Inl e, b1)
     | Inr v \<Rightarrow> do {
         (rs, b2) \<leftarrow> deserialize_all ts b1;
         Some (map_sum id (\<lambda>vs. v # vs) rs, b2)
       }
   }"

lemma map_get_simps [simp]:
  "map_get f (Some (Inl e, b)) = Some (Inl e, b)"
  "map_get f (Some (Inr v, b)) = Some (Inr (f v), b)"
  by (simp_all add: map_get_def)

lemmas codec_put_cases =
  u8.put_cases i8.put_cases u16.put_cases i16.put_cases u32.put_cases i32.put_cases
  u64.put_cases i64.put_cases f32.put_cases f64.put_cases boolean.put_cases ptr.put_cases

lemma serialize_prim_cases:
  "ser_wf b \<Longrightarrow> serialize_prim b v =
    (if length (prim_bytes v) \<le> room b then Some (FW_SERIALIZE_OK, append_to b (prim_bytes v))
     else Some (FW_SERIALIZE_NO_ROOM_LEFT, b))"
  by (cases v) (simp_all add: codec_put_cases)

lemma deserialize_prim_ok:
  assumes "ser_wf b" "unread b = prim_bytes v @ rest"
  shows "deserialize_prim (prim_type_of v) b =
    Some (Inr v, consume b (length (prim_bytes v)))"
  using assms
  by (cases v)
    (simp_all add: u8.get_ok i8.get_ok u16.get_ok i16.get_ok u32.get_ok i32.get_ok
      u64.get_ok i64.get_ok f32.get_ok f64.get_ok boolean.get_ok ptr.get_ok del: length_bytes_of)

lemma put_all_prim_ok:
  "ser_wf b \<Longrightarrow> length (concat (map prim_bytes vs)) \<le> room b \<Longrightarrow>
   \<exists>b'. put_all serialize_prim b vs = Some (FW_SERIALIZE_OK, b') \<and> ser_wf b' \<and>
     contents b' = contents b @ concat (map prim_bytes vs) \<and>
     (vs \<noteq> [] \<longrightarrow> unread b' = contents b')"
proof (induction vs arbitrary: b)
  case Nil
  then show ?case by simp
next
  case (Cons v vs)
  let ?b = "append_to b (prim_bytes v)"
  have p: "serialize_prim b v = Some (FW_SERIALIZE_OK, ?b)"
    using Cons.prems by (simp add: serialize_prim_cases)
  have "\<exists>b'. put_all serialize_prim ?b vs = Some (FW_SERIALIZE_OK, b') \<and> ser_wf b' \<and>
     contents b' = contents ?b @ concat (map prim_bytes vs) \<and>
     (vs \<noteq> [] \<longrightarrow> unread b' = contents b')"
    by (rule Cons.IH) (use Cons.prems in \<open>auto simp: append_to_wf append_to_room\<close>)
  then show ?case
    using p Cons.prems
    by (cases vs) (auto simp: append_to_contents append_to_unread append_to_wf)
qed

lemma deserialize_all_ok:
  "ser_wf b \<Longrightarrow> unread b = concat (map prim_bytes vs) @ rest \<Longrightarrow>
   \<exists>b'. deserialize_all (map prim_type_of vs) b = Some (Inr vs, b') \<and> unread b' = rest"
proof (induction vs arbitrary: b)
  case Nil
  then show ?case by simp
next
  case (Cons v vs)
  let ?b = "consume b (length (prim_bytes v))"
  have d: "deserialize_prim (prim_type_of v) b = Some (Inr v, ?b)"
    by (rule deserialize_prim_ok) (use Cons.prems in auto)
  have "ser_wf ?b" "unread ?b = concat (map prim_bytes vs) @ rest"
    using Cons.prems by (simp_all add: consume_wf consume_unread)
  from Cons.IH [OF this] show ?case
    using d by auto
qed

text \<open>
  A packet built by any sequence of \<open>serialize\<close> calls of the built-in types into an empty
  buffer with room for the images reports \<open>FW_SERIALIZE_OK\<close>, holds exactly the concatenated
  big-endian images, and the matching sequence of \<open>deserialize\<close> calls returns the same values
  and leaves no byte unread. No assertion fails and no access leaves the storage.
\<close>

theorem packet_roundtrip:
  assumes "ser_wf b" "contents b = []" "length (concat (map prim_bytes vs)) \<le> room b"
  shows "\<exists>b' b''. put_all serialize_prim b vs = Some (FW_SERIALIZE_OK, b') \<and>
    contents b' = concat (map prim_bytes vs) \<and>
    deserialize_all (map prim_type_of vs) b' = Some (Inr vs, b'') \<and> unread b'' = []"
proof -
  obtain b' where b': "put_all serialize_prim b vs = Some (FW_SERIALIZE_OK, b')" "ser_wf b'"
    "contents b' = concat (map prim_bytes vs)" "vs \<noteq> [] \<longrightarrow> unread b' = contents b'"
    using put_all_prim_ok [OF assms(1,3)] assms(2) by auto
  have "unread b' = concat (map prim_bytes vs) @ []"
    using b'(3,4) by (cases vs) (auto simp: unread_def)
  with b' show ?thesis
    using deserialize_all_ok [OF b'(2), of vs "[]"] by auto
qed

theorem packet_roundtrip_witness:
  "\<exists>b' b''. put_all serialize_prim (SerializeBufferBase_new (replicate 16 0))
      [PU16 0x1234, PBool True, PI32 (- 2)] = Some (FW_SERIALIZE_OK, b') \<and>
    contents b' = concat (map prim_bytes [PU16 0x1234, PBool True, PI32 (- 2)]) \<and>
    deserialize_all (map prim_type_of [PU16 0x1234, PBool True, PI32 (- 2)]) b' =
      Some (Inr [PU16 0x1234, PBool True, PI32 (- 2)], b'') \<and> unread b'' = []"
  by (rule packet_roundtrip)
    (simp_all add: ser_wf_def contents_def room_def SerializeBufferBase_new_def bytes_of_bool_def)

text \<open>
  On a well-formed buffer every \<open>serialize\<close> overload returns: it either appends the image
  of the value and reports \<open>FW_SERIALIZE_OK\<close>, exactly when the image fits, or reports
  \<open>FW_SERIALIZE_NO_ROOM_LEFT\<close> and leaves the buffer as it was.
\<close>

theorem serialize_total_atomic:
  assumes "ser_wf b"
  shows "(\<exists>b'. serialize_prim b v = Some (FW_SERIALIZE_OK, b') \<and> ser_wf b' \<and>
           contents b' = contents b @ prim_bytes v \<and> length (prim_bytes v) \<le> room b) \<or>
         (serialize_prim b v = Some (FW_SERIALIZE_NO_ROOM_LEFT, b) \<and>
           room b < length (prim_bytes v))"
  using assms by (auto simp: serialize_prim_cases append_to_wf append_to_contents)

theorem serialize_total_atomic_witness:
  "(\<exists>b'. serialize_prim (SerializeBufferBase_new [0, 0]) (PU32 7) = Some (FW_SERIALIZE_OK, b') \<and>
      ser_wf b' \<and> contents b' = contents (SerializeBufferBase_new [0, 0]) @ prim_bytes (PU32 7) \<and>
      length (prim_bytes (PU32 7)) \<le> room (SerializeBufferBase_new [0, 0])) \<or>
   (serialize_prim (SerializeBufferBase_new [0, 0]) (PU32 7) =
      Some (FW_SERIALIZE_NO_ROOM_LEFT, SerializeBufferBase_new [0, 0]) \<and>
    room (SerializeBufferBase_new [0, 0]) < length (prim_bytes (PU32 7)))"
  by (rule serialize_total_atomic) (simp add: ser_wf_def SerializeBufferBase_new_def)

lemma map_get_total:
  assumes "(\<exists>e. get b = Some (Inl e, b)) \<or>
      (\<exists>v rest. unread b = enc v @ rest \<and> get b = Some (Inr v, consume b (length (enc v))))"
    and "\<And>v. prim_bytes (f v) = enc v" "\<And>v. prim_type_of (f v) = t"
  shows "(\<exists>e. map_get f (get b) = Some (Inl e, b)) \<or>
    (\<exists>v rest. prim_type_of v = t \<and> unread b = prim_bytes v @ rest \<and>
       map_get f (get b) = Some (Inr v, consume b (length (prim_bytes v))))"
  using assms(1)
proof (elim disjE exE conjE)
  fix v rest assume "unread b = enc v @ rest" "get b = Some (Inr v, consume b (length (enc v)))"
  then show ?thesis
    using assms(2) [of v] assms(3) [of v]
    by (intro disjI2 exI [of _ "f v"] exI [of _ rest]) simp
qed simp

text \<open>
  On a well-formed buffer with any contents every \<open>deserialize\<close> overload returns: it reports
  an error and changes nothing, or yields a value of its type whose image is the first part of
  the unread bytes and takes exactly that image off.
\<close>

theorem deserialize_total:
  assumes "ser_wf b"
  shows "(\<exists>e. deserialize_prim t b = Some (Inl e, b)) \<or>
    (\<exists>v b'. deserialize_prim t b = Some (Inr v, b') \<and> prim_type_of v = t \<and> ser_wf b' \<and>
       contents b' = contents b \<and> unread b = prim_bytes v @ unread b')"
proof -
  have "(\<exists>e. deserialize_prim t b = Some (Inl e, b)) \<or>
    (\<exists>v rest. prim_type_of v = t \<and> unread b = prim_bytes v @ rest \<and>
       deserialize_prim t b = Some (Inr v, consume b (length (prim_bytes v))))"
    using assms
    by (cases t; simp only: deserialize_prim.simps; intro map_get_total)
      (simp_all only: prim_bytes.simps prim_type_of.simps
        u8.get_total i8.get_total u16.get_total i16.get_total u32.get_total i32.get_total
        u64.get_total i64.get_total f32.get_total f64.get_total boolean.get_total ptr.get_total)
  then show ?thesis
    using assms by (auto simp: consume_wf consume_contents consume_unread)
qed

theorem deserialize_total_witness:
  "(\<exists>e. deserialize_prim TU32 (SerializeBufferBase_new [1, 2]) =
      Some (Inl e, SerializeBufferBase_new [1, 2])) \<or>
   (\<exists>v b'. deserialize_prim TU32 (SerializeBufferBase_new [1, 2]) = Some (Inr v, b') \<and>
      prim_type_of v = TU32 \<and> ser_wf b' \<and>
      contents b' = contents (SerializeBufferBase_new [1, 2]) \<and>
      unread (SerializeBufferBase_new [1, 2]) = prim_bytes v @ unread b')"
  by (rule deserialize_total) (simp add: ser_wf_def SerializeBufferBase_new_def)

section \<open>Length-prefixed data\<close>

lemma memcpy_in:
  assumes "ser_wf b" "unat len = length src" "length src \<le> room b"
  shows "\<not> m_serLoc b + len > getBuffCapacity b"
    and "write_at (m_data b) (unat (m_serLoc b)) src = Some (m_data (append_to b src))"
    and "b\<lparr>m_data := m_data (append_to b src), m_serLoc := m_serLoc b + len, m_deserLoc := 0\<rparr> =
         append_to b src"
proof -
  have h: "unat (m_serLoc b) + length src \<le> length (m_data b)" "length (m_data b) < 2147483648"
    using assms by (auto simp: ser_wf_def room_def)
  then have "unat (m_serLoc b + len) = unat (m_serLoc b) + length src"
    using assms by (simp add: unat_add_small)
  then show "\<not> m_serLoc b + len > getBuffCapacity b"
    using h assms(1) by (simp add: word_less_nat_alt unat_getBuffCapacity)
  show "write_at (m_data b) (unat (m_serLoc b)) src = Some (m_data (append_to b src))"
    using h by (simp add: write_at_in_bounds append_to_def)
  show "b\<lparr>m_data := m_data (append_to b src), m_serLoc := m_serLoc b + len, m_deserLoc := 0\<rparr> =
         append_to b src"
    using assms(2) by (simp add: append_to_def flip: word_eq_of_unat)
qed

lemma no_room:
  assumes "ser_wf b" "unat len < 2147483648" "room b < unat len"
  shows "m_serLoc b + len > getBuffCapacity b"
proof -
  have "unat (m_serLoc b) + unat len < 4294967296"
    using assms by (auto simp: ser_wf_def)
  then have "unat (m_serLoc b + len) = unat (m_serLoc b) + unat len"
    by (simp add: unat_add_small)
  then show ?thesis
    using assms by (auto simp: word_less_nat_alt unat_getBuffCapacity ser_wf_def room_def)
qed

lemma serialize_bytes_raw:
  assumes "ser_wf b" "unat len = length src" "length src < 2147483648"
  shows "serialize_bytes b src len True =
    (if length src \<le> room b then Some (FW_SERIALIZE_OK, append_to b src)
     else Some (FW_SERIALIZE_NO_ROOM_LEFT, b))"
  using assms memcpy_in [OF assms(1,2)] no_room [OF assms(1), of len]
  by (simp add: serialize_bytes_def)

text \<open>
  What \<open>serialize(buff, length)\<close> does with a length prefix, on every branch: with no room for
  the two prefix bytes the buffer is unchanged; with room for the prefix only, the call still
  reports \<open>FW_SERIALIZE_NO_ROOM_LEFT\<close> but has already appended the prefix; otherwise prefix
  and data are appended. The prefix is the length modulo 65536.
\<close>

theorem serialize_bytes_outcome:
  assumes "ser_wf b" "unat len = length src" "length src < 2147483648"
  shows "serialize_bytes b src len False =
    (if room b < 2 then Some (FW_SERIALIZE_NO_ROOM_LEFT, b)
     else if room b < 2 + length src
     then Some (FW_SERIALIZE_NO_ROOM_LEFT, append_to b (bytes_of_U16 (ucast len)))
     else Some (FW_SERIALIZE_OK, append_to b (bytes_of_U16 (ucast len) @ src)))"
proof (cases "room b < 2")
  case True
  with assms show ?thesis
    by (simp add: serialize_bytes_def u16.put_cases)
next
  case False
  let ?b = "append_to b (bytes_of_U16 (ucast len))"
  have wf: "ser_wf ?b" and rm: "room ?b = room b - 2"
    using False assms by (simp_all add: append_to_wf append_to_room)
  have "serialize_bytes b src len False = serialize_bytes ?b src len True"
    using False assms by (simp add: serialize_bytes_def u16.put_cases)
  also have "\<dots> = (if length src \<le> room ?b then Some (FW_SERIALIZE_OK, append_to ?b src)
      else Some (FW_SERIALIZE_NO_ROOM_LEFT, ?b))"
    by (rule serialize_bytes_raw [OF wf assms(2,3)])
  finally show ?thesis
    using False assms rm by (auto simp: append_to_append)
qed

theorem serialize_bytes_outcome_witness:
  "serialize_bytes (SerializeBufferBase_new [0, 0, 0]) [7, 8] 2 False =
    (if room (SerializeBufferBase_new [0, 0, 0]) < 2
     then Some (FW_SERIALIZE_NO_ROOM_LEFT, SerializeBufferBase_new [0, 0, 0])
     else if room (SerializeBufferBase_new [0, 0, 0]) < 2 + length [7, 8 :: U8]
     then Some (FW_SERIALIZE_NO_ROOM_LEFT,
            append_to (SerializeBufferBase_new [0, 0, 0]) (bytes_of_U16 (ucast (2 :: U32))))
     else Some (FW_SERIALIZE_OK,
            append_to (SerializeBufferBase_new [0, 0, 0])
              (bytes_of_U16 (ucast (2 :: U32)) @ [7, 8])))"
  by (rule serialize_bytes_outcome) (simp_all add: ser_wf_def SerializeBufferBase_new_def)

lemma deserialize_bytes_ok:
  assumes "ser_wf b" "unread b = bytes_of_U16 n @ bs @ rest" "unat n = length bs"
    "length bs \<le> unat len"
  shows "deserialize_bytes b len False = Some (Inr bs, consume b (2 + length bs))"
proof -
  let ?b = "consume b 2"
  have d: "deserialize_U16 b = Some (Inr n, ?b)"
    using u16.get_ok [OF assms(1,2)] by simp
  have wf: "ser_wf ?b" and u: "unread ?b = bs @ rest"
    using assms(1,2) by (simp_all add: consume_wf consume_unread)
  have fits: "\<not> (ucast n > getBuffLeft ?b \<or> ucast n > len)"
    using assms(3,4) u by (simp add: word_less_nat_alt unat_getBuffLeft [OF wf])
  have pos: "unat (m_deserLoc ?b) + length bs \<le> unat (m_serLoc ?b)"
    "unat (m_serLoc ?b) \<le> length (m_data ?b)"
    using u length_unread [OF wf] wf by (auto simp: ser_wf_def)
  have "take (length bs) (drop (unat (m_deserLoc ?b)) (m_data ?b)) = take (length bs) (unread ?b)"
    using pos by (simp add: unread_def contents_def drop_take min_def)
  then have "read_at (m_data ?b) (unat (m_deserLoc ?b)) (unat n) = Some bs"
    using pos u assms(3) by (simp add: read_at_in_bounds)
  moreover have "\<not> m_null b"
    using assms(1,2) by (auto simp: ser_wf_def unread_def contents_def bytes_of_U16_def)
  moreover have "(ucast n :: U32) = of_nat (length bs)"
    by (rule word_eq_of_unat) (simp add: assms(3))
  ultimately show ?thesis
    using d fits by (simp add: deserialize_bytes_def consume_def add.assoc)
qed

text \<open>
  Data serialized with its length into an empty buffer with enough room reads back as the
  first \<open>length mod 65536\<close> bytes of it, because the stored length has 16 bits: the round trip is
  exact for data shorter than 65536 bytes and loses the tail of longer data.
\<close>

theorem serialize_bytes_roundtrip:
  assumes "ser_wf b" "contents b = []" "unat len = length src" "length src < 2147483648"
    "2 + length src \<le> room b"
  shows "\<exists>b' b''. serialize_bytes b src len False = Some (FW_SERIALIZE_OK, b') \<and>
    deserialize_bytes b' len False = Some (Inr (take (length src mod 65536) src), b'') \<and>
    unread b'' = drop (length src mod 65536) src"
proof -
  let ?n = "ucast len :: U16" and ?k = "length src mod 65536"
  let ?b' = "append_to b (bytes_of_U16 ?n @ src)"
  have n: "unat ?n = ?k"
    using assms(3) by (simp add: unat_ucast_mod)
  have wf: "ser_wf ?b'"
    using assms by (simp add: append_to_wf)
  have u: "unread ?b' = bytes_of_U16 ?n @ take ?k src @ drop ?k src"
    using assms by (simp add: append_to_unread)
  have "deserialize_bytes ?b' len False =
      Some (Inr (take ?k src), consume ?b' (2 + length (take ?k src)))"
    by (rule deserialize_bytes_ok [OF wf u])
      (use n assms(3) in \<open>auto simp: min_def mod_less_eq_dividend\<close>)
  moreover have "unread (consume ?b' (2 + length (take ?k src))) = drop ?k src"
    using wf u by (simp add: consume_unread min_def mod_less_eq_dividend)
  ultimately show ?thesis
    using serialize_bytes_outcome [OF assms(1,3,4)] assms(5) by auto
qed

theorem serialize_bytes_roundtrip_witness:
  "\<exists>b' b''. serialize_bytes (SerializeBufferBase_new (replicate 8 0)) [1, 2, 3] 3 False =
      Some (FW_SERIALIZE_OK, b') \<and>
    deserialize_bytes b' 3 False = Some (Inr (take (length [1, 2, 3 :: U8] mod 65536) [1, 2, 3]), b'') \<and>
    unread b'' = drop (length [1, 2, 3 :: U8] mod 65536) [1, 2, 3]"
  by (rule serialize_bytes_roundtrip)
    (simp_all add: ser_wf_def contents_def room_def SerializeBufferBase_new_def)

section \<open>Buffers inside buffers\<close>

lemma serialize_ser_buf_ok:
  assumes "ser_wf b" "ser_wf val" "\<not> m_null val" "length (contents val) < 65536"
    "2 + length (contents val) \<le> room b"
  shows "serialize_ser_buf b val = Some (FW_SERIALIZE_OK,
    append_to b (bytes_of_U16 (ucast (m_serLoc val)) @ contents val))"
proof -
  let ?len = "m_serLoc val" and ?b = "append_to b (bytes_of_U16 (ucast (m_serLoc val)))"
  have len: "unat ?len = length (contents val)"
    using assms(2) by (simp add: length_contents)
  have wf: "ser_wf ?b" and fits: "length (contents val) \<le> room ?b"
    using assms by (simp_all add: append_to_wf append_to_room)
  have cap: "\<not> m_serLoc b + ?len + 2 > getBuffCapacity b"
  proof -
    have h: "unat (m_serLoc b) + unat ?len + 2 \<le> length (m_data b)"
      "length (m_data b) < 2147483648"
      using assms len by (auto simp: ser_wf_def room_def)
    then have "unat (m_serLoc b + ?len + 2) = unat (m_serLoc b) + unat ?len + 2"
      by (simp add: unat_add_small)
    with h show ?thesis
      by (simp add: word_less_nat_alt unat_getBuffCapacity [OF assms(1)])
  qed
  have "\<not> m_null b"
    using assms by (auto simp: ser_wf_def room_def)
  moreover have "read_at (m_data val) 0 (unat ?len) = Some (contents val)"
    using assms(2) by (simp add: read_at_def contents_def ser_wf_def)
  moreover have "serialize_U16 b (ucast ?len) = Some (FW_SERIALIZE_OK, ?b)"
    using assms by (simp add: u16.put_ok)
  moreover have "m_null ?b = m_null b"
    by (simp add: append_to_def)
  ultimately show ?thesis
    using cap memcpy_in [OF wf len fits] assms
    by (simp add: serialize_ser_buf_def Let_def getBuffLength_def append_to_append)
qed

lemma deserialize_ser_buf_ok:
  assumes "ser_wf b" "unread b = bytes_of_U16 n @ bs @ rest" "unat n = length bs"
    "ser_wf dest" "\<not> m_null dest" "length bs \<le> length (m_data dest)"
  shows "\<exists>dest'. deserialize_ser_buf b dest =
    Some (FW_SERIALIZE_OK, dest', consume b (2 + length bs)) \<and> ser_wf dest' \<and>
    contents dest' = bs"
proof -
  let ?b = "consume b 2"
  let ?d = "bs @ drop (length bs) (m_data dest)"
  have d: "deserialize_U16 b = Some (Inr n, ?b)"
    using u16.get_ok [OF assms(1,2)] by simp
  have wf: "ser_wf ?b" and u: "unread ?b = bs @ rest"
    using assms(1,2) by (simp_all add: consume_wf consume_unread)
  have fits: "\<not> (ucast n > getBuffCapacity dest \<or> ucast n > getBuffLeft ?b)"
    using assms(3,6) u
    by (simp add: word_less_nat_alt unat_getBuffLeft [OF wf] unat_getBuffCapacity [OF assms(4)])
  have pos: "unat (m_deserLoc ?b) + length bs \<le> unat (m_serLoc ?b)"
    "unat (m_serLoc ?b) \<le> length (m_data ?b)"
    using u length_unread [OF wf] wf by (auto simp: ser_wf_def)
  have "take (length bs) (drop (unat (m_deserLoc ?b)) (m_data ?b)) = take (length bs) (unread ?b)"
    using pos by (simp add: unread_def contents_def drop_take min_def)
  then have r: "read_at (m_data ?b) (unat (m_deserLoc ?b)) (unat n) = Some bs"
    using pos u assms(3) by (simp add: read_at_in_bounds)
  have w: "write_at (m_data dest) 0 bs = Some ?d"
    using assms(6) by (simp add: write_at_def)
  have nn: "\<not> m_null ?b"
    using assms(1,2) by (auto simp: ser_wf_def unread_def contents_def bytes_of_U16_def consume_def)
  have n: "(ucast n :: U32) = of_nat (length bs)"
    by (rule word_eq_of_unat) (simp add: assms(3))
  let ?dest = "dest\<lparr>m_data := ?d, m_serLoc := ucast n, m_deserLoc := 0\<rparr>"
  have len: "length ?d = length (m_data dest)"
    using assms(6) by simp
  have cap: "\<not> getBuffCapacity (dest\<lparr>m_data := ?d\<rparr>) < ucast n"
    using fits len by (simp add: getBuffCapacity_def)
  have "deserialize_ser_buf b dest = Some (FW_SERIALIZE_OK, ?dest, consume b (2 + length bs))"
    using d fits r w nn cap assms(5) n
    by (simp add: deserialize_ser_buf_def setBuffLen_def consume_def add.assoc)
  moreover have "ser_wf ?dest" "contents ?dest = bs"
    using assms(3,4,5,6) len by (simp_all add: ser_wf_def contents_def)
  ultimately show ?thesis by blast
qed

text \<open>
  A buffer of fewer than 65536 bytes serialized into an empty buffer with room for it and
  its length is read back, by \<open>deserialize(SerializeBufferBase&)\<close>, as the same byte string into
  any destination of sufficient capacity, and nothing is left unread.
\<close>

theorem nested_buffer_roundtrip:
  assumes "ser_wf b" "contents b = []" "ser_wf val" "\<not> m_null val"
    "length (contents val) < 65536" "2 + length (contents val) \<le> room b"
    "ser_wf dest" "\<not> m_null dest" "length (contents val) \<le> length (m_data dest)"
  shows "\<exists>b' dest' b''. serialize_ser_buf b val = Some (FW_SERIALIZE_OK, b') \<and>
    deserialize_ser_buf b' dest = Some (FW_SERIALIZE_OK, dest', b'') \<and>
    contents dest' = contents val \<and> unread b'' = []"
proof -
  let ?n = "ucast (m_serLoc val) :: U16"
  let ?b' = "append_to b (bytes_of_U16 ?n @ contents val)"
  have n: "unat ?n = length (contents val)"
    using assms(3,5) by (simp add: unat_ucast_mod length_contents)
  have wf: "ser_wf ?b'" and u: "unread ?b' = bytes_of_U16 ?n @ contents val @ []"
    using assms by (simp_all add: append_to_wf append_to_unread)
  obtain dest' where "deserialize_ser_buf ?b' dest =
      Some (FW_SERIALIZE_OK, dest', consume ?b' (2 + length (contents val)))"
    "contents dest' = contents val"
    using deserialize_ser_buf_ok [OF wf u n assms(7,8,9)] by blast
  moreover have "unread (consume ?b' (2 + length (contents val))) = []"
    using wf u by (simp add: consume_unread)
  ultimately show ?thesis
    using serialize_ser_buf_ok [OF assms(1,3,4,5,6)] by blast
qed

theorem nested_buffer_roundtrip_witness:
  "\<exists>b' dest' b''. serialize_ser_buf (SerializeBufferBase_new (replicate 8 0))
       (append_to (SerializeBufferBase_new (replicate 4 0)) [9, 8]) = Some (FW_SERIALIZE_OK, b') \<and>
    deserialize_ser_buf b' (SerializeBufferBase_new [0, 0]) = Some (FW_SERIALIZE_OK, dest', b'') \<and>
    contents dest' = contents (append_to (SerializeBufferBase_new (replicate 4 0)) [9, 8]) \<and>
    unread b'' = []"
  by (rule nested_buffer_roundtrip)
    (simp_all add: ser_wf_def contents_def room_def append_to_def SerializeBufferBase_new_def)

section \<open>Raw copies\<close>

lemma copyRaw_ok:
  assumes "ser_wf b" "ser_wf dest" "\<not> m_null b" "\<not> m_null dest"
    "unat sz \<le> length (m_data dest)" "unat (m_deserLoc b) + unat sz \<le> length (m_data b)"
  shows "\<exists>dest'. copyRaw b dest sz =
    Some (FW_SERIALIZE_OK, b\<lparr>m_deserLoc := m_deserLoc b + sz\<rparr>, dest') \<and>
    contents dest' = take (unat sz) (drop (unat (m_deserLoc b)) (m_data b))"
proof -
  have "\<not> getBuffCapacity dest < sz"
    using assms(2,5) by (simp add: word_less_nat_alt unat_getBuffCapacity)
  moreover have "read_at (drop (unat (m_deserLoc b)) (m_data b)) 0 (unat sz) =
      Some (take (unat sz) (drop (unat (m_deserLoc b)) (m_data b)))"
    using assms(6) by (simp add: read_at_def)
  ultimately show ?thesis
    using assms
    by (simp add: copyRaw_def setBuff_def write_at_def contents_def)
qed

text \<open>
  \<open>copyRaw\<close> does not compare the size with what is left to read. Asked for more than that,
  with the excess still inside the storage, it reports \<open>FW_SERIALIZE_OK\<close>, hands out bytes past
  the end of the serialized data, and leaves the read offset beyond the write offset, so that
  \<open>getBuffLeft\<close> wraps around to \<open>2^32\<close> minus the excess. \<open>copyRawOffset\<close> on the same
  arguments reports an error and changes neither buffer.
\<close>

theorem copyRaw_overrun:
  assumes "ser_wf b" "ser_wf dest" "\<not> m_null b" "\<not> m_null dest"
    "unat sz \<le> length (m_data dest)" "unat (m_deserLoc b) + unat sz \<le> length (m_data b)"
    "length (unread b) < unat sz"
  shows "(\<exists>b' dest'. copyRaw b dest sz = Some (FW_SERIALIZE_OK, b', dest') \<and>
      take (length (unread b)) (contents dest') = unread b \<and>
      unat (getBuffLeft b') = 4294967296 - (unat sz - length (unread b))) \<and>
    (\<exists>stat. copyRawOffset b dest sz = Some (stat, b, dest) \<and> stat \<noteq> FW_SERIALIZE_OK)"
proof
  let ?b = "b\<lparr>m_deserLoc := m_deserLoc b + sz\<rparr>"
  obtain dest' where c: "copyRaw b dest sz = Some (FW_SERIALIZE_OK, ?b, dest')"
    and d: "contents dest' = take (unat sz) (drop (unat (m_deserLoc b)) (m_data b))"
    using copyRaw_ok [OF assms(1-6)] by blast
  have "unread b = take (length (unread b)) (drop (unat (m_deserLoc b)) (m_data b))"
    unfolding length_unread [OF assms(1)] by (simp add: unread_def contents_def drop_take)
  then have pre: "take (length (unread b)) (contents dest') = unread b"
    using assms(7) unfolding d by (simp add: min_def)
  have "unat (m_deserLoc b + sz) = unat (m_deserLoc b) + unat sz"
    using assms(1,6) by (intro unat_add_small) (simp add: ser_wf_def)
  moreover have "unat (m_serLoc b) < unat (m_deserLoc b) + unat sz"
    using assms(1,7) by (simp add: length_unread ser_wf_def)
  ultimately have "unat (m_serLoc b - (m_deserLoc b + sz)) =
      4294967296 + unat (m_serLoc b) - (unat (m_deserLoc b) + unat sz)"
    by (simp add: unat_sub_if_size word_le_nat_alt word_size)
  then have "unat (getBuffLeft ?b) = 4294967296 - (unat sz - length (unread b))"
    using assms(1,7) by (auto simp: getBuffLeft_def length_unread ser_wf_def)
  with c pre show "\<exists>b' dest'. copyRaw b dest sz = Some (FW_SERIALIZE_OK, b', dest') \<and>
      take (length (unread b)) (contents dest') = unread b \<and>
      unat (getBuffLeft b') = 4294967296 - (unat sz - length (unread b))"
    by blast
  have "getBuffLeft b < sz"
    using assms(1,7) by (simp add: word_less_nat_alt unat_getBuffLeft)
  then show "\<exists>stat. copyRawOffset b dest sz = Some (stat, b, dest) \<and> stat \<noteq> FW_SERIALIZE_OK"
    by (simp add: copyRawOffset_def)
qed

theorem copyRaw_overrun_witness:
  "(\<exists>b' dest'. copyRaw (append_to (SerializeBufferBase_new [0, 0, 0]) [5])
        (SerializeBufferBase_new [0, 0]) 2 = Some (FW_SERIALIZE_OK, b', dest') \<and>
      take (length (unread (append_to (SerializeBufferBase_new [0, 0, 0]) [5]))) (contents dest') =
        unread (append_to (SerializeBufferBase_new [0, 0, 0]) [5]) \<and>
      unat (getBuffLeft b') = 4294967296 -
        (unat (2 :: U32) - length (unread (append_to (SerializeBufferBase_new [0, 0, 0]) [5])))) \<and>
   (\<exists>stat. copyRawOffset (append_to (SerializeBufferBase_new [0, 0, 0]) [5])
        (SerializeBufferBase_new [0, 0]) 2 =
        Some (stat, append_to (SerializeBufferBase_new [0, 0, 0]) [5],
              SerializeBufferBase_new [0, 0]) \<and> stat \<noteq> FW_SERIALIZE_OK)"
  by (rule copyRaw_overrun)
    (simp_all add: ser_wf_def unread_def contents_def append_to_def SerializeBufferBase_new_def)

section \<open>Writers that append, readers that consume\<close>

definition writes :: "(ser_buf \<Rightarrow> (SerializeStatus \<times> ser_buf) option) \<Rightarrow> U8 list \<Rightarrow> bool" where
  "writes w bs \<longleftrightarrow> (\<forall>b. ser_wf b \<longrightarrow> length bs \<le> room b \<longrightarrow> w b = Some (FW_SERIALIZE_OK, append_to b bs))"

lemma writesD: "writes w bs \<Longrightarrow> ser_wf b \<Longrightarrow> length bs \<le> room b \<Longrightarrow> w b = Some (FW_SERIALIZE_OK, append_to b bs)"
  by (simp add: writes_def)

lemma writes_then:
  assumes "writes w1 bs1" "writes w2 bs2"
  shows "writes (\<lambda>b. ser_then (w1 b) w2) (bs1 @ bs2)"
  using assms by (auto simp: writes_def append_to_wf append_to_room append_to_append)

lemma writes_fixed:
  "writes (\<lambda>b. serialize_U8 b v8) [v8]" "writes (\<lambda>b. serialize_U16 b v16) (bytes_of_U16 v16)"
  "writes (\<lambda>b. serialize_U32 b v32) (bytes_of_U32 v32)"
  by (simp_all add: writes_def u8.put_ok u16.put_ok u32.put_ok)

lemma serialize_bytes_take:
  assumes "ser_wf b" "unat len \<le> length src" "unat len \<le> room b"
  shows "serialize_bytes b src len True = Some (FW_SERIALIZE_OK, append_to b (take (unat len) src))"
  using assms memcpy_in [of b len "take (unat len) src"]
  by (simp add: serialize_bytes_def read_at_def)

lemma deserialize_bytes_raw_ok:
  assumes "ser_wf b" "\<not> m_null b" "unat n \<le> length (unread b)"
  shows "deserialize_bytes b n True = Some (Inr (take (unat n) (unread b)), consume b (unat n))"
proof -
  have "\<not> n > getBuffLeft b"
    using unat_getBuffLeft [OF assms(1)] assms(3) by (simp add: word_less_nat_alt)
  moreover have "unat (m_deserLoc b) + unat n \<le> unat (m_serLoc b)"
    "unat (m_serLoc b) \<le> length (m_data b)"
    using assms by (auto simp: length_unread ser_wf_def)
  moreover from this have "take (unat n) (drop (unat (m_deserLoc b)) (m_data b)) =
      take (unat n) (unread b)"
    by (simp add: unread_def contents_def drop_take min_def)
  ultimately show ?thesis
    using assms(2) by (simp add: deserialize_bytes_def read_at_in_bounds consume_def)
qed

end
