(* ===== verification/Fw_Time.thy ===== *)
theory Fw_Time
  imports Ser_Codecs
begin

text \<open>
  Fw/Time/Time.cpp: the time stamp every event, telemetry value and sequence record carries.
  A time has a base and a context, which say what clock it comes from, and unsigned seconds
  and microseconds. Two times of different base or context are incomparable. \<open>add\<close> and
  \<open>sub\<close> assert on mismatched clocks and on microseconds out of range.
\<close>

section \<open>State and comparison\<close>

record Time =
  m_timeBase :: U16
  m_timeContext :: U8
  m_seconds :: U32
  m_useconds :: U32

definition TB_NONE :: U16 where "TB_NONE = 0"
definition TB_DONT_CARE :: U16 where "TB_DONT_CARE = 0xFFFF"
definition FW_CONTEXT_DONT_CARE :: U8 where "FW_CONTEXT_DONT_CARE = 0xFF"

datatype Comparison = LT | EQ | GT | INCOMPARABLE

definition Time_new :: Time where
  "Time_new = \<lparr>m_timeBase = TB_NONE, m_timeContext = 0, m_seconds = 0, m_useconds = 0\<rparr>"

definition Time_set :: "Time \<Rightarrow> U16 \<Rightarrow> U8 \<Rightarrow> U32 \<Rightarrow> U32 \<Rightarrow> Time" where
  "Time_set t timeBase context seconds useconds =
     t\<lparr>m_timeBase := timeBase, m_timeContext := context,
        m_useconds := useconds, m_seconds := seconds\<rparr>"

definition Time_set_sec :: "Time \<Rightarrow> U32 \<Rightarrow> U32 \<Rightarrow> Time" where
  "Time_set_sec t seconds useconds =
     Time_set t (m_timeBase t) (m_timeContext t) seconds useconds"

definition Time_set_base :: "Time \<Rightarrow> U16 \<Rightarrow> U32 \<Rightarrow> U32 \<Rightarrow> Time" where
  "Time_set_base t timeBase seconds useconds =
     Time_set t timeBase (m_timeContext t) seconds useconds"

definition Time_make :: "U16 \<Rightarrow> U8 \<Rightarrow> U32 \<Rightarrow> U32 \<Rightarrow> Time" where
  "Time_make timeBase context seconds useconds =
     Time_set Time_new timeBase context seconds useconds"

definition Time_zero :: "U16 \<Rightarrow> Time" where
  "Time_zero timeBase = Time_make timeBase 0 0 0"

definition setTimeBase :: "Time \<Rightarrow> U16 \<Rightarrow> Time" where
  "setTimeBase t timeBase = t\<lparr>m_timeBase := timeBase\<rparr>"

definition setTimeContext :: "Time \<Rightarrow> U8 \<Rightarrow> Time" where
  "setTimeContext t context = t\<lparr>m_timeContext := context\<rparr>"

definition Time_compare :: "Time \<Rightarrow> Time \<Rightarrow> Comparison" where
  "Time_compare time1 time2 =
     (if m_timeBase time1 \<noteq> m_timeBase time2 then INCOMPARABLE
      else if m_timeContext time1 \<noteq> m_timeContext time2 then INCOMPARABLE
      else let s1 = m_seconds time1; s2 = m_seconds time2;
               us1 = m_useconds time1; us2 = m_useconds time2 in
        if s1 < s2 then LT
        else if s1 > s2 then GT
        else if us1 < us2 then LT
        else if us1 > us2 then GT
        else EQ)"

definition Time_eq :: "Time \<Rightarrow> Time \<Rightarrow> bool" where
  "Time_eq a b \<longleftrightarrow> Time_compare a b = EQ"

definition Time_neq :: "Time \<Rightarrow> Time \<Rightarrow> bool" where
  "Time_neq a b \<longleftrightarrow> Time_compare a b \<noteq> EQ"

definition Time_gt :: "Time \<Rightarrow> Time \<Rightarrow> bool" where
  "Time_gt a b \<longleftrightarrow> Time_compare a b = GT"

definition Time_lt :: "Time \<Rightarrow> Time \<Rightarrow> bool" where
  "Time_lt a b \<longleftrightarrow> Time_compare a b = LT"

definition Time_ge :: "Time \<Rightarrow> Time \<Rightarrow> bool" where
  "Time_ge a b = (let c = Time_compare a b in GT = c \<or> EQ = c)"

definition Time_le :: "Time \<Rightarrow> Time \<Rightarrow> bool" where
  "Time_le a b = (let c = Time_compare a b in LT = c \<or> EQ = c)"

section \<open>Arithmetic\<close>

definition Time_add :: "Time \<Rightarrow> Time \<Rightarrow> Time option" where
  "Time_add a b = do {
     fw_assert (m_timeBase a = m_timeBase b);
     fw_assert (m_timeContext a = m_timeContext b);
     let seconds = m_seconds a + m_seconds b;
     let uSeconds = m_useconds a + m_useconds b;
     fw_assert (uSeconds < 1999999);
     Some (if uSeconds \<ge> 1000000
           then Time_make (m_timeBase a) (m_timeContext a) (seconds + 1) (uSeconds - 1000000)
           else Time_make (m_timeBase a) (m_timeContext a) seconds uSeconds)
   }"

definition Time_sub :: "Time \<Rightarrow> Time \<Rightarrow> Time option" where
  "Time_sub minuend subtrahend = do {
     fw_assert (m_timeBase minuend = m_timeBase subtrahend);
     fw_assert (m_timeContext minuend = m_timeContext subtrahend);
     fw_assert (Time_ge minuend subtrahend);
     let seconds = m_seconds minuend - m_seconds subtrahend;
     Some (if m_useconds subtrahend > m_useconds minuend
           then Time_make (m_timeBase minuend) (m_timeContext minuend) (seconds - 1)
                  (m_useconds minuend + 1000000 - m_useconds subtrahend)
           else Time_make (m_timeBase minuend) (m_timeContext minuend) seconds
                  (m_useconds minuend - m_useconds subtrahend))
   }"

text \<open>The member function \<open>add(U32 seconds, U32 useconds)\<close>.\<close>

definition Time_add_sec :: "Time \<Rightarrow> U32 \<Rightarrow> U32 \<Rightarrow> Time option" where
  "Time_add_sec t seconds useconds = (
     let t1 = t\<lparr>m_seconds := m_seconds t + seconds, m_useconds := m_useconds t + useconds\<rparr> in do {
       fw_assert (m_useconds t1 < 1999999);
       Some (if m_useconds t1 \<ge> 1000000
             then t1\<lparr>m_seconds := m_seconds t1 + 1, m_useconds := m_useconds t1 - 1000000\<rparr>
             else t1)
     })"

section \<open>Serialization\<close>

definition Time_serialize :: "ser_buf \<Rightarrow> Time \<Rightarrow> (SerializeStatus \<times> ser_buf) option" where
  "Time_serialize b t = do {
     (stat, b) \<leftarrow> serialize_U16 b (m_timeBase t);
     if stat \<noteq> FW_SERIALIZE_OK then Some (stat, b) else do {
       (stat, b) \<leftarrow> serialize_U8 b (m_timeContext t);
       if stat \<noteq> FW_SERIALIZE_OK then Some (stat, b) else do {
         (stat, b) \<leftarrow> serialize_U32 b (m_seconds t);
         if stat \<noteq> FW_SERIALIZE_OK then Some (stat, b)
         else serialize_U32 b (m_useconds t)
       }
     }
   }"

text \<open>\<open>deserialize\<close> assigns member by member, so the time it leaves on error is part of the result.\<close>

definition Time_deserialize ::
  "Time \<Rightarrow> ser_buf \<Rightarrow> (SerializeStatus \<times> Time \<times> ser_buf) option" where
  "Time_deserialize t b = do {
     (r, b) \<leftarrow> deserialize_U16 b;
     case r of Inl stat \<Rightarrow> Some (stat, t, b) | Inr deSer \<Rightarrow> do {
       let t = t\<lparr>m_timeBase := deSer\<rparr>;
       (r, b) \<leftarrow> deserialize_U8 b;
       case r of Inl stat \<Rightarrow> Some (stat, t, b) | Inr context \<Rightarrow> do {
         let t = t\<lparr>m_timeContext := context\<rparr>;
         (r, b) \<leftarrow> deserialize_U32 b;
         case r of Inl stat \<Rightarrow> Some (stat, t, b) | Inr seconds \<Rightarrow> do {
           let t = t\<lparr>m_seconds := seconds\<rparr>;
           (r, b) \<leftarrow> deserialize_U32 b;
           case r of Inl stat \<Rightarrow> Some (stat, t, b) | Inr useconds \<Rightarrow>
             Some (FW_SERIALIZE_OK, t\<lparr>m_useconds := useconds\<rparr>, b)
         }
       }
     }
   }"

section \<open>Times as numbers of microseconds\<close>

definition same_clock :: "Time \<Rightarrow> Time \<Rightarrow> bool" where
  "same_clock a b \<longleftrightarrow> m_timeBase a = m_timeBase b \<and> m_timeContext a = m_timeContext b"

definition normalized :: "Time \<Rightarrow> bool" where
  "normalized t \<longleftrightarrow> unat (m_useconds t) < 1000000"

definition micros :: "Time \<Rightarrow> nat" where
  "micros t = unat (m_seconds t) * 1000000 + unat (m_useconds t)"

lemma Time_make_simps [simp]:
  "m_timeBase (Time_make tb tc s us) = tb" "m_timeContext (Time_make tb tc s us) = tc"
  "m_seconds (Time_make tb tc s us) = s" "m_useconds (Time_make tb tc s us) = us"
  by (simp_all add: Time_make_def Time_set_def)

lemma Time_compare_incomparable: "Time_compare a b = INCOMPARABLE \<longleftrightarrow> \<not> same_clock a b"
  by (simp add: Time_compare_def same_clock_def Let_def)

lemma Time_compare_micros:
  assumes "same_clock a b" "normalized a" "normalized b"
  shows "Time_compare a b =
    (if micros a < micros b then LT else if micros b < micros a then GT else EQ)"
  using assms
  by (auto simp: Time_compare_def same_clock_def normalized_def micros_def Let_def
      word_less_nat_alt dest: word_unat_eq_iff [THEN iffD2])

lemma normalized_micros_eq:
  assumes "same_clock a b" "normalized a" "normalized b" "micros a = micros b"
  shows "a = (b :: Time)"
proof -
  have "unat (m_seconds a) = unat (m_seconds b)"
    using assms unfolding normalized_def micros_def by linarith
  moreover from this have "unat (m_useconds a) = unat (m_useconds b)"
    using assms(4) by (simp add: micros_def)
  ultimately show ?thesis
    using assms(1) by (intro Time.equality) (simp_all add: same_clock_def word_unat_eq_iff)
qed

lemma carry_micros:
  fixes s us :: U32
  assumes "unat us < 2000000"
  shows "(if us \<ge> 1000000 then unat (s + 1) * 1000000 + unat (us - 1000000)
          else unat s * 1000000 + unat us) =
         (unat s * 1000000 + unat us) mod 4294967296000000"
proof (cases "us \<ge> 1000000")
  case True
  then have u: "1000000 \<le> unat us" by (simp add: word_le_nat_alt)
  then have us: "unat (us - 1000000) = unat us - 1000000"
    by (simp add: unat_sub_small)
  show ?thesis
  proof (cases "unat s = 4294967295")
    case s: True
    then have "unat (s + 1) = 0" by (simp add: unat_word_ariths)
    moreover have "(unat s * 1000000 + unat us) mod 4294967296000000 =
        (unat s * 1000000 + unat us - 4294967296000000) mod 4294967296000000"
      using s u by (intro le_mod_geq) simp
    ultimately show ?thesis
      using True s u us assms by simp
  next
    case False
    then have "unat s < 4294967295" using unat_lt32 [of s] by linarith
    then have "unat (s + 1) = unat s + 1" by (simp add: unat_add_small)
    with True us u assms \<open>unat s < 4294967295\<close> show ?thesis
      by simp
  qed
next
  case False
  then have "unat us < 1000000" by (simp add: word_le_nat_alt)
  then have "unat s * 1000000 + unat us < 4294967296000000"
    using unat_lt32 [of s] by linarith
  then show ?thesis
    using False by simp
qed

lemma unat_add_mod32: "unat (a + b :: U32) = (unat a + unat b) mod 4294967296"
  by (simp add: unat_word_ariths)

lemma mod_scale: "(a mod 4294967296 * 1000000 + u) mod 4294967296000000 =
    (a * 1000000 + u) mod (4294967296000000 :: nat)"
proof -
  have "a mod 4294967296 * 1000000 = (a * 1000000) mod (4294967296 * 1000000 :: nat)"
    by (rule mult_mod_left)
  then show ?thesis by (simp add: mod_add_left_eq)
qed

lemma Time_add_sec_ok:
  assumes "normalized t" "unat useconds < 1000000"
  shows "\<exists>c. Time_add_sec t seconds useconds = Some c \<and> same_clock c t \<and> normalized c \<and>
    micros c = (micros t + unat seconds * 1000000 + unat useconds) mod 4294967296000000"
proof -
  let ?us = "m_useconds t + useconds" and ?s = "m_seconds t + seconds"
  have us: "unat ?us = unat (m_useconds t) + unat useconds"
    using assms by (simp add: normalized_def unat_add_small)
  then have lt: "?us < 1999999" "unat ?us < 2000000"
    using assms by (auto simp: normalized_def word_less_nat_alt)
  have m: "(unat ?s * 1000000 + unat ?us) mod 4294967296000000 =
      (micros t + unat seconds * 1000000 + unat useconds) mod 4294967296000000"
    unfolding unat_add_mod32 [of "m_seconds t"] us mod_scale
    by (simp add: micros_def algebra_simps)
  have "\<not> ?us \<ge> 1000000 \<Longrightarrow> unat ?us < 1000000"
    "?us \<ge> 1000000 \<Longrightarrow> unat (?us - 1000000) < 1000000"
    using lt(2) by (auto simp: word_le_nat_alt unat_sub_small)
  then show ?thesis
    using lt carry_micros [OF lt(2), of ?s] m
    by (auto simp: Time_add_sec_def Let_def same_clock_def normalized_def micros_def)
qed

lemma Time_add_alt:
  assumes "same_clock a b"
  shows "Time_add a b = Time_add_sec a (m_seconds b) (m_useconds b)"
  using assms
  by (simp add: Time_add_def Time_add_sec_def same_clock_def Let_def Time_make_def Time_set_def
      Time_new_def)

section \<open>Serialized times\<close>

text \<open>
  \<open>Time::serialize\<close> is the four overloads in a row, so the contract of the pair of codecs,
  used three times, gives the contract of times. It is not atomic: a time that does not fit may
  leave its first members in the buffer.
\<close>

definition Time_bytes :: "Time \<Rightarrow> U8 list" where
  "Time_bytes t = bytes_of_U16 (m_timeBase t) @ [m_timeContext t] @
     bytes_of_U32 (m_seconds t) @ bytes_of_U32 (m_useconds t)"

definition Time_get :: "ser_buf \<Rightarrow> ((SerializeStatus + Time) \<times> ser_buf) option" where
  "Time_get b = do {
     (stat, t, b1) \<leftarrow> Time_deserialize Time_new b;
     Some (if stat = FW_SERIALIZE_OK then Inr t else Inl stat, b1)
   }"

interpretation sec_usec: codec_pair
  serialize_U32 deserialize_U32 bytes_of_U32 serialize_U32 deserialize_U32 bytes_of_U32
  by unfold_locales

interpretation context_sec: codec_pair
  serialize_U8 deserialize_U8 "\<lambda>v. [v]"
  "put_pair serialize_U32 serialize_U32" "get_pair deserialize_U32 deserialize_U32"
  "\<lambda>v. bytes_of_U32 (fst v) @ bytes_of_U32 (snd v)"
  by unfold_locales

interpretation base_context: codec_pair
  serialize_U16 deserialize_U16 bytes_of_U16
  "put_pair serialize_U8 (put_pair serialize_U32 serialize_U32)"
  "get_pair deserialize_U8 (get_pair deserialize_U32 deserialize_U32)"
  "\<lambda>v. [fst v] @ bytes_of_U32 (fst (snd v)) @ bytes_of_U32 (snd (snd v))"
  by unfold_locales

definition Time_fields :: "Time \<Rightarrow> U16 \<times> U8 \<times> U32 \<times> U32" where
  "Time_fields t = (m_timeBase t, m_timeContext t, m_seconds t, m_useconds t)"

lemma Time_serialize_pairs:
  "Time_serialize b t =
    put_pair serialize_U16 (put_pair serialize_U8 (put_pair serialize_U32 serialize_U32)) b
      (Time_fields t)"
  unfolding Time_serialize_def put_pair_def Time_fields_def fst_conv snd_conv ..

lemma Time_get_pairs:
  assumes "get_pair deserialize_U16
      (get_pair deserialize_U8 (get_pair deserialize_U32 deserialize_U32)) b =
    Some (Inr (Time_fields t), b')"
  shows "Time_get b = Some (Inr t, b')"
  using assms
  by (auto simp: Time_get_def Time_deserialize_def get_pair_def Time_fields_def Time_new_def
      split: bind_splits sum.splits intro!: Time.equality)

interpretation time: codec Time_serialize Time_get Time_bytes
proof
  fix b t assume "ser_wf b" "length (Time_bytes t) \<le> room b"
  then show "Time_serialize b t = Some (FW_SERIALIZE_OK, append_to b (Time_bytes t))"
    using base_context.both.put_ok [of b "Time_fields t"]
    by (simp add: Time_serialize_pairs Time_bytes_def Time_fields_def)
next
  fix b t rest assume "ser_wf b" "unread b = Time_bytes t @ rest"
  then have "get_pair deserialize_U16
      (get_pair deserialize_U8 (get_pair deserialize_U32 deserialize_U32)) b =
    Some (Inr (Time_fields t), consume b (length (Time_bytes t)))"
    using base_context.both.get_ok [of b "Time_fields t" rest]
    by (simp add: Time_bytes_def Time_fields_def)
  then show "Time_get b = Some (Inr t, consume b (length (Time_bytes t)))"
    by (rule Time_get_pairs)
qed

section \<open>Properties\<close>

text \<open>
  On normalized times of one clock the comparison operators are the order of the microsecond
  counts, and \<open>==\<close> is equality of the times; times of different clocks satisfy none of
  \<open>==\<close>, \<open><\<close>, \<open><=\<close>, \<open>>\<close>, \<open>>=\<close>.
\<close>

theorem Time_order:
  assumes "normalized a" "normalized b"
  shows "(same_clock a b \<longrightarrow>
      (Time_lt a b \<longleftrightarrow> micros a < micros b) \<and> (Time_le a b \<longleftrightarrow> micros a \<le> micros b) \<and>
      (Time_gt a b \<longleftrightarrow> micros a > micros b) \<and> (Time_ge a b \<longleftrightarrow> micros a \<ge> micros b) \<and>
      (Time_eq a b \<longleftrightarrow> a = b) \<and> (Time_neq a b \<longleftrightarrow> a \<noteq> b)) \<and>
    (\<not> same_clock a b \<longrightarrow> \<not> Time_lt a b \<and> \<not> Time_le a b \<and> \<not> Time_gt a b \<and>
      \<not> Time_ge a b \<and> \<not> Time_eq a b \<and> Time_neq a b)"
proof (cases "same_clock a b")
  case True
  then show ?thesis
    using Time_compare_micros [OF True assms] normalized_micros_eq [OF True assms]
    by (auto simp: Time_lt_def Time_le_def Time_gt_def Time_ge_def Time_eq_def Time_neq_def Let_def)
next
  case False
  then have "Time_compare a b = INCOMPARABLE"
    by (simp add: Time_compare_incomparable)
  with False show ?thesis
    by (simp add: Time_lt_def Time_le_def Time_gt_def Time_ge_def Time_eq_def Time_neq_def)
qed

theorem Time_order_witness:
  "Time_lt (Time_make 2 0 5 999999) (Time_make 2 0 6 0) \<and>
   \<not> Time_ge (Time_make 2 0 5 999999) (Time_make 1 0 5 0)"
  using Time_order [of "Time_make 2 0 5 999999" "Time_make 2 0 6 0"]
    Time_order [of "Time_make 2 0 5 999999" "Time_make 1 0 5 0"]
  by (simp add: normalized_def same_clock_def micros_def)

text \<open>
  \<open>add\<close> of two normalized times of one clock never asserts; its result is a normalized time
  of that clock whose microsecond count is the sum, modulo the \<open>2^32\<close> seconds the type holds.
  On times of different clocks it asserts.
\<close>

theorem Time_add_correct:
  assumes "normalized a" "normalized b"
  shows "(same_clock a b \<longrightarrow> (\<exists>c. Time_add a b = Some c \<and> same_clock c a \<and> normalized c \<and>
      micros c = (micros a + micros b) mod (2 ^ 32 * 1000000))) \<and>
    (\<not> same_clock a b \<longrightarrow> Time_add a b = None)"
proof (cases "same_clock a b")
  case True
  then show ?thesis
    using Time_add_sec_ok [OF assms(1), of "m_useconds b" "m_seconds b"] assms(2)
    by (simp add: Time_add_alt normalized_def micros_def add.assoc)
next
  case False
  then show ?thesis by (auto simp: Time_add_def same_clock_def)
qed

theorem Time_add_correct_witness:
  "\<exists>c. Time_add (Time_make 2 0 5 999999) (Time_make 2 0 6 2) = Some c \<and> normalized c \<and>
     micros c = 12000001"
  using Time_add_correct [of "Time_make 2 0 5 999999" "Time_make 2 0 6 2"]
  by (auto simp: normalized_def same_clock_def micros_def)

text \<open>
  \<open>sub\<close> of normalized times of one clock asserts exactly when the minuend is earlier;
  otherwise the result is the normalized time with the difference of the microsecond counts, and
  adding it back to the subtrahend gives the minuend.
\<close>

theorem Time_sub_correct:
  assumes "same_clock a b" "normalized a" "normalized b"
  shows "(micros a < micros b \<longrightarrow> Time_sub a b = None) \<and>
    (micros b \<le> micros a \<longrightarrow> (\<exists>d. Time_sub a b = Some d \<and> same_clock d a \<and> normalized d \<and>
       micros d = micros a - micros b \<and> Time_add b d = Some a))"
proof (cases "micros b \<le> micros a")
  case False
  then show ?thesis
    using Time_compare_micros [OF assms]
    by (auto simp: Time_sub_def Time_ge_def Let_def)
next
  case True
  let ?d = "if m_useconds b > m_useconds a
    then Time_make (m_timeBase a) (m_timeContext a) (m_seconds a - m_seconds b - 1)
           (m_useconds a + 1000000 - m_useconds b)
    else Time_make (m_timeBase a) (m_timeContext a) (m_seconds a - m_seconds b)
           (m_useconds a - m_useconds b)"
  have d: "Time_sub a b = Some ?d"
    using True assms Time_compare_micros [OF assms]
    by (auto simp: Time_sub_def Time_ge_def Let_def same_clock_def)
  have sec: "unat (m_seconds b) \<le> unat (m_seconds a)"
    using True assms unfolding micros_def normalized_def by linarith
  have clk: "same_clock ?d a" using assms by (simp add: same_clock_def)
  have md: "normalized ?d \<and> micros ?d = micros a - micros b"
  proof (cases "m_useconds b > m_useconds a")
    case lt: True
    then have us: "unat (m_useconds a) < unat (m_useconds b)" by (simp add: word_less_nat_alt)
    then have "unat (m_seconds b) < unat (m_seconds a)"
      using True unfolding micros_def by linarith
    then have s: "unat (m_seconds a - m_seconds b - 1) = unat (m_seconds a) - unat (m_seconds b) - 1"
      using sec by (simp add: unat_sub_small unat_dec)
    have "unat (m_useconds a + 1000000) = unat (m_useconds a) + 1000000"
      using assms(2) by (simp add: normalized_def unat_add_small)
    then have u: "unat (m_useconds a + 1000000 - m_useconds b) =
        unat (m_useconds a) + 1000000 - unat (m_useconds b)"
      using assms(3) by (simp add: normalized_def unat_sub_small)
    show ?thesis
      using lt s u us assms(2,3) \<open>unat (m_seconds b) < unat (m_seconds a)\<close>
      by (auto simp: normalized_def micros_def diff_mult_distrib)
  next
    case ge: False
    then have us: "unat (m_useconds b) \<le> unat (m_useconds a)" by (simp add: word_less_nat_alt)
    then show ?thesis
      using ge sec assms(2) by (auto simp: normalized_def micros_def unat_sub_small diff_mult_distrib)
  qed
  have cb: "same_clock b ?d" using assms(1) by (simp add: same_clock_def)
  have nd: "unat (m_useconds ?d) < 1000000" using md by (simp add: normalized_def)
  from Time_add_sec_ok [OF assms(3) nd, of "m_seconds ?d"]
  obtain c where c: "Time_add b ?d = Some c" "same_clock c b" "normalized c"
    "micros c = (micros b + micros ?d) mod 4294967296000000"
    unfolding Time_add_alt [OF cb] micros_def [of ?d] by (auto simp: add.assoc)
  have "micros a < 4294967296000000"
    using assms(2) unat_lt32 [of "m_seconds a"] unfolding micros_def normalized_def by linarith
  then have "micros c = micros a"
    using c(4) md True by simp
  moreover have "same_clock c a"
    using c(2) assms(1) by (simp add: same_clock_def)
  ultimately have "c = a"
    using normalized_micros_eq [OF _ c(3) assms(2)] by blast
  then show ?thesis
    using True d md clk c(1) by auto
qed

theorem Time_sub_correct_witness:
  "\<exists>d. Time_sub (Time_make 2 0 7 1) (Time_make 2 0 5 3) = Some d \<and> micros d = 1999998 \<and>
     Time_add (Time_make 2 0 5 3) d = Some (Time_make 2 0 7 1)"
  using Time_sub_correct [of "Time_make 2 0 7 1" "Time_make 2 0 5 3"]
  by (auto simp: normalized_def same_clock_def micros_def)

text \<open>
  Any list of times serialized into an empty buffer with 11 bytes of room for each reads
  back as the same list, base, context, seconds and microseconds included, and nothing is left
  unread.
\<close>

theorem Time_list_roundtrip:
  assumes "ser_wf b" "contents b = []" "11 * length ts \<le> room b" "ts \<noteq> []"
  shows "\<exists>b' b''. put_all Time_serialize b ts = Some (FW_SERIALIZE_OK, b') \<and>
    length (contents b') = 11 * length ts \<and>
    get_all Time_get (length ts) b' = Some (Inr ts, b'') \<and> unread b'' = []"
proof -
  have "length (Time_bytes t) = 11" for t
    by (simp add: Time_bytes_def)
  then have len: "length (concat (map Time_bytes ts)) = 11 * length ts"
    by (simp add: length_concat comp_def sum_list_triv)
  then show ?thesis
    using time.roundtrip [OF assms(1,2) _ assms(4)] assms(3) by metis
qed

theorem Time_list_roundtrip_witness:
  "\<exists>b' b''. put_all Time_serialize (SerializeBufferBase_new (replicate 22 0))
      [Time_make 2 1 5 6, Time_zero 1] = Some (FW_SERIALIZE_OK, b') \<and>
    length (contents b') = 11 * length [Time_make 2 1 5 6, Time_zero 1] \<and>
    get_all Time_get (length [Time_make 2 1 5 6, Time_zero 1]) b' =
      Some (Inr [Time_make 2 1 5 6, Time_zero 1], b'') \<and> unread b'' = []"
  by (rule Time_list_roundtrip)
    (simp_all add: ser_wf_def contents_def room_def SerializeBufferBase_new_def)

end
