(* ===== verification/Crc32.thy ===== *)
theory Crc32
  imports Prelude
begin

text \<open>
  Utils/Hash/libcrc/lib_crc.c: the table-driven CRC-32 the sequence files and the hash utility
  use, in the 64-bit \<open>unsigned long\<close> the C code computes in, its equivalence with the bitwise
  shift register, and the fact that makes it a check: a change of one byte changes the CRC.
\<close>

unbundle bit_operations_syntax

section \<open>The table and the update\<close>

definition P_32 :: "64 word" where
  "P_32 = 0xEDB88320"

fun crc_tab32_rounds :: "nat \<Rightarrow> 64 word \<Rightarrow> 64 word" where
  "crc_tab32_rounds 0 crc = crc"
| "crc_tab32_rounds (Suc j) crc =
     crc_tab32_rounds j (if crc AND 1 \<noteq> 0 then drop_bit 1 crc XOR P_32 else drop_bit 1 crc)"

definition crc_tab32 :: "64 word list" where
  "crc_tab32 = map (\<lambda>i. crc_tab32_rounds 8 (of_nat i)) [0..<256]"

definition update_crc_32 :: "64 word \<Rightarrow> 8 word \<Rightarrow> 64 word" where
  "update_crc_32 crc c =
     (let long_c = 0xff AND scast c;
          tmp = crc XOR long_c
      in drop_bit 8 crc XOR crc_tab32 ! unat (tmp AND 0xff))"

text \<open>A buffer of bytes folded into a 32-bit register, as all callers do.\<close>

fun crc_update :: "U32 \<Rightarrow> U8 list \<Rightarrow> U32" where
  "crc_update crc [] = crc"
| "crc_update crc (b # bs) = crc_update (ucast (update_crc_32 (ucast crc) b)) bs"

section \<open>The shift register it implements\<close>

definition crc_shift :: "U32 \<Rightarrow> U32" where
  "crc_shift r = (if bit r 0 then drop_bit 1 r XOR 0xEDB88320 else drop_bit 1 r)"

definition crc_byte :: "U32 \<Rightarrow> U8 \<Rightarrow> U32" where
  "crc_byte r b = (crc_shift ^^ 8) (r XOR ucast b)"

lemma crc_shift_xor: "crc_shift (a XOR b) = crc_shift a XOR crc_shift b"
  by (rule bit_word_eqI) (auto simp: crc_shift_def bit_simps)

lemma crc_shifts_xor: "(crc_shift ^^ n) (a XOR b) = (crc_shift ^^ n) a XOR (crc_shift ^^ n) b"
  by (induction n) (simp_all add: crc_shift_xor)

lemma crc_shifts_high:
  "(\<forall>i < n. \<not> bit a i) \<Longrightarrow> (crc_shift ^^ n) a = drop_bit n a"
proof (induction n arbitrary: a)
  case 0
  then show ?case by simp
next
  case (Suc n)
  have "crc_shift a = drop_bit 1 a"
    using Suc.prems by (simp add: crc_shift_def)
  moreover have "(crc_shift ^^ n) (drop_bit 1 a) = drop_bit n (drop_bit 1 a)"
    using Suc.prems by (intro Suc.IH) (auto simp: bit_simps)
  ultimately show ?case
    by (simp add: funpow_Suc_right del: funpow.simps)
qed

lemma and_one_bit: "(x AND 1 \<noteq> (0 :: 64 word)) \<longleftrightarrow> bit x 0"
  by (simp add: bit_0 and_one_eq odd_iff_mod_2_eq_one)

lemma bit_P_32: "bit (P_32 :: 64 word) n \<longleftrightarrow> bit (0xEDB88320 :: U32) n"
proof -
  have P: "P_32 = ucast (0xEDB88320 :: U32)" by (simp add: P_32_def)
  show ?thesis unfolding P bit_ucast_iff
    using bit_imp_le_length [of "0xEDB88320 :: U32" n] by auto
qed

lemma crc_round_ucast:
  "(if (ucast (r :: U32) :: 64 word) AND 1 \<noteq> 0 then drop_bit 1 (ucast r) XOR P_32
    else drop_bit 1 (ucast r)) = ucast (crc_shift r)"
  unfolding and_one_bit
  by (rule bit_word_eqI) (auto simp: crc_shift_def bit_simps bit_P_32 dest: bit_imp_le_length)

lemma crc_tab32_rounds_ucast:
  "crc_tab32_rounds n (ucast (r :: U32)) = ucast ((crc_shift ^^ n) r)"
proof (induction n arbitrary: r)
  case 0
  then show ?case by simp
next
  case (Suc n)
  show ?case
    by (simp only: crc_tab32_rounds.simps crc_round_ucast Suc.IH funpow_Suc_right comp_apply)
qed

lemma crc_tab32_nth: "i < 256 \<Longrightarrow> crc_tab32 ! i = ucast ((crc_shift ^^ 8) (of_nat i))"
proof -
  assume i: "i < 256"
  have "(of_nat i :: 64 word) = ucast (of_nat i :: U32)"
    by (rule word_unat_eq_iff [THEN iffD2]) (use i in \<open>simp add: unat_of_nat unat_ucast_mod\<close>)
  then show ?thesis
    using i by (simp add: crc_tab32_def crc_tab32_rounds_ucast del: crc_tab32_rounds.simps)
qed

lemma and_0xff: "(x :: 'a::len word) AND 0xff = take_bit 8 x"
  by (simp add: take_bit_eq_mask mask_numeral)

lemma and_0xff': "0xff AND (x :: 'a::len word) = take_bit 8 x"
  by (simp add: take_bit_eq_mask mask_numeral and.commute)

text \<open>One table step is eight shifts of the register with the byte fed in at the low end.\<close>

lemma update_crc_32_byte: "ucast (update_crc_32 (ucast r) b) = crc_byte r b"
proof -
  let ?x = "r XOR ucast b :: U32"
  let ?lo = "take_bit 8 ?x" and ?hi = "push_bit 8 (drop_bit 8 ?x)"
  have split: "?x = ?hi XOR ?lo"
    by (rule bit_word_eqI) (auto simp: bit_simps)
  have hi: "(crc_shift ^^ 8) ?hi = drop_bit 8 r"
  proof -
    have "(crc_shift ^^ 8) ?hi = drop_bit 8 ?hi"
      by (rule crc_shifts_high) (auto simp: bit_simps)
    also have "\<dots> = drop_bit 8 r"
      by (rule bit_word_eqI) (auto simp: bit_simps dest: bit_imp_le_length)
    finally show ?thesis .
  qed
  have tmp: "((ucast r :: 64 word) XOR (0xff AND scast b)) AND 0xff = ucast ?lo"
    unfolding and_0xff and_0xff'
    by (rule bit_word_eqI) (auto simp: bit_simps)
  have lt: "unat ?lo < 256"
    by (simp only: unsigned_take_bit_eq) (simp add: take_bit_nat_def)
  have "unat (ucast ?lo :: 64 word) = unat ?lo"
    by (rule unat_ucast32_64)
  then have "crc_tab32 ! unat (ucast ?lo :: 64 word) = ucast ((crc_shift ^^ 8) ?lo)"
    using crc_tab32_nth [OF lt] by simp
  then have "update_crc_32 (ucast r) b = drop_bit 8 (ucast r) XOR ucast ((crc_shift ^^ 8) ?lo)"
    unfolding update_crc_32_def Let_def tmp by simp
  also have "\<dots> = ucast (drop_bit 8 r XOR (crc_shift ^^ 8) ?lo)"
    by (rule bit_word_eqI) (auto simp: bit_simps dest: bit_imp_le_length)
  also have "drop_bit 8 r XOR (crc_shift ^^ 8) ?lo = (crc_shift ^^ 8) (?hi XOR ?lo)"
    by (simp only: crc_shifts_xor hi)
  finally show ?thesis
    by (simp only: crc_byte_def flip: split) simp
qed

lemma crc_update_reference: "crc_update r bs = foldl crc_byte r bs"
  by (induction bs arbitrary: r) (simp_all add: update_crc_32_byte)

lemma crc_update_append [simp]: "crc_update r (xs @ ys) = crc_update (crc_update r xs) ys"
  by (simp add: crc_update_reference)

section \<open>Sensitivity to single bytes\<close>

lemma xor_cancel: "(a :: 'a::len word) XOR c = b XOR c \<Longrightarrow> a = b"
  by (metis xor.assoc xor.right_neutral xor_self_eq)

lemma crc_shift_inj: "crc_shift a = crc_shift b \<Longrightarrow> a = b"
proof -
  assume eq: "crc_shift a = crc_shift b"
  have top: "bit (crc_shift x) 31 \<longleftrightarrow> bit x 0" for x
    by (auto simp: crc_shift_def bit_simps dest: bit_imp_le_length)
  have zero: "bit a 0 \<longleftrightarrow> bit b 0" using eq top by metis
  then have d: "drop_bit 1 a = drop_bit 1 b"
    using eq xor_cancel [of "drop_bit 1 a" "0xEDB88320" "drop_bit 1 b"]
    by (auto simp: crc_shift_def split: if_splits)
  show "a = b"
  proof (rule bit_word_eqI)
    fix n assume "n < LENGTH(32)"
    show "bit a n \<longleftrightarrow> bit b n"
    proof (cases n)
      case 0 then show ?thesis using zero by simp
    next
      case (Suc m)
      have "bit (drop_bit 1 a) m \<longleftrightarrow> bit (drop_bit 1 b) m" by (simp only: d)
      then show ?thesis by (simp add: Suc bit_simps)
    qed
  qed
qed

lemma crc_shifts_inj: "(crc_shift ^^ n) a = (crc_shift ^^ n) b \<Longrightarrow> a = b"
  by (induction n) (auto dest: crc_shift_inj)

lemma crc_byte_inj_reg: "crc_byte r b = crc_byte r' b \<Longrightarrow> r = r'"
  by (auto simp: crc_byte_def dest!: crc_shifts_inj xor_cancel)

lemma crc_byte_inj_byte: "crc_byte r b = crc_byte r b' \<Longrightarrow> b = b'"
proof -
  assume "crc_byte r b = crc_byte r b'"
  then have "(ucast b :: U32) XOR r = ucast b' XOR r"
    by (auto simp: crc_byte_def xor.commute dest!: crc_shifts_inj)
  then have "(ucast b :: U32) = ucast b'" by (rule xor_cancel)
  then have "unat (ucast b :: U32) = unat (ucast b' :: U32)" by simp
  then show "b = b'" by (simp add: word_unat_eq_iff)
qed

lemma crc_update_inj_reg: "crc_update r bs = crc_update r' bs \<Longrightarrow> r = r'"
  unfolding crc_update_reference
  by (induction bs arbitrary: r r') (auto dest: crc_byte_inj_reg)

lemma crc_update_one_byte:
  assumes "b \<noteq> b'"
  shows "crc_update r (xs @ b # ys) \<noteq> crc_update r (xs @ b' # ys)"
proof
  assume "crc_update r (xs @ b # ys) = crc_update r (xs @ b' # ys)"
  then have "crc_byte (crc_update r xs) b = crc_byte (crc_update r xs) b'"
    by (simp add: update_crc_32_byte) (rule crc_update_inj_reg)
  with assms show False by (auto dest: crc_byte_inj_byte)
qed

section \<open>Properties\<close>

text \<open>
  C39: The table-driven CRC of a buffer is the value the 32-bit reflected shift register with
  polynomial 0xEDB88320 holds after the bytes have been fed in bit by bit, whatever register
  value the computation starts from.
\<close>

theorem crc_table_equiv_shift_register:
  "crc_update r bs = foldl (\<lambda>r b. (crc_shift ^^ 8) (r XOR ucast b)) r bs"
  using crc_update_reference [of r bs] by (simp add: crc_byte_def [abs_def])

end
