(* ===== verification/Os_File.thy ===== *)
theory Os_File
  imports Prelude
begin

text \<open>
  Os/Linux/File.cpp: opening, reading and closing a file. The kernel is not code of the
  repository, so it is a parameter: \<open>posix\<close> gives the outcome of every \<open>open\<close> and
  \<open>read\<close> system call as a function of the number of calls made before it, and of the file
  offset for a read. A call fails with an error number or returns a descriptor, or the bytes it
  stored. The offset the kernel keeps for a descriptor is the field \<open>m_pos\<close>, which the class
  does not have.
\<close>

unbundle bit_operations_syntax

section \<open>Types and the kernel\<close>

datatype File_Status =
  OP_OK | DOESNT_EXIST | NO_SPACE | NO_PERMISSION | BAD_SIZE | NOT_OPENED | FILE_EXISTS | OTHER_ERROR

datatype File_Mode =
    OPEN_NO_MODE | OPEN_READ | OPEN_WRITE | OPEN_SYNC_WRITE | OPEN_SYNC_DIRECT_WRITE
  | OPEN_CREATE | OPEN_APPEND

record File =
  m_fd :: int
  m_mode :: File_Mode
  m_lastError :: int
  m_pos :: nat

record posix =
  sys_open :: "nat \<Rightarrow> string \<Rightarrow> U32 \<Rightarrow> int + int"
  sys_read :: "nat \<Rightarrow> int \<Rightarrow> nat \<Rightarrow> nat \<Rightarrow> int + U8 list"

text \<open>Linux error numbers and open flags the code names.\<close>

definition ENOENT :: int where "ENOENT = 2"
definition EINTR :: int where "EINTR = 4"
definition EACCES :: int where "EACCES = 13"
definition EEXIST :: int where "EEXIST = 17"
definition ENOSPC :: int where "ENOSPC = 28"

definition O_RDONLY :: U32 where "O_RDONLY = 0"
definition O_WRONLY :: U32 where "O_WRONLY = 1"
definition O_CREAT :: U32 where "O_CREAT = 0x40"
definition O_EXCL :: U32 where "O_EXCL = 0x80"
definition O_TRUNC :: U32 where "O_TRUNC = 0x200"
definition O_APPEND :: U32 where "O_APPEND = 0x400"
definition O_DSYNC :: U32 where "O_DSYNC = 0x1000"
definition O_DIRECT :: U32 where "O_DIRECT = 0x4000"
definition O_SYNC :: U32 where "O_SYNC = 0x101000"

definition File_new :: File where
  "File_new = \<lparr>m_fd = -1, m_mode = OPEN_NO_MODE, m_lastError = 0, m_pos = 0\<rparr>"

section \<open>Operations\<close>

definition open_flags :: "File_Mode \<Rightarrow> bool \<Rightarrow> U32 option" where
  "open_flags mode include_excl =
     (case mode of
        OPEN_READ \<Rightarrow> Some O_RDONLY
      | OPEN_WRITE \<Rightarrow> Some (O_WRONLY OR O_CREAT)
      | OPEN_SYNC_WRITE \<Rightarrow> Some (O_WRONLY OR O_CREAT OR O_SYNC)
      | OPEN_SYNC_DIRECT_WRITE \<Rightarrow> Some (O_WRONLY OR O_CREAT OR O_DSYNC OR O_DIRECT)
      | OPEN_CREATE \<Rightarrow>
          Some (if include_excl then O_WRONLY OR O_CREAT OR O_TRUNC OR O_EXCL
                else O_WRONLY OR O_CREAT OR O_TRUNC)
      | OPEN_APPEND \<Rightarrow> Some (O_WRONLY OR O_CREAT OR O_APPEND)
      | OPEN_NO_MODE \<Rightarrow> None)"

definition open_outcome :: "File \<Rightarrow> File_Mode \<Rightarrow> int + int \<Rightarrow> File_Status \<times> File" where
  "open_outcome f mode r =
     (case r of
        Inl errno \<Rightarrow>
          (if errno = ENOSPC then NO_SPACE
           else if errno = ENOENT then DOESNT_EXIST
           else if errno = EACCES then NO_PERMISSION
           else if errno = EEXIST then FILE_EXISTS
           else OTHER_ERROR,
           f\<lparr>m_lastError := errno, m_mode := mode, m_fd := -1\<rparr>)
      | Inr fd \<Rightarrow> (OP_OK, f\<lparr>m_mode := mode, m_fd := fd, m_pos := 0\<rparr>))"

text \<open>The last component of a result is the number of system calls made so far.\<close>

definition File_open ::
  "posix \<Rightarrow> nat \<Rightarrow> File \<Rightarrow> string \<Rightarrow> File_Mode \<Rightarrow> bool \<Rightarrow> (File_Status \<times> File \<times> nat) option" where
  "File_open K t f fileName mode include_excl = do {
     flags \<leftarrow> open_flags mode include_excl;
     (case open_outcome f mode (sys_open K t fileName flags) of
        (stat, f) \<Rightarrow> Some (stat, f, t + 1))
   }"

lemma File_open_read: "\<exists>r. File_open K t f fileName OPEN_READ excl = Some r"
  by (simp add: File_open_def open_flags_def split: prod.split)

text \<open>
  The read loop. \<open>acc\<close> is what has been stored at the start of the caller's array, \<open>accSize\<close>
  the count the loop keeps, which an error resets to 0 while the bytes stay. The result carries
  \<open>maxIters\<close> for the assertion that follows the loop.
\<close>

fun read_loop ::
  "posix \<Rightarrow> int \<Rightarrow> nat \<Rightarrow> bool \<Rightarrow> nat \<Rightarrow> nat \<Rightarrow> nat \<Rightarrow> U8 list \<Rightarrow> nat \<Rightarrow>
     File_Status \<times> nat \<times> U8 list \<times> int option \<times> nat \<times> nat" where
  "read_loop K fd pos waitForFull sz 0 accSize acc t = (OP_OK, accSize, acc, None, 0, t)"
| "read_loop K fd pos waitForFull sz (Suc maxIters) accSize acc t =
     (case sys_read K t fd (pos + length acc) (sz - accSize) of
        Inl errno \<Rightarrow>
          if errno = EINTR then read_loop K fd pos waitForFull sz maxIters accSize acc (t + 1)
          else (OTHER_ERROR, 0, acc, Some errno, Suc maxIters, t + 1)
      | Inr bs \<Rightarrow>
          if length bs \<noteq> sz - accSize
          then if length bs = 0 then (OP_OK, accSize, acc, None, Suc maxIters, t + 1)
               else if \<not> waitForFull
               then (OP_OK, accSize + length bs, acc @ bs, None, Suc maxIters, t + 1)
               else read_loop K fd pos waitForFull sz (maxIters - 1) (accSize + length bs)
                      (acc @ bs) (t + 1)
          else (OP_OK, accSize + length bs, acc @ bs, None, Suc maxIters, t + 1))"

text \<open>
  \<open>NATIVE_INT_TYPE maxIters = size*2\<close> is a product of 32 bits. From a size of 2^30 on it overflows;
  two's complement makes it negative, and a loop with a negative limit is not entered.
\<close>

definition maxIters_of :: "int \<Rightarrow> nat" where
  "maxIters_of sz = nat (sint (word_of_int (sz * 2) :: I32))"

lemma maxIters_eq: "maxIters_of sz = nat (signed_take_bit 31 (sz * 2))"
  unfolding maxIters_of_def sint_sbintrunc' by simp

lemma maxIters_small [simp]:
  assumes "0 \<le> sz" "sz < 1073741824"
  shows "maxIters_of sz = nat (sz * 2)"
  using assms by (simp add: maxIters_eq signed_take_bit_int_eq_self)

lemma maxIters_overflow:
  assumes "1073741824 \<le> sz" "sz < 2147483648"
  shows "maxIters_of sz = 0"
proof -
  have "(sz * 2 - 2147483648 + 4294967296) mod 4294967296 = sz * 2 - 2147483648"
    unfolding mod_add_self2 using assms by (simp add: mod_pos_pos_trivial)
  then have "signed_take_bit 31 (sz * 2) = sz * 2 - 4294967296"
    by (simp add: signed_take_bit_eq_take_bit_shift take_bit_eq_mod add.commute)
  then show ?thesis using assms by (simp add: maxIters_eq)
qed

text \<open>\<open>read\<close> returns its status, the bytes stored in the array, the new \<open>size\<close>, the file.\<close>

definition File_read ::
  "posix \<Rightarrow> nat \<Rightarrow> File \<Rightarrow> int \<Rightarrow> bool \<Rightarrow> (File_Status \<times> U8 list \<times> int \<times> File \<times> nat) option" where
  "File_read K t f sz waitForFull =
     (if m_mode f = OPEN_NO_MODE then Some (NOT_OPENED, [], 0, f, t)
      else if sz \<le> 0 then Some (BAD_SIZE, [], 0, f, t)
      else
        (case read_loop K (m_fd f) (m_pos f) waitForFull (nat sz) (maxIters_of sz) 0 [] t of
           (stat, accSize, bytes, err, maxIters, t1) \<Rightarrow> do {
             fw_assert (maxIters > 0);
             let f1 = f\<lparr>m_pos := m_pos f + length bytes\<rparr>;
             Some (stat, bytes, int accSize,
                   (case err of None \<Rightarrow> f1 | Some errno \<Rightarrow> f1\<lparr>m_lastError := errno\<rparr>), t1)
           }))"

definition File_close :: "File \<Rightarrow> File" where
  "File_close f =
     (let f1 = (if m_fd f \<noteq> -1 \<and> m_mode f \<noteq> OPEN_NO_MODE then f\<lparr>m_fd := -1\<rparr> else f)
      in f1\<lparr>m_mode := OPEN_NO_MODE\<rparr>)"

section \<open>Kernels that deliver a file in pieces\<close>

text \<open>
  What the code relies on of \<open>read(2)\<close>: it stores at most what is asked for. \<open>serves\<close> adds
  that the descriptor is backed by \<open>content\<close>: a read returns the next bytes of it, as many
  as the kernel likes but at least one unless the offset is at the end.
\<close>

definition read_bounded :: "posix \<Rightarrow> bool" where
  "read_bounded K \<longleftrightarrow> (\<forall>t fd off n bs. sys_read K t fd off n = Inr bs \<longrightarrow> length bs \<le> n)"

definition serves :: "posix \<Rightarrow> int \<Rightarrow> U8 list \<Rightarrow> bool" where
  "serves K fd content \<longleftrightarrow>
     (\<forall>t off n. \<exists>bs. sys_read K t fd off n = Inr bs \<and> length bs \<le> n \<and>
        bs = take (length bs) (drop off content) \<and> (bs = [] \<longrightarrow> n = 0 \<or> length content \<le> off))"

lemma servesE:
  assumes "serves K fd content"
  obtains bs where "sys_read K t fd off n = Inr bs" "length bs \<le> n"
    "bs = take (length bs) (drop off content)" "bs = [] \<Longrightarrow> n = 0 \<or> length content \<le> off"
  using assms unfolding serves_def by blast

lemma read_loop_serves:
  assumes "serves K fd content" "accSize < sz" "2 * (sz - accSize) \<le> maxIters"
    "accSize = length acc"
  shows "\<exists>m t'. read_loop K fd pos True sz maxIters accSize acc t =
    (OP_OK, accSize + length (take (sz - accSize) (drop (pos + accSize) content)),
     acc @ take (sz - accSize) (drop (pos + accSize) content), None, m, t') \<and> 0 < m"
  using assms(2-)
proof (induction "sz - accSize" arbitrary: t accSize acc maxIters rule: less_induct)
  case less
  let ?data = "drop (pos + accSize) content"
  obtain m where m: "maxIters = Suc m" using less.prems by (cases maxIters) auto
  obtain bs where bs: "sys_read K t fd (pos + length acc) (sz - accSize) = Inr bs"
    "length bs \<le> sz - accSize" "bs = take (length bs) ?data"
    "bs = [] \<Longrightarrow> sz - accSize = 0 \<or> length content \<le> pos + length acc"
    using servesE [OF assms(1), of t "pos + length acc" "sz - accSize"] less.prems(3) by metis
  consider (all) "length bs = sz - accSize" | (eof) "bs = []" "length bs \<noteq> sz - accSize"
    | (part) "0 < length bs" "length bs < sz - accSize"
    using bs(2) by fastforce
  then show ?case
  proof cases
    case all
    then have "take (sz - accSize) ?data = bs" using bs(3) by simp
    then show ?thesis
      using bs(1) all by (simp add: m)
  next
    case eof
    then have "?data = []" using bs(4) less.prems by simp
    then show ?thesis
      using eof bs(1) less.prems by (simp add: m)
  next
    case part
    let ?a = "accSize + length bs"
    have split: "take (sz - accSize) ?data = bs @ take (sz - ?a) (drop (pos + ?a) content)"
    proof -
      have "take (sz - accSize) ?data = take (length bs + (sz - ?a)) ?data"
        using part by (simp add: add.commute)
      also have "\<dots> = take (length bs) ?data @ take (sz - ?a) (drop (length bs) ?data)"
        by (rule take_add)
      also have "\<dots> = bs @ take (sz - ?a) (drop (pos + ?a) content)"
        using bs(3) by (simp add: add.commute add.left_commute)
      finally show ?thesis .
    qed
    have "\<exists>m' t'. read_loop K fd pos True sz (m - 1) ?a (acc @ bs) (t + 1) =
      (OP_OK, ?a + length (take (sz - ?a) (drop (pos + ?a) content)),
       (acc @ bs) @ take (sz - ?a) (drop (pos + ?a) content), None, m', t') \<and> 0 < m'"
    proof (rule less.hyps)
      show "sz - ?a < sz - accSize" "?a < sz" "2 * (sz - ?a) \<le> m - 1"
        using part less.prems m by linarith+
      show "?a = length (acc @ bs)" using less.prems by simp
    qed
    moreover have "read_loop K fd pos True sz maxIters accSize acc t =
        read_loop K fd pos True sz (m - 1) ?a (acc @ bs) (t + 1)"
      using part bs(1) m by simp
    ultimately show ?thesis
      unfolding split by (simp add: add.assoc)
  qed
qed

lemma File_read_serves:
  assumes "m_mode f \<noteq> OPEN_NO_MODE" "0 < sz" "sz < 1073741824" "serves K (m_fd f) content"
    "data = take (nat sz) (drop (m_pos f) content)"
  shows "\<exists>t'. File_read K t f sz True =
    Some (OP_OK, data, int (length data), f\<lparr>m_pos := m_pos f + length data\<rparr>, t')"
proof -
  have "2 * (nat sz - 0) \<le> nat (sz * 2)" using assms(2) by simp
  then obtain m t' where "read_loop K (m_fd f) (m_pos f) True (nat sz) (nat (sz * 2)) 0 [] t =
      (OP_OK, length data, data, None, m, t')" "0 < m"
    using read_loop_serves [OF assms(4), of 0 "nat sz" "nat (sz * 2)" "[]" "m_pos f" t]
      assms(2,5) by auto
  then show ?thesis
    using assms(1-3) by (auto simp: File_read_def)
qed

lemma read_loop_wf:
  assumes "read_bounded K" "accSize \<le> sz" "length acc = accSize"
    "read_loop K fd pos wait sz maxIters accSize acc t = (stat, n, bytes, err, m, t')"
  shows "length bytes \<le> sz \<and> (stat = OP_OK \<longrightarrow> n = length bytes)"
  using assms
proof (induction K fd pos wait sz maxIters accSize acc t rule: read_loop.induct)
  case (2 K fd pos wait sz maxIters accSize acc t)
  show ?case
  proof (cases "sys_read K t fd (pos + length acc) (sz - accSize)")
    case (Inl errno)
    with 2 show ?thesis by (cases "errno = EINTR") auto
  next
    case (Inr bs)
    with 2(3) have "length bs \<le> sz - accSize" unfolding read_bounded_def by blast
    then have le: "accSize + length bs \<le> sz" using 2(4) by simp
    show ?thesis
    proof (cases "length bs \<noteq> sz - accSize \<and> length bs \<noteq> 0 \<and> wait")
      case True
      then show ?thesis
        using 2(2) [OF Inr] 2(3-6) le Inr by simp
    next
      case False
      with 2(3-6) le Inr show ?thesis by (auto split: if_splits)
    qed
  qed
qed simp

lemma File_read_wf:
  assumes "read_bounded K" "File_read K t f sz wait = Some (stat, bytes, n, f', t')"
  shows "int (length bytes) \<le> max 0 sz \<and> (stat = OP_OK \<longrightarrow> n = int (length bytes))"
  using assms(2)
  by (auto simp: File_read_def Let_def split: if_splits prod.splits option.splits
      dest!: read_loop_wf [OF assms(1), rotated 2])

text \<open>
  A kernel whose reads are bounded and not interrupted by signals. On it the loop limit of
  \<open>read\<close> is not reached, so \<open>read\<close> returns, with or without an error.
\<close>

definition read_calm :: "posix \<Rightarrow> bool" where
  "read_calm K \<longleftrightarrow> read_bounded K \<and> (\<forall>t fd off n. sys_read K t fd off n \<noteq> Inl EINTR)"

lemma read_loop_calm:
  assumes "read_calm K" "accSize < sz" "2 * (sz - accSize) \<le> maxIters"
    "read_loop K fd pos wait sz maxIters accSize acc t = (stat, n, bytes, err, m, t')"
  shows "0 < m"
  using assms
proof (induction K fd pos wait sz maxIters accSize acc t rule: read_loop.induct)
  case (2 K fd pos wait sz maxIters accSize acc t)
  show ?case
  proof (cases "sys_read K t fd (pos + length acc) (sz - accSize)")
    case (Inl errno)
    moreover from this have "errno \<noteq> EINTR" using 2(3) by (auto simp: read_calm_def)
    ultimately show ?thesis using 2 by auto
  next
    case (Inr bs)
    with 2(3) have le: "length bs \<le> sz - accSize"
      unfolding read_calm_def read_bounded_def by blast
    show ?thesis
    proof (cases "length bs \<noteq> sz - accSize \<and> length bs \<noteq> 0 \<and> wait")
      case True
      then have "accSize + length bs < sz" "2 * (sz - (accSize + length bs)) \<le> maxIters - 1"
        using le 2(4,5) by linarith+
      then show ?thesis
        using 2(2) [OF Inr] 2(3,6) True Inr by simp
    next
      case False
      with 2(6) Inr show ?thesis by (auto split: if_splits)
    qed
  qed
qed simp

lemma File_read_total:
  assumes "read_calm K" "sz < 1073741824"
  obtains stat bytes n f' t' where "File_read K t f sz wait = Some (stat, bytes, n, f', t')"
    "int (length bytes) \<le> max 0 sz" "stat = OP_OK \<Longrightarrow> n = int (length bytes)"
proof -
  have "\<exists>r. File_read K t f sz wait = Some r"
  proof (cases "m_mode f = OPEN_NO_MODE \<or> sz \<le> 0")
    case False
    then have "0 < nat sz" "2 * (nat sz - 0) \<le> nat (sz * 2)" by simp_all
    from read_loop_calm [OF assms(1) this, of "m_fd f" "m_pos f" wait "[]" t] False assms(2)
    show ?thesis by (auto simp: File_read_def Let_def split: prod.splits)
  qed (auto simp: File_read_def)
  then obtain stat bytes n f' t' where r: "File_read K t f sz wait = Some (stat, bytes, n, f', t')"
    by (metis prod_cases5)
  have "read_bounded K" using assms(1) by (simp add: read_calm_def)
  from that [OF r] File_read_wf [OF this r] show ?thesis by blast
qed

lemma serves_calm: "(\<And>fd. serves K fd (content fd)) \<Longrightarrow> read_calm K"
  unfolding serves_def read_calm_def read_bounded_def
  by (metis Inl_Inr_False Inr_inject)

text \<open>A read of 2^30 bytes or more fails the assertion behind the loop, before any call of the kernel.\<close>

lemma File_read_overflow:
  assumes "m_mode f \<noteq> OPEN_NO_MODE" "1073741824 \<le> sz" "sz < 2147483648"
  shows "File_read K t f sz wait = None"
  using assms maxIters_overflow [OF assms(2,3)] by (simp add: File_read_def)

section \<open>Properties\<close>

text \<open>
  However the kernel cuts a file into partial reads, \<open>read(buffer, size)\<close> of less than 2^30 bytes on an open file
  with \<open>waitForFull\<close> stores the next \<open>size\<close> bytes of the file, or all of what is left when
  there is less, reports \<open>OP_OK\<close> and sets \<open>size\<close> to the number of bytes stored; the loop limit
  of \<open>2 * size\<close> passes is never reached.
\<close>

theorem File_read_partial_reads:
  assumes "m_mode f \<noteq> OPEN_NO_MODE" "0 < sz" "sz < 1073741824" "serves K (m_fd f) content"
  shows "\<exists>t'. File_read K t f sz True =
    Some (OP_OK, take (nat sz) (drop (m_pos f) content),
          int (length (take (nat sz) (drop (m_pos f) content))),
          f\<lparr>m_pos := m_pos f + length (take (nat sz) (drop (m_pos f) content))\<rparr>, t')"
  using File_read_serves [OF assms refl] .

text \<open>A kernel that hands out one byte per call on even calls and two on odd ones.\<close>

definition piecewise_kernel :: "U8 list \<Rightarrow> posix" where
  "piecewise_kernel content = \<lparr>sys_open = (\<lambda>t nm flags. Inr 5),
     sys_read = (\<lambda>t fd off n.
       Inr (take (min n (if even t then 1 else 2)) (drop off content)))\<rparr>"

lemma take_min_drop: "take (min (length xs - off) k) (drop off xs) = take k (drop off xs)"
  by (simp add: min_def)

lemma piecewise_serves: "serves (piecewise_kernel content) fd content"
  by (auto simp: serves_def piecewise_kernel_def take_min_drop)

lemma piecewise_bounded: "read_bounded (piecewise_kernel content)"
  by (auto simp: read_bounded_def piecewise_kernel_def)

theorem File_read_partial_reads_witness:
  "\<exists>t'. File_read (piecewise_kernel [1, 2, 3]) 0 (File_new\<lparr>m_mode := OPEN_READ, m_fd := 5\<rparr>) 4 True =
    Some (OP_OK, [1, 2, 3], 3, File_new\<lparr>m_mode := OPEN_READ, m_fd := 5, m_pos := 3\<rparr>, t')"
  using File_read_partial_reads
    [of "File_new\<lparr>m_mode := OPEN_READ, m_fd := 5\<rparr>" 4 "piecewise_kernel [1, 2, 3]" "[1, 2, 3]" 0]
  by (simp add: piecewise_serves File_new_def numeral_3_eq_3)

end
