(* ===== verification/Com_Buffer.thy ===== *)
theory Com_Buffer
  imports Ser_Codecs
begin

text \<open>
  Fw/Com: the fixed-size buffer commands and telemetry packets travel in (ComBuffer.cpp) and the
  packet descriptor in front of a packet (ComPacket.cpp).
\<close>

section \<open>Com buffers\<close>

definition FW_COM_BUFFER_MAX_SIZE :: nat where
  "FW_COM_BUFFER_MAX_SIZE = 128"

definition ComBuffer_SERIALIZED_SIZE :: nat where
  "ComBuffer_SERIALIZED_SIZE = FW_COM_BUFFER_MAX_SIZE + 2"

definition ComBuffer_new :: ser_buf where
  "ComBuffer_new = SerializeBufferBase_new (replicate FW_COM_BUFFER_MAX_SIZE 0)"

definition ComBuffer_of :: "U8 list option \<Rightarrow> U32 \<Rightarrow> ser_buf option" where
  "ComBuffer_of args len = do {
     (stat, b) \<leftarrow> setBuff ComBuffer_new args len;
     fw_assert (stat = FW_SERIALIZE_OK);
     Some b
   }"

definition ComBuffer_copy :: "ser_buf \<Rightarrow> ser_buf option" where
  "ComBuffer_copy other = ComBuffer_of (Some (m_data other)) (getBuffLength other)"

definition ComBuffer_assign :: "ser_buf \<Rightarrow> ser_buf \<Rightarrow> ser_buf option" where
  "ComBuffer_assign b other = do {
     (stat, b) \<leftarrow> setBuff b (Some (m_data other)) (getBuffLength other);
     fw_assert (stat = FW_SERIALIZE_OK);
     Some b
   }"

section \<open>Packet descriptors\<close>

datatype ComPacketType =
    FW_PACKET_COMMAND
  | FW_PACKET_TELEM
  | FW_PACKET_LOG
  | FW_PACKET_FILE
  | FW_PACKET_PACKETIZED_TLM
  | FW_PACKET_IDLE
  | FW_PACKET_UNKNOWN

fun packet_type_code :: "ComPacketType \<Rightarrow> U32" where
  "packet_type_code FW_PACKET_COMMAND = 0"
| "packet_type_code FW_PACKET_TELEM = 1"
| "packet_type_code FW_PACKET_LOG = 2"
| "packet_type_code FW_PACKET_FILE = 3"
| "packet_type_code FW_PACKET_PACKETIZED_TLM = 4"
| "packet_type_code FW_PACKET_IDLE = 5"
| "packet_type_code FW_PACKET_UNKNOWN = 0xFF"

text \<open>The member \<open>m_type\<close> may hold any 32-bit value after \<open>deserializeBase\<close>.\<close>

definition ComPacket_serializeBase :: "U32 \<Rightarrow> ser_buf \<Rightarrow> (SerializeStatus \<times> ser_buf) option" where
  "ComPacket_serializeBase m_type buffer = serialize_U32 buffer m_type"

definition ComPacket_deserializeBase ::
  "U32 \<Rightarrow> ser_buf \<Rightarrow> (SerializeStatus \<times> U32 \<times> ser_buf) option" where
  "ComPacket_deserializeBase m_type buffer = do {
     (r, buffer) \<leftarrow> deserialize_U32 buffer;
     (case r of
        Inl e \<Rightarrow> Some (e, m_type, buffer)
      | Inr v \<Rightarrow> Some (FW_SERIALIZE_OK, v, buffer))
   }"

section \<open>Facts\<close>

lemma com_sizes [simp]: "FW_COM_BUFFER_MAX_SIZE = 128" "ComBuffer_SERIALIZED_SIZE = 130"
  by (simp_all add: FW_COM_BUFFER_MAX_SIZE_def ComBuffer_SERIALIZED_SIZE_def)

lemma setBuff_ok:
  assumes "ser_wf b" "unat n \<le> length (m_data b)" "unat n \<le> length src" "\<not> m_null b"
  shows "\<exists>b'. setBuff b (Some src) n = Some (FW_SERIALIZE_OK, b') \<and> ser_wf b' \<and>
    contents b' = take (unat n) src \<and> length (m_data b') = length (m_data b)"
  using assms unat_getBuffCapacity [OF assms(1)]
  by (auto simp: setBuff_def word_less_nat_alt read_at_def write_at_def ser_wf_def contents_def)

lemma setBuff_full:
  assumes "ser_wf b" "length (m_data b) < unat n"
  shows "setBuff b src n = Some (FW_SERIALIZE_NO_ROOM_LEFT, b)"
  using assms unat_getBuffCapacity [OF assms(1)] by (simp add: setBuff_def word_less_nat_alt)

lemma ComBuffer_new_wf:
  "ser_wf ComBuffer_new" "length (m_data ComBuffer_new) = 128" "m_null ComBuffer_new = False"
  by (simp_all add: ComBuffer_new_def SerializeBufferBase_new_def ser_wf_def)

end
