(* ===== verification/Cmd_Sequence.thy ===== *)
theory Cmd_Sequence
  imports Fw_Time Os_File Com_Buffer
begin

text \<open>
  The base class of the command sequences, Svc/CmdSequencer/Sequence.cpp and Events.cpp: the
  header and record of a sequence, the events a sequence reports through the component, the
  part of the component it touches (\<open>host\<close>: the ports' output, the error count), and the
  table of virtual functions through which CmdSequencerImpl.cpp calls a sequence format.
\<close>

section \<open>What leaves the component\<close>

datatype FileReadStage =
    READ_HEADER | READ_HEADER_SIZE | DESER_SIZE | DESER_NUM_RECORDS | DESER_TIME_BASE
  | DESER_TIME_CONTEXT | READ_SEQ_CRC | READ_SEQ_DATA | READ_SEQ_DATA_SIZE

datatype SeqMode = SeqMode_STEP | SeqMode_AUTO

datatype CmdResponse =
  CmdResponse_OK | INVALID_OPCODE | VALIDATION_ERROR | CmdResponse_FORMAT_ERROR | EXECUTION_ERROR | BUSY

text \<open>The events of Events.fppi, with the arguments the code passes.\<close>

datatype cs_event =
    CS_SequenceLoaded string
  | CS_SequenceCanceled string
  | CS_FileReadError string
  | CS_FileInvalid string FileReadStage int
  | CS_RecordInvalid string U32 int
  | CS_FileSizeError string U32
  | CS_FileNotFound string
  | CS_FileCrcFailure string U32 U32
  | CS_CommandComplete string U32 U32
  | CS_SequenceComplete string
  | CS_CommandError string U32 U32 CmdResponse
  | CS_InvalidMode
  | CS_RecordMismatch string U32 U32
  | CS_TimeBaseMismatch string U16 U16
  | CS_TimeContextMismatch string U8 U8
  | CS_PortSequenceStarted string
  | CS_UnexpectedCompletion U32
  | CS_ModeSwitched SeqMode
  | CS_NoSequenceActive
  | CS_SequenceValid string
  | CS_SequenceTimeout string U32
  | CS_CmdStepped string U32
  | CS_CmdStarted string
  | CS_JoinWaiting string U32 U32
  | CS_JoinWaitingNotComplete

datatype cs_out =
    Log cs_event
  | Tlm_LoadCommands U32
  | Tlm_CancelCommands U32
  | Tlm_Errors U32
  | Tlm_CommandsExecuted U32
  | Tlm_SequencesCompleted U32
  | CmdResponse_out U32 U32 CmdResponse
  | SeqDone_out CmdResponse
  | ComCmd_out "U8 list"
  | PingOut U32

text \<open>
  The environment gives the kernel and the clock: \<open>clock E n\<close> is the answer of the time port
  to the \<open>n\<close>-th \<open>getTime\<close>. \<open>host\<close> holds what the component has sent so far, in order,
  its error counter, and how many system calls and time requests it has made.
\<close>

record env =
  kernel :: posix
  clock :: "nat \<Rightarrow> Time"

record host =
  h_outs :: "cs_out list"
  m_errorCount :: U32
  h_calls :: nat
  h_ticks :: nat

definition emit :: "cs_out \<Rightarrow> host \<Rightarrow> host" where
  "emit out h = h\<lparr>h_outs := h_outs h @ [out]\<rparr>"

definition log_event :: "cs_event \<Rightarrow> host \<Rightarrow> host" where
  "log_event ev h = emit (Log ev) h"

definition getTime :: "env \<Rightarrow> host \<Rightarrow> Time \<times> host" where
  "getTime E h = (clock E (h_ticks h), h\<lparr>h_ticks := h_ticks h + 1\<rparr>)"

text \<open>\<open>CmdSequencerComponentImpl::error\<close>.\<close>

definition cs_error :: "host \<Rightarrow> host" where
  "cs_error h =
     (let h1 = h\<lparr>m_errorCount := m_errorCount h + 1\<rparr> in emit (Tlm_Errors (m_errorCount h1)) h1)"

section \<open>Headers and records\<close>

record Header =
  m_fileSize :: U32
  m_numRecords :: U32
  hd_timeBase :: U16
  hd_timeContext :: U8

definition Header_new :: Header where
  "Header_new = \<lparr>m_fileSize = 0, m_numRecords = 0, hd_timeBase = TB_DONT_CARE,
     hd_timeContext = FW_CONTEXT_DONT_CARE\<rparr>"

text \<open>\<open>Header::SERIALIZED_SIZE\<close>: two \<open>U32\<close>, a 16-bit time base, an 8-bit context.\<close>

definition HEADER_SERIALIZED_SIZE :: nat where
  "HEADER_SERIALIZED_SIZE = 4 + 4 + 2 + 1"

datatype Descriptor = ABSOLUTE | RELATIVE | END_OF_SEQUENCE

record Record =
  m_descriptor :: Descriptor
  m_timeTag :: Time
  m_command :: ser_buf

definition Record_new :: Record where
  "Record_new = \<lparr>m_descriptor = END_OF_SEQUENCE, m_timeTag = Time_new, m_command = ComBuffer_new\<rparr>"

text \<open>The string classes keep what fits before the terminating NUL.\<close>

definition string_copy :: "nat \<Rightarrow> string \<Rightarrow> string" where
  "string_copy num s = take (num - 1) s"

definition CmdStringArg_of :: "string \<Rightarrow> string" where
  "CmdStringArg_of s = string_copy 40 s"

definition LogStringArg_of :: "string \<Rightarrow> string" where
  "LogStringArg_of s = string_copy 100 s"

section \<open>Events.cpp\<close>

fun status_code :: "SerializeStatus \<Rightarrow> int" where
  "status_code FW_SERIALIZE_OK = 0"
| "status_code FW_SERIALIZE_FORMAT_ERROR = 1"
| "status_code FW_SERIALIZE_NO_ROOM_LEFT = 2"
| "status_code FW_DESERIALIZE_BUFFER_EMPTY = 3"
| "status_code FW_DESERIALIZE_FORMAT_ERROR = 4"
| "status_code FW_DESERIALIZE_SIZE_MISMATCH = 5"
| "status_code FW_DESERIALIZE_TYPE_MISMATCH = 6"

definition fileCRCFailure :: "string \<Rightarrow> U32 \<Rightarrow> U32 \<Rightarrow> host \<Rightarrow> host" where
  "fileCRCFailure logFileName storedCRC computedCRC h =
     cs_error (log_event (CS_FileCrcFailure logFileName storedCRC computedCRC) h)"

definition fileInvalid :: "string \<Rightarrow> FileReadStage \<Rightarrow> int \<Rightarrow> host \<Rightarrow> host" where
  "fileInvalid logFileName stage err h =
     cs_error (log_event (CS_FileInvalid logFileName stage err) h)"

definition fileNotFound :: "string \<Rightarrow> host \<Rightarrow> host" where
  "fileNotFound logFileName h = cs_error (log_event (CS_FileNotFound logFileName) h)"

definition fileReadError :: "string \<Rightarrow> host \<Rightarrow> host" where
  "fileReadError logFileName h = cs_error (log_event (CS_FileReadError logFileName) h)"

definition fileSizeError :: "string \<Rightarrow> U32 \<Rightarrow> host \<Rightarrow> host" where
  "fileSizeError logFileName fileSize h = cs_error (log_event (CS_FileSizeError logFileName fileSize) h)"

definition recordInvalid :: "string \<Rightarrow> U32 \<Rightarrow> int \<Rightarrow> host \<Rightarrow> host" where
  "recordInvalid logFileName recordNumber err h =
     cs_error (log_event (CS_RecordInvalid logFileName recordNumber err) h)"

definition recordMismatch :: "string \<Rightarrow> U32 \<Rightarrow> U32 \<Rightarrow> host \<Rightarrow> host" where
  "recordMismatch logFileName numRecords extraBytes h =
     log_event (CS_RecordMismatch logFileName numRecords extraBytes) h"

definition timeBaseMismatch :: "string \<Rightarrow> U16 \<Rightarrow> U16 \<Rightarrow> host \<Rightarrow> host" where
  "timeBaseMismatch logFileName currTimeBase seqTimeBase h =
     cs_error (log_event (CS_TimeBaseMismatch logFileName currTimeBase seqTimeBase) h)"

definition timeContextMismatch :: "string \<Rightarrow> U8 \<Rightarrow> U8 \<Rightarrow> host \<Rightarrow> host" where
  "timeContextMismatch logFileName currTimeContext seqTimeContext h =
     cs_error (log_event (CS_TimeContextMismatch logFileName currTimeContext seqTimeContext) h)"

section \<open>Sequence.cpp\<close>

text \<open>\<open>Header::validateTime\<close>: the header's clock has to be the current one, or not care.\<close>

definition validateTime :: "env \<Rightarrow> string \<Rightarrow> Header \<times> host \<Rightarrow> bool \<times> Header \<times> host" where
  "validateTime E logFileName = (\<lambda>(hd, h).
     case getTime E h of (validTime, h) \<Rightarrow>
       let validTimeBase = m_timeBase validTime;
           validContext = m_timeContext validTime
       in if hd_timeBase hd \<noteq> validTimeBase \<and> hd_timeBase hd \<noteq> TB_DONT_CARE
          then (False, hd, timeBaseMismatch logFileName validTimeBase (hd_timeBase hd) h)
          else if hd_timeContext hd \<noteq> validContext \<and> hd_timeContext hd \<noteq> FW_CONTEXT_DONT_CARE
          then (False, hd, timeContextMismatch logFileName validContext (hd_timeContext hd) h)
          else (True, hd\<lparr>hd_timeBase := validTimeBase, hd_timeContext := validContext\<rparr>, h))"

section \<open>The virtual functions of a sequence format\<close>

text \<open>
  A state \<open>'s\<close> of some sequence class with its overrides of the pure virtual functions. They
  run inside the component, so \<open>loadFile\<close> threads the host through.
\<close>

record 's Sequence_ops =
  op_loadFile :: "env \<Rightarrow> string \<Rightarrow> 's \<times> host \<Rightarrow> (bool \<times> 's \<times> host) option"
  op_hasMoreRecords :: "'s \<Rightarrow> bool"
  op_nextRecord :: "'s \<Rightarrow> Record \<Rightarrow> (Record \<times> 's) option"
  op_reset :: "'s \<Rightarrow> 's"
  op_clear :: "'s \<Rightarrow> 's"
  op_getHeader :: "'s \<Rightarrow> Header"
  op_getLogFileName :: "'s \<Rightarrow> string"

text \<open>
  What the records of a sequence say, independent of how the record object stores it: the
  object keeps the old time tag and command on \<open>END_OF_SEQUENCE\<close>.
\<close>

datatype seq_record = SeqEnd | SeqCmd (sr_absolute: bool) (sr_sec: U32) (sr_usec: U32) (sr_bytes: "U8 list")

fun holds_record :: "Record \<Rightarrow> seq_record \<Rightarrow> bool" where
  "holds_record r SeqEnd = (m_descriptor r = END_OF_SEQUENCE)"
| "holds_record r (SeqCmd ab sec usec bs) =
     (m_descriptor r = (if ab then ABSOLUTE else RELATIVE) \<and> m_seconds (m_timeTag r) = sec \<and>
      m_useconds (m_timeTag r) = usec \<and> contents (m_command r) = bs)"

section \<open>What the host keeps\<close>

named_theorems host_simps \<open>fields of the host after an event\<close>

lemmas [host_simps] = emit_def log_event_def cs_error_def fileCRCFailure_def fileInvalid_def
  fileNotFound_def fileReadError_def fileSizeError_def recordInvalid_def recordMismatch_def
  timeBaseMismatch_def timeContextMismatch_def Let_def

text \<open>The host after reporting one event and counting it as an error.\<close>

definition reported :: "host \<Rightarrow> cs_event \<Rightarrow> host \<Rightarrow> bool" where
  "reported h ev h' \<longleftrightarrow> m_errorCount h' = m_errorCount h + 1 \<and>
     h_outs h' = h_outs h @ [Log ev, Tlm_Errors (m_errorCount h + 1)]"

lemma reported_events [intro!, simp]:
  "reported h (CS_FileCrcFailure f a b) (fileCRCFailure f a b h)"
  "reported h (CS_FileInvalid f st e) (fileInvalid f st e h)"
  "reported h (CS_FileNotFound f) (fileNotFound f h)"
  "reported h (CS_FileReadError f) (fileReadError f h)"
  "reported h (CS_FileSizeError f a) (fileSizeError f a h)"
  "reported h (CS_RecordInvalid f a e) (recordInvalid f a e h)"
  "reported h (CS_TimeBaseMismatch f tb tb') (timeBaseMismatch f tb tb' h)"
  "reported h (CS_TimeContextMismatch f c c') (timeContextMismatch f c c' h)"
  by (simp_all add: reported_def host_simps)

lemma reported_calls [simp]:
  "reported (h\<lparr>h_calls := t\<rparr>) ev h' = reported h ev h'"
  "reported (h\<lparr>h_ticks := t\<rparr>) ev h' = reported h ev h'"
  by (simp_all add: reported_def)

definition reports :: "host \<Rightarrow> host \<Rightarrow> bool" where
  "reports h h' \<longleftrightarrow> (\<exists>ev. reported h ev h' \<or>
     (h_outs h' = h_outs h @ [Log ev] \<and> m_errorCount h' = m_errorCount h))"

lemma reports_events [simp]:
  assumes "h_outs h1 = h_outs h" "m_errorCount h1 = m_errorCount h"
  shows "reports h (fileCRCFailure f a b h1)" "reports h (fileInvalid f st e h1)"
    "reports h (fileNotFound f h1)" "reports h (fileReadError f h1)"
    "reports h (fileSizeError f a h1)" "reports h (recordInvalid f a e h1)"
    "reports h (recordMismatch f a b h1)" "reports h (timeBaseMismatch f tb tb' h1)"
    "reports h (timeContextMismatch f c c' h1)"
  using assms by (auto simp: reports_def reported_def host_simps)

lemma reports_from:
  "reports h1 h' \<Longrightarrow> h_outs h1 = h_outs h \<Longrightarrow> m_errorCount h1 = m_errorCount h \<Longrightarrow> reports h h'"
  by (simp add: reports_def reported_def)

section \<open>The contract of the virtual functions\<close>

definition com_wf :: "Record \<Rightarrow> bool" where
  "com_wf r \<longleftrightarrow> ser_wf (m_command r) \<and> \<not> m_null (m_command r) \<and>
     length (m_data (m_command r)) = FW_COM_BUFFER_MAX_SIZE"

lemma com_wf_new [simp]: "com_wf Record_new"
  by (simp add: com_wf_def Record_new_def ComBuffer_new_def SerializeBufferBase_new_def ser_wf_def
      FW_COM_BUFFER_MAX_SIZE_def)

lemma com_wf_descriptor [simp]: "com_wf (r\<lparr>m_descriptor := d\<rparr>) = com_wf r"
  and com_wf_timeTag [simp]: "com_wf (r\<lparr>m_timeTag := t\<rparr>) = com_wf r"
  by (simp_all add: com_wf_def)

text \<open>Taking a number of records one after the other.\<close>

fun drain :: "'s Sequence_ops \<Rightarrow> nat \<Rightarrow> 's \<Rightarrow> Record \<Rightarrow> (Record list \<times> 's) option" where
  "drain ops 0 s rcd = Some ([], s)"
| "drain ops (Suc n) s rcd = do {
     (rcd, s) \<leftarrow> op_nextRecord ops s rcd;
     (rcds, s) \<leftarrow> drain ops n s rcd;
     Some (rcd # rcds, s)
   }"

text \<open>
  What docs/sdd.md asks of a sequence format: \<open>loadFile\<close> always returns and either holds a whole
  sequence at its beginning or has reported why not, \<open>hasMoreRecords\<close> tells whether a record is
  left, \<open>nextRecord\<close> returns it and asserts when there is none, \<open>reset\<close> goes back to the
  beginning and \<open>clear\<close> leaves an empty sequence. \<open>repr s all rest\<close> says that \<open>s\<close> holds the
  records \<open>all\<close> with \<open>rest\<close> still to come.
\<close>

locale sequence_format =
  fixes ops :: "'s Sequence_ops"
    and wf :: "'s \<Rightarrow> bool"
    and repr :: "'s \<Rightarrow> seq_record list \<Rightarrow> seq_record list \<Rightarrow> bool"
  assumes load: "wf s \<Longrightarrow> read_calm (kernel E) \<Longrightarrow>
      \<exists>ok s' h'. op_loadFile ops E f (s, h) = Some (ok, s', h') \<and> wf s' \<and>
        (if ok then (\<exists>all. repr s' all all) \<and> h_outs h' = h_outs h \<and> m_errorCount h' = m_errorCount h
         else reports h h')"
    and next_record: "repr s all (r # rest) \<Longrightarrow> com_wf rcd \<Longrightarrow>
      \<exists>rcd' s'. op_nextRecord ops s rcd = Some (rcd', s') \<and> holds_record rcd' r \<and> com_wf rcd' \<and>
        repr s' all rest \<and> op_getHeader ops s' = op_getHeader ops s \<and>
        op_getLogFileName ops s' = op_getLogFileName ops s"
    and next_end: "repr s all [] \<Longrightarrow> com_wf rcd \<Longrightarrow> op_nextRecord ops s rcd = None"
    and more: "repr s all rest \<Longrightarrow> op_hasMoreRecords ops s \<longleftrightarrow> rest \<noteq> []"
    and reset: "repr s all rest \<Longrightarrow> repr (op_reset ops s) all all"
    and reset_header: "op_getHeader ops (op_reset ops s) = op_getHeader ops s"
    and clear: "wf s \<Longrightarrow> repr (op_clear ops s) [] []"
    and repr_wf: "repr s all rest \<Longrightarrow> wf s"
    and repr_suffix: "repr s all rest \<Longrightarrow> \<exists>pre. all = pre @ rest"
begin

lemma drain_all:
  "repr s all rest \<Longrightarrow> com_wf rcd \<Longrightarrow>
     \<exists>rcds s'. drain ops (length rest) s rcd = Some (rcds, s') \<and> list_all2 holds_record rcds rest \<and>
       repr s' all [] \<and> \<not> op_hasMoreRecords ops s'"
proof (induction rest arbitrary: s rcd)
  case Nil
  then show ?case by (auto simp: more)
next
  case (Cons r rest)
  from next_record [OF Cons.prems] obtain rcd1 s1 where n: "op_nextRecord ops s rcd = Some (rcd1, s1)"
    "holds_record rcd1 r" "com_wf rcd1" "repr s1 all rest" by blast
  from Cons.IH [OF n(4,3)] n(1,2) show ?case by fastforce
qed

end

end
