(* ===== verification/Fprime_Sequence.thy ===== *)
theory Fprime_Sequence
  imports Cmd_Sequence Crc32
begin

text \<open>
  Svc/CmdSequencer/FPrimeSequence.cpp: the F Prime binary format of command sequences. A file
  is an 11-byte header, a body of records and a CRC over both. \<open>loadFile\<close> reads and checks
  the file through the serialization buffer the sequence owns, \<open>nextRecord\<close> takes the records
  out of it. The member functions take the sequence and the host and return both.
\<close>

unbundle bit_operations_syntax

section \<open>State\<close>

record FPrimeSequence =
  m_fileName :: string
  m_logFileName :: string
  m_buffer :: ser_buf
  m_allocatorId :: int
  m_header :: Header
  m_computed :: U32
  m_stored :: U32
  m_sequenceFile :: File

definition INITIAL_COMPUTED_VALUE :: U32 where
  "INITIAL_COMPUTED_VALUE = 0xFFFFFFFF"

definition FPrimeSequence_new :: FPrimeSequence where
  "FPrimeSequence_new =
     \<lparr>m_fileName = [], m_logFileName = [],
      m_buffer = \<lparr>m_data = [], m_null = True, m_serLoc = 0, m_deserLoc = 0\<rparr>,
      m_allocatorId = 0, m_header = Header_new, m_computed = INITIAL_COMPUTED_VALUE, m_stored = 0,
      m_sequenceFile = File_new\<rparr>"

text \<open>
  \<open>Sequence::allocateBuffer\<close>, \<open>deallocateBuffer\<close> and \<open>setFileName\<close>. The allocator is not
  code of the repository: \<open>mem\<close> is what it returns, \<^const>\<open>None\<close> for a null pointer.
\<close>

definition allocateBuffer ::
  "FPrimeSequence \<Rightarrow> int \<Rightarrow> U8 list option \<Rightarrow> U32 \<Rightarrow> FPrimeSequence option" where
  "allocateBuffer s identifier mem bytes = do {
     fw_assert (of_nat HEADER_SERIALIZED_SIZE \<le> bytes);
     b \<leftarrow> setExtBuffer (m_buffer s) (map_option (take (unat bytes)) mem);
     Some (s\<lparr>m_allocatorId := identifier, m_buffer := b\<rparr>)
   }"

definition deallocateBuffer :: "FPrimeSequence \<Rightarrow> FPrimeSequence" where
  "deallocateBuffer s = s\<lparr>m_buffer := clearExtBuffer (m_buffer s)\<rparr>"

definition setFileName :: "FPrimeSequence \<Rightarrow> string \<Rightarrow> FPrimeSequence" where
  "setFileName s fileName =
     s\<lparr>m_fileName := CmdStringArg_of fileName, m_logFileName := LogStringArg_of fileName\<rparr>"

section \<open>The CRC\<close>

definition CRC_init :: "FPrimeSequence \<Rightarrow> FPrimeSequence" where
  "CRC_init s = s\<lparr>m_computed := INITIAL_COMPUTED_VALUE\<rparr>"

definition CRC_update :: "FPrimeSequence \<Rightarrow> U8 list \<Rightarrow> nat \<Rightarrow> FPrimeSequence option" where
  "CRC_update s buffer bufferSize = do {
     bs \<leftarrow> read_at buffer 0 bufferSize;
     Some (s\<lparr>m_computed := crc_update (m_computed s) bs\<rparr>)
   }"

definition CRC_finalize :: "FPrimeSequence \<Rightarrow> FPrimeSequence" where
  "CRC_finalize s = s\<lparr>m_computed := NOT (m_computed s)\<rparr>"

definition validateCRC ::
  "FPrimeSequence \<times> host \<Rightarrow> (bool \<times> FPrimeSequence \<times> host) option" where
  "validateCRC = (\<lambda>(s, h).
     if m_stored s \<noteq> m_computed s
     then Some (False, s, fileCRCFailure (m_logFileName s) (m_stored s) (m_computed s) h)
     else Some (True, s, h))"

section \<open>Reading the file\<close>

text \<open>\<open>file.read(buffer.getBuffAddr(), readLen)\<close> with the new value of \<open>readLen\<close>.\<close>

definition read_into_buffer ::
  "env \<Rightarrow> int \<Rightarrow> FPrimeSequence \<times> host
     \<Rightarrow> (File_Status \<times> int \<times> FPrimeSequence \<times> host) option" where
  "read_into_buffer E readLen = (\<lambda>(s, h). do {
     (stat, bytes, n, f, t) \<leftarrow> File_read (kernel E) (h_calls h) (m_sequenceFile s) readLen True;
     d \<leftarrow> write_at (m_data (m_buffer s)) 0 bytes;
     Some (stat, n, s\<lparr>m_buffer := (m_buffer s)\<lparr>m_data := d\<rparr>, m_sequenceFile := f\<rparr>,
           h\<lparr>h_calls := t\<rparr>)
   })"

definition readHeader ::
  "env \<Rightarrow> FPrimeSequence \<times> host \<Rightarrow> (bool \<times> FPrimeSequence \<times> host) option" where
  "readHeader E = (\<lambda>(s, h).
     let readLen = int HEADER_SERIALIZED_SIZE in do {
       fw_assert (readLen \<ge> 0);
       fw_assert (getBuffCapacity (m_buffer s) \<ge> word_of_int readLen);
       (fileStatus, readLen, s, h) \<leftarrow> read_into_buffer E readLen (s, h);
       if fileStatus \<noteq> OP_OK
       then Some (False, s,
              fileInvalid (m_logFileName s) READ_HEADER (m_lastError (m_sequenceFile s)) h)
       else if readLen \<noteq> int HEADER_SERIALIZED_SIZE
       then Some (False, s, fileInvalid (m_logFileName s) READ_HEADER_SIZE readLen h)
       else (case setBuffLen (m_buffer s) (word_of_int readLen) of
           (serializeStatus, b) \<Rightarrow> do {
             fw_assert (serializeStatus = FW_SERIALIZE_OK);
             Some (True, s\<lparr>m_buffer := b\<rparr>, h)
           })
     })"

text \<open>
  \<open>deserializeHeader\<close>: a member of the header at a time, so an error leaves the members read
  before it in the header.
\<close>

definition deserializeHeader ::
  "FPrimeSequence \<times> host \<Rightarrow> (bool \<times> FPrimeSequence \<times> host) option" where
  "deserializeHeader = (\<lambda>(s, h). do {
     (r, b) \<leftarrow> deserialize_U32 (m_buffer s);
     let s = s\<lparr>m_buffer := b\<rparr>;
     case r of
       Inl e \<Rightarrow> Some (False, s, fileInvalid (m_logFileName s) DESER_SIZE (status_code e) h)
     | Inr fileSize \<Rightarrow> (
         let s = s\<lparr>m_header := (m_header s)\<lparr>m_fileSize := fileSize\<rparr>\<rparr> in
         if fileSize > getBuffCapacity (m_buffer s)
         then Some (False, s, fileSizeError (m_logFileName s) fileSize h)
         else do {
           (r, b) \<leftarrow> deserialize_U32 (m_buffer s);
           let s = s\<lparr>m_buffer := b\<rparr>;
           case r of
             Inl e \<Rightarrow>
               Some (False, s, fileInvalid (m_logFileName s) DESER_NUM_RECORDS (status_code e) h)
           | Inr numRecords \<Rightarrow> do {
               let s = s\<lparr>m_header := (m_header s)\<lparr>m_numRecords := numRecords\<rparr>\<rparr>;
               (r, b) \<leftarrow> deserialize_U16 (m_buffer s);
               let s = s\<lparr>m_buffer := b\<rparr>;
               case r of
                 Inl e \<Rightarrow>
                   Some (False, s, fileInvalid (m_logFileName s) DESER_TIME_BASE (status_code e) h)
               | Inr tbase \<Rightarrow> do {
                   let s = s\<lparr>m_header := (m_header s)\<lparr>hd_timeBase := tbase\<rparr>\<rparr>;
                   (r, b) \<leftarrow> deserialize_U8 (m_buffer s);
                   let s = s\<lparr>m_buffer := b\<rparr>;
                   case r of
                     Inl e \<Rightarrow>
                       Some (False, s,
                         fileInvalid (m_logFileName s) DESER_TIME_CONTEXT (status_code e) h)
                   | Inr context \<Rightarrow>
                       Some (True, s\<lparr>m_header := (m_header s)\<lparr>hd_timeContext := context\<rparr>\<rparr>, h)
                 }
             }
         })
   })"

definition readRecordsAndCRC ::
  "env \<Rightarrow> FPrimeSequence \<times> host \<Rightarrow> (bool \<times> FPrimeSequence \<times> host) option" where
  "readRecordsAndCRC E = (\<lambda>(s, h).
     let size = m_fileSize (m_header s); readLen = sint size in do {
       (fileStatus, readLen, s, h) \<leftarrow> read_into_buffer E readLen (s, h);
       if fileStatus \<noteq> OP_OK
       then Some (False, s,
              fileInvalid (m_logFileName s) READ_SEQ_DATA (m_lastError (m_sequenceFile s)) h)
       else if sint size \<noteq> readLen
       then Some (False, s, fileInvalid (m_logFileName s) READ_SEQ_DATA_SIZE readLen h)
       else (case setBuffLen (m_buffer s) size of (serializeStatus, b) \<Rightarrow> do {
           fw_assert (serializeStatus = FW_SERIALIZE_OK);
           Some (True, s\<lparr>m_buffer := b\<rparr>, h)
         })
     })"

definition extractCRC ::
  "FPrimeSequence \<times> host \<Rightarrow> (bool \<times> FPrimeSequence \<times> host) option" where
  "extractCRC = (\<lambda>(s, h).
     let buffSize = getBuffLength (m_buffer s); crcSize = 4 in
     if buffSize < crcSize
     then Some (False, s, fileInvalid (m_logFileName s) READ_SEQ_CRC (sint buffSize) h)
     else do {
       fw_assert (buffSize \<ge> crcSize);
       let dataSize = buffSize - crcSize;
       crcData \<leftarrow> read_at (m_data (m_buffer s)) (unat dataSize) (unat crcSize);
       (case setBuffLen (SerializeBufferBase_new crcData) crcSize of (status, crcBuff) \<Rightarrow> do {
         fw_assert (status = FW_SERIALIZE_OK);
         (r, crcBuff) \<leftarrow> deserialize_U32 crcBuff;
         (case r of
            Inl e \<Rightarrow> None
          | Inr crc \<Rightarrow>
              (case setBuffLen (m_buffer s) dataSize of (status, b) \<Rightarrow> do {
                 fw_assert (status = FW_SERIALIZE_OK);
                 Some (True, s\<lparr>m_stored := crc, m_buffer := b\<rparr>, h)
               }))
       })
     })"

text \<open>C++ \<open>and\<close> of two member functions: the second runs when the first returns true.\<close>

definition and_then ::
  "('a \<Rightarrow> (bool \<times> 'a) option) \<Rightarrow> ('a \<Rightarrow> (bool \<times> 'a) option) \<Rightarrow> 'a \<Rightarrow> (bool \<times> 'a) option" where
  "and_then f g x = do { (ok, x) \<leftarrow> f x; if ok then g x else Some (False, x) }"

definition readOpenFile ::
  "env \<Rightarrow> FPrimeSequence \<times> host \<Rightarrow> (bool \<times> FPrimeSequence \<times> host) option" where
  "readOpenFile E = (\<lambda>(s, h).
     let s = CRC_init s in do {
       (status, s, h) \<leftarrow> readHeader E (s, h);
       (status, s, h) \<leftarrow>
          (if status then do {
             fw_assert (\<not> m_null (m_buffer s));
             s \<leftarrow> CRC_update s (m_data (m_buffer s)) HEADER_SERIALIZED_SIZE;
             and_then deserializeHeader (and_then (readRecordsAndCRC E) extractCRC) (s, h)
           }
           else Some (status, s, h));
       if status then do {
         let buffLen = getBuffLength (m_buffer s);
         fw_assert (\<not> m_null (m_buffer s));
         s \<leftarrow> CRC_update s (m_data (m_buffer s)) (unat buffLen);
         Some (status, CRC_finalize s, h)
       }
       else Some (status, s, h)
     })"

definition readFile ::
  "env \<Rightarrow> FPrimeSequence \<times> host \<Rightarrow> (bool \<times> FPrimeSequence \<times> host) option" where
  "readFile E = (\<lambda>(s, h). do {
     (status, f, t) \<leftarrow>
        File_open (kernel E) (h_calls h) (m_sequenceFile s) (m_fileName s) OPEN_READ True;
     let s = s\<lparr>m_sequenceFile := f\<rparr>;
     let h = h\<lparr>h_calls := t\<rparr>;
     (result, s, h) \<leftarrow>
        (if status = OP_OK then readOpenFile E (s, h)
         else if status = DOESNT_EXIST then Some (False, s, fileNotFound (m_logFileName s) h)
         else Some (False, s, fileReadError (m_logFileName s) h));
     Some (result, s\<lparr>m_sequenceFile := File_close (m_sequenceFile s)\<rparr>, h)
   })"

section \<open>Records\<close>

definition deserializeDescriptor ::
  "FPrimeSequence \<Rightarrow> ((SerializeStatus + Descriptor) \<times> FPrimeSequence) option" where
  "deserializeDescriptor s = do {
     (r, b) \<leftarrow> deserialize_U8 (m_buffer s);
     let s = s\<lparr>m_buffer := b\<rparr>;
     Some (case r of
        Inl e \<Rightarrow> (Inl e, s)
      | Inr descEntry \<Rightarrow>
          if descEntry > 2 then (Inl FW_DESERIALIZE_FORMAT_ERROR, s)
          else (Inr (if descEntry = 0 then ABSOLUTE else if descEntry = 1 then RELATIVE
                     else END_OF_SEQUENCE), s))
   }"

definition deserializeTimeTag ::
  "FPrimeSequence \<Rightarrow> Time \<Rightarrow> (SerializeStatus \<times> Time \<times> FPrimeSequence) option" where
  "deserializeTimeTag s timeTag = do {
     (r, b) \<leftarrow> deserialize_U32 (m_buffer s);
     let s = s\<lparr>m_buffer := b\<rparr>;
     case r of
       Inl e \<Rightarrow> Some (e, timeTag, s)
     | Inr seconds \<Rightarrow> do {
         (r, b) \<leftarrow> deserialize_U32 (m_buffer s);
         let s = s\<lparr>m_buffer := b\<rparr>;
         case r of
           Inl e \<Rightarrow> Some (e, timeTag, s)
         | Inr useconds \<Rightarrow> Some (FW_SERIALIZE_OK, Time_set_sec timeTag seconds useconds, s)
       }
   }"

definition deserializeRecordSize ::
  "FPrimeSequence \<Rightarrow> ((SerializeStatus + U32) \<times> FPrimeSequence) option" where
  "deserializeRecordSize s = do {
     (r, b) \<leftarrow> deserialize_U32 (m_buffer s);
     let s = s\<lparr>m_buffer := b\<rparr>;
     Some (case r of
        Inl e \<Rightarrow> (Inl e, s)
      | Inr recordSize \<Rightarrow>
          if recordSize > getBuffLeft (m_buffer s) then (Inl FW_DESERIALIZE_SIZE_MISMATCH, s)
          else if unat recordSize + 4 > ComBuffer_SERIALIZED_SIZE
          then (Inl FW_DESERIALIZE_SIZE_MISMATCH, s)
          else (Inr recordSize, s))
   }"

definition copyCommand ::
  "FPrimeSequence \<Rightarrow> ser_buf \<Rightarrow> U32 \<Rightarrow> (SerializeStatus \<times> ser_buf \<times> FPrimeSequence) option" where
  "copyCommand s comBuffer recordSize =
     (case setBuffLen (resetSer comBuffer) recordSize of (status, comBuffer) \<Rightarrow> do {
        fw_assert (status = FW_SERIALIZE_OK);
        (r, b) \<leftarrow> deserialize_bytes (m_buffer s) recordSize True;
        let s = s\<lparr>m_buffer := b\<rparr>;
        case r of
          Inl e \<Rightarrow> Some (e, comBuffer, s)
        | Inr bs \<Rightarrow> do {
            d \<leftarrow> write_at (m_data comBuffer) 0 bs;
            Some (FW_SERIALIZE_OK, comBuffer\<lparr>m_data := d\<rparr>, s)
          }
      })"

definition deserializeRecord ::
  "FPrimeSequence \<Rightarrow> Record \<Rightarrow> (SerializeStatus \<times> Record \<times> FPrimeSequence) option" where
  "deserializeRecord s record = do {
     (r, s) \<leftarrow> deserializeDescriptor s;
     case r of
       Inl status \<Rightarrow> Some (status, record, s)
     | Inr descriptor \<Rightarrow> (
         let record = record\<lparr>m_descriptor := descriptor\<rparr> in
         if descriptor = END_OF_SEQUENCE then Some (FW_SERIALIZE_OK, record, s)
         else do {
           (status, timeTag, s) \<leftarrow> deserializeTimeTag s (m_timeTag record);
           let record = record\<lparr>m_timeTag := timeTag\<rparr>;
           if status \<noteq> FW_SERIALIZE_OK then Some (status, record, s)
           else do {
             (r, s) \<leftarrow> deserializeRecordSize s;
             case r of
               Inl status \<Rightarrow> Some (status, record, s)
             | Inr recordSize \<Rightarrow> do {
                 (status, command, s) \<leftarrow> copyCommand s (m_command record) recordSize;
                 Some (status, record\<lparr>m_command := command\<rparr>, s)
               }
           }
         })
   }"

text \<open>The loop of \<open>validateRecords\<close>: \<open>n\<close> records from number \<open>recordNumber\<close> on.\<close>

fun validate_loop ::
  "nat \<Rightarrow> U32 \<Rightarrow> Record \<Rightarrow> FPrimeSequence \<times> host \<Rightarrow> (bool \<times> FPrimeSequence \<times> host) option" where
  "validate_loop 0 recordNumber record (s, h) = Some (True, s, h)"
| "validate_loop (Suc n) recordNumber record (s, h) = do {
     (status, record, s) \<leftarrow> deserializeRecord s record;
     if status \<noteq> FW_SERIALIZE_OK
     then Some (False, s, recordInvalid (m_logFileName s) recordNumber (status_code status) h)
     else validate_loop n (recordNumber + 1) record (s, h)
   }"

definition validateRecords ::
  "FPrimeSequence \<times> host \<Rightarrow> (bool \<times> FPrimeSequence \<times> host) option" where
  "validateRecords = (\<lambda>(s, h).
     let numRecords = m_numRecords (m_header s) in do {
       (ok, s, h) \<leftarrow> validate_loop (unat numRecords) 0 Record_new (s, h);
       if \<not> ok then Some (False, s, h)
       else let buffLeftSize = getBuffLeft (m_buffer s) in
         if buffLeftSize > 0
         then Some (False, s, recordMismatch (m_logFileName s) numRecords buffLeftSize h)
         else Some (True, s\<lparr>m_buffer := resetDeser (m_buffer s)\<rparr>, h)
     })"

section \<open>The overrides of the virtual functions\<close>

text \<open>
  \<open>validateTime\<close> reports through \<open>component.m_sequence\<close>, which is this sequence as long as the
  component uses the format it loads.
\<close>

definition validate_header_time ::
  "env \<Rightarrow> FPrimeSequence \<times> host \<Rightarrow> (bool \<times> FPrimeSequence \<times> host) option" where
  "validate_header_time E = (\<lambda>(s, h).
     case validateTime E (m_logFileName s) (m_header s, h) of
       (ok, header, h) \<Rightarrow> Some (ok, s\<lparr>m_header := header\<rparr>, h))"

definition FPrime_loadFile ::
  "env \<Rightarrow> string \<Rightarrow> FPrimeSequence \<times> host \<Rightarrow> (bool \<times> FPrimeSequence \<times> host) option" where
  "FPrime_loadFile E fileName = (\<lambda>(s, h). do {
     fw_assert (\<not> m_null (m_buffer s));
     and_then (readFile E)
       (and_then validateCRC (and_then (validate_header_time E) validateRecords))
       (setFileName s fileName, h)
   })"

definition FPrime_hasMoreRecords :: "FPrimeSequence \<Rightarrow> bool" where
  "FPrime_hasMoreRecords s \<longleftrightarrow> getBuffLeft (m_buffer s) > 0"

definition FPrime_nextRecord :: "FPrimeSequence \<Rightarrow> Record \<Rightarrow> (Record \<times> FPrimeSequence) option" where
  "FPrime_nextRecord s record = do {
     (status, record, s) \<leftarrow> deserializeRecord s record;
     fw_assert (status = FW_SERIALIZE_OK);
     Some (record, s)
   }"

definition FPrime_reset :: "FPrimeSequence \<Rightarrow> FPrimeSequence" where
  "FPrime_reset s = s\<lparr>m_buffer := resetDeser (m_buffer s)\<rparr>"

definition FPrime_clear :: "FPrimeSequence \<Rightarrow> FPrimeSequence" where
  "FPrime_clear s = s\<lparr>m_buffer := resetSer (m_buffer s)\<rparr>"

definition FPrime_ops :: "FPrimeSequence Sequence_ops" where
  "FPrime_ops = \<lparr>op_loadFile = FPrime_loadFile, op_hasMoreRecords = FPrime_hasMoreRecords,
     op_nextRecord = FPrime_nextRecord, op_reset = FPrime_reset, op_clear = FPrime_clear,
     op_getHeader = m_header, op_getLogFileName = m_logFileName\<rparr>"

end
