(* ===== verification/Fprime_Format.thy ===== *)
theory Fprime_Format
  imports Fprime_Sequence
begin

text \<open>
  The record format of the F Prime sequences as a language: \<open>rec_bytes\<close> is the byte image of a
  record, and the parser of FPrimeSequence.cpp accepts exactly the images. The parser never
  leaves the buffer and never fails an assertion, whatever bytes the buffer holds.
\<close>

section \<open>The format\<close>

definition seq_rec_ok :: "seq_record \<Rightarrow> bool" where
  "seq_rec_ok r = (case r of SeqEnd \<Rightarrow> True | SeqCmd ab sec usec bs \<Rightarrow>
     length bs + 4 \<le> ComBuffer_SERIALIZED_SIZE)"

fun rec_bytes :: "seq_record \<Rightarrow> U8 list" where
  "rec_bytes SeqEnd = [2]"
| "rec_bytes (SeqCmd ab sec usec bs) =
     [if ab then 0 else 1] @ bytes_of_U32 sec @ bytes_of_U32 usec
       @ bytes_of_U32 (of_nat (length bs)) @ bs"

text \<open>The images are a prefix code, so a byte string is the image of at most one record list.\<close>

lemma bytes_of_U32_inj: "bytes_of_U32 a = bytes_of_U32 b \<Longrightarrow> a = b"
  by (metis U32_of_bytes_of)

lemma rec_bytes_nonempty [simp]: "rec_bytes r \<noteq> []"
  by (cases r) auto

lemma rec_bytes_prefix_free:
  assumes "rec_bytes r @ xs = rec_bytes r' @ ys" "seq_rec_ok r" "seq_rec_ok r'"
  shows "r = r' \<and> xs = ys"
proof (cases r)
  case SeqEnd
  with assms(1) show ?thesis by (cases r') (auto split: if_splits)
next
  case r: (SeqCmd ab sec usec bs)
  show ?thesis
  proof (cases r')
    case SeqEnd
    with assms(1) r show ?thesis by (auto split: if_splits)
  next
    case r': (SeqCmd ab' sec' usec' bs')
    have e: "(if ab then 0 else 1 :: U8) = (if ab' then 0 else 1)"
      "bytes_of_U32 sec @ bytes_of_U32 usec @ bytes_of_U32 (of_nat (length bs)) @ bs @ xs =
       bytes_of_U32 sec' @ bytes_of_U32 usec' @ bytes_of_U32 (of_nat (length bs')) @ bs' @ ys"
      using assms(1) r r' by auto
    have h: "bytes_of_U32 sec = bytes_of_U32 sec'" "bytes_of_U32 usec = bytes_of_U32 usec'"
      "bytes_of_U32 (of_nat (length bs)) = bytes_of_U32 (of_nat (length bs'))"
      "bs @ xs = bs' @ ys"
      using e(2) by (auto simp: append_eq_append_conv)
    have "length bs = length bs'"
      using bytes_of_U32_inj [OF h(3)] assms(2,3) r r' of_nat_eq_iff32 [of "length bs" "length bs'"]
      by (simp add: seq_rec_ok_def)
    then show ?thesis
      using h bytes_of_U32_inj e(1) r r' by (auto split: if_splits)
  qed
qed

lemma concat_rec_bytes_inj:
  "concat (map rec_bytes rs) = concat (map rec_bytes rs') \<Longrightarrow> \<forall>r \<in> set rs. seq_rec_ok r \<Longrightarrow>
     \<forall>r \<in> set rs'. seq_rec_ok r \<Longrightarrow> rs = rs'"
proof (induction rs arbitrary: rs')
  case Nil
  then show ?case by (cases rs') auto
next
  case (Cons r rs)
  then obtain r' rs'' where "rs' = r' # rs''" by (cases rs') auto
  with Cons rec_bytes_prefix_free [of r "concat (map rec_bytes rs)" r' "concat (map rec_bytes rs'')"]
  show ?case by auto
qed

section \<open>One field at a time\<close>

lemma deserializeDescriptor_cases:
  assumes "ser_wf (m_buffer s)"
  obtains (err) e n where "e \<noteq> FW_SERIALIZE_OK" "n \<le> length (unread (m_buffer s))"
      "deserializeDescriptor s = Some (Inl e, s\<lparr>m_buffer := consume (m_buffer s) n\<rparr>)"
  | (ok) d x rest where "unread (m_buffer s) = x # rest"
      "deserializeDescriptor s = Some (Inr d, s\<lparr>m_buffer := consume (m_buffer s) 1\<rparr>)"
      "x = (case d of ABSOLUTE \<Rightarrow> 0 | RELATIVE \<Rightarrow> 1 | END_OF_SEQUENCE \<Rightarrow> 2)"
  using u8.get_total [OF assms]
proof (elim disjE exE conjE, goal_cases)
  case (1 e)
  show ?case
    by (rule 1(1) [of e 0]) (use 1 in \<open>auto simp: deserializeDescriptor_def u8.get_error\<close>)
next
  case (2 v rest)
  show ?case
  proof (cases "v > 2")
    case True
    show ?thesis
      by (rule 2(1) [of FW_DESERIALIZE_FORMAT_ERROR 1])
        (use True 2 in \<open>simp_all add: deserializeDescriptor_def\<close>)
  next
    case False
    then have "unat v \<le> 2" by (simp add: word_less_nat_alt)
    then have "unat v = unat (0 :: U8) \<or> unat v = unat (1 :: U8) \<or> unat v = unat (2 :: U8)"
      by auto
    then have v: "v = 0 \<or> v = 1 \<or> v = 2" by (simp only: word_unat_eq_iff)
    show ?thesis
      by (rule 2(2) [of v rest "if v = 0 then ABSOLUTE else if v = 1 then RELATIVE else END_OF_SEQUENCE"])
        (use v False 2 in \<open>auto simp: deserializeDescriptor_def\<close>)
  qed
qed

text \<open>
  Reading a 32-bit field: an error, after which the read position is where it was, or the four
  bytes of a value.
\<close>

lemma deserialize_U32_cases:
  assumes "ser_wf b"
  obtains (err) e where "deserialize_U32 b = Some (Inl e, b)" "e \<noteq> FW_SERIALIZE_OK"
  | (ok) v rest where "unread b = bytes_of_U32 v @ rest" "4 \<le> length (unread b)"
      "deserialize_U32 b = Some (Inr v, consume b 4)" "ser_wf (consume b 4)"
      "unread (consume b 4) = rest"
  using u32.get_total [OF assms]
proof (elim disjE exE conjE, goal_cases)
  case (1 e)
  then show ?case using u32.get_error by blast
next
  case (2 v rest)
  then have "4 \<le> length (unread b)" by simp
  with 2 assms show ?case by (intro 2(2) [of v rest]) (simp_all add: consume_wf consume_unread)
qed

lemma deserializeTimeTag_cases:
  assumes "ser_wf (m_buffer s)"
  obtains (err) e n where "e \<noteq> FW_SERIALIZE_OK" "n \<le> length (unread (m_buffer s))"
      "deserializeTimeTag s t = Some (e, t, s\<lparr>m_buffer := consume (m_buffer s) n\<rparr>)"
  | (ok) sec usec rest where "unread (m_buffer s) = bytes_of_U32 sec @ bytes_of_U32 usec @ rest"
      "deserializeTimeTag s t =
        Some (FW_SERIALIZE_OK, Time_set_sec t sec usec, s\<lparr>m_buffer := consume (m_buffer s) 8\<rparr>)"
proof (cases rule: deserialize_U32_cases [OF assms, case_names e1 v1])
  case (e1 e)
  show ?thesis
    by (rule err [of e 0]) (simp_all add: deserializeTimeTag_def e1)
next
  case (v1 sec rest1)
  note c = \<open>ser_wf (consume (m_buffer s) 4)\<close>
  show ?thesis
  proof (cases rule: deserialize_U32_cases [OF c, case_names e2 v2])
    case (e2 e)
    show ?thesis
      by (rule err [of e 4]) (use v1 in \<open>simp_all add: deserializeTimeTag_def e2\<close>)
  next
    case (v2 usec rest)
    show ?thesis
      by (rule ok [of sec usec rest])
        (use v1 v2 in \<open>simp_all add: deserializeTimeTag_def consume_consume\<close>)
  qed
qed

lemma deserializeRecordSize_cases:
  assumes "ser_wf (m_buffer s)"
  obtains (err) e n where "e \<noteq> FW_SERIALIZE_OK" "n \<le> length (unread (m_buffer s))"
      "deserializeRecordSize s = Some (Inl e, s\<lparr>m_buffer := consume (m_buffer s) n\<rparr>)"
  | (ok) n rest where "unread (m_buffer s) = bytes_of_U32 n @ rest" "unat n \<le> length rest"
      "unat n \<le> 126"
      "deserializeRecordSize s = Some (Inr n, s\<lparr>m_buffer := consume (m_buffer s) 4\<rparr>)"
proof (cases rule: deserialize_U32_cases [OF assms, case_names e1 v1])
  case (e1 e)
  show ?thesis
    by (rule err [of e 0]) (simp_all add: deserializeRecordSize_def e1)
next
  case (v1 n rest)
  have left: "(n > getBuffLeft (consume (m_buffer s) 4)) = (unat n > length rest)"
    using unat_getBuffLeft [OF v1(4)] v1(5) by (simp add: word_less_nat_alt)
  show ?thesis
  proof (cases "unat n > length rest \<or> unat n > 126")
    case True
    show ?thesis
      by (rule err [of FW_DESERIALIZE_SIZE_MISMATCH 4])
        (use True v1 left in \<open>auto simp: deserializeRecordSize_def\<close>)
  next
    case False
    show ?thesis
      by (rule ok [of n rest])
        (use False v1 left in \<open>auto simp: deserializeRecordSize_def\<close>)
  qed
qed

lemma copyCommand_ok:
  assumes "ser_wf (m_buffer s)" "\<not> m_null (m_buffer s)" "unat n \<le> length (unread (m_buffer s))"
    "unat n \<le> 126" "com_wf r"
  obtains com where "copyCommand s (m_command r) n =
      Some (FW_SERIALIZE_OK, com, s\<lparr>m_buffer := consume (m_buffer s) (unat n)\<rparr>)"
    "contents com = take (unat n) (unread (m_buffer s))" "com_wf (r\<lparr>m_command := com\<rparr>)"
proof -
  let ?bs = "take (unat n) (unread (m_buffer s))"
  let ?c = "(m_command r)\<lparr>m_serLoc := n, m_deserLoc := 0\<rparr>"
  have len: "length (m_data (m_command r)) = 128" using assms(5) by (simp add: com_wf_def)
  then have "\<not> getBuffCapacity (resetSer (m_command r)) < n"
    using assms(4) by (simp add: word_less_nat_alt getBuffCapacity_def resetSer_def unat_of_nat32)
  then have set: "setBuffLen (resetSer (m_command r)) n = (FW_SERIALIZE_OK, ?c)"
    by (simp add: setBuffLen_def resetSer_def)
  have l: "length ?bs = unat n" using assms(3) by simp
  let ?d = "?bs @ drop (unat n) (m_data (m_command r))"
  have w: "write_at (m_data ?c) 0 ?bs = Some ?d"
    using l len assms(4) by (simp add: write_at_in_bounds)
  show ?thesis
  proof (rule that)
    show "copyCommand s (m_command r) n = Some (FW_SERIALIZE_OK, ?c\<lparr>m_data := ?d\<rparr>,
        s\<lparr>m_buffer := consume (m_buffer s) (unat n)\<rparr>)"
      using deserialize_bytes_raw_ok [OF assms(1-3)] set w by (simp add: copyCommand_def)
    show "contents (?c\<lparr>m_data := ?d\<rparr>) = ?bs"
      using l by (simp add: contents_def)
    show "com_wf (r\<lparr>m_command := ?c\<lparr>m_data := ?d\<rparr>\<rparr>)"
      using assms(4,5) l len by (simp add: com_wf_def ser_wf_def)
  qed
qed

section \<open>Records\<close>

lemma deserializeRecord_cases:
  assumes wf: "ser_wf (m_buffer s)" and nn: "\<not> m_null (m_buffer s)" and com: "com_wf record"
  obtains (err) e record' n where "e \<noteq> FW_SERIALIZE_OK" "n \<le> length (unread (m_buffer s))"
      "com_wf record'"
      "deserializeRecord s record = Some (e, record', s\<lparr>m_buffer := consume (m_buffer s) n\<rparr>)"
  | (ok) r record' rest where "unread (m_buffer s) = rec_bytes r @ rest" "seq_rec_ok r"
      "com_wf record'" "holds_record record' r"
      "deserializeRecord s record =
        Some (FW_SERIALIZE_OK, record', s\<lparr>m_buffer := consume (m_buffer s) (length (rec_bytes r))\<rparr>)"
proof (cases rule: deserializeDescriptor_cases [OF wf, case_names e1 v1])
  case (e1 e n)
  show ?thesis
    by (rule err [of e n "record"]) (use e1 com in \<open>simp_all add: deserializeRecord_def\<close>)
next
  case (v1 d x rest1)
  let ?b1 = "consume (m_buffer s) 1" and ?r1 = "record\<lparr>m_descriptor := d\<rparr>"
  let ?s1 = "s\<lparr>m_buffer := ?b1\<rparr>"
  have wf1: "ser_wf (m_buffer ?s1)" and u1: "unread (m_buffer ?s1) = rest1"
    using v1 wf by (simp_all add: consume_wf consume_unread)
  show ?thesis
  proof (cases "d = END_OF_SEQUENCE")
    case True
    show ?thesis
      by (rule ok [of SeqEnd rest1 ?r1])
        (use True v1 com in \<open>simp_all add: deserializeRecord_def seq_rec_ok_def\<close>)
  next
    case d: False
    show ?thesis
    proof (cases rule: deserializeTimeTag_cases [OF wf1, of "m_timeTag ?r1", case_names e2 v2])
      case (e2 e n)
      show ?thesis
        by (rule err [of e "n + 1" ?r1])
          (use v1 d com u1 e2 in \<open>simp_all add: deserializeRecord_def consume_consume\<close>)
    next
      case (v2 sec usec rest2)
      let ?s2 = "s\<lparr>m_buffer := consume (m_buffer s) 9\<rparr>"
      let ?r2 = "?r1\<lparr>m_timeTag := Time_set_sec (m_timeTag ?r1) sec usec\<rparr>"
      have t2: "deserializeTimeTag ?s1 (m_timeTag ?r1) =
          Some (FW_SERIALIZE_OK, m_timeTag ?r2, ?s2)"
        using v2(2) by (simp add: consume_consume)
      have wf2: "ser_wf (m_buffer ?s2)" and u2: "unread (m_buffer ?s2) = rest2"
        using v1(1) v2(1) u1 wf by (simp_all add: consume_wf consume_unread)
      show ?thesis
      proof (cases rule: deserializeRecordSize_cases [OF wf2, case_names e3 v3])
        case (e3 e n)
        have "length (unread (m_buffer s)) = 9 + length rest2"
          using v1(1) u1 v2(1) by simp
        then show ?thesis
          by (intro err [of e "9 + n" ?r2])
            (use v1(2) d com u2 e3 t2 in \<open>simp_all add: deserializeRecord_def consume_consume\<close>)
      next
        case (v3 n rest3)
        let ?s3 = "s\<lparr>m_buffer := consume (m_buffer s) 13\<rparr>"
        have s3: "deserializeRecordSize ?s2 = Some (Inr n, ?s3)"
          using v3(4) by (simp add: consume_consume)
        have u: "unread (m_buffer s) = [x] @ bytes_of_U32 sec @ bytes_of_U32 usec @
            bytes_of_U32 n @ rest3"
          using v1(1) u1 v2(1) u2 v3(1) by simp
        then have wf3: "ser_wf (m_buffer ?s3)" and u3: "unread (m_buffer ?s3) = rest3"
          and nn3: "\<not> m_null (m_buffer ?s3)"
          using wf nn by (simp_all add: consume_wf consume_unread )
        obtain cmd where c: "copyCommand ?s3 (m_command ?r2) n = Some (FW_SERIALIZE_OK, cmd,
            ?s3\<lparr>m_buffer := consume (m_buffer ?s3) (unat n)\<rparr>)"
          "contents cmd = take (unat n) (unread (m_buffer ?s3))" "com_wf (?r2\<lparr>m_command := cmd\<rparr>)"
          by (rule copyCommand_ok [OF wf3 nn3, of n ?r2]) (use v3 u3 com in auto)
        let ?r = "SeqCmd (d = ABSOLUTE) sec usec (take (unat n) rest3)"
        have n: "of_nat (min (length rest3) (unat n)) = n"
          using v3(2) by (simp add: min_absorb2)
        have x: "x = (if d = ABSOLUTE then 0 else 1)"
          using v1(3) d by (cases d) auto
        show ?thesis
        proof (rule ok [of ?r "drop (unat n) rest3" "?r2\<lparr>m_command := cmd\<rparr>"])
          show "unread (m_buffer s) = rec_bytes ?r @ drop (unat n) rest3"
            using u x n by simp
          show "seq_rec_ok ?r" using v3(2,3) by (simp add: seq_rec_ok_def min_absorb2)
          show "holds_record (?r2\<lparr>m_command := cmd\<rparr>) ?r"
            using d c(2) u3 by (cases d) (auto simp: Time_set_sec_def Time_set_def)
          have "length (rec_bytes ?r) = 13 + unat n" using v3(2) by (simp add: min_absorb2)
          then show "deserializeRecord s record = Some (FW_SERIALIZE_OK, ?r2\<lparr>m_command := cmd\<rparr>,
              s\<lparr>m_buffer := consume (m_buffer s) (length (rec_bytes ?r))\<rparr>)"
            using v1(2) d t2 s3 c(1) by (simp add: deserializeRecord_def consume_consume)
        qed (rule c(3))
      qed
    qed
  qed
qed

text \<open>Every image of a record is accepted: \<open>deserializeRecord\<close> inverts \<open>rec_bytes\<close>.\<close>

lemma deserializeRecord_ok:
  assumes wf: "ser_wf (m_buffer s)" and nn: "\<not> m_null (m_buffer s)" and com: "com_wf record"
    and u: "unread (m_buffer s) = rec_bytes r @ rest" and r: "seq_rec_ok r"
  obtains record' where "com_wf record'" "holds_record record' r"
    "deserializeRecord s record =
      Some (FW_SERIALIZE_OK, record', s\<lparr>m_buffer := consume (m_buffer s) (length (rec_bytes r))\<rparr>)"
proof (cases rule: deserializeRecord_cases [OF wf nn com, case_names bad good])
  case (good r' record' rest')
  have "rec_bytes r' @ rest' = rec_bytes r @ rest"
    using good(1) u by (rule trans [OF sym])
  then have "r' = r"
    using rec_bytes_prefix_free good(2) r by blast
  with good that show ?thesis by blast
next
  case (bad e record' n)
  let ?b = "\<lambda>k. consume (m_buffer s) k"
  have False
  proof (cases r)
    case SeqEnd
    then have "deserialize_U8 (m_buffer s) = Some (Inr 2, ?b 1)"
      using u8.get_ok [OF wf, of 2 rest] u by simp
    with bad(1,4) show False by (simp add: deserializeRecord_def deserializeDescriptor_def)
  next
    case (SeqCmd ab sec usec bs)
    let ?n = "of_nat (length bs) :: U32"
    have bs: "length bs \<le> 126" using r SeqCmd by (simp add: seq_rec_ok_def)
    then have n: "unat ?n = length bs" by (simp add: unat_of_nat32)
    have u0: "unread (m_buffer s) = [if ab then 0 else 1] @ bytes_of_U32 sec @ bytes_of_U32 usec @
        bytes_of_U32 ?n @ bs @ rest"
      using u SeqCmd by simp
    have w: "ser_wf (?b 1)" "ser_wf (?b 5)" "ser_wf (?b 9)" "ser_wf (?b 13)"
      "unread (?b 1) = bytes_of_U32 sec @ bytes_of_U32 usec @ bytes_of_U32 ?n @ bs @ rest"
      "unread (?b 5) = bytes_of_U32 usec @ bytes_of_U32 ?n @ bs @ rest"
      "unread (?b 9) = bytes_of_U32 ?n @ bs @ rest" "unread (?b 13) = bs @ rest"
      using u0 wf by (simp_all add: consume_wf consume_unread)
    have d: "deserialize_U8 (m_buffer s) = Some (Inr (if ab then 0 else 1), ?b 1)"
      using u8.get_ok [OF wf u0] by simp
    have t: "deserialize_U32 (?b 1) = Some (Inr sec, ?b 5)"
      "deserialize_U32 (?b 5) = Some (Inr usec, ?b 9)" "deserialize_U32 (?b 9) = Some (Inr ?n, ?b 13)"
      using u32.get_ok [OF w(1,5)] u32.get_ok [OF w(2,6)] u32.get_ok [OF w(3,7)]
      by (simp_all add: consume_consume)
    have left: "\<not> getBuffLeft (?b 13) < ?n"
      using unat_getBuffLeft [OF w(4)] w(8) n by (simp add: word_less_nat_alt)
    have size: "unat ?n \<le> 126" "unat ?n \<le> length (unread (?b 13))"
      using n bs w(8) by auto
    have nn': "\<not> m_null (?b 13)" using nn by (simp add: consume_def)
    have "copyCommand (s\<lparr>m_buffer := ?b 13\<rparr>) c ?n \<noteq> Some (e, x)" if "c = m_command record" for c x
      by (rule copyCommand_ok [of "s\<lparr>m_buffer := ?b 13\<rparr>" ?n "record"])
        (use w(4) nn' size com that bad(1) in auto)
    with bad(1,4) d t left size(1) show False
      by (auto simp: deserializeRecord_def deserializeDescriptor_def deserializeTimeTag_def
          deserializeRecordSize_def split: if_splits bind_splits)
  qed
  then show ?thesis ..
qed

end
