(* ===== verification/Fprime_Files.thy ===== *)
theory Fprime_Files
  imports Fprime_Load
begin

text \<open>
  Whole sequence files. \<open>seq_file\<close> is the file a sequence of records is stored in: header,
  images of the records, CRC. Every such file that fits the buffer loads, however the kernel
  delivers it, and the records come out in order; a file with one corrupted byte is refused.
\<close>

unbundle bit_operations_syntax

section \<open>The file format\<close>

definition seq_crc :: "U8 list \<Rightarrow> U32" where
  "seq_crc bs = NOT (crc_update 0xFFFFFFFF bs)"

definition header_bytes :: "U32 \<Rightarrow> U32 \<Rightarrow> U16 \<Rightarrow> U8 \<Rightarrow> U8 list" where
  "header_bytes fileSize numRecords timeBase context =
     bytes_of_U32 fileSize @ bytes_of_U32 numRecords @ bytes_of_U16 timeBase @ [context]"

definition seq_file :: "U16 \<Rightarrow> U8 \<Rightarrow> seq_record list \<Rightarrow> U8 list" where
  "seq_file timeBase context rs =
     (let body = concat (map rec_bytes rs);
          header = header_bytes (of_nat (length body + 4)) (of_nat (length rs)) timeBase context
      in header @ body @ bytes_of_U32 (seq_crc (header @ body)))"

lemma length_header_bytes [simp]: "length (header_bytes n nr tb tc) = 11"
  by (simp add: header_bytes_def)

section \<open>Loading a file byte by byte\<close>

lemma read_into_buffer_serves:
  assumes "m_mode (m_sequenceFile s) \<noteq> OPEN_NO_MODE" "serves (kernel E) (m_fd (m_sequenceFile s)) file"
    "drop (m_pos (m_sequenceFile s)) file = data @ rest" "int (length data) = sz" "0 < sz"
    "length data \<le> length (m_data (m_buffer s))" "sz < 1073741824"
  obtains t where "read_into_buffer E sz (s, h) = Some (OP_OK, sz,
    s\<lparr>m_buffer := (m_buffer s)\<lparr>m_data := data @ drop (length data) (m_data (m_buffer s))\<rparr>,
      m_sequenceFile := (m_sequenceFile s)\<lparr>m_pos := m_pos (m_sequenceFile s) + length data\<rparr>\<rparr>,
    h\<lparr>h_calls := t\<rparr>)"
proof -
  have "nat sz = length data" using assms(4) by linarith
  then have d: "data = take (nat sz) (drop (m_pos (m_sequenceFile s)) file)"
    using assms(3) by simp
  from File_read_serves [OF assms(1,5,7,2) d, of "h_calls h"] obtain t
    where "File_read (kernel E) (h_calls h) (m_sequenceFile s) sz True = Some (OP_OK, data, sz,
      (m_sequenceFile s)\<lparr>m_pos := m_pos (m_sequenceFile s) + length data\<rparr>, t)"
    using assms(4) by auto
  then show ?thesis
    using assms(6) by (intro that [of t]) (simp add: read_into_buffer_def write_at_in_bounds)
qed

text \<open>The buffer after a block of bytes has been read to its start.\<close>

definition filled :: "ser_buf \<Rightarrow> U8 list \<Rightarrow> ser_buf" where
  "filled b data = b\<lparr>m_data := data @ drop (length data) (m_data b),
     m_serLoc := of_nat (length data), m_deserLoc := 0\<rparr>"

lemma filled_facts:
  assumes "ser_wf b" "\<not> m_null b" "length data \<le> length (m_data b)"
  shows "ser_wf (filled b data)" "contents (filled b data) = data" "unread (filled b data) = data"
    "length (m_data (filled b data)) = length (m_data b)" "\<not> m_null (filled b data)"
proof -
  have "unat (of_nat (length data) :: U32) = length data"
    using assms by (intro unat_of_nat32) (simp add: ser_wf_def)
  with assms show "ser_wf (filled b data)" "contents (filled b data) = data"
    "unread (filled b data) = data" "length (m_data (filled b data)) = length (m_data b)"
    "\<not> m_null (filled b data)"
    by (simp_all add: filled_def ser_wf_def contents_def unread_def)
qed

lemma readHeader_exact:
  assumes "seq_wf s" "m_mode (m_sequenceFile s) \<noteq> OPEN_NO_MODE"
    "serves (kernel E) (m_fd (m_sequenceFile s)) file" "drop (m_pos (m_sequenceFile s)) file = hdr @ rest"
    "length hdr = 11"
  obtains t where "readHeader E (s, h) = Some (True, s\<lparr>m_buffer := filled (m_buffer s) hdr,
    m_sequenceFile := (m_sequenceFile s)\<lparr>m_pos := m_pos (m_sequenceFile s) + 11\<rparr>\<rparr>, h\<lparr>h_calls := t\<rparr>)"
proof -
  have cap: "11 \<le> length (m_data (m_buffer s))" "(11 :: U32) \<le> getBuffCapacity (m_buffer s)"
    using assms(1) seq_wf_capacity [OF assms(1)] by (simp_all add: seq_wf_def word_le_nat_alt)
  from read_into_buffer_serves [OF assms(2-4), of 11 h] assms(5) cap(1) obtain t
    where r: "read_into_buffer E 11 (s, h) = Some (OP_OK, 11,
      s\<lparr>m_buffer := (m_buffer s)\<lparr>m_data := hdr @ drop 11 (m_data (m_buffer s))\<rparr>,
        m_sequenceFile := (m_sequenceFile s)\<lparr>m_pos := m_pos (m_sequenceFile s) + 11\<rparr>\<rparr>,
      h\<lparr>h_calls := t\<rparr>)" by auto
  have "getBuffCapacity ((m_buffer s)\<lparr>m_data := hdr @ drop 11 (m_data (m_buffer s))\<rparr>) =
      getBuffCapacity (m_buffer s)"
    using cap(1) assms(5) by (simp add: getBuffCapacity_def)
  with r cap(2) assms(5) show ?thesis
    by (intro that [of t]) (simp add: readHeader_def Let_def setBuffLen_def filled_def)
qed

lemma deserializeHeader_exact:
  assumes "seq_wf s" "unread (m_buffer s) = header_bytes n nr tb tc @ rest"
    "unat n \<le> length (m_data (m_buffer s))"
  shows "deserializeHeader (s, h) = Some (True, s\<lparr>m_buffer := consume (m_buffer s) 11,
    m_header := \<lparr>m_fileSize = n, m_numRecords = nr, hd_timeBase = tb, hd_timeContext = tc\<rparr>\<rparr>, h)"
proof -
  let ?b = "\<lambda>k. consume (m_buffer s) k"
  have wf: "ser_wf (m_buffer s)" using assms(1) by (simp add: seq_wf_def)
  have u0: "unread (m_buffer s) =
      bytes_of_U32 n @ bytes_of_U32 nr @ bytes_of_U16 tb @ [tc] @ rest"
    using assms(2) by (simp add: header_bytes_def)
  have u: "unread (?b 4) = bytes_of_U32 nr @ bytes_of_U16 tb @ [tc] @ rest"
    "unread (?b 8) = bytes_of_U16 tb @ [tc] @ rest" "unread (?b 10) = [tc] @ rest"
    and w: "ser_wf (?b 4)" "ser_wf (?b 8)" "ser_wf (?b 10)"
    using u0 wf by (simp_all add: consume_unread consume_wf)
  have g: "deserialize_U32 (m_buffer s) = Some (Inr n, ?b 4)"
    "deserialize_U32 (?b 4) = Some (Inr nr, ?b 8)"
    "deserialize_U16 (?b 8) = Some (Inr tb, ?b 10)"
    "deserialize_U8 (?b 10) = Some (Inr tc, ?b 11)"
    using u32.get_ok [OF wf u0] u32.get_ok [OF w(1) u(1)] u16.get_ok [OF w(2) u(2)]
      u8.get_ok [OF w(3) u(3)]
    by (simp_all add: consume_consume)
  have "\<not> getBuffCapacity (?b 4) < n"
    using assms(3) unat_getBuffCapacity [OF w(1)] by (simp add: word_less_nat_alt)
  with g show ?thesis by (simp add: deserializeHeader_def Let_def)
qed

lemma readRecordsAndCRC_exact:
  assumes "seq_wf s" "m_mode (m_sequenceFile s) \<noteq> OPEN_NO_MODE"
    "serves (kernel E) (m_fd (m_sequenceFile s)) file" "drop (m_pos (m_sequenceFile s)) file = data @ rest"
    "length data = unat (m_fileSize (m_header s))" "data \<noteq> []"
    "length data \<le> length (m_data (m_buffer s))"
  obtains t where "readRecordsAndCRC E (s, h) = Some (True, s\<lparr>m_buffer := filled (m_buffer s) data,
    m_sequenceFile := (m_sequenceFile s)\<lparr>m_pos := m_pos (m_sequenceFile s) + length data\<rparr>\<rparr>,
    h\<lparr>h_calls := t\<rparr>)"
proof -
  let ?n = "m_fileSize (m_header s)"
  have "unat ?n < 2147483648" using assms(1,5,7) by (simp add: seq_wf_def ser_wf_def)
  then have n: "sint ?n = int (length data)" using assms(5) sint_small by metis
  have cap: "\<not> getBuffCapacity ((m_buffer s)\<lparr>m_data := data @ drop (length data) (m_data (m_buffer s))\<rparr>) < ?n"
    using assms(5,7) seq_wf_capacity [OF assms(1)]
    by (simp add: getBuffCapacity_def word_less_nat_alt)
  have "length data < 1073741824" using assms(1,7) by (simp add: seq_wf_def)
  with read_into_buffer_serves [OF assms(2-4), of "int (length data)" h] assms(6,7) obtain t
    where r: "read_into_buffer E (int (length data)) (s, h) = Some (OP_OK, int (length data),
      s\<lparr>m_buffer := (m_buffer s)\<lparr>m_data := data @ drop (length data) (m_data (m_buffer s))\<rparr>,
        m_sequenceFile := (m_sequenceFile s)\<lparr>m_pos := m_pos (m_sequenceFile s) + length data\<rparr>\<rparr>,
      h\<lparr>h_calls := t\<rparr>)" by auto
  have "of_nat (length data) = ?n" using assms(5) by simp
  with r n cap show ?thesis
    by (intro that [of t]) (simp add: readRecordsAndCRC_def Let_def setBuffLen_def filled_def)
qed

lemma extractCRC_exact:
  assumes "seq_wf s" "contents (m_buffer s) = body @ bytes_of_U32 crc"
  obtains b where "extractCRC (s, h) = Some (True, s\<lparr>m_stored := crc, m_buffer := b\<rparr>, h)"
    "ser_wf b" "contents b = body" "m_deserLoc b = 0" "m_data b = m_data (m_buffer s)"
    "m_null b = m_null (m_buffer s)"
proof -
  let ?n = "m_serLoc (m_buffer s)"
  have wf: "ser_wf (m_buffer s)" using assms(1) by (simp add: seq_wf_def)
  have n: "unat ?n = length body + 4" using length_contents [OF wf] assms(2) by simp
  then have n4: "unat (?n - 4) = length body" "\<not> ?n < 4" "4 \<le> ?n"
    by (simp_all add: unat_sub_small word_less_nat_alt word_le_nat_alt)
  have cap: "unat ?n \<le> length (m_data (m_buffer s))" using wf by (simp add: ser_wf_def)
  have d: "take (length body + 4) (m_data (m_buffer s)) = body @ bytes_of_U32 crc"
    using assms(2) n by (simp add: contents_def)
  then have c: "take 4 (drop (length body) (m_data (m_buffer s))) = bytes_of_U32 crc"
    by (metis append_eq_conv_conj take_drop add.commute)
  have body: "take (length body) (m_data (m_buffer s)) = body"
    using arg_cong [OF d, of "take (length body)"] by (simp add: min_def)
  let ?b = "(m_buffer s)\<lparr>m_serLoc := ?n - 4, m_deserLoc := 0\<rparr>"
  obtain b' where "deserialize_U32 ((SerializeBufferBase_new (bytes_of_U32 crc))\<lparr>m_serLoc := 4\<rparr>) =
      Some (Inr (U32_of_bytes (bytes_of_U32 crc)), b')"
    using crc_field_read(2) [of "bytes_of_U32 crc"] by auto
  moreover have "setBuffLen (m_buffer s) (?n - 4) = (FW_SERIALIZE_OK, ?b)"
    using seq_wf_len [OF assms(1), of "?n - 4"] n4(1) n cap by simp
  ultimately have "extractCRC (s, h) = Some (True, s\<lparr>m_stored := crc, m_buffer := ?b\<rparr>, h)"
    using crc_field_read(1) [of "bytes_of_U32 crc"] n n4 c cap
    by (simp add: extractCRC_def getBuffLength_def Let_def read_at_def)
  moreover have "ser_wf ?b" "contents ?b = body"
    using wf n4 n cap body by (auto simp: ser_wf_def contents_def)
  ultimately show ?thesis by (intro that [of ?b]) simp_all
qed

text \<open>
  The whole read: on a kernel that opens the name and delivers the file, the buffer ends up with
  the body and the two CRCs to compare are the stored one and that of header and body.
\<close>

definition opens :: "posix \<Rightarrow> string \<Rightarrow> int \<Rightarrow> bool" where
  "opens K fileName fd \<longleftrightarrow> (\<forall>t. sys_open K t fileName O_RDONLY = Inr fd)"

lemma readOpenFile_exact:
  assumes "seq_wf s" "m_mode (m_sequenceFile s) \<noteq> OPEN_NO_MODE" "m_pos (m_sequenceFile s) = 0"
    "serves (kernel E) (m_fd (m_sequenceFile s)) (header_bytes n nr tb tc @ body @ bytes_of_U32 crc @ extra)"
    "unat n = length body + 4" "length body + 4 \<le> length (m_data (m_buffer s))"
  obtains s' t where "readOpenFile E (s, h) = Some (True, s', h\<lparr>h_calls := t\<rparr>)" "seq_wf s'"
    "at_start s'" "contents (m_buffer s') = body" "m_stored s' = crc"
    "m_computed s' = seq_crc (header_bytes n nr tb tc @ body)"
    "m_header s' = \<lparr>m_fileSize = n, m_numRecords = nr, hd_timeBase = tb, hd_timeContext = tc\<rparr>"
    "m_logFileName s' = m_logFileName s"
proof -
  let ?hdr = "header_bytes n nr tb tc" and ?data = "body @ bytes_of_U32 crc"
  let ?f = "m_sequenceFile s"
  let ?f1 = "?f\<lparr>m_pos := 11\<rparr>" and ?f2 = "?f\<lparr>m_pos := 11 + length ?data\<rparr>"
  let ?s0 = "CRC_init s"
  have wf: "ser_wf (m_buffer s)" "\<not> m_null (m_buffer s)" "11 \<le> length (m_data (m_buffer s))"
    and lt: "length (m_data (m_buffer s)) < 1073741824"
    using assms(1) by (simp_all add: seq_wf_def)
  have s0: "m_buffer ?s0 = m_buffer s" "m_sequenceFile ?s0 = ?f" "seq_wf ?s0"
    using assms(1) by (simp_all add: CRC_init_def)
  let ?b1 = "filled (m_buffer s) ?hdr"
  note b1 = filled_facts [OF wf(1,2), of ?hdr, simplified, OF wf(3)]
  have "drop (m_pos (m_sequenceFile ?s0)) (?hdr @ body @ bytes_of_U32 crc @ extra) =
      ?hdr @ (body @ bytes_of_U32 crc @ extra)" using s0(2) assms(3) by simp
  from readHeader_exact [OF s0(3) _ _ this length_header_bytes, of E h] s0(1,2) assms(2,3,4)
  obtain t1 where h1: "readHeader E (?s0, h) =
      Some (True, ?s0\<lparr>m_buffer := ?b1, m_sequenceFile := ?f1\<rparr>, h\<lparr>h_calls := t1\<rparr>)" by auto
  let ?s1 = "?s0\<lparr>m_buffer := ?b1, m_sequenceFile := ?f1\<rparr>"
  let ?c1 = "?s1\<lparr>m_computed := crc_update 0xFFFFFFFF ?hdr\<rparr>"
  have "take 11 (m_data ?b1) = ?hdr" by (simp add: filled_def)
  then have u1: "CRC_update ?s1 (m_data (m_buffer ?s1)) 11 = Some ?c1"
    using CRC_update_in [of 11 "m_data ?b1" ?s1] b1(4) wf(3)
    by (simp add: CRC_init_def INITIAL_COMPUTED_VALUE_def)
  have c1: "seq_wf ?c1" "unread (m_buffer ?c1) = ?hdr @ []"
    "unat n \<le> length (m_data (m_buffer ?c1))"
    using b1 assms(5,6) wf(3) lt by (simp_all add: seq_wf_def)
  let ?s2 = "?c1\<lparr>m_buffer := consume ?b1 11,
    m_header := \<lparr>m_fileSize = n, m_numRecords = nr, hd_timeBase = tb, hd_timeContext = tc\<rparr>\<rparr>"
  have d2: "deserializeHeader (?c1, h\<lparr>h_calls := t1\<rparr>) = Some (True, ?s2, h\<lparr>h_calls := t1\<rparr>)"
    using deserializeHeader_exact [OF c1] by simp
  have w2: "ser_wf (consume ?b1 11)" using b1 by (simp add: consume_wf)
  then have s2: "seq_wf ?s2" using b1(4,5) wf(3) lt by (simp add: seq_wf_def)
  have len: "length ?data = unat (m_fileSize (m_header ?s2))"
    "length ?data \<le> length (m_data (m_buffer ?s2))" "?data \<noteq> []"
    using assms(5,6) b1(4) by (auto dest: arg_cong [of _ _ length])
  have "drop (m_pos (m_sequenceFile ?s2)) (?hdr @ body @ bytes_of_U32 crc @ extra) = ?data @ extra"
    by simp
  from readRecordsAndCRC_exact [OF s2 _ _ this len(1,3,2), of E "h\<lparr>h_calls := t1\<rparr>"] assms(2,4)
  obtain t3 where r3: "readRecordsAndCRC E (?s2, h\<lparr>h_calls := t1\<rparr>) =
      Some (True, ?s2\<lparr>m_buffer := filled (consume ?b1 11) ?data, m_sequenceFile := ?f2\<rparr>,
            h\<lparr>h_calls := t3\<rparr>)" by auto
  let ?s3 = "?s2\<lparr>m_buffer := filled (consume ?b1 11) ?data, m_sequenceFile := ?f2\<rparr>"
  have "\<not> m_null (consume ?b1 11)" using b1(5) by simp
  note b3 = filled_facts [OF w2 this, of ?data]
  have l3: "length ?data \<le> length (m_data (consume ?b1 11))" using len(2) by simp
  have s3: "seq_wf ?s3" "contents (m_buffer ?s3) = ?data"
    using b3 [OF l3] b1(4) wf(3) lt by (simp_all add: seq_wf_def)
  obtain b where e4: "extractCRC (?s3, h\<lparr>h_calls := t3\<rparr>) =
      Some (True, ?s3\<lparr>m_stored := crc, m_buffer := b\<rparr>, h\<lparr>h_calls := t3\<rparr>)"
    "ser_wf b" "contents b = body" "m_deserLoc b = 0" "m_data b = m_data (m_buffer ?s3)"
    "m_null b = m_null (m_buffer ?s3)"
    by (rule extractCRC_exact [OF s3])
  let ?s4 = "?s3\<lparr>m_stored := crc, m_buffer := b\<rparr>"
  have nb: "\<not> m_null b" "length (m_data b) = length (m_data (m_buffer s))"
    using e4(5,6) b3(4,5) [OF l3] b1(4) by simp_all
  have lb: "unat (getBuffLength b) = length body" "take (length body) (m_data b) = body"
    "length body \<le> length (m_data b)"
    using unat_getBuffLength [OF e4(2)] e4(3) length_contents [OF e4(2)] nb(2) assms(6)
    by (auto simp: contents_def getBuffLength_def)
  let ?s5 = "CRC_finalize (?s4\<lparr>m_computed := crc_update (crc_update 0xFFFFFFFF ?hdr) body\<rparr>)"
  have u5: "CRC_update ?s4 (m_data b) (length body) =
      Some (?s4\<lparr>m_computed := crc_update (crc_update 0xFFFFFFFF ?hdr) body\<rparr>)"
    using CRC_update_in [OF lb(3), of ?s4] lb(2) by simp
  have "readOpenFile E (s, h) = Some (True, ?s5, h\<lparr>h_calls := t3\<rparr>)"
    using h1 u1 d2 r3 e4(1) b1(5) nb(1) lb(1) u5
    by (simp add: readOpenFile_def Let_def and_then_def)
  moreover have "seq_wf ?s5" using e4(2) nb wf(3) lt by (simp add: seq_wf_def CRC_finalize_def)
  ultimately show ?thesis
    using that [of ?s5 t3] e4(3,4)
    by (simp add: CRC_finalize_def CRC_init_def at_start_def seq_crc_def)
qed

lemma readFile_exact:
  assumes "seq_wf s" "opens (kernel E) (m_fileName s) fd"
    "serves (kernel E) fd (header_bytes n nr tb tc @ body @ bytes_of_U32 crc @ extra)"
    "unat n = length body + 4" "length body + 4 \<le> length (m_data (m_buffer s))"
  obtains s' t where "readFile E (s, h) = Some (True, s', h\<lparr>h_calls := t\<rparr>)" "seq_wf s'"
    "at_start s'" "contents (m_buffer s') = body" "m_stored s' = crc"
    "m_computed s' = seq_crc (header_bytes n nr tb tc @ body)"
    "m_header s' = \<lparr>m_fileSize = n, m_numRecords = nr, hd_timeBase = tb, hd_timeContext = tc\<rparr>"
    "m_logFileName s' = m_logFileName s"
proof -
  let ?f = "(m_sequenceFile s)\<lparr>m_mode := OPEN_READ, m_fd := fd, m_pos := 0\<rparr>"
  let ?s = "s\<lparr>m_sequenceFile := ?f\<rparr>" and ?h = "h\<lparr>h_calls := h_calls h + 1\<rparr>"
  have o: "File_open (kernel E) (h_calls h) (m_sequenceFile s) (m_fileName s) OPEN_READ True =
      Some (OP_OK, ?f, h_calls h + 1)"
    using assms(2) by (simp add: File_open_def open_flags_def open_outcome_def opens_def)
  obtain s' t where r: "readOpenFile E (?s, ?h) = Some (True, s', ?h\<lparr>h_calls := t\<rparr>)" "seq_wf s'"
    "at_start s'" "contents (m_buffer s') = body" "m_stored s' = crc"
    "m_computed s' = seq_crc (header_bytes n nr tb tc @ body)"
    "m_header s' = \<lparr>m_fileSize = n, m_numRecords = nr, hd_timeBase = tb, hd_timeContext = tc\<rparr>"
    "m_logFileName s' = m_logFileName ?s"
    by (rule readOpenFile_exact [of ?s E n nr tb tc body crc extra ?h]) (use assms in simp_all)
  show ?thesis
    by (rule that [of "s'\<lparr>m_sequenceFile := File_close (m_sequenceFile s')\<rparr>" t])
      (use o r in \<open>simp_all add: readFile_def Let_def at_start_def\<close>)
qed

section \<open>Well-formed files load\<close>

lemma validate_loop_ok:
  "seq_wf s \<Longrightarrow> com_wf rcd \<Longrightarrow> unread (m_buffer s) = concat (map rec_bytes rs) @ rest \<Longrightarrow>
     \<forall>r \<in> set rs. seq_rec_ok r \<Longrightarrow> validate_loop (length rs) k rcd (s, h) =
       Some (True, s\<lparr>m_buffer := consume (m_buffer s) (length (concat (map rec_bytes rs)))\<rparr>, h)"
proof (induction rs arbitrary: s k rcd)
  case Nil
  then show ?case by simp
next
  case (Cons r rs)
  then have u: "unread (m_buffer s) = rec_bytes r @ concat (map rec_bytes rs) @ rest" by simp
  obtain rcd' where d: "com_wf rcd'" "deserializeRecord s rcd =
      Some (FW_SERIALIZE_OK, rcd', s\<lparr>m_buffer := consume (m_buffer s) (length (rec_bytes r))\<rparr>)"
    by (rule deserializeRecord_ok [OF _ _ Cons.prems(2) u]) (use Cons.prems in \<open>auto simp: seq_wf_def\<close>)
  let ?s = "s\<lparr>m_buffer := consume (m_buffer s) (length (rec_bytes r))\<rparr>"
  have wf: "seq_wf ?s" using Cons.prems(1) u by (intro seq_wf_consume) simp_all
  moreover have "unread (m_buffer ?s) = concat (map rec_bytes rs) @ rest"
    using Cons.prems(1) u by (simp add: consume_unread seq_wf_def)
  ultimately show ?case
    using Cons.IH [OF wf d(1)] Cons.prems(4) d(2) by (simp add: consume_consume)
qed

lemma validateRecords_ok:
  assumes "seq_wf s" "at_start s" "contents (m_buffer s) = concat (map rec_bytes rs)"
    "\<forall>r \<in> set rs. seq_rec_ok r" "unat (m_numRecords (m_header s)) = length rs"
  obtains b where "validateRecords (s, h) = Some (True, s\<lparr>m_buffer := b\<rparr>, h)"
    "represents (s\<lparr>m_buffer := b\<rparr>) rs rs"
proof -
  let ?n = "length (concat (map rec_bytes rs))"
  have u: "unread (m_buffer s) = concat (map rec_bytes rs) @ []"
    using assms(2,3) by (simp add: unread_at_start)
  have wf1: "seq_wf (s\<lparr>m_buffer := consume (m_buffer s) ?n\<rparr>)"
    using assms(1) u by (intro seq_wf_consume) simp_all
  then have wfb: "ser_wf (consume (m_buffer s) ?n)" by (simp add: seq_wf_def)
  have "unat (getBuffLeft (consume (m_buffer s) ?n)) = 0"
    using unat_getBuffLeft [OF wfb] u assms(1) by (simp add: consume_unread seq_wf_def)
  then have left: "\<not> getBuffLeft (consume (m_buffer s) ?n) > 0"
    by (simp add: word_less_nat_alt)
  note rd = resetDeser_facts [OF wfb]
  have "contents (consume (m_buffer s) ?n) = concat (map rec_bytes rs)"
    using assms(1,3) u by (simp add: consume_contents seq_wf_def)
  then have "represents (s\<lparr>m_buffer := resetDeser (consume (m_buffer s) ?n)\<rparr>) rs rs"
    using wf1 rd assms(4) by (simp add: represents_def seq_wf_def)
  moreover have "validateRecords (s, h) =
      Some (True, s\<lparr>m_buffer := resetDeser (consume (m_buffer s) ?n)\<rparr>, h)"
    using validate_loop_ok [OF assms(1) com_wf_new u assms(4), of 0 h] assms(5) left
    by (simp add: validateRecords_def Let_def)
  ultimately show ?thesis using that by blast
qed

lemma length_seq_records: "length rs \<le> length (concat (map rec_bytes rs))"
proof (induction rs)
  case (Cons r rs)
  moreover have "Suc 0 \<le> length (rec_bytes r)" by (cases r) simp_all
  ultimately show ?case by simp
qed simp

definition clock_accepts :: "Time \<Rightarrow> U16 \<Rightarrow> U8 \<Rightarrow> bool" where
  "clock_accepts now timeBase context \<longleftrightarrow>
     (timeBase = TB_DONT_CARE \<or> timeBase = m_timeBase now) \<and>
     (context = FW_CONTEXT_DONT_CARE \<or> context = m_timeContext now)"

lemma validate_header_time_ok:
  assumes "clock_accepts (clock E (h_ticks h)) (hd_timeBase (m_header s)) (hd_timeContext (m_header s))"
  shows "validate_header_time E (s, h) = Some (True,
    s\<lparr>m_header := (m_header s)\<lparr>hd_timeBase := m_timeBase (clock E (h_ticks h)),
       hd_timeContext := m_timeContext (clock E (h_ticks h))\<rparr>\<rparr>, h\<lparr>h_ticks := h_ticks h + 1\<rparr>)"
  using assms by (auto simp: validate_header_time_def validateTime_def getTime_def clock_accepts_def
      Let_def)

lemma seq_file_sizes:
  assumes "length (concat (map rec_bytes rs)) + 4 \<le> length (m_data (m_buffer s))" "seq_wf s"
  shows "unat (of_nat (length (concat (map rec_bytes rs)) + 4) :: U32) =
      length (concat (map rec_bytes rs)) + 4"
    and "unat (of_nat (length rs) :: U32) = length rs"
proof -
  have "length (concat (map rec_bytes rs)) + 4 < 4294967296"
    using assms by (simp add: seq_wf_def ser_wf_def)
  then show "unat (of_nat (length (concat (map rec_bytes rs)) + 4) :: U32) =
      length (concat (map rec_bytes rs)) + 4"
    by (rule unat_of_nat32)
  show "unat (of_nat (length rs) :: U32) = length rs"
    by (rule unat_of_nat32)
      (use \<open>length (concat (map rec_bytes rs)) + 4 < 4294967296\<close> length_seq_records [of rs] in simp)
qed

lemma loadFile_wellformed:
  assumes "seq_wf s" "\<forall>r \<in> set rs. seq_rec_ok r"
    "length (concat (map rec_bytes rs)) + 4 \<le> length (m_data (m_buffer s))"
    "opens (kernel E) (CmdStringArg_of fileName) fd"
    "serves (kernel E) fd (seq_file tb tc rs @ extra)"
    "clock_accepts (clock E (h_ticks h)) tb tc"
  obtains s' h' where "FPrime_loadFile E fileName (s, h) = Some (True, s', h')"
    "represents s' rs rs" "h_outs h' = h_outs h" "m_errorCount h' = m_errorCount h"
    "hd_timeBase (m_header s') = m_timeBase (clock E (h_ticks h))"
    "hd_timeContext (m_header s') = m_timeContext (clock E (h_ticks h))"
proof -
  let ?body = "concat (map rec_bytes rs)" and ?now = "clock E (h_ticks h)"
  let ?n = "of_nat (length ?body + 4) :: U32" and ?nr = "of_nat (length rs) :: U32"
  let ?s = "setFileName s fileName" and ?crc = "seq_crc (header_bytes ?n ?nr tb tc @ ?body)"
  note sz = seq_file_sizes [OF assms(3,1)]
  obtain s1 t where r: "readFile E (?s, h) = Some (True, s1, h\<lparr>h_calls := t\<rparr>)" "seq_wf s1"
    "at_start s1" "contents (m_buffer s1) = ?body" "m_stored s1 = ?crc" "m_computed s1 = ?crc"
    "m_header s1 = \<lparr>m_fileSize = ?n, m_numRecords = ?nr, hd_timeBase = tb, hd_timeContext = tc\<rparr>"
  proof (rule readFile_exact [of ?s E fd ?n ?nr tb tc ?body ?crc extra h])
    show "opens (kernel E) (m_fileName ?s) fd" using assms(4) by (simp add: setFileName_def)
    show "serves (kernel E) fd (header_bytes ?n ?nr tb tc @ ?body @ bytes_of_U32 ?crc @ extra)"
      using assms(5) by (simp add: seq_file_def Let_def)
  qed (use assms(1,3) sz(1) in simp_all)
  let ?h1 = "h\<lparr>h_calls := t\<rparr>" and ?h2 = "h\<lparr>h_calls := t, h_ticks := h_ticks h + 1\<rparr>"
  let ?s2 = "s1\<lparr>m_header := (m_header s1)\<lparr>hd_timeBase := m_timeBase ?now,
    hd_timeContext := m_timeContext ?now\<rparr>\<rparr>"
  have c: "validateCRC (s1, ?h1) = Some (True, s1, ?h1)" using r(5,6) by (simp add: validateCRC_def)
  have v: "validate_header_time E (s1, ?h1) = Some (True, ?s2, ?h2)"
    using validate_header_time_ok [of E ?h1 s1] assms(6) r(7) by simp
  have "seq_wf ?s2" "at_start ?s2" "contents (m_buffer ?s2) = ?body"
    "unat (m_numRecords (m_header ?s2)) = length rs"
    using r(2-4,7) sz(2) by (simp_all add: at_start_def)
  from validateRecords_ok [OF this(1-3) assms(2) this(4), of ?h2] obtain b
    where "validateRecords (?s2, ?h2) = Some (True, ?s2\<lparr>m_buffer := b\<rparr>, ?h2)"
      "represents (?s2\<lparr>m_buffer := b\<rparr>) rs rs" .
  moreover have "\<not> m_null (m_buffer s)" using assms(1) by (simp add: seq_wf_def)
  ultimately show ?thesis
    using r(1) c v
    by (intro that [of "?s2\<lparr>m_buffer := b\<rparr>" ?h2])
      (simp_all add: FPrime_loadFile_def and_then_def)
qed

section \<open>Corrupted files\<close>

text \<open>Every seven bytes are the rest of some header, every four bytes are some CRC.\<close>

lemma header_rest:
  assumes "length xs = 7"
  obtains nr tb tc where "xs = bytes_of_U32 nr @ bytes_of_U16 tb @ [tc]"
proof -
  obtain a b c d e f g where "xs = [a, b, c, d, e, f, g]"
    using assms by (auto simp: list_of_length)
  then have "xs = bytes_of_U32 (U32_of_bytes [a, b, c, d]) @ bytes_of_U16 (U16_of_bytes [e, f]) @ [g]"
    by simp
  then show ?thesis by (rule that)
qed

lemma four_bytes:
  assumes "length xs = 4"
  obtains v where "xs = bytes_of_U32 v"
proof -
  obtain a b c d where "xs = [a, b, c, d]" using assms by (auto simp: list_of_length)
  then have "xs = bytes_of_U32 (U32_of_bytes [a, b, c, d])" by simp
  then show ?thesis by (rule that)
qed

lemma seq_crc_one_byte:
  assumes "i < length bs" "v \<noteq> bs ! i"
  shows "seq_crc (bs[i := v]) \<noteq> seq_crc bs"
proof
  assume "seq_crc (bs[i := v]) = seq_crc bs"
  then have "crc_update 0xFFFFFFFF (bs[i := v]) = crc_update 0xFFFFFFFF bs"
    by (metis seq_crc_def bit.double_compl)
  moreover have "bs = take i bs @ bs ! i # drop (Suc i) bs"
    using assms(1) by (rule id_take_nth_drop)
  moreover have "bs[i := v] = take i bs @ v # drop (Suc i) bs"
    using assms(1) by (rule upd_conv_take_nth_drop)
  ultimately show False
    using crc_update_one_byte [OF assms(2)] by metis
qed

text \<open>
  A checked file with one byte changed behind its size field is a header of the same size field,
  a body of the same length and a CRC that does not match.
\<close>

lemma split_4_7: "xs = take 4 xs @ take 7 (drop 4 xs) @ drop 11 xs"
proof -
  have "drop 4 xs = take 7 (drop 4 xs) @ drop 7 (drop 4 xs)" by (simp only: append_take_drop_id)
  then have "drop 4 xs = take 7 (drop 4 xs) @ drop 11 xs" by simp
  then show ?thesis by (metis append_take_drop_id)
qed

lemma corrupted_shape:
  assumes "4 \<le> i" "i < 11 + length body + 4" "v \<noteq> file ! i"
    "file = header_bytes n nr tb tc @ body @ bytes_of_U32 (seq_crc (header_bytes n nr tb tc @ body))"
  obtains nr' tb' tc' body' crc' where
    "file[i := v] = header_bytes n nr' tb' tc' @ body' @ bytes_of_U32 crc'"
    "length body' = length body" "crc' \<noteq> seq_crc (header_bytes n nr' tb' tc' @ body')"
proof -
  let ?h = "header_bytes n nr tb tc" and ?crc = "bytes_of_U32 (seq_crc (header_bytes n nr tb tc @ body))"
  show ?thesis
  proof (cases "i < 11 + length body")
    case True
    let ?p = "?h @ body"
    have "file ! i = (?p @ ?crc) ! i" using assms(4) by simp
    also have "\<dots> = ?p ! i" by (rule nth_append_left) (use True in simp)
    finally have i: "i < length ?p" "v \<noteq> ?p ! i" using True assms(3) by simp_all
    have "length (take 7 (drop 4 (?p[i := v]))) = 7" using True by simp
    then obtain nr' tb' tc' where m: "take 7 (drop 4 (?p[i := v])) = bytes_of_U32 nr' @ bytes_of_U16 tb' @ [tc']"
      by (rule header_rest)
    have "take 4 (?p[i := v]) = bytes_of_U32 n"
      using assms(1) by (simp add: take_update_cancel header_bytes_def)
    then have p: "?p[i := v] = header_bytes n nr' tb' tc' @ drop 11 (?p[i := v])"
      using split_4_7 [of "?p[i := v]"] m by (simp add: header_bytes_def)
    show ?thesis
    proof (rule that [of nr' tb' tc' "drop 11 (?p[i := v])" "seq_crc ?p"])
      show "file[i := v] = header_bytes n nr' tb' tc' @ drop 11 (?p[i := v]) @ bytes_of_U32 (seq_crc ?p)"
        using p i(1) assms(4) by (metis append.assoc list_update_append1)
      show "seq_crc ?p \<noteq> seq_crc (header_bytes n nr' tb' tc' @ drop 11 (?p[i := v]))"
        using seq_crc_one_byte [OF i] p by metis
    qed simp
  next
    case False
    let ?k = "i - 11 - length body"
    have lo: "\<not> i < 11" "\<not> i - 11 < length body" using False by simp_all
    then have k: "?k < 4" "v \<noteq> ?crc ! ?k"
      using False assms(2-4) by (auto simp: nth_append)
    have "length (?crc[?k := v]) = 4" by simp
    then obtain crc' where c: "?crc[?k := v] = bytes_of_U32 crc'" by (rule four_bytes)
    have "?crc[?k := v] \<noteq> ?crc" using k by (metis length_bytes_of(3) nth_list_update_eq)
    then have "crc' \<noteq> seq_crc (?h @ body)" using c by metis
    moreover have "file[i := v] = ?h @ body @ bytes_of_U32 crc'"
      using lo assms(4) c by (simp add: list_update_append)
    ultimately show ?thesis using that by blast
  qed
qed

lemma loadFile_corrupted:
  assumes "seq_wf s" "length body + 4 \<le> length (m_data (m_buffer s))" "unat n = length body + 4"
    "opens (kernel E) (CmdStringArg_of fileName) fd"
    "serves (kernel E) fd (header_bytes n nr tb tc @ body @ bytes_of_U32 crc @ extra)"
    "crc \<noteq> seq_crc (header_bytes n nr tb tc @ body)"
  obtains s' h' where "FPrime_loadFile E fileName (s, h) = Some (False, s', h')"
    "reported h (CS_FileCrcFailure (LogStringArg_of fileName) crc
       (seq_crc (header_bytes n nr tb tc @ body))) h'"
    "seq_wf s'" "unread (m_buffer s') = body" "hd_timeBase (m_header s') = tb"
    "hd_timeContext (m_header s') = tc" "h_ticks h' = h_ticks h"
proof -
  let ?s = "setFileName s fileName"
  obtain s1 t where r: "readFile E (?s, h) = Some (True, s1, h\<lparr>h_calls := t\<rparr>)"
    "m_stored s1 = crc" "m_computed s1 = seq_crc (header_bytes n nr tb tc @ body)"
    "m_logFileName s1 = m_logFileName ?s" "seq_wf s1" "at_start s1" "contents (m_buffer s1) = body"
    "m_header s1 = \<lparr>m_fileSize = n, m_numRecords = nr, hd_timeBase = tb, hd_timeContext = tc\<rparr>"
  proof (rule readFile_exact [of ?s E fd n nr tb tc body crc extra h])
    show "opens (kernel E) (m_fileName ?s) fd" using assms(4) by (simp add: setFileName_def)
  qed (use assms in simp_all)
  let ?h = "fileCRCFailure (LogStringArg_of fileName) crc
    (seq_crc (header_bytes n nr tb tc @ body)) (h\<lparr>h_calls := t\<rparr>)"
  have "\<not> m_null (m_buffer s)" using assms(1) by (simp add: seq_wf_def)
  then have "FPrime_loadFile E fileName (s, h) = Some (False, s1, ?h)"
    using r(1-4) assms(6)
    by (simp add: FPrime_loadFile_def and_then_def validateCRC_def setFileName_def)
  moreover have "reported h (CS_FileCrcFailure (LogStringArg_of fileName) crc
      (seq_crc (header_bytes n nr tb tc @ body))) ?h"
    by (rule reported_events(1) [of "h\<lparr>h_calls := t\<rparr>", unfolded reported_calls])
  ultimately show ?thesis
    by (rule that) (use r unread_at_start in \<open>simp_all add: host_simps\<close>)
qed

section \<open>Properties\<close>

text \<open>
  C38: Into a buffer of less than 2^30 bytes, \<open>loadFile\<close> returns for every file and every way the kernel delivers
  or refuses it, as long as no read is interrupted by a signal: no assertion fails and no access leaves the buffer. When
  it returns true it has reported nothing and the buffer holds exactly as many well-formed records
  as the header announces, at the beginning; when it returns false it has reported exactly one
  event, and the sequence keeps its buffer.
\<close>

theorem loadFile_total:
  assumes "seq_wf s" "read_calm (kernel E)"
  shows "\<exists>ok s' h'. FPrime_loadFile E fileName (s, h) = Some (ok, s', h') \<and> seq_wf s' \<and>
    length (m_data (m_buffer s')) = length (m_data (m_buffer s)) \<and>
    (if ok then (\<exists>rs. represents s' rs rs \<and> length rs = unat (m_numRecords (m_header s'))) \<and>
       h_outs h' = h_outs h \<and> m_errorCount h' = m_errorCount h
     else \<exists>ev. h_outs h' = h_outs h @ [Log ev] \<and> m_errorCount h' = m_errorCount h \<or>
       h_outs h' = h_outs h @ [Log ev, Tlm_Errors (m_errorCount h + 1)] \<and>
       m_errorCount h' = m_errorCount h + 1)"
  by (rule FPrime_loadFile_total [OF assms, of fileName h])
    (auto simp: loaded_def reports_def reported_def split: if_splits)

text \<open>A sequence with a buffer, and a kernel that serves one file in pieces.\<close>

definition demo_sequence :: FPrimeSequence where
  "demo_sequence = FPrimeSequence_new\<lparr>m_buffer := SerializeBufferBase_new (replicate 64 0)\<rparr>"

definition demo_env :: "U8 list \<Rightarrow> env" where
  "demo_env file = \<lparr>kernel = piecewise_kernel file, clock = (\<lambda>n. Time_make 2 0 (of_nat n) 0)\<rparr>"

definition demo_host :: host where
  "demo_host = \<lparr>h_outs = [], m_errorCount = 0, h_calls = 0, h_ticks = 0\<rparr>"

lemma demo_facts [simp]:
  "seq_wf demo_sequence" "length (m_data (m_buffer demo_sequence)) = 64"
  "read_calm (kernel (demo_env file))" "serves (kernel (demo_env file)) 5 file"
  "opens (kernel (demo_env file)) nm 5" "h_outs demo_host = []" "m_errorCount demo_host = 0"
  by (simp_all add: demo_sequence_def demo_env_def demo_host_def seq_wf_def ser_wf_def
      SerializeBufferBase_new_def FPrimeSequence_new_def piecewise_serves opens_def
      serves_calm [OF piecewise_serves])
    (simp add: piecewise_kernel_def)

theorem loadFile_total_witness:
  "\<exists>ok s' h'. FPrime_loadFile (demo_env [0, 0, 0]) ''seq.bin'' (demo_sequence, demo_host) =
      Some (ok, s', h') \<and> seq_wf s'"
  using loadFile_total [of demo_sequence "demo_env [0, 0, 0]" "''seq.bin''" demo_host] by auto

text \<open>
  C2: A well-formed sequence file that fits the buffer, which has less than 2^30 bytes, its time base and context being those
  of the clock or \<open>DONT_CARE\<close>, loads however the kernel cuts the reads, whatever follows it in the
  file; then \<open>hasMoreRecords\<close> and \<open>nextRecord\<close> deliver exactly the records the file was made of, in
  order, without a failed assertion, and report the end; after \<open>reset\<close> they deliver them again.
\<close>

theorem sequence_file_roundtrip:
  assumes "seq_wf s" "\<forall>r \<in> set rs. seq_rec_ok r"
    "length (concat (map rec_bytes rs)) + 4 \<le> length (m_data (m_buffer s))"
    "opens (kernel E) (CmdStringArg_of fileName) fd"
    "serves (kernel E) fd (seq_file tb tc rs @ extra)"
    "clock_accepts (clock E (h_ticks h)) tb tc" "com_wf rcd"
  shows "\<exists>s' h' rcds s''. FPrime_loadFile E fileName (s, h) = Some (True, s', h') \<and>
    h_outs h' = h_outs h \<and>
    hd_timeBase (m_header s') = m_timeBase (clock E (h_ticks h)) \<and>
    hd_timeContext (m_header s') = m_timeContext (clock E (h_ticks h)) \<and>
    drain FPrime_ops (length rs) s' rcd = Some (rcds, s'') \<and> list_all2 holds_record rcds rs \<and>
    \<not> FPrime_hasMoreRecords s'' \<and>
    (\<exists>again s3. drain FPrime_ops (length rs) (FPrime_reset s'') rcd = Some (again, s3) \<and>
       list_all2 holds_record again rs)"
proof -
  obtain s' h' where l: "FPrime_loadFile E fileName (s, h) = Some (True, s', h')"
    "represents s' rs rs" "h_outs h' = h_outs h"
    "hd_timeBase (m_header s') = m_timeBase (clock E (h_ticks h))"
    "hd_timeContext (m_header s') = m_timeContext (clock E (h_ticks h))"
    by (rule loadFile_wellformed [OF assms(1-6)])
  obtain rcds s'' where d: "drain FPrime_ops (length rs) s' rcd = Some (rcds, s'')"
    "list_all2 holds_record rcds rs" "represents s'' rs []"
    using fprime.drain_all [OF l(2) assms(7)] by blast
  have "\<exists>again s3. drain FPrime_ops (length rs) (FPrime_reset s'') rcd = Some (again, s3) \<and>
      list_all2 holds_record again rs"
    using fprime.drain_all [OF represents_reset [OF d(3)] assms(7)] by blast
  moreover have "\<not> FPrime_hasMoreRecords s''" using represents_nonempty [OF d(3)] by simp
  ultimately show ?thesis using l d by blast
qed

theorem sequence_file_roundtrip_witness:
  "\<exists>s' h' rcds s''. FPrime_loadFile (demo_env (seq_file 2 0 [SeqCmd False 1 500 [9, 8, 7], SeqEnd] @ [42]))
      ''seq.bin'' (demo_sequence, demo_host) = Some (True, s', h') \<and>
    drain FPrime_ops 2 s' Record_new = Some (rcds, s'') \<and>
    list_all2 holds_record rcds [SeqCmd False 1 500 [9, 8, 7], SeqEnd]"
proof -
  have "clock_accepts (clock (demo_env content) (h_ticks demo_host)) 2 0" for content
    by (simp add: clock_accepts_def demo_env_def demo_host_def)
  then show ?thesis
    using sequence_file_roundtrip [of demo_sequence "[SeqCmd False 1 500 [9, 8, 7], SeqEnd]"
        "demo_env (seq_file 2 0 [SeqCmd False 1 500 [9, 8, 7], SeqEnd] @ [42])" "''seq.bin''" 5 2 0
        "[42]" demo_host Record_new]
    by (fastforce simp: seq_rec_ok_def numeral_2_eq_2)
qed

text \<open>
  C10: A sequence file with any one byte changed, be it in the record count, the clock fields, the
  records or the stored CRC itself, is refused: \<open>loadFile\<close> returns false, having reported a CRC
  failure with the stored and the computed CRC, which differ, and counted one error. (Only the
  size field, which decides how much is read, is left out; the buffer holds the records and has less than 2^30 bytes.)
\<close>

theorem corrupted_byte_detected:
  assumes "seq_wf s" "length (concat (map rec_bytes rs)) + 4 \<le> length (m_data (m_buffer s))"
    "opens (kernel E) (CmdStringArg_of fileName) fd"
    "serves (kernel E) fd ((seq_file tb tc rs)[i := v])"
    "4 \<le> i" "i < length (seq_file tb tc rs)" "v \<noteq> seq_file tb tc rs ! i"
  shows "\<exists>s' h' stored computed. FPrime_loadFile E fileName (s, h) = Some (False, s', h') \<and>
    stored \<noteq> computed \<and> m_errorCount h' = m_errorCount h + 1 \<and>
    h_outs h' = h_outs h @ [Log (CS_FileCrcFailure (LogStringArg_of fileName) stored computed),
                            Tlm_Errors (m_errorCount h + 1)]"
proof -
  let ?body = "concat (map rec_bytes rs)" and ?file = "seq_file tb tc rs"
  let ?n = "of_nat (length ?body + 4) :: U32"
  have whole: "?file = header_bytes ?n (of_nat (length rs)) tb tc @ ?body @
      bytes_of_U32 (seq_crc (header_bytes ?n (of_nat (length rs)) tb tc @ ?body))"
    by (simp add: seq_file_def Let_def)
  have "length ?file = 11 + length ?body + 4"
    using arg_cong [OF whole, of length] by simp
  then have "i < 11 + length ?body + 4" using assms(6) by simp
  from corrupted_shape [OF assms(5) this assms(7) whole] obtain nr' tb' tc' body' crc'
    where f: "?file[i := v] = header_bytes ?n nr' tb' tc' @ body' @ bytes_of_U32 crc'"
      "length body' = length ?body" "crc' \<noteq> seq_crc (header_bytes ?n nr' tb' tc' @ body')" .
  have n: "unat ?n = length body' + 4" using seq_file_sizes(1) [OF assms(2,1)] f(2) by simp
  have s: "serves (kernel E) fd (header_bytes ?n nr' tb' tc' @ body' @ bytes_of_U32 crc' @ [])"
    using assms(4) f(1) by simp
  have b: "length body' + 4 \<le> length (m_data (m_buffer s))" using assms(2) f(2) by simp
  obtain s' h' where "FPrime_loadFile E fileName (s, h) = Some (False, s', h')"
    "reported h (CS_FileCrcFailure (LogStringArg_of fileName) crc'
       (seq_crc (header_bytes ?n nr' tb' tc' @ body'))) h'"
    by (rule loadFile_corrupted [OF assms(1) b n assms(3) s f(3)])
  with f(3) show ?thesis unfolding reported_def by blast
qed

theorem corrupted_byte_detected_witness:
  "\<exists>s' h' stored computed.
    FPrime_loadFile (demo_env ((seq_file 2 0 [SeqCmd False 1 500 [9, 8, 7]])[24 := 1])) ''seq.bin''
      (demo_sequence, demo_host) = Some (False, s', h') \<and> stored \<noteq> computed \<and>
    m_errorCount h' = 1 \<and> h_outs h' = [Log (CS_FileCrcFailure ''seq.bin'' stored computed), Tlm_Errors 1]"
proof -
  have "seq_file 2 0 [SeqCmd False 1 500 [9, 8, 7]] ! 24 = 9"
    "24 < length (seq_file 2 0 [SeqCmd False 1 500 [9, 8, 7]])"
    by (simp_all add: seq_file_def Let_def nth_append header_bytes_def nth_Cons')
  then show ?thesis
    using corrupted_byte_detected [of demo_sequence "[SeqCmd False 1 500 [9, 8, 7]]"
        "demo_env ((seq_file 2 0 [SeqCmd False 1 500 [9, 8, 7]])[24 := 1])" "''seq.bin''" 5 2 0 24 1
        demo_host]
    by (simp add: LogStringArg_of_def string_copy_def)
qed

end
