(* ===== verification/Cmd_Sequencer.thy ===== *)
theory Cmd_Sequencer
  imports Cmd_Sequence
begin

text \<open>
  Svc/CmdSequencer/CmdSequencerImpl.cpp: the component that runs command sequences. The state is
  the members of the class, with the sequence \<open>m_sequence\<close> of some format \<open>ops\<close>; a handler takes
  the state to the next one, or to \<^const>\<open>None\<close> when an assertion fails. Output ports, events and
  telemetry append to \<open>h_outs\<close> of the host.
\<close>

section \<open>State\<close>

datatype RunMode = STOPPED | RUNNING
datatype StepMode = AUTO | MANUAL
datatype BlockState = BLOCK | NO_BLOCK
datatype TimerState = SET | CLEAR

record Timer =
  m_state :: TimerState
  expirationTime :: Time

record 's CmdSequencer =
  m_host :: host
  m_sequence :: 's
  m_loadCmdCount :: U32
  m_cancelCmdCount :: U32
  m_runMode :: RunMode
  m_stepMode :: StepMode
  m_record :: Record
  m_cmdTimer :: Timer
  m_executedCount :: U32
  m_totalExecutedCount :: U32
  m_sequencesCompletedCount :: U32
  m_timeout :: U32
  m_cmdTimeoutTimer :: Timer
  m_blockState :: BlockState
  m_opCode :: U32
  m_cmdSeq :: U32
  m_join_waiting :: bool
  seqDone_connected :: bool

subsection \<open>Timer\<close>

definition Timer_new :: Timer where
  "Timer_new = \<lparr>m_state = CLEAR, expirationTime = Time_new\<rparr>"

definition Timer_set :: "Timer \<Rightarrow> Time \<Rightarrow> Timer" where
  "Timer_set tm time = tm\<lparr>m_state := SET, expirationTime := time\<rparr>"

definition Timer_clear :: "Timer \<Rightarrow> Timer" where
  "Timer_clear tm = tm\<lparr>m_state := CLEAR\<rparr>"

definition isExpiredAt :: "Timer \<Rightarrow> Time \<Rightarrow> bool" where
  "isExpiredAt tm time =
     (if m_state tm = CLEAR then False
      else if Time_compare (expirationTime tm) time = GT then False
      else True)"

subsection \<open>Construction\<close>

definition CmdSequencer_new :: "'s \<Rightarrow> bool \<Rightarrow> 's CmdSequencer" where
  "CmdSequencer_new sequence connected =
     \<lparr>m_host = \<lparr>h_outs = [], m_errorCount = 0, h_calls = 0, h_ticks = 0\<rparr>,
      m_sequence = sequence, m_loadCmdCount = 0, m_cancelCmdCount = 0, m_runMode = STOPPED,
      m_stepMode = AUTO, m_record = Record_new, m_cmdTimer = Timer_new, m_executedCount = 0,
      m_totalExecutedCount = 0, m_sequencesCompletedCount = 0, m_timeout = 0,
      m_cmdTimeoutTimer = Timer_new, m_blockState = NO_BLOCK, m_opCode = 0, m_cmdSeq = 0,
      m_join_waiting = False, seqDone_connected = connected\<rparr>"

definition setTimeout :: "U32 \<Rightarrow> 's CmdSequencer \<Rightarrow> 's CmdSequencer" where
  "setTimeout timeout c = c\<lparr>m_timeout := timeout\<rparr>"

definition setSequenceFormat :: "'s \<Rightarrow> 's CmdSequencer \<Rightarrow> 's CmdSequencer" where
  "setSequenceFormat sequence c = c\<lparr>m_sequence := sequence\<rparr>"

section \<open>Output ports, events, telemetry\<close>

definition out :: "cs_out \<Rightarrow> 's CmdSequencer \<Rightarrow> 's CmdSequencer" where
  "out x c = c\<lparr>m_host := emit x (m_host c)\<rparr>"

definition event :: "cs_event \<Rightarrow> 's CmdSequencer \<Rightarrow> 's CmdSequencer" where
  "event ev c = out (Log ev) c"

definition cmdResponse_out :: "U32 \<Rightarrow> U32 \<Rightarrow> CmdResponse \<Rightarrow> 's CmdSequencer \<Rightarrow> 's CmdSequencer" where
  "cmdResponse_out opCode cmdSeq response c = out (CmdResponse_out opCode cmdSeq response) c"

text \<open>Invoking an output port that is not connected is a failed assertion.\<close>

definition seqDone_out :: "CmdResponse \<Rightarrow> 's CmdSequencer \<Rightarrow> 's CmdSequencer option" where
  "seqDone_out response c = do {
     fw_assert (seqDone_connected c);
     Some (out (SeqDone_out response) c)
   }"

definition seqDone_if_connected :: "CmdResponse \<Rightarrow> 's CmdSequencer \<Rightarrow> 's CmdSequencer" where
  "seqDone_if_connected response c =
     (if seqDone_connected c then out (SeqDone_out response) c else c)"

definition comCmdOut_out :: "'s CmdSequencer \<Rightarrow> 's CmdSequencer" where
  "comCmdOut_out c = out (ComCmd_out (contents (m_command (m_record c)))) c"

definition error_count :: "'s CmdSequencer \<Rightarrow> 's CmdSequencer" where
  "error_count c = c\<lparr>m_host := cs_error (m_host c)\<rparr>"

definition component_getTime :: "env \<Rightarrow> 's CmdSequencer \<Rightarrow> Time \<times> 's CmdSequencer" where
  "component_getTime E c = (case getTime E (m_host c) of (now, h) \<Rightarrow> (now, c\<lparr>m_host := h\<rparr>))"

section \<open>Helper methods\<close>

definition loadFile ::
  "'s Sequence_ops \<Rightarrow> env \<Rightarrow> string \<Rightarrow> 's CmdSequencer \<Rightarrow> (bool \<times> 's CmdSequencer) option" where
  "loadFile ops E fileName c = do {
     (status, s, h) \<leftarrow> op_loadFile ops E fileName (m_sequence c, m_host c);
     let c = c\<lparr>m_sequence := s, m_host := h\<rparr>;
     if status then
       let c = event (CS_SequenceLoaded (op_getLogFileName ops (m_sequence c))) c;
           c = c\<lparr>m_loadCmdCount := m_loadCmdCount c + 1\<rparr>;
           c = out (Tlm_LoadCommands (m_loadCmdCount c)) c
       in Some (status, c)
     else Some (status, c)
   }"

definition loadSequence ::
  "'s Sequence_ops \<Rightarrow> env \<Rightarrow> string \<Rightarrow> 's CmdSequencer \<Rightarrow> 's CmdSequencer option" where
  "loadSequence ops E fileName c = do {
     fw_assert (m_runMode c = STOPPED);
     (status, c) \<leftarrow> loadFile ops E (CmdStringArg_of fileName) c;
     Some (if status then c else c\<lparr>m_sequence := op_clear ops (m_sequence c)\<rparr>)
   }"

definition requireRunMode :: "RunMode \<Rightarrow> 's CmdSequencer \<Rightarrow> bool \<times> 's CmdSequencer" where
  "requireRunMode mode c =
     (if m_runMode c = mode then (True, c) else (False, event CS_InvalidMode c))"

definition commandError ::
  "'s Sequence_ops \<Rightarrow> U32 \<Rightarrow> U32 \<Rightarrow> CmdResponse \<Rightarrow> 's CmdSequencer \<Rightarrow> 's CmdSequencer" where
  "commandError ops number opCode err c =
     error_count (event (CS_CommandError (op_getLogFileName ops (m_sequence c)) number opCode err) c)"

definition commandComplete :: "'s Sequence_ops \<Rightarrow> U32 \<Rightarrow> 's CmdSequencer \<Rightarrow> 's CmdSequencer" where
  "commandComplete ops opcode c =
     (let c = event (CS_CommandComplete (op_getLogFileName ops (m_sequence c))
                       (m_executedCount c) opcode) c;
          c = c\<lparr>m_executedCount := m_executedCount c + 1,
                m_totalExecutedCount := m_totalExecutedCount c + 1\<rparr>
      in out (Tlm_CommandsExecuted (m_totalExecutedCount c)) c)"

definition performCmd_Cancel :: "'s Sequence_ops \<Rightarrow> 's CmdSequencer \<Rightarrow> 's CmdSequencer" where
  "performCmd_Cancel ops c =
     (let c = c\<lparr>m_sequence := op_reset ops (m_sequence c), m_runMode := STOPPED,
                m_cmdTimer := Timer_clear (m_cmdTimer c),
                m_cmdTimeoutTimer := Timer_clear (m_cmdTimeoutTimer c), m_executedCount := 0\<rparr>;
          c = seqDone_if_connected EXECUTION_ERROR c;
          c = (if m_blockState c = BLOCK \<or> m_join_waiting c
               then cmdResponse_out (m_opCode c) (m_cmdSeq c) EXECUTION_ERROR
                      (c\<lparr>m_join_waiting := False\<rparr>)
               else c)
      in c\<lparr>m_blockState := NO_BLOCK\<rparr>)"

definition sequenceComplete :: "'s Sequence_ops \<Rightarrow> 's CmdSequencer \<Rightarrow> 's CmdSequencer" where
  "sequenceComplete ops c =
     (let c = c\<lparr>m_sequencesCompletedCount := m_sequencesCompletedCount c + 1,
                m_sequence := op_clear ops (m_sequence c)\<rparr>;
          c = event (CS_SequenceComplete (op_getLogFileName ops (m_sequence c))) c;
          c = out (Tlm_SequencesCompleted (m_sequencesCompletedCount c)) c;
          c = c\<lparr>m_executedCount := 0\<rparr>;
          c = seqDone_if_connected CmdResponse_OK c;
          c = (if m_blockState c = BLOCK \<or> m_join_waiting c
               then cmdResponse_out (m_opCode c) (m_cmdSeq c) CmdResponse_OK c else c)
      in c\<lparr>m_join_waiting := False, m_blockState := NO_BLOCK\<rparr>)"

definition setCmdTimeout :: "Time \<Rightarrow> 's CmdSequencer \<Rightarrow> 's CmdSequencer option" where
  "setCmdTimeout currentTime c =
     (if m_timeout c > 0 \<and> m_stepMode c = AUTO then do {
        expTime \<leftarrow> Time_add_sec currentTime (m_timeout c) 0;
        Some (c\<lparr>m_cmdTimeoutTimer := Timer_set (m_cmdTimeoutTimer c) expTime\<rparr>)
      }
      else Some c)"

definition performCmd_Step_ABSOLUTE :: "Time \<Rightarrow> 's CmdSequencer \<Rightarrow> 's CmdSequencer option" where
  "performCmd_Step_ABSOLUTE currentTime c =
     (if Time_ge currentTime (m_timeTag (m_record c))
      then setCmdTimeout currentTime (comCmdOut_out c)
      else Some (c\<lparr>m_cmdTimer := Timer_set (m_cmdTimer c) (m_timeTag (m_record c))\<rparr>))"

definition performCmd_Step_RELATIVE :: "Time \<Rightarrow> 's CmdSequencer \<Rightarrow> 's CmdSequencer option" where
  "performCmd_Step_RELATIVE currentTime c = do {
     tag \<leftarrow> Time_add_sec (m_timeTag (m_record c)) (m_seconds currentTime) (m_useconds currentTime);
     performCmd_Step_ABSOLUTE currentTime (c\<lparr>m_record := (m_record c)\<lparr>m_timeTag := tag\<rparr>\<rparr>)
   }"

definition performCmd_Step ::
  "'s Sequence_ops \<Rightarrow> env \<Rightarrow> 's CmdSequencer \<Rightarrow> 's CmdSequencer option" where
  "performCmd_Step ops E c = do {
     (rcd, s) \<leftarrow> op_nextRecord ops (m_sequence c) (m_record c);
     let header = op_getHeader ops s;
     let tag = setTimeContext (setTimeBase (m_timeTag rcd) (hd_timeBase header)) (hd_timeContext header);
     let c = c\<lparr>m_sequence := s, m_record := rcd\<lparr>m_timeTag := tag\<rparr>\<rparr>;
     (case component_getTime E c of (currentTime, c) \<Rightarrow>
       (case m_descriptor (m_record c) of
          END_OF_SEQUENCE \<Rightarrow> Some (sequenceComplete ops (c\<lparr>m_runMode := STOPPED\<rparr>))
        | RELATIVE \<Rightarrow> performCmd_Step_RELATIVE currentTime c
        | ABSOLUTE \<Rightarrow> performCmd_Step_ABSOLUTE currentTime c))
   }"

section \<open>Command handlers\<close>

definition CS_RUN_cmdHandler ::
  "'s Sequence_ops \<Rightarrow> env \<Rightarrow> U32 \<Rightarrow> U32 \<Rightarrow> string \<Rightarrow> BlockState \<Rightarrow> 's CmdSequencer
     \<Rightarrow> 's CmdSequencer option" where
  "CS_RUN_cmdHandler ops E opCode cmdSeq fileName block c =
     (case requireRunMode STOPPED c of (ok, c) \<Rightarrow>
        if \<not> ok then
          Some (cmdResponse_out opCode cmdSeq EXECUTION_ERROR
            (if m_join_waiting c then event CS_JoinWaitingNotComplete c else c))
        else do {
          let c = c\<lparr>m_blockState := block, m_cmdSeq := cmdSeq, m_opCode := opCode\<rparr>;
          (status, c) \<leftarrow> loadFile ops E fileName c;
          if \<not> status then Some (cmdResponse_out opCode cmdSeq EXECUTION_ERROR c)
          else do {
            let c = c\<lparr>m_executedCount := 0\<rparr>;
            c \<leftarrow> (if m_stepMode c = AUTO then performCmd_Step ops E (c\<lparr>m_runMode := RUNNING\<rparr>)
                  else Some c);
            Some (if m_blockState c = NO_BLOCK
                  then cmdResponse_out opCode cmdSeq CmdResponse_OK c else c)
          }
        })"

definition CS_VALIDATE_cmdHandler ::
  "'s Sequence_ops \<Rightarrow> env \<Rightarrow> U32 \<Rightarrow> U32 \<Rightarrow> string \<Rightarrow> 's CmdSequencer \<Rightarrow> 's CmdSequencer option" where
  "CS_VALIDATE_cmdHandler ops E opCode cmdSeq fileName c =
     (case requireRunMode STOPPED c of (ok, c) \<Rightarrow>
        if \<not> ok then Some (cmdResponse_out opCode cmdSeq EXECUTION_ERROR c)
        else do {
          (status, c) \<leftarrow> loadFile ops E fileName c;
          if \<not> status then Some (cmdResponse_out opCode cmdSeq EXECUTION_ERROR c)
          else
            let c = c\<lparr>m_sequence := op_clear ops (m_sequence c)\<rparr>;
                c = event (CS_SequenceValid (op_getLogFileName ops (m_sequence c))) c
            in Some (cmdResponse_out opCode cmdSeq CmdResponse_OK c)
        })"

definition CS_CANCEL_cmdHandler ::
  "'s Sequence_ops \<Rightarrow> U32 \<Rightarrow> U32 \<Rightarrow> 's CmdSequencer \<Rightarrow> 's CmdSequencer" where
  "CS_CANCEL_cmdHandler ops opCode cmdSeq c =
     (let c = (if m_runMode c = RUNNING then
                 let c = performCmd_Cancel ops c;
                     c = event (CS_SequenceCanceled (op_getLogFileName ops (m_sequence c))) c;
                     c = c\<lparr>m_cancelCmdCount := m_cancelCmdCount c + 1\<rparr>
                 in out (Tlm_CancelCommands (m_cancelCmdCount c)) c
               else event CS_NoSequenceActive c)
      in cmdResponse_out opCode cmdSeq CmdResponse_OK c)"

definition CS_JOIN_WAIT_cmdHandler ::
  "'s Sequence_ops \<Rightarrow> U32 \<Rightarrow> U32 \<Rightarrow> 's CmdSequencer \<Rightarrow> 's CmdSequencer" where
  "CS_JOIN_WAIT_cmdHandler ops opCode cmdSeq c =
     (if m_runMode c \<noteq> RUNNING
      then cmdResponse_out opCode cmdSeq CmdResponse_OK (event CS_NoSequenceActive c)
      else let c = c\<lparr>m_join_waiting := True\<rparr>;
               c = event (CS_JoinWaiting (op_getLogFileName ops (m_sequence c))
                            (m_cmdSeq c) (m_opCode c)) c
           in c\<lparr>m_cmdSeq := cmdSeq, m_opCode := opCode\<rparr>)"

definition CS_START_cmdHandler ::
  "'s Sequence_ops \<Rightarrow> env \<Rightarrow> U32 \<Rightarrow> U32 \<Rightarrow> 's CmdSequencer \<Rightarrow> 's CmdSequencer option" where
  "CS_START_cmdHandler ops E opcode cmdSeq c =
     (if \<not> op_hasMoreRecords ops (m_sequence c)
      then Some (cmdResponse_out opcode cmdSeq EXECUTION_ERROR (event CS_NoSequenceActive c))
      else (case requireRunMode STOPPED c of (ok, c) \<Rightarrow>
        if \<not> ok then Some (cmdResponse_out opcode cmdSeq EXECUTION_ERROR c)
        else do {
          c \<leftarrow> performCmd_Step ops E (c\<lparr>m_blockState := NO_BLOCK, m_runMode := RUNNING\<rparr>);
          let c = event (CS_CmdStarted (op_getLogFileName ops (m_sequence c))) c;
          Some (cmdResponse_out opcode cmdSeq CmdResponse_OK c)
        }))"

definition CS_STEP_cmdHandler ::
  "'s Sequence_ops \<Rightarrow> env \<Rightarrow> U32 \<Rightarrow> U32 \<Rightarrow> 's CmdSequencer \<Rightarrow> 's CmdSequencer option" where
  "CS_STEP_cmdHandler ops E opcode cmdSeq c =
     (case requireRunMode RUNNING c of (ok, c) \<Rightarrow>
        if ok then do {
          c \<leftarrow> performCmd_Step ops E c;
          let c = (if m_runMode c \<noteq> STOPPED
                   then event (CS_CmdStepped (op_getLogFileName ops (m_sequence c))
                                 (m_executedCount c)) c
                   else c);
          Some (cmdResponse_out opcode cmdSeq CmdResponse_OK c)
        }
        else Some (cmdResponse_out opcode cmdSeq EXECUTION_ERROR c))"

definition CS_AUTO_cmdHandler :: "U32 \<Rightarrow> U32 \<Rightarrow> 's CmdSequencer \<Rightarrow> 's CmdSequencer" where
  "CS_AUTO_cmdHandler opcode cmdSeq c =
     (case requireRunMode STOPPED c of (ok, c) \<Rightarrow>
        if ok then cmdResponse_out opcode cmdSeq CmdResponse_OK
                     (event (CS_ModeSwitched SeqMode_AUTO) (c\<lparr>m_stepMode := AUTO\<rparr>))
        else cmdResponse_out opcode cmdSeq EXECUTION_ERROR c)"

definition CS_MANUAL_cmdHandler :: "U32 \<Rightarrow> U32 \<Rightarrow> 's CmdSequencer \<Rightarrow> 's CmdSequencer" where
  "CS_MANUAL_cmdHandler opcode cmdSeq c =
     (case requireRunMode STOPPED c of (ok, c) \<Rightarrow>
        if ok then cmdResponse_out opcode cmdSeq CmdResponse_OK
                     (event (CS_ModeSwitched SeqMode_STEP) (c\<lparr>m_stepMode := MANUAL\<rparr>))
        else cmdResponse_out opcode cmdSeq EXECUTION_ERROR c)"

section \<open>Port handlers\<close>

definition seqRunIn_handler ::
  "'s Sequence_ops \<Rightarrow> env \<Rightarrow> string \<Rightarrow> 's CmdSequencer \<Rightarrow> 's CmdSequencer option" where
  "seqRunIn_handler ops E filename c =
     (case requireRunMode STOPPED c of (ok, c) \<Rightarrow>
        if \<not> ok then seqDone_out EXECUTION_ERROR c
        else do {
          (go, c) \<leftarrow>
            (if filename \<noteq> '''' then loadFile ops E (CmdStringArg_of filename) c
             else if \<not> op_hasMoreRecords ops (m_sequence c)
             then Some (False, error_count (event CS_NoSequenceActive c))
             else Some (True, c));
          if \<not> go then seqDone_out EXECUTION_ERROR c
          else do {
            let c = c\<lparr>m_executedCount := 0\<rparr>;
            c \<leftarrow> (if m_stepMode c = AUTO then performCmd_Step ops E (c\<lparr>m_runMode := RUNNING\<rparr>)
                  else Some c);
            Some (event (CS_PortSequenceStarted (op_getLogFileName ops (m_sequence c))) c)
          }
        })"

definition seqCancelIn_handler :: "'s Sequence_ops \<Rightarrow> 's CmdSequencer \<Rightarrow> 's CmdSequencer" where
  "seqCancelIn_handler ops c =
     (if m_runMode c = RUNNING then
        let c = performCmd_Cancel ops c;
            c = event (CS_SequenceCanceled (op_getLogFileName ops (m_sequence c))) c;
            c = c\<lparr>m_cancelCmdCount := m_cancelCmdCount c + 1\<rparr>
        in out (Tlm_CancelCommands (m_cancelCmdCount c)) c
      else event CS_NoSequenceActive c)"

definition cmdResponseIn_handler ::
  "'s Sequence_ops \<Rightarrow> env \<Rightarrow> U32 \<Rightarrow> U32 \<Rightarrow> CmdResponse \<Rightarrow> 's CmdSequencer
     \<Rightarrow> 's CmdSequencer option" where
  "cmdResponseIn_handler ops E opcode cmdSeq response c =
     (if m_runMode c = STOPPED then Some (event (CS_UnexpectedCompletion opcode) c)
      else
        let c = c\<lparr>m_cmdTimeoutTimer := Timer_clear (m_cmdTimeoutTimer c)\<rparr> in
        if response \<noteq> CmdResponse_OK
        then Some (performCmd_Cancel ops (commandError ops (m_executedCount c) opcode response c))
        else if m_runMode c = RUNNING \<and> m_stepMode c = AUTO then
          let c = commandComplete ops opcode c in
          if \<not> op_hasMoreRecords ops (m_sequence c)
          then Some (sequenceComplete ops (c\<lparr>m_runMode := STOPPED\<rparr>))
          else performCmd_Step ops E c
        else
          let c = commandComplete ops opcode c in
          Some (if \<not> op_hasMoreRecords ops (m_sequence c)
                then sequenceComplete ops (c\<lparr>m_runMode := STOPPED\<rparr>) else c))"

definition schedIn_handler ::
  "'s Sequence_ops \<Rightarrow> env \<Rightarrow> 's CmdSequencer \<Rightarrow> 's CmdSequencer option" where
  "schedIn_handler ops E c =
     (case component_getTime E c of (currTime, c) \<Rightarrow>
        if isExpiredAt (m_cmdTimer c) currTime then
          let c = comCmdOut_out c;
              c = c\<lparr>m_cmdTimer := Timer_clear (m_cmdTimer c)\<rparr>
          in setCmdTimeout currTime c
        else (case component_getTime E c of (now, c) \<Rightarrow>
          if isExpiredAt (m_cmdTimeoutTimer c) now then
            Some (performCmd_Cancel ops
              (event (CS_SequenceTimeout (op_getLogFileName ops (m_sequence c))
                        (m_executedCount c)) c))
          else Some c))"

definition pingIn_handler :: "U32 \<Rightarrow> 's CmdSequencer \<Rightarrow> 's CmdSequencer" where
  "pingIn_handler key c = out (PingOut key) c"

section \<open>The message loop\<close>

text \<open>
  The component takes one message after the other off its queue. \<open>dispatch\<close> is the handler of
  a message.
\<close>

datatype message =
    CS_RUN U32 U32 string BlockState
  | CS_VALIDATE U32 U32 string
  | CS_CANCEL U32 U32
  | CS_JOIN_WAIT U32 U32
  | CS_START U32 U32
  | CS_STEP U32 U32
  | CS_AUTO U32 U32
  | CS_MANUAL U32 U32
  | seqRunIn string
  | seqCancelIn
  | cmdResponseIn U32 U32 CmdResponse
  | schedIn
  | pingIn U32

fun dispatch ::
  "'s Sequence_ops \<Rightarrow> env \<Rightarrow> message \<Rightarrow> 's CmdSequencer \<Rightarrow> 's CmdSequencer option" where
  "dispatch ops E (CS_RUN op sq f b) c = CS_RUN_cmdHandler ops E op sq (CmdStringArg_of f) b c"
| "dispatch ops E (CS_VALIDATE op sq f) c = CS_VALIDATE_cmdHandler ops E op sq (CmdStringArg_of f) c"
| "dispatch ops E (CS_CANCEL op sq) c = Some (CS_CANCEL_cmdHandler ops op sq c)"
| "dispatch ops E (CS_JOIN_WAIT op sq) c = Some (CS_JOIN_WAIT_cmdHandler ops op sq c)"
| "dispatch ops E (CS_START op sq) c = CS_START_cmdHandler ops E op sq c"
| "dispatch ops E (CS_STEP op sq) c = CS_STEP_cmdHandler ops E op sq c"
| "dispatch ops E (CS_AUTO op sq) c = Some (CS_AUTO_cmdHandler op sq c)"
| "dispatch ops E (CS_MANUAL op sq) c = Some (CS_MANUAL_cmdHandler op sq c)"
| "dispatch ops E (seqRunIn f) c = seqRunIn_handler ops E f c"
| "dispatch ops E seqCancelIn c = Some (seqCancelIn_handler ops c)"
| "dispatch ops E (cmdResponseIn op sq r) c = cmdResponseIn_handler ops E op sq r c"
| "dispatch ops E schedIn c = schedIn_handler ops E c"
| "dispatch ops E (pingIn k) c = Some (pingIn_handler k c)"

fun dispatch_all ::
  "'s Sequence_ops \<Rightarrow> env \<Rightarrow> message list \<Rightarrow> 's CmdSequencer \<Rightarrow> 's CmdSequencer option" where
  "dispatch_all ops E [] c = Some c"
| "dispatch_all ops E (m # ms) c = do { c \<leftarrow> dispatch ops E m c; dispatch_all ops E ms c }"

end
