(* ===== verification/Cmd_Sequencer_Runs.thy ===== *)
theory Cmd_Sequencer_Runs
  imports Cmd_Sequencer Fprime_Files
begin

text \<open>
  Runs of the command sequencer. The lemmas about one handler are proved once, over the contract
  of sequence formats; a run in automatic mode is an inductive relation, and its invariant ties
  the commands sent so far to the records of the sequence. The properties are stated for the
  F Prime format, through the interpretation of Fprime_Load.
\<close>

section \<open>What a run sends\<close>

fun commands_of :: "cs_out list \<Rightarrow> U8 list list" where
  "commands_of [] = []"
| "commands_of (ComCmd_out bs # outs) = bs # commands_of outs"
| "commands_of (_ # outs) = commands_of outs"

fun responses_of :: "cs_out list \<Rightarrow> (U32 \<times> U32 \<times> CmdResponse) list" where
  "responses_of [] = []"
| "responses_of (CmdResponse_out op sq r # outs) = (op, sq, r) # responses_of outs"
| "responses_of (_ # outs) = responses_of outs"

lemma commands_of_append [simp]: "commands_of (xs @ ys) = commands_of xs @ commands_of ys"
  by (induction xs rule: commands_of.induct) simp_all

lemma responses_of_append [simp]: "responses_of (xs @ ys) = responses_of xs @ responses_of ys"
  by (induction xs rule: responses_of.induct) simp_all

definition sent :: "'s CmdSequencer \<Rightarrow> U8 list list" where
  "sent c = commands_of (h_outs (m_host c))"

definition answered :: "'s CmdSequencer \<Rightarrow> (U32 \<times> U32 \<times> CmdResponse) list" where
  "answered c = responses_of (h_outs (m_host c))"

lemma sent_fields [simp]:
  "sent (c\<lparr>m_runMode := rm\<rparr>) = sent c" "answered (c\<lparr>m_runMode := rm\<rparr>) = answered c"
  by (simp_all add: sent_def answered_def)

text \<open>The commands of a sequence: those before the first end-of-sequence record.\<close>

fun seq_commands :: "seq_record list \<Rightarrow> U8 list list" where
  "seq_commands [] = []"
| "seq_commands (SeqEnd # rs) = []"
| "seq_commands (SeqCmd ab sec usec bs # rs) = bs # seq_commands rs"

text \<open>Outputs that are neither commands nor responses.\<close>

definition quiet :: "cs_out \<Rightarrow> bool" where
  "quiet x \<longleftrightarrow> commands_of [x] = [] \<and> responses_of [x] = []"

lemma quiet_simps [simp]:
  "quiet (Log ev)" "quiet (Tlm_LoadCommands a)" "quiet (Tlm_CancelCommands a)"
  "quiet (Tlm_Errors a)" "quiet (Tlm_CommandsExecuted a)" "quiet (Tlm_SequencesCompleted a)"
  "quiet (SeqDone_out r)" "quiet (PingOut k)"
  by (simp_all add: quiet_def)

section \<open>Fields after each helper\<close>

named_theorems cs_simps \<open>definitions of the helper methods of the sequencer\<close>

lemmas [cs_simps] = out_def event_def cmdResponse_out_def seqDone_out_def seqDone_if_connected_def
  comCmdOut_out_def error_count_def component_getTime_def getTime_def emit_def log_event_def
  cs_error_def requireRunMode_def commandError_def commandComplete_def performCmd_Cancel_def
  sequenceComplete_def sent_def answered_def Let_def

lemma reports_sent:
  "reports h h' \<Longrightarrow> commands_of (h_outs h') = commands_of (h_outs h) \<and>
     responses_of (h_outs h') = responses_of (h_outs h)"
  by (auto simp: reports_def reported_def)

text \<open>Cancelling: rewinds, stops both timers, answers whoever waits.\<close>

lemma performCmd_Cancel_fields:
  "m_runMode (performCmd_Cancel ops c) = STOPPED"
  "m_state (m_cmdTimer (performCmd_Cancel ops c)) = CLEAR"
  "m_state (m_cmdTimeoutTimer (performCmd_Cancel ops c)) = CLEAR"
  "m_sequence (performCmd_Cancel ops c) = op_reset ops (m_sequence c)"
  "m_stepMode (performCmd_Cancel ops c) = m_stepMode c"
  "m_record (performCmd_Cancel ops c) = m_record c"
  "m_executedCount (performCmd_Cancel ops c) = 0"
  "m_blockState (performCmd_Cancel ops c) = NO_BLOCK"
  "\<not> m_join_waiting (performCmd_Cancel ops c)"
  "m_sequencesCompletedCount (performCmd_Cancel ops c) = m_sequencesCompletedCount c"
  "sent (performCmd_Cancel ops c) = sent c"
  "answered (performCmd_Cancel ops c) = answered c @
     (if m_blockState c = BLOCK \<or> m_join_waiting c
      then [(m_opCode c, m_cmdSeq c, EXECUTION_ERROR)] else [])"
  "m_timeout (performCmd_Cancel ops c) = m_timeout c"
  by (simp_all add: cs_simps Timer_clear_def)

lemma sequenceComplete_fields:
  "m_runMode (sequenceComplete ops c) = m_runMode c"
  "m_cmdTimer (sequenceComplete ops c) = m_cmdTimer c"
  "m_cmdTimeoutTimer (sequenceComplete ops c) = m_cmdTimeoutTimer c"
  "m_sequence (sequenceComplete ops c) = op_clear ops (m_sequence c)"
  "m_stepMode (sequenceComplete ops c) = m_stepMode c"
  "m_record (sequenceComplete ops c) = m_record c"
  "m_blockState (sequenceComplete ops c) = NO_BLOCK"
  "\<not> m_join_waiting (sequenceComplete ops c)"
  "m_sequencesCompletedCount (sequenceComplete ops c) = m_sequencesCompletedCount c + 1"
  "sent (sequenceComplete ops c) = sent c"
  "answered (sequenceComplete ops c) = answered c @
     (if m_blockState c = BLOCK \<or> m_join_waiting c
      then [(m_opCode c, m_cmdSeq c, CmdResponse_OK)] else [])"
  "m_timeout (sequenceComplete ops c) = m_timeout c"
  "seqDone_connected (sequenceComplete ops c) = seqDone_connected c"
  by (simp_all add: cs_simps)

section \<open>One step of a sequence\<close>

definition normal_record :: "seq_record \<Rightarrow> bool" where
  "normal_record r = (case r of SeqEnd \<Rightarrow> True | SeqCmd ab sec usec bs \<Rightarrow> unat usec < 1000000)"

definition normal_clock :: "env \<Rightarrow> bool" where
  "normal_clock E \<longleftrightarrow> (\<forall>n. normalized (clock E n))"

definition keeps :: "'s CmdSequencer \<Rightarrow> 's CmdSequencer \<Rightarrow> bool" where
  "keeps c c' \<longleftrightarrow> m_runMode c' = m_runMode c \<and> m_stepMode c' = m_stepMode c \<and>
     m_blockState c' = m_blockState c \<and> m_opCode c' = m_opCode c \<and> m_cmdSeq c' = m_cmdSeq c \<and>
     m_join_waiting c' = m_join_waiting c \<and> m_timeout c' = m_timeout c \<and>
     m_sequencesCompletedCount c' = m_sequencesCompletedCount c \<and>
     seqDone_connected c' = seqDone_connected c \<and> answered c' = answered c"

lemma setCmdTimeout_total:
  assumes "normalized now"
  obtains tm where "setCmdTimeout now c = Some (c\<lparr>m_cmdTimeoutTimer := tm\<rparr>)"
proof (cases "m_timeout c > 0 \<and> m_stepMode c = AUTO")
  case True
  have "unat (0 :: U32) < 1000000" by simp
  from Time_add_sec_ok [OF assms this, of "m_timeout c"] True that show ?thesis
    by (auto simp: setCmdTimeout_def)
next
  case False
  then have "setCmdTimeout now c = Some (c\<lparr>m_cmdTimeoutTimer := m_cmdTimeoutTimer c\<rparr>)"
    unfolding setCmdTimeout_def by (simp only: if_False) simp
  then show ?thesis by (rule that)
qed

lemma performCmd_Step_ABSOLUTE_cases:
  assumes "normalized now"
  obtains (now) tm where "Time_ge now (m_timeTag (m_record c))"
      "performCmd_Step_ABSOLUTE now c = Some ((comCmdOut_out c)\<lparr>m_cmdTimeoutTimer := tm\<rparr>)"
  | (later) tm where "\<not> Time_ge now (m_timeTag (m_record c))"
      "performCmd_Step_ABSOLUTE now c = Some (c\<lparr>m_cmdTimer := tm\<rparr>)" "m_state tm = SET"
proof (cases "Time_ge now (m_timeTag (m_record c))")
  case True
  obtain tm where "setCmdTimeout now (comCmdOut_out c) =
      Some ((comCmdOut_out c)\<lparr>m_cmdTimeoutTimer := tm\<rparr>)"
    by (rule setCmdTimeout_total [OF assms])
  with True now show ?thesis by (simp add: performCmd_Step_ABSOLUTE_def)
next
  case False
  with later show ?thesis by (simp add: performCmd_Step_ABSOLUTE_def Timer_set_def)
qed

text \<open>
  The state in which the record has been fetched and the clock been read: all that differs from
  the state before is the sequence, the record and the clock count.
\<close>

definition fetched :: "'s CmdSequencer \<Rightarrow> 's \<Rightarrow> Record \<Rightarrow> Time \<Rightarrow> 's CmdSequencer" where
  "fetched c s rcd tag = c\<lparr>m_sequence := s, m_record := rcd\<lparr>m_timeTag := tag\<rparr>,
     m_host := (m_host c)\<lparr>h_ticks := h_ticks (m_host c) + 1\<rparr>\<rparr>"

lemma fetched_fields [simp]:
  "m_sequence (fetched c s rcd tag) = s" "m_cmdTimer (fetched c s rcd tag) = m_cmdTimer c"
  "m_cmdTimeoutTimer (fetched c s rcd tag) = m_cmdTimeoutTimer c"
  "m_record (fetched c s rcd tag) = rcd\<lparr>m_timeTag := tag\<rparr>" "sent (fetched c s rcd tag) = sent c"
  "keeps c (fetched c s rcd tag)"
  by (simp_all add: fetched_def sent_def keeps_def answered_def)

lemma fetched_retag [simp]:
  "(fetched c s rcd tag)\<lparr>m_record := (m_record (fetched c s rcd tag))\<lparr>m_timeTag := tag'\<rparr>\<rparr> =
    fetched c s rcd tag'"
  by (cases c) (simp add: fetched_def)

lemma performCmd_Step_fetched:
  assumes "op_nextRecord ops (m_sequence c) (m_record c) = Some (rcd, s)"
  shows "performCmd_Step ops E c = (
    let tag = setTimeContext (setTimeBase (m_timeTag rcd) (hd_timeBase (op_getHeader ops s)))
                (hd_timeContext (op_getHeader ops s));
        c1 = fetched c s rcd tag; now = clock E (h_ticks (m_host c))
    in case m_descriptor rcd of
         END_OF_SEQUENCE \<Rightarrow> Some (sequenceComplete ops (c1\<lparr>m_runMode := STOPPED\<rparr>))
       | RELATIVE \<Rightarrow> performCmd_Step_RELATIVE now c1
       | ABSOLUTE \<Rightarrow> performCmd_Step_ABSOLUTE now c1)"
  using assms
  by (simp add: performCmd_Step_def component_getTime_def getTime_def fetched_def Let_def
      split: Descriptor.split)

context sequence_format
begin

lemma step_cases:
  assumes "repr (m_sequence c) all (r # rest)" "com_wf (m_record c)" "normal_clock E"
    "normal_record r"
  obtains (ended) c1 where "r = SeqEnd" "keeps c c1" "repr (m_sequence c1) all rest"
      "com_wf (m_record c1)" "sent c1 = sent c" "m_cmdTimer c1 = m_cmdTimer c"
      "m_cmdTimeoutTimer c1 = m_cmdTimeoutTimer c"
      "performCmd_Step ops E c = Some (sequenceComplete ops (c1\<lparr>m_runMode := STOPPED\<rparr>))"
  | (issued) ab sec usec bs c' where "r = SeqCmd ab sec usec bs" "keeps c c'"
      "repr (m_sequence c') all rest" "com_wf (m_record c')" "sent c' = sent c @ [bs]"
      "m_cmdTimer c' = m_cmdTimer c" "performCmd_Step ops E c = Some c'"
  | (waiting) ab sec usec bs c' where "r = SeqCmd ab sec usec bs" "keeps c c'"
      "repr (m_sequence c') all rest" "com_wf (m_record c')" "sent c' = sent c"
      "m_state (m_cmdTimer c') = SET" "contents (m_command (m_record c')) = bs"
      "performCmd_Step ops E c = Some c'"
proof -
  from next_record [OF assms(1,2)] obtain rcd s where n:
    "op_nextRecord ops (m_sequence c) (m_record c) = Some (rcd, s)" "holds_record rcd r"
    "com_wf rcd" "repr s all rest" by blast
  let ?now = "clock E (h_ticks (m_host c))"
  have now: "normalized ?now" using assms(3) by (simp add: normal_clock_def)
  define tag where "tag = setTimeContext (setTimeBase (m_timeTag rcd)
    (hd_timeBase (op_getHeader ops s))) (hd_timeContext (op_getHeader ops s))"
  let ?c1 = "fetched c s rcd tag"
  note step = performCmd_Step_fetched [OF n(1), of E, folded tag_def, unfolded Let_def]
  show ?thesis
  proof (cases r)
    case SeqEnd
    show ?thesis by (rule ended [of ?c1]) (use SeqEnd n step in simp_all)
  next
    case r: (SeqCmd ab sec usec bs)
    text \<open>The record that is waited for: the fetched one, with the tag made absolute.\<close>
    have "\<exists>tag'. performCmd_Step ops E c =
        performCmd_Step_ABSOLUTE ?now (fetched c s rcd tag')"
    proof (cases ab)
      case True
      then have "performCmd_Step ops E c = performCmd_Step_ABSOLUTE ?now ?c1"
        using step n(2) r by simp
      then show ?thesis by blast
    next
      case False
      have "normalized tag"
        using assms(4) n(2) r
        by (simp add: tag_def normalized_def normal_record_def setTimeContext_def setTimeBase_def)
      from Time_add_sec_ok [OF this, of "m_useconds ?now" "m_seconds ?now"] now
      obtain tag' where "Time_add_sec tag (m_seconds ?now) (m_useconds ?now) = Some tag'"
        by (auto simp: normalized_def)
      then have "performCmd_Step ops E c =
          performCmd_Step_ABSOLUTE ?now (fetched c s rcd tag')"
        using False step n(2) r fetched_retag [where c=c and s=s and rcd=rcd and tag=tag and tag'=tag']
        by (simp add: performCmd_Step_RELATIVE_def)
      then show ?thesis by blast
    qed
    then obtain tag' where e: "performCmd_Step ops E c =
        performCmd_Step_ABSOLUTE ?now (fetched c s rcd tag')" ..
    let ?c2 = "fetched c s rcd tag'"
    show ?thesis
    proof (cases rule: performCmd_Step_ABSOLUTE_cases [OF now, of ?c2, case_names a b])
      case (a tm)
      show ?thesis
        by (rule issued [of ab sec usec bs "(comCmdOut_out ?c2)\<lparr>m_cmdTimeoutTimer := tm\<rparr>"])
          (use a(2) e n r in \<open>simp_all add: cs_simps fetched_def keeps_def\<close>)
    next
      case (b tm)
      show ?thesis
        by (rule waiting [of ab sec usec bs "?c2\<lparr>m_cmdTimer := tm\<rparr>"])
          (use b(2,3) e n r in \<open>simp_all add: cs_simps fetched_def keeps_def\<close>)
    qed
  qed
qed

end

section \<open>Runs in automatic mode\<close>

text \<open>
  What the sequencer may receive while it runs a sequence in automatic mode: anything except
  \<open>CS_STEP\<close> and responses to commands it has not sent. A command is awaiting its response when
  the sequencer runs and is not waiting for the time of the next record.
\<close>

definition awaiting :: "'s CmdSequencer \<Rightarrow> bool" where
  "awaiting c \<longleftrightarrow> m_runMode c = RUNNING \<and> m_state (m_cmdTimer c) = CLEAR"

fun allowed :: "message \<Rightarrow> 's CmdSequencer \<Rightarrow> bool" where
  "allowed (cmdResponseIn op sq r) c = awaiting c"
| "allowed (CS_STEP op sq) c = False"
| "allowed (CS_CANCEL op sq) c = True"
| "allowed (CS_JOIN_WAIT op sq) c = True"
| "allowed seqCancelIn c = True"
| "allowed schedIn c = True"
| "allowed (pingIn k) c = True"
| "allowed _ c = (m_runMode c = RUNNING)"

inductive auto_run ::
  "'s Sequence_ops \<Rightarrow> env \<Rightarrow> 's CmdSequencer \<Rightarrow> 's CmdSequencer \<Rightarrow> bool"
  for ops E c0 where
  auto_start: "auto_run ops E c0 c0"
| auto_step: "auto_run ops E c0 c \<Longrightarrow> allowed m c \<Longrightarrow> dispatch ops E m c = Some c' \<Longrightarrow>
    auto_run ops E c0 c'"

inductive_cases auto_runE: "auto_run ops E c0 c"

text \<open>
  The invariant of a run over the records \<open>all\<close>: the commands sent since the start (\<open>base\<close> and
  \<open>n0\<close> are the commands sent and the sequences completed before it) are those of the records
  \<open>pre\<close> already taken, less the one that waits for its time.
\<close>

definition run_issued ::
  "('s \<Rightarrow> seq_record list \<Rightarrow> seq_record list \<Rightarrow> bool) \<Rightarrow> seq_record list \<Rightarrow> U8 list list
     \<Rightarrow> 's CmdSequencer \<Rightarrow> bool" where
  "run_issued repr all base c \<longleftrightarrow> m_state (m_cmdTimer c) = CLEAR \<and>
     (\<exists>pre rest. all = pre @ rest \<and> repr (m_sequence c) all rest \<and> SeqEnd \<notin> set pre \<and>
        sent c = base @ seq_commands pre)"

definition run_waiting ::
  "('s \<Rightarrow> seq_record list \<Rightarrow> seq_record list \<Rightarrow> bool) \<Rightarrow> seq_record list \<Rightarrow> U8 list list
     \<Rightarrow> 's CmdSequencer \<Rightarrow> bool" where
  "run_waiting repr all base c \<longleftrightarrow> m_state (m_cmdTimer c) = SET \<and>
     (\<exists>pre ab sec usec rest. all = pre @ SeqCmd ab sec usec (contents (m_command (m_record c))) # rest \<and>
        repr (m_sequence c) all rest \<and> SeqEnd \<notin> set pre \<and> sent c = base @ seq_commands pre)"

definition run_inv ::
  "('s \<Rightarrow> bool) \<Rightarrow> ('s \<Rightarrow> seq_record list \<Rightarrow> seq_record list \<Rightarrow> bool) \<Rightarrow> seq_record list \<Rightarrow>
     U8 list list \<Rightarrow> U32 \<Rightarrow> 's CmdSequencer \<Rightarrow> bool" where
  "run_inv ok repr all base n0 c \<longleftrightarrow> com_wf (m_record c) \<and> m_stepMode c = AUTO \<and>
     (case m_runMode c of
        RUNNING \<Rightarrow> m_sequencesCompletedCount c = n0 \<and>
          (run_issued repr all base c \<or> run_waiting repr all base c)
      | STOPPED \<Rightarrow> ok (m_sequence c) \<and> m_state (m_cmdTimer c) = CLEAR \<and>
          m_state (m_cmdTimeoutTimer c) = CLEAR \<and>
          (m_sequencesCompletedCount c = n0 + 1 \<and> sent c = base @ seq_commands all \<or>
           m_sequencesCompletedCount c = n0 \<and> (\<exists>k. sent c = base @ take k (seq_commands all))))"

lemma seq_commands_append: "SeqEnd \<notin> set pre \<Longrightarrow> seq_commands (pre @ rest) = seq_commands pre @ seq_commands rest"
  by (induction pre rule: seq_commands.induct) auto

text \<open>Messages that only report: everything the invariant reads stays as it is.\<close>

definition same_run :: "'s CmdSequencer \<Rightarrow> 's CmdSequencer \<Rightarrow> bool" where
  "same_run c c' \<longleftrightarrow> m_sequence c' = m_sequence c \<and> m_record c' = m_record c \<and>
     m_runMode c' = m_runMode c \<and> m_stepMode c' = m_stepMode c \<and> m_cmdTimer c' = m_cmdTimer c \<and>
     m_cmdTimeoutTimer c' = m_cmdTimeoutTimer c \<and>
     m_sequencesCompletedCount c' = m_sequencesCompletedCount c \<and> sent c' = sent c \<and>
     seqDone_connected c' = seqDone_connected c"

lemma run_inv_same: "same_run c c' \<Longrightarrow> run_inv ok repr all base n0 c' = run_inv ok repr all base n0 c"
  by (cases "m_runMode c") (simp_all add: same_run_def run_inv_def run_issued_def run_waiting_def)

lemma running_refuses:
  assumes "m_runMode c = RUNNING" "seqDone_connected c" "allowed m c"
    "\<nexists>op sq r. m = cmdResponseIn op sq r" "m \<noteq> schedIn" "\<nexists>op sq. m = CS_CANCEL op sq" "m \<noteq> seqCancelIn"
  shows "\<exists>c'. dispatch ops E m c = Some c' \<and> same_run c c'"
proof (cases m)
  case (CS_RUN op sq f b)
  with assms(1) show ?thesis by (simp add: CS_RUN_cmdHandler_def cs_simps same_run_def)
next
  case (CS_VALIDATE op sq f)
  with assms(1) show ?thesis by (simp add: CS_VALIDATE_cmdHandler_def cs_simps same_run_def)
next
  case (CS_JOIN_WAIT op sq)
  with assms(1) show ?thesis by (simp add: CS_JOIN_WAIT_cmdHandler_def cs_simps same_run_def)
next
  case (CS_START op sq)
  with assms(1) show ?thesis by (simp add: CS_START_cmdHandler_def cs_simps same_run_def)
next
  case (CS_AUTO op sq)
  with assms(1) show ?thesis by (simp add: CS_AUTO_cmdHandler_def cs_simps same_run_def)
next
  case (CS_MANUAL op sq)
  with assms(1) show ?thesis by (simp add: CS_MANUAL_cmdHandler_def cs_simps same_run_def)
next
  case (seqRunIn f)
  with assms(1,2) show ?thesis by (simp add: seqRunIn_handler_def cs_simps same_run_def)
next
  case (pingIn k)
  then show ?thesis by (simp add: pingIn_handler_def cs_simps same_run_def)
qed (use assms(3-) in auto)

lemma run_progress:
  assumes "run_issued repr all base c \<or> run_waiting repr all base c"
  obtains k rest where "sent c = base @ take k (seq_commands all)" "repr (m_sequence c) all rest"
proof -
  from assms obtain pre rest rest' where p: "all = pre @ rest'" "SeqEnd \<notin> set pre"
    "sent c = base @ seq_commands pre" "repr (m_sequence c) all rest"
    unfolding run_issued_def run_waiting_def by blast
  have "sent c = base @ take (length (seq_commands pre)) (seq_commands all)"
    using p by (simp add: seq_commands_append)
  with p(4) that show ?thesis by blast
qed

text \<open>A stopped sequencer only reports until it is started again.\<close>

lemma stopped_reports:
  assumes "m_runMode c = STOPPED" "m_state (m_cmdTimer c) = CLEAR"
    "m_state (m_cmdTimeoutTimer c) = CLEAR" "allowed m c"
  shows "\<exists>c'. dispatch ops E m c = Some c' \<and> same_run c c'"
proof (cases m)
  case (CS_CANCEL op sq)
  with assms show ?thesis by (simp add: CS_CANCEL_cmdHandler_def cs_simps same_run_def)
next
  case (CS_JOIN_WAIT op sq)
  with assms show ?thesis by (simp add: CS_JOIN_WAIT_cmdHandler_def cs_simps same_run_def)
next
  case seqCancelIn
  with assms show ?thesis by (simp add: seqCancelIn_handler_def cs_simps same_run_def)
next
  case schedIn
  with assms show ?thesis by (simp add: schedIn_handler_def isExpiredAt_def cs_simps same_run_def)
next
  case (pingIn k)
  then show ?thesis by (simp add: pingIn_handler_def cs_simps same_run_def)
qed (use assms in \<open>auto simp: awaiting_def\<close>)

text \<open>What a cancel leaves, whether commanded, timed out or caused by a failed command.\<close>

definition cancelled_from :: "'s Sequence_ops \<Rightarrow> 's CmdSequencer \<Rightarrow> 's CmdSequencer \<Rightarrow> bool" where
  "cancelled_from ops c c' \<longleftrightarrow> m_runMode c' = STOPPED \<and> m_state (m_cmdTimer c') = CLEAR \<and>
     m_state (m_cmdTimeoutTimer c') = CLEAR \<and> m_sequence c' = op_reset ops (m_sequence c) \<and>
     m_stepMode c' = m_stepMode c \<and> m_record c' = m_record c \<and> sent c' = sent c \<and>
     m_sequencesCompletedCount c' = m_sequencesCompletedCount c \<and>
     seqDone_connected c' = seqDone_connected c"

lemma cancelled_from_cancel:
  "same_run c c1 \<Longrightarrow> cancelled_from ops c (performCmd_Cancel ops c1)"
  by (simp add: cancelled_from_def same_run_def performCmd_Cancel_fields)
    (simp add: performCmd_Cancel_def Let_def seqDone_if_connected_def cmdResponse_out_def out_def)

lemma cancelled_from_same: "cancelled_from ops c c1 \<Longrightarrow> same_run c1 c' \<Longrightarrow> cancelled_from ops c c'"
  by (simp add: cancelled_from_def same_run_def)

lemma CS_CANCEL_running:
  assumes "m_runMode c = RUNNING"
  shows "cancelled_from ops c (CS_CANCEL_cmdHandler ops op sq c)"
    and "cancelled_from ops c (seqCancelIn_handler ops c)"
proof -
  have p: "cancelled_from ops c (performCmd_Cancel ops c)"
    by (rule cancelled_from_cancel) (simp add: same_run_def)
  show "cancelled_from ops c (CS_CANCEL_cmdHandler ops op sq c)"
    by (rule cancelled_from_same [OF p])
      (simp add: assms CS_CANCEL_cmdHandler_def same_run_def sent_def out_def event_def
        cmdResponse_out_def emit_def Let_def)
  show "cancelled_from ops c (seqCancelIn_handler ops c)"
    by (rule cancelled_from_same [OF p])
      (simp add: assms seqCancelIn_handler_def same_run_def sent_def out_def event_def emit_def Let_def)
qed

context sequence_format
begin

lemma run_cancelled:
  assumes "run_inv wf repr all base n0 c" "m_runMode c = RUNNING" "cancelled_from ops c c'"
  shows "run_inv wf repr all base n0 c'"
proof -
  have inv: "com_wf (m_record c)" "m_stepMode c = AUTO" "m_sequencesCompletedCount c = n0"
    "run_issued repr all base c \<or> run_waiting repr all base c"
    using assms(1,2) by (simp_all add: run_inv_def)
  obtain k rest where "sent c = base @ take k (seq_commands all)" "repr (m_sequence c) all rest"
    by (rule run_progress [OF inv(4)])
  moreover from this have "wf (op_reset ops (m_sequence c))"
    using reset repr_wf by blast
  ultimately show ?thesis
    using inv assms(3) by (auto simp: run_inv_def cancelled_from_def)
qed

lemma run_sched:
  assumes "run_inv wf repr all base n0 c" "m_runMode c = RUNNING" "normal_clock E"
  shows "\<exists>c'. schedIn_handler ops E c = Some c' \<and> run_inv wf repr all base n0 c' \<and>
    seqDone_connected c' = seqDone_connected c"
proof -
  have inv: "com_wf (m_record c)" "m_stepMode c = AUTO" "m_sequencesCompletedCount c = n0"
    "run_issued repr all base c \<or> run_waiting repr all base c"
    using assms(1,2) by (simp_all add: run_inv_def)
  let ?now = "clock E (h_ticks (m_host c))"
  let ?c1 = "c\<lparr>m_host := (m_host c)\<lparr>h_ticks := h_ticks (m_host c) + 1\<rparr>\<rparr>"
  show ?thesis
  proof (cases "isExpiredAt (m_cmdTimer c) ?now")
    case True
    then have "m_state (m_cmdTimer c) = SET"
      by (cases "m_state (m_cmdTimer c)") (auto simp: isExpiredAt_def)
    with inv(4) obtain pre ab sec usec rest where w:
      "all = pre @ SeqCmd ab sec usec (contents (m_command (m_record c))) # rest"
      "repr (m_sequence c) all rest" "SeqEnd \<notin> set pre" "sent c = base @ seq_commands pre"
      unfolding run_issued_def run_waiting_def by auto
    let ?c2 = "(comCmdOut_out ?c1)\<lparr>m_cmdTimer := Timer_clear (m_cmdTimer c)\<rparr>"
    have "normalized ?now" using assms(3) by (simp add: normal_clock_def)
    then obtain tm where t: "setCmdTimeout ?now ?c2 = Some (?c2\<lparr>m_cmdTimeoutTimer := tm\<rparr>)"
      by (rule setCmdTimeout_total)
    let ?c' = "?c2\<lparr>m_cmdTimeoutTimer := tm\<rparr>"
    have s: "sent ?c' = base @ seq_commands (pre @ [SeqCmd ab sec usec (contents (m_command (m_record c)))])"
      using w(3,4) by (simp add: seq_commands_append cs_simps)
    have "run_issued repr all base ?c'"
      unfolding run_issued_def
    proof (intro conjI exI)
      show "all = (pre @ [SeqCmd ab sec usec (contents (m_command (m_record c)))]) @ rest"
        using w(1) by simp
    qed (use w s in \<open>simp_all add: cs_simps Timer_clear_def\<close>)
    then have "run_inv wf repr all base n0 ?c'"
      using inv assms(2) by (simp add: run_inv_def cs_simps)
    moreover have "schedIn_handler ops E c = Some ?c'"
      using True t by (simp add: schedIn_handler_def component_getTime_def getTime_def
          comCmdOut_out_def out_def Let_def)
    moreover have "seqDone_connected ?c' = seqDone_connected c" by (simp add: cs_simps)
    ultimately show ?thesis by blast
  next
    case False
    let ?c2 = "c\<lparr>m_host := (m_host c)\<lparr>h_ticks := h_ticks (m_host c) + 1 + 1\<rparr>\<rparr>"
    show ?thesis
    proof (cases "isExpiredAt (m_cmdTimeoutTimer c) (clock E (h_ticks (m_host c) + 1))")
      case True
      let ?c3 = "event (CS_SequenceTimeout (op_getLogFileName ops (m_sequence c)) (m_executedCount c)) ?c2"
      have r: "schedIn_handler ops E c = Some (performCmd_Cancel ops ?c3)"
        using False True by (simp add: schedIn_handler_def component_getTime_def getTime_def)
      have "same_run c ?c3" by (simp add: same_run_def cs_simps)
      then have cc: "cancelled_from ops c (performCmd_Cancel ops ?c3)" by (rule cancelled_from_cancel)
      then show ?thesis
        using r run_cancelled [OF assms(1,2) cc] by (simp add: cancelled_from_def)
    next
      case False2: False
      have "schedIn_handler ops E c = Some ?c2"
        using False False2 by (simp add: schedIn_handler_def component_getTime_def getTime_def)
      moreover have "same_run c ?c2" by (simp add: same_run_def sent_def)
      ultimately show ?thesis
        using run_inv_same assms(1) by (metis same_run_def)
    qed
  qed
qed

text \<open>Taking the next record from a state that has none in flight.\<close>

lemma run_next:
  assumes "m_runMode c = RUNNING" "m_stepMode c = AUTO" "com_wf (m_record c)"
    "m_state (m_cmdTimer c) = CLEAR" "m_state (m_cmdTimeoutTimer c) = CLEAR"
    "repr (m_sequence c) all rest" "all = pre @ rest" "rest \<noteq> []" "SeqEnd \<notin> set pre"
    "sent c = base @ seq_commands pre" "m_sequencesCompletedCount c = n0"
    "normal_clock E" "\<forall>r \<in> set all. normal_record r"
  shows "\<exists>c'. performCmd_Step ops E c = Some c' \<and> run_inv wf repr all base n0 c' \<and>
    seqDone_connected c' = seqDone_connected c"
proof -
  obtain r rest' where rest: "rest = r # rest'" using assms(8) by (cases rest) auto
  then have r: "repr (m_sequence c) all (r # rest')" "normal_record r" "all = (pre @ [r]) @ rest'"
    using assms(6,7,13) by auto
  show ?thesis
  proof (cases rule: step_cases [OF r(1) assms(3,12) r(2)])
    case (1 c1)
    have "wf (op_clear ops (m_sequence c1))" using 1(3) repr_wf clear by blast
    moreover have "seq_commands all = seq_commands pre"
      using r(3) 1(1) assms(9) by (simp add: seq_commands_append)
    ultimately show ?thesis
      using 1 assms by (simp add: run_inv_def sequenceComplete_fields keeps_def)
  next
    case (2 ab sec usec bs c')
    have "run_issued repr all base c'"
      unfolding run_issued_def
    proof (intro conjI exI)
      show "all = (pre @ [r]) @ rest'" by (rule r(3))
    qed (use 2 assms in \<open>simp_all add: seq_commands_append\<close>)
    then show ?thesis using 2 assms by (simp add: run_inv_def keeps_def)
  next
    case (3 ab sec usec bs c')
    have "run_waiting repr all base c'"
      unfolding run_waiting_def
    proof (intro conjI exI)
      show "all = pre @ SeqCmd ab sec usec (contents (m_command (m_record c'))) # rest'"
        using r(3) 3 by simp
    qed (use 3 assms in simp_all)
    then show ?thesis using 3 assms by (simp add: run_inv_def keeps_def)
  qed
qed

lemma run_response:
  assumes "run_inv wf repr all base n0 c" "awaiting c" "normal_clock E" "\<forall>r \<in> set all. normal_record r"
  shows "\<exists>c'. cmdResponseIn_handler ops E op sq r c = Some c' \<and> run_inv wf repr all base n0 c' \<and>
    seqDone_connected c' = seqDone_connected c"
proof -
  have run: "m_runMode c = RUNNING" and tm: "m_state (m_cmdTimer c) = CLEAR"
    using assms(2) by (simp_all add: awaiting_def)
  have inv: "com_wf (m_record c)" "m_stepMode c = AUTO" "m_sequencesCompletedCount c = n0"
    using assms(1) run by (simp_all add: run_inv_def)
  have "run_issued repr all base c"
    using assms(1) run tm by (auto simp: run_inv_def run_waiting_def)
  then obtain pre rest where p: "all = pre @ rest" "repr (m_sequence c) all rest"
    "SeqEnd \<notin> set pre" "sent c = base @ seq_commands pre"
    by (auto simp: run_issued_def)
  let ?c0 = "c\<lparr>m_cmdTimeoutTimer := Timer_clear (m_cmdTimeoutTimer c)\<rparr>"
  let ?c1 = "commandComplete ops op ?c0"
  have c1: "m_runMode ?c1 = RUNNING" "m_stepMode ?c1 = AUTO" "com_wf (m_record ?c1)"
    "m_state (m_cmdTimer ?c1) = CLEAR" "m_state (m_cmdTimeoutTimer ?c1) = CLEAR"
    "m_sequence ?c1 = m_sequence c" "sent ?c1 = base @ seq_commands pre"
    "m_sequencesCompletedCount ?c1 = n0" "seqDone_connected ?c1 = seqDone_connected c"
    using run tm inv p(4) by (simp_all add: cs_simps Timer_clear_def)
  show ?thesis
  proof (cases "r = CmdResponse_OK")
    case False
    let ?c' = "performCmd_Cancel ops (commandError ops (m_executedCount c) op r ?c0)"
    have r: "cmdResponseIn_handler ops E op sq r c = Some ?c'"
      using False run by (simp add: cmdResponseIn_handler_def Let_def)
    have "cancelled_from ops c (performCmd_Cancel ops (commandError ops (m_executedCount c) op r c))"
      by (rule cancelled_from_cancel) (simp add: same_run_def cs_simps)
    then have "cancelled_from ops c ?c'"
      by (simp add: cancelled_from_def performCmd_Cancel_fields)
        (simp add: cs_simps Timer_clear_def)
    from run_cancelled [OF assms(1) run this] this r show ?thesis
      by (simp add: cancelled_from_def)
  next
    case ok: True
    show ?thesis
    proof (cases "rest = []")
      case True
      then have "\<not> op_hasMoreRecords ops (m_sequence c)" using more [OF p(2)] by simp
      then have "cmdResponseIn_handler ops E op sq r c =
          Some (sequenceComplete ops (?c1\<lparr>m_runMode := STOPPED\<rparr>))"
        using ok run inv(2) c1(6) by (simp add: cmdResponseIn_handler_def Let_def)
      moreover have "wf (op_clear ops (m_sequence c))" using p(2) repr_wf clear by blast
      ultimately show ?thesis
        using c1 p True by (simp add: run_inv_def sequenceComplete_fields)
    next
      case False
      then have "op_hasMoreRecords ops (m_sequence c)" using more [OF p(2)] by simp
      then have "cmdResponseIn_handler ops E op sq r c = performCmd_Step ops E ?c1"
        using ok run inv(2) c1(6) by (simp add: cmdResponseIn_handler_def Let_def)
      moreover have "repr (m_sequence ?c1) all rest" using p(2) c1(6) by simp
      ultimately show ?thesis
        using run_next [OF c1(1-5) _ p(1) False p(3) c1(7,8) assms(3,4)] c1(9) by simp
    qed
  qed
qed

lemma run_step:
  assumes "run_inv wf repr all base n0 c" "allowed m c" "normal_clock E"
    "\<forall>r \<in> set all. normal_record r" "seqDone_connected c"
  shows "\<exists>c'. dispatch ops E m c = Some c' \<and> run_inv wf repr all base n0 c' \<and> seqDone_connected c'"
proof (cases "m_runMode c")
  case STOPPED
  then have "m_state (m_cmdTimer c) = CLEAR" "m_state (m_cmdTimeoutTimer c) = CLEAR"
    using assms(1) by (simp_all add: run_inv_def)
  from stopped_reports [OF STOPPED this assms(2)] obtain c'
    where "dispatch ops E m c = Some c'" "same_run c c'" by blast
  with assms(1,5) run_inv_same [of c c' wf repr all base n0] show ?thesis
    by (auto simp: same_run_def)
next
  case RUNNING
  consider (resp) op sq r where "m = cmdResponseIn op sq r" | (sched) "m = schedIn"
    | (cancel) op sq where "m = CS_CANCEL op sq" | (cancelIn) "m = seqCancelIn"
    | (other) "\<nexists>op sq r. m = cmdResponseIn op sq r" "m \<noteq> schedIn" "\<nexists>op sq. m = CS_CANCEL op sq"
        "m \<noteq> seqCancelIn"
    by blast
  then show ?thesis
  proof cases
    case resp
    with assms(2) have "awaiting c" by simp
    from run_response [OF assms(1) this assms(3,4)] resp assms(5) show ?thesis by simp
  next
    case sched
    with run_sched [OF assms(1) RUNNING assms(3)] assms(5) show ?thesis by simp
  next
    case cancel
    with run_cancelled [OF assms(1) RUNNING CS_CANCEL_running(1) [OF RUNNING]] assms(5)
      CS_CANCEL_running(1) [OF RUNNING]
    show ?thesis by (simp add: cancelled_from_def)
  next
    case cancelIn
    with run_cancelled [OF assms(1) RUNNING CS_CANCEL_running(2) [OF RUNNING]] assms(5)
      CS_CANCEL_running(2) [OF RUNNING]
    show ?thesis by (simp add: cancelled_from_def)
  next
    case other
    from running_refuses [OF RUNNING assms(5,2) other] obtain c'
      where "dispatch ops E m c = Some c'" "same_run c c'" by blast
    with assms(1,5) run_inv_same [of c c' wf repr all base n0] show ?thesis
      by (auto simp: same_run_def)
  qed
qed

lemma auto_run_inv:
  assumes "auto_run ops E c0 c" "run_inv wf repr all base n0 c0" "seqDone_connected c0"
    "normal_clock E" "\<forall>r \<in> set all. normal_record r"
  shows "run_inv wf repr all base n0 c \<and> seqDone_connected c"
  using assms
proof (induction rule: auto_run.induct)
  case (auto_step c m c')
  then show ?case using run_step [of all base n0 c m E] by auto
qed simp

end

end
