(* ===== verification/Cmd_Sequencer_Properties.thy ===== *)
theory Cmd_Sequencer_Properties
  imports Cmd_Sequencer_Runs
begin

text \<open>
  The properties of the command sequencer with the F Prime sequence format: what a run sends and
  answers, what a cancel leaves, when a timed command goes out, and the inputs on which the code
  aborts or runs a sequence it has rejected.
\<close>

section \<open>Starting a run\<close>

definition idle :: "FPrimeSequence CmdSequencer \<Rightarrow> bool" where
  "idle c \<longleftrightarrow> m_runMode c = STOPPED \<and> m_stepMode c = AUTO \<and> com_wf (m_record c) \<and>
     m_state (m_cmdTimer c) = CLEAR \<and> m_state (m_cmdTimeoutTimer c) = CLEAR \<and>
     seq_wf (m_sequence c) \<and> seqDone_connected c"

text \<open>A sequence file on the kernel of \<open>E\<close> that the sequencer can load in its present state.\<close>

definition has_file ::
  "env \<Rightarrow> string \<Rightarrow> U16 \<Rightarrow> U8 \<Rightarrow> seq_record list \<Rightarrow> FPrimeSequence CmdSequencer \<Rightarrow> bool" where
  "has_file E fileName tb tc rs c \<longleftrightarrow> (\<forall>r \<in> set rs. seq_rec_ok r \<and> normal_record r) \<and>
     length (concat (map rec_bytes rs)) + 4 \<le> length (m_data (m_buffer (m_sequence c))) \<and>
     (\<exists>fd. opens (kernel E) (CmdStringArg_of fileName) fd \<and>
        serves (kernel E) fd (seq_file tb tc rs)) \<and>
     clock_accepts (clock E (h_ticks (m_host c))) tb tc"

lemma loadFile_ok:
  assumes "idle c" "has_file E fileName tb tc rs c"
  obtains c1 where "loadFile FPrime_ops E fileName c = Some (True, c1)"
    "represents (m_sequence c1) rs rs" "m_runMode c1 = STOPPED" "m_stepMode c1 = AUTO"
    "m_record c1 = m_record c" "m_cmdTimer c1 = m_cmdTimer c"
    "m_cmdTimeoutTimer c1 = m_cmdTimeoutTimer c" "sent c1 = sent c" "answered c1 = answered c"
    "m_sequencesCompletedCount c1 = m_sequencesCompletedCount c" "seqDone_connected c1"
    "m_blockState c1 = m_blockState c"
proof -
  obtain fd where "opens (kernel E) (CmdStringArg_of fileName) fd"
    "serves (kernel E) fd (seq_file tb tc rs @ [])"
    using assms(2) by (auto simp: has_file_def)
  then obtain s' h' where l: "FPrime_loadFile E fileName (m_sequence c, m_host c) = Some (True, s', h')"
    "represents s' rs rs" "h_outs h' = h_outs (m_host c)"
    by (rule loadFile_wellformed [rotated 3, of E fileName fd tb tc rs "[]" "m_host c" "m_sequence c"])
      (use assms in \<open>auto simp: has_file_def idle_def\<close>)
  define c1 where "c1 = out (Tlm_LoadCommands (m_loadCmdCount c + 1))
    ((event (CS_SequenceLoaded (m_logFileName s')) (c\<lparr>m_sequence := s', m_host := h'\<rparr>))
       \<lparr>m_loadCmdCount := m_loadCmdCount c + 1\<rparr>)"
  have "loadFile FPrime_ops E fileName c = Some (True, c1)"
    using l(1) by (simp add: loadFile_def FPrime_ops_def c1_def out_def event_def Let_def)
  then show ?thesis
    by (rule that) (use l assms(1) in \<open>simp_all add: c1_def idle_def cs_simps\<close>)
qed

lemma idle_block [simp]: "idle (c\<lparr>m_blockState := b, m_cmdSeq := sq, m_opCode := op\<rparr>) = idle c"
  "has_file E f tb tc rs (c\<lparr>m_blockState := b, m_cmdSeq := sq, m_opCode := op\<rparr>) = has_file E f tb tc rs c"
  by (simp_all add: idle_def has_file_def)

lemma CS_RUN_starts:
  assumes "idle c" "has_file E fileName tb tc rs c" "rs \<noteq> []" "normal_clock E"
  obtains c1 where "CS_RUN_cmdHandler FPrime_ops E op sq fileName b c = Some c1"
    "run_inv seq_wf represents rs (sent c) (m_sequencesCompletedCount c) c1" "seqDone_connected c1"
proof -
  let ?c0 = "c\<lparr>m_blockState := b, m_cmdSeq := sq, m_opCode := op\<rparr>"
  have "idle ?c0" "has_file E fileName tb tc rs ?c0" using assms(1,2) by simp_all
  then obtain c1 where l: "loadFile FPrime_ops E fileName ?c0 = Some (True, c1)"
    "represents (m_sequence c1) rs rs" "m_runMode c1 = STOPPED" "m_stepMode c1 = AUTO"
    "m_record c1 = m_record ?c0" "m_cmdTimer c1 = m_cmdTimer ?c0"
    "m_cmdTimeoutTimer c1 = m_cmdTimeoutTimer ?c0" "sent c1 = sent ?c0"
    "m_sequencesCompletedCount c1 = m_sequencesCompletedCount ?c0" "seqDone_connected c1"
    "m_blockState c1 = b"
    by (rule loadFile_ok) simp_all
  let ?c2 = "c1\<lparr>m_executedCount := 0, m_runMode := RUNNING\<rparr>"
  have "\<exists>c'. performCmd_Step FPrime_ops E ?c2 = Some c' \<and>
      run_inv seq_wf represents rs (sent c) (m_sequencesCompletedCount c) c' \<and>
      seqDone_connected c' = seqDone_connected ?c2"
    by (rule fprime.run_next [where pre = "[]" and rest = rs])
      (use assms l in \<open>simp_all add: idle_def has_file_def sent_def\<close>)
  then obtain c3 where s: "performCmd_Step FPrime_ops E ?c2 = Some c3"
    "run_inv seq_wf represents rs (sent c) (m_sequencesCompletedCount c) c3" "seqDone_connected c3"
    using l(10) by auto
  let ?c4 = "if m_blockState c3 = NO_BLOCK then cmdResponse_out op sq CmdResponse_OK c3 else c3"
  have "same_run c3 ?c4" by (simp add: same_run_def cs_simps)
  then have "run_inv seq_wf represents rs (sent c) (m_sequencesCompletedCount c) ?c4"
    "seqDone_connected ?c4"
    using s(2,3) run_inv_same [of c3 ?c4] by (simp_all add: same_run_def)
  moreover have "CS_RUN_cmdHandler FPrime_ops E op sq fileName b c = Some ?c4"
    using assms(1) l(1,4) s(1)
    by (simp add: CS_RUN_cmdHandler_def requireRunMode_def idle_def)
  ultimately show ?thesis using that by blast
qed

section \<open>Properties\<close>

text \<open>
  C1: \<open>CS_RUN\<close> of a well-formed sequence file with at least one record, on an idle sequencer in
  automatic mode whose \<open>seqDone\<close> port is connected and whose buffer has less than 2^30 bytes and room for
  the records, starts a run. Then come any messages of these kinds, in any order: responses while a command awaits one,
  the schedule port, pings, the cancel port, \<open>CS_CANCEL\<close> and \<open>CS_JOIN_WAIT\<close> at any time; and, only while the run
  lasts, the messages that load, start or validate a sequence or change the mode (\<open>CS_RUN\<close>, \<open>CS_START\<close>,
  \<open>CS_VALIDATE\<close>, \<open>seqRunIn\<close>, \<open>CS_AUTO\<close>, \<open>CS_MANUAL\<close>), which it refuses. \<open>CS_STEP\<close> is left out. Over such messages no
  assertion fails, the commands sent are an initial part of the commands of the sequence, in their order
  and without repetition, and once the sequence is counted as completed they are all of them up to
  the end-of-sequence record.
\<close>

theorem auto_run_in_order:
  assumes "idle c" "has_file E fileName tb tc rs c" "rs \<noteq> []" "normal_clock E"
  shows "\<exists>c1. CS_RUN_cmdHandler FPrime_ops E op sq fileName b c = Some c1 \<and>
    (\<forall>c2. auto_run FPrime_ops E c1 c2 \<longrightarrow>
      (\<exists>k. sent c2 = sent c @ take k (seq_commands rs)) \<and>
      (m_sequencesCompletedCount c2 \<noteq> m_sequencesCompletedCount c \<longrightarrow>
         sent c2 = sent c @ seq_commands rs) \<and>
      (\<forall>m. allowed m c2 \<longrightarrow> dispatch FPrime_ops E m c2 \<noteq> None))"
proof -
  obtain c1 where r: "CS_RUN_cmdHandler FPrime_ops E op sq fileName b c = Some c1"
    "run_inv seq_wf represents rs (sent c) (m_sequencesCompletedCount c) c1" "seqDone_connected c1"
    by (rule CS_RUN_starts [OF assms])
  have n: "\<forall>r \<in> set rs. normal_record r" using assms(2) by (simp add: has_file_def)
  have "(\<exists>k. sent c2 = sent c @ take k (seq_commands rs)) \<and>
      (m_sequencesCompletedCount c2 \<noteq> m_sequencesCompletedCount c \<longrightarrow>
         sent c2 = sent c @ seq_commands rs) \<and>
      (\<forall>m. allowed m c2 \<longrightarrow> dispatch FPrime_ops E m c2 \<noteq> None)" if "auto_run FPrime_ops E c1 c2" for c2
  proof -
    have i: "run_inv seq_wf represents rs (sent c) (m_sequencesCompletedCount c) c2"
      "seqDone_connected c2"
      using fprime.auto_run_inv [OF that r(2,3) assms(4) n] by simp_all
    have "dispatch FPrime_ops E m c2 \<noteq> None" if "allowed m c2" for m
      using fprime.run_step [OF i(1) that assms(4) n i(2)] by auto
    moreover have "(\<exists>k. sent c2 = sent c @ take k (seq_commands rs)) \<and>
      (m_sequencesCompletedCount c2 \<noteq> m_sequencesCompletedCount c \<longrightarrow>
         sent c2 = sent c @ seq_commands rs)"
    proof (cases "m_runMode c2")
      case STOPPED
      with i(1) show ?thesis by (auto simp: run_inv_def intro: exI [of _ "length (seq_commands rs)"])
    next
      case RUNNING
      with i(1) have "run_issued represents rs (sent c) c2 \<or> run_waiting represents rs (sent c) c2"
        "m_sequencesCompletedCount c2 = m_sequencesCompletedCount c"
        by (simp_all add: run_inv_def)
      then show ?thesis by (metis run_progress)
    qed
    ultimately show ?thesis by blast
  qed
  with r(1) show ?thesis by blast
qed

text \<open>A sequencer that has just been built, with a 64-byte buffer.\<close>

definition demo_sequencer :: "FPrimeSequence CmdSequencer" where
  "demo_sequencer = CmdSequencer_new demo_sequence True"

lemma demo_idle [simp]: "idle demo_sequencer" "sent demo_sequencer = []" "answered demo_sequencer = []"
  "m_sequencesCompletedCount demo_sequencer = 0" "m_buffer (m_sequence demo_sequencer) = m_buffer demo_sequence"
  by (simp_all add: demo_sequencer_def CmdSequencer_new_def idle_def Timer_new_def sent_def
      answered_def)

lemma demo_clock [simp]: "normal_clock (demo_env content)"
  by (simp add: normal_clock_def demo_env_def normalized_def)

lemma demo_has_file:
  assumes "\<forall>r \<in> set rs. seq_rec_ok r \<and> normal_record r" "length (concat (map rec_bytes rs)) \<le> 60"
  shows "has_file (demo_env (seq_file 2 0 rs)) fileName 2 0 rs demo_sequencer"
proof -
  have "clock_accepts (clock (demo_env (seq_file 2 0 rs)) (h_ticks (m_host demo_sequencer))) 2 0"
    by (simp add: clock_accepts_def demo_env_def)
  moreover have "opens (kernel (demo_env (seq_file 2 0 rs))) (CmdStringArg_of fileName) 5 \<and>
      serves (kernel (demo_env (seq_file 2 0 rs))) 5 (seq_file 2 0 rs)" by simp
  ultimately show ?thesis
    unfolding has_file_def using assms by (intro conjI exI [of _ 5]) simp_all
qed

theorem auto_run_in_order_witness:
  "\<exists>c1. CS_RUN_cmdHandler FPrime_ops (demo_env (seq_file 2 0 [SeqCmd True 0 0 [7], SeqEnd])) 1 2
      ''seq.bin'' NO_BLOCK demo_sequencer = Some c1 \<and>
    (\<forall>c2. auto_run FPrime_ops (demo_env (seq_file 2 0 [SeqCmd True 0 0 [7], SeqEnd])) c1 c2 \<longrightarrow>
      (\<exists>k. sent c2 = take k [[7]]))"
  using auto_run_in_order [of demo_sequencer "demo_env (seq_file 2 0 [SeqCmd True 0 0 [7], SeqEnd])"
      "''seq.bin''" 2 0 "[SeqCmd True 0 0 [7], SeqEnd]" 1 2 NO_BLOCK]
  by (force simp: demo_has_file seq_rec_ok_def normal_record_def)

lemma sched_stopped:
  assumes "m_runMode c = STOPPED" "m_state (m_cmdTimer c) = CLEAR" "m_state (m_cmdTimeoutTimer c) = CLEAR"
  shows "\<exists>c'. dispatch_all ops E (replicate n schedIn) c = Some c' \<and> sent c' = sent c \<and>
    answered c' = answered c"
  using assms
proof (induction n arbitrary: c)
  case (Suc n)
  let ?c = "c\<lparr>m_host := (m_host c)\<lparr>h_ticks := h_ticks (m_host c) + 1 + 1\<rparr>\<rparr>"
  have "schedIn_handler ops E c = Some ?c"
    using Suc.prems by (simp add: schedIn_handler_def isExpiredAt_def component_getTime_def getTime_def)
  moreover have "sent ?c = sent c" "answered ?c = answered c" by (simp_all add: sent_def answered_def)
  ultimately show ?case using Suc.IH [of ?c] Suc.prems by simp
qed simp

text \<open>
  C34: \<open>CS_CANCEL\<close> of a running sequence stops it and rewinds it to its first record, clears both
  timers, answers the command that waits for the sequence (if there is one) with
  \<open>EXECUTION_ERROR\<close> and itself with \<open>OK\<close>, and leaves a sequencer that sends and answers nothing
  however often its schedule port is called.
\<close>

theorem cancel_stops_and_answers:
  assumes "m_runMode c = RUNNING" "represents (m_sequence c) all rest"
  shows "let c' = CS_CANCEL_cmdHandler FPrime_ops op sq c in
    m_runMode c' = STOPPED \<and> represents (m_sequence c') all all \<and> m_executedCount c' = 0 \<and>
    m_blockState c' = NO_BLOCK \<and> \<not> m_join_waiting c' \<and> sent c' = sent c \<and>
    m_state (m_cmdTimer c') = CLEAR \<and> m_state (m_cmdTimeoutTimer c') = CLEAR \<and>
    answered c' = answered c @
      (if m_blockState c = BLOCK \<or> m_join_waiting c
       then [(m_opCode c, m_cmdSeq c, EXECUTION_ERROR)] else []) @ [(op, sq, CmdResponse_OK)] \<and>
    (\<exists>c''. dispatch_all FPrime_ops E (replicate n schedIn) c' = Some c'' \<and> sent c'' = sent c \<and>
       answered c'' = answered c')"
proof -
  let ?c1 = "performCmd_Cancel FPrime_ops c" and ?c' = "CS_CANCEL_cmdHandler FPrime_ops op sq c"
  have f: "m_runMode ?c' = m_runMode ?c1" "m_sequence ?c' = m_sequence ?c1"
    "m_executedCount ?c' = m_executedCount ?c1" "m_blockState ?c' = m_blockState ?c1"
    "m_join_waiting ?c' = m_join_waiting ?c1" "sent ?c' = sent ?c1"
    "m_cmdTimer ?c' = m_cmdTimer ?c1" "m_cmdTimeoutTimer ?c' = m_cmdTimeoutTimer ?c1"
    "answered ?c' = answered ?c1 @ [(op, sq, CmdResponse_OK)]"
    using assms(1)
    by (simp_all add: CS_CANCEL_cmdHandler_def Let_def out_def event_def cmdResponse_out_def emit_def
        sent_def answered_def)
  note g = f performCmd_Cancel_fields [of FPrime_ops c]
  have "represents (m_sequence ?c1) all all"
    using fprime.reset [OF assms(2)] by (simp add: performCmd_Cancel_fields)
  moreover have "\<exists>c''. dispatch_all FPrime_ops E (replicate n schedIn) ?c' = Some c'' \<and>
      sent c'' = sent ?c' \<and> answered c'' = answered ?c'"
    by (rule sched_stopped) (simp_all add: g)
  ultimately show ?thesis by (simp add: g Let_def)
qed

theorem cancel_stops_and_answers_witness:
  "let c = demo_sequencer\<lparr>m_runMode := RUNNING, m_blockState := BLOCK, m_opCode := 3, m_cmdSeq := 4\<rparr>;
       c' = CS_CANCEL_cmdHandler FPrime_ops 8 9 c
   in m_runMode c' = STOPPED \<and> answered c' = [(3, 4, EXECUTION_ERROR), (8, 9, CmdResponse_OK)]"
proof -
  have "represents demo_sequence [] []"
    by (simp add: represents_def demo_sequence_def seq_wf_def SerializeBufferBase_new_def ser_wf_def
        FPrimeSequence_new_def contents_def unread_def)
  moreover have "answered (demo_sequencer\<lparr>m_runMode := RUNNING, m_blockState := BLOCK, m_opCode := 3,
      m_cmdSeq := 4\<rparr>) = []" "m_sequence demo_sequencer = demo_sequence"
    by (simp_all add: answered_def demo_sequencer_def CmdSequencer_new_def)
  ultimately show ?thesis
    using cancel_stops_and_answers [of "demo_sequencer\<lparr>m_runMode := RUNNING, m_blockState := BLOCK,
        m_opCode := 3, m_cmdSeq := 4\<rparr>" "[]" "[]" 8 9]
    by (simp add: Let_def)
qed

text \<open>
  With a record waiting for its time, \<open>schedIn\<close> sends its command exactly when the time of
  the call has reached the time tag, as microsecond counts of one clock, and then stops waiting;
  a tag of another clock than the one read counts as reached.
\<close>

theorem timed_command_due:
  assumes "m_state (m_cmdTimer c) = SET" "normalized (expirationTime (m_cmdTimer c))"
    "normalized (clock E (h_ticks (m_host c)))"
  shows "\<exists>c'. schedIn_handler ops E c = Some c' \<and>
    (if same_clock (expirationTime (m_cmdTimer c)) (clock E (h_ticks (m_host c))) \<longrightarrow>
        micros (expirationTime (m_cmdTimer c)) \<le> micros (clock E (h_ticks (m_host c)))
     then sent c' = sent c @ [contents (m_command (m_record c))] \<and> m_state (m_cmdTimer c') = CLEAR
     else sent c' = sent c)"
proof -
  let ?now = "clock E (h_ticks (m_host c))" and ?exp = "expirationTime (m_cmdTimer c)"
  have e: "isExpiredAt (m_cmdTimer c) ?now \<longleftrightarrow> (same_clock ?exp ?now \<longrightarrow> micros ?exp \<le> micros ?now)"
  proof (cases "same_clock ?exp ?now")
    case True
    then show ?thesis
      using assms(1) Time_compare_micros [OF True assms(2,3)] by (simp add: isExpiredAt_def)
  next
    case False
    then show ?thesis
      using assms(1) Time_compare_incomparable [of ?exp ?now] by (simp add: isExpiredAt_def)
  qed
  show ?thesis
  proof (cases "isExpiredAt (m_cmdTimer c) ?now")
    case True
    let ?c2 = "(comCmdOut_out (c\<lparr>m_host := (m_host c)\<lparr>h_ticks := h_ticks (m_host c) + 1\<rparr>\<rparr>))
      \<lparr>m_cmdTimer := Timer_clear (m_cmdTimer c)\<rparr>"
    obtain tm where "setCmdTimeout ?now ?c2 = Some (?c2\<lparr>m_cmdTimeoutTimer := tm\<rparr>)"
      by (rule setCmdTimeout_total [OF assms(3)])
    then have "schedIn_handler ops E c = Some (?c2\<lparr>m_cmdTimeoutTimer := tm\<rparr>)"
      using True by (simp add: schedIn_handler_def component_getTime_def getTime_def comCmdOut_out_def
          out_def Let_def)
    moreover have "sent (?c2\<lparr>m_cmdTimeoutTimer := tm\<rparr>) = sent c @ [contents (m_command (m_record c))]"
      by (simp add: cs_simps)
    ultimately show ?thesis using True e by (simp add: Timer_clear_def)
  next
    case False
    let ?c2 = "c\<lparr>m_host := (m_host c)\<lparr>h_ticks := h_ticks (m_host c) + 1 + 1\<rparr>\<rparr>"
    have s: "sent ?c2 = sent c" by (simp add: sent_def)
    have "schedIn_handler ops E c = Some (
        if isExpiredAt (m_cmdTimeoutTimer c) (clock E (h_ticks (m_host c) + 1))
        then performCmd_Cancel ops
          (event (CS_SequenceTimeout (op_getLogFileName ops (m_sequence c)) (m_executedCount c)) ?c2)
        else ?c2)"
      using False by (simp add: schedIn_handler_def component_getTime_def getTime_def)
    moreover have "sent (event ev ?c2) = sent c" for ev by (simp add: cs_simps)
    ultimately show ?thesis using False e s by (simp add: performCmd_Cancel_fields)
  qed
qed

theorem timed_command_due_witness:
  "\<exists>c'. schedIn_handler FPrime_ops (demo_env [])
      (demo_sequencer\<lparr>m_cmdTimer := Timer_set Timer_new (Time_make 3 0 99 0)\<rparr>) = Some c' \<and>
    length (sent c') = 1"
proof -
  let ?c = "demo_sequencer\<lparr>m_cmdTimer := Timer_set Timer_new (Time_make 3 0 99 0)\<rparr>"
  have "sent ?c = []" by (simp add: sent_def demo_sequencer_def CmdSequencer_new_def)
  then show ?thesis
    using timed_command_due [of ?c "demo_env []" FPrime_ops]
    by (auto simp: Timer_set_def normalized_def demo_env_def same_clock_def)
qed

fun start_request :: "message \<Rightarrow> (U32 \<times> U32) option" where
  "start_request (CS_RUN op sq f b) = Some (op, sq)"
| "start_request (CS_VALIDATE op sq f) = Some (op, sq)"
| "start_request (CS_START op sq) = Some (op, sq)"
| "start_request (CS_AUTO op sq) = Some (op, sq)"
| "start_request (CS_MANUAL op sq) = Some (op, sq)"
| "start_request _ = None"

text \<open>
  A running sequencer refuses \<open>CS_RUN\<close>, \<open>CS_VALIDATE\<close>, \<open>CS_START\<close>, \<open>CS_AUTO\<close> and
  \<open>CS_MANUAL\<close>: each is answered once, with \<open>EXECUTION_ERROR\<close>, no command is sent, and the
  sequence, the record in flight, both timers, the modes and the command to be answered at the end
  of the run stay what they are.
\<close>

theorem running_refuses_start:
  assumes "m_runMode c = RUNNING" "start_request m = Some (op, sq)"
  shows "\<exists>c'. dispatch ops E m c = Some c' \<and> same_run c c' \<and>
    answered c' = answered c @ [(op, sq, EXECUTION_ERROR)] \<and> m_blockState c' = m_blockState c \<and>
    m_opCode c' = m_opCode c \<and> m_cmdSeq c' = m_cmdSeq c \<and> m_join_waiting c' = m_join_waiting c"
  using assms
  by (cases m) (auto simp: CS_RUN_cmdHandler_def CS_VALIDATE_cmdHandler_def CS_START_cmdHandler_def
      CS_AUTO_cmdHandler_def CS_MANUAL_cmdHandler_def cs_simps same_run_def)

theorem running_refuses_start_witness:
  "\<exists>c'. dispatch FPrime_ops (demo_env []) (CS_RUN 5 6 ''x'' BLOCK)
      (demo_sequencer\<lparr>m_runMode := RUNNING\<rparr>) = Some c' \<and> answered c' = [(5, 6, EXECUTION_ERROR)]"
  using running_refuses_start [of "demo_sequencer\<lparr>m_runMode := RUNNING\<rparr>" "CS_RUN 5 6 ''x'' BLOCK" 5 6
      FPrime_ops "demo_env []"]
  by auto

lemma sched_answers:
  assumes "schedIn_handler ops E c = Some c'"
  shows "m_runMode c' = m_runMode c \<and> answered c' = answered c \<or>
    m_runMode c' = STOPPED \<and> m_sequencesCompletedCount c' = m_sequencesCompletedCount c \<and>
    answered c' = answered c @ (if m_blockState c = BLOCK \<or> m_join_waiting c
      then [(m_opCode c, m_cmdSeq c, EXECUTION_ERROR)] else [])"
proof -
  let ?c1 = "c\<lparr>m_host := (m_host c)\<lparr>h_ticks := h_ticks (m_host c) + 1\<rparr>\<rparr>"
  let ?c2 = "c\<lparr>m_host := (m_host c)\<lparr>h_ticks := h_ticks (m_host c) + 1 + 1\<rparr>\<rparr>"
  show ?thesis
  proof (cases "isExpiredAt (m_cmdTimer c) (clock E (h_ticks (m_host c)))")
    case True
    then show ?thesis
      using assms by (auto simp: schedIn_handler_def component_getTime_def getTime_def Let_def
          setCmdTimeout_def comCmdOut_out_def out_def answered_def emit_def split: if_splits bind_splits)
  next
    case False
    have a: "answered (event ev ?c2) = answered c" "answered ?c2 = answered c" for ev
      by (simp_all add: answered_def event_def out_def emit_def)
    show ?thesis
      using False assms a
      by (auto simp: schedIn_handler_def component_getTime_def getTime_def performCmd_Cancel_fields
          split: if_splits)
        (simp_all add: event_def out_def)
  qed
qed

definition ends_run :: "message \<Rightarrow> bool" where
  "ends_run m \<longleftrightarrow> m = schedIn \<or> m = seqCancelIn \<or> (\<exists>op sq r. m = cmdResponseIn op sq r)"

lemma response_answers:
  assumes "m_runMode c = RUNNING" "m_stepMode c = AUTO" "com_wf (m_record c)"
    "represents (m_sequence c) all rest" "normal_clock E" "\<forall>r \<in> set all. normal_record r"
    "cmdResponseIn_handler FPrime_ops E op sq r c = Some c'"
  shows "answered c' = answered c @
    (if m_runMode c' = STOPPED \<and> (m_blockState c = BLOCK \<or> m_join_waiting c)
     then [(m_opCode c, m_cmdSeq c,
            if m_sequencesCompletedCount c' = m_sequencesCompletedCount c then EXECUTION_ERROR
            else CmdResponse_OK)] else [])"
proof (cases "r = CmdResponse_OK")
  case False
  let ?c1 = "commandError FPrime_ops (m_executedCount c) op r
    (c\<lparr>m_cmdTimeoutTimer := Timer_clear (m_cmdTimeoutTimer c)\<rparr>)"
  have "answered ?c1 = answered c" "m_blockState ?c1 = m_blockState c"
    "m_join_waiting ?c1 = m_join_waiting c" "m_opCode ?c1 = m_opCode c" "m_cmdSeq ?c1 = m_cmdSeq c"
    "m_sequencesCompletedCount ?c1 = m_sequencesCompletedCount c"
    by (simp_all add: cs_simps)
  moreover have "c' = performCmd_Cancel FPrime_ops ?c1"
    using False assms(1,7) by (simp add: cmdResponseIn_handler_def Let_def)
  ultimately show ?thesis by (simp add: performCmd_Cancel_fields)
next
  case ok: True
  let ?c1 = "commandComplete FPrime_ops op
    (c\<lparr>m_cmdTimeoutTimer := Timer_clear (m_cmdTimeoutTimer c)\<rparr>)"
  have c1: "answered ?c1 = answered c" "m_blockState ?c1 = m_blockState c"
    "m_join_waiting ?c1 = m_join_waiting c" "m_opCode ?c1 = m_opCode c" "m_cmdSeq ?c1 = m_cmdSeq c"
    "m_sequencesCompletedCount ?c1 = m_sequencesCompletedCount c" "m_sequence ?c1 = m_sequence c"
    "m_record ?c1 = m_record c" "m_runMode ?c1 = RUNNING"
    using assms(1) by (simp_all add: cs_simps)
  have step: "cmdResponseIn_handler FPrime_ops E op sq r c =
      (if rest = [] then Some (sequenceComplete FPrime_ops (?c1\<lparr>m_runMode := STOPPED\<rparr>))
       else performCmd_Step FPrime_ops E ?c1)"
    using ok assms(1,2) fprime.more [OF assms(4)] c1(7)
    by (simp add: cmdResponseIn_handler_def Let_def)
  show ?thesis
  proof (cases rest)
    case Nil
    with step assms(7) have "c' = sequenceComplete FPrime_ops (?c1\<lparr>m_runMode := STOPPED\<rparr>)" by simp
    then show ?thesis by (simp add: sequenceComplete_fields c1)
  next
    case (Cons x rest')
    have x: "represents (m_sequence ?c1) all (x # rest')" "com_wf (m_record ?c1)" "normal_record x"
      using assms(3,4,6) Cons c1(7,8) by (auto simp: represents_def)
    have p: "performCmd_Step FPrime_ops E ?c1 = Some c'" using step assms(7) Cons by simp
    show ?thesis
    proof (cases rule: fprime.step_cases [OF x(1,2) assms(5) x(3)])
      case (1 c2)
      then have "c' = sequenceComplete FPrime_ops (c2\<lparr>m_runMode := STOPPED\<rparr>)" using p by simp
      then show ?thesis using 1(2) c1 by (simp add: sequenceComplete_fields keeps_def)
    next
      case (2 ab sec usec bs c2)
      then show ?thesis using p c1 by (simp add: keeps_def)
    next
      case (3 ab sec usec bs c2)
      then show ?thesis using p c1 by (simp add: keeps_def)
    qed
  qed
qed

text \<open>
  C36: The end of a run is answered exactly once. While a sequence runs in automatic mode, a
  schedule call, a command response or a cancel port call answers nothing as long as the run
  goes on; when it ends the run, it answers the blocked \<open>CS_RUN\<close> or waiting \<open>CS_JOIN_WAIT\<close>, if
  there is one, with \<open>OK\<close> if the sequence is counted as completed and \<open>EXECUTION_ERROR\<close> if not.
\<close>

theorem run_end_answered_once:
  assumes "m_runMode c = RUNNING" "m_stepMode c = AUTO" "com_wf (m_record c)"
    "represents (m_sequence c) all rest" "normal_clock E" "\<forall>r \<in> set all. normal_record r"
    "ends_run m" "dispatch FPrime_ops E m c = Some c'"
  shows "answered c' = answered c @
    (if m_runMode c' = STOPPED \<and> (m_blockState c = BLOCK \<or> m_join_waiting c)
     then [(m_opCode c, m_cmdSeq c,
            if m_sequencesCompletedCount c' = m_sequencesCompletedCount c then EXECUTION_ERROR
            else CmdResponse_OK)] else [])"
  using assms(7) unfolding ends_run_def
proof (elim disjE exE)
  assume "m = schedIn"
  with assms(8) have "schedIn_handler FPrime_ops E c = Some c'" by simp
  from sched_answers [OF this] assms(1) show ?thesis by auto
next
  assume "m = seqCancelIn"
  with assms(1,8) have "c' = seqCancelIn_handler FPrime_ops c" by simp
  moreover have "answered (seqCancelIn_handler FPrime_ops c) = answered (performCmd_Cancel FPrime_ops c)"
    "m_runMode (seqCancelIn_handler FPrime_ops c) = STOPPED"
    "m_sequencesCompletedCount (seqCancelIn_handler FPrime_ops c) = m_sequencesCompletedCount c"
    using assms(1) performCmd_Cancel_fields [of FPrime_ops c]
    by (simp_all add: seqCancelIn_handler_def Let_def out_def event_def emit_def answered_def)
  ultimately show ?thesis by (simp add: performCmd_Cancel_fields)
next
  fix op sq r assume "m = cmdResponseIn op sq r"
  with assms(8) response_answers [OF assms(1-6)] show ?thesis by simp
qed

theorem run_end_answered_once_witness:
  "answered (seqCancelIn_handler FPrime_ops
     (demo_sequencer\<lparr>m_runMode := RUNNING, m_blockState := BLOCK, m_opCode := 3, m_cmdSeq := 4\<rparr>)) =
   [(3, 4, EXECUTION_ERROR)]"
proof -
  let ?c = "demo_sequencer\<lparr>m_runMode := RUNNING, m_blockState := BLOCK, m_opCode := 3, m_cmdSeq := 4\<rparr>"
  have "represents demo_sequence [] []"
    by (simp add: represents_def demo_sequence_def seq_wf_def SerializeBufferBase_new_def ser_wf_def
        FPrimeSequence_new_def contents_def unread_def)
  moreover have "answered ?c = []" "m_sequence demo_sequencer = demo_sequence"
    "m_stepMode demo_sequencer = AUTO" "com_wf (m_record demo_sequencer)"
    by (simp_all add: answered_def demo_sequencer_def CmdSequencer_new_def)
  moreover have "m_runMode (seqCancelIn_handler FPrime_ops ?c) = STOPPED"
    "m_sequencesCompletedCount (seqCancelIn_handler FPrime_ops ?c) = m_sequencesCompletedCount ?c"
    using performCmd_Cancel_fields [of FPrime_ops ?c]
    by (simp_all add: seqCancelIn_handler_def Let_def out_def event_def)
  ultimately show ?thesis
    using run_end_answered_once [of ?c "[]" "[]" "demo_env []" seqCancelIn "seqCancelIn_handler FPrime_ops ?c"]
    by (simp add: ends_run_def)
qed

section \<open>Inputs the sequencer does not withstand\<close>

text \<open>
  A valid sequence file without records is accepted by \<open>loadFile\<close>, which checks the number of
  records against the data; in automatic mode \<open>CS_RUN\<close> then asks for its first record and the
  component stops in the assertion of \<open>nextRecord\<close>.
\<close>

theorem empty_sequence_aborts:
  assumes "idle c" "has_file E fileName tb tc [] c"
  shows "(\<exists>c1. loadFile FPrime_ops E fileName c = Some (True, c1)) \<and>
    CS_RUN_cmdHandler FPrime_ops E op sq fileName b c = None"
proof -
  let ?c0 = "c\<lparr>m_blockState := b, m_cmdSeq := sq, m_opCode := op\<rparr>"
  have "idle ?c0" "has_file E fileName tb tc [] ?c0" using assms by simp_all
  then obtain c1 where l: "loadFile FPrime_ops E fileName ?c0 = Some (True, c1)"
    "represents (m_sequence c1) [] []" "m_record c1 = m_record c" "m_stepMode c1 = AUTO"
    by (rule loadFile_ok) simp_all
  have "performCmd_Step FPrime_ops E (c1\<lparr>m_executedCount := 0, m_runMode := RUNNING\<rparr>) = None"
    using represents_end [OF l(2), of "m_record c"] l(3) assms(1)
    by (simp add: performCmd_Step_def FPrime_ops_def idle_def)
  then have "CS_RUN_cmdHandler FPrime_ops E op sq fileName b c = None"
    using l(1,4) assms(1) by (simp add: CS_RUN_cmdHandler_def requireRunMode_def idle_def)
  moreover have "\<exists>c1. loadFile FPrime_ops E fileName c = Some (True, c1)"
    by (rule loadFile_ok [OF assms]) blast
  ultimately show ?thesis by blast
qed

theorem empty_sequence_aborts_witness:
  "CS_RUN_cmdHandler FPrime_ops (demo_env (seq_file 2 0 [])) 1 2 ''empty.bin'' NO_BLOCK demo_sequencer
     = None"
  using empty_sequence_aborts [of demo_sequencer "demo_env (seq_file 2 0 [])" "''empty.bin''" 2 0 1 2 NO_BLOCK]
  by (simp add: demo_has_file)

text \<open>
  \<open>CS_STEP\<close> asks only that the sequencer runs, not that it is in manual mode nor that a record
  is left: sent after \<open>CS_RUN\<close> of a one-command sequence in automatic mode, while its command is
  in flight or waits for its time, it stops the component in the assertion of \<open>nextRecord\<close>.
\<close>

theorem step_past_end_aborts:
  assumes "idle c" "has_file E fileName tb tc [SeqCmd ab sec usec bs] c" "normal_clock E"
  shows "\<exists>c1. CS_RUN_cmdHandler FPrime_ops E op sq fileName b c = Some c1 \<and>
    CS_STEP_cmdHandler FPrime_ops E op' sq' c1 = None"
proof -
  let ?c0 = "c\<lparr>m_blockState := b, m_cmdSeq := sq, m_opCode := op\<rparr>" and ?r = "SeqCmd ab sec usec bs"
  have "idle ?c0" "has_file E fileName tb tc [?r] ?c0" using assms by simp_all
  then obtain c1 where l: "loadFile FPrime_ops E fileName ?c0 = Some (True, c1)"
    "represents (m_sequence c1) [?r] [?r]" "m_record c1 = m_record c" "m_stepMode c1 = AUTO"
    by (rule loadFile_ok) simp_all
  let ?c2 = "c1\<lparr>m_executedCount := 0, m_runMode := RUNNING\<rparr>"
  have "normal_record ?r" using assms(2) by (simp add: has_file_def)
  moreover have "com_wf (m_record ?c2)" "represents (m_sequence ?c2) [?r] [?r]"
    using l assms(1) by (simp_all add: idle_def)
  ultimately obtain c3 where s: "performCmd_Step FPrime_ops E ?c2 = Some c3" "keeps ?c2 c3"
    "represents (m_sequence c3) [?r] []" "com_wf (m_record c3)"
    using fprime.step_cases [of ?c2 "[?r]" ?r "[]" E] assms(3) by blast
  let ?c4 = "if m_blockState c3 = NO_BLOCK then cmdResponse_out op sq CmdResponse_OK c3 else c3"
  have "m_runMode ?c4 = RUNNING" "m_sequence ?c4 = m_sequence c3" "m_record ?c4 = m_record c3"
    using s(2) by (simp_all add: keeps_def cs_simps)
  then have "CS_STEP_cmdHandler FPrime_ops E op' sq' ?c4 = None"
    using represents_end [OF s(3,4)]
    by (simp add: CS_STEP_cmdHandler_def requireRunMode_def performCmd_Step_def FPrime_ops_def)
  moreover have "CS_RUN_cmdHandler FPrime_ops E op sq fileName b c = Some ?c4"
    using l(1,4) s(1) assms(1) by (simp add: CS_RUN_cmdHandler_def requireRunMode_def idle_def)
  ultimately show ?thesis by blast
qed

theorem step_past_end_aborts_witness:
  "\<exists>c1. CS_RUN_cmdHandler FPrime_ops (demo_env (seq_file 2 0 [SeqCmd False 0 0 [7]])) 1 2 ''s''
      NO_BLOCK demo_sequencer = Some c1 \<and>
    CS_STEP_cmdHandler FPrime_ops (demo_env (seq_file 2 0 [SeqCmd False 0 0 [7]])) 3 4 c1 = None"
  using step_past_end_aborts [of demo_sequencer "demo_env (seq_file 2 0 [SeqCmd False 0 0 [7]])" "''s''"
      2 0 False 0 0 "[7]" 1 2 NO_BLOCK 3 4]
  by (simp add: demo_has_file seq_rec_ok_def normal_record_def)

text \<open>An absolute command at the front of the buffer whose time has come is sent by \<open>CS_START\<close> at once.\<close>

lemma CS_START_due:
  assumes wf: "seq_wf (m_sequence c)" "com_wf (m_record c)" and st: "m_runMode c = STOPPED"
    and u: "unread (m_buffer (m_sequence c)) = rec_bytes (SeqCmd True sec usec bs) @ others"
    and ok: "seq_rec_ok (SeqCmd True sec usec bs)" "normalized (Time_make tb tc sec usec)"
    and hd: "hd_timeBase (m_header (m_sequence c)) = tb" "hd_timeContext (m_header (m_sequence c)) = tc"
    and clock: "normal_clock E" "same_clock (clock E (h_ticks (m_host c))) (Time_make tb tc sec usec)"
      "micros (Time_make tb tc sec usec) \<le> micros (clock E (h_ticks (m_host c)))"
  shows "\<exists>c'. CS_START_cmdHandler FPrime_ops E op sq c = Some c' \<and> sent c' = sent c @ [bs]"
proof -
  let ?now = "clock E (h_ticks (m_host c))" and ?s = "m_sequence c"
  have swf: "ser_wf (m_buffer ?s)" "\<not> m_null (m_buffer ?s)" using wf(1) by (simp_all add: seq_wf_def)
  have hasMore: "FPrime_hasMoreRecords ?s"
    using unat_getBuffLeft [OF swf(1)] u
    by (auto simp: FPrime_hasMoreRecords_def word_gt_0 simp flip: unat_eq_zero)
  obtain rcd where d: "com_wf rcd" "holds_record rcd (SeqCmd True sec usec bs)"
    "deserializeRecord ?s (m_record c) = Some (FW_SERIALIZE_OK, rcd,
       ?s\<lparr>m_buffer := consume (m_buffer ?s) (length (rec_bytes (SeqCmd True sec usec bs)))\<rparr>)"
    by (rule deserializeRecord_ok [OF swf wf(2) u ok(1)])
  let ?s' = "?s\<lparr>m_buffer := consume (m_buffer ?s) (length (rec_bytes (SeqCmd True sec usec bs)))\<rparr>"
  have nx: "FPrime_nextRecord ?s (m_record c) = Some (rcd, ?s')" using d(3) by (simp add: FPrime_nextRecord_def)
  define tag where "tag = setTimeContext (setTimeBase (m_timeTag rcd) tb) tc"
  have "tag = Time_make tb tc sec usec"
    using d(2) by (intro Time.equality) (simp_all add: tag_def setTimeContext_def setTimeBase_def)
  then have due: "Time_ge ?now tag"
    using ok(2) clock Time_compare_micros [of ?now "Time_make tb tc sec usec"]
    by (simp add: Time_ge_def normal_clock_def)
  let ?c2 = "c\<lparr>m_blockState := NO_BLOCK, m_runMode := RUNNING\<rparr>"
  let ?c3 = "fetched ?c2 ?s' rcd tag"
  have "performCmd_Step FPrime_ops E ?c2 = performCmd_Step_ABSOLUTE ?now ?c3"
    using performCmd_Step_fetched [of FPrime_ops ?c2 rcd ?s' E] nx hd d(2)
    by (simp add: FPrime_ops_def tag_def Let_def)
  moreover obtain tm where "performCmd_Step_ABSOLUTE ?now ?c3 = Some ((comCmdOut_out ?c3)\<lparr>m_cmdTimeoutTimer := tm\<rparr>)"
  proof (rule performCmd_Step_ABSOLUTE_cases [of ?now ?c3])
    show "normalized ?now" using clock(1) by (simp add: normal_clock_def)
  qed (use due in simp_all)
  ultimately have "CS_START_cmdHandler FPrime_ops E op sq c =
      Some (cmdResponse_out op sq CmdResponse_OK (event (CS_CmdStarted (op_getLogFileName FPrime_ops
        (m_sequence (comCmdOut_out ?c3)))) ((comCmdOut_out ?c3)\<lparr>m_cmdTimeoutTimer := tm\<rparr>)))"
    using hasMore st by (simp add: CS_START_cmdHandler_def requireRunMode_def FPrime_ops_def)
  moreover have "sent ?c3 = sent c" by (simp add: fetched_def sent_def)
  ultimately show ?thesis using d(2) by (simp add: cs_simps)
qed

text \<open>
  C40: A file whose CRC does not match is reported, with both CRCs, and \<open>CS_RUN\<close> answers \<open>EXECUTION_ERROR\<close>, but the
  rejected records stay in the buffer: a following \<open>CS_START\<close> runs them. Stated for records that begin with an
  absolute command whose time has come, which is then sent at once, on an idle sequencer whose buffer has less than 2^30 bytes.
\<close>

theorem rejected_sequence_runs:
  assumes "idle c" "seq_rec_ok (SeqCmd True sec usec bs)" "normalized (Time_make tb tc sec usec)"
    "body = rec_bytes (SeqCmd True sec usec bs) @ others"
    "length body + 4 \<le> length (m_data (m_buffer (m_sequence c)))" "unat n = length body + 4"
    "opens (kernel E) (CmdStringArg_of fileName) fd"
    "serves (kernel E) fd (header_bytes n nr tb tc @ body @ bytes_of_U32 crc @ extra)"
    "crc \<noteq> seq_crc (header_bytes n nr tb tc @ body)" "normal_clock E"
    "same_clock (clock E (h_ticks (m_host c))) (Time_make tb tc sec usec)"
    "micros (Time_make tb tc sec usec) \<le> micros (clock E (h_ticks (m_host c)))"
  shows "\<exists>c1 c2. CS_RUN_cmdHandler FPrime_ops E op sq fileName b c = Some c1 \<and>
    h_outs (m_host c1) = h_outs (m_host c) @
      [Log (CS_FileCrcFailure (LogStringArg_of fileName) crc (seq_crc (header_bytes n nr tb tc @ body))),
       Tlm_Errors (m_errorCount (m_host c) + 1), CmdResponse_out op sq EXECUTION_ERROR] \<and>
    answered c1 = answered c @ [(op, sq, EXECUTION_ERROR)] \<and>
    CS_START_cmdHandler FPrime_ops E op' sq' c1 = Some c2 \<and> sent c2 = sent c @ [bs]"
proof -
  let ?c0 = "c\<lparr>m_blockState := b, m_cmdSeq := sq, m_opCode := op\<rparr>"
  let ?now = "clock E (h_ticks (m_host c))"
  have wf: "seq_wf (m_sequence c)" and com: "com_wf (m_record c)" and st: "m_runMode c = STOPPED"
    using assms(1) by (simp_all add: idle_def)
  obtain s h where l: "FPrime_loadFile E fileName (m_sequence c, m_host c) = Some (False, s, h)"
    "reported (m_host c) (CS_FileCrcFailure (LogStringArg_of fileName) crc
       (seq_crc (header_bytes n nr tb tc @ body))) h"
    "seq_wf s" "unread (m_buffer s) = body" "hd_timeBase (m_header s) = tb"
    "hd_timeContext (m_header s) = tc" "h_ticks h = h_ticks (m_host c)"
    by (rule loadFile_corrupted [OF wf assms(5-9)])
  define c1 where "c1 = cmdResponse_out op sq EXECUTION_ERROR (?c0\<lparr>m_sequence := s, m_host := h\<rparr>)"
  have run: "CS_RUN_cmdHandler FPrime_ops E op sq fileName b c = Some c1"
    using st l(1) by (simp add: CS_RUN_cmdHandler_def requireRunMode_def loadFile_def FPrime_ops_def c1_def)
  have c1: "m_sequence c1 = s" "m_record c1 = m_record c" "m_runMode c1 = STOPPED"
    "sent c1 = sent c" "answered c1 = answered c @ [(op, sq, EXECUTION_ERROR)]"
    "h_ticks (m_host c1) = h_ticks (m_host c)"
    using st l(2,7) by (simp_all add: c1_def cs_simps reported_def)
  have outs: "h_outs (m_host c1) = h_outs (m_host c) @
      [Log (CS_FileCrcFailure (LogStringArg_of fileName) crc (seq_crc (header_bytes n nr tb tc @ body))),
       Tlm_Errors (m_errorCount (m_host c) + 1), CmdResponse_out op sq EXECUTION_ERROR]"
    using l(2) by (simp add: c1_def reported_def cmdResponse_out_def out_def emit_def)
  have "\<exists>c2. CS_START_cmdHandler FPrime_ops E op' sq' c1 = Some c2 \<and> sent c2 = sent c1 @ [bs]"
    by (rule CS_START_due [where sec = sec and usec = usec and tb = tb and tc = tc and others = others])
      (use assms(2-4,10-12) com c1 l(3-6) in simp_all)
  then show ?thesis using run outs c1(4,5) by auto
qed

text \<open>A file with one command in it whose stored CRC is not the one of its bytes.\<close>

definition demo_bad_file :: "U8 list" where
  "demo_bad_file = header_bytes 18 1 2 0 @ rec_bytes (SeqCmd True 0 0 [7]) @
     bytes_of_U32 (NOT (seq_crc (header_bytes 18 1 2 0 @ rec_bytes (SeqCmd True 0 0 [7]))))"

theorem rejected_sequence_runs_witness:
  "\<exists>c1 c2. CS_RUN_cmdHandler FPrime_ops (demo_env demo_bad_file) 1 2 ''bad.bin'' NO_BLOCK
      demo_sequencer = Some c1 \<and> answered c1 = [(1, 2, EXECUTION_ERROR)] \<and>
    CS_START_cmdHandler FPrime_ops (demo_env demo_bad_file) 3 4 c1 = Some c2 \<and> sent c2 = [[7]]"
proof -
  have "NOT x \<noteq> x" for x :: U32
  proof
    assume "NOT x = x"
    then have "bit (NOT x) 0 = bit x 0" by simp
    then show False by (simp add: bit_not_iff)
  qed
  moreover have "clock (demo_env demo_bad_file) (h_ticks (m_host demo_sequencer)) = Time_make 2 0 0 0"
    by (simp add: demo_env_def demo_sequencer_def CmdSequencer_new_def)
  ultimately show ?thesis
    using rejected_sequence_runs [of demo_sequencer 0 0 "[7]" 2 0 "rec_bytes (SeqCmd True 0 0 [7])" "[]"
        18 "demo_env demo_bad_file" "''bad.bin''" 5 1
        "NOT (seq_crc (header_bytes 18 1 2 0 @ rec_bytes (SeqCmd True 0 0 [7])))" "[]" 1 2 NO_BLOCK 3 4]
    by (simp add: demo_bad_file_def seq_rec_ok_def normalized_def same_clock_def micros_def
        del: rec_bytes.simps) (auto simp: demo_bad_file_def)
qed

text \<open>
  \<open>CS_JOIN_WAIT\<close> takes the place of the command that waits for the run: after it neither the
  completion nor a cancel of the run answers the blocked \<open>CS_RUN\<close>, only the \<open>CS_JOIN_WAIT\<close>.
\<close>

theorem join_wait_takes_over:
  assumes "m_runMode c = RUNNING"
  shows "answered (sequenceComplete ops (CS_JOIN_WAIT_cmdHandler ops op sq c)) =
      answered c @ [(op, sq, CmdResponse_OK)] \<and>
    answered (performCmd_Cancel ops (CS_JOIN_WAIT_cmdHandler ops op sq c)) =
      answered c @ [(op, sq, EXECUTION_ERROR)]"
proof -
  have "answered (CS_JOIN_WAIT_cmdHandler ops op sq c) = answered c"
    "m_join_waiting (CS_JOIN_WAIT_cmdHandler ops op sq c)"
    "m_opCode (CS_JOIN_WAIT_cmdHandler ops op sq c) = op"
    "m_cmdSeq (CS_JOIN_WAIT_cmdHandler ops op sq c) = sq"
    using assms by (simp_all add: CS_JOIN_WAIT_cmdHandler_def cs_simps)
  then show ?thesis by (simp add: sequenceComplete_fields performCmd_Cancel_fields)
qed

theorem join_wait_takes_over_witness:
  "answered (sequenceComplete FPrime_ops (CS_JOIN_WAIT_cmdHandler FPrime_ops 5 6
     (demo_sequencer\<lparr>m_runMode := RUNNING, m_blockState := BLOCK, m_opCode := 3, m_cmdSeq := 4\<rparr>))) =
   [(5, 6, CmdResponse_OK)]"
proof -
  let ?c = "demo_sequencer\<lparr>m_runMode := RUNNING, m_blockState := BLOCK, m_opCode := 3, m_cmdSeq := 4\<rparr>"
  have "answered ?c = []" by (simp add: answered_def demo_sequencer_def CmdSequencer_new_def)
  then show ?thesis using join_wait_takes_over [of ?c FPrime_ops 5 6] by simp
qed

end
