(* ===== verification/Fw_Buffer.thy ===== *)
theory Fw_Buffer
  imports Ser_Codecs
begin

text \<open>
  Fw/Buffer/Buffer.cpp: a sized view of memory that travels between components by reference,
  with a serialization buffer over the same bytes. \<open>m_bufferData\<close> is the memory the data
  pointer leads to (\<^const>\<open>None\<close> for a null pointer), \<open>m_serialize_repr\<close> the serialization
  buffer over its first \<open>m_size\<close> bytes; a write through it is carried back to the memory by
  \<open>putSerializeRepr\<close>. The wire form of a buffer is a raw address and is not modelled.
\<close>

record Fw_Buffer =
  m_serialize_repr :: ser_buf
  m_bufferData :: "U8 list option"
  m_size :: U32
  m_context :: U32

text \<open>\<open>ExternalSerializeBuffer()\<close> and \<open>setExtBuffer(m_bufferData, m_size)\<close>.\<close>

definition ExternalSerializeBuffer_new :: ser_buf where
  "ExternalSerializeBuffer_new = \<lparr>m_data = [], m_null = True, m_serLoc = 0, m_deserLoc = 0\<rparr>"

definition setExtBuffer_sized :: "ser_buf \<Rightarrow> U8 list option \<Rightarrow> U32 \<Rightarrow> ser_buf option" where
  "setExtBuffer_sized r data n = setExtBuffer r (map_option (take (unat n)) data)"

definition Buffer_empty :: Fw_Buffer where
  "Buffer_empty = \<lparr>m_serialize_repr = ExternalSerializeBuffer_new, m_bufferData = None,
     m_size = 0, m_context = 0xFFFFFFFF\<rparr>"

text \<open>Unlike assignment, the copy constructor hands a null pointer to \<open>setExtBuffer\<close>, which asserts.\<close>

definition Buffer_copy :: "Fw_Buffer \<Rightarrow> Fw_Buffer option" where
  "Buffer_copy src = do {
     r \<leftarrow> setExtBuffer_sized ExternalSerializeBuffer_new (m_bufferData src) (m_size src);
     Some \<lparr>m_serialize_repr = r, m_bufferData = m_bufferData src, m_size = m_size src,
       m_context = m_context src\<rparr>
   }"

definition refresh_repr :: "Fw_Buffer \<Rightarrow> Fw_Buffer" where
  "refresh_repr b =
     (case setExtBuffer_sized (m_serialize_repr b) (m_bufferData b) (m_size b) of
        None \<Rightarrow> b | Some r \<Rightarrow> b\<lparr>m_serialize_repr := r\<rparr>)"

definition Buffer_new :: "U8 list option \<Rightarrow> U32 \<Rightarrow> U32 \<Rightarrow> Fw_Buffer" where
  "Buffer_new data n context =
     refresh_repr \<lparr>m_serialize_repr = ExternalSerializeBuffer_new, m_bufferData = data,
       m_size = n, m_context = context\<rparr>"

definition Buffer_set :: "Fw_Buffer \<Rightarrow> U8 list option \<Rightarrow> U32 \<Rightarrow> U32 \<Rightarrow> Fw_Buffer" where
  "Buffer_set b data n context =
     (refresh_repr (b\<lparr>m_bufferData := data, m_size := n\<rparr>))\<lparr>m_context := context\<rparr>"

definition Buffer_assign :: "Fw_Buffer \<Rightarrow> Fw_Buffer \<Rightarrow> Fw_Buffer" where
  "Buffer_assign b src = Buffer_set b (m_bufferData src) (m_size src) (m_context src)"

definition Buffer_setData :: "Fw_Buffer \<Rightarrow> U8 list option \<Rightarrow> Fw_Buffer" where
  "Buffer_setData b data = refresh_repr (b\<lparr>m_bufferData := data\<rparr>)"

definition Buffer_setSize :: "Fw_Buffer \<Rightarrow> U32 \<Rightarrow> Fw_Buffer" where
  "Buffer_setSize b n = refresh_repr (b\<lparr>m_size := n\<rparr>)"

definition Buffer_setContext :: "Fw_Buffer \<Rightarrow> U32 \<Rightarrow> Fw_Buffer" where
  "Buffer_setContext b context = b\<lparr>m_context := context\<rparr>"

definition getSerializeRepr :: "Fw_Buffer \<Rightarrow> ser_buf" where
  "getSerializeRepr b = m_serialize_repr b"

definition putSerializeRepr :: "Fw_Buffer \<Rightarrow> ser_buf \<Rightarrow> Fw_Buffer" where
  "putSerializeRepr b r =
     b\<lparr>m_serialize_repr := r,
       m_bufferData := map_option (\<lambda>m. m_data r @ drop (length (m_data r)) m) (m_bufferData b)\<rparr>"

text \<open>
  The bytes the buffer describes, and the form every buffer from an allocator has: memory of at
  least \<open>m_size\<close> bytes, and a fresh serialization buffer over them.
\<close>

definition buffer_bytes :: "Fw_Buffer \<Rightarrow> U8 list" where
  "buffer_bytes b = (case m_bufferData b of None \<Rightarrow> [] | Some m \<Rightarrow> take (unat (m_size b)) m)"

definition fresh_buffer :: "Fw_Buffer \<Rightarrow> bool" where
  "fresh_buffer b \<longleftrightarrow> (\<exists>m. m_bufferData b = Some m \<and> unat (m_size b) \<le> length m \<and>
     unat (m_size b) < 2147483648 \<and>
     m_serialize_repr b = \<lparr>m_data = take (unat (m_size b)) m, m_null = False, m_serLoc = 0, m_deserLoc = 0\<rparr>)"

lemma refresh_repr_null: "m_bufferData b = None \<Longrightarrow> refresh_repr b = b"
  by (simp add: refresh_repr_def setExtBuffer_sized_def setExtBuffer_def)

lemma refresh_repr_mem:
  "m_bufferData b = Some m \<Longrightarrow> refresh_repr b =
     b\<lparr>m_serialize_repr := (m_serialize_repr b)\<lparr>m_data := take (unat (m_size b)) m, m_null := False\<rparr>\<rparr>"
  by (simp add: refresh_repr_def setExtBuffer_sized_def setExtBuffer_def)

lemma refresh_repr_sel [simp]:
  "m_bufferData (refresh_repr b) = m_bufferData b" "m_size (refresh_repr b) = m_size b"
  "m_context (refresh_repr b) = m_context b"
  by (simp_all add: refresh_repr_def split: option.split)

lemma Buffer_copy_null: "m_bufferData b = None \<Longrightarrow> Buffer_copy b = None"
  by (simp add: Buffer_copy_def setExtBuffer_sized_def setExtBuffer_def)

lemma Buffer_new_fresh:
  "unat n \<le> length m \<Longrightarrow> unat n < 2147483648 \<Longrightarrow> fresh_buffer (Buffer_new (Some m) n ctx)"
  by (simp add: Buffer_new_def fresh_buffer_def refresh_repr_mem ExternalSerializeBuffer_new_def)

lemma fresh_repr:
  assumes "fresh_buffer b"
  shows "ser_wf (m_serialize_repr b)" "contents (m_serialize_repr b) = []"
    "room (m_serialize_repr b) = unat (m_size b)" "m_null (m_serialize_repr b) = False"
  using assms
  by (auto simp: fresh_buffer_def ser_wf_def contents_def room_def min_def)

end
