(* ===== verification/Hash.thy ===== *)
theory Hash
  imports Ser_Codecs Crc32
begin

text \<open>
  Utils/Hash: the incremental hash of the framing protocol (CRC32.cpp over the CRC-32 library)
  and the 4-byte buffer its digest is returned in (HashBufferCommon.cpp). The handle is the
  32-bit \<open>HASH_HANDLE_TYPE\<close>; a length is a signed \<open>int\<close>, so that a negative one hashes nothing.
\<close>

unbundle bit_operations_syntax

definition HASH_DIGEST_LENGTH :: nat where
  "HASH_DIGEST_LENGTH = 4"

section \<open>The digest buffer\<close>

text \<open>The uninitialised member array of a new \<open>HashBuffer\<close> is the parameter.\<close>

definition HashBuffer_new :: "U8 list \<Rightarrow> ser_buf" where
  "HashBuffer_new raw = SerializeBufferBase_new (take HASH_DIGEST_LENGTH raw)"

definition HashBuffer_assign :: "ser_buf \<Rightarrow> ser_buf \<Rightarrow> ser_buf option" where
  "HashBuffer_assign b other = do {
     (stat, b) \<leftarrow> setBuff b (Some (m_data other)) (getBuffLength other);
     fw_assert (stat = FW_SERIALIZE_OK);
     Some b
   }"

definition HashBuffer_of :: "U8 list \<Rightarrow> U8 list option \<Rightarrow> U32 \<Rightarrow> ser_buf option" where
  "HashBuffer_of raw args len = do {
     (stat, b) \<leftarrow> setBuff (HashBuffer_new raw) args len;
     fw_assert (stat = FW_SERIALIZE_OK);
     Some b
   }"

text \<open>Two buffers of different length compare equal.\<close>

definition HashBuffer_eq :: "ser_buf \<Rightarrow> ser_buf \<Rightarrow> bool" where
  "HashBuffer_eq a b =
     (\<not> (getBuffLength a = getBuffLength b \<and>
         take (unat (getBuffLength a)) (m_data a) \<noteq> take (unat (getBuffLength a)) (m_data b)))"

definition HashBuffer_neq :: "ser_buf \<Rightarrow> ser_buf \<Rightarrow> bool" where
  "HashBuffer_neq a b = (\<not> HashBuffer_eq a b)"

section \<open>The hash\<close>

record Hash =
  hash_handle :: U32

definition Hash_init :: "Hash \<Rightarrow> Hash" where
  "Hash_init h = h\<lparr>hash_handle := 0xffffffff\<rparr>"

definition Hash_new :: Hash where
  "Hash_new = Hash_init \<lparr>hash_handle = 0\<rparr>"

definition hashed_bytes :: "U8 list \<Rightarrow> 32 word \<Rightarrow> U8 list option" where
  "hashed_bytes data len = read_at data 0 (nat (sint len))"

definition Hash_update :: "Hash \<Rightarrow> U8 list option \<Rightarrow> 32 word \<Rightarrow> Hash option" where
  "Hash_update h data len = do {
     d \<leftarrow> data;
     bs \<leftarrow> hashed_bytes d len;
     Some (h\<lparr>hash_handle := crc_update (hash_handle h) bs\<rparr>)
   }"

definition digest_to :: "U32 \<Rightarrow> ser_buf \<Rightarrow> ser_buf option" where
  "digest_to handle buffer = do {
     (stat, out) \<leftarrow> serialize_U32 (HashBuffer_new (replicate HASH_DIGEST_LENGTH 0)) (NOT handle);
     fw_assert (stat = FW_SERIALIZE_OK);
     HashBuffer_assign buffer out
   }"

definition Hash_final :: "Hash \<Rightarrow> ser_buf \<Rightarrow> ser_buf option" where
  "Hash_final h buffer = digest_to (hash_handle h) buffer"

definition Hash_final_U32 :: "Hash \<Rightarrow> U32" where
  "Hash_final_U32 h = NOT (hash_handle h)"

definition Hash_setHashValue :: "Hash \<Rightarrow> ser_buf \<Rightarrow> (Hash \<times> ser_buf) option" where
  "Hash_setHashValue h val = do {
     (r, val) \<leftarrow> deserialize_U32 val;
     case r of
       Inl e \<Rightarrow> None
     | Inr v \<Rightarrow> Some (h\<lparr>hash_handle := NOT v\<rparr>, val)
   }"

definition Hash_hash :: "U8 list option \<Rightarrow> 32 word \<Rightarrow> ser_buf \<Rightarrow> ser_buf option" where
  "Hash_hash data len buffer = do {
     d \<leftarrow> data;
     bs \<leftarrow> hashed_bytes d len;
     digest_to (crc_update 0xffffffff bs) buffer
   }"

section \<open>What the digest is\<close>

definition crc32_digest :: "U8 list \<Rightarrow> U8 list" where
  "crc32_digest bs = bytes_of_U32 (NOT (crc_update 0xffffffff bs))"

lemma length_crc32_digest [simp]: "length (crc32_digest bs) = 4"
  by (simp add: crc32_digest_def)

lemma HashBuffer_new_wf:
  "length raw = 4 \<Longrightarrow> ser_wf (HashBuffer_new raw) \<and> room (HashBuffer_new raw) = 4 \<and>
     m_null (HashBuffer_new raw) = False"
  by (simp add: HashBuffer_new_def HASH_DIGEST_LENGTH_def SerializeBufferBase_new_def ser_wf_def room_def)

lemma digest_to_ok:
  assumes "length raw = 4"
  shows "\<exists>b. digest_to handle (HashBuffer_new raw) = Some b \<and> m_data b = bytes_of_U32 (NOT handle) \<and>
    ser_wf b \<and> getBuffLength b = 4 \<and> m_null b = False"
proof -
  let ?n = "HashBuffer_new (replicate HASH_DIGEST_LENGTH 0)"
  have "serialize_U32 ?n (NOT handle) = Some (FW_SERIALIZE_OK, append_to ?n (bytes_of_U32 (NOT handle)))"
    by (rule u32.put_ok) (simp_all add: HashBuffer_new_wf HASH_DIGEST_LENGTH_def)
  moreover have "m_data (append_to ?n (bytes_of_U32 (NOT handle))) = bytes_of_U32 (NOT handle)"
      "getBuffLength (append_to ?n (bytes_of_U32 (NOT handle))) = 4"
    by (simp_all add: append_to_def HashBuffer_new_def HASH_DIGEST_LENGTH_def
        SerializeBufferBase_new_def getBuffLength_def)
  ultimately show ?thesis using assms
    by (simp add: digest_to_def HashBuffer_assign_def setBuff_def getBuffCapacity_def getBuffLength_def
        HashBuffer_new_def HASH_DIGEST_LENGTH_def SerializeBufferBase_new_def ser_wf_def
        read_at_def write_at_def)
qed

lemma hashed_bytes_ok:
  assumes "unat len \<le> length d" "unat len < 2147483648"
  shows "hashed_bytes d len = Some (take (unat len) d)"
  using assms sint_small [of len] by (simp add: hashed_bytes_def read_at_def)

lemma Hash_hash_ok:
  assumes "unat len \<le> length d" "unat len < 2147483648" "length raw = 4"
  shows "\<exists>b. Hash_hash (Some d) len (HashBuffer_new raw) = Some b \<and>
    m_data b = crc32_digest (take (unat len) d)"
  using digest_to_ok [OF assms(3), of "crc_update 0xffffffff (take (unat len) d)"]
  by (auto simp: Hash_hash_def hashed_bytes_ok [OF assms(1,2)] crc32_digest_def)

end
