(* ===== verification/Refinement.thy ===== *)
theory Refinement
  imports Prelude
begin

text \<open>
  Functional refinement of an operation-based component: the code's step, which may fail an
  assertion, against a total step on an abstract state. Proved once for every component whose
  contract is a data structure (the byte ring, the message queues).
\<close>

fun run_steps :: "('op \<Rightarrow> 's \<Rightarrow> ('r \<times> 's) option) \<Rightarrow> 'op list \<Rightarrow> 's \<Rightarrow> ('r list \<times> 's) option" where
  "run_steps step [] s = Some ([], s)"
| "run_steps step (x # xs) s = do {
     (r, s) \<leftarrow> step x s;
     (rs, s) \<leftarrow> run_steps step xs s;
     Some (r # rs, s)
   }"

lemma run_steps_append:
  "run_steps step (xs @ ys) s = do {
     (rs, s) \<leftarrow> run_steps step xs s;
     (rs', s) \<leftarrow> run_steps step ys s;
     Some (rs @ rs', s)
   }"
  by (induction xs arbitrary: s) (auto split: bind_splits prod.splits)

fun run_spec :: "('op \<Rightarrow> 'a \<Rightarrow> 'r \<times> 'a) \<Rightarrow> 'op list \<Rightarrow> 'a \<Rightarrow> 'r list \<times> 'a" where
  "run_spec spec [] a = ([], a)"
| "run_spec spec (x # xs) a =
     (let (r, a) = spec x a; (rs, a) = run_spec spec xs a in (r # rs, a))"

text \<open>
  Components with a 32-bit counter refine their specification only while the counter does not
  wrap. Their invariant is indexed by the number of operations that may still run.
\<close>

locale budgeted_refinement =
  fixes step :: "'op \<Rightarrow> 's \<Rightarrow> ('r \<times> 's) option"
    and spec :: "'op \<Rightarrow> 'a \<Rightarrow> 'r \<times> 'a"
    and inv :: "nat \<Rightarrow> 's \<Rightarrow> bool"
    and abs :: "'s \<Rightarrow> 'a"
    and pre :: "'op \<Rightarrow> bool"
  assumes step_refines: "inv (Suc n) s \<Longrightarrow> pre x \<Longrightarrow>
    \<exists>s'. step x s = Some (fst (spec x (abs s)), s') \<and> inv n s' \<and> abs s' = snd (spec x (abs s))"
begin

text \<open>No sequence of operations fails, and each answers what the abstract state answers.\<close>

lemma run_refines:
  assumes "inv (length xs + n) s" "\<forall>x \<in> set xs. pre x"
  shows "\<exists>s'. run_steps step xs s = Some (fst (run_spec spec xs (abs s)), s') \<and> inv n s' \<and>
    abs s' = snd (run_spec spec xs (abs s))"
  using assms
proof (induction xs arbitrary: s)
  case (Cons x xs)
  from step_refines [of "length xs + n" s x] Cons.prems obtain t where
    t: "step x s = Some (fst (spec x (abs s)), t)" "inv (length xs + n) t"
      "abs t = snd (spec x (abs s))" by auto
  from Cons.IH [OF t(2)] Cons.prems obtain u where
    "run_steps step xs t = Some (fst (run_spec spec xs (abs t)), u)" "inv n u"
    "abs u = snd (run_spec spec xs (abs t))" by auto
  with t show ?case by (simp add: case_prod_beta)
qed simp

end

text \<open>An invariant without a budget is kept for any number of operations.\<close>

locale refinement =
  fixes step :: "'op \<Rightarrow> 's \<Rightarrow> ('r \<times> 's) option"
    and spec :: "'op \<Rightarrow> 'a \<Rightarrow> 'r \<times> 'a"
    and inv :: "'s \<Rightarrow> bool"
    and abs :: "'s \<Rightarrow> 'a"
    and pre :: "'op \<Rightarrow> bool"
  assumes always_refines: "inv s \<Longrightarrow> pre x \<Longrightarrow>
    \<exists>s'. step x s = Some (fst (spec x (abs s)), s') \<and> inv s' \<and> abs s' = snd (spec x (abs s))"

sublocale refinement \<subseteq> unbounded: budgeted_refinement step spec "\<lambda>_. inv" abs pre
  by unfold_locales (rule always_refines)

end
