(* ===== verification/Circular_Buffer.thy ===== *)
theory Circular_Buffer
  imports Ser_Buffer Refinement
begin

text \<open>
  Utils/Types/CircularBuffer.cpp: the byte ring the deframer collects uplinked data in. The
  indices are 32-bit words, an index outside the store or a failed assertion is
  \<^const>\<open>None\<close>. The ring refines a bounded queue of bytes: the interpretation of the
  locale \<open>refinement\<close> at the end.
\<close>

section \<open>State and operations\<close>

record CircularBuffer =
  m_store :: "U8 list"
  m_store_size :: U32
  m_head_idx :: U32
  m_allocated_size :: U32

definition CircularBuffer_new :: "U8 list \<Rightarrow> U32 \<Rightarrow> CircularBuffer option" where
  "CircularBuffer_new buffer sz = do {
     fw_assert (sz > 0);
     Some \<lparr>m_store = buffer, m_store_size = sz, m_head_idx = 0, m_allocated_size = 0\<rparr>
   }"

definition get_allocated_size :: "CircularBuffer \<Rightarrow> U32" where
  "get_allocated_size cb = m_allocated_size cb"

definition get_free_size :: "CircularBuffer \<Rightarrow> U32 option" where
  "get_free_size cb = do {
     fw_assert (m_allocated_size cb \<le> m_store_size cb);
     Some (m_store_size cb - m_allocated_size cb)
   }"

definition get_capacity :: "CircularBuffer \<Rightarrow> U32" where
  "get_capacity cb = m_store_size cb"

definition advance_idx :: "CircularBuffer \<Rightarrow> U32 \<Rightarrow> U32 \<Rightarrow> U32 option" where
  "advance_idx cb idx amount = do {
     fw_assert (idx < m_store_size cb);
     Some ((idx + amount) mod m_store_size cb)
   }"

text \<open>The loop of \<open>serialize\<close>, over the bytes of the supplied buffer.\<close>

fun serialize_loop :: "CircularBuffer \<Rightarrow> U8 list \<Rightarrow> U32 \<Rightarrow> CircularBuffer option" where
  "serialize_loop cb [] idx = Some cb"
| "serialize_loop cb (b # bs) idx = do {
     fw_assert (idx < m_store_size cb);
     st \<leftarrow> write_at (m_store cb) (unat idx) [b];
     idx \<leftarrow> advance_idx cb idx 1;
     serialize_loop (cb\<lparr>m_store := st\<rparr>) bs idx
   }"

text \<open>A null \<open>buffer\<close> is \<^const>\<open>None\<close>.\<close>

definition ring_serialize ::
  "CircularBuffer \<Rightarrow> U8 list option \<Rightarrow> U32 \<Rightarrow> (SerializeStatus \<times> CircularBuffer) option" where
  "ring_serialize cb buffer sz = do {
     src \<leftarrow> buffer;
     free \<leftarrow> get_free_size cb;
     if sz > free then Some (FW_SERIALIZE_NO_ROOM_LEFT, cb)
     else do {
       idx \<leftarrow> advance_idx cb (m_head_idx cb) (m_allocated_size cb);
       bs \<leftarrow> read_at src 0 (unat sz);
       cb \<leftarrow> serialize_loop cb bs idx;
       let cb = cb\<lparr>m_allocated_size := m_allocated_size cb + sz\<rparr>;
       fw_assert (m_allocated_size cb \<le> get_capacity cb);
       Some (FW_SERIALIZE_OK, cb)
     }
   }"

text \<open>
  \<open>sizeof\<close> is a 64-bit \<open>size_t\<close>, so the bounds of the typed overloads of \<open>peek\<close> do not
  wrap; the one of the raw overload, \<open>size + offset\<close>, is 32-bit arithmetic.
\<close>

definition peek_U8 :: "CircularBuffer \<Rightarrow> U32 \<Rightarrow> (SerializeStatus + U8) option" where
  "peek_U8 cb offset =
     (if (1 :: 64 word) + ucast offset > ucast (m_allocated_size cb)
      then Some (Inl FW_DESERIALIZE_BUFFER_EMPTY)
      else do {
        idx \<leftarrow> advance_idx cb (m_head_idx cb) offset;
        fw_assert (idx < m_store_size cb);
        bs \<leftarrow> read_at (m_store cb) (unat idx) 1;
        Some (Inr (hd bs))
      })"

fun peek_U32_loop :: "CircularBuffer \<Rightarrow> nat \<Rightarrow> U32 \<Rightarrow> U32 \<Rightarrow> U32 option" where
  "peek_U32_loop cb 0 idx v = Some v"
| "peek_U32_loop cb (Suc n) idx v = do {
     fw_assert (idx < m_store_size cb);
     bs \<leftarrow> read_at (m_store cb) (unat idx) 1;
     idx \<leftarrow> advance_idx cb idx 1;
     peek_U32_loop cb n idx (push_bit 8 v OR ucast (hd bs))
   }"

definition peek_U32 :: "CircularBuffer \<Rightarrow> U32 \<Rightarrow> (SerializeStatus + U32) option" where
  "peek_U32 cb offset =
     (if (4 :: 64 word) + ucast offset > ucast (m_allocated_size cb)
      then Some (Inl FW_DESERIALIZE_BUFFER_EMPTY)
      else do {
        idx \<leftarrow> advance_idx cb (m_head_idx cb) offset;
        v \<leftarrow> peek_U32_loop cb 4 idx 0;
        Some (Inr v)
      })"

fun peek_loop :: "CircularBuffer \<Rightarrow> nat \<Rightarrow> U32 \<Rightarrow> U8 list option" where
  "peek_loop cb 0 idx = Some []"
| "peek_loop cb (Suc n) idx = do {
     fw_assert (idx < m_store_size cb);
     bs \<leftarrow> read_at (m_store cb) (unat idx) 1;
     idx \<leftarrow> advance_idx cb idx 1;
     rest \<leftarrow> peek_loop cb n idx;
     Some (hd bs # rest)
   }"

text \<open>The raw overload writes to the front of \<open>buffer\<close>, \<^const>\<open>None\<close> for a null pointer.\<close>

definition peek_raw ::
  "CircularBuffer \<Rightarrow> U8 list option \<Rightarrow> U32 \<Rightarrow> U32 \<Rightarrow> (SerializeStatus \<times> U8 list) option" where
  "peek_raw cb buffer sz offset = do {
     dst \<leftarrow> buffer;
     if sz + offset > m_allocated_size cb then Some (FW_DESERIALIZE_BUFFER_EMPTY, dst)
     else do {
       idx \<leftarrow> advance_idx cb (m_head_idx cb) offset;
       bs \<leftarrow> peek_loop cb (unat sz) idx;
       dst \<leftarrow> write_at dst 0 bs;
       Some (FW_SERIALIZE_OK, dst)
     }
   }"

definition rotate_ring :: "CircularBuffer \<Rightarrow> U32 \<Rightarrow> (SerializeStatus \<times> CircularBuffer) option" where
  "rotate_ring cb amount =
     (if amount > m_allocated_size cb then Some (FW_DESERIALIZE_BUFFER_EMPTY, cb)
      else do {
        idx \<leftarrow> advance_idx cb (m_head_idx cb) amount;
        Some (FW_SERIALIZE_OK,
          cb\<lparr>m_head_idx := idx, m_allocated_size := m_allocated_size cb - amount\<rparr>)
      })"

section \<open>The byte queue it implements\<close>

text \<open>
  The bytes of the ring, oldest first. Well-formed: the indices are inside the store, and the
  store has at most 2^31 bytes, so that \<open>idx + amount\<close> does not wrap.
\<close>

definition ring_view :: "U8 list \<Rightarrow> nat \<Rightarrow> nat \<Rightarrow> U8 list" where
  "ring_view st h n = map (\<lambda>i. st ! ((h + i) mod length st)) [0..<n]"

definition ring_bytes :: "CircularBuffer \<Rightarrow> U8 list" where
  "ring_bytes cb = ring_view (m_store cb) (unat (m_head_idx cb)) (unat (m_allocated_size cb))"

definition ring_cap :: "CircularBuffer \<Rightarrow> nat" where
  "ring_cap cb = unat (m_store_size cb)"

definition ring_wf :: "CircularBuffer \<Rightarrow> bool" where
  "ring_wf cb \<longleftrightarrow> length (m_store cb) = unat (m_store_size cb) \<and>
     unat (m_store_size cb) \<le> 2147483648 \<and> m_head_idx cb < m_store_size cb \<and>
     m_allocated_size cb \<le> m_store_size cb"

lemma ring_wf_nat:
  assumes "ring_wf cb"
  shows "length (m_store cb) = ring_cap cb" "0 < ring_cap cb" "ring_cap cb \<le> 2147483648"
    "unat (m_store_size cb) = ring_cap cb" "unat (m_head_idx cb) < ring_cap cb"
    "unat (m_allocated_size cb) \<le> ring_cap cb"
  using assms by (auto simp: ring_wf_def ring_cap_def word_less_nat_alt word_le_nat_alt)

lemma length_ring [simp]: "length (ring_view st h n) = n"
  by (simp add: ring_view_def)

lemma length_ring_bytes: "length (ring_bytes cb) = unat (m_allocated_size cb)"
  by (simp add: ring_bytes_def)

lemma nth_ring [simp]: "i < n \<Longrightarrow> ring_view st h n ! i = st ! ((h + i) mod length st)"
  by (simp add: ring_view_def)

lemma mod_add_inj:
  fixes h :: nat
  assumes "(h + i) mod N = (h + j) mod N" "i < N" "j < N"
  shows "i = j"
  using assms
proof (induction i j rule: linorder_wlog)
  case (le i j)
  then have "N dvd (h + j) - (h + i)" using mod_eq_dvd_iff_nat [of "h + i" "h + j" N] by simp
  then show ?case using le by (auto dest: dvd_imp_le)
qed auto

lemma ring_put:
  assumes "n < length st"
  shows "ring_view (st[(h + n) mod length st := b]) h (Suc n) = ring_view st h n @ [b]"
proof (rule nth_equalityI)
  fix i assume i: "i < length (ring_view (st[(h + n) mod length st := b]) h (Suc n))"
  have n: "(h + n) mod length st < length st" using assms by (intro mod_less_divisor) linarith
  show "ring_view (st[(h + n) mod length st := b]) h (Suc n) ! i = (ring_view st h n @ [b]) ! i"
  proof (cases "i = n")
    case True
    then show ?thesis using n by (simp add: nth_append)
  next
    case False
    then have "(h + n) mod length st \<noteq> (h + i) mod length st"
      using mod_add_inj [of h n "length st" i] i assms by auto
    then show ?thesis using i False by (simp add: nth_append)
  qed
qed simp

lemma ring_drop: "drop k (ring_view st h n) = ring_view st ((h + k) mod length st) (n - k)"
  by (rule nth_equalityI) (auto simp: mod_add_right_eq ac_simps)

lemma write_one: "i < length xs \<Longrightarrow> write_at xs i [b] = Some (xs[i := b])"
  by (simp add: write_at_def upd_conv_take_nth_drop)

lemma read_one: "i < length xs \<Longrightarrow> read_at xs i (Suc 0) = Some [xs ! i]"
  by (simp add: read_at_def take_Suc_conv_app_nth hd_drop_conv_nth take_Suc)

lemma advance_ok:
  assumes "ring_wf cb" "unat idx < ring_cap cb" "unat amount \<le> ring_cap cb"
  shows "\<exists>j. advance_idx cb idx amount = Some j \<and> unat j = (unat idx + unat amount) mod ring_cap cb"
proof -
  note r = ring_wf_nat [OF assms(1)]
  have "unat (idx + amount) = unat idx + unat amount"
    using assms r by (intro unat_add_small) simp
  then show ?thesis
    using assms r by (simp add: advance_idx_def word_less_nat_alt unat_mod_distrib)
qed

section \<open>Each operation on the queue of bytes\<close>

lemma serialize_loop_ok:
  assumes "ring_wf cb" "unat idx = (unat (m_head_idx cb) + n) mod ring_cap cb"
    "n + length bs \<le> ring_cap cb"
  shows "\<exists>st. serialize_loop cb bs idx = Some (cb\<lparr>m_store := st\<rparr>) \<and>
    length st = length (m_store cb) \<and>
    ring_view st (unat (m_head_idx cb)) (n + length bs) = ring_view (m_store cb) (unat (m_head_idx cb)) n @ bs"
  using assms
proof (induction bs arbitrary: cb idx n)
  case Nil
  then show ?case by (intro exI [of _ "m_store cb"]) simp
next
  case (Cons b bs)
  note r = ring_wf_nat [OF Cons.prems(1)]
  let ?st = "(m_store cb)[unat idx := b]"
  let ?cb = "cb\<lparr>m_store := ?st\<rparr>"
  have idx: "unat idx < ring_cap cb" using Cons.prems(2) r by simp
  obtain j where j: "advance_idx cb idx 1 = Some j" "unat j = (unat idx + 1) mod ring_cap cb"
    using advance_ok [OF Cons.prems(1) idx, of 1] r by auto
  have wf: "ring_wf ?cb" "ring_cap ?cb = ring_cap cb"
    using Cons.prems(1) by (auto simp: ring_wf_def ring_cap_def)
  have "unat j = (unat (m_head_idx ?cb) + Suc n) mod ring_cap ?cb"
    using j(2) Cons.prems(2) wf(2) by (simp add: mod_Suc_eq)
  from Cons.IH [OF wf(1) this] obtain st where
    st: "serialize_loop ?cb bs j = Some (?cb\<lparr>m_store := st\<rparr>)" "length st = length ?st"
      "ring_view st (unat (m_head_idx cb)) (Suc n + length bs) = ring_view ?st (unat (m_head_idx cb)) (Suc n) @ bs"
    using Cons.prems(3) wf(2) by auto
  have "ring_view ?st (unat (m_head_idx cb)) (Suc n) = ring_view (m_store cb) (unat (m_head_idx cb)) n @ [b]"
    using ring_put [of n "m_store cb" "unat (m_head_idx cb)" b] Cons.prems r by simp
  with st j idx r show ?case
    by (intro exI [of _ st]) (simp add: word_less_nat_alt write_one)
qed

lemma unat_free:
  assumes "ring_wf cb"
  shows "\<exists>f. get_free_size cb = Some f \<and> unat f = ring_cap cb - length (ring_bytes cb)"
  using ring_wf_nat [OF assms]
  by (simp add: get_free_size_def word_le_nat_alt unat_sub_small length_ring_bytes)

lemma ring_serialize_full:
  assumes "ring_wf cb" "ring_cap cb < length (ring_bytes cb) + unat sz"
  shows "ring_serialize cb (Some src) sz = Some (FW_SERIALIZE_NO_ROOM_LEFT, cb)"
  using unat_free [OF assms(1)] assms(2) ring_wf_nat(6) [OF assms(1)]
  by (auto simp: ring_serialize_def word_less_nat_alt length_ring_bytes)

lemma ring_serialize_ok:
  assumes wf: "ring_wf cb" and room: "length (ring_bytes cb) + unat sz \<le> ring_cap cb"
    and src: "unat sz \<le> length src"
  shows "\<exists>cb'. ring_serialize cb (Some src) sz = Some (FW_SERIALIZE_OK, cb') \<and> ring_wf cb' \<and>
    ring_bytes cb' = ring_bytes cb @ take (unat sz) src \<and> ring_cap cb' = ring_cap cb"
proof -
  note r = ring_wf_nat [OF wf]
  let ?bs = "take (unat sz) src"
  obtain f where f: "get_free_size cb = Some f" "unat f = ring_cap cb - length (ring_bytes cb)"
    using unat_free [OF wf] by auto
  obtain j where j: "advance_idx cb (m_head_idx cb) (m_allocated_size cb) = Some j"
      "unat j = (unat (m_head_idx cb) + unat (m_allocated_size cb)) mod ring_cap cb"
    using advance_ok [OF wf, of "m_head_idx cb" "m_allocated_size cb"] r by auto
  obtain st where st: "serialize_loop cb ?bs j = Some (cb\<lparr>m_store := st\<rparr>)"
      "length st = length (m_store cb)"
      "ring_view st (unat (m_head_idx cb)) (unat (m_allocated_size cb) + length ?bs) =
        ring_view (m_store cb) (unat (m_head_idx cb)) (unat (m_allocated_size cb)) @ ?bs"
    using serialize_loop_ok [OF wf j(2), of ?bs] room src by (auto simp: length_ring_bytes)
  let ?a = "m_allocated_size cb + sz"
  have a: "unat ?a = unat (m_allocated_size cb) + unat sz"
    using room r by (intro unat_add_small) (simp add: length_ring_bytes)
  let ?cb = "cb\<lparr>m_store := st, m_allocated_size := ?a\<rparr>"
  have le: "?a \<le> m_store_size cb" using a room r by (simp add: word_le_nat_alt length_ring_bytes)
  have "ring_serialize cb (Some src) sz = Some (FW_SERIALIZE_OK, ?cb)"
    using f j st(1) le room src
    by (simp add: ring_serialize_def get_capacity_def word_less_nat_alt read_at_def)
  moreover have "ring_wf ?cb" using wf st(2) le by (simp add: ring_wf_def)
  moreover have "ring_bytes ?cb = ring_bytes cb @ ?bs"
    using st(3) src a by (simp add: ring_bytes_def min_absorb2)
  ultimately show ?thesis by (intro exI [of _ ?cb]) (simp add: ring_cap_def)
qed

lemma rotate_ok:
  assumes wf: "ring_wf cb" and n: "unat n \<le> length (ring_bytes cb)"
  shows "\<exists>cb'. rotate_ring cb n = Some (FW_SERIALIZE_OK, cb') \<and> ring_wf cb' \<and>
    ring_bytes cb' = drop (unat n) (ring_bytes cb) \<and> ring_cap cb' = ring_cap cb"
proof -
  note r = ring_wf_nat [OF wf]
  obtain j where j: "advance_idx cb (m_head_idx cb) n = Some j"
      "unat j = (unat (m_head_idx cb) + unat n) mod ring_cap cb"
    using advance_ok [OF wf, of "m_head_idx cb" n] r n by (auto simp: length_ring_bytes)
  let ?cb = "cb\<lparr>m_head_idx := j, m_allocated_size := m_allocated_size cb - n\<rparr>"
  have s: "unat (m_allocated_size cb - n) = unat (m_allocated_size cb) - unat n"
    using n by (intro unat_sub_small) (simp add: length_ring_bytes)
  have "rotate_ring cb n = Some (FW_SERIALIZE_OK, ?cb)"
    using j n by (simp add: rotate_ring_def word_less_nat_alt length_ring_bytes)
  moreover have "ring_wf ?cb"
    using wf j s r n by (auto simp: ring_wf_def word_less_nat_alt word_le_nat_alt)
  moreover have "ring_bytes ?cb = drop (unat n) (ring_bytes cb)"
    using j s r by (simp add: ring_bytes_def ring_drop)
  ultimately show ?thesis by (intro exI [of _ ?cb]) (simp add: ring_cap_def)
qed

lemma rotate_short:
  "length (ring_bytes cb) < unat n \<Longrightarrow> rotate_ring cb n = Some (FW_DESERIALIZE_BUFFER_EMPTY, cb)"
  by (simp add: rotate_ring_def word_less_nat_alt length_ring_bytes)

lemma ring_bytes_at:
  assumes "ring_wf cb" "i < length (ring_bytes cb)"
  shows "ring_bytes cb ! i = m_store cb ! ((unat (m_head_idx cb) + i) mod ring_cap cb)"
  using assms ring_wf_nat [OF assms(1)] by (simp add: ring_bytes_def)

lemma peek_U8_ok:
  assumes wf: "ring_wf cb" and k: "unat k < length (ring_bytes cb)"
  shows "peek_U8 cb k = Some (Inr (ring_bytes cb ! unat k))"
proof -
  note r = ring_wf_nat [OF wf]
  have "unat ((1 :: 64 word) + ucast k) = 1 + unat k"
    by (subst unat_add_small) (simp_all add: order.strict_trans [OF unat_lt32])
  moreover obtain j where "advance_idx cb (m_head_idx cb) k = Some j"
      "unat j = (unat (m_head_idx cb) + unat k) mod ring_cap cb"
    using advance_ok [OF wf, of "m_head_idx cb" k] r k by (auto simp: length_ring_bytes)
  ultimately show ?thesis
    using r k ring_bytes_at [OF wf k]
    by (simp add: peek_U8_def word_less_nat_alt read_one length_ring_bytes)
qed

lemma peek_loop_ok:
  assumes "ring_wf cb" "unat idx = (unat (m_head_idx cb) + k) mod ring_cap cb"
    "k + n \<le> length (ring_bytes cb)"
  shows "peek_loop cb n idx = Some (take n (drop k (ring_bytes cb)))"
  using assms(2,3)
proof (induction n arbitrary: idx k)
  case (Suc n)
  note r = ring_wf_nat [OF assms(1)]
  have idx: "unat idx < ring_cap cb" using Suc.prems(1) r by simp
  obtain j where j: "advance_idx cb idx 1 = Some j" "unat j = (unat idx + 1) mod ring_cap cb"
    using advance_ok [OF assms(1) idx, of 1] r by auto
  have "unat j = (unat (m_head_idx cb) + Suc k) mod ring_cap cb"
    using j(2) Suc.prems(1) by (simp add: mod_Suc_eq)
  from Suc.IH [OF this] have "peek_loop cb n j = Some (take n (drop (Suc k) (ring_bytes cb)))"
    using Suc.prems(2) by simp
  moreover have "drop k (ring_bytes cb) = m_store cb ! unat idx # drop (Suc k) (ring_bytes cb)"
    using Cons_nth_drop_Suc [of k "ring_bytes cb"] Suc.prems ring_bytes_at [OF assms(1), of k] by simp
  ultimately show ?case using j idx r by (simp add: word_less_nat_alt read_one)
qed simp

lemma peek_U8_short:
  assumes "length (ring_bytes cb) \<le> unat k"
  shows "peek_U8 cb k = Some (Inl FW_DESERIALIZE_BUFFER_EMPTY)"
proof -
  have "unat ((1 :: 64 word) + ucast k) = 1 + unat k"
    by (subst unat_add_small) (simp_all add: order.strict_trans [OF unat_lt32])
  then show ?thesis using assms by (simp add: peek_U8_def word_less_nat_alt length_ring_bytes)
qed

lemma peek_U32_loop_fold:
  "peek_loop cb n idx = Some bs \<Longrightarrow>
     peek_U32_loop cb n idx v = Some (foldl (\<lambda>v b. push_bit 8 v OR ucast b) v bs)"
proof (induction n arbitrary: idx v bs)
  case (Suc n)
  then show ?case by (auto split: Option.bind_splits if_splits)
qed simp

lemma fold_U32:
  assumes "length bs = 4"
  shows "foldl (\<lambda>v b. push_bit 8 v OR ucast b) 0 bs = U32_of_bytes bs"
proof -
  obtain a b c d where bs: "bs = [a, b, c, d]"
    using assms by (auto simp: length_Suc_conv numeral_eq_Suc)
  show ?thesis
    by (rule bit_word_eqI) (auto simp: bs U32_of_bytes_def bit_simps)
qed

lemma unat_4_plus: "unat ((4 :: 64 word) + ucast (k :: U32)) = 4 + unat k"
proof -
  have "unat k < 18446744073709551612" by (rule order.strict_trans [OF unat_lt32]) simp
  then show ?thesis by (subst unat_add_small) simp_all
qed

lemma peek_U32_ok:
  assumes wf: "ring_wf cb" and k: "unat k + 4 \<le> length (ring_bytes cb)"
  shows "peek_U32 cb k = Some (Inr (U32_of_bytes (take 4 (drop (unat k) (ring_bytes cb)))))"
proof -
  note r = ring_wf_nat [OF wf]
  obtain j where j: "advance_idx cb (m_head_idx cb) k = Some j"
      "unat j = (unat (m_head_idx cb) + unat k) mod ring_cap cb"
    using advance_ok [OF wf, of "m_head_idx cb" k] r k by (auto simp: length_ring_bytes)
  have "peek_loop cb 4 j = Some (take 4 (drop (unat k) (ring_bytes cb)))"
    by (rule peek_loop_ok [OF wf j(2) k])
  then have "peek_U32_loop cb 4 j 0 = Some (U32_of_bytes (take 4 (drop (unat k) (ring_bytes cb))))"
    using k by (subst peek_U32_loop_fold) (auto intro!: fold_U32)
  with j(1) k show ?thesis
    by (simp add: peek_U32_def word_less_nat_alt unat_4_plus length_ring_bytes)
qed

lemma peek_U32_short:
  "length (ring_bytes cb) < unat k + 4 \<Longrightarrow>
     peek_U32 cb k = Some (Inl FW_DESERIALIZE_BUFFER_EMPTY)"
  by (simp add: peek_U32_def word_less_nat_alt unat_4_plus length_ring_bytes)

lemma peek_raw_ok:
  assumes wf: "ring_wf cb" and k: "unat k + unat n \<le> length (ring_bytes cb)"
    and dst: "unat n \<le> length dst"
  shows "peek_raw cb (Some dst) n k = Some (FW_SERIALIZE_OK,
    take (unat n) (drop (unat k) (ring_bytes cb)) @ drop (unat n) dst)"
proof -
  note r = ring_wf_nat [OF wf]
  obtain j where j: "advance_idx cb (m_head_idx cb) k = Some j"
      "unat j = (unat (m_head_idx cb) + unat k) mod ring_cap cb"
    using advance_ok [OF wf, of "m_head_idx cb" k] r k by (auto simp: length_ring_bytes)
  have "unat (n + k) = unat n + unat k"
    using k r by (intro unat_add_small) (simp add: length_ring_bytes)
  with j peek_loop_ok [OF wf j(2) k] k dst show ?thesis
    by (simp add: peek_raw_def word_less_nat_alt length_ring_bytes write_at_def)
qed

lemma peek_raw_short:
  assumes "length (ring_bytes cb) < unat k + unat n" "unat k + unat n < 4294967296"
  shows "peek_raw cb (Some dst) n k = Some (FW_DESERIALIZE_BUFFER_EMPTY, dst)"
proof -
  have "unat (n + k) = unat n + unat k" using assms by (intro unat_add_small) simp
  then show ?thesis using assms by (simp add: peek_raw_def word_less_nat_alt length_ring_bytes)
qed

lemma peek_loop_length: "peek_loop cb n idx = Some bs \<Longrightarrow> length bs = n"
  by (induction n arbitrary: idx bs) (auto split: Option.bind_splits if_splits)

section \<open>Any use of the ring\<close>

text \<open>
  The public operations as values, the ring's answer to each, and the answer of a queue of at
  most \<open>cap\<close> bytes.
\<close>

datatype ring_op = RingPut "U8 list" | RingPeek U32 | RingPeekWord U32 | RingPeekMany U32 U32 | RingRotate U32

datatype ring_obs =
    ObsStatus SerializeStatus
  | ObsByte "SerializeStatus + U8"
  | ObsWord "SerializeStatus + U32"
  | ObsBytes SerializeStatus "U8 list"

fun ring_step :: "ring_op \<Rightarrow> CircularBuffer \<Rightarrow> (ring_obs \<times> CircularBuffer) option" where
  "ring_step (RingPut bs) cb = do {
     (stat, cb) \<leftarrow> ring_serialize cb (Some bs) (of_nat (length bs)); Some (ObsStatus stat, cb) }"
| "ring_step (RingPeek k) cb = do { r \<leftarrow> peek_U8 cb k; Some (ObsByte r, cb) }"
| "ring_step (RingPeekWord k) cb = do { r \<leftarrow> peek_U32 cb k; Some (ObsWord r, cb) }"
| "ring_step (RingPeekMany n k) cb = do {
     (stat, bs) \<leftarrow> peek_raw cb (Some (replicate (unat n) 0)) n k; Some (ObsBytes stat bs, cb) }"
| "ring_step (RingRotate n) cb = do { (stat, cb) \<leftarrow> rotate_ring cb n; Some (ObsStatus stat, cb) }"

fun queue_step :: "ring_op \<Rightarrow> nat \<times> U8 list \<Rightarrow> ring_obs \<times> nat \<times> U8 list" where
  "queue_step (RingPut bs) (cap, q) =
     (if length q + length bs \<le> cap then (ObsStatus FW_SERIALIZE_OK, cap, q @ bs)
      else (ObsStatus FW_SERIALIZE_NO_ROOM_LEFT, cap, q))"
| "queue_step (RingPeek k) (cap, q) =
     (ObsByte (if unat k < length q then Inr (q ! unat k) else Inl FW_DESERIALIZE_BUFFER_EMPTY), cap, q)"
| "queue_step (RingPeekWord k) (cap, q) =
     (ObsWord (if unat k + 4 \<le> length q then Inr (U32_of_bytes (take 4 (drop (unat k) q)))
               else Inl FW_DESERIALIZE_BUFFER_EMPTY), cap, q)"
| "queue_step (RingPeekMany n k) (cap, q) =
     ((if unat k + unat n \<le> length q then ObsBytes FW_SERIALIZE_OK (take (unat n) (drop (unat k) q))
       else ObsBytes FW_DESERIALIZE_BUFFER_EMPTY (replicate (unat n) 0)), cap, q)"
| "queue_step (RingRotate n) (cap, q) =
     (if unat n \<le> length q then (ObsStatus FW_SERIALIZE_OK, cap, drop (unat n) q)
      else (ObsStatus FW_DESERIALIZE_BUFFER_EMPTY, cap, q))"

text \<open>Sizes an \<open>unsigned int\<close> holds, and no wrap in \<open>size + offset\<close> of the raw \<open>peek\<close>.\<close>

fun ring_op_ok :: "ring_op \<Rightarrow> bool" where
  "ring_op_ok (RingPut bs) \<longleftrightarrow> length bs < 4294967296"
| "ring_op_ok (RingPeekMany n k) \<longleftrightarrow> unat k + unat n < 4294967296"
| "ring_op_ok _ \<longleftrightarrow> True"

definition ring_abs :: "CircularBuffer \<Rightarrow> nat \<times> U8 list" where
  "ring_abs cb = (ring_cap cb, ring_bytes cb)"

lemma ring_step_refines:
  assumes wf: "ring_wf cb" and ok: "ring_op_ok x"
  shows "\<exists>cb'. ring_step x cb = Some (fst (queue_step x (ring_abs cb)), cb') \<and> ring_wf cb' \<and>
    ring_abs cb' = snd (queue_step x (ring_abs cb))"
proof (cases x)
  case (RingPut bs)
  then have n: "unat (of_nat (length bs) :: U32) = length bs" using ok by (simp add: unat_of_nat32)
  show ?thesis
  proof (cases "length (ring_bytes cb) + length bs \<le> ring_cap cb")
    case True
    with ring_serialize_ok [OF wf, of "of_nat (length bs)" bs] n RingPut show ?thesis
      by (auto simp: ring_abs_def)
  next
    case False
    with ring_serialize_full [OF wf, of "of_nat (length bs)" bs] n RingPut wf show ?thesis
      by (auto simp: ring_abs_def)
  qed
next
  case (RingPeek k)
  then show ?thesis using wf peek_U8_ok [OF wf, of k] peek_U8_short [of cb k]
    by (auto simp: ring_abs_def not_less)
next
  case (RingPeekWord k)
  then show ?thesis using wf peek_U32_ok [OF wf, of k] peek_U32_short [of cb k]
    by (auto simp: ring_abs_def not_le)
next
  case (RingPeekMany n k)
  then show ?thesis
    using wf ok peek_raw_ok [OF wf, of k n "replicate (unat n) 0"]
      peek_raw_short [of cb k n "replicate (unat n) 0"]
    by (auto simp: ring_abs_def not_le)
next
  case (RingRotate n)
  then show ?thesis using wf rotate_ok [OF wf, of n] rotate_short [of cb n]
    by (auto simp: ring_abs_def not_le)
qed

interpretation ring: refinement ring_step queue_step ring_wf ring_abs ring_op_ok
  by unfold_locales (rule ring_step_refines)

text \<open>
  C25: The circular buffer is a bounded queue of bytes. Whatever sequence of \<open>serialize\<close>, \<open>peek\<close>
  and \<open>rotate\<close> calls a client makes on a freshly constructed ring of at most 2^31 bytes, except peeks of a block whose
  size plus offset passes 2^32 (their check wraps around), no assertion fails, no index
  leaves the store, and every status and every value read is the one the queue gives, also
  after the indices have wrapped around the store.
\<close>

theorem ring_is_byte_queue:
  assumes "store \<noteq> []" "length store \<le> 2147483648" "\<forall>x \<in> set xs. ring_op_ok x"
  shows "\<exists>cb cb'. CircularBuffer_new store (of_nat (length store)) = Some cb \<and>
    run_steps ring_step xs cb = Some (fst (run_spec queue_step xs (length store, [])), cb') \<and>
    ring_bytes cb' = snd (snd (run_spec queue_step xs (length store, [])))"
proof -
  have n: "unat (of_nat (length store) :: U32) = length store"
    using assms(2) by (intro unat_of_nat32) simp
  let ?cb = "\<lparr>m_store = store, m_store_size = of_nat (length store), m_head_idx = 0,
    m_allocated_size = 0\<rparr>"
  have pos: "0 < unat (of_nat (length store) :: U32)" unfolding n using assms(1) by simp
  have new: "CircularBuffer_new store (of_nat (length store)) = Some ?cb"
    using pos by (simp add: CircularBuffer_new_def word_less_nat_alt)
  have wf: "ring_wf ?cb"
    using n assms(2) pos by (simp add: ring_wf_def word_less_nat_alt)
  have a: "ring_abs ?cb = (length store, [])"
    using n by (simp add: ring_abs_def ring_cap_def ring_bytes_def ring_view_def)
  obtain cb' where
    run: "run_steps ring_step xs ?cb = Some (fst (run_spec queue_step xs (length store, [])), cb')"
      "ring_abs cb' = snd (run_spec queue_step xs (length store, []))"
    using ring.unbounded.run_refines [OF wf assms(3)] unfolding a by blast
  have "ring_bytes cb' = snd (ring_abs cb')" by (simp add: ring_abs_def)
  with run new show ?thesis by auto
qed

theorem ring_is_byte_queue_witness:
  "\<exists>cb cb'. CircularBuffer_new [0, 0, 0] 3 = Some cb \<and>
    run_steps ring_step [RingPut [1, 2, 3], RingPut [4], RingRotate 2, RingPut [5, 6], RingPeekMany 3 0] cb =
      Some ([ObsStatus FW_SERIALIZE_OK, ObsStatus FW_SERIALIZE_NO_ROOM_LEFT, ObsStatus FW_SERIALIZE_OK,
             ObsStatus FW_SERIALIZE_OK, ObsBytes FW_SERIALIZE_OK [3, 5, 6]], cb')"
proof -
  let ?xs = "[RingPut [1, 2, 3], RingPut [4], RingRotate 2, RingPut [5, 6], RingPeekMany 3 0]"
  have q: "run_spec queue_step ?xs (length [0 :: U8, 0, 0], []) =
    ([ObsStatus FW_SERIALIZE_OK, ObsStatus FW_SERIALIZE_NO_ROOM_LEFT, ObsStatus FW_SERIALIZE_OK,
      ObsStatus FW_SERIALIZE_OK, ObsBytes FW_SERIALIZE_OK [3, 5, 6]], 3, [3, 5, 6])"
    by simp
  have n: "(of_nat (length [0 :: U8, 0, 0]) :: U32) = 3" by simp
  have "\<forall>x \<in> set ?xs. ring_op_ok x" by simp
  from ring_is_byte_queue [of "[0, 0, 0]" ?xs, OF _ _ this] show ?thesis
    unfolding q n by auto
qed

text \<open>
  The bound of the raw \<open>peek\<close> is computed in 32 bits. A \<open>size\<close> and \<open>offset\<close> whose sum wraps
  to no more than the bytes in the ring pass it, and the copy then runs past the end of any
  destination shorter than \<open>size\<close>.
\<close>

theorem peek_raw_wraps:
  assumes "length dst < unat n"
    "(unat n + unat k) mod 4294967296 \<le> unat (m_allocated_size cb)"
  shows "peek_raw cb (Some dst) n k = None \<and> \<not> n + k > m_allocated_size cb"
proof -
  have "unat (n + k) = (unat n + unat k) mod 4294967296" by (simp add: unat_word_ariths)
  then have "\<not> n + k > m_allocated_size cb" using assms(2) by (simp add: word_less_nat_alt)
  then show ?thesis using assms(1)
    by (auto simp: peek_raw_def write_at_def dest!: peek_loop_length split: Option.bind_splits)
qed

theorem peek_raw_wraps_witness:
  "\<exists>cb cb'. CircularBuffer_new (replicate 16 0) 16 = Some cb \<and>
    ring_serialize cb (Some (replicate 12 7)) 12 = Some (FW_SERIALIZE_OK, cb') \<and>
    peek_raw cb' (Some (replicate 16 0)) 0xFFFFFFFC 8 = None"
proof -
  let ?cb = "\<lparr>m_store = replicate 16 0, m_store_size = 16, m_head_idx = 0, m_allocated_size = 0\<rparr>"
  have "ring_wf ?cb" by (simp add: ring_wf_def)
  moreover have "ring_bytes ?cb = []" "ring_cap ?cb = 16"
    by (simp_all add: ring_bytes_def ring_view_def ring_cap_def)
  ultimately obtain cb' where
    put: "ring_serialize ?cb (Some (replicate 12 7)) 12 = Some (FW_SERIALIZE_OK, cb')"
      "ring_bytes cb' = replicate 12 7"
    using ring_serialize_ok [of ?cb 12 "replicate 12 7"] by auto
  then have "unat (m_allocated_size cb') = 12" using length_ring_bytes [of cb'] by simp
  then have "peek_raw cb' (Some (replicate 16 0)) 0xFFFFFFFC 8 = None"
    using peek_raw_wraps [of "replicate 16 0" "0xFFFFFFFC" 8 cb'] by simp
  with put(1) show ?thesis by (auto simp: CircularBuffer_new_def)
qed

end
