(* ===== verification/Fprime_Protocol.thy ===== *)
theory Fprime_Protocol
  imports Fw_Buffer Com_Buffer Hash Circular_Buffer
begin

text \<open>
  Svc/FramingProtocol: the F Prime frame format (FprimeProtocol.cpp) between the interfaces of
  the framer and of the deframer. The two interfaces are tables of functions on the state of the
  component that implements them. A frame is a start word, the length of the body, the body and
  the CRC-32 of all that. \<open>frame_image\<close> is that format, and \<open>fprime_decide\<close> is what the
  bytes at the head of a ring are: a frame, the beginning of one, or neither.
\<close>

section \<open>Framing\<close>

definition FpFrameHeader_SIZE :: U32 where
  "FpFrameHeader_SIZE = 4 * 2"

definition START_WORD :: U32 where
  "START_WORD = 0xdeadbeef"

record 'h FramingProtocolInterface =
  fi_allocate :: "U32 \<Rightarrow> 'h \<Rightarrow> Fw_Buffer \<times> 'h"
  fi_send :: "Fw_Buffer \<Rightarrow> 'h \<Rightarrow> 'h"

text \<open>A \<open>serialize\<close> call followed by the assertion that it succeeded.\<close>

definition must_serialize :: "(SerializeStatus \<times> ser_buf) option \<Rightarrow> ser_buf option" where
  "must_serialize r = do { (status, ser) \<leftarrow> r; fw_assert (status = FW_SERIALIZE_OK); Some ser }"

definition FprimeFraming_frame ::
  "'h FramingProtocolInterface option \<Rightarrow> U8 list option \<Rightarrow> U32 \<Rightarrow> ComPacketType \<Rightarrow> 'h \<Rightarrow> 'h option" where
  "FprimeFraming_frame m_interface data n packet_type h = do {
     d \<leftarrow> data;
     interface \<leftarrow> m_interface;
     let real_data_size = n + (if packet_type \<noteq> FW_PACKET_UNKNOWN then 4 else 0);
     let total = real_data_size + FpFrameHeader_SIZE + of_nat HASH_DIGEST_LENGTH;
     let (buffer, h) = fi_allocate interface total h;
     let serializer = getSerializeRepr buffer;
     serializer \<leftarrow> must_serialize (serialize_U32 serializer START_WORD);
     serializer \<leftarrow> must_serialize (serialize_U32 serializer real_data_size);
     serializer \<leftarrow>
       (if packet_type \<noteq> FW_PACKET_UNKNOWN
        then must_serialize (serialize_I32 serializer (packet_type_code packet_type))
        else Some serializer);
     serializer \<leftarrow> must_serialize (serialize_bytes serializer d n True);
     let buffer = putSerializeRepr buffer serializer;
     hash \<leftarrow> Hash_hash (m_bufferData buffer) (total - of_nat HASH_DIGEST_LENGTH)
               (HashBuffer_new (replicate HASH_DIGEST_LENGTH 0));
     serializer \<leftarrow> must_serialize (serialize_bytes serializer (m_data hash) (of_nat HASH_DIGEST_LENGTH) True);
     let buffer = putSerializeRepr buffer serializer;
     let buffer = Buffer_setSize buffer total;
     Some (fi_send interface buffer h)
   }"

section \<open>Deframing\<close>

datatype DeframingStatus =
    DEFRAMING_STATUS_SUCCESS
  | DEFRAMING_INVALID_SIZE
  | DEFRAMING_INVALID_CHECKSUM
  | DEFRAMING_MORE_NEEDED
  | DEFRAMING_INVALID_FORMAT

record 'h DeframingProtocolInterface =
  di_allocate :: "U32 \<Rightarrow> 'h \<Rightarrow> Fw_Buffer \<times> 'h"
  di_route :: "Fw_Buffer \<Rightarrow> 'h \<Rightarrow> 'h option"

text \<open>
  \<open>validate\<close> ignores the status of \<open>peek\<close>. In the first loop a failed \<open>peek\<close> would leave
  \<open>byte\<close> uninitialised, which has no model; in the second \<open>sent\<close> starts from 0.
\<close>

fun validate_hash :: "CircularBuffer \<Rightarrow> nat \<Rightarrow> U32 \<Rightarrow> Hash \<Rightarrow> Hash option" where
  "validate_hash ring 0 i hash = Some hash"
| "validate_hash ring (Suc n) i hash = do {
     r \<leftarrow> peek_U8 ring i;
     byte \<leftarrow> (case r of Inl e \<Rightarrow> None | Inr v \<Rightarrow> Some v);
     hash \<leftarrow> Hash_update hash (Some [byte]) 1;
     validate_hash ring n (i + 1) hash
   }"

fun validate_digest :: "CircularBuffer \<Rightarrow> U8 list \<Rightarrow> U32 \<Rightarrow> bool option" where
  "validate_digest ring [] pos = Some True"
| "validate_digest ring (calc # digest) pos = do {
     r \<leftarrow> peek_U8 ring pos;
     let sent = (case r of Inl e \<Rightarrow> 0 | Inr v \<Rightarrow> v);
     if calc \<noteq> sent then Some False else validate_digest ring digest (pos + 1)
   }"

definition FprimeDeframing_validate :: "CircularBuffer \<Rightarrow> U32 \<Rightarrow> bool option" where
  "FprimeDeframing_validate ring n = do {
     hash \<leftarrow> validate_hash ring (unat n) 0 (Hash_init Hash_new);
     hashBuffer \<leftarrow> Hash_final hash (HashBuffer_new (replicate HASH_DIGEST_LENGTH 0));
     validate_digest ring (take HASH_DIGEST_LENGTH (m_data hashBuffer)) n
   }"

text \<open>
  \<open>deframe\<close> gives its status, the new value of the reference argument \<open>needed\<close>, the ring and the
  state of the interface. The assertions of the two header reads are the \<^const>\<open>None\<close> branches
  of \<open>must_peek\<close>.
\<close>

definition must_peek :: "(SerializeStatus + U32) option \<Rightarrow> U32 option" where
  "must_peek r = do { r \<leftarrow> r; (case r of Inl e \<Rightarrow> None | Inr v \<Rightarrow> Some v) }"

definition FprimeDeframing_deframe ::
  "'h DeframingProtocolInterface option \<Rightarrow> CircularBuffer \<Rightarrow> U32 \<Rightarrow> 'h
     \<Rightarrow> (DeframingStatus \<times> U32 \<times> CircularBuffer \<times> 'h) option" where
  "FprimeDeframing_deframe m_interface ring needed h = do {
     interface \<leftarrow> m_interface;
     if get_allocated_size ring < FpFrameHeader_SIZE
     then Some (DEFRAMING_MORE_NEEDED, FpFrameHeader_SIZE, ring, h)
     else do {
       start \<leftarrow> must_peek (peek_U32 ring 0);
       if start \<noteq> START_WORD then Some (DEFRAMING_INVALID_FORMAT, needed, ring, h)
       else do {
         sz \<leftarrow> must_peek (peek_U32 ring 4);
         if sz > 0xFFFFFFFF - (FpFrameHeader_SIZE + of_nat HASH_DIGEST_LENGTH)
         then Some (DEFRAMING_INVALID_SIZE, needed, ring, h)
         else do {
           let needed = FpFrameHeader_SIZE + sz + of_nat HASH_DIGEST_LENGTH;
           let frameSize = sz + FpFrameHeader_SIZE + of_nat HASH_DIGEST_LENGTH;
           if frameSize > get_capacity ring then Some (DEFRAMING_INVALID_SIZE, needed, ring, h)
           else if get_allocated_size ring < needed then Some (DEFRAMING_MORE_NEEDED, needed, ring, h)
           else do {
             valid \<leftarrow> FprimeDeframing_validate ring (needed - of_nat HASH_DIGEST_LENGTH);
             if \<not> valid then Some (DEFRAMING_INVALID_CHECKSUM, needed, ring, h)
             else do {
               let (buffer, h) = di_allocate interface sz h;
               fw_assert (m_size buffer \<ge> sz);
               let buffer = Buffer_setSize buffer sz;
               (stat, mem) \<leftarrow> peek_raw ring (m_bufferData buffer) sz FpFrameHeader_SIZE;
               h \<leftarrow> di_route interface (Buffer_setData buffer (Some mem)) h;
               Some (DEFRAMING_STATUS_SUCCESS, needed, ring, h)
             }
           }
         }
       }
     }
   }"

section \<open>The frame format\<close>

definition frame_header :: "U8 list \<Rightarrow> U8 list" where
  "frame_header body = bytes_of_U32 START_WORD @ bytes_of_U32 (of_nat (length body)) @ body"

definition frame_image :: "U8 list \<Rightarrow> U8 list" where
  "frame_image body = frame_header body @ crc32_digest (frame_header body)"

datatype decision = Wait nat | Skip DeframingStatus | Emit "U8 list" nat

definition fprime_decide :: "nat \<Rightarrow> U8 list \<Rightarrow> decision" where
  "fprime_decide cap bs =
     (if length bs < 8 then Wait 8
      else if U32_of_bytes (take 4 bs) \<noteq> START_WORD then Skip DEFRAMING_INVALID_FORMAT
      else let n = unat (U32_of_bytes (take 4 (drop 4 bs))) in
        if n + 12 > cap then Skip DEFRAMING_INVALID_SIZE
        else if length bs < n + 12 then Wait (n + 12)
        else if take 4 (drop (n + 8) bs) \<noteq> crc32_digest (take (n + 8) bs)
        then Skip DEFRAMING_INVALID_CHECKSUM
        else Emit (take n (drop 8 bs)) (n + 12))"

text \<open>The packet the protocol hands to \<open>route\<close>: the body, in a buffer of exactly its size.\<close>

definition packet_buffer :: "Fw_Buffer \<Rightarrow> U8 list \<Rightarrow> Fw_Buffer" where
  "packet_buffer b p =
     Buffer_setData (Buffer_setSize b (of_nat (length p)))
       (map_option (\<lambda>m. p @ drop (length p) m) (m_bufferData b))"

lemma length_frame_image [simp]:
  "length (frame_header body) = length body + 8" "length (frame_image body) = length body + 12"
  by (simp_all add: frame_header_def frame_image_def)

section \<open>What the framer sends\<close>

lemma must_serialize_ok [simp]: "must_serialize (Some (FW_SERIALIZE_OK, r)) = Some r"
  by (simp add: must_serialize_def)

text \<open>One successful write after the contents \<open>bs\<close> of an initially empty buffer \<open>r\<close>.\<close>

lemma appended:
  assumes "ser_wf r" "contents r = []" "length bs \<le> room r"
  shows "ser_wf (append_to r bs)" "room (append_to r bs) = room r - length bs"
    "contents (append_to r bs) = bs" "unat (m_serLoc (append_to r bs)) = length bs"
    "length (m_data (append_to r bs)) = length (m_data r)"
    "take (length bs) (m_data (append_to r bs)) = bs"
proof -
  have e: "unat (m_serLoc r) = 0" using assms(1,2) length_contents [of r] by simp
  show l: "unat (m_serLoc (append_to r bs)) = length bs" using append_to_serLoc [OF assms(1,3)] e by simp
  show "ser_wf (append_to r bs)" "room (append_to r bs) = room r - length bs"
    using assms by (simp_all add: append_to_wf append_to_room)
  show c: "contents (append_to r bs) = bs" using assms by (simp add: append_to_contents)
  show "take (length bs) (m_data (append_to r bs)) = bs" using c l by (simp add: contents_def)
  show "length (m_data (append_to r bs)) = length (m_data r)"
    using assms e by (simp add: append_to_def room_def)
qed

definition frame_body :: "ComPacketType \<Rightarrow> U8 list \<Rightarrow> U8 list" where
  "frame_body ty payload =
     (if ty = FW_PACKET_UNKNOWN then payload else bytes_of_U32 (packet_type_code ty) @ payload)"

lemma length_frame_body:
  "length (frame_body ty payload) = length payload + (if ty = FW_PACKET_UNKNOWN then 0 else 4)"
  by (simp add: frame_body_def)

lemma frame_writes:
  assumes r: "ser_wf r" "contents r = []" and n: "unat n \<le> length d"
    and room: "length (frame_body ty (take (unat n) d)) + 12 \<le> room r"
    and sz: "unat real = length (frame_body ty (take (unat n) d))"
  defines "r1 \<equiv> append_to r (bytes_of_U32 START_WORD)"
  defines "r2 \<equiv> append_to r1 (bytes_of_U32 real)"
  defines "r3 \<equiv> (if ty = FW_PACKET_UNKNOWN then r2 else append_to r2 (bytes_of_U32 (packet_type_code ty)))"
  shows "serialize_U32 r START_WORD = Some (FW_SERIALIZE_OK, r1)"
    "serialize_U32 r1 real = Some (FW_SERIALIZE_OK, r2)"
    "ty \<noteq> FW_PACKET_UNKNOWN \<Longrightarrow> serialize_I32 r2 (packet_type_code ty) = Some (FW_SERIALIZE_OK, r3)"
    "serialize_bytes r3 d n True =
       Some (FW_SERIALIZE_OK, append_to r (frame_header (frame_body ty (take (unat n) d))))"
proof -
  have len: "length (frame_body ty (take (unat n) d)) = unat n + (if ty = FW_PACKET_UNKNOWN then 0 else 4)"
    using n by (simp add: length_frame_body)
  have wf: "ser_wf r1" "room r1 = room r - 4"
    using r room by (simp_all add: r1_def append_to_wf append_to_room)
  have wf2: "ser_wf r2" "room r2 = room r - 8"
    using wf room by (simp_all add: r2_def append_to_wf append_to_room)
  have wf3: "ser_wf r3" "room r3 = room r - (if ty = FW_PACKET_UNKNOWN then 8 else 12)"
    using wf2 room len by (simp_all add: r3_def append_to_wf append_to_room)
  show "serialize_U32 r START_WORD = Some (FW_SERIALIZE_OK, r1)"
    using r room by (simp add: r1_def u32.put_ok)
  show "serialize_U32 r1 real = Some (FW_SERIALIZE_OK, r2)"
    using wf room by (simp add: r2_def u32.put_ok)
  show "ty \<noteq> FW_PACKET_UNKNOWN \<Longrightarrow> serialize_I32 r2 (packet_type_code ty) = Some (FW_SERIALIZE_OK, r3)"
    using wf2 room len by (simp add: r3_def i32.put_ok)
  have real: "of_nat (length (frame_body ty (take (unat n) d))) = real"
    by (rule word_eq_of_unat [OF sz, symmetric])
  have hdr: "frame_header (frame_body ty (take (unat n) d)) =
      bytes_of_U32 START_WORD @ bytes_of_U32 real @ frame_body ty (take (unat n) d)"
    unfolding frame_header_def real ..
  have "append_to r3 (take (unat n) d) =
      append_to r (frame_header (frame_body ty (take (unat n) d)))"
    using r room len n unfolding r3_def r2_def r1_def hdr unfolding frame_body_def
    by (cases "ty = FW_PACKET_UNKNOWN") (simp_all add: append_to_append)
  then show "serialize_bytes r3 d n True =
      Some (FW_SERIALIZE_OK, append_to r (frame_header (frame_body ty (take (unat n) d))))"
    using serialize_bytes_take [OF wf3(1) n] wf3(2) room len by (auto split: if_splits)
qed

lemma frame_ok:
  assumes n: "unat n \<le> length d" "unat n + 16 < 2147483648"
    and N: "N = n + (if ty \<noteq> FW_PACKET_UNKNOWN then 4 else 0) + 12"
    and al: "fi_allocate I N h = (b, h1)" "fresh_buffer b" "N \<le> m_size b"
  shows "\<exists>b1. FprimeFraming_frame (Some I) (Some d) n ty h = Some (fi_send I b1 h1) \<and>
    buffer_bytes b1 = frame_image (frame_body ty (take (unat n) d)) \<and> m_size b1 = N"
proof -
  let ?body = "frame_body ty (take (unat n) d)"
  let ?real = "n + (if ty \<noteq> FW_PACKET_UNKNOWN then 4 else 0)"
  let ?r = "m_serialize_repr b"
  note f = fresh_repr [OF al(2)]
  obtain m where m: "m_bufferData b = Some m" "unat (m_size b) \<le> length m"
    "m_data ?r = take (unat (m_size b)) m"
    using al(2) by (auto simp: fresh_buffer_def)
  have len: "length ?body = unat n + (if ty = FW_PACKET_UNKNOWN then 0 else 4)"
    using n by (simp add: length_frame_body)
  have real: "unat ?real = length ?body"
    using n len unat_add_small [of n 4] by (cases "ty = FW_PACKET_UNKNOWN") simp_all
  have tot: "unat N = length ?body + 12"
    unfolding N using real len n by (subst unat_add_small) auto
  have room: "length ?body + 12 \<le> room ?r"
    using f(3) al(3) tot by (simp add: word_le_nat_alt)
  let ?r4 = "append_to ?r (frame_header ?body)"
  note w = frame_writes [OF f(1,2) n(1) room real]
  have hdr: "length (frame_header ?body) \<le> room ?r" using room by simp
  note a4 = appended [OF f(1,2) hdr]
  let ?mem = "m_data ?r4 @ drop (length (m_data ?r4)) m"
  have t4: "unat (N - 4) = length (frame_header ?body)"
    using tot by (subst unat_sub_small) simp_all
  have lm: "length (m_data ?r4) = unat (m_size b)" using a4(5) m by simp
  have bound: "unat (N - 4) \<le> length ?mem" "unat (N - 4) < 2147483648"
    using t4 lm m(2) room f(3) n len by (auto split: if_splits)
  have pre: "take (unat (N - 4)) ?mem = frame_header ?body"
    using t4 a4(6) lm room f(3) by simp
  obtain hb where hb: "Hash_hash (Some ?mem) (N - 4) (HashBuffer_new (replicate 4 0)) = Some hb"
      "m_data hb = crc32_digest (frame_header ?body)"
    using Hash_hash_ok [OF bound, of "replicate 4 0"] pre by auto
  let ?r5 = "append_to ?r (frame_image ?body)"
  have r5: "append_to ?r4 (crc32_digest (frame_header ?body)) = ?r5"
    using append_to_append [OF f(1), of "frame_header ?body" "crc32_digest (frame_header ?body)"] room
    by (simp add: frame_image_def)
  have w5: "serialize_bytes ?r4 (m_data hb) 4 True = Some (FW_SERIALIZE_OK, ?r5)"
    using serialize_bytes_take [OF a4(1), of 4 "m_data hb"] hb(2) a4(2) room r5 by simp
  have img: "length (frame_image ?body) \<le> room ?r" using room by simp
  note a5 = appended [OF f(1,2) img]
  let ?b1 = "Buffer_setSize (putSerializeRepr (putSerializeRepr b ?r4) ?r5) N"
  have "FprimeFraming_frame (Some I) (Some d) n ty h = Some (fi_send I ?b1 h1)"
    using w hb(1) w5 al(1) N m(1)
    by (simp add: FprimeFraming_frame_def Let_def FpFrameHeader_SIZE_def HASH_DIGEST_LENGTH_def
        getSerializeRepr_def putSerializeRepr_def add.commute split: if_splits)
  moreover have "buffer_bytes ?b1 = frame_image ?body"
    using m(1) a5(6) tot a5(5) m(3) m(2) room f(3)
    by (simp add: buffer_bytes_def Buffer_setSize_def putSerializeRepr_def)
  ultimately show ?thesis by (auto simp: Buffer_setSize_def)
qed

section \<open>What the deframer decides\<close>

lemma ring_bytes_small:
  assumes "ring_wf cb"
  shows "length (ring_bytes cb) \<le> 2147483648" "length (ring_bytes cb) \<le> ring_cap cb"
    "ring_cap cb \<le> 2147483648"
  using ring_wf_nat [OF assms] by (auto simp: length_ring_bytes)

lemma ring_next:
  assumes "ring_wf cb" "unat (i :: U32) < length (ring_bytes cb)"
  shows "unat (i + 1) = Suc (unat i)"
  using assms ring_bytes_small [OF assms(1)] unat_add_small [of i 1] by simp

lemma validate_hash_ok:
  assumes "ring_wf ring" "unat i + n \<le> length (ring_bytes ring)"
  shows "validate_hash ring n i hash =
    Some (hash\<lparr>hash_handle := crc_update (hash_handle hash) (take n (drop (unat i) (ring_bytes ring)))\<rparr>)"
  using assms(2)
proof (induction n arbitrary: i hash)
  case (Suc n)
  then have i: "unat i < length (ring_bytes ring)" by simp
  have "Hash_update hash (Some [ring_bytes ring ! unat i]) 1 =
      Some (hash\<lparr>hash_handle := crc_update (hash_handle hash) [ring_bytes ring ! unat i]\<rparr>)"
    by (simp add: Hash_update_def hashed_bytes_def read_at_def)
  moreover have "drop (unat i) (ring_bytes ring) =
      ring_bytes ring ! unat i # drop (Suc (unat i)) (ring_bytes ring)"
    using Cons_nth_drop_Suc [OF i] by simp
  ultimately show ?case
    using Suc.IH [of "i + 1"] Suc.prems peek_U8_ok [OF assms(1) i] ring_next [OF assms(1) i] by simp
qed simp

lemma validate_digest_ok:
  assumes "ring_wf ring" "unat pos + length dig \<le> length (ring_bytes ring)"
  shows "validate_digest ring dig pos = Some (take (length dig) (drop (unat pos) (ring_bytes ring)) = dig)"
  using assms(2)
proof (induction dig arbitrary: pos)
  case (Cons c dig)
  then have i: "unat pos < length (ring_bytes ring)" by simp
  have "drop (unat pos) (ring_bytes ring) =
      ring_bytes ring ! unat pos # drop (Suc (unat pos)) (ring_bytes ring)"
    using Cons_nth_drop_Suc [OF i] by simp
  then show ?case
    using Cons.IH [of "pos + 1"] Cons.prems peek_U8_ok [OF assms(1) i] ring_next [OF assms(1) i] by auto
qed simp

lemma validate_ok:
  assumes "ring_wf ring" "unat n + 4 \<le> length (ring_bytes ring)"
  shows "FprimeDeframing_validate ring n =
    Some (take 4 (drop (unat n) (ring_bytes ring)) = crc32_digest (take (unat n) (ring_bytes ring)))"
proof -
  let ?h = "crc_update 0xffffffff (take (unat n) (ring_bytes ring))"
  have "validate_hash ring (unat n) 0 (Hash_init Hash_new) = Some \<lparr>hash_handle = ?h\<rparr>"
    using validate_hash_ok [OF assms(1), of 0 "unat n"] assms(2) by (simp add: Hash_init_def Hash_new_def)
  moreover obtain b where "digest_to ?h (HashBuffer_new (replicate HASH_DIGEST_LENGTH 0)) = Some b"
      "m_data b = crc32_digest (take (unat n) (ring_bytes ring))"
    using digest_to_ok [of "replicate HASH_DIGEST_LENGTH 0" ?h]
    by (auto simp: HASH_DIGEST_LENGTH_def crc32_digest_def)
  ultimately show ?thesis
    using validate_digest_ok [OF assms(1), of n "crc32_digest (take (unat n) (ring_bytes ring))"] assms(2)
    by (simp add: FprimeDeframing_validate_def Hash_final_def HASH_DIGEST_LENGTH_def)
qed

lemma must_peek_U32:
  "ring_wf cb \<Longrightarrow> unat k + 4 \<le> length (ring_bytes cb) \<Longrightarrow>
     must_peek (peek_U32 cb k) = Some (U32_of_bytes (take 4 (drop (unat k) (ring_bytes cb))))"
  by (simp add: must_peek_def peek_U32_ok)

text \<open>
  The case analysis of \<open>deframe\<close> in terms of the bytes of the ring. \<open>sz\<close> is the length word.
\<close>

lemma deframe_unfold:
  assumes wf: "ring_wf ring"
  defines "bs \<equiv> ring_bytes ring"
  defines "sz \<equiv> U32_of_bytes (take 4 (drop 4 bs))"
  shows "FprimeDeframing_deframe (Some I) ring nd h =
    (if length bs < 8 then Some (DEFRAMING_MORE_NEEDED, 8, ring, h)
     else if U32_of_bytes (take 4 bs) \<noteq> START_WORD then Some (DEFRAMING_INVALID_FORMAT, nd, ring, h)
     else if unat sz + 12 > ring_cap ring
     then Some (DEFRAMING_INVALID_SIZE, if sz > 0xFFFFFFF3 then nd else sz + 12, ring, h)
     else if length bs < unat sz + 12 then Some (DEFRAMING_MORE_NEEDED, sz + 12, ring, h)
     else if take 4 (drop (unat sz + 8) bs) \<noteq> crc32_digest (take (unat sz + 8) bs)
     then Some (DEFRAMING_INVALID_CHECKSUM, sz + 12, ring, h)
     else (let (b, h) = di_allocate I sz h in
       do { fw_assert (m_size b \<ge> sz);
            (stat, mem) \<leftarrow> peek_raw ring (m_bufferData (Buffer_setSize b sz)) sz 8;
            h \<leftarrow> di_route I (Buffer_setData (Buffer_setSize b sz) (Some mem)) h;
            Some (DEFRAMING_STATUS_SUCCESS, sz + 12, ring, h) }))"
proof -
  note small = ring_bytes_small [OF wf]
  have a: "unat (m_allocated_size ring) = length bs" by (simp add: bs_def length_ring_bytes)
  have c: "unat (m_store_size ring) = ring_cap ring" by (simp add: ring_cap_def)
  have s8: "get_allocated_size ring < FpFrameHeader_SIZE \<longleftrightarrow> length bs < 8"
    by (simp add: word_less_nat_alt get_allocated_size_def FpFrameHeader_SIZE_def a)
  have words: "0xFFFFFFFF - (FpFrameHeader_SIZE + of_nat HASH_DIGEST_LENGTH) = 0xFFFFFFF3"
    "FpFrameHeader_SIZE + x + of_nat HASH_DIGEST_LENGTH = x + 12"
    "x + FpFrameHeader_SIZE + of_nat HASH_DIGEST_LENGTH = x + 12"
    "x + 12 - of_nat HASH_DIGEST_LENGTH = x + 8" for x
    by (simp_all add: FpFrameHeader_SIZE_def HASH_DIGEST_LENGTH_def)
  have e8: "FpFrameHeader_SIZE = 8" by (simp add: FpFrameHeader_SIZE_def)
  note def = FprimeDeframing_deframe_def [of "Some I" ring nd h, unfolded Let_def, unfolded words s8, unfolded e8]
  have big: "ring_cap ring < unat sz + 12" if "sz > 0xFFFFFFF3"
    using that small by (simp add: word_less_nat_alt)
  have nat: "unat (sz + 12) = unat sz + 12" "unat (sz + 8) = unat sz + 8" if "\<not> sz > 0xFFFFFFF3"
    using that by (simp_all add: unat_add_small word_less_nat_alt)
  have cmp: "sz + 12 > get_capacity ring \<longleftrightarrow> ring_cap ring < unat sz + 12"
    "get_allocated_size ring < sz + 12 \<longleftrightarrow> length bs < unat sz + 12" if "\<not> sz > 0xFFFFFFF3"
    using nat [OF that] by (simp_all add: word_less_nat_alt get_capacity_def get_allocated_size_def a c)
  have start: "must_peek (peek_U32 ring 0) = Some (U32_of_bytes (take 4 bs))"
    "must_peek (peek_U32 ring 4) = Some sz" if "\<not> length bs < 8"
    using that must_peek_U32 [OF wf, of 0] must_peek_U32 [OF wf, of 4] by (simp_all add: bs_def sz_def)
  have valid: "FprimeDeframing_validate ring (sz + 8) =
      Some (take 4 (drop (unat sz + 8) bs) = crc32_digest (take (unat sz + 8) bs))"
    if "\<not> sz > 0xFFFFFFF3" "\<not> length bs < unat sz + 12"
    using validate_ok [OF wf, of "sz + 8"] nat [OF that(1)] that(2) by (simp add: bs_def)
  show ?thesis
  proof (cases "length bs < 8 \<or> U32_of_bytes (take 4 bs) \<noteq> START_WORD")
    case True
    then show ?thesis using start(1) by (cases "length bs < 8") (simp_all add: def)
  next
    case False
    then have l: "\<not> length bs < 8" by simp
    show ?thesis
    proof (cases "sz > 0xFFFFFFF3")
      case True
      then show ?thesis using False l start big by (simp add: def)
    next
      case small: False
      show ?thesis
        using False l start cmp [OF small] valid [OF small] small by (simp add: def Let_def)
    qed
  qed
qed

lemma bytes_of_U32_of_bytes: "length xs = 4 \<Longrightarrow> bytes_of_U32 (U32_of_bytes xs) = xs"
  by (auto simp: list_of_length)

lemma fprime_decide_Wait:
  assumes "fprime_decide cap bs = Wait n"
  shows "length bs < n" "n = 8 \<or> n \<le> cap"
  using assms by (auto simp: fprime_decide_def Let_def split: if_splits)

lemma fprime_decide_Emit:
  assumes "fprime_decide cap bs = Emit p k"
  shows "k = length p + 12" "k \<le> length bs" "k \<le> cap" "take k bs = frame_image p"
proof -
  let ?w = "U32_of_bytes (take 4 (drop 4 bs))"
  have h: "\<not> length bs < 8" "U32_of_bytes (take 4 bs) = START_WORD" "unat ?w + 12 \<le> cap"
      "unat ?w + 12 \<le> length bs" "take 4 (drop (unat ?w + 8) bs) = crc32_digest (take (unat ?w + 8) bs)"
      "p = take (unat ?w) (drop 8 bs)" "k = unat ?w + 12"
    using assms by (auto simp: fprime_decide_def Let_def split: if_splits)
  then show "k = length p + 12" "k \<le> length bs" "k \<le> cap" by auto
  have lp: "length p = unat ?w" using h by simp
  have four: "bytes_of_U32 (U32_of_bytes (take 4 xs)) = take 4 xs" if "4 \<le> length xs" for xs
    using that by (intro bytes_of_U32_of_bytes) simp
  have "take 4 bs = bytes_of_U32 START_WORD" "take 4 (drop 4 bs) = bytes_of_U32 (of_nat (length p))"
    using four [of bs] four [of "drop 4 bs"] h(1,2) lp by simp_all
  moreover have "take (unat ?w + 8) bs = take 4 bs @ take 4 (drop 4 bs) @ take (unat ?w) (drop 8 bs)"
    using take_add [of 4 "4 + unat ?w" bs] take_add [of 4 "unat ?w" "drop 4 bs"]
    by (simp add: add.commute add.left_commute)
  ultimately have hdr: "take (unat ?w + 8) bs = frame_header p"
    using h(6) by (simp add: frame_header_def)
  have "take k bs = take (unat ?w + 8) bs @ take 4 (drop (unat ?w + 8) bs)"
    using take_add [of "unat ?w + 8" 4 bs] h(7) by (simp add: add.commute add.left_commute)
  then show "take k bs = frame_image p" using h(5) hdr by (simp add: frame_image_def)
qed

text \<open>A frame at the head of the bytes is recognised, whatever follows it.\<close>

lemma fprime_decide_frame:
  assumes "length p + 12 \<le> cap" "cap \<le> 2147483648"
  shows "fprime_decide cap (frame_image p @ rest) = Emit p (length p + 12)"
proof -
  have n: "unat (of_nat (length p) :: U32) = length p" using assms by (intro unat_of_nat32) simp
  have 1: "take 4 (frame_image p @ rest) = bytes_of_U32 START_WORD"
    "take 4 (drop 4 (frame_image p @ rest)) = bytes_of_U32 (of_nat (length p))"
    by (simp_all add: frame_image_def frame_header_def)
  have 2: "take (length p + 8) (frame_image p @ rest) = frame_header p"
    "take 4 (drop (length p + 8) (frame_image p @ rest)) = crc32_digest (frame_header p)"
    by (simp_all add: frame_image_def)
  have 3: "take (length p) (drop 8 (frame_image p @ rest)) = p"
    by (simp add: frame_image_def frame_header_def)
  show ?thesis
    unfolding fprime_decide_def 1 U32_of_bytes_of n Let_def 2 3 using assms by simp
qed

lemma fprime_decide_stable:
  assumes "\<forall>n. fprime_decide cap bs \<noteq> Wait n"
  shows "fprime_decide cap (bs @ rest) = fprime_decide cap bs"
proof -
  have l: "8 \<le> length bs"
  proof (rule ccontr)
    assume "\<not> 8 \<le> length bs"
    then have "fprime_decide cap bs = Wait 8" by (simp add: fprime_decide_def)
    with assms show False by blast
  qed
  let ?n = "unat (U32_of_bytes (take 4 (drop 4 bs)))"
  have "take 4 (bs @ rest) = take 4 bs" "take 4 (drop 4 (bs @ rest)) = take 4 (drop 4 bs)"
    using l by simp_all
  moreover have "take 4 (drop (?n + 8) (bs @ rest)) = take 4 (drop (?n + 8) bs)"
    "take (?n + 8) (bs @ rest) = take (?n + 8) bs"
    "take ?n (drop 8 (bs @ rest)) = take ?n (drop 8 bs)" if "?n + 12 \<le> length bs"
    using that by simp_all
  ultimately show ?thesis
    using l assms by (auto simp: fprime_decide_def Let_def)
qed

lemma deframe_wait:
  assumes wf: "ring_wf ring" and d: "fprime_decide (ring_cap ring) (ring_bytes ring) = Wait n"
  shows "FprimeDeframing_deframe (Some I) ring nd h = Some (DEFRAMING_MORE_NEEDED, of_nat n, ring, h)"
  using d unfolding deframe_unfold [OF wf]
  by (auto simp: fprime_decide_def Let_def split: if_splits)

lemma deframe_skip:
  assumes wf: "ring_wf ring" and d: "fprime_decide (ring_cap ring) (ring_bytes ring) = Skip st"
  shows "\<exists>nd'. FprimeDeframing_deframe (Some I) ring nd h = Some (st, nd', ring, h)"
    "st \<noteq> DEFRAMING_STATUS_SUCCESS" "st \<noteq> DEFRAMING_MORE_NEEDED" "8 \<le> length (ring_bytes ring)"
  using d unfolding deframe_unfold [OF wf]
  by (auto simp: fprime_decide_def Let_def split: if_splits)

lemma deframe_emit:
  assumes wf: "ring_wf ring" and d: "fprime_decide (ring_cap ring) (ring_bytes ring) = Emit p k"
    and al: "di_allocate I (of_nat (length p)) h = (b, h1)" "fresh_buffer b" "length p \<le> unat (m_size b)"
  shows "FprimeDeframing_deframe (Some I) ring nd h =
    map_option (\<lambda>h2. (DEFRAMING_STATUS_SUCCESS, of_nat k, ring, h2)) (di_route I (packet_buffer b p) h1)"
proof -
  note e = fprime_decide_Emit [OF d]
  let ?bs = "ring_bytes ring"
  let ?sz = "U32_of_bytes (take 4 (drop 4 ?bs))"
  have h: "\<not> length ?bs < 8" "U32_of_bytes (take 4 ?bs) = START_WORD" "\<not> unat ?sz + 12 > ring_cap ring"
      "\<not> length ?bs < unat ?sz + 12"
      "take 4 (drop (unat ?sz + 8) ?bs) = crc32_digest (take (unat ?sz + 8) ?bs)"
      "p = take (unat ?sz) (drop 8 ?bs)" "k = unat ?sz + 12"
    using d by (auto simp: fprime_decide_def Let_def split: if_splits)
  have lp: "of_nat (length p) = ?sz" "length p = unat ?sz" using h by simp_all
  obtain m where m: "m_bufferData b = Some m" "unat (m_size b) \<le> length m"
    using al(2) by (auto simp: fresh_buffer_def)
  have "peek_raw ring (m_bufferData (Buffer_setSize b ?sz)) ?sz 8 =
      Some (FW_SERIALIZE_OK, p @ drop (length p) m)"
    using peek_raw_ok [OF wf, of 8 ?sz m] h m lp al(3) by (simp add: Buffer_setSize_def)
  moreover have "?sz \<le> m_size b" using al(3) lp by (simp add: word_le_nat_alt)
  ultimately show ?thesis
    unfolding deframe_unfold [OF wf] using h al(1) m lp
    by (simp add: packet_buffer_def map_option_case split: option.split)
qed

end
