(* ===== verification/Deframer.thy ===== *)
theory Deframer
  imports Fprime_Protocol
begin

text \<open>
  Svc/Deframer/Deframer.cpp: the component that collects uplinked bytes in a ring, lets a
  deframing protocol find frames in it, and routes the packets. The protocol is an argument, as
  the code takes any \<open>DeframingProtocol\<close>. What leaves the component on its ports and what it
  logs is the list \<open>df_outs\<close>. The allocator behind \<open>bufferAllocate\<close> and the connection of
  \<open>bufferOut\<close> are the environment.
\<close>

section \<open>State\<close>

datatype df_out =
    DfComOut "U8 list"
  | DfBufferOut "U8 list"
  | DfBufferDeallocate
  | DfFramedDeallocate
  | DfLogComBuffer SerializeStatus
  | DfLogPacketType SerializeStatus
  | DfLogChecksum

record df_env =
  de_allocate :: "nat \<Rightarrow> U32 \<Rightarrow> Fw_Buffer"
  de_bufferOut_connected :: bool

record df_host =
  df_outs :: "df_out list"
  df_allocs :: nat

type_synonym deframe_fn =
  "df_host DeframingProtocolInterface option \<Rightarrow> CircularBuffer \<Rightarrow> U32 \<Rightarrow> df_host
     \<Rightarrow> (DeframingStatus \<times> U32 \<times> CircularBuffer \<times> df_host) option"

record Deframer =
  m_protocol :: "deframe_fn option"
  m_inRing :: CircularBuffer
  df_host :: df_host

definition RING_BUFFER_SIZE :: U32 where
  "RING_BUFFER_SIZE = 1024"

text \<open>The ring buffer memory is not initialised; its first contents are the parameter.\<close>

definition Deframer_new :: "U8 list \<Rightarrow> Deframer option" where
  "Deframer_new memory = do {
     ring \<leftarrow> CircularBuffer_new memory RING_BUFFER_SIZE;
     Some \<lparr>m_protocol = None, m_inRing = ring, df_host = \<lparr>df_outs = [], df_allocs = 0\<rparr>\<rparr>
   }"

definition Deframer_setup :: "deframe_fn \<Rightarrow> Deframer \<Rightarrow> Deframer option" where
  "Deframer_setup protocol df = do {
     fw_assert (m_protocol df = None);
     Some (df\<lparr>m_protocol := Some protocol\<rparr>)
   }"

definition df_emit :: "df_out \<Rightarrow> df_host \<Rightarrow> df_host" where
  "df_emit x h = h\<lparr>df_outs := df_outs h @ [x]\<rparr>"

section \<open>The interface of the protocol\<close>

definition Deframer_allocate :: "df_env \<Rightarrow> U32 \<Rightarrow> df_host \<Rightarrow> Fw_Buffer \<times> df_host" where
  "Deframer_allocate E n h = (de_allocate E (df_allocs h) n, h\<lparr>df_allocs := Suc (df_allocs h)\<rparr>)"

definition Deframer_route :: "df_env \<Rightarrow> Fw_Buffer \<Rightarrow> df_host \<Rightarrow> df_host option" where
  "Deframer_route E packetBuffer h = do {
     let serial = getSerializeRepr packetBuffer;
     let (status, serial) = setBuffLen serial (m_size packetBuffer);
     fw_assert (status = FW_SERIALIZE_OK);
     (r, serial) \<leftarrow> deserialize_U32 serial;
     (h, deallocate) \<leftarrow>
       (case r of
          Inr packetType \<Rightarrow>
            let packetData = m_bufferData packetBuffer; packetSize = m_size packetBuffer in
            if packetType = packet_type_code FW_PACKET_COMMAND then do {
              (status, com) \<leftarrow> setBuff ComBuffer_new packetData packetSize;
              Some (if status = FW_SERIALIZE_OK then df_emit (DfComOut (contents com)) h
                    else df_emit (DfLogComBuffer status) h, True)
            }
            else if packetType = packet_type_code FW_PACKET_FILE then
              (if de_bufferOut_connected E then
                 let packetBuffer = Buffer_setData packetBuffer (map_option (drop 4) packetData);
                     packetBuffer = Buffer_setSize packetBuffer (packetSize - 4)
                 in Some (df_emit (DfBufferOut (buffer_bytes packetBuffer)) h, False)
               else Some (h, True))
            else Some (h, True)
        | Inl e \<Rightarrow> Some (df_emit (DfLogPacketType e) h, True));
     Some (if deallocate then df_emit DfBufferDeallocate h else h)
   }"

definition Deframer_interface :: "df_env \<Rightarrow> df_host DeframingProtocolInterface" where
  "Deframer_interface E = \<lparr>di_allocate = Deframer_allocate E, di_route = Deframer_route E\<rparr>"

section \<open>Processing data\<close>

text \<open>One iteration per step of the fuel, which is the \<open>for\<close> bound of the code.\<close>

fun processRing_loop ::
  "df_env \<Rightarrow> deframe_fn \<Rightarrow> nat \<Rightarrow> U32 \<Rightarrow> DeframingStatus \<Rightarrow> CircularBuffer \<Rightarrow> df_host
     \<Rightarrow> (U32 \<times> DeframingStatus \<times> CircularBuffer \<times> df_host) option" where
  "processRing_loop E deframe 0 remaining status ring h = Some (remaining, status, ring, h)"
| "processRing_loop E deframe (Suc n) remaining status ring h =
     (let remaining = get_allocated_size ring in
      if remaining = 0 then Some (remaining, status, ring, h)
      else do {
        (status, needed, ring, h) \<leftarrow> deframe (Some (Deframer_interface E)) ring 0 h;
        fw_assert (get_allocated_size ring = remaining);
        if status = DEFRAMING_STATUS_SUCCESS then do {
          fw_assert (needed \<noteq> 0);
          fw_assert (needed \<le> remaining);
          (stat, ring) \<leftarrow> rotate_ring ring needed;
          fw_assert (get_allocated_size ring = remaining - needed);
          processRing_loop E deframe n remaining status ring h
        }
        else if status = DEFRAMING_MORE_NEEDED then do {
          fw_assert (needed > remaining);
          Some (remaining, status, ring, h)
        }
        else do {
          (stat, ring) \<leftarrow> rotate_ring ring 1;
          fw_assert (get_allocated_size ring = remaining - 1);
          let h = (if status = DEFRAMING_INVALID_CHECKSUM then df_emit DfLogChecksum h else h);
          processRing_loop E deframe n remaining status ring h
        }
      })"

definition processRing :: "df_env \<Rightarrow> Deframer \<Rightarrow> Deframer option" where
  "processRing E df = do {
     deframe \<leftarrow> m_protocol df;
     (remaining, status, ring, h) \<leftarrow>
       processRing_loop E deframe (unat (get_capacity (m_inRing df))) 0 DEFRAMING_STATUS_SUCCESS
         (m_inRing df) (df_host df);
     fw_assert (status \<noteq> DEFRAMING_MORE_NEEDED \<longrightarrow> remaining = 0);
     Some (df\<lparr>m_inRing := ring, df_host := h\<rparr>)
   }"

fun processBuffer_loop ::
  "df_env \<Rightarrow> nat \<Rightarrow> U8 list option \<Rightarrow> U32 \<Rightarrow> U32 \<Rightarrow> Deframer \<Rightarrow> (U32 \<times> Deframer) option" where
  "processBuffer_loop E 0 bufferData offset remaining df = Some (remaining, df)"
| "processBuffer_loop E (Suc n) bufferData offset remaining df =
     (if remaining = 0 then Some (remaining, df)
      else do {
        ringFreeSize \<leftarrow> get_free_size (m_inRing df);
        let serSize = (if ringFreeSize \<le> remaining then ringFreeSize else remaining);
        (status, ring) \<leftarrow>
          ring_serialize (m_inRing df) (map_option (drop (unat offset)) bufferData) serSize;
        fw_assert (status = FW_SERIALIZE_OK);
        df \<leftarrow> processRing E (df\<lparr>m_inRing := ring\<rparr>);
        processBuffer_loop E n bufferData (offset + serSize) (remaining - serSize) df
      })"

definition processBuffer :: "df_env \<Rightarrow> Fw_Buffer \<Rightarrow> Deframer \<Rightarrow> Deframer option" where
  "processBuffer E buffer df = do {
     let bufferSize = m_size buffer;
     (remaining, df) \<leftarrow>
       processBuffer_loop E (unat bufferSize) (m_bufferData buffer) 0 bufferSize df;
     fw_assert (remaining = 0);
     Some df
   }"

section \<open>Handlers\<close>

definition Deframer_framedIn_handler :: "df_env \<Rightarrow> Fw_Buffer \<Rightarrow> bool \<Rightarrow> Deframer \<Rightarrow> Deframer option" where
  "Deframer_framedIn_handler E recvBuffer recv_ok df = do {
     df \<leftarrow> (if recv_ok then processBuffer E recvBuffer df else Some df);
     Some (df\<lparr>df_host := df_emit DfFramedDeallocate (df_host df)\<rparr>)
   }"

text \<open>The poll buffer as the driver behind \<open>framedPoll\<close> returns it, and the poll status.\<close>

definition Deframer_schedIn_handler :: "df_env \<Rightarrow> Fw_Buffer \<Rightarrow> bool \<Rightarrow> Deframer \<Rightarrow> Deframer option" where
  "Deframer_schedIn_handler E pollBuffer poll_ok df =
     (if poll_ok then processBuffer E pollBuffer df else Some df)"

definition Deframer_cmdResponseIn_handler :: "Deframer \<Rightarrow> Deframer" where
  "Deframer_cmdResponseIn_handler df = df"

datatype df_input = DfFramedIn Fw_Buffer bool | DfSchedIn Fw_Buffer bool | DfCmdResponseIn

fun Deframer_input :: "df_env \<Rightarrow> df_input \<Rightarrow> Deframer \<Rightarrow> Deframer option" where
  "Deframer_input E (DfFramedIn b ok) df = Deframer_framedIn_handler E b ok df"
| "Deframer_input E (DfSchedIn b ok) df = Deframer_schedIn_handler E b ok df"
| "Deframer_input E DfCmdResponseIn df = Some (Deframer_cmdResponseIn_handler df)"

fun Deframer_inputs :: "df_env \<Rightarrow> df_input list \<Rightarrow> Deframer \<Rightarrow> Deframer option" where
  "Deframer_inputs E [] df = Some df"
| "Deframer_inputs E (x # xs) df = do { df \<leftarrow> Deframer_input E x df; Deframer_inputs E xs df }"

end
