(* ===== verification/Deframer_Spec.thy ===== *)
theory Deframer_Spec
  imports Deframer
begin

text \<open>
  What the deframer does to a byte stream. \<open>scan\<close> cuts the stream into packets with a
  decision function, without a ring, buffers or chunks. The locale \<open>deframing_protocol\<close> is
  what a protocol implementation owes the component: a decision function its \<open>deframe\<close>
  computes, decisions that later bytes do not change, and progress. In it, the ring loop and the
  buffer loop are proved to run to the end without a failed assertion and to compute \<open>scan\<close>.
  The F Prime protocol interprets it.
\<close>

section \<open>Scanning a byte stream\<close>

datatype found = Packet "U8 list" | BadChecksum

function scan :: "(nat \<Rightarrow> U8 list \<Rightarrow> decision) \<Rightarrow> nat \<Rightarrow> U8 list \<Rightarrow> found list \<times> U8 list" where
  "scan D cap bs =
     (if bs = [] then ([], [])
      else case D cap bs of
        Wait n \<Rightarrow> ([], bs)
      | Skip st \<Rightarrow> (let (fs, rest) = scan D cap (drop 1 bs) in
          ((if st = DEFRAMING_INVALID_CHECKSUM then [BadChecksum] else []) @ fs, rest))
      | Emit p n \<Rightarrow> (let (fs, rest) = scan D cap (drop (max 1 n) bs) in (Packet p # fs, rest)))"
  by pat_completeness auto
termination
  by (relation "measure (\<lambda>(D, cap, bs). length bs)") auto

declare scan.simps [simp del]

lemma scan_Nil [simp]: "scan D cap [] = ([], [])"
  by (simp add: scan.simps)

lemma scan_Wait: "D cap bs = Wait n \<Longrightarrow> scan D cap bs = ([], bs)"
  by (simp add: scan.simps)

lemma scan_Skip:
  "D cap bs = Skip st \<Longrightarrow> bs \<noteq> [] \<Longrightarrow> scan D cap bs =
    ((if st = DEFRAMING_INVALID_CHECKSUM then [BadChecksum] else []) @ fst (scan D cap (drop 1 bs)),
     snd (scan D cap (drop 1 bs)))"
  by (simp add: scan.simps [of D cap bs] split: prod.split)

lemma scan_Emit:
  "D cap bs = Emit p n \<Longrightarrow> bs \<noteq> [] \<Longrightarrow> 0 < n \<Longrightarrow> scan D cap bs =
    (Packet p # fst (scan D cap (drop n bs)), snd (scan D cap (drop n bs)))"
  by (simp add: scan.simps [of D cap bs] max_def split: prod.split)

text \<open>What the component does with each finding.\<close>

definition routed :: "bool \<Rightarrow> U8 list \<Rightarrow> df_out list" where
  "routed connected p =
     (if p = [] then [DfLogPacketType FW_DESERIALIZE_BUFFER_EMPTY, DfBufferDeallocate]
      else if length p < 4 then [DfLogPacketType FW_DESERIALIZE_SIZE_MISMATCH, DfBufferDeallocate]
      else let ty = U32_of_bytes (take 4 p) in
        if ty = 0 then
          [if length p \<le> 128 then DfComOut p else DfLogComBuffer FW_SERIALIZE_NO_ROOM_LEFT,
           DfBufferDeallocate]
        else if ty = 3 \<and> connected then [DfBufferOut (drop 4 p)]
        else [DfBufferDeallocate])"

fun handled :: "bool \<Rightarrow> found \<Rightarrow> df_out list" where
  "handled connected (Packet p) = routed connected p"
| "handled connected BadChecksum = [DfLogChecksum]"

definition allocates :: "df_env \<Rightarrow> bool" where
  "allocates E \<longleftrightarrow> (\<forall>k n. unat n < 2147483648 \<longrightarrow>
     fresh_buffer (de_allocate E k n) \<and> unat n \<le> unat (m_size (de_allocate E k n)))"

section \<open>The contract of a protocol\<close>

locale deframing_protocol =
  fixes deframe :: deframe_fn
    and decide :: "nat \<Rightarrow> U8 list \<Rightarrow> decision"
    and min_cap :: nat
  assumes min_cap: "min_cap \<le> 2147483648"
    and wait_bounds: "decide cap bs = Wait n \<Longrightarrow> length bs < n \<and> (n \<le> cap \<or> n \<le> min_cap)"
    and single_waits: "length bs < 2 \<Longrightarrow> \<exists>n. decide cap bs = Wait n"
    and emit_bounds: "decide cap bs = Emit p k \<Longrightarrow> length p < k \<and> k \<le> length bs"
    and stable: "\<forall>n. decide cap bs \<noteq> Wait n \<Longrightarrow> decide cap (bs @ rest) = decide cap bs"
    and skip_status: "decide cap bs = Skip st \<Longrightarrow>
      st \<noteq> DEFRAMING_STATUS_SUCCESS \<and> st \<noteq> DEFRAMING_MORE_NEEDED"
    and wait: "ring_wf ring \<Longrightarrow> decide (ring_cap ring) (ring_bytes ring) = Wait n \<Longrightarrow>
      deframe (Some I) ring nd h = Some (DEFRAMING_MORE_NEEDED, of_nat n, ring, h)"
    and skip: "ring_wf ring \<Longrightarrow> decide (ring_cap ring) (ring_bytes ring) = Skip st \<Longrightarrow>
      \<exists>nd'. deframe (Some I) ring nd h = Some (st, nd', ring, h)"
    and emit: "ring_wf ring \<Longrightarrow> decide (ring_cap ring) (ring_bytes ring) = Emit p k \<Longrightarrow>
      di_allocate I (of_nat (length p)) h = (b, h1) \<Longrightarrow> fresh_buffer b \<Longrightarrow>
      length p \<le> unat (m_size b) \<Longrightarrow>
      deframe (Some I) ring nd h =
        map_option (\<lambda>h2. (DEFRAMING_STATUS_SUCCESS, of_nat k, ring, h2)) (di_route I (packet_buffer b p) h1)"

interpretation fprime_protocol: deframing_protocol FprimeDeframing_deframe fprime_decide 8
proof
  fix cap bs n
  assume "fprime_decide cap bs = Wait n"
  then show "length bs < n \<and> (n \<le> cap \<or> n \<le> 8)" using fprime_decide_Wait by fastforce
next
  fix cap and bs :: "U8 list"
  assume "length bs < 2"
  then show "\<exists>n. fprime_decide cap bs = Wait n" by (simp add: fprime_decide_def)
next
  fix cap bs p k
  assume "fprime_decide cap bs = Emit p k"
  then show "length p < k \<and> k \<le> length bs" using fprime_decide_Emit [of cap bs p k] by simp
next
  fix cap bs st
  assume "fprime_decide cap bs = Skip st"
  then show "st \<noteq> DEFRAMING_STATUS_SUCCESS \<and> st \<noteq> DEFRAMING_MORE_NEEDED"
    by (auto simp: fprime_decide_def Let_def split: if_splits)
qed (simp_all add: fprime_decide_stable deframe_wait deframe_skip(1) deframe_emit)

section \<open>Routing one packet\<close>

lemma df_emit_outs: "df_emit x h = h\<lparr>df_outs := df_outs h @ [x]\<rparr>"
  by (simp add: df_emit_def)

lemma packet_buffer_facts:
  assumes "fresh_buffer b" "length p \<le> unat (m_size b)"
  shows "\<exists>mem. m_bufferData (packet_buffer b p) = Some (p @ mem)" "unat (m_size (packet_buffer b p)) = length p"
    "m_serialize_repr (packet_buffer b p) = \<lparr>m_data = p, m_null = False, m_serLoc = 0, m_deserLoc = 0\<rparr>"
    "length p < 2147483648"
proof -
  obtain m where m: "m_bufferData b = Some m" "unat (m_size b) < 2147483648"
      "m_serialize_repr b = \<lparr>m_data = take (unat (m_size b)) m, m_null = False, m_serLoc = 0, m_deserLoc = 0\<rparr>"
    using assms(1) by (auto simp: fresh_buffer_def)
  then show "length p < 2147483648" using assms(2) by simp
  then have "unat (of_nat (length p) :: U32) = length p" by (intro unat_of_nat32) simp
  with m show "\<exists>mem. m_bufferData (packet_buffer b p) = Some (p @ mem)"
    "unat (m_size (packet_buffer b p)) = length p"
    "m_serialize_repr (packet_buffer b p) = \<lparr>m_data = p, m_null = False, m_serLoc = 0, m_deserLoc = 0\<rparr>"
    by (simp_all add: packet_buffer_def Buffer_setData_def Buffer_setSize_def refresh_repr_mem)
qed

lemma route_command:
  assumes "m_bufferData b = Some (p @ mem)" "unat (m_size b) = length p"
  shows "\<exists>com status. setBuff ComBuffer_new (m_bufferData b) (m_size b) = Some (status, com) \<and>
    (if length p \<le> 128 then status = FW_SERIALIZE_OK \<and> contents com = p
     else status = FW_SERIALIZE_NO_ROOM_LEFT)"
proof (cases "length p \<le> 128")
  case True
  then obtain com where "setBuff ComBuffer_new (Some (p @ mem)) (m_size b) = Some (FW_SERIALIZE_OK, com)"
      "contents com = p"
    using setBuff_ok [OF ComBuffer_new_wf(1), of "m_size b" "p @ mem"] ComBuffer_new_wf assms by auto
  with True assms show ?thesis by simp
next
  case False
  then show ?thesis
    using setBuff_full [OF ComBuffer_new_wf(1), of "m_size b" "m_bufferData b"] ComBuffer_new_wf assms
    by simp
qed

lemma route_packet:
  assumes b: "fresh_buffer b" "length p \<le> unat (m_size b)"
  shows "Deframer_route E (packet_buffer b p) h =
    Some (h\<lparr>df_outs := df_outs h @ routed (de_bufferOut_connected E) p\<rparr>)"
proof -
  note f = packet_buffer_facts [OF b]
  obtain mem where mem: "m_bufferData (packet_buffer b p) = Some (p @ mem)" using f(1) by blast
  let ?b = "packet_buffer b p"
  let ?s = "\<lparr>m_data = p, m_null = False, m_serLoc = m_size ?b, m_deserLoc = 0\<rparr>"
  have wf: "ser_wf ?s" using f(2,4) by (simp add: ser_wf_def)
  have u: "unread ?s = p" using f(2) by (simp add: unread_def contents_def)
  have sb: "setBuffLen (getSerializeRepr ?b) (m_size ?b) = (FW_SERIALIZE_OK, ?s)"
    using f by (simp add: setBuffLen_def getSerializeRepr_def getBuffCapacity_def word_less_nat_alt
        unat_of_nat32)
  obtain com st where com: "setBuff ComBuffer_new (m_bufferData ?b) (m_size ?b) = Some (st, com)"
      "if length p \<le> 128 then st = FW_SERIALIZE_OK \<and> contents com = p else st = FW_SERIALIZE_NO_ROOM_LEFT"
    using route_command [OF mem f(2)] by auto
  show ?thesis
  proof (cases "length p < 4")
    case True
    then have "deserialize_U32 ?s = Some (Inl (if p = [] then FW_DESERIALIZE_BUFFER_EMPTY
        else FW_DESERIALIZE_SIZE_MISMATCH), ?s)"
      using deser_fixed_short [OF wf, of 4 U32_of_bytes] by (simp add: deserialize_U32_def u)
    then show ?thesis using True sb
      by (auto simp: Deframer_route_def Let_def routed_def df_emit_outs)
  next
    case False
    then have d: "deserialize_U32 ?s = Some (Inr (U32_of_bytes (take 4 p)), consume ?s 4)"
      using deser_fixed_ok [OF wf, of 4 U32_of_bytes] by (simp add: deserialize_U32_def u)
    have sz: "unat (m_size ?b - 4) = length p - 4" using False f(2) by (simp add: unat_sub_small)
    then have "buffer_bytes (Buffer_setSize (Buffer_setData ?b (Some (drop 4 (p @ mem)))) (m_size ?b - 4))
        = drop 4 p"
      using False by (simp add: buffer_bytes_def Buffer_setSize_def Buffer_setData_def)
    with False sb d com mem show ?thesis
      by (auto simp: Deframer_route_def Let_def routed_def df_emit_outs split: if_splits)
  qed
qed

section \<open>The ring loop\<close>

definition settled :: "(nat \<Rightarrow> U8 list \<Rightarrow> decision) \<Rightarrow> CircularBuffer \<Rightarrow> bool" where
  "settled D ring \<longleftrightarrow> ring_bytes ring = [] \<or> (\<exists>n. D (ring_cap ring) (ring_bytes ring) = Wait n)"

definition after_scan :: "(nat \<Rightarrow> U8 list \<Rightarrow> decision) \<Rightarrow> df_env \<Rightarrow> nat \<Rightarrow> U8 list \<Rightarrow> df_out list" where
  "after_scan D E cap bs = concat (map (handled (de_bufferOut_connected E)) (fst (scan D cap bs)))"

lemma rotate_amount:
  assumes "ring_wf ring" "unat k \<le> length (ring_bytes ring)"
  obtains ring' where "rotate_ring ring k = Some (FW_SERIALIZE_OK, ring')" "ring_wf ring'"
    "ring_bytes ring' = drop (unat k) (ring_bytes ring)" "ring_cap ring' = ring_cap ring"
    "get_allocated_size ring' = get_allocated_size ring - k"
proof -
  from rotate_ok [OF assms] obtain ring' where
    r: "rotate_ring ring k = Some (FW_SERIALIZE_OK, ring')" "ring_wf ring'"
      "ring_bytes ring' = drop (unat k) (ring_bytes ring)" "ring_cap ring' = ring_cap ring" by blast
  have "unat (get_allocated_size ring') = unat (get_allocated_size ring - k)"
    using arg_cong [OF r(3), of length] assms(2)
    by (simp add: get_allocated_size_def length_ring_bytes unat_sub_small)
  then have "get_allocated_size ring' = get_allocated_size ring - k"
    by (simp add: word_unat_eq_iff)
  then show ?thesis using that r by blast
qed

context deframing_protocol
begin

lemma not_wait_two: "\<forall>n. decide cap bs \<noteq> Wait n \<Longrightarrow> 2 \<le> length bs"
  using single_waits [of bs cap] by force

text \<open>Calling the protocol on a packet at the head of the ring routes the packet.\<close>

lemma emit_routes:
  assumes wf: "ring_wf ring" and d: "decide (ring_cap ring) (ring_bytes ring) = Emit p k"
    and al: "allocates E"
  shows "\<exists>h'. deframe (Some (Deframer_interface E)) ring nd h =
      Some (DEFRAMING_STATUS_SUCCESS, of_nat k, ring, h') \<and>
    df_outs h' = df_outs h @ routed (de_bufferOut_connected E) p"
proof -
  have "length p < 2147483648" "k \<le> length (ring_bytes ring)"
    using emit_bounds [OF d] ring_bytes_small [OF wf] by linarith+
  then have n: "unat (of_nat (length p) :: U32) = length p" by (intro unat_of_nat32) simp
  let ?b = "de_allocate E (df_allocs h) (of_nat (length p))"
  have b: "fresh_buffer ?b" "length p \<le> unat (m_size ?b)"
    using al n \<open>length p < 2147483648\<close> unfolding allocates_def by (metis)+
  have "di_allocate (Deframer_interface E) (of_nat (length p)) h =
      (?b, h\<lparr>df_allocs := Suc (df_allocs h)\<rparr>)"
    by (simp add: Deframer_interface_def Deframer_allocate_def)
  from emit [OF wf d this b, of nd] show ?thesis
    by (simp add: Deframer_interface_def route_packet [OF b])
qed

lemma ring_loop_ok:
  assumes "ring_wf ring" "allocates E" "length (ring_bytes ring) \<le> n" "0 < n"
  shows "\<exists>rem st ring' h'. processRing_loop E deframe n rem0 st0 ring h = Some (rem, st, ring', h') \<and>
    (st \<noteq> DEFRAMING_MORE_NEEDED \<longrightarrow> rem = 0) \<and> ring_wf ring' \<and> ring_cap ring' = ring_cap ring \<and>
    ring_bytes ring' = snd (scan decide (ring_cap ring) (ring_bytes ring)) \<and> settled decide ring' \<and>
    df_outs h' = df_outs h @ after_scan decide E (ring_cap ring) (ring_bytes ring)"
  using assms
proof (induction n arbitrary: rem0 st0 ring h)
  case (Suc n)
  let ?bs = "ring_bytes ring" and ?cap = "ring_cap ring"
  note wf = Suc.prems(1)
  have alloc: "unat (get_allocated_size ring) = length ?bs"
    by (simp add: get_allocated_size_def length_ring_bytes)
  show ?case
  proof (cases "?bs = []")
    case True
    then have "get_allocated_size ring = 0" using alloc by (simp add: unat_eq_0)
    with True wf show ?thesis by (simp add: after_scan_def settled_def)
  next
    case ne: False
    then have a0: "get_allocated_size ring \<noteq> 0" using alloc by (metis length_0_conv unat_0)
    show ?thesis
    proof (cases "decide ?cap ?bs")
      case (Wait k)
      have "k < 4294967296"
        using wait_bounds [OF Wait] min_cap ring_bytes_small [OF wf] by linarith
      then have "of_nat k > get_allocated_size ring"
        using wait_bounds [OF Wait] by (simp add: word_less_nat_alt alloc unat_of_nat32)
      with Wait wf a0 show ?thesis
        by (simp add: wait scan_Wait after_scan_def settled_def)
    next
      case (Skip st)
      have two: "2 \<le> length ?bs" using not_wait_two [of ?cap ?bs] Skip by simp
      obtain nd' where nd: "deframe (Some (Deframer_interface E)) ring 0 h = Some (st, nd', ring, h)"
        using skip [OF wf Skip] by blast
      obtain ring1 where r1: "rotate_ring ring 1 = Some (FW_SERIALIZE_OK, ring1)" "ring_wf ring1"
          "ring_bytes ring1 = drop 1 ?bs" "ring_cap ring1 = ?cap"
          "get_allocated_size ring1 = get_allocated_size ring - 1"
        using rotate_amount [OF wf, of 1] two by auto
      let ?h = "if st = DEFRAMING_INVALID_CHECKSUM then df_emit DfLogChecksum h else h"
      have "length (ring_bytes ring1) \<le> n" "0 < n" using r1(3) two Suc.prems(3) by auto
      from Suc.IH [OF r1(2) Suc.prems(2) this, of "get_allocated_size ring" st ?h]
      obtain rem st' ring' h' where
        loop: "processRing_loop E deframe n (get_allocated_size ring) st ring1 ?h = Some (rem, st', ring', h')"
          "st' \<noteq> DEFRAMING_MORE_NEEDED \<longrightarrow> rem = 0" "ring_wf ring'" "ring_cap ring' = ?cap"
          "ring_bytes ring' = snd (scan decide ?cap (drop 1 ?bs))" "settled decide ring'"
          "df_outs h' = df_outs ?h @ after_scan decide E ?cap (drop 1 ?bs)"
        using r1(3,4) by auto
      have "processRing_loop E deframe (Suc n) rem0 st0 ring h = Some (rem, st', ring', h')"
        using a0 nd r1(1,5) skip_status [OF Skip] loop(1) by (simp add: Let_def)
      moreover have "df_outs h' = df_outs h @ after_scan decide E ?cap ?bs"
        using loop(7) scan_Skip [of decide, OF Skip ne] by (simp add: after_scan_def df_emit_outs)
      ultimately show ?thesis using loop scan_Skip [of decide, OF Skip ne] by simp
    next
      case (Emit p k)
      have two: "2 \<le> length ?bs" using not_wait_two [of ?cap ?bs] Emit by simp
      note eb = emit_bounds [OF Emit]
      have k: "unat (of_nat k :: U32) = k"
        using eb ring_bytes_small [OF wf] by (intro unat_of_nat32) linarith
      obtain h1 where h1: "deframe (Some (Deframer_interface E)) ring 0 h =
            Some (DEFRAMING_STATUS_SUCCESS, of_nat k, ring, h1)"
          "df_outs h1 = df_outs h @ routed (de_bufferOut_connected E) p"
        using emit_routes [OF wf Emit Suc.prems(2)] by blast
      obtain ring1 where r1: "rotate_ring ring (of_nat k) = Some (FW_SERIALIZE_OK, ring1)" "ring_wf ring1"
          "ring_bytes ring1 = drop k ?bs" "ring_cap ring1 = ?cap"
          "get_allocated_size ring1 = get_allocated_size ring - of_nat k"
        using rotate_amount [OF wf, of "of_nat k"] eb k by auto
      have needed: "(of_nat k :: U32) \<noteq> 0" "of_nat k \<le> get_allocated_size ring"
        using eb k alloc by (metis not_less_zero unat_0, simp add: word_le_nat_alt)
      have "length (ring_bytes ring1) \<le> n" "0 < n" using r1(3) two Suc.prems(3) eb by auto
      from Suc.IH [OF r1(2) Suc.prems(2) this, of "get_allocated_size ring" DEFRAMING_STATUS_SUCCESS h1]
      obtain rem st' ring' h' where
        loop: "processRing_loop E deframe n (get_allocated_size ring) DEFRAMING_STATUS_SUCCESS ring1 h1 =
            Some (rem, st', ring', h')"
          "st' \<noteq> DEFRAMING_MORE_NEEDED \<longrightarrow> rem = 0" "ring_wf ring'" "ring_cap ring' = ?cap"
          "ring_bytes ring' = snd (scan decide ?cap (drop k ?bs))" "settled decide ring'"
          "df_outs h' = df_outs h1 @ after_scan decide E ?cap (drop k ?bs)"
        using r1(3,4) by auto
      have "processRing_loop E deframe (Suc n) rem0 st0 ring h = Some (rem, st', ring', h')"
        using a0 h1(1) r1(1,5) needed loop(1) by (simp add: Let_def)
      moreover have e: "scan decide ?cap ?bs =
          (Packet p # fst (scan decide ?cap (drop k ?bs)), snd (scan decide ?cap (drop k ?bs)))"
        using scan_Emit [of decide, OF Emit ne] eb by simp
      ultimately show ?thesis using loop h1(2) by (simp add: after_scan_def)
    qed
  qed
qed simp

text \<open>Scanning can stop after any prefix and go on with what is left of it.\<close>

lemma scan_append:
  "scan decide cap (bs @ cs) =
    (fst (scan decide cap bs) @ fst (scan decide cap (snd (scan decide cap bs) @ cs)),
     snd (scan decide cap (snd (scan decide cap bs) @ cs)))"
proof (induction "length bs" arbitrary: bs rule: less_induct)
  case less
  show ?case
  proof (cases "bs = [] \<or> (\<exists>n. decide cap bs = Wait n)")
    case True
    then show ?thesis by (auto simp: scan_Wait)
  next
    case False
    then have st: "decide cap (bs @ cs) = decide cap bs" and ne: "bs \<noteq> []" "bs @ cs \<noteq> []"
      using stable [of cap bs cs] by auto
    show ?thesis
    proof (cases "decide cap bs")
      case (Wait n)
      with False show ?thesis by simp
    next
      case (Skip e)
      have "drop 1 (bs @ cs) = drop 1 bs @ cs" using ne by (cases bs) auto
      then show ?thesis
        using scan_Skip [of decide, OF Skip ne(1)] scan_Skip [of decide cap "bs @ cs", OF _ ne(2)]
          st Skip less.hyps [of "drop 1 bs"] ne by simp
    next
      case (Emit p k)
      have "drop k (bs @ cs) = drop k bs @ cs" "0 < k" "length (drop k bs) < length bs"
        using emit_bounds [OF Emit] ne by auto
      then show ?thesis
        using scan_Emit [of decide, OF Emit ne(1)] scan_Emit [of decide cap "bs @ cs", OF _ ne(2)]
          st Emit less.hyps [of "drop k bs"] by simp
    qed
  qed
qed

lemma after_scan_append:
  "after_scan decide E cap (bs @ cs) =
     after_scan decide E cap bs @ after_scan decide E cap (snd (scan decide cap bs) @ cs)"
  unfolding after_scan_def by (subst scan_append) simp

lemma scan_settled: "settled decide ring \<Longrightarrow>
    scan decide (ring_cap ring) (ring_bytes ring) = ([], ring_bytes ring)"
  by (auto simp: settled_def scan_Wait)

section \<open>The buffer loop\<close>

definition ready :: "Deframer \<Rightarrow> bool" where
  "ready df \<longleftrightarrow> m_protocol df = Some deframe \<and> ring_wf (m_inRing df) \<and> settled decide (m_inRing df) \<and>
     min_cap \<le> ring_cap (m_inRing df)"

definition fed :: "df_env \<Rightarrow> Deframer \<Rightarrow> U8 list \<Rightarrow> Deframer \<Rightarrow> bool" where
  "fed E df bs df' \<longleftrightarrow> ready df' \<and> ring_cap (m_inRing df') = ring_cap (m_inRing df) \<and>
     (let q = ring_bytes (m_inRing df) @ bs; cap = ring_cap (m_inRing df) in
      ring_bytes (m_inRing df') = snd (scan decide cap q) \<and>
      df_outs (df_host df') = df_outs (df_host df) @ after_scan decide E cap q)"

lemma fed_Nil: "ready df \<Longrightarrow> fed E df [] df"
  by (simp add: fed_def ready_def scan_settled after_scan_def)

lemma fed_trans: "fed E df bs df1 \<Longrightarrow> fed E df1 cs df2 \<Longrightarrow> fed E df (bs @ cs) df2"
  unfolding fed_def Let_def
  by (auto simp: scan_append [of _ "ring_bytes (m_inRing df) @ bs" cs, simplified]
      after_scan_append [of E _ "ring_bytes (m_inRing df) @ bs" cs, simplified])

lemma ready_free:
  assumes "ready df"
  shows "length (ring_bytes (m_inRing df)) < ring_cap (m_inRing df)"
proof (cases "ring_bytes (m_inRing df) = []")
  case True
  then show ?thesis using assms ring_wf_nat(2) [of "m_inRing df"] by (simp add: ready_def)
next
  case False
  then obtain n where n: "decide (ring_cap (m_inRing df)) (ring_bytes (m_inRing df)) = Wait n"
    using assms by (auto simp: ready_def settled_def)
  show ?thesis using wait_bounds [OF n] assms by (auto simp: ready_def)
qed

lemma processRing_ok:
  assumes "m_protocol df = Some deframe" "ring_wf (m_inRing df)" "min_cap \<le> ring_cap (m_inRing df)"
    "allocates E"
  shows "\<exists>df'. processRing E df = Some df' \<and> ready df' \<and> ring_cap (m_inRing df') = ring_cap (m_inRing df) \<and>
    ring_bytes (m_inRing df') = snd (scan decide (ring_cap (m_inRing df)) (ring_bytes (m_inRing df))) \<and>
    df_outs (df_host df') =
      df_outs (df_host df) @ after_scan decide E (ring_cap (m_inRing df)) (ring_bytes (m_inRing df))"
proof -
  have "unat (get_capacity (m_inRing df)) = ring_cap (m_inRing df)"
    by (simp add: get_capacity_def ring_cap_def)
  moreover have "length (ring_bytes (m_inRing df)) \<le> ring_cap (m_inRing df)" "0 < ring_cap (m_inRing df)"
    using ring_bytes_small [OF assms(2)] ring_wf_nat [OF assms(2)] by simp_all
  ultimately show ?thesis
    using ring_loop_ok [OF assms(2,4), of "ring_cap (m_inRing df)" 0 DEFRAMING_STATUS_SUCCESS "df_host df"]
      assms by (auto simp: processRing_def ready_def)
qed

lemma buffer_loop_ok:
  assumes "ready df" "allocates E" "unat offset + unat remaining \<le> length data"
    "unat offset + unat remaining < 4294967296" "unat remaining \<le> n"
  shows "\<exists>df'. processBuffer_loop E n (Some data) offset remaining df = Some (0, df') \<and>
    fed E df (take (unat remaining) (drop (unat offset) data)) df'"
  using assms
proof (induction n arbitrary: offset remaining df)
  case 0
  then have "remaining = 0" by (simp add: unat_eq_0)
  with 0 show ?case by (simp add: fed_Nil)
next
  case (Suc n)
  show ?case
  proof (cases "remaining = 0")
    case True
    with Suc.prems show ?thesis by (simp add: fed_Nil)
  next
    case False
    let ?ring = "m_inRing df"
    have wf: "ring_wf ?ring" and P: "m_protocol df = Some deframe" and mc: "min_cap \<le> ring_cap ?ring"
      using Suc.prems(1) by (auto simp: ready_def)
    obtain f where f: "get_free_size ?ring = Some f"
        "unat f = ring_cap ?ring - length (ring_bytes ?ring)"
      using unat_free [OF wf] by blast
    define sz where "sz = (if f \<le> remaining then f else remaining)"
    have rem: "0 < unat remaining" using False by (simp add: unat_gt_0)
    have sz: "0 < unat sz" "unat sz \<le> unat f" "unat sz \<le> unat remaining"
      using rem ready_free [OF Suc.prems(1)] f(2) by (auto simp: sz_def word_le_nat_alt)
    have room: "length (ring_bytes ?ring) + unat sz \<le> ring_cap ?ring"
      using sz(2) f(2) ring_bytes_small(2) [OF wf] by linarith
    have src: "unat sz \<le> length (drop (unat offset) data)" using sz(3) Suc.prems(3) by simp
    obtain ring1 where r1: "ring_serialize ?ring (Some (drop (unat offset) data)) sz =
          Some (FW_SERIALIZE_OK, ring1)" "ring_wf ring1" "ring_cap ring1 = ring_cap ?ring"
        "ring_bytes ring1 = ring_bytes ?ring @ take (unat sz) (drop (unat offset) data)"
      using ring_serialize_ok [OF wf room src] by blast
    obtain df1 where p1: "processRing E (df\<lparr>m_inRing := ring1\<rparr>) = Some df1"
        and fed1: "fed E df (take (unat sz) (drop (unat offset) data)) df1"
      using processRing_ok [of "df\<lparr>m_inRing := ring1\<rparr>" E] P r1 mc Suc.prems(2)
      by (auto simp: fed_def Let_def)
    have n1: "unat (offset + sz) = unat offset + unat sz"
      using sz Suc.prems(4) by (intro unat_add_small) simp
    have n2: "unat (remaining - sz) = unat remaining - unat sz"
      using sz by (intro unat_sub_small)
    have "ready df1" using fed1 by (simp add: fed_def)
    moreover have "unat (offset + sz) + unat (remaining - sz) \<le> length data"
      "unat (offset + sz) + unat (remaining - sz) < 4294967296" "unat (remaining - sz) \<le> n"
      using n1 n2 sz Suc.prems(3,4,5) by linarith+
    ultimately obtain df' where
      df': "processBuffer_loop E n (Some data) (offset + sz) (remaining - sz) df1 = Some (0, df')"
        "fed E df1 (take (unat remaining - unat sz) (drop (unat offset + unat sz) data)) df'"
      using Suc.IH [of df1 "offset + sz" "remaining - sz"] Suc.prems(2) n1 n2 by auto
    have "take (unat remaining) (drop (unat offset) data) = take (unat sz) (drop (unat offset) data) @
        take (unat remaining - unat sz) (drop (unat offset + unat sz) data)"
      using take_add [of "unat sz" "unat remaining - unat sz" "drop (unat offset) data"] sz
      by (simp add: add.commute)
    with fed_trans [OF fed1 df'(2)] have
      "fed E df (take (unat remaining) (drop (unat offset) data)) df'" by simp
    moreover have "processBuffer_loop E (Suc n) (Some data) offset remaining df = Some (0, df')"
      using False f(1) r1(1) p1 df'(1) by (simp add: Let_def sz_def [symmetric])
    ultimately show ?thesis by blast
  qed
qed

lemma processBuffer_ok:
  assumes "ready df" "allocates E" "m_bufferData b = Some mem" "unat (m_size b) \<le> length mem"
  shows "\<exists>df'. processBuffer E b df = Some df' \<and> fed E df (buffer_bytes b) df'"
  using buffer_loop_ok [OF assms(1,2), of 0 "m_size b" mem "unat (m_size b)"] assms(3,4)
  by (auto simp: processBuffer_def buffer_bytes_def)

end

section \<open>A run of the component\<close>

text \<open>
  The bytes an input brings, the memory it must be backed by, and what the component delivers,
  that is its outputs without the return of the driver's buffers.
\<close>

fun input_bytes :: "df_input \<Rightarrow> U8 list" where
  "input_bytes (DfFramedIn b ok) = (if ok then buffer_bytes b else [])"
| "input_bytes (DfSchedIn b ok) = (if ok then buffer_bytes b else [])"
| "input_bytes DfCmdResponseIn = []"

definition backed :: "Fw_Buffer \<Rightarrow> bool" where
  "backed b \<longleftrightarrow> (\<exists>mem. m_bufferData b = Some mem \<and> unat (m_size b) \<le> length mem)"

fun input_backed :: "df_input \<Rightarrow> bool" where
  "input_backed (DfFramedIn b ok) \<longleftrightarrow> backed b"
| "input_backed (DfSchedIn b ok) \<longleftrightarrow> backed b"
| "input_backed DfCmdResponseIn \<longleftrightarrow> True"

definition delivered :: "Deframer \<Rightarrow> df_out list" where
  "delivered df = [x \<leftarrow> df_outs (df_host df). x \<noteq> DfFramedDeallocate]"

lemma routed_delivered: "DfFramedDeallocate \<notin> set (routed c p)"
  by (auto simp: routed_def Let_def)

lemma after_scan_delivered: "[x \<leftarrow> after_scan D E cap bs. x \<noteq> DfFramedDeallocate] = after_scan D E cap bs"
proof -
  have "DfFramedDeallocate \<notin> set (handled c f)" for c f
    using routed_delivered by (cases f) auto
  then have "DfFramedDeallocate \<notin> set (after_scan D E cap bs)"
    by (auto simp: after_scan_def)
  then show ?thesis by (simp add: filter_id_conv) metis
qed

context deframing_protocol
begin

lemma input_ok:
  assumes "ready df" "allocates E" "input_backed x"
  shows "\<exists>df'. Deframer_input E x df = Some df' \<and> ready df' \<and>
    ring_cap (m_inRing df') = ring_cap (m_inRing df) \<and>
    ring_bytes (m_inRing df') =
      snd (scan decide (ring_cap (m_inRing df)) (ring_bytes (m_inRing df) @ input_bytes x)) \<and>
    delivered df' = delivered df @
      after_scan decide E (ring_cap (m_inRing df)) (ring_bytes (m_inRing df) @ input_bytes x)"
proof (cases x)
  case (DfFramedIn b ok)
  then obtain mem where b: "m_bufferData b = Some mem" "unat (m_size b) \<le> length mem"
    using assms(3) by (auto simp: backed_def)
  show ?thesis
    using processBuffer_ok [OF assms(1,2) b] fed_Nil [OF assms(1), of E] DfFramedIn assms(1)
    by (cases ok) (auto simp: Deframer_framedIn_handler_def fed_def Let_def delivered_def df_emit_outs
        after_scan_delivered ready_def)
next
  case (DfSchedIn b ok)
  then obtain mem where b: "m_bufferData b = Some mem" "unat (m_size b) \<le> length mem"
    using assms(3) by (auto simp: backed_def)
  show ?thesis
    using processBuffer_ok [OF assms(1,2) b] fed_Nil [OF assms(1), of E] DfSchedIn assms(1)
    by (cases ok) (auto simp: Deframer_schedIn_handler_def fed_def Let_def delivered_def
        after_scan_delivered)
next
  case DfCmdResponseIn
  then show ?thesis
    using fed_Nil [OF assms(1), of E] assms(1)
    by (auto simp: Deframer_cmdResponseIn_handler_def fed_def Let_def delivered_def)
qed

lemma inputs_ok:
  assumes "ready df" "allocates E" "\<forall>x \<in> set xs. input_backed x"
  defines "q \<equiv> ring_bytes (m_inRing df) @ concat (map input_bytes xs)"
  shows "\<exists>df'. Deframer_inputs E xs df = Some df' \<and> ready df' \<and>
    ring_cap (m_inRing df') = ring_cap (m_inRing df) \<and>
    ring_bytes (m_inRing df') = snd (scan decide (ring_cap (m_inRing df)) q) \<and>
    delivered df' = delivered df @ after_scan decide E (ring_cap (m_inRing df)) q"
  using assms(1,3) unfolding q_def
proof (induction xs arbitrary: df)
  case Nil
  then show ?case using fed_Nil [of df E] by (auto simp: fed_def Let_def after_scan_def)
next
  case (Cons x xs)
  from input_ok [OF Cons.prems(1) assms(2), of x] Cons.prems(2) obtain df1 where
    df1: "Deframer_input E x df = Some df1" "ready df1" "ring_cap (m_inRing df1) = ring_cap (m_inRing df)"
      "ring_bytes (m_inRing df1) =
        snd (scan decide (ring_cap (m_inRing df)) (ring_bytes (m_inRing df) @ input_bytes x))"
      "delivered df1 = delivered df @
        after_scan decide E (ring_cap (m_inRing df)) (ring_bytes (m_inRing df) @ input_bytes x)" by auto
  from Cons.IH [OF df1(2)] Cons.prems(2) obtain df2 where
    df2: "Deframer_inputs E xs df1 = Some df2" "ready df2" "ring_cap (m_inRing df2) = ring_cap (m_inRing df1)"
      "ring_bytes (m_inRing df2) = snd (scan decide (ring_cap (m_inRing df1))
        (ring_bytes (m_inRing df1) @ concat (map input_bytes xs)))"
      "delivered df2 = delivered df1 @ after_scan decide E (ring_cap (m_inRing df1))
        (ring_bytes (m_inRing df1) @ concat (map input_bytes xs))" by auto
  let ?p = "ring_bytes (m_inRing df) @ input_bytes x" and ?r = "concat (map input_bytes xs)"
  show ?case
    using df1 df2 scan_append [of _ ?p ?r] after_scan_append [of E _ ?p ?r] by simp
qed

end

end
