(* ===== verification/Framer.thy ===== *)
theory Framer
  imports Fprime_Protocol
begin

text \<open>
  Svc/Framer/FramerComponentImpl.cpp: the component that hands com packets and file packets to a
  framing protocol and sends the frames to the driver. The allocator behind \<open>framedAllocate\<close>
  and the send status of the driver are the environment; the frames sent, the buffers returned
  and the log messages are the list \<open>fr_outs\<close>.
\<close>

datatype fr_out = FrFramedOut "U8 list" | FrLogSendFailed | FrBufferDeallocate

record fr_env =
  fr_allocate :: "nat \<Rightarrow> U32 \<Rightarrow> Fw_Buffer"
  fr_send_ok :: "nat \<Rightarrow> bool"

record fr_host =
  fr_outs :: "fr_out list"
  fr_allocs :: nat

type_synonym frame_fn =
  "fr_host FramingProtocolInterface option \<Rightarrow> U8 list option \<Rightarrow> U32 \<Rightarrow> ComPacketType \<Rightarrow> fr_host
     \<Rightarrow> fr_host option"

record Framer =
  fr_protocol :: "frame_fn option"
  fr_host :: fr_host

definition Framer_new :: Framer where
  "Framer_new = \<lparr>fr_protocol = None, fr_host = \<lparr>fr_outs = [], fr_allocs = 0\<rparr>\<rparr>"

definition Framer_setup :: "frame_fn \<Rightarrow> Framer \<Rightarrow> Framer option" where
  "Framer_setup protocol fr = do {
     fw_assert (fr_protocol fr = None);
     Some (fr\<lparr>fr_protocol := Some protocol\<rparr>)
   }"

definition Framer_allocate :: "fr_env \<Rightarrow> U32 \<Rightarrow> fr_host \<Rightarrow> Fw_Buffer \<times> fr_host" where
  "Framer_allocate E n h = (fr_allocate E (fr_allocs h) n, h\<lparr>fr_allocs := Suc (fr_allocs h)\<rparr>)"

definition Framer_send :: "fr_env \<Rightarrow> Fw_Buffer \<Rightarrow> fr_host \<Rightarrow> fr_host" where
  "Framer_send E outgoing h =
     h\<lparr>fr_outs := fr_outs h @ [FrFramedOut (buffer_bytes outgoing)] @
         (if \<not> fr_send_ok E (length (fr_outs h)) then [FrLogSendFailed] else [])\<rparr>"

definition Framer_interface :: "fr_env \<Rightarrow> fr_host FramingProtocolInterface" where
  "Framer_interface E = \<lparr>fi_allocate = Framer_allocate E, fi_send = Framer_send E\<rparr>"

definition Framer_comIn_handler :: "fr_env \<Rightarrow> ser_buf \<Rightarrow> Framer \<Rightarrow> Framer option" where
  "Framer_comIn_handler E data fr = do {
     frame \<leftarrow> fr_protocol fr;
     h \<leftarrow> frame (Some (Framer_interface E)) (if m_null data then None else Some (m_data data))
            (getBuffLength data) FW_PACKET_UNKNOWN (fr_host fr);
     Some (fr\<lparr>fr_host := h\<rparr>)
   }"

definition Framer_bufferIn_handler :: "fr_env \<Rightarrow> Fw_Buffer \<Rightarrow> Framer \<Rightarrow> Framer option" where
  "Framer_bufferIn_handler E fwBuffer fr = do {
     frame \<leftarrow> fr_protocol fr;
     h \<leftarrow> frame (Some (Framer_interface E)) (m_bufferData fwBuffer) (m_size fwBuffer) FW_PACKET_FILE
            (fr_host fr);
     Some (fr\<lparr>fr_host := h\<lparr>fr_outs := fr_outs h @ [FrBufferDeallocate]\<rparr>\<rparr>)
   }"

datatype fr_input = FrComIn ser_buf | FrBufferIn Fw_Buffer

fun Framer_input :: "fr_env \<Rightarrow> fr_input \<Rightarrow> Framer \<Rightarrow> Framer option" where
  "Framer_input E (FrComIn data) fr = Framer_comIn_handler E data fr"
| "Framer_input E (FrBufferIn b) fr = Framer_bufferIn_handler E b fr"

fun Framer_inputs :: "fr_env \<Rightarrow> fr_input list \<Rightarrow> Framer \<Rightarrow> Framer option" where
  "Framer_inputs E [] fr = Some fr"
| "Framer_inputs E (x # xs) fr = do { fr \<leftarrow> Framer_input E x fr; Framer_inputs E xs fr }"

section \<open>The stream of frames\<close>

text \<open>The bytes handed to the driver, and the body of the frame each input makes.\<close>

fun sent_bytes :: "fr_out list \<Rightarrow> U8 list" where
  "sent_bytes [] = []"
| "sent_bytes (FrFramedOut bs # xs) = bs @ sent_bytes xs"
| "sent_bytes (_ # xs) = sent_bytes xs"

lemma sent_bytes_append [simp]: "sent_bytes (xs @ ys) = sent_bytes xs @ sent_bytes ys"
  by (induction xs rule: sent_bytes.induct) auto

fun input_body :: "fr_input \<Rightarrow> U8 list" where
  "input_body (FrComIn data) = frame_body FW_PACKET_UNKNOWN (contents data)"
| "input_body (FrBufferIn b) = frame_body FW_PACKET_FILE (buffer_bytes b)"

text \<open>An input backed by memory whose length leaves room for the frame in a 31-bit size.\<close>

fun input_ok :: "fr_input \<Rightarrow> bool" where
  "input_ok (FrComIn data) \<longleftrightarrow> ser_wf data \<and> \<not> m_null data \<and> unat (m_serLoc data) + 16 < 2147483648"
| "input_ok (FrBufferIn b) \<longleftrightarrow> (\<exists>mem. m_bufferData b = Some mem \<and> unat (m_size b) \<le> length mem) \<and>
     unat (m_size b) + 16 < 2147483648"

definition fr_allocates :: "fr_env \<Rightarrow> bool" where
  "fr_allocates E \<longleftrightarrow> (\<forall>k n. unat n < 2147483648 \<longrightarrow>
     fresh_buffer (fr_allocate E k n) \<and> n \<le> m_size (fr_allocate E k n))"

lemma frame_sends:
  assumes E: "fr_allocates E" and n: "unat n \<le> length d" "unat n + 16 < 2147483648"
  shows "\<exists>h'. FprimeFraming_frame (Some (Framer_interface E)) (Some d) n ty h = Some h' \<and>
    sent_bytes (fr_outs h') = sent_bytes (fr_outs h) @ frame_image (frame_body ty (take (unat n) d))"
proof -
  let ?N = "n + (if ty \<noteq> FW_PACKET_UNKNOWN then 4 else 0) + 12"
  let ?b = "fr_allocate E (fr_allocs h) ?N"
  have "unat ?N \<le> unat n + 16"
    using unat_add_small [of n 4] unat_add_small [of n 12] unat_add_small [of "n + 4" 12] n
    by (cases "ty = FW_PACKET_UNKNOWN") simp_all
  then have "fresh_buffer ?b" "?N \<le> m_size ?b"
    using E n unfolding fr_allocates_def by (meson le_less_trans)+
  moreover have "fi_allocate (Framer_interface E) ?N h = (?b, h\<lparr>fr_allocs := Suc (fr_allocs h)\<rparr>)"
    by (simp add: Framer_interface_def Framer_allocate_def)
  ultimately obtain b1 where
    "FprimeFraming_frame (Some (Framer_interface E)) (Some d) n ty h =
      Some (fi_send (Framer_interface E) b1 (h\<lparr>fr_allocs := Suc (fr_allocs h)\<rparr>))"
    "buffer_bytes b1 = frame_image (frame_body ty (take (unat n) d))"
    using frame_ok [OF n refl, where ty = ty and I = "Framer_interface E" and h = h] by blast
  then show ?thesis by (simp add: Framer_interface_def Framer_send_def)
qed

lemma Framer_input_sends:
  assumes "fr_allocates E" "input_ok x" "fr_protocol fr = Some FprimeFraming_frame"
  shows "\<exists>fr'. Framer_input E x fr = Some fr' \<and> fr_protocol fr' = fr_protocol fr \<and>
    sent_bytes (fr_outs (fr_host fr')) = sent_bytes (fr_outs (fr_host fr)) @ frame_image (input_body x)"
proof (cases x)
  case (FrComIn data)
  then show ?thesis
    using assms frame_sends [OF assms(1), of "m_serLoc data" "m_data data" FW_PACKET_UNKNOWN "fr_host fr"]
    by (auto simp: Framer_comIn_handler_def getBuffLength_def ser_wf_def contents_def)
next
  case (FrBufferIn b)
  then obtain mem where "m_bufferData b = Some mem" "unat (m_size b) \<le> length mem"
    "unat (m_size b) + 16 < 2147483648" using assms(2) by auto
  then show ?thesis
    using FrBufferIn assms frame_sends [OF assms(1), of "m_size b" mem FW_PACKET_FILE "fr_host fr"]
    by (auto simp: Framer_bufferIn_handler_def buffer_bytes_def)
qed

lemma Framer_inputs_send:
  assumes "fr_allocates E" "\<forall>x \<in> set xs. input_ok x" "fr_protocol fr = Some FprimeFraming_frame"
  shows "\<exists>fr'. Framer_inputs E xs fr = Some fr' \<and>
    sent_bytes (fr_outs (fr_host fr')) =
      sent_bytes (fr_outs (fr_host fr)) @ concat (map (frame_image \<circ> input_body) xs)"
  using assms(2,3)
proof (induction xs arbitrary: fr)
  case (Cons x xs)
  from Framer_input_sends [OF assms(1), of x fr] Cons.prems obtain fr1 where
    fr1: "Framer_input E x fr = Some fr1" "fr_protocol fr1 = Some FprimeFraming_frame"
      "sent_bytes (fr_outs (fr_host fr1)) = sent_bytes (fr_outs (fr_host fr)) @ frame_image (input_body x)"
    by auto
  with Cons.IH [of fr1] Cons.prems show ?case by auto
qed simp

end
