(* ===== verification/Deframer_Properties.thy ===== *)
theory Deframer_Properties
  imports Deframer_Spec Framer
begin

text \<open>
  The uplink path end to end: what the deframer delivers depends only on the byte stream, the
  frames of the framer come out as the packets that went in, nothing is delivered that was not
  framed, and a damaged frame is dropped.
\<close>

section \<open>Scanning frames\<close>

lemma scan_frame:
  assumes "length p + 12 \<le> cap" "cap \<le> 2147483648"
  shows "scan fprime_decide cap (frame_image p @ rest) =
    (Packet p # fst (scan fprime_decide cap rest), snd (scan fprime_decide cap rest))"
proof -
  have "frame_image p @ rest \<noteq> []" by (metis append_is_Nil_conv length_0_conv length_frame_image(2)
    add_is_0 zero_neq_numeral)
  then show ?thesis
    using scan_Emit [of fprime_decide, OF fprime_decide_frame [OF assms, of rest]] by simp
qed

lemma scan_frames:
  assumes "\<forall>p \<in> set ps. length p + 12 \<le> cap" "cap \<le> 2147483648"
  shows "scan fprime_decide cap (concat (map frame_image ps)) = (map Packet ps, [])"
  using assms by (induction ps) (simp_all add: scan_frame)

lemma scan_sound:
  "Packet p \<in> set (fst (scan fprime_decide cap bs)) \<Longrightarrow> \<exists>a b. bs = a @ frame_image p @ b"
proof (induction "length bs" arbitrary: bs rule: less_induct)
  case less
  have ne: "bs \<noteq> []" using less.prems by auto
  show ?case
  proof (cases "fprime_decide cap bs")
    case (Wait n)
    with less.prems show ?thesis by (simp add: scan_Wait)
  next
    case (Skip st)
    have "Packet p \<in> set (fst (scan fprime_decide cap (drop 1 bs)))"
      using less.prems scan_Skip [of fprime_decide, OF Skip ne] by (auto split: if_splits)
    then obtain a b where "drop 1 bs = a @ frame_image p @ b" using less.hyps [of "drop 1 bs"] ne by auto
    then have "bs = (hd bs # a) @ frame_image p @ b" using ne by (cases bs) auto
    then show ?thesis by blast
  next
    case (Emit p' k)
    note e = fprime_decide_Emit [OF Emit]
    consider "p = p'" | "Packet p \<in> set (fst (scan fprime_decide cap (drop k bs)))"
      using less.prems scan_Emit [of fprime_decide, OF Emit ne] e(1) by auto
    then show ?thesis
    proof cases
      case 1
      then have "bs = [] @ frame_image p @ drop k bs" using e(4) by (metis append_Nil append_take_drop_id)
      then show ?thesis by blast
    next
      case 2
      then obtain a b where "drop k bs = a @ frame_image p @ b"
        using less.hyps [of "drop k bs"] e(1,2) ne by auto
      then have "bs = (take k bs @ a) @ frame_image p @ b"
        by (metis append.assoc append_take_drop_id)
      then show ?thesis by blast
    qed
  qed
qed

section \<open>A fresh deframer\<close>

definition fresh_deframer :: "U8 list \<Rightarrow> Deframer" where
  "fresh_deframer memory =
     \<lparr>m_protocol = Some FprimeDeframing_deframe,
      m_inRing = \<lparr>m_store = memory, m_store_size = RING_BUFFER_SIZE, m_head_idx = 0, m_allocated_size = 0\<rparr>,
      df_host = \<lparr>df_outs = [], df_allocs = 0\<rparr>\<rparr>"

lemma fresh_deframer_built:
  "Option.bind (Deframer_new memory) (Deframer_setup FprimeDeframing_deframe) = Some (fresh_deframer memory)"
  by (simp add: Deframer_new_def CircularBuffer_new_def Deframer_setup_def fresh_deframer_def RING_BUFFER_SIZE_def)

lemma fresh_deframer_ready:
  assumes "length memory = 1024"
  shows "fprime_protocol.ready (fresh_deframer memory)" "ring_cap (m_inRing (fresh_deframer memory)) = 1024"
    "ring_bytes (m_inRing (fresh_deframer memory)) = []" "delivered (fresh_deframer memory) = []"
  using assms by (simp_all add: fprime_protocol.ready_def fresh_deframer_def ring_wf_def RING_BUFFER_SIZE_def
      ring_cap_def ring_bytes_def ring_view_def settled_def delivered_def)

lemma fresh_deframer_run:
  assumes "length memory = 1024" "allocates E" "\<forall>x \<in> set xs. input_backed x"
  shows "\<exists>df. Deframer_inputs E xs (fresh_deframer memory) = Some df \<and>
    delivered df = after_scan fprime_decide E 1024 (concat (map input_bytes xs))"
  using fprime_protocol.inputs_ok [OF fresh_deframer_ready(1) [OF assms(1)] assms(2,3)]
    fresh_deframer_ready [OF assms(1)] by auto

text \<open>Environments for the witnesses: allocators that hand out zeroed memory.\<close>

definition demo_df_env :: df_env where
  "demo_df_env = \<lparr>de_allocate = (\<lambda>k n. Buffer_new (Some (replicate (unat n) 0)) n 0),
     de_bufferOut_connected = True\<rparr>"

definition demo_fr_env :: fr_env where
  "demo_fr_env = \<lparr>fr_allocate = (\<lambda>k n. Buffer_new (Some (replicate (unat n) 0)) n 0), fr_send_ok = (\<lambda>_. True)\<rparr>"

lemma demo_envs: "allocates demo_df_env" "fr_allocates demo_fr_env"
  by (auto simp: allocates_def fr_allocates_def demo_df_env_def demo_fr_env_def Buffer_new_def
      intro!: Buffer_new_fresh [unfolded Buffer_new_def])

section \<open>Properties\<close>

text \<open>
  C12: However the driver cuts the uplinked bytes into buffers, pushed through \<open>framedIn\<close> or polled
  by \<open>schedIn\<close>, the deframer runs without a failed assertion, its ring never overflows, and what
  it delivers is a function of the byte stream alone: the packets and checksum errors that
  scanning the whole stream for frames finds, in order, each handled by \<open>route\<close>.
\<close>

theorem deframer_ignores_chunking:
  assumes "length memory = 1024" "allocates E" "\<forall>x \<in> set xs. input_backed x"
  shows "\<exists>df0 df. Option.bind (Deframer_new memory) (Deframer_setup FprimeDeframing_deframe) = Some df0 \<and>
    Deframer_inputs E xs df0 = Some df \<and>
    delivered df = concat (map (handled (de_bufferOut_connected E))
      (fst (scan fprime_decide 1024 (concat (map input_bytes xs)))))"
  using fresh_deframer_run [OF assms] by (simp add: fresh_deframer_built after_scan_def)

theorem deframer_ignores_chunking_witness:
  "\<exists>df0 df. Option.bind (Deframer_new (replicate 1024 0)) (Deframer_setup FprimeDeframing_deframe) = Some df0 \<and>
    Deframer_inputs demo_df_env [DfFramedIn (Buffer_new (Some [1, 2, 3]) 3 0) True, DfCmdResponseIn] df0 = Some df \<and>
    delivered df = concat (map (handled (de_bufferOut_connected demo_df_env))
      (fst (scan fprime_decide 1024 (concat (map input_bytes
        [DfFramedIn (Buffer_new (Some [1, 2, 3]) 3 0) True, DfCmdResponseIn])))))"
  by (rule deframer_ignores_chunking) (simp_all add: demo_envs backed_def Buffer_new_def)

text \<open>
  C11: What the framer sends the deframer recovers. Let the framer of the F Prime protocol handle
  any com packets and file buffers whose frames fit the ring, and let the bytes it sent arrive in
  any chunks: the deframer delivers exactly these packets, complete and in order, a file buffer
  with the packet type in front, which \<open>route\<close> takes off again.
\<close>

theorem framer_deframer_roundtrip:
  assumes "fr_allocates EF" "allocates E"
    and "\<forall>x \<in> set packets. input_ok x \<and> length (input_body x) + 12 \<le> 1024"
  shows "\<exists>fr0 fr. Framer_setup FprimeFraming_frame Framer_new = Some fr0 \<and>
    Framer_inputs EF packets fr0 = Some fr \<and>
    (\<forall>memory arrivals. length memory = 1024 \<longrightarrow> (\<forall>x \<in> set arrivals. input_backed x) \<longrightarrow>
      concat (map input_bytes arrivals) = sent_bytes (fr_outs (fr_host fr)) \<longrightarrow>
      (\<exists>df. Deframer_inputs E arrivals (fresh_deframer memory) = Some df \<and>
        delivered df = concat (map (routed (de_bufferOut_connected E) \<circ> input_body) packets)))"
proof -
  let ?fr0 = "Framer_new\<lparr>fr_protocol := Some FprimeFraming_frame\<rparr>"
  have built: "Framer_setup FprimeFraming_frame Framer_new = Some ?fr0"
    by (simp add: Framer_setup_def Framer_new_def)
  obtain fr where fr: "Framer_inputs EF packets ?fr0 = Some fr"
      "sent_bytes (fr_outs (fr_host fr)) = concat (map frame_image (map input_body packets))"
    using Framer_inputs_send [OF assms(1), of packets ?fr0] assms(3) by (auto simp: Framer_new_def)
  have scan: "scan fprime_decide 1024 (concat (map frame_image (map input_body packets))) =
      (map Packet (map input_body packets), [])"
    using assms(3) by (intro scan_frames) auto
  have "\<exists>df. Deframer_inputs E arrivals (fresh_deframer memory) = Some df \<and>
      delivered df = concat (map (routed (de_bufferOut_connected E) \<circ> input_body) packets)"
    if "length memory = 1024" "\<forall>x \<in> set arrivals. input_backed x"
      "concat (map input_bytes arrivals) = sent_bytes (fr_outs (fr_host fr))" for memory arrivals
    using fresh_deframer_run [OF that(1) assms(2) that(2)] that(3) fr(2) scan
    by (simp add: after_scan_def comp_def)
  with built fr(1) show ?thesis by blast
qed

definition demo_packets :: "fr_input list" where
  "demo_packets =
     [FrComIn \<lparr>m_data = [0, 0, 0, 0, 9], m_null = False, m_serLoc = 5, m_deserLoc = 0\<rparr>,
      FrBufferIn (Buffer_new (Some [7, 8]) 2 0)]"

lemma demo_bodies: "map input_body demo_packets = [[0, 0, 0, 0, 9], [0, 0, 0, 3, 7, 8]]"
  by (simp add: demo_packets_def frame_body_def contents_def buffer_bytes_def Buffer_new_def bytes_of_U32_def)

lemma demo_packets_ok: "x \<in> set demo_packets \<Longrightarrow> input_ok x \<and> length (input_body x) + 12 \<le> 1024"
  by (auto simp: demo_packets_def ser_wf_def Buffer_new_def frame_body_def contents_def buffer_bytes_def)

theorem framer_deframer_roundtrip_witness:
  "\<exists>fr0 fr. Framer_setup FprimeFraming_frame Framer_new = Some fr0 \<and>
    Framer_inputs demo_fr_env demo_packets fr0 = Some fr \<and>
    (\<forall>memory arrivals. length memory = 1024 \<longrightarrow> (\<forall>x \<in> set arrivals. input_backed x) \<longrightarrow>
      concat (map input_bytes arrivals) = sent_bytes (fr_outs (fr_host fr)) \<longrightarrow>
      (\<exists>df. Deframer_inputs demo_df_env arrivals (fresh_deframer memory) = Some df \<and>
        delivered df = [DfComOut [0, 0, 0, 0, 9], DfBufferDeallocate, DfBufferOut [7, 8]]))"
proof -
  have "concat (map (routed (de_bufferOut_connected demo_df_env) \<circ> input_body) demo_packets) =
      concat (map (routed True) (map input_body demo_packets))"
    by (simp add: demo_df_env_def)
  also have "\<dots> = [DfComOut [0, 0, 0, 0, 9], DfBufferDeallocate, DfBufferOut [7, 8]]"
    unfolding demo_bodies by (simp add: routed_def U32_of_bytes_def Let_def)
  finally show ?thesis
    using framer_deframer_roundtrip [of demo_fr_env demo_df_env demo_packets] demo_envs demo_packets_ok
    by simp
qed

text \<open>
  C13: The deframer makes nothing up. Every command packet it hands to the dispatcher, and every
  file packet with the packet type \<open>FW_PACKET_FILE\<close> in front, stands in the received bytes as a
  complete frame: start word, its length, the packet, and the CRC-32 of all that.
\<close>

theorem deframer_sound:
  assumes "length memory = 1024" "allocates E" "\<forall>x \<in> set xs. input_backed x"
  shows "\<exists>df. Deframer_inputs E xs (fresh_deframer memory) = Some df \<and>
    (\<forall>p. DfComOut p \<in> set (delivered df) \<longrightarrow>
      (\<exists>a b. concat (map input_bytes xs) = a @ frame_image p @ b)) \<and>
    (\<forall>p. DfBufferOut p \<in> set (delivered df) \<longrightarrow>
      (\<exists>a b. concat (map input_bytes xs) = a @ frame_image (bytes_of_U32 3 @ p) @ b))"
proof -
  let ?bs = "concat (map input_bytes xs)"
  obtain df where df: "Deframer_inputs E xs (fresh_deframer memory) = Some df"
      "delivered df = after_scan fprime_decide E 1024 ?bs"
    using fresh_deframer_run [OF assms] by blast
  have found: "\<exists>q. x \<in> set (routed (de_bufferOut_connected E) q) \<and> (\<exists>a b. ?bs = a @ frame_image q @ b)"
    if x: "x \<in> set (delivered df)" "x \<noteq> DfLogChecksum" for x
  proof -
    obtain f where f: "f \<in> set (fst (scan fprime_decide 1024 ?bs))"
        "x \<in> set (handled (de_bufferOut_connected E) f)"
      using x df(2) by (auto simp: after_scan_def)
    show ?thesis
    proof (cases f)
      case (Packet q)
      with f scan_sound [of q 1024 ?bs] show ?thesis by auto
    next
      case BadChecksum
      with f(2) x(2) show ?thesis by simp
    qed
  qed
  have com: "q = p" if "DfComOut p \<in> set (routed c q)" for p q c
    using that by (auto simp: routed_def Let_def split: if_splits)
  have buf: "q = bytes_of_U32 3 @ p" if "DfBufferOut p \<in> set (routed c q)" for p q c
  proof -
    have "4 \<le> length q" "U32_of_bytes (take 4 q) = 3" "p = drop 4 q"
      using that by (auto simp: routed_def Let_def split: if_splits)
    then show ?thesis using bytes_of_U32_of_bytes [of "take 4 q"] by simp
  qed
  have "\<exists>a b. ?bs = a @ frame_image p @ b" if "DfComOut p \<in> set (delivered df)" for p
    using found [OF that] by (auto dest!: com)
  moreover have "\<exists>a b. ?bs = a @ frame_image (bytes_of_U32 3 @ p) @ b"
    if "DfBufferOut p \<in> set (delivered df)" for p
    using found [OF that] by (auto dest!: buf)
  ultimately show ?thesis using df(1) by blast
qed

theorem deframer_sound_witness:
  "\<exists>df. Deframer_inputs demo_df_env [DfSchedIn (Buffer_new (Some (frame_image [0, 0, 0, 0])) 16 0) True]
      (fresh_deframer (replicate 1024 0)) = Some df \<and>
    (\<forall>p. DfComOut p \<in> set (delivered df) \<longrightarrow>
      (\<exists>a b. concat (map input_bytes [DfSchedIn (Buffer_new (Some (frame_image [0, 0, 0, 0])) 16 0) True]) =
        a @ frame_image p @ b)) \<and>
    (\<forall>p. DfBufferOut p \<in> set (delivered df) \<longrightarrow>
      (\<exists>a b. concat (map input_bytes [DfSchedIn (Buffer_new (Some (frame_image [0, 0, 0, 0])) 16 0) True]) =
        a @ frame_image (bytes_of_U32 3 @ p) @ b))"
  by (rule deframer_sound) (simp_all add: demo_envs backed_def Buffer_new_def)

text \<open>
  Damage is noticed. When one byte of the body or of the CRC of a frame at the head of the ring
  has changed, \<open>deframe\<close> reports a checksum error and neither allocates nor routes a packet,
  whatever follows the frame in the ring.
\<close>

theorem damaged_frame_dropped:
  assumes "ring_wf ring" "length p + 12 \<le> ring_cap ring"
    and "8 \<le> i" "i < length p + 12" "v \<noteq> frame_image p ! i"
    and "ring_bytes ring = (frame_image p)[i := v] @ rest"
  shows "\<exists>needed. FprimeDeframing_deframe (Some I) ring nd h =
    Some (DEFRAMING_INVALID_CHECKSUM, needed, ring, h)"
proof -
  let ?f = "(frame_image p)[i := v]"
  have cap: "length p < 2147483648" using assms(2) ring_bytes_small(3) [OF assms(1)] by simp
  then have n: "unat (of_nat (length p) :: U32) = length p" by (intro unat_of_nat32) simp
  have t: "take 8 ?f = take 8 (frame_image p)" using assms(3) by simp
  have "take 4 ?f = take 4 (frame_image p)" "take 4 (drop 4 ?f) = take 4 (drop 4 (frame_image p))"
    using arg_cong [OF t, of "take 4"] arg_cong [OF t, of "drop 4"] by (simp_all add: take_drop)
  then have head: "take 4 (?f @ rest) = bytes_of_U32 START_WORD"
    "take 4 (drop 4 (?f @ rest)) = bytes_of_U32 (of_nat (length p))"
    by (simp_all add: frame_image_def frame_header_def)
  have crc: "take 4 (drop (length p + 8) (?f @ rest)) \<noteq> crc32_digest (take (length p + 8) (?f @ rest))"
  proof (cases "i < length p + 8")
    case True
    let ?h = "frame_header p"
    have f: "?f = ?h[i := v] @ crc32_digest ?h"
      using True by (simp add: frame_image_def list_update_append)
    have split: "?h = take i ?h @ ?h ! i # drop (Suc i) ?h" "?h[i := v] = take i ?h @ v # drop (Suc i) ?h"
      using True by (simp_all add: id_take_nth_drop upd_conv_take_nth_drop)
    have "v \<noteq> ?h ! i" using assms(5) True by (simp add: frame_image_def nth_append)
    then have "crc_update 0xffffffff (take i ?h @ v # drop (Suc i) ?h) \<noteq>
        crc_update 0xffffffff (take i ?h @ ?h ! i # drop (Suc i) ?h)"
      by (rule crc_update_one_byte)
    then have "crc32_digest ?h \<noteq> crc32_digest (?h[i := v])"
      unfolding crc32_digest_def split(2) using split(1) U32_of_bytes_of by (metis bit.compl_eq_compl_iff)
    then show ?thesis unfolding f by simp
  next
    case False
    have "?f = frame_header p @ (crc32_digest (frame_header p))[i - (length p + 8) := v]"
      using False by (simp add: frame_image_def list_update_append)
    moreover have "(crc32_digest (frame_header p))[i - (length p + 8) := v] \<noteq> crc32_digest (frame_header p)"
      using False assms(4,5) by (auto simp: frame_image_def nth_append list_update_same_conv)
    ultimately show ?thesis by simp
  qed
  have "fprime_decide (ring_cap ring) (?f @ rest) = Skip DEFRAMING_INVALID_CHECKSUM"
    unfolding fprime_decide_def head U32_of_bytes_of n Let_def using assms(2) crc by simp
  then show ?thesis unfolding assms(6) [symmetric] by (rule deframe_skip(1) [OF assms(1)])
qed

definition demo_ring :: "U8 list \<Rightarrow> CircularBuffer" where
  "demo_ring bs = \<lparr>m_store = bs, m_store_size = of_nat (length bs), m_head_idx = 0,
     m_allocated_size = of_nat (length bs)\<rparr>"

lemma demo_ring_bytes:
  assumes "bs \<noteq> []" "length bs \<le> 2147483648"
  shows "ring_wf (demo_ring bs)" "ring_bytes (demo_ring bs) = bs" "ring_cap (demo_ring bs) = length bs"
proof -
  have n: "unat (of_nat (length bs) :: U32) = length bs" using assms(2) by (intro unat_of_nat32) simp
  then have "0 < unat (of_nat (length bs) :: U32)" using assms(1) by simp
  then show "ring_wf (demo_ring bs)"
    using n assms(2) by (simp add: ring_wf_def demo_ring_def word_less_nat_alt)
  show "ring_bytes (demo_ring bs) = bs"
    using n by (auto simp: ring_bytes_def demo_ring_def intro: nth_equalityI)
  show "ring_cap (demo_ring bs) = length bs" using n by (simp add: ring_cap_def demo_ring_def)
qed

theorem damaged_frame_dropped_witness:
  "\<exists>needed. FprimeDeframing_deframe (Some (Deframer_interface demo_df_env))
      (demo_ring ((frame_image [0, 0, 0, 0])[9 := 1])) 0 \<lparr>df_outs = [], df_allocs = 0\<rparr> =
    Some (DEFRAMING_INVALID_CHECKSUM, needed, demo_ring ((frame_image [0, 0, 0, 0])[9 := 1]),
      \<lparr>df_outs = [], df_allocs = 0\<rparr>)"
proof (rule damaged_frame_dropped [where p = "[0, 0, 0, 0]" and i = 9 and v = 1 and rest = "[]"])
  let ?bs = "(frame_image [0, 0, 0, 0])[9 := 1]"
  have l: "length ?bs = 16" by simp
  then have "?bs \<noteq> []" "length ?bs \<le> 2147483648" by (metis list.size(3) zero_neq_numeral, simp)
  note d = demo_ring_bytes [OF this]
  show "ring_wf (demo_ring ?bs)" "ring_bytes (demo_ring ?bs) = ?bs @ []"
    "length [0 :: U8, 0, 0, 0] + 12 \<le> ring_cap (demo_ring ?bs)" using d by simp_all
  show "1 \<noteq> frame_image [0, 0, 0, 0] ! 9"
    by (simp add: frame_image_def frame_header_def bytes_of_U32_def nth_append)
qed simp_all

end
