(* ===== verification/C_Format.thy ===== *)
theory C_Format
  imports Prelude
begin

text \<open>
  What the motor bridge uses of the C library: the conversions \<open>%d\<close> and \<open>%f\<close> of printf,
  the truncation of \<open>snprintf\<close>, the matching of \<open>sscanf\<close>, and the comparison of single
  precision numbers. A float is its IEEE-754 bit pattern.
\<close>

section \<open>Single precision numbers\<close>

definition f32_negative :: "F32 \<Rightarrow> bool" where
  "f32_negative x = bit x 31"

definition f32_magnitude :: "F32 \<Rightarrow> nat" where
  "f32_magnitude x = unat (x AND 0x7FFFFFFF)"

definition f32_exponent :: "F32 \<Rightarrow> nat" where
  "f32_exponent x = f32_magnitude x div 8388608"

definition f32_fraction :: "F32 \<Rightarrow> nat" where
  "f32_fraction x = f32_magnitude x mod 8388608"

definition f32_is_nan :: "F32 \<Rightarrow> bool" where
  "f32_is_nan x \<longleftrightarrow> f32_magnitude x > 0x7F800000"

definition f32_is_inf :: "F32 \<Rightarrow> bool" where
  "f32_is_inf x \<longleftrightarrow> f32_magnitude x = 0x7F800000"

text \<open>The bit patterns of one sign are ordered as their magnitudes, and both zeros are equal.\<close>

definition f32_key :: "F32 \<Rightarrow> int" where
  "f32_key x = (if f32_negative x then - int (f32_magnitude x) else int (f32_magnitude x))"

definition f32_less :: "F32 \<Rightarrow> F32 \<Rightarrow> bool" where
  "f32_less a b \<longleftrightarrow> \<not> f32_is_nan a \<and> \<not> f32_is_nan b \<and> f32_key a < f32_key b"

text \<open>\<open>std::min(a, b)\<close> is \<open>(b < a) ? b : a\<close>, \<open>std::max(a, b)\<close> is \<open>(a < b) ? b : a\<close>.\<close>

definition f32_min :: "F32 \<Rightarrow> F32 \<Rightarrow> F32" where
  "f32_min a b = (if f32_less b a then b else a)"

definition f32_max :: "F32 \<Rightarrow> F32 \<Rightarrow> F32" where
  "f32_max a b = (if f32_less a b then b else a)"

lemma f32_magnitude_bound: "f32_magnitude x < 2147483648"
proof -
  have "x AND 0x7FFFFFFF \<le> 0x7FFFFFFF" by (rule word_and_le1)
  then show ?thesis by (simp add: f32_magnitude_def word_le_nat_alt)
qed

text \<open>The finite value of a pattern is \<open>f32_mantissa x * 2 ^ k\<close> over \<open>2 ^ f32_shift x\<close>.\<close>

definition f32_mantissa :: "F32 \<Rightarrow> nat" where
  "f32_mantissa x = (if f32_exponent x = 0 then f32_fraction x else f32_fraction x + 8388608)"

definition f32_scale :: "F32 \<Rightarrow> int" where
  "f32_scale x = (if f32_exponent x = 0 then - 149 else int (f32_exponent x) - 150)"

section \<open>Decimal text\<close>

definition digit_char :: "nat \<Rightarrow> char" where
  "digit_char d = char_of (48 + d)"

fun decimal :: "nat \<Rightarrow> string" where
  "decimal n = (if n < 10 then [digit_char n] else decimal (n div 10) @ [digit_char (n mod 10)])"

declare decimal.simps [simp del]

fun fixed_digits :: "nat \<Rightarrow> nat \<Rightarrow> string" where
  "fixed_digits 0 n = []"
| "fixed_digits (Suc k) n = fixed_digits k (n div 10) @ [digit_char (n mod 10)]"

definition print_d :: "int \<Rightarrow> string" where
  "print_d i = (if i < 0 then ''-'' @ decimal (nat (- i)) else decimal (nat i))"

text \<open>Division rounded to the nearest integer, ties to even, as printf rounds.\<close>

definition round_div :: "nat \<Rightarrow> nat \<Rightarrow> nat" where
  "round_div a b =
     (let q = a div b; r = a mod b in
      if 2 * r > b \<or> (2 * r = b \<and> odd q) then q + 1 else q)"

text \<open>The number of millionths that \<open>%f\<close> prints for a finite value.\<close>

definition f32_millionths :: "F32 \<Rightarrow> nat" where
  "f32_millionths x =
     (if f32_scale x \<ge> 0 then f32_mantissa x * 2 ^ nat (f32_scale x) * 1000000
      else round_div (f32_mantissa x * 1000000) (2 ^ nat (- f32_scale x)))"

definition print_f :: "F32 \<Rightarrow> string" where
  "print_f x =
     (if f32_negative x then ''-'' else []) @
     (if f32_is_nan x then ''nan''
      else if f32_is_inf x then ''inf''
      else decimal (f32_millionths x div 1000000) @ ''.'' @
           fixed_digits 6 (f32_millionths x mod 1000000))"

text \<open>\<open>snprintf\<close> keeps the first \<open>n - 1\<close> characters of the text and ends them with a zero.\<close>

definition snprintf_text :: "nat \<Rightarrow> string \<Rightarrow> string" where
  "snprintf_text n text = take (n - 1) text"

lemma decimal_length:
  assumes "n < 10 ^ k" "0 < k"
  shows "length (decimal n) \<le> k"
  using assms
proof (induction n arbitrary: k rule: decimal.induct)
  case (1 n)
  show ?case
  proof (cases "n < 10")
    case True
    then show ?thesis using 1(3) by (subst decimal.simps) simp
  next
    case False
    obtain j where j: "k = Suc j" using 1(3) by (cases k) auto
    have "0 < j" using False 1(2) j by (cases j) auto
    moreover have "n div 10 < 10 ^ j" using 1(2) j by (simp add: less_mult_imp_div_less mult.commute)
    ultimately have "length (decimal (n div 10)) \<le> j" using 1(1) [OF False] by blast
    then show ?thesis using False j by (subst decimal.simps) simp
  qed
qed

lemma fixed_digits_length [simp]: "length (fixed_digits k n) = k"
  by (induction k arbitrary: n) auto

lemma fixed_digits_numeral:
  "fixed_digits (numeral k) n = fixed_digits (pred_numeral k) (n div 10) @ [digit_char (n mod 10)]"
  by (simp only: numeral_eq_Suc fixed_digits.simps)

lemma round_div_le: "round_div a b \<le> a div b + 1"
  by (simp add: round_div_def Let_def)

lemma round_div_upper:
  assumes "2 * a < (2 * q + 1) * b"
  shows "round_div a b \<le> q"
proof -
  have a: "a = a div b * b + a mod b" by simp
  have b: "0 < b" using assms by (cases b) auto
  have "a div b \<le> q"
  proof (rule ccontr)
    assume "\<not> a div b \<le> q"
    then have "(q + 1) * b \<le> a div b * b" by (intro mult_right_mono) auto
    moreover have "a div b * b \<le> a" by (rule div_times_less_eq_dividend)
    ultimately have "(q + 1) * b \<le> a" by (rule order_trans)
    then show False using assms b by (simp add: algebra_simps)
  qed
  moreover have "2 * (a mod b) < b" if "a div b = q"
    using assms a [unfolded that] by (simp add: algebra_simps)
  ultimately show ?thesis by (cases "a div b = q") (auto simp: round_div_def Let_def)
qed

lemma round_div_nearest:
  assumes "0 < b"
  shows "2 * \<bar>int (round_div a b) * int b - int a\<bar> \<le> int b"
proof -
  have eq: "int a = int (a div b) * int b + int (a mod b)"
    by (metis div_mult_mod_eq of_nat_add of_nat_mult)
  have lt: "a mod b < b" using assms by simp
  show ?thesis
    unfolding round_div_def Let_def eq using lt by (auto simp: algebra_simps abs_if)
qed

lemma f32_exponent_bound: "f32_exponent x < 256"
  using f32_magnitude_bound [of x] by (simp add: f32_exponent_def less_mult_imp_div_less)

lemma f32_mantissa_bound: "f32_mantissa x < 16777216"
proof -
  have "f32_fraction x < 8388608" by (simp add: f32_fraction_def)
  then show ?thesis by (auto simp: f32_mantissa_def)
qed

lemma f32_finite_exponent:
  assumes "\<not> f32_is_nan x" "\<not> f32_is_inf x"
  shows "f32_exponent x \<le> 254"
proof -
  have "f32_magnitude x < 255 * 8388608"
    using assms by (simp add: f32_is_nan_def f32_is_inf_def)
  then have "f32_exponent x < 255" unfolding f32_exponent_def by (rule less_mult_imp_div_less)
  then show ?thesis by simp
qed

lemma f32_millionths_bound:
  assumes "\<not> f32_is_nan x" "\<not> f32_is_inf x"
  shows "f32_millionths x < 10 ^ 45"
proof -
  note e = f32_finite_exponent [OF assms] and m = f32_mantissa_bound [of x]
  show ?thesis
  proof (cases "f32_scale x \<ge> 0")
    case True
    have "(2::nat) ^ nat (f32_scale x) \<le> 2 ^ 104"
      using e by (intro power_increasing) (auto simp: f32_scale_def)
    with m have "f32_mantissa x * 2 ^ nat (f32_scale x) * 1000000 \<le> 16777216 * 2 ^ 104 * 1000000"
      by (intro mult_mono) auto
    moreover have "16777216 * 2 ^ 104 * 1000000 < (10::nat) ^ 45" by simp
    ultimately have "f32_mantissa x * 2 ^ nat (f32_scale x) * 1000000 < 10 ^ 45"
      by (rule le_less_trans)
    then show ?thesis using True by (simp only: f32_millionths_def if_True)
  next
    case False
    have "f32_millionths x \<le> f32_mantissa x * 1000000 div 2 ^ nat (- f32_scale x) + 1"
      using False round_div_le by (simp add: f32_millionths_def)
    also have "\<dots> \<le> f32_mantissa x * 1000000 + 1" by (simp add: div_le_dividend)
    also have "\<dots> < 10 ^ 45" using m by simp
    finally show ?thesis .
  qed
qed

lemma print_f_length: "length (print_f x) \<le> 47"
proof (cases "f32_is_nan x \<or> f32_is_inf x")
  case True
  then show ?thesis by (auto simp: print_f_def)
next
  case False
  then have "f32_millionths x < 10 ^ 45" by (intro f32_millionths_bound) auto
  then have "f32_millionths x div 1000000 < 10 ^ 39"
    by (intro less_mult_imp_div_less) simp
  then have "length (decimal (f32_millionths x div 1000000)) \<le> 39"
    by (rule decimal_length) simp
  then show ?thesis using False by (simp add: print_f_def)
qed

lemma print_f_cong:
  assumes "f32_negative x = f32_negative y" "f32_magnitude x = f32_magnitude y"
  shows "print_f x = print_f y"
proof -
  have "f32_millionths x = f32_millionths y"
    unfolding f32_millionths_def f32_scale_def f32_mantissa_def f32_exponent_def f32_fraction_def
    using assms by simp
  then show ?thesis using assms by (simp add: print_f_def f32_is_nan_def f32_is_inf_def)
qed

section \<open>sscanf\<close>

text \<open>
  A format is a list of literal texts and conversions. Matching stops at the first literal that
  differs and at the first conversion that finds no number; what was converted before it stays
  stored. \<open>%d\<close> is written out (the C library saturates at 64 bits and stores the low 32);
  \<open>%f\<close> is the C library's \<open>strtof\<close>, a parameter that returns the number and the rest.
\<close>

datatype scan_item = ScanText string | ScanInt | ScanFloat
datatype scan_value = IntValue I32 | FloatValue F32

type_synonym strtof_fun = "string \<Rightarrow> (F32 \<times> string) option"

definition is_space :: "char \<Rightarrow> bool" where
  "is_space c \<longleftrightarrow> c = CHR '' '' \<or> (9 \<le> (of_char c :: nat) \<and> (of_char c :: nat) \<le> 13)"

definition is_digit :: "char \<Rightarrow> bool" where
  "is_digit c \<longleftrightarrow> 48 \<le> (of_char c :: nat) \<and> (of_char c :: nat) \<le> 57"

definition digits_value :: "string \<Rightarrow> nat" where
  "digits_value ds = foldl (\<lambda>n c. 10 * n + (of_char c - 48)) 0 ds"

definition scan_d :: "string \<Rightarrow> (I32 \<times> string) option" where
  "scan_d text =
     (let text = dropWhile is_space text;
          neg = (text \<noteq> [] \<and> hd text = CHR ''-'');
          text = (if text \<noteq> [] \<and> (hd text = CHR ''-'' \<or> hd text = CHR ''+'') then tl text else text);
          ds = takeWhile is_digit text;
          n = int (digits_value ds);
          v = (if neg then max (- 9223372036854775808) (- n) else min 9223372036854775807 n)
      in if ds = [] then None else Some (word_of_int v, dropWhile is_digit text))"

definition strip_prefix :: "string \<Rightarrow> string \<Rightarrow> string option" where
  "strip_prefix p text = (if take (length p) text = p then Some (drop (length p) text) else None)"

fun scan_items :: "strtof_fun \<Rightarrow> scan_item list \<Rightarrow> string \<Rightarrow> scan_value list" where
  "scan_items strtof [] text = []"
| "scan_items strtof (ScanText p # items) text =
     (case strip_prefix p text of None \<Rightarrow> [] | Some rest \<Rightarrow> scan_items strtof items rest)"
| "scan_items strtof (ScanInt # items) text =
     (case scan_d text of None \<Rightarrow> []
      | Some (i, rest) \<Rightarrow> IntValue i # scan_items strtof items rest)"
| "scan_items strtof (ScanFloat # items) text =
     (case strtof text of None \<Rightarrow> []
      | Some (x, rest) \<Rightarrow> FloatValue x # scan_items strtof items rest)"

lemma strip_prefix_append [simp]: "strip_prefix p (p @ rest) = Some rest"
  by (simp add: strip_prefix_def)

lemma of_digit_char: "d < 10 \<Longrightarrow> (of_char (digit_char d) :: nat) = 48 + d"
  by (simp add: digit_char_def)

lemma is_digit_char [simp]: "d < 10 \<Longrightarrow> is_digit (digit_char d)"
  by (simp add: is_digit_def of_digit_char)

lemma decimal_digits: "c \<in> set (decimal n) \<Longrightarrow> is_digit c"
proof (induction n rule: decimal.induct)
  case (1 n)
  then show ?case by (subst (asm) (2) decimal.simps) (auto split: if_splits)
qed

lemma digits_value_snoc: "digits_value (ds @ [c]) = 10 * digits_value ds + (of_char c - 48)"
  by (simp add: digits_value_def)

lemma digits_value_decimal [simp]: "digits_value (decimal n) = n"
proof (induction n rule: decimal.induct)
  case (1 n)
  show ?case
  proof (cases "n < 10")
    case True
    then show ?thesis
      by (subst decimal.simps) (simp add: digits_value_def of_digit_char)
  next
    case False
    then show ?thesis
      by (subst decimal.simps) (simp add: 1 [OF False] digits_value_snoc of_digit_char)
  qed
qed

lemma decimal_nonempty [simp]: "decimal n \<noteq> []"
  by (subst decimal.simps) simp

lemma digit_not_space: "is_digit c \<Longrightarrow> \<not> is_space c \<and> c \<noteq> CHR ''-'' \<and> c \<noteq> CHR ''+''"
  by (auto simp: is_digit_def is_space_def)

lemma take_digits:
  assumes "rest \<noteq> [] \<longrightarrow> \<not> is_digit (hd rest)"
  shows "takeWhile is_digit (decimal n @ rest) = decimal n"
    and "dropWhile is_digit (decimal n @ rest) = rest"
proof -
  have "\<forall>c \<in> set (decimal n). is_digit c" using decimal_digits by blast
  moreover have "takeWhile is_digit rest = []" "dropWhile is_digit rest = rest"
    using assms by (cases rest; simp)+
  ultimately show "takeWhile is_digit (decimal n @ rest) = decimal n"
    "dropWhile is_digit (decimal n @ rest) = rest"
    by (simp_all add: takeWhile_append2 dropWhile_append2)
qed

lemma print_d_chars: "c \<in> set (print_d i) \<Longrightarrow> is_digit c \<or> c = CHR ''-''"
  using decimal_digits by (auto simp: print_d_def split: if_splits)

lemma print_d_length:
  assumes "- 2147483648 \<le> i" "i < 2147483648"
  shows "length (print_d i) \<le> 11"
proof -
  have "length (decimal (nat \<bar>i\<bar>)) \<le> 10" by (rule decimal_length) (use assms in auto)
  then show ?thesis by (auto simp: print_d_def abs_if)
qed

text \<open>\<open>%d\<close> reads back what \<open>%d\<close> printed.\<close>

lemma scan_print_d:
  assumes "- 2147483648 \<le> i" "i < 2147483648" "rest \<noteq> [] \<longrightarrow> \<not> is_digit (hd rest)"
  shows "scan_d (print_d i @ rest) = Some (word_of_int i, rest)"
proof -
  obtain c cs where c: "decimal (nat \<bar>i\<bar>) = c # cs" by (cases "decimal (nat \<bar>i\<bar>)") auto
  have d: "is_digit c" using decimal_digits [of c "nat \<bar>i\<bar>"] c by simp
  note nd = digit_not_space [OF d] and td = take_digits [OF assms(3), of "nat \<bar>i\<bar>", unfolded c]
  have v: "digits_value (c # cs) = nat \<bar>i\<bar>" using digits_value_decimal [of "nat \<bar>i\<bar>"] c by simp
  show ?thesis
  proof (cases "i < 0")
    case True
    then have "\<bar>i\<bar> = - i" by simp
    with True nd td v c assms show ?thesis
      by (simp add: scan_d_def print_d_def is_space_def)
  next
    case False
    then have "\<bar>i\<bar> = i" by simp
    with False nd td v c assms show ?thesis
      by (simp add: scan_d_def print_d_def)
  qed
qed

end
