(* ===== verification/Motor_Bridge.thy ===== *)
theory Motor_Bridge
  imports C_Format Cmd_Sequence
begin

text \<open>
  Components/Stage9MotorBridge: the component that passes motor commands to the VESC server over
  TCP and publishes the telemetry lines it sends back, and the command dispatch of that server
  (julia_vesc_server.jl). The results of the socket calls and the number parsers of the C
  library and of Julia are parameters.
\<close>

section \<open>The bridge\<close>

datatype motor_out =
    MSend string
  | MCmdResponse U32 U32 CmdResponse
  | MPerror string
  | MClose int
  | TlmRPM I32
  | TlmDuty F32
  | TlmCurrent F32
  | TlmVoltage F32
  | TlmFault I32

record MotorBridge =
  sock :: int

definition MotorBridge_new :: MotorBridge where
  "MotorBridge_new = \<lparr>sock = - 1\<rparr>"

text \<open>\<open>fd\<close> is what \<open>socket()\<close> returned, \<open>res\<close> what \<open>connect()\<close> returns on it.\<close>

definition connectSocket :: "int \<Rightarrow> int \<Rightarrow> MotorBridge \<Rightarrow> motor_out list \<times> MotorBridge" where
  "connectSocket fd res c =
     (let c = c\<lparr>sock := fd\<rparr> in
      if res < 0 then
        ([MPerror ''Stage9MotorBridge TCP connect failed'', MClose (sock c)], c\<lparr>sock := - 1\<rparr>)
      else ([], c))"

definition MotorBridge_init :: "int \<Rightarrow> int \<Rightarrow> MotorBridge \<Rightarrow> motor_out list \<times> MotorBridge" where
  "MotorBridge_init fd res c = connectSocket fd res c"

definition newline :: string where
  "newline = [CHR 0x0A]"

definition sendCmd :: "MotorBridge \<Rightarrow> string \<Rightarrow> F32 \<Rightarrow> motor_out list" where
  "sendCmd c key v =
     (if sock c < 0 then []
      else [MSend (snprintf_text 64 (key @ ''='' @ print_f v @ newline))])"

definition f32_0_05 :: F32 where
  "f32_0_05 = 0x3D4CCCCD"

definition f32_minus_0_05 :: F32 where
  "f32_minus_0_05 = 0xBD4CCCCD"

definition clamp_duty :: "F32 \<Rightarrow> F32" where
  "clamp_duty duty = f32_max f32_minus_0_05 (f32_min f32_0_05 duty)"

definition SET_DUTY_cmdHandler :: "U32 \<Rightarrow> U32 \<Rightarrow> F32 \<Rightarrow> MotorBridge \<Rightarrow> motor_out list" where
  "SET_DUTY_cmdHandler opCode cmdSeq duty c =
     sendCmd c ''duty'' (clamp_duty duty) @ [MCmdResponse opCode cmdSeq CmdResponse_OK]"

definition SET_CURRENT_cmdHandler :: "U32 \<Rightarrow> U32 \<Rightarrow> F32 \<Rightarrow> MotorBridge \<Rightarrow> motor_out list" where
  "SET_CURRENT_cmdHandler opCode cmdSeq current c =
     sendCmd c ''current'' current @ [MCmdResponse opCode cmdSeq CmdResponse_OK]"

definition STOP_cmdHandler :: "U32 \<Rightarrow> U32 \<Rightarrow> MotorBridge \<Rightarrow> motor_out list" where
  "STOP_cmdHandler opCode cmdSeq c =
     sendCmd c ''stop'' 0 @ [MCmdResponse opCode cmdSeq CmdResponse_OK]"

definition PING_cmdHandler :: "U32 \<Rightarrow> U32 \<Rightarrow> motor_out list" where
  "PING_cmdHandler opCode cmdSeq = [MCmdResponse opCode cmdSeq CmdResponse_OK]"

subsection \<open>Telemetry\<close>

definition telemetry_format :: "scan_item list" where
  "telemetry_format =
     [ScanText ''rpm='', ScanInt, ScanText '' duty='', ScanFloat, ScanText '' current='', ScanFloat,
      ScanText '' volt='', ScanFloat, ScanText '' fault='', ScanInt]"

text \<open>The variables that \<open>sscanf\<close> did not reach keep the zero they start with.\<close>

definition int_field :: "scan_value list \<Rightarrow> nat \<Rightarrow> I32" where
  "int_field vs i = (if i < length vs then (case vs ! i of IntValue v \<Rightarrow> v | _ \<Rightarrow> 0) else 0)"

definition float_field :: "scan_value list \<Rightarrow> nat \<Rightarrow> F32" where
  "float_field vs i = (if i < length vs then (case vs ! i of FloatValue v \<Rightarrow> v | _ \<Rightarrow> 0) else 0)"

definition parseTelemetry :: "strtof_fun \<Rightarrow> string \<Rightarrow> motor_out list" where
  "parseTelemetry strtof line =
     (let vs = scan_items strtof telemetry_format line in
      [TlmRPM (int_field vs 0), TlmDuty (float_field vs 1), TlmCurrent (float_field vs 2),
       TlmVoltage (float_field vs 3), TlmFault (int_field vs 4)])"

definition c_string :: "string \<Rightarrow> string" where
  "c_string buf = takeWhile (\<lambda>c. c \<noteq> CHR 0x00) buf"

text \<open>
  \<open>recv\<close> is the socket call: the descriptor and the room in the buffer to the returned count
  and the bytes. A count beyond the 256 byte buffer would write outside it.
\<close>

definition motor_run_handler ::
  "strtof_fun \<Rightarrow> (int \<Rightarrow> nat \<Rightarrow> int \<times> string) \<Rightarrow> MotorBridge \<Rightarrow> motor_out list option" where
  "motor_run_handler strtof recv c =
     (if sock c < 0 then Some []
      else let (n, bytes) = recv (sock c) 255 in
        if n \<le> 0 then Some []
        else do {
          buf \<leftarrow> write_at (take (nat n) bytes @ replicate (256 - nat n) (CHR 0x00)) (nat n) [CHR 0x00];
          Some (parseTelemetry strtof (c_string buf))
        })"

section \<open>The server's command dispatch\<close>

text \<open>
  The branch a pass of the main loop takes for the line it read, with what the branch assigns: \<open>Set_duty\<close> and
  \<open>Set_current\<close> carry the parsed number, nothing for one that does not parse. The assignments stand in a \<open>try\<close> block
  inside a loop of a script, where Julia makes their variables local to the pass; no state of the server is modelled.
\<close>

datatype vesc_action =
  Set_duty "F64 option" | Set_current "F64 option" | Stop_motor | Raise_fault | Clear_fault | Unknown_command

definition strip :: "string \<Rightarrow> string" where
  "strip text = rev (dropWhile is_space (rev (dropWhile is_space text)))"

definition server_readline :: "string \<Rightarrow> string" where
  "server_readline text = strip (takeWhile (\<lambda>c. c \<noteq> CHR 0x0A) text)"

definition second_field :: "string \<Rightarrow> string" where
  "second_field cmd = takeWhile (\<lambda>c. c \<noteq> CHR ''='') (tl (dropWhile (\<lambda>c. c \<noteq> CHR ''='') cmd))"

definition starts_with :: "string \<Rightarrow> string \<Rightarrow> bool" where
  "starts_with cmd p = (strip_prefix p cmd \<noteq> None)"

definition server_command :: "(string \<Rightarrow> F64 option) \<Rightarrow> string \<Rightarrow> vesc_action" where
  "server_command parse cmd =
     (if starts_with cmd ''duty='' then Set_duty (parse (second_field cmd))
      else if starts_with cmd ''current='' then Set_current (parse (second_field cmd))
      else if cmd = ''stop'' then Stop_motor
      else if cmd = ''fault'' then Raise_fault
      else if cmd = ''clear_fault'' then Clear_fault
      else Unknown_command)"

fun server_receive :: "(string \<Rightarrow> F64 option) \<Rightarrow> motor_out list \<Rightarrow> vesc_action list" where
  "server_receive parse [] = []"
| "server_receive parse (MSend text # outs) =
     server_command parse (server_readline text) # server_receive parse outs"
| "server_receive parse (_ # outs) = server_receive parse outs"

section \<open>Lemmas\<close>

text \<open>The longest line, \<open>current=\<close> and the largest float, fits the 64 byte buffer.\<close>

lemma sendCmd_connected:
  assumes "\<not> sock c < 0" "length key \<le> 7"
  shows "sendCmd c key v = [MSend (key @ ''='' @ print_f v @ newline)]"
  using assms print_f_length [of v] by (simp add: sendCmd_def snprintf_text_def newline_def)

lemma sendCmd_unconnected: "sock c < 0 \<Longrightarrow> sendCmd c key v = []"
  by (simp add: sendCmd_def)

lemma f32_duty_limits [simp]:
  "f32_magnitude f32_0_05 = 1028443341" "\<not> f32_negative f32_0_05"
  "f32_magnitude f32_minus_0_05 = 1028443341" "f32_negative f32_minus_0_05"
  "\<not> f32_is_nan f32_0_05" "\<not> f32_is_nan f32_minus_0_05"
  "f32_key f32_0_05 = 1028443341" "f32_key f32_minus_0_05 = - 1028443341"
  by (simp_all add: f32_magnitude_def f32_0_05_def f32_minus_0_05_def f32_negative_def f32_is_nan_def
      f32_key_def)

lemma clamp_duty_cases:
  "clamp_duty x = (if f32_is_nan x then f32_0_05
     else if 1028443341 \<le> f32_key x then f32_0_05
     else if f32_key x \<le> - 1028443341 then f32_minus_0_05 else x)"
  by (auto simp: clamp_duty_def f32_min_def f32_max_def f32_less_def)

lemma clamp_duty_bounded:
  "\<not> f32_is_nan (clamp_duty x) \<and> f32_magnitude (clamp_duty x) \<le> 1028443341"
  by (auto simp: clamp_duty_cases f32_key_def split: if_splits)

lemma f32_millionths_duty:
  assumes "f32_magnitude x \<le> 1028443341"
  shows "f32_millionths x \<le> 50000"
proof -
  have ex: "f32_exponent x \<le> 122"
    using div_le_mono [OF assms, of 8388608] by (simp add: f32_exponent_def)
  have sc: "nat (- f32_scale x) \<ge> 28" "f32_scale x < 0"
    using ex by (auto simp: f32_scale_def)
  show ?thesis
  proof (cases "f32_exponent x = 122")
    case True
    have "f32_magnitude x = 122 * 8388608 + f32_fraction x"
      using True div_mult_mod_eq [of "f32_magnitude x" 8388608]
      by (simp add: f32_exponent_def f32_fraction_def)
    then have m: "f32_mantissa x \<le> 13421773" using assms True by (simp add: f32_mantissa_def)
    have "nat (- f32_scale x) = 28" using True by (simp add: f32_scale_def)
    moreover have "round_div (f32_mantissa x * 1000000) (2 ^ 28) \<le> 50000"
      by (rule round_div_upper) (use m in simp)
    ultimately show ?thesis using sc by (simp add: f32_millionths_def)
  next
    case False
    then have sc2: "nat (- f32_scale x) \<ge> 29" using ex by (auto simp: f32_scale_def)
    have "f32_mantissa x * 1000000 div 2 ^ nat (- f32_scale x) \<le>
        f32_mantissa x * 1000000 div 2 ^ 29"
      by (rule div_le_mono2) (use power_increasing [OF sc2, of "2::nat"] in simp_all)
    also have "\<dots> \<le> 16777216 * 1000000 div 2 ^ 29"
      using f32_mantissa_bound [of x] by (intro div_le_mono) simp
    finally have "f32_mantissa x * 1000000 div 2 ^ nat (- f32_scale x) \<le> 31250" by simp
    then show ?thesis
      using sc round_div_le [of "f32_mantissa x * 1000000" "2 ^ nat (- f32_scale x)"]
      by (simp add: f32_millionths_def)
  qed
qed

lemma decimal_zero [simp]: "decimal 0 = ''0''"
  by code_simp

lemma print_f_duty:
  assumes "f32_magnitude x \<le> 1028443341"
  shows "print_f x = (if f32_negative x then ''-'' else []) @ ''0.'' @ fixed_digits 6 (f32_millionths x)"
  using assms f32_millionths_duty [OF assms]
  by (simp add: print_f_def f32_is_nan_def f32_is_inf_def)

lemma digit_chars: "digit_char 0 = CHR ''0''" "digit_char 5 = CHR ''5''"
  by code_simp+

lemma print_f_0: "print_f 0 = ''0.000000''"
  by (simp add: print_f_duty f32_magnitude_def f32_negative_def f32_millionths_def f32_scale_def
      f32_mantissa_def f32_exponent_def f32_fraction_def round_div_def Let_def digit_chars
      fixed_digits_numeral)

lemma f32_millionths_0_05: "f32_millionths f32_0_05 = 50000"
  by (simp add: f32_millionths_def f32_scale_def f32_mantissa_def f32_exponent_def f32_fraction_def
      round_div_def Let_def)

lemma print_f_0_05: "print_f f32_0_05 = ''0.050000''"
proof -
  have "fixed_digits 6 50000 = ''050000''" by (simp add: fixed_digits_numeral digit_chars)
  then show ?thesis by (simp add: print_f_duty f32_millionths_0_05)
qed

text \<open>No printed duty contains a blank, a newline or an equals sign.\<close>

definition plain_text :: "string \<Rightarrow> bool" where
  "plain_text t \<longleftrightarrow> (\<forall>c \<in> set t. \<not> is_space c \<and> c \<noteq> CHR ''='' \<and> c \<noteq> CHR 0x0A)"

lemma plain_text_simps [simp]:
  "plain_text []"
  "plain_text (c # cs) \<longleftrightarrow> \<not> is_space c \<and> c \<noteq> CHR ''='' \<and> c \<noteq> CHR 0x0A \<and> plain_text cs"
  "plain_text (a @ b) \<longleftrightarrow> plain_text a \<and> plain_text b"
  by (auto simp: plain_text_def)

lemma plain_digit [simp]: "d < 10 \<Longrightarrow> plain_text [digit_char d]"
  using digit_not_space [OF is_digit_char, of d] is_digit_char [of d]
  by (auto simp: is_digit_def is_space_def)

lemma plain_fixed_digits [simp]: "plain_text (fixed_digits k n)"
  by (induction k arbitrary: n) (use plain_digit in auto)

lemma plain_takeWhile:
  "plain_text t \<Longrightarrow> takeWhile (\<lambda>c. c \<noteq> CHR 0x0A) (t @ newline) = t"
  "plain_text t \<Longrightarrow> takeWhile (\<lambda>c. c \<noteq> CHR ''='') t = t"
  by (auto simp: plain_text_def newline_def takeWhile_append2)

lemma strip_id: "cs \<noteq> [] \<Longrightarrow> \<not> is_space (hd cs) \<Longrightarrow> \<not> is_space (last cs) \<Longrightarrow> strip cs = cs"
proof -
  have drop: "dropWhile is_space xs = xs" if "\<not> is_space (hd xs)" for xs
    using that by (cases xs) auto
  assume "cs \<noteq> []" "\<not> is_space (hd cs)" "\<not> is_space (last cs)"
  then show ?thesis by (simp add: strip_def drop hd_rev)
qed

lemma starts_with_append: "starts_with (p @ t) p"
  by (simp add: starts_with_def)

lemma duty_line_received:
  assumes "plain_text t" "t \<noteq> []"
  shows "server_command parse (server_readline (''duty='' @ t @ newline)) = Set_duty (parse t)"
proof -
  have "\<not> is_space (last t)" using assms by (auto simp: plain_text_def)
  then have "strip (''duty='' @ t) = ''duty='' @ t"
    using assms by (intro strip_id) (auto simp: is_space_def)
  then have "server_readline (''duty='' @ t @ newline) = ''duty='' @ t"
    using plain_takeWhile(1) [OF assms(1)] by (simp add: server_readline_def)
  moreover have "second_field (''duty='' @ t) = t"
    using plain_takeWhile(2) [OF assms(1)] by (simp add: second_field_def)
  moreover have "starts_with (''duty='' @ t) ''duty=''" by (rule starts_with_append)
  ultimately show ?thesis by (simp only: server_command_def if_True)
qed

lemma run_handler_line:
  assumes "sock c \<ge> 0" "recv (sock c) 255 = (int (length line), line)"
    and "line \<noteq> []" "length line \<le> 255" "CHR 0x00 \<notin> set line"
  shows "motor_run_handler strtof recv c = Some (parseTelemetry strtof line)"
proof -
  have "write_at (line @ replicate (256 - length line) (CHR 0x00)) (length line) [CHR 0x00] =
      Some (line @ CHR 0x00 # replicate (255 - length line) (CHR 0x00))"
    using assms(4) by (simp add: write_at_def)
  moreover have "c_string (line @ CHR 0x00 # rest) = line" for rest
    unfolding c_string_def using assms(5) by (subst takeWhile_append2) auto
  ultimately show ?thesis using assms by (simp add: motor_run_handler_def)
qed

section \<open>Properties\<close>

text \<open>
  C33: a SET_DUTY command on a connected bridge, with any bit pattern as its argument, sends one
  complete line whose number lies within -0.050000 and 0.050000, and is answered OK; the server that reads the line
  takes the branch of the duty, and no other, with what it parses from that number. A duty
  within the limits is sent as it is; a NaN is sent as +0.05.
\<close>

theorem set_duty_limited:
  assumes "sock c \<ge> 0"
  shows "\<exists>m text. m \<le> 50000 \<and> text \<in> {''0.'' @ fixed_digits 6 m, ''-0.'' @ fixed_digits 6 m} \<and>
    SET_DUTY_cmdHandler opCode cmdSeq duty c =
      [MSend (''duty='' @ text @ newline), MCmdResponse opCode cmdSeq CmdResponse_OK] \<and>
    server_receive parse (SET_DUTY_cmdHandler opCode cmdSeq duty c) = [Set_duty (parse text)] \<and>
    (\<not> f32_is_nan duty \<and> \<bar>f32_key duty\<bar> \<le> f32_key f32_0_05 \<longrightarrow> text = print_f duty) \<and>
    (f32_is_nan duty \<longrightarrow> text = ''0.050000'')"
proof -
  let ?v = "clamp_duty duty"
  define t where "t = print_f ?v"
  have mag: "f32_magnitude ?v \<le> 1028443341" using clamp_duty_bounded by blast
  note p = print_f_duty [OF mag, folded t_def]
  have "plain_text t" unfolding p by (simp add: is_space_def)
  moreover have "t \<noteq> []" unfolding p by simp
  ultimately have line: "server_command parse (server_readline (''duty='' @ t @ newline)) = Set_duty (parse t)"
    by (rule duty_line_received)
  have out: "SET_DUTY_cmdHandler opCode cmdSeq duty c =
      [MSend (''duty='' @ t @ newline), MCmdResponse opCode cmdSeq CmdResponse_OK]"
    using sendCmd_connected [of c "''duty''" ?v] assms by (simp add: SET_DUTY_cmdHandler_def t_def)
  have "t = print_f duty" if "\<not> f32_is_nan duty" "\<bar>f32_key duty\<bar> \<le> f32_key f32_0_05"
    unfolding t_def
    by (rule print_f_cong) (use that in \<open>auto simp: clamp_duty_cases f32_key_def abs_if split: if_splits\<close>)
  moreover have "t = ''0.050000''" if "f32_is_nan duty"
    using that print_f_0_05 by (simp add: t_def clamp_duty_cases)
  moreover have "t \<in> {''0.'' @ fixed_digits 6 (f32_millionths ?v), ''-0.'' @ fixed_digits 6 (f32_millionths ?v)}"
    unfolding p by simp
  ultimately show ?thesis using f32_millionths_duty [OF mag] out line
    by (intro exI [of _ "f32_millionths ?v"] exI [of _ t]) simp
qed

text \<open>The hypothesis holds for descriptor 3; NaN drives the motor forward at the limit.\<close>

lemma set_duty_limited_witness:
  "SET_DUTY_cmdHandler 1 2 0x7FC00000 \<lparr>sock = 3\<rparr> =
     [MSend (''duty=0.050000'' @ newline), MCmdResponse 1 2 CmdResponse_OK]"
proof -
  have "f32_is_nan 0x7FC00000" by (simp add: f32_is_nan_def f32_magnitude_def)
  with set_duty_limited [of "\<lparr>sock = 3\<rparr>" 1 2 "0x7FC00000"] show ?thesis by auto
qed

text \<open>
  STOP never stops the motor. It sends "stop=0.000000", which is none of the server's
  commands ("stop" without a value is); a connected bridge answers OK all the same, and one without a connection sends nothing.
\<close>

theorem stop_not_understood:
  "server_receive parse (STOP_cmdHandler opCode cmdSeq c) = (if sock c < 0 then [] else [Unknown_command]) \<and>
   last (STOP_cmdHandler opCode cmdSeq c) = MCmdResponse opCode cmdSeq CmdResponse_OK"
proof (cases "sock c < 0")
  case True
  then show ?thesis by (simp add: STOP_cmdHandler_def sendCmd_unconnected)
next
  case False
  have line: "STOP_cmdHandler opCode cmdSeq c =
      [MSend (''stop=0.000000'' @ newline), MCmdResponse opCode cmdSeq CmdResponse_OK]"
    using False sendCmd_connected [of c "''stop''" 0] print_f_0 by (simp add: STOP_cmdHandler_def)
  have "server_readline (''stop=0.000000'' @ newline) = ''stop=0.000000''" by code_simp
  then show ?thesis
    unfolding line using False by (simp add: server_command_def starts_with_def strip_prefix_def)
qed

text \<open>
  A telemetry line as the server prints it (whole, with more text behind the fault code)
  is published on the five channels, in order, with the values it was printed from.
\<close>

theorem telemetry_line_published:
  assumes "sock c \<ge> 0" "recv (sock c) 255 = (int (length line), line)"
    and "line = ''rpm='' @ print_d rpm @ '' duty='' @ td @ '' current='' @ tc @ '' volt='' @ tv @
      '' fault='' @ print_d fault @ rest"
    and "length line \<le> 255" "CHR 0x00 \<notin> set line"
    and "- 2147483648 \<le> rpm" "rpm < 2147483648" "- 2147483648 \<le> fault" "fault < 2147483648"
    and "rest \<noteq> [] \<longrightarrow> \<not> is_digit (hd rest)"
    and "\<forall>(t, x) \<in> {(td, xd), (tc, xc), (tv, xv)}. \<forall>more_text.
      strtof (t @ CHR '' '' # more_text) = Some (x, CHR '' '' # more_text)"
  shows "motor_run_handler strtof recv c =
    Some [TlmRPM (word_of_int rpm), TlmDuty xd, TlmCurrent xc, TlmVoltage xv, TlmFault (word_of_int fault)]"
proof -
  have run: "motor_run_handler strtof recv c = Some (parseTelemetry strtof line)"
    by (intro run_handler_line assms) (use assms(3) in simp)
  have f: "strtof (td @ '' current='' @ r) = Some (xd, '' current='' @ r)"
    "strtof (tc @ '' volt='' @ r) = Some (xc, '' volt='' @ r)"
    "strtof (tv @ '' fault='' @ r) = Some (xv, '' fault='' @ r)" for r
    using assms(11) by auto
  have i: "scan_d (print_d rpm @ '' duty='' @ r) = Some (word_of_int rpm, '' duty='' @ r)" for r
    using assms(6,7) by (intro scan_print_d) (auto simp: is_digit_def)
  have "scan_items strtof telemetry_format line =
      [IntValue (word_of_int rpm), FloatValue xd, FloatValue xc, FloatValue xv, IntValue (word_of_int fault)]"
    unfolding assms(3) telemetry_format_def
    by (simp only: scan_items.simps strip_prefix_append option.case prod.case i f
        scan_print_d [OF assms(8,9,10)])
  then show ?thesis
    by (simp add: run parseTelemetry_def int_field_def float_field_def)
qed

text \<open>
  TCP may deliver a line in pieces. When only the rpm field has arrived, the handler
  publishes zero for every field that has not, a fault code of zero included, and drops the rest
  of the line when it comes.
\<close>

theorem cut_line_clears_fault:
  assumes "sock c \<ge> 0" "- 2147483648 \<le> rpm" "rpm < 2147483648"
    and "recv (sock c) 255 = (int (length (''rpm='' @ print_d rpm)), ''rpm='' @ print_d rpm)"
  shows "motor_run_handler strtof recv c =
    Some [TlmRPM (word_of_int rpm), TlmDuty 0, TlmCurrent 0, TlmVoltage 0, TlmFault 0]"
proof -
  let ?line = "''rpm='' @ print_d rpm"
  have len: "length ?line \<le> 15" using print_d_length [OF assms(2,3)] by simp
  have "CHR 0x00 \<notin> set ?line" using print_d_chars [of "CHR 0x00" rpm] by (auto simp: is_digit_def)
  then have "motor_run_handler strtof recv c = Some (parseTelemetry strtof ?line)"
    by (intro run_handler_line assms) (use len in auto)
  moreover have "scan_items strtof telemetry_format ?line = [IntValue (word_of_int rpm)]"
    unfolding telemetry_format_def scan_items.simps strip_prefix_append option.case
    using scan_print_d [OF assms(2,3), of "[]"] by (simp add: strip_prefix_def)
  ultimately show ?thesis by (simp add: parseTelemetry_def int_field_def float_field_def)
qed

definition witness_strtof :: strtof_fun where
  "witness_strtof t = (if take 3 t = ''0.5'' then Some (0x3F000000, drop 3 t) else None)"

lemma telemetry_line_published_witness:
  "motor_run_handler witness_strtof
     (\<lambda>_ _. (51, ''rpm=-7 duty=0.5 current=0.5 volt=0.5 fault=2 time=0'')) \<lparr>sock = 3\<rparr> =
   Some [TlmRPM (word_of_int (- 7)), TlmDuty 0x3F000000, TlmCurrent 0x3F000000,
     TlmVoltage 0x3F000000, TlmFault (word_of_int 2)]"
proof (rule telemetry_line_published [where td = "''0.5''" and tc = "''0.5''" and tv = "''0.5''"
      and rest = "'' time=0''"])
  have "print_d (- 7) = ''-7''" "print_d 2 = ''2''" by code_simp+
  then show "''rpm=-7 duty=0.5 current=0.5 volt=0.5 fault=2 time=0'' =
      ''rpm='' @ print_d (- 7) @ '' duty='' @ ''0.5'' @ '' current='' @ ''0.5'' @ '' volt='' @ ''0.5'' @
      '' fault='' @ print_d 2 @ '' time=0''" by simp
qed (simp_all add: witness_strtof_def is_digit_def)

lemma cut_line_clears_fault_witness:
  "motor_run_handler witness_strtof (\<lambda>_ _. (6, ''rpm=-7'')) \<lparr>sock = 3\<rparr> =
   Some [TlmRPM (- 7), TlmDuty 0, TlmCurrent 0, TlmVoltage 0, TlmFault 0]"
proof -
  have p: "print_d (- 7) = ''-7''"
    by code_simp+
  show ?thesis
    using cut_line_clears_fault [of "\<lparr>sock = 3\<rparr>" "- 7" "\<lambda>_ _. (6, ''rpm=-7'')" witness_strtof]
    by (simp add: p)
qed

end
