(* ===== verification/Buffer_Queue.thy ===== *)
theory Buffer_Queue
  imports Ser_Buffer Refinement
begin

text \<open>
  Os/Pthreads/BufferQueueCommon.cpp: what the FIFO and the priority queue of the POSIX threads
  port share. The class calls the methods \<open>enqueue\<close> and \<open>dequeue\<close> of the implementation that is
  linked in; here they are parameters, and the locale \<open>message_store\<close> is their contract: a
  queue over any such store is a bounded list of messages.
\<close>

section \<open>State and operations\<close>

record 'q BufferQueue =
  bq_queue :: "'q option"
  bq_msgSize :: U32
  bq_depth :: U32
  bq_count :: U32
  bq_maxCount :: U32

definition BufferQueue_new :: "'q BufferQueue" where
  "BufferQueue_new = \<lparr>bq_queue = None, bq_msgSize = 0, bq_depth = 0, bq_count = 0, bq_maxCount = 0\<rparr>"

definition BufferQueue_finalize :: "'q BufferQueue \<Rightarrow> 'q BufferQueue" where
  "BufferQueue_finalize bq = bq\<lparr>bq_queue := None\<rparr>"

text \<open>\<open>initialize depth msgSize\<close> is the structure it allocates, or nothing when memory is out.\<close>

definition BufferQueue_create ::
  "(U32 \<Rightarrow> U32 \<Rightarrow> 'q option option) \<Rightarrow> U32 \<Rightarrow> U32 \<Rightarrow> 'q BufferQueue \<Rightarrow> (bool \<times> 'q BufferQueue) option" where
  "BufferQueue_create initialize depth msgSize bq = do {
     let bq = (if bq_queue bq \<noteq> None then BufferQueue_finalize bq else bq);
     fw_assert (bq_queue bq = None);
     let bq = bq\<lparr>bq_msgSize := msgSize, bq_depth := depth\<rparr>;
     q \<leftarrow> initialize depth msgSize;
     (case q of None \<Rightarrow> Some (False, bq) | Some q \<Rightarrow> Some (True, bq\<lparr>bq_queue := Some q\<rparr>))
   }"

definition bq_isFull :: "'q BufferQueue \<Rightarrow> bool" where
  "bq_isFull bq = (bq_count bq = bq_depth bq)"

definition bq_isEmpty :: "'q BufferQueue \<Rightarrow> bool" where
  "bq_isEmpty bq = (bq_count bq = 0)"

definition bq_getCount :: "'q BufferQueue \<Rightarrow> U32" where "bq_getCount bq = bq_count bq"
definition bq_getMaxCount :: "'q BufferQueue \<Rightarrow> U32" where "bq_getMaxCount bq = bq_maxCount bq"
definition bq_getMsgSize :: "'q BufferQueue \<Rightarrow> U32" where "bq_getMsgSize bq = bq_msgSize bq"
definition bq_getDepth :: "'q BufferQueue \<Rightarrow> U32" where "bq_getDepth bq = bq_depth bq"

type_synonym 'q enqueue_fun =
  "'q BufferQueue \<Rightarrow> U8 list \<Rightarrow> U32 \<Rightarrow> I32 \<Rightarrow> (bool \<times> 'q BufferQueue) option"

type_synonym 'q dequeue_fun =
  "'q BufferQueue \<Rightarrow> U8 list \<Rightarrow> U32 \<Rightarrow> I32 \<Rightarrow> (bool \<times> U8 list \<times> U32 \<times> I32 \<times> 'q BufferQueue) option"

definition BufferQueue_push :: "'q enqueue_fun \<Rightarrow> 'q enqueue_fun" where
  "BufferQueue_push enqueue bq buffer sz priority = do {
     fw_assert (sz \<le> bq_msgSize bq);
     if bq_isFull bq then Some (False, bq)
     else do {
       (ret, bq) \<leftarrow> enqueue bq buffer sz priority;
       if \<not> ret then Some (False, bq)
       else do {
         let bq = bq\<lparr>bq_count := bq_count bq + 1\<rparr>;
         Some (True, if bq_count bq > bq_maxCount bq then bq\<lparr>bq_maxCount := bq_count bq\<rparr> else bq)
       }
     }
   }"

text \<open>\<open>pop\<close> fills the caller's buffer and its \<open>size\<close> and \<open>priority\<close> variables.\<close>

definition BufferQueue_pop :: "'q dequeue_fun \<Rightarrow> 'q dequeue_fun" where
  "BufferQueue_pop dequeue bq buffer sz priority =
     (if bq_isEmpty bq then Some (False, buffer, 0, priority, bq)
      else do {
        (ret, buffer, sz, priority, bq) \<leftarrow> dequeue bq buffer sz priority;
        if \<not> ret then Some (False, buffer, sz, priority, bq)
        else Some (True, buffer, sz, priority, bq\<lparr>bq_count := bq_count bq - 1\<rparr>)
      })"

text \<open>The remainder is taken on unsigned numbers; a depth of zero would trap.\<close>

definition getBufferIndex :: "U32 \<Rightarrow> U32 \<Rightarrow> U32 \<Rightarrow> U32 option" where
  "getBufferIndex depth msgSize index =
     (if depth = 0 then None else Some ((index mod depth) * (4 + msgSize)))"

text \<open>The size is stored as the processor lays it out, least significant byte first.\<close>

definition native_bytes :: "U32 \<Rightarrow> U8 list" where
  "native_bytes v = rev (bytes_of_U32 v)"

definition native_U32 :: "U8 list \<Rightarrow> U32" where
  "native_U32 bs = U32_of_bytes (rev bs)"

definition enqueueBuffer :: "U8 list \<Rightarrow> U32 \<Rightarrow> U8 list \<Rightarrow> U32 \<Rightarrow> U8 list option" where
  "enqueueBuffer buffer sz data index = do {
     data \<leftarrow> write_at data (unat index) (native_bytes sz);
     let index = index + 4;
     bytes \<leftarrow> read_at buffer 0 (unat sz);
     write_at data (unat index) bytes
   }"

definition dequeueBuffer :: "U8 list \<Rightarrow> U32 \<Rightarrow> U8 list \<Rightarrow> U32 \<Rightarrow> (bool \<times> U8 list \<times> U32) option" where
  "dequeueBuffer buffer sz data index = do {
     stored \<leftarrow> read_at data (unat index) 4;
     let storedSize = native_U32 stored;
     if storedSize > sz then Some (False, buffer, storedSize)
     else do {
       let sz = storedSize;
       let index = index + 4;
       bytes \<leftarrow> read_at data (unat index) (unat storedSize);
       buffer \<leftarrow> write_at buffer 0 bytes;
       Some (True, buffer, sz)
     }
   }"

section \<open>Slots of the data area\<close>

text \<open>The data area is \<open>depth\<close> slots of \<open>4 + msgSize\<close> bytes: a size and a message.\<close>

definition slot :: "nat \<Rightarrow> U8 list \<Rightarrow> nat \<Rightarrow> U8 list" where
  "slot m data i = take (4 + m) (drop (i * (4 + m)) data)"

definition slot_size :: "U8 list \<Rightarrow> nat" where
  "slot_size s = unat (native_U32 (take 4 s))"

definition slot_msg :: "U8 list \<Rightarrow> U8 list" where
  "slot_msg s = take (slot_size s) (drop 4 s)"

lemma length_native_bytes [simp]: "length (native_bytes v) = 4"
  by (simp add: native_bytes_def)

lemma native_U32_bytes [simp]: "native_U32 (native_bytes v) = v"
  by (simp add: native_bytes_def native_U32_def)

lemma slot_msg_length: "slot_size s \<le> m \<Longrightarrow> length (slot_msg s) \<le> m"
  by (simp add: slot_msg_def)

lemma slot_bound:
  fixes m :: nat
  assumes "i < d" "length data = d * (4 + m)"
  shows "i * (4 + m) + 4 + m \<le> length data"
proof -
  have "Suc i * (4 + m) \<le> d * (4 + m)" using assms(1) by (intro mult_right_mono) auto
  then show ?thesis using assms(2) by simp
qed

lemma slots_disjoint:
  fixes w :: nat
  assumes "i \<noteq> j"
  shows "i * w + w \<le> j * w \<or> j * w + w \<le> i * w"
proof -
  have "Suc a * w \<le> b * w" if "a < b" for a b :: nat using that by (intro mult_right_mono) auto
  then show ?thesis using assms by (cases "i < j") (force simp: add.commute)+
qed

lemma write_frame:
  assumes "write_at xs p ys = Some zs" "q + w \<le> p \<or> p + length ys \<le> q"
  shows "take w (drop q zs) = take w (drop q xs)"
proof -
  note z = write_at_SomeD [OF assms(1)]
  show ?thesis
  proof (rule nth_equalityI)
    show "length (take w (drop q zs)) = length (take w (drop q xs))"
      using write_at_length [OF assms(1)] by simp
    show "take w (drop q zs) ! k = take w (drop q xs) ! k" if "k < length (take w (drop q zs))" for k
      using that z assms(2) by (auto simp: nth_append)
  qed
qed

lemma index_of_slot:
  assumes "i < d" "d * (4 + m) < 4294967296"
  shows "unat (of_nat (i * (4 + m)) :: U32) = i * (4 + m)"
    and "unat (of_nat (i * (4 + m)) + 4 :: U32) = i * (4 + m) + 4"
proof -
  have "Suc i * (4 + m) \<le> d * (4 + m)" using assms(1) by (intro mult_right_mono) auto
  then have b: "i * (4 + m) + 4 < 4294967296" using assms(2) by simp
  then show e: "unat (of_nat (i * (4 + m)) :: U32) = i * (4 + m)" by (intro unat_of_nat32) simp
  show "unat (of_nat (i * (4 + m)) + 4 :: U32) = i * (4 + m) + 4"
    using b by (subst unat_add_small) (simp_all only: e, simp_all)
qed

lemma slot_msg_data:
  assumes "slot_size (slot m data i) \<le> m"
  shows "slot_msg (slot m data i) = take (slot_size (slot m data i)) (drop (i * (4 + m) + 4) data)"
proof -
  have "drop 4 (slot m data i) = take m (drop (i * (4 + m) + 4) data)"
    by (simp add: slot_def drop_take add.commute)
  then show ?thesis using assms by (simp add: slot_msg_def min_def)
qed

lemma enqueueBuffer_ok:
  assumes "i < d" "length data = d * (4 + m)" "d * (4 + m) < 4294967296"
    and "unat sz \<le> m" "unat sz \<le> length buffer"
  shows "\<exists>data'. enqueueBuffer buffer sz data (of_nat (i * (4 + m))) = Some data' \<and>
    length data' = length data \<and> slot_size (slot m data' i) = unat sz \<and>
    slot_msg (slot m data' i) = take (unat sz) buffer \<and> (\<forall>j. j \<noteq> i \<longrightarrow> slot m data' j = slot m data j)"
proof -
  note ix = index_of_slot [OF assms(1,3)] and b = slot_bound [OF assms(1,2)]
  let ?a = "i * (4 + m)" and ?msg = "take (unat sz) buffer"
  have "?a + length (native_bytes sz) \<le> length data" using b by simp
  then obtain d1 where w1: "write_at data ?a (native_bytes sz) = Some d1" using write_at_in_bounds by blast
  note d1 = w1 write_at_length [OF w1]
  have "?a + 4 + length ?msg \<le> length d1" using b d1(2) assms(4) by simp
  then obtain d2 where w2: "write_at d1 (?a + 4) ?msg = Some d2" using write_at_in_bounds by blast
  note d2 = w2 write_at_length [OF w2, unfolded d1(2)]
  have run: "enqueueBuffer buffer sz data (of_nat ?a) = Some d2"
    using d1(1) d2(1) assms(5) by (simp only: enqueueBuffer_def ix Let_def) (simp add: read_at_def)
  have len: "length ?msg = unat sz" using assms(5) by simp
  have hd: "take 4 (drop ?a d2) = native_bytes sz"
    using write_frame [OF d2(1), of ?a 4] read_after_write [OF d1(1)]
    by (simp add: read_at_def split: if_splits)
  have "take 4 (slot m d2 i) = native_bytes sz"
    using hd by (simp add: slot_def min_def)
  then have size: "slot_size (slot m d2 i) = unat sz" by (simp add: slot_size_def)
  have "take (unat sz) (drop (?a + 4) d2) = ?msg"
    using read_after_write [OF d2(1)] len by (simp add: read_at_def split: if_splits)
  then have msg: "slot_msg (slot m d2 i) = ?msg"
    using slot_msg_data [of m d2 i] assms(4) by (simp only: size)
  have "slot m d2 j = slot m data j" if "j \<noteq> i" for j
  proof -
    note dj = slots_disjoint [OF that, of "4 + m"]
    have "slot m d2 j = slot m d1 j"
      unfolding slot_def by (rule write_frame [OF d2(1)]) (use dj len assms(4) in linarith)
    also have "\<dots> = slot m data j"
      unfolding slot_def by (rule write_frame [OF d1(1)]) (use dj in \<open>simp; linarith\<close>)
    finally show ?thesis .
  qed
  then show ?thesis using run d2(2) size msg by blast
qed

lemma dequeueBuffer_ok:
  assumes "i < d" "length data = d * (4 + m)" "d * (4 + m) < 4294967296"
    and "slot_size (slot m data i) \<le> m" "unat sz \<le> length buffer"
  shows "dequeueBuffer buffer sz data (of_nat (i * (4 + m))) =
    (let msg = slot_msg (slot m data i) in
     if unat sz < length msg then Some (False, buffer, of_nat (length msg))
     else Some (True, msg @ drop (length msg) buffer, of_nat (length msg)))"
proof -
  note ix = index_of_slot [OF assms(1,3)] and b = slot_bound [OF assms(1,2)]
  let ?a = "i * (4 + m)" and ?n = "slot_size (slot m data i)"
  have hd: "read_at data ?a 4 = Some (take 4 (slot m data i))"
    using b by (simp add: read_at_def slot_def min_def)
  let ?w = "native_U32 (take 4 (slot m data i))"
  have w: "unat ?w = ?n" "of_nat ?n = ?w" by (simp_all add: slot_size_def)
  have len: "length (slot_msg (slot m data i)) = ?n"
    using b assms(4) by (simp add: slot_msg_def slot_def)
  have msg: "read_at data (?a + 4) ?n = Some (slot_msg (slot m data i))"
    using b assms(4) by (simp add: read_at_def slot_msg_data)
  show ?thesis
  proof (cases "unat sz < ?n")
    case True
    then have "?w > sz" by (simp add: word_less_nat_alt w)
    then show ?thesis using True hd
      by (simp only: dequeueBuffer_def ix Let_def len w(2)) simp
  next
    case False
    then have "\<not> ?w > sz" by (simp add: word_less_nat_alt w)
    moreover have "write_at buffer 0 (slot_msg (slot m data i)) =
        Some (slot_msg (slot m data i) @ drop ?n buffer)"
      using False assms(5) len by (simp add: write_at_def)
    ultimately show ?thesis using False hd msg
      by (simp only: dequeueBuffer_def ix Let_def len w(2)) (simp add: w(1))
  qed
qed

lemma getBufferIndex_ok:
  assumes "depth \<noteq> 0"
  shows "getBufferIndex depth msgSize index =
    Some (of_nat ((unat index mod unat depth) * (4 + unat msgSize)))"
proof -
  have "index mod depth = of_nat (unat index mod unat depth)"
    by (rule word_eq_of_unat) (simp add: unat_mod)
  then show ?thesis using assms by (simp add: getBufferIndex_def)
qed

lemma ring_slots_distinct:
  fixes d :: nat
  assumes "a < b" "b < a + d"
  shows "a mod d \<noteq> b mod d"
proof
  assume "a mod d = b mod d"
  then have "d dvd b - a" using assms mod_eq_dvd_iff_nat [of a b d] by simp
  then show False using assms by (auto dest: dvd_imp_le)
qed

section \<open>A queue over any message store\<close>

datatype bq_op =
  QPush "U8 list" I32 | QPop "U8 list" I32 | QIsFull | QIsEmpty | QGetCount | QGetMaxCount |
  QGetMsgSize | QGetDepth

datatype bq_obs = QPushed bool | QPopped bool "U8 list" nat I32 | QFlag bool | QNumber nat

text \<open>One call. The caller passes the whole of its buffer, so the size is the buffer's length.\<close>

fun bq_step :: "'q enqueue_fun \<Rightarrow> 'q dequeue_fun \<Rightarrow> bq_op \<Rightarrow> 'q BufferQueue \<Rightarrow> (bq_obs \<times> 'q BufferQueue) option" where
  "bq_step enqueue dequeue (QPush buffer priority) bq = do {
     (ok, bq) \<leftarrow> BufferQueue_push enqueue bq buffer (of_nat (length buffer)) priority;
     Some (QPushed ok, bq) }"
| "bq_step enqueue dequeue (QPop buffer priority) bq = do {
     (ok, buffer, sz, priority, bq) \<leftarrow> BufferQueue_pop dequeue bq buffer (of_nat (length buffer)) priority;
     Some (QPopped ok buffer (unat sz) priority, bq) }"
| "bq_step enqueue dequeue QIsFull bq = Some (QFlag (bq_isFull bq), bq)"
| "bq_step enqueue dequeue QIsEmpty bq = Some (QFlag (bq_isEmpty bq), bq)"
| "bq_step enqueue dequeue QGetCount bq = Some (QNumber (unat (bq_getCount bq)), bq)"
| "bq_step enqueue dequeue QGetMaxCount bq = Some (QNumber (unat (bq_getMaxCount bq)), bq)"
| "bq_step enqueue dequeue QGetMsgSize bq = Some (QNumber (unat (bq_getMsgSize bq)), bq)"
| "bq_step enqueue dequeue QGetDepth bq = Some (QNumber (unat (bq_getDepth bq)), bq)"

text \<open>
  The abstract queue: its depth, message size, high water mark and the messages in leaving order.
  What differs between the stores is where a message is put (\<open>ins\<close>), which priority the caller
  sees (\<open>shown\<close>), and what a pop into too small a buffer leaves (\<open>refused\<close>).
\<close>

type_synonym entry = "I32 \<times> U8 list"

record message_list =
  ml_depth :: nat
  ml_msgSize :: nat
  ml_maxCount :: nat
  ml_entries :: "entry list"

fun message_spec ::
  "(entry \<Rightarrow> entry list \<Rightarrow> entry list) \<Rightarrow> (I32 \<Rightarrow> I32 \<Rightarrow> I32) \<Rightarrow> (entry list \<Rightarrow> entry list) \<Rightarrow>
   bq_op \<Rightarrow> message_list \<Rightarrow> bq_obs \<times> message_list" where
  "message_spec ins shown refused (QPush buffer priority) l =
     (if length (ml_entries l) = ml_depth l then (QPushed False, l)
      else (QPushed True, l\<lparr>ml_entries := ins (priority, buffer) (ml_entries l),
        ml_maxCount := max (ml_maxCount l) (length (ml_entries l) + 1)\<rparr>))"
| "message_spec ins shown refused (QPop buffer priority) l =
     (case ml_entries l of
        [] \<Rightarrow> (QPopped False buffer 0 priority, l)
      | (p, msg) # rest \<Rightarrow>
          if length buffer < length msg then
            (QPopped False buffer (length msg) (shown p priority), l\<lparr>ml_entries := refused (ml_entries l)\<rparr>)
          else (QPopped True (msg @ drop (length msg) buffer) (length msg) (shown p priority),
            l\<lparr>ml_entries := rest\<rparr>))"
| "message_spec ins shown refused QIsFull l = (QFlag (length (ml_entries l) = ml_depth l), l)"
| "message_spec ins shown refused QIsEmpty l = (QFlag (ml_entries l = []), l)"
| "message_spec ins shown refused QGetCount l = (QNumber (length (ml_entries l)), l)"
| "message_spec ins shown refused QGetMaxCount l = (QNumber (ml_maxCount l), l)"
| "message_spec ins shown refused QGetMsgSize l = (QNumber (ml_msgSize l), l)"
| "message_spec ins shown refused QGetDepth l = (QNumber (ml_depth l), l)"

fun bq_op_ok :: "nat \<Rightarrow> bq_op \<Rightarrow> bool" where
  "bq_op_ok m (QPush buffer priority) \<longleftrightarrow> length buffer \<le> m"
| "bq_op_ok m (QPop buffer priority) \<longleftrightarrow> length buffer < 4294967296"
| "bq_op_ok m _ \<longleftrightarrow> True"

definition bq_abs :: "('q BufferQueue \<Rightarrow> entry list) \<Rightarrow> 'q BufferQueue \<Rightarrow> message_list" where
  "bq_abs content bq = \<lparr>ml_depth = unat (bq_depth bq), ml_msgSize = unat (bq_msgSize bq),
     ml_maxCount = unat (bq_maxCount bq), ml_entries = content bq\<rparr>"

definition bq_inv :: "(nat \<Rightarrow> 'q BufferQueue \<Rightarrow> bool) \<Rightarrow> nat \<Rightarrow> nat \<Rightarrow> 'q BufferQueue \<Rightarrow> bool" where
  "bq_inv store_inv m n bq \<longleftrightarrow> store_inv n bq \<and> unat (bq_msgSize bq) = m \<and> bq_count bq \<le> bq_maxCount bq"

locale message_store =
  fixes enqueue :: "'q enqueue_fun"
    and dequeue :: "'q dequeue_fun"
    and store_inv :: "nat \<Rightarrow> 'q BufferQueue \<Rightarrow> bool"
    and content :: "'q BufferQueue \<Rightarrow> entry list"
    and ins :: "entry \<Rightarrow> entry list \<Rightarrow> entry list"
    and shown :: "I32 \<Rightarrow> I32 \<Rightarrow> I32"
    and refused :: "entry list \<Rightarrow> entry list"
  assumes content_count: "store_inv n bq \<Longrightarrow>
      length (content bq) = unat (bq_count bq) \<and> bq_count bq \<le> bq_depth bq"
    and entries_fit: "store_inv n bq \<Longrightarrow> (p, msg) \<in> set (content bq) \<Longrightarrow> length msg \<le> unat (bq_msgSize bq)"
    and ignores_counts: "content (bq\<lparr>bq_count := c, bq_maxCount := x\<rparr>) = content bq"
      "store_inv n (bq\<lparr>bq_maxCount := x\<rparr>) \<longleftrightarrow> store_inv n bq"
    and inv_weaken: "store_inv (Suc n) bq \<Longrightarrow> store_inv n bq"
    and enqueue_ok: "store_inv (Suc n) bq \<Longrightarrow> bq_count bq < bq_depth bq \<Longrightarrow>
      length buffer \<le> unat (bq_msgSize bq) \<Longrightarrow>
      \<exists>q. enqueue bq buffer (of_nat (length buffer)) priority = Some (True, bq\<lparr>bq_queue := q\<rparr>) \<and>
        store_inv n (bq\<lparr>bq_queue := q, bq_count := bq_count bq + 1\<rparr>) \<and>
        content (bq\<lparr>bq_queue := q\<rparr>) = ins (priority, buffer) (content bq)"
    and dequeue_ok: "store_inv (Suc n) bq \<Longrightarrow> content bq = (p, msg) # rest \<Longrightarrow>
      length buffer < 4294967296 \<Longrightarrow>
      \<exists>q. if length buffer < length msg
        then dequeue bq buffer (of_nat (length buffer)) priority =
            Some (False, buffer, of_nat (length msg), shown p priority, bq\<lparr>bq_queue := q\<rparr>) \<and>
          store_inv n (bq\<lparr>bq_queue := q\<rparr>) \<and> content (bq\<lparr>bq_queue := q\<rparr>) = refused (content bq)
        else dequeue bq buffer (of_nat (length buffer)) priority =
            Some (True, msg @ drop (length msg) buffer, of_nat (length msg), shown p priority,
              bq\<lparr>bq_queue := q\<rparr>) \<and>
          store_inv n (bq\<lparr>bq_queue := q, bq_count := bq_count bq - 1\<rparr>) \<and>
          content (bq\<lparr>bq_queue := q\<rparr>) = rest"
begin

lemma content_set_count: "content (bq\<lparr>bq_count := c\<rparr>) = content bq"
  using ignores_counts(1) [where bq = bq and c = c and x = "bq_maxCount bq"] by simp

lemma push_refines:
  assumes "bq_inv store_inv m (Suc n) bq" "length buffer \<le> m"
  shows "\<exists>bq'. bq_step enqueue dequeue (QPush buffer priority) bq =
      Some (fst (message_spec ins shown refused (QPush buffer priority) (bq_abs content bq)), bq') \<and>
    bq_inv store_inv m n bq' \<and>
    bq_abs content bq' = snd (message_spec ins shown refused (QPush buffer priority) (bq_abs content bq))"
proof -
  have inv: "store_inv (Suc n) bq" and m: "unat (bq_msgSize bq) = m" and mx: "bq_count bq \<le> bq_maxCount bq"
    using assms(1) by (simp_all add: bq_inv_def)
  note cc = content_count [OF inv]
  have b: "length buffer < 4294967296" using assms(2) m unat_lt32 [of "bq_msgSize bq"] by linarith
  have fits: "of_nat (length buffer) \<le> bq_msgSize bq"
    using assms(2) b by (simp add: word_le_nat_alt unat_of_nat32 m)
  have full: "bq_isFull bq \<longleftrightarrow> length (content bq) = unat (bq_depth bq)"
    using cc by (simp add: bq_isFull_def word_unat_eq_iff)
  show ?thesis
  proof (cases "bq_isFull bq")
    case True
    then show ?thesis using fits full inv m mx inv_weaken
      by (simp add: BufferQueue_push_def bq_abs_def bq_inv_def)
  next
    case False
    then have lt: "bq_count bq < bq_depth bq" using cc by (simp add: bq_isFull_def order_less_le)
    obtain q where q: "enqueue bq buffer (of_nat (length buffer)) priority = Some (True, bq\<lparr>bq_queue := q\<rparr>)"
      "store_inv n (bq\<lparr>bq_queue := q, bq_count := bq_count bq + 1\<rparr>)"
      "content (bq\<lparr>bq_queue := q\<rparr>) = ins (priority, buffer) (content bq)"
      using enqueue_ok [OF inv lt] assms(2) m by blast
    have "unat (bq_count bq) < unat (bq_depth bq)" using lt by (simp add: word_less_nat_alt)
    then have "unat (bq_count bq) + 1 < 4294967296" using unat_lt32 [of "bq_depth bq"] by linarith
    then have inc: "unat (bq_count bq + 1) = unat (bq_count bq) + 1" by (simp add: unat_add_small)
    let ?c = "bq_count bq + 1"
    let ?x = "if ?c > bq_maxCount bq then ?c else bq_maxCount bq"
    let ?bq = "bq\<lparr>bq_queue := q, bq_count := ?c, bq_maxCount := ?x\<rparr>"
    have run: "BufferQueue_push enqueue bq buffer (of_nat (length buffer)) priority = Some (True, ?bq)"
      using False fits q(1) by (simp add: BufferQueue_push_def Let_def)
    have "store_inv n ?bq"
      using q(2) ignores_counts(2) [where n = n and bq = "bq\<lparr>bq_queue := q, bq_count := ?c\<rparr>" and x = ?x] by simp
    moreover have "content ?bq = ins (priority, buffer) (content bq)"
      using q(3) ignores_counts(1) [where bq = "bq\<lparr>bq_queue := q\<rparr>" and c = ?c and x = ?x] by simp
    moreover have "unat ?x = max (unat (bq_maxCount bq)) (length (content bq) + 1)"
      using cc inc by (auto simp: word_less_nat_alt)
    moreover have "?c \<le> ?x" by auto
    ultimately show ?thesis using run False full m
      by (simp add: bq_abs_def bq_inv_def)
  qed
qed

lemma pop_refines:
  assumes "bq_inv store_inv m (Suc n) bq" "length buffer < 4294967296"
  shows "\<exists>bq'. bq_step enqueue dequeue (QPop buffer priority) bq =
      Some (fst (message_spec ins shown refused (QPop buffer priority) (bq_abs content bq)), bq') \<and>
    bq_inv store_inv m n bq' \<and>
    bq_abs content bq' = snd (message_spec ins shown refused (QPop buffer priority) (bq_abs content bq))"
proof -
  have inv: "store_inv (Suc n) bq" and m: "unat (bq_msgSize bq) = m" and mx: "bq_count bq \<le> bq_maxCount bq"
    using assms(1) by (simp_all add: bq_inv_def)
  note cc = content_count [OF inv]
  show ?thesis
  proof (cases "content bq")
    case Nil
    then have "bq_isEmpty bq" using cc by (simp add: bq_isEmpty_def unat_eq_0)
    then show ?thesis using Nil inv m mx inv_weaken
      by (simp add: BufferQueue_pop_def bq_abs_def bq_inv_def)
  next
    case (Cons e rest)
    obtain p msg where e: "e = (p, msg)" by (cases e)
    note c = Cons [unfolded e]
    have "bq_count bq \<noteq> 0" using cc c by (auto simp: unat_eq_0)
    then have ne: "\<not> bq_isEmpty bq" and pos: "0 < unat (bq_count bq)"
      by (simp_all add: bq_isEmpty_def unat_gt_0)
    have "length msg \<le> unat (bq_msgSize bq)" using entries_fit [OF inv] c by auto
    then have len: "unat (of_nat (length msg) :: U32) = length msg"
      using unat_lt32 [of "bq_msgSize bq"] by (intro unat_of_nat32) linarith
    obtain q where q: "if length buffer < length msg
        then dequeue bq buffer (of_nat (length buffer)) priority =
            Some (False, buffer, of_nat (length msg), shown p priority, bq\<lparr>bq_queue := q\<rparr>) \<and>
          store_inv n (bq\<lparr>bq_queue := q\<rparr>) \<and> content (bq\<lparr>bq_queue := q\<rparr>) = refused (content bq)
        else dequeue bq buffer (of_nat (length buffer)) priority =
            Some (True, msg @ drop (length msg) buffer, of_nat (length msg), shown p priority,
              bq\<lparr>bq_queue := q\<rparr>) \<and>
          store_inv n (bq\<lparr>bq_queue := q, bq_count := bq_count bq - 1\<rparr>) \<and>
          content (bq\<lparr>bq_queue := q\<rparr>) = rest"
      using dequeue_ok [OF inv c assms(2)] by blast
    show ?thesis
    proof (cases "length buffer < length msg")
      case True
      then show ?thesis using q ne c m mx
        by (simp add: BufferQueue_pop_def bq_abs_def bq_inv_def len)
    next
      case False
      let ?bq = "bq\<lparr>bq_queue := q, bq_count := bq_count bq - 1\<rparr>"
      have "content ?bq = rest"
        using False q content_set_count [where bq = "bq\<lparr>bq_queue := q\<rparr>" and c = "bq_count bq - 1"] by simp
      moreover have "bq_count bq - 1 \<le> bq_maxCount bq"
        using mx pos by (simp add: word_le_nat_alt unat_dec)
      ultimately show ?thesis using False q ne c m
        by (simp add: BufferQueue_pop_def bq_abs_def bq_inv_def len)
    qed
  qed
qed

lemma step_ok:
  assumes "bq_inv store_inv m (Suc n) bq" "bq_op_ok m x"
  shows "\<exists>bq'. bq_step enqueue dequeue x bq =
      Some (fst (message_spec ins shown refused x (bq_abs content bq)), bq') \<and>
    bq_inv store_inv m n bq' \<and> bq_abs content bq' = snd (message_spec ins shown refused x (bq_abs content bq))"
proof -
  have inv: "store_inv (Suc n) bq" "bq_inv store_inv m n bq"
    using assms(1) inv_weaken by (auto simp: bq_inv_def)
  note cc = content_count [OF inv(1)]
  have flags: "bq_isFull bq \<longleftrightarrow> length (content bq) = unat (bq_depth bq)"
    "bq_isEmpty bq \<longleftrightarrow> content bq = []"
    using cc by (auto simp: bq_isFull_def bq_isEmpty_def word_unat_eq_iff simp flip: length_0_conv)
  show ?thesis
  proof (cases x)
    case (QPush buffer priority)
    then show ?thesis using push_refines [OF assms(1)] assms(2) by simp
  next
    case (QPop buffer priority)
    then show ?thesis using pop_refines [OF assms(1)] assms(2) by simp
  qed (use inv(2) flags cc in \<open>simp_all add: bq_abs_def bq_getCount_def bq_getMaxCount_def
      bq_getMsgSize_def bq_getDepth_def\<close>)
qed

end

sublocale message_store \<subseteq> bounded: budgeted_refinement "bq_step enqueue dequeue"
  "message_spec ins shown refused" "bq_inv store_inv m" "bq_abs content" "bq_op_ok m" for m
  by unfold_locales (rule step_ok)

end
