(* ===== verification/Array_Heap.thy ===== *)
theory Array_Heap
  imports Main "HOL-Library.Multiset"
begin

text \<open>
  Binary heaps laid out in a list over a linear order, smallest element first: what one step of
  sifting up and of sifting down keeps of the heap order. The order is violated in one place,
  the hole, only.
\<close>

definition par :: "nat \<Rightarrow> nat" where
  "par i = (i - 1) div 2"

definition swap_at :: "'a list \<Rightarrow> nat \<Rightarrow> nat \<Rightarrow> 'a list" where
  "swap_at xs i j = xs[i := xs ! j, j := xs ! i]"

definition heap_ordered :: "'a::linorder list \<Rightarrow> bool" where
  "heap_ordered xs \<longleftrightarrow> (\<forall>j. 0 < j \<longrightarrow> j < length xs \<longrightarrow> xs ! par j \<le> xs ! j)"

text \<open>The children of the hole are not before its parent, so the hole may be filled by it.\<close>

definition around_hole :: "'a::linorder list \<Rightarrow> nat \<Rightarrow> bool" where
  "around_hole xs i \<longleftrightarrow> (\<forall>j. 0 < j \<longrightarrow> j < length xs \<longrightarrow> par j = i \<longrightarrow> 0 < i \<longrightarrow> xs ! par i \<le> xs ! j)"

definition up_hole :: "'a::linorder list \<Rightarrow> nat \<Rightarrow> bool" where
  "up_hole xs i \<longleftrightarrow> around_hole xs i \<and>
     (\<forall>j. 0 < j \<longrightarrow> j < length xs \<longrightarrow> j \<noteq> i \<longrightarrow> xs ! par j \<le> xs ! j)"

definition down_hole :: "'a::linorder list \<Rightarrow> nat \<Rightarrow> bool" where
  "down_hole xs i \<longleftrightarrow> around_hole xs i \<and>
     (\<forall>j. 0 < j \<longrightarrow> j < length xs \<longrightarrow> par j \<noteq> i \<longrightarrow> xs ! par j \<le> xs ! j)"

lemmas heap_defs = heap_ordered_def around_hole_def up_hole_def down_hole_def

lemma nth_in_take: "k < n \<Longrightarrow> n \<le> length xs \<Longrightarrow> xs ! k \<in> set (take n xs)"
  by (metis length_take min.absorb2 nth_mem nth_take)

lemma par_less: "0 < i \<Longrightarrow> par i < i"
  by (auto simp: par_def)

lemma par_0 [simp]: "par 0 = 0"
  by (simp add: par_def)

lemma par_child: "0 < j \<Longrightarrow> par j = i \<longleftrightarrow> j = 2 * i + 1 \<or> j = 2 * i + 2"
  by (auto simp: par_def)

lemma length_swap_at [simp]: "length (swap_at xs i j) = length xs"
  by (simp add: swap_at_def)

lemma nth_swap_at:
  "i < length xs \<Longrightarrow> j < length xs \<Longrightarrow>
     swap_at xs i j ! k = (if k = j then xs ! i else if k = i then xs ! j else xs ! k)"
  by (auto simp: swap_at_def nth_list_update)

lemma mset_swap_at [simp]:
  "i < length xs \<Longrightarrow> j < length xs \<Longrightarrow> mset (swap_at xs i j) = mset xs"
  by (simp add: swap_at_def mset_swap)

lemma up_done: "up_hole xs i \<Longrightarrow> i = 0 \<or> xs ! par i \<le> xs ! i \<Longrightarrow> heap_ordered xs"
  by (auto simp: heap_defs)

lemma up_step:
  assumes "up_hole xs i" "0 < i" "i < length xs" "xs ! i < xs ! par i"
  shows "up_hole (swap_at xs i (par i)) (par i)"
proof -
  let ?p = "par i" and ?ys = "swap_at xs i (par i)"
  have p: "?p < i" "?p < length xs" using assms(2,3) par_less [of i] by auto
  note nth = nth_swap_at [OF assms(3) p(2)]
  have h: "xs ! par j \<le> xs ! j" if "0 < j" "j < length xs" "j \<noteq> i" for j
    using assms(1) that by (simp add: up_hole_def)
  have a: "xs ! ?p \<le> xs ! j" if "0 < j" "j < length xs" "par j = i" for j
    using assms(1,2) that by (simp add: up_hole_def around_hole_def)
  have "?ys ! par j \<le> ?ys ! j" if j: "0 < j" "j < length xs" "j \<noteq> ?p" for j
    using h [OF j(1,2)] a [OF j(1,2)] assms(4) j p by (auto simp: nth)
  moreover have "?ys ! par ?p \<le> ?ys ! j" if j: "0 < j" "j < length xs" "par j = ?p" "0 < ?p" for j
  proof -
    have "xs ! par ?p \<le> xs ! ?p" by (rule h) (use j p in auto)
    moreover have "par ?p < ?p" "j \<noteq> ?p" using j par_less [of ?p] par_less [of j] by auto
    moreover have "xs ! ?p \<le> xs ! j" if "j \<noteq> i" using h [OF j(1,2) that] j(3) by simp
    ultimately show ?thesis using p by (auto simp: nth intro: order_trans)
  qed
  ultimately show ?thesis by (simp add: up_hole_def around_hole_def)
qed

lemma down_done:
  assumes "down_hole xs i" "\<And>j. 0 < j \<Longrightarrow> j < length xs \<Longrightarrow> par j = i \<Longrightarrow> xs ! i \<le> xs ! j"
  shows "heap_ordered xs"
  using assms unfolding heap_ordered_def down_hole_def by blast

lemma down_step:
  assumes "down_hole xs i" "0 < l" "l < length xs" "par l = i" "xs ! l \<le> xs ! i"
    and "\<And>j. 0 < j \<Longrightarrow> j < length xs \<Longrightarrow> par j = i \<Longrightarrow> xs ! l \<le> xs ! j"
  shows "down_hole (swap_at xs i l) l"
proof -
  let ?ys = "swap_at xs i l"
  have i: "i < l" "i < length xs" using assms(2-4) par_less [of l] by auto
  note nth = nth_swap_at [OF i(2) assms(3)]
  have h: "xs ! par j \<le> xs ! j" if "0 < j" "j < length xs" "par j \<noteq> i" for j
    using assms(1) that by (simp add: down_hole_def)
  have a: "xs ! par i \<le> xs ! j" if "0 < j" "j < length xs" "par j = i" "0 < i" for j
    using assms(1) that by (simp add: down_hole_def around_hole_def)
  have "?ys ! par j \<le> ?ys ! j" if j: "0 < j" "j < length xs" "par j \<noteq> l" for j
  proof (cases "par j = i")
    case True
    then show ?thesis using assms(5) assms(6) [OF j(1,2) True] i j(1) par_less [of j]
      by (auto simp: nth)
  next
    case False
    have "xs ! par i \<le> xs ! l" if "j = i" using a [OF assms(2,3,4)] that j(1) by simp
    then show ?thesis using h [OF j(1,2) False] False j assms(4) by (auto simp: nth)
  qed
  moreover have "?ys ! par l \<le> ?ys ! j" if j: "0 < j" "j < length xs" "par j = l" for j
  proof -
    have "xs ! l \<le> xs ! j" using h [OF j(1,2)] j(3) i by simp
    moreover have "j \<noteq> l" "j \<noteq> i" using par_less [OF j(1)] j(3) i by auto
    ultimately show ?thesis using assms(4) i by (simp add: nth)
  qed
  ultimately show ?thesis by (simp add: down_hole_def around_hole_def)
qed

lemma heap_root_first:
  assumes "heap_ordered xs" "i < length xs"
  shows "xs ! 0 \<le> xs ! i"
  using assms(2)
proof (induction i rule: less_induct)
  case (less i)
  show ?case
  proof (cases "i = 0")
    case False
    then have "xs ! par i \<le> xs ! i" using assms(1) less.prems by (simp add: heap_ordered_def)
    moreover have "xs ! 0 \<le> xs ! par i" using less par_less [of i] False by auto
    ultimately show ?thesis by (rule order_trans [rotated])
  qed simp
qed

text \<open>Where the two loops start: a new last element, and the last element moved to the root.\<close>

lemma snoc_up_hole:
  assumes "heap_ordered xs"
  shows "up_hole (xs @ [x]) (length xs)"
proof -
  have "(xs @ [x]) ! par j \<le> (xs @ [x]) ! j"
    if "0 < j" "j < length (xs @ [x])" "j \<noteq> length xs" for j
  proof -
    have "par j < length xs" "j < length xs" using par_less [of j] that by auto
    then show ?thesis using assms that(1) by (simp add: heap_ordered_def nth_append)
  qed
  moreover have "par j \<noteq> length xs" if "0 < j" "j < length (xs @ [x])" for j
    using par_less [of j] that by auto
  ultimately show ?thesis by (simp add: up_hole_def around_hole_def)
qed

lemma root_down_hole:
  assumes "heap_ordered xs"
  shows "down_hole ((take n xs)[0 := x]) 0"
proof -
  have "(take n xs)[0 := x] ! par j \<le> (take n xs)[0 := x] ! j"
    if "0 < j" "j < length ((take n xs)[0 := x])" "par j \<noteq> 0" for j
    using assms that par_less [of j] by (simp add: heap_ordered_def)
  then show ?thesis by (simp add: down_hole_def around_hole_def)
qed

lemma sort_root:
  assumes "heap_ordered xs" "xs \<noteq> []" "mset ys + {#xs ! 0#} = mset xs"
  shows "sort xs = xs ! 0 # sort ys"
proof -
  have "xs ! 0 \<le> y" if "y \<in> set ys" for y
  proof -
    have "y \<in># mset xs" using that unfolding assms(3) [symmetric] by simp
    then show ?thesis using heap_root_first [OF assms(1)] by (auto simp: in_set_conv_nth)
  qed
  moreover have m: "mset (xs ! 0 # ys) = mset xs" using assms(3) by simp
  have "sort xs = sort (xs ! 0 # ys)"
    by (rule properties_for_sort) (simp_all only: m mset_sort sorted_sort)
  ultimately show ?thesis by (simp add: insort_is_Cons)
qed

end
