(* ===== verification/Max_Heap.thy ===== *)
theory Max_Heap
  imports Refinement Array_Heap "HOL-Library.Product_Lexorder"
begin

text \<open>
  Os/Pthreads/MaxHeap/MaxHeap.cpp: the array heap behind the priority message queue. Indices
  and counters are 32-bit words. The heap refines a list of entries in leaving order: highest
  value first, oldest first among equal values.
\<close>

section \<open>State and operations\<close>

datatype Node = Node (nd_value: I32) (nd_order: U32) (nd_id: U32)

record MaxHeap =
  mh_heap :: "Node list"
  mh_size :: U32
  mh_order :: U32
  mh_capacity :: U32

definition LCHILD :: "U32 \<Rightarrow> U32" where "LCHILD x = 2 * x + 1"
definition RCHILD :: "U32 \<Rightarrow> U32" where "RCHILD x = 2 * x + 2"
definition PARENT :: "U32 \<Rightarrow> U32" where "PARENT x = (x - 1) div 2"

text \<open>A null heap pointer is the empty array: it belongs to a heap of capacity zero.\<close>

definition MaxHeap_new :: MaxHeap where
  "MaxHeap_new = \<lparr>mh_heap = [], mh_size = 0, mh_order = 0, mh_capacity = 0\<rparr>"

text \<open>\<open>mem\<close> is what \<open>new Node[capacity]\<close> returned: uninitialised nodes, or nothing.\<close>

definition MaxHeap_create :: "Node list option \<Rightarrow> U32 \<Rightarrow> MaxHeap \<Rightarrow> bool \<times> MaxHeap" where
  "MaxHeap_create mem capacity h =
     (let h = h\<lparr>mh_heap := []\<rparr> in
      case mem of
        None \<Rightarrow> (False, h)
      | Some nodes \<Rightarrow> (True, h\<lparr>mh_heap := nodes, mh_capacity := capacity\<rparr>))"

definition heap_isFull :: "MaxHeap \<Rightarrow> bool" where
  "heap_isFull h = (mh_size h = mh_capacity h)"

definition heap_isEmpty :: "MaxHeap \<Rightarrow> bool" where
  "heap_isEmpty h = (mh_size h = 0)"

definition heap_getSize :: "MaxHeap \<Rightarrow> U32" where
  "heap_getSize h = mh_size h"

definition get_node :: "Node list \<Rightarrow> U32 \<Rightarrow> Node option" where
  "get_node a i = (if unat i < length a then Some (a ! unat i) else None)"

definition set_node :: "Node list \<Rightarrow> U32 \<Rightarrow> Node \<Rightarrow> Node list option" where
  "set_node a i x = (if unat i < length a then Some (a[unat i := x]) else None)"

text \<open>The loop of \<open>push\<close>: the new index, the iterations counted and the array.\<close>

function push_loop :: "I32 \<Rightarrow> U32 \<Rightarrow> Node list \<Rightarrow> U32 \<Rightarrow> U32 \<Rightarrow> (U32 \<times> U32 \<times> Node list) option" where
  "push_loop val maxIter a index maxCount =
     (if index \<noteq> 0 \<and> maxCount < maxIter then
        (let parent = PARENT index in
         if \<not> parent < index then None
         else do {
           p \<leftarrow> get_node a parent;
           if sint val \<le> sint (nd_value p) then Some (index, maxCount, a)
           else do {
             a \<leftarrow> set_node a index p;
             push_loop val maxIter a parent (maxCount + 1)
           }
         })
      else Some (index, maxCount, a))"
  by pat_completeness auto

termination
  by (relation "measure (\<lambda>(val, maxIter, a, index, maxCount). unat index)")
    (auto simp: word_less_nat_alt)

declare push_loop.simps [simp del]

definition heap_push :: "I32 \<Rightarrow> U32 \<Rightarrow> MaxHeap \<Rightarrow> (bool \<times> MaxHeap) option" where
  "heap_push val nid h =
     (if heap_isFull h then Some (False, h)
      else do {
        let maxIter = mh_size h + 1;
        (index, maxCount, a) \<leftarrow> push_loop val maxIter (mh_heap h) (mh_size h) 0;
        fw_assert (maxCount < maxIter);
        fw_assert (index \<le> mh_size h);
        a \<leftarrow> set_node a index (Node val (mh_order h) nid);
        Some (True, h\<lparr>mh_heap := a, mh_size := mh_size h + 1, mh_order := mh_order h + 1\<rparr>)
      })"

definition heap_max :: "U32 \<Rightarrow> U32 \<Rightarrow> Node list \<Rightarrow> U32 \<Rightarrow> U32 \<Rightarrow> U32 option" where
  "heap_max sz order a i j = do {
     fw_assert (i < sz);
     fw_assert (j < sz);
     x \<leftarrow> get_node a i;
     y \<leftarrow> get_node a j;
     if nd_value x = nd_value y then
       (let aAge = order - nd_order x; bAge = order - nd_order y in
        Some (if aAge > bAge then i else j))
     else Some (if sint (nd_value x) > sint (nd_value y) then i else j)
   }"

definition heap_swap :: "U32 \<Rightarrow> Node list \<Rightarrow> U32 \<Rightarrow> U32 \<Rightarrow> Node list option" where
  "heap_swap sz a i j = do {
     fw_assert (i < sz);
     fw_assert (j < sz);
     x \<leftarrow> get_node a i;
     y \<leftarrow> get_node a j;
     a \<leftarrow> set_node a i y;
     set_node a j x
   }"

text \<open>
  One round of \<open>heapify\<close>: the index the loop goes on with, or nothing when it stops. The loop
  never counts its iterations, so its bound \<open>maxCount < maxIter\<close> does not change.
\<close>

definition heapify_round :: "U32 \<Rightarrow> U32 \<Rightarrow> Node list \<Rightarrow> U32 \<Rightarrow> U32 option option" where
  "heapify_round sz order a index = do {
     let left = LCHILD index;
     let right = RCHILD index;
     fw_assert (left > index);
     fw_assert (right > left);
     if left \<ge> sz then Some None
     else do {
       largest \<leftarrow> heap_max sz order a left index;
       largest \<leftarrow> (if right < sz then heap_max sz order a right largest else Some largest);
       Some (if largest = index then None else Some largest)
     }
   }"

lemma heap_max_cases: "heap_max sz order a i j = Some k \<Longrightarrow> k = i \<or> k = j"
  by (auto simp: heap_max_def Let_def split: bind_splits if_splits)

lemma heapify_round_down: "heapify_round sz order a index = Some (Some k) \<Longrightarrow> index < k"
  by (auto simp: heapify_round_def Let_def split: bind_splits if_splits dest!: heap_max_cases)

function heapify_loop :: "U32 \<Rightarrow> U32 \<Rightarrow> U32 \<Rightarrow> Node list \<Rightarrow> U32 \<Rightarrow> (U32 \<times> Node list) option" where
  "heapify_loop sz order maxIter a index =
     (if index \<le> sz \<and> 0 < maxIter then
        (case heapify_round sz order a index of
           None \<Rightarrow> None
         | Some None \<Rightarrow> Some (index, a)
         | Some (Some largest) \<Rightarrow> do {
             a \<leftarrow> heap_swap sz a index largest;
             heapify_loop sz order maxIter a largest
           })
      else Some (index, a))"
  by pat_completeness auto

termination
  by (relation "measure (\<lambda>(sz, order, maxIter, a, index). 4294967296 - unat index)")
    (auto simp: word_less_nat_alt dest!: heapify_round_down intro: diff_less_mono2)

declare heapify_loop.simps [simp del]

definition heapify :: "MaxHeap \<Rightarrow> MaxHeap option" where
  "heapify h = do {
     let maxIter = mh_size h + 1;
     (index, a) \<leftarrow> heapify_loop (mh_size h) (mh_order h) maxIter (mh_heap h) 0;
     fw_assert (0 < maxIter);
     fw_assert (index \<le> mh_size h);
     Some (h\<lparr>mh_heap := a\<rparr>)
   }"

definition heap_pop :: "MaxHeap \<Rightarrow> ((I32 \<times> U32) option \<times> MaxHeap) option" where
  "heap_pop h =
     (if heap_isEmpty h then Some (None, h)
      else do {
        top \<leftarrow> get_node (mh_heap h) 0;
        let index = mh_size h - 1;
        l \<leftarrow> get_node (mh_heap h) index;
        a \<leftarrow> set_node (mh_heap h) 0 l;
        h \<leftarrow> heapify (h\<lparr>mh_heap := a, mh_size := mh_size h - 1\<rparr>);
        Some (Some (nd_value top, nd_id top), h)
      })"

section \<open>The order of the nodes\<close>

text \<open>
  A node is before another when it leaves the heap first: higher signed value, then the earlier
  push. Nodes of one heap differ in their push counts, so the identifier never decides.
\<close>

definition node_key :: "Node \<Rightarrow> int \<times> int \<times> int" where
  "node_key x = (- sint (nd_value x), uint (nd_order x), uint (nd_id x))"

lemma node_key_inject: "node_key x = node_key y \<longleftrightarrow> x = y"
  by (cases x; cases y) (auto simp: node_key_def sint_eq_iff simp flip: word_uint_eq_iff)

instantiation Node :: linorder
begin

definition less_eq_Node :: "Node \<Rightarrow> Node \<Rightarrow> bool" where
  "less_eq_Node x y = (node_key x \<le> node_key y)"

definition less_Node :: "Node \<Rightarrow> Node \<Rightarrow> bool" where
  "less_Node x y = (node_key x < node_key y)"

instance
proof
  fix x y z :: Node
  show "x < y \<longleftrightarrow> x \<le> y \<and> \<not> y \<le> x" unfolding less_eq_Node_def less_Node_def by (rule less_le_not_le)
  show "x \<le> x" unfolding less_eq_Node_def by (rule order_refl)
  show "x \<le> y \<Longrightarrow> y \<le> z \<Longrightarrow> x \<le> z" unfolding less_eq_Node_def by (rule order_trans)
  show "x \<le> y \<Longrightarrow> y \<le> x \<Longrightarrow> x = y" unfolding less_eq_Node_def
    using node_key_inject order_antisym by blast
  show "x \<le> y \<or> y \<le> x" unfolding less_eq_Node_def by (rule linear)
qed

end

lemma older_le_iff: "nd_order p < nd_order x \<Longrightarrow> p \<le> x \<longleftrightarrow> sint (nd_value x) \<le> sint (nd_value p)"
  by (auto simp: less_eq_Node_def node_key_def less_eq_prod_def word_less_def)

lemma node_less_iff:
  assumes "nd_order x \<noteq> nd_order y"
  shows "x < y \<longleftrightarrow> sint (nd_value y) < sint (nd_value x) \<or>
    nd_value x = nd_value y \<and> nd_order x < nd_order y"
proof -
  have "uint (nd_order x) \<noteq> uint (nd_order y)" using assms by (simp add: word_uint_eq_iff)
  then show ?thesis
    by (auto simp: less_Node_def node_key_def less_prod_def less_eq_prod_def word_less_def sint_eq_iff)
qed

section \<open>Sifting up\<close>

lemma unat_PARENT: "0 < unat i \<Longrightarrow> unat (PARENT i) = par (unat i)"
  by (simp add: PARENT_def par_def unat_div unat_dec)

lemma get_node_in [simp]: "unat i < length a \<Longrightarrow> get_node a i = Some (a ! unat i)"
  by (simp add: get_node_def)

lemma set_node_in [simp]: "unat i < length a \<Longrightarrow> set_node a i x = Some (a[unat i := x])"
  by (simp add: set_node_def)

lemma take_swap_at:
  "i < n \<Longrightarrow> j < n \<Longrightarrow> n \<le> length xs \<Longrightarrow> take n (swap_at xs i j) = swap_at (take n xs) i j"
  by (simp add: swap_at_def take_update_swap)

lemma push_loop_ok:
  assumes "up_hole (take (Suc n) (a[unat index := x])) (unat index)"
    and "unat index \<le> n" "n < length a" "val = nd_value x"
    and "unat maxCount + unat index \<le> n" "unat maxIter = Suc n"
    and "\<And>k. k \<le> n \<Longrightarrow> k \<noteq> unat index \<Longrightarrow> nd_order (a ! k) < nd_order x"
  shows "\<exists>i c b. push_loop val maxIter a index maxCount = Some (i, c, b) \<and> unat i \<le> n \<and>
    c < maxIter \<and> length b = length a \<and> heap_ordered (take (Suc n) (b[unat i := x])) \<and>
    mset (take (Suc n) (b[unat i := x])) = mset (take (Suc n) (a[unat index := x]))"
  using assms
proof (induction val maxIter a index maxCount rule: push_loop.induct)
  case (1 val maxIter a index maxCount)
  let ?g = "take (Suc n) (a[unat index := x])" and ?p = "par (unat index)"
  have run: "maxCount < maxIter" using 1(6,7) by (simp add: word_less_nat_alt)
  show ?case
  proof (cases "index = 0")
    case True
    then have "heap_ordered ?g" using 1(2) by (auto intro: up_done)
    then show ?thesis using True run 1(3) by (subst push_loop.simps) auto
  next
    case False
    then have pos: "0 < unat index" by (simp add: unat_gt_0)
    have p: "unat (PARENT index) = ?p" using pos by (rule unat_PARENT)
    have lt: "?p < unat index" using pos by (rule par_less)
    then have less: "PARENT index < index" by (simp add: word_less_nat_alt p)
    have g: "?g ! unat index = x" "?g ! ?p = a ! ?p" using 1(3,4) lt by auto
    have le: "a ! ?p \<le> x \<longleftrightarrow> sint val \<le> sint (nd_value (a ! ?p))"
      using older_le_iff 1(8) [of ?p] lt 1(3,5) by auto
    show ?thesis
    proof (cases "sint val \<le> sint (nd_value (a ! ?p))")
      case True
      then have "heap_ordered ?g" using 1(2) g le by (auto intro: up_done)
      then show ?thesis using True False run less 1(3,4) lt by (subst push_loop.simps) (auto simp: p)
    next
      case nle: False
      let ?b = "a[unat index := a ! ?p]"
      have sw: "take (Suc n) (?b[?p := x]) = swap_at ?g (unat index) ?p"
        using 1(3,4) lt by (simp add: swap_at_def take_update_swap list_update_swap)
      have in_g: "unat index < length ?g" "?p < length ?g" using 1(3,4) lt by auto
      have up: "up_hole (take (Suc n) (?b[?p := x])) ?p"
        unfolding sw using in_g g nle le by (intro up_step 1(2) pos) auto
      have cnt: "unat (maxCount + 1) = Suc (unat maxCount)"
        using 1(6,7) pos unat_add_small [of maxCount 1] unat_lt32 [of maxIter] by simp
      have "\<exists>i c b. push_loop val maxIter ?b (PARENT index) (maxCount + 1) = Some (i, c, b) \<and>
        unat i \<le> n \<and> c < maxIter \<and> length b = length ?b \<and> heap_ordered (take (Suc n) (b[unat i := x])) \<and>
        mset (take (Suc n) (b[unat i := x])) = mset (take (Suc n) (?b[unat (PARENT index) := x]))"
      proof (rule "1.IH")
        show "index \<noteq> 0 \<and> maxCount < maxIter" using False run by simp
        show "\<not> \<not> PARENT index < index" using less by simp
        show "get_node a (PARENT index) = Some (a ! ?p)" using 1(3,4) lt by (simp add: p)
        show "\<not> sint val \<le> sint (nd_value (a ! ?p))" by (rule nle)
        show "set_node a index (a ! ?p) = Some ?b" using 1(3,4) by simp
        show "up_hole (take (Suc n) (?b[unat (PARENT index) := x])) (unat (PARENT index))"
          using up by (simp add: p)
        show "nd_order (?b ! k) < nd_order x" if "k \<le> n" "k \<noteq> unat (PARENT index)" for k
          using that 1(8) lt 1(3,4) by (auto simp: nth_list_update p)
      qed (use 1 lt in \<open>auto simp: p cnt\<close>)
      then show ?thesis
        using False run less nle 1(3,4) lt sw in_g by (subst push_loop.simps) (auto simp: p)
    qed
  qed
qed

section \<open>Sifting down\<close>

lemma heap_max_ok:
  assumes "i < sz" "j < sz" "unat sz \<le> length a"
    and "nd_order (a ! unat i) < order" "nd_order (a ! unat j) < order"
    and "nd_order (a ! unat i) \<noteq> nd_order (a ! unat j)"
  shows "heap_max sz order a i j = Some (if a ! unat i < a ! unat j then i else j)"
proof -
  have in_a: "unat i < length a" "unat j < length a" using assms(1-3) by (auto simp: word_less_nat_alt)
  have "order - nd_order (a ! unat i) > order - nd_order (a ! unat j) \<longleftrightarrow>
      nd_order (a ! unat i) < nd_order (a ! unat j)"
    using assms(4,5) unfolding word_less_nat_alt by (simp add: unat_sub_small) linarith
  then show ?thesis
    using assms in_a by (auto simp: heap_max_def Let_def node_less_iff)
qed

lemma unat_children:
  assumes "unat i < 2147483647"
  shows "unat (LCHILD i) = 2 * unat i + 1" "unat (RCHILD i) = 2 * unat i + 2"
  using assms by (simp_all add: LCHILD_def RCHILD_def unat_word_ariths)

lemma heapify_round_ok:
  fixes a :: "Node list"
  defines "g \<equiv> \<lambda>sz. take (unat sz) a"
  assumes n: "unat index \<le> unat sz" "unat sz \<le> length a" "unat sz < 2147483647"
    and d: "distinct (map nd_order (g sz))" "\<forall>x \<in> set (g sz). nd_order x < order"
  shows "\<exists>r. heapify_round sz order a index = Some r \<and>
    (case r of
       None \<Rightarrow> \<forall>j. 0 < j \<longrightarrow> j < unat sz \<longrightarrow> par j = unat index \<longrightarrow> a ! unat index \<le> a ! j
     | Some l \<Rightarrow> par (unat l) = unat index \<and> 0 < unat l \<and> unat l < unat sz \<and> a ! unat l \<le> a ! unat index \<and>
         (\<forall>j. 0 < j \<longrightarrow> j < unat sz \<longrightarrow> par j = unat index \<longrightarrow> a ! unat l \<le> a ! j))"
proof -
  let ?i = "unat index"
  have ch: "unat (LCHILD index) = 2 * ?i + 1" "unat (RCHILD index) = 2 * ?i + 2"
    using unat_children [of index] n by auto
  have asserts: "LCHILD index > index" "RCHILD index > LCHILD index"
    by (simp_all add: word_less_nat_alt ch)
  have ord: "nd_order (a ! k) < order" if "k < unat sz" for k
    using bspec [OF d(2) [unfolded g_def] nth_in_take [OF that n(2)]] .
  have fin: ?thesis
    if run: "heapify_round sz order a index = Some (if k = index then None else Some k)"
      and child: "k \<noteq> index \<Longrightarrow> par (unat k) = ?i \<and> 0 < unat k \<and> unat k < unat sz"
      and first: "a ! unat k \<le> a ! ?i" "\<And>j. 0 < j \<Longrightarrow> j < unat sz \<Longrightarrow> par j = ?i \<Longrightarrow> a ! unat k \<le> a ! j" for k
    using first child unfolding run by (cases "k = index") simp_all
  have ne: "nd_order (a ! k) \<noteq> nd_order (a ! m)" if "k < unat sz" "m < unat sz" "k \<noteq> m" for k m
    using d(1) that n(2) by (auto simp: g_def distinct_conv_nth)
  show ?thesis
  proof (cases "2 * ?i + 1 < unat sz")
    case False
    then have "LCHILD index \<ge> sz" by (simp add: word_le_nat_alt ch)
    then show ?thesis using False asserts
      by (auto simp: heapify_round_def Let_def par_child)
  next
    case True
    then have l: "LCHILD index < sz" "index < sz" by (simp_all add: word_less_nat_alt ch)
    then have nl: "\<not> LCHILD index \<ge> sz" by simp
    have m1: "heap_max sz order a (LCHILD index) index =
        Some (if a ! (2 * ?i + 1) < a ! ?i then LCHILD index else index)"
      using heap_max_ok [OF l n(2)] ord ne True by (simp add: ch)
    let ?m = "if a ! (2 * ?i + 1) < a ! ?i then LCHILD index else index"
    show ?thesis
    proof (cases "2 * ?i + 2 < unat sz")
      case False
      then have "\<not> RCHILD index < sz" by (simp add: word_less_nat_alt ch)
      then have run: "heapify_round sz order a index = Some (if ?m = index then None else Some ?m)"
        using asserts nl m1 by (simp add: heapify_round_def Let_def)
      have child: "j = 2 * ?i + 1" if "0 < j" "j < unat sz" "par j = ?i" for j
        using that False by (auto simp: par_child)
      have min: "a ! unat ?m \<le> a ! ?i" "a ! unat ?m \<le> a ! (2 * ?i + 1)" by (auto simp: ch)
      have "par (unat ?m) = ?i \<and> 0 < unat ?m \<and> unat ?m < unat sz" if "?m \<noteq> index"
        using that True by (auto simp: ch par_def split: if_splits)
      moreover have "a ! unat ?m \<le> a ! j" if "0 < j" "j < unat sz" "par j = ?i" for j
        using child [OF that] min(2) by simp
      ultimately show ?thesis by (rule fin [OF run _ min(1)])
    next
      case r: True
      then have rl: "RCHILD index < sz" "?m < sz" using l by (auto simp: word_less_nat_alt ch)
      have um: "unat ?m < unat sz" "unat ?m \<noteq> 2 * ?i + 2" using True by (auto simp: ch)
      have m2: "heap_max sz order a (RCHILD index) ?m =
          Some (if a ! (2 * ?i + 2) < a ! unat ?m then RCHILD index else ?m)"
        using heap_max_ok [OF rl n(2)] ord ne r um by (simp add: ch)
      have child: "j = 2 * ?i + 1 \<or> j = 2 * ?i + 2" if "0 < j" "par j = ?i" for j
        using that by (auto simp: par_child)
      have neq: "RCHILD index \<noteq> index" "LCHILD index \<noteq> index" using asserts by auto
      let ?k = "if a ! (2 * ?i + 2) < a ! unat ?m then RCHILD index else ?m"
      have run: "heapify_round sz order a index = Some (if ?k = index then None else Some ?k)"
        using asserts nl rl(1) m1 m2 by (simp add: heapify_round_def Let_def)
      have min: "a ! unat ?k \<le> a ! ?i" "a ! unat ?k \<le> a ! (2 * ?i + 1)" "a ! unat ?k \<le> a ! (2 * ?i + 2)"
        by (auto simp: ch)
      have "par (unat ?k) = ?i \<and> 0 < unat ?k \<and> unat ?k < unat sz" if "?k \<noteq> index"
        using that True r by (auto simp: ch par_def split: if_splits)
      moreover have "a ! unat ?k \<le> a ! j" if "0 < j" "j < unat sz" "par j = ?i" for j
        using child [OF that(1,3)] min(2,3) by metis
      ultimately show ?thesis by (rule fin [OF run _ min(1)])
    qed
  qed
qed

lemma heap_swap_ok:
  assumes "i < sz" "j < sz" "unat sz \<le> length a"
  shows "heap_swap sz a i j = Some (swap_at a (unat i) (unat j))"
  using assms by (auto simp: heap_swap_def swap_at_def word_less_nat_alt)

lemma heapify_loop_ok:
  assumes "down_hole (take (unat sz) a) (unat index)"
    and "unat index \<le> unat sz" "unat sz \<le> length a" "unat sz < 2147483647" "0 < maxIter"
    and "distinct (map nd_order (take (unat sz) a))" "\<forall>x \<in> set (take (unat sz) a). nd_order x < order"
  shows "\<exists>i b. heapify_loop sz order maxIter a index = Some (i, b) \<and> i \<le> sz \<and>
    length b = length a \<and> heap_ordered (take (unat sz) b) \<and>
    mset (take (unat sz) b) = mset (take (unat sz) a)"
  using assms
proof (induction sz order maxIter a index rule: heapify_loop.induct)
  case (1 sz order maxIter a index)
  let ?g = "take (unat sz) a"
  have go: "index \<le> sz \<and> 0 < maxIter" using 1(3,6) by (simp add: word_le_nat_alt)
  obtain r where r: "heapify_round sz order a index = Some r" and
    post: "case r of
       None \<Rightarrow> \<forall>j. 0 < j \<longrightarrow> j < unat sz \<longrightarrow> par j = unat index \<longrightarrow> a ! unat index \<le> a ! j
     | Some l \<Rightarrow> par (unat l) = unat index \<and> 0 < unat l \<and> unat l < unat sz \<and> a ! unat l \<le> a ! unat index \<and>
         (\<forall>j. 0 < j \<longrightarrow> j < unat sz \<longrightarrow> par j = unat index \<longrightarrow> a ! unat l \<le> a ! j)"
    using heapify_round_ok [OF 1(3-5,7,8)] by blast
  show ?case
  proof (cases r)
    case None
    have "heap_ordered ?g"
    proof (rule down_done [OF 1(2)])
      show "?g ! unat index \<le> ?g ! j" if "0 < j" "j < length ?g" "par j = unat index" for j
        using post None that par_less [of j] 1(4) by simp
    qed
    then show ?thesis using None r go by (subst heapify_loop.simps) simp
  next
    case (Some l)
    let ?b = "swap_at a (unat index) (unat l)"
    note l = post [unfolded Some option.case]
    have i: "unat index < unat l" using l par_less [of "unat l"] by auto
    have bounds: "index < sz" "l < sz" "unat index < length ?g" "unat l < length ?g"
      using l i 1(4) by (auto simp: word_less_nat_alt)
    have sw: "heap_swap sz a index l = Some ?b" by (rule heap_swap_ok [OF bounds(1,2) 1(4)])
    have tk: "take (unat sz) ?b = swap_at ?g (unat index) (unat l)"
      using l i 1(4) by (intro take_swap_at) auto
    have ms: "mset (take (unat sz) ?b) = mset ?g" unfolding tk by (rule mset_swap_at [OF bounds(3,4)])
    have dist: "distinct (map nd_order (take (unat sz) ?b))"
      using 1(7) by (rule mset_eq_imp_distinct_iff [THEN iffD2, rotated]) (simp add: ms mset_map)
    have set: "set (take (unat sz) ?b) = set ?g" by (rule mset_eq_setD [OF ms])
    have "\<exists>i b. heapify_loop sz order maxIter ?b l = Some (i, b) \<and> i \<le> sz \<and> length b = length ?b \<and>
        heap_ordered (take (unat sz) b) \<and> mset (take (unat sz) b) = mset (take (unat sz) ?b)"
    proof (rule "1.IH")
      show "down_hole (take (unat sz) ?b) (unat l)"
        unfolding tk using l i 1(4) bounds by (intro down_step 1(2)) auto
      show "unat sz \<le> length ?b" using 1(4) by simp
    qed (use go r Some sw l 1(5,6) dist set 1(8) in auto)
    then show ?thesis using go r Some sw ms by (subst heapify_loop.simps) simp
  qed
qed

section \<open>The heap as a list in leaving order\<close>

definition heap_nodes :: "MaxHeap \<Rightarrow> Node list" where
  "heap_nodes h = take (unat (mh_size h)) (mh_heap h)"

definition node_entry :: "Node \<Rightarrow> I32 \<times> U32" where
  "node_entry x = (nd_value x, nd_id x)"

definition heap_entries :: "MaxHeap \<Rightarrow> (I32 \<times> U32) list" where
  "heap_entries h = map node_entry (sort (heap_nodes h))"

text \<open>
  A good heap: the array has the capacity's size, the nodes in use are heap ordered, and their
  push counts are distinct and below the counter. \<open>n\<close> is the number of pushes still to come
  before the counter wraps.
\<close>

definition heap_wf :: "nat \<Rightarrow> MaxHeap \<Rightarrow> bool" where
  "heap_wf n h \<longleftrightarrow> length (mh_heap h) = unat (mh_capacity h) \<and> unat (mh_capacity h) < 2147483647 \<and>
     mh_size h \<le> mh_capacity h \<and> heap_ordered (heap_nodes h) \<and>
     distinct (map nd_order (heap_nodes h)) \<and> (\<forall>x \<in> set (heap_nodes h). nd_order x < mh_order h) \<and>
     unat (mh_order h) + n < 4294967296"

text \<open>Insertion behind every entry that is not smaller.\<close>

fun pq_insert :: "I32 \<times> 'b \<Rightarrow> (I32 \<times> 'b) list \<Rightarrow> (I32 \<times> 'b) list" where
  "pq_insert e [] = [e]"
| "pq_insert e (q # qs) = (if sint (fst e) \<le> sint (fst q) then q # pq_insert e qs else e # q # qs)"

lemma heap_wf_mono: "heap_wf n h \<Longrightarrow> m \<le> n \<Longrightarrow> heap_wf m h"
  by (simp add: heap_wf_def)

lemma insort_entries:
  assumes "\<forall>y \<in> set ys. nd_order y < nd_order x"
  shows "map node_entry (insort x ys) = pq_insert (node_entry x) (map node_entry ys)"
  using assms
proof (induction ys)
  case (Cons y ys)
  have "x \<le> y \<longleftrightarrow> \<not> sint (nd_value x) \<le> sint (nd_value y)"
  proof -
    have "nd_order y < nd_order x" using Cons.prems by simp
    moreover from this have "x \<noteq> y" by auto
    ultimately show ?thesis using older_le_iff [of y x] by (metis linorder_linear order_antisym)
  qed
  then show ?case using Cons by (simp add: node_entry_def)
qed simp

lemma heap_push_ok:
  assumes "heap_wf (Suc n) h"
  shows "\<exists>h'. heap_push val nid h = Some (\<not> heap_isFull h, h') \<and> heap_wf n h' \<and>
    mh_capacity h' = mh_capacity h \<and>
    heap_entries h' = (if heap_isFull h then heap_entries h else pq_insert (val, nid) (heap_entries h))"
proof (cases "heap_isFull h")
  case True
  then show ?thesis using assms heap_wf_mono [OF assms, of n] by (simp add: heap_push_def)
next
  case False
  let ?n = "unat (mh_size h)" and ?x = "Node val (mh_order h) nid"
  have lt: "?n < unat (mh_capacity h)" using assms False
    by (auto simp: heap_wf_def heap_isFull_def word_le_nat_alt word_unat_eq_iff)
  have len: "length (mh_heap h) = unat (mh_capacity h)" "unat (mh_capacity h) < 2147483647"
    using assms by (simp_all add: heap_wf_def)
  have take: "take (Suc ?n) ((mh_heap h)[?n := y]) = heap_nodes h @ [y]" for y
    using lt len by (simp add: heap_nodes_def take_Suc_conv_app_nth)
  have inc: "unat (mh_size h + 1) = Suc ?n" using lt len by (simp add: unat_add_small)
  have ord: "unat (mh_order h + 1) = Suc (unat (mh_order h))"
    using assms by (simp add: heap_wf_def unat_add_small)
  have old: "nd_order (mh_heap h ! k) < mh_order h" if "k < ?n" for k
  proof -
    have "mh_heap h ! k \<in> set (heap_nodes h)" using that lt len by (auto simp: heap_nodes_def in_set_conv_nth)
    then show ?thesis using assms by (simp add: heap_wf_def)
  qed
  have hole: "up_hole (take (Suc ?n) ((mh_heap h)[?n := ?x])) ?n"
    unfolding take using assms lt len snoc_up_hole [of "heap_nodes h" ?x]
    by (simp add: heap_wf_def heap_nodes_def min_absorb2)
  have "\<exists>i c b. push_loop val (mh_size h + 1) (mh_heap h) (mh_size h) 0 = Some (i, c, b) \<and> unat i \<le> ?n \<and>
    c < mh_size h + 1 \<and> length b = length (mh_heap h) \<and> heap_ordered (take (Suc ?n) (b[unat i := ?x])) \<and>
    mset (take (Suc ?n) (b[unat i := ?x])) = mset (take (Suc ?n) ((mh_heap h)[?n := ?x]))"
    by (rule push_loop_ok [OF hole]) (use lt len inc old in auto)
  then obtain i c b where b: "push_loop val (mh_size h + 1) (mh_heap h) (mh_size h) 0 = Some (i, c, b)"
    "unat i \<le> ?n" "c < mh_size h + 1" "length b = length (mh_heap h)"
    "heap_ordered (take (Suc ?n) (b[unat i := ?x]))"
    "mset (take (Suc ?n) (b[unat i := ?x])) = mset (heap_nodes h @ [?x])"
    unfolding take by blast
  let ?h = "h\<lparr>mh_heap := b[unat i := ?x], mh_size := mh_size h + 1, mh_order := mh_order h + 1\<rparr>"
  have run: "heap_push val nid h = Some (True, ?h)"
    using False b lt len by (simp add: heap_push_def Let_def word_le_nat_alt)
  have nodes: "heap_nodes ?h = take (Suc ?n) (b[unat i := ?x])" by (simp add: heap_nodes_def inc)
  have dist: "distinct (map nd_order (heap_nodes h @ [?x]))" using assms by (auto simp: heap_wf_def)
  have "heap_wf n ?h"
  proof -
    have "distinct (map nd_order (heap_nodes ?h))"
      using dist by (rule mset_eq_imp_distinct_iff [THEN iffD2, rotated]) (simp add: nodes b(6))
    moreover have "set (heap_nodes ?h) = insert ?x (set (heap_nodes h))"
      using mset_eq_setD [OF b(6)] by (simp add: nodes)
    moreover have "nd_order y < mh_order h + 1" if "nd_order y < mh_order h \<or> y = ?x" for y
      using that ord by (auto simp: word_less_nat_alt)
    moreover have "mh_order h < mh_order h + 1" by (simp add: word_less_nat_alt ord)
    ultimately show ?thesis
      using assms b(4,5) lt inc ord by (auto simp: heap_wf_def nodes word_le_nat_alt)
  qed
  moreover have "heap_entries ?h = pq_insert (val, nid) (heap_entries h)"
  proof -
    have m: "mset (?x # heap_nodes h) = mset (heap_nodes ?h)" using b(6) by (simp add: nodes)
    have "sort (heap_nodes ?h) = sort (?x # heap_nodes h)"
      by (rule properties_for_sort) (simp_all only: m mset_sort sorted_sort)
    also have "\<dots> = insort ?x (sort (heap_nodes h))" by simp
    finally show ?thesis
      using insort_entries [of "sort (heap_nodes h)" ?x] assms
      by (simp add: heap_entries_def heap_wf_def node_entry_def)
  qed
  ultimately show ?thesis using run False by simp
qed

lemma heap_pop_ok:
  assumes "heap_wf n h"
  shows "\<exists>h'. heap_pop h = Some (case heap_entries h of [] \<Rightarrow> None | e # _ \<Rightarrow> Some e, h') \<and>
    heap_wf n h' \<and> mh_capacity h' = mh_capacity h \<and> mh_size h' = mh_size h - (if heap_isEmpty h then 0 else 1) \<and>
    heap_entries h' = tl (heap_entries h)"
proof (cases "heap_isEmpty h")
  case True
  then have "heap_entries h = []" by (simp add: heap_entries_def heap_nodes_def heap_isEmpty_def)
  then show ?thesis using True assms by (simp add: heap_pop_def)
next
  case False
  let ?n = "unat (mh_size h)" and ?a = "mh_heap h"
  have pos: "0 < ?n" using False by (simp add: heap_isEmpty_def unat_gt_0)
  have len: "?n \<le> length ?a" "?n < 2147483647" "length ?a = unat (mh_capacity h)"
    using assms by (auto simp: heap_wf_def word_le_nat_alt)
  have dec: "unat (mh_size h - 1) = ?n - 1" using pos by (rule unat_dec)
  let ?l = "?a ! (?n - 1)"
  let ?b = "?a[0 := ?l]"
  let ?g = "take (?n - 1) ?b"
  have nodes: "length (heap_nodes h) = ?n" "heap_nodes h ! 0 = ?a ! 0"
    using len pos by (simp_all add: heap_nodes_def)
  have g: "?g = (take (?n - 1) (heap_nodes h))[0 := ?l]"
    by (simp add: heap_nodes_def take_update_swap min_def)
  have down: "down_hole ?g 0" unfolding g using assms by (intro root_down_hole) (simp add: heap_wf_def)
  have ms: "mset ?g + {#?a ! 0#} = mset (heap_nodes h)"
  proof (cases "?n = 1")
    case True
    then show ?thesis using nodes by (cases "heap_nodes h") auto
  next
    case no: False
    have split: "heap_nodes h = take (?n - 1) ?a @ [?l]"
      using take_Suc_conv_app_nth [of "?n - 1" ?a] pos len by (simp add: heap_nodes_def)
    obtain r rs where r: "take (?n - 1) ?a = r # rs" using no pos len by (cases "take (?n - 1) ?a") auto
    then have "r = ?a ! 0" using no pos nth_take [of 0 "?n - 1" ?a] by simp
    then show ?thesis using split r by (simp add: take_update_swap)
  qed
  have sub: "set ?g \<subseteq> set (heap_nodes h)" using ms by (metis mset_subset_eq_add_left set_mset_mono set_mset_mset)
  have dist: "distinct (map nd_order ?g)"
  proof -
    have "mset (?a ! 0 # ?g) = mset (heap_nodes h)" using ms by simp
    then have "mset (map nd_order (?a ! 0 # ?g)) = mset (map nd_order (heap_nodes h))"
      by (simp only: mset_map)
    then have "distinct (map nd_order (?a ! 0 # ?g))"
      using assms mset_eq_imp_distinct_iff unfolding heap_wf_def by blast
    then show ?thesis by simp
  qed
  have less: "\<forall>x \<in> set ?g. nd_order x < mh_order h" using assms sub by (auto simp: heap_wf_def)
  have iter: "0 < mh_size h - 1 + 1" using pos by (simp add: word_less_nat_alt)
  have loop: "\<exists>i b. heapify_loop (mh_size h - 1) (mh_order h) (mh_size h - 1 + 1) ?b 0 = Some (i, b) \<and>
    i \<le> mh_size h - 1 \<and> length b = length ?b \<and> heap_ordered (take (unat (mh_size h - 1)) b) \<and>
    mset (take (unat (mh_size h - 1)) b) = mset (take (unat (mh_size h - 1)) ?b)"
    by (rule heapify_loop_ok) (use down dist less iter len in \<open>simp_all add: dec\<close>)
  then obtain i b where b: "heapify_loop (mh_size h - 1) (mh_order h) (mh_size h - 1 + 1) ?b 0 = Some (i, b)"
    "i \<le> mh_size h - 1" "length b = length ?a" "heap_ordered (take (?n - 1) b)"
    "mset (take (?n - 1) b) = mset ?g"
    by (auto simp: dec)
  let ?h = "h\<lparr>mh_heap := b, mh_size := mh_size h - 1\<rparr>"
  have idx: "get_node ?a 0 = Some (?a ! 0)" "get_node ?a (mh_size h - 1) = Some ?l"
    "set_node ?a 0 ?l = Some ?b"
    using pos len by (simp_all add: dec)
  have run: "heap_pop h = Some (Some (node_entry (?a ! 0)), ?h)"
    unfolding heap_pop_def heapify_def Let_def using False idx b(1,2) iter
    by (simp add: node_entry_def)
  have new: "heap_nodes ?h = take (?n - 1) b" by (simp add: heap_nodes_def dec)
  have wf: "heap_wf n ?h"
  proof -
    have "distinct (map nd_order (heap_nodes ?h))"
      using dist by (rule mset_eq_imp_distinct_iff [THEN iffD2, rotated]) (simp only: new mset_map b(5))
    moreover have "set (heap_nodes ?h) = set ?g" using mset_eq_setD [OF b(5)] by (simp add: new)
    ultimately show ?thesis
      using assms b(3,4) less len dec by (auto simp: heap_wf_def new word_le_nat_alt)
  qed
  have "sort (heap_nodes h) = heap_nodes h ! 0 # sort (heap_nodes ?h)"
  proof (rule sort_root)
    show "mset (heap_nodes ?h) + {#heap_nodes h ! 0#} = mset (heap_nodes h)"
      using ms by (simp only: new b(5) nodes(2))
  qed (use assms nodes pos in \<open>auto simp: heap_wf_def\<close>)
  then have "heap_entries h = node_entry (?a ! 0) # heap_entries ?h"
    by (simp add: heap_entries_def nodes)
  then show ?thesis using run wf False by simp
qed

section \<open>Refinement of a stable priority queue\<close>

datatype heap_op = HeapPush I32 U32 | HeapPop | HeapIsFull | HeapIsEmpty | HeapGetSize
datatype heap_obs = ObsPushed bool | ObsPopped "(I32 \<times> U32) option" | ObsFlag bool | ObsSize nat

fun heap_step :: "heap_op \<Rightarrow> MaxHeap \<Rightarrow> (heap_obs \<times> MaxHeap) option" where
  "heap_step (HeapPush v nid) h = do { (ok, h) \<leftarrow> heap_push v nid h; Some (ObsPushed ok, h) }"
| "heap_step HeapPop h = do { (r, h) \<leftarrow> heap_pop h; Some (ObsPopped r, h) }"
| "heap_step HeapIsFull h = Some (ObsFlag (heap_isFull h), h)"
| "heap_step HeapIsEmpty h = Some (ObsFlag (heap_isEmpty h), h)"
| "heap_step HeapGetSize h = Some (ObsSize (unat (heap_getSize h)), h)"

fun stable_step :: "heap_op \<Rightarrow> nat \<times> (I32 \<times> U32) list \<Rightarrow> heap_obs \<times> nat \<times> (I32 \<times> U32) list" where
  "stable_step (HeapPush v nid) (cap, q) =
     (if length q = cap then (ObsPushed False, cap, q) else (ObsPushed True, cap, pq_insert (v, nid) q))"
| "stable_step HeapPop (cap, q) =
     (case q of [] \<Rightarrow> (ObsPopped None, cap, []) | e # q \<Rightarrow> (ObsPopped (Some e), cap, q))"
| "stable_step HeapIsFull (cap, q) = (ObsFlag (length q = cap), cap, q)"
| "stable_step HeapIsEmpty (cap, q) = (ObsFlag (q = []), cap, q)"
| "stable_step HeapGetSize (cap, q) = (ObsSize (length q), cap, q)"

definition heap_abs :: "MaxHeap \<Rightarrow> nat \<times> (I32 \<times> U32) list" where
  "heap_abs h = (unat (mh_capacity h), heap_entries h)"

lemma heap_entries_length: "heap_wf n h \<Longrightarrow> length (heap_entries h) = unat (mh_size h)"
  by (simp add: heap_entries_def heap_nodes_def heap_wf_def word_le_nat_alt min_absorb2)

lemma heap_tests:
  assumes "heap_wf n h"
  shows "heap_isFull h \<longleftrightarrow> length (heap_entries h) = unat (mh_capacity h)"
    and "heap_isEmpty h \<longleftrightarrow> heap_entries h = []"
  using heap_entries_length [OF assms]
  by (auto simp: heap_isFull_def heap_isEmpty_def word_unat_eq_iff simp flip: length_0_conv)

lemma heap_step_refines:
  assumes "heap_wf (Suc n) h"
  shows "\<exists>h'. heap_step x h = Some (fst (stable_step x (heap_abs h)), h') \<and> heap_wf n h' \<and>
    heap_abs h' = snd (stable_step x (heap_abs h))"
proof (cases x)
  case (HeapPush v nid)
  obtain h' where "heap_push v nid h = Some (\<not> heap_isFull h, h')" "heap_wf n h'"
    "mh_capacity h' = mh_capacity h"
    "heap_entries h' = (if heap_isFull h then heap_entries h else pq_insert (v, nid) (heap_entries h))"
    using heap_push_ok [OF assms] by blast
  then show ?thesis using HeapPush heap_tests [OF assms] by (simp add: heap_abs_def)
next
  case HeapPop
  obtain h' where "heap_pop h = Some (case heap_entries h of [] \<Rightarrow> None | e # _ \<Rightarrow> Some e, h')"
    "heap_wf (Suc n) h'" "mh_capacity h' = mh_capacity h" "heap_entries h' = tl (heap_entries h)"
    using heap_pop_ok [OF assms] by blast
  then show ?thesis using HeapPop heap_wf_mono [of "Suc n" h' n]
    by (cases "heap_entries h") (simp_all add: heap_abs_def)
qed (use heap_wf_mono [OF assms, of n] heap_tests [OF assms] heap_entries_length [OF assms] in
    \<open>simp_all add: heap_abs_def heap_getSize_def\<close>)

interpretation heap: budgeted_refinement heap_step stable_step heap_wf heap_abs "\<lambda>_. True"
  by unfold_locales (rule heap_step_refines)

lemma heap_create_wf:
  assumes "length nodes = unat capacity" "unat capacity < 2147483647" "n < 4294967296"
  shows "heap_wf n (snd (MaxHeap_create (Some nodes) capacity MaxHeap_new))"
    and "heap_abs (snd (MaxHeap_create (Some nodes) capacity MaxHeap_new)) = (unat capacity, [])"
  using assms
  by (simp_all add: MaxHeap_create_def MaxHeap_new_def heap_wf_def heap_nodes_def heap_ordered_def
      heap_abs_def heap_entries_def Let_def)

text \<open>
  A heap created with room for fewer than 2^31-1 nodes, whatever the new memory holds,
  behaves for any sequence of fewer than 2^32 operations as a bounded list in leaving order: a
  push is refused exactly when the list is full and otherwise puts the entry behind every entry
  of the same or a higher value, a pop takes the first entry. No assertion fails, no access
  leaves the array and every loop ends.
\<close>

theorem heap_is_stable_priority_queue:
  assumes "length nodes = unat capacity" "unat capacity < 2147483647" "length xs < 4294967296"
  shows "\<exists>h'. run_steps heap_step xs (snd (MaxHeap_create (Some nodes) capacity MaxHeap_new)) =
      Some (fst (run_spec stable_step xs (unat capacity, [])), h') \<and>
    heap_abs h' = snd (run_spec stable_step xs (unat capacity, []))"
proof -
  note wf = heap_create_wf [OF assms(1,2)]
  show ?thesis
    using heap.run_refines [of xs 0 "snd (MaxHeap_create (Some nodes) capacity MaxHeap_new)"]
      wf(1) [of "length xs"] assms(3) by (auto simp: wf(2) [of 0])
qed

text \<open>
  Two entries of value 5 pushed around one of value 7: the 7 leaves first, then the older 5.
\<close>

lemma heap_is_stable_priority_queue_witness:
  "map_option fst (run_steps heap_step [HeapPush 5 1, HeapPush 7 2, HeapPush 5 3, HeapPop, HeapPop, HeapPop]
     (snd (MaxHeap_create (Some [Node 0 0 0, Node 9 9 9, Node 0 0 0]) 3 MaxHeap_new))) =
   Some [ObsPushed True, ObsPushed True, ObsPushed True,
     ObsPopped (Some (7, 2)), ObsPopped (Some (5, 1)), ObsPopped (Some (5, 3))]"
  using heap_is_stable_priority_queue [of "[Node 0 0 0, Node 9 9 9, Node 0 0 0]" 3
      "[HeapPush 5 1, HeapPush 7 2, HeapPush 5 3, HeapPop, HeapPop, HeapPop]"]
  by auto

end
