(* ===== verification/Priority_Queue.thy ===== *)
theory Priority_Queue
  imports Buffer_Queue Max_Heap
begin

text \<open>
  Os/Pthreads/PriorityBufferQueue.cpp: the message store behind the task queues. Messages lie in
  the slots of the data area, the heap orders their offsets, and a circular pool holds the
  offsets that are free.
\<close>

record PriorityQueue =
  pq_heap :: MaxHeap
  pq_data :: "U8 list"
  pq_indexes :: "U32 list"
  pq_startIndex :: U32
  pq_stopIndex :: U32

definition checkoutIndex :: "PriorityQueue \<Rightarrow> U32 \<Rightarrow> (U32 \<times> PriorityQueue) option" where
  "checkoutIndex q depth = do {
     fw_assert (depth \<noteq> 0);
     index \<leftarrow> read_at (pq_indexes q) (unat (pq_startIndex q mod depth)) 1;
     let q = q\<lparr>pq_startIndex := pq_startIndex q + 1\<rparr>;
     let diff = pq_stopIndex q - pq_startIndex q;
     fw_assert (diff \<le> depth);
     Some (hd index, q)
   }"

definition returnIndex :: "PriorityQueue \<Rightarrow> U32 \<Rightarrow> U32 \<Rightarrow> PriorityQueue option" where
  "returnIndex q depth index = do {
     fw_assert (depth \<noteq> 0);
     indexes \<leftarrow> write_at (pq_indexes q) (unat (pq_stopIndex q mod depth)) [index];
     let q = q\<lparr>pq_indexes := indexes, pq_stopIndex := pq_stopIndex q + 1\<rparr>;
     let diff = pq_stopIndex q - pq_startIndex q;
     fw_assert (diff \<le> depth);
     Some q
   }"

fun init_indexes :: "U32 \<Rightarrow> U32 \<Rightarrow> nat \<Rightarrow> U32 list \<Rightarrow> U32 list option" where
  "init_indexes depth msgSize 0 indexes = Some indexes"
| "init_indexes depth msgSize (Suc ii) indexes = do {
     indexes \<leftarrow> init_indexes depth msgSize ii indexes;
     index \<leftarrow> getBufferIndex depth msgSize (of_nat ii);
     write_at indexes ii [index]
   }"

text \<open>
  What the allocations of \<open>initialize\<close> return: the heap object, its nodes, the data area, the
  index pool and the queue structure.
\<close>

record queue_memory =
  qm_heap :: bool
  qm_nodes :: "nat \<Rightarrow> Node list option"
  qm_data :: "nat \<Rightarrow> U8 list option"
  qm_indexes :: "nat \<Rightarrow> U32 list option"
  qm_queue :: bool

definition priority_initialize :: "queue_memory \<Rightarrow> U32 \<Rightarrow> U32 \<Rightarrow> PriorityQueue option option" where
  "priority_initialize mem depth msgSize =
     (if \<not> qm_heap mem then Some None
      else
        let (ok, heap) = MaxHeap_create (qm_nodes mem (unat depth)) depth MaxHeap_new in
        if \<not> ok then Some None
        else case qm_data mem (unat depth * (4 + unat msgSize)) of
          None \<Rightarrow> Some None
        | Some data \<Rightarrow>
            (case qm_indexes mem (unat depth) of
              None \<Rightarrow> Some None
            | Some indexes \<Rightarrow> do {
                indexes \<leftarrow> init_indexes depth msgSize (unat depth) indexes;
                if \<not> qm_queue mem then Some None
                else Some (Some \<lparr>pq_heap = heap, pq_data = data, pq_indexes = indexes,
                  pq_startIndex = 0, pq_stopIndex = depth\<rparr>)
              }))"

definition priority_enqueue :: "PriorityQueue enqueue_fun" where
  "priority_enqueue bq buffer sz priority = do {
     q \<leftarrow> bq_queue bq;
     (index, q) \<leftarrow> checkoutIndex q (bq_depth bq);
     (ret, heap) \<leftarrow> heap_push priority index (pq_heap q);
     fw_assert ret;
     data \<leftarrow> enqueueBuffer buffer sz (pq_data q) index;
     Some (True, bq\<lparr>bq_queue := Some (q\<lparr>pq_heap := heap, pq_data := data\<rparr>)\<rparr>)
   }"

definition priority_dequeue :: "PriorityQueue dequeue_fun" where
  "priority_dequeue bq buffer sz priority = do {
     q \<leftarrow> bq_queue bq;
     (top, heap) \<leftarrow> heap_pop (pq_heap q);
     fw_assert (top \<noteq> None);
     (priority, index) \<leftarrow> top;
     (ret, buffer, sz) \<leftarrow> dequeueBuffer buffer sz (pq_data q) index;
     if \<not> ret then do {
       (ret, heap) \<leftarrow> heap_push priority index heap;
       fw_assert ret;
       Some (False, buffer, sz, priority, bq\<lparr>bq_queue := Some (q\<lparr>pq_heap := heap\<rparr>)\<rparr>)
     }
     else do {
       q \<leftarrow> returnIndex (q\<lparr>pq_heap := heap\<rparr>) (bq_depth bq) index;
       Some (True, buffer, sz, priority, bq\<lparr>bq_queue := Some q\<rparr>)
     }
   }"

section \<open>Contract\<close>

definition offset_slot :: "nat \<Rightarrow> U8 list \<Rightarrow> U32 \<Rightarrow> U8 list" where
  "offset_slot m data index = slot m data (unat index div (4 + m))"

definition message_at :: "nat \<Rightarrow> U8 list \<Rightarrow> I32 \<times> U32 \<Rightarrow> entry" where
  "message_at m data e = (fst e, slot_msg (offset_slot m data (snd e)))"

definition priority_content :: "PriorityQueue BufferQueue \<Rightarrow> entry list" where
  "priority_content bq =
     (case bq_queue bq of
        None \<Rightarrow> []
      | Some q \<Rightarrow> map (message_at (unat (bq_msgSize bq)) (pq_data q)) (heap_entries (pq_heap q)))"

text \<open>The free offsets, and the offsets of all slots.\<close>

definition pool :: "U32 list \<Rightarrow> nat \<Rightarrow> nat \<Rightarrow> nat \<Rightarrow> U32 list" where
  "pool indexes d start len = map (\<lambda>k. indexes ! ((start + k) mod d)) [0..<len]"

definition slot_offsets :: "nat \<Rightarrow> nat \<Rightarrow> U32 set" where
  "slot_offsets d m = (\<lambda>i. of_nat (i * (4 + m))) ` {..<d}"

text \<open>
  Every offset is in the pool or in the heap, never twice: a message in the queue is never
  overwritten by a later push.
\<close>

definition priority_inv :: "nat \<Rightarrow> PriorityQueue BufferQueue \<Rightarrow> bool" where
  "priority_inv n bq \<longleftrightarrow> (\<exists>q. bq_queue bq = Some q \<and>
     (let d = unat (bq_depth bq); m = unat (bq_msgSize bq); c = unat (bq_count bq);
          start = unat (pq_startIndex q); ids = map snd (heap_entries (pq_heap q));
          free = pool (pq_indexes q) d start (d - c)
      in heap_wf n (pq_heap q) \<and> mh_capacity (pq_heap q) = bq_depth bq \<and> length ids = c \<and> c \<le> d \<and>
        length (pq_data q) = d * (4 + m) \<and> d * (4 + m) < 4294967296 \<and> length (pq_indexes q) = d \<and>
        unat (pq_stopIndex q) = start + (d - c) \<and> unat (pq_stopIndex q) + n < 4294967296 \<and>
        distinct (free @ ids) \<and> set (free @ ids) \<subseteq> slot_offsets d m \<and>
        (\<forall>i \<in> set ids. slot_size (offset_slot m (pq_data q) i) \<le> m)))"

lemma offset_cases:
  assumes "index \<in> slot_offsets d m" "d * (4 + m) < 4294967296"
  obtains i where "i < d" "index = of_nat (i * (4 + m))" "unat index div (4 + m) = i"
proof -
  obtain i where i: "i < d" "index = of_nat (i * (4 + m))" using assms(1) by (auto simp: slot_offsets_def)
  show ?thesis by (rule that [OF i]) (simp only: i(2) index_of_slot [OF i(1) assms(2)], simp)
qed

lemma mset_pq_insert: "mset (pq_insert e q) = add_mset e (mset q)"
  by (induction q) auto

lemma map_pq_insert:
  assumes "\<And>x. fst (f x) = fst x"
  shows "map f (pq_insert e q) = pq_insert (f e) (map f q)"
  using assms by (induction q) auto

lemma pool_take:
  assumes "0 < len"
  shows "pool indexes d start len = indexes ! (start mod d) # pool indexes d (start + 1) (len - 1)"
proof -
  obtain l where "len = Suc l" using assms by (cases len) auto
  then show ?thesis by (simp add: pool_def map_upt_Suc del: upt_Suc)
qed

lemma pool_put:
  assumes "len < d" "length indexes = d"
  shows "pool (indexes[(start + len) mod d := i]) d start (Suc len) = pool indexes d start len @ [i]"
proof -
  have "(start + len) mod d \<noteq> (start + k) mod d" if "k < len" for k
    using that assms(1) by (intro ring_slots_distinct [symmetric]) auto
  then show ?thesis using assms by (simp add: pool_def)
qed

lemma length_pool [simp]: "length (pool indexes d start len) = len"
  by (simp add: pool_def)

section \<open>The operations keep the contract\<close>

lemma message_at_fst [simp]: "fst (message_at m data e) = fst e"
  by (simp add: message_at_def)

lemma priority_enqueue_ok:
  assumes "priority_inv (Suc n) bq" "bq_count bq < bq_depth bq" "length buffer \<le> unat (bq_msgSize bq)"
  shows "\<exists>q. priority_enqueue bq buffer (of_nat (length buffer)) priority = Some (True, bq\<lparr>bq_queue := q\<rparr>) \<and>
    priority_inv n (bq\<lparr>bq_queue := q, bq_count := bq_count bq + 1\<rparr>) \<and>
    priority_content (bq\<lparr>bq_queue := q\<rparr>) = pq_insert (priority, buffer) (priority_content bq)"
proof -
  let ?d = "unat (bq_depth bq)" and ?m = "unat (bq_msgSize bq)" and ?c = "unat (bq_count bq)"
  obtain q where q: "bq_queue bq = Some q" using assms(1) by (auto simp: priority_inv_def)
  let ?start = "unat (pq_startIndex q)" and ?es = "heap_entries (pq_heap q)"
  let ?ids = "map snd ?es" and ?free = "pool (pq_indexes q) ?d ?start (?d - ?c)"
  have inv: "heap_wf (Suc n) (pq_heap q)" "mh_capacity (pq_heap q) = bq_depth bq" "length ?ids = ?c"
    "length (pq_data q) = ?d * (4 + ?m)" "?d * (4 + ?m) < 4294967296" "length (pq_indexes q) = ?d"
    "unat (pq_stopIndex q) = ?start + (?d - ?c)" "unat (pq_stopIndex q) + Suc n < 4294967296"
    "distinct (?free @ ?ids)" "set (?free @ ?ids) \<subseteq> slot_offsets ?d ?m"
    "\<And>i. i \<in> set ?ids \<Longrightarrow> slot_size (offset_slot ?m (pq_data q) i) \<le> ?m"
    using assms(1) q by (auto simp: priority_inv_def Let_def)
  have lt: "?c < ?d" using assms(2) by (simp add: word_less_nat_alt)
  then have nz: "bq_depth bq \<noteq> 0" by auto
  let ?index = "pq_indexes q ! (?start mod ?d)"
  let ?rest = "pool (pq_indexes q) ?d (?start + 1) (?d - Suc ?c)"
  have free: "?free = ?index # ?rest" using pool_take [of "?d - ?c" "pq_indexes q" ?d ?start] lt by simp
  have start: "unat (pq_startIndex q + 1) = ?start + 1"
    using inv(7,8) by (simp add: unat_add_small)
  have diff: "pq_stopIndex q - (pq_startIndex q + 1) \<le> bq_depth bq"
    using inv(7) lt start by (simp add: word_le_nat_alt unat_sub_small)
  let ?q1 = "q\<lparr>pq_startIndex := pq_startIndex q + 1\<rparr>"
  have checkout: "checkoutIndex q (bq_depth bq) = Some (?index, ?q1)"
  proof -
    have ix: "?start mod ?d < ?d" using lt by simp
    have "take 1 (drop (?start mod ?d) (pq_indexes q)) = [?index]"
      using ix inv(6) by (simp add: take_Suc hd_drop_conv_nth)
    then have "read_at (pq_indexes q) (?start mod ?d) 1 = Some [?index]"
      using ix inv(6) by (simp add: read_at_def)
    then show ?thesis using nz diff by (simp add: checkoutIndex_def unat_mod Let_def)
  qed
  obtain i where i: "i < ?d" "?index = of_nat (i * (4 + ?m))" "unat ?index div (4 + ?m) = i"
    using inv(5,10) free by (elim offset_cases [of ?index ?d ?m, rotated]) auto
  have notfull: "\<not> heap_isFull (pq_heap q)"
    using heap_tests(1) [OF inv(1)] inv(2,3) lt by simp
  obtain h where h: "heap_push priority ?index (pq_heap q) = Some (True, h)" "heap_wf n h"
    "mh_capacity h = bq_depth bq" "heap_entries h = pq_insert (priority, ?index) ?es"
    using heap_push_ok [OF inv(1), of priority ?index] notfull inv(2) by auto
  have b: "unat (of_nat (length buffer) :: U32) = length buffer"
    using assms(3) unat_lt32 [of "bq_msgSize bq"] by (intro unat_of_nat32) linarith
  obtain data where e: "enqueueBuffer buffer (of_nat (length buffer)) (pq_data q) ?index = Some data"
    "length data = length (pq_data q)" "slot_size (slot ?m data i) = length buffer"
    "slot_msg (slot ?m data i) = buffer" "\<forall>j. j \<noteq> i \<longrightarrow> slot ?m data j = slot ?m (pq_data q) j"
    using enqueueBuffer_ok [OF i(1) inv(4,5), of "of_nat (length buffer)" buffer] assms(3) b i(2) by auto
  let ?q = "?q1\<lparr>pq_heap := h, pq_data := data\<rparr>"
  have same: "offset_slot ?m data j = offset_slot ?m (pq_data q) j" if j: "j \<in> set ?ids" for j
  proof -
    obtain k where k: "k < ?d" "j = of_nat (k * (4 + ?m))" "unat j div (4 + ?m) = k"
      using inv(5,10) j by (elim offset_cases [of j ?d ?m, rotated]) auto
    have "?index \<notin> set ?ids" using inv(9) unfolding free by (simp del: set_map)
    then have "j \<noteq> ?index" using j by metis
    then have "k \<noteq> i" using k(2) i(2) by auto
    then show ?thesis using e(5) by (simp add: offset_slot_def k(3))
  qed
  have new: "offset_slot ?m data ?index = slot ?m data i" by (simp add: offset_slot_def i(3))
  have ids: "mset (map snd (heap_entries h)) = add_mset ?index (mset ?ids)"
    by (simp add: h(4) mset_pq_insert)
  then have set_ids: "set (map snd (heap_entries h)) = insert ?index (set ?ids)"
    by (metis set_mset_add_mset_insert set_mset_mset)
  have run: "priority_enqueue bq buffer (of_nat (length buffer)) priority =
      Some (True, bq\<lparr>bq_queue := Some ?q\<rparr>)"
    using q checkout h(1) e(1) by (simp add: priority_enqueue_def)
  have "priority_inv n (bq\<lparr>bq_queue := Some ?q, bq_count := bq_count bq + 1\<rparr>)"
  proof -
    have c: "unat (bq_count bq + 1) = Suc ?c"
    proof -
      have "?c + 1 < 4294967296" using lt unat_lt32 [of "bq_depth bq"] by linarith
      then show ?thesis by (simp add: unat_add_small)
    qed
    have "mset (?rest @ map snd (heap_entries h)) = mset (?free @ ?ids)"
      by (simp only: free append_Cons mset.simps mset_append ids union_mset_add_mset_right)
    then have d: "distinct (?rest @ map snd (heap_entries h))" "set (?rest @ map snd (heap_entries h)) = set (?free @ ?ids)"
      using inv(9) mset_eq_imp_distinct_iff mset_eq_setD by blast+
    have len: "length (map snd (heap_entries h)) = Suc ?c"
      using ids inv(3) by (metis size_add_mset size_mset)
    have sizes: "slot_size (offset_slot ?m data j) \<le> ?m" if "j \<in> set (map snd (heap_entries h))" for j
    proof (cases "j = ?index")
      case True
      then show ?thesis using new e(3) assms(3) by simp
    next
      case False
      then have "j \<in> set ?ids" using that unfolding set_ids by simp
      then show ?thesis using inv(11) same by metis
    qed
    show ?thesis
      unfolding priority_inv_def Let_def
      by (rule exI [of _ ?q])
        (use h(2,3) len lt inv(4-8,10) e(2) start c d sizes in \<open>simp add: diff_Suc split: nat.splits\<close>)
  qed
  moreover have "priority_content (bq\<lparr>bq_queue := Some ?q\<rparr>) = pq_insert (priority, buffer) (priority_content bq)"
  proof -
    have "map (message_at ?m data) ?es = map (message_at ?m (pq_data q)) ?es"
      using same by (intro map_cong) (auto simp: message_at_def)
    moreover have "message_at ?m data (priority, ?index) = (priority, buffer)"
      by (simp add: message_at_def new e(4))
    ultimately show ?thesis using q by (simp add: priority_content_def h(4) map_pq_insert del: map_eq_conv)
  qed
  ultimately show ?thesis using run by blast
qed

lemma heap_top:
  assumes "heap_wf n h" "heap_entries h = e # es"
  shows "\<exists>h'. heap_pop h = Some (Some e, h') \<and> heap_wf n h' \<and> mh_capacity h' = mh_capacity h \<and>
    heap_entries h' = es"
  using heap_pop_ok [OF assms(1)] assms(2) by auto

lemma priority_dequeue_ok:
  assumes "priority_inv (Suc n) bq" "priority_content bq = (p, msg) # rest" "length buffer < 4294967296"
  shows "\<exists>q. if length buffer < length msg
    then priority_dequeue bq buffer (of_nat (length buffer)) priority =
        Some (False, buffer, of_nat (length msg), p, bq\<lparr>bq_queue := q\<rparr>) \<and>
      priority_inv n (bq\<lparr>bq_queue := q\<rparr>) \<and>
      priority_content (bq\<lparr>bq_queue := q\<rparr>) = pq_insert (p, msg) rest
    else priority_dequeue bq buffer (of_nat (length buffer)) priority =
        Some (True, msg @ drop (length msg) buffer, of_nat (length msg), p, bq\<lparr>bq_queue := q\<rparr>) \<and>
      priority_inv n (bq\<lparr>bq_queue := q, bq_count := bq_count bq - 1\<rparr>) \<and>
      priority_content (bq\<lparr>bq_queue := q\<rparr>) = rest"
proof -
  let ?d = "unat (bq_depth bq)" and ?m = "unat (bq_msgSize bq)" and ?c = "unat (bq_count bq)"
  obtain q where q: "bq_queue bq = Some q" using assms(1) by (auto simp: priority_inv_def)
  let ?start = "unat (pq_startIndex q)" and ?f = "message_at ?m (pq_data q)"
  let ?free = "pool (pq_indexes q) ?d ?start (?d - ?c)"
  obtain e es where es: "heap_entries (pq_heap q) = e # es" "?f e = (p, msg)" "map ?f es = rest"
    using assms(2) q by (auto simp: priority_content_def)
  obtain index where e: "e = (p, index)" using es(2) by (cases e) (auto simp: message_at_def)
  let ?ids = "map snd es"
  have inv: "heap_wf (Suc n) (pq_heap q)" "mh_capacity (pq_heap q) = bq_depth bq" "Suc (length es) = ?c" "?c \<le> ?d"
    "length (pq_data q) = ?d * (4 + ?m)" "?d * (4 + ?m) < 4294967296" "length (pq_indexes q) = ?d"
    "unat (pq_stopIndex q) = ?start + (?d - ?c)" "unat (pq_stopIndex q) + Suc n < 4294967296"
    "distinct (?free @ index # ?ids)" "set (?free @ index # ?ids) \<subseteq> slot_offsets ?d ?m"
    "\<And>i. i \<in> set (index # ?ids) \<Longrightarrow> slot_size (offset_slot ?m (pq_data q) i) \<le> ?m"
    using assms(1) q es(1) e by (auto simp: priority_inv_def Let_def)
  have nz: "bq_depth bq \<noteq> 0" using inv(3,4) by auto
  obtain i where i: "i < ?d" "index = of_nat (i * (4 + ?m))" "unat index div (4 + ?m) = i"
    using inv(6,11) by (elim offset_cases [of index ?d ?m, rotated]) auto
  have slot: "offset_slot ?m (pq_data q) index = slot ?m (pq_data q) i" by (simp add: offset_slot_def i(3))
  have msg: "msg = slot_msg (slot ?m (pq_data q) i)" using es(2) e slot by (simp add: message_at_def)
  obtain h where h: "heap_pop (pq_heap q) = Some (Some (p, index), h)" "heap_wf (Suc n) h"
    "mh_capacity h = bq_depth bq" "heap_entries h = es"
    using heap_top [OF inv(1) es(1)] inv(2) e by auto
  have deq: "dequeueBuffer buffer (of_nat (length buffer)) (pq_data q) index =
    (if length buffer < length msg then Some (False, buffer, of_nat (length msg))
     else Some (True, msg @ drop (length msg) buffer, of_nat (length msg)))"
    using dequeueBuffer_ok [OF i(1) inv(5,6), of "of_nat (length buffer)" buffer, folded i(2) msg]
      inv(12) [of index] slot unat_of_nat32 [OF assms(3)] by (simp add: Let_def)
  show ?thesis
  proof (cases "length buffer < length msg")
    case True
    have "\<not> heap_isFull h" using heap_tests(1) [OF h(2)] h(3,4) inv(3,4) by simp
    then obtain h2 where h2: "heap_push p index h = Some (True, h2)" "heap_wf n h2"
      "mh_capacity h2 = bq_depth bq" "heap_entries h2 = pq_insert (p, index) es"
      using heap_push_ok [OF h(2), of p index] h(3,4) by auto
    let ?bq = "bq\<lparr>bq_queue := Some (q\<lparr>pq_heap := h2\<rparr>)\<rparr>"
    have ids: "mset (map snd (heap_entries h2)) = mset (index # ?ids)"
      by (simp add: h2(4) mset_pq_insert)
    have run: "priority_dequeue bq buffer (of_nat (length buffer)) priority =
        Some (False, buffer, of_nat (length msg), p, ?bq)"
      using True q h(1) h2(1) deq by (simp add: priority_dequeue_def)
    have "mset (?free @ map snd (heap_entries h2)) = mset (?free @ index # ?ids)" using ids by simp
    then have d: "distinct (?free @ map snd (heap_entries h2))"
      "set (?free @ map snd (heap_entries h2)) = set (?free @ index # ?ids)"
      using inv(10) mset_eq_imp_distinct_iff mset_eq_setD by blast+
    have si: "set (map snd (heap_entries h2)) = set (index # ?ids)" by (rule mset_eq_setD [OF ids])
    have len: "length (map snd (heap_entries h2)) = ?c" using mset_eq_length [OF ids] inv(3) by simp
    have "priority_inv n ?bq"
      unfolding priority_inv_def Let_def
      by (rule exI [of _ "q\<lparr>pq_heap := h2\<rparr>"])
        (use h2(2,3) len inv(4-9,11) d inv(12) si in simp)
    moreover have "priority_content ?bq = pq_insert (p, msg) rest"
      using es(2,3) e by (simp add: priority_content_def h2(4) map_pq_insert)
    ultimately show ?thesis using True run by (intro exI [of _ "Some (q\<lparr>pq_heap := h2\<rparr>)"]) simp
  next
    case False
    let ?ix = "(pq_indexes q)[unat (pq_stopIndex q) mod ?d := index]"
    let ?q = "q\<lparr>pq_heap := h, pq_indexes := ?ix, pq_stopIndex := pq_stopIndex q + 1\<rparr>"
    have stop: "unat (pq_stopIndex q + 1) = unat (pq_stopIndex q) + 1"
      using inv(9) by (simp add: unat_add_small)
    have diff: "pq_stopIndex q + 1 - pq_startIndex q \<le> bq_depth bq"
      using inv(3,4,8) stop by (simp add: word_le_nat_alt unat_sub_small)
    have ret: "returnIndex (q\<lparr>pq_heap := h\<rparr>) (bq_depth bq) index = Some ?q"
    proof -
      have ix: "unat (pq_stopIndex q) mod ?d < ?d" using inv(3,4) by simp
      then have "write_at (pq_indexes q) (unat (pq_stopIndex q) mod ?d) [index] = Some ?ix"
        using inv(7) by (simp add: write_at_def upd_conv_take_nth_drop)
      then show ?thesis using nz diff by (simp add: returnIndex_def unat_mod Let_def)
    qed
    have pool: "pool ?ix ?d ?start (?d - (?c - 1)) = ?free @ [index]"
    proof -
      have "?d - (?c - 1) = Suc (?d - ?c)" "?d - ?c < ?d" using inv(3,4) by auto
      then show ?thesis using pool_put [of "?d - ?c" ?d "pq_indexes q" ?start index] inv(7,8) by simp
    qed
    have run: "priority_dequeue bq buffer (of_nat (length buffer)) priority =
        Some (True, msg @ drop (length msg) buffer, of_nat (length msg), p, bq\<lparr>bq_queue := Some ?q\<rparr>)"
      using False q h(1) deq ret by (simp add: priority_dequeue_def)
    have dec: "unat (bq_count bq - 1) = ?c - 1" using inv(3) by (intro unat_dec) simp
    have "priority_inv n (bq\<lparr>bq_queue := Some ?q, bq_count := bq_count bq - 1\<rparr>)"
      unfolding priority_inv_def Let_def
      by (rule exI [of _ ?q])
        (use h inv(3-9) inv(10-12) stop dec pool heap_wf_mono [OF h(2), of n] in auto)
    moreover have "priority_content (bq\<lparr>bq_queue := Some ?q\<rparr>) = rest"
      using es(3) by (simp add: priority_content_def h(4))
    ultimately show ?thesis using False run by (intro exI [of _ "Some ?q"]) simp
  qed
qed

interpretation priority: message_store priority_enqueue priority_dequeue priority_inv priority_content
  pq_insert "\<lambda>p old. p" "\<lambda>q. pq_insert (hd q) (tl q)"
proof unfold_locales
  fix n bq assume inv: "priority_inv n bq"
  then show "length (priority_content bq) = unat (bq_count bq) \<and> bq_count bq \<le> bq_depth bq"
    by (auto simp: priority_inv_def priority_content_def Let_def word_le_nat_alt)
  show "length msg \<le> unat (bq_msgSize bq)" if "(p, msg) \<in> set (priority_content bq)" for p msg
    using inv that
    by (fastforce simp: priority_inv_def priority_content_def Let_def message_at_def intro!: slot_msg_length)
next
  show "priority_content (bq\<lparr>bq_count := c, bq_maxCount := x\<rparr>) = priority_content bq" for bq c x
    by (simp add: priority_content_def split: option.split)
  show "priority_inv n (bq\<lparr>bq_maxCount := x\<rparr>) = priority_inv n bq" for n bq x
    by (simp add: priority_inv_def)
  show "priority_inv (Suc n) bq \<Longrightarrow> priority_inv n bq" for n bq
    using heap_wf_mono [of "Suc n" _ n] by (auto simp: priority_inv_def Let_def)
  fix n bq buffer priority
  show "priority_inv (Suc n) bq \<Longrightarrow> bq_count bq < bq_depth bq \<Longrightarrow>
      length buffer \<le> unat (bq_msgSize bq) \<Longrightarrow>
      \<exists>q. priority_enqueue bq buffer (of_nat (length buffer)) priority = Some (True, bq\<lparr>bq_queue := q\<rparr>) \<and>
        priority_inv n (bq\<lparr>bq_queue := q, bq_count := bq_count bq + 1\<rparr>) \<and>
        priority_content (bq\<lparr>bq_queue := q\<rparr>) = pq_insert (priority, buffer) (priority_content bq)"
    by (rule priority_enqueue_ok)
  fix p msg rest
  assume inv: "priority_inv (Suc n) bq" and c: "priority_content bq = (p, msg) # rest"
    and b: "length buffer < 4294967296"
  have "pq_insert (hd (priority_content bq)) (tl (priority_content bq)) = pq_insert (p, msg) rest"
    by (simp add: c)
  then show "\<exists>q. if length buffer < length msg
        then priority_dequeue bq buffer (of_nat (length buffer)) priority =
            Some (False, buffer, of_nat (length msg), p, bq\<lparr>bq_queue := q\<rparr>) \<and>
          priority_inv n (bq\<lparr>bq_queue := q\<rparr>) \<and>
          priority_content (bq\<lparr>bq_queue := q\<rparr>) = pq_insert (hd (priority_content bq)) (tl (priority_content bq))
        else priority_dequeue bq buffer (of_nat (length buffer)) priority =
            Some (True, msg @ drop (length msg) buffer, of_nat (length msg), p, bq\<lparr>bq_queue := q\<rparr>) \<and>
          priority_inv n (bq\<lparr>bq_queue := q, bq_count := bq_count bq - 1\<rparr>) \<and>
          priority_content (bq\<lparr>bq_queue := q\<rparr>) = rest"
    using priority_dequeue_ok [OF inv c b, of priority] by (simp only:)
qed

section \<open>Properties\<close>

definition priority_queue :: "queue_memory \<Rightarrow> U32 \<Rightarrow> U32 \<Rightarrow> PriorityQueue BufferQueue option" where
  "priority_queue mem depth msgSize =
     map_option snd (BufferQueue_create (priority_initialize mem) depth msgSize BufferQueue_new)"

lemma init_indexes_ok:
  assumes "depth \<noteq> 0" "k \<le> unat depth" "length indexes = unat depth"
  shows "\<exists>ix. init_indexes depth msgSize k indexes = Some ix \<and> length ix = unat depth \<and>
    (\<forall>i < k. ix ! i = of_nat (i * (4 + unat msgSize)))"
  using assms(2)
proof (induction k)
  case (Suc k)
  then obtain ix where ix: "init_indexes depth msgSize k indexes = Some ix" "length ix = unat depth"
    "\<forall>i < k. ix ! i = of_nat (i * (4 + unat msgSize))" by auto
  have "unat (of_nat k :: U32) = k"
    using Suc.prems unat_lt32 [of depth] by (intro unat_of_nat32) linarith
  then have "getBufferIndex depth msgSize (of_nat k) = Some (of_nat (k * (4 + unat msgSize)))"
    using getBufferIndex_ok [OF assms(1), of msgSize "of_nat k"] Suc.prems by simp
  moreover have "write_at ix k [v] = Some (ix[k := v])" for v
    using ix(2) Suc.prems by (simp add: write_at_def upd_conv_take_nth_drop)
  ultimately show ?case using ix Suc.prems by (auto simp: less_Suc_eq)
qed (use assms(3) in simp)

text \<open>Memory that suffices for a queue: everything is allocated and offsets fit 32 bits.\<close>

definition memory_ok :: "queue_memory \<Rightarrow> U32 \<Rightarrow> U32 \<Rightarrow> bool" where
  "memory_ok mem depth msgSize \<longleftrightarrow> qm_heap mem \<and> qm_queue mem \<and> depth \<noteq> 0 \<and>
     unat depth * (4 + unat msgSize) < 4294967296 \<and>
     (case (qm_nodes mem (unat depth), qm_data mem (unat depth * (4 + unat msgSize)), qm_indexes mem (unat depth)) of
        (Some nodes, Some data, Some indexes) \<Rightarrow> length nodes = unat depth \<and>
          length data = unat depth * (4 + unat msgSize) \<and> length indexes = unat depth
      | _ \<Rightarrow> False)"

definition empty_messages :: "U32 \<Rightarrow> U32 \<Rightarrow> message_list" where
  "empty_messages depth msgSize =
     \<lparr>ml_depth = unat depth, ml_msgSize = unat msgSize, ml_maxCount = 0, ml_entries = []\<rparr>"

lemma distinct_offsets:
  assumes "d * (4 + m) < 4294967296"
  shows "inj_on (\<lambda>i. of_nat (i * (4 + m)) :: U32) {..<d}"
proof (rule inj_onI)
  fix i j assume ij: "i \<in> {..<d}" "j \<in> {..<d}" "(of_nat (i * (4 + m)) :: U32) = of_nat (j * (4 + m))"
  then have "i * (4 + m) = j * (4 + m)"
    using index_of_slot(1) [OF _ assms, of i] index_of_slot(1) [OF _ assms, of j] by (metis lessThan_iff)
  then show "i = j" by simp
qed

lemma priority_queue_new:
  assumes "memory_ok mem depth msgSize" "unat depth + n < 4294967296"
  shows "\<exists>bq. priority_queue mem depth msgSize = Some bq \<and> bq_inv priority_inv (unat msgSize) n bq \<and>
    bq_abs priority_content bq = empty_messages depth msgSize"
proof -
  let ?d = "unat depth" and ?m = "unat msgSize"
  obtain nodes data indexes where mem: "qm_heap mem" "qm_queue mem" "depth \<noteq> 0" "?d * (4 + ?m) < 4294967296"
    "qm_nodes mem ?d = Some nodes" "length nodes = ?d" "qm_data mem (?d * (4 + ?m)) = Some data"
    "length data = ?d * (4 + ?m)" "qm_indexes mem ?d = Some indexes" "length indexes = ?d"
    using assms(1) by (auto simp: memory_ok_def split: option.splits)
  obtain ix where ix: "init_indexes depth msgSize ?d indexes = Some ix" "length ix = ?d"
    "\<And>i. i < ?d \<Longrightarrow> ix ! i = of_nat (i * (4 + ?m))"
    using init_indexes_ok [OF mem(3) le_refl mem(10), of msgSize] by auto
  have cap: "?d < 2147483647" using mem(4) by (simp add: algebra_simps)
  let ?h = "snd (MaxHeap_create (Some nodes) depth MaxHeap_new)"
  have heap: "heap_wf n ?h" "heap_entries ?h = []" "mh_capacity ?h = depth"
    using heap_create_wf [OF mem(6) cap, of n] assms(2)
    by (simp_all add: heap_abs_def) (simp add: MaxHeap_create_def)
  let ?q = "\<lparr>pq_heap = ?h, pq_data = data, pq_indexes = ix, pq_startIndex = 0, pq_stopIndex = depth\<rparr>"
  let ?bq = "\<lparr>bq_queue = Some ?q, bq_msgSize = msgSize, bq_depth = depth, bq_count = 0, bq_maxCount = 0\<rparr>"
  have ok: "fst (MaxHeap_create (Some nodes) depth MaxHeap_new)"
    by (simp add: MaxHeap_create_def Let_def)
  have new: "priority_queue mem depth msgSize = Some ?bq"
    using mem(1,2,5,7,9) ix(1) ok
    by (simp add: priority_queue_def BufferQueue_create_def BufferQueue_new_def priority_initialize_def
        case_prod_beta)
  have free: "pool ix ?d 0 ?d = map (\<lambda>i. of_nat (i * (4 + ?m))) [0..<?d]"
    using ix by (simp add: pool_def)
  have "distinct (pool ix ?d 0 ?d)"
    using distinct_offsets [OF mem(4)] by (simp add: free distinct_map atLeast0LessThan)
  moreover have "set (pool ix ?d 0 ?d) \<subseteq> slot_offsets ?d ?m"
    by (auto simp: free slot_offsets_def)
  ultimately have "bq_inv priority_inv ?m n ?bq"
    using heap mem(4,8) assms(2) ix(2) by (simp add: bq_inv_def priority_inv_def)
  moreover have "bq_abs priority_content ?bq = empty_messages depth msgSize"
    by (simp add: bq_abs_def priority_content_def heap(2) empty_messages_def)
  ultimately show ?thesis using new by blast
qed

text \<open>
  C26: the queue the tasks use, created with memory for data offsets below 2^32, behaves for
  fewer than 2^32 - depth operations as a bounded list in leaving order: a push is refused
  exactly when the depth is reached and otherwise puts the message behind every message of the
  same or a higher priority; a pop returns the first message, whole, with its priority, or tells
  its size when the caller's buffer is too small. A refused pop moves the message behind the
  others of its priority. No assertion fails and no access leaves its array, so no message is
  lost, repeated or overwritten.
\<close>

theorem priority_queue_is_sorted_list:
  assumes "memory_ok mem depth msgSize" "\<forall>x \<in> set xs. bq_op_ok (unat msgSize) x"
    and "unat depth + length xs < 4294967296"
  shows "\<exists>bq bq'. priority_queue mem depth msgSize = Some bq \<and>
    run_steps (bq_step priority_enqueue priority_dequeue) xs bq =
      Some (fst (run_spec (message_spec pq_insert (\<lambda>p old. p) (\<lambda>q. pq_insert (hd q) (tl q))) xs
        (empty_messages depth msgSize)), bq')"
proof -
  obtain bq where bq: "priority_queue mem depth msgSize = Some bq"
    "bq_inv priority_inv (unat msgSize) (length xs + 0) bq"
    "bq_abs priority_content bq = empty_messages depth msgSize"
    using priority_queue_new [OF assms(1), of "length xs + 0"] assms(3) by auto
  show ?thesis
    using priority.bounded.run_refines [OF bq(2) assms(2)] bq(1) unfolding bq(3) by blast
qed

definition demo_memory :: queue_memory where
  "demo_memory = \<lparr>qm_heap = True, qm_nodes = \<lambda>n. Some (replicate n (Node 7 7 7)),
     qm_data = \<lambda>n. Some (replicate n 0), qm_indexes = \<lambda>n. Some (replicate n 0), qm_queue = True\<rparr>"

definition priority_demo :: "bq_op list" where
  "priority_demo = [QPush [1] 5, QPush [2] 5, QPush [3] 9, QPush [4] 1, QPop [0] 0, QPop [] 0, QPop [0] 0]"

text \<open>
  The urgent message leaves first. The pop into the empty buffer is refused and costs the oldest
  message of priority 5 its place.
\<close>

lemma priority_queue_is_sorted_list_witness:
  "\<exists>bq. priority_queue demo_memory 3 1 = Some bq \<and>
    map_option fst (run_steps (bq_step priority_enqueue priority_dequeue) priority_demo bq) =
      Some [QPushed True, QPushed True, QPushed True, QPushed False, QPopped True [3] 1 9,
        QPopped False [] 1 5, QPopped True [2] 1 5]"
  using priority_queue_is_sorted_list [of demo_memory 3 1 priority_demo]
  by (auto simp: priority_demo_def demo_memory_def memory_ok_def empty_messages_def)

end
