(* ===== verification/Fifo_Queue.thy ===== *)
theory Fifo_Queue
  imports Buffer_Queue
begin

text \<open>
  Os/Pthreads/FIFOBufferQueue.cpp: the store that ignores priorities. Its two counters run on
  without wrapping at the depth, so the model refines a bounded FIFO list as long as they do not
  wrap at 32 bits.
\<close>

record FIFOQueue =
  ff_data :: "U8 list"
  ff_head :: U32
  ff_tail :: U32

text \<open>\<open>mem\<close> is \<open>new U8[n]\<close> for the data area, \<open>got\<close> says whether the queue structure was allocated.\<close>

definition fifo_initialize :: "(nat \<Rightarrow> U8 list option) \<Rightarrow> bool \<Rightarrow> U32 \<Rightarrow> U32 \<Rightarrow> FIFOQueue option option" where
  "fifo_initialize mem got depth msgSize =
     (case mem (unat depth * (4 + unat msgSize)) of
        None \<Rightarrow> Some None
      | Some data \<Rightarrow>
          if \<not> got then Some None
          else Some (Some \<lparr>ff_data = data, ff_head = 0, ff_tail = 0\<rparr>))"

definition fifo_enqueue :: "FIFOQueue enqueue_fun" where
  "fifo_enqueue bq buffer sz priority = do {
     f \<leftarrow> bq_queue bq;
     index \<leftarrow> getBufferIndex (bq_depth bq) (bq_msgSize bq) (ff_tail f);
     data \<leftarrow> enqueueBuffer buffer sz (ff_data f) index;
     Some (True, bq\<lparr>bq_queue := Some (f\<lparr>ff_data := data, ff_tail := ff_tail f + 1\<rparr>)\<rparr>)
   }"

definition fifo_dequeue :: "FIFOQueue dequeue_fun" where
  "fifo_dequeue bq buffer sz priority = do {
     f \<leftarrow> bq_queue bq;
     index \<leftarrow> getBufferIndex (bq_depth bq) (bq_msgSize bq) (ff_head f);
     (ret, buffer, sz) \<leftarrow> dequeueBuffer buffer sz (ff_data f) index;
     if \<not> ret then Some (False, buffer, sz, priority, bq)
     else Some (True, buffer, sz, priority, bq\<lparr>bq_queue := Some (f\<lparr>ff_head := ff_head f + 1\<rparr>)\<rparr>)
   }"

section \<open>Contract\<close>

definition fifo_slot :: "FIFOQueue BufferQueue \<Rightarrow> FIFOQueue \<Rightarrow> nat \<Rightarrow> U8 list" where
  "fifo_slot bq f k =
     slot (unat (bq_msgSize bq)) (ff_data f) ((unat (ff_head f) + k) mod unat (bq_depth bq))"

definition fifo_content :: "FIFOQueue BufferQueue \<Rightarrow> entry list" where
  "fifo_content bq =
     (case bq_queue bq of
        None \<Rightarrow> []
      | Some f \<Rightarrow> map (\<lambda>k. (0, slot_msg (fifo_slot bq f k))) [0..<unat (ff_tail f) - unat (ff_head f)])"

definition fifo_inv :: "nat \<Rightarrow> FIFOQueue BufferQueue \<Rightarrow> bool" where
  "fifo_inv n bq \<longleftrightarrow> (\<exists>f. bq_queue bq = Some f \<and>
     length (ff_data f) = unat (bq_depth bq) * (4 + unat (bq_msgSize bq)) \<and>
     unat (bq_depth bq) * (4 + unat (bq_msgSize bq)) < 4294967296 \<and>
     unat (ff_tail f) = unat (ff_head f) + unat (bq_count bq) \<and> bq_count bq \<le> bq_depth bq \<and>
     unat (ff_tail f) + n < 4294967296 \<and>
     (\<forall>k < unat (bq_count bq). slot_size (fifo_slot bq f k) \<le> unat (bq_msgSize bq)))"

definition fifo_ins :: "entry \<Rightarrow> entry list \<Rightarrow> entry list" where
  "fifo_ins e q = q @ [(0, snd e)]"

lemma fifo_enqueue_ok:
  assumes "fifo_inv (Suc n) bq" "bq_count bq < bq_depth bq" "length buffer \<le> unat (bq_msgSize bq)"
  shows "\<exists>q. fifo_enqueue bq buffer (of_nat (length buffer)) priority = Some (True, bq\<lparr>bq_queue := q\<rparr>) \<and>
    fifo_inv n (bq\<lparr>bq_queue := q, bq_count := bq_count bq + 1\<rparr>) \<and>
    fifo_content (bq\<lparr>bq_queue := q\<rparr>) = fifo_ins (priority, buffer) (fifo_content bq)"
proof -
  let ?d = "unat (bq_depth bq)" and ?m = "unat (bq_msgSize bq)" and ?c = "unat (bq_count bq)"
  obtain f where f: "bq_queue bq = Some f" "length (ff_data f) = ?d * (4 + ?m)"
    "?d * (4 + ?m) < 4294967296" "unat (ff_tail f) = unat (ff_head f) + ?c"
    "unat (ff_tail f) + Suc n < 4294967296" "\<And>k. k < ?c \<Longrightarrow> slot_size (fifo_slot bq f k) \<le> ?m"
    using assms(1) by (auto simp: fifo_inv_def)
  have lt: "?c < ?d" using assms(2) by (simp add: word_less_nat_alt)
  then have nz: "bq_depth bq \<noteq> 0" by auto
  let ?h = "unat (ff_head f)"
  let ?i = "unat (ff_tail f) mod ?d"
  have i: "?i < ?d" using lt by simp
  have b: "unat (of_nat (length buffer) :: U32) = length buffer"
    using assms(3) unat_lt32 [of "bq_msgSize bq"] by (intro unat_of_nat32) linarith
  obtain data where e: "enqueueBuffer buffer (of_nat (length buffer)) (ff_data f) (of_nat (?i * (4 + ?m))) = Some data"
    "length data = length (ff_data f)" "slot_size (slot ?m data ?i) = length buffer"
    "slot_msg (slot ?m data ?i) = buffer" "\<forall>j. j \<noteq> ?i \<longrightarrow> slot ?m data j = slot ?m (ff_data f) j"
    using enqueueBuffer_ok [OF i f(2,3), of "of_nat (length buffer)" buffer] assms(3) b by auto
  let ?f = "f\<lparr>ff_data := data, ff_tail := ff_tail f + 1\<rparr>"
  let ?bq = "bq\<lparr>bq_queue := Some ?f\<rparr>"
  have inc: "unat (ff_tail f + 1) = unat (ff_tail f) + 1" "unat (bq_count bq + 1) = ?c + 1"
    using f(4,5) by (simp_all add: unat_add_small)
  have slots: "fifo_slot b' ?f k = (if k = ?c then slot ?m data ?i else fifo_slot bq f k)"
    if "k \<le> ?c" "bq_depth b' = bq_depth bq" "bq_msgSize b' = bq_msgSize bq" for k b'
  proof (cases "k = ?c")
    case True
    then show ?thesis using that f(4) by (simp add: fifo_slot_def)
  next
    case False
    then have "(?h + k) mod ?d \<noteq> ?i" using that f(4) lt by (intro ring_slots_distinct) auto
    then show ?thesis using False that e(5) by (simp add: fifo_slot_def)
  qed
  have "fifo_enqueue bq buffer (of_nat (length buffer)) priority = Some (True, ?bq)"
    using f(1) e(1) by (simp add: fifo_enqueue_def getBufferIndex_ok [OF nz])
  moreover have "fifo_inv n (?bq\<lparr>bq_count := bq_count bq + 1\<rparr>)"
    unfolding fifo_inv_def using f e(2,3) lt inc slots assms(3)
    by (auto simp: word_le_nat_alt less_Suc_eq)
  moreover have "fifo_content ?bq = fifo_ins (priority, buffer) (fifo_content bq)"
  proof -
    have "map (\<lambda>k. (0::I32, slot_msg (fifo_slot ?bq ?f k))) [0..<?c] = map (\<lambda>k. (0, slot_msg (fifo_slot bq f k))) [0..<?c]"
      using slots by auto
    then show ?thesis using f(1,4) inc(1) slots [of ?c ?bq] e(4) by (simp add: fifo_content_def fifo_ins_def)
  qed
  ultimately show ?thesis by (intro exI [of _ "Some ?f"]) simp
qed

lemma fifo_dequeue_ok:
  assumes "fifo_inv (Suc n) bq" "fifo_content bq = (p, msg) # rest" "length buffer < 4294967296"
  shows "\<exists>q. if length buffer < length msg
    then fifo_dequeue bq buffer (of_nat (length buffer)) priority =
        Some (False, buffer, of_nat (length msg), priority, bq\<lparr>bq_queue := q\<rparr>) \<and>
      fifo_inv n (bq\<lparr>bq_queue := q\<rparr>) \<and> fifo_content (bq\<lparr>bq_queue := q\<rparr>) = fifo_content bq
    else fifo_dequeue bq buffer (of_nat (length buffer)) priority =
        Some (True, msg @ drop (length msg) buffer, of_nat (length msg), priority, bq\<lparr>bq_queue := q\<rparr>) \<and>
      fifo_inv n (bq\<lparr>bq_queue := q, bq_count := bq_count bq - 1\<rparr>) \<and>
      fifo_content (bq\<lparr>bq_queue := q\<rparr>) = rest"
proof -
  let ?d = "unat (bq_depth bq)" and ?m = "unat (bq_msgSize bq)" and ?c = "unat (bq_count bq)"
  obtain f where f: "bq_queue bq = Some f" "length (ff_data f) = ?d * (4 + ?m)"
    "?d * (4 + ?m) < 4294967296" "unat (ff_tail f) = unat (ff_head f) + ?c" "?c \<le> ?d"
    "unat (ff_tail f) + Suc n < 4294967296" "\<And>k. k < ?c \<Longrightarrow> slot_size (fifo_slot bq f k) \<le> ?m"
    using assms(1) by (auto simp: fifo_inv_def word_le_nat_alt)
  let ?h = "unat (ff_head f)" and ?g = "\<lambda>k. (0::I32, slot_msg (fifo_slot bq f k))"
  have all: "map ?g [0..<?c] = (p, msg) # rest" using assms(2) f(1,4) by (simp add: fifo_content_def)
  then have pos: "0 < ?c" by (cases ?c) auto
  then have nz: "bq_depth bq \<noteq> 0" and i: "?h mod ?d < ?d" using f(5) by auto
  have "map ?g [0..<?c] = ?g 0 # map ?g [1..<?c]" using pos by (simp add: upt_rec)
  then have hd: "msg = slot_msg (fifo_slot bq f 0)" "rest = map ?g [1..<?c]" using all by auto
  have s0: "slot ?m (ff_data f) (?h mod ?d) = fifo_slot bq f 0" by (simp add: fifo_slot_def)
  have deq: "dequeueBuffer buffer (of_nat (length buffer)) (ff_data f) (of_nat (?h mod ?d * (4 + ?m))) =
    (if length buffer < length msg then Some (False, buffer, of_nat (length msg))
     else Some (True, msg @ drop (length msg) buffer, of_nat (length msg)))"
    using dequeueBuffer_ok [OF i f(2,3), of "of_nat (length buffer)" buffer] f(7) [OF pos]
      unat_of_nat32 [OF assms(3)] by (simp add: s0 Let_def flip: hd(1))
  show ?thesis
  proof (cases "length buffer < length msg")
    case True
    have same: "bq\<lparr>bq_queue := Some f\<rparr> = bq" using f(1) by simp
    have "fifo_inv n bq" using assms(1) by (auto simp: fifo_inv_def)
    then show ?thesis
      by (intro exI [of _ "Some f"], unfold same)
        (use True f(1) deq in \<open>simp add: fifo_dequeue_def getBufferIndex_ok [OF nz]\<close>)
  next
    case False
    let ?f = "f\<lparr>ff_head := ff_head f + 1\<rparr>"
    let ?bq = "bq\<lparr>bq_queue := Some ?f\<rparr>"
    have inc: "unat (ff_head f + 1) = ?h + 1" "unat (bq_count bq - 1) = ?c - 1"
      using f(4,6) pos by (simp_all add: unat_add_small unat_dec)
    have slots: "fifo_slot b' ?f k = fifo_slot bq f (Suc k)"
      if "bq_depth b' = bq_depth bq" "bq_msgSize b' = bq_msgSize bq" for k b'
      using that inc(1) by (simp add: fifo_slot_def)
    have "fifo_dequeue bq buffer (of_nat (length buffer)) priority =
        Some (True, msg @ drop (length msg) buffer, of_nat (length msg), priority, ?bq)"
      using False f(1) deq by (simp add: fifo_dequeue_def getBufferIndex_ok [OF nz])
    moreover have "fifo_inv n (?bq\<lparr>bq_count := bq_count bq - 1\<rparr>)"
      unfolding fifo_inv_def using f pos inc slots by (auto simp: word_le_nat_alt)
    moreover have "fifo_content ?bq = rest"
    proof -
      have "unat (ff_tail f) - (?h + 1) = ?c - 1" using f(4) by simp
      moreover have "map (\<lambda>k. ?g (Suc k)) [0..<?c - 1] = map ?g [1..<?c]"
        by (rule nth_equalityI) auto
      ultimately show ?thesis using inc(1) slots hd(2) by (simp add: fifo_content_def)
    qed
    ultimately show ?thesis using False by (intro exI [of _ "Some ?f"]) simp
  qed
qed

interpretation fifo: message_store fifo_enqueue fifo_dequeue fifo_inv fifo_content fifo_ins
  "\<lambda>p old. old" "\<lambda>q. q"
proof unfold_locales
  fix n bq assume inv: "fifo_inv n bq"
  then show "length (fifo_content bq) = unat (bq_count bq) \<and> bq_count bq \<le> bq_depth bq"
    by (auto simp: fifo_inv_def fifo_content_def)
  show "length msg \<le> unat (bq_msgSize bq)" if "(p, msg) \<in> set (fifo_content bq)" for p msg
    using inv that by (auto simp: fifo_inv_def fifo_content_def intro: slot_msg_length)
next
  show "fifo_content (bq\<lparr>bq_count := c, bq_maxCount := x\<rparr>) = fifo_content bq" for bq c x
    by (simp add: fifo_content_def fifo_slot_def split: option.split)
  show "fifo_inv n (bq\<lparr>bq_maxCount := x\<rparr>) = fifo_inv n bq" for n bq x
    by (simp add: fifo_inv_def fifo_slot_def)
  show "fifo_inv (Suc n) bq \<Longrightarrow> fifo_inv n bq" for n bq
    by (auto simp: fifo_inv_def)
qed (rule fifo_enqueue_ok fifo_dequeue_ok; assumption)+

section \<open>Properties\<close>

definition fifo_queue :: "(nat \<Rightarrow> U8 list option) \<Rightarrow> U32 \<Rightarrow> U32 \<Rightarrow> FIFOQueue BufferQueue option" where
  "fifo_queue mem depth msgSize =
     map_option snd (BufferQueue_create (fifo_initialize mem True) depth msgSize BufferQueue_new)"

text \<open>
  A FIFO queue whose data area fits 32-bit offsets behaves, for fewer than 2^32 operations,
  as a bounded list: a push appends unless the list has reached the depth, a pop returns the
  oldest message whole, and leaves the queue alone when the caller's buffer is too small.
  Priorities are neither stored nor returned. No assertion fails and no access leaves the area.
\<close>

theorem fifo_queue_is_bounded_list:
  assumes "mem (unat depth * (4 + unat msgSize)) = Some data"
    and "length data = unat depth * (4 + unat msgSize)" "length data < 4294967296"
    and "\<forall>x \<in> set xs. bq_op_ok (unat msgSize) x" "length xs < 4294967296"
  shows "\<exists>bq bq'. fifo_queue mem depth msgSize = Some bq \<and>
    run_steps (bq_step fifo_enqueue fifo_dequeue) xs bq =
      Some (fst (run_spec (message_spec (\<lambda>e q. q @ [(0, snd e)]) (\<lambda>p old. old) (\<lambda>q. q)) xs
        \<lparr>ml_depth = unat depth, ml_msgSize = unat msgSize, ml_maxCount = 0, ml_entries = []\<rparr>), bq')"
proof -
  let ?bq = "\<lparr>bq_queue = Some \<lparr>ff_data = data, ff_head = 0, ff_tail = 0\<rparr>, bq_msgSize = msgSize,
    bq_depth = depth, bq_count = 0, bq_maxCount = 0\<rparr>"
  have new: "fifo_queue mem depth msgSize = Some ?bq"
    using assms(1) by (simp add: fifo_queue_def BufferQueue_create_def BufferQueue_new_def fifo_initialize_def)
  have inv: "bq_inv fifo_inv (unat msgSize) (length xs + 0) ?bq"
    using assms(2,3,5) by (auto simp: bq_inv_def fifo_inv_def)
  have abs: "bq_abs fifo_content ?bq =
      \<lparr>ml_depth = unat depth, ml_msgSize = unat msgSize, ml_maxCount = 0, ml_entries = []\<rparr>"
    by (simp add: bq_abs_def fifo_content_def)
  have ins: "fifo_ins = (\<lambda>e q. q @ [(0, snd e)])" by (intro ext) (simp add: fifo_ins_def)
  show ?thesis
    using fifo.bounded.run_refines [OF inv assms(4)] unfolding abs ins using new by blast
qed

text \<open>
  Depth 2, messages of up to 3 bytes: the third push is refused, the small buffer gets the size
  it would need, and the messages leave in the order they came.
\<close>

definition fifo_demo :: "bq_op list" where
  "fifo_demo = [QPush [1, 2] 9, QPush [3] 0, QPush [4] 0, QPop [0] 0, QPop [0, 0, 0] 0, QPop [0, 0] 0]"

lemma fifo_queue_is_bounded_list_witness:
  "\<exists>bq. fifo_queue (\<lambda>n. Some (replicate n 0)) 2 3 = Some bq \<and>
    map_option fst (run_steps (bq_step fifo_enqueue fifo_dequeue) fifo_demo bq) =
      Some [QPushed True, QPushed True, QPushed False, QPopped False [0] 2 0,
        QPopped True [1, 2, 0] 2 0, QPopped True [3, 0] 1 0]"
  using fifo_queue_is_bounded_list [of "\<lambda>n. Some (replicate n 0)" 2 3 "replicate 14 0" fifo_demo]
  by (auto simp: fifo_demo_def)

end
