(* ===== verification/Os_Queue.thy ===== *)
theory Os_Queue
  imports Priority_Queue Fifo_Queue
begin

text \<open>
  Os/Pthreads/Queue.cpp and Os/QueueCommon.cpp: the message queue between threads. Every send
  and receive is one or more critical sections under the queue's mutex; a blocking call waits on
  a condition variable between its sections. The sections are functions, the interleaving of
  threads is a step relation. \<open>enqueue\<close> and \<open>dequeue\<close> are the store that is linked in.
\<close>

section \<open>Critical sections\<close>

datatype QueueStatus =
  QUEUE_OK | QUEUE_NO_MORE_MSGS | QUEUE_UNINITIALIZED | QUEUE_SIZE_MISMATCH | QUEUE_SEND_ERROR |
  QUEUE_RECEIVE_ERROR | QUEUE_INVALID_PRIORITY | QUEUE_EMPTY_BUFFER | QUEUE_FULL | QUEUE_UNKNOWN_ERROR

datatype QueueBlocking = QUEUE_BLOCKING | QUEUE_NONBLOCKING

text \<open>Which condition variable a section signals.\<close>

datatype cond_signal = Signal_NotEmpty | Signal_NotFull

definition sendNonBlock ::
  "'q enqueue_fun \<Rightarrow> 'q BufferQueue \<Rightarrow> U8 list \<Rightarrow> U32 \<Rightarrow> I32 \<Rightarrow>
   (QueueStatus \<times> cond_signal list \<times> 'q BufferQueue) option" where
  "sendNonBlock enqueue bq buffer sz priority = do {
     (pushSucceeded, bq) \<leftarrow> BufferQueue_push enqueue bq buffer sz priority;
     if pushSucceeded then Some (QUEUE_OK, [Signal_NotEmpty], bq) else Some (QUEUE_FULL, [], bq)
   }"

text \<open>
  The blocking calls, from taking the mutex to the next wait or to the return: no status means
  that the thread waits on the condition variable and tries again when it wakes up.
\<close>

definition sendBlock ::
  "'q enqueue_fun \<Rightarrow> 'q BufferQueue \<Rightarrow> U8 list \<Rightarrow> U32 \<Rightarrow> I32 \<Rightarrow>
   (QueueStatus option \<times> cond_signal list \<times> 'q BufferQueue) option" where
  "sendBlock enqueue bq buffer sz priority =
     (if bq_isFull bq then Some (None, [], bq)
      else do {
        (pushSucceeded, bq) \<leftarrow> BufferQueue_push enqueue bq buffer sz priority;
        fw_assert pushSucceeded;
        Some (Some QUEUE_OK, [Signal_NotEmpty], bq)
      })"

text \<open>What a receive writes back: the buffer, \<open>actualSize\<close> and \<open>priority\<close>.\<close>

record received =
  rc_buffer :: "U8 list"
  rc_actualSize :: I32
  rc_priority :: I32

definition receiveNonBlock ::
  "'q dequeue_fun \<Rightarrow> 'q BufferQueue \<Rightarrow> received \<Rightarrow> I32 \<Rightarrow>
   (QueueStatus \<times> received \<times> cond_signal list \<times> 'q BufferQueue) option" where
  "receiveNonBlock dequeue bq r capacity = do {
     (popSucceeded, buffer, sz, pri, bq) \<leftarrow> BufferQueue_pop dequeue bq (rc_buffer r) capacity 0;
     if popSucceeded then
       Some (QUEUE_OK, r\<lparr>rc_buffer := buffer, rc_actualSize := sz, rc_priority := pri\<rparr>, [Signal_NotFull], bq)
     else
       let r = r\<lparr>rc_buffer := buffer, rc_actualSize := 0\<rparr> in
       if sz > capacity then Some (QUEUE_SIZE_MISMATCH, r, [], bq)
       else if sz = 0 then Some (QUEUE_NO_MORE_MSGS, r, [], bq)
       else None
   }"

definition receiveBlock ::
  "'q dequeue_fun \<Rightarrow> 'q BufferQueue \<Rightarrow> received \<Rightarrow> I32 \<Rightarrow>
   (QueueStatus option \<times> received \<times> cond_signal list \<times> 'q BufferQueue) option" where
  "receiveBlock dequeue bq r capacity =
     (if bq_isEmpty bq then Some (None, r, [], bq)
      else do {
        (popSucceeded, buffer, sz, pri, bq) \<leftarrow> BufferQueue_pop dequeue bq (rc_buffer r) capacity 0;
        if popSucceeded then
          Some (Some QUEUE_OK, r\<lparr>rc_buffer := buffer, rc_actualSize := sz, rc_priority := pri\<rparr>,
            [Signal_NotFull], bq)
        else
          let r = r\<lparr>rc_buffer := buffer, rc_actualSize := 0\<rparr> in
          if sz > capacity then Some (Some QUEUE_SIZE_MISMATCH, r, [], bq)
          else None
      })"

section \<open>The calls\<close>

text \<open>
  The handle is null, a live queue, or a pointer to a queue that was deleted: a second
  \<open>createInternal\<close> deletes the old queue first and keeps its address when memory runs out.
\<close>

datatype 'q queue_handle = No_Handle | Live "'q BufferQueue" | Freed

text \<open>
  A call that returns before it takes the mutex returns its status, the others start with a
  critical section. A call on a deleted queue has no result.
\<close>

datatype queue_call =
    Returns QueueStatus
  | Runs_send QueueBlocking "U8 list" U32 I32
  | Runs_receive QueueBlocking received I32

definition Queue_send ::
  "'q queue_handle \<Rightarrow> U8 list option \<Rightarrow> I32 \<Rightarrow> I32 \<Rightarrow> QueueBlocking \<Rightarrow> queue_call option" where
  "Queue_send handle buffer sz priority block =
     (case handle of
        No_Handle \<Rightarrow> Some (Returns QUEUE_UNINITIALIZED)
      | Freed \<Rightarrow> (if buffer = None then Some (Returns QUEUE_EMPTY_BUFFER)
          else if sint sz < 0 then Some (Returns QUEUE_SIZE_MISMATCH) else None)
      | Live bq \<Rightarrow>
          (case buffer of
             None \<Rightarrow> Some (Returns QUEUE_EMPTY_BUFFER)
           | Some bytes \<Rightarrow>
               if sint sz < 0 \<or> sz > bq_getMsgSize bq then Some (Returns QUEUE_SIZE_MISMATCH)
               else Some (Runs_send block bytes sz priority)))"

definition Queue_receive ::
  "'q queue_handle \<Rightarrow> received \<Rightarrow> I32 \<Rightarrow> QueueBlocking \<Rightarrow> queue_call option" where
  "Queue_receive handle r capacity block =
     (if handle = No_Handle then Some (Returns QUEUE_UNINITIALIZED)
      else if sint capacity < 0 then Some (Returns QUEUE_SIZE_MISMATCH)
      else if handle = Freed then None
      else Some (Runs_receive block r capacity))"

text \<open>\<open>got\<close> says whether the handle itself could be allocated.\<close>

definition createInternal ::
  "bool \<Rightarrow> (U32 \<Rightarrow> U32 \<Rightarrow> 'q option option) \<Rightarrow> U32 \<Rightarrow> U32 \<Rightarrow> 'q queue_handle \<Rightarrow>
   (QueueStatus \<times> 'q queue_handle) option" where
  "createInternal got initialize depth msgSize handle = do {
     fw_assert (handle \<noteq> Freed);
     let handle = (if handle \<noteq> No_Handle then Freed else No_Handle);
     if \<not> got then Some (QUEUE_UNINITIALIZED, handle)
     else do {
       (ok, bq) \<leftarrow> BufferQueue_create initialize depth msgSize BufferQueue_new;
       if \<not> ok then Some (QUEUE_UNINITIALIZED, handle) else Some (QUEUE_OK, Live bq)
     }
   }"

definition Queue_create ::
  "bool \<Rightarrow> (U32 \<Rightarrow> U32 \<Rightarrow> 'q option option) \<Rightarrow> I32 \<Rightarrow> I32 \<Rightarrow> 'q queue_handle \<Rightarrow>
   (QueueStatus \<times> 'q queue_handle) option" where
  "Queue_create got initialize depth msgSize handle = do {
     fw_assert (0 < sint depth);
     fw_assert (0 < sint msgSize);
     createInternal got initialize depth msgSize handle
   }"

fun handle_number :: "('q BufferQueue \<Rightarrow> U32) \<Rightarrow> 'q queue_handle \<Rightarrow> I32 option" where
  "handle_number get No_Handle = Some 0"
| "handle_number get (Live bq) = Some (get bq)"
| "handle_number get Freed = None"

definition Queue_getNumMsgs :: "'q queue_handle \<Rightarrow> I32 option" where
  "Queue_getNumMsgs = handle_number bq_getCount"

definition Queue_getMaxMsgs :: "'q queue_handle \<Rightarrow> I32 option" where
  "Queue_getMaxMsgs = handle_number bq_getMaxCount"

definition Queue_getQueueSize :: "'q queue_handle \<Rightarrow> I32 option" where
  "Queue_getQueueSize = handle_number bq_getDepth"

definition Queue_getMsgSize :: "'q queue_handle \<Rightarrow> I32 option" where
  "Queue_getMsgSize = handle_number bq_getMsgSize"

text \<open>The overloads on serialize buffers (QueueCommon.cpp).\<close>

definition Queue_send_buffer ::
  "'q queue_handle \<Rightarrow> ser_buf \<Rightarrow> I32 \<Rightarrow> QueueBlocking \<Rightarrow> queue_call option" where
  "Queue_send_buffer handle buffer priority block =
     Queue_send handle (if m_null buffer then None else Some (m_data buffer)) (getBuffLength buffer) priority block"

text \<open>What is left to do when the receive underneath has returned.\<close>

definition Queue_receive_finish :: "QueueStatus \<Rightarrow> received \<Rightarrow> ser_buf \<Rightarrow> QueueStatus \<times> ser_buf" where
  "Queue_receive_finish recvStat r buffer =
     (let buffer = buffer\<lparr>m_data := rc_buffer r\<rparr> in
      if recvStat = QUEUE_OK then
        (let (stat, buffer) = setBuffLen buffer (rc_actualSize r) in
         (if stat = FW_SERIALIZE_OK then QUEUE_OK else QUEUE_SIZE_MISMATCH, buffer))
      else (recvStat, buffer))"

section \<open>Threads\<close>

text \<open>
  The threads of one queue: those waiting on either condition variable and those that were woken
  up and have not had the mutex since. A waiting thread is its pending call.
\<close>

type_synonym send_call = "U8 list \<times> I32"
type_synonym recv_call = "U8 list"

record 'q queue_system =
  qs_queue :: "'q BufferQueue"
  qs_notFull :: "send_call list"
  qs_notEmpty :: "recv_call list"
  qs_awakeSend :: "send_call list"
  qs_awakeRecv :: "recv_call list"

text \<open>\<open>pthread_cond_signal\<close> wakes one of the waiting threads, or nobody when none waits.\<close>

inductive signals :: "cond_signal list \<Rightarrow> 'q queue_system \<Rightarrow> 'q queue_system \<Rightarrow> bool" where
  no_signal: "signals [] s s"
| nobody_receives: "qs_notEmpty s = [] \<Longrightarrow> signals [Signal_NotEmpty] s s"
| wakes_receiver: "qs_notEmpty s = xs @ c # ys \<Longrightarrow>
    signals [Signal_NotEmpty] s (s\<lparr>qs_notEmpty := xs @ ys, qs_awakeRecv := c # qs_awakeRecv s\<rparr>)"
| nobody_sends: "qs_notFull s = [] \<Longrightarrow> signals [Signal_NotFull] s s"
| wakes_sender: "qs_notFull s = xs @ c # ys \<Longrightarrow>
    signals [Signal_NotFull] s (s\<lparr>qs_notFull := xs @ ys, qs_awakeSend := c # qs_awakeSend s\<rparr>)"

text \<open>A blocking call that has the mutex runs a section: it ends or it waits.\<close>

definition blank :: "U8 list \<Rightarrow> received" where
  "blank buffer = \<lparr>rc_buffer = buffer, rc_actualSize = 0, rc_priority = 0\<rparr>"

inductive tries_send :: "'q enqueue_fun \<Rightarrow> send_call \<Rightarrow> 'q queue_system \<Rightarrow> 'q queue_system \<Rightarrow> bool"
  for enqueue where
  send_ends: "sendBlock enqueue (qs_queue s) buffer (of_nat (length buffer)) priority = Some (Some stat, sig, bq) \<Longrightarrow>
    signals sig (s\<lparr>qs_queue := bq\<rparr>) t \<Longrightarrow> tries_send enqueue (buffer, priority) s t"
| send_waits: "sendBlock enqueue (qs_queue s) buffer (of_nat (length buffer)) priority = Some (None, sig, bq) \<Longrightarrow>
    tries_send enqueue (buffer, priority) s (s\<lparr>qs_queue := bq, qs_notFull := (buffer, priority) # qs_notFull s\<rparr>)"

inductive tries_receive :: "'q dequeue_fun \<Rightarrow> recv_call \<Rightarrow> 'q queue_system \<Rightarrow> 'q queue_system \<Rightarrow> bool"
  for dequeue where
  receive_ends: "receiveBlock dequeue (qs_queue s) (blank buffer) (of_nat (length buffer)) = Some (Some stat, r, sig, bq) \<Longrightarrow>
    signals sig (s\<lparr>qs_queue := bq\<rparr>) t \<Longrightarrow> tries_receive dequeue buffer s t"
| receive_waits: "receiveBlock dequeue (qs_queue s) (blank buffer) (of_nat (length buffer)) = Some (None, r, sig, bq) \<Longrightarrow>
    tries_receive dequeue buffer s (s\<lparr>qs_queue := bq, qs_notEmpty := buffer # qs_notEmpty s\<rparr>)"

text \<open>
  One step of the system. Messages sent have at most \<open>m\<close> bytes, as \<open>send\<close> checks; \<open>room\<close> says
  which buffers receivers bring. Waiting threads may also wake up without a signal.
\<close>

inductive queue_step ::
  "'q enqueue_fun \<Rightarrow> 'q dequeue_fun \<Rightarrow> nat \<Rightarrow> (nat \<Rightarrow> bool) \<Rightarrow> 'q queue_system \<Rightarrow> 'q queue_system \<Rightarrow> bool"
  for enqueue dequeue m room where
  send_nonblocking: "length buffer \<le> m \<Longrightarrow>
    sendNonBlock enqueue (qs_queue s) buffer (of_nat (length buffer)) priority = Some (stat, sig, bq) \<Longrightarrow>
    signals sig (s\<lparr>qs_queue := bq\<rparr>) t \<Longrightarrow> queue_step enqueue dequeue m room s t"
| send_blocking: "length (fst c) \<le> m \<Longrightarrow> tries_send enqueue c s t \<Longrightarrow> queue_step enqueue dequeue m room s t"
| send_resumes: "qs_awakeSend s = xs @ c # ys \<Longrightarrow> tries_send enqueue c (s\<lparr>qs_awakeSend := xs @ ys\<rparr>) t \<Longrightarrow>
    queue_step enqueue dequeue m room s t"
| receive_nonblocking: "room (length buffer) \<Longrightarrow>
    receiveNonBlock dequeue (qs_queue s) (blank buffer) (of_nat (length buffer)) = Some (stat, r, sig, bq) \<Longrightarrow>
    signals sig (s\<lparr>qs_queue := bq\<rparr>) t \<Longrightarrow> queue_step enqueue dequeue m room s t"
| receive_blocking: "room (length c) \<Longrightarrow> tries_receive dequeue c s t \<Longrightarrow> queue_step enqueue dequeue m room s t"
| receive_resumes: "qs_awakeRecv s = xs @ c # ys \<Longrightarrow> tries_receive dequeue c (s\<lparr>qs_awakeRecv := xs @ ys\<rparr>) t \<Longrightarrow>
    queue_step enqueue dequeue m room s t"
| sender_wakes: "qs_notFull s = xs @ c # ys \<Longrightarrow>
    queue_step enqueue dequeue m room s (s\<lparr>qs_notFull := xs @ ys, qs_awakeSend := c # qs_awakeSend s\<rparr>)"
| receiver_wakes: "qs_notEmpty s = xs @ c # ys \<Longrightarrow>
    queue_step enqueue dequeue m room s (s\<lparr>qs_notEmpty := xs @ ys, qs_awakeRecv := c # qs_awakeRecv s\<rparr>)"

inductive queue_runs ::
  "'q enqueue_fun \<Rightarrow> 'q dequeue_fun \<Rightarrow> nat \<Rightarrow> (nat \<Rightarrow> bool) \<Rightarrow> nat \<Rightarrow> 'q queue_system \<Rightarrow> 'q queue_system \<Rightarrow> bool"
  for enqueue dequeue m room where
  runs_none: "queue_runs enqueue dequeue m room 0 s s"
| runs_step: "queue_runs enqueue dequeue m room k s t \<Longrightarrow> queue_step enqueue dequeue m room t u \<Longrightarrow>
    queue_runs enqueue dequeue m room (Suc k) s u"

definition new_system :: "'q BufferQueue \<Rightarrow> 'q queue_system" where
  "new_system bq = \<lparr>qs_queue = bq, qs_notFull = [], qs_notEmpty = [], qs_awakeSend = [], qs_awakeRecv = []\<rparr>"

section \<open>No wake-up is lost\<close>

text \<open>Each section is one push or pop and signals exactly when it succeeded.\<close>

lemma sendNonBlockE:
  assumes "sendNonBlock enqueue bq buffer sz priority = Some (stat, sig, bq')"
  obtains ok where "BufferQueue_push enqueue bq buffer sz priority = Some (ok, bq')"
    "sig = (if ok then [Signal_NotEmpty] else [])"
proof (cases "BufferQueue_push enqueue bq buffer sz priority")
  case (Some r)
  then show ?thesis using assms that by (cases r) (auto simp: sendNonBlock_def split: if_splits)
qed (use assms in \<open>simp add: sendNonBlock_def\<close>)

lemma receiveNonBlockE:
  assumes "receiveNonBlock dequeue bq r capacity = Some (stat, r', sig, bq')"
  obtains ok buffer sz pri where
    "BufferQueue_pop dequeue bq (rc_buffer r) capacity 0 = Some (ok, buffer, sz, pri, bq')"
    "sig = (if ok then [Signal_NotFull] else [])"
proof (cases "BufferQueue_pop dequeue bq (rc_buffer r) capacity 0")
  case (Some p)
  obtain ok buffer sz pri b where "p = (ok, buffer, sz, pri, b)" by (cases p)
  then show ?thesis using assms that [of ok buffer sz pri] Some
    by (auto simp: receiveNonBlock_def Let_def split: if_splits)
qed (use assms in \<open>simp add: receiveNonBlock_def\<close>)

context message_store
begin

lemma ins_length:
  assumes "store_inv (Suc n) bq" "bq_count bq < bq_depth bq" "length buffer \<le> unat (bq_msgSize bq)"
  shows "length (ins (priority, buffer) (content bq)) = Suc (length (content bq))"
proof -
  obtain q where q: "store_inv n (bq\<lparr>bq_queue := q, bq_count := bq_count bq + 1\<rparr>)"
    "content (bq\<lparr>bq_queue := q\<rparr>) = ins (priority, buffer) (content bq)"
    using enqueue_ok [OF assms] by blast
  have "unat (bq_count bq) < unat (bq_depth bq)" using assms(2) by (simp add: word_less_nat_alt)
  then have "unat (bq_count bq) + 1 < 4294967296" using unat_lt32 [of "bq_depth bq"] by linarith
  then have "unat (bq_count bq + 1) = Suc (unat (bq_count bq))" by (simp add: unat_add_small)
  then show ?thesis
    using content_count [OF q(1)] content_count [OF assms(1)] q(2)
      content_set_count [where bq = "bq\<lparr>bq_queue := q\<rparr>"] by simp
qed

text \<open>The number of messages after a push and after a pop into a buffer that fits them all.\<close>

lemma push_effect:
  assumes "bq_inv store_inv m (Suc n) bq" "length buffer \<le> m"
    and "BufferQueue_push enqueue bq buffer (of_nat (length buffer)) priority = Some (ok, bq')"
  shows "bq_inv store_inv m n bq' \<and> bq_depth bq' = bq_depth bq \<and>
    (ok \<longleftrightarrow> length (content bq) < unat (bq_depth bq)) \<and>
    length (content bq') = length (content bq) + of_bool ok"
proof -
  have inv: "store_inv (Suc n) bq" "unat (bq_msgSize bq) = m" using assms(1) by (simp_all add: bq_inv_def)
  note cc = content_count [OF inv(1)]
  have le: "length (content bq) \<le> unat (bq_depth bq)" using cc by (simp add: word_le_nat_alt)
  have "length (ins (priority, buffer) (content bq)) = Suc (length (content bq))"
    if "length (content bq) < unat (bq_depth bq)"
    using ins_length [OF inv(1)] that assms(2) inv(2) cc by (simp add: word_less_nat_alt)
  moreover obtain bq2 where "bq_step enqueue dequeue (QPush buffer priority) bq =
      Some (fst (message_spec ins shown refused (QPush buffer priority) (bq_abs content bq)), bq2)"
    "bq_inv store_inv m n bq2"
    "bq_abs content bq2 = snd (message_spec ins shown refused (QPush buffer priority) (bq_abs content bq))"
    using push_refines [OF assms(1,2)] by blast
  ultimately show ?thesis
    using assms(3) le by (auto simp: bq_abs_def split: if_splits intro: word_unat_eq_iff [THEN iffD2])
qed

lemma pop_effect:
  assumes "bq_inv store_inv m (Suc n) bq" "m \<le> length buffer" "length buffer < 4294967296"
    and "BufferQueue_pop dequeue bq buffer (of_nat (length buffer)) priority = Some (ok, buffer', sz, pri, bq')"
  shows "bq_inv store_inv m n bq' \<and> bq_depth bq' = bq_depth bq \<and> (ok \<longleftrightarrow> content bq \<noteq> []) \<and>
    length (content bq') = length (content bq) - of_bool ok"
proof -
  have inv: "store_inv (Suc n) bq" "unat (bq_msgSize bq) = m" using assms(1) by (simp_all add: bq_inv_def)
  have fit: "\<not> length buffer < length msg" if "content bq = (p, msg) # rest" for p msg rest
    using entries_fit [OF inv(1), of p msg] that assms(2) inv(2) by simp
  obtain bq2 where "bq_step enqueue dequeue (QPop buffer priority) bq =
      Some (fst (message_spec ins shown refused (QPop buffer priority) (bq_abs content bq)), bq2)"
    "bq_inv store_inv m n bq2"
    "bq_abs content bq2 = snd (message_spec ins shown refused (QPop buffer priority) (bq_abs content bq))"
    using pop_refines [OF assms(1,3)] by blast
  then show ?thesis
    using assms(4) fit
    by (auto simp: bq_abs_def split: list.splits prod.splits intro: word_unat_eq_iff [THEN iffD2])
qed

text \<open>
  Waiting receivers may leave no more messages unclaimed than there are receivers awake, and the
  same for waiting senders and free places. \<open>a\<close> and \<open>b\<close> are the wake-ups still owed.
\<close>

definition owed :: "nat \<Rightarrow> (nat \<Rightarrow> bool) \<Rightarrow> nat \<Rightarrow> nat \<Rightarrow> nat \<Rightarrow> 'q queue_system \<Rightarrow> bool" where
  "owed m room n a b s \<longleftrightarrow>
     bq_inv store_inv m n (qs_queue s) \<and>
     (\<forall>c \<in> set (qs_notFull s @ qs_awakeSend s). length (fst c) \<le> m) \<and>
     (\<forall>c \<in> set (qs_notEmpty s @ qs_awakeRecv s). room (length c)) \<and>
     (qs_notFull s \<noteq> [] \<longrightarrow>
       unat (bq_depth (qs_queue s)) - length (content (qs_queue s)) \<le> length (qs_awakeSend s) + a) \<and>
     (qs_notEmpty s \<noteq> [] \<longrightarrow> length (content (qs_queue s)) \<le> length (qs_awakeRecv s) + b)"

lemma owed_mono: "owed m room n a b s \<Longrightarrow> a \<le> a' \<Longrightarrow> b \<le> b' \<Longrightarrow> owed m room n a' b' s"
  by (auto simp: owed_def)

lemma bq_inv_weaken: "bq_inv store_inv m (Suc n) bq \<Longrightarrow> bq_inv store_inv m n bq"
  by (auto simp: bq_inv_def inv_weaken)

lemma owed_weaken: "owed m room (Suc n) a b s \<Longrightarrow> owed m room n a b s"
  by (auto simp: owed_def bq_inv_weaken)

lemma signals_pay:
  "signals sig s t \<Longrightarrow> owed m room n a b s \<Longrightarrow>
     owed m room n (a - of_bool (sig = [Signal_NotFull])) (b - of_bool (sig = [Signal_NotEmpty])) t"
  by (induction rule: signals.induct) (auto simp: owed_def)

lemma owed_push:
  assumes "owed m room (Suc n) a b s" "a \<le> 1" "length buffer \<le> m"
    and "BufferQueue_push enqueue (qs_queue s) buffer (of_nat (length buffer)) priority = Some (ok, bq)"
  shows "owed m room n 0 (b + of_bool ok) (s\<lparr>qs_queue := bq\<rparr>)"
proof -
  have e: "bq_inv store_inv m n bq" "bq_depth bq = bq_depth (qs_queue s)"
    "ok \<longleftrightarrow> length (content (qs_queue s)) < unat (bq_depth (qs_queue s))"
    "length (content bq) = length (content (qs_queue s)) + of_bool ok"
    using push_effect [OF _ assms(3,4)] assms(1) by (auto simp: owed_def)
  show ?thesis using assms(1,2) e by (auto simp: owed_def split: if_splits)
qed

lemma owed_pop:
  assumes "owed m room (Suc n) a b s" "b \<le> 1" "m \<le> length buffer" "length buffer < 4294967296"
    and "BufferQueue_pop dequeue (qs_queue s) buffer (of_nat (length buffer)) priority =
      Some (ok, buffer', sz, pri, bq)"
  shows "owed m room n (a + of_bool ok) 0 (s\<lparr>qs_queue := bq\<rparr>)"
proof -
  have e: "bq_inv store_inv m n bq" "bq_depth bq = bq_depth (qs_queue s)"
    "ok \<longleftrightarrow> content (qs_queue s) \<noteq> []" "length (content bq) = length (content (qs_queue s)) - of_bool ok"
    using pop_effect [OF _ assms(3,4,5)] assms(1) by (auto simp: owed_def)
  show ?thesis using assms(1,2) e by (cases ok) (auto simp: owed_def)
qed

lemma full_empty:
  assumes "bq_inv store_inv m n bq"
  shows "bq_isFull bq \<longleftrightarrow> length (content bq) = unat (bq_depth bq)" "bq_isEmpty bq \<longleftrightarrow> content bq = []"
proof -
  have "store_inv n bq" using assms by (simp add: bq_inv_def)
  from content_count [OF this] show "bq_isFull bq \<longleftrightarrow> length (content bq) = unat (bq_depth bq)"
    "bq_isEmpty bq \<longleftrightarrow> content bq = []"
    by (auto simp: bq_isFull_def bq_isEmpty_def word_unat_eq_iff simp flip: length_0_conv)
qed

lemma tries_send_owed:
  assumes "tries_send enqueue c s t" "owed m room (Suc n) 1 0 s" "length (fst c) \<le> m"
  shows "owed m room n 0 0 t"
  using assms
proof (induction rule: tries_send.induct)
  case (send_ends s buffer priority stat sig bq t)
  then have b: "length buffer \<le> m" and sig: "sig = [Signal_NotEmpty]"
    and push: "BufferQueue_push enqueue (qs_queue s) buffer (of_nat (length buffer)) priority = Some (True, bq)"
    by (auto simp: sendBlock_def split: if_splits bind_splits)
  from owed_push [OF send_ends(3) _ b push] have "owed m room n 0 1 (s\<lparr>qs_queue := bq\<rparr>)" by simp
  from signals_pay [OF send_ends(2) this] show ?case by (simp add: sig)
next
  case (send_waits s buffer priority sig bq)
  then have "bq_isFull (qs_queue s)" "bq = qs_queue s"
    by (auto simp: sendBlock_def split: if_splits bind_splits)
  then show ?case
    using send_waits(2,3) full_empty(1) by (auto simp: owed_def intro: bq_inv_weaken)
qed

lemma tries_receive_owed:
  assumes "tries_receive dequeue c s t" "owed m room (Suc n) 0 1 s" "room (length c)"
    and "\<And>k. room k \<Longrightarrow> m \<le> k \<and> k < 4294967296"
  shows "owed m room n 0 0 t"
  using assms(1-3)
proof (induction rule: tries_receive.induct)
  case (receive_ends s buffer stat r sig bq t)
  have room: "m \<le> length buffer" "length buffer < 4294967296" using assms(4) receive_ends(4) by auto
  obtain ok buffer' sz pri where
    pop: "BufferQueue_pop dequeue (qs_queue s) buffer (of_nat (length buffer)) 0 = Some (ok, buffer', sz, pri, bq)"
    and sig: "sig = (if ok then [Signal_NotFull] else [])"
    using receive_ends(1) by (auto simp: receiveBlock_def blank_def Let_def split: if_splits bind_splits)
  have "owed m room n (of_bool ok) 0 (s\<lparr>qs_queue := bq\<rparr>)"
    using owed_pop [OF receive_ends(3) _ room pop] by simp
  from signals_pay [OF receive_ends(2) this] show ?case by (cases ok) (simp_all add: sig)
next
  case (receive_waits s buffer r sig bq)
  then have "bq_isEmpty (qs_queue s)" "bq = qs_queue s"
    by (auto simp: receiveBlock_def Let_def split: if_splits bind_splits)
  then show ?case
    using receive_waits(2,3) full_empty(2) by (auto simp: owed_def intro: bq_inv_weaken)
qed

lemma step_owed:
  assumes "queue_step enqueue dequeue m room s t" "owed m room (Suc n) 0 0 s"
    and room: "\<And>k. room k \<Longrightarrow> m \<le> k \<and> k < 4294967296"
  shows "owed m room n 0 0 t"
  using assms(1,2)
proof (induction rule: queue_step.induct)
  case (send_nonblocking buffer s priority stat sig bq t)
  obtain ok where
    push: "BufferQueue_push enqueue (qs_queue s) buffer (of_nat (length buffer)) priority = Some (ok, bq)"
    and sig: "sig = (if ok then [Signal_NotEmpty] else [])"
    using send_nonblocking(2) by (rule sendNonBlockE)
  have "owed m room n 0 (0 + of_bool ok) (s\<lparr>qs_queue := bq\<rparr>)"
    by (rule owed_push [OF send_nonblocking(4) _ send_nonblocking(1) push]) simp
  from signals_pay [OF send_nonblocking(3) this] show ?case unfolding sig by (cases ok) simp_all
next
  case (send_blocking c s t)
  have "owed m room (Suc n) 1 0 s" using owed_mono [OF send_blocking(3), of 1 0] by simp
  from tries_send_owed [OF send_blocking(2) this send_blocking(1)] show ?case .
next
  case (send_resumes s xs c ys t)
  have "owed m room (Suc n) 1 0 (s\<lparr>qs_awakeSend := xs @ ys\<rparr>)" "length (fst c) \<le> m"
    using send_resumes(1,3) by (auto simp: owed_def)
  from tries_send_owed [OF send_resumes(2) this] show ?case .
next
  case (receive_nonblocking buffer s stat r sig bq t)
  have fits: "m \<le> length buffer" "length buffer < 4294967296" using room receive_nonblocking(1) by auto
  obtain ok buffer' sz pri where
    pop: "BufferQueue_pop dequeue (qs_queue s) buffer (of_nat (length buffer)) 0 = Some (ok, buffer', sz, pri, bq)"
    and sig: "sig = (if ok then [Signal_NotFull] else [])"
    using receiveNonBlockE [OF receive_nonblocking(2)] by (metis blank_def received.select_convs(1))
  have "owed m room n (0 + of_bool ok) 0 (s\<lparr>qs_queue := bq\<rparr>)"
    by (rule owed_pop [OF receive_nonblocking(4) _ fits pop]) simp
  from signals_pay [OF receive_nonblocking(3) this] show ?case unfolding sig by (cases ok) simp_all
next
  case (receive_blocking c s t)
  have "owed m room (Suc n) 0 1 s" using owed_mono [OF receive_blocking(3), of 0 1] by simp
  from tries_receive_owed [OF receive_blocking(2) this receive_blocking(1) room] show ?case .
next
  case (receive_resumes s xs c ys t)
  have "owed m room (Suc n) 0 1 (s\<lparr>qs_awakeRecv := xs @ ys\<rparr>)" "room (length c)"
    using receive_resumes(1,3) by (auto simp: owed_def)
  from tries_receive_owed [OF receive_resumes(2) this room] show ?case .
next
  case (sender_wakes s xs c ys)
  then show ?case by (auto simp: owed_def intro: bq_inv_weaken)
next
  case (receiver_wakes s xs c ys)
  then show ?case by (auto simp: owed_def intro: bq_inv_weaken)
qed

lemma runs_owed:
  assumes "queue_runs enqueue dequeue m room k s t" "owed m room (k + n) 0 0 s"
    and "\<And>k. room k \<Longrightarrow> m \<le> k \<and> k < 4294967296"
  shows "owed m room n 0 0 t"
  using assms(1,2)
  by (induction arbitrary: n rule: queue_runs.induct) (auto intro: step_owed [OF _ _ assms(3)])

text \<open>With a buffer that is too small, a wake-up can be lost.\<close>

lemma small_buffer_strands:
  assumes "bq_inv store_inv m (Suc (Suc 0)) bq" "content bq = []" "0 < unat (bq_depth bq)" "0 < m"
    and "ins (0, [7]) [] = [(p, [7])]" "length (refused [(p, [7])]) = 1"
  shows "\<exists>s. queue_runs enqueue dequeue m (\<lambda>k. k \<le> 1) 4 (new_system bq) s \<and>
    length (content (qs_queue s)) = 1 \<and> qs_notEmpty s = [[0]] \<and> qs_awakeRecv s = [] \<and>
    qs_awakeSend s = [] \<and> bq_inv store_inv m 0 (qs_queue s)"
proof -
  let ?step = "queue_step enqueue dequeue m (\<lambda>k. k \<le> 1)" and ?sys = "new_system bq"
  have empty: "bq_isEmpty bq" using full_empty(2) [OF assms(1)] assms(2) by simp
  have wait: "receiveBlock dequeue bq (blank buffer) (of_nat (length buffer)) = Some (None, blank buffer, [], bq)"
    for buffer using empty by (simp add: receiveBlock_def)
  let ?s1 = "?sys\<lparr>qs_notEmpty := [[]]\<rparr>" and ?s2 = "?sys\<lparr>qs_notEmpty := [[0], []]\<rparr>"
  have q: "qs_queue (new_system bq) = bq" "qs_notEmpty (new_system bq) = []" "qs_awakeRecv (new_system bq) = []"
    "qs_notFull (new_system bq) = []" "qs_awakeSend (new_system bq) = []"
    by (simp_all add: new_system_def)
  have "tries_receive dequeue [] ?sys ?s1"
    using receive_waits [of dequeue ?sys "[]"] wait [of "[]"] by (simp add: new_system_def)
  then have 1: "?step ?sys ?s1" by (rule receive_blocking [rotated]) simp
  have "tries_receive dequeue [0] ?s1 ?s2"
    using receive_waits [of dequeue ?s1 "[0]"] wait [of "[0]"] by (simp add: new_system_def)
  then have 2: "?step ?s1 ?s2" by (rule receive_blocking [rotated]) simp
  obtain b1 where b1: "BufferQueue_push enqueue bq [7] 1 0 = Some (True, b1)"
    "bq_inv store_inv m (Suc 0) b1" "content b1 = [(p, [7])]"
    using assms(5) push_refines [OF assms(1), of "[7]" 0] assms(2-4)
    by (auto simp: bq_abs_def split: if_splits bind_splits)
  let ?s3 = "?sys\<lparr>qs_queue := b1, qs_notEmpty := [[0]], qs_awakeRecv := [[]]\<rparr>"
  have send: "sendNonBlock enqueue (qs_queue ?s2) [7] (of_nat (length [7::U8])) 0 =
      Some (QUEUE_OK, [Signal_NotEmpty], b1)"
    using b1(1) by (simp add: sendNonBlock_def q)
  have "signals [Signal_NotEmpty] (?s2\<lparr>qs_queue := b1\<rparr>) ?s3"
    using wakes_receiver [of "?s2\<lparr>qs_queue := b1\<rparr>" "[[0]]" "[]" "[]"] by (simp add: new_system_def)
  then have 3: "?step ?s2 ?s3" using send assms(4) by (intro send_nonblocking [of "[7]"]) auto
  obtain b2 pri where b2: "BufferQueue_pop dequeue b1 [] 0 0 = Some (False, [], 1, pri, b2)"
    "length (content b2) = 1" "bq_inv store_inv m 0 b2"
  proof -
    have one: "sz = 1" if "unat sz = Suc 0" for sz :: U32 using that by (simp add: word_unat_eq_iff)
    show ?thesis
      using that pop_refines [OF b1(2), of "[]" 0] b1(3) assms(6)
      by (auto simp: bq_abs_def split: bind_splits dest!: one)
  qed
  let ?s4 = "?sys\<lparr>qs_queue := b2, qs_notEmpty := [[0]]\<rparr>"
  have "\<not> bq_isEmpty b1" using full_empty(2) [OF b1(2)] b1(3) by simp
  then have "receiveBlock dequeue b1 (blank []) 0 = Some (Some QUEUE_SIZE_MISMATCH, blank [], [], b2)"
    using b2(1) by (simp add: receiveBlock_def blank_def)
  then have "tries_receive dequeue [] (?s3\<lparr>qs_awakeRecv := []\<rparr>) ?s4"
    using receive_ends [of dequeue "?s3\<lparr>qs_awakeRecv := []\<rparr>" "[]"] no_signal [of ?s4]
    by (simp add: new_system_def)
  then have 4: "?step ?s3 ?s4" by (intro receive_resumes [of _ "[]" "[]" "[]"]) simp_all
  note runs = runs_step [OF runs_step [OF runs_step [OF runs_step [OF runs_none 1] 2] 3] 4]
  have "queue_runs enqueue dequeue m (\<lambda>k. k \<le> 1) 4 ?sys ?s4"
    using runs by (simp add: eval_nat_numeral)
  then show ?thesis using b2(2,3) q by (intro exI [of _ ?s4]) simp
qed

end

section \<open>Properties\<close>

definition buffers_of_size :: "nat \<Rightarrow> nat \<Rightarrow> bool" where
  "buffers_of_size m k \<longleftrightarrow> m \<le> k \<and> k < 4294967296"

text \<open>
  C27: threads send to and receive from one priority queue in any interleaving of their critical
  sections, with spurious wake-ups, for fewer than 2^32 steps less the depth. When every receiver brings a buffer for the largest message,
  no wake-up is lost: while a receiver waits there are at least as many receivers awake as there
  are messages, and while a sender waits at least as many senders awake as there are free
  places. So a thread never sleeps on a queue that could serve it with nobody on the way.
\<close>

theorem no_lost_wakeup:
  assumes "memory_ok mem depth msgSize" "priority_queue mem depth msgSize = Some bq"
    and "queue_runs priority_enqueue priority_dequeue (unat msgSize) (buffers_of_size (unat msgSize)) k
      (new_system bq) s" "unat depth + k < 4294967296"
  shows "(qs_notEmpty s \<noteq> [] \<longrightarrow> unat (bq_count (qs_queue s)) \<le> length (qs_awakeRecv s)) \<and>
    (qs_notFull s \<noteq> [] \<longrightarrow>
      unat (bq_depth (qs_queue s)) - unat (bq_count (qs_queue s)) \<le> length (qs_awakeSend s))"
proof -
  let ?owed = "priority.owed (unat msgSize) (buffers_of_size (unat msgSize))"
  have "bq_inv priority_inv (unat msgSize) (k + 0) bq"
    using priority_queue_new [OF assms(1), of "k + 0"] assms(2,4) by auto
  then have "?owed (k + 0) 0 0 (new_system bq)" by (simp add: priority.owed_def new_system_def)
  from priority.runs_owed [OF assms(3) this] have o: "?owed 0 0 0 s" by (simp add: buffers_of_size_def)
  then have "priority_inv 0 (qs_queue s)" by (simp add: priority.owed_def bq_inv_def)
  from priority.content_count [OF this] o show ?thesis by (simp add: priority.owed_def)
qed

text \<open>
  A receiver whose buffer is too small takes the wake-up for a message, returns
  QUEUE_SIZE_MISMATCH and leaves the message in the queue without signalling again: another
  receiver, with a large enough buffer, then sleeps beside it with no thread awake.
\<close>

theorem small_buffer_strands_receiver:
  assumes "memory_ok mem depth msgSize" "priority_queue mem depth msgSize = Some bq"
    and "0 < unat msgSize" "unat depth < 4294967294"
  shows "\<exists>s. queue_runs priority_enqueue priority_dequeue (unat msgSize) (\<lambda>k. k \<le> 1) 4 (new_system bq) s \<and>
    bq_count (qs_queue s) = 1 \<and> qs_notEmpty s = [[0]] \<and> qs_awakeRecv s = [] \<and> qs_awakeSend s = []"
proof -
  have new: "bq_inv priority_inv (unat msgSize) (Suc (Suc 0)) bq"
    "bq_abs priority_content bq = empty_messages depth msgSize"
    using priority_queue_new [OF assms(1), of "Suc (Suc 0)"] assms(2,4) by auto
  have "0 < unat (bq_depth bq)" "priority_content bq = []"
    using new(2) assms(1) by (auto simp: bq_abs_def empty_messages_def memory_ok_def unat_gt_0)
  then obtain s where s: "queue_runs priority_enqueue priority_dequeue (unat msgSize) (\<lambda>k. k \<le> 1) 4 (new_system bq) s"
    "length (priority_content (qs_queue s)) = 1" "qs_notEmpty s = [[0]]" "qs_awakeRecv s = []" "qs_awakeSend s = []"
    "bq_inv priority_inv (unat msgSize) 0 (qs_queue s)"
    using priority.small_buffer_strands [OF new(1) _ _ assms(3)] by auto
  have "priority_inv 0 (qs_queue s)" using s(6) by (simp add: bq_inv_def)
  from priority.content_count [OF this] have "bq_count (qs_queue s) = 1"
    using s(2) by (simp add: word_unat_eq_iff)
  then show ?thesis using s by blast
qed

definition one_receiver :: "PriorityQueue BufferQueue \<Rightarrow> PriorityQueue queue_system" where
  "one_receiver bq = (new_system bq)\<lparr>qs_notEmpty := [[0]]\<rparr>"

text \<open>One receiver waits on the new queue, and there is no message for it.\<close>

lemma no_lost_wakeup_witness:
  "\<exists>bq. priority_queue demo_memory 3 1 = Some bq \<and>
    queue_runs priority_enqueue priority_dequeue 1 (buffers_of_size 1) 1 (new_system bq) (one_receiver bq) \<and>
    unat (bq_count (qs_queue (one_receiver bq))) = 0"
proof -
  have mem: "memory_ok demo_memory 3 1" by (simp add: memory_ok_def demo_memory_def)
  obtain bq where bq: "priority_queue demo_memory 3 1 = Some bq" "bq_inv priority_inv 1 0 bq"
    "bq_abs priority_content bq = empty_messages 3 1"
    using priority_queue_new [OF mem, of 0] by auto
  have "priority_content bq = []" using bq(3) by (simp add: bq_abs_def empty_messages_def)
  then have "bq_isEmpty bq" using priority.full_empty(2) [OF bq(2)] by simp
  then have "receiveBlock priority_dequeue bq (blank [0]) 1 = Some (None, blank [0], [], bq)"
    by (simp add: receiveBlock_def)
  then have "tries_receive priority_dequeue [0] (new_system bq) (one_receiver bq)"
    using receive_waits [of priority_dequeue "new_system bq" "[0]"]
    by (simp add: new_system_def one_receiver_def)
  then have "queue_step priority_enqueue priority_dequeue 1 (buffers_of_size 1) (new_system bq) (one_receiver bq)"
    by (rule receive_blocking [rotated]) (simp add: buffers_of_size_def)
  then have run: "queue_runs priority_enqueue priority_dequeue 1 (buffers_of_size 1) 1 (new_system bq) (one_receiver bq)"
    using runs_step [OF runs_none] by simp
  show ?thesis
    using no_lost_wakeup [OF mem bq(1), of 1 "one_receiver bq"] run bq(1)
    by (simp add: one_receiver_def new_system_def)
qed

lemma small_buffer_strands_receiver_witness:
  "\<exists>bq s. priority_queue demo_memory 3 1 = Some bq \<and>
    queue_runs priority_enqueue priority_dequeue 1 (\<lambda>k. k \<le> 1) 4 (new_system bq) s \<and>
    bq_count (qs_queue s) = 1 \<and> qs_notEmpty s = [[0]] \<and> qs_awakeRecv s = []"
proof -
  have mem: "memory_ok demo_memory 3 1" by (simp add: memory_ok_def demo_memory_def)
  obtain bq where "priority_queue demo_memory 3 1 = Some bq"
    using priority_queue_new [OF mem, of 0] by auto
  then show ?thesis using small_buffer_strands_receiver [OF mem, of bq] by auto
qed

end
