(* ===== verification/Fw_Strings.thy ===== *)
theory Fw_Strings
  imports Ser_Codecs
begin

text \<open>
  Fw/Types/StringUtils.cpp and StringType.cpp: the fixed-size character strings of the framework.
  A \<open>StringBase\<close> object is the list of the characters of its array, whose length is the
  capacity. Reading or writing behind an array has no result. The text of an object is what
  stands before its first null byte; the lemmas say what each operation does to the text, and
  that an object survives serialization into an object of another capacity.
\<close>

section \<open>String utilities\<close>

text \<open>
  \<open>StringUtils::string_length\<close>: the characters before the first null byte, at most
  \<open>max_len\<close>.
\<close>

fun string_length_loop :: "U8 list \<Rightarrow> nat \<Rightarrow> U32 \<Rightarrow> U32 option" where
  "string_length_loop source 0 len = Some len"
| "string_length_loop [] (Suc n) len = None"
| "string_length_loop (c # source) (Suc n) len =
     (if c = 0 then Some len else string_length_loop source n (len + 1))"

definition string_length :: "U8 list option \<Rightarrow> U32 \<Rightarrow> U32 option" where
  "string_length source max_len = do {
     cs \<leftarrow> source;
     string_length_loop cs (unat max_len) 0
   }"

text \<open>A C string ends at its first null byte; \<open>LogStringArg\<close> keeps at most 99 characters.\<close>

definition C_string :: "U8 list \<Rightarrow> U8 list" where
  "C_string cs = takeWhile (\<lambda>c. c \<noteq> 0) cs"

definition path_string :: "U8 list \<Rightarrow> string" where
  "path_string cs = map (\<lambda>c. char_of (unat c)) (C_string cs)"

definition FW_LOG_STRING_MAX_SIZE :: nat where
  "FW_LOG_STRING_MAX_SIZE = 100"

definition LogStringArg_of :: "U8 list \<Rightarrow> U8 list" where
  "LogStringArg_of src = take (FW_LOG_STRING_MAX_SIZE - 1) (C_string src)"

text \<open>
  \<open>string_copy\<close> between objects that do not overlap: \<open>strncpy\<close> stops at the null byte of
  the source and fills up with null bytes, then the last character is overwritten.
\<close>

definition strncpy_chars :: "nat \<Rightarrow> U8 list \<Rightarrow> U8 list" where
  "strncpy_chars num source =
     (let cs = C_string (take num source) in cs @ replicate (num - length cs) 0)"

definition StringUtils_copy :: "U8 list \<Rightarrow> U8 list option \<Rightarrow> U32 \<Rightarrow> U8 list option" where
  "StringUtils_copy destination source num =
     (if num = 0 then Some destination
      else do {
        _ \<leftarrow> string_length source num;
        cs \<leftarrow> source;
        d \<leftarrow> write_at destination 0 (strncpy_chars (unat num) cs);
        Some (d[unat num - 1 := 0])
      })"

section \<open>String objects\<close>

definition getCapacity :: "U8 list \<Rightarrow> U32" where
  "getCapacity s = of_nat (length s)"

definition StringBase_length :: "U8 list \<Rightarrow> U32 option" where
  "StringBase_length s = string_length (Some s) (getCapacity s)"

definition StringBase_assign :: "U8 list \<Rightarrow> U8 list option \<Rightarrow> U8 list option" where
  "StringBase_assign s other = StringUtils_copy s other (getCapacity s)"

text \<open>\<open>strncmp\<close>, as far as the comparison operators use it.\<close>

fun strncmp_equal :: "nat \<Rightarrow> U8 list \<Rightarrow> U8 list \<Rightarrow> bool option" where
  "strncmp_equal 0 us other = Some True"
| "strncmp_equal (Suc n) (a # us) (b # other) =
     (if a \<noteq> b then Some False else if a = 0 then Some True else strncmp_equal n us other)"
| "strncmp_equal (Suc n) us other = None"

definition StringBase_eq_chars :: "U8 list \<Rightarrow> U8 list option \<Rightarrow> bool option" where
  "StringBase_eq_chars s other =
     (case other of None \<Rightarrow> Some False | Some cs \<Rightarrow> strncmp_equal (unat (getCapacity s)) s cs)"

definition StringBase_eq :: "U8 list \<Rightarrow> U8 list \<Rightarrow> bool option" where
  "StringBase_eq s other = do {
     len \<leftarrow> StringBase_length s;
     other_len \<leftarrow> StringBase_length other;
     if len \<noteq> other_len then Some False else StringBase_eq_chars s (Some other)
   }"

text \<open>\<open>strncat\<close> copies up to \<open>n\<close> characters behind the text and ends it again.\<close>

definition strncat_chars :: "U8 list \<Rightarrow> nat \<Rightarrow> U8 list \<Rightarrow> nat \<Rightarrow> U8 list option" where
  "strncat_chars s len buff n = do {
     fw_assert (n \<le> length buff \<or> 0 \<in> set buff);
     write_at s len (C_string (take n buff) @ [0])
   }"

definition appendBuff :: "U8 list \<Rightarrow> U8 list \<Rightarrow> U32 \<Rightarrow> U8 list option" where
  "appendBuff s buff count = do {
     len \<leftarrow> StringBase_length s;
     fw_assert (getCapacity s > len);
     let remaining = (if count < getCapacity s - len - 1 then count else getCapacity s - len - 1);
     fw_assert (remaining < getCapacity s);
     strncat_chars s (unat len) buff (unat remaining)
   }"

definition StringBase_append_chars :: "U8 list \<Rightarrow> U8 list option \<Rightarrow> U8 list option" where
  "StringBase_append_chars s src = do {
     count \<leftarrow> string_length src (getCapacity s);
     cs \<leftarrow> src;
     appendBuff s cs count
   }"

definition StringBase_append :: "U8 list \<Rightarrow> U8 list \<Rightarrow> U8 list option" where
  "StringBase_append s src = do {
     count \<leftarrow> StringBase_length src;
     appendBuff s src count
   }"

text \<open>
  The two forms of \<open>serialize\<close>, and \<open>deserialize\<close>: the size passed by reference comes back
  as the number of bytes read, so that the null byte goes behind them; when reading fails it is
  still the last index of the array.
\<close>

definition StringBase_serialize ::
  "U8 list \<Rightarrow> ser_buf \<Rightarrow> (SerializeStatus \<times> ser_buf) option" where
  "StringBase_serialize s buffer = do {
     len \<leftarrow> StringBase_length s;
     serialize_bytes buffer s len False
   }"

definition StringBase_serialize_max ::
  "U8 list \<Rightarrow> ser_buf \<Rightarrow> U32 \<Rightarrow> (SerializeStatus \<times> ser_buf) option" where
  "StringBase_serialize_max s buffer maxLength = do {
     len \<leftarrow> StringBase_length s;
     serialize_bytes buffer s (if maxLength < len then maxLength else len) False
   }"

definition StringBase_deserialize ::
  "U8 list \<Rightarrow> ser_buf \<Rightarrow> (SerializeStatus \<times> U8 list \<times> ser_buf) option" where
  "StringBase_deserialize s buffer = do {
     let maxSize = getCapacity s - 1;
     (r, buffer) \<leftarrow> deserialize_bytes buffer maxSize False;
     case r of
       Inr bs \<Rightarrow> do {
         raw \<leftarrow> write_at s 0 (bs @ [0]);
         Some (FW_SERIALIZE_OK, raw, buffer)
       }
     | Inl e \<Rightarrow> do {
         raw \<leftarrow> write_at s (unat maxSize) [0];
         Some (e, raw, buffer)
       }
   }"

section \<open>The text of a string object\<close>

text \<open>An object holds a text if its array has a null byte.\<close>

definition string_wf :: "U8 list \<Rightarrow> bool" where
  "string_wf s \<longleftrightarrow> 0 \<in> set s \<and> length s < 2147483648"

lemma C_string_simps [simp]:
  "C_string [] = []" "C_string (c # cs) = (if c = 0 then [] else c # C_string cs)"
  by (simp_all add: C_string_def)

lemma length_C_string: "length (C_string cs) \<le> length cs"
  by (simp add: C_string_def length_takeWhile_le)

lemma C_string_append: "0 \<in> set xs \<Longrightarrow> C_string (xs @ ys) = C_string xs"
  by (auto simp: C_string_def)

lemma C_string_ended: "0 \<notin> set xs \<Longrightarrow> C_string (xs @ 0 # ys) = xs"
  by (induction xs) auto

lemma C_string_no_null: "0 \<notin> set (C_string cs)"
  by (auto simp: C_string_def dest: set_takeWhileD)

lemma C_string_id: "0 \<notin> set cs \<Longrightarrow> C_string cs = cs"
  by (auto simp: C_string_def)

lemma C_string_lt: "0 \<in> set cs \<Longrightarrow> length (C_string cs) < length cs"
  by (induction cs) auto

lemma C_string_take: "C_string (take n cs) = take n (C_string cs)"
  by (induction cs arbitrary: n) (auto simp: take_Cons split: nat.splits)

lemma take_C_string: "n \<le> length (C_string cs) \<Longrightarrow> take n cs = take n (C_string cs)"
  by (induction cs arbitrary: n) (auto simp: take_Cons split: nat.splits if_splits)

lemma string_length_loop_eq:
  "n \<le> length cs \<or> 0 \<in> set cs \<Longrightarrow>
     string_length_loop cs n len = Some (len + of_nat (min n (length (C_string cs))))"
proof (induction cs n len rule: string_length_loop.induct)
  case (3 c source n len)
  then show ?case
    by (cases "c = 0") (auto simp: add.assoc)
qed auto

lemma string_length_eq:
  "unat n \<le> length cs \<or> 0 \<in> set cs \<Longrightarrow>
     string_length (Some cs) n = Some (of_nat (min (unat n) (length (C_string cs))))"
  by (simp add: string_length_def string_length_loop_eq)

lemma unat_getCapacity: "string_wf s \<Longrightarrow> unat (getCapacity s) = length s"
  by (simp add: string_wf_def getCapacity_def unat_of_nat32)

lemma StringBase_length_eq:
  assumes "string_wf s"
  shows "StringBase_length s = Some (of_nat (length (C_string s)))"
  using assms length_C_string [of s] unat_getCapacity [OF assms]
  by (simp add: StringBase_length_def string_length_eq min_absorb2)

lemma text_size:
  assumes "string_wf s"
  shows "length (C_string s) < length s" "length s < 2147483648"
    "unat (of_nat (length (C_string s)) :: U32) = length (C_string s)"
  using assms C_string_lt [of s] by (auto simp: string_wf_def unat_of_nat32)

lemma strncmp_equal_text:
  "n \<le> length us \<Longrightarrow> 0 \<in> set us \<Longrightarrow> 0 \<in> set other \<Longrightarrow> length (C_string us) < n \<Longrightarrow>
     strncmp_equal n us other = Some (C_string us = C_string other)"
  by (induction n us other rule: strncmp_equal.induct) auto

text \<open>
  The comparison of two string objects, whatever their capacities and whatever stands behind their
  null bytes, is the comparison of their texts.
\<close>

lemma StringBase_eq_text:
  assumes "string_wf s" "string_wf other"
  shows "StringBase_eq s other = Some (C_string s = C_string other)"
proof -
  have "StringBase_eq_chars s (Some other) = Some (C_string s = C_string other)"
    using assms text_size [OF assms(1)] unat_getCapacity [OF assms(1)]
    by (simp add: StringBase_eq_chars_def strncmp_equal_text string_wf_def)
  moreover have "(of_nat (length (C_string s)) :: U32) = of_nat (length (C_string other)) \<longleftrightarrow>
      length (C_string s) = length (C_string other)"
    using text_size [OF assms(1)] text_size [OF assms(2)] by (metis unat_of_nat32 text_size(3) assms)
  ultimately show ?thesis
    using assms by (auto simp: StringBase_eq_def StringBase_length_eq)
qed

text \<open>Assignment keeps the capacity and copies as much of the text as fits.\<close>

lemma StringBase_assign_text:
  assumes "string_wf s" "0 \<in> set src"
  shows "\<exists>s'. StringBase_assign s (Some src) = Some s' \<and> string_wf s' \<and> length s' = length s \<and>
    C_string s' = take (length s - 1) (C_string src)"
proof -
  define n where "n = length s"
  have n: "0 < n" "unat (getCapacity s) = n" "getCapacity s \<noteq> 0"
    using assms(1) unat_getCapacity [OF assms(1)]
    by (auto simp: n_def string_wf_def getCapacity_def intro: length_pos_if_in_set)
  let ?t = "take n (C_string src)"
  have c: "strncpy_chars n src = ?t @ replicate (n - length ?t) 0"
    by (simp add: strncpy_chars_def C_string_take Let_def)
  let ?d = "(?t @ replicate (n - length ?t) 0)[n - 1 := 0]"
  have "string_length (Some src) (getCapacity s) \<noteq> None"
    using assms(2) by (simp add: string_length_eq)
  moreover have "write_at s 0 (strncpy_chars n src) = Some (?t @ replicate (n - length ?t) 0)"
    unfolding c write_at_def by (simp add: n_def)
  ultimately have r: "StringBase_assign s (Some src) = Some ?d"
    using n by (auto simp: StringBase_assign_def StringUtils_copy_def)
  have d: "?d = take (n - 1) (C_string src) @ 0 # replicate (n - 1 - length (take (n - 1) (C_string src))) 0"
    using n(1) by (intro nth_equalityI) (auto simp: nth_list_update nth_append nth_Cons' min_def)
  have "C_string ?d = take (n - 1) (C_string src)"
    unfolding d using C_string_no_null [of src] by (intro C_string_ended) (auto dest: in_set_takeD)
  moreover have "length ?d = n" "0 \<in> set ?d"
    using n(1) unfolding d by auto
  ultimately show ?thesis
    using r assms(1) by (simp add: string_wf_def n_def)
qed

text \<open>
  Appending to a string object never leaves its array and never loses the null byte: the text
  afterwards is the old text followed by as much of the new text as fits.
\<close>

theorem append_keeps_string:
  assumes "string_wf s" "0 \<in> set src" "length src < 2147483648"
  shows "\<exists>s'. StringBase_append s src = Some s' \<and> string_wf s' \<and> length s' = length s \<and>
    C_string s' = C_string s @ take (length s - 1 - length (C_string s)) (C_string src)"
proof -
  define l where "l = length (C_string s)"
  have src: "string_wf src"
    using assms by (simp add: string_wf_def)
  have l: "l < length s" "unat (of_nat l :: U32) = l" "length s < 2147483648"
    using text_size [OF assms(1)] by (simp_all add: l_def)
  define k where "k = min (length (C_string src)) (length s - 1 - l)"
  let ?cap = "getCapacity s" and ?n = "of_nat (length (C_string src)) :: U32"
  have cap: "unat ?cap = length s"
    by (rule unat_getCapacity [OF assms(1)])
  have left: "unat (?cap - of_nat l - 1) = length s - 1 - l"
    using l cap by (simp add: unat_sub_small unat_dec word_le_nat_alt)
  have rem: "unat (if ?n < ?cap - of_nat l - 1 then ?n else ?cap - of_nat l - 1) = k"
    using left text_size [OF src] by (auto simp: k_def word_less_nat_alt)
  have kt: "C_string (take k src) = take k (C_string src)"
    by (rule C_string_take)
  have fit: "l + length (C_string (take k src) @ [0]) \<le> length s"
    using l length_C_string [of "take k src"] by (auto simp: k_def)
  have asserts: "of_nat l < ?cap"
    "(if ?n < ?cap - of_nat l - 1 then ?n else ?cap - of_nat l - 1) < ?cap"
    using l cap rem by (simp_all add: word_less_nat_alt k_def del: of_nat_less_iff)
  let ?s' = "take l s @ (take k (C_string src) @ [0]) @ drop (l + length (take k (C_string src) @ [0])) s"
  have "StringBase_append s src = strncat_chars s l src k"
    using asserts rem assms src
    by (simp add: StringBase_append_def appendBuff_def StringBase_length_eq l(2) Let_def flip: l_def)
  also have "\<dots> = Some ?s'"
    using fit assms(2) unfolding strncat_chars_def kt by (simp add: write_at_in_bounds)
  finally have r: "StringBase_append s src = Some ?s'" .
  have t: "take l s = C_string s"
    by (simp add: l_def take_C_string)
  have "C_string ?s' = C_string s @ take k (C_string src)"
    unfolding t using C_string_no_null [of s] C_string_no_null [of src]
    by (subst append.assoc [symmetric], simp del: append_assoc, subst C_string_ended [symmetric])
      (auto dest: in_set_takeD)
  moreover have "take k (C_string src) = take (length s - 1 - l) (C_string src)"
    by (simp add: k_def min_def)
  moreover have "string_wf ?s' \<and> length ?s' = length s"
    using fit l(1,3) unfolding kt string_wf_def by auto
  ultimately show ?thesis
    using r unfolding l_def by metis
qed

theorem append_keeps_string_witness:
  "\<exists>s'. StringBase_append [97, 0, 5, 6] [98, 99, 100, 0] = Some s' \<and> string_wf s' \<and>
    length s' = length [97, 0, 5, 6 :: U8] \<and>
    C_string s' = C_string [97, 0, 5, 6] @
      take (length [97, 0, 5, 6 :: U8] - 1 - length (C_string [97, 0, 5, 6])) (C_string [98, 99, 100, 0])"
  by (rule append_keeps_string) (simp_all add: string_wf_def)

section \<open>Strings in buffers\<close>

lemma StringBase_serialize_ok:
  assumes "string_wf s" "ser_wf b" "2 + length (C_string s) \<le> room b"
  shows "StringBase_serialize s b = Some (FW_SERIALIZE_OK,
    append_to b (bytes_of_U16 (of_nat (length (C_string s))) @ C_string s))"
proof -
  define t where "t = C_string s"
  have l: "unat (of_nat (length t) :: U32) = length t" "length t \<le> length s"
    using text_size [OF assms(1)] by (simp_all add: t_def)
  have st: "take (length t) s = t"
    by (simp add: t_def take_C_string)
  have "serialize_bytes b s (of_nat (length t)) False = serialize_bytes b t (of_nat (length t)) False"
    using l read_at_in_bounds [of 0 "length t" s] st read_at_0_full [of t]
    by (simp only: serialize_bytes_def add_0 drop_0)
  moreover have "length t < 2147483648"
    using text_size [OF assms(1)] by (simp add: t_def)
  ultimately have "serialize_bytes b s (of_nat (length t)) False =
      Some (FW_SERIALIZE_OK, append_to b (bytes_of_U16 (ucast (of_nat (length t) :: U32)) @ t))"
    using serialize_bytes_outcome [OF assms(2) l(1)] assms(3) by (simp add: t_def)
  moreover have "(ucast (of_nat (length t) :: U32) :: U16) = of_nat (length t)"
    using l(1) by (simp add: word_unat_eq_iff unat_ucast_mod unat_of_nat)
  ultimately show ?thesis
    using assms(1) by (simp add: StringBase_serialize_def StringBase_length_eq t_def)
qed

text \<open>
  A string object written into an empty buffer reads back, into an object of any capacity that
  holds its text, with the same text: whatever the receiving array held before, it compares equal
  to the sender. The buffer is used up.
\<close>

theorem string_roundtrip:
  assumes "string_wf s" "ser_wf b" "contents b = []" "2 + length (C_string s) \<le> room b"
    "string_wf t" "length (C_string s) < length t" "length (C_string s) < 65536"
  shows "\<exists>b' t' b''. StringBase_serialize s b = Some (FW_SERIALIZE_OK, b') \<and>
    StringBase_deserialize t b' = Some (FW_SERIALIZE_OK, t', b'') \<and>
    StringBase_eq t' s = Some True \<and> length t' = length t \<and> unread b'' = []"
proof -
  define x where "x = C_string s"
  let ?n = "of_nat (length x) :: U16"
  let ?b = "append_to b (bytes_of_U16 ?n @ x)"
  let ?t = "x @ 0 # drop (length x + 1) t"
  have wf: "ser_wf ?b" and u: "unread ?b = bytes_of_U16 ?n @ x @ []"
    using assms by (simp_all add: append_to_wf append_to_unread x_def)
  have n: "unat ?n = length x"
    using assms(7) by (simp add: x_def unat_of_nat unsigned_of_nat take_bit_nat_eq_self)
  have cap: "length x \<le> unat (getCapacity t - 1)"
    using assms(6) unat_getCapacity [OF assms(5)] unat_dec [of "getCapacity t"] by (cases t) (simp_all add: x_def)
  have d: "deserialize_bytes ?b (getCapacity t - 1) False = Some (Inr x, consume ?b (2 + length x))"
    by (rule deserialize_bytes_ok [OF wf u n cap])
  have w: "write_at t 0 (x @ [0]) = Some ?t"
    using assms(6) by (simp add: write_at_def x_def)
  have r: "StringBase_deserialize t ?b = Some (FW_SERIALIZE_OK, ?t, consume ?b (2 + length x))"
    using d w by (simp add: StringBase_deserialize_def Let_def)
  have lt: "length ?t = length t"
    using assms(6) by (simp add: x_def)
  moreover have "0 \<in> set ?t"
    by simp
  ultimately have "string_wf ?t"
    using assms(5) by (simp only: string_wf_def)
  moreover have "C_string ?t = x"
    using C_string_no_null [of s] by (simp add: C_string_ended x_def)
  ultimately have "StringBase_eq ?t s = Some True"
    using StringBase_eq_text assms(1) by (simp add: x_def)
  moreover have "unread (consume ?b (2 + length x)) = []"
    using wf u by (simp add: consume_unread)
  ultimately show ?thesis
    using StringBase_serialize_ok [OF assms(1,2,4)] r lt unfolding x_def [symmetric] by blast
qed

theorem string_roundtrip_witness:
  "\<exists>b' t' b''. StringBase_serialize [97, 98, 0, 9] (SerializeBufferBase_new (replicate 8 0)) =
      Some (FW_SERIALIZE_OK, b') \<and>
    StringBase_deserialize [7, 7, 0] b' = Some (FW_SERIALIZE_OK, t', b'') \<and>
    StringBase_eq t' [97, 98, 0, 9] = Some True \<and> length t' = length [7, 7, 0 :: U8] \<and> unread b'' = []"
  by (rule string_roundtrip)
    (simp_all add: string_wf_def ser_wf_def contents_def room_def SerializeBufferBase_new_def)

end
