(* ===== verification/Cfdp_Checksum.thy ===== *)
theory Cfdp_Checksum
  imports Prelude "HOL-Library.Multiset"
begin

text \<open>
  CFDP/Checksum/Checksum.cpp: the 32-bit checksum of the file transfer, the sum of the file's
  words. The class adds the bytes of a chunk at the place their file offset gives them; its
  contract is that sum, whatever the chunks are and in whatever order they come.
\<close>

section \<open>Operations\<close>

record Checksum =
  cs_value :: U32

definition Checksum_new :: Checksum where
  "Checksum_new = \<lparr>cs_value = 0\<rparr>"

definition Checksum_of :: "U32 \<Rightarrow> Checksum" where
  "Checksum_of v = \<lparr>cs_value = v\<rparr>"

definition Checksum_copy :: "Checksum \<Rightarrow> Checksum" where
  "Checksum_copy original = \<lparr>cs_value = cs_value original\<rparr>"

definition Checksum_assign :: "Checksum \<Rightarrow> Checksum \<Rightarrow> Checksum" where
  "Checksum_assign this checksum = this\<lparr>cs_value := cs_value checksum\<rparr>"

definition Checksum_eq :: "Checksum \<Rightarrow> Checksum \<Rightarrow> bool" where
  "Checksum_eq this checksum = (cs_value this = cs_value checksum)"

definition Checksum_neq :: "Checksum \<Rightarrow> Checksum \<Rightarrow> bool" where
  "Checksum_neq this checksum = (\<not> Checksum_eq this checksum)"

definition Checksum_getValue :: "Checksum \<Rightarrow> U32" where
  "Checksum_getValue c = cs_value c"

definition addByteAtOffset :: "U8 \<Rightarrow> U8 \<Rightarrow> Checksum \<Rightarrow> Checksum option" where
  "addByteAtOffset byte offset c = do {
     fw_assert (offset < 4);
     let addend = push_bit (8 * (3 - unat offset)) (ucast byte :: U32);
     Some (c\<lparr>cs_value := cs_value c + addend\<rparr>)
   }"

fun add_word_loop :: "U8 list \<Rightarrow> U8 \<Rightarrow> Checksum \<Rightarrow> Checksum option" where
  "add_word_loop [] i c = Some c"
| "add_word_loop (b # bs) i c = do {
     c \<leftarrow> addByteAtOffset b i c;
     add_word_loop bs (i + 1) c
   }"

definition addWordAligned :: "U8 list \<Rightarrow> Checksum \<Rightarrow> Checksum option" where
  "addWordAligned word c = do {
     bs \<leftarrow> read_at word 0 4;
     add_word_loop bs 0 c
   }"

fun unaligned_loop :: "U8 list \<Rightarrow> U8 \<Rightarrow> Checksum \<Rightarrow> Checksum option" where
  "unaligned_loop [] offset c = Some c"
| "unaligned_loop (b # bs) offset c = do {
     c \<leftarrow> addByteAtOffset b offset c;
     let offset = offset + 1;
     unaligned_loop bs (if offset = 4 then 0 else offset) c
   }"

definition addWordUnaligned :: "U8 list \<Rightarrow> U8 \<Rightarrow> U8 \<Rightarrow> Checksum \<Rightarrow> Checksum option" where
  "addWordUnaligned word position len c = do {
     fw_assert (len < 4);
     bs \<leftarrow> read_at word 0 (unat len);
     unaligned_loop bs (position mod 4) c
   }"

text \<open>
  The middle words. The loop compares \<open>index + 4\<close>, which wraps, with the length: near 2^32 it
  never ends.
\<close>

partial_function (option) middle_loop ::
  "U8 list \<Rightarrow> U32 \<Rightarrow> U32 \<Rightarrow> Checksum \<Rightarrow> (U32 \<times> Checksum) option" where
  "middle_loop data len index c =
     (if index + 4 \<le> len then
        Option.bind (addWordAligned (drop (unat index) data) c)
          (\<lambda>c. middle_loop data len (index + 4) c)
      else Some (index, c))"

definition update_first :: "U8 list \<Rightarrow> U32 \<Rightarrow> U32 \<Rightarrow> Checksum \<Rightarrow> (U32 \<times> Checksum) option" where
  "update_first data offset len c =
     (let offsetMod4 = offset mod 4 in
      if offsetMod4 \<noteq> 0 then do {
        let wordLength = (ucast (min len (4 - offsetMod4)) :: U8);
        c \<leftarrow> addWordUnaligned data (ucast offset) wordLength c;
        Some (ucast wordLength, c)
      }
      else Some (0, c))"

definition Checksum_update :: "U8 list \<Rightarrow> U32 \<Rightarrow> U32 \<Rightarrow> Checksum \<Rightarrow> Checksum option" where
  "Checksum_update data offset len c = do {
     (index, c) \<leftarrow> update_first data offset len c;
     (index, c) \<leftarrow> middle_loop data len index c;
     if index < len then
       addWordUnaligned (drop (unat index) data) (ucast (offset + index)) (ucast (len - index)) c
     else Some c
   }"

section \<open>The sum of the bytes\<close>

definition byte_at :: "nat \<Rightarrow> U8 \<Rightarrow> U32" where
  "byte_at p b = push_bit (8 * (3 - p mod 4)) (ucast b)"

fun byte_sum :: "nat \<Rightarrow> U8 list \<Rightarrow> U32" where
  "byte_sum p [] = 0"
| "byte_sum p (b # bs) = byte_at p b + byte_sum (Suc p) bs"

definition add_sum :: "nat \<Rightarrow> U8 list \<Rightarrow> Checksum \<Rightarrow> Checksum" where
  "add_sum p bs c = c\<lparr>cs_value := cs_value c + byte_sum p bs\<rparr>"

lemma byte_sum_append: "byte_sum p (xs @ ys) = byte_sum p xs + byte_sum (p + length xs) ys"
  by (induction xs arbitrary: p) (auto simp: algebra_simps)

lemma byte_sum_mod: "p mod 4 = q mod 4 \<Longrightarrow> byte_sum p bs = byte_sum q bs"
proof (induction bs arbitrary: p q)
  case (Cons b bs)
  have "Suc p mod 4 = Suc q mod 4" using Cons.prems by (metis mod_Suc)
  then have "byte_sum (Suc p) bs = byte_sum (Suc q) bs" by (rule Cons.IH)
  then show ?case using Cons.prems by (simp add: byte_at_def)
qed simp

lemma add_sum_append: "add_sum (p + length xs) ys (add_sum p xs c) = add_sum p (xs @ ys) c"
  by (simp add: add_sum_def byte_sum_append algebra_simps)

lemma add_sum_Nil [simp]: "add_sum p [] c = c"
  by (simp add: add_sum_def)

lemma addByte_ok:
  assumes "unat offset < 4" "unat offset = p mod 4"
  shows "addByteAtOffset b offset c = Some (add_sum p [b] c)"
  using assms by (simp add: addByteAtOffset_def add_sum_def byte_at_def word_less_nat_alt)

lemma add_sum_Cons: "add_sum (Suc p) bs (add_sum p [b] c) = add_sum p (b # bs) c"
  using add_sum_append [of p "[b]" bs c] by simp

lemma unaligned_loop_ok:
  assumes "unat offset < 4" "unat offset = p mod 4"
  shows "unaligned_loop bs offset c = Some (add_sum p bs c)"
  using assms
proof (induction bs arbitrary: offset p c)
  case (Cons b bs)
  let ?next = "if offset + 1 = 4 then 0 else offset + 1"
  have inc: "unat (offset + 1) = unat offset + 1" using Cons.prems(1) by (simp add: unat_add_small)
  have four: "offset + 1 = 4 \<longleftrightarrow> unat offset = 3" by (simp add: word_unat_eq_iff inc)
  have "unat ?next < 4" "unat ?next = Suc p mod 4"
    using Cons.prems inc four by (auto simp: mod_Suc)
  then show ?case
    using Cons.IH [of ?next "Suc p"] addByte_ok [OF Cons.prems] by (simp add: Let_def add_sum_Cons)
qed simp

lemma add_word_loop_ok:
  assumes "unat i + length bs \<le> 4" "bs \<noteq> [] \<longrightarrow> unat i = p mod 4"
  shows "add_word_loop bs i c = Some (add_sum p bs c)"
  using assms
proof (induction bs arbitrary: i p c)
  case (Cons b bs)
  have i: "unat i < 4" "unat i = p mod 4" using Cons.prems by auto
  have inc: "unat (i + 1) = unat i + 1" using i(1) by (simp add: unat_add_small)
  have "bs \<noteq> [] \<longrightarrow> unat (i + 1) = Suc p mod 4"
    using Cons.prems(1) i by (auto simp: inc mod_Suc neq_Nil_conv)
  then show ?case
    using Cons.IH [of "i + 1" "Suc p"] Cons.prems(1) addByte_ok [OF i] by (simp add: inc add_sum_Cons)
qed simp

lemma addWordAligned_ok:
  assumes "4 \<le> length bs" "p mod 4 = 0"
  shows "addWordAligned bs c = Some (add_sum p (take 4 bs) c)"
  using assms add_word_loop_ok [of 0 "take 4 bs" p c] by (simp add: addWordAligned_def read_at_def)

lemma addWordUnaligned_ok:
  assumes "unat len \<le> length bs" "unat len < 4" "p mod 4 = unat position mod 4"
  shows "addWordUnaligned bs position len c = Some (add_sum p (take (unat len) bs) c)"
proof -
  have "unat (position mod 4) = p mod 4" using assms(3) by (simp add: unat_mod)
  then show ?thesis using assms(1,2) unaligned_loop_ok [of "position mod 4" p]
    by (simp add: addWordUnaligned_def read_at_def word_less_nat_alt)
qed

lemma middle_loop_ok:
  assumes "length data = unat len" "unat len + 4 < 4294967296" "unat index \<le> unat len"
    and "(p + unat index) mod 4 = 0"
  shows "\<exists>k. middle_loop data len index c =
      Some (of_nat (unat index + 4 * k), add_sum (p + unat index) (take (4 * k) (drop (unat index) data)) c) \<and>
    unat index + 4 * k \<le> unat len \<and> unat len < unat index + 4 * k + 4"
  using assms(3,4)
proof (induction "unat len - unat index" arbitrary: index c rule: less_induct)
  case less
  have inc: "unat (index + 4) = unat index + 4"
    using assms(2) less.prems(1) by (simp add: unat_add_small)
  show ?case
  proof (cases "unat index + 4 \<le> unat len")
    case False
    then have "\<not> index + 4 \<le> len" by (simp add: word_le_nat_alt inc)
    then have "middle_loop data len index c = Some (index, c)" by (simp add: middle_loop.simps)
    then show ?thesis using False less.prems by (intro exI [of _ 0]) simp
  next
    case True
    then have go: "index + 4 \<le> len" by (simp add: word_le_nat_alt inc)
    let ?w = "take 4 (drop (unat index) data)" and ?c = "add_sum (p + unat index) (take 4 (drop (unat index) data)) c"
    have word: "addWordAligned (drop (unat index) data) c = Some ?c"
      using True assms(1) less.prems(2) by (intro addWordAligned_ok) simp_all
    have step: "(p + unat (index + 4)) mod 4 = 0" using less.prems(2) by (simp add: inc add.assoc [symmetric])
    have "\<exists>k. middle_loop data len (index + 4) ?c =
        Some (of_nat (unat (index + 4) + 4 * k), add_sum (p + unat (index + 4)) (take (4 * k) (drop (unat (index + 4)) data)) ?c) \<and>
      unat (index + 4) + 4 * k \<le> unat len \<and> unat len < unat (index + 4) + 4 * k + 4"
    proof (rule less.hyps)
      show "unat len - unat (index + 4) < unat len - unat index" using True unfolding inc by linarith
      show "unat (index + 4) \<le> unat len" using True unfolding inc .
      show "(p + unat (index + 4)) mod 4 = 0" by (rule step)
    qed
    then obtain k where k: "middle_loop data len (index + 4) ?c =
        Some (of_nat (unat (index + 4) + 4 * k), add_sum (p + unat (index + 4)) (take (4 * k) (drop (unat (index + 4)) data)) ?c)"
      "unat (index + 4) + 4 * k \<le> unat len" "unat len < unat (index + 4) + 4 * k + 4" by blast
    have "?w @ take (4 * k) (drop (unat index + 4) data) = take (4 * Suc k) (drop (unat index) data)"
      by (simp add: take_add add.commute)
    moreover have "length ?w = 4" using True assms(1) by simp
    ultimately have sum: "add_sum (p + unat (index + 4)) (take (4 * k) (drop (unat (index + 4)) data)) ?c =
        add_sum (p + unat index) (take (4 * Suc k) (drop (unat index) data)) c"
      using add_sum_append [of "p + unat index" ?w "take (4 * k) (drop (unat index + 4) data)" c]
      by (simp add: inc add.assoc)
    have "middle_loop data len index c = middle_loop data len (index + 4) ?c"
      using go word by (subst middle_loop.simps) simp
    then show ?thesis using k sum by (intro exI [of _ "Suc k"]) (simp add: inc add.assoc)
  qed
qed

lemma update_first_ok:
  assumes "length data = unat len"
  shows "\<exists>n. update_first data offset len c = Some (of_nat n, add_sum (unat offset) (take n data) c) \<and>
    n \<le> unat len \<and> n < 4 \<and> ((unat offset + n) mod 4 = 0 \<or> n = unat len)"
proof -
  let ?m = "unat offset mod 4"
  have m: "unat (offset mod 4) = ?m" by (simp add: unat_mod)
  show ?thesis
  proof (cases "offset mod 4 = 0")
    case True
    then have "?m = 0" using m by simp
    then show ?thesis using True by (intro exI [of _ 0]) (simp add: update_first_def)
  next
    case False
    then have pos: "0 < ?m" using m by (metis unat_gt_0)
    let ?n = "min (unat len) (4 - ?m)" and ?w = "ucast (min len (4 - offset mod 4)) :: U8"
    have "unat (4 - offset mod 4) = 4 - ?m" by (subst unat_sub_small) (simp_all add: m)
    then have n: "unat (min len (4 - offset mod 4)) = ?n" by (simp add: min_def word_le_nat_alt)
    have nb: "?n \<le> unat len" "?n < 4" using pos by linarith+
    have w: "unat ?w = ?n" using n pos by (simp add: unat_ucast_mod min_def)
    have "addWordUnaligned data (ucast offset) ?w c = Some (add_sum (unat offset) (take (unat ?w) data) c)"
    proof (rule addWordUnaligned_ok)
      show "unat offset mod 4 = unat (ucast offset :: U8) mod 4"
        by (simp add: unat_ucast_mod mod_mod_cancel)
      show "unat ?w \<le> length data" "unat ?w < 4" unfolding w assms using nb by auto
    qed
    then have "update_first data offset len c = Some (ucast ?w, add_sum (unat offset) (take ?n data) c)"
      using False by (simp add: update_first_def Let_def w)
    moreover have "(ucast ?w :: U32) = of_nat ?n" by (rule word_eq_of_unat) (simp add: w)
    moreover have "(unat offset + ?n) mod 4 = 0 \<or> ?n = unat len"
    proof (cases "unat len \<le> 4 - ?m")
      case False
      then have "?n = 4 - ?m" by simp
      moreover have "(unat offset + (4 - ?m)) mod 4 = 0" using pos by presburger
      ultimately show ?thesis by simp
    qed simp
    ultimately show ?thesis using nb by (intro exI [of _ ?n]) simp
  qed
qed

text \<open>
  One update adds the sum of the chunk's bytes, each at the place of its file offset. The bound
  keeps the loop's \<open>index + 4\<close> from wrapping.
\<close>

lemma Checksum_update_ok:
  assumes "length data = unat len" "unat len + 4 < 4294967296"
  shows "Checksum_update data offset len c = Some (add_sum (unat offset) data c)"
proof -
  let ?o = "unat offset"
  obtain n where n: "update_first data offset len c = Some (of_nat n, add_sum ?o (take n data) c)"
    "n \<le> unat len" "n < 4" "(?o + n) mod 4 = 0 \<or> n = unat len"
    using update_first_ok [OF assms(1), of offset c] by (elim exE conjE) (rule that; assumption)
  have un: "unat (of_nat n :: U32) = n" using n(3) by (intro unat_of_nat32) simp
  have "\<exists>j. middle_loop data len (of_nat n) (add_sum ?o (take n data) c) =
      Some (of_nat j, add_sum ?o (take j data) c) \<and> j \<le> unat len \<and> unat len < j + 4 \<and> j < 4294967296"
  proof (cases "(?o + n) mod 4 = 0")
    case True
    obtain k where k: "middle_loop data len (of_nat n) (add_sum ?o (take n data) c) =
        Some (of_nat (n + 4 * k), add_sum (?o + n) (take (4 * k) (drop n data)) (add_sum ?o (take n data) c))"
      "n + 4 * k \<le> unat len" "unat len < n + 4 * k + 4"
      using middle_loop_ok [OF assms, of "of_nat n" ?o "add_sum ?o (take n data) c", unfolded un, OF n(2) True]
      by (elim exE conjE) (rule that)
    have "add_sum (?o + n) (take (4 * k) (drop n data)) (add_sum ?o (take n data) c) = add_sum ?o (take (n + 4 * k) data) c"
      using add_sum_append [of ?o "take n data"] n(2) assms(1) by (simp add: take_add)
    then show ?thesis using k assms(2) by (intro exI [of _ "n + 4 * k"]) simp
  next
    case False
    with n(4) have "n = unat len" by simp
    then have "\<not> (of_nat n :: U32) + 4 \<le> len"
      using assms(2) by (simp add: word_le_nat_alt unat_add_small)
    then have "middle_loop data len (of_nat n) (add_sum ?o (take n data) c) = Some (of_nat n, add_sum ?o (take n data) c)"
      by (simp add: middle_loop.simps)
    then show ?thesis using n(2,3) \<open>n = unat len\<close> by (intro exI [of _ n]) simp
  qed
  then obtain j where j: "middle_loop data len (of_nat n) (add_sum ?o (take n data) c) =
      Some (of_nat j, add_sum ?o (take j data) c)" "j \<le> unat len" "unat len < j + 4" "j < 4294967296" by blast
  have uj: "unat (of_nat j :: U32) = j" using j(4) by (rule unat_of_nat32)
  show ?thesis
  proof (cases "j < unat len")
    case False
    then show ?thesis using n(1) j uj assms(1)
      by (simp add: Checksum_update_def word_less_nat_alt)
  next
    case True
    let ?w = "ucast (len - of_nat j) :: U8"
    have "unat (len - of_nat j) = unat len - j" using j(2) uj by (subst unat_sub_small) simp_all
    then have w: "unat ?w = unat len - j" using j(3) by (simp add: unat_ucast_mod)
    have "addWordUnaligned (drop j data) (ucast (offset + of_nat j)) ?w (add_sum ?o (take j data) c) =
        Some (add_sum (?o + j) (take (unat ?w) (drop j data)) (add_sum ?o (take j data) c))"
    proof (rule addWordUnaligned_ok)
      have "unat (offset + of_nat j) = (?o + j) mod 4294967296" by (simp add: unat_word_ariths uj)
      then show "(?o + j) mod 4 = unat (ucast (offset + of_nat j) :: U8) mod 4"
        by (simp add: unat_ucast_mod mod_mod_cancel)
    qed (use w j(2,3) assms(1) in simp_all)
    also have "take (unat ?w) (drop j data) = drop j data" using w assms(1) by simp
    also have "add_sum (?o + j) (drop j data) (add_sum ?o (take j data) c) = add_sum ?o data c"
      using add_sum_append [of ?o "take j data" "drop j data" c] j(2) assms(1) by simp
    finally show ?thesis using n(1) j(1) True uj by (simp add: Checksum_update_def word_less_nat_alt)
  qed
qed

section \<open>Chunks in any order\<close>

fun update_all :: "(nat \<times> U8 list) list \<Rightarrow> Checksum \<Rightarrow> Checksum option" where
  "update_all [] c = Some c"
| "update_all ((offset, data) # chunks) c = do {
     c \<leftarrow> Checksum_update data (of_nat offset) (of_nat (length data)) c;
     update_all chunks c
   }"

text \<open>The chunks of a file with the offsets they start at.\<close>

fun placed :: "nat \<Rightarrow> U8 list list \<Rightarrow> (nat \<times> U8 list) list" where
  "placed p [] = []"
| "placed p (data # chunks) = (p, data) # placed (p + length data) chunks"

definition chunk_sum :: "nat \<times> U8 list \<Rightarrow> U32" where
  "chunk_sum c = byte_sum (fst c) (snd c)"

lemma chunk_sum_pair: "chunk_sum (p, d) = byte_sum p d"
  by (simp add: chunk_sum_def)

lemma sum_placed: "sum_list (map chunk_sum (placed p chunks)) = byte_sum p (concat chunks)"
  by (induction chunks arbitrary: p) (auto simp: chunk_sum_def byte_sum_append)

lemma placed_bounds:
  "(o1, d) \<in> set (placed p chunks) \<Longrightarrow> o1 + length d \<le> p + length (concat chunks)"
  by (induction chunks arbitrary: p) fastforce+

lemma update_all_ok:
  assumes "\<forall>(p, d) \<in> set chunks. p < 4294967296 \<and> length d + 4 < 4294967296"
  shows "update_all chunks c = Some (c\<lparr>cs_value := cs_value c + sum_list (map chunk_sum chunks)\<rparr>)"
  using assms
proof (induction chunks arbitrary: c)
  case (Cons x chunks)
  obtain p d where x: "x = (p, d)" by (cases x)
  have b: "p < 4294967296" "length d + 4 < 4294967296" using Cons.prems x by auto
  have u: "unat (of_nat p :: U32) = p" "unat (of_nat (length d) :: U32) = length d"
    using b by (auto intro: unat_of_nat32)
  have "Checksum_update d (of_nat p) (of_nat (length d)) c = Some (add_sum p d c)"
    using Checksum_update_ok [of d "of_nat (length d)" "of_nat p" c] b(2) by (simp only: u)
  moreover have "update_all chunks (add_sum p d c) =
      Some ((add_sum p d c)\<lparr>cs_value := cs_value (add_sum p d c) + sum_list (map chunk_sum chunks)\<rparr>)"
    by (rule Cons.IH) (use Cons.prems in auto)
  ultimately show ?case by (simp add: x add_sum_def chunk_sum_pair add.assoc)
qed simp

text \<open>
  C24: cut a file of fewer than 2^32 - 4 bytes into chunks of any sizes and update the checksum
  with them in any order: no assertion fails and the value is the sum of the file's bytes, each
  shifted to its place in its four byte word. Receiver and sender agree whatever the packets
  are.
\<close>

theorem checksum_ignores_chunking:
  assumes "mset received = mset (placed 0 chunks)" "length (concat chunks) + 4 < 4294967296"
  shows "update_all received Checksum_new = Some (Checksum_of (byte_sum 0 (concat chunks)))"
proof -
  have "p < 4294967296 \<and> length d + 4 < 4294967296" if "(p, d) \<in> set received" for p d
  proof -
    have "(p, d) \<in> set (placed 0 chunks)" using that mset_eq_setD [OF assms(1)] by simp
    then have "p + length d \<le> length (concat chunks)" using placed_bounds by fastforce
    then show ?thesis using assms(2) by linarith
  qed
  then have "update_all received Checksum_new =
      Some (Checksum_new\<lparr>cs_value := 0 + sum_list (map chunk_sum received)\<rparr>)"
    using update_all_ok [of received Checksum_new] by (fastforce simp: Checksum_new_def)
  moreover have "sum_list (map chunk_sum received) = byte_sum 0 (concat chunks)"
  proof -
    have "mset (map chunk_sum received) = mset (map chunk_sum (placed 0 chunks))"
      by (simp only: mset_map assms(1))
    then show ?thesis by (metis sum_mset_sum_list sum_placed)
  qed
  ultimately show ?thesis by (simp add: Checksum_new_def Checksum_of_def)
qed

lemma checksum_ignores_chunking_witness:
  "update_all [(3, [4, 5]), (0, [1, 2, 3])] Checksum_new = Some (Checksum_of 0x06020304)"
  using checksum_ignores_chunking [of "[(3, [4, 5]), (0, [1, 2, 3])]" "[[1, 2, 3], [4, 5]]"]
  by (simp add: byte_at_def)

text \<open>Whole words may change places: the sum does not see it.\<close>

lemma byte_sum_word_swap:
  assumes "length a = 4" "length b = 4" "p mod 4 = 0"
  shows "byte_sum p (a @ b @ rest) = byte_sum p (b @ a @ rest)"
proof -
  have "byte_sum (p + 4) w = byte_sum p w" for w by (rule byte_sum_mod) simp
  then show ?thesis using assms by (simp add: byte_sum_append add.commute add.left_commute)
qed

end
