(* ===== verification/File_Packet.thy ===== *)
theory File_Packet
  imports Fw_Buffer Fw_Strings Cfdp_Checksum
begin

text \<open>
  Fw/FilePacket: the packets of the file transfer, a header with the packet type and a sequence
  index and one of four bodies, and their byte form. \<open>FilePacket\<close> is a union whose members
  share the header; the model's datatype has a constructor for each member. A pointer into a
  buffer is the list of bytes from there to the end of the memory. The serialization buffer over
  a packet's memory (Fw/Types/SerialBuffer.cpp) is the \<open>ser_buf\<close> of that memory.
\<close>

section \<open>Packets\<close>

text \<open>\<open>static_cast\<close> from a byte may give a value that no enumerator names.\<close>

datatype FilePacket_Type = T_START | T_DATA | T_END | T_CANCEL | T_NONE | T_unnamed U8

definition Type_of_U8 :: "U8 \<Rightarrow> FilePacket_Type" where
  "Type_of_U8 v =
     (if v = 0 then T_START else if v = 1 then T_DATA else if v = 2 then T_END
      else if v = 3 then T_CANCEL else if v = 255 then T_NONE else T_unnamed v)"

fun U8_of_Type :: "FilePacket_Type \<Rightarrow> U8" where
  "U8_of_Type T_START = 0"
| "U8_of_Type T_DATA = 1"
| "U8_of_Type T_END = 2"
| "U8_of_Type T_CANCEL = 3"
| "U8_of_Type T_NONE = 255"
| "U8_of_Type (T_unnamed v) = v"

record FP_Header =
  hdr_type :: FilePacket_Type
  hdr_sequenceIndex :: U32

record PathName =
  pn_length :: U8
  pn_value :: "U8 list"

record StartPacket =
  sp_header :: FP_Header
  sp_fileSize :: U32
  sp_sourcePath :: PathName
  sp_destinationPath :: PathName

record DataPacket =
  dp_header :: FP_Header
  dp_byteOffset :: U32
  dp_dataSize :: U16
  dp_data :: "U8 list"

record EndPacket =
  ep_header :: FP_Header
  ep_checksumValue :: U32

record CancelPacket =
  cp_header :: FP_Header

datatype FilePacket =
    FP_header FP_Header
  | FP_start StartPacket
  | FP_data DataPacket
  | FP_end EndPacket
  | FP_cancel CancelPacket

fun asHeader :: "FilePacket \<Rightarrow> FP_Header" where
  "asHeader (FP_header h) = h"
| "asHeader (FP_start p) = sp_header p"
| "asHeader (FP_data p) = dp_header p"
| "asHeader (FP_end p) = ep_header p"
| "asHeader (FP_cancel p) = cp_header p"

text \<open>The constructor leaves the sequence index as it finds it.\<close>

definition FilePacket_new :: "U32 \<Rightarrow> FilePacket" where
  "FilePacket_new junk = FP_header \<lparr>hdr_type = T_NONE, hdr_sequenceIndex = junk\<rparr>"

definition asStartPacket :: "FilePacket \<Rightarrow> StartPacket option" where
  "asStartPacket p = do {
     fw_assert (hdr_type (asHeader p) = T_START);
     (case p of FP_start sp \<Rightarrow> Some sp | _ \<Rightarrow> None)
   }"

definition asDataPacket :: "FilePacket \<Rightarrow> DataPacket option" where
  "asDataPacket p = do {
     fw_assert (hdr_type (asHeader p) = T_DATA);
     (case p of FP_data dp \<Rightarrow> Some dp | _ \<Rightarrow> None)
   }"

definition asEndPacket :: "FilePacket \<Rightarrow> EndPacket option" where
  "asEndPacket p = do {
     fw_assert (hdr_type (asHeader p) = T_END);
     (case p of FP_end ep \<Rightarrow> Some ep | _ \<Rightarrow> None)
   }"

definition asCancelPacket :: "FilePacket \<Rightarrow> CancelPacket option" where
  "asCancelPacket p = do {
     fw_assert (hdr_type (asHeader p) = T_CANCEL);
     (case p of FP_cancel cp \<Rightarrow> Some cp | _ \<Rightarrow> None)
   }"

definition fromStartPacket :: "StartPacket \<Rightarrow> FilePacket" where
  "fromStartPacket sp = FP_start (sp\<lparr>sp_header := (sp_header sp)\<lparr>hdr_type := T_START\<rparr>\<rparr>)"

definition fromDataPacket :: "DataPacket \<Rightarrow> FilePacket" where
  "fromDataPacket dp = FP_data (dp\<lparr>dp_header := (dp_header dp)\<lparr>hdr_type := T_DATA\<rparr>\<rparr>)"

definition fromEndPacket :: "EndPacket \<Rightarrow> FilePacket" where
  "fromEndPacket ep = FP_end (ep\<lparr>ep_header := (ep_header ep)\<lparr>hdr_type := T_END\<rparr>\<rparr>)"

definition fromCancelPacket :: "CancelPacket \<Rightarrow> FilePacket" where
  "fromCancelPacket cp = FP_cancel (cp\<lparr>cp_header := (cp_header cp)\<lparr>hdr_type := T_CANCEL\<rparr>\<rparr>)"

section \<open>Initialization and sizes\<close>

definition PathName_MAX_LENGTH :: U32 where
  "PathName_MAX_LENGTH = 255"

definition PathName_initialize :: "U8 list option \<Rightarrow> PathName option" where
  "PathName_initialize v = do {
     len \<leftarrow> string_length v PathName_MAX_LENGTH;
     cs \<leftarrow> v;
     Some \<lparr>pn_length = ucast len, pn_value = cs\<rparr>
   }"

definition PathName_bufferSize :: "PathName \<Rightarrow> U32" where
  "PathName_bufferSize pn = 1 + ucast (pn_length pn)"

definition FP_Header_initialize :: "FilePacket_Type \<Rightarrow> U32 \<Rightarrow> FP_Header" where
  "FP_Header_initialize t sequenceIndex = \<lparr>hdr_type = t, hdr_sequenceIndex = sequenceIndex\<rparr>"

definition FP_Header_bufferSize :: "FP_Header \<Rightarrow> U32" where
  "FP_Header_bufferSize h = 1 + 4"

definition StartPacket_initialize ::
  "U32 \<Rightarrow> U8 list option \<Rightarrow> U8 list option \<Rightarrow> StartPacket option" where
  "StartPacket_initialize fileSize sourcePath destinationPath = do {
     src \<leftarrow> PathName_initialize sourcePath;
     dest \<leftarrow> PathName_initialize destinationPath;
     Some \<lparr>sp_header = \<lparr>hdr_type = T_START, hdr_sequenceIndex = 0\<rparr>, sp_fileSize = fileSize,
       sp_sourcePath = src, sp_destinationPath = dest\<rparr>
   }"

definition StartPacket_bufferSize :: "StartPacket \<Rightarrow> U32" where
  "StartPacket_bufferSize sp =
     FP_Header_bufferSize (sp_header sp) + 4 + PathName_bufferSize (sp_sourcePath sp)
       + PathName_bufferSize (sp_destinationPath sp)"

definition DataPacket_initialize :: "U32 \<Rightarrow> U32 \<Rightarrow> U16 \<Rightarrow> U8 list \<Rightarrow> DataPacket" where
  "DataPacket_initialize sequenceIndex byteOffset dataSize data =
     \<lparr>dp_header = FP_Header_initialize T_DATA sequenceIndex, dp_byteOffset = byteOffset,
      dp_dataSize = dataSize, dp_data = data\<rparr>"

definition DataPacket_fixedLengthSize :: "DataPacket \<Rightarrow> U32" where
  "DataPacket_fixedLengthSize dp = FP_Header_bufferSize (dp_header dp) + 4 + 2"

definition DataPacket_bufferSize :: "DataPacket \<Rightarrow> U32" where
  "DataPacket_bufferSize dp =
     FP_Header_bufferSize (dp_header dp) + 4 + 2 + ucast (dp_dataSize dp)"

definition setChecksum :: "EndPacket \<Rightarrow> Checksum \<Rightarrow> EndPacket" where
  "setChecksum ep checksum = ep\<lparr>ep_checksumValue := Checksum_getValue checksum\<rparr>"

definition getChecksum :: "EndPacket \<Rightarrow> Checksum" where
  "getChecksum ep = Checksum_of (ep_checksumValue ep)"

definition EndPacket_initialize :: "EndPacket \<Rightarrow> U32 \<Rightarrow> Checksum \<Rightarrow> EndPacket" where
  "EndPacket_initialize ep sequenceIndex checksum =
     setChecksum (ep\<lparr>ep_header := FP_Header_initialize T_END sequenceIndex\<rparr>) checksum"

definition EndPacket_bufferSize :: "EndPacket \<Rightarrow> U32" where
  "EndPacket_bufferSize ep = FP_Header_bufferSize (ep_header ep) + 4"

definition CancelPacket_initialize :: "U32 \<Rightarrow> CancelPacket" where
  "CancelPacket_initialize sequenceIndex =
     \<lparr>cp_header = FP_Header_initialize T_CANCEL sequenceIndex\<rparr>"

definition CancelPacket_bufferSize :: "CancelPacket \<Rightarrow> U32" where
  "CancelPacket_bufferSize cp = FP_Header_bufferSize (cp_header cp)"

definition FilePacket_bufferSize :: "FilePacket \<Rightarrow> U32 option" where
  "FilePacket_bufferSize p =
     (case (hdr_type (asHeader p), p) of
        (T_START, FP_start sp) \<Rightarrow> Some (StartPacket_bufferSize sp)
      | (T_DATA, FP_data dp) \<Rightarrow> Some (DataPacket_bufferSize dp)
      | (T_END, FP_end ep) \<Rightarrow> Some (EndPacket_bufferSize ep)
      | (T_CANCEL, FP_cancel cp) \<Rightarrow> Some (CancelPacket_bufferSize cp)
      | (T_NONE, _) \<Rightarrow> Some 0
      | _ \<Rightarrow> None)"

section \<open>Writing a packet\<close>

definition SerialBuffer_new :: "Fw_Buffer \<Rightarrow> ser_buf" where
  "SerialBuffer_new buffer =
     (case m_bufferData buffer of
        None \<Rightarrow> \<lparr>m_data = replicate (unat (m_size buffer)) 0, m_null = True, m_serLoc = 0, m_deserLoc = 0\<rparr>
      | Some m \<Rightarrow> \<lparr>m_data = take (unat (m_size buffer)) m, m_null = False, m_serLoc = 0, m_deserLoc = 0\<rparr>)"

definition SerialBuffer_fill :: "ser_buf \<Rightarrow> ser_buf option" where
  "SerialBuffer_fill b =
     (case setBuffLen b (getBuffCapacity b) of
        (status, b) \<Rightarrow> do { fw_assert (status = FW_SERIALIZE_OK); Some b })"

definition pushBytes :: "ser_buf \<Rightarrow> U8 list \<Rightarrow> U32 \<Rightarrow> (SerializeStatus \<times> ser_buf) option" where
  "pushBytes b addr n = serialize_bytes b addr n True"

definition popBytes :: "ser_buf \<Rightarrow> U32 \<Rightarrow> ((SerializeStatus + U8 list) \<times> ser_buf) option" where
  "popBytes b n = deserialize_bytes b n True"

definition FP_Header_toSerialBuffer :: "FP_Header \<Rightarrow> ser_buf \<Rightarrow> (SerializeStatus \<times> ser_buf) option" where
  "FP_Header_toSerialBuffer h b =
     ser_then (serialize_U8 b (U8_of_Type (hdr_type h))) (\<lambda>b.
       serialize_U32 b (hdr_sequenceIndex h))"

definition PathName_toSerialBuffer :: "PathName \<Rightarrow> ser_buf \<Rightarrow> (SerializeStatus \<times> ser_buf) option" where
  "PathName_toSerialBuffer pn b =
     ser_then (serialize_U8 b (pn_length pn)) (\<lambda>b.
       pushBytes b (pn_value pn) (ucast (pn_length pn)))"

definition StartPacket_toSerialBuffer :: "StartPacket \<Rightarrow> ser_buf \<Rightarrow> (SerializeStatus \<times> ser_buf) option" where
  "StartPacket_toSerialBuffer sp b = do {
     fw_assert (hdr_type (sp_header sp) = T_START);
     ser_then (FP_Header_toSerialBuffer (sp_header sp) b) (\<lambda>b.
       ser_then (serialize_U32 b (sp_fileSize sp)) (\<lambda>b.
         ser_then (PathName_toSerialBuffer (sp_sourcePath sp) b) (\<lambda>b.
           PathName_toSerialBuffer (sp_destinationPath sp) b)))
   }"

definition DataPacket_toSerialBuffer :: "DataPacket \<Rightarrow> ser_buf \<Rightarrow> (SerializeStatus \<times> ser_buf) option" where
  "DataPacket_toSerialBuffer dp b = do {
     fw_assert (hdr_type (dp_header dp) = T_DATA);
     ser_then (FP_Header_toSerialBuffer (dp_header dp) b) (\<lambda>b.
       ser_then (serialize_U32 b (dp_byteOffset dp)) (\<lambda>b.
         ser_then (serialize_U16 b (dp_dataSize dp)) (\<lambda>b.
           pushBytes b (dp_data dp) (ucast (dp_dataSize dp)))))
   }"

definition EndPacket_toSerialBuffer :: "EndPacket \<Rightarrow> ser_buf \<Rightarrow> (SerializeStatus \<times> ser_buf) option" where
  "EndPacket_toSerialBuffer ep b = do {
     fw_assert (hdr_type (ep_header ep) = T_END);
     ser_then (FP_Header_toSerialBuffer (ep_header ep) b) (\<lambda>b.
       serialize_U32 b (ep_checksumValue ep))
   }"

text \<open>The bytes written to the serialization buffer are in the buffer's memory.\<close>

definition store_serial :: "Fw_Buffer \<Rightarrow> ser_buf \<Rightarrow> Fw_Buffer" where
  "store_serial buffer b =
     refresh_repr (buffer\<lparr>m_bufferData :=
       map_option (\<lambda>m. m_data b @ drop (length (m_data b)) m) (m_bufferData buffer)\<rparr>)"

definition via_serial_buffer ::
  "(ser_buf \<Rightarrow> (SerializeStatus \<times> ser_buf) option) \<Rightarrow> Fw_Buffer \<Rightarrow> (SerializeStatus \<times> Fw_Buffer) option" where
  "via_serial_buffer write buffer = do {
     (status, b) \<leftarrow> write (SerialBuffer_new buffer);
     Some (status, store_serial buffer b)
   }"

definition StartPacket_toBuffer :: "StartPacket \<Rightarrow> Fw_Buffer \<Rightarrow> (SerializeStatus \<times> Fw_Buffer) option" where
  "StartPacket_toBuffer sp buffer = via_serial_buffer (StartPacket_toSerialBuffer sp) buffer"

definition DataPacket_toBuffer :: "DataPacket \<Rightarrow> Fw_Buffer \<Rightarrow> (SerializeStatus \<times> Fw_Buffer) option" where
  "DataPacket_toBuffer dp buffer = via_serial_buffer (DataPacket_toSerialBuffer dp) buffer"

definition EndPacket_toBuffer :: "EndPacket \<Rightarrow> Fw_Buffer \<Rightarrow> (SerializeStatus \<times> Fw_Buffer) option" where
  "EndPacket_toBuffer ep buffer = via_serial_buffer (EndPacket_toSerialBuffer ep) buffer"

definition CancelPacket_toBuffer :: "CancelPacket \<Rightarrow> Fw_Buffer \<Rightarrow> (SerializeStatus \<times> Fw_Buffer) option" where
  "CancelPacket_toBuffer cp buffer = via_serial_buffer (FP_Header_toSerialBuffer (cp_header cp)) buffer"

definition FilePacket_toBuffer :: "FilePacket \<Rightarrow> Fw_Buffer \<Rightarrow> (SerializeStatus \<times> Fw_Buffer) option" where
  "FilePacket_toBuffer p buffer =
     (case (hdr_type (asHeader p), p) of
        (T_START, FP_start sp) \<Rightarrow> StartPacket_toBuffer sp buffer
      | (T_DATA, FP_data dp) \<Rightarrow> DataPacket_toBuffer dp buffer
      | (T_END, FP_end ep) \<Rightarrow> EndPacket_toBuffer ep buffer
      | (T_CANCEL, FP_cancel cp) \<Rightarrow> CancelPacket_toBuffer cp buffer
      | _ \<Rightarrow> None)"

section \<open>Reading a packet\<close>

definition FP_Header_fromSerialBuffer :: "ser_buf \<Rightarrow> ((SerializeStatus + FP_Header) \<times> ser_buf) option" where
  "FP_Header_fromSerialBuffer b =
     deser_then (deserialize_U8 b) (\<lambda>t b.
       deser_then (deserialize_U32 b) (\<lambda>sequenceIndex b.
         Some (Inr \<lparr>hdr_type = Type_of_U8 t, hdr_sequenceIndex = sequenceIndex\<rparr>, b)))"

text \<open>The bytes are popped into a scratch array; the path points into the packet itself.\<close>

definition PathName_fromSerialBuffer :: "ser_buf \<Rightarrow> ((SerializeStatus + PathName) \<times> ser_buf) option" where
  "PathName_fromSerialBuffer b =
     deser_then (deserialize_U8 b) (\<lambda>len b.
       let addrLeft = drop (unat (m_deserLoc b)) (m_data b) in
       deser_then (popBytes b (ucast len)) (\<lambda>bytes b.
         Some (Inr \<lparr>pn_length = len, pn_value = addrLeft\<rparr>, b)))"

definition StartPacket_fromSerialBuffer ::
  "FP_Header \<Rightarrow> ser_buf \<Rightarrow> ((SerializeStatus + StartPacket) \<times> ser_buf) option" where
  "StartPacket_fromSerialBuffer h b = do {
     fw_assert (hdr_type h = T_START);
     deser_then (deserialize_U32 b) (\<lambda>fileSize b.
       deser_then (PathName_fromSerialBuffer b) (\<lambda>src b.
         deser_then (PathName_fromSerialBuffer b) (\<lambda>dest b.
           Some (Inr \<lparr>sp_header = h, sp_fileSize = fileSize, sp_sourcePath = src,
             sp_destinationPath = dest\<rparr>, b))))
   }"

definition DataPacket_fromSerialBuffer ::
  "FP_Header \<Rightarrow> ser_buf \<Rightarrow> ((SerializeStatus + DataPacket) \<times> ser_buf) option" where
  "DataPacket_fromSerialBuffer h b = do {
     fw_assert (hdr_type h = T_DATA);
     deser_then (deserialize_U32 b) (\<lambda>byteOffset b.
       deser_then (deserialize_U16 b) (\<lambda>dataSize b.
         if getBuffLeft b \<noteq> ucast dataSize then Some (Inl FW_DESERIALIZE_SIZE_MISMATCH, b)
         else
           let dp = \<lparr>dp_header = h, dp_byteOffset = byteOffset, dp_dataSize = dataSize, dp_data = []\<rparr> in
           Some (Inr (dp\<lparr>dp_data := drop (unat (DataPacket_fixedLengthSize dp)) (m_data b)\<rparr>), b)))
   }"

definition EndPacket_fromSerialBuffer ::
  "FP_Header \<Rightarrow> ser_buf \<Rightarrow> ((SerializeStatus + EndPacket) \<times> ser_buf) option" where
  "EndPacket_fromSerialBuffer h b = do {
     fw_assert (hdr_type h = T_END);
     deser_then (deserialize_U32 b) (\<lambda>checksumValue b.
       Some (Inr \<lparr>ep_header = h, ep_checksumValue = checksumValue\<rparr>, b))
   }"

definition CancelPacket_fromSerialBuffer ::
  "FP_Header \<Rightarrow> ser_buf \<Rightarrow> ((SerializeStatus + CancelPacket) \<times> ser_buf) option" where
  "CancelPacket_fromSerialBuffer h b = do {
     fw_assert (hdr_type h = T_CANCEL);
     if getBuffLeft b \<noteq> 0 then Some (Inl FW_DESERIALIZE_SIZE_MISMATCH, b)
     else Some (Inr \<lparr>cp_header = h\<rparr>, b)
   }"

definition inject ::
  "('a \<Rightarrow> 'b) \<Rightarrow> ((SerializeStatus + 'a) \<times> ser_buf) option \<Rightarrow> ((SerializeStatus + 'b) \<times> ser_buf) option" where
  "inject f r = deser_then r (\<lambda>v b. Some (Inr (f v), b))"

definition FilePacket_fromSerialBuffer :: "ser_buf \<Rightarrow> ((SerializeStatus + FilePacket) \<times> ser_buf) option" where
  "FilePacket_fromSerialBuffer b =
     deser_then (FP_Header_fromSerialBuffer b) (\<lambda>h b.
       case hdr_type h of
         T_START \<Rightarrow> inject FP_start (StartPacket_fromSerialBuffer h b)
       | T_DATA \<Rightarrow> inject FP_data (DataPacket_fromSerialBuffer h b)
       | T_END \<Rightarrow> inject FP_end (EndPacket_fromSerialBuffer h b)
       | T_CANCEL \<Rightarrow> inject FP_cancel (CancelPacket_fromSerialBuffer h b)
       | T_NONE \<Rightarrow> Some (Inl FW_DESERIALIZE_TYPE_MISMATCH, b)
       | T_unnamed v \<Rightarrow> None)"

text \<open>On an error the union is left half filled; no caller reads it then.\<close>

definition FilePacket_fromBuffer :: "Fw_Buffer \<Rightarrow> (SerializeStatus + FilePacket) option" where
  "FilePacket_fromBuffer buffer = do {
     b \<leftarrow> SerialBuffer_fill (SerialBuffer_new buffer);
     (status, b) \<leftarrow> FilePacket_fromSerialBuffer b;
     Some status
   }"

section \<open>The byte form of a packet\<close>

definition path_image :: "PathName \<Rightarrow> U8 list" where
  "path_image pn = pn_length pn # take (unat (pn_length pn)) (pn_value pn)"

definition header_image :: "FP_Header \<Rightarrow> U8 list" where
  "header_image h = U8_of_Type (hdr_type h) # bytes_of_U32 (hdr_sequenceIndex h)"

fun packet_image :: "FilePacket \<Rightarrow> U8 list" where
  "packet_image (FP_header h) = header_image h"
| "packet_image (FP_start sp) = header_image (sp_header sp) @ bytes_of_U32 (sp_fileSize sp) @
     path_image (sp_sourcePath sp) @ path_image (sp_destinationPath sp)"
| "packet_image (FP_data dp) = header_image (dp_header dp) @ bytes_of_U32 (dp_byteOffset dp) @
     bytes_of_U16 (dp_dataSize dp) @ take (unat (dp_dataSize dp)) (dp_data dp)"
| "packet_image (FP_end ep) = header_image (ep_header ep) @ bytes_of_U32 (ep_checksumValue ep)"
| "packet_image (FP_cancel cp) = header_image (cp_header cp)"

text \<open>The type of the header names the member, and the pointers lead to as much as is sent.\<close>

definition path_ok :: "PathName \<Rightarrow> bool" where
  "path_ok pn \<longleftrightarrow> unat (pn_length pn) \<le> length (pn_value pn)"

fun packet_ok :: "FilePacket \<Rightarrow> bool" where
  "packet_ok (FP_header h) \<longleftrightarrow> False"
| "packet_ok (FP_start sp) \<longleftrightarrow> hdr_type (sp_header sp) = T_START \<and> path_ok (sp_sourcePath sp) \<and>
     path_ok (sp_destinationPath sp)"
| "packet_ok (FP_data dp) \<longleftrightarrow> hdr_type (dp_header dp) = T_DATA \<and> unat (dp_dataSize dp) \<le> length (dp_data dp)"
| "packet_ok (FP_end ep) \<longleftrightarrow> hdr_type (ep_header ep) = T_END"
| "packet_ok (FP_cancel cp) \<longleftrightarrow> hdr_type (cp_header cp) = T_CANCEL"

text \<open>A packet without what its pointers lead to behind the lengths it states.\<close>

definition trim_path :: "PathName \<Rightarrow> PathName" where
  "trim_path pn = pn\<lparr>pn_value := take (unat (pn_length pn)) (pn_value pn)\<rparr>"

fun trim_packet :: "FilePacket \<Rightarrow> FilePacket" where
  "trim_packet (FP_start sp) =
     FP_start (sp\<lparr>sp_sourcePath := trim_path (sp_sourcePath sp), sp_destinationPath := trim_path (sp_destinationPath sp)\<rparr>)"
| "trim_packet (FP_data dp) = FP_data (dp\<lparr>dp_data := take (unat (dp_dataSize dp)) (dp_data dp)\<rparr>)"
| "trim_packet p = p"

lemma Type_of_U8_of [simp]: "(\<And>v. t \<noteq> T_unnamed v) \<Longrightarrow> Type_of_U8 (U8_of_Type t) = t"
  by (cases t) (auto simp: Type_of_U8_def)

lemma length_header_image [simp]: "length (header_image h) = 5"
  by (simp add: header_image_def)

lemma unat_PathName_bufferSize:
  "path_ok pn \<Longrightarrow> unat (PathName_bufferSize pn) = length (path_image pn)"
  using unat_lt8 [of "pn_length pn"]
  by (simp add: PathName_bufferSize_def path_image_def path_ok_def unat_add_small)

lemma length_path_image: "length (path_image pn) \<le> 256"
  using unat_lt8 [of "pn_length pn"] by (simp add: path_image_def)

lemma FilePacket_bufferSize_image:
  assumes "packet_ok p"
  obtains n where "FilePacket_bufferSize p = Some n" "unat n = length (packet_image p)"
    "length (packet_image p) < 70000"
proof (cases p)
  case (FP_start sp)
  let ?n = "StartPacket_bufferSize sp"
  have "unat ?n = 9 + length (path_image (sp_sourcePath sp)) + length (path_image (sp_destinationPath sp))"
    using assms FP_start length_path_image [of "sp_sourcePath sp"] length_path_image [of "sp_destinationPath sp"]
    by (simp add: StartPacket_bufferSize_def FP_Header_bufferSize_def unat_add_small unat_PathName_bufferSize)
  then show ?thesis
    using that [of ?n] assms FP_start length_path_image [of "sp_sourcePath sp"] length_path_image [of "sp_destinationPath sp"]
    by (simp add: FilePacket_bufferSize_def)
next
  case (FP_data dp)
  let ?n = "DataPacket_bufferSize dp"
  have "unat ?n = 11 + unat (dp_dataSize dp)"
    using unat_lt16 [of "dp_dataSize dp"]
    by (simp add: DataPacket_bufferSize_def FP_Header_bufferSize_def unat_add_small)
  then show ?thesis
    using that [of ?n] assms FP_data unat_lt16 [of "dp_dataSize dp"] by (simp add: FilePacket_bufferSize_def)
next
  case (FP_end ep)
  then show ?thesis using that [of "EndPacket_bufferSize ep"] assms
    by (simp add: FilePacket_bufferSize_def EndPacket_bufferSize_def FP_Header_bufferSize_def)
next
  case (FP_cancel cp)
  then show ?thesis using that [of "CancelPacket_bufferSize cp"] assms
    by (simp add: FilePacket_bufferSize_def CancelPacket_bufferSize_def FP_Header_bufferSize_def)
qed (use assms in simp)

section \<open>Writing appends the image\<close>

lemma pushBytes_take: "unat n \<le> length bs \<Longrightarrow> pushBytes b bs n = pushBytes b (take (unat n) bs) n"
  by (simp add: pushBytes_def serialize_bytes_def read_at_def)

lemma writes_pushBytes:
  assumes "unat n \<le> length bs" "unat n < 2147483648"
  shows "writes (\<lambda>b. pushBytes b bs n) (take (unat n) bs)"
  using assms unfolding writes_def pushBytes_take [OF assms(1)]
  by (simp add: pushBytes_def serialize_bytes_raw)

lemma writes_header: "writes (FP_Header_toSerialBuffer h) (header_image h)"
  unfolding FP_Header_toSerialBuffer_def [abs_def] header_image_def
  using writes_then [OF writes_fixed(1) writes_fixed(3)] by simp

lemma writes_path:
  assumes "path_ok pn"
  shows "writes (PathName_toSerialBuffer pn) (path_image pn)"
proof -
  have "writes (\<lambda>b. pushBytes b (pn_value pn) (ucast (pn_length pn))) (take (unat (ucast (pn_length pn) :: U32)) (pn_value pn))"
    using assms unat_lt8 [of "pn_length pn"] by (intro writes_pushBytes) (simp_all add: path_ok_def)
  from writes_then [OF writes_fixed(1) this] show ?thesis
    unfolding PathName_toSerialBuffer_def [abs_def] path_image_def by simp
qed

lemma writes_start:
  assumes "packet_ok (FP_start sp)"
  shows "writes (StartPacket_toSerialBuffer sp) (packet_image (FP_start sp))"
proof -
  have "writes (\<lambda>b. ser_then (FP_Header_toSerialBuffer (sp_header sp) b) (\<lambda>b.
       ser_then (serialize_U32 b (sp_fileSize sp)) (\<lambda>b.
         ser_then (PathName_toSerialBuffer (sp_sourcePath sp) b) (\<lambda>b.
           PathName_toSerialBuffer (sp_destinationPath sp) b)))) (packet_image (FP_start sp))"
    unfolding packet_image.simps using assms by (intro writes_then writes_header writes_fixed writes_path) simp_all
  then show ?thesis using assms by (simp add: StartPacket_toSerialBuffer_def [abs_def])
qed

lemma writes_data:
  assumes "packet_ok (FP_data dp)"
  shows "writes (DataPacket_toSerialBuffer dp) (packet_image (FP_data dp))"
proof -
  have "writes (\<lambda>b. pushBytes b (dp_data dp) (ucast (dp_dataSize dp))) (take (unat (ucast (dp_dataSize dp) :: U32)) (dp_data dp))"
    using assms unat_lt16 [of "dp_dataSize dp"] by (intro writes_pushBytes) simp_all
  then have p: "writes (\<lambda>b. pushBytes b (dp_data dp) (ucast (dp_dataSize dp))) (take (unat (dp_dataSize dp)) (dp_data dp))"
    by simp
  have "writes (\<lambda>b. ser_then (FP_Header_toSerialBuffer (dp_header dp) b) (\<lambda>b.
       ser_then (serialize_U32 b (dp_byteOffset dp)) (\<lambda>b.
         ser_then (serialize_U16 b (dp_dataSize dp)) (\<lambda>b.
           pushBytes b (dp_data dp) (ucast (dp_dataSize dp)))))) (packet_image (FP_data dp))"
    unfolding packet_image.simps by (intro writes_then writes_header writes_fixed p)
  then show ?thesis using assms by (simp add: DataPacket_toSerialBuffer_def [abs_def])
qed

lemma writes_end:
  assumes "packet_ok (FP_end ep)"
  shows "writes (EndPacket_toSerialBuffer ep) (packet_image (FP_end ep))"
  using assms writes_then [OF writes_header [of "ep_header ep"] writes_fixed(3) [of "ep_checksumValue ep"]]
  by (simp add: EndPacket_toSerialBuffer_def [abs_def])

lemma via_serial_buffer_ok:
  assumes "writes w bs" "m_bufferData buf = Some m" "length bs \<le> unat (m_size buf)" "unat (m_size buf) \<le> length m"
    "unat (m_size buf) < 2147483648"
  shows "\<exists>buf'. via_serial_buffer w buf = Some (FW_SERIALIZE_OK, buf') \<and>
    m_bufferData buf' = Some (bs @ drop (length bs) m) \<and> m_size buf' = m_size buf \<and> m_context buf' = m_context buf"
proof -
  define n where "n = unat (m_size buf)"
  let ?b = "SerialBuffer_new buf"
  have b: "?b = \<lparr>m_data = take n m, m_null = False, m_serLoc = 0, m_deserLoc = 0\<rparr>"
    using assms by (simp add: SerialBuffer_new_def n_def)
  have "ser_wf ?b" "length bs \<le> room ?b"
    using assms unfolding b by (simp_all add: ser_wf_def room_def n_def)
  with assms(1) have "w ?b = Some (FW_SERIALIZE_OK, append_to ?b bs)" by (rule writesD)
  moreover have "m_data (append_to ?b bs) = bs @ drop (length bs) (take n m)"
    unfolding b by (simp add: append_to_def)
  moreover have len: "length (bs @ drop (length bs) (take n m)) = n"
    using assms(3,4) by (simp add: n_def)
  moreover have "(bs @ drop (length bs) (take n m)) @ drop n m = bs @ drop (length bs) m"
  proof -
    have "drop (length bs) (take n m @ drop n m) = drop (length bs) (take n m) @ drop n m"
      using assms(3,4) unfolding drop_append by (simp add: n_def)
    then show ?thesis by simp
  qed
  ultimately show ?thesis using assms(2) by (simp add: via_serial_buffer_def store_serial_def del: append_assoc length_append)
qed

text \<open>A packet that is not too long for its buffer goes to the start of the buffer's memory.\<close>

lemma FilePacket_toBuffer_room:
  assumes "packet_ok p" "m_bufferData buf = Some m" "length (packet_image p) \<le> unat (m_size buf)"
    "unat (m_size buf) \<le> length m" "unat (m_size buf) < 2147483648"
  shows "\<exists>buf'. FilePacket_toBuffer p buf = Some (FW_SERIALIZE_OK, buf') \<and>
    m_bufferData buf' = Some (packet_image p @ drop (length (packet_image p)) m) \<and>
    m_size buf' = m_size buf \<and> m_context buf' = m_context buf"
proof -
  have "\<exists>w. FilePacket_toBuffer p buf = via_serial_buffer w buf \<and> writes w (packet_image p)"
  proof (cases p)
    case (FP_start sp)
    then show ?thesis using assms(1) writes_start [of sp]
      by (intro exI [of _ "StartPacket_toSerialBuffer sp"]) (simp add: FilePacket_toBuffer_def StartPacket_toBuffer_def)
  next
    case (FP_data dp)
    then show ?thesis using assms(1) writes_data [of dp]
      by (intro exI [of _ "DataPacket_toSerialBuffer dp"]) (simp add: FilePacket_toBuffer_def DataPacket_toBuffer_def)
  next
    case (FP_end ep)
    then show ?thesis using assms(1) writes_end [of ep]
      by (intro exI [of _ "EndPacket_toSerialBuffer ep"]) (simp add: FilePacket_toBuffer_def EndPacket_toBuffer_def)
  next
    case (FP_cancel cp)
    then show ?thesis using assms(1) writes_header [of "cp_header cp"]
      by (intro exI [of _ "FP_Header_toSerialBuffer (cp_header cp)"]) (simp add: FilePacket_toBuffer_def CancelPacket_toBuffer_def)
  qed (use assms(1) in simp)
  then obtain w where w: "FilePacket_toBuffer p buf = via_serial_buffer w buf" "writes w (packet_image p)" by blast
  show ?thesis unfolding w(1) by (rule via_serial_buffer_ok [OF w(2) assms(2-5)])
qed

lemma FilePacket_toBuffer_ok:
  assumes "packet_ok p" "m_bufferData buf = Some m" "FilePacket_bufferSize p = Some (m_size buf)"
    "unat (m_size buf) \<le> length m"
  shows "\<exists>buf'. FilePacket_toBuffer p buf = Some (FW_SERIALIZE_OK, buf') \<and>
    m_bufferData buf' = Some (packet_image p @ drop (length (packet_image p)) m) \<and>
    unat (m_size buf') = length (packet_image p) \<and> length (packet_image p) < 70000"
proof -
  have n: "unat (m_size buf) = length (packet_image p)" "length (packet_image p) < 70000"
    using FilePacket_bufferSize_image [OF assms(1)] assms(3) by auto
  show ?thesis
    using FilePacket_toBuffer_room [OF assms(1,2) _ assms(4)] n by auto
qed

section \<open>Reading takes the image off the front\<close>

text \<open>A filled buffer: everything in it is still to be read, or has been read.\<close>

definition filled :: "ser_buf \<Rightarrow> bool" where
  "filled b \<longleftrightarrow> ser_wf b \<and> \<not> m_null b \<and> unat (m_serLoc b) = length (m_data b)"

lemma filled_wf: "filled b \<Longrightarrow> ser_wf b \<and> \<not> m_null b"
  by (simp add: filled_def)

lemma filled_unread: "filled b \<Longrightarrow> drop (unat (m_deserLoc b)) (m_data b) = unread b"
  by (simp add: filled_def unread_def contents_def)

lemma filled_consume: "filled b \<Longrightarrow> n \<le> length (unread b) \<Longrightarrow> filled (consume b n)"
  by (simp add: filled_def consume_wf)

lemma popBytes_ok:
  assumes "filled b" "unat n \<le> length (unread b)"
  shows "popBytes b n = Some (Inr (take (unat n) (unread b)), consume b (unat n))"
proof -
  have "\<not> n > getBuffLeft b" using assms by (simp add: word_less_nat_alt unat_getBuffLeft filled_def)
  moreover have "unat (m_deserLoc b) + unat n \<le> length (m_data b)"
    using assms length_unread [of b] unfolding filled_def ser_wf_def by linarith
  ultimately show ?thesis
    using assms by (simp add: popBytes_def deserialize_bytes_def read_at_def filled_unread filled_wf consume_def)
qed

lemma popBytes_short:
  assumes "filled b" "length (unread b) < unat n"
  shows "popBytes b n = Some (Inl FW_DESERIALIZE_SIZE_MISMATCH, b)"
  using assms by (simp add: popBytes_def deserialize_bytes_def word_less_nat_alt unat_getBuffLeft filled_def)

lemma header_read:
  assumes "filled b" "unread b = header_image h @ rest" "\<And>v. hdr_type h \<noteq> T_unnamed v"
  shows "FP_Header_fromSerialBuffer b = Some (Inr h, consume b 5)" "filled (consume b 5)" "unread (consume b 5) = rest"
proof -
  have u: "unread b = [U8_of_Type (hdr_type h)] @ bytes_of_U32 (hdr_sequenceIndex h) @ rest"
    using assms(2) by (simp add: header_image_def)
  have 1: "deserialize_U8 b = Some (Inr (U8_of_Type (hdr_type h)), consume b 1)"
    using u8.get_ok [OF _ u] assms(1) by (simp add: filled_wf)
  have c: "filled (consume b 1)" "unread (consume b 1) = bytes_of_U32 (hdr_sequenceIndex h) @ rest"
    using assms(1) u by (simp_all add: filled_consume filled_wf consume_unread)
  have 2: "deserialize_U32 (consume b 1) = Some (Inr (hdr_sequenceIndex h), consume b 5)"
    using u32.get_ok [OF _ c(2)] c(1) by (simp add: filled_wf consume_consume)
  show "FP_Header_fromSerialBuffer b = Some (Inr h, consume b 5)"
    using assms(3) by (simp add: FP_Header_fromSerialBuffer_def 1 2 del: One_nat_def)
  show "filled (consume b 5)" using assms(1) u by (simp add: filled_consume)
  show "unread (consume b 5) = rest" using assms(1) u by (simp add: filled_wf consume_unread)
qed

lemma path_read:
  assumes "filled b" "unread b = path_image pn @ rest" "path_ok pn"
  shows "PathName_fromSerialBuffer b =
      Some (Inr \<lparr>pn_length = pn_length pn, pn_value = take (unat (pn_length pn)) (pn_value pn) @ rest\<rparr>,
        consume b (length (path_image pn)))"
    "filled (consume b (length (path_image pn)))" "unread (consume b (length (path_image pn))) = rest"
proof -
  let ?n = "unat (pn_length pn)"
  have u: "unread b = [pn_length pn] @ take ?n (pn_value pn) @ rest"
    using assms(2) by (simp add: path_image_def)
  have 1: "deserialize_U8 b = Some (Inr (pn_length pn), consume b 1)"
    using u8.get_ok [OF _ u] assms(1) by (simp add: filled_wf)
  have c: "filled (consume b 1)" "unread (consume b 1) = take ?n (pn_value pn) @ rest"
    using assms(1) u by (simp_all add: filled_consume filled_wf consume_unread)
  have l: "length (path_image pn) = 1 + ?n" using assms(3) by (simp add: path_image_def path_ok_def)
  have "?n \<le> length (unread (consume b 1))" using assms(3) unfolding c(2) by (simp add: path_ok_def)
  then have 2: "popBytes (consume b 1) (ucast (pn_length pn)) =
      Some (Inr (take ?n (unread (consume b 1))), consume b (length (path_image pn)))"
    using popBytes_ok [OF c(1), of "ucast (pn_length pn)"] by (simp add: consume_consume l)
  show "PathName_fromSerialBuffer b =
      Some (Inr \<lparr>pn_length = pn_length pn, pn_value = take (unat (pn_length pn)) (pn_value pn) @ rest\<rparr>,
        consume b (length (path_image pn)))"
    using filled_unread [OF c(1)] by (simp add: PathName_fromSerialBuffer_def 1 2 Let_def c(2) del: consume_sel One_nat_def)
  show "filled (consume b (length (path_image pn)))" "unread (consume b (length (path_image pn))) = rest"
    using assms(1,2) by (simp_all add: filled_consume filled_wf consume_unread)
qed

lemma U32_read:
  assumes "filled b" "unread b = bytes_of_U32 v @ rest"
  shows "deserialize_U32 b = Some (Inr v, consume b 4)" "filled (consume b 4)" "unread (consume b 4) = rest"
  using assms u32.get_ok [OF _ assms(2)] by (simp_all add: filled_wf filled_consume consume_unread)

lemma U16_read:
  assumes "filled b" "unread b = bytes_of_U16 v @ rest"
  shows "deserialize_U16 b = Some (Inr v, consume b 2)" "filled (consume b 2)" "unread (consume b 2) = rest"
  using assms u16.get_ok [OF _ assms(2)] by (simp_all add: filled_wf filled_consume consume_unread)

lemma trim_path_read:
  "path_ok pn \<Longrightarrow> trim_path \<lparr>pn_length = pn_length pn, pn_value = take (unat (pn_length pn)) (pn_value pn) @ rest\<rparr> = trim_path pn"
  by (simp add: trim_path_def path_ok_def)

lemma start_read:
  assumes "filled b" "unread b = bytes_of_U32 (sp_fileSize sp) @ path_image (sp_sourcePath sp) @ path_image (sp_destinationPath sp)"
    and "packet_ok (FP_start sp)"
  shows "\<exists>sp' b'. StartPacket_fromSerialBuffer (sp_header sp) b = Some (Inr sp', b') \<and>
    trim_packet (FP_start sp') = trim_packet (FP_start sp)"
proof -
  note 1 = U32_read [OF assms(1,2)]
  have ok: "path_ok (sp_sourcePath sp)" "path_ok (sp_destinationPath sp)" using assms(3) by simp_all
  note 2 = path_read [OF 1(2,3) ok(1)]
  note 3 = path_read [OF 2(2) _ ok(2), of "[]", simplified append_Nil2, OF 2(3)]
  show ?thesis using assms(3)
    by (simp add: StartPacket_fromSerialBuffer_def 1(1) 2(1) 3(1) trim_path_read [OF ok(1)] trim_path_read [OF ok(2), of "[]", simplified])
qed

lemma data_read:
  assumes "filled b" "unread b = bytes_of_U32 (dp_byteOffset dp) @ bytes_of_U16 (dp_dataSize dp) @ take (unat (dp_dataSize dp)) (dp_data dp)"
    and "packet_ok (FP_data dp)" "unat (m_deserLoc b) = 5"
  shows "\<exists>dp' b'. DataPacket_fromSerialBuffer (dp_header dp) b = Some (Inr dp', b') \<and>
    FP_data dp' = trim_packet (FP_data dp)"
proof -
  note 1 = U32_read [OF assms(1,2)]
  note 2 = U16_read [OF 1(2,3)]
  let ?b = "consume (consume b 4) 2"
  let ?d = "take (unat (dp_dataSize dp)) (dp_data dp)"
  have "unat (getBuffLeft ?b) = unat (dp_dataSize dp)"
    using 2(3) assms(3) unat_getBuffLeft [of ?b] filled_wf [OF 2(2)] by simp
  then have left: "getBuffLeft ?b = ucast (dp_dataSize dp)" by (simp add: word_unat_eq_iff)
  have "unat (m_deserLoc ?b) = 11"
    using assms(4) by (simp add: consume_def unat_add_small)
  then have d: "drop 11 (m_data b) = ?d" using filled_unread [OF 2(2)] 2(3) by simp
  show ?thesis using assms(3) by (simp add: DataPacket_fromSerialBuffer_def 1(1) 2(1) left Let_def
        DataPacket_fixedLengthSize_def FP_Header_bufferSize_def d)
qed

text \<open>A received data packet points to exactly the bytes it announces.\<close>

fun tight :: "FilePacket \<Rightarrow> bool" where
  "tight (FP_data dp) \<longleftrightarrow> length (dp_data dp) = unat (dp_dataSize dp)"
| "tight p \<longleftrightarrow> True"

lemma FilePacket_fromBuffer_image:
  assumes "packet_ok p" "m_bufferData buf = Some m" "unat (m_size buf) \<le> length m"
    and "buffer_bytes buf = packet_image p"
  shows "\<exists>q. FilePacket_fromBuffer buf = Some (Inr q) \<and> trim_packet q = trim_packet p \<and> tight q"
proof -
  let ?img = "packet_image p"
  have len: "length ?img = unat (m_size buf)" "length ?img < 70000"
    using assms FilePacket_bufferSize_image [OF assms(1)] by (auto simp: buffer_bytes_def simp flip: assms(4))
  let ?b = "\<lparr>m_data = ?img, m_null = False, m_serLoc = m_size buf, m_deserLoc = 0\<rparr>"
  have fill: "SerialBuffer_fill (SerialBuffer_new buf) = Some ?b"
    using assms len by (simp add: SerialBuffer_new_def SerialBuffer_fill_def setBuffLen_def getBuffCapacity_def buffer_bytes_def)
  have f: "filled ?b" "unread ?b = ?img" using len by (simp_all add: filled_def ser_wf_def unread_def contents_def)
  obtain rest where rest: "?img = header_image (asHeader p) @ rest" "hdr_type (asHeader p) \<in> {T_START, T_DATA, T_END, T_CANCEL}"
    using assms(1) by (cases p) auto
  have u: "unread ?b = header_image (asHeader p) @ rest" using f(2) rest(1) by simp
  have t: "\<And>v. hdr_type (asHeader p) \<noteq> T_unnamed v" using rest(2) by auto
  note h = header_read [OF f(1) u t]
  have "\<exists>q b'. FilePacket_fromSerialBuffer ?b = Some (Inr q, b') \<and> trim_packet q = trim_packet p \<and> tight q"
  proof (cases p)
    case (FP_start sp)
    with assms(1) rest(1) h(3) start_read [OF h(2), of sp] h(1) show ?thesis
      by (auto simp: FilePacket_fromSerialBuffer_def inject_def)
  next
    case (FP_data dp)
    have "unat (m_deserLoc (consume ?b 5)) = 5" by (simp add: consume_def)
    with FP_data assms(1) rest(1) h(3) data_read [OF h(2), of dp] h(1) show ?thesis
      by (auto simp: FilePacket_fromSerialBuffer_def inject_def)
  next
    case (FP_end ep)
    then have "unread (consume ?b 5) = bytes_of_U32 (ep_checksumValue ep) @ []" using rest(1) h(3) by simp
    from U32_read [OF h(2) this] FP_end assms(1) h(1) show ?thesis
      by (simp add: FilePacket_fromSerialBuffer_def inject_def EndPacket_fromSerialBuffer_def)
  next
    case (FP_cancel cp)
    then have "unat (getBuffLeft (consume ?b 5)) = 0"
      using rest(1) h(2,3) unat_getBuffLeft [of "consume ?b 5"] by (simp add: filled_wf)
    then have "getBuffLeft (consume ?b 5) = 0" by (simp add: word_unat_eq_iff)
    with FP_cancel assms(1) h(1) show ?thesis
      by (simp add: FilePacket_fromSerialBuffer_def inject_def CancelPacket_fromSerialBuffer_def)
  qed (use assms(1) in simp)
  then show ?thesis using fill by (auto simp: FilePacket_fromBuffer_def)
qed

text \<open>
  C21: the four packets of the file transfer survive the wire. Writing a packet to a buffer of the
  size \<open>bufferSize\<close> states succeeds, and reading that buffer gives the packet back, with the same
  paths, data and checksum; only what the pointers lead to behind the stated lengths is not sent.
\<close>

theorem file_packet_roundtrip:
  assumes "packet_ok p" "FilePacket_bufferSize p = Some (m_size buf)"
    "m_bufferData buf = Some m" "unat (m_size buf) \<le> length m"
  shows "\<exists>buf' q. FilePacket_toBuffer p buf = Some (FW_SERIALIZE_OK, buf') \<and>
    FilePacket_fromBuffer buf' = Some (Inr q) \<and> trim_packet q = trim_packet p"
proof -
  let ?img = "packet_image p"
  obtain buf' where w: "FilePacket_toBuffer p buf = Some (FW_SERIALIZE_OK, buf')"
    "m_bufferData buf' = Some (?img @ drop (length ?img) m)" "unat (m_size buf') = length ?img"
    using FilePacket_toBuffer_ok [OF assms(1,3,2,4)] by blast
  have "buffer_bytes buf' = ?img" using w by (simp add: buffer_bytes_def)
  then show ?thesis using FilePacket_fromBuffer_image [OF assms(1) w(2)] w by auto
qed

lemma file_packet_roundtrip_witness:
  "\<exists>buf' q. FilePacket_toBuffer (FP_data (DataPacket_initialize 1 0 3 [7, 8, 9])) (Buffer_new (Some (replicate 14 0)) 14 0) =
      Some (FW_SERIALIZE_OK, buf') \<and>
    FilePacket_fromBuffer buf' = Some (Inr q) \<and>
    trim_packet q = trim_packet (FP_data (DataPacket_initialize 1 0 3 [7, 8, 9]))"
  by (rule file_packet_roundtrip [where m = "replicate 14 0"])
    (simp_all add: DataPacket_initialize_def FP_Header_initialize_def FilePacket_bufferSize_def DataPacket_bufferSize_def
      FP_Header_bufferSize_def Buffer_new_def)

section \<open>Reading anything\<close>

text \<open>A call that returns, with an error other than \<open>FW_SERIALIZE_OK\<close> or a value.\<close>

definition gives :: "((SerializeStatus + 'a) \<times> ser_buf) option \<Rightarrow> bool" where
  "gives r \<longleftrightarrow> (\<exists>res b. r = Some (res, b) \<and> filled b \<and> res \<noteq> Inl FW_SERIALIZE_OK)"

lemma gives_then:
  assumes "gives r" "\<And>v b. r = Some (Inr v, b) \<Longrightarrow> filled b \<Longrightarrow> gives (rest v b)"
  shows "gives (deser_then r rest)"
proof -
  obtain res b where r: "r = Some (res, b)" "filled b" "res \<noteq> Inl FW_SERIALIZE_OK"
    using assms(1) by (auto simp: gives_def)
  show ?thesis
  proof (cases res)
    case (Inl e)
    then show ?thesis using r by (simp add: gives_def)
  next
    case (Inr v)
    then show ?thesis using r assms(2) by simp
  qed
qed

lemma gives_Some [simp]: "gives (Some (res, b)) \<longleftrightarrow> filled b \<and> res \<noteq> Inl FW_SERIALIZE_OK"
  by (simp add: gives_def)

lemma gives_total:
  assumes "filled b" "(\<exists>e. r = Some (Inl e, b)) \<or> (\<exists>v rest. unread b = enc v @ rest \<and> r = Some (Inr v, consume b (length (enc v))))"
    and "\<And>e b'. r = Some (Inl e, b') \<Longrightarrow> e \<noteq> FW_SERIALIZE_OK"
  shows "gives r"
  using assms(2)
proof (elim disjE exE conjE)
  fix e assume "r = Some (Inl e, b)"
  then show ?thesis using assms(1,3) by simp
next
  fix v rest assume "unread b = enc v @ rest" "r = Some (Inr v, consume b (length (enc v)))"
  then show ?thesis using assms(1) by (simp add: filled_consume)
qed

lemma gives_fixed:
  assumes "filled b"
  shows "gives (deserialize_U8 b)" "gives (deserialize_U16 b)" "gives (deserialize_U32 b)"
proof -
  have wf: "ser_wf b" using filled_wf [OF assms] by blast
  show "gives (deserialize_U8 b)" using gives_total [OF assms u8.get_total [OF wf]] u8.get_error by blast
  show "gives (deserialize_U16 b)" using gives_total [OF assms u16.get_total [OF wf]] u16.get_error by blast
  show "gives (deserialize_U32 b)" using gives_total [OF assms u32.get_total [OF wf]] u32.get_error by blast
qed

lemma gives_popBytes: "filled b \<Longrightarrow> gives (popBytes b n)"
  by (cases "unat n \<le> length (unread b)") (simp_all add: popBytes_ok popBytes_short filled_consume)

lemma gives_header: "filled b \<Longrightarrow> gives (FP_Header_fromSerialBuffer b)"
  unfolding FP_Header_fromSerialBuffer_def by (intro gives_then gives_fixed) simp_all

lemma gives_path: "filled b \<Longrightarrow> gives (PathName_fromSerialBuffer b)"
  unfolding PathName_fromSerialBuffer_def Let_def by (intro gives_then gives_fixed gives_popBytes) simp_all

lemma gives_body:
  assumes "filled b" "\<And>v. hdr_type h \<noteq> T_unnamed v"
  shows "gives (case hdr_type h of
         T_START \<Rightarrow> inject FP_start (StartPacket_fromSerialBuffer h b)
       | T_DATA \<Rightarrow> inject FP_data (DataPacket_fromSerialBuffer h b)
       | T_END \<Rightarrow> inject FP_end (EndPacket_fromSerialBuffer h b)
       | T_CANCEL \<Rightarrow> inject FP_cancel (CancelPacket_fromSerialBuffer h b)
       | T_NONE \<Rightarrow> Some (Inl FW_DESERIALIZE_TYPE_MISMATCH, b)
       | T_unnamed v \<Rightarrow> None)"
proof (cases "hdr_type h")
  case T_START
  have "gives (StartPacket_fromSerialBuffer h b)"
    unfolding StartPacket_fromSerialBuffer_def T_START fw_assert_def
    by simp (intro gives_then gives_fixed gives_path assms(1); simp)
  then show ?thesis by (simp add: T_START inject_def gives_then)
next
  case T_DATA
  have "gives (DataPacket_fromSerialBuffer h b)"
    unfolding DataPacket_fromSerialBuffer_def T_DATA fw_assert_def Let_def
    by simp (intro gives_then gives_fixed assms(1); simp)
  then show ?thesis by (simp add: T_DATA inject_def gives_then)
next
  case T_END
  have "gives (EndPacket_fromSerialBuffer h b)"
    unfolding EndPacket_fromSerialBuffer_def T_END fw_assert_def
    by simp (intro gives_then gives_fixed assms(1); simp)
  then show ?thesis by (simp add: T_END inject_def gives_then)
next
  case T_CANCEL
  then show ?thesis using assms(1) by (simp add: inject_def gives_then CancelPacket_fromSerialBuffer_def)
qed (use assms in simp_all)

lemma header_cases:
  assumes "filled b"
  obtains (short) e b' where "length (unread b) < 5" "FP_Header_fromSerialBuffer b = Some (Inl e, b')" "e \<noteq> FW_SERIALIZE_OK"
  | (long) h b' where "5 \<le> length (unread b)" "FP_Header_fromSerialBuffer b = Some (Inr h, b')"
      "hdr_type h = Type_of_U8 (hd (unread b))" "filled b'"
proof (cases "5 \<le> length (unread b)")
  case True
  obtain t where t: "unread b = [t] @ tl (unread b)" "t = hd (unread b)"
    using True by (cases "unread b") auto
  have 1: "deserialize_U8 b = Some (Inr t, consume b 1)"
    using u8.get_ok [OF _ t(1)] assms by (simp add: filled_wf)
  have c: "filled (consume b 1)" using True assms by (intro filled_consume) simp_all
  have "length (unread (consume b 1)) = length (unread b) - 1"
    using True assms by (subst consume_unread) (simp_all add: filled_wf)
  then have l: "4 \<le> length (unread (consume b 1))" using True by simp
  have 2: "deserialize_U32 (consume b 1) = Some (Inr (U32_of_bytes (take 4 (unread (consume b 1)))), consume (consume b 1) 4)"
    using deser_fixed_ok [of "consume b 1" 4 U32_of_bytes] c l by (simp add: deserialize_U32_def filled_wf)
  let ?h = "\<lparr>hdr_type = Type_of_U8 (hd (unread b)), hdr_sequenceIndex = U32_of_bytes (take 4 (unread (consume b 1)))\<rparr>"
  have "FP_Header_fromSerialBuffer b = Some (Inr ?h, consume (consume b 1) 4)"
    by (simp add: FP_Header_fromSerialBuffer_def 1 2 t(2) del: One_nat_def)
  from long [OF True this] show ?thesis using filled_consume [OF c l] by simp
next
  case False
  have "\<exists>e b'. FP_Header_fromSerialBuffer b = Some (Inl e, b') \<and> e \<noteq> FW_SERIALIZE_OK"
  proof (cases "unread b")
    case Nil
    then show ?thesis using deser_fixed_short [of b 1 "\<lambda>bs. bs ! 0 :: U8"] assms
      by (simp add: FP_Header_fromSerialBuffer_def deserialize_U8_def filled_wf)
  next
    case (Cons t bs)
    then have u: "unread b = [t] @ bs" by simp
    have 1: "deserialize_U8 b = Some (Inr t, consume b 1)"
      using u8.get_ok [OF _ u] assms by (simp add: filled_wf)
    have c: "filled (consume b 1)" "unread (consume b 1) = bs"
      using assms u by (simp_all add: filled_consume filled_wf consume_unread)
    have "length (unread (consume b 1)) < 4" using False Cons c(2) by simp
    then have "\<exists>e. deserialize_U32 (consume b 1) = Some (Inl e, consume b 1) \<and> e \<noteq> FW_SERIALIZE_OK"
      using deser_fixed_short [of "consume b 1" 4 U32_of_bytes] c(1) by (simp add: deserialize_U32_def filled_wf)
    then show ?thesis by (auto simp: FP_Header_fromSerialBuffer_def 1 simp del: One_nat_def)
  qed
  then show ?thesis using short False by auto
qed

lemma unnamed_iff: "(\<exists>v. Type_of_U8 b = T_unnamed v) \<longleftrightarrow> 4 \<le> b \<and> b \<noteq> 255"
proof -
  have "4 \<le> b \<longleftrightarrow> b \<noteq> 0 \<and> b \<noteq> 1 \<and> b \<noteq> 2 \<and> b \<noteq> 3"
    unfolding word_le_nat_alt word_unat_eq_iff by simp linarith
  then show ?thesis by (auto simp: Type_of_U8_def)
qed

text \<open>
  Which received bytes stop the flight software. Reading a packet from any buffer returns a
  packet or an error status, with one exception: at least five bytes whose first one, the packet
  type, is between 4 and 254. Then the default branch of the type switch fails its assertion.
\<close>

theorem unknown_packet_type_aborts:
  assumes "m_bufferData buf = Some m" "unat (m_size buf) \<le> length m" "length m < 2147483648"
  shows "(FilePacket_fromBuffer buf = None \<longleftrightarrow>
      5 \<le> length (buffer_bytes buf) \<and> 4 \<le> hd (buffer_bytes buf) \<and> hd (buffer_bytes buf) \<noteq> 255) \<and>
    FilePacket_fromBuffer buf \<noteq> Some (Inl FW_SERIALIZE_OK)"
proof -
  let ?bs = "buffer_bytes buf"
  let ?b = "\<lparr>m_data = ?bs, m_null = False, m_serLoc = m_size buf, m_deserLoc = 0\<rparr>"
  have len: "length ?bs = unat (m_size buf)" using assms by (simp add: buffer_bytes_def)
  have fill: "SerialBuffer_fill (SerialBuffer_new buf) = Some ?b"
    using assms len by (simp add: SerialBuffer_new_def SerialBuffer_fill_def setBuffLen_def getBuffCapacity_def buffer_bytes_def)
  have f: "filled ?b" "unread ?b = ?bs" using assms len by (simp_all add: filled_def ser_wf_def unread_def contents_def)
  have "(FilePacket_fromSerialBuffer ?b = None \<longleftrightarrow> 5 \<le> length ?bs \<and> 4 \<le> hd ?bs \<and> hd ?bs \<noteq> 255) \<and>
      (\<forall>res b. FilePacket_fromSerialBuffer ?b = Some (res, b) \<longrightarrow> res \<noteq> Inl FW_SERIALIZE_OK)"
    using f(1)
  proof (cases rule: header_cases)
    case (short e b')
    then show ?thesis using f(2) by (simp add: FilePacket_fromSerialBuffer_def)
  next
    case (long h b')
    show ?thesis
    proof (cases "\<exists>v. hdr_type h = T_unnamed v")
      case True
      then show ?thesis using long f(2) unnamed_iff [of "hd ?bs"] by (auto simp: FilePacket_fromSerialBuffer_def)
    next
      case False
      with gives_body [OF long(4), of h] have "gives (FilePacket_fromSerialBuffer ?b)"
        by (simp add: FilePacket_fromSerialBuffer_def long(2))
      then show ?thesis using False long f(2) unnamed_iff [of "hd ?bs"] by (auto simp: gives_def)
    qed
  qed
  then show ?thesis
    using fill by (auto simp: FilePacket_fromBuffer_def split: option.splits)
qed

lemma unknown_packet_type_aborts_witness:
  "FilePacket_fromBuffer (Buffer_new (Some [4, 0, 0, 0, 1]) 5 0) = None"
  using unknown_packet_type_aborts [of "Buffer_new (Some [4, 0, 0, 0, 1]) 5 0" "[4, 0, 0, 0, 1]"]
  by (simp add: Buffer_new_def buffer_bytes_def)

end
