(* ===== verification/Os_File_Write.thy ===== *)
theory Os_File_Write
  imports Os_File
begin

text \<open>
  Os/Linux/File.cpp: the operations that change a file. The kernel is a parameter again, now one
  with a state of type \<open>'k\<close>: each system call maps the state to its outcome and the next state.
  \<open>posix_disk\<close> is what the callers rely on, from the manual pages of \<open>open(2)\<close>, \<open>lseek(2)\<close>
  and \<open>write(2)\<close>, for regular files on a disk with room. The calls to \<open>sync_file_range\<close> and
  \<open>posix_fadvise\<close> are advice to the page cache whose result the code ignores; they are left out.
\<close>

section \<open>The kernel\<close>

datatype Seek_Whence = SEEK_SET | SEEK_CUR

record 'k disk_calls =
  k_open :: "'k \<Rightarrow> string \<Rightarrow> U32 \<Rightarrow> (int + int) \<times> 'k"
  k_lseek :: "'k \<Rightarrow> int \<Rightarrow> int \<Rightarrow> Seek_Whence \<Rightarrow> (int + int) \<times> 'k"
  k_write :: "'k \<Rightarrow> int \<Rightarrow> U8 list \<Rightarrow> (int + nat) \<times> 'k"
  k_fsync :: "'k \<Rightarrow> int \<Rightarrow> (int + unit) \<times> 'k"
  k_fallocate :: "'k \<Rightarrow> int \<Rightarrow> int \<Rightarrow> int \<Rightarrow> int \<times> 'k"
  k_close :: "'k \<Rightarrow> int \<Rightarrow> 'k"

definition EBADF :: int where "EBADF = 9"
definition EFBIG :: int where "EFBIG = 27"

section \<open>Operations\<close>

definition File_open_write ::
  "'k disk_calls \<Rightarrow> 'k \<Rightarrow> File \<Rightarrow> string \<Rightarrow> File_Mode \<Rightarrow> bool \<Rightarrow> (File_Status \<times> File \<times> 'k) option" where
  "File_open_write D k f fileName mode include_excl = do {
     flags \<leftarrow> open_flags mode include_excl;
     (case k_open D k fileName flags of (r, k) \<Rightarrow>
        (case open_outcome f mode r of (stat, f) \<Rightarrow> Some (stat, f, k)))
   }"

definition File_isOpen :: "File \<Rightarrow> bool" where
  "File_isOpen f \<longleftrightarrow> m_fd f > 0"

definition File_prealloc ::
  "'k disk_calls \<Rightarrow> 'k \<Rightarrow> File \<Rightarrow> int \<Rightarrow> int \<Rightarrow> File_Status \<times> 'k" where
  "File_prealloc D k f offset len =
     (if m_mode f = OPEN_NO_MODE then (NOT_OPENED, k)
      else
        (case k_fallocate D k (m_fd f) offset len of (stat, k) \<Rightarrow>
           (if stat = 0 then OP_OK
            else if stat = ENOSPC \<or> stat = EFBIG then NO_SPACE
            else if stat = EBADF then DOESNT_EXIST
            else OTHER_ERROR, k)))"

text \<open>
  \<open>lseek\<close> returns -1 on an error. The result is compared with \<open>offset\<close> for a relative seek too.
\<close>

definition File_seek ::
  "'k disk_calls \<Rightarrow> 'k \<Rightarrow> File \<Rightarrow> int \<Rightarrow> bool \<Rightarrow> File_Status \<times> File \<times> 'k" where
  "File_seek D k f offset absolute =
     (if m_mode f = OPEN_NO_MODE then (NOT_OPENED, f, k)
      else
        (case k_lseek D k (m_fd f) offset (if absolute then SEEK_SET else SEEK_CUR) of (r, k) \<Rightarrow>
           let act_off = (case r of Inl errno \<Rightarrow> -1 | Inr off \<Rightarrow> off) in
           if act_off \<noteq> offset then
             if act_off = -1
             then (OTHER_ERROR, (case r of Inl errno \<Rightarrow> f\<lparr>m_lastError := errno\<rparr> | Inr _ \<Rightarrow> f), k)
             else (BAD_SIZE, f, k)
           else (OP_OK, f, k)))"

text \<open>
  The write loop; it goes round again only when a signal interrupted the call. When the limit is
  used up the status is still \<open>OP_OK\<close> and \<open>size\<close> what the caller asked for.
\<close>

fun write_loop ::
  "'k disk_calls \<Rightarrow> int \<Rightarrow> U8 list \<Rightarrow> nat \<Rightarrow> 'k \<Rightarrow> File_Status \<times> nat \<times> int option \<times> 'k" where
  "write_loop D fd bs 0 k = (OP_OK, length bs, None, k)"
| "write_loop D fd bs (Suc maxIters) k =
     (case k_write D k fd bs of
        (Inl errno, k) \<Rightarrow>
          if errno = EINTR then write_loop D fd bs maxIters k
          else (if errno = ENOSPC then NO_SPACE else OTHER_ERROR, length bs, Some errno, k)
      | (Inr writeSize, k) \<Rightarrow> (OP_OK, writeSize, None, k))"

definition File_write ::
  "'k disk_calls \<Rightarrow> 'k \<Rightarrow> File \<Rightarrow> U8 list \<Rightarrow> int \<Rightarrow> (File_Status \<times> int \<times> File \<times> 'k) option" where
  "File_write D k f buffer sz =
     (if m_mode f = OPEN_NO_MODE then Some (NOT_OPENED, 0, f, k)
      else if sz \<le> 0 then Some (BAD_SIZE, 0, f, k)
      else do {
        bs \<leftarrow> read_at buffer 0 (nat sz);
        (case write_loop D (m_fd f) bs (maxIters_of sz) k of
           (stat, n, err, k) \<Rightarrow>
             Some (stat, int n,
                   (case err of None \<Rightarrow> f | Some errno \<Rightarrow> f\<lparr>m_lastError := errno\<rparr>), k))
      })"

text \<open>
  The loop of \<open>bulkWrite\<close>. Its index is 32 bits wide, so that \<open>idx + chunkSize\<close> may wrap for
  sizes near 2^32; leaving the caller's array has no result.
\<close>

partial_function (option) bulk_loop ::
  "'k disk_calls \<Rightarrow> U8 list \<Rightarrow> U32 \<Rightarrow> int \<Rightarrow> U32 \<Rightarrow> U32 \<Rightarrow> File \<Rightarrow> 'k \<Rightarrow>
     (File_Status \<times> U32 \<times> File \<times> 'k) option" where
  "bulk_loop D buffer totalSize chunkSize idx newBytesWritten f k =
     (if idx < totalSize then
        let size = (if idx + of_int chunkSize > totalSize then sint (totalSize - idx) else chunkSize) in
        if \<not> idx + of_int size \<le> totalSize then None
        else
          Option.bind (File_write D k f (drop (unat idx) buffer) size)
            (\<lambda>(fileStatus, written, f, k).
               if \<not> (fileStatus = OP_OK \<and> written = size) then Some (fileStatus, newBytesWritten, f, k)
               else bulk_loop D buffer totalSize chunkSize (idx + of_int chunkSize)
                      (newBytesWritten + of_int size) f k)
      else Some (OP_OK, newBytesWritten, f, k))"

definition File_bulkWrite ::
  "'k disk_calls \<Rightarrow> 'k \<Rightarrow> File \<Rightarrow> U8 list \<Rightarrow> U32 \<Rightarrow> int \<Rightarrow> (File_Status \<times> U32 \<times> File \<times> 'k) option" where
  "File_bulkWrite D k f buffer totalSize chunkSize =
     (if m_mode f = OPEN_NO_MODE then Some (NOT_OPENED, 0, f, k)
      else if totalSize = 0 then Some (BAD_SIZE, 0, f, k)
      else if chunkSize \<le> 0 then Some (BAD_SIZE, 0, f, k)
      else bulk_loop D buffer totalSize chunkSize 0 0 f k)"

definition File_flush :: "'k disk_calls \<Rightarrow> 'k \<Rightarrow> File \<Rightarrow> File_Status \<times> 'k" where
  "File_flush D k f =
     (if m_mode f = OPEN_NO_MODE then (NOT_OPENED, k)
      else
        (case k_fsync D k (m_fd f) of
           (Inl errno, k) \<Rightarrow> (if errno = ENOSPC then NO_SPACE else OTHER_ERROR, k)
         | (Inr _, k) \<Rightarrow> (OP_OK, k)))"

definition File_close_write :: "'k disk_calls \<Rightarrow> 'k \<Rightarrow> File \<Rightarrow> File \<times> 'k" where
  "File_close_write D k f =
     (File_close f, if m_fd f \<noteq> -1 \<and> m_mode f \<noteq> OPEN_NO_MODE then k_close D k (m_fd f) else k)"

section \<open>Regular files on a disk with room\<close>

text \<open>\<open>write(2)\<close>: the bytes replace what is at the offset; a gap reads as zeros.\<close>

definition overwrite :: "nat \<Rightarrow> U8 list \<Rightarrow> U8 list \<Rightarrow> U8 list" where
  "overwrite off bs old =
     take off (old @ replicate (off - length old) 0) @ bs @ drop (off + length bs) old"

text \<open>
  \<open>files\<close> is the contents by path, \<open>fds\<close> the path and offset behind a descriptor. The calls with
  the flags of \<open>OPEN_WRITE\<close> succeed, a seek to a negative offset fails, a write is complete.
\<close>

definition disk_opens ::
  "'k disk_calls \<Rightarrow> ('k \<Rightarrow> string \<Rightarrow> U8 list option) \<Rightarrow> ('k \<Rightarrow> int \<Rightarrow> (string \<times> nat) option) \<Rightarrow> bool" where
  "disk_opens D files fds \<longleftrightarrow>
     (\<forall>k name. \<exists>fd k'. k_open D k name (O_WRONLY OR O_CREAT) = (Inr fd, k') \<and> fd \<noteq> -1 \<and>
        fds k' fd = Some (name, 0) \<and>
        files k' = (files k)(name \<mapsto> (case files k name of None \<Rightarrow> [] | Some c \<Rightarrow> c)))"

definition disk_seeks ::
  "'k disk_calls \<Rightarrow> ('k \<Rightarrow> string \<Rightarrow> U8 list option) \<Rightarrow> ('k \<Rightarrow> int \<Rightarrow> (string \<times> nat) option) \<Rightarrow> bool" where
  "disk_seeks D files fds \<longleftrightarrow>
     (\<forall>k fd name pos off. fds k fd = Some (name, pos) \<longrightarrow> 0 \<le> off \<longrightarrow>
        (\<exists>k'. k_lseek D k fd off SEEK_SET = (Inr off, k') \<and> files k' = files k \<and>
          fds k' fd = Some (name, nat off)))"

definition disk_bad_seeks ::
  "'k disk_calls \<Rightarrow> ('k \<Rightarrow> string \<Rightarrow> U8 list option) \<Rightarrow> ('k \<Rightarrow> int \<Rightarrow> (string \<times> nat) option) \<Rightarrow> bool" where
  "disk_bad_seeks D files fds \<longleftrightarrow>
     (\<forall>k fd name pos off. fds k fd = Some (name, pos) \<longrightarrow> off < 0 \<longrightarrow>
        (\<exists>errno k'. k_lseek D k fd off SEEK_SET = (Inl errno, k') \<and> files k' = files k \<and>
          fds k' fd = Some (name, pos)))"

definition disk_writes ::
  "'k disk_calls \<Rightarrow> ('k \<Rightarrow> string \<Rightarrow> U8 list option) \<Rightarrow> ('k \<Rightarrow> int \<Rightarrow> (string \<times> nat) option) \<Rightarrow> bool" where
  "disk_writes D files fds \<longleftrightarrow>
     (\<forall>k fd name pos bs. fds k fd = Some (name, pos) \<longrightarrow> bs \<noteq> [] \<longrightarrow>
        (\<exists>k' c. files k name = Some c \<and> k_write D k fd bs = (Inr (length bs), k') \<and>
          fds k' fd = Some (name, pos + length bs) \<and>
          files k' = (files k)(name \<mapsto> overwrite pos bs c)))"

definition disk_closes :: "'k disk_calls \<Rightarrow> ('k \<Rightarrow> string \<Rightarrow> U8 list option) \<Rightarrow> bool" where
  "disk_closes D files \<longleftrightarrow> (\<forall>k fd. files (k_close D k fd) = files k)"

definition posix_disk ::
  "'k disk_calls \<Rightarrow> ('k \<Rightarrow> string \<Rightarrow> U8 list option) \<Rightarrow> ('k \<Rightarrow> int \<Rightarrow> (string \<times> nat) option) \<Rightarrow> bool" where
  "posix_disk D files fds \<longleftrightarrow> disk_opens D files fds \<and> disk_seeks D files fds \<and>
     disk_bad_seeks D files fds \<and> disk_writes D files fds \<and> disk_closes D files"

lemma overwrite_append: "overwrite (off + length a) b (overwrite off a old) = overwrite off (a @ b) old"
proof -
  let ?p = "take off (old @ replicate (off - length old) 0)"
  have p: "length ?p = off" by simp
  have "take (off + length a) (overwrite off a old @ zs) = ?p @ a" for zs
    using p by (simp add: overwrite_def)
  moreover have "drop (off + length a + length b) (overwrite off a old) = drop (off + length (a @ b)) old"
    using p by (simp add: overwrite_def algebra_simps)
  ultimately show ?thesis by (simp add: overwrite_def)
qed

lemma overwrite_0: "overwrite 0 bs old = bs @ drop (length bs) old"
  by (simp add: overwrite_def)

lemma overwrite_Nil: "off \<le> length old \<Longrightarrow> overwrite off [] old = old"
  by (simp add: overwrite_def)

lemma length_overwrite: "length (overwrite off bs old) = max (length old) (off + length bs)"
  by (simp add: overwrite_def)

lemma disk_openE:
  assumes "posix_disk D files fds"
  obtains fd k' where "k_open D k name (O_WRONLY OR O_CREAT) = (Inr fd, k')" "fd \<noteq> -1" "fds k' fd = Some (name, 0)"
    "files k' = (files k)(name \<mapsto> (case files k name of None \<Rightarrow> [] | Some c \<Rightarrow> c))"
proof -
  have d: "disk_opens D files fds" using assms(1) by (simp add: posix_disk_def)
  from d [unfolded disk_opens_def, rule_format, of k name] show thesis by (elim exE conjE) (rule that)
qed

lemma disk_seekE:
  assumes "posix_disk D files fds" "fds k fd = Some (name, pos)" "0 \<le> off"
  obtains k' where "k_lseek D k fd off SEEK_SET = (Inr off, k')" "files k' = files k"
    "fds k' fd = Some (name, nat off)"
proof -
  have d: "disk_seeks D files fds" using assms(1) by (simp add: posix_disk_def)
  from d [unfolded disk_seeks_def, rule_format, OF assms(2,3)] show thesis by (elim exE conjE) (rule that)
qed

lemma disk_seek_badE:
  assumes "posix_disk D files fds" "fds k fd = Some (name, pos)" "off < 0"
  obtains errno k' where "k_lseek D k fd off SEEK_SET = (Inl errno, k')" "files k' = files k"
    "fds k' fd = Some (name, pos)"
proof -
  have d: "disk_bad_seeks D files fds" using assms(1) by (simp add: posix_disk_def)
  from d [unfolded disk_bad_seeks_def, rule_format, OF assms(2,3)] show thesis by (elim exE conjE) (rule that)
qed

lemma disk_writeE:
  assumes "posix_disk D files fds" "fds k fd = Some (name, pos)" "bs \<noteq> []"
  obtains k' c where "files k name = Some c" "k_write D k fd bs = (Inr (length bs), k')"
    "fds k' fd = Some (name, pos + length bs)" "files k' = (files k)(name \<mapsto> overwrite pos bs c)"
proof -
  have d: "disk_writes D files fds" using assms(1) by (simp add: posix_disk_def)
  from d [unfolded disk_writes_def, rule_format, OF assms(2,3)] show thesis by (elim exE conjE) (rule that)
qed

lemma disk_close: "posix_disk D files fds \<Longrightarrow> files (snd (File_close_write D k f)) = files k"
  by (simp add: posix_disk_def disk_closes_def File_close_write_def)

lemma open_write_disk:
  assumes "posix_disk D files fds"
  obtains fd k' where "File_open_write D k f name OPEN_WRITE excl =
      Some (OP_OK, f\<lparr>m_mode := OPEN_WRITE, m_fd := fd, m_pos := 0\<rparr>, k')"
    "fd \<noteq> -1" "fds k' fd = Some (name, 0)"
    "files k' = (files k)(name \<mapsto> (case files k name of None \<Rightarrow> [] | Some c \<Rightarrow> c))"
proof -
  obtain fd k' where o: "k_open D k name (O_WRONLY OR O_CREAT) = (Inr fd, k')" "fd \<noteq> -1" "fds k' fd = Some (name, 0)"
    "files k' = (files k)(name \<mapsto> (case files k name of None \<Rightarrow> [] | Some c \<Rightarrow> c))"
    by (rule disk_openE [OF assms])
  have "File_open_write D k f name OPEN_WRITE excl =
      Some (OP_OK, f\<lparr>m_mode := OPEN_WRITE, m_fd := fd, m_pos := 0\<rparr>, k')"
    by (simp add: File_open_write_def open_flags_def open_outcome_def o(1))
  from that [OF this o(2-4)] show ?thesis .
qed

lemma seek_disk:
  assumes "posix_disk D files fds" "fds k (m_fd f) = Some (name, pos)" "m_mode f \<noteq> OPEN_NO_MODE" "0 \<le> off"
  obtains k' where "File_seek D k f off True = (OP_OK, f, k')" "files k' = files k"
    "fds k' (m_fd f) = Some (name, nat off)"
proof (rule disk_seekE [OF assms(1,2,4)])
  fix k' assume r: "k_lseek D k (m_fd f) off SEEK_SET = (Inr off, k')"
    and k': "files k' = files k" "fds k' (m_fd f) = Some (name, nat off)"
  have "File_seek D k f off True = (OP_OK, f, k')" using assms(3) by (simp add: File_seek_def r)
  from that [OF this k'] show thesis .
qed

text \<open>
  A seek to -1 fails in the kernel, and the code takes the -1 of the failure for the offset it
  asked for: it reports success and the position has not moved.
\<close>

lemma seek_minus_one:
  assumes "posix_disk D files fds" "fds k (m_fd f) = Some (name, pos)" "m_mode f \<noteq> OPEN_NO_MODE"
  obtains k' where "File_seek D k f (-1) True = (OP_OK, f, k')" "files k' = files k"
    "fds k' (m_fd f) = Some (name, pos)"
proof (rule disk_seek_badE [OF assms(1,2), of "-1"])
  fix errno k' assume r: "k_lseek D k (m_fd f) (-1) SEEK_SET = (Inl errno, k')"
    and k': "files k' = files k" "fds k' (m_fd f) = Some (name, pos)"
  have "File_seek D k f (-1) True = (OP_OK, f, k')" using assms(3) by (simp add: File_seek_def r)
  from that [OF this k'] show thesis .
qed simp

lemma seek_negative:
  assumes "posix_disk D files fds" "fds k (m_fd f) = Some (name, pos)" "m_mode f \<noteq> OPEN_NO_MODE" "off < -1"
  obtains errno k' where "File_seek D k f off True = (OTHER_ERROR, f\<lparr>m_lastError := errno\<rparr>, k')"
    "files k' = files k" "fds k' (m_fd f) = Some (name, pos)"
proof (rule disk_seek_badE [OF assms(1,2), of off])
  fix errno k' assume r: "k_lseek D k (m_fd f) off SEEK_SET = (Inl errno, k')"
    and k': "files k' = files k" "fds k' (m_fd f) = Some (name, pos)"
  have "File_seek D k f off True = (OTHER_ERROR, f\<lparr>m_lastError := errno\<rparr>, k')"
    using assms(3,4) by (simp add: File_seek_def r)
  from that [OF this k'] show thesis .
qed (use assms(4) in simp)

lemma write_disk:
  assumes "posix_disk D files fds" "fds k (m_fd f) = Some (name, pos)" "m_mode f \<noteq> OPEN_NO_MODE"
    and "0 < sz" "nat sz \<le> length buffer" "sz < 1073741824"
  obtains k' c where "File_write D k f buffer sz = Some (OP_OK, sz, f, k')" "files k name = Some c"
    "fds k' (m_fd f) = Some (name, pos + nat sz)"
    "files k' = (files k)(name \<mapsto> overwrite pos (take (nat sz) buffer) c)"
proof -
  let ?bs = "take (nat sz) buffer"
  have bs: "?bs \<noteq> []" "length ?bs = nat sz" using assms(4,5) by auto
  obtain k' c where k: "files k name = Some c" "k_write D k (m_fd f) ?bs = (Inr (length ?bs), k')"
    "fds k' (m_fd f) = Some (name, pos + length ?bs)" "files k' = (files k)(name \<mapsto> overwrite pos ?bs c)"
    by (rule disk_writeE [OF assms(1,2) bs(1)])
  obtain n where n: "nat (sz * 2) = Suc n" using assms(4) by (cases "nat (sz * 2)") auto
  have "File_write D k f buffer sz = Some (OP_OK, sz, f, k')"
    using assms(3-6) k(2) bs(2) n by (simp add: File_write_def read_at_def)
  from that [OF this k(1)] show ?thesis using k bs(2) by simp
qed

section \<open>\<open>bulkWrite\<close> writes what one write would\<close>

lemma bulk_inc:
  assumes "0 < chunkSize" "unat totalSize + nat chunkSize < 2147483648" "unat idx \<le> unat totalSize"
  shows "unat (idx + of_int chunkSize :: U32) = unat idx + nat chunkSize"
proof -
  have "(of_int chunkSize :: U32) = of_nat (nat chunkSize)" using assms(1) by simp
  then show ?thesis using assms(2,3) by (simp add: unat_add_small unat_of_nat32)
qed

lemma bulk_size:
  fixes totalSize idx :: U32
  assumes "0 < chunkSize" "unat totalSize + nat chunkSize < 2147483648" "unat idx < unat totalSize"
  obtains size where "size = (if idx + of_int chunkSize > totalSize then sint (totalSize - idx) else chunkSize)"
    "size = min chunkSize (int (unat totalSize - unat idx))"
    "0 < size" "nat size \<le> unat totalSize - unat idx" "nat size \<le> nat chunkSize"
    "unat (idx + of_int size) = unat idx + nat size" "idx + of_int size \<le> totalSize"
proof -
  have inc: "unat (idx + of_int chunkSize) = unat idx + nat chunkSize"
    by (rule bulk_inc [OF assms(1,2)]) (use assms(3) in simp)
  have left: "unat (totalSize - idx) = unat totalSize - unat idx" using assms(3) by (simp add: unat_sub_small)
  then have "sint (totalSize - idx) = int (unat totalSize - unat idx)"
    using assms(2) by (subst sint_small) simp_all
  moreover have "idx + of_int chunkSize > totalSize \<longleftrightarrow> int (unat totalSize - unat idx) < chunkSize"
    unfolding word_less_nat_alt inc using assms(1,3) by linarith
  ultimately obtain size where size: "size = (if idx + of_int chunkSize > totalSize then sint (totalSize - idx) else chunkSize)"
    "size = min chunkSize (int (unat totalSize - unat idx))"
    by (simp only: min_def) (metis not_less)
  have sz: "0 < size" "nat size \<le> unat totalSize - unat idx" "nat size \<le> nat chunkSize"
    unfolding size(2) using assms(1,3) by linarith+
  have of_size: "unat (idx + of_int size) = unat idx + nat size"
    by (rule bulk_inc [where totalSize = totalSize]) (use sz assms(2,3) in simp_all)
  have "idx + of_int size \<le> totalSize" using sz assms(3) by (simp add: word_le_nat_alt of_size)
  from that [OF size sz of_size this] show ?thesis .
qed

lemma bulk_loop_disk:
  assumes "posix_disk D files fds" "m_mode f \<noteq> OPEN_NO_MODE" "0 < chunkSize"
    and "unat totalSize + nat chunkSize < 1073741824" "unat totalSize \<le> length buffer"
    and "unat idx \<le> unat totalSize" "fds k (m_fd f) = Some (name, pos)" "files k name = Some c"
    and "unat idx < unat totalSize \<or> pos \<le> length c"
  shows "\<exists>k'. bulk_loop D buffer totalSize chunkSize idx idx f k = Some (OP_OK, totalSize, f, k') \<and>
    files k' = (files k)(name \<mapsto> overwrite pos (take (unat totalSize - unat idx) (drop (unat idx) buffer)) c)"
  using assms(6-)
proof (induction "unat totalSize - unat idx" arbitrary: idx k pos c rule: less_induct)
  case less
  have total: "unat totalSize + nat chunkSize < 2147483648" using assms(4) by linarith
  note inc = bulk_inc [OF assms(3) total less.prems(1)]
  show ?case
  proof (cases "idx < totalSize")
    case False
    then have "idx = totalSize" using less.prems(1) by (simp add: word_less_nat_alt word_unat_eq_iff)
    then show ?thesis using less.prems by (simp add: bulk_loop.simps overwrite_Nil map_upd_triv)
  next
    case True
    then have lt: "unat idx < unat totalSize" by (simp add: word_less_nat_alt)
    obtain size where size: "size = (if idx + of_int chunkSize > totalSize then sint (totalSize - idx) else chunkSize)"
      "size = min chunkSize (int (unat totalSize - unat idx))"
      and sz: "0 < size" "nat size \<le> unat totalSize - unat idx" "nat size \<le> nat chunkSize"
      and of_size: "unat (idx + of_int size) = unat idx + nat size" and ok: "idx + of_int size \<le> totalSize"
      by (rule bulk_size [OF assms(3) total lt])
    let ?part = "take (nat size) (drop (unat idx) buffer)"
    have "nat size \<le> length (drop (unat idx) buffer)" using sz assms(5) by simp
    moreover have "size < 1073741824" using sz assms(4) by linarith
    ultimately obtain k1 c' where w: "File_write D k f (drop (unat idx) buffer) size = Some (OP_OK, size, f, k1)"
      "files k name = Some c'" "fds k1 (m_fd f) = Some (name, pos + nat size)"
      "files k1 = (files k)(name \<mapsto> overwrite pos ?part c')"
      using write_disk [OF assms(1) less.prems(2) assms(2) sz(1)] by blast
    have c': "c' = c" using w(2) less.prems(3) by simp
    have len: "length ?part = nat size" using sz assms(5) by simp
    show ?thesis
    proof (cases "size = chunkSize")
      case True
      have le: "unat idx + nat chunkSize \<le> unat totalSize" using sz True lt by linarith
      let ?c1 = "overwrite pos ?part c"
      let ?rest = "take (unat totalSize - unat (idx + of_int chunkSize)) (drop (unat (idx + of_int chunkSize)) buffer)"
      have "\<exists>k'. bulk_loop D buffer totalSize chunkSize (idx + of_int chunkSize) (idx + of_int chunkSize) f k1 =
          Some (OP_OK, totalSize, f, k') \<and> files k' = (files k1)(name \<mapsto> overwrite (pos + nat size) ?rest ?c1)"
      proof (rule less.hyps)
        show "unat totalSize - unat (idx + of_int chunkSize) < unat totalSize - unat idx"
          using le assms(3) unfolding inc by linarith
        show "unat (idx + of_int chunkSize) \<le> unat totalSize" using le unfolding inc .
        show "unat (idx + of_int chunkSize) < unat totalSize \<or> pos + nat size \<le> length ?c1"
          using len by (simp add: length_overwrite)
      qed (use w c' in simp_all)
      then obtain k' where k': "bulk_loop D buffer totalSize chunkSize (idx + of_int chunkSize) (idx + of_int chunkSize) f k1 =
          Some (OP_OK, totalSize, f, k')" "files k' = (files k1)(name \<mapsto> overwrite (pos + nat size) ?rest ?c1)" by blast
      have split: "unat totalSize - unat idx = nat chunkSize + (unat totalSize - (unat idx + nat chunkSize))"
        using le by linarith
      have "overwrite (pos + nat size) ?rest ?c1 = overwrite pos (?part @ ?rest) c"
        using overwrite_append [of pos ?part ?rest c] len by simp
      also have "?part @ ?rest = take (unat totalSize - unat idx) (drop (unat idx) buffer)"
        unfolding inc True split take_add by (simp add: add.commute)
      finally have "files k' = (files k)(name \<mapsto> overwrite pos (take (unat totalSize - unat idx) (drop (unat idx) buffer)) c)"
        using k'(2) w(4) c' by simp
      moreover have "bulk_loop D buffer totalSize chunkSize idx idx f k = Some (OP_OK, totalSize, f, k')"
        by (subst bulk_loop.simps) (use \<open>idx < totalSize\<close> ok w(1) k'(1) True size(1) in \<open>simp add: Let_def\<close>)
      ultimately show ?thesis by blast
    next
      case False
      then have last: "nat size = unat totalSize - unat idx" using size(2) by (simp add: min_def split: if_splits)
      have next_idx: "\<not> idx + of_int chunkSize < totalSize"
        using False size(2) by (simp add: word_less_nat_alt inc min_def split: if_splits)
      have sum: "idx + of_int size = totalSize"
        by (rule word_unat_eq_iff [THEN iffD2]) (use of_size last lt in simp)
      have "bulk_loop D buffer totalSize chunkSize idx idx f k = Some (OP_OK, totalSize, f, k1)"
      proof (subst bulk_loop.simps)
        have "bulk_loop D buffer totalSize chunkSize (idx + of_int chunkSize) (idx + of_int size) f k1 =
            Some (OP_OK, totalSize, f, k1)"
          using next_idx sum by (simp add: bulk_loop.simps)
        then show "(if idx < totalSize then
            let size = (if idx + of_int chunkSize > totalSize then sint (totalSize - idx) else chunkSize) in
            if \<not> idx + of_int size \<le> totalSize then None
            else Option.bind (File_write D k f (drop (unat idx) buffer) size)
                (\<lambda>(fileStatus, written, f, k).
                   if \<not> (fileStatus = OP_OK \<and> written = size) then Some (fileStatus, idx, f, k)
                   else bulk_loop D buffer totalSize chunkSize (idx + of_int chunkSize) (idx + of_int size) f k)
          else Some (OP_OK, idx, f, k)) = Some (OP_OK, totalSize, f, k1)"
          using \<open>idx < totalSize\<close> ok w(1) unfolding size(1) [symmetric] by (simp add: Let_def)
      qed
      then show ?thesis using w(4) c' last by auto
    qed
  qed
qed

text \<open>
  \<open>bulkWrite\<close>, which writes in chunks so that the page cache does not fill up, is one
  \<open>write\<close>: for every chunk size it reports all bytes as written and leaves the same file as a
  single write of the buffer at the position the file is at.
\<close>

theorem bulk_write_is_write:
  assumes "posix_disk D files fds" "m_mode f \<noteq> OPEN_NO_MODE" "fds k (m_fd f) = Some (name, pos)"
    and "0 < chunkSize" "0 < unat totalSize" "unat totalSize \<le> length buffer"
    and "unat totalSize + nat chunkSize < 1073741824"
  shows "\<exists>k1 k2. File_bulkWrite D k f buffer totalSize chunkSize = Some (OP_OK, totalSize, f, k1) \<and>
    File_write D k f buffer (int (unat totalSize)) = Some (OP_OK, int (unat totalSize), f, k2) \<and>
    files k1 = files k2"
proof -
  have "0 < int (unat totalSize)" "nat (int (unat totalSize)) \<le> length buffer" "int (unat totalSize) < 1073741824"
    using assms(5-7) by (simp_all only: nat_int of_nat_0_less_iff)
  from write_disk [OF assms(1,3,2) this] obtain k2 c where w:
    "File_write D k f buffer (int (unat totalSize)) = Some (OP_OK, int (unat totalSize), f, k2)" "files k name = Some c"
    "files k2 = (files k)(name \<mapsto> overwrite pos (take (unat totalSize) buffer) c)" by (metis nat_int)
  have "\<exists>k'. bulk_loop D buffer totalSize chunkSize 0 0 f k = Some (OP_OK, totalSize, f, k') \<and>
      files k' = (files k)(name \<mapsto> overwrite pos (take (unat totalSize) buffer) c)"
    using bulk_loop_disk [OF assms(1,2,4,7,6) _ assms(3) w(2), of 0] assms(5) by simp
  moreover have "totalSize \<noteq> 0" using assms(5) by auto
  ultimately show ?thesis using w(1,3) assms(2,4) by (auto simp: File_bulkWrite_def)
qed

text \<open>A disk with one descriptor, to show that the assumptions can hold.\<close>

definition one_file_disk :: "((string \<Rightarrow> U8 list option) \<times> string \<times> nat) disk_calls" where
  "one_file_disk = \<lparr>
     k_open = (\<lambda>(fs, n, p) name flags.
       (Inr 3, (fs(name \<mapsto> (case fs name of None \<Rightarrow> [] | Some c \<Rightarrow> c)), name, 0))),
     k_lseek = (\<lambda>(fs, n, p) fd off whence.
       if 0 \<le> off then (Inr off, (fs, n, nat off)) else (Inl 22, (fs, n, p))),
     k_write = (\<lambda>(fs, n, p) fd bs.
       (Inr (length bs), (fs(n \<mapsto> overwrite p bs (case fs n of None \<Rightarrow> [] | Some c \<Rightarrow> c)), n, p + length bs))),
     k_fsync = (\<lambda>k fd. (Inr (), k)),
     k_fallocate = (\<lambda>k fd off len. (0, k)),
     k_close = (\<lambda>k fd. k)\<rparr>"

definition one_file_fds :: "(string \<Rightarrow> U8 list option) \<times> string \<times> nat \<Rightarrow> int \<Rightarrow> (string \<times> nat) option" where
  "one_file_fds k fd = (case k of (fs, n, p) \<Rightarrow> if fs n = None then None else Some (n, p))"

lemma one_file_posix: "posix_disk one_file_disk fst one_file_fds"
  unfolding posix_disk_def disk_opens_def disk_seeks_def disk_bad_seeks_def disk_writes_def disk_closes_def
  by (auto simp: one_file_disk_def one_file_fds_def split: if_splits option.splits)

lemma bulk_write_is_write_witness:
  "\<exists>k1 k2. File_bulkWrite one_file_disk (Map.empty(''a'' \<mapsto> [1]), ''a'', 0) (File_new\<lparr>m_mode := OPEN_WRITE\<rparr>) [5, 6, 7] 3 2 =
      Some (OP_OK, 3, File_new\<lparr>m_mode := OPEN_WRITE\<rparr>, k1) \<and>
    File_write one_file_disk (Map.empty(''a'' \<mapsto> [1]), ''a'', 0) (File_new\<lparr>m_mode := OPEN_WRITE\<rparr>) [5, 6, 7] 3 =
      Some (OP_OK, 3, File_new\<lparr>m_mode := OPEN_WRITE\<rparr>, k2) \<and> fst k1 = fst k2"
  using bulk_write_is_write [OF one_file_posix, of "File_new\<lparr>m_mode := OPEN_WRITE\<rparr>"
      "(Map.empty(''a'' \<mapsto> [1]), ''a'', 0)" "''a''" 0 2 3 "[5, 6, 7]"]
  by (simp add: one_file_fds_def)

end
