(* ===== verification/File_Uplink.thy ===== *)
theory File_Uplink
  imports File_Packet Os_File_Write
begin

text \<open>
  Svc/FileUplink (FileUplink.cpp, File.cpp, Warnings.cpp): the component that receives a file from
  the ground packet by packet. Every event, telemetry write and port call goes to the list
  \<open>up_out\<close> in the order of the calls; \<open>up_disk\<close> is the state of the kernel, a parameter. An
  event's throttle counter is part of the generated base class, so that the list has the calls,
  also the ones the base class would suppress.
\<close>

section \<open>State\<close>

datatype ReceiveMode = START | DATA

record Uplink_File =
  uf_size :: U32
  uf_name :: "U8 list"
  uf_osFile :: File
  uf_checksum :: Checksum

datatype uplink_out =
    ThrottleClear_FileWriteError
  | ThrottleClear_InvalidReceiveMode
  | ThrottleClear_PacketOutOfBounds
  | ThrottleClear_PacketOutOfOrder
  | BadChecksum "U8 list" U32 U32
  | FileOpenError "U8 list"
  | FileReceived "U8 list"
  | FileWriteError "U8 list"
  | InvalidReceiveMode U32 U32
  | PacketOutOfBounds U32 "U8 list"
  | PacketOutOfOrder U32 U32
  | UplinkCanceled
  | DecodeError SerializeStatus
  | Tlm_FilesReceived U32
  | Tlm_PacketsReceived U32
  | Tlm_Warnings U32
  | bufferSendOut Fw_Buffer
  | pingOut U32

record 'k FileUplink =
  up_receiveMode :: ReceiveMode
  up_lastSequenceIndex :: U32
  up_file :: Uplink_File
  up_filesReceived :: U32
  up_packetsReceived :: U32
  up_warnings :: U32
  up_disk :: 'k
  up_out :: "uplink_out list"

definition Uplink_File_new :: "U32 \<Rightarrow> Uplink_File" where
  "Uplink_File_new junk =
     \<lparr>uf_size = junk, uf_name = [], uf_osFile = File_new, uf_checksum = Checksum_new\<rparr>"

definition FileUplink_new :: "U32 \<Rightarrow> 'k \<Rightarrow> 'k FileUplink" where
  "FileUplink_new junk k =
     \<lparr>up_receiveMode = START, up_lastSequenceIndex = 0, up_file = Uplink_File_new junk,
      up_filesReceived = 0, up_packetsReceived = 0, up_warnings = 0, up_disk = k, up_out = []\<rparr>"

definition emit :: "uplink_out \<Rightarrow> 'k FileUplink \<Rightarrow> 'k FileUplink" where
  "emit e u = u\<lparr>up_out := up_out u @ [e]\<rparr>"

section \<open>Counters and warnings\<close>

definition fileReceived :: "'k FileUplink \<Rightarrow> 'k FileUplink" where
  "fileReceived u =
     (let u = u\<lparr>up_filesReceived := up_filesReceived u + 1\<rparr> in
      emit (Tlm_FilesReceived (up_filesReceived u)) u)"

definition packetReceived :: "'k FileUplink \<Rightarrow> 'k FileUplink" where
  "packetReceived u =
     (let u = u\<lparr>up_packetsReceived := up_packetsReceived u + 1\<rparr> in
      emit (Tlm_PacketsReceived (up_packetsReceived u)) u)"

definition up_warning :: "'k FileUplink \<Rightarrow> 'k FileUplink" where
  "up_warning u =
     (let u = u\<lparr>up_warnings := up_warnings u + 1\<rparr> in
      emit (Tlm_Warnings (up_warnings u)) u)"

definition receiveMode_code :: "ReceiveMode \<Rightarrow> U32" where
  "receiveMode_code m = (case m of START \<Rightarrow> 0 | DATA \<Rightarrow> 1)"

definition invalidReceiveMode :: "FilePacket_Type \<Rightarrow> 'k FileUplink \<Rightarrow> 'k FileUplink" where
  "invalidReceiveMode packetType u =
     up_warning (emit (InvalidReceiveMode (ucast (U8_of_Type packetType)) (receiveMode_code (up_receiveMode u))) u)"

definition warn_fileOpen :: "U8 list \<Rightarrow> 'k FileUplink \<Rightarrow> 'k FileUplink" where
  "warn_fileOpen fileName u = up_warning (emit (FileOpenError fileName) u)"

definition packetOutOfBounds :: "U32 \<Rightarrow> U8 list \<Rightarrow> 'k FileUplink \<Rightarrow> 'k FileUplink" where
  "packetOutOfBounds sequenceIndex fileName u =
     up_warning (emit (PacketOutOfBounds sequenceIndex fileName) u)"

definition packetOutOfOrder :: "U32 \<Rightarrow> U32 \<Rightarrow> 'k FileUplink \<Rightarrow> 'k FileUplink" where
  "packetOutOfOrder sequenceIndex lastSequenceIndex u =
     up_warning (emit (PacketOutOfOrder sequenceIndex lastSequenceIndex) u)"

definition warn_fileWrite :: "U8 list \<Rightarrow> 'k FileUplink \<Rightarrow> 'k FileUplink" where
  "warn_fileWrite fileName u = up_warning (emit (FileWriteError fileName) u)"

definition badChecksum :: "U32 \<Rightarrow> U32 \<Rightarrow> 'k FileUplink \<Rightarrow> 'k FileUplink" where
  "badChecksum computed read u = up_warning (emit (BadChecksum (uf_name (up_file u)) computed read) u)"

section \<open>The file\<close>

definition uplink_open ::
  "'k disk_calls \<Rightarrow> StartPacket \<Rightarrow> 'k FileUplink \<Rightarrow> (File_Status \<times> 'k FileUplink) option" where
  "uplink_open D startPacket u = do {
     path \<leftarrow> read_at (pn_value (sp_destinationPath startPacket)) 0
               (unat (pn_length (sp_destinationPath startPacket)));
     let file = (up_file u)\<lparr>uf_name := LogStringArg_of path, uf_size := sp_fileSize startPacket,
                  uf_checksum := Checksum_assign (uf_checksum (up_file u)) Checksum_new\<rparr>;
     (status, osFile, k) \<leftarrow> File_open_write D (up_disk u) (uf_osFile file) (path_string path) OPEN_WRITE True;
     Some (status, u\<lparr>up_file := file\<lparr>uf_osFile := osFile\<rparr>, up_disk := k\<rparr>)
   }"

text \<open>Offset and length become \<open>NATIVE_INT_TYPE\<close>, a signed 32-bit integer.\<close>

definition uplink_write ::
  "'k disk_calls \<Rightarrow> U8 list \<Rightarrow> U32 \<Rightarrow> U32 \<Rightarrow> 'k FileUplink \<Rightarrow> (File_Status \<times> 'k FileUplink) option" where
  "uplink_write D data byteOffset len u =
     (case File_seek D (up_disk u) (uf_osFile (up_file u)) (sint byteOffset) True of
        (status, osFile, k) \<Rightarrow>
          let u = u\<lparr>up_file := (up_file u)\<lparr>uf_osFile := osFile\<rparr>, up_disk := k\<rparr> in
          if status \<noteq> OP_OK then Some (status, u)
          else do {
            (status, intLength, osFile, k) \<leftarrow> File_write D k osFile data (sint len);
            let u = u\<lparr>up_file := (up_file u)\<lparr>uf_osFile := osFile\<rparr>, up_disk := k\<rparr>;
            if status \<noteq> OP_OK then Some (status, u)
            else do {
              fw_assert (of_int intLength = len);
              c \<leftarrow> Checksum_update data byteOffset len (uf_checksum (up_file u));
              Some (OP_OK, u\<lparr>up_file := (up_file u)\<lparr>uf_checksum := c\<rparr>\<rparr>)
            }
          })"

section \<open>Handlers\<close>

definition close_file :: "'k disk_calls \<Rightarrow> 'k FileUplink \<Rightarrow> 'k FileUplink" where
  "close_file D u =
     (case File_close_write D (up_disk u) (uf_osFile (up_file u)) of
        (osFile, k) \<Rightarrow> u\<lparr>up_file := (up_file u)\<lparr>uf_osFile := osFile\<rparr>, up_disk := k\<rparr>)"

definition goToStartMode :: "'k disk_calls \<Rightarrow> 'k FileUplink \<Rightarrow> 'k FileUplink" where
  "goToStartMode D u = (close_file D u)\<lparr>up_receiveMode := START, up_lastSequenceIndex := 0\<rparr>"

definition goToDataMode :: "'k FileUplink \<Rightarrow> 'k FileUplink" where
  "goToDataMode u = u\<lparr>up_receiveMode := DATA, up_lastSequenceIndex := 0\<rparr>"

definition checkSequenceIndex :: "U32 \<Rightarrow> 'k FileUplink \<Rightarrow> 'k FileUplink" where
  "checkSequenceIndex sequenceIndex u =
     (let u = (if sequenceIndex \<noteq> up_lastSequenceIndex u + 1
               then packetOutOfOrder sequenceIndex (up_lastSequenceIndex u) u else u) in
      u\<lparr>up_lastSequenceIndex := sequenceIndex\<rparr>)"

definition compareChecksums :: "EndPacket \<Rightarrow> 'k FileUplink \<Rightarrow> 'k FileUplink" where
  "compareChecksums endPacket u =
     (let computed = uf_checksum (up_file u); stored = getChecksum endPacket in
      if Checksum_neq computed stored
      then badChecksum (Checksum_getValue computed) (Checksum_getValue stored) u
      else u)"

definition handleStartPacket :: "'k disk_calls \<Rightarrow> StartPacket \<Rightarrow> 'k FileUplink \<Rightarrow> 'k FileUplink option" where
  "handleStartPacket D startPacket u = do {
     let u = emit ThrottleClear_FileWriteError u;
     let u = emit ThrottleClear_InvalidReceiveMode u;
     let u = emit ThrottleClear_PacketOutOfBounds u;
     let u = emit ThrottleClear_PacketOutOfOrder u;
     let u = packetReceived u;
     let u = (if up_receiveMode u \<noteq> START then invalidReceiveMode T_START (close_file D u) else u);
     (status, u) \<leftarrow> uplink_open D startPacket u;
     if status = OP_OK then Some (goToDataMode u)
     else Some (goToStartMode D (warn_fileOpen (uf_name (up_file u)) u))
   }"

definition handleDataPacket :: "'k disk_calls \<Rightarrow> DataPacket \<Rightarrow> 'k FileUplink \<Rightarrow> 'k FileUplink option" where
  "handleDataPacket D dataPacket u = (
     let u = packetReceived u in
     if up_receiveMode u \<noteq> DATA then Some (invalidReceiveMode T_DATA u)
     else
       let sequenceIndex = hdr_sequenceIndex (dp_header dataPacket);
           u = checkSequenceIndex sequenceIndex u;
           byteOffset = dp_byteOffset dataPacket;
           dataSize = (ucast (dp_dataSize dataPacket) :: U32) in
       if byteOffset + dataSize > uf_size (up_file u)
       then Some (packetOutOfBounds sequenceIndex (uf_name (up_file u)) u)
       else do {
         (status, u) \<leftarrow> uplink_write D (dp_data dataPacket) byteOffset dataSize u;
         if status \<noteq> OP_OK then Some (warn_fileWrite (uf_name (up_file u)) u) else Some u
       })"

definition handleEndPacket :: "'k disk_calls \<Rightarrow> EndPacket \<Rightarrow> 'k FileUplink \<Rightarrow> 'k FileUplink" where
  "handleEndPacket D endPacket u =
     (let u = packetReceived u;
          u = (if up_receiveMode u = DATA then
                 let u = fileReceived u;
                     u = checkSequenceIndex (hdr_sequenceIndex (ep_header endPacket)) u;
                     u = compareChecksums endPacket u in
                 emit (FileReceived (uf_name (up_file u))) u
               else invalidReceiveMode T_END u) in
      goToStartMode D u)"

definition handleCancelPacket :: "'k disk_calls \<Rightarrow> 'k FileUplink \<Rightarrow> 'k FileUplink" where
  "handleCancelPacket D u = goToStartMode D (emit UplinkCanceled (packetReceived u))"

definition bufferSendIn_handler :: "'k disk_calls \<Rightarrow> Fw_Buffer \<Rightarrow> 'k FileUplink \<Rightarrow> 'k FileUplink option" where
  "bufferSendIn_handler D buffer u = do {
     status \<leftarrow> FilePacket_fromBuffer buffer;
     u \<leftarrow> (case status of
             Inl e \<Rightarrow> Some (emit (DecodeError e) u)
           | Inr filePacket \<Rightarrow>
               (case hdr_type (asHeader filePacket) of
                  T_START \<Rightarrow> do { p \<leftarrow> asStartPacket filePacket; handleStartPacket D p u }
                | T_DATA \<Rightarrow> do { p \<leftarrow> asDataPacket filePacket; handleDataPacket D p u }
                | T_END \<Rightarrow> do { p \<leftarrow> asEndPacket filePacket; Some (handleEndPacket D p u) }
                | T_CANCEL \<Rightarrow> Some (handleCancelPacket D u)
                | _ \<Rightarrow> None));
     Some (emit (bufferSendOut buffer) u)
   }"

definition uplink_pingIn_handler :: "U32 \<Rightarrow> 'k FileUplink \<Rightarrow> 'k FileUplink" where
  "uplink_pingIn_handler key u = emit (pingOut key) u"

text \<open>The component's queue gives it the buffers one at a time.\<close>

fun uplink_run :: "'k disk_calls \<Rightarrow> Fw_Buffer list \<Rightarrow> 'k FileUplink \<Rightarrow> 'k FileUplink option" where
  "uplink_run D [] u = Some u"
| "uplink_run D (b # bs) u = do {
     u \<leftarrow> bufferSendIn_handler D b u;
     uplink_run D bs u
   }"

section \<open>What the ground sees\<close>

fun is_event :: "uplink_out \<Rightarrow> bool" where
  "is_event (BadChecksum n c r) = True"
| "is_event (FileOpenError n) = True"
| "is_event (FileReceived n) = True"
| "is_event (FileWriteError n) = True"
| "is_event (InvalidReceiveMode t m) = True"
| "is_event (PacketOutOfBounds i n) = True"
| "is_event (PacketOutOfOrder i l) = True"
| "is_event UplinkCanceled = True"
| "is_event (DecodeError e) = True"
| "is_event _ = False"

fun returned :: "uplink_out list \<Rightarrow> Fw_Buffer list" where
  "returned [] = []"
| "returned (bufferSendOut b # es) = b # returned es"
| "returned (e # es) = returned es"

definition events :: "'k FileUplink \<Rightarrow> uplink_out list" where
  "events u = filter is_event (up_out u)"

definition buffers_back :: "'k FileUplink \<Rightarrow> Fw_Buffer list" where
  "buffers_back u = returned (up_out u)"

lemma returned_append: "returned (xs @ ys) = returned xs @ returned ys"
  by (induction xs rule: returned.induct) auto

lemma emit_sel [simp]:
  "up_receiveMode (emit e u) = up_receiveMode u" "up_lastSequenceIndex (emit e u) = up_lastSequenceIndex u"
  "up_file (emit e u) = up_file u" "up_warnings (emit e u) = up_warnings u" "up_disk (emit e u) = up_disk u"
  "events (emit e u) = events u @ (if is_event e then [e] else [])"
  "buffers_back (emit e u) = buffers_back u @ returned [e]"
  by (simp_all add: emit_def events_def buffers_back_def returned_append)

lemma events_upd [simp]:
  "events (u\<lparr>up_receiveMode := m\<rparr>) = events u" "events (u\<lparr>up_lastSequenceIndex := i\<rparr>) = events u"
  "events (u\<lparr>up_file := f\<rparr>) = events u" "events (u\<lparr>up_warnings := n\<rparr>) = events u"
  "events (u\<lparr>up_disk := k\<rparr>) = events u" "events (u\<lparr>up_packetsReceived := n\<rparr>) = events u"
  "events (u\<lparr>up_filesReceived := n\<rparr>) = events u"
  "buffers_back (u\<lparr>up_receiveMode := m\<rparr>) = buffers_back u" "buffers_back (u\<lparr>up_lastSequenceIndex := i\<rparr>) = buffers_back u"
  "buffers_back (u\<lparr>up_file := f\<rparr>) = buffers_back u" "buffers_back (u\<lparr>up_warnings := n\<rparr>) = buffers_back u"
  "buffers_back (u\<lparr>up_disk := k\<rparr>) = buffers_back u" "buffers_back (u\<lparr>up_packetsReceived := n\<rparr>) = buffers_back u"
  "buffers_back (u\<lparr>up_filesReceived := n\<rparr>) = buffers_back u"
  by (simp_all add: events_def buffers_back_def)

lemma packetReceived_sel [simp]:
  "up_receiveMode (packetReceived u) = up_receiveMode u" "up_lastSequenceIndex (packetReceived u) = up_lastSequenceIndex u"
  "up_file (packetReceived u) = up_file u" "up_warnings (packetReceived u) = up_warnings u"
  "up_disk (packetReceived u) = up_disk u" "events (packetReceived u) = events u"
  "buffers_back (packetReceived u) = buffers_back u"
  by (simp_all add: packetReceived_def Let_def)

lemma up_warning_sel [simp]:
  "up_receiveMode (up_warning u) = up_receiveMode u" "up_lastSequenceIndex (up_warning u) = up_lastSequenceIndex u"
  "up_file (up_warning u) = up_file u" "up_disk (up_warning u) = up_disk u" "events (up_warning u) = events u"
  "buffers_back (up_warning u) = buffers_back u" "up_warnings (up_warning u) = up_warnings u + 1"
  by (simp_all add: up_warning_def Let_def)

lemma fileReceived_sel [simp]:
  "up_receiveMode (fileReceived u) = up_receiveMode u" "up_lastSequenceIndex (fileReceived u) = up_lastSequenceIndex u"
  "up_file (fileReceived u) = up_file u" "up_warnings (fileReceived u) = up_warnings u"
  "up_disk (fileReceived u) = up_disk u" "events (fileReceived u) = events u"
  "buffers_back (fileReceived u) = buffers_back u"
  by (simp_all add: fileReceived_def Let_def)

lemma goToStartMode_sel [simp]:
  "up_receiveMode (goToStartMode D u) = START" "up_warnings (goToStartMode D u) = up_warnings u"
  "events (goToStartMode D u) = events u" "buffers_back (goToStartMode D u) = buffers_back u"
  by (simp_all add: goToStartMode_def close_file_def split: prod.split)

lemma goToStartMode_disk:
  "posix_disk D files fds \<Longrightarrow> files (up_disk (goToStartMode D u)) = files (up_disk u)"
  using disk_close [of D files fds "up_disk u" "uf_osFile (up_file u)"]
  by (auto simp: goToStartMode_def close_file_def split: prod.split)

section \<open>Receiving a file\<close>

text \<open>
  The state between two data packets: \<open>done\<close> has been received and is at the start of the file
  \<open>name\<close>, behind it is what the file had before.
\<close>

definition receiving ::
  "('k \<Rightarrow> string \<Rightarrow> U8 list option) \<Rightarrow> ('k \<Rightarrow> int \<Rightarrow> (string \<times> nat) option) \<Rightarrow>
     (string \<Rightarrow> U8 list option) \<Rightarrow> string \<Rightarrow> U8 list \<Rightarrow> U32 \<Rightarrow> U8 list \<Rightarrow> 'k FileUplink \<Rightarrow> bool" where
  "receiving files fds before name old seq received u \<longleftrightarrow>
     up_receiveMode u = DATA \<and> up_lastSequenceIndex u = seq \<and> m_mode (uf_osFile (up_file u)) = OPEN_WRITE \<and>
     (\<exists>pos. fds (up_disk u) (m_fd (uf_osFile (up_file u))) = Some (name, pos)) \<and>
     files (up_disk u) = before(name \<mapsto> overwrite 0 received old) \<and>
     uf_checksum (up_file u) = Checksum_of (byte_sum 0 received)"

text \<open>A buffer that holds the bytes of a packet.\<close>

definition carries :: "Fw_Buffer \<Rightarrow> FilePacket \<Rightarrow> bool" where
  "carries b p \<longleftrightarrow> packet_ok p \<and> buffer_bytes b = packet_image p \<and>
     (\<exists>m. m_bufferData b = Some m \<and> unat (m_size b) \<le> length m)"

lemma carries_fromBuffer:
  assumes "carries b p"
  obtains q where "FilePacket_fromBuffer b = Some (Inr q)" "trim_packet q = trim_packet p" "tight q"
  using assms FilePacket_fromBuffer_image [of p b] by (auto simp: carries_def)

text \<open>The packets of a file: the announcement, the chunks in order, the end with the checksum.\<close>

fun data_packets :: "U32 \<Rightarrow> nat \<Rightarrow> U8 list list \<Rightarrow> FilePacket list" where
  "data_packets i off [] = []"
| "data_packets i off (c # cs) =
     FP_data (DataPacket_initialize i (of_nat off) (of_nat (length c)) c) # data_packets (i + 1) (off + length c) cs"

definition path_name :: "U8 list \<Rightarrow> PathName" where
  "path_name path = \<lparr>pn_length = of_nat (length path), pn_value = path\<rparr>"

definition transfer :: "U8 list \<Rightarrow> U8 list \<Rightarrow> U32 \<Rightarrow> U8 list list \<Rightarrow> FilePacket list" where
  "transfer src dest n chunks =
     FP_start \<lparr>sp_header = \<lparr>hdr_type = T_START, hdr_sequenceIndex = 0\<rparr>, sp_fileSize = n,
       sp_sourcePath = path_name src, sp_destinationPath = path_name dest\<rparr> #
     data_packets 1 0 chunks @
     [FP_end \<lparr>ep_header = \<lparr>hdr_type = T_END, hdr_sequenceIndex = of_nat (length chunks) + 1\<rparr>,
        ep_checksumValue = byte_sum 0 (concat chunks)\<rparr>]"

lemma uplink_write_disk:
  assumes "posix_disk D files fds" "fds (up_disk u) (m_fd (uf_osFile (up_file u))) = Some (name, pos)"
    and "m_mode (uf_osFile (up_file u)) \<noteq> OPEN_NO_MODE" "files (up_disk u) name = Some c"
    and "0 < length data" "length data = unat len" "unat len < 65536" "unat byteOffset < 2147483648"
  obtains k where "uplink_write D data byteOffset len u = Some (OP_OK,
      u\<lparr>up_file := (up_file u)\<lparr>uf_checksum := add_sum (unat byteOffset) data (uf_checksum (up_file u))\<rparr>, up_disk := k\<rparr>)"
    "files k = (files (up_disk u))(name \<mapsto> overwrite (unat byteOffset) data c)"
    "fds k (m_fd (uf_osFile (up_file u))) = Some (name, unat byteOffset + unat len)"
proof -
  let ?f = "uf_osFile (up_file u)"
  have o: "sint byteOffset = int (unat byteOffset)" using assms(8) by (rule sint_small)
  have l: "sint len = int (unat len)" using assms(7) by (intro sint_small) linarith
  have pos: "0 \<le> sint byteOffset" "nat (sint byteOffset) = unat byteOffset"
    "0 < sint len" "nat (sint len) = unat len" "nat (sint len) \<le> length data"
    unfolding o l using assms(5,6) by (simp_all only: nat_int of_nat_0_less_iff of_nat_0_le_iff)
  have small: "sint len < 1073741824" unfolding l using assms(7) by linarith
  from seek_disk [OF assms(1-3) pos(1)] obtain k1 where s:
    "File_seek D (up_disk u) ?f (sint byteOffset) True = (OP_OK, ?f, k1)"
    "files k1 = files (up_disk u)" "fds k1 (m_fd ?f) = Some (name, unat byteOffset)"
    unfolding pos(2) by blast
  from write_disk [OF assms(1) s(3) assms(3) pos(3,5) small] obtain k2 c' where w:
    "File_write D k1 ?f data (sint len) = Some (OP_OK, sint len, ?f, k2)" "files k1 name = Some c'"
    "fds k2 (m_fd ?f) = Some (name, unat byteOffset + unat len)"
    "files k2 = (files k1)(name \<mapsto> overwrite (unat byteOffset) (take (unat len) data) c')"
    unfolding pos(4) by blast
  have cs: "Checksum_update data byteOffset len (uf_checksum (up_file u)) =
      Some (add_sum (unat byteOffset) data (uf_checksum (up_file u)))"
    using assms(6,7) by (intro Checksum_update_ok) simp_all
  show thesis
  proof (rule that [of k2])
    show "uplink_write D data byteOffset len u = Some (OP_OK,
      u\<lparr>up_file := (up_file u)\<lparr>uf_checksum := add_sum (unat byteOffset) data (uf_checksum (up_file u))\<rparr>, up_disk := k2\<rparr>)"
      by (simp add: uplink_write_def s(1) w(1) cs Let_def)
    show "files k2 = (files (up_disk u))(name \<mapsto> overwrite (unat byteOffset) data c)"
      using w(2,4) s(2) assms(4,6) by simp
    show "fds k2 (m_fd ?f) = Some (name, unat byteOffset + unat len)" by (rule w(3))
  qed
qed

lemma data_step:
  assumes "posix_disk D files fds" "receiving files fds before name old seq received u"
    and "carries b (FP_data (DataPacket_initialize (seq + 1) (of_nat (length received)) (of_nat (length c)) c))"
    and "c \<noteq> []" "length c < 65536" "length received + length c \<le> unat (uf_size (up_file u))"
    and "unat (uf_size (up_file u)) < 2147483648"
  shows "\<exists>u'. bufferSendIn_handler D b u = Some u' \<and>
    receiving files fds before name old (seq + 1) (received @ c) u' \<and> uf_size (up_file u') = uf_size (up_file u) \<and>
    uf_name (up_file u') = uf_name (up_file u) \<and> up_warnings u' = up_warnings u \<and> events u' = events u \<and>
    buffers_back u' = buffers_back u @ [b]"
proof -
  let ?dp = "DataPacket_initialize (seq + 1) (of_nat (length received)) (of_nat (length c)) c"
  have n: "unat (of_nat (length c) :: U16) = length c" using assms(5) by (simp add: unat_of_nat)
  have off: "unat (of_nat (length received) :: U32) = length received"
    using assms(6,7) by (intro unat_of_nat32) linarith
  obtain q where q: "FilePacket_fromBuffer b = Some (Inr q)" "trim_packet q = trim_packet (FP_data ?dp)" "tight q"
    by (rule carries_fromBuffer [OF assms(3)])
  have "q = FP_data ?dp"
    using q(2,3) n by (cases q) (auto simp: DataPacket_initialize_def)
  then have h: "bufferSendIn_handler D b u =
      map_option (emit (bufferSendOut b)) (handleDataPacket D ?dp u)"
    by (simp add: bufferSendIn_handler_def q(1) asDataPacket_def DataPacket_initialize_def FP_Header_initialize_def
        map_conv_bind_option comp_def)
  let ?u = "(packetReceived u)\<lparr>up_lastSequenceIndex := seq + 1\<rparr>"
  have r: "up_receiveMode u = DATA" "up_lastSequenceIndex u = seq" "m_mode (uf_osFile (up_file u)) = OPEN_WRITE"
    "files (up_disk u) = before(name \<mapsto> overwrite 0 received old)" "uf_checksum (up_file u) = Checksum_of (byte_sum 0 received)"
    using assms(2) by (simp_all add: receiving_def)
  obtain pos where pos: "fds (up_disk u) (m_fd (uf_osFile (up_file u))) = Some (name, pos)"
    using assms(2) by (auto simp: receiving_def)
  have len: "unat (ucast (of_nat (length c) :: U16) :: U32) = length c" by (simp add: n)
  have inb: "\<not> of_nat (length received) + ucast (of_nat (length c) :: U16) > uf_size (up_file u)"
    using unat_add_small [of "of_nat (length received) :: U32" "ucast (of_nat (length c) :: U16)"] assms(6,7)
    unfolding word_less_nat_alt off len by simp
  obtain k where k: "uplink_write D c (of_nat (length received)) (ucast (of_nat (length c) :: U16)) ?u = Some (OP_OK,
      ?u\<lparr>up_file := (up_file ?u)\<lparr>uf_checksum := add_sum (length received) c (uf_checksum (up_file ?u))\<rparr>, up_disk := k\<rparr>)"
    "files k = (files (up_disk u))(name \<mapsto> overwrite (length received) c (overwrite 0 received old))"
    "fds k (m_fd (uf_osFile (up_file u))) = Some (name, length received + length c)"
    using uplink_write_disk [OF assms(1), of ?u name pos "overwrite 0 received old" c
        "ucast (of_nat (length c) :: U16)" "of_nat (length received)"] pos r assms(4-7) off len by auto
  have "handleDataPacket D ?dp u = Some (?u\<lparr>up_file := (up_file ?u)\<lparr>uf_checksum :=
      add_sum (length received) c (uf_checksum (up_file ?u))\<rparr>, up_disk := k\<rparr>)"
    using inb r(1,2) k(1)
    by (simp add: handleDataPacket_def DataPacket_initialize_def FP_Header_initialize_def checkSequenceIndex_def Let_def)
  moreover have "overwrite (length received) c (overwrite 0 received old) = overwrite 0 (received @ c) old"
    using overwrite_append [of 0 received c old] by simp
  moreover have "add_sum (length received) c (Checksum_of (byte_sum 0 received)) = Checksum_of (byte_sum 0 (received @ c))"
    by (simp add: add_sum_def Checksum_of_def byte_sum_append)
  ultimately show ?thesis using h r k(2,3) by (simp add: receiving_def)
qed

lemma data_steps:
  assumes "posix_disk D files fds" "\<forall>c \<in> set chunks. c \<noteq> [] \<and> length c < 65536"
    and "list_all2 carries buffers (data_packets (seq + 1) (length received) chunks)"
    and "receiving files fds before name old seq received u"
    and "length received + length (concat chunks) \<le> unat (uf_size (up_file u))" "unat (uf_size (up_file u)) < 2147483648"
  shows "\<exists>u'. uplink_run D buffers u = Some u' \<and>
    receiving files fds before name old (seq + of_nat (length chunks)) (received @ concat chunks) u' \<and>
    uf_name (up_file u') = uf_name (up_file u) \<and> up_warnings u' = up_warnings u \<and> events u' = events u \<and>
    buffers_back u' = buffers_back u @ buffers"
  using assms(2-)
proof (induction chunks arbitrary: buffers seq received u)
  case (Cons c chunks)
  obtain b bs where b: "buffers = b # bs" "carries b (FP_data (DataPacket_initialize (seq + 1) (of_nat (length received)) (of_nat (length c)) c))"
    "list_all2 carries bs (data_packets (seq + 1 + 1) (length (received @ c)) chunks)"
    using Cons.prems(2) by (auto simp: list_all2_Cons2)
  obtain u1 where u1: "bufferSendIn_handler D b u = Some u1" "receiving files fds before name old (seq + 1) (received @ c) u1"
    "uf_size (up_file u1) = uf_size (up_file u)" "uf_name (up_file u1) = uf_name (up_file u)"
    "up_warnings u1 = up_warnings u" "events u1 = events u" "buffers_back u1 = buffers_back u @ [b]"
    using data_step [OF assms(1) Cons.prems(3) b(2)] Cons.prems(1,4,5) by auto
  have "\<exists>u'. uplink_run D bs u1 = Some u' \<and>
    receiving files fds before name old (seq + 1 + of_nat (length chunks)) ((received @ c) @ concat chunks) u' \<and>
    uf_name (up_file u') = uf_name (up_file u1) \<and> up_warnings u' = up_warnings u1 \<and> events u' = events u1 \<and>
    buffers_back u' = buffers_back u1 @ bs"
    by (rule Cons.IH) (use Cons.prems u1 b(3) in simp_all)
  then show ?case using b(1) u1 by (auto simp: add.assoc)
qed simp

lemma start_step:
  assumes "posix_disk D files fds" "up_receiveMode u = START" "length dest < 256"
    and "carries b (FP_start \<lparr>sp_header = \<lparr>hdr_type = T_START, hdr_sequenceIndex = 0\<rparr>, sp_fileSize = n,
       sp_sourcePath = path_name src, sp_destinationPath = path_name dest\<rparr>)"
  shows "\<exists>u'. bufferSendIn_handler D b u = Some u' \<and>
    receiving files fds (files (up_disk u)) (path_string dest)
      (case files (up_disk u) (path_string dest) of None \<Rightarrow> [] | Some c \<Rightarrow> c) 0 [] u' \<and>
    uf_size (up_file u') = n \<and> uf_name (up_file u') = LogStringArg_of dest \<and> up_warnings u' = up_warnings u \<and>
    events u' = events u \<and> buffers_back u' = buffers_back u @ [b]"
proof -
  let ?sp = "\<lparr>sp_header = \<lparr>hdr_type = T_START, hdr_sequenceIndex = 0\<rparr>, sp_fileSize = n,
       sp_sourcePath = path_name src, sp_destinationPath = path_name dest\<rparr>"
  let ?u = "packetReceived (emit ThrottleClear_PacketOutOfOrder (emit ThrottleClear_PacketOutOfBounds
       (emit ThrottleClear_InvalidReceiveMode (emit ThrottleClear_FileWriteError u))))"
  obtain q where q: "FilePacket_fromBuffer b = Some (Inr q)" "trim_packet q = trim_packet (FP_start ?sp)"
    by (rule carries_fromBuffer [OF assms(4)])
  obtain sp where q1: "q = FP_start sp" and t: "sp\<lparr>sp_sourcePath := trim_path (sp_sourcePath sp),
      sp_destinationPath := trim_path (sp_destinationPath sp)\<rparr> =
    ?sp\<lparr>sp_sourcePath := trim_path (path_name src), sp_destinationPath := trim_path (path_name dest)\<rparr>"
    using q(2) by (cases q) auto
  have sp: "q = FP_start sp" "hdr_type (sp_header sp) = T_START" "sp_fileSize sp = n"
    "trim_path (sp_destinationPath sp) = trim_path (path_name dest)"
    using q1 arg_cong [OF t, of sp_header] arg_cong [OF t, of sp_fileSize] arg_cong [OF t, of sp_destinationPath] by simp_all
  let ?pn = "sp_destinationPath sp"
  have l: "unat (of_nat (length dest) :: U8) = length dest" using assms(3) by (simp add: unat_of_nat)
  then have pn: "unat (pn_length ?pn) = length dest" "take (length dest) (pn_value ?pn) = dest"
    using arg_cong [OF sp(4), of pn_length] arg_cong [OF sp(4), of pn_value] by (simp_all add: trim_path_def path_name_def)
  then have r: "read_at (pn_value ?pn) 0 (unat (pn_length ?pn)) = Some dest"
    by (simp add: read_at_def) (metis length_take min.absorb_iff2 min.commute)
  define nf where "nf = (up_file u)\<lparr>uf_name := LogStringArg_of dest, uf_size := n,
                  uf_checksum := Checksum_assign (uf_checksum (up_file u)) Checksum_new\<rparr>"
  from open_write_disk [OF assms(1)] obtain fd k where o: "File_open_write D (up_disk u) (uf_osFile nf) (path_string dest) OPEN_WRITE True =
      Some (OP_OK, (uf_osFile nf)\<lparr>m_mode := OPEN_WRITE, m_fd := fd, m_pos := 0\<rparr>, k)"
    "fds k fd = Some (path_string dest, 0)"
    "files k = (files (up_disk u))(path_string dest \<mapsto> (case files (up_disk u) (path_string dest) of None \<Rightarrow> [] | Some c \<Rightarrow> c))"
    by blast
  have "uplink_open D sp ?u = Some (OP_OK,
      ?u\<lparr>up_file := nf\<lparr>uf_osFile := (uf_osFile nf)\<lparr>m_mode := OPEN_WRITE, m_fd := fd, m_pos := 0\<rparr>\<rparr>, up_disk := k\<rparr>)"
    using o(1) by (simp add: uplink_open_def r sp(3) nf_def Let_def)
  then have "handleStartPacket D sp u = Some (goToDataMode
      (?u\<lparr>up_file := nf\<lparr>uf_osFile := (uf_osFile nf)\<lparr>m_mode := OPEN_WRITE, m_fd := fd, m_pos := 0\<rparr>\<rparr>, up_disk := k\<rparr>))"
    using assms(2) by (simp add: handleStartPacket_def Let_def)
  moreover have "bufferSendIn_handler D b u = map_option (emit (bufferSendOut b)) (handleStartPacket D sp u)"
    using q(1) sp(1,2) by (simp add: bufferSendIn_handler_def asStartPacket_def map_conv_bind_option comp_def)
  ultimately show ?thesis
    using o(2,3) by (simp add: receiving_def goToDataMode_def overwrite_0 nf_def Checksum_assign_def Checksum_new_def Checksum_of_def)
qed

lemma end_step:
  assumes "posix_disk D files fds" "receiving files fds before name old seq received u"
    and "carries b (FP_end \<lparr>ep_header = \<lparr>hdr_type = T_END, hdr_sequenceIndex = seq + 1\<rparr>, ep_checksumValue = v\<rparr>)"
  shows "\<exists>u'. bufferSendIn_handler D b u = Some u' \<and> up_receiveMode u' = START \<and>
    files (up_disk u') = before(name \<mapsto> received @ drop (length received) old) \<and>
    events u' = events u @ (if v = byte_sum 0 received then []
      else [BadChecksum (uf_name (up_file u)) (byte_sum 0 received) v]) @ [FileReceived (uf_name (up_file u))] \<and>
    up_warnings u' = up_warnings u + (if v = byte_sum 0 received then 0 else 1) \<and>
    buffers_back u' = buffers_back u @ [b]"
proof -
  let ?ep = "\<lparr>ep_header = \<lparr>hdr_type = T_END, hdr_sequenceIndex = seq + 1\<rparr>, ep_checksumValue = v\<rparr>"
  obtain q where q: "FilePacket_fromBuffer b = Some (Inr q)" "trim_packet q = trim_packet (FP_end ?ep)"
    by (rule carries_fromBuffer [OF assms(3)])
  have "q = FP_end ?ep" using q(2) by (cases q) auto
  then have h: "bufferSendIn_handler D b u = Some (emit (bufferSendOut b) (handleEndPacket D ?ep u))"
    by (simp add: bufferSendIn_handler_def q(1) asEndPacket_def)
  show ?thesis
    using assms(2) unfolding h
    by (simp add: handleEndPacket_def receiving_def checkSequenceIndex_def compareChecksums_def badChecksum_def
        Checksum_neq_def Checksum_eq_def getChecksum_def Checksum_of_def Checksum_getValue_def Let_def
        goToStartMode_disk [OF assms(1)] overwrite_0)
qed

lemma transfer_lists:
  assumes "list_all2 carries buffers (transfer src dest n chunks)"
  obtains b0 bs b1 where "buffers = b0 # bs @ [b1]" "list_all2 carries bs (data_packets 1 0 chunks)"
    "carries b0 (hd (transfer src dest n chunks))" "carries b1 (last (transfer src dest n chunks))"
  using assms by (auto simp: transfer_def list_all2_Cons2 list_all2_append2)

lemma uplink_run_append: "uplink_run D (xs @ ys) u = Option.bind (uplink_run D xs u) (uplink_run D ys)"
  by (induction xs arbitrary: u) (auto split: bind_splits)

lemma uplink_transfer:
  assumes "posix_disk D files fds" "up_receiveMode u = START" "length dest < 256"
    and "\<forall>c \<in> set chunks. c \<noteq> [] \<and> length c < 65536"
    and "length (concat chunks) \<le> unat n" "unat n < 2147483648"
    and "carries b0 (hd (transfer src dest n chunks))" "list_all2 carries bs (data_packets 1 0 chunks)"
    and "carries b1 (FP_end \<lparr>ep_header = \<lparr>hdr_type = T_END, hdr_sequenceIndex = of_nat (length chunks) + 1\<rparr>, ep_checksumValue = v\<rparr>)"
  shows "\<exists>u'. uplink_run D (b0 # bs @ [b1]) u = Some u' \<and> up_receiveMode u' = START \<and>
    files (up_disk u') = (files (up_disk u))(path_string dest \<mapsto> concat chunks @ drop (length (concat chunks))
      (case files (up_disk u) (path_string dest) of None \<Rightarrow> [] | Some c \<Rightarrow> c)) \<and>
    events u' = events u @ (if v = byte_sum 0 (concat chunks) then []
      else [BadChecksum (LogStringArg_of dest) (byte_sum 0 (concat chunks)) v]) @ [FileReceived (LogStringArg_of dest)] \<and>
    up_warnings u' = up_warnings u + (if v = byte_sum 0 (concat chunks) then 0 else 1) \<and>
    buffers_back u' = buffers_back u @ b0 # bs @ [b1]"
proof -
  let ?old = "case files (up_disk u) (path_string dest) of None \<Rightarrow> [] | Some c \<Rightarrow> c"
  obtain u0 where u0: "bufferSendIn_handler D b0 u = Some u0"
    "receiving files fds (files (up_disk u)) (path_string dest) ?old 0 [] u0"
    "uf_size (up_file u0) = n" "uf_name (up_file u0) = LogStringArg_of dest" "up_warnings u0 = up_warnings u"
    "events u0 = events u" "buffers_back u0 = buffers_back u @ [b0]"
    using start_step [OF assms(1-3), of b0 n src] assms(7) by (auto simp: transfer_def)
  have "\<exists>u'. uplink_run D bs u0 = Some u' \<and>
    receiving files fds (files (up_disk u)) (path_string dest) ?old (0 + of_nat (length chunks)) ([] @ concat chunks) u' \<and>
    uf_name (up_file u') = uf_name (up_file u0) \<and> up_warnings u' = up_warnings u0 \<and> events u' = events u0 \<and>
    buffers_back u' = buffers_back u0 @ bs"
    by (rule data_steps [OF assms(1,4) _ u0(2)]) (use assms(5,6,8) u0(3) in simp_all)
  then obtain u1 where u1: "uplink_run D bs u0 = Some u1"
    "receiving files fds (files (up_disk u)) (path_string dest) ?old (of_nat (length chunks)) (concat chunks) u1"
    "uf_name (up_file u1) = LogStringArg_of dest" "up_warnings u1 = up_warnings u" "events u1 = events u"
    "buffers_back u1 = buffers_back u @ b0 # bs"
    using u0 by auto
  show ?thesis
    using end_step [OF assms(1) u1(2) assms(9)] u0(1) u1 by (auto simp: uplink_run_append)
qed

text \<open>
  C5: a file arrives as it was sent. The start packet, the data packets in order and the end packet
  with the checksum of the data, as bytes in the buffers of the uplink, leave the chunks in the
  destination file, in front of what the file had behind them (the file is opened without
  \<open>O_TRUNC\<close>). No warning is issued, the one event is \<open>FileReceived\<close>, every buffer goes back
  and the component waits for the next start packet. No other file changes.
\<close>

theorem uplink_receives_file:
  assumes "posix_disk D files fds" "up_receiveMode u = START" "length dest < 256"
    and "\<forall>c \<in> set chunks. c \<noteq> [] \<and> length c < 65536"
    and "length (concat chunks) \<le> unat n" "unat n < 2147483648"
    and "list_all2 carries buffers (transfer src dest n chunks)"
  shows "\<exists>u'. uplink_run D buffers u = Some u' \<and> up_receiveMode u' = START \<and>
    files (up_disk u') = (files (up_disk u))(path_string dest \<mapsto> concat chunks @ drop (length (concat chunks))
      (case files (up_disk u) (path_string dest) of None \<Rightarrow> [] | Some c \<Rightarrow> c)) \<and>
    events u' = events u @ [FileReceived (LogStringArg_of dest)] \<and> up_warnings u' = up_warnings u \<and>
    buffers_back u' = buffers_back u @ buffers"
  by (rule transfer_lists [OF assms(7)])
    (use uplink_transfer [OF assms(1-6), of _ src _ _ "byte_sum 0 (concat chunks)"] in \<open>auto simp: transfer_def\<close>)

text \<open>A buffer with the bytes of a packet, for the concrete runs.\<close>

definition buffer_of :: "FilePacket \<Rightarrow> Fw_Buffer" where
  "buffer_of p = Buffer_new (Some (packet_image p)) (of_nat (length (packet_image p))) 0"

lemma carries_buffer_of:
  assumes "packet_ok p"
  shows "carries (buffer_of p) p"
proof (rule FilePacket_bufferSize_image [OF assms])
  assume "length (packet_image p) < 70000"
  then have "unat (of_nat (length (packet_image p)) :: U32) = length (packet_image p)"
    by (intro unat_of_nat32) simp
  then show ?thesis using assms by (simp add: carries_def buffer_of_def Buffer_new_def buffer_bytes_def)
qed

lemma packets_ok:
  assumes "\<forall>c \<in> set chunks. length c < 65536"
  shows "\<forall>p \<in> set (data_packets i off chunks). packet_ok p"
  using assms
  by (induction chunks arbitrary: i off)
    (auto simp: DataPacket_initialize_def FP_Header_initialize_def unat_of_nat)

lemma transfer_buffers:
  assumes "\<forall>c \<in> set chunks. length c < 65536" "length src < 256" "length dest < 256"
  shows "list_all2 carries (map buffer_of (transfer src dest n chunks)) (transfer src dest n chunks)"
proof -
  have "packet_ok p" if "p \<in> set (transfer src dest n chunks)" for p
    using that assms(2,3) packets_ok [OF assms(1)]
    by (auto simp: transfer_def path_ok_def path_name_def unat_of_nat)
  then show ?thesis by (simp add: list_all2_map1 list_all2_same carries_buffer_of)
qed

lemma path_b: "path_string [98] = ''b''"
  by code_simp

lemma uplink_receives_file_witness:
  "\<exists>u'. uplink_run one_file_disk (map buffer_of (transfer [97] [98] 5 [[1, 2, 3], [4, 5]]))
      (FileUplink_new 0 (Map.empty(''b'' \<mapsto> [9, 9, 9, 9, 9, 9]), ''a'', 0)) = Some u' \<and> up_receiveMode u' = START \<and>
    fst (up_disk u') = Map.empty(''b'' \<mapsto> [1, 2, 3, 4, 5, 9]) \<and>
    events u' = [FileReceived [98]] \<and> up_warnings u' = 0 \<and>
    buffers_back u' = map buffer_of (transfer [97] [98] 5 [[1, 2, 3], [4, 5]])"
  using uplink_receives_file [OF one_file_posix, of "FileUplink_new 0 (Map.empty(''b'' \<mapsto> [9, 9, 9, 9, 9, 9]), ''a'', 0)"
      "[98]" "[[1, 2, 3], [4, 5]]" 5 "map buffer_of (transfer [97] [98] 5 [[1, 2, 3], [4, 5]])" "[97]"]
    transfer_buffers [of "[[1, 2, 3], [4, 5]]" "[97]" "[98]" 5]
  by (simp add: FileUplink_new_def path_b C_string_def LogStringArg_of_def FW_LOG_STRING_MAX_SIZE_def
      events_def buffers_back_def)

text \<open>
  A damaged file is noticed but still reported as received. If the end packet's checksum is not
  the one of the received data, there is one \<open>BadChecksum\<close> warning with both values, the file is
  left as it is, and \<open>FileReceived\<close> is sent as for a good file.
\<close>

theorem bad_checksum_reported:
  assumes "posix_disk D files fds" "receiving files fds before name old seq received u"
    and "carries b (FP_end \<lparr>ep_header = \<lparr>hdr_type = T_END, hdr_sequenceIndex = seq + 1\<rparr>, ep_checksumValue = v\<rparr>)"
    and "v \<noteq> byte_sum 0 received"
  shows "\<exists>u'. bufferSendIn_handler D b u = Some u' \<and> up_receiveMode u' = START \<and>
    files (up_disk u') = files (up_disk u) \<and> up_warnings u' = up_warnings u + 1 \<and>
    events u' = events u @ [BadChecksum (uf_name (up_file u)) (byte_sum 0 received) v, FileReceived (uf_name (up_file u))]"
  using end_step [OF assms(1-3)] assms(2,4) by (auto simp: receiving_def overwrite_0)

lemma bad_checksum_reported_witness:
  "\<exists>u'. bufferSendIn_handler one_file_disk
      (buffer_of (FP_end \<lparr>ep_header = \<lparr>hdr_type = T_END, hdr_sequenceIndex = 1\<rparr>, ep_checksumValue = 7\<rparr>))
      ((FileUplink_new 0 (Map.empty(''b'' \<mapsto> []), ''b'', 0))\<lparr>up_receiveMode := DATA,
        up_file := (Uplink_File_new 3)\<lparr>uf_osFile := File_new\<lparr>m_mode := OPEN_WRITE\<rparr>\<rparr>\<rparr>) = Some u' \<and>
    up_warnings u' = 1 \<and> events u' = [BadChecksum [] 0 7, FileReceived []]"
  using bad_checksum_reported [OF one_file_posix, of "Map.empty(''b'' \<mapsto> [])" "''b''" "[]" 0 "[]"
      "(FileUplink_new 0 (Map.empty(''b'' \<mapsto> []), ''b'', 0))\<lparr>up_receiveMode := DATA,
        up_file := (Uplink_File_new 3)\<lparr>uf_osFile := File_new\<lparr>m_mode := OPEN_WRITE\<rparr>\<rparr>\<rparr>" _ 7]
    carries_buffer_of [of "FP_end \<lparr>ep_header = \<lparr>hdr_type = T_END, hdr_sequenceIndex = 1\<rparr>, ep_checksumValue = 7\<rparr>"]
  by (auto simp: receiving_def FileUplink_new_def Uplink_File_new_def one_file_fds_def overwrite_def
      Checksum_new_def Checksum_of_def events_def)

section \<open>Writes stay in the announced file\<close>

lemma up_file_after:
  "up_file (checkSequenceIndex i u) = up_file u" "up_disk (checkSequenceIndex i u) = up_disk u"
  "up_receiveMode (checkSequenceIndex i u) = up_receiveMode u"
  by (simp_all add: checkSequenceIndex_def packetOutOfOrder_def Let_def)

lemma warn_sel [simp]:
  "up_disk (invalidReceiveMode t u) = up_disk u" "up_disk (packetOutOfBounds i n u) = up_disk u"
  "up_disk (warn_fileWrite n u) = up_disk u" "events (warn_fileWrite n u) = events u @ [FileWriteError n]"
  by (simp_all add: invalidReceiveMode_def packetOutOfBounds_def warn_fileWrite_def)

lemma sint_U32_cases:
  fixes w :: U32
  obtains "unat w < 2147483648" "sint w = int (unat w)" | "2147483648 \<le> unat w" "sint w = int (unat w) - 4294967296"
proof (cases "unat w < 2147483648")
  case True
  then show ?thesis using that(1) sint_small [of w] by simp
next
  case False
  then have lo: "2147483648 \<le> uint w" unfolding uint_nat by linarith
  have hi: "uint w < 4294967296" using unat_lt32 [of w] unfolding uint_nat by linarith
  have "(uint w + 2147483648) mod 4294967296 = uint w - 2147483648"
    using lo hi mod_pos_pos_trivial [of "uint w - 2147483648" 4294967296] mod_add_self2 [of "uint w - 2147483648" 4294967296]
    by (simp add: add.commute)
  then have "signed_take_bit 31 (uint w) = uint w - 4294967296"
    unfolding signed_take_bit_eq_take_bit_shift take_bit_eq_mod by simp
  then show ?thesis using that(2) False by (simp add: sint_uint)
qed

lemma handleDataPacket_cases:
  assumes "handleDataPacket D dp u = Some u'"
  obtains (refused) "up_disk u' = up_disk u"
  | (written) status v where "\<not> dp_byteOffset dp + ucast (dp_dataSize dp) > uf_size (up_file u)"
      "uplink_write D (dp_data dp) (dp_byteOffset dp) (ucast (dp_dataSize dp))
         (checkSequenceIndex (hdr_sequenceIndex (dp_header dp)) (packetReceived u)) = Some (status, v)"
      "up_disk u' = up_disk v"
proof (cases "up_receiveMode u = DATA \<and> \<not> dp_byteOffset dp + ucast (dp_dataSize dp) > uf_size (up_file u)")
  case True
  let ?w = "uplink_write D (dp_data dp) (dp_byteOffset dp) (ucast (dp_dataSize dp))
      (checkSequenceIndex (hdr_sequenceIndex (dp_header dp)) (packetReceived u))"
  have "Option.bind ?w (\<lambda>(status, u). if status \<noteq> OP_OK then Some (warn_fileWrite (uf_name (up_file u)) u) else Some u) = Some u'"
    using assms True by (simp add: handleDataPacket_def Let_def up_file_after)
  then obtain status v where "?w = Some (status, v)" "up_disk u' = up_disk v"
    by (auto split: bind_splits if_splits)
  with True show thesis by (intro written) auto
next
  case False
  then show thesis using assms unfolding handleDataPacket_def Let_def
    by (intro refused) (auto simp: up_file_after split: if_splits)
qed

lemma uplink_write_nothing:
  assumes "posix_disk D files fds" "fds (up_disk u) (m_fd (uf_osFile (up_file u))) = Some (name, pos)"
    and "m_mode (uf_osFile (up_file u)) \<noteq> OPEN_NO_MODE"
    and "len = 0 \<and> unat byteOffset < 2147483648 \<or> sint byteOffset < -1"
    and "uplink_write D data byteOffset len u = Some (status, v)"
  shows "files (up_disk v) = files (up_disk u)"
  using assms(4)
proof (elim disjE conjE)
  assume z: "len = 0" and "unat byteOffset < 2147483648"
  then have "0 \<le> sint byteOffset" by (simp add: sint_small)
  from seek_disk [OF assms(1-3) this] obtain k where
    "File_seek D (up_disk u) (uf_osFile (up_file u)) (sint byteOffset) True = (OP_OK, uf_osFile (up_file u), k)"
    "files k = files (up_disk u)" by blast
  then show ?thesis using assms(3,5) by (auto simp: uplink_write_def z File_write_def Let_def)
next
  assume "sint byteOffset < -1"
  from seek_negative [OF assms(1-3) this] obtain errno k where
    "File_seek D (up_disk u) (uf_osFile (up_file u)) (sint byteOffset) True =
       (OTHER_ERROR, (uf_osFile (up_file u))\<lparr>m_lastError := errno\<rparr>, k)" "files k = files (up_disk u)" by blast
  then show ?thesis using assms(5) by (auto simp: uplink_write_def Let_def)
qed

text \<open>
  C20: no data packet makes the component write outside the size the start packet announced, with
  one exception. Whatever offset and length a packet claims, handling it leaves every file as it was
  or writes the packet's data to the open file at that offset, inside the announced size; offsets
  from 2^31 on become negative and the seek fails. The exception is the offset 2^32 - 1.
\<close>

theorem uplink_writes_in_bounds:
  assumes "posix_disk D files fds" "fds (up_disk u) (m_fd (uf_osFile (up_file u))) = Some (name, pos)"
    and "m_mode (uf_osFile (up_file u)) \<noteq> OPEN_NO_MODE"
    and "length (dp_data dp) = unat (dp_dataSize dp)" "dp_byteOffset dp \<noteq> 0xFFFFFFFF"
    and "handleDataPacket D dp u = Some u'"
  shows "files (up_disk u') = files (up_disk u) \<or>
    (\<exists>c. files (up_disk u) name = Some c \<and>
      files (up_disk u') = (files (up_disk u))(name \<mapsto> overwrite (unat (dp_byteOffset dp)) (dp_data dp) c) \<and>
      unat (dp_byteOffset dp) + length (dp_data dp) \<le> unat (uf_size (up_file u)))"
  using assms(6)
proof (cases rule: handleDataPacket_cases)
  case (written status v)
  let ?off = "dp_byteOffset dp" and ?n = "ucast (dp_dataSize dp) :: U32"
  let ?u = "checkSequenceIndex (hdr_sequenceIndex (dp_header dp)) (packetReceived u)"
  have n: "unat ?n = length (dp_data dp)" "length (dp_data dp) < 65536"
    using assms(4) unat_lt16 [of "dp_dataSize dp"] by simp_all
  have fd: "fds (up_disk ?u) (m_fd (uf_osFile (up_file ?u))) = Some (name, pos)"
    "m_mode (uf_osFile (up_file ?u)) \<noteq> OPEN_NO_MODE" using assms(2,3) by (simp_all add: up_file_after)
  consider (none) "?n = 0 \<and> unat ?off < 2147483648 \<or> sint ?off < -1" | (some) "0 < unat ?n" "unat ?off < 2147483648"
  proof (cases ?off rule: sint_U32_cases)
    case 2
    have "unat ?off \<noteq> 4294967295" using assms(5) by (auto simp: word_unat_eq_iff)
    then show thesis using none 2(2) unat_lt32 [of ?off] by linarith
  next
    case 1
    then show thesis by (cases "?n = 0") (rule none, blast, rule some, simp_all only: unat_gt_0 not_False_eq_True)
  qed
  then show ?thesis
  proof cases
    case none
    then show ?thesis using uplink_write_nothing [OF assms(1) fd none written(2)] written(3) by (simp add: up_file_after)
  next
    case some
    have ne: "dp_data dp \<noteq> []" using some(1) n(1) by auto
    obtain c k where c: "files (up_disk u) name = Some c"
      by (rule disk_writeE [OF assms(1,2) ne])
    have pre: "files (up_disk ?u) name = Some c" "0 < length (dp_data dp)" "length (dp_data dp) = unat ?n" "unat ?n < 65536"
      using c ne n by (simp_all add: up_file_after)
    obtain k where k: "uplink_write D (dp_data dp) ?off ?n ?u = Some (OP_OK,
        ?u\<lparr>up_file := (up_file ?u)\<lparr>uf_checksum := add_sum (unat ?off) (dp_data dp) (uf_checksum (up_file ?u))\<rparr>, up_disk := k\<rparr>)"
      "files k = (files (up_disk ?u))(name \<mapsto> overwrite (unat ?off) (dp_data dp) c)"
      by (rule uplink_write_disk [OF assms(1) fd pre some(2)])
    have "unat (?off + ?n) = unat ?off + length (dp_data dp)"
      unfolding n(1) [symmetric] by (rule unat_add_small) (use some(2) n in simp)
    then have "unat ?off + length (dp_data dp) \<le> unat (uf_size (up_file u))"
      using written(1) by (simp add: word_less_nat_alt)
    then show ?thesis using k written(2,3) c by (auto simp: up_file_after)
  qed
qed simp

definition uplink_at_3 :: "((string \<Rightarrow> U8 list option) \<times> string \<times> nat) FileUplink" where
  "uplink_at_3 = (FileUplink_new 0 (Map.empty(''b'' \<mapsto> []), ''b'', 0))\<lparr>up_receiveMode := DATA,
        up_file := (Uplink_File_new 3)\<lparr>uf_osFile := File_new\<lparr>m_mode := OPEN_WRITE\<rparr>\<rparr>\<rparr>"

lemma uplink_at_3_runs:
  "\<exists>u'. handleDataPacket one_file_disk (DataPacket_initialize 1 2 1 [7]) uplink_at_3 = Some u'"
proof -
  let ?u = "checkSequenceIndex 1 (packetReceived uplink_at_3)"
  have u: "up_disk ?u = (Map.empty(''b'' \<mapsto> []), ''b'', 0)" "up_file ?u = up_file uplink_at_3"
    "m_mode (uf_osFile (up_file uplink_at_3)) = OPEN_WRITE" "up_receiveMode (packetReceived uplink_at_3) = DATA"
    "uf_size (up_file uplink_at_3) = 3"
    by (simp_all add: up_file_after) (simp_all add: uplink_at_3_def FileUplink_new_def Uplink_File_new_def)
  obtain k where "uplink_write one_file_disk [7] 2 1 ?u = Some (OP_OK, ?u\<lparr>up_file := (up_file ?u)\<lparr>uf_checksum :=
      add_sum (unat (2 :: U32)) [7] (uf_checksum (up_file ?u))\<rparr>, up_disk := k\<rparr>)"
    by (rule uplink_write_disk [OF one_file_posix, where u = ?u and name = "''b''" and pos = 0 and c = "[]"
          and data = "[7]" and byteOffset = 2 and len = 1])
      (simp_all add: u one_file_fds_def)
  then show ?thesis using u by (simp add: handleDataPacket_def DataPacket_initialize_def FP_Header_initialize_def Let_def)
qed

lemma uplink_writes_in_bounds_witness:
  "\<exists>u'. handleDataPacket one_file_disk (DataPacket_initialize 1 2 1 [7]) uplink_at_3 = Some u' \<and>
    (fst (up_disk u') = Map.empty(''b'' \<mapsto> []) \<or> fst (up_disk u') = Map.empty(''b'' \<mapsto> overwrite 2 [7] []))"
proof -
  obtain u' where u': "handleDataPacket one_file_disk (DataPacket_initialize 1 2 1 [7]) uplink_at_3 = Some u'"
    using uplink_at_3_runs ..
  then show ?thesis
    using uplink_writes_in_bounds [OF one_file_posix, of uplink_at_3 "''b''" 0, OF _ _ _ _ u']
    by (auto simp: uplink_at_3_def FileUplink_new_def Uplink_File_new_def one_file_fds_def DataPacket_initialize_def)
qed

text \<open>
  The exception. The 32-bit sum of offset 2^32 - 1 and length wraps and passes the bounds check,
  the failed seek to -1 counts as a success, and the data goes to where the last write ended,
  also when that is behind the announced size. No warning is issued for it.
\<close>

theorem last_offset_writes_anywhere:
  assumes "posix_disk D files fds" "fds (up_disk u) (m_fd (uf_osFile (up_file u))) = Some (name, pos)"
    and "m_mode (uf_osFile (up_file u)) \<noteq> OPEN_NO_MODE" "up_receiveMode u = DATA"
    and "length data = unat n" "0 < unat n" "unat n - 1 \<le> unat (uf_size (up_file u))"
    and "seq = up_lastSequenceIndex u + 1"
  shows "\<exists>u' c. handleDataPacket D (DataPacket_initialize seq 0xFFFFFFFF n data) u = Some u' \<and>
    files (up_disk u) name = Some c \<and> files (up_disk u') = (files (up_disk u))(name \<mapsto> overwrite pos data c) \<and>
    events u' = events u"
proof -
  let ?f = "uf_osFile (up_file u)" and ?n = "ucast n :: U32"
  let ?u = "(packetReceived u)\<lparr>up_lastSequenceIndex := seq\<rparr>"
  have n: "unat ?n = unat n" "unat n < 65536" using unat_lt16 [of n] by simp_all
  have "unat (0xFFFFFFFF + ?n) = unat n - 1"
    using n assms(6) by (simp add: unat_word_ariths mod_if)
  then have inb: "\<not> 0xFFFFFFFF + ?n > uf_size (up_file u)" using assms(7) by (simp add: word_less_nat_alt)
  have l: "sint ?n = int (unat n)" unfolding n(1) [symmetric] by (rule sint_small) (use n in simp)
  obtain k1 where s: "File_seek D (up_disk u) ?f (-1) True = (OP_OK, ?f, k1)" "files k1 = files (up_disk u)"
    "fds k1 (m_fd ?f) = Some (name, pos)"
    by (rule seek_minus_one [OF assms(1-3)])
  have pos: "0 < sint ?n" "nat (sint ?n) \<le> length data"
    unfolding l using assms(5,6) by (simp_all only: nat_int of_nat_0_less_iff)
  have small: "sint ?n < 1073741824" unfolding l using n(2) by linarith
  from write_disk [OF assms(1) s(3) assms(3) pos small] obtain k2 c where w:
    "File_write D k1 ?f data (sint ?n) = Some (OP_OK, sint ?n, ?f, k2)" "files k1 name = Some c"
    "files k2 = (files k1)(name \<mapsto> overwrite pos (take (nat (sint ?n)) data) c)" by blast
  have cs: "Checksum_update data 0xFFFFFFFF ?n (uf_checksum (up_file u)) =
      Some (add_sum (unat (0xFFFFFFFF :: U32)) data (uf_checksum (up_file u)))"
    using n assms(5) by (intro Checksum_update_ok) simp_all
  have o: "sint (0xFFFFFFFF :: U32) = -1" by simp
  have "uplink_write D data 0xFFFFFFFF ?n ?u = Some (OP_OK, ?u\<lparr>up_file := (up_file u)\<lparr>uf_checksum :=
      add_sum (unat (0xFFFFFFFF :: U32)) data (uf_checksum (up_file u))\<rparr>, up_disk := k2\<rparr>)"
    by (simp add: uplink_write_def o s(1) w(1) cs Let_def)
  moreover have "take (nat (sint ?n)) data = data" unfolding l using assms(5) by simp
  ultimately show ?thesis
    using assms(4,8) inb w(2,3) s(2)
    by (simp add: handleDataPacket_def DataPacket_initialize_def FP_Header_initialize_def checkSequenceIndex_def Let_def)
qed

lemma last_offset_writes_anywhere_witness:
  "\<exists>u'. handleDataPacket one_file_disk (DataPacket_initialize 1 0xFFFFFFFF 4 [6, 7, 8, 9])
      ((FileUplink_new 0 (Map.empty(''b'' \<mapsto> [1, 2, 3]), ''b'', 3))\<lparr>up_receiveMode := DATA,
        up_file := (Uplink_File_new 3)\<lparr>uf_osFile := File_new\<lparr>m_mode := OPEN_WRITE\<rparr>\<rparr>\<rparr>) = Some u' \<and>
    fst (up_disk u') = Map.empty(''b'' \<mapsto> [1, 2, 3, 6, 7, 8, 9]) \<and> events u' = []"
  using last_offset_writes_anywhere [OF one_file_posix, of "(FileUplink_new 0 (Map.empty(''b'' \<mapsto> [1, 2, 3]), ''b'', 3))\<lparr>up_receiveMode := DATA,
        up_file := (Uplink_File_new 3)\<lparr>uf_osFile := File_new\<lparr>m_mode := OPEN_WRITE\<rparr>\<rparr>\<rparr>" "''b''" 3 "[6, 7, 8, 9]" 4 1]
  by (auto simp: FileUplink_new_def Uplink_File_new_def one_file_fds_def overwrite_def events_def)

end
