(* ===== verification/Cmd_Packet.thy ===== *)
theory Cmd_Packet
  imports Com_Buffer
begin

text \<open>
  Fw/Cmd: the command packet (CmdPacket.cpp) a sequencer or the uplink sends to the dispatcher,
  and the buffer of the command's arguments (CmdArgBuffer.cpp).
\<close>

section \<open>Packets\<close>

definition FW_CMD_ARG_BUFFER_MAX_SIZE :: nat where
  "FW_CMD_ARG_BUFFER_MAX_SIZE = FW_COM_BUFFER_MAX_SIZE - 4 - 4"

definition CmdArgBuffer_new :: ser_buf where
  "CmdArgBuffer_new = SerializeBufferBase_new (replicate FW_CMD_ARG_BUFFER_MAX_SIZE 0)"

definition CmdArgBuffer_of :: "U8 list option \<Rightarrow> U32 \<Rightarrow> ser_buf option" where
  "CmdArgBuffer_of args len = do {
     (stat, b) \<leftarrow> setBuff CmdArgBuffer_new args len;
     fw_assert (stat = FW_SERIALIZE_OK);
     Some b
   }"

definition CmdArgBuffer_copy :: "ser_buf \<Rightarrow> ser_buf option" where
  "CmdArgBuffer_copy other = CmdArgBuffer_of (Some (m_data other)) (getBuffLength other)"

definition CmdArgBuffer_assign :: "ser_buf \<Rightarrow> ser_buf \<Rightarrow> ser_buf option" where
  "CmdArgBuffer_assign b other = do {
     (stat, b) \<leftarrow> setBuff b (Some (m_data other)) (getBuffLength other);
     fw_assert (stat = FW_SERIALIZE_OK);
     Some b
   }"

record CmdPacket =
  cmd_type :: U32
  cmd_opcode :: U32
  cmd_argBuffer :: ser_buf

definition CmdPacket_new :: CmdPacket where
  "CmdPacket_new = \<lparr>cmd_type = packet_type_code FW_PACKET_COMMAND, cmd_opcode = 0, cmd_argBuffer = CmdArgBuffer_new\<rparr>"

definition CmdPacket_serialize :: "CmdPacket \<Rightarrow> ser_buf \<Rightarrow> (SerializeStatus \<times> ser_buf) option" where
  "CmdPacket_serialize p buffer = do { fw_assert False; Some (FW_SERIALIZE_OK, buffer) }"

definition CmdPacket_deserialize :: "CmdPacket \<Rightarrow> ser_buf \<Rightarrow> (SerializeStatus \<times> CmdPacket \<times> ser_buf) option" where
  "CmdPacket_deserialize p buffer = do {
     (stat, t, buffer) \<leftarrow> ComPacket_deserializeBase (cmd_type p) buffer;
     let p = p\<lparr>cmd_type := t\<rparr>;
     if stat \<noteq> FW_SERIALIZE_OK then Some (stat, p, buffer)
     else if cmd_type p \<noteq> packet_type_code FW_PACKET_COMMAND
     then Some (FW_DESERIALIZE_TYPE_MISMATCH, p, buffer)
     else do {
       (r, buffer) \<leftarrow> deserialize_U32 buffer;
       (case r of
          Inl e \<Rightarrow> Some (e, p, buffer)
        | Inr opcode \<Rightarrow>
            let p = p\<lparr>cmd_opcode := opcode\<rparr> in
            if getBuffLeft buffer \<noteq> 0 then do {
              (stat, buffer, argBuffer) \<leftarrow> copyRaw buffer (cmd_argBuffer p) (getBuffLeft buffer);
              Some (stat, p\<lparr>cmd_argBuffer := argBuffer\<rparr>, buffer)
            }
            else Some (FW_SERIALIZE_OK, p, buffer))
     }
   }"

section \<open>What a well-formed command gives\<close>

lemma cmd_arg_size [simp]: "FW_CMD_ARG_BUFFER_MAX_SIZE = 120"
  by (simp add: FW_CMD_ARG_BUFFER_MAX_SIZE_def)

lemma CmdArgBuffer_new_wf:
  "ser_wf CmdArgBuffer_new" "length (m_data CmdArgBuffer_new) = 120" "\<not> m_null CmdArgBuffer_new"
  "contents CmdArgBuffer_new = []"
  by (simp_all add: CmdArgBuffer_new_def SerializeBufferBase_new_def ser_wf_def contents_def)

lemma CmdPacket_deserialize_ok:
  assumes "ser_wf b" "\<not> m_null b" "unread b = bytes_of_U32 0 @ bytes_of_U32 opcode @ args" "length args \<le> 120"
  shows "\<exists>p b'. CmdPacket_deserialize CmdPacket_new b = Some (FW_SERIALIZE_OK, p, b') \<and>
    cmd_opcode p = opcode \<and> contents (cmd_argBuffer p) = args"
proof -
  have 1: "deserialize_U32 b = Some (Inr 0, consume b 4)" using u32.get_ok [OF assms(1,3)] by simp
  have c1: "ser_wf (consume b 4)" "unread (consume b 4) = bytes_of_U32 opcode @ args"
    using assms by (simp_all add: consume_wf consume_unread)
  have 2: "deserialize_U32 (consume b 4) = Some (Inr opcode, consume b 8)"
    using u32.get_ok [OF c1] by (simp add: consume_consume)
  have c2: "ser_wf (consume b 8)" "unread (consume b 8) = args"
    using assms by (simp_all add: consume_wf consume_unread)
  have left: "unat (getBuffLeft (consume b 8)) = length args" using unat_getBuffLeft [OF c2(1)] c2(2) by simp
  have base: "ComPacket_deserializeBase t b = Some (FW_SERIALIZE_OK, 0, consume b 4)" for t
    by (simp add: ComPacket_deserializeBase_def 1)
  show ?thesis
  proof (cases "args = []")
    case True
    then have "getBuffLeft (consume b 8) = 0" using left by (simp add: word_unat_eq_iff)
    then show ?thesis using True
      by (simp add: CmdPacket_deserialize_def base 2 CmdPacket_new_def CmdArgBuffer_new_wf Let_def)
  next
    case False
    then have ne: "getBuffLeft (consume b 8) \<noteq> 0" using left by auto
    have len: "unat (m_deserLoc (consume b 8)) + length args \<le> length (m_data (consume b 8))"
      using c2 length_unread [OF c2(1)] by (simp add: ser_wf_def)
    obtain dest where d: "copyRaw (consume b 8) CmdArgBuffer_new (getBuffLeft (consume b 8)) =
        Some (FW_SERIALIZE_OK, (consume b 8)\<lparr>m_deserLoc := m_deserLoc (consume b 8) + getBuffLeft (consume b 8)\<rparr>, dest)"
      "contents dest = take (length args) (drop (unat (m_deserLoc (consume b 8))) (m_data (consume b 8)))"
      using copyRaw_ok [OF c2(1) CmdArgBuffer_new_wf(1), of "getBuffLeft (consume b 8)"] assms(2,4) len left
      by (auto simp: CmdArgBuffer_new_wf)
    have "contents dest = args"
      unfolding d(2) using c2(2) length_unread [OF c2(1)]
      by (simp add: unread_def contents_def drop_take)
    then show ?thesis using d(1) ne
      by (simp add: CmdPacket_deserialize_def base 2 CmdPacket_new_def Let_def)
  qed
qed

end
