(* ===== verification/Cmd_Dispatcher.thy ===== *)
theory Cmd_Dispatcher
  imports Cmd_Packet Cmd_Sequence
begin

text \<open>
  Svc/CmdDispatcher/CommandDispatcherImpl.cpp: the component that takes command packets, finds the
  component a command's opcode is registered for and sends it there, and gives the response back
  to the source of the command. Each handler returns what leaves the component, in order, and the
  next state. Which output ports are connected is a parameter.
\<close>

section \<open>State\<close>

record DispatchEntry =
  de_used :: bool
  de_opcode :: U32
  de_port :: int

record SequenceTracker =
  st_used :: bool
  st_seq :: U32
  st_opCode :: U32
  st_context :: U32
  st_callerPort :: int

record CmdDispatcher =
  m_entryTable :: "DispatchEntry list"
  m_sequenceTracker :: "SequenceTracker list"
  m_seq :: U32
  m_numCmdsDispatched :: U32
  m_numCmdErrors :: U32

record disp_ports =
  isConnected_seqCmdStatus :: "int \<Rightarrow> bool"
  isConnected_compCmdSend :: "int \<Rightarrow> bool"

datatype disp_out =
    OpCodeRegistered U32 int nat
  | OpCodeDispatched U32 int
  | OpCodeCompleted U32
  | OpCodeError U32 CmdResponse
  | MalformedCommand SerializeStatus
  | InvalidCommand U32
  | TooManyCommands U32
  | NoOpReceived
  | NoOpStringReceived "U8 list"
  | TestCmd1Args I32 F32 U8
  | OpCodeReregistered U32 int
  | Tlm_CommandsDispatched U32
  | Tlm_CommandErrors U32
  | seqCmdStatus_out int U32 U32 CmdResponse
  | compCmdSend_out int U32 U32 ser_buf
  | disp_cmdResponse_out U32 U32 CmdResponse
  | disp_pingOut U32

definition CMD_DISPATCHER_DISPATCH_TABLE_SIZE :: nat where
  "CMD_DISPATCHER_DISPATCH_TABLE_SIZE = 100"

definition CMD_DISPATCHER_SEQUENCER_TABLE_SIZE :: nat where
  "CMD_DISPATCHER_SEQUENCER_TABLE_SIZE = 25"

definition CmdDispatcherSequencePorts :: int where
  "CmdDispatcherSequencePorts = 5"

definition CmdDispatcher_new :: CmdDispatcher where
  "CmdDispatcher_new =
     \<lparr>m_entryTable = replicate CMD_DISPATCHER_DISPATCH_TABLE_SIZE
        \<lparr>de_used = False, de_opcode = 0, de_port = 0\<rparr>,
      m_sequenceTracker = replicate CMD_DISPATCHER_SEQUENCER_TABLE_SIZE
        \<lparr>st_used = False, st_seq = 0, st_opCode = 0, st_context = 0, st_callerPort = 0\<rparr>,
      m_seq = 0, m_numCmdsDispatched = 0, m_numCmdErrors = 0\<rparr>"

section \<open>Handlers\<close>

text \<open>The loop over the dispatch table goes on after a slot was found, for the duplicate check.\<close>

fun reg_loop ::
  "U32 \<Rightarrow> int \<Rightarrow> nat \<Rightarrow> bool \<Rightarrow> DispatchEntry list \<Rightarrow> (disp_out list \<times> bool \<times> DispatchEntry list) option" where
  "reg_loop opCode portNum slot slotFound [] = Some ([], slotFound, [])"
| "reg_loop opCode portNum slot slotFound (e # es) =
     (if \<not> de_used e \<and> \<not> slotFound then do {
        (outs, found, es) \<leftarrow> reg_loop opCode portNum (slot + 1) True es;
        Some (OpCodeRegistered opCode portNum slot # outs, found,
              e\<lparr>de_opcode := opCode, de_port := portNum, de_used := True\<rparr> # es)
      }
      else if de_used e \<and> de_opcode e = opCode \<and> de_port e = portNum \<and> \<not> slotFound then do {
        (outs, found, es) \<leftarrow> reg_loop opCode portNum (slot + 1) True es;
        Some (OpCodeReregistered opCode portNum # outs, found, e # es)
      }
      else do {
        fw_assert (de_used e \<longrightarrow> de_opcode e \<noteq> opCode);
        (outs, found, es) \<leftarrow> reg_loop opCode portNum (slot + 1) slotFound es;
        Some (outs, found, e # es)
      })"

definition compCmdReg_handler :: "int \<Rightarrow> U32 \<Rightarrow> CmdDispatcher \<Rightarrow> (disp_out list \<times> CmdDispatcher) option" where
  "compCmdReg_handler portNum opCode d = do {
     (outs, slotFound, tbl) \<leftarrow> reg_loop opCode portNum 0 False (m_entryTable d);
     fw_assert slotFound;
     Some (outs, d\<lparr>m_entryTable := tbl\<rparr>)
   }"

definition compCmdStat_handler ::
  "disp_ports \<Rightarrow> U32 \<Rightarrow> U32 \<Rightarrow> CmdResponse \<Rightarrow> CmdDispatcher \<Rightarrow> (disp_out list \<times> CmdDispatcher) option" where
  "compCmdStat_handler P opCode cmdSeq response d = (
     let (outs, d) =
           (if response = CmdResponse_OK then ([OpCodeCompleted opCode], d)
            else
              let d = d\<lparr>m_numCmdErrors := m_numCmdErrors d + 1\<rparr> in
              ([Tlm_CommandErrors (m_numCmdErrors d), OpCodeError opCode response], d)) in
     case first_index (\<lambda>t. st_seq t = cmdSeq \<and> st_used t) (m_sequenceTracker d) of
       None \<Rightarrow> Some (outs, d)
     | Some pending \<Rightarrow>
         let t = m_sequenceTracker d ! pending; portToCall = st_callerPort t; context = st_context t in do {
           fw_assert (opCode = st_opCode t);
           fw_assert (portToCall < CmdDispatcherSequencePorts);
           let d = d\<lparr>m_sequenceTracker := (m_sequenceTracker d)[pending := t\<lparr>st_used := False\<rparr>]\<rparr>;
           Some (outs @ (if portToCall \<noteq> -1 \<and> isConnected_seqCmdStatus P portToCall
                         then [seqCmdStatus_out portToCall opCode context response] else []), d)
         })"

text \<open>The entry of the tracker for a command whose source wants the response.\<close>

definition track_command :: "U32 \<Rightarrow> U32 \<Rightarrow> int \<Rightarrow> CmdDispatcher \<Rightarrow> CmdDispatcher option" where
  "track_command opCode context portNum d =
     (case first_index (\<lambda>t. \<not> st_used t) (m_sequenceTracker d) of
        None \<Rightarrow> None
      | Some pending \<Rightarrow> Some (d\<lparr>m_sequenceTracker := (m_sequenceTracker d)[pending :=
          \<lparr>st_used = True, st_seq = m_seq d, st_opCode = opCode, st_context = context, st_callerPort = portNum\<rparr>]\<rparr>))"

definition status_if_connected :: "disp_ports \<Rightarrow> int \<Rightarrow> U32 \<Rightarrow> U32 \<Rightarrow> CmdResponse \<Rightarrow> disp_out list" where
  "status_if_connected P portNum opCode context response =
     (if isConnected_seqCmdStatus P portNum then [seqCmdStatus_out portNum opCode context response] else [])"

definition seqCmdBuff_handler ::
  "disp_ports \<Rightarrow> int \<Rightarrow> ser_buf \<Rightarrow> U32 \<Rightarrow> CmdDispatcher \<Rightarrow> (disp_out list \<times> CmdDispatcher) option" where
  "seqCmdBuff_handler P portNum data context d = do {
     (stat, cmdPkt, data) \<leftarrow> CmdPacket_deserialize CmdPacket_new data;
     let opCode = cmd_opcode cmdPkt;
     if stat \<noteq> FW_SERIALIZE_OK
     then Some (MalformedCommand stat # status_if_connected P portNum opCode context VALIDATION_ERROR, d)
     else
       (case first_index (\<lambda>e. de_used e \<and> opCode = de_opcode e) (m_entryTable d) of
          Some entry \<Rightarrow>
            if isConnected_compCmdSend P (de_port (m_entryTable d ! entry)) then
              (case (if isConnected_seqCmdStatus P portNum then track_command opCode context portNum d else Some d) of
                 None \<Rightarrow> Some (TooManyCommands opCode # status_if_connected P portNum opCode context EXECUTION_ERROR, d)
               | Some d \<Rightarrow>
                   let n = m_numCmdsDispatched d + 1 in
                   Some ([compCmdSend_out (de_port (m_entryTable d ! entry)) opCode (m_seq d) (cmd_argBuffer cmdPkt),
                          OpCodeDispatched opCode (de_port (m_entryTable d ! entry)), Tlm_CommandsDispatched n],
                         d\<lparr>m_numCmdsDispatched := n, m_seq := m_seq d + 1\<rparr>))
            else Some (InvalidCommand opCode # status_if_connected P portNum opCode context INVALID_OPCODE @
                   [Tlm_CommandErrors (m_numCmdErrors d + 1)],
                   d\<lparr>m_numCmdErrors := m_numCmdErrors d + 1, m_seq := m_seq d + 1\<rparr>)
        | None \<Rightarrow> Some (InvalidCommand opCode # status_if_connected P portNum opCode context INVALID_OPCODE @
                   [Tlm_CommandErrors (m_numCmdErrors d + 1)],
                   d\<lparr>m_numCmdErrors := m_numCmdErrors d + 1, m_seq := m_seq d + 1\<rparr>))
   }"

definition CMD_NO_OP_cmdHandler :: "U32 \<Rightarrow> U32 \<Rightarrow> disp_out list" where
  "CMD_NO_OP_cmdHandler opCode cmdSeq = [NoOpReceived, disp_cmdResponse_out opCode cmdSeq CmdResponse_OK]"

definition CMD_NO_OP_STRING_cmdHandler :: "U32 \<Rightarrow> U32 \<Rightarrow> U8 list \<Rightarrow> disp_out list" where
  "CMD_NO_OP_STRING_cmdHandler opCode cmdSeq arg1 =
     [NoOpStringReceived (take 99 (takeWhile (\<lambda>c. c \<noteq> 0) arg1)), disp_cmdResponse_out opCode cmdSeq CmdResponse_OK]"

definition CMD_TEST_CMD_1_cmdHandler :: "U32 \<Rightarrow> U32 \<Rightarrow> I32 \<Rightarrow> F32 \<Rightarrow> U8 \<Rightarrow> disp_out list" where
  "CMD_TEST_CMD_1_cmdHandler opCode cmdSeq arg1 arg2 arg3 =
     [TestCmd1Args arg1 arg2 arg3, disp_cmdResponse_out opCode cmdSeq CmdResponse_OK]"

definition CMD_CLEAR_TRACKING_cmdHandler :: "U32 \<Rightarrow> U32 \<Rightarrow> CmdDispatcher \<Rightarrow> disp_out list \<times> CmdDispatcher" where
  "CMD_CLEAR_TRACKING_cmdHandler opCode cmdSeq d =
     ([disp_cmdResponse_out opCode cmdSeq CmdResponse_OK],
      d\<lparr>m_sequenceTracker := map (\<lambda>t. t\<lparr>st_used := False\<rparr>) (m_sequenceTracker d)\<rparr>)"

definition disp_pingIn_handler :: "U32 \<Rightarrow> disp_out list" where
  "disp_pingIn_handler key = [disp_pingOut key]"

text \<open>The calls the component's thread and its guarded registration port make.\<close>

datatype disp_op =
    CompCmdReg int U32
  | CompCmdStat U32 U32 CmdResponse
  | SeqCmdBuff int ser_buf U32
  | CmdNoOp U32 U32
  | CmdNoOpString U32 U32 "U8 list"
  | CmdTestCmd1 U32 U32 I32 F32 U8
  | CmdClearTracking U32 U32
  | PingIn U32

fun disp_step :: "disp_ports \<Rightarrow> disp_op \<Rightarrow> CmdDispatcher \<Rightarrow> (disp_out list \<times> CmdDispatcher) option" where
  "disp_step P (CompCmdReg portNum opCode) d = compCmdReg_handler portNum opCode d"
| "disp_step P (CompCmdStat opCode cmdSeq response) d = compCmdStat_handler P opCode cmdSeq response d"
| "disp_step P (SeqCmdBuff portNum data context) d = seqCmdBuff_handler P portNum data context d"
| "disp_step P (CmdNoOp opCode cmdSeq) d = Some (CMD_NO_OP_cmdHandler opCode cmdSeq, d)"
| "disp_step P (CmdNoOpString opCode cmdSeq arg1) d = Some (CMD_NO_OP_STRING_cmdHandler opCode cmdSeq arg1, d)"
| "disp_step P (CmdTestCmd1 opCode cmdSeq arg1 arg2 arg3) d =
     Some (CMD_TEST_CMD_1_cmdHandler opCode cmdSeq arg1 arg2 arg3, d)"
| "disp_step P (CmdClearTracking opCode cmdSeq) d = Some (CMD_CLEAR_TRACKING_cmdHandler opCode cmdSeq d)"
| "disp_step P (PingIn key) d = Some (disp_pingIn_handler key, d)"

fun disp_run :: "disp_ports \<Rightarrow> disp_op list \<Rightarrow> CmdDispatcher \<Rightarrow> (disp_out list \<times> CmdDispatcher) option" where
  "disp_run P [] d = Some ([], d)"
| "disp_run P (op # ops) d = do {
     (outs, d) \<leftarrow> disp_step P op d;
     (outs', d) \<leftarrow> disp_run P ops d;
     Some (outs @ outs', d)
   }"

section \<open>The dispatch table as a map\<close>

definition de_map :: "DispatchEntry list \<Rightarrow> U32 \<Rightarrow> int option" where
  "de_map tbl = map_of (map (\<lambda>e. (de_opcode e, de_port e)) (filter de_used tbl))"

text \<open>The used entries come first, and no two of them have the same opcode.\<close>

fun table_wf :: "DispatchEntry list \<Rightarrow> bool" where
  "table_wf [] \<longleftrightarrow> True"
| "table_wf (e # es) \<longleftrightarrow>
     (if de_used e then de_map es (de_opcode e) = None \<and> table_wf es else (\<forall>x \<in> set es. \<not> de_used x))"

lemma de_map_simps [simp]:
  "de_map [] = Map.empty"
  "de_map (e # es) = (if de_used e then (de_map es)(de_opcode e \<mapsto> de_port e) else de_map es)"
  by (simp_all add: de_map_def)

lemma de_map_unused: "(\<forall>x \<in> set es. \<not> de_used x) \<Longrightarrow> de_map es = Map.empty \<and> table_wf es"
  by (induction es) auto

lemma reg_loop_found:
  "reg_loop op p slot True es = (if de_map es op = None then Some ([], True, es) else None)"
  by (induction es arbitrary: slot) auto

lemma reg_loop_ok:
  assumes "table_wf es"
  shows "case de_map es op of
      None \<Rightarrow>
        if \<forall>x \<in> set es. de_used x then reg_loop op p slot False es = Some ([], False, es)
        else (\<exists>i es'. reg_loop op p slot False es = Some ([OpCodeRegistered op p i], True, es') \<and>
               de_map es' = (de_map es)(op \<mapsto> p) \<and> table_wf es' \<and> length es' = length es)
    | Some q \<Rightarrow>
        reg_loop op p slot False es = (if q = p then Some ([OpCodeReregistered op p], True, es) else None)"
  using assms
proof (induction es arbitrary: slot)
  case (Cons e es)
  show ?case
  proof (cases "de_used e")
    case False
    then show ?thesis using Cons.prems by (auto simp: reg_loop_found de_map_unused)
  next
    case True
    note IH = Cons.IH [of "slot + 1"]
    show ?thesis
    proof (cases "de_opcode e = op")
      case True
      then show ?thesis using \<open>de_used e\<close> Cons.prems by (simp add: reg_loop_found)
    next
      case False
      show ?thesis
      proof (cases "de_map es op")
        case (Some q)
        then show ?thesis using IH Cons.prems True False by simp
      next
        case None
        show ?thesis
        proof (cases "\<forall>x \<in> set es. de_used x")
          case True
          then show ?thesis using IH Cons.prems None \<open>de_used e\<close> False by simp
        next
          case free: False
          have "table_wf es" using Cons.prems \<open>de_used e\<close> by simp
          from IH [OF this, unfolded None option.case if_not_P [OF free]]
          obtain i es' where "reg_loop op p (slot + 1) False es = Some ([OpCodeRegistered op p i], True, es')"
            "de_map es' = (de_map es)(op \<mapsto> p)" "table_wf es'" "length es' = length es" by blast
          then show ?thesis using free Cons.prems None \<open>de_used e\<close> False by (auto simp: fun_upd_twist)
        qed
      qed
    qed
  qed
qed simp

text \<open>
  C22: the dispatch table is a map from opcodes to ports. Registering an opcode extends the map, or
  changes nothing if it was registered for the same port. It fails an assertion in exactly two
  cases: the opcode belongs to another port, or the table of 100 entries is full.
\<close>

theorem registration_is_map_update:
  assumes "table_wf (m_entryTable d)"
  shows "case de_map (m_entryTable d) opCode of
      None \<Rightarrow>
        if \<forall>e \<in> set (m_entryTable d). de_used e then compCmdReg_handler portNum opCode d = None
        else (\<exists>slot d'. compCmdReg_handler portNum opCode d = Some ([OpCodeRegistered opCode portNum slot], d') \<and>
          de_map (m_entryTable d') = (de_map (m_entryTable d))(opCode \<mapsto> portNum) \<and> table_wf (m_entryTable d') \<and>
          m_sequenceTracker d' = m_sequenceTracker d \<and> m_seq d' = m_seq d)
    | Some q \<Rightarrow>
        compCmdReg_handler portNum opCode d = (if q = portNum then Some ([OpCodeReregistered opCode portNum], d) else None)"
  using reg_loop_ok [OF assms, of opCode portNum 0]
  by (auto simp: compCmdReg_handler_def split: option.splits if_splits)

lemma CmdDispatcher_new_table:
  "table_wf (m_entryTable CmdDispatcher_new)" "de_map (m_entryTable CmdDispatcher_new) = Map.empty"
  "\<not> (\<forall>e \<in> set (m_entryTable CmdDispatcher_new). de_used e)"
proof -
  have n: "CMD_DISPATCHER_DISPATCH_TABLE_SIZE \<noteq> 0" by (simp add: CMD_DISPATCHER_DISPATCH_TABLE_SIZE_def)
  then have u: "\<forall>x \<in> set (m_entryTable CmdDispatcher_new). \<not> de_used x" "m_entryTable CmdDispatcher_new \<noteq> []"
    by (auto simp: CmdDispatcher_new_def)
  show "table_wf (m_entryTable CmdDispatcher_new)" "de_map (m_entryTable CmdDispatcher_new) = Map.empty"
    using de_map_unused [OF u(1)] by simp_all
  show "\<not> (\<forall>e \<in> set (m_entryTable CmdDispatcher_new). de_used e)"
    using u by (metis list.set_intros(1) neq_Nil_conv)
qed

lemma registration_is_map_update_witness:
  "\<exists>slot d'. compCmdReg_handler 3 7 CmdDispatcher_new = Some ([OpCodeRegistered 7 3 slot], d') \<and>
    de_map (m_entryTable d') = [7 \<mapsto> 3] \<and> table_wf (m_entryTable d')"
  using registration_is_map_update [OF CmdDispatcher_new_table(1), where opCode = 7 and portNum = 3]
    CmdDispatcher_new_table(2,3) by auto

section \<open>The commands that wait for their response\<close>

definition tracked :: "SequenceTracker list \<Rightarrow> U32 \<Rightarrow> (U32 \<times> U32 \<times> int) option" where
  "tracked ts = map_of (map (\<lambda>t. (st_seq t, (st_opCode t, st_context t, st_callerPort t))) (filter st_used ts))"

fun tracker_wf :: "SequenceTracker list \<Rightarrow> bool" where
  "tracker_wf [] \<longleftrightarrow> True"
| "tracker_wf (t # ts) \<longleftrightarrow> (st_used t \<longrightarrow> tracked ts (st_seq t) = None) \<and> tracker_wf ts"

definition disp_inv :: "CmdDispatcher \<Rightarrow> bool" where
  "disp_inv d \<longleftrightarrow> table_wf (m_entryTable d) \<and> tracker_wf (m_sequenceTracker d)"

lemma tracked_simps [simp]:
  "tracked [] = Map.empty"
  "tracked (t # ts) = (if st_used t then (tracked ts)(st_seq t \<mapsto> (st_opCode t, st_context t, st_callerPort t)) else tracked ts)"
  by (simp_all add: tracked_def)

lemma tracked_unused: "(\<forall>t \<in> set ts. \<not> st_used t) \<Longrightarrow> tracked ts = Map.empty \<and> tracker_wf ts"
  by (induction ts) auto

lemma track_free:
  assumes "first_index (\<lambda>t. \<not> st_used t) ts = Some i" "tracked ts (st_seq t) = None" "st_used t" "tracker_wf ts"
  shows "tracked (ts[i := t]) = (tracked ts)(st_seq t \<mapsto> (st_opCode t, st_context t, st_callerPort t)) \<and> tracker_wf (ts[i := t])"
  using assms by (induction ts arbitrary: i) (auto split: if_splits simp: fun_upd_twist)

lemma find_pending:
  assumes "tracker_wf ts"
  shows "case tracked ts s of
      None \<Rightarrow> first_index (\<lambda>t. st_seq t = s \<and> st_used t) ts = None
    | Some (op, ctx, p) \<Rightarrow>
        (\<exists>i. first_index (\<lambda>t. st_seq t = s \<and> st_used t) ts = Some i \<and> i < length ts \<and> st_opCode (ts ! i) = op \<and>
          st_context (ts ! i) = ctx \<and> st_callerPort (ts ! i) = p \<and>
          tracked (ts[i := (ts ! i)\<lparr>st_used := False\<rparr>]) = (tracked ts)(s := None) \<and>
          tracker_wf (ts[i := (ts ! i)\<lparr>st_used := False\<rparr>]))"
  using assms
proof (induction ts)
  case (Cons t ts)
  show ?case
  proof (cases "st_seq t = s \<and> st_used t")
    case True
    then show ?thesis using Cons.prems by (auto simp: fun_upd_idem)
  next
    case False
    show ?thesis
    proof (cases "tracked ts s")
      case None
      then show ?thesis using False Cons by auto
    next
      case (Some x)
      obtain op ctx p where x: "x = (op, ctx, p)" by (cases x)
      obtain i where i: "first_index (\<lambda>t. st_seq t = s \<and> st_used t) ts = Some i" "i < length ts" "st_opCode (ts ! i) = op"
        "st_context (ts ! i) = ctx" "st_callerPort (ts ! i) = p"
        "tracked (ts[i := (ts ! i)\<lparr>st_used := False\<rparr>]) = (tracked ts)(s := None)"
        "tracker_wf (ts[i := (ts ! i)\<lparr>st_used := False\<rparr>])"
        using Cons Some x by auto
      show ?thesis
        using False Some x i Cons.prems by (auto simp: fun_upd_twist)
    qed
  qed
qed simp

lemma clear_tracked: "tracked (map (\<lambda>t. t\<lparr>st_used := False\<rparr>) ts) = Map.empty"
  "tracker_wf (map (\<lambda>t. t\<lparr>st_used := False\<rparr>) ts)"
  by (induction ts) auto

lemma find_entry:
  "case de_map tbl op of
      None \<Rightarrow> first_index (\<lambda>e. de_used e \<and> op = de_opcode e) tbl = None
    | Some q \<Rightarrow> (\<exists>i. first_index (\<lambda>e. de_used e \<and> op = de_opcode e) tbl = Some i \<and> de_port (tbl ! i) = q)"
  by (induction tbl) (auto split: option.splits)

section \<open>What a submitted command does\<close>

text \<open>A command of the form the ground and the sequencers send.\<close>

definition command_buffer :: "ser_buf \<Rightarrow> U32 \<Rightarrow> U8 list \<Rightarrow> bool" where
  "command_buffer b opCode args \<longleftrightarrow> ser_wf b \<and> \<not> m_null b \<and> length args \<le> 120 \<and>
     unread b = bytes_of_U32 0 @ bytes_of_U32 opCode @ args"

lemma track_command_cases:
  assumes "tracker_wf (m_sequenceTracker d)" "tracked (m_sequenceTracker d) (m_seq d) = None"
  obtains "\<forall>t \<in> set (m_sequenceTracker d). st_used t" "track_command op ctx p d = None"
  | ts where "track_command op ctx p d = Some (d\<lparr>m_sequenceTracker := ts\<rparr>)" "tracker_wf ts"
      "tracked ts = (tracked (m_sequenceTracker d))(m_seq d \<mapsto> (op, ctx, p))"
proof (cases "first_index (\<lambda>t. \<not> st_used t) (m_sequenceTracker d)")
  case None
  with that(1) show thesis by (simp add: track_command_def first_index_None)
next
  case (Some i)
  let ?t = "\<lparr>st_used = True, st_seq = m_seq d, st_opCode = op, st_context = ctx, st_callerPort = p\<rparr>"
  from that(2) [of "(m_sequenceTracker d)[i := ?t]"] track_free [OF Some, of ?t] assms Some show thesis
    by (simp add: track_command_def)
qed

lemma submit_ok:
  assumes "disp_inv d" "tracked (m_sequenceTracker d) (m_seq d) = None" "command_buffer b op args"
    and "de_map (m_entryTable d) op = Some q" "isConnected_compCmdSend P q" "isConnected_seqCmdStatus P p"
    and "\<exists>t \<in> set (m_sequenceTracker d). \<not> st_used t"
  shows "\<exists>argBuffer d'. seqCmdBuff_handler P p b ctx d = Some ([compCmdSend_out q op (m_seq d) argBuffer,
      OpCodeDispatched op q, Tlm_CommandsDispatched (m_numCmdsDispatched d + 1)], d') \<and> contents argBuffer = args \<and>
    m_entryTable d' = m_entryTable d \<and> disp_inv d' \<and> m_seq d' = m_seq d + 1 \<and>
    tracked (m_sequenceTracker d') = (tracked (m_sequenceTracker d))(m_seq d \<mapsto> (op, ctx, p))"
proof -
  obtain pkt b' where pkt: "CmdPacket_deserialize CmdPacket_new b = Some (FW_SERIALIZE_OK, pkt, b')"
    "cmd_opcode pkt = op" "contents (cmd_argBuffer pkt) = args"
    using CmdPacket_deserialize_ok [of b op args] assms(3) by (auto simp: command_buffer_def)
  obtain i where i: "first_index (\<lambda>e. de_used e \<and> op = de_opcode e) (m_entryTable d) = Some i"
    "de_port (m_entryTable d ! i) = q"
    using find_entry [where tbl = "m_entryTable d" and op = op] assms(4) by auto
  obtain ts where ts: "track_command op ctx p d = Some (d\<lparr>m_sequenceTracker := ts\<rparr>)" "tracker_wf ts"
    "tracked ts = (tracked (m_sequenceTracker d))(m_seq d \<mapsto> (op, ctx, p))"
    using track_command_cases [of d op ctx p] assms(1,2,7) by (auto simp: disp_inv_def)
  show ?thesis using pkt i ts assms(1,5,6) by (simp add: seqCmdBuff_handler_def Let_def disp_inv_def)
qed

text \<open>Whatever is submitted, the tracker gains at most the entry of the current number.\<close>

lemma submit_any:
  assumes "disp_inv d" "tracked (m_sequenceTracker d) (m_seq d) = None"
    and "seqCmdBuff_handler P p b ctx d = Some (outs, d')"
  shows "disp_inv d' \<and> m_entryTable d' = m_entryTable d \<and>
    (tracked (m_sequenceTracker d') = tracked (m_sequenceTracker d) \<and> m_seq d' \<in> {m_seq d, m_seq d + 1} \<or>
     (\<exists>x. tracked (m_sequenceTracker d') = (tracked (m_sequenceTracker d))(m_seq d \<mapsto> x) \<and> m_seq d' = m_seq d + 1))"
proof -
  obtain stat pkt b' where pkt: "CmdPacket_deserialize CmdPacket_new b = Some (stat, pkt, b')"
    using assms(3) by (auto simp: seqCmdBuff_handler_def split: bind_splits)
  have inv: "table_wf (m_entryTable d)" "tracker_wf (m_sequenceTracker d)" using assms(1) by (simp_all add: disp_inv_def)
  show ?thesis
  proof (rule track_command_cases [OF inv(2) assms(2), of "cmd_opcode pkt" ctx p])
    assume "track_command (cmd_opcode pkt) ctx p d = None"
    then show ?thesis using assms(3) inv pkt
      by (auto simp: seqCmdBuff_handler_def disp_inv_def Let_def split: option.splits if_splits)
  next
    fix ts assume "track_command (cmd_opcode pkt) ctx p d = Some (d\<lparr>m_sequenceTracker := ts\<rparr>)" "tracker_wf ts"
      "tracked ts = (tracked (m_sequenceTracker d))(m_seq d \<mapsto> (cmd_opcode pkt, ctx, p))"
    then show ?thesis using assms(3) inv pkt
      by (auto simp: seqCmdBuff_handler_def disp_inv_def Let_def split: option.splits if_splits)
        blast
  qed
qed

lemma status_any:
  assumes "disp_inv d" "compCmdStat_handler P op s response d = Some (outs, d')"
  shows "disp_inv d' \<and> m_entryTable d' = m_entryTable d \<and> m_seq d' = m_seq d \<and>
    tracked (m_sequenceTracker d') = (tracked (m_sequenceTracker d))(s := None)"
proof -
  have inv: "table_wf (m_entryTable d)" "tracker_wf (m_sequenceTracker d)" using assms(1) by (simp_all add: disp_inv_def)
  show ?thesis using find_pending [OF inv(2), of s] assms(2) inv
    by (auto simp: compCmdStat_handler_def disp_inv_def Let_def fun_upd_idem split: option.splits if_splits)
qed

lemma status_ok:
  assumes "disp_inv d" "tracked (m_sequenceTracker d) s = Some (op, ctx, p)" "p < CmdDispatcherSequencePorts" "p \<noteq> -1"
  shows "\<exists>outs d'. compCmdStat_handler P op s response d = Some (outs @ status_if_connected P p op ctx response, d') \<and>
    outs = (if response = CmdResponse_OK then [OpCodeCompleted op]
            else [Tlm_CommandErrors (m_numCmdErrors d + 1), OpCodeError op response]) \<and>
    tracked (m_sequenceTracker d') s = None"
proof -
  have "tracker_wf (m_sequenceTracker d)" using assms(1) by (simp add: disp_inv_def)
  from find_pending [OF this, of s] assms(2) obtain i where i:
    "first_index (\<lambda>t. st_seq t = s \<and> st_used t) (m_sequenceTracker d) = Some i" "st_opCode (m_sequenceTracker d ! i) = op"
    "st_context (m_sequenceTracker d ! i) = ctx" "st_callerPort (m_sequenceTracker d ! i) = p"
    "tracked ((m_sequenceTracker d)[i := (m_sequenceTracker d ! i)\<lparr>st_used := False\<rparr>]) = (tracked (m_sequenceTracker d))(s := None)"
    by auto
  show ?thesis using i assms(3,4) by (auto simp: compCmdStat_handler_def status_if_connected_def Let_def)
qed

section \<open>Every answer finds its command\<close>

text \<open>None of the next \<open>n\<close> sequence numbers belongs to a command that still waits.\<close>

definition seq_free :: "nat \<Rightarrow> CmdDispatcher \<Rightarrow> bool" where
  "seq_free n d \<longleftrightarrow> (\<forall>j < n. tracked (m_sequenceTracker d) (m_seq d + of_nat j) = None)"

lemma seq_free_mono: "seq_free n d \<Longrightarrow> m \<le> n \<Longrightarrow> seq_free m d"
  by (simp add: seq_free_def)

lemma seq_shift: "(w :: U32) + 1 + of_nat j = w + of_nat (Suc j)"
  by simp

lemma seq_differs:
  assumes "Suc j < 4294967296"
  shows "(w :: U32) + of_nat (Suc j) \<noteq> w"
proof
  assume "w + of_nat (Suc j) = w"
  then have "(of_nat (Suc j) :: U32) = 0" by simp
  then show False using unat_of_nat32 [OF assms] by simp
qed

text \<open>Operations that leave the entry of command \<open>s\<close> alone.\<close>

fun spares :: "U32 \<Rightarrow> disp_op \<Rightarrow> bool" where
  "spares s (CompCmdStat op s' response) \<longleftrightarrow> s' \<noteq> s"
| "spares s (CmdClearTracking op s') \<longleftrightarrow> False"
| "spares s _ \<longleftrightarrow> True"

lemma reg_keeps:
  assumes "table_wf (m_entryTable d)" "compCmdReg_handler p op d = Some (outs, d')"
  shows "table_wf (m_entryTable d') \<and> m_sequenceTracker d' = m_sequenceTracker d \<and> m_seq d' = m_seq d"
  using reg_loop_ok [OF assms(1), of op p 0] assms
  by (auto simp: compCmdReg_handler_def split: option.splits if_splits)

lemma step_spares:
  assumes "disp_inv d" "seq_free (Suc n) d" "Suc n \<le> 4294967296" "tracked (m_sequenceTracker d) s = Some x"
    and "spares s op" "disp_step P op d = Some (outs, d')"
  shows "disp_inv d' \<and> tracked (m_sequenceTracker d') s = Some x \<and> seq_free n d'"
proof -
  have free: "tracked (m_sequenceTracker d) (m_seq d + of_nat j) = None" if "j < Suc n" for j
    using assms(2) that by (simp add: seq_free_def)
  show ?thesis
  proof (cases op)
    case (CompCmdReg p op)
    then show ?thesis using reg_keeps [of d p op] assms(1,4,6) free by (auto simp: disp_inv_def seq_free_def)
  next
    case (CompCmdStat o' s' r)
    then have "disp_inv d' \<and> m_seq d' = m_seq d \<and> tracked (m_sequenceTracker d') = (tracked (m_sequenceTracker d))(s' := None)"
      using status_any [OF assms(1)] assms(6) by auto
    then show ?thesis using CompCmdStat assms(4,5) free by (auto simp: seq_free_def)
  next
    case (SeqCmdBuff p b ctx)
    have now: "tracked (m_sequenceTracker d) (m_seq d) = None" using free [of 0] by simp
    have ne: "s \<noteq> m_seq d" using now assms(4) by auto
    have later: "tracked (m_sequenceTracker d) (m_seq d + 1 + of_nat j) = None \<and> m_seq d + 1 + of_nat j \<noteq> m_seq d" if "j < n" for j
      using free [of "Suc j"] seq_differs [of j "m_seq d"] that assms(3) unfolding seq_shift by simp
    have "disp_inv d' \<and> (tracked (m_sequenceTracker d') = tracked (m_sequenceTracker d) \<and> m_seq d' \<in> {m_seq d, m_seq d + 1} \<or>
     (\<exists>x. tracked (m_sequenceTracker d') = (tracked (m_sequenceTracker d))(m_seq d \<mapsto> x) \<and> m_seq d' = m_seq d + 1))"
      using submit_any [OF assms(1) now] SeqCmdBuff assms(6) by simp
    then show ?thesis using ne later free assms(4) by (auto simp: seq_free_def)
  qed (use assms free in \<open>auto simp: seq_free_def\<close>)
qed

lemma run_spares:
  assumes "disp_inv d" "seq_free (length ops) d" "length ops \<le> 4294967296" "tracked (m_sequenceTracker d) s = Some x"
    and "\<forall>op \<in> set ops. spares s op" "disp_run P ops d = Some (outs, d')"
  shows "disp_inv d' \<and> tracked (m_sequenceTracker d') s = Some x"
  using assms
proof (induction ops arbitrary: d outs)
  case (Cons op ops)
  obtain o1 d1 o2 where s: "disp_step P op d = Some (o1, d1)" "disp_run P ops d1 = Some (o2, d')"
    using Cons.prems(6) by (auto split: bind_splits)
  have "disp_inv d1 \<and> tracked (m_sequenceTracker d1) s = Some x \<and> seq_free (length ops) d1"
    by (rule step_spares [OF Cons.prems(1) _ _ Cons.prems(4) _ s(1)]) (use Cons.prems in simp_all)
  then show ?case using Cons.IH [of d1 o2] Cons.prems s(2) by simp
qed simp

text \<open>
  C6: the response to a command goes to the source that sent it. A command for a registered opcode,
  from a connected source port, is sent to the registered port with a sequence number, provided that a slot of the
  tracker is free (a full tracker refuses the command); after any
  further calls that return and do not report this number or clear the tracker, when the component reports
  that number the dispatcher calls the port the command came from, with its opcode and context and
  the response, and forgets the command. The bound keeps the numbers, which wrap, from meeting a
  command that still waits.
\<close>

theorem response_reaches_source:
  assumes "disp_inv d" "seq_free (Suc (length ops)) d" "length ops < 4294967295" "command_buffer b op args"
    and "de_map (m_entryTable d) op = Some q" "isConnected_compCmdSend P q" "isConnected_seqCmdStatus P p"
    and "0 \<le> p" "p < CmdDispatcherSequencePorts" "\<exists>t \<in> set (m_sequenceTracker d). \<not> st_used t"
    and "\<forall>op \<in> set ops. spares (m_seq d) op"
  shows "\<exists>argBuffer outs d1. seqCmdBuff_handler P p b ctx d = Some (compCmdSend_out q op (m_seq d) argBuffer # outs, d1) \<and>
    contents argBuffer = args \<and>
    (\<forall>outs d2. disp_run P ops d1 = Some (outs, d2) \<longrightarrow>
      (\<exists>outs d3. compCmdStat_handler P op (m_seq d) response d2 = Some (outs @ [seqCmdStatus_out p op ctx response], d3) \<and>
        tracked (m_sequenceTracker d3) (m_seq d) = None))"
proof -
  have free: "tracked (m_sequenceTracker d) (m_seq d + of_nat j) = None" if "j < Suc (length ops)" for j
    using assms(2) that by (simp add: seq_free_def)
  have now: "tracked (m_sequenceTracker d) (m_seq d) = None" using free [of 0] by simp
  obtain argBuffer d1 where d1: "seqCmdBuff_handler P p b ctx d = Some ([compCmdSend_out q op (m_seq d) argBuffer,
      OpCodeDispatched op q, Tlm_CommandsDispatched (m_numCmdsDispatched d + 1)], d1)" "contents argBuffer = args"
    "disp_inv d1" "m_seq d1 = m_seq d + 1"
    "tracked (m_sequenceTracker d1) = (tracked (m_sequenceTracker d))(m_seq d \<mapsto> (op, ctx, p))"
    using submit_ok [OF assms(1) now assms(4-7,10)] by blast
  have f1: "seq_free (length ops) d1"
    unfolding seq_free_def d1(4,5) seq_shift
  proof (intro allI impI)
    fix j assume "j < length ops"
    then show "((tracked (m_sequenceTracker d))(m_seq d \<mapsto> (op, ctx, p))) (m_seq d + of_nat (Suc j)) = None"
      using free [of "Suc j"] seq_differs [of j "m_seq d"] assms(3) by simp
  qed
  have "\<exists>outs d3. compCmdStat_handler P op (m_seq d) response d2 = Some (outs @ [seqCmdStatus_out p op ctx response], d3) \<and>
        tracked (m_sequenceTracker d3) (m_seq d) = None" if "disp_run P ops d1 = Some (outs, d2)" for outs d2
  proof -
    have "disp_inv d2 \<and> tracked (m_sequenceTracker d2) (m_seq d) = Some (op, ctx, p)"
      by (rule run_spares [OF d1(3) f1 _ _ assms(11) that]) (use assms(3) d1(5) in simp_all)
    then show ?thesis using status_ok [of d2 "m_seq d" op ctx p P response] assms(7-9) by (auto simp: status_if_connected_def)
  qed
  then show ?thesis using d1(1,2) by blast
qed

text \<open>A dispatcher with one registered opcode and one free place for a waiting command.\<close>

definition small_dispatcher :: CmdDispatcher where
  "small_dispatcher = CmdDispatcher_new\<lparr>m_entryTable := [\<lparr>de_used = True, de_opcode = 7, de_port = 3\<rparr>],
     m_sequenceTracker := [\<lparr>st_used = False, st_seq = 0, st_opCode = 0, st_context = 0, st_callerPort = 0\<rparr>]\<rparr>"

definition all_connected :: disp_ports where
  "all_connected = \<lparr>isConnected_seqCmdStatus = (\<lambda>_. True), isConnected_compCmdSend = (\<lambda>_. True)\<rparr>"

lemma small_facts:
  "disp_inv small_dispatcher" "seq_free n small_dispatcher" "de_map (m_entryTable small_dispatcher) = [7 \<mapsto> 3]"
  "m_seq small_dispatcher = 0"
  by (simp_all add: small_dispatcher_def disp_inv_def seq_free_def CmdDispatcher_new_def)

definition seven_command :: ser_buf where
  "seven_command = \<lparr>m_data = bytes_of_U32 0 @ bytes_of_U32 7 @ [5], m_null = False, m_serLoc = 9, m_deserLoc = 0\<rparr>"

lemma seven_command_buffer: "command_buffer seven_command 7 [5]"
  by (simp add: command_buffer_def seven_command_def ser_wf_def unread_def contents_def)

lemma response_reaches_source_witness:
  "\<exists>argBuffer outs d1. seqCmdBuff_handler all_connected 2 seven_command 9 small_dispatcher =
      Some (compCmdSend_out 3 7 0 argBuffer # outs, d1) \<and> contents argBuffer = [5] \<and>
    (\<forall>outs d2. disp_run all_connected [PingIn 1, CompCmdStat 7 4 CmdResponse_OK] d1 = Some (outs, d2) \<longrightarrow>
      (\<exists>outs d3. compCmdStat_handler all_connected 7 0 BUSY d2 = Some (outs @ [seqCmdStatus_out 2 7 9 BUSY], d3) \<and>
        tracked (m_sequenceTracker d3) 0 = None))"
  using response_reaches_source [OF small_facts(1,2), of "[PingIn 1, CompCmdStat 7 4 CmdResponse_OK]" seven_command 7
      "[5]" 3 all_connected 2 9 BUSY]
  by (simp add: small_facts(3,4) seven_command_buffer all_connected_def CmdDispatcherSequencePorts_def)
    (simp add: small_dispatcher_def)

text \<open>
  A component that never answers costs the dispatcher a place for good. When all places of the
  tracker are taken, every well-formed command for a registered opcode from a source that wants
  responses is refused with \<open>EXECUTION_ERROR\<close> and a warning, nothing is sent and nothing changes,
  so that it stays so until an answer or \<open>CMD_CLEAR_TRACKING\<close> comes.
\<close>

theorem full_tracker_refuses:
  assumes "\<forall>t \<in> set (m_sequenceTracker d). st_used t" "command_buffer b op args"
    and "de_map (m_entryTable d) op = Some q" "isConnected_compCmdSend P q" "isConnected_seqCmdStatus P p"
  shows "seqCmdBuff_handler P p b ctx d = Some ([TooManyCommands op, seqCmdStatus_out p op ctx EXECUTION_ERROR], d)"
proof -
  obtain pkt b' where pkt: "CmdPacket_deserialize CmdPacket_new b = Some (FW_SERIALIZE_OK, pkt, b')" "cmd_opcode pkt = op"
    using CmdPacket_deserialize_ok [of b op args] assms(2) by (auto simp: command_buffer_def)
  obtain i where i: "first_index (\<lambda>e. de_used e \<and> op = de_opcode e) (m_entryTable d) = Some i" "de_port (m_entryTable d ! i) = q"
    using find_entry [where tbl = "m_entryTable d" and op = op] assms(3) by auto
  have "track_command op ctx p d = None"
    using assms(1) first_index_None [of "\<lambda>t. \<not> st_used t" "m_sequenceTracker d"] by (simp add: track_command_def)
  then show ?thesis using pkt i assms(4,5) by (simp add: seqCmdBuff_handler_def status_if_connected_def Let_def)
qed

lemma full_tracker_refuses_witness:
  "seqCmdBuff_handler all_connected 2 seven_command 9 (small_dispatcher\<lparr>m_sequenceTracker := []\<rparr>) =
    Some ([TooManyCommands 7, seqCmdStatus_out 2 7 9 EXECUTION_ERROR], small_dispatcher\<lparr>m_sequenceTracker := []\<rparr>)"
  using full_tracker_refuses [of "small_dispatcher\<lparr>m_sequenceTracker := []\<rparr>" seven_command 7 "[5]" 3 all_connected 2 9]
  by (simp add: small_facts(3) seven_command_buffer all_connected_def)

end
