(* ===== verification/Tlm_Packet.thy ===== *)
theory Tlm_Packet
  imports Com_Buffer Fw_Time
begin

text \<open>
  Fw/Tlm: the telemetry packet (TlmPacket.cpp) that carries the serialized value of one channel
  with its identifier and time tag, and the buffer of that value (TlmBuffer.cpp).
\<close>

section \<open>Buffers\<close>

definition FW_TLM_BUFFER_MAX_SIZE :: nat where
  "FW_TLM_BUFFER_MAX_SIZE = FW_COM_BUFFER_MAX_SIZE - 4 - 4"

definition TlmBuffer_new :: ser_buf where
  "TlmBuffer_new = SerializeBufferBase_new (replicate FW_TLM_BUFFER_MAX_SIZE 0)"

definition TlmBuffer_of :: "U8 list option \<Rightarrow> U32 \<Rightarrow> ser_buf option" where
  "TlmBuffer_of args len = do {
     (stat, b) \<leftarrow> setBuff TlmBuffer_new args len;
     fw_assert (stat = FW_SERIALIZE_OK);
     Some b
   }"

definition TlmBuffer_copy :: "ser_buf \<Rightarrow> ser_buf option" where
  "TlmBuffer_copy other = do {
     (stat, b) \<leftarrow> setBuff TlmBuffer_new (Some (m_data other)) (getBuffLength other);
     fw_assert (stat = FW_SERIALIZE_OK);
     Some b
   }"

definition TlmBuffer_assign :: "ser_buf \<Rightarrow> ser_buf \<Rightarrow> ser_buf option" where
  "TlmBuffer_assign b other = do {
     (stat, b) \<leftarrow> setBuff b (Some (m_data other)) (getBuffLength other);
     fw_assert (stat = FW_SERIALIZE_OK);
     Some b
   }"

section \<open>Packets\<close>

record TlmPacket =
  tp_type :: U32
  tp_id :: U32
  tp_timeTag :: Time
  tp_tlmBuffer :: ser_buf

definition TlmPacket_new :: TlmPacket where
  "TlmPacket_new = \<lparr>tp_type = packet_type_code FW_PACKET_TELEM, tp_id = 0, tp_timeTag = Time_new,
     tp_tlmBuffer = TlmBuffer_new\<rparr>"

definition TlmPacket_serialize :: "TlmPacket \<Rightarrow> ser_buf \<Rightarrow> (SerializeStatus \<times> ser_buf) option" where
  "TlmPacket_serialize p buffer =
     ser_then (ComPacket_serializeBase (tp_type p) buffer) (\<lambda>buffer.
     ser_then (serialize_U32 buffer (tp_id p)) (\<lambda>buffer.
     ser_then (Time_serialize buffer (tp_timeTag p)) (\<lambda>buffer.
     serialize_bytes buffer (m_data (tp_tlmBuffer p)) (getBuffLength (tp_tlmBuffer p)) True)))"

text \<open>
  The remaining bytes of the received buffer are copied into the array of the value buffer without
  a look at its size (\<^const>\<open>None\<close>: the copy runs past the array); the length is checked afterwards.
\<close>

definition TlmPacket_deserialize :: "TlmPacket \<Rightarrow> ser_buf \<Rightarrow> (SerializeStatus \<times> TlmPacket \<times> ser_buf) option" where
  "TlmPacket_deserialize p buffer = do {
     (stat, t, buffer) \<leftarrow> ComPacket_deserializeBase (tp_type p) buffer;
     let p = p\<lparr>tp_type := t\<rparr>;
     if stat \<noteq> FW_SERIALIZE_OK then Some (stat, p, buffer)
     else do {
       (r, buffer) \<leftarrow> deserialize_U32 buffer;
       (case r of
          Inl e \<Rightarrow> Some (e, p, buffer)
        | Inr i \<Rightarrow> do {
            let p = p\<lparr>tp_id := i\<rparr>;
            (stat, tag, buffer) \<leftarrow> Time_deserialize (tp_timeTag p) buffer;
            let p = p\<lparr>tp_timeTag := tag\<rparr>;
            if stat \<noteq> FW_SERIALIZE_OK then Some (stat, p, buffer)
            else do {
              let size = getBuffLeft buffer;
              (r, buffer) \<leftarrow> deserialize_bytes buffer size True;
              (case r of
                 Inl e \<Rightarrow> Some (e, p, buffer)
               | Inr bs \<Rightarrow> do {
                   d \<leftarrow> write_at (m_data (tp_tlmBuffer p)) 0 bs;
                   let (stat, b) = setBuffLen ((tp_tlmBuffer p)\<lparr>m_data := d\<rparr>) size;
                   fw_assert (stat = FW_SERIALIZE_OK);
                   Some (stat, p\<lparr>tp_tlmBuffer := b\<rparr>, buffer)
                 })
            }
          })
     }
   }"

definition TlmPacket_setId :: "U32 \<Rightarrow> TlmPacket \<Rightarrow> TlmPacket" where
  "TlmPacket_setId i p = p\<lparr>tp_id := i\<rparr>"

definition TlmPacket_setTlmBuffer :: "ser_buf \<Rightarrow> TlmPacket \<Rightarrow> TlmPacket option" where
  "TlmPacket_setTlmBuffer buffer p = do {
     b \<leftarrow> TlmBuffer_assign (tp_tlmBuffer p) buffer;
     Some (p\<lparr>tp_tlmBuffer := b\<rparr>)
   }"

definition TlmPacket_setTimeTag :: "Time \<Rightarrow> TlmPacket \<Rightarrow> TlmPacket" where
  "TlmPacket_setTimeTag timeTag p = p\<lparr>tp_timeTag := timeTag\<rparr>"

section \<open>Facts\<close>

text \<open>A telemetry buffer: at most 120 bytes of value in an array of 120 bytes.\<close>

definition tlm_buffer :: "ser_buf \<Rightarrow> bool" where
  "tlm_buffer b \<longleftrightarrow> ser_wf b \<and> length (m_data b) = FW_TLM_BUFFER_MAX_SIZE \<and> \<not> m_null b"

lemma tlm_size [simp]: "FW_TLM_BUFFER_MAX_SIZE = 120"
  by (simp add: FW_TLM_BUFFER_MAX_SIZE_def)

lemma tlm_buffer_new [simp]: "tlm_buffer TlmBuffer_new" "contents TlmBuffer_new = []"
  by (simp_all add: tlm_buffer_def TlmBuffer_new_def SerializeBufferBase_new_def ser_wf_def contents_def)

lemma tlm_assign_ok:
  assumes "tlm_buffer b" "tlm_buffer v"
  obtains b' where "TlmBuffer_assign b v = Some b'" "tlm_buffer b'" "contents b' = contents v"
proof -
  have v: "unat (getBuffLength v) \<le> length (m_data v)" "ser_wf v"
    using assms(2) by (simp_all add: getBuffLength_def tlm_buffer_def ser_wf_def)
  obtain b' where "setBuff b (Some (m_data v)) (getBuffLength v) = Some (FW_SERIALIZE_OK, b')" "ser_wf b'"
    "contents b' = contents v" "length (m_data b') = length (m_data b)"
    using setBuff_ok [of b "getBuffLength v" "m_data v"] assms v
    by (auto simp: tlm_buffer_def contents_def getBuffLength_def)
  moreover from this(1) have "\<not> m_null b'"
    using assms(1) by (auto simp: setBuff_def tlm_buffer_def split: if_splits bind_splits)
  ultimately show thesis
    using assms that [of b'] by (simp add: TlmBuffer_assign_def tlm_buffer_def)
qed

text \<open>The bytes of a packet: descriptor, channel, time tag, value.\<close>

definition TlmPacket_bytes :: "U32 \<Rightarrow> Time \<Rightarrow> U8 list \<Rightarrow> U8 list" where
  "TlmPacket_bytes i t val = bytes_of_U32 (packet_type_code FW_PACKET_TELEM) @ bytes_of_U32 i @ Time_bytes t @ val"

lemma length_Time_bytes [simp]: "length (Time_bytes t) = 11"
  by (simp add: Time_bytes_def)

lemma length_TlmPacket_bytes [simp]: "length (TlmPacket_bytes i t val) = 19 + length val"
  by (simp add: TlmPacket_bytes_def)

section \<open>Writing and reading a packet\<close>

lemma writes_value:
  assumes "tlm_buffer v"
  shows "writes (\<lambda>b. serialize_bytes b (m_data v) (getBuffLength v) True) (contents v)"
proof -
  have "unat (getBuffLength v) \<le> length (m_data v)"
    using assms by (simp add: tlm_buffer_def ser_wf_def getBuffLength_def)
  then show ?thesis
    by (auto simp: writes_def contents_def getBuffLength_def intro: serialize_bytes_take)
qed

lemma TlmPacket_serialize_any:
  assumes "tlm_buffer (tp_tlmBuffer p)" "ser_wf b" "19 + length (contents (tp_tlmBuffer p)) \<le> room b"
  shows "TlmPacket_serialize p b = Some (FW_SERIALIZE_OK, append_to b (bytes_of_U32 (tp_type p) @
    bytes_of_U32 (tp_id p) @ Time_bytes (tp_timeTag p) @ contents (tp_tlmBuffer p)))"
proof -
  have t: "writes (\<lambda>b. Time_serialize b (tp_timeTag p)) (Time_bytes (tp_timeTag p))"
    by (simp add: writes_def time.put_ok)
  have "writes (TlmPacket_serialize p) (bytes_of_U32 (tp_type p) @ bytes_of_U32 (tp_id p) @
      Time_bytes (tp_timeTag p) @ contents (tp_tlmBuffer p))"
    unfolding TlmPacket_serialize_def [abs_def] ComPacket_serializeBase_def
    by (intro writes_then writes_fixed t writes_value assms(1))
  then show ?thesis by (rule writesD) (use assms in simp_all)
qed

lemma TlmPacket_serialize_ok:
  assumes "tlm_buffer (tp_tlmBuffer p)" "tp_type p = packet_type_code FW_PACKET_TELEM"
    and "ser_wf b" "19 + length (contents (tp_tlmBuffer p)) \<le> room b"
  shows "TlmPacket_serialize p b = Some (FW_SERIALIZE_OK,
    append_to b (TlmPacket_bytes (tp_id p) (tp_timeTag p) (contents (tp_tlmBuffer p))))"
  using TlmPacket_serialize_any [OF assms(1,3,4)] assms(2) by (simp add: TlmPacket_bytes_def)

text \<open>
  A value of more than 109 bytes does not fit a Com buffer with its time tag, although
  \<^const>\<open>FW_TLM_BUFFER_MAX_SIZE\<close> allows it: the size leaves room for the descriptor and the
  channel, not for the time.
\<close>

lemma TlmPacket_serialize_full:
  assumes "tlm_buffer (tp_tlmBuffer p)" and "ser_wf b" "19 \<le> room b" "room b < 19 + length (contents (tp_tlmBuffer p))"
  obtains b' where "TlmPacket_serialize p b = Some (FW_SERIALIZE_NO_ROOM_LEFT, b')"
proof -
  let ?v = "tp_tlmBuffer p"
  let ?h = "bytes_of_U32 (tp_type p) @ bytes_of_U32 (tp_id p) @ Time_bytes (tp_timeTag p)"
  have 1: "serialize_U32 b (tp_type p) = Some (FW_SERIALIZE_OK, append_to b (bytes_of_U32 (tp_type p)))"
    "serialize_U32 (append_to b (bytes_of_U32 (tp_type p))) (tp_id p) =
      Some (FW_SERIALIZE_OK, append_to b (bytes_of_U32 (tp_type p) @ bytes_of_U32 (tp_id p)))"
    "Time_serialize (append_to b (bytes_of_U32 (tp_type p) @ bytes_of_U32 (tp_id p))) (tp_timeTag p) =
      Some (FW_SERIALIZE_OK, append_to b ?h)"
    using assms(2,3) by (simp_all add: u32.put_ok time.put_ok append_to_wf append_to_room append_to_append)
  have b: "ser_wf (append_to b ?h)" "room (append_to b ?h) = room b - 19"
    using assms(2,3) by (simp_all add: append_to_wf append_to_room)
  have v: "unat (getBuffLength ?v) = length (contents ?v)" "length (contents ?v) < 2147483648"
    using assms(1) by (auto simp: tlm_buffer_def unat_getBuffLength length_contents ser_wf_def)
  have "m_serLoc (append_to b ?h) + getBuffLength ?v > getBuffCapacity (append_to b ?h)"
    by (rule no_room [OF b(1)]) (use v b(2) assms(3,4) in simp_all)
  then show thesis
    using 1 that by (simp add: TlmPacket_serialize_def ComPacket_serializeBase_def serialize_bytes_def)
qed

lemma Time_deserialize_ok:
  assumes "ser_wf b" "unread b = Time_bytes t @ rest"
  shows "Time_deserialize t0 b = Some (FW_SERIALIZE_OK, t, consume b 11)"
proof -
  have 1: "deserialize_U16 b = Some (Inr (m_timeBase t), consume b 2)"
    using u16.get_ok [OF assms(1)] assms(2) by (simp add: Time_bytes_def)
  have c1: "ser_wf (consume b 2)" "unread (consume b 2) = m_timeContext t # bytes_of_U32 (m_seconds t) @ bytes_of_U32 (m_useconds t) @ rest"
    using assms by (simp_all add: consume_wf consume_unread Time_bytes_def)
  have 2: "deserialize_U8 (consume b 2) = Some (Inr (m_timeContext t), consume b 3)"
    using u8.get_ok [OF c1(1)] c1(2) by (simp add: consume_consume)
  have c2: "ser_wf (consume b 3)" "unread (consume b 3) = bytes_of_U32 (m_seconds t) @ bytes_of_U32 (m_useconds t) @ rest"
    using assms by (simp_all add: consume_wf consume_unread Time_bytes_def)
  have 3: "deserialize_U32 (consume b 3) = Some (Inr (m_seconds t), consume b 7)"
    using u32.get_ok [OF c2] by (simp add: consume_consume)
  have c3: "ser_wf (consume b 7)" "unread (consume b 7) = bytes_of_U32 (m_useconds t) @ rest"
    using assms by (simp_all add: consume_wf consume_unread Time_bytes_def)
  have 4: "deserialize_U32 (consume b 7) = Some (Inr (m_useconds t), consume b 11)"
    using u32.get_ok [OF c3] by (simp add: consume_consume)
  show ?thesis
    by (simp add: Time_deserialize_def 1 2 3 4)
qed

lemma TlmPacket_deserialize_any:
  assumes "ser_wf b" "\<not> m_null b" "unread b = bytes_of_U32 ty @ bytes_of_U32 i @ Time_bytes t @ val" "length val \<le> 120"
  obtains p b' where "TlmPacket_deserialize (TlmPacket_new\<lparr>tp_type := ty0\<rparr>) b = Some (FW_SERIALIZE_OK, p, b')"
    "tp_type p = ty"
    "tp_id p = i" "tp_timeTag p = t" "contents (tp_tlmBuffer p) = val" "unread b' = []"
proof -
  let ?n = "getBuffLeft (consume b 19)"
  have 1: "deserialize_U32 b = Some (Inr ty, consume b 4)"
    using u32.get_ok [OF assms(1)] assms(3) by simp
  have c1: "ser_wf (consume b 4)" "unread (consume b 4) = bytes_of_U32 i @ Time_bytes t @ val"
    using assms by (simp_all add: consume_wf consume_unread)
  have 2: "deserialize_U32 (consume b 4) = Some (Inr i, consume b 8)"
    using u32.get_ok [OF c1] by (simp add: consume_consume)
  have c2: "ser_wf (consume b 8)" "unread (consume b 8) = Time_bytes t @ val"
    using assms by (simp_all add: consume_wf consume_unread)
  have 3: "Time_deserialize t0 (consume b 8) = Some (FW_SERIALIZE_OK, t, consume b 19)" for t0
    using Time_deserialize_ok [OF c2] by (simp add: consume_consume)
  have c3: "ser_wf (consume b 19)" "unread (consume b 19) = val"
    using assms by (simp_all add: consume_wf consume_unread)
  have n: "unat ?n = length val" using unat_getBuffLeft [OF c3(1)] c3(2) by simp
  have 4: "deserialize_bytes (consume b 19) ?n True = Some (Inr val, consume (consume b 19) (length val))"
    using deserialize_bytes_raw_ok [OF c3(1), of ?n] assms(2) n c3(2) by simp
  have w: "write_at (m_data TlmBuffer_new) 0 val = Some (val @ drop (length val) (m_data TlmBuffer_new))"
    "length (m_data TlmBuffer_new) = 120"
    using assms(4) by (simp_all add: write_at_in_bounds TlmBuffer_new_def SerializeBufferBase_new_def)
  have "unat (getBuffCapacity (TlmBuffer_new\<lparr>m_data := val @ drop (length val) (m_data TlmBuffer_new)\<rparr>)) = 120"
    using w(2) assms(4) by (simp add: getBuffCapacity_def)
  then have "setBuffLen (TlmBuffer_new\<lparr>m_data := val @ drop (length val) (m_data TlmBuffer_new)\<rparr>) ?n =
      (FW_SERIALIZE_OK, TlmBuffer_new\<lparr>m_data := val @ drop (length val) (m_data TlmBuffer_new), m_serLoc := ?n, m_deserLoc := 0\<rparr>)"
    using n assms(4) by (simp add: setBuffLen_def word_less_nat_alt)
  then have "TlmPacket_deserialize (TlmPacket_new\<lparr>tp_type := ty0\<rparr>) b = Some (FW_SERIALIZE_OK, \<lparr>tp_type = ty, tp_id = i, tp_timeTag = t,
      tp_tlmBuffer = TlmBuffer_new\<lparr>m_data := val @ drop (length val) (m_data TlmBuffer_new), m_serLoc := ?n, m_deserLoc := 0\<rparr>\<rparr>,
      consume (consume b 19) (length val))"
    by (simp add: TlmPacket_deserialize_def ComPacket_deserializeBase_def 1 2 3 4 w(1) TlmPacket_new_def Let_def)
  then show thesis
    by (rule that) (use n c3 in \<open>simp_all add: contents_def consume_unread\<close>)
qed

end
