(* ===== verification/Tlm_Chan.thy ===== *)
theory Tlm_Chan
  imports Tlm_Packet
begin

text \<open>
  Svc/TlmChan: the telemetry database. Two hash tables take turns: components write the latest
  value of a channel to the active one, and \<open>Run\<close> swaps them and sends the updated channels of the
  other one to the ground. A table is an array of slots with lists of buckets chained through next
  pointers; a pointer is the index of a bucket of the same table.
\<close>

section \<open>State\<close>

definition TLMCHAN_NUM_TLM_HASH_SLOTS :: nat where "TLMCHAN_NUM_TLM_HASH_SLOTS = 15"
definition TLMCHAN_HASH_MOD_VALUE :: U32 where "TLMCHAN_HASH_MOD_VALUE = 99"
definition TLMCHAN_HASH_BUCKETS :: nat where "TLMCHAN_HASH_BUCKETS = 50"

record TlmEntry =
  te_id :: U32
  te_updated :: bool
  te_lastUpdate :: Time
  te_buffer :: ser_buf
  te_next :: "nat option"
  te_used :: bool
  te_bucketNo :: nat

record TlmSet =
  ts_slots :: "nat option list"
  ts_buckets :: "TlmEntry list"
  ts_free :: nat

record TlmChan =
  m_tlmEntries :: "TlmSet list"
  m_activeBuffer :: U32
  tc_comBuffer :: ser_buf
  tc_tlmPacket :: TlmPacket

definition TlmEntry_new :: "nat \<Rightarrow> TlmEntry" where
  "TlmEntry_new entry = \<lparr>te_id = 0, te_updated = False, te_lastUpdate = Time_new, te_buffer = TlmBuffer_new,
     te_next = None, te_used = False, te_bucketNo = entry\<rparr>"

definition TlmSet_new :: TlmSet where
  "TlmSet_new = \<lparr>ts_slots = replicate TLMCHAN_NUM_TLM_HASH_SLOTS None,
     ts_buckets = map TlmEntry_new [0..<TLMCHAN_HASH_BUCKETS], ts_free = 0\<rparr>"

definition TlmChan_new :: TlmChan where
  "TlmChan_new = \<lparr>m_tlmEntries = [TlmSet_new, TlmSet_new], m_activeBuffer = 0,
     tc_comBuffer = ComBuffer_new, tc_tlmPacket = TlmPacket_new\<rparr>"

definition doHash :: "U32 \<Rightarrow> nat" where
  "doHash i = unat (i mod TLMCHAN_HASH_MOD_VALUE) mod TLMCHAN_NUM_TLM_HASH_SLOTS"

abbreviation active_set :: "TlmChan \<Rightarrow> TlmSet" where
  "active_set c \<equiv> m_tlmEntries c ! unat (m_activeBuffer c)"

abbreviation other_set :: "TlmChan \<Rightarrow> TlmSet" where
  "other_set c \<equiv> m_tlmEntries c ! unat (1 - m_activeBuffer c)"

section \<open>Operations\<close>

definition set_entry :: "nat \<Rightarrow> (TlmEntry \<Rightarrow> TlmEntry) \<Rightarrow> TlmSet \<Rightarrow> TlmSet" where
  "set_entry i f s = s\<lparr>ts_buckets := (ts_buckets s)[i := f (ts_buckets s ! i)]\<rparr>"

text \<open>The next bucket of the free list, or the assertion that there is one.\<close>

definition take_bucket :: "TlmSet \<Rightarrow> (nat \<times> TlmSet) option" where
  "take_bucket s = do {
     fw_assert (ts_free s < TLMCHAN_HASH_BUCKETS);
     Some (ts_free s, s\<lparr>ts_free := ts_free s + 1\<rparr>)
   }"

fun recv_search :: "U32 \<Rightarrow> nat \<Rightarrow> nat option \<Rightarrow> nat option \<Rightarrow> TlmSet \<Rightarrow> (nat option \<times> TlmSet) option" where
  "recv_search i 0 entryToUse prevEntry s = Some (entryToUse, s)"
| "recv_search i (Suc n) entryToUse prevEntry s =
     (case entryToUse of
        Some e \<Rightarrow>
          if te_id (ts_buckets s ! e) = i then Some (Some e, s)
          else recv_search i n (te_next (ts_buckets s ! e)) (Some e) s
      | None \<Rightarrow> do {
          (e, s) \<leftarrow> take_bucket s;
          p \<leftarrow> prevEntry;
          let s = set_entry p (te_next_update (\<lambda>_. Some e)) s;
          Some (Some e, set_entry e (te_next_update (\<lambda>_. None)) s)
        })"

definition find_or_add :: "U32 \<Rightarrow> TlmSet \<Rightarrow> (nat option \<times> TlmSet) option" where
  "find_or_add i s = (
     let index = doHash i in
     case ts_slots s ! index of
       Some e \<Rightarrow> recv_search i TLMCHAN_HASH_BUCKETS (Some e) None s
     | None \<Rightarrow> do {
         (e, s) \<leftarrow> take_bucket s;
         let s = s\<lparr>ts_slots := (ts_slots s)[index := Some e]\<rparr>;
         Some (Some e, set_entry e (te_next_update (\<lambda>_. None)) s)
       })"

definition TlmRecv_handler :: "U32 \<Rightarrow> Time \<Rightarrow> ser_buf \<Rightarrow> TlmChan \<Rightarrow> TlmChan option" where
  "TlmRecv_handler i timeTag val c = do {
     (entryToUse, s) \<leftarrow> find_or_add i (active_set c);
     e \<leftarrow> entryToUse;
     b \<leftarrow> TlmBuffer_assign (te_buffer (ts_buckets s ! e)) val;
     let s = set_entry e (\<lambda>x. x\<lparr>te_used := True, te_id := i, te_updated := True, te_lastUpdate := timeTag,
       te_buffer := b\<rparr>) s;
     Some (c\<lparr>m_tlmEntries := (m_tlmEntries c)[unat (m_activeBuffer c) := s]\<rparr>)
   }"

fun get_search :: "U32 \<Rightarrow> nat \<Rightarrow> nat option \<Rightarrow> TlmSet \<Rightarrow> nat option" where
  "get_search i 0 entryToUse s = entryToUse"
| "get_search i (Suc n) entryToUse s =
     (case entryToUse of
        Some e \<Rightarrow>
          if te_id (ts_buckets s ! e) = i then Some e
          else get_search i n (te_next (ts_buckets s ! e)) s
      | None \<Rightarrow> None)"

text \<open>\<open>TlmGet\<close> fills the time and the buffer of the caller, which are its arguments and results.\<close>

definition TlmGet_handler :: "U32 \<Rightarrow> Time \<Rightarrow> ser_buf \<Rightarrow> TlmChan \<Rightarrow> (Time \<times> ser_buf) option" where
  "TlmGet_handler i timeTag val c = (
     let s = active_set c in
     case get_search i TLMCHAN_HASH_BUCKETS (ts_slots s ! doHash i) s of
       Some e \<Rightarrow> do {
         v \<leftarrow> TlmBuffer_assign val (te_buffer (ts_buckets s ! e));
         Some (te_lastUpdate (ts_buckets s ! e), v)
       }
     | None \<Rightarrow> Some (timeTag, resetSer val))"

text \<open>The part of \<open>Run\<close> under the lock, and one turn of the loop after it.\<close>

definition Run_swap :: "TlmChan \<Rightarrow> TlmChan" where
  "Run_swap c = (
     let c = c\<lparr>m_activeBuffer := 1 - m_activeBuffer c\<rparr>;
         s = active_set c in
     c\<lparr>m_tlmEntries := (m_tlmEntries c)[unat (m_activeBuffer c) :=
       s\<lparr>ts_buckets := map (te_updated_update (\<lambda>_. False)) (ts_buckets s)\<rparr>]\<rparr>)"

definition Run_entry :: "nat \<Rightarrow> TlmChan \<Rightarrow> (U8 list list \<times> TlmChan) option" where
  "Run_entry entry c = (
     let s = other_set c; e = ts_buckets s ! entry in
     if te_updated e \<and> te_used e then do {
       let p = TlmPacket_setTimeTag (te_lastUpdate e) (TlmPacket_setId (te_id e) (tc_tlmPacket c));
       p \<leftarrow> TlmPacket_setTlmBuffer (te_buffer e) p;
       (stat, com) \<leftarrow> TlmPacket_serialize p (resetSer (tc_comBuffer c));
       fw_assert (stat = FW_SERIALIZE_OK);
       Some ([contents com],
         c\<lparr>tc_tlmPacket := p, tc_comBuffer := com,
           m_tlmEntries := (m_tlmEntries c)[unat (1 - m_activeBuffer c) := set_entry entry (te_updated_update (\<lambda>_. False)) s]\<rparr>)
     }
     else Some ([], c))"

fun Run_loop :: "nat list \<Rightarrow> TlmChan \<Rightarrow> (U8 list list \<times> TlmChan) option" where
  "Run_loop [] c = Some ([], c)"
| "Run_loop (entry # rest) c = do {
     (outs, c) \<leftarrow> Run_entry entry c;
     (outs', c) \<leftarrow> Run_loop rest c;
     Some (outs @ outs', c)
   }"

definition Run_handler :: "bool \<Rightarrow> TlmChan \<Rightarrow> (U8 list list \<times> TlmChan) option" where
  "Run_handler connected c =
     (if \<not> connected then Some ([], c) else Run_loop [0..<TLMCHAN_HASH_BUCKETS] (Run_swap c))"

text \<open>The key goes back out of \<open>pingOut\<close>.\<close>

definition tlm_pingIn_handler :: "U32 \<Rightarrow> TlmChan \<Rightarrow> U32 \<times> TlmChan" where
  "tlm_pingIn_handler key c = (key, c)"

end
