(* ===== verification/Latest_Values.thy ===== *)
theory Latest_Values
  imports Prelude "HOL-Library.AList"
begin

text \<open>
  The interface of a component that keeps the latest value under each of a bounded number of keys:
  storing updates the association list of its contents or, when a new key finds no room, fails.
  The telemetry tables and the parameter database provide it; what a sequence of stores leaves is
  derived here once.
\<close>

fun store_all :: "('k \<Rightarrow> 'w \<Rightarrow> 's \<Rightarrow> 's option) \<Rightarrow> ('k \<times> 'w) list \<Rightarrow> 's \<Rightarrow> 's option" where
  "store_all store [] s = Some s"
| "store_all store ((k, w) # kws) s = do {
     s \<leftarrow> store k w s;
     store_all store kws s
   }"

lemma update_keys: "fst ` set (AList.update k v al) = insert k (fst ` set al)"
  by (induction al) auto

lemma length_update: "length (AList.update k v al) = (if k \<in> fst ` set al then length al else Suc (length al))"
  by (induction al) auto

lemma update_nth:
  "distinct (map fst al) \<Longrightarrow> e < length al \<Longrightarrow> fst (al ! e) = k \<Longrightarrow> al[e := (k, v)] = AList.update k v al"
proof (induction al arbitrary: e)
  case (Cons a al)
  show ?case
  proof (cases e)
    case 0
    with Cons.prems show ?thesis by (cases a) simp
  next
    case (Suc n)
    then have "fst a \<noteq> k" using Cons.prems by auto
    then show ?thesis using Cons Suc by (cases a) simp
  qed
qed simp

lemma update_new: "k \<notin> fst ` set al \<Longrightarrow> AList.update k v al = al @ [(k, v)]"
  by (induction al) auto

locale latest_values =
  fixes store :: "'k \<Rightarrow> 'w \<Rightarrow> 's \<Rightarrow> 's option"
    and valid :: "'w \<Rightarrow> bool"
    and val :: "'w \<Rightarrow> 'v"
    and content :: "'s \<Rightarrow> ('k \<times> 'v) list"
    and inv :: "'s \<Rightarrow> bool"
    and capacity :: nat
  assumes keys: "inv s \<Longrightarrow> distinct (map fst (content s))"
    and bounded: "inv s \<Longrightarrow> length (content s) \<le> capacity"
    and store_ok: "inv s \<Longrightarrow> valid w \<Longrightarrow> k \<in> fst ` set (content s) \<or> length (content s) < capacity \<Longrightarrow>
      \<exists>s'. store k w s = Some s' \<and> inv s' \<and> content s' = AList.update k (val w) (content s)"
    and store_full: "inv s \<Longrightarrow> valid w \<Longrightarrow> k \<notin> fst ` set (content s) \<Longrightarrow> length (content s) = capacity \<Longrightarrow>
      store k w s = None"
begin

lemma store_cases:
  assumes "inv s" "valid w"
  obtains (ok) s' where "k \<in> fst ` set (content s) \<or> length (content s) < capacity" "store k w s = Some s'" "inv s'"
      "content s' = AList.update k (val w) (content s)"
  | (full) "k \<notin> fst ` set (content s)" "length (content s) = capacity" "store k w s = None"
  using assms store_ok store_full bounded by (metis antisym_conv2)

lemma card_keys: "inv s \<Longrightarrow> card (fst ` set (content s)) = length (content s)"
  using keys by (metis distinct_card length_map list.set_map)

lemma store_all_content:
  assumes "inv s" "\<forall>w \<in> snd ` set kws. valid w" "store_all store kws s = Some s'"
  shows "inv s' \<and> content s' = AList.updates (map fst kws) (map (val \<circ> snd) kws) (content s)"
  using assms
proof (induction kws arbitrary: s)
  case (Cons kw kws)
  obtain k w where kw: "kw = (k, w)" by fastforce
  then obtain s1 where s1: "store k w s = Some s1" "store_all store kws s1 = Some s'"
    using Cons.prems(3) by (auto split: bind_splits)
  have v: "valid w" using Cons.prems(2) kw by simp
  show ?case
  proof (cases rule: store_cases [OF Cons.prems(1) v, where k = k, case_names ok full])
    case (ok s2)
    then show ?thesis using s1 Cons.IH [of s1] Cons.prems(2) kw by simp
  next
    case full
    then show ?thesis using s1 by simp
  qed
qed simp

lemma store_all_map:
  assumes "inv s" "\<forall>w \<in> snd ` set kws. valid w" "store_all store kws s = Some s'"
  shows "map_of (content s') = map_of (content s) ++ map_of (rev (map (\<lambda>(k, w). (k, val w)) kws))"
proof -
  have z: "zip (map fst kws) (map (val \<circ> snd) kws) = map (\<lambda>(k, w). (k, val w)) kws"
    by (induction kws) auto
  show ?thesis
    using store_all_content [OF assms] by (simp add: updates_conv' map_upds_def z)
qed

lemma store_all_fails:
  assumes "inv s" "\<forall>w \<in> snd ` set kws. valid w"
  shows "store_all store kws s = None \<longleftrightarrow> capacity < card (fst ` set (content s) \<union> fst ` set kws)"
  using assms
proof (induction kws arbitrary: s)
  case Nil
  then show ?case using bounded [of s] card_keys [of s] by simp
next
  case (Cons kw kws)
  obtain k w where kw: "kw = (k, w)" by fastforce
  have v: "valid w" using Cons.prems(2) kw by simp
  show ?case
  proof (cases rule: store_cases [OF Cons.prems(1) v, where k = k, case_names ok full])
    case (ok s2)
    then show ?thesis using Cons.IH [of s2] Cons.prems(2) kw by (simp add: update_keys)
  next
    case full
    have "card (fst ` set (content s)) < card (fst ` set (content s) \<union> fst ` set (kw # kws))"
      by (rule psubset_card_mono) (use full(1) kw in auto)
    then show ?thesis using full kw card_keys [OF Cons.prems(1)] by simp
  qed
qed

end

end
