(* ===== verification/Tlm_Table.thy ===== *)
theory Tlm_Table
  imports Tlm_Chan Latest_Values
begin

text \<open>
  The hash table of TlmChan is an association list: the buckets in use, in the order in which they
  were taken, with the latest value of their channel. Storing a value is the update of the list and
  looking a channel up is the lookup in it, whatever the hash function spreads over the slots.
\<close>

section \<open>Chains\<close>

text \<open>The pointer \<open>p\<close> leads through the buckets \<open>xs\<close> to a null pointer.\<close>

primrec Chain :: "TlmEntry list \<Rightarrow> nat option \<Rightarrow> nat list \<Rightarrow> bool" where
  "Chain bs p [] \<longleftrightarrow> p = None"
| "Chain bs p (x # xs) \<longleftrightarrow> p = Some x \<and> x < length bs \<and> Chain bs (te_next (bs ! x)) xs"

lemma Chain_cong:
  assumes "length bs' = length bs" "\<And>x. x \<in> set xs \<Longrightarrow> te_next (bs' ! x) = te_next (bs ! x)"
  shows "Chain bs' p xs \<longleftrightarrow> Chain bs p xs"
  using assms(2) by (induction xs arbitrary: p) (simp_all add: assms(1))

lemma Chain_snoc:
  assumes "Chain bs p xs" "xs \<noteq> []" "length bs' = length bs" "k < length bs"
    and "\<And>x. x \<in> set (butlast xs) \<Longrightarrow> te_next (bs' ! x) = te_next (bs ! x)"
    and "te_next (bs' ! last xs) = Some k" "te_next (bs' ! k) = None"
  shows "Chain bs' p (xs @ [k])"
  using assms
proof (induction xs arbitrary: p)
  case (Cons x xs)
  then show ?case by (cases "xs = []") simp_all
qed simp

lemma Chain_Some: "Chain bs (Some e) xs \<Longrightarrow> \<exists>ys. xs = e # ys \<and> e < length bs \<and> Chain bs (te_next (bs ! e)) ys"
  by (cases xs) auto

text \<open>What the two searches do on a chain.\<close>

lemma recv_search_found:
  assumes "Chain (ts_buckets s) p (xs @ x # ys)" "\<forall>y \<in> set xs. te_id (ts_buckets s ! y) \<noteq> i"
    "te_id (ts_buckets s ! x) = i" "length xs < n"
  shows "recv_search i n p prev s = Some (Some x, s)"
  using assms
proof (induction xs arbitrary: p prev n)
  case Nil
  then show ?case by (cases n) simp_all
next
  case (Cons y xs)
  then show ?case by (cases n) simp_all
qed

lemma recv_search_end:
  assumes "Chain (ts_buckets s) p xs" "\<forall>y \<in> set xs. te_id (ts_buckets s ! y) \<noteq> i" "length xs < n"
  shows "recv_search i n p (Some q) s = recv_search i (n - length xs) None (Some (last (q # xs))) s"
  using assms
proof (induction xs arbitrary: p q n)
  case (Cons y xs)
  then obtain m where "n = Suc m" by (cases n) simp_all
  with Cons show ?case by simp
qed simp

lemma recv_search_all:
  assumes "Chain (ts_buckets s) p xs" "\<forall>y \<in> set xs. te_id (ts_buckets s ! y) \<noteq> i" "length xs = n"
  shows "recv_search i n p prev s = Some (None, s)"
  using assms by (induction xs arbitrary: p prev n) auto

lemma get_search_found:
  assumes "Chain (ts_buckets s) p (xs @ x # ys)" "\<forall>y \<in> set xs. te_id (ts_buckets s ! y) \<noteq> i"
    "te_id (ts_buckets s ! x) = i" "length xs < n"
  shows "get_search i n p s = Some x"
  using assms
proof (induction xs arbitrary: p n)
  case Nil
  then show ?case by (cases n) simp_all
next
  case (Cons y xs)
  then show ?case by (cases n) simp_all
qed

lemma get_search_none:
  assumes "Chain (ts_buckets s) p xs" "\<forall>y \<in> set xs. te_id (ts_buckets s ! y) \<noteq> i" "length xs \<le> n"
  shows "get_search i n p s = None"
  using assms
proof (induction xs arbitrary: p n)
  case Nil
  then show ?case by (cases n) simp_all
next
  case (Cons y xs)
  then show ?case by (cases n) simp_all
qed

section \<open>The table as an association list\<close>

definition entry_view :: "TlmEntry \<Rightarrow> U32 \<times> bool \<times> Time \<times> U8 list" where
  "entry_view e = (te_id e, te_updated e, te_lastUpdate e, contents (te_buffer e))"

definition set_view :: "TlmSet \<Rightarrow> (U32 \<times> bool \<times> Time \<times> U8 list) list" where
  "set_view s = map entry_view (take (ts_free s) (ts_buckets s))"

definition chained :: "TlmSet \<Rightarrow> (nat \<Rightarrow> nat list) \<Rightarrow> bool" where
  "chained s C \<longleftrightarrow> (\<forall>h < TLMCHAN_NUM_TLM_HASH_SLOTS. Chain (ts_buckets s) (ts_slots s ! h) (C h) \<and> distinct (C h) \<and>
     set (C h) = {x. x < ts_free s \<and> doHash (te_id (ts_buckets s ! x)) = h})"

definition set_ok :: "TlmSet \<Rightarrow> bool" where
  "set_ok s \<longleftrightarrow> length (ts_slots s) = TLMCHAN_NUM_TLM_HASH_SLOTS \<and> length (ts_buckets s) = TLMCHAN_HASH_BUCKETS \<and>
     ts_free s \<le> TLMCHAN_HASH_BUCKETS \<and> distinct (map fst (set_view s)) \<and>
     (\<forall>x < TLMCHAN_HASH_BUCKETS. (te_used (ts_buckets s ! x) \<longleftrightarrow> x < ts_free s) \<and>
       (te_updated (ts_buckets s ! x) \<longrightarrow> x < ts_free s) \<and> tlm_buffer (te_buffer (ts_buckets s ! x)))"

definition set_inv :: "TlmSet \<Rightarrow> bool" where
  "set_inv s \<longleftrightarrow> set_ok s \<and> (\<exists>C. chained s C)"

lemma table_sizes [simp]: "TLMCHAN_NUM_TLM_HASH_SLOTS = 15" "TLMCHAN_HASH_BUCKETS = 50"
  by (simp_all add: TLMCHAN_NUM_TLM_HASH_SLOTS_def TLMCHAN_HASH_BUCKETS_def)

lemma doHash_lt [simp]: "doHash i < 15"
  by (simp add: doHash_def)

lemma length_set_view: "set_ok s \<Longrightarrow> length (set_view s) = ts_free s"
  by (simp add: set_ok_def set_view_def)

lemma set_view_nth: "set_ok s \<Longrightarrow> x < ts_free s \<Longrightarrow> set_view s ! x = entry_view (ts_buckets s ! x)"
  by (simp add: set_ok_def set_view_def)

lemma fst_entry_view [simp]: "fst (entry_view e) = te_id e"
  by (simp add: entry_view_def)

lemma set_inv_new: "set_inv TlmSet_new" "set_view TlmSet_new = []"
proof -
  have "chained TlmSet_new (\<lambda>_. [])"
    by (simp add: chained_def TlmSet_new_def)
  then show "set_inv TlmSet_new" "set_view TlmSet_new = []"
    by (auto simp: set_inv_def set_ok_def set_view_def TlmSet_new_def TlmEntry_new_def)
qed

text \<open>The chain of a slot, split at the bucket of a channel that is in the table.\<close>

lemma view_id: "set_ok s \<Longrightarrow> x < ts_free s \<Longrightarrow> map fst (set_view s) ! x = te_id (ts_buckets s ! x)"
  by (simp add: length_set_view set_view_nth)

lemma view_ids: "set_ok s \<Longrightarrow> fst ` set (set_view s) = (\<lambda>x. te_id (ts_buckets s ! x)) ` {..<ts_free s}"
  by (force simp: set_ok_def set_view_def in_set_conv_nth image_iff)

lemma view_no_index: "set_ok s \<Longrightarrow> i \<notin> fst ` set (set_view s) \<Longrightarrow> x < ts_free s \<Longrightarrow> te_id (ts_buckets s ! x) \<noteq> i"
  by (auto simp: view_ids)

lemma view_index_unique:
  assumes "set_ok s" "x < ts_free s" "y < ts_free s" "te_id (ts_buckets s ! x) = te_id (ts_buckets s ! y)"
  shows "x = y"
proof -
  have "distinct (map fst (set_view s))" "map fst (set_view s) ! x = map fst (set_view s) ! y"
    using assms by (simp_all add: view_id del: nth_map) (simp add: set_ok_def)
  then show ?thesis
    using assms(1-3) nth_eq_iff_index_eq [of "map fst (set_view s)" x y] by (simp add: length_set_view)
qed

lemma chain_split:
  assumes "set_ok s" "chained s C" "e < ts_free s" "te_id (ts_buckets s ! e) = i"
  obtains xs ys where "C (doHash i) = xs @ e # ys" "\<forall>y \<in> set xs. te_id (ts_buckets s ! y) \<noteq> i" "length xs < 50"
proof -
  have C: "distinct (C (doHash i))" "set (C (doHash i)) = {x. x < ts_free s \<and> doHash (te_id (ts_buckets s ! x)) = doHash i}"
    using assms(2) by (simp_all add: chained_def)
  then have "e \<in> set (C (doHash i))" using assms(3,4) by simp
  then obtain xs ys where xs: "C (doHash i) = xs @ e # ys" by (auto dest: split_list)
  have "length (C (doHash i)) \<le> 50"
  proof -
    have "set (C (doHash i)) \<subseteq> {..<50}" using C(2) assms(1) by (auto simp: set_ok_def)
    then have "card (set (C (doHash i))) \<le> card {..<50 :: nat}" by (rule card_mono [rotated]) simp
    then show ?thesis using distinct_card [OF C(1)] by simp
  qed
  moreover have "te_id (ts_buckets s ! y) \<noteq> i" if "y \<in> set xs" for y
  proof
    assume "te_id (ts_buckets s ! y) = i"
    moreover have "y < ts_free s" using that C(2) xs by auto
    ultimately have "y = e" using view_index_unique [OF assms(1), of y e] assms(3,4) by simp
    then show False using that C(1) xs by simp
  qed
  ultimately show thesis using xs that by simp
qed

section \<open>Storing a value\<close>

abbreviation write_entry :: "U32 \<Rightarrow> Time \<Rightarrow> ser_buf \<Rightarrow> nat \<Rightarrow> TlmSet \<Rightarrow> TlmSet" where
  "write_entry i t b e s \<equiv> set_entry e (\<lambda>x. x\<lparr>te_used := True, te_id := i, te_updated := True, te_lastUpdate := t,
     te_buffer := b\<rparr>) s"

lemma find_known:
  assumes "set_inv s" "e < ts_free s" "te_id (ts_buckets s ! e) = i"
  shows "find_or_add i s = Some (Some e, s)"
proof -
  obtain C where C: "set_ok s" "chained s C" using assms(1) by (auto simp: set_inv_def)
  obtain xs ys where xs: "C (doHash i) = xs @ e # ys" "\<forall>y \<in> set xs. te_id (ts_buckets s ! y) \<noteq> i" "length xs < 50"
    by (rule chain_split [OF C assms(2,3)])
  have ch: "Chain (ts_buckets s) (ts_slots s ! doHash i) (xs @ e # ys)"
    using C(2) by (simp add: chained_def flip: xs(1))
  then obtain p where "ts_slots s ! doHash i = Some p" by (cases xs) auto
  then show ?thesis
    using recv_search_found [OF ch xs(2) assms(3) xs(3)] by (simp add: find_or_add_def Let_def)
qed

lemma known_ok:
  assumes "set_inv s" "e < ts_free s" "te_id (ts_buckets s ! e) = i" "tlm_buffer b"
  shows "set_inv (write_entry i t b e s)"
    "set_view (write_entry i t b e s) = AList.update i (True, t, contents b) (set_view s)"
proof -
  obtain C where C: "set_ok s" "chained s C" using assms(1) by (auto simp: set_inv_def)
  let ?s = "write_entry i t b e s"
  have e: "e < length (ts_buckets s)" using assms(2) C(1) by (simp add: set_ok_def)
  then have bs: "length (ts_buckets ?s) = length (ts_buckets s)" "ts_free ?s = ts_free s" "ts_slots ?s = ts_slots s"
    "te_next (ts_buckets ?s ! x) = te_next (ts_buckets s ! x)" "te_id (ts_buckets ?s ! x) = te_id (ts_buckets s ! x)" for x
    using assms(3) by (auto simp: set_entry_def nth_list_update)
  from e have "set_view ?s = (set_view s)[e := (i, True, t, contents b)]"
    using assms(2) by (simp add: set_view_def set_entry_def take_update_swap map_update entry_view_def)
  then show v: "set_view ?s = AList.update i (True, t, contents b) (set_view s)"
    using update_nth [of "set_view s" e i] C(1) assms(2,3) by (simp add: length_set_view set_view_nth) (simp add: set_ok_def)
  have "set_ok ?s"
    using C(1) assms(2,4) bs v e by (auto simp: set_ok_def set_entry_def nth_list_update distinct_update)
  moreover have "chained ?s C"
    using C(2) bs Chain_cong [of "ts_buckets ?s" "ts_buckets s"] by (simp add: chained_def)
  ultimately show "set_inv ?s" by (auto simp: set_inv_def)
qed

text \<open>Taking a bucket for a new channel, seen from its result.\<close>

lemma new_ok:
  assumes "set_ok s" "chained s C" "ts_free s < 50" "i \<notin> fst ` set (set_view s)" "tlm_buffer b"
    and len: "length (ts_buckets s') = 50" "length (ts_slots s') = 15" "ts_free s' = ts_free s + 1"
    and other: "\<And>x. x \<noteq> ts_free s \<Longrightarrow> x < 50 \<Longrightarrow> entry_view (ts_buckets s' ! x) = entry_view (ts_buckets s ! x) \<and>
        te_used (ts_buckets s' ! x) = te_used (ts_buckets s ! x) \<and> te_buffer (ts_buckets s' ! x) = te_buffer (ts_buckets s ! x)"
    and here: "entry_view (ts_buckets s' ! ts_free s) = (i, True, t, contents b)"
      "te_used (ts_buckets s' ! ts_free s)" "te_buffer (ts_buckets s' ! ts_free s) = b" "te_next (ts_buckets s' ! ts_free s) = None"
    and link: "\<And>x. x < 50 \<Longrightarrow> x \<noteq> ts_free s \<Longrightarrow> C (doHash i) = [] \<or> x \<noteq> last (C (doHash i)) \<Longrightarrow>
        te_next (ts_buckets s' ! x) = te_next (ts_buckets s ! x)"
      "C (doHash i) \<noteq> [] \<Longrightarrow> te_next (ts_buckets s' ! last (C (doHash i))) = Some (ts_free s)"
    and slots: "ts_slots s' = (if C (doHash i) = [] then (ts_slots s)[doHash i := Some (ts_free s)] else ts_slots s)"
  shows "set_inv s'" "set_view s' = AList.update i (True, t, contents b) (set_view s)"
proof -
  let ?k = "ts_free s" and ?h = "doHash i"
  have l50: "length (ts_buckets s) = 50" "length (ts_slots s) = 15" using assms(1) by (simp_all add: set_ok_def)
  have other_id: "te_id (ts_buckets s' ! x) = te_id (ts_buckets s ! x)" if "x \<noteq> ?k" "x < 50" for x
    using other [OF that] by (simp add: entry_view_def)
  have "take ?k (map entry_view (ts_buckets s')) = take ?k (map entry_view (ts_buckets s))"
    using other len l50 assms(3) by (auto intro!: nth_equalityI)
  then have "set_view s' = set_view s @ [(i, True, t, contents b)]"
    using here(1) len assms(3) by (simp add: set_view_def take_Suc_conv_app_nth take_map)
  then show v: "set_view s' = AList.update i (True, t, contents b) (set_view s)"
    by (simp add: update_new [OF assms(4)])
  have "(te_used (ts_buckets s' ! x) \<longleftrightarrow> x < ts_free s') \<and> (te_updated (ts_buckets s' ! x) \<longrightarrow> x < ts_free s') \<and>
      tlm_buffer (te_buffer (ts_buckets s' ! x))" if "x < 50" for x
    using assms(1,5) here other [of x] len(3) that by (cases "x = ?k") (auto simp: set_ok_def entry_view_def)
  then have ok: "set_ok s'"
    using assms(1,3) len v by (simp add: set_ok_def distinct_update)
  have C: "Chain (ts_buckets s) (ts_slots s ! h) (C h)" "distinct (C h)"
    "set (C h) = {x. x < ?k \<and> doHash (te_id (ts_buckets s ! x)) = h}" if "h < 15" for h
    using assms(2) that by (simp_all add: chained_def)
  have ih: "te_id (ts_buckets s' ! ?k) = i" using here(1) by (simp add: entry_view_def)
  have sets: "{x. x < ts_free s' \<and> doHash (te_id (ts_buckets s' ! x)) = h} =
      {x. x < ?k \<and> doHash (te_id (ts_buckets s ! x)) = h} \<union> (if h = ?h then {?k} else {})" for h
    using other_id ih len(3) assms(3) by (auto simp: less_Suc_eq)
  have "chained s' (C(?h := C ?h @ [?k]))"
    unfolding chained_def table_sizes
  proof (intro allI impI conjI)
    fix h assume h: "h < (15 :: nat)"
    let ?C = "C(?h := C ?h @ [?k])"
    show "distinct (?C h)" using C(2,3) [OF h] h by auto
    show "set (?C h) = {x. x < ts_free s' \<and> doHash (te_id (ts_buckets s' ! x)) = h}"
      unfolding sets using C(3) [OF h] by auto
    show "Chain (ts_buckets s') (ts_slots s' ! h) (?C h)"
    proof (cases "h = ?h")
      case True
      have less: "x \<noteq> ?k \<and> x < 50" if "x \<in> set (C ?h)" for x using that C(3) [of ?h] assms(3) by auto
      show ?thesis
      proof (cases "C ?h = []")
        case True
        then show ?thesis using \<open>h = ?h\<close> here(4) slots len(1) assms(3) l50 by simp
      next
        case False
        have "Chain (ts_buckets s') (ts_slots s ! ?h) (C ?h @ [?k])"
        proof (rule Chain_snoc [OF C(1) False])
          fix x assume x: "x \<in> set (butlast (C ?h))"
          then have "x \<noteq> last (C ?h)"
            using False C(2) [of ?h] by (metis append_butlast_last_id distinct_append doHash_lt IntI emptyE list.set_intros(1))
          then show "te_next (ts_buckets s' ! x) = te_next (ts_buckets s ! x)"
            using link(1) less x in_set_butlastD [OF x] by blast
        qed (use len l50 assms(3) link(2) False here(4) in simp_all)
        then show ?thesis using True False slots by simp
      qed
    next
      case False
      have "te_next (ts_buckets s' ! x) = te_next (ts_buckets s ! x)" if "x \<in> set (C h)" for x
      proof (rule link(1))
        show "x < 50" "x \<noteq> ?k" using that C(3) [OF h] assms(3) by auto
        show "C ?h = [] \<or> x \<noteq> last (C ?h)"
          using that C(3) [OF h] C(3) [of ?h] False last_in_set [of "C ?h"] by auto
      qed
      then show ?thesis
        using Chain_cong [of "ts_buckets s'" "ts_buckets s" "C h"] C(1) [OF h] False len l50 slots by simp
    qed
  qed
  with ok show "set_inv s'" by (auto simp: set_inv_def)
qed

lemma chainedD: "chained s C \<Longrightarrow> Chain (ts_buckets s) (ts_slots s ! doHash i) (C (doHash i))"
  by (simp add: chained_def)

lemma chain_free:
  assumes "set_ok s" "chained s C"
  shows "length (C (doHash i)) \<le> ts_free s"
proof -
  have C: "distinct (C (doHash i))" "set (C (doHash i)) \<subseteq> {..<ts_free s}"
    using assms(2) by (auto simp: chained_def)
  have "card (set (C (doHash i))) \<le> card {..<ts_free s}" by (rule card_mono) (use C in simp_all)
  then show ?thesis using distinct_card [OF C(1)] by simp
qed

text \<open>A channel that is not in the table, with its slot empty or not, and the table full or not.\<close>

lemma recv_search_new:
  assumes "set_inv s" "chained s C" "i \<notin> fst ` set (set_view s)" "ts_slots s ! doHash i = Some p"
  shows "\<exists>n. recv_search i 50 (Some p) None s = recv_search i n None (Some (last (C (doHash i)))) s \<and>
    C (doHash i) \<noteq> [] \<and> (n = 0 \<longleftrightarrow> length (C (doHash i)) = 50)"
proof -
  have ok: "set_ok s" using assms(1) by (simp add: set_inv_def)
  have C: "Chain (ts_buckets s) (Some p) (C (doHash i))"
    "\<forall>y \<in> set (C (doHash i)). te_id (ts_buckets s ! y) \<noteq> i"
    using assms(2,4) chainedD [OF assms(2), of i] view_no_index [OF ok assms(3)] by (auto simp: chained_def)
  then obtain ys where ys: "C (doHash i) = p # ys" "Chain (ts_buckets s) (te_next (ts_buckets s ! p)) ys"
    by (auto dest: Chain_Some)
  have len: "length (p # ys) \<le> 50"
    using chain_free [OF ok assms(2), of i] ok ys(1) by (simp add: set_ok_def)
  have "recv_search i 50 (Some p) None s = recv_search i 49 (te_next (ts_buckets s ! p)) (Some p) s"
    using C(2) ys(1) by (simp add: numeral_eq_Suc)
  also have "\<dots> = recv_search i (49 - length ys) None (Some (last (p # ys))) s"
  proof (cases "length ys < 49")
    case True
    show ?thesis by (rule recv_search_end [OF ys(2) _ True]) (use C(2) ys(1) in simp)
  next
    case False
    then have l: "length ys = 49" using len by simp
    have "recv_search i 49 (te_next (ts_buckets s ! p)) (Some p) s = Some (None, s)"
      by (rule recv_search_all [OF ys(2) _ l]) (use C(2) ys(1) in simp)
    then show ?thesis using l by simp
  qed
  finally show ?thesis using ys(1) len by (intro exI [of _ "49 - length ys"]) auto
qed

lemma find_full:
  assumes "set_inv s" "i \<notin> fst ` set (set_view s)" "ts_free s = 50" "find_or_add i s = Some (e, s')"
  shows "e = None"
proof -
  obtain C where C: "set_ok s" "chained s C" using assms(1) by (auto simp: set_inv_def)
  obtain p where p: "ts_slots s ! doHash i = Some p"
    using assms(3,4) by (cases "ts_slots s ! doHash i") (simp_all add: find_or_add_def take_bucket_def)
  obtain n where n: "recv_search i 50 (Some p) None s = recv_search i n None (Some (last (C (doHash i)))) s"
    using recv_search_new [OF assms(1) C(2) assms(2) p] by blast
  then show ?thesis
    using assms(3,4) p by (cases n) (simp_all add: find_or_add_def take_bucket_def)
qed

lemma find_new:
  assumes "set_inv s" "i \<notin> fst ` set (set_view s)" "ts_free s < 50" "tlm_buffer b"
  shows "\<exists>s1. find_or_add i s = Some (Some (ts_free s), s1) \<and> tlm_buffer (te_buffer (ts_buckets s1 ! ts_free s)) \<and>
    set_inv (write_entry i t b (ts_free s) s1) \<and>
    set_view (write_entry i t b (ts_free s) s1) = AList.update i (True, t, contents b) (set_view s)"
proof -
  obtain C where C: "set_ok s" "chained s C" using assms(1) by (auto simp: set_inv_def)
  let ?k = "ts_free s" and ?h = "doHash i"
  have l50: "length (ts_buckets s) = 50" "length (ts_slots s) = 15" "tlm_buffer (te_buffer (ts_buckets s ! ?k))"
    using C(1) assms(3) by (simp_all add: set_ok_def)
  show ?thesis
  proof (cases "ts_slots s ! ?h")
    case None
    then have e: "C ?h = []" using chainedD [OF C(2), of i] by (cases "C ?h") simp_all
    let ?s = "set_entry ?k (te_next_update (\<lambda>_. None)) (s\<lparr>ts_free := ?k + 1, ts_slots := (ts_slots s)[?h := Some ?k]\<rparr>)"
    have "find_or_add i s = Some (Some ?k, ?s)"
      using None assms(3) by (simp add: find_or_add_def take_bucket_def)
    moreover have "set_inv (write_entry i t b ?k ?s)"
      "set_view (write_entry i t b ?k ?s) = AList.update i (True, t, contents b) (set_view s)"
      by (rule new_ok [OF C assms(3,2,4)]; use e l50 assms(3) in \<open>simp add: set_entry_def entry_view_def\<close>)+
    ultimately show ?thesis using l50 assms(3) by (simp add: set_entry_def)
  next
    case (Some p)
    obtain n where n: "recv_search i 50 (Some p) None s = recv_search i n None (Some (last (C ?h))) s" "C ?h \<noteq> []"
      "n = 0 \<longleftrightarrow> length (C ?h) = 50"
      using recv_search_new [OF assms(1) C(2) assms(2) Some] by blast
    let ?l = "last (C ?h)"
    have l: "?l < ?k" using C(2) last_in_set [OF n(2)] by (auto simp: chained_def)
    let ?s = "set_entry ?k (te_next_update (\<lambda>_. None)) (set_entry ?l (te_next_update (\<lambda>_. Some ?k)) (s\<lparr>ts_free := ?k + 1\<rparr>))"
    obtain m where "n = Suc m" using n(3) chain_free [OF C, of i] assms(3) by (cases n) auto
    then have "find_or_add i s = Some (Some ?k, ?s)"
      using Some n(1) assms(3) by (simp add: find_or_add_def take_bucket_def Let_def)
    moreover have "set_inv (write_entry i t b ?k ?s)"
      "set_view (write_entry i t b ?k ?s) = AList.update i (True, t, contents b) (set_view s)"
      by (rule new_ok [OF C assms(3,2,4)]; use n(2) l l50 assms(3) in \<open>auto simp: set_entry_def entry_view_def nth_list_update\<close>)+
    ultimately show ?thesis using l50 l assms(3) by (simp add: set_entry_def)
  qed
qed

end
