(* ===== verification/Tlm_Properties.thy ===== *)
theory Tlm_Properties
  imports Tlm_Table Latest_Values
begin

text \<open>
  What the telemetry database promises: each table holds the latest values of the channels stored in
  it, a run sends each channel updated since the last run once with its latest value, and updates
  that arrive while a run is sending are neither lost nor sent twice.
\<close>

section \<open>The two tables\<close>

definition chan_inv :: "TlmChan \<Rightarrow> bool" where
  "chan_inv c \<longleftrightarrow> length (m_tlmEntries c) = 2 \<and> (m_activeBuffer c = 0 \<or> m_activeBuffer c = 1) \<and>
     set_inv (active_set c) \<and> set_inv (other_set c) \<and>
     tp_type (tc_tlmPacket c) = packet_type_code FW_PACKET_TELEM \<and> tlm_buffer (tp_tlmBuffer (tc_tlmPacket c)) \<and>
     ser_wf (tc_comBuffer c) \<and> length (m_data (tc_comBuffer c)) = FW_COM_BUFFER_MAX_SIZE"

lemma set_inv_ok: "set_inv s \<Longrightarrow> set_ok s"
  by (simp add: set_inv_def)

lemma two_sets:
  assumes "chan_inv c"
  shows "unat (m_activeBuffer c) < length (m_tlmEntries c)" "unat (1 - m_activeBuffer c) < length (m_tlmEntries c)"
    "unat (m_activeBuffer c) \<noteq> unat (1 - m_activeBuffer c)" "1 - (1 - m_activeBuffer c) = m_activeBuffer c"
    "1 - m_activeBuffer c = 0 \<or> 1 - m_activeBuffer c = 1"
  using assms by (auto simp: chan_inv_def)

lemma chan_inv_new: "chan_inv TlmChan_new" "set_view (active_set TlmChan_new) = []" "set_view (other_set TlmChan_new) = []"
  by (simp_all add: chan_inv_def TlmChan_new_def set_inv_new TlmPacket_new_def ComBuffer_new_wf)

section \<open>Receiving and reading\<close>

lemma recv_full:
  assumes "chan_inv c" "i \<notin> fst ` set (set_view (active_set c))" "ts_free (active_set c) = 50"
  shows "TlmRecv_handler i t b c = None"
proof (cases "find_or_add i (active_set c)")
  case (Some r)
  then obtain e s where "find_or_add i (active_set c) = Some (e, s)" by (cases r) simp
  moreover from this have "e = None" using find_full [OF _ assms(2,3)] assms(1) by (simp add: chan_inv_def)
  ultimately show ?thesis by (simp add: TlmRecv_handler_def)
qed (simp add: TlmRecv_handler_def)

lemma recv_ok:
  assumes "chan_inv c" "tlm_buffer b" "i \<in> fst ` set (set_view (active_set c)) \<or> ts_free (active_set c) < 50"
  shows "\<exists>s. TlmRecv_handler i t b c = Some (c\<lparr>m_tlmEntries := (m_tlmEntries c)[unat (m_activeBuffer c) := s]\<rparr>) \<and>
    set_inv s \<and> set_view s = AList.update i (True, t, contents b) (set_view (active_set c))"
proof -
  let ?s = "active_set c"
  have inv: "set_inv ?s" using assms(1) by (simp add: chan_inv_def)
  have "\<exists>e s1. find_or_add i ?s = Some (Some e, s1) \<and> tlm_buffer (te_buffer (ts_buckets s1 ! e)) \<and>
    (\<forall>b'. tlm_buffer b' \<longrightarrow> contents b' = contents b \<longrightarrow> set_inv (write_entry i t b' e s1) \<and>
      set_view (write_entry i t b' e s1) = AList.update i (True, t, contents b) (set_view ?s))"
  proof (cases "i \<in> fst ` set (set_view ?s)")
    case True
    then obtain e where e: "e < ts_free ?s" "te_id (ts_buckets ?s ! e) = i"
      using view_ids [OF set_inv_ok [OF inv]] by auto
    moreover have "tlm_buffer (te_buffer (ts_buckets ?s ! e))"
      using set_inv_ok [OF inv] e(1) by (simp add: set_ok_def)
    ultimately show ?thesis using find_known [OF inv e] known_ok [OF inv e] by auto
  next
    case False
    then have free: "ts_free ?s < 50" using assms(3) by simp
    have "\<exists>s1. find_or_add i ?s = Some (Some (ts_free ?s), s1) \<and> tlm_buffer (te_buffer (ts_buckets s1 ! ts_free ?s))"
      using find_new [OF inv False free tlm_buffer_new(1)] by blast
    then obtain s1 where s1: "find_or_add i ?s = Some (Some (ts_free ?s), s1)" "tlm_buffer (te_buffer (ts_buckets s1 ! ts_free ?s))"
      by blast
    have "set_inv (write_entry i t b' (ts_free ?s) s1) \<and>
        set_view (write_entry i t b' (ts_free ?s) s1) = AList.update i (True, t, contents b) (set_view ?s)"
      if b': "tlm_buffer b'" "contents b' = contents b" for b'
      using find_new [OF inv False free b'(1), of t] s1(1) b'(2) by auto
    with s1 show ?thesis by blast
  qed
  then obtain e s1 where e: "find_or_add i ?s = Some (Some e, s1)" "tlm_buffer (te_buffer (ts_buckets s1 ! e))"
    "\<And>b'. tlm_buffer b' \<Longrightarrow> contents b' = contents b \<Longrightarrow> set_inv (write_entry i t b' e s1) \<and>
      set_view (write_entry i t b' e s1) = AList.update i (True, t, contents b) (set_view ?s)"
    by blast
  obtain b' where b': "TlmBuffer_assign (te_buffer (ts_buckets s1 ! e)) b = Some b'" "tlm_buffer b'" "contents b' = contents b"
    by (rule tlm_assign_ok [OF e(2) assms(2)])
  then show ?thesis
    using e(1) e(3) [OF b'(2,3)] by (intro exI [of _ "write_entry i t b' e s1"]) (simp add: TlmRecv_handler_def)
qed

lemma store_active:
  assumes "chan_inv c" "set_inv s"
  shows "chan_inv (c\<lparr>m_tlmEntries := (m_tlmEntries c)[unat (m_activeBuffer c) := s]\<rparr>)"
    "active_set (c\<lparr>m_tlmEntries := (m_tlmEntries c)[unat (m_activeBuffer c) := s]\<rparr>) = s"
    "other_set (c\<lparr>m_tlmEntries := (m_tlmEntries c)[unat (m_activeBuffer c) := s]\<rparr>) = other_set c"
  using assms two_sets [OF assms(1)] by (auto simp: chan_inv_def nth_list_update)

abbreviation recv_store :: "U32 \<Rightarrow> Time \<times> ser_buf \<Rightarrow> TlmChan \<Rightarrow> TlmChan option" where
  "recv_store i tv \<equiv> TlmRecv_handler i (fst tv) (snd tv)"

abbreviation recv_value :: "Time \<times> ser_buf \<Rightarrow> bool \<times> Time \<times> U8 list" where
  "recv_value tv \<equiv> (True, fst tv, contents (snd tv))"

interpretation tlm: latest_values recv_store "\<lambda>tv. tlm_buffer (snd tv)" recv_value
  "\<lambda>c. set_view (active_set c)" chan_inv TLMCHAN_HASH_BUCKETS
proof unfold_locales
  fix c assume c: "chan_inv c"
  then have ok: "set_ok (active_set c)" by (simp add: chan_inv_def set_inv_ok)
  then show "distinct (map fst (set_view (active_set c)))" "length (set_view (active_set c)) \<le> TLMCHAN_HASH_BUCKETS"
    by (simp_all add: length_set_view) (simp_all add: set_ok_def)
  fix i :: U32 and tv :: "Time \<times> ser_buf" assume b: "tlm_buffer (snd tv)"
  { assume "i \<in> fst ` set (set_view (active_set c)) \<or> length (set_view (active_set c)) < TLMCHAN_HASH_BUCKETS"
    then show "\<exists>c'. recv_store i tv c = Some c' \<and> chan_inv c' \<and>
        set_view (active_set c') = AList.update i (recv_value tv) (set_view (active_set c))"
      using recv_ok [OF c b, of i "fst tv"] store_active [OF c] by (auto simp: length_set_view [OF ok]) }
  { assume "i \<notin> fst ` set (set_view (active_set c))" "length (set_view (active_set c)) = TLMCHAN_HASH_BUCKETS"
    then show "recv_store i tv c = None"
      using recv_full [OF c] by (simp add: length_set_view [OF ok]) }
qed

lemma map_of_view:
  assumes "set_inv s" "e < ts_free s" "te_id (ts_buckets s ! e) = i"
  shows "map_of (set_view s) i = Some (te_updated (ts_buckets s ! e), te_lastUpdate (ts_buckets s ! e), contents (te_buffer (ts_buckets s ! e)))"
proof -
  have "set_view s ! e \<in> set (set_view s)" using assms by (simp add: length_set_view set_inv_ok)
  then show ?thesis
    using assms set_inv_ok [OF assms(1)] set_view_nth [of s e]
    by (auto simp: entry_view_def set_ok_def intro!: map_of_is_SomeI)
qed

lemma get_ok:
  assumes "chan_inv c" "tlm_buffer val"
  shows "(case map_of (set_view (active_set c)) i of
      None \<Rightarrow> TlmGet_handler i timeTag val c = Some (timeTag, resetSer val)
    | Some (u, t, v) \<Rightarrow> \<exists>val'. TlmGet_handler i timeTag val c = Some (t, val') \<and> contents val' = v)"
proof -
  let ?s = "active_set c"
  have inv: "set_inv ?s" using assms(1) by (simp add: chan_inv_def)
  then obtain C where C: "set_ok ?s" "chained ?s C" by (auto simp: set_inv_def)
  show ?thesis
  proof (cases "i \<in> fst ` set (set_view ?s)")
    case True
    then obtain e where e: "e < ts_free ?s" "te_id (ts_buckets ?s ! e) = i" using view_ids [OF C(1)] by auto
    obtain xs ys where xs: "C (doHash i) = xs @ e # ys" "\<forall>y \<in> set xs. te_id (ts_buckets ?s ! y) \<noteq> i" "length xs < 50"
      by (rule chain_split [OF C e])
    have "get_search i 50 (ts_slots ?s ! doHash i) ?s = Some e"
      by (rule get_search_found [OF _ xs(2) e(2) xs(3)]) (use chainedD [OF C(2), of i] xs(1) in simp)
    moreover have "tlm_buffer (te_buffer (ts_buckets ?s ! e))" using C(1) e(1) by (simp add: set_ok_def)
    ultimately show ?thesis
      using map_of_view [OF inv e] tlm_assign_ok [OF assms(2)] by (force simp: TlmGet_handler_def Let_def)
  next
    case False
    have "get_search i 50 (ts_slots ?s ! doHash i) ?s = None"
    proof (rule get_search_none [OF chainedD [OF C(2)]])
      show "\<forall>y \<in> set (C (doHash i)). te_id (ts_buckets ?s ! y) \<noteq> i"
        using C view_no_index [OF C(1) False] by (auto simp: chained_def)
      show "length (C (doHash i)) \<le> 50"
        using chain_free [OF C, of i] C(1) by (simp add: set_ok_def)
    qed
    moreover have "map_of (set_view ?s) i = None" using False by (simp add: map_of_eq_None_iff)
    ultimately show ?thesis by (simp add: TlmGet_handler_def Let_def)
  qed
qed

section \<open>Runs\<close>

definition send_of :: "TlmEntry \<Rightarrow> U8 list list" where
  "send_of e = (if te_updated e \<and> te_used e
     then [TlmPacket_bytes (te_id e) (te_lastUpdate e) (contents (te_buffer e))] else [])"

abbreviation flag_off :: "TlmEntry \<Rightarrow> TlmEntry" where
  "flag_off \<equiv> te_updated_update (\<lambda>_. False)"

abbreviation view_off :: "(U32 \<times> bool \<times> Time \<times> U8 list) list \<Rightarrow> (U32 \<times> bool \<times> Time \<times> U8 list) list" where
  "view_off \<equiv> map (\<lambda>(i, u, tv). (i, False, tv))"

definition value_fits :: "TlmEntry \<Rightarrow> bool" where
  "value_fits e \<longleftrightarrow> (te_updated e \<and> te_used e \<longrightarrow> length (contents (te_buffer e)) \<le> 109)"

text \<open>Clearing flags, of all buckets or of one, leaves a table.\<close>

lemma same_but_flags:
  assumes "set_inv s" "length (ts_buckets s') = length (ts_buckets s)" "ts_slots s' = ts_slots s" "ts_free s' = ts_free s"
    and "\<And>x. x < 50 \<Longrightarrow> ts_buckets s' ! x = ts_buckets s ! x \<or> ts_buckets s' ! x = flag_off (ts_buckets s ! x)"
  shows "set_inv s'"
proof -
  obtain C where C: "set_ok s" "chained s C" using assms(1) by (auto simp: set_inv_def)
  have same: "te_next (ts_buckets s' ! x) = te_next (ts_buckets s ! x)" "te_id (ts_buckets s' ! x) = te_id (ts_buckets s ! x)"
    "te_used (ts_buckets s' ! x) = te_used (ts_buckets s ! x)"
    "te_updated (ts_buckets s' ! x) \<Longrightarrow> te_updated (ts_buckets s ! x)" "te_buffer (ts_buckets s' ! x) = te_buffer (ts_buckets s ! x)"
    if "x < 50" for x using assms(5) [OF that] by auto
  have "map fst (set_view s') = map fst (set_view s)"
    using assms(2,4) same(2) C(1) by (auto simp: set_view_def set_ok_def intro!: nth_equalityI)
  then have "set_ok s'" using C(1) assms(2-4) same(3-5) by (auto simp: set_ok_def)
  moreover have "chained s' C"
    unfolding chained_def table_sizes
  proof (intro allI impI conjI)
    fix h assume h: "h < (15 :: nat)"
    then have c: "Chain (ts_buckets s) (ts_slots s ! h) (C h)" "distinct (C h)"
      "set (C h) = {x. x < ts_free s \<and> doHash (te_id (ts_buckets s ! x)) = h}"
      using C(2) by (simp_all add: chained_def)
    have less: "x < 50" if "x < ts_free s" for x using that C(1) by (simp add: set_ok_def)
    show "distinct (C h)" by (rule c(2))
    show "set (C h) = {x. x < ts_free s' \<and> doHash (te_id (ts_buckets s' ! x)) = h}"
      using c(3) same(2) less assms(4) by auto
    show "Chain (ts_buckets s') (ts_slots s' ! h) (C h)"
      using Chain_cong [of "ts_buckets s'" "ts_buckets s" "C h"] assms(2,3) c same(1) less by simp
  qed
  ultimately show ?thesis by (auto simp: set_inv_def)
qed

lemma swap_ok:
  assumes "chan_inv c"
  shows "chan_inv (Run_swap c)" "set_view (active_set (Run_swap c)) = view_off (set_view (other_set c))"
    "other_set (Run_swap c) = active_set c" "unat (m_activeBuffer (Run_swap c)) = unat (1 - m_activeBuffer c)"
proof -
  let ?s = "(other_set c)\<lparr>ts_buckets := map flag_off (ts_buckets (other_set c))\<rparr>"
  have ok: "length (ts_buckets (other_set c)) = 50" using assms set_inv_ok by (auto simp: chan_inv_def set_ok_def)
  have inv: "set_inv ?s"
    by (rule same_but_flags [where s = "other_set c"]) (use assms ok in \<open>simp_all add: chan_inv_def\<close>)
  have s: "Run_swap c = c\<lparr>m_activeBuffer := 1 - m_activeBuffer c,
      m_tlmEntries := (m_tlmEntries c)[unat (1 - m_activeBuffer c) := ?s]\<rparr>"
    by (simp add: Run_swap_def Let_def)
  show "other_set (Run_swap c) = active_set c" "unat (m_activeBuffer (Run_swap c)) = unat (1 - m_activeBuffer c)"
    using two_sets [OF assms] by (simp_all add: s)
  then show "chan_inv (Run_swap c)"
    using assms two_sets [OF assms] inv by (auto simp: chan_inv_def s)
  show "set_view (active_set (Run_swap c)) = view_off (set_view (other_set c))"
    using two_sets [OF assms] by (simp add: s set_view_def take_map entry_view_def o_def)
qed

lemma run_entry_ok:
  assumes "chan_inv c" "k < 50" "value_fits (ts_buckets (other_set c) ! k)"
  obtains c' where "Run_entry k c = Some (send_of (ts_buckets (other_set c) ! k), c')" "chan_inv c'"
    "m_activeBuffer c' = m_activeBuffer c" "active_set c' = active_set c"
    "other_set c' = set_entry k flag_off (other_set c)"
proof -
  let ?s = "other_set c" and ?a = "unat (1 - m_activeBuffer c)" and ?p = "tc_tlmPacket c"
  let ?e = "ts_buckets ?s ! k"
  have inv: "set_inv ?s" using assms(1) by (simp add: chan_inv_def)
  have ok: "set_ok ?s" by (rule set_inv_ok [OF inv])
  have inv': "set_inv (set_entry k flag_off ?s)"
    by (rule same_but_flags [OF inv]) (use ok assms(2) in \<open>simp_all add: set_entry_def nth_list_update set_ok_def\<close>)
  have a: "?a < length (m_tlmEntries c)" "unat (m_activeBuffer c) \<noteq> ?a" using two_sets [OF assms(1)] by simp_all
  show thesis
  proof (cases "te_updated ?e \<and> te_used ?e")
    case False
    then have off: "\<not> te_updated ?e" using ok assms(2) by (auto simp: set_ok_def)
    then have "flag_off ?e = ?e" by simp
    then have "set_entry k flag_off ?s = ?s" by (simp add: set_entry_def)
    then show ?thesis using that [of c] off assms(1) by (simp add: Run_entry_def send_of_def Let_def)
  next
    case True
    let ?q = "TlmPacket_setTimeTag (te_lastUpdate ?e) (TlmPacket_setId (te_id ?e) ?p)"
    have b: "tlm_buffer (tp_tlmBuffer ?p)" "tlm_buffer (te_buffer ?e)"
      using assms(1,2) ok by (simp_all add: chan_inv_def set_ok_def)
    obtain b' where b': "TlmBuffer_assign (tp_tlmBuffer ?p) (te_buffer ?e) = Some b'" "tlm_buffer b'"
      "contents b' = contents (te_buffer ?e)" by (rule tlm_assign_ok [OF b])
    let ?r = "?q\<lparr>tp_tlmBuffer := b'\<rparr>" and ?com = "resetSer (tc_comBuffer c)"
    have set_r: "TlmPacket_setTlmBuffer (te_buffer ?e) ?q = Some ?r"
      using b' by (simp add: TlmPacket_setTlmBuffer_def TlmPacket_setTimeTag_def TlmPacket_setId_def)
    have com: "ser_wf ?com" "room ?com = 128" "contents ?com = []"
      using assms(1) by (simp_all add: chan_inv_def ser_wf_def resetSer_def room_def contents_def)
    let ?bs = "TlmPacket_bytes (te_id ?e) (te_lastUpdate ?e) (contents (te_buffer ?e))"
    have r: "tlm_buffer (tp_tlmBuffer ?r)" "tp_type ?r = packet_type_code FW_PACKET_TELEM"
      "tp_id ?r = te_id ?e" "tp_timeTag ?r = te_lastUpdate ?e" "contents (tp_tlmBuffer ?r) = contents (te_buffer ?e)"
      using b' assms(1) by (simp_all add: TlmPacket_setTimeTag_def TlmPacket_setId_def chan_inv_def)
    have len: "length ?bs \<le> room ?com" using assms(3) True com by (simp add: value_fits_def)
    have ser: "TlmPacket_serialize ?r ?com = Some (FW_SERIALIZE_OK, append_to ?com ?bs)"
      using TlmPacket_serialize_ok [OF r(1,2) com(1)] r(3-5) len com(2) by simp
    let ?c' = "c\<lparr>tc_tlmPacket := ?r, tc_comBuffer := append_to ?com ?bs,
        m_tlmEntries := (m_tlmEntries c)[?a := set_entry k flag_off ?s]\<rparr>"
    have "Run_entry k c = Some (send_of ?e, ?c')"
      using True set_r ser len com by (simp add: Run_entry_def send_of_def Let_def append_to_contents)
    moreover have "chan_inv ?c'"
      using assms(1) a inv' append_to_wf [OF com(1) len] r(1,2) len com
      by (auto simp: chan_inv_def append_to_def resetSer_def room_def)
    ultimately show ?thesis using that a by simp
  qed
qed

lemma run_loop_ok:
  assumes "chan_inv c" "distinct es" "\<forall>k \<in> set es. k < 50 \<and> value_fits (ts_buckets (other_set c) ! k)"
  shows "\<exists>c'. Run_loop es c = Some (concat (map (\<lambda>k. send_of (ts_buckets (other_set c) ! k)) es), c') \<and> chan_inv c' \<and>
    active_set c' = active_set c \<and> ts_free (other_set c') = ts_free (other_set c) \<and>
    (\<forall>k < 50. ts_buckets (other_set c') ! k =
      (if k \<in> set es then flag_off (ts_buckets (other_set c) ! k) else ts_buckets (other_set c) ! k))"
  using assms
proof (induction es arbitrary: c)
  case (Cons k es)
  then have k: "k < 50" "value_fits (ts_buckets (other_set c) ! k)" by simp_all
  obtain c1 where c1: "Run_entry k c = Some (send_of (ts_buckets (other_set c) ! k), c1)" "chan_inv c1"
    "active_set c1 = active_set c" "other_set c1 = set_entry k flag_off (other_set c)"
    by (rule run_entry_ok [OF Cons.prems(1) k])
  have len: "length (ts_buckets (other_set c)) = 50"
    using Cons.prems(1) set_inv_ok by (auto simp: chan_inv_def set_ok_def)
  have b: "ts_buckets (other_set c1) ! x = (if x = k then flag_off (ts_buckets (other_set c) ! k) else ts_buckets (other_set c) ! x)" for x
    using k(1) len by (simp add: c1(4) set_entry_def nth_list_update)
  have es: "distinct es" "k \<notin> set es" "\<forall>x \<in> set es. x < 50 \<and> value_fits (ts_buckets (other_set c1) ! x)"
    using Cons.prems(2,3) b by auto
  have same: "map (\<lambda>x. send_of (ts_buckets (other_set c1) ! x)) es = map (\<lambda>x. send_of (ts_buckets (other_set c) ! x)) es"
    using es(2) b by (auto intro!: map_cong)
  have f: "ts_free (other_set c1) = ts_free (other_set c)" using c1(4) by (simp add: set_entry_def)
  obtain c2 where c2: "Run_loop es c1 = Some (concat (map (\<lambda>x. send_of (ts_buckets (other_set c) ! x)) es), c2)" "chan_inv c2"
    "active_set c2 = active_set c1" "ts_free (other_set c2) = ts_free (other_set c1)"
    "\<And>x. x < 50 \<Longrightarrow> ts_buckets (other_set c2) ! x =
      (if x \<in> set es then flag_off (ts_buckets (other_set c1) ! x) else ts_buckets (other_set c1) ! x)"
    using Cons.IH [OF c1(2) es(1,3)] unfolding same by blast
  have "\<forall>x < 50. ts_buckets (other_set c2) ! x =
      (if x \<in> set (k # es) then flag_off (ts_buckets (other_set c) ! x) else ts_buckets (other_set c) ! x)"
    using c2(5) b es(2) by auto
  then show ?case using c1(1) c2(1-4) c1(3) f by simp
qed simp

text \<open>The packets for the channels of a table that are marked updated.\<close>

definition sends :: "(U32 \<times> bool \<times> Time \<times> U8 list) list \<Rightarrow> U8 list list" where
  "sends al = concat (map (\<lambda>(i, u, t, v). if u then [TlmPacket_bytes i t v] else []) al)"

definition values_fit :: "(U32 \<times> bool \<times> Time \<times> U8 list) list \<Rightarrow> bool" where
  "values_fit al \<longleftrightarrow> (\<forall>i t v. (i, True, t, v) \<in> set al \<longrightarrow> length v \<le> 109)"

lemma sends_buckets:
  assumes "set_ok s"
  shows "concat (map (\<lambda>k. send_of (ts_buckets s ! k)) [0..<50]) = sends (set_view s)"
proof -
  let ?bs = "ts_buckets s" and ?n = "ts_free s"
  have len: "length ?bs = 50" and n: "?n \<le> 50" using assms by (simp_all add: set_ok_def)
  have "map (\<lambda>k. send_of (?bs ! k)) [0..<50] = map send_of ?bs"
    using len by (auto intro: nth_equalityI)
  also have "\<dots> = map send_of (take ?n ?bs) @ map send_of (drop ?n ?bs)"
    by (simp flip: map_append)
  also have "map send_of (drop ?n ?bs) = replicate (50 - ?n) []"
    using assms len n by (auto simp: set_ok_def send_of_def intro!: nth_equalityI)
  finally have "concat (map (\<lambda>k. send_of (?bs ! k)) [0..<50]) = concat (map send_of (take ?n ?bs))"
    by (simp add: concat_replicate_trivial)
  also have "map send_of (take ?n ?bs) = map (\<lambda>(i, u, t, v). if u then [TlmPacket_bytes i t v] else []) (set_view s)"
  proof (rule nth_equalityI)
    fix k assume "k < length (map send_of (take ?n ?bs))"
    then have k: "k < ?n" "k < 50" using len n by simp_all
    then have "te_used (?bs ! k)" using assms by (simp add: set_ok_def)
    then show "map send_of (take ?n ?bs) ! k = map (\<lambda>(i, u, t, v). if u then [TlmPacket_bytes i t v] else []) (set_view s) ! k"
      using k len by (simp add: send_of_def set_view_def entry_view_def)
  qed (simp add: set_view_def)
  finally show ?thesis by (simp add: sends_def)
qed

lemma values_fit_entry:
  assumes "set_ok s" "values_fit (set_view s)" "k < 50"
  shows "value_fits (ts_buckets s ! k)"
proof (cases "te_updated (ts_buckets s ! k)")
  case True
  then have "k < ts_free s" using assms(1,3) by (simp add: set_ok_def)
  then have "entry_view (ts_buckets s ! k) \<in> set (set_view s)"
    using assms(1) nth_mem [of k "set_view s"] by (simp add: length_set_view set_view_nth)
  then show ?thesis using assms(2) True by (auto simp: values_fit_def value_fits_def entry_view_def)
qed (simp add: value_fits_def)

lemma run_ok:
  assumes "chan_inv c" "values_fit (set_view (active_set c))"
  shows "\<exists>c'. Run_handler True c = Some (sends (set_view (active_set c)), c') \<and> chan_inv c' \<and>
    set_view (active_set c') = view_off (set_view (other_set c)) \<and> set_view (other_set c') = view_off (set_view (active_set c))"
proof -
  let ?c = "Run_swap c"
  note swap = swap_ok [OF assms(1)]
  have ok: "set_ok (other_set ?c)" using swap(1) by (simp add: chan_inv_def set_inv_ok)
  have fits: "\<forall>k \<in> set [0..<50]. k < 50 \<and> value_fits (ts_buckets (other_set ?c) ! k)"
    using values_fit_entry [OF ok] assms(2) swap(3) by simp
  obtain c' where c': "Run_loop [0..<50] ?c = Some (concat (map (\<lambda>k. send_of (ts_buckets (other_set ?c) ! k)) [0..<50]), c')"
    "chan_inv c'" "active_set c' = active_set ?c" "ts_free (other_set c') = ts_free (other_set ?c)"
    "\<And>k. k < 50 \<Longrightarrow> ts_buckets (other_set c') ! k = flag_off (ts_buckets (other_set ?c) ! k)"
    using run_loop_ok [OF swap(1) distinct_upt fits] by auto
  have ok': "set_ok (other_set c')" using c'(2) by (simp add: chan_inv_def set_inv_ok)
  have "set_view (other_set c') = view_off (set_view (other_set ?c))"
    using c'(4,5) ok ok' by (auto simp: set_view_def set_ok_def entry_view_def intro!: nth_equalityI)
  then show ?thesis
    using c'(1-3) swap sends_buckets [OF ok] by (simp add: Run_handler_def)
qed

section \<open>Sending and receiving at the same time\<close>

text \<open>
  \<open>TlmRecv\<close> takes the component's lock, the send loop of \<open>Run\<close> does not. A schedule interleaves
  turns of the loop with receptions.
\<close>

datatype tlm_step = Send nat | Receive U32 "Time \<times> ser_buf"

fun tlm_schedule :: "tlm_step list \<Rightarrow> TlmChan \<Rightarrow> (U8 list list \<times> TlmChan) option" where
  "tlm_schedule [] c = Some ([], c)"
| "tlm_schedule (Send k # steps) c = do {
     (outs, c) \<leftarrow> Run_entry k c;
     (outs', c) \<leftarrow> tlm_schedule steps c;
     Some (outs @ outs', c)
   }"
| "tlm_schedule (Receive i tv # steps) c = do {
     c \<leftarrow> recv_store i tv c;
     tlm_schedule steps c
   }"

fun sends_in :: "tlm_step list \<Rightarrow> nat list" where
  "sends_in [] = []"
| "sends_in (Send k # steps) = k # sends_in steps"
| "sends_in (Receive i tv # steps) = sends_in steps"

fun receives_in :: "tlm_step list \<Rightarrow> (U32 \<times> Time \<times> ser_buf) list" where
  "receives_in [] = []"
| "receives_in (Send k # steps) = receives_in steps"
| "receives_in (Receive i tv # steps) = (i, tv) # receives_in steps"

definition two_tables :: "TlmChan \<Rightarrow> bool" where
  "two_tables c \<longleftrightarrow> length (m_tlmEntries c) = 2 \<and> (m_activeBuffer c = 0 \<or> m_activeBuffer c = 1)"

lemma two_tables_distinct:
  "two_tables c \<Longrightarrow> unat (m_activeBuffer c) \<noteq> unat (1 - m_activeBuffer c) \<and>
     unat (m_activeBuffer c) < length (m_tlmEntries c) \<and> unat (1 - m_activeBuffer c) < length (m_tlmEntries c)"
  by (auto simp: two_tables_def)

text \<open>A reception reads and writes the active table only, a turn of the loop everything else.\<close>

definition recv_part :: "U32 \<Rightarrow> Time \<times> ser_buf \<Rightarrow> TlmSet \<Rightarrow> TlmSet option" where
  "recv_part i tv s = do {
     (entryToUse, s) \<leftarrow> find_or_add i s;
     e \<leftarrow> entryToUse;
     b \<leftarrow> TlmBuffer_assign (te_buffer (ts_buckets s ! e)) (snd tv);
     Some (write_entry i (fst tv) b e s)
   }"

definition entry_part :: "nat \<Rightarrow> TlmSet \<Rightarrow> TlmPacket \<Rightarrow> ser_buf \<Rightarrow> (U8 list list \<times> TlmSet \<times> TlmPacket \<times> ser_buf) option" where
  "entry_part k s p com = (
     let e = ts_buckets s ! k in
     if te_updated e \<and> te_used e then do {
       p \<leftarrow> TlmPacket_setTlmBuffer (te_buffer e) (TlmPacket_setTimeTag (te_lastUpdate e) (TlmPacket_setId (te_id e) p));
       (stat, com) \<leftarrow> TlmPacket_serialize p (resetSer com);
       fw_assert (stat = FW_SERIALIZE_OK);
       Some ([contents com], set_entry k flag_off s, p, com)
     }
     else Some ([], s, p, com))"

lemma recv_parts:
  "recv_store i tv c = map_option (\<lambda>s. c\<lparr>m_tlmEntries := (m_tlmEntries c)[unat (m_activeBuffer c) := s]\<rparr>)
     (recv_part i tv (active_set c))"
  by (auto simp: TlmRecv_handler_def recv_part_def map_option_case split: bind_splits option.splits)

lemma entry_parts:
  "Run_entry k c = map_option (\<lambda>(outs, s, p, com). (outs, c\<lparr>tc_tlmPacket := p, tc_comBuffer := com,
     m_tlmEntries := (m_tlmEntries c)[unat (1 - m_activeBuffer c) := s]\<rparr>))
     (entry_part k (other_set c) (tc_tlmPacket c) (tc_comBuffer c))"
  by (auto simp: Run_entry_def entry_part_def Let_def map_option_case split: bind_splits option.splits)

lemma send_receive_commute:
  assumes "two_tables c"
  shows "do { c \<leftarrow> recv_store i tv c; Run_entry k c } =
    do { (outs, c) \<leftarrow> Run_entry k c; c \<leftarrow> recv_store i tv c; Some (outs, c) }"
  using two_tables_distinct [OF assms] unfolding recv_parts entry_parts
  by (cases "recv_part i tv (active_set c)"; cases "entry_part k (other_set c) (tc_tlmPacket c) (tc_comBuffer c)")
    (auto simp: list_update_swap)

lemma two_tables_kept:
  "two_tables c \<Longrightarrow> recv_store i tv c = Some c' \<Longrightarrow> two_tables c'"
  "two_tables c \<Longrightarrow> Run_entry k c = Some (outs, c') \<Longrightarrow> two_tables c'"
  unfolding recv_parts entry_parts by (auto simp: two_tables_def)

lemma receives_last:
  assumes "two_tables c"
  shows "do { c \<leftarrow> recv_store i tv c; Run_loop es c } =
    do { (outs, c) \<leftarrow> Run_loop es c; c \<leftarrow> recv_store i tv c; Some (outs, c) }"
  using assms
proof (induction es arbitrary: c)
  case Nil
  then show ?case by (cases "recv_store i tv c") simp_all
next
  case (Cons k es)
  have "do { c \<leftarrow> recv_store i tv c; Run_loop (k # es) c } =
      do { (outs, c) \<leftarrow> do { c \<leftarrow> recv_store i tv c; Run_entry k c };
           (outs', c) \<leftarrow> Run_loop es c; Some (outs @ outs', c) }"
    by (cases "recv_store i tv c") simp_all
  also have "\<dots> = do { (outs, c) \<leftarrow> Run_entry k c; (outs', c) \<leftarrow> do { c \<leftarrow> recv_store i tv c; Run_loop es c };
      Some (outs @ outs', c) }"
    unfolding send_receive_commute [OF Cons.prems]
    by (auto split: bind_splits)
  also have "\<dots> = do { (outs, c) \<leftarrow> Run_entry k c; (outs', c) \<leftarrow> do { (outs, c) \<leftarrow> Run_loop es c; c \<leftarrow> recv_store i tv c; Some (outs, c) };
      Some (outs @ outs', c) }"
    using Cons.IH two_tables_kept(2) [OF Cons.prems] by (cases "Run_entry k c") (auto simp del: bind_assoc)
  also have "\<dots> = do { (outs, c) \<leftarrow> Run_loop (k # es) c; c \<leftarrow> recv_store i tv c; Some (outs, c) }"
    by (auto split: bind_splits)
  finally show ?case .
qed

lemma schedule_split:
  assumes "two_tables c"
  shows "tlm_schedule steps c = do { (outs, c) \<leftarrow> Run_loop (sends_in steps) c;
    c \<leftarrow> store_all recv_store (receives_in steps) c; Some (outs, c) }"
  using assms
proof (induction steps c rule: tlm_schedule.induct)
  case (2 k steps c)
  then show ?case
    using two_tables_kept(2) [OF 2(2)] by (cases "Run_entry k c") (auto split: bind_splits)
next
  case (3 i tv steps c)
  let ?g = "\<lambda>(outs, c). do { c \<leftarrow> store_all recv_store (receives_in steps) c; Some (outs, c) }"
  have "tlm_schedule (Receive i tv # steps) c = Option.bind (do { c \<leftarrow> recv_store i tv c; Run_loop (sends_in steps) c }) ?g"
    using 3 two_tables_kept(1) [OF 3(2)] by (cases "recv_store i tv c") simp_all
  also have "\<dots> = Option.bind (do { (outs, c) \<leftarrow> Run_loop (sends_in steps) c; c \<leftarrow> recv_store i tv c; Some (outs, c) }) ?g"
    by (simp only: receives_last [OF 3(2)])
  finally show ?case by (simp add: case_prod_unfold)
qed simp

section \<open>Properties\<close>

definition no_unsent :: "TlmChan \<Rightarrow> bool" where
  "no_unsent c \<longleftrightarrow> (\<forall>(i, u, tv) \<in> set (set_view (active_set c)). \<not> u)"

lemma updates_flags:
  fixes al :: "(U32 \<times> bool \<times> Time \<times> U8 list) list"
  assumes "distinct (map fst al)" "\<forall>(i, u, tv) \<in> set al. \<not> u" "al' = AList.updates (map fst kws) (map (recv_value \<circ> snd) kws) al"
  shows "map_of [(i, tv). (i, u, tv) \<leftarrow> al', u] = map_of (rev (map (\<lambda>(i, t, b). (i, t, contents b)) kws))"
    and "distinct (map fst [(i, tv). (i, u, tv) \<leftarrow> al', u])"
proof -
  have dist: "distinct (map fst al')" using assms(1,3) by (simp add: distinct_updates)
  have sub: "map fst [(i, tv). (i, u, tv) \<leftarrow> al', u] = map fst (filter (\<lambda>(i, u, tv). u) al')" for al' :: "(U32 \<times> bool \<times> Time \<times> U8 list) list"
    by (induction al') auto
  show "distinct (map fst [(i, tv). (i, u, tv) \<leftarrow> al', u])" unfolding sub by (rule distinct_map_filter [OF dist])
  have pick: "map_of [(i, tv). (i, u, tv) \<leftarrow> al', u] i = (case map_of al' i of Some (True, tv) \<Rightarrow> Some tv | _ \<Rightarrow> None)"
    if "distinct (map fst al')" for al' :: "(U32 \<times> bool \<times> Time \<times> U8 list) list" and i
    using that
  proof (induction al')
    case (Cons x al')
    obtain j u tv where x: "x = (j, u, tv)" by (cases x) auto
    have "map_of [(i, tv). (i, u, tv) \<leftarrow> al', u] j = None"
      using Cons.prems x by (force simp: map_of_eq_None_iff)
    then show ?case using Cons x by auto
  qed simp
  have z: "zip (map fst kws) (map (recv_value \<circ> snd) kws) = map (\<lambda>(i, t, b). (i, True, t, contents b)) kws"
    by (induction kws) auto
  have m: "map_of al' i = (case map_of (rev (map (\<lambda>(i, t, b). (i, True, t, contents b)) kws)) i of
      Some r \<Rightarrow> Some r | None \<Rightarrow> map_of al i)" for i
    unfolding assms(3) by (simp add: updates_conv' map_upds_def z map_add_def)
  have old: "\<exists>tv. map_of al i = Some (False, tv) \<or> map_of al i = None" for i
    using assms(2) by (cases "map_of al i") (auto dest!: map_of_SomeD)
  have new: "map_of (rev (map (\<lambda>(i, t, b). (i, True, t, contents b)) kws)) i =
      map_option (Pair True) (map_of (rev (map (\<lambda>(i, t, b). (i, t, contents b)) kws)) i)" for i
    by (induction kws rule: rev_induct) auto
  show "map_of [(i, tv). (i, u, tv) \<leftarrow> al', u] = map_of (rev (map (\<lambda>(i, t, b). (i, t, contents b)) kws))"
  proof
    fix i
    show "map_of [(i, tv). (i, u, tv) \<leftarrow> al', u] i = map_of (rev (map (\<lambda>(i, t, b). (i, t, contents b)) kws)) i"
      unfolding pick [OF dist] m new using old [of i]
      by (auto split: option.splits)
  qed
qed

abbreviation tlm_bytes :: "U32 \<times> Time \<times> U8 list \<Rightarrow> U8 list" where
  "tlm_bytes itv \<equiv> (case itv of (i, t, v) \<Rightarrow> TlmPacket_bytes i t v)"

lemma sends_unsent: "sends al = map tlm_bytes [(i, tv). (i, u, tv) \<leftarrow> al, u]"
  by (induction al) (auto simp: sends_def)

lemma no_unsent_view_off: "\<forall>(i, u, tv) \<in> set (view_off al). \<not> u"
  by auto

text \<open>
  C7: The ground gets every channel that was updated since the last run once, with its latest value
  and time tag: after any sequence of updates with values of at most 109 bytes (a longer one aborts the
  run) that finds room in the table, from a state without unsent updates, the run sends
  exactly one packet for each channel in the sequence, with the last value stored under it, and
  leaves a state without unsent updates.
\<close>

theorem telemetry_sent_once:
  assumes "chan_inv c" "no_unsent c"
    and "\<forall>(i, t, b) \<in> set updates. tlm_buffer b \<and> length (contents b) \<le> 109"
    and "store_all recv_store updates c = Some c'"
  shows "\<exists>packets c''. Run_handler True c' = Some (map tlm_bytes packets, c'') \<and> distinct (map fst packets) \<and>
    map_of packets = map_of (rev (map (\<lambda>(i, t, b). (i, t, contents b)) updates)) \<and>
    chan_inv c'' \<and> no_unsent c''"
proof -
  have "\<forall>w \<in> snd ` set updates. tlm_buffer (snd w)" using assms(3) by auto
  from tlm.store_all_content [OF assms(1) this assms(4)]
  have c': "chan_inv c'" and v: "set_view (active_set c') =
      AList.updates (map fst updates) (map (recv_value \<circ> snd) updates) (set_view (active_set c))"
    by simp_all
  have dist: "distinct (map fst (set_view (active_set c)))" by (rule tlm.keys [OF assms(1)])
  note flags = updates_flags [OF dist assms(2) [unfolded no_unsent_def] v]
  have fit: "values_fit (set_view (active_set c'))"
    unfolding values_fit_def
  proof (intro allI impI)
    fix i t x assume m: "(i, True, t, x) \<in> set (set_view (active_set c'))"
    then have "(i, t, x) \<in> set [(i, tv). (i, u, tv) \<leftarrow> set_view (active_set c'), u]" by force
    then have "map_of [(i, tv). (i, u, tv) \<leftarrow> set_view (active_set c'), u] i = Some (t, x)"
      by (rule map_of_is_SomeI [OF flags(2)])
    then have "(i, t, x) \<in> (\<lambda>(i, t, b). (i, t, contents b)) ` set updates"
      unfolding flags(1) by (auto dest!: map_of_SomeD)
    then show "length x \<le> 109" using assms(3) by auto
  qed
  obtain c'' where "Run_handler True c' = Some (sends (set_view (active_set c')), c'')" "chan_inv c''"
    "set_view (active_set c'') = view_off (set_view (other_set c'))"
    using run_ok [OF c' fit] by blast
  moreover from this(3) have "no_unsent c''" by (simp add: no_unsent_def no_unsent_view_off)
  ultimately show ?thesis
    using flags unfolding sends_unsent by blast
qed

definition small_value :: "U8 \<Rightarrow> ser_buf" where
  "small_value v = TlmBuffer_new\<lparr>m_data := v # replicate 119 0, m_serLoc := 1\<rparr>"

lemma small_value: "tlm_buffer (small_value v)" "contents (small_value v) = [v]"
  by (simp_all add: small_value_def tlm_buffer_def ser_wf_def contents_def TlmBuffer_new_def SerializeBufferBase_new_def)

lemma no_unsent_new: "no_unsent TlmChan_new"
  by (simp add: no_unsent_def chan_inv_new)

abbreviation three_updates :: "(U32 \<times> Time \<times> ser_buf) list" where
  "three_updates \<equiv> [(7, Time_zero 0, small_value 1), (22, Time_zero 0, small_value 2), (7, Time_zero 1, small_value 3)]"

lemma store_three: "\<exists>c'. store_all recv_store three_updates TlmChan_new = Some c'"
proof -
  have "card {7, 22, 7 :: U32} \<le> 50" by (simp add: card_insert_if)
  then have "store_all recv_store three_updates TlmChan_new \<noteq> None"
    using tlm.store_all_fails [OF chan_inv_new(1), of three_updates] by (simp add: small_value chan_inv_new(2) del: store_all.simps)
  then show ?thesis by (simp only: not_None_eq)
qed

lemma telemetry_sent_once_witness:
  "\<exists>c' packets c''. store_all recv_store three_updates TlmChan_new = Some c' \<and>
    Run_handler True c' = Some (map tlm_bytes packets, c'') \<and> distinct (map fst packets) \<and>
    map_of packets = [22 \<mapsto> (Time_zero 0, [2]), 7 \<mapsto> (Time_zero 1, [3])] \<and> no_unsent c''"
proof -
  obtain c' where c': "store_all recv_store three_updates TlmChan_new = Some c'" using store_three ..
  have "\<forall>(i, t, b) \<in> set three_updates. tlm_buffer b \<and> length (contents b) \<le> 109" by (simp add: small_value)
  from telemetry_sent_once [OF chan_inv_new(1) no_unsent_new this c'] c' show ?thesis
    by (auto simp: small_value fun_upd_twist)
qed

text \<open>
  C15: Updates that arrive while a run is sending do not disturb it: however the turns of the send loop
  and the receptions interleave after the tables are swapped, the packets sent and the state
  reached are those of the whole run followed by the receptions in their order.
\<close>

theorem run_undisturbed_by_updates:
  assumes "chan_inv c" "sends_in steps = [0..<TLMCHAN_HASH_BUCKETS]"
  shows "tlm_schedule steps (Run_swap c) = do {
    (outs, c) \<leftarrow> Run_handler True c;
    c \<leftarrow> store_all recv_store (receives_in steps) c;
    Some (outs, c)
  }"
proof -
  have "two_tables (Run_swap c)" using swap_ok(1) [OF assms(1)] by (simp add: chan_inv_def two_tables_def)
  then show ?thesis using schedule_split [of "Run_swap c" steps] assms(2) by (simp add: Run_handler_def)
qed

lemma run_undisturbed_by_updates_witness:
  "tlm_schedule (Receive 7 (Time_zero 0, small_value 1) # map Send [0..<50]) (Run_swap TlmChan_new) = do {
    (outs, c) \<leftarrow> Run_handler True TlmChan_new;
    c \<leftarrow> store_all recv_store [(7, Time_zero 0, small_value 1)] c;
    Some (outs, c)
  }"
proof -
  have "sends_in (map Send es) = es" "receives_in (map Send es) = []" for es by (induction es) simp_all
  then show ?thesis
    using run_undisturbed_by_updates [OF chan_inv_new(1), of "Receive 7 (Time_zero 0, small_value 1) # map Send [0..<50]"]
    by simp
qed

text \<open>
  The database holds 50 channels. A sequence of updates stops the flight software on the assertion
  that a bucket is free exactly when it and the table it meets name more than 50 channels, however
  the channels spread over the slots of the hash table.
\<close>

theorem fifty_channels:
  assumes "chan_inv c" "\<forall>(i, t, b) \<in> set updates. tlm_buffer b"
  shows "store_all recv_store updates c = None \<longleftrightarrow>
    50 < card (fst ` set (set_view (active_set c)) \<union> fst ` set updates)"
  using tlm.store_all_fails [OF assms(1), of updates] assms(2) by (simp add: case_prod_unfold)

lemma fifty_channels_witness:
  "store_all recv_store (map (\<lambda>i. (of_nat i, Time_zero 0, small_value 1)) [0..<51]) TlmChan_new = None"
proof -
  have "fst ` set (map (\<lambda>i. (of_nat i :: U32, Time_zero 0, small_value 1)) [0..<51]) = of_nat ` {0..<51 :: nat}"
    by force
  moreover have "inj_on (of_nat :: nat \<Rightarrow> U32) {0..<51}"
    by (auto simp: inj_on_def of_nat_eq_iff32)
  ultimately show ?thesis
    using fifty_channels [OF chan_inv_new(1), of "map (\<lambda>i. (of_nat i, Time_zero 0, small_value 1)) [0..<51]"]
    by (auto simp: small_value chan_inv_new(2) card_image)
qed

text \<open>
  What \<open>TlmGet\<close> returns is out of date after a run: it answers from the table that the run made
  active, which does not have the values stored since the run before. A channel that was only
  updated since then is reported as never written.
\<close>

theorem get_after_run:
  assumes "chan_inv c" "values_fit (set_view (active_set c))" "tlm_buffer val"
  shows "\<exists>outs c'. Run_handler True c = Some (outs, c') \<and>
    (case map_of (set_view (other_set c)) i of
      None \<Rightarrow> TlmGet_handler i timeTag val c' = Some (timeTag, resetSer val)
    | Some (u, t, v) \<Rightarrow> \<exists>val'. TlmGet_handler i timeTag val c' = Some (t, val') \<and> contents val' = v)"
proof -
  obtain outs c' where c': "Run_handler True c = Some (outs, c')" "chan_inv c'"
    "set_view (active_set c') = view_off (set_view (other_set c))"
    using run_ok [OF assms(1,2)] by blast
  have "map_of (view_off al) i = map_option (\<lambda>(u, tv). (False, tv)) (map_of al i)" for al
    by (induction al) auto
  then show ?thesis
    using c'(1) get_ok [OF c'(2) assms(3), of i timeTag]
    by (auto simp: c'(3) split: option.splits)
qed

lemma get_after_run_witness:
  "\<exists>c outs c'. TlmRecv_handler 7 (Time_zero 0) (small_value 1) TlmChan_new = Some c \<and>
    Run_handler True c = Some (outs, c') \<and>
    TlmGet_handler 7 Time_new TlmBuffer_new c' = Some (Time_new, resetSer TlmBuffer_new)"
proof -
  have free: "ts_free (active_set TlmChan_new) < 50" by (simp add: TlmChan_new_def TlmSet_new_def)
  obtain s where s: "TlmRecv_handler 7 (Time_zero 0) (small_value 1) TlmChan_new =
      Some (TlmChan_new\<lparr>m_tlmEntries := (m_tlmEntries TlmChan_new)[unat (m_activeBuffer TlmChan_new) := s]\<rparr>)" "set_inv s"
    "set_view s = [(7, True, Time_zero 0, [1])]"
    using recv_ok [OF chan_inv_new(1) small_value(1) disjI2 [OF free], of 7 "Time_zero 0" 1]
    by (auto simp: small_value chan_inv_new(2))
  let ?c = "TlmChan_new\<lparr>m_tlmEntries := (m_tlmEntries TlmChan_new)[unat (m_activeBuffer TlmChan_new) := s]\<rparr>"
  note c = store_active [OF chan_inv_new(1) s(2)]
  have "values_fit (set_view (active_set ?c))" unfolding c(2) s(3) by (simp add: values_fit_def)
  from get_after_run [OF c(1) this tlm_buffer_new(1), of 7 Time_new] show ?thesis
    using s(1) unfolding c(3) chan_inv_new(3) by auto
qed

lemma long_entry:
  assumes "chan_inv c" "k < 50" "\<not> value_fits (ts_buckets (other_set c) ! k)"
  shows "Run_entry k c = None"
proof -
  let ?e = "ts_buckets (other_set c) ! k" and ?p = "tc_tlmPacket c"
  let ?q = "TlmPacket_setTimeTag (te_lastUpdate ?e) (TlmPacket_setId (te_id ?e) ?p)"
  have b: "tlm_buffer (tp_tlmBuffer ?p)" "tlm_buffer (te_buffer ?e)"
    using assms(1,2) set_inv_ok by (auto simp: chan_inv_def set_ok_def)
  obtain b' where b': "TlmBuffer_assign (tp_tlmBuffer ?p) (te_buffer ?e) = Some b'" "tlm_buffer b'"
    "contents b' = contents (te_buffer ?e)" by (rule tlm_assign_ok [OF b])
  let ?r = "?q\<lparr>tp_tlmBuffer := b'\<rparr>" and ?com = "resetSer (tc_comBuffer c)"
  have set_r: "TlmPacket_setTlmBuffer (te_buffer ?e) ?q = Some ?r"
    using b' by (simp add: TlmPacket_setTlmBuffer_def TlmPacket_setTimeTag_def TlmPacket_setId_def)
  have com: "ser_wf ?com" "room ?com = 128"
    using assms(1) by (simp_all add: chan_inv_def ser_wf_def resetSer_def room_def)
  have r: "tlm_buffer (tp_tlmBuffer ?r)" "tp_type ?r = packet_type_code FW_PACKET_TELEM"
    "contents (tp_tlmBuffer ?r) = contents (te_buffer ?e)"
    using b' assms(1) by (simp_all add: TlmPacket_setTimeTag_def TlmPacket_setId_def chan_inv_def)
  have "room ?com < 19 + length (contents (tp_tlmBuffer ?r))"
    using assms(3) r(3) com(2) by (simp add: value_fits_def)
  then obtain b'' where "TlmPacket_serialize ?r ?com = Some (FW_SERIALIZE_NO_ROOM_LEFT, b'')"
    using TlmPacket_serialize_full [OF r(1) com(1)] com(2) by auto
  then show ?thesis using assms(3) set_r by (simp add: Run_entry_def value_fits_def Let_def)
qed

lemma long_loop:
  assumes "chan_inv c" "distinct es" "\<forall>k \<in> set es. k < 50" "k \<in> set es" "\<not> value_fits (ts_buckets (other_set c) ! k)"
  shows "Run_loop es c = None"
  using assms
proof (induction es arbitrary: c)
  case (Cons k1 es)
  show ?case
  proof (cases "value_fits (ts_buckets (other_set c) ! k1)")
    case True
    then have es: "k \<in> set es" "k \<noteq> k1" using Cons.prems by auto
    have "k1 < 50" using Cons.prems(3) by simp
    then obtain c1 where c1: "Run_entry k1 c = Some (send_of (ts_buckets (other_set c) ! k1), c1)" "chan_inv c1"
      "other_set c1 = set_entry k1 flag_off (other_set c)"
      by (rule run_entry_ok [OF Cons.prems(1) _ True])
    have "\<not> value_fits (ts_buckets (other_set c1) ! k)"
      using Cons.prems(5) es(2) by (simp add: c1(3) set_entry_def)
    then have "Run_loop es c1 = None"
      using Cons.IH [OF c1(2)] Cons.prems(2,3) es(1) by simp
    then show ?thesis using c1(1) by simp
  next
    case False
    then show ?thesis using long_entry [OF Cons.prems(1) _ False] Cons.prems(3) by simp
  qed
qed simp

text \<open>
  A value of 110 to 120 bytes fits a telemetry buffer but not, with its header and time tag, the
  packet: the run that comes to it stops the flight software on the assertion that the packet
  was serialized.
\<close>

theorem long_value_stops_run:
  assumes "chan_inv c" "(i, True, t, v) \<in> set (set_view (active_set c))" "109 < length v"
  shows "Run_handler True c = None"
proof -
  have ok: "set_ok (active_set c)" using assms(1) by (simp add: chan_inv_def set_inv_ok)
  obtain k where k: "k < ts_free (active_set c)" "entry_view (ts_buckets (active_set c) ! k) = (i, True, t, v)"
    using assms(2) ok by (auto simp: in_set_conv_nth length_set_view set_view_nth)
  note swap = swap_ok [OF assms(1)]
  have "\<not> value_fits (ts_buckets (other_set (Run_swap c)) ! k)" "k < 50"
    using k ok assms(3) by (auto simp: swap(3) value_fits_def entry_view_def set_ok_def)
  then show ?thesis
    using long_loop [OF swap(1), of "[0..<50]" k] by (simp add: Run_handler_def)
qed

definition long_value :: ser_buf where
  "long_value = TlmBuffer_new\<lparr>m_serLoc := 110\<rparr>"

lemma long_value: "tlm_buffer long_value" "length (contents long_value) = 110"
  by (simp_all add: long_value_def tlm_buffer_def ser_wf_def contents_def TlmBuffer_new_def SerializeBufferBase_new_def)

lemma long_value_stops_run_witness:
  "\<exists>c. TlmRecv_handler 7 (Time_zero 0) long_value TlmChan_new = Some c \<and> Run_handler True c = None"
proof -
  have free: "ts_free (active_set TlmChan_new) < 50" by (simp add: TlmChan_new_def TlmSet_new_def)
  obtain s where s: "TlmRecv_handler 7 (Time_zero 0) long_value TlmChan_new =
      Some (TlmChan_new\<lparr>m_tlmEntries := (m_tlmEntries TlmChan_new)[unat (m_activeBuffer TlmChan_new) := s]\<rparr>)" "set_inv s"
    "set_view s = [(7, True, Time_zero 0, contents long_value)]"
    using recv_ok [OF chan_inv_new(1) long_value(1) disjI2 [OF free], of 7 "Time_zero 0"]
    by (auto simp: chan_inv_new(2))
  let ?c = "TlmChan_new\<lparr>m_tlmEntries := (m_tlmEntries TlmChan_new)[unat (m_activeBuffer TlmChan_new) := s]\<rparr>"
  note c = store_active [OF chan_inv_new(1) s(2)]
  have "(7, True, Time_zero 0, contents long_value) \<in> set (set_view (active_set ?c))" unfolding c(2) s(3) by simp
  then have "Run_handler True ?c = None" by (rule long_value_stops_run [OF c(1)]) (simp add: long_value(2))
  then show ?thesis using s(1) by blast
qed

end
