(* ===== verification/Buffer_Manager.thy ===== *)
theory Buffer_Manager
  imports Prelude
begin

text \<open>
  Svc/BufferManager: a pool of buffers in one block of memory, in bins of equal size. The block
  starts with one \<open>AllocatedBuffer\<close> per buffer and the memory of the buffers follows. A pointer is
  its address; the size \<open>sz\<close> of an \<open>AllocatedBuffer\<close>, which the compiler chooses, and the memory
  allocator are parameters.
\<close>

section \<open>State\<close>

definition BUFFERMGR_MAX_NUM_BINS :: nat where "BUFFERMGR_MAX_NUM_BINS = 10"

text \<open>The view of \<open>Fw::Buffer\<close> this component has: where the data is, not what it is.\<close>

record Buffer_Ref =
  br_data :: "nat option"
  br_size :: U32
  br_context :: U32

definition Buffer_Ref_empty :: Buffer_Ref where
  "Buffer_Ref_empty = \<lparr>br_data = None, br_size = 0, br_context = 0xFFFFFFFF\<rparr>"

record BufferBin =
  bin_bufferSize :: U32
  bin_numBuffers :: U32

record AllocatedBuffer =
  ab_buff :: Buffer_Ref
  ab_memory :: nat
  ab_size :: U32
  ab_allocated :: bool

record BufferManager =
  bm_setup :: bool
  bm_cleaned :: bool
  bm_mgrId :: U32
  bm_bins :: "BufferBin list"
  bm_buffers :: "AllocatedBuffer list option"
  bm_allocator :: bool
  bm_memId :: U32
  bm_numStructs :: U32
  bm_highWater :: U32
  bm_currBuffs :: U32
  bm_noBuffs :: U32
  bm_emptyBuffs :: U32

definition BufferManager_new :: BufferManager where
  "BufferManager_new = \<lparr>bm_setup = False, bm_cleaned = False, bm_mgrId = 0, bm_bins = [], bm_buffers = None,
     bm_allocator = False, bm_memId = 0, bm_numStructs = 0, bm_highWater = 0, bm_currBuffs = 0, bm_noBuffs = 0,
     bm_emptyBuffs = 0\<rparr>"

section \<open>Set-up\<close>

fun bins_size :: "U32 \<Rightarrow> BufferBin list \<Rightarrow> U32 \<times> U32 \<Rightarrow> U32 \<times> U32" where
  "bins_size sz [] (memorySize, numStructs) = (memorySize, numStructs)"
| "bins_size sz (b # bins) (memorySize, numStructs) =
     (if bin_numBuffers b \<noteq> 0
      then bins_size sz bins (memorySize + (bin_bufferSize b * bin_numBuffers b + sz * bin_numBuffers b),
        numStructs + bin_numBuffers b)
      else bins_size sz bins (memorySize, numStructs))"

definition buffer_context :: "U32 \<Rightarrow> U32 \<Rightarrow> U32" where
  "buffer_context mgrId currStruct = or (push_bit 16 mgrId) currStruct"

text \<open>
  The entries of a bin. Writing an entry behind the last of the \<open>numStructs\<close> ones would be outside
  of the array (\<^const>\<open>None\<close>).
\<close>

fun init_bin :: "U32 \<Rightarrow> U32 \<Rightarrow> U32 \<Rightarrow> nat \<Rightarrow> nat \<times> U32 \<times> AllocatedBuffer list \<Rightarrow>
    (nat \<times> U32 \<times> AllocatedBuffer list) option" where
  "init_bin mgrId numStructs bufferSize 0 st = Some st"
| "init_bin mgrId numStructs bufferSize (Suc n) (bufferMem, currStruct, entries) =
     (if currStruct < numStructs
      then init_bin mgrId numStructs bufferSize n (bufferMem + unat bufferSize, currStruct + 1,
        entries @ [\<lparr>ab_buff = \<lparr>br_data = Some bufferMem, br_size = bufferSize, br_context = buffer_context mgrId currStruct\<rparr>,
          ab_memory = bufferMem, ab_size = bufferSize, ab_allocated = False\<rparr>])
      else None)"

fun init_bins :: "U32 \<Rightarrow> U32 \<Rightarrow> BufferBin list \<Rightarrow> nat \<times> U32 \<times> AllocatedBuffer list \<Rightarrow>
    (nat \<times> U32 \<times> AllocatedBuffer list) option" where
  "init_bins mgrId numStructs [] st = Some st"
| "init_bins mgrId numStructs (b # bins) st = do {
     st \<leftarrow> init_bin mgrId numStructs (bin_bufferSize b) (unat (bin_numBuffers b)) st;
     init_bins mgrId numStructs bins st
   }"

definition BufferManager_setup :: "U32 \<Rightarrow> (U32 \<Rightarrow> U32 \<Rightarrow> nat option \<times> U32) \<Rightarrow> U32 \<Rightarrow> U32 \<Rightarrow> BufferBin list \<Rightarrow>
    BufferManager \<Rightarrow> BufferManager option" where
  "BufferManager_setup sz allocate mgrId memId bins m = (
     let (memorySize, numStructs) = bins_size sz bins (0, 0);
         (memory, allocatedSize) = allocate memId memorySize in do {
       base \<leftarrow> memory;
       fw_assert (memorySize = allocatedSize);
       (CURR_PTR, currStruct, entries) \<leftarrow> init_bins mgrId numStructs bins (base + unat sz * unat numStructs, 0, []);
       fw_assert (CURR_PTR = base + unat memorySize);
       fw_assert (currStruct = numStructs);
       Some (m\<lparr>bm_mgrId := mgrId, bm_memId := memId, bm_allocator := True, bm_bins := bins, bm_numStructs := numStructs,
         bm_buffers := Some entries, bm_setup := True\<rparr>)
     })"

text \<open>The buffers stay in place after \<open>deallocate\<close>, which is the only output; \<open>m_setup\<close> guards them.\<close>

definition BufferManager_cleanup :: "BufferManager \<Rightarrow> (bool \<times> BufferManager) option" where
  "BufferManager_cleanup m = do {
     fw_assert (bm_buffers m \<noteq> None);
     fw_assert (bm_allocator m);
     Some (if \<not> bm_cleaned m then (True, m\<lparr>bm_cleaned := True, bm_setup := False\<rparr>) else (False, m))
   }"

section \<open>Handlers\<close>

datatype bm_event =
  ZeroSizeBuffer
| NoBuffsAvailable U32

definition bm_bufferSendIn_handler :: "Buffer_Ref \<Rightarrow> BufferManager \<Rightarrow> (bm_event list \<times> BufferManager) option" where
  "bm_bufferSendIn_handler fwBuffer m = do {
     fw_assert (bm_setup m);
     entries \<leftarrow> bm_buffers m;
     if br_size fwBuffer = 0
     then Some ([ZeroSizeBuffer], m\<lparr>bm_emptyBuffs := bm_emptyBuffs m + 1\<rparr>)
     else do {
       let context = br_context fwBuffer;
       let i = and context 0xFFFF;
       let mgrId = drop_bit 16 context;
       fw_assert (i < bm_numStructs m);
       fw_assert (mgrId = bm_mgrId m);
       let e = entries ! unat i;
       fw_assert (ab_allocated e);
       data \<leftarrow> br_data fwBuffer;
       fw_assert (ab_memory e \<le> data);
       fw_assert (data < ab_memory e + unat (ab_size e));
       fw_assert (br_size fwBuffer \<le> ab_size e);
       Some ([], m\<lparr>bm_buffers := Some (entries[unat i := e\<lparr>ab_allocated := False\<rparr>]), bm_currBuffs := bm_currBuffs m - 1\<rparr>)
     }
   }"

fun find_buffer :: "U32 \<Rightarrow> AllocatedBuffer list \<Rightarrow> nat option" where
  "find_buffer size_req [] = None"
| "find_buffer size_req (e # entries) =
     (if \<not> ab_allocated e \<and> size_req \<le> ab_size e then Some 0 else map_option Suc (find_buffer size_req entries))"

definition bm_bufferGetCallee_handler :: "U32 \<Rightarrow> BufferManager \<Rightarrow> (bm_event list \<times> Buffer_Ref \<times> BufferManager) option" where
  "bm_bufferGetCallee_handler size_req m = do {
     fw_assert (bm_setup m);
     entries \<leftarrow> bm_buffers m;
     (case find_buffer size_req entries of
        Some buff \<Rightarrow> do {
          let m = m\<lparr>bm_buffers := Some (entries[buff := (entries ! buff)\<lparr>ab_allocated := True\<rparr>]),
            bm_currBuffs := bm_currBuffs m + 1\<rparr>;
          let m = (if bm_currBuffs m > bm_highWater m then m\<lparr>bm_highWater := bm_currBuffs m\<rparr> else m);
          let copy = ab_buff (entries ! buff);
          fw_assert (br_data copy \<noteq> None);
          Some ([], copy\<lparr>br_size := size_req\<rparr>, m)
        }
      | None \<Rightarrow> Some ([NoBuffsAvailable size_req], Buffer_Ref_empty, m\<lparr>bm_noBuffs := bm_noBuffs m + 1\<rparr>))
   }"

record bm_telemetry =
  HiBuffs :: U32
  CurrBuffs :: U32
  TotalBuffs :: U32
  NoBuffs :: U32
  EmptyBuffs :: U32

definition bm_schedIn_handler :: "BufferManager \<Rightarrow> bm_telemetry" where
  "bm_schedIn_handler m = \<lparr>HiBuffs = bm_highWater m, CurrBuffs = bm_currBuffs m, TotalBuffs = bm_numStructs m,
     NoBuffs = bm_noBuffs m, EmptyBuffs = bm_emptyBuffs m\<rparr>"

section \<open>The layout of the memory\<close>

definition bin_total :: "U32 \<Rightarrow> BufferBin \<Rightarrow> nat" where
  "bin_total sz b = (unat (bin_bufferSize b) + unat sz) * unat (bin_numBuffers b)"

definition memory_total :: "U32 \<Rightarrow> BufferBin list \<Rightarrow> nat" where
  "memory_total sz bins = sum_list (map (bin_total sz) bins)"

definition buffer_count :: "BufferBin list \<Rightarrow> nat" where
  "buffer_count bins = sum_list (map (\<lambda>b. unat (bin_numBuffers b)) bins)"

definition data_total :: "BufferBin list \<Rightarrow> nat" where
  "data_total bins = sum_list (map (\<lambda>b. unat (bin_numBuffers b) * unat (bin_bufferSize b)) bins)"

lemma memory_total_split: "memory_total sz bins = unat sz * buffer_count bins + data_total bins"
  by (induction bins) (simp_all add: memory_total_def buffer_count_def data_total_def bin_total_def algebra_simps)

lemma bins_size_total:
  "bins_size sz bins (a, n) = (a + of_nat (memory_total sz bins), n + of_nat (buffer_count bins))"
  by (induction bins arbitrary: a n)
    (simp_all add: memory_total_def buffer_count_def bin_total_def algebra_simps)

abbreviation ends_before :: "AllocatedBuffer \<Rightarrow> AllocatedBuffer \<Rightarrow> bool" where
  "ends_before e f \<equiv> ab_memory e + unat (ab_size e) \<le> ab_memory f"

definition placed :: "U32 \<Rightarrow> nat \<Rightarrow> nat \<Rightarrow> AllocatedBuffer list \<Rightarrow> bool" where
  "placed mgrId lo hi es \<longleftrightarrow> sorted_wrt ends_before es \<and>
     (\<forall>e \<in> set es. lo \<le> ab_memory e \<and> ab_memory e + unat (ab_size e) \<le> hi) \<and>
     (\<forall>i < length es. ab_buff (es ! i) =
       \<lparr>br_data = Some (ab_memory (es ! i)), br_size = ab_size (es ! i), br_context = buffer_context mgrId (of_nat i)\<rparr>)"

lemma placed_snoc:
  assumes "placed mgrId lo p es" "lo \<le> p"
  shows "placed mgrId lo (p + unat n) (es @ [\<lparr>ab_buff = \<lparr>br_data = Some p, br_size = n, br_context = buffer_context mgrId (of_nat (length es))\<rparr>,
    ab_memory = p, ab_size = n, ab_allocated = False\<rparr>])"
  using assms by (fastforce simp: placed_def sorted_wrt_append nth_append less_Suc_eq)

lemma init_bin_ok:
  assumes "placed mgrId lo p es" "lo \<le> p" "length es \<le> unat N" "\<forall>e \<in> set es. \<not> ab_allocated e"
  shows "if length es + n \<le> unat N
    then \<exists>es'. init_bin mgrId N k n (p, of_nat (length es), es) = Some (p + n * unat k, of_nat (length es'), es') \<and>
      placed mgrId lo (p + n * unat k) es' \<and> length es' = length es + n \<and> (\<forall>e \<in> set es'. \<not> ab_allocated e)
    else init_bin mgrId N k n (p, of_nat (length es), es) = None"
  using assms
proof (induction n arbitrary: p es)
  case (Suc n)
  have lt: "(of_nat (length es) :: U32) < N \<longleftrightarrow> length es < unat N"
  proof -
    have "length es < 4294967296" using Suc.prems(3) unat_lt32 [of N] by linarith
    then show ?thesis by (simp add: word_less_nat_alt unat_of_nat32)
  qed
  let ?e = "\<lparr>ab_buff = \<lparr>br_data = Some p, br_size = k, br_context = buffer_context mgrId (of_nat (length es))\<rparr>,
    ab_memory = p, ab_size = k, ab_allocated = False\<rparr>"
  show ?case
  proof (cases "length es < unat N")
    case True
    obtain es1 where es1: "es1 = es @ [?e]" by simp
    have len: "length es1 = Suc (length es)" "(of_nat (length es) :: U32) + 1 = of_nat (length es1)" by (simp_all add: es1)
    have step: "init_bin mgrId N k (Suc n) (p, of_nat (length es), es) = init_bin mgrId N k n (p + unat k, of_nat (length es1), es1)"
      unfolding init_bin.simps len(2) using True lt by (simp add: es1)
    have sums: "length es + Suc n = length es1 + n" "p + Suc n * unat k = p + unat k + n * unat k" using len(1) by simp_all
    show ?thesis
      unfolding step sums
    proof (rule Suc.IH)
      show "placed mgrId lo (p + unat k) es1" unfolding es1 by (rule placed_snoc [OF Suc.prems(1,2)])
    qed (use Suc.prems(2,4) True len(1) in \<open>auto simp: es1\<close>)
  next
    case False
    then show ?thesis using lt by simp
  qed
qed auto

lemma init_bins_ok:
  assumes "placed mgrId lo p es" "lo \<le> p" "length es \<le> unat N" "\<forall>e \<in> set es. \<not> ab_allocated e"
  shows "if length es + buffer_count bins \<le> unat N
    then \<exists>es'. init_bins mgrId N bins (p, of_nat (length es), es) = Some (p + data_total bins, of_nat (length es'), es') \<and>
      placed mgrId lo (p + data_total bins) es' \<and> length es' = length es + buffer_count bins \<and> (\<forall>e \<in> set es'. \<not> ab_allocated e)
    else init_bins mgrId N bins (p, of_nat (length es), es) = None"
  using assms
proof (induction bins arbitrary: p es)
  case (Cons b bins)
  let ?n = "unat (bin_numBuffers b)" and ?k = "bin_bufferSize b"
  note bin = init_bin_ok [OF Cons.prems, of ?n ?k]
  show ?case
  proof (cases "length es + ?n \<le> unat N")
    case True
    then obtain es' where es': "init_bin mgrId N ?k ?n (p, of_nat (length es), es) = Some (p + ?n * unat ?k, of_nat (length es'), es')"
      "placed mgrId lo (p + ?n * unat ?k) es'" "length es' = length es + ?n" "\<forall>e \<in> set es'. \<not> ab_allocated e"
      using bin by auto
    have step: "init_bins mgrId N (b # bins) (p, of_nat (length es), es) =
        init_bins mgrId N bins (p + ?n * unat ?k, of_nat (length es'), es')"
      using es'(1) by simp
    have sums: "length es + buffer_count (b # bins) = length es' + buffer_count bins"
      "p + data_total (b # bins) = p + ?n * unat ?k + data_total bins"
      by (simp_all add: buffer_count_def data_total_def es'(3))
    show ?thesis
      unfolding step sums
      by (rule Cons.IH [OF es'(2) _ _ es'(4)]) (use Cons.prems(2) True es'(3) in simp_all)
  next
    case False
    then show ?thesis using bin by (simp add: buffer_count_def)
  qed
qed (simp add: buffer_count_def data_total_def)

section \<open>States between calls\<close>

definition in_use :: "AllocatedBuffer list \<Rightarrow> nat set" where
  "in_use es = {i. i < length es \<and> ab_allocated (es ! i)}"

definition pool_ok :: "nat \<Rightarrow> nat \<Rightarrow> AllocatedBuffer list \<Rightarrow> BufferManager \<Rightarrow> bool" where
  "pool_ok lo hi es m \<longleftrightarrow> bm_setup m \<and> bm_buffers m = Some es \<and> unat (bm_numStructs m) = length es \<and>
     placed (bm_mgrId m) lo hi es \<and> unat (bm_currBuffs m) = card (in_use es) \<and> bm_currBuffs m \<le> bm_highWater m"

lemma setup_ok:
  assumes "allocate memId (of_nat (memory_total sz bins)) = (Some base, of_nat (memory_total sz bins))"
    and "memory_total sz bins < 4294967296" "0 < sz" "bm_currBuffs m = 0"
  obtains es m' where "BufferManager_setup sz allocate mgrId memId bins m = Some m'" "length es = buffer_count bins"
    "bm_mgrId m' = mgrId" "in_use es = {}"
    "pool_ok (base + unat sz * buffer_count bins) (base + memory_total sz bins) es m'"
proof -
  let ?N = "of_nat (buffer_count bins) :: U32" and ?lo = "base + unat sz * buffer_count bins"
  have "1 \<le> unat sz" using assms(3) by (simp add: word_less_nat_alt)
  then have "buffer_count bins \<le> unat sz * buffer_count bins" by simp
  then have small: "buffer_count bins < 4294967296"
    using assms(2) unfolding memory_total_split by linarith
  then have N: "unat ?N = buffer_count bins" by (simp add: unat_of_nat32)
  have M: "unat (of_nat (memory_total sz bins) :: U32) = memory_total sz bins" using assms(2) by (simp add: unat_of_nat32)
  have "placed mgrId ?lo ?lo []" by (simp add: placed_def)
  from init_bins_ok [OF this, of ?N bins] obtain es where es:
    "init_bins mgrId ?N bins (?lo, 0, []) = Some (?lo + data_total bins, of_nat (length es), es)"
    "placed mgrId ?lo (?lo + data_total bins) es" "length es = buffer_count bins" "\<forall>e \<in> set es. \<not> ab_allocated e"
    by (auto simp: N)
  have e: "?lo + data_total bins = base + memory_total sz bins" by (simp add: memory_total_split)
  let ?m = "m\<lparr>bm_mgrId := mgrId, bm_memId := memId, bm_allocator := True, bm_bins := bins, bm_numStructs := ?N,
         bm_buffers := Some es, bm_setup := True\<rparr>"
  have "BufferManager_setup sz allocate mgrId memId bins m = Some ?m"
    using es(1,3) assms(1) by (simp add: BufferManager_setup_def bins_size_total N M e)
  moreover have none: "in_use es = {}" using es(4) by (auto simp: in_use_def)
  moreover have "pool_ok ?lo (base + memory_total sz bins) es ?m"
    using es(2,3) N assms(4) none by (simp add: pool_ok_def memory_total_split add.assoc)
  ultimately show thesis using that es(3) by simp
qed

lemma setup_None:
  assumes "allocate memId (of_nat (memory_total sz bins)) = (Some base, of_nat (memory_total sz bins))"
    and "4294967296 \<le> memory_total sz bins"
  shows "BufferManager_setup sz allocate mgrId memId bins m = None"
proof -
  let ?N = "of_nat (buffer_count bins) :: U32" and ?lo = "base + unat sz * unat (of_nat (buffer_count bins) :: U32)"
  have p: "placed mgrId ?lo ?lo []" by (simp add: placed_def)
  show ?thesis
  proof (cases "buffer_count bins \<le> unat ?N")
    case True
    then have "unat ?N = buffer_count bins"
      using mod_less_eq_dividend [of "buffer_count bins" "2 ^ 32"] by (simp add: unat_of_nat)
    moreover have "unat (of_nat (memory_total sz bins) :: U32) < memory_total sz bins"
      using assms(2) unat_lt32 [of "of_nat (memory_total sz bins)"] by linarith
    ultimately show ?thesis
      using init_bins_ok [OF p, of ?N bins] assms(1) True
      by (auto simp: BufferManager_setup_def bins_size_total memory_total_split)
  next
    case False
    then show ?thesis
      using init_bins_ok [OF p, of ?N bins] assms(1) by (auto simp: BufferManager_setup_def bins_size_total)
  qed
qed

lemma placed_update:
  "placed mgrId lo hi es \<Longrightarrow> i < length es \<Longrightarrow> placed mgrId lo hi (es[i := (es ! i)\<lparr>ab_allocated := a\<rparr>])"
  unfolding placed_def
  by (simp add: sorted_wrt_iff_nth_less all_set_conv_all_nth nth_list_update)

lemma placed_before:
  "placed mgrId lo hi es \<Longrightarrow> i < j \<Longrightarrow> j < length es \<Longrightarrow> ab_memory (es ! i) + unat (ab_size (es ! i)) \<le> ab_memory (es ! j)"
  by (simp add: placed_def sorted_wrt_iff_nth_less)

lemma placed_one_range:
  assumes "placed mgrId lo hi es" "i < length es" "j < length es"
    "ab_memory (es ! i) \<le> a" "a < ab_memory (es ! i) + unat (ab_size (es ! i))"
    "ab_memory (es ! j) \<le> a" "a < ab_memory (es ! j) + unat (ab_size (es ! j))"
  shows "i = j"
  using placed_before [OF assms(1), of i j] placed_before [OF assms(1), of j i] assms(2-)
  by (cases i j rule: linorder_cases) simp_all

lemma in_use_update:
  "i < length es \<Longrightarrow> in_use (es[i := (es ! i)\<lparr>ab_allocated := True\<rparr>]) = insert i (in_use es)"
  "i < length es \<Longrightarrow> in_use (es[i := (es ! i)\<lparr>ab_allocated := False\<rparr>]) = in_use es - {i}"
  by (auto simp: in_use_def nth_list_update split: if_splits)

lemma finite_in_use [simp]: "finite (in_use es)"
  by (simp add: in_use_def)

lemma card_in_use: "card (in_use es) \<le> length es"
proof -
  have "card (in_use es) \<le> card {..<length es}" by (rule card_mono) (auto simp: in_use_def)
  then show ?thesis by simp
qed

lemma find_buffer_Some:
  "find_buffer n es = Some i \<Longrightarrow> i < length es \<and> \<not> ab_allocated (es ! i) \<and> n \<le> ab_size (es ! i) \<and>
     (\<forall>j < i. ab_allocated (es ! j) \<or> ab_size (es ! j) < n)"
proof (induction es arbitrary: i)
  case (Cons e es)
  then show ?case by (cases i) (auto simp: less_Suc_eq_0_disj not_le split: if_splits)
qed simp

lemma find_buffer_None: "find_buffer n es = None \<longleftrightarrow> (\<forall>e \<in> set es. ab_allocated e \<or> ab_size e < n)"
  by (induction es) (auto simp: not_le)

text \<open>The two handlers on a pool.\<close>

lemma get_found:
  assumes "pool_ok lo hi es m" "find_buffer n es = Some i"
  obtains m' where "bm_bufferGetCallee_handler n m = Some ([], \<lparr>br_data = Some (ab_memory (es ! i)), br_size = n,
      br_context = buffer_context (bm_mgrId m) (of_nat i)\<rparr>, m')"
    "pool_ok lo hi (es[i := (es ! i)\<lparr>ab_allocated := True\<rparr>]) m'" "bm_mgrId m' = bm_mgrId m"
proof -
  note i = find_buffer_Some [OF assms(2)]
  let ?es = "es[i := (es ! i)\<lparr>ab_allocated := True\<rparr>]"
  have p: "placed (bm_mgrId m) lo hi es" "bm_setup m" "bm_buffers m = Some es" "unat (bm_numStructs m) = length es"
    "unat (bm_currBuffs m) = card (in_use es)"
    using assms(1) by (simp_all add: pool_ok_def)
  have b: "ab_buff (es ! i) = \<lparr>br_data = Some (ab_memory (es ! i)), br_size = ab_size (es ! i),
      br_context = buffer_context (bm_mgrId m) (of_nat i)\<rparr>"
    using p(1) i by (simp add: placed_def)
  have "card (in_use ?es) = card (in_use es) + 1" using i by (simp add: in_use_update) (simp add: in_use_def)
  moreover have "card (in_use ?es) \<le> length es" using card_in_use [of ?es] by simp
  ultimately have "unat (bm_currBuffs m + 1) = card (in_use ?es)"
    using p(4,5) unat_lt32 [of "bm_numStructs m"] unat_add_small [of "bm_currBuffs m" 1] by simp
  then have "pool_ok lo hi ?es (m\<lparr>bm_buffers := Some ?es, bm_currBuffs := bm_currBuffs m + 1,
      bm_highWater := (if bm_currBuffs m + 1 > bm_highWater m then bm_currBuffs m + 1 else bm_highWater m)\<rparr>)"
    using p i placed_update [OF p(1)] by (simp add: pool_ok_def not_less)
  moreover have "bm_bufferGetCallee_handler n m = Some ([], (ab_buff (es ! i))\<lparr>br_size := n\<rparr>,
      m\<lparr>bm_buffers := Some ?es, bm_currBuffs := bm_currBuffs m + 1,
      bm_highWater := (if bm_currBuffs m + 1 > bm_highWater m then bm_currBuffs m + 1 else bm_highWater m)\<rparr>)"
    using p(2,3) assms(2) b by (simp add: bm_bufferGetCallee_handler_def Let_def)
  ultimately show thesis using that b by simp
qed

lemma get_refused:
  assumes "pool_ok lo hi es m" "find_buffer n es = None"
  shows "bm_bufferGetCallee_handler n m = Some ([NoBuffsAvailable n], Buffer_Ref_empty, m\<lparr>bm_noBuffs := bm_noBuffs m + 1\<rparr>)"
    "pool_ok lo hi es (m\<lparr>bm_noBuffs := bm_noBuffs m + 1\<rparr>)"
  using assms by (simp_all add: pool_ok_def bm_bufferGetCallee_handler_def)

lemma send_frees:
  assumes "pool_ok lo hi es m" "bm_bufferSendIn_handler b m = Some (ev, m')" "br_size b \<noteq> 0"
    and "br_data b = Some a" "i < length es" "ab_memory (es ! i) \<le> a" "a < ab_memory (es ! i) + unat (ab_size (es ! i))"
  shows "pool_ok lo hi (es[i := (es ! i)\<lparr>ab_allocated := False\<rparr>]) m' \<and> i \<in> in_use es \<and> bm_mgrId m' = bm_mgrId m"
proof -
  let ?j = "unat (and (br_context b) 0xFFFF)"
  have p: "placed (bm_mgrId m) lo hi es" "bm_setup m" "bm_buffers m = Some es" "unat (bm_numStructs m) = length es"
    "unat (bm_currBuffs m) = card (in_use es)" "bm_currBuffs m \<le> bm_highWater m"
    using assms(1) by (simp_all add: pool_ok_def)
  have j: "?j < length es" "ab_allocated (es ! ?j)" "ab_memory (es ! ?j) \<le> a" "a < ab_memory (es ! ?j) + unat (ab_size (es ! ?j))"
    "m' = m\<lparr>bm_buffers := Some (es[?j := (es ! ?j)\<lparr>ab_allocated := False\<rparr>]), bm_currBuffs := bm_currBuffs m - 1\<rparr>"
    using assms(2-4) p(2-4) by (auto simp: bm_bufferSendIn_handler_def Let_def word_less_nat_alt split: if_splits)
  then have i: "?j = i" using placed_one_range [OF p(1)] assms(5-7) by blast
  then have used: "i \<in> in_use es" using j by (simp add: in_use_def)
  then have c: "0 < card (in_use es)" by (auto simp: card_gt_0_iff)
  have "unat (bm_currBuffs m - 1) = card (in_use es) - 1"
    using p(5) c unat_dec [of "bm_currBuffs m"] by simp
  moreover have "bm_currBuffs m - 1 \<le> bm_highWater m"
    using p(5,6) c unat_dec [of "bm_currBuffs m"] by (simp add: word_le_nat_alt)
  ultimately show ?thesis
    using p j i used placed_update [OF p(1)] by (simp add: pool_ok_def in_use_update card_Diff_singleton)
qed

section \<open>Buffers in the hands of the users\<close>

text \<open>
  A user may make a buffer smaller and move its start before returning it, within the memory it got.
  \<open>bm_reach m0 m out\<close>: calls of the two handlers lead from \<open>m0\<close> to \<open>m\<close> with the buffers \<open>out\<close>
  handed out and not returned.
\<close>

definition shrunk :: "Buffer_Ref \<Rightarrow> Buffer_Ref \<Rightarrow> bool" where
  "shrunk b b' \<longleftrightarrow> br_context b' = br_context b \<and> 0 < br_size b' \<and> br_size b' \<le> br_size b \<and>
     (\<exists>a a'. br_data b = Some a \<and> br_data b' = Some a' \<and> a \<le> a' \<and> a' < a + unat (br_size b))"

inductive bm_reach :: "BufferManager \<Rightarrow> BufferManager \<Rightarrow> Buffer_Ref list \<Rightarrow> bool" for m0 :: BufferManager where
  start: "bm_reach m0 m0 []"
| got: "bm_reach m0 m out \<Longrightarrow> bm_bufferGetCallee_handler n m = Some (ev, b, m') \<Longrightarrow> br_data b \<noteq> None \<Longrightarrow>
    bm_reach m0 m' (b # out)"
| refused: "bm_reach m0 m out \<Longrightarrow> bm_bufferGetCallee_handler n m = Some (ev, b, m') \<Longrightarrow> br_data b = None \<Longrightarrow>
    bm_reach m0 m' out"
| returned: "bm_reach m0 m (xs @ b # ys) \<Longrightarrow> shrunk b b' \<Longrightarrow> bm_bufferSendIn_handler b' m = Some (ev, m') \<Longrightarrow>
    bm_reach m0 m' (xs @ ys)"
| empty: "bm_reach m0 m out \<Longrightarrow> br_size b = 0 \<Longrightarrow> bm_bufferSendIn_handler b m = Some (ev, m') \<Longrightarrow>
    bm_reach m0 m' out"

definition hands_out :: "AllocatedBuffer list \<Rightarrow> U32 \<Rightarrow> nat \<Rightarrow> Buffer_Ref \<Rightarrow> bool" where
  "hands_out es mgrId i b \<longleftrightarrow> i < length es \<and> br_data b = Some (ab_memory (es ! i)) \<and> br_size b \<le> ab_size (es ! i) \<and>
     br_context b = buffer_context mgrId (of_nat i)"

definition users_ok :: "nat \<Rightarrow> nat \<Rightarrow> U32 \<Rightarrow> nat \<Rightarrow> BufferManager \<Rightarrow> Buffer_Ref list \<Rightarrow> bool" where
  "users_ok lo hi mgrId n m out \<longleftrightarrow> (\<exists>es ids. pool_ok lo hi es m \<and> bm_mgrId m = mgrId \<and> length es = n \<and> distinct ids \<and>
     set ids = in_use es \<and> list_all2 (hands_out es mgrId) ids out)"

lemma hands_out_update [simp]: "hands_out (es[j := (es ! j)\<lparr>ab_allocated := a\<rparr>]) = hands_out es"
  by (cases "j < length es") (auto simp: hands_out_def nth_list_update fun_eq_iff)

lemma get_keeps_users:
  assumes "users_ok lo hi mgrId k m out" "bm_bufferGetCallee_handler n m = Some (ev, b, m')"
  shows "users_ok lo hi mgrId k m' (if br_data b = None then out else b # out)"
proof -
  obtain es ids where es: "pool_ok lo hi es m" "bm_mgrId m = mgrId" "length es = k" "distinct ids" "set ids = in_use es"
    "list_all2 (hands_out es mgrId) ids out" using assms(1) by (auto simp: users_ok_def)
  show ?thesis
  proof (cases "find_buffer n es")
    case None
    then show ?thesis
      using get_refused [OF es(1) None] assms(2) es by (auto simp: users_ok_def Buffer_Ref_empty_def)
  next
    case (Some i)
    note i = find_buffer_Some [OF Some]
    let ?es = "es[i := (es ! i)\<lparr>ab_allocated := True\<rparr>]"
    obtain m1 where m1: "bm_bufferGetCallee_handler n m = Some ([], \<lparr>br_data = Some (ab_memory (es ! i)), br_size = n,
        br_context = buffer_context (bm_mgrId m) (of_nat i)\<rparr>, m1)" "pool_ok lo hi ?es m1" "bm_mgrId m1 = bm_mgrId m"
      by (rule get_found [OF es(1) Some])
    have "i \<notin> set ids" using i es(5) by (simp add: in_use_def)
    moreover have "hands_out ?es mgrId i b" using m1(1) assms(2) es(2) i by (simp add: hands_out_def)
    moreover have "m1 = m'" "(if br_data b = None then out else b # out) = b # out" using m1(1) assms(2) by auto
    ultimately show ?thesis
      using m1(2,3) es i unfolding users_ok_def
      by (intro exI [of _ ?es] exI [of _ "i # ids"]) (simp add: in_use_update)
  qed
qed

lemma send_keeps_users:
  assumes "users_ok lo hi mgrId k m (xs @ b # ys)" "shrunk b b'" "bm_bufferSendIn_handler b' m = Some (ev, m')"
  shows "users_ok lo hi mgrId k m' (xs @ ys)"
proof -
  obtain es ids where es: "pool_ok lo hi es m" "bm_mgrId m = mgrId" "length es = k" "distinct ids" "set ids = in_use es"
    "list_all2 (hands_out es mgrId) ids (xs @ b # ys)" using assms(1) by (auto simp: users_ok_def)
  then obtain us i vs where ids: "ids = us @ i # vs" "list_all2 (hands_out es mgrId) us xs" "hands_out es mgrId i b"
    "list_all2 (hands_out es mgrId) vs ys"
    by (auto simp: list_all2_append2 list_all2_Cons2)
  obtain a a' where a: "br_data b = Some a" "br_data b' = Some a'" "a \<le> a'" "a' < a + unat (br_size b)" "0 < br_size b'"
    using assms(2) by (auto simp: shrunk_def)
  have i: "i < length es" "ab_memory (es ! i) \<le> a'" "a' < ab_memory (es ! i) + unat (ab_size (es ! i))"
    using ids(3) a by (auto simp: hands_out_def word_le_nat_alt)
  have "pool_ok lo hi (es[i := (es ! i)\<lparr>ab_allocated := False\<rparr>]) m'" "bm_mgrId m' = bm_mgrId m"
    using send_frees [OF es(1) assms(3) _ a(2) i] a(5) by auto
  moreover have "set (us @ vs) = in_use es - {i}" "distinct (us @ vs)" using es(4,5) ids(1) by auto
  moreover have "list_all2 (hands_out es mgrId) (us @ vs) (xs @ ys)" using ids(2,4) by (rule list_all2_appendI)
  ultimately show ?thesis
    using es(2,3) i(1) unfolding users_ok_def
    by (intro exI [of _ "es[i := (es ! i)\<lparr>ab_allocated := False\<rparr>]"] exI [of _ "us @ vs"]) (simp add: in_use_update)
qed

lemma reach_users_ok:
  assumes "bm_reach m0 m out" "users_ok lo hi mgrId k m0 []"
  shows "users_ok lo hi mgrId k m out"
  using assms
proof (induction rule: bm_reach.induct)
  case (got m out n ev b m')
  then show ?case using get_keeps_users [of lo hi mgrId k m out n ev b m'] by (cases "br_data b") simp_all
next
  case (refused m out n ev b m')
  then show ?case using get_keeps_users [of lo hi mgrId k m out n ev b m'] by simp
next
  case (returned m xs b ys b' ev m')
  then show ?case using send_keeps_users by blast
next
  case (empty m out b ev m')
  then show ?case
    by (auto simp: users_ok_def pool_ok_def bm_bufferSendIn_handler_def split: if_splits bind_splits)
qed

lemma setup_users:
  assumes "allocate memId (of_nat (memory_total sz bins)) = (Some base, of_nat (memory_total sz bins))"
    and "BufferManager_setup sz allocate mgrId memId bins BufferManager_new = Some m0" "0 < sz"
  shows "users_ok (base + unat sz * buffer_count bins) (base + memory_total sz bins) mgrId (buffer_count bins) m0 []"
proof -
  have small: "memory_total sz bins < 4294967296"
    using setup_None [where allocate = allocate and memId = memId and sz = sz and bins = bins and base = base, OF assms(1)] assms(2) by (force simp: not_less)
  obtain es m' where "BufferManager_setup sz allocate mgrId memId bins BufferManager_new = Some m'"
    "length es = buffer_count bins" "bm_mgrId m' = mgrId" "in_use es = {}"
    "pool_ok (base + unat sz * buffer_count bins) (base + memory_total sz bins) es m'"
    by (rule setup_ok [where allocate = allocate and memId = memId and sz = sz and bins = bins and base = base
        and m = BufferManager_new, OF assms(1) small assms(3)]) (simp add: BufferManager_new_def)
  then show ?thesis
    using assms(2) unfolding users_ok_def by (intro exI [of _ es] exI [of _ "[]"]) simp
qed

section \<open>Properties\<close>

text \<open>
  The memory of the pool is laid out for all bins or the set-up stops: with an allocator that
  gives what it is asked for, \<open>setup\<close> completes exactly when the buffers and their entries need
  less than 2^32 bytes, so that a size that wraps around never leads to a pool.
\<close>

theorem setup_iff_fits:
  assumes "allocate memId (of_nat (memory_total sz bins)) = (Some base, of_nat (memory_total sz bins))" "0 < sz"
  shows "BufferManager_setup sz allocate mgrId memId bins BufferManager_new \<noteq> None \<longleftrightarrow> memory_total sz bins < 4294967296"
proof (cases "memory_total sz bins < 4294967296")
  case True
  obtain m' where "BufferManager_setup sz allocate mgrId memId bins BufferManager_new = Some m'"
    by (rule setup_ok [where allocate = allocate and memId = memId and sz = sz and bins = bins and base = base and mgrId = mgrId
        and m = BufferManager_new, OF assms(1) True assms(2)]) (simp_all add: BufferManager_new_def)
  then show ?thesis using True by simp
next
  case False
  then show ?thesis using setup_None [where allocate = allocate and memId = memId and sz = sz and bins = bins and base = base, OF assms(1)] by simp
qed

lemma setup_iff_fits_witness:
  "BufferManager_setup 64 (\<lambda>_ n. (Some 1000, n)) 1 0 [\<lparr>bin_bufferSize = 0x80000000, bin_numBuffers = 2\<rparr>] BufferManager_new = None"
  using setup_iff_fits [of "\<lambda>_ n. (Some 1000, n)" 0 64 "[\<lparr>bin_bufferSize = 0x80000000, bin_numBuffers = 2\<rparr>]" 1000 1]
  by (simp add: memory_total_def bin_total_def)

definition memory_of :: "Buffer_Ref \<Rightarrow> nat set" where
  "memory_of b = (case br_data b of None \<Rightarrow> {} | Some a \<Rightarrow> {a..<a + unat (br_size b)})"

text \<open>
  C14: The pool never hands out the same memory twice: after the set-up and any sequence of requests
  and returns, the buffers in the hands of the users do not overlap each other or the entries of
  the pool, lie in the allocated block, and the counter of \<open>CurrBuffs\<close> is their number.
\<close>

theorem buffers_never_overlap:
  assumes "allocate memId (of_nat (memory_total sz bins)) = (Some base, of_nat (memory_total sz bins))" "0 < sz"
    and "BufferManager_setup sz allocate mgrId memId bins BufferManager_new = Some m0" "bm_reach m0 m out"
  shows "(\<forall>i j. i < j \<and> j < length out \<longrightarrow> memory_of (out ! i) \<inter> memory_of (out ! j) = {}) \<and>
    (\<forall>b \<in> set out. memory_of b \<subseteq> {base + unat sz * buffer_count bins..<base + memory_total sz bins}) \<and>
    unat (CurrBuffs (bm_schedIn_handler m)) = length out"
proof -
  have "users_ok (base + unat sz * buffer_count bins) (base + memory_total sz bins) mgrId (buffer_count bins) m out"
    by (rule reach_users_ok [OF assms(4) setup_users [OF assms(1,3,2)]])
  then obtain es ids where es: "pool_ok (base + unat sz * buffer_count bins) (base + memory_total sz bins) es m"
    "distinct ids" "set ids = in_use es" "list_all2 (hands_out es mgrId) ids out" by (auto simp: users_ok_def)
  have p: "placed (bm_mgrId m) (base + unat sz * buffer_count bins) (base + memory_total sz bins) es"
    "unat (bm_currBuffs m) = card (in_use es)" using es(1) by (simp_all add: pool_ok_def)
  have len: "length ids = length out" using es(4) by (rule list_all2_lengthD)
  have h: "hands_out es mgrId (ids ! i) (out ! i)" if "i < length out" for i
    using es(4) that len by (simp add: list_all2_conv_all_nth)
  have sub: "memory_of (out ! i) \<subseteq> {ab_memory (es ! (ids ! i))..<ab_memory (es ! (ids ! i)) + unat (ab_size (es ! (ids ! i)))}"
    if "i < length out" for i
    using h [OF that] by (auto simp: memory_of_def hands_out_def word_le_nat_alt)
  have "memory_of (out ! i) \<inter> memory_of (out ! j) = {}" if "i < j" "j < length out" for i j
  proof -
    have "ids ! i \<noteq> ids ! j" "ids ! i < length es" "ids ! j < length es"
      using that len es(2) h [of i] h [of j] by (simp_all add: nth_eq_iff_index_eq hands_out_def)
    then show ?thesis
      using sub [of i] sub [of j] placed_one_range [OF p(1), of "ids ! i" "ids ! j"] that by fastforce
  qed
  moreover have "memory_of b \<subseteq> {base + unat sz * buffer_count bins..<base + memory_total sz bins}" if b: "b \<in> set out" for b
  proof -
    obtain i where i: "i < length out" "b = out ! i" using b by (auto simp: in_set_conv_nth)
    then have "es ! (ids ! i) \<in> set es" using h [of i] by (simp add: hands_out_def)
    then show ?thesis using sub [OF i(1)] p(1) i(2) by (fastforce simp: placed_def)
  qed
  moreover have "card (in_use es) = length out" using distinct_card [OF es(2)] es(3) len by simp
  ultimately show ?thesis using p(2) by (simp add: bm_schedIn_handler_def)
qed

definition two_buffers :: "BufferBin list" where
  "two_buffers = [\<lparr>bin_bufferSize = 16, bin_numBuffers = 2\<rparr>]"

lemma two_buffers_run:
  "\<exists>m0 m1 m2 b1 b2. BufferManager_setup 64 (\<lambda>_ n. (Some 1000, n)) 1 0 two_buffers BufferManager_new = Some m0 \<and>
    bm_bufferGetCallee_handler 10 m0 = Some ([], b1, m1) \<and> bm_bufferGetCallee_handler 8 m1 = Some ([], b2, m2) \<and>
    br_data b1 = Some 1128 \<and> br_data b2 = Some 1144 \<and> br_size b1 = 10"
proof -
  have "bins_size 64 two_buffers (0, 0) = (160, 2)" by (simp add: two_buffers_def)
  moreover have "init_bins 1 2 two_buffers (1128, 0, []) = Some (1160, 2, map (\<lambda>i.
      \<lparr>ab_buff = \<lparr>br_data = Some (1128 + 16 * i), br_size = 16, br_context = buffer_context 1 (of_nat i)\<rparr>,
        ab_memory = 1128 + 16 * i, ab_size = 16, ab_allocated = False\<rparr>) [0, 1])"
  proof -
    have two: "init_bin mgrId N k 2 st = init_bin mgrId N k (Suc (Suc 0)) st" for mgrId N k st
      by (simp add: numeral_2_eq_2)
    show ?thesis by (simp add: two_buffers_def two)
  qed
  ultimately show ?thesis
    by (simp add: BufferManager_setup_def BufferManager_new_def bm_bufferGetCallee_handler_def Let_def)
qed

lemma buffers_never_overlap_witness:
  "\<exists>m0 m1 m2 b1 b2. BufferManager_setup 64 (\<lambda>_ n. (Some 1000, n)) 1 0 two_buffers BufferManager_new = Some m0 \<and>
    bm_bufferGetCallee_handler 10 m0 = Some ([], b1, m1) \<and> bm_bufferGetCallee_handler 8 m1 = Some ([], b2, m2) \<and>
    memory_of b2 \<inter> memory_of b1 = {} \<and> unat (CurrBuffs (bm_schedIn_handler m2)) = 2"
proof -
  obtain m0 m1 m2 b1 b2 where run: "BufferManager_setup 64 (\<lambda>_ n. (Some 1000, n)) 1 0 two_buffers BufferManager_new = Some m0"
    "bm_bufferGetCallee_handler 10 m0 = Some ([], b1, m1)" "bm_bufferGetCallee_handler 8 m1 = Some ([], b2, m2)"
    "br_data b1 = Some 1128" "br_data b2 = Some 1144"
    using two_buffers_run by blast
  have "bm_reach m0 m2 [b2, b1]"
    by (rule bm_reach.got [OF bm_reach.got [OF bm_reach.start run(2)] run(3)]) (simp_all add: run(4,5))
  from buffers_never_overlap [where base = 1000, OF _ _ run(1) this]
  have all: "\<forall>i j. i < j \<and> j < length [b2, b1] \<longrightarrow> memory_of ([b2, b1] ! i) \<inter> memory_of ([b2, b1] ! j) = {}"
    and n: "unat (CurrBuffs (bm_schedIn_handler m2)) = length [b2, b1]" by simp_all
  have "memory_of b2 \<inter> memory_of b1 = {}" using all [rule_format, of 0 1] by simp
  then show ?thesis using run(1-3) n by auto
qed

lemma low_bits:
  assumes "unat (i :: U32) < 65536"
  shows "\<not> bit i (n + 16)"
proof -
  have "take_bit 16 i = i"
    by (rule word_unat_eq_iff [THEN iffD2]) (use assms in \<open>simp add: unsigned_take_bit_eq take_bit_eq_mod unat_mod\<close>)
  then have "bit i (n + 16) = bit (take_bit 16 i) (n + 16)" by simp
  then show ?thesis by (simp add: bit_take_bit_iff)
qed

lemma context_decodes:
  assumes "unat i < 65536" "unat mgrId < 65536"
  shows "and (buffer_context mgrId i) 0xFFFF = i" "drop_bit 16 (buffer_context mgrId i) = mgrId"
proof -
  have m: "(0xFFFF :: U32) = mask 16" by (simp add: mask_eq_exp_minus_1)
  have hi: "\<not> bit i n" "\<not> bit mgrId n" if "16 \<le> n" for n
    using low_bits [OF assms(1), of "n - 16"] low_bits [OF assms(2), of "n - 16"] that by simp_all
  show "and (buffer_context mgrId i) 0xFFFF = i"
    unfolding m buffer_context_def by (rule bit_word_eqI) (auto simp: bit_simps; meson hi not_less)
  show "drop_bit 16 (buffer_context mgrId i) = mgrId"
    unfolding buffer_context_def
  proof (rule bit_word_eqI)
    fix n assume n: "n < LENGTH(32)"
    show "bit (drop_bit 16 (or (push_bit 16 mgrId) i)) n \<longleftrightarrow> bit mgrId n"
      using hi(1) [of "n + 16"] hi(2) [of n] n by (cases "n < 16") (auto simp: bit_simps add.commute)
  qed
qed

text \<open>
  A user that returns what it got, shrunk or not, is never stopped by an assertion: the context
  leads back to the entry of the buffer, for manager numbers and pools of at most 16 bits. Beyond
  those the number and the index overlap in the context, which the set-up does not check.
\<close>

theorem return_accepted:
  assumes "allocate memId (of_nat (memory_total sz bins)) = (Some base, of_nat (memory_total sz bins))" "0 < sz"
    and "BufferManager_setup sz allocate mgrId memId bins BufferManager_new = Some m0" "bm_reach m0 m out"
    and "b \<in> set out" "shrunk b b'" "unat mgrId < 65536" "buffer_count bins \<le> 65536"
  shows "\<exists>m'. bm_bufferSendIn_handler b' m = Some ([], m') \<and> bm_currBuffs m' = bm_currBuffs m - 1"
proof -
  have "users_ok (base + unat sz * buffer_count bins) (base + memory_total sz bins) mgrId (buffer_count bins) m out"
    by (rule reach_users_ok [OF assms(4) setup_users [OF assms(1,3,2)]])
  then obtain es ids where es: "pool_ok (base + unat sz * buffer_count bins) (base + memory_total sz bins) es m"
    "bm_mgrId m = mgrId" "length es = buffer_count bins" "set ids = in_use es" "list_all2 (hands_out es mgrId) ids out"
    by (auto simp: users_ok_def)
  obtain i where i: "i \<in> in_use es" "hands_out es mgrId i b"
    using es(4,5) assms(5) by (metis in_set_conv_nth list_all2_conv_all_nth)
  have p: "bm_setup m" "bm_buffers m = Some es" "unat (bm_numStructs m) = length es"
    using es(1) by (simp_all add: pool_ok_def)
  have len: "i < length es" "i < 65536" "ab_allocated (es ! i)" using i(1) es(3) assms(8) by (simp_all add: in_use_def)
  have ui: "unat (of_nat i :: U32) = i" using len(2) by (simp add: unat_of_nat32)
  obtain a a' where a: "br_data b' = Some a'" "br_context b' = buffer_context mgrId (of_nat i)" "0 < br_size b'"
    "br_size b' \<le> ab_size (es ! i)" "ab_memory (es ! i) \<le> a'" "a' < ab_memory (es ! i) + unat (ab_size (es ! i))"
    using assms(6) i(2) by (auto simp: shrunk_def hands_out_def word_le_nat_alt)
  note ctx = context_decodes [of "of_nat i" mgrId, unfolded ui, OF len(2) assms(7)]
  have "(of_nat i :: U32) < bm_numStructs m" using len(1) ui p(3) by (simp add: word_less_nat_alt)
  then show ?thesis
    using p a len es(2) ctx ui by (simp add: bm_bufferSendIn_handler_def Let_def)
qed

lemma return_accepted_witness:
  "\<exists>m0 m1 b1 m2. BufferManager_setup 64 (\<lambda>_ n. (Some 1000, n)) 1 0 two_buffers BufferManager_new = Some m0 \<and>
    bm_bufferGetCallee_handler 10 m0 = Some ([], b1, m1) \<and> bm_bufferSendIn_handler (b1\<lparr>br_size := 1\<rparr>) m1 = Some ([], m2)"
proof -
  obtain m0 m1 b1 where run: "BufferManager_setup 64 (\<lambda>_ n. (Some 1000, n)) 1 0 two_buffers BufferManager_new = Some m0"
    "bm_bufferGetCallee_handler 10 m0 = Some ([], b1, m1)" "br_data b1 = Some 1128" "br_size b1 = 10"
    using two_buffers_run by blast
  have "bm_reach m0 m1 [b1]"
    by (rule bm_reach.got [OF bm_reach.start run(2)]) (simp add: run(3))
  from return_accepted [where base = 1000, OF _ _ run(1) this, of b1 "b1\<lparr>br_size := 1\<rparr>"] run show ?thesis
    by (auto simp: shrunk_def buffer_count_def two_buffers_def)
qed

text \<open>
  A request for zero bytes takes a buffer that never comes back: it is handed out with size
  zero, and its return is only counted as an empty buffer.
\<close>

theorem zero_request_leaks:
  assumes "pool_ok lo hi es m" "find_buffer 0 es = Some i" "bm_bufferGetCallee_handler 0 m = Some (ev, b, m')"
  shows "\<exists>m''. bm_bufferSendIn_handler b m' = Some ([ZeroSizeBuffer], m'') \<and> bm_currBuffs m'' = bm_currBuffs m + 1 \<and>
    pool_ok lo hi (es[i := (es ! i)\<lparr>ab_allocated := True\<rparr>]) m''"
proof -
  obtain m1 where m1: "bm_bufferGetCallee_handler 0 m = Some ([], \<lparr>br_data = Some (ab_memory (es ! i)), br_size = 0,
      br_context = buffer_context (bm_mgrId m) (of_nat i)\<rparr>, m1)"
    "pool_ok lo hi (es[i := (es ! i)\<lparr>ab_allocated := True\<rparr>]) m1" "bm_mgrId m1 = bm_mgrId m"
    by (rule get_found [OF assms(1,2)])
  then have b: "br_size b = 0" "m' = m1" using assms(3) by auto
  have "bm_currBuffs m1 = bm_currBuffs m + 1"
    using m1(1) assms(1,2) by (auto simp: bm_bufferGetCallee_handler_def pool_ok_def Let_def split: if_splits)
  then show ?thesis
    using m1(2) b by (auto simp: bm_bufferSendIn_handler_def pool_ok_def)
qed

end
