(* ===== verification/Rate_Limiting.thy ===== *)
theory Rate_Limiting
  imports Fw_Time
begin

text \<open>
  Utils/TokenBucket.cpp and Utils/RateLimiter.cpp: two ways to let an action happen at most so
  often, by tokens that are replenished with time and by cycles of calls or of seconds.
\<close>

section \<open>TokenBucket\<close>

definition MAX_TOKEN_BUCKET_TOKENS :: U32 where "MAX_TOKEN_BUCKET_TOKENS = 1000"

record TokenBucket =
  tb_replenishInterval :: U32
  tb_maxTokens :: U32
  tb_replenishRate :: U32
  tb_tokens :: U32
  tb_time :: Time

definition TokenBucket_full :: "U32 \<Rightarrow> U32 \<Rightarrow> U32 \<Rightarrow> U32 \<Rightarrow> Time \<Rightarrow> TokenBucket" where
  "TokenBucket_full replenishInterval maxTokens replenishRate startTokens startTime =
     \<lparr>tb_replenishInterval = replenishInterval, tb_maxTokens = maxTokens, tb_replenishRate = replenishRate,
       tb_tokens = startTokens, tb_time = startTime\<rparr>"

definition TokenBucket_new :: "U32 \<Rightarrow> U32 \<Rightarrow> TokenBucket option" where
  "TokenBucket_new replenishInterval maxTokens = (
     let b = \<lparr>tb_replenishInterval = replenishInterval, tb_maxTokens = maxTokens, tb_replenishRate = 1,
       tb_tokens = maxTokens, tb_time = Time_make TB_NONE 0 0 0\<rparr> in do {
       fw_assert (tb_maxTokens b \<le> MAX_TOKEN_BUCKET_TOKENS);
       Some b
     })"

definition setReplenishInterval :: "U32 \<Rightarrow> TokenBucket \<Rightarrow> TokenBucket" where
  "setReplenishInterval replenishInterval b = b\<lparr>tb_replenishInterval := replenishInterval\<rparr>"

definition setMaxTokens :: "U32 \<Rightarrow> TokenBucket \<Rightarrow> TokenBucket" where
  "setMaxTokens maxTokens b = b\<lparr>tb_maxTokens := maxTokens\<rparr>"

definition setReplenishRate :: "U32 \<Rightarrow> TokenBucket \<Rightarrow> TokenBucket" where
  "setReplenishRate replenishRate b = b\<lparr>tb_replenishRate := replenishRate\<rparr>"

definition replenish :: "TokenBucket \<Rightarrow> TokenBucket" where
  "replenish b = (if tb_tokens b < tb_maxTokens b then b\<lparr>tb_tokens := tb_maxTokens b\<rparr> else b)"

text \<open>The loop adds tokens for one interval after the other.\<close>

partial_function (option) replenish_loop :: "Time \<Rightarrow> Time \<Rightarrow> Time \<Rightarrow> TokenBucket \<Rightarrow> TokenBucket option" where
  "replenish_loop replenishInterval time nextTime b =
     (if tb_tokens b < tb_maxTokens b \<and> Time_le nextTime time then do {
        let b = b\<lparr>tb_tokens := tb_tokens b + min (tb_replenishRate b) (tb_maxTokens b - tb_tokens b),
          tb_time := nextTime\<rparr>;
        nextTime \<leftarrow> Time_add (tb_time b) replenishInterval;
        replenish_loop replenishInterval time nextTime b
      }
      else Some b)"

declare replenish_loop.simps [code]

definition TokenBucket_trigger :: "Time \<Rightarrow> TokenBucket \<Rightarrow> (bool \<times> TokenBucket) option" where
  "TokenBucket_trigger time b = do {
     b \<leftarrow>
       (if tb_replenishRate b > 0 then do {
          let replenishInterval = Time_make TB_NONE 0 (tb_replenishInterval b div 1000000) (tb_replenishInterval b mod 1000000);
          nextTime \<leftarrow> Time_add (tb_time b) replenishInterval;
          b \<leftarrow> replenish_loop replenishInterval time nextTime b;
          Some (if tb_tokens b \<ge> tb_maxTokens b \<and> Time_lt (tb_time b) time then b\<lparr>tb_time := time\<rparr> else b)
        }
        else Some b);
     Some (if tb_tokens b > 0 then (True, b\<lparr>tb_tokens := tb_tokens b - 1\<rparr>) else (False, b))
   }"

section \<open>RateLimiter\<close>

record RateLimiter =
  rl_counterCycle :: U32
  rl_timeCycle :: U32
  rl_counter :: U32
  rl_time :: Time
  rl_timeAtNegativeInfinity :: bool

definition resetCounter :: "RateLimiter \<Rightarrow> RateLimiter" where
  "resetCounter r = r\<lparr>rl_counter := 0\<rparr>"

definition resetTime :: "RateLimiter \<Rightarrow> RateLimiter" where
  "resetTime r = r\<lparr>rl_time := Time_new, rl_timeAtNegativeInfinity := True\<rparr>"

definition RateLimiter_reset :: "RateLimiter \<Rightarrow> RateLimiter" where
  "RateLimiter_reset r = resetTime (resetCounter r)"

text \<open>The members that the constructor leaves to \<open>reset\<close> have no value before it.\<close>

definition RateLimiter_new :: "U32 \<Rightarrow> U32 \<Rightarrow> RateLimiter" where
  "RateLimiter_new counterCycle timeCycle = RateLimiter_reset
     \<lparr>rl_counterCycle = counterCycle, rl_timeCycle = timeCycle, rl_counter = 0, rl_time = Time_new,
       rl_timeAtNegativeInfinity = True\<rparr>"

definition setCounterCycle :: "U32 \<Rightarrow> RateLimiter \<Rightarrow> RateLimiter" where
  "setCounterCycle counterCycle r = r\<lparr>rl_counterCycle := counterCycle\<rparr>"

definition setTimeCycle :: "U32 \<Rightarrow> RateLimiter \<Rightarrow> RateLimiter" where
  "setTimeCycle timeCycle r = r\<lparr>rl_timeCycle := timeCycle\<rparr>"

definition setCounter :: "U32 \<Rightarrow> RateLimiter \<Rightarrow> RateLimiter" where
  "setCounter counter r = r\<lparr>rl_counter := counter\<rparr>"

definition RateLimiter_setTime :: "Time \<Rightarrow> RateLimiter \<Rightarrow> RateLimiter" where
  "RateLimiter_setTime time r = r\<lparr>rl_time := time, rl_timeAtNegativeInfinity := False\<rparr>"

definition shouldCounterTrigger :: "RateLimiter \<Rightarrow> bool option" where
  "shouldCounterTrigger r = do {
     fw_assert (rl_counterCycle r > 0);
     Some (rl_counter r = 0)
   }"

definition shouldTimeTrigger :: "Time \<Rightarrow> RateLimiter \<Rightarrow> bool option" where
  "shouldTimeTrigger time r = do {
     fw_assert (rl_timeCycle r > 0);
     nextTrigger \<leftarrow> Time_add (rl_time r) (Time_make TB_NONE 0 (rl_timeCycle r) 0);
     Some (Time_ge time nextTrigger \<or> rl_timeAtNegativeInfinity r)
   }"

definition updateCounter :: "bool \<Rightarrow> RateLimiter \<Rightarrow> RateLimiter option" where
  "updateCounter triggered r = do {
     fw_assert (rl_counterCycle r > 0);
     Some (if triggered then r\<lparr>rl_counter := 1\<rparr>
       else let c = rl_counter r + 1 in r\<lparr>rl_counter := (if c \<ge> rl_counterCycle r then 0 else c)\<rparr>)
   }"

definition updateTime :: "bool \<Rightarrow> Time \<Rightarrow> RateLimiter \<Rightarrow> RateLimiter option" where
  "updateTime triggered time r = do {
     fw_assert (rl_timeCycle r > 0);
     let r = (if triggered then r\<lparr>rl_time := time\<rparr> else r);
     Some (r\<lparr>rl_timeAtNegativeInfinity := False\<rparr>)
   }"

text \<open>\<open>||\<close> does not evaluate the time criterion when the counter has already triggered.\<close>

definition RateLimiter_trigger :: "Time \<Rightarrow> RateLimiter \<Rightarrow> (bool \<times> RateLimiter) option" where
  "RateLimiter_trigger time r =
     (if rl_counterCycle r = 0 \<and> rl_timeCycle r = 0 then Some (True, r)
      else do {
        shouldTrigger \<leftarrow> (if rl_counterCycle r > 0 then shouldCounterTrigger r else Some False);
        shouldTrigger \<leftarrow>
          (if rl_timeCycle r > 0 then (if shouldTrigger then Some True else shouldTimeTrigger time r) else Some shouldTrigger);
        r \<leftarrow> (if rl_counterCycle r > 0 then updateCounter shouldTrigger r else Some r);
        r \<leftarrow> (if rl_timeCycle r > 0 then updateTime shouldTrigger time r else Some r);
        Some (shouldTrigger, r)
      })"

definition RateLimiter_trigger_counter :: "RateLimiter \<Rightarrow> (bool \<times> RateLimiter) option" where
  "RateLimiter_trigger_counter r = do {
     fw_assert (rl_timeCycle r = 0);
     RateLimiter_trigger (Time_zero TB_NONE) r
   }"

section \<open>The replenish loop\<close>

text \<open>Times of the base the bucket computes with, and the interval in microseconds.\<close>

definition plain_time :: "Time \<Rightarrow> bool" where
  "plain_time t \<longleftrightarrow> normalized t \<and> m_timeBase t = TB_NONE \<and> m_timeContext t = 0"

abbreviation time_end :: nat where "time_end \<equiv> 4294967296000000"

lemma plain_same_clock: "plain_time a \<Longrightarrow> plain_time b \<Longrightarrow> same_clock a b"
  by (simp add: plain_time_def same_clock_def)

lemma plain_order:
  assumes "plain_time a" "plain_time b"
  shows "Time_le a b \<longleftrightarrow> micros a \<le> micros b" "Time_lt a b \<longleftrightarrow> micros a < micros b"
  using Time_compare_micros [OF plain_same_clock [OF assms]] assms
  by (auto simp: plain_time_def Time_le_def Time_lt_def Let_def)

lemma plain_add:
  assumes "plain_time a" "plain_time b"
  obtains c where "Time_add a b = Some c" "plain_time c" "micros c = (micros a + micros b) mod time_end"
  using assms Time_add_alt [OF plain_same_clock [OF assms]] Time_add_sec_ok [of a "m_useconds b" "m_seconds b"]
  by (auto simp: plain_time_def same_clock_def normalized_def micros_def add.assoc)

lemma interval_time:
  "plain_time (Time_make TB_NONE 0 (i div 1000000) (i mod 1000000))"
  "micros (Time_make TB_NONE 0 (i div 1000000) (i mod 1000000)) = unat i"
proof -
  have "unat (i mod 1000000) = unat i mod 1000000" "unat (i div 1000000) = unat i div 1000000"
    by (simp_all add: unat_mod unat_div)
  then show "plain_time (Time_make TB_NONE 0 (i div 1000000) (i mod 1000000))"
    "micros (Time_make TB_NONE 0 (i div 1000000) (i mod 1000000)) = unat i"
    by (simp_all add: plain_time_def normalized_def micros_def)
qed

text \<open>\<open>refilled b b' k I time\<close>: the loop took \<open>k\<close> turns from \<open>b\<close> to \<open>b'\<close>.\<close>

definition refilled :: "TokenBucket \<Rightarrow> TokenBucket \<Rightarrow> nat \<Rightarrow> nat \<Rightarrow> Time \<Rightarrow> bool" where
  "refilled b b' k I time \<longleftrightarrow> tb_replenishInterval b' = tb_replenishInterval b \<and>
     tb_replenishRate b' = tb_replenishRate b \<and> tb_maxTokens b' = tb_maxTokens b \<and>
     plain_time (tb_time b') \<and> micros (tb_time b') = micros (tb_time b) + k * I \<and>
     unat (tb_tokens b) \<le> unat (tb_tokens b') \<and> unat (tb_tokens b') \<le> unat (tb_tokens b) + k * unat (tb_replenishRate b) \<and>
     (0 < k \<longrightarrow> micros (tb_time b') \<le> micros time \<and> unat (tb_tokens b') \<le> unat (tb_maxTokens b) \<and> 0 < unat (tb_tokens b')) \<and>
     \<not> (unat (tb_tokens b') < unat (tb_maxTokens b) \<and> micros (tb_time b') + I \<le> micros time)"

lemma refill_step:
  assumes "tb_tokens b < tb_maxTokens b" "0 < tb_replenishRate b"
  defines "t \<equiv> tb_tokens b + min (tb_replenishRate b) (tb_maxTokens b - tb_tokens b)"
  shows "unat (tb_tokens b) < unat t" "unat t \<le> unat (tb_maxTokens b)" "unat t \<le> unat (tb_tokens b) + unat (tb_replenishRate b)"
proof -
  let ?d = "min (tb_replenishRate b) (tb_maxTokens b - tb_tokens b)"
  have d: "unat (tb_maxTokens b - tb_tokens b) = unat (tb_maxTokens b) - unat (tb_tokens b)"
    using assms(1) by (simp add: unat_sub_small word_less_nat_alt)
  have m: "unat ?d = min (unat (tb_replenishRate b)) (unat (tb_maxTokens b) - unat (tb_tokens b))"
    unfolding d [symmetric] by (simp add: min_def word_le_nat_alt)
  have "unat ?d \<le> unat (tb_maxTokens b) - unat (tb_tokens b)" using m by simp
  then have "unat (tb_tokens b) + unat ?d < 4294967296"
    using assms(1) [unfolded word_less_nat_alt] unat_lt32 [of "tb_maxTokens b"] by linarith
  then have "unat t = unat (tb_tokens b) + unat ?d" by (simp add: t_def unat_add_small)
  then show "unat (tb_tokens b) < unat t" "unat t \<le> unat (tb_maxTokens b)" "unat t \<le> unat (tb_tokens b) + unat (tb_replenishRate b)"
    using m assms(1,2) by (simp_all add: word_less_nat_alt)
qed

lemma replenish_loop_ok:
  assumes "0 < tb_replenishRate b" "plain_time (tb_time b)" "plain_time time" "plain_time step"
    and "Time_add (tb_time b) step = Some next_time" "micros (tb_time b) + micros step < time_end" "micros time + micros step < time_end"
  shows "\<exists>b' k. replenish_loop step time next_time b = Some b' \<and> refilled b b' k (micros step) time"
  using assms
proof (induction "unat (tb_maxTokens b) - unat (tb_tokens b)" arbitrary: b next_time rule: less_induct)
  case less
  have nx: "plain_time next_time" "micros next_time = micros (tb_time b) + micros step"
    using less.prems(5,6) by (auto intro: plain_add [OF less.prems(2,4)])
  have le: "Time_le next_time time \<longleftrightarrow> micros (tb_time b) + micros step \<le> micros time"
    using plain_order(1) [OF nx(1) less.prems(3)] nx(2) by simp
  show ?case
  proof (cases "tb_tokens b < tb_maxTokens b \<and> Time_le next_time time")
    case True
    let ?t = "tb_tokens b + min (tb_replenishRate b) (tb_maxTokens b - tb_tokens b)"
    let ?b = "b\<lparr>tb_tokens := ?t, tb_time := next_time\<rparr>"
    note t = refill_step [OF conjunct1 [OF True] less.prems(1)]
    obtain n2 where n2: "Time_add next_time step = Some n2" by (rule plain_add [OF nx(1) less.prems(4)])
    have "micros next_time + micros step < time_end" using True le nx(2) less.prems(7) by simp
    moreover have "unat (tb_maxTokens ?b) - unat (tb_tokens ?b) < unat (tb_maxTokens b) - unat (tb_tokens b)"
    proof -
      have b: "tb_maxTokens ?b = tb_maxTokens b" "tb_tokens ?b = ?t" by simp_all
      show ?thesis unfolding b using t(1,2) by linarith
    qed
    ultimately obtain b' k where b': "replenish_loop step time n2 ?b = Some b'" "refilled ?b b' k (micros step) time"
      using less.hyps [of ?b n2] less.prems(1,3,4,7) n2 nx(1) by auto
    have "replenish_loop step time next_time b = Some b'"
      using True n2 b'(1) by (subst replenish_loop.simps) (simp add: Let_def)
    moreover have "refilled b b' (Suc k) (micros step) time"
    proof -
      obtain u where u: "u = ?t" by simp
      note r = b'(2) [unfolded refilled_def, folded u] and t = t [folded u]
      have "micros (tb_time b') \<le> micros time \<and> unat (tb_tokens b') \<le> unat (tb_maxTokens b) \<and> 0 < unat (tb_tokens b')"
        using r t nx(2) True le by (cases k) auto
      then show ?thesis
        using r t nx(2) unfolding refilled_def by auto
    qed
    ultimately show ?thesis by blast
  next
    case False
    then have "replenish_loop step time next_time b = Some b" by (subst replenish_loop.simps) auto
    moreover have "refilled b b 0 (micros step) time" using False le less.prems(2) by (simp add: refilled_def word_less_nat_alt)
    ultimately show ?thesis by blast
  qed
qed

section \<open>Triggering the bucket\<close>

text \<open>A bucket and a time the computation does not wrap around on.\<close>

definition bucket_ok :: "TokenBucket \<Rightarrow> bool" where
  "bucket_ok b \<longleftrightarrow> plain_time (tb_time b) \<and> 0 < tb_replenishRate b \<and>
     micros (tb_time b) + unat (tb_replenishInterval b) < time_end"

definition time_ok :: "TokenBucket \<Rightarrow> Time \<Rightarrow> bool" where
  "time_ok b t \<longleftrightarrow> plain_time t \<and> micros t + unat (tb_replenishInterval b) < time_end"

text \<open>
  A turn of \<open>trigger\<close>: the tokens the time has earned, at most the rate for every interval by which
  the time of the bucket advances, one token less when the action is allowed.
\<close>

lemma trigger_ok:
  assumes "bucket_ok b" "time_ok b t"
  obtains r b' where "TokenBucket_trigger t b = Some (r, b')" "bucket_ok b'"
    "tb_replenishInterval b' = tb_replenishInterval b" "tb_replenishRate b' = tb_replenishRate b" "tb_maxTokens b' = tb_maxTokens b"
    "(unat (tb_tokens b') + of_bool r) * unat (tb_replenishInterval b) + unat (tb_replenishRate b) * micros (tb_time b)
      \<le> unat (tb_tokens b) * unat (tb_replenishInterval b) + unat (tb_replenishRate b) * micros (tb_time b')"
    "micros (tb_time b') \<le> max (micros (tb_time b)) (micros t)"
    "r \<longleftrightarrow> 0 < tb_tokens b \<or> 0 < tb_maxTokens b \<and> micros (tb_time b) + unat (tb_replenishInterval b) \<le> micros t"
proof -
  let ?i = "tb_replenishInterval b" and ?I = "unat (tb_replenishInterval b)" and ?R = "unat (tb_replenishRate b)"
  let ?step = "Time_make TB_NONE 0 (?i div 1000000) (?i mod 1000000)"
  note step = interval_time [of ?i]
  have b: "plain_time (tb_time b)" "0 < tb_replenishRate b" "micros (tb_time b) + ?I < time_end" "plain_time t" "micros t + ?I < time_end"
    using assms by (simp_all add: bucket_ok_def time_ok_def)
  obtain n where n: "Time_add (tb_time b) ?step = Some n" by (rule plain_add [OF b(1) step(1)])
  obtain b1 k where b1: "replenish_loop ?step t n b = Some b1" "refilled b b1 k ?I t"
    using replenish_loop_ok [OF b(2,1,4) step(1) n] b(3,5) unfolding step(2) by blast
  note f = b1(2) [unfolded refilled_def]
  have par: "tb_replenishInterval b1 = ?i" "tb_replenishRate b1 = tb_replenishRate b" "tb_maxTokens b1 = tb_maxTokens b"
    using f by simp_all
  let ?b2 = "if tb_tokens b1 \<ge> tb_maxTokens b1 \<and> Time_lt (tb_time b1) t then b1\<lparr>tb_time := t\<rparr> else b1"
  have t2: "plain_time (tb_time ?b2)" "micros (tb_time b1) \<le> micros (tb_time ?b2)" "micros (tb_time ?b2) \<le> max (micros (tb_time b)) (micros t)"
    using f b(4) plain_order(2) [of "tb_time b1" t] by (cases k; simp)+
  have "unat (tb_tokens b1) * ?I \<le> (unat (tb_tokens b) + k * ?R) * ?I" using f by (intro mult_le_mono1) simp
  moreover have "?R * micros (tb_time b1) = ?R * micros (tb_time b) + k * ?R * ?I" using f by (simp add: algebra_simps)
  moreover have "?R * micros (tb_time b1) \<le> ?R * micros (tb_time ?b2)" using t2(2) by simp
  ultimately have bound: "unat (tb_tokens b1) * ?I + ?R * micros (tb_time b) \<le> unat (tb_tokens b) * ?I + ?R * micros (tb_time ?b2)"
    by (simp add: algebra_simps)
  have dec: "0 < tb_tokens b1 \<Longrightarrow> unat (tb_tokens b1 - 1) + 1 = unat (tb_tokens b1)"
    using unat_dec [of "tb_tokens b1"] by (simp add: word_less_nat_alt)
  have pos: "0 < tb_tokens b1 \<longleftrightarrow> 0 < tb_tokens b \<or> 0 < tb_maxTokens b \<and> micros (tb_time b) + ?I \<le> micros t"
    using f unfolding word_less_nat_alt by (cases k) auto
  let ?b3 = "if tb_tokens b1 > 0 then ?b2\<lparr>tb_tokens := tb_tokens b1 - 1\<rparr> else ?b2"
  have "TokenBucket_trigger t b = Some (tb_tokens b1 > 0, ?b3)"
    using b(2) n b1(1) by (simp add: TokenBucket_trigger_def Let_def)
  moreover have "bucket_ok ?b3"
    using t2(1,3) b(2,3,5) par by (auto simp: bucket_ok_def max_def split: if_splits)
  moreover have "(unat (tb_tokens ?b3) + of_bool (tb_tokens b1 > 0)) * ?I + ?R * micros (tb_time b)
      \<le> unat (tb_tokens b) * ?I + ?R * micros (tb_time ?b3)"
    using bound dec by (auto simp del: One_nat_def)
  moreover have "tb_time ?b3 = tb_time ?b2" "tb_replenishInterval ?b3 = ?i" "tb_replenishRate ?b3 = tb_replenishRate b" "tb_maxTokens ?b3 = tb_maxTokens b"
    using par by simp_all
  ultimately show thesis
    using that [of "tb_tokens b1 > 0" ?b3] t2(3) pos by simp
qed

section \<open>Properties\<close>

fun trigger_all :: "Time list \<Rightarrow> TokenBucket \<Rightarrow> (bool list \<times> TokenBucket) option" where
  "trigger_all [] b = Some ([], b)"
| "trigger_all (t # ts) b = do {
     (r, b) \<leftarrow> TokenBucket_trigger t b;
     (rs, b) \<leftarrow> trigger_all ts b;
     Some (r # rs, b)
   }"

definition allowed :: "bool list \<Rightarrow> nat" where
  "allowed rs = sum_list (map of_bool rs)"

lemma trigger_all_ok:
  assumes "bucket_ok b" "\<forall>t \<in> set ts. time_ok b t \<and> micros t \<le> T"
  shows "\<exists>rs b'. trigger_all ts b = Some (rs, b') \<and>
    allowed rs * unat (tb_replenishInterval b) + unat (tb_replenishRate b) * micros (tb_time b)
      \<le> unat (tb_tokens b) * unat (tb_replenishInterval b) + unat (tb_replenishRate b) * max (micros (tb_time b)) T"
  using assms
proof (induction ts arbitrary: b)
  case Nil
  have "unat (tb_replenishRate b) * micros (tb_time b) \<le> unat (tb_replenishRate b) * max (micros (tb_time b)) T"
    by (rule mult_le_mono2) simp
  from trans_le_add2 [OF this] show ?case by (simp add: allowed_def)
next
  case (Cons t ts)
  let ?I = "unat (tb_replenishInterval b)" and ?R = "unat (tb_replenishRate b)"
  have t: "time_ok b t" "micros t \<le> T" using Cons.prems(2) by simp_all
  obtain r b1 where b1: "TokenBucket_trigger t b = Some (r, b1)" "bucket_ok b1"
    "tb_replenishInterval b1 = tb_replenishInterval b" "tb_replenishRate b1 = tb_replenishRate b"
    "(unat (tb_tokens b1) + of_bool r) * ?I + ?R * micros (tb_time b) \<le> unat (tb_tokens b) * ?I + ?R * micros (tb_time b1)"
    "micros (tb_time b1) \<le> max (micros (tb_time b)) (micros t)"
    by (rule trigger_ok [OF Cons.prems(1) t(1)])
  have "\<forall>t \<in> set ts. time_ok b1 t \<and> micros t \<le> T" using Cons.prems(2) b1(3) by (simp add: time_ok_def)
  with Cons.IH [OF b1(2)] obtain rs b' where b': "trigger_all ts b1 = Some (rs, b')"
    "allowed rs * ?I + ?R * micros (tb_time b1) \<le> unat (tb_tokens b1) * ?I + ?R * max (micros (tb_time b1)) T"
    using b1(3,4) by auto
  have "max (micros (tb_time b1)) T \<le> max (micros (tb_time b)) T" using b1(6) t(2) by simp
  then have "?R * max (micros (tb_time b1)) T \<le> ?R * max (micros (tb_time b)) T" by (rule mult_le_mono2)
  then have "allowed (r # rs) * ?I + ?R * micros (tb_time b) \<le> unat (tb_tokens b) * ?I + ?R * max (micros (tb_time b)) T"
    using b1(5) b'(2) unfolding allowed_def list.map sum_list.Cons distrib_right by linarith
  then show ?case using b1(1) b'(1) by auto
qed

text \<open>
  C19: A token bucket limits the rate: over any triggers at normalized times up to \<open>T\<close> of the time base \<open>TB_NONE\<close>, the one
  its interval has (with another base the addition of times fails its assertion), that lie more than an interval before
  the seconds wrap at 2^32, however they are spaced, \<open>trigger\<close> returns, and the number of allowed actions times the interval is at most the initial
  tokens times the interval plus the rate times the time passed.
\<close>

theorem token_bucket_limits_rate:
  assumes "bucket_ok b" "\<forall>t \<in> set ts. time_ok b t \<and> micros t \<le> T" "micros (tb_time b) \<le> T"
  shows "\<exists>rs b'. trigger_all ts b = Some (rs, b') \<and>
    allowed rs * unat (tb_replenishInterval b) \<le>
      unat (tb_tokens b) * unat (tb_replenishInterval b) + unat (tb_replenishRate b) * (T - micros (tb_time b))"
proof -
  obtain rs b' where r: "trigger_all ts b = Some (rs, b')"
    "allowed rs * unat (tb_replenishInterval b) + unat (tb_replenishRate b) * micros (tb_time b)
      \<le> unat (tb_tokens b) * unat (tb_replenishInterval b) + unat (tb_replenishRate b) * T"
    using trigger_all_ok [OF assms(1,2)] assms(3) by (auto simp: max_def)
  have "unat (tb_replenishRate b) * T = unat (tb_replenishRate b) * (T - micros (tb_time b)) + unat (tb_replenishRate b) * micros (tb_time b)"
    using assms(3) by (simp flip: distrib_left)
  then show ?thesis using r by (intro exI conjI) (assumption, linarith)
qed

lemma token_bucket_limits_rate_witness:
  "\<exists>rs b'. trigger_all [Time_make 0 0 1 0, Time_make 0 0 1 0, Time_make 0 0 2 500000]
      (TokenBucket_full 1000000 5 1 1 (Time_make 0 0 0 0)) = Some (rs, b') \<and> allowed rs * 1000000 \<le> 1000000 + 2500000"
  using token_bucket_limits_rate [of "TokenBucket_full 1000000 5 1 1 (Time_make 0 0 0 0)"
      "[Time_make 0 0 1 0, Time_make 0 0 1 0, Time_make 0 0 2 500000]" 2500000]
  by (simp add: TokenBucket_full_def bucket_ok_def time_ok_def plain_time_def normalized_def micros_def TB_NONE_def)

text \<open>
  A token is there when it is due: the action is allowed exactly when tokens are left or the
  interval since the time of the bucket has passed; also with a time that lies in the past, which
  the header says is always refused.
\<close>

theorem token_bucket_allows:
  assumes "bucket_ok b" "time_ok b t"
  shows "\<exists>b'. TokenBucket_trigger t b = Some (0 < tb_tokens b \<or>
    0 < tb_maxTokens b \<and> micros (tb_time b) + unat (tb_replenishInterval b) \<le> micros t, b')"
  by (rule trigger_ok [OF assms]) simp

lemma token_bucket_allows_witness:
  "\<exists>b'. TokenBucket_trigger (Time_make 0 0 1 0) (TokenBucket_full 1000000 5 1 1 (Time_make 0 0 7 0)) = Some (True, b')"
  using token_bucket_allows [of "TokenBucket_full 1000000 5 1 1 (Time_make 0 0 7 0)" "Time_make 0 0 1 0"]
  by (simp add: TokenBucket_full_def bucket_ok_def time_ok_def plain_time_def normalized_def micros_def TB_NONE_def)

definition fresh_bucket :: "TokenBucket \<Rightarrow> bool" where
  "fresh_bucket b \<longleftrightarrow> plain_time (tb_time b) \<and> 0 < tb_replenishRate b"

lemma trigger_other_clock:
  assumes "fresh_bucket b" "m_timeBase t \<noteq> TB_NONE"
  shows "TokenBucket_trigger t b = Some (if 0 < tb_tokens b then (True, b\<lparr>tb_tokens := tb_tokens b - 1\<rparr>) else (False, b))"
proof -
  let ?step = "Time_make TB_NONE 0 (tb_replenishInterval b div 1000000) (tb_replenishInterval b mod 1000000)"
  obtain n where n: "Time_add (tb_time b) ?step = Some n" "plain_time n"
    using assms(1) plain_add [OF _ interval_time(1)] unfolding fresh_bucket_def by blast
  have le: "\<not> Time_le n t" "\<not> Time_lt (tb_time b) t"
    using n(2) assms by (auto simp: plain_time_def fresh_bucket_def Time_le_def Time_lt_def Time_compare_def)
  have "replenish_loop ?step t n b = Some b" using le by (subst replenish_loop.simps) simp
  then show ?thesis using n(1) le assms(1) by (simp add: TokenBucket_trigger_def fresh_bucket_def Let_def)
qed

text \<open>
  Neither utility works with the times of a real clock, whose base is not \<open>TB_NONE\<close>. The default
  token bucket is never replenished: it allows its initial tokens and then refuses for ever. A rate
  limiter with a time cycle stops the flight software when it is triggered the second time.
\<close>

theorem token_bucket_real_clock:
  assumes "fresh_bucket b" "\<forall>t \<in> set ts. m_timeBase t \<noteq> TB_NONE"
  shows "\<exists>b'. trigger_all ts b = Some (map (\<lambda>k. k < unat (tb_tokens b)) [0..<length ts], b')"
  using assms
proof (induction ts arbitrary: b)
  case (Cons t ts)
  let ?b = "if 0 < tb_tokens b then b\<lparr>tb_tokens := tb_tokens b - 1\<rparr> else b"
  have "fresh_bucket ?b" using Cons.prems(1) by (simp add: fresh_bucket_def)
  then obtain b' where "trigger_all ts ?b = Some (map (\<lambda>k. k < unat (tb_tokens ?b)) [0..<length ts], b')"
    using Cons.IH [of ?b] Cons.prems(2) by auto
  moreover have "TokenBucket_trigger t b = Some (0 < tb_tokens b, ?b)"
    using trigger_other_clock [OF Cons.prems(1)] Cons.prems(2) by simp
  moreover have "map (\<lambda>k. k < unat (tb_tokens b)) [0..<length (t # ts)] =
      (0 < tb_tokens b) # map (\<lambda>k. k < unat (tb_tokens ?b)) [0..<length ts]"
  proof -
    have "Suc k < unat (tb_tokens b) \<longleftrightarrow> k < unat (tb_tokens ?b)" for k
      using unat_dec [of "tb_tokens b"] by (auto simp: word_less_nat_alt)
    then show ?thesis
      by (simp add: upt_conv_Cons map_Suc_upt [symmetric] word_less_nat_alt del: upt_Suc)
  qed
  ultimately show ?case by (simp only: trigger_all.simps) simp
qed simp

lemma token_bucket_real_clock_witness:
  "\<exists>b b'. TokenBucket_new 1 2 = Some b \<and>
    trigger_all [Time_make 2 0 10 0, Time_make 2 0 20 0, Time_make 2 0 30 0, Time_make 2 0 40 0] b = Some ([True, True, False, False], b')"
  using token_bucket_real_clock [of "TokenBucket_full 1 2 1 2 (Time_make 0 0 0 0)"
      "[Time_make 2 0 10 0, Time_make 2 0 20 0, Time_make 2 0 30 0, Time_make 2 0 40 0]"]
  by (simp add: TokenBucket_new_def TokenBucket_full_def MAX_TOKEN_BUCKET_TOKENS_def fresh_bucket_def plain_time_def
      normalized_def TB_NONE_def upt_rec)

lemma rate_limiter_other_clock:
  assumes "0 < timeCycle" "m_timeBase t1 \<noteq> TB_NONE"
  shows "\<exists>r. RateLimiter_trigger t1 (RateLimiter_new 0 timeCycle) = Some (True, r) \<and> RateLimiter_trigger t2 r = None"
proof -
  let ?r = "RateLimiter_new 0 timeCycle"
  have "plain_time (rl_time ?r)" "plain_time (Time_make TB_NONE 0 timeCycle 0)"
    by (simp_all add: RateLimiter_new_def RateLimiter_reset_def resetTime_def resetCounter_def plain_time_def normalized_def
        Time_new_def TB_NONE_def)
  then obtain n where "Time_add (rl_time ?r) (Time_make TB_NONE 0 timeCycle 0) = Some n" by (rule plain_add)
  then have "RateLimiter_trigger t1 ?r = Some (True, ?r\<lparr>rl_time := t1, rl_timeAtNegativeInfinity := False\<rparr>)"
    using assms(1) by (auto simp: RateLimiter_trigger_def shouldTimeTrigger_def updateTime_def RateLimiter_new_def RateLimiter_reset_def
        resetTime_def resetCounter_def Let_def)
  moreover have "RateLimiter_trigger t2 (?r\<lparr>rl_time := t1, rl_timeAtNegativeInfinity := False\<rparr>) = None"
    using assms by (auto simp: RateLimiter_trigger_def shouldTimeTrigger_def RateLimiter_new_def RateLimiter_reset_def
        resetTime_def resetCounter_def Time_add_def)
  ultimately show ?thesis by blast
qed

fun counter_calls :: "nat \<Rightarrow> RateLimiter \<Rightarrow> bool list option" where
  "counter_calls 0 r = Some []"
| "counter_calls (Suc n) r = do {
     (b, r) \<leftarrow> RateLimiter_trigger_counter r;
     bs \<leftarrow> counter_calls n r;
     Some (b # bs)
   }"

lemma counter_step:
  assumes "rl_timeCycle r = 0" "0 < N" "rl_counterCycle r = of_nat N" "N < 4294967296" "rl_counter r = of_nat c" "c < max 2 N"
  shows "RateLimiter_trigger_counter r = Some (c = 0, r\<lparr>rl_counter := of_nat (Suc c mod max 2 N)\<rparr>)"
proof -
  have N: "unat (of_nat N :: U32) = N" using assms(4) by (simp add: unat_of_nat32)
  have cs: "unat (of_nat c :: U32) = c" "unat (of_nat (Suc c) :: U32) = Suc c \<or> Suc c = 4294967296"
    using assms(4,6) by (auto simp: unat_of_nat32 simp del: of_nat_Suc)
  have z: "rl_counter r = 0 \<longleftrightarrow> c = 0" using cs(1) assms(5) by (simp add: word_unat_eq_iff)
  have pos: "0 < rl_counterCycle r" using N assms(2,3) by (simp add: word_less_nat_alt)
  show ?thesis
  proof (cases "c = 0")
    case True
    then show ?thesis using assms(1) pos z
      by (auto simp: RateLimiter_trigger_counter_def RateLimiter_trigger_def shouldCounterTrigger_def updateCounter_def)
  next
    case False
    then have c: "Suc c < 4294967296" "Suc c mod max 2 N = (if N \<le> Suc c then 0 else Suc c)"
      using assms(4,6) by (auto simp: max_def mod_Suc split: if_splits)
    then have "rl_counter r + 1 \<ge> rl_counterCycle r \<longleftrightarrow> N \<le> Suc c"
      using cs(2) N assms(3,5) by (simp add: word_le_nat_alt add.commute)
    then show ?thesis using False assms(1,5) pos z c(2)
      by (auto simp: RateLimiter_trigger_counter_def RateLimiter_trigger_def shouldCounterTrigger_def updateCounter_def Let_def)
  qed
qed

text \<open>
  A rate limiter with a counter cycle of \<open>N\<close> lets every \<open>N\<close>-th call through, starting with the
  first, except for \<open>N = 1\<close>, where it is every second call instead of every call.
\<close>

theorem every_nth_call:
  assumes "0 < N" "N < 4294967296"
  shows "counter_calls n (RateLimiter_new (of_nat N) 0) = Some (map (\<lambda>k. max 2 N dvd k) [0..<n])"
proof -
  have "counter_calls n r = Some (map (\<lambda>k. max 2 N dvd k) [k0..<k0 + n])"
    if "rl_timeCycle r = 0" "rl_counterCycle r = of_nat N" "rl_counter r = of_nat (k0 mod max 2 N)" for r k0
    using that
  proof (induction n arbitrary: r k0)
    case (Suc n)
    have "RateLimiter_trigger_counter r = Some (max 2 N dvd k0, r\<lparr>rl_counter := of_nat (Suc k0 mod max 2 N)\<rparr>)"
      using counter_step [OF Suc.prems(1) assms(1) Suc.prems(2) assms(2) Suc.prems(3)] by (simp add: mod_Suc_eq dvd_eq_mod_eq_0)
    then show ?case
      using Suc.IH [of "r\<lparr>rl_counter := of_nat (Suc k0 mod max 2 N)\<rparr>" "Suc k0"] Suc.prems(1,2)
      by (simp add: upt_conv_Cons del: upt_Suc)
  qed simp
  from this [of "RateLimiter_new (of_nat N) 0" 0] show ?thesis
    by (simp add: RateLimiter_new_def RateLimiter_reset_def resetTime_def resetCounter_def)
qed

lemma every_nth_call_witness:
  "counter_calls 3 (RateLimiter_new 1 0) = Some [True, False, True]"
  using every_nth_call [of 1 3] by (simp add: upt_rec)

end
