(* ===== verification/Rate_Groups.thy ===== *)
theory Rate_Groups
  imports Ser_Codecs "HOL-Library.Signed_Division"
begin

text \<open>
  The cyclic part of the system: Svc/RateGroupDriver divides the ticks of the system clock among the
  rate groups, Svc/ActiveRateGroup calls the members of one group at each cycle and watches for
  overruns, and the timer values (Svc/Cycle/TimerVal.cpp, Os/Posix/IntervalTimer.cpp) measure a cycle.
  Signed 32-bit integers are \<^typ>\<open>int\<close>s, and an operation that would leave their range, which
  C++ leaves undefined, gives \<^const>\<open>None\<close>.
\<close>

definition in_int32 :: "int \<Rightarrow> int option" where
  "in_int32 x = (if -2147483648 \<le> x \<and> x < 2147483648 then Some x else None)"

section \<open>Timer values\<close>

record RawTime =
  rt_upper :: U32
  rt_lower :: U32

text \<open>\<open>clock\<close> is what \<open>clock_gettime\<close> gave: seconds and nanoseconds, or a failure.\<close>

definition getRawTime :: "(U32 \<times> U32) option \<Rightarrow> RawTime option" where
  "getRawTime clock = do {
     (sec, nsec) \<leftarrow> clock;
     Some \<lparr>rt_upper = sec, rt_lower = nsec\<rparr>
   }"

definition getDiffUsec :: "RawTime \<Rightarrow> RawTime \<Rightarrow> U32" where
  "getDiffUsec t1In t2In = (
     let upper = rt_upper t1In - rt_upper t2In;
         (upper, lower) = (if rt_lower t1In < rt_lower t2In
           then (upper - 1, rt_lower t1In + (1000000000 - rt_lower t2In))
           else (upper, rt_lower t1In - rt_lower t2In)) in
     upper * 1000000 + lower div 1000)"

definition TimerVal_new :: RawTime where
  "TimerVal_new = \<lparr>rt_upper = 0, rt_lower = 0\<rparr>"

definition TimerVal_of :: "U32 \<Rightarrow> U32 \<Rightarrow> RawTime" where
  "TimerVal_of upper lower = \<lparr>rt_upper = upper, rt_lower = lower\<rparr>"

definition TimerVal_take :: "(U32 \<times> U32) option \<Rightarrow> RawTime \<Rightarrow> RawTime option" where
  "TimerVal_take clock v = getRawTime clock"

definition TimerVal_diffUSec :: "RawTime \<Rightarrow> RawTime \<Rightarrow> U32" where
  "TimerVal_diffUSec v time = getDiffUsec v time"

definition TimerVal_serialize :: "ser_buf \<Rightarrow> RawTime \<Rightarrow> (SerializeStatus \<times> ser_buf) option" where
  "TimerVal_serialize buffer v =
     ser_then (serialize_U32 buffer (rt_upper v)) (\<lambda>buffer. serialize_U32 buffer (rt_lower v))"

definition TimerVal_deserialize :: "RawTime \<Rightarrow> ser_buf \<Rightarrow> (SerializeStatus \<times> RawTime \<times> ser_buf) option" where
  "TimerVal_deserialize v buffer = do {
     (r, buffer) \<leftarrow> deserialize_U32 buffer;
     (case r of
        Inl stat \<Rightarrow> Some (stat, v, buffer)
      | Inr upper \<Rightarrow> do {
          (r, buffer) \<leftarrow> deserialize_U32 buffer;
          Some (case r of
            Inl stat \<Rightarrow> (stat, v\<lparr>rt_upper := upper\<rparr>, buffer)
          | Inr lower \<Rightarrow> (FW_SERIALIZE_OK, v\<lparr>rt_upper := upper, rt_lower := lower\<rparr>, buffer))
        })
   }"

section \<open>RateGroupDriver\<close>

definition DIVIDER_SIZE :: nat where "DIVIDER_SIZE = 3"

record RateGroupDriver =
  rg_dividers :: "int list"
  rg_numDividers :: int
  rg_ticks :: int
  rg_rollover :: int

text \<open>The constructor leaves the array as it is; \<open>memory\<close> is what it holds.\<close>

definition RateGroupDriver_new :: "int list \<Rightarrow> RateGroupDriver" where
  "RateGroupDriver_new memory = \<lparr>rg_dividers = memory, rg_numDividers = 0, rg_ticks = 0, rg_rollover = 1\<rparr>"

fun configure_loop :: "int list \<Rightarrow> nat \<Rightarrow> nat \<Rightarrow> RateGroupDriver \<Rightarrow> RateGroupDriver option" where
  "configure_loop dividers entry 0 d = Some d"
| "configure_loop dividers entry (Suc n) d = do {
     fw_assert (entry < length dividers);
     let d = d\<lparr>rg_dividers := (rg_dividers d)[entry := dividers ! entry]\<rparr>;
     d \<leftarrow> (if dividers ! entry \<noteq> 0 then do {
              rollover \<leftarrow> in_int32 (rg_rollover d * dividers ! entry);
              Some (d\<lparr>rg_rollover := rollover\<rparr>)
            }
            else Some d);
     configure_loop dividers (entry + 1) n d
   }"

definition RateGroupDriver_configure :: "int list option \<Rightarrow> int \<Rightarrow> RateGroupDriver \<Rightarrow> RateGroupDriver option" where
  "RateGroupDriver_configure dividers numDividers d = do {
     dividers \<leftarrow> dividers;
     fw_assert (numDividers \<noteq> 0);
     let d = d\<lparr>rg_numDividers := numDividers\<rparr>;
     fw_assert (numDividers \<le> int DIVIDER_SIZE);
     configure_loop dividers 0 (nat numDividers) (d\<lparr>rg_dividers := replicate DIVIDER_SIZE 0\<rparr>)
   }"

text \<open>\<open>isConnected\<close> says which output ports are connected; the result lists the ports called.\<close>

fun cycle_loop :: "(nat \<Rightarrow> bool) \<Rightarrow> RateGroupDriver \<Rightarrow> nat \<Rightarrow> nat \<Rightarrow> nat list" where
  "cycle_loop isConnected d entry 0 = []"
| "cycle_loop isConnected d entry (Suc n) =
     (if rg_dividers d ! entry \<noteq> 0 \<and> isConnected entry \<and> rg_ticks d smod rg_dividers d ! entry = 0 then [entry] else []) @
     cycle_loop isConnected d (entry + 1) n"

definition RateGroupDriver_CycleIn_handler :: "(nat \<Rightarrow> bool) \<Rightarrow> RateGroupDriver \<Rightarrow> (nat list \<times> RateGroupDriver) option" where
  "RateGroupDriver_CycleIn_handler isConnected d = do {
     fw_assert (rg_numDividers d \<noteq> 0);
     next \<leftarrow> in_int32 (rg_ticks d + 1);
     Some (cycle_loop isConnected d 0 (nat (rg_numDividers d)), d\<lparr>rg_ticks := next smod rg_rollover d\<rparr>)
   }"

section \<open>ActiveRateGroup\<close>

definition ACTIVE_RATE_GROUP_OVERRUN_THROTTLE :: nat where "ACTIVE_RATE_GROUP_OVERRUN_THROTTLE = 5"
definition ActiveRateGroupOutputPorts :: nat where "ActiveRateGroupOutputPorts = 10"

record ActiveRateGroup =
  ar_cycles :: U32
  ar_maxTime :: U32
  ar_cycleStarted :: bool
  ar_contexts :: "int list"
  ar_numContexts :: nat
  ar_overrunThrottle :: nat
  ar_cycleSlips :: U32

datatype ar_out =
  RateGroupStarted
| RateGroupMemberOut nat int
| Tlm_RgMaxTime U32
| RateGroupCycleSlip U32
| Tlm_RgCycleSlips U32
| RgPingOut U32

definition ActiveRateGroup_new :: "int list \<Rightarrow> ActiveRateGroup" where
  "ActiveRateGroup_new memory = \<lparr>ar_cycles = 0, ar_maxTime = 0, ar_cycleStarted = False, ar_contexts = memory,
     ar_numContexts = 0, ar_overrunThrottle = 0, ar_cycleSlips = 0\<rparr>"

definition ActiveRateGroup_configure :: "int list option \<Rightarrow> int \<Rightarrow> ActiveRateGroup \<Rightarrow> ActiveRateGroup option" where
  "ActiveRateGroup_configure contexts numContexts g = do {
     contexts \<leftarrow> contexts;
     fw_assert (numContexts = int ActiveRateGroupOutputPorts);
     fw_assert (ActiveRateGroupOutputPorts \<le> length contexts);
     Some (g\<lparr>ar_numContexts := ActiveRateGroupOutputPorts, ar_contexts := take ActiveRateGroupOutputPorts contexts\<rparr>)
   }"

definition ActiveRateGroup_preamble :: "ar_out list" where
  "ActiveRateGroup_preamble = [RateGroupStarted]"

text \<open>
  The handler runs on the thread of the rate group, the hook on the thread of the caller, when it
  queues the next cycle. The handler is modelled in the part before the members have run and the
  part after it; \<open>arrivals\<close> cycles are queued in between.
\<close>

definition CycleIn_preMsgHook :: "ActiveRateGroup \<Rightarrow> ActiveRateGroup" where
  "CycleIn_preMsgHook g = g\<lparr>ar_cycleStarted := True\<rparr>"

definition cycle_members :: "(nat \<Rightarrow> bool) \<Rightarrow> ActiveRateGroup \<Rightarrow> (ar_out list \<times> ActiveRateGroup) option" where
  "cycle_members isConnected g = do {
     fw_assert (ar_numContexts g \<noteq> 0);
     let g = g\<lparr>ar_cycleStarted := False\<rparr>;
     Some (map (\<lambda>port. RateGroupMemberOut port (ar_contexts g ! port)) (filter isConnected [0..<ar_numContexts g]), g)
   }"

definition cycle_finish :: "RawTime \<Rightarrow> RawTime \<Rightarrow> ActiveRateGroup \<Rightarrow> ar_out list \<times> ActiveRateGroup" where
  "cycle_finish end_time cycleStart g = (
     let cycle_time = TimerVal_diffUSec end_time cycleStart;
         g = (if cycle_time > ar_maxTime g then g\<lparr>ar_maxTime := cycle_time\<rparr> else g);
         outs = [Tlm_RgMaxTime (ar_maxTime g)];
         (outs, g) =
           (if ar_cycleStarted g then
              let g = g\<lparr>ar_cycleSlips := ar_cycleSlips g + 1\<rparr>;
                  (outs, g) = (if ar_overrunThrottle g < ACTIVE_RATE_GROUP_OVERRUN_THROTTLE
                    then (outs @ [RateGroupCycleSlip (ar_cycles g)], g\<lparr>ar_overrunThrottle := ar_overrunThrottle g + 1\<rparr>)
                    else (outs, g)) in
              (outs @ [Tlm_RgCycleSlips (ar_cycleSlips g)], g)
            else (outs, if ar_overrunThrottle g > 0 then g\<lparr>ar_overrunThrottle := ar_overrunThrottle g - 1\<rparr> else g)) in
     (outs, g\<lparr>ar_cycles := ar_cycles g + 1\<rparr>))"

definition ActiveRateGroup_CycleIn_handler ::
  "(nat \<Rightarrow> bool) \<Rightarrow> nat \<Rightarrow> (U32 \<times> U32) option \<Rightarrow> RawTime \<Rightarrow> ActiveRateGroup \<Rightarrow> (ar_out list \<times> ActiveRateGroup) option" where
  "ActiveRateGroup_CycleIn_handler isConnected arrivals clock cycleStart g = do {
     (outs, g) \<leftarrow> cycle_members isConnected g;
     let g = (CycleIn_preMsgHook ^^ arrivals) g;
     end_time \<leftarrow> TimerVal_take clock TimerVal_new;
     let (outs', g) = cycle_finish end_time cycleStart g;
     Some (outs @ outs', g)
   }"

definition ActiveRateGroup_PingIn_handler :: "U32 \<Rightarrow> ar_out list" where
  "ActiveRateGroup_PingIn_handler key = [RgPingOut key]"

section \<open>Properties\<close>

subsection \<open>Timers\<close>

definition nanos :: "RawTime \<Rightarrow> nat" where
  "nanos t = unat (rt_upper t) * 1000000000 + unat (rt_lower t)"

text \<open>
  The difference of two clock readings is the number of whole microseconds between them, modulo
  2^32, so exact for intervals up to 71 minutes.
\<close>

theorem timer_difference:
  assumes "unat (rt_lower a) < 1000000000" "unat (rt_lower b) < 1000000000" "nanos b \<le> nanos a"
  shows "unat (getDiffUsec a b) = (nanos a - nanos b) div 1000 mod 4294967296"
proof -
  let ?ua = "unat (rt_upper a)" and ?ub = "unat (rt_upper b)" and ?la = "unat (rt_lower a)" and ?lb = "unat (rt_lower b)"
  have n: "nanos a = ?ua * 1000000000 + ?la" "nanos b = ?ub * 1000000000 + ?lb" by (simp_all add: nanos_def)
  have res: "unat (u * 1000000 + l div 1000) = (s * 1000000000 + unat l) div 1000 mod 4294967296"
    if "unat u = s" for u l :: U32 and s
  proof -
    have "unat (u * 1000000 + l div 1000) = (s * 1000000 + unat l div 1000) mod 4294967296"
      using that by (simp add: unat_word_ariths unat_div mod_simps)
    moreover have "(s * 1000000000 + unat l) div 1000 = s * 1000000 + unat l div 1000" by linarith
    ultimately show ?thesis by simp
  qed
  show ?thesis
  proof (cases "?la < ?lb")
    case True
    then have lt: "?ub < ?ua" using assms n by linarith
    have "unat (rt_upper a - rt_upper b) = ?ua - ?ub" using lt by (simp add: unat_sub_small)
    then have u: "unat (rt_upper a - rt_upper b - 1) = ?ua - ?ub - 1" using lt unat_dec [of "rt_upper a - rt_upper b"] by simp
    have "unat (1000000000 - rt_lower b) = 1000000000 - ?lb" using assms(2) by (simp add: unat_sub_small)
    then have l: "unat (rt_lower a + (1000000000 - rt_lower b)) = ?la + (1000000000 - ?lb)"
      using assms(1,2) by (simp add: unat_add_small)
    have "(?ua - ?ub - 1) * 1000000000 + (?la + (1000000000 - ?lb)) = nanos a - nanos b"
      using lt assms(2) n True by (simp add: diff_mult_distrib algebra_simps)
    then show ?thesis
      using True res [OF u, of "rt_lower a + (1000000000 - rt_lower b)"] l
      by (simp add: getDiffUsec_def word_less_nat_alt)
  next
    case False
    then have le: "?ub \<le> ?ua" using assms n by linarith
    have u: "unat (rt_upper a - rt_upper b) = ?ua - ?ub" using le by (simp add: unat_sub_small)
    have l: "unat (rt_lower a - rt_lower b) = ?la - ?lb" using False by (simp add: unat_sub_small)
    have "(?ua - ?ub) * 1000000000 + (?la - ?lb) = nanos a - nanos b"
      using le False n by (simp add: diff_mult_distrib)
    then show ?thesis
      using False res [OF u, of "rt_lower a - rt_lower b"] l by (simp add: getDiffUsec_def word_less_nat_alt)
  qed
qed

lemma timer_difference_witness:
  "unat (getDiffUsec \<lparr>rt_upper = 5, rt_lower = 1000\<rparr> \<lparr>rt_upper = 3, rt_lower = 999999000\<rparr>) = 1000002"
  using timer_difference [of "\<lparr>rt_upper = 5, rt_lower = 1000\<rparr>" "\<lparr>rt_upper = 3, rt_lower = 999999000\<rparr>"]
  by (simp add: nanos_def)

subsection \<open>Dividing the ticks\<close>

lemma smod_pos: "0 \<le> a \<Longrightarrow> 0 < b \<Longrightarrow> a smod b = a mod (b :: int)"
  by (cases "a = 0") (simp_all add: signed_modulo_int_def)

definition divider_product :: "int list \<Rightarrow> int" where
  "divider_product ds = prod_list (filter (\<lambda>d. d \<noteq> 0) ds)"

lemma divider_product_pos: "\<forall>d \<in> set ds. 0 \<le> d \<Longrightarrow> 1 \<le> divider_product ds"
proof (induction ds)
  case (Cons d ds)
  then have "1 \<le> divider_product ds" "0 \<le> d" by simp_all
  then show ?case
    using mult_mono [of 1 d 1 "divider_product ds"] by (auto simp: divider_product_def)
qed (simp add: divider_product_def)

lemma divider_product_dvd: "d \<in> set ds \<Longrightarrow> d \<noteq> 0 \<Longrightarrow> d dvd divider_product ds"
  by (induction ds) (auto simp: divider_product_def)

lemma configure_loop_ok:
  assumes "entry + n \<le> length ds" "entry + n \<le> length (rg_dividers d)" "\<forall>x \<in> set ds. 0 \<le> x" "0 < rg_rollover d"
    and "rg_rollover d * divider_product (take n (drop entry ds)) < 2147483648"
  shows "\<exists>d'. configure_loop ds entry n d = Some d' \<and> rg_rollover d' = rg_rollover d * divider_product (take n (drop entry ds)) \<and>
    rg_ticks d' = rg_ticks d \<and> rg_numDividers d' = rg_numDividers d \<and> length (rg_dividers d') = length (rg_dividers d) \<and>
    (\<forall>i. rg_dividers d' ! i = (if entry \<le> i \<and> i < entry + n then ds ! i else rg_dividers d ! i))"
  using assms
proof (induction n arbitrary: entry d)
  case 0
  then show ?case by (simp add: divider_product_def)
next
  case (Suc n)
  let ?x = "ds ! entry" and ?rest = "divider_product (take n (drop (Suc entry) ds))"
  have drop: "drop entry ds = ?x # drop (Suc entry) ds" using Suc.prems(1) by (simp add: Cons_nth_drop_Suc)
  have x: "0 \<le> ?x" using Suc.prems(1,3) by simp
  have rest: "1 \<le> ?rest" by (rule divider_product_pos) (use Suc.prems(3) in \<open>auto dest: in_set_takeD in_set_dropD\<close>)
  let ?m = "if ?x = 0 then rg_rollover d else rg_rollover d * ?x"
  have prod: "rg_rollover d * divider_product (take (Suc n) (drop entry ds)) = ?m * ?rest"
    unfolding drop by (simp add: divider_product_def)
  have m: "0 < ?m" using Suc.prems(4) x by simp
  have "?m * 1 \<le> ?m * ?rest" by (rule mult_left_mono) (use rest m in simp_all)
  then have fits: "?m < 2147483648" using Suc.prems(5) unfolding prod by linarith
  let ?d = "d\<lparr>rg_dividers := (rg_dividers d)[entry := ?x], rg_rollover := ?m\<rparr>"
  have "configure_loop ds entry (Suc n) d = configure_loop ds (entry + 1) n ?d"
    using Suc.prems(1) m fits by (cases "?x = 0") (simp_all add: in_int32_def Let_def)
  then show ?case
    using Suc.IH [of "entry + 1" ?d] Suc.prems m prod by (auto simp: nth_list_update)
qed

lemma cycle_loop_filter:
  "cycle_loop conn d entry n =
     filter (\<lambda>i. rg_dividers d ! i \<noteq> 0 \<and> conn i \<and> rg_ticks d smod rg_dividers d ! i = 0) [entry..<entry + n]"
  by (induction n arbitrary: entry) (simp_all add: upt_conv_Cons del: upt_Suc)

fun ticks_run :: "(nat \<Rightarrow> bool) \<Rightarrow> nat \<Rightarrow> RateGroupDriver \<Rightarrow> nat list list option" where
  "ticks_run conn 0 d = Some []"
| "ticks_run conn (Suc n) d = do {
     (calls, d) \<leftarrow> RateGroupDriver_CycleIn_handler conn d;
     rest \<leftarrow> ticks_run conn n d;
     Some (calls # rest)
   }"

lemma tick_ok:
  assumes "rg_numDividers d = int (length ds)" "ds \<noteq> []" "\<forall>x \<in> set ds. 0 \<le> x" "\<forall>i < length ds. rg_dividers d ! i = ds ! i"
    and "rg_rollover d = divider_product ds" "divider_product ds < 2147483648" "rg_ticks d = int k mod divider_product ds"
  shows "RateGroupDriver_CycleIn_handler conn d =
    Some (filter (\<lambda>i. ds ! i \<noteq> 0 \<and> conn i \<and> ds ! i dvd int k) [0..<length ds],
      d\<lparr>rg_ticks := int (Suc k) mod divider_product ds\<rparr>)"
proof -
  have pos: "1 \<le> divider_product ds" by (rule divider_product_pos [OF assms(3)])
  then have t: "0 \<le> rg_ticks d" "rg_ticks d < divider_product ds" using assms(7) by simp_all
  have mod: "rg_ticks d smod ds ! i = 0 \<longleftrightarrow> ds ! i dvd int k" if i: "i < length ds" "ds ! i \<noteq> 0" for i
  proof -
    have "0 < ds ! i" using bspec [OF assms(3) nth_mem [OF i(1)]] i(2) by simp
    moreover have "int k mod divider_product ds mod ds ! i = int k mod ds ! i"
      by (rule mod_mod_cancel) (rule divider_product_dvd, use i in simp_all)
    ultimately show ?thesis using t(1) assms(7) by (simp add: smod_pos dvd_eq_mod_eq_0)
  qed
  have "filter (\<lambda>i. rg_dividers d ! i \<noteq> 0 \<and> conn i \<and> rg_ticks d smod rg_dividers d ! i = 0) [0..<length ds] =
      filter (\<lambda>i. ds ! i \<noteq> 0 \<and> conn i \<and> ds ! i dvd int k) [0..<length ds]"
    using assms(4) mod by (auto intro: filter_cong)
  moreover have "(rg_ticks d + 1) smod rg_rollover d = int (Suc k) mod divider_product ds"
    using t pos assms(5,7) by (simp add: smod_pos mod_simps add.commute)
  ultimately show ?thesis
    using t assms(1,2,6) by (simp add: RateGroupDriver_CycleIn_handler_def in_int32_def cycle_loop_filter)
qed

text \<open>
  C18: Each rate group runs at its fraction of the clock for ever: with configured dividers that are not
  negative and a product below 2^31, the port with divider \<open>d\<close> is called at exactly the ticks that \<open>d\<close>
  divides, a port with divider zero never, and the tick counter that wraps around at the product of
  the dividers is never noticed.
\<close>

theorem rate_groups_divide_clock:
  assumes "ds \<noteq> []" "length ds \<le> 3" "\<forall>d \<in> set ds. 0 \<le> d" "divider_product ds < 2147483648"
  shows "\<exists>d. RateGroupDriver_configure (Some ds) (int (length ds)) (RateGroupDriver_new memory) = Some d \<and>
    ticks_run conn n d = Some (map (\<lambda>k. filter (\<lambda>i. ds ! i \<noteq> 0 \<and> conn i \<and> ds ! i dvd int k) [0..<length ds]) [0..<n])"
proof -
  let ?d = "(RateGroupDriver_new memory)\<lparr>rg_numDividers := int (length ds), rg_dividers := replicate 3 0\<rparr>"
  have "take (length ds) (drop 0 ds) = ds" by simp
  then obtain d where d: "configure_loop ds 0 (length ds) ?d = Some d" "rg_rollover d = divider_product ds" "rg_ticks d = 0"
    "rg_numDividers d = int (length ds)" "\<forall>i < length ds. rg_dividers d ! i = ds ! i"
    using configure_loop_ok [of 0 "length ds" ds ?d] assms by (auto simp: RateGroupDriver_new_def)
  have c: "RateGroupDriver_configure (Some ds) (int (length ds)) (RateGroupDriver_new memory) = Some d"
    using d(1) assms(1,2) by (simp add: RateGroupDriver_configure_def DIVIDER_SIZE_def)
  have run: "ticks_run conn n e = Some (map (\<lambda>k. filter (\<lambda>i. ds ! i \<noteq> 0 \<and> conn i \<and> ds ! i dvd int k) [0..<length ds]) [k0..<k0 + n])"
    if "rg_numDividers e = int (length ds)" "\<forall>i < length ds. rg_dividers e ! i = ds ! i" "rg_rollover e = divider_product ds"
      "rg_ticks e = int k0 mod divider_product ds" for e k0
    using that
  proof (induction n arbitrary: e k0)
    case (Suc n)
    note step = tick_ok [OF Suc.prems(1) assms(1,3) Suc.prems(2,3) assms(4) Suc.prems(4), of conn]
    show ?case
      using step Suc.IH [of "e\<lparr>rg_ticks := int (Suc k0) mod divider_product ds\<rparr>" "Suc k0"] Suc.prems
      by (simp add: upt_conv_Cons del: upt_Suc of_nat_Suc)
  qed simp
  show ?thesis using c run [of d 0] d by auto
qed

lemma rate_groups_divide_clock_witness:
  "\<exists>d. RateGroupDriver_configure (Some [1, 2, 0]) 3 (RateGroupDriver_new [9, 9, 9]) = Some d \<and>
    ticks_run (\<lambda>_. True) 3 d = Some [[0, 1], [0], [0, 1]]"
  using rate_groups_divide_clock [of "[1, 2, 0]" "[9, 9, 9]" "\<lambda>_. True" 3]
  by (simp add: divider_product_def upt_rec)

subsection \<open>Overruns of a cycle\<close>

text \<open>A cycle as its surroundings see it: the cycles queued while it ran, its end and its start.\<close>

type_synonym cycle = "nat \<times> (U32 \<times> U32) \<times> RawTime"

definition slipped :: "cycle \<Rightarrow> bool" where
  "slipped c = (0 < fst c)"

definition cycle_usec :: "cycle \<Rightarrow> U32" where
  "cycle_usec c = (case c of (_, (sec, nsec), start) \<Rightarrow> getDiffUsec \<lparr>rt_upper = sec, rt_lower = nsec\<rparr> start)"

fun cycles_run :: "(nat \<Rightarrow> bool) \<Rightarrow> cycle list \<Rightarrow> ActiveRateGroup \<Rightarrow> (ar_out list list \<times> ActiveRateGroup) option" where
  "cycles_run conn [] g = Some ([], g)"
| "cycles_run conn ((arrivals, clock, start) # cs) g = do {
     (outs, g) \<leftarrow> ActiveRateGroup_CycleIn_handler conn arrivals (Some clock) start g;
     (rest, g) \<leftarrow> cycles_run conn cs g;
     Some (outs # rest, g)
   }"

fun is_slip_warning :: "ar_out \<Rightarrow> bool" where
  "is_slip_warning (RateGroupCycleSlip c) = True"
| "is_slip_warning _ = False"

definition warnings :: "ar_out list list \<Rightarrow> nat" where
  "warnings outs = length (filter is_slip_warning (concat outs))"

definition member_calls :: "(nat \<Rightarrow> bool) \<Rightarrow> ActiveRateGroup \<Rightarrow> ar_out list" where
  "member_calls conn g = map (\<lambda>port. RateGroupMemberOut port (ar_contexts g ! port)) (filter conn [0..<ar_numContexts g])"

lemma hook_repeated: "(CycleIn_preMsgHook ^^ n) g = (if n = 0 then g else g\<lparr>ar_cycleStarted := True\<rparr>)"
  by (induction n) (simp_all add: CycleIn_preMsgHook_def)

lemma cycle_step:
  assumes "0 < ar_numContexts g"
  shows "\<exists>outs g'. ActiveRateGroup_CycleIn_handler conn arrivals (Some clock) start g = Some (outs, g') \<and>
    take (length (member_calls conn g)) outs = member_calls conn g \<and>
    ar_contexts g' = ar_contexts g \<and> ar_numContexts g' = ar_numContexts g \<and>
    ar_maxTime g' = max (ar_maxTime g) (cycle_usec (arrivals, clock, start)) \<and>
    ar_cycleSlips g' = ar_cycleSlips g + of_bool (slipped (arrivals, clock, start)) \<and>
    warnings [outs] = of_bool (slipped (arrivals, clock, start) \<and> ar_overrunThrottle g < 5) \<and>
    ar_overrunThrottle g' = (if slipped (arrivals, clock, start)
      then (if ar_overrunThrottle g < 5 then ar_overrunThrottle g + 1 else ar_overrunThrottle g) else ar_overrunThrottle g - 1)"
  using assms
  by (cases clock)
    (auto simp: ActiveRateGroup_CycleIn_handler_def cycle_members_def hook_repeated TimerVal_take_def getRawTime_def
      cycle_finish_def TimerVal_diffUSec_def cycle_usec_def slipped_def warnings_def member_calls_def
      ACTIVE_RATE_GROUP_OVERRUN_THROTTLE_def Let_def max_def filter_map comp_def)

text \<open>
  C28: Overruns of a configured rate group are always counted and their warnings are throttled: over
  any sequence of cycles every member is called in every cycle, the slip counter grows by the number
  of cycles that were still running when the next was queued, the reported maximum is the longest
  cycle, and at most five warnings more than there were good cycles are given.
\<close>

theorem overruns_counted_and_throttled:
  assumes "0 < ar_numContexts g" "ar_overrunThrottle g \<le> 5"
  shows "\<exists>outs g'. cycles_run conn cs g = Some (outs, g') \<and> length outs = length cs \<and>
    (\<forall>call \<in> set outs. take (length (member_calls conn g)) call = member_calls conn g) \<and>
    ar_cycleSlips g' = ar_cycleSlips g + of_nat (length (filter slipped cs)) \<and>
    ar_maxTime g' = fold (\<lambda>c m. max m (cycle_usec c)) cs (ar_maxTime g) \<and>
    warnings outs \<le> length (filter slipped cs) \<and>
    ar_overrunThrottle g + warnings outs \<le> 5 + length (filter (\<lambda>c. \<not> slipped c) cs)"
  using assms
proof (induction cs arbitrary: g)
  case Nil
  then show ?case by (simp add: warnings_def)
next
  case (Cons c cs)
  obtain arrivals clock start where c: "c = (arrivals, clock, start)" by (cases c)
  obtain outs g1 where s: "ActiveRateGroup_CycleIn_handler conn arrivals (Some clock) start g = Some (outs, g1)"
    "take (length (member_calls conn g)) outs = member_calls conn g" "ar_contexts g1 = ar_contexts g"
    "ar_numContexts g1 = ar_numContexts g" "ar_maxTime g1 = max (ar_maxTime g) (cycle_usec c)"
    "ar_cycleSlips g1 = ar_cycleSlips g + of_bool (slipped c)"
    "warnings [outs] = of_bool (slipped c \<and> ar_overrunThrottle g < 5)"
    "ar_overrunThrottle g1 = (if slipped c
      then (if ar_overrunThrottle g < 5 then ar_overrunThrottle g + 1 else ar_overrunThrottle g) else ar_overrunThrottle g - 1)"
    using cycle_step [OF Cons.prems(1), of conn arrivals clock start] unfolding c by blast
  have m: "member_calls conn g1 = member_calls conn g" using s by (simp add: member_calls_def)
  have w: "warnings (outs # rest) = warnings [outs] + warnings rest" for rest by (simp add: warnings_def)
  have "ar_overrunThrottle g1 \<le> 5" using s(8) Cons.prems(2) by (cases "slipped c") auto
  then obtain rest g2 where r: "cycles_run conn cs g1 = Some (rest, g2)" "length rest = length cs"
    "\<forall>call \<in> set rest. take (length (member_calls conn g)) call = member_calls conn g"
    "ar_cycleSlips g2 = ar_cycleSlips g1 + of_nat (length (filter slipped cs))"
    "ar_maxTime g2 = fold (\<lambda>c m. max m (cycle_usec c)) cs (ar_maxTime g1)"
    "warnings rest \<le> length (filter slipped cs)"
    "ar_overrunThrottle g1 + warnings rest \<le> 5 + length (filter (\<lambda>c. \<not> slipped c) cs)"
    using Cons.IH [of g1] Cons.prems(1) s(4) m by auto
  have "cycles_run conn (c # cs) g = Some (outs # rest, g2)" unfolding c by (simp add: s(1) r(1))
  moreover have "ar_overrunThrottle g + warnings (outs # rest) \<le> 5 + length (filter (\<lambda>c. \<not> slipped c) (c # cs))"
    using r(7) s(7,8) Cons.prems(2) w [of rest] by (cases "slipped c") (auto simp: of_bool_def)
  moreover have "warnings (outs # rest) \<le> length (filter slipped (c # cs))"
    using r(6) s(7) w [of rest] by (cases "slipped c") (auto simp: of_bool_def)
  ultimately show ?case using s(2,5,6) r(2-5) by (auto simp: algebra_simps)
qed

lemma overruns_counted_and_throttled_witness:
  "\<exists>outs g'. cycles_run (\<lambda>port. port < 2) (replicate 3 (2, (1, 0), \<lparr>rt_upper = 0, rt_lower = 0\<rparr>))
      ((ActiveRateGroup_new [])\<lparr>ar_numContexts := 3, ar_contexts := [7, 8, 9]\<rparr>) = Some (outs, g') \<and>
    ar_cycleSlips g' = 3 \<and> ar_maxTime g' = 1000000 \<and> warnings outs \<le> 3 \<and>
    (\<forall>call \<in> set outs. take 2 call = [RateGroupMemberOut 0 7, RateGroupMemberOut 1 8])"
proof -
  let ?g = "(ActiveRateGroup_new [])\<lparr>ar_numContexts := 3, ar_contexts := [7, 8, 9]\<rparr>"
  let ?cs = "replicate 3 (2, (1, 0), \<lparr>rt_upper = 0, rt_lower = 0\<rparr>) :: cycle list"
  have "member_calls (\<lambda>port. port < 2) ?g = [RateGroupMemberOut 0 7, RateGroupMemberOut 1 8]"
    by (simp add: member_calls_def ActiveRateGroup_new_def upt_rec)
  moreover have "?cs = [(2, (1, 0), \<lparr>rt_upper = 0, rt_lower = 0\<rparr>), (2, (1, 0), \<lparr>rt_upper = 0, rt_lower = 0\<rparr>), (2, (1, 0), \<lparr>rt_upper = 0, rt_lower = 0\<rparr>)]"
    by code_simp
  ultimately show ?thesis
    using overruns_counted_and_throttled [of ?g "\<lambda>port. port < 2" ?cs]
    by (auto simp: ActiveRateGroup_new_def slipped_def cycle_usec_def getDiffUsec_def numeral_2_eq_2)
qed

end
