(* ===== verification/Os_File_Read.thy ===== *)
theory Os_File_Read
  imports Os_File_Write Crc32
begin

text \<open>
  Os/Linux/File.cpp and Os/FileCommon.cpp: reading from a kernel with a state, which the components
  that read and write files need, and the CRCs of a file. \<open>regular_disk\<close> is what those components rely
  on: regular files on a disk with room, and descriptors that do not disturb each other.
\<close>

section \<open>The kernel\<close>

text \<open>\<open>stat\<close> gives whether the path is a regular file, and its size.\<close>

record 'k kernel_calls =
  kc_disk :: "'k disk_calls"
  kc_read :: "'k \<Rightarrow> int \<Rightarrow> nat \<Rightarrow> (int + U8 list) \<times> 'k"
  kc_stat :: "'k \<Rightarrow> string \<Rightarrow> (int + bool \<times> U64) \<times> 'k"

section \<open>Reading\<close>

fun read_disk_loop ::
  "'k kernel_calls \<Rightarrow> int \<Rightarrow> bool \<Rightarrow> nat \<Rightarrow> nat \<Rightarrow> nat \<Rightarrow> U8 list \<Rightarrow> 'k \<Rightarrow>
     File_Status \<times> nat \<times> U8 list \<times> int option \<times> nat \<times> 'k" where
  "read_disk_loop C fd waitForFull sz 0 accSize acc k = (OP_OK, accSize, acc, None, 0, k)"
| "read_disk_loop C fd waitForFull sz (Suc maxIters) accSize acc k =
     (case kc_read C k fd (sz - accSize) of
        (Inl errno, k) \<Rightarrow>
          if errno = EINTR then read_disk_loop C fd waitForFull sz maxIters accSize acc k
          else (OTHER_ERROR, 0, acc, Some errno, Suc maxIters, k)
      | (Inr bs, k) \<Rightarrow>
          if length bs \<noteq> sz - accSize
          then if length bs = 0 then (OP_OK, accSize, acc, None, Suc maxIters, k)
               else if \<not> waitForFull then (OP_OK, accSize + length bs, acc @ bs, None, Suc maxIters, k)
               else read_disk_loop C fd waitForFull sz (maxIters - 1) (accSize + length bs) (acc @ bs) k
          else (OP_OK, accSize + length bs, acc @ bs, None, Suc maxIters, k))"

definition File_read_disk ::
  "'k kernel_calls \<Rightarrow> 'k \<Rightarrow> File \<Rightarrow> int \<Rightarrow> bool \<Rightarrow> (File_Status \<times> U8 list \<times> int \<times> File \<times> 'k) option" where
  "File_read_disk C k f sz waitForFull =
     (if m_mode f = OPEN_NO_MODE then Some (NOT_OPENED, [], 0, f, k)
      else if sz \<le> 0 then Some (BAD_SIZE, [], 0, f, k)
      else
        (case read_disk_loop C (m_fd f) waitForFull (nat sz) (maxIters_of sz) 0 [] k of
           (stat, accSize, bytes, err, maxIters, k) \<Rightarrow> do {
             fw_assert (maxIters > 0);
             Some (stat, bytes, int accSize,
                   (case err of None \<Rightarrow> f | Some errno \<Rightarrow> f\<lparr>m_lastError := errno\<rparr>), k)
           }))"

text \<open>
  The kernel of \<^theory_text>\<open>Os_File\<close>, given by its outcomes, is one with a state: the number of calls
  made and the offset. On it the two models of \<open>read\<close> agree.
\<close>

definition outcomes_kernel :: "posix \<Rightarrow> (nat \<times> nat) kernel_calls \<Rightarrow> (nat \<times> nat) kernel_calls" where
  "outcomes_kernel K C = C\<lparr>kc_read := \<lambda>(t, pos) fd n.
     (sys_read K t fd pos n, t + 1, pos + (case sys_read K t fd pos n of Inl _ \<Rightarrow> 0 | Inr bs \<Rightarrow> length bs))\<rparr>"

lemma read_loops_agree:
  "read_disk_loop (outcomes_kernel K C) fd w sz m n acc (t, pos + length acc) =
     (case read_loop K fd pos w sz m n acc t of
        (stat, n', bytes, err, m', t') \<Rightarrow> (stat, n', bytes, err, m', t', pos + length bytes))"
proof (induction K fd pos w sz m n acc t rule: read_loop.induct)
  case (2 K fd pos w sz m n acc t)
  let ?C = "outcomes_kernel K C"
  show ?case
  proof (cases "sys_read K t fd (pos + length acc) (sz - n)")
    case (Inl errno)
    then have r: "kc_read ?C (t, pos + length acc) fd (sz - n) = (Inl errno, t + 1, pos + length acc)"
      by (simp add: outcomes_kernel_def)
    show ?thesis
      using 2(1) [OF Inl] unfolding read_disk_loop.simps read_loop.simps r Inl by simp
  next
    case (Inr bs)
    then have r: "kc_read ?C (t, pos + length acc) fd (sz - n) = (Inr bs, t + 1, pos + length (acc @ bs))"
      by (simp add: outcomes_kernel_def)
    show ?thesis
      using 2(2) [OF Inr] unfolding read_disk_loop.simps read_loop.simps r Inr by simp
  qed
qed simp

lemma File_read_agree:
  "File_read_disk (outcomes_kernel K C) (t, m_pos f) f sz w =
     map_option (\<lambda>(stat, bytes, n, f', t'). (stat, bytes, n, f'\<lparr>m_pos := m_pos f\<rparr>, t', m_pos f')) (File_read K t f sz w)"
  using read_loops_agree [of K C "m_fd f" w "nat sz" "maxIters_of sz" 0 "[]" t "m_pos f"]
  by (auto simp: File_read_disk_def File_read_def split: prod.splits option.splits)

section \<open>The CRC of a file\<close>

text \<open>
  \<open>calculateCRC32\<close> reads the open file from its start in chunks of 32 bytes.
\<close>

definition crc_chunk :: int where "crc_chunk = 32"

partial_function (option) crc_file_loop ::
  "'k kernel_calls \<Rightarrow> U32 \<Rightarrow> U32 \<Rightarrow> File \<Rightarrow> 'k \<Rightarrow> ((File_Status + U32) \<times> File \<times> 'k) option" where
  "crc_file_loop C numIters seed f k =
     (if numIters < 0xFFFFFFFF
      then Option.bind (File_read_disk C k f crc_chunk False)
        (\<lambda>(status, bytes, chunkSize, f, k).
           if status \<noteq> OP_OK then Some (Inl status, f, k)
           else if chunkSize = 0 then Some (Inr seed, f, k)
           else crc_file_loop C (numIters + 1) (crc_update seed (take (nat chunkSize) bytes)) f k)
      else Some (Inl OTHER_ERROR, f, k))"

definition calculateCRC32 :: "'k kernel_calls \<Rightarrow> 'k \<Rightarrow> File \<Rightarrow> (File_Status \<times> U32 \<times> File \<times> 'k) option" where
  "calculateCRC32 C k f =
     (if m_mode f = OPEN_NO_MODE then Some (NOT_OPENED, 0, f, k)
      else
        (case File_seek (kc_disk C) k f 0 True of
           (status, f, k) \<Rightarrow>
             if status \<noteq> OP_OK then Some (status, 0, f, k)
             else do {
               (r, f, k) \<leftarrow> crc_file_loop C 0 0xFFFFFFFF f k;
               Some (case r of Inl status \<Rightarrow> (status, 0, f, k) | Inr seed \<Rightarrow> (OP_OK, seed, f, k))
             }))"

text \<open>
  \<open>niceCRC32\<close> opens the file anew for every chunk of 4096 bytes. \<open>offset\<close> is a signed 32-bit integer,
  whose overflow has no result. A file that is open at an early return is closed by its destructor.
\<close>

definition close_on_return :: "'k disk_calls \<Rightarrow> File \<Rightarrow> 'k \<Rightarrow> 'k" where
  "close_on_return D f k = (if m_mode f \<noteq> OPEN_NO_MODE then snd (File_close_write D k f) else k)"

definition nice_chunk :: int where "nice_chunk = 4096"

partial_function (option) nice_loop ::
  "'k kernel_calls \<Rightarrow> string \<Rightarrow> U32 \<Rightarrow> int \<Rightarrow> U32 \<Rightarrow> File \<Rightarrow> 'k \<Rightarrow> (File_Status \<times> U32 \<times> 'k) option" where
  "nice_loop C fileName i offset seed f k =
     (if i < 0xFFFFFFFF
      then Option.bind (File_open_write (kc_disk C) k f fileName OPEN_READ True)
        (\<lambda>(status, f, k).
           if status \<noteq> OP_OK then Some (status, 0, close_on_return (kc_disk C) f k)
           else case File_seek (kc_disk C) k f offset True of (status, f, k) \<Rightarrow>
             if status \<noteq> OP_OK then Some (status, 0, close_on_return (kc_disk C) f k)
             else Option.bind (File_read_disk C k f nice_chunk False)
               (\<lambda>(status, bytes, chunk, f, k).
                  if offset + chunk \<ge> 2147483648 then None
                  else case File_close_write (kc_disk C) k f of (f, k) \<Rightarrow>
                    if chunk \<noteq> 0 \<and> status = OP_OK
                    then nice_loop C fileName (i + 1) (offset + chunk) (crc_update seed (take (nat chunk) bytes)) f k
                    else if chunk = 0 \<and> status = OP_OK then Some (OP_OK, seed, k)
                    else Some (status, 0, k)))
      else Some (OTHER_ERROR, 0, close_on_return (kc_disk C) f k))"

definition niceCRC32 :: "'k kernel_calls \<Rightarrow> string \<Rightarrow> 'k \<Rightarrow> (File_Status \<times> U32 \<times> 'k) option" where
  "niceCRC32 C fileName k = nice_loop C fileName 0 0 0xFFFFFFFF File_new k"

section \<open>Regular files on a disk with room\<close>

text \<open>
  \<open>fds\<close> gives the path behind a descriptor and the offset at which the next read or write takes
  place; with \<open>O_APPEND\<close> that is the end of the file.
\<close>

definition content_of :: "(string \<Rightarrow> U8 list option) \<Rightarrow> string \<Rightarrow> U8 list" where
  "content_of fs name = (case fs name of None \<Rightarrow> [] | Some c \<Rightarrow> c)"

definition rd_open_read where
  "rd_open_read C files fds \<longleftrightarrow>
     (\<forall>k name. case files k name of
        None \<Rightarrow> \<exists>k'. k_open (kc_disk C) k name O_RDONLY = (Inl ENOENT, k') \<and> files k' = files k \<and> fds k' = fds k
      | Some c \<Rightarrow> \<exists>fd k'. k_open (kc_disk C) k name O_RDONLY = (Inr fd, k') \<and> fd \<noteq> -1 \<and> fds k fd = None \<and>
          files k' = files k \<and> fds k' = (fds k)(fd \<mapsto> (name, 0 :: nat)))"

definition rd_open_write where
  "rd_open_write C files fds \<longleftrightarrow>
     (\<forall>k name append. \<exists>fd k'.
        k_open (kc_disk C) k name (if append then O_WRONLY OR O_CREAT OR O_APPEND else O_WRONLY OR O_CREAT) = (Inr fd, k') \<and>
        fd \<noteq> -1 \<and> fds k fd = None \<and> files k' = (files k)(name \<mapsto> content_of (files k) name) \<and>
        fds k' = (fds k)(fd \<mapsto> (name, if append then length (content_of (files k) name) else 0)))"

definition rd_seek where
  "rd_seek C files fds \<longleftrightarrow>
     (\<forall>k fd name (pos :: nat) off. fds k fd = Some (name, pos) \<longrightarrow>
        (if 0 \<le> off then \<exists>k'. k_lseek (kc_disk C) k fd off SEEK_SET = (Inr off, k') \<and> files k' = files k \<and>
           fds k' = (fds k)(fd \<mapsto> (name, nat off))
         else \<exists>errno k'. k_lseek (kc_disk C) k fd off SEEK_SET = (Inl errno, k') \<and> files k' = files k \<and> fds k' = fds k))"

definition rd_read where
  "rd_read C files fds \<longleftrightarrow>
     (\<forall>k fd name pos c n. fds k fd = Some (name, pos) \<longrightarrow> files k name = Some c \<longrightarrow> 0 < n \<longrightarrow>
        (\<exists>k'. kc_read C k fd n = (Inr (take n (drop pos c)), k') \<and> files k' = files k \<and>
          fds k' = (fds k)(fd \<mapsto> (name, pos + length (take n (drop pos c))))))"

definition rd_write where
  "rd_write C files fds \<longleftrightarrow>
     (\<forall>k fd name pos c bs. fds k fd = Some (name, pos) \<longrightarrow> files k name = Some c \<longrightarrow> bs \<noteq> [] \<longrightarrow>
        (\<exists>k'. k_write (kc_disk C) k fd bs = (Inr (length bs), k') \<and>
          files k' = (files k)(name \<mapsto> overwrite pos bs c) \<and> fds k' = (fds k)(fd \<mapsto> (name, pos + length bs))))"

definition rd_close where
  "rd_close C files fds \<longleftrightarrow>
     (\<forall>k fd. files (k_close (kc_disk C) k fd) = files k \<and>
       (\<forall>fd'. fd' \<noteq> fd \<longrightarrow> fds (k_close (kc_disk C) k fd) fd' = fds k fd'))"

definition rd_stat where
  "rd_stat C files fds \<longleftrightarrow>
     (\<forall>k name. \<exists>r k'. kc_stat C k name = (r, k') \<and> files k' = files k \<and> fds k' = fds k \<and>
        (case files k name of None \<Rightarrow> r = Inl ENOENT | Some c \<Rightarrow> r = Inr (True, of_nat (length c))))"

definition regular_disk ::
  "'k kernel_calls \<Rightarrow> ('k \<Rightarrow> string \<Rightarrow> U8 list option) \<Rightarrow> ('k \<Rightarrow> int \<Rightarrow> (string \<times> nat) option) \<Rightarrow> bool" where
  "regular_disk C files fds \<longleftrightarrow> rd_open_read C files fds \<and> rd_open_write C files fds \<and> rd_seek C files fds \<and>
     rd_read C files fds \<and> rd_write C files fds \<and> rd_close C files fds \<and> rd_stat C files fds"

lemmas regular_disk_parts = regular_disk_def rd_open_read_def rd_open_write_def rd_seek_def rd_read_def rd_write_def
  rd_close_def rd_stat_def

lemma open_read_rd:
  assumes "regular_disk C files fds" "files k name = Some c"
  obtains fd k' where "File_open_write (kc_disk C) k f name OPEN_READ excl =
      Some (OP_OK, f\<lparr>m_mode := OPEN_READ, m_fd := fd, m_pos := 0\<rparr>, k')"
    "fd \<noteq> -1" "fds k fd = None" "files k' = files k" "fds k' = (fds k)(fd \<mapsto> (name, 0))"
proof -
  have "rd_open_read C files fds" using assms(1) by (simp add: regular_disk_def)
  from this [unfolded rd_open_read_def, rule_format, of k name] obtain fd k' where
    o: "k_open (kc_disk C) k name O_RDONLY = (Inr fd, k')" "fd \<noteq> -1" "fds k fd = None"
      "files k' = files k" "fds k' = (fds k)(fd \<mapsto> (name, 0))"
    by (auto simp: assms(2))
  have "File_open_write (kc_disk C) k f name OPEN_READ excl =
      Some (OP_OK, f\<lparr>m_mode := OPEN_READ, m_fd := fd, m_pos := 0\<rparr>, k')"
    by (simp add: File_open_write_def open_flags_def open_outcome_def o(1))
  from that [OF this o(2-5)] show thesis .
qed

lemma open_read_missing:
  assumes "regular_disk C files fds" "files k name = None"
  obtains k' where "File_open_write (kc_disk C) k f name OPEN_READ excl =
      Some (DOESNT_EXIST, f\<lparr>m_lastError := ENOENT, m_mode := OPEN_READ, m_fd := -1\<rparr>, k')" "files k' = files k" "fds k' = fds k"
proof -
  have "rd_open_read C files fds" using assms(1) by (simp add: regular_disk_def)
  from this [unfolded rd_open_read_def, rule_format, of k name] obtain k' where
    o: "k_open (kc_disk C) k name O_RDONLY = (Inl ENOENT, k')" "files k' = files k" "fds k' = fds k"
    by (auto simp: assms(2))
  have "File_open_write (kc_disk C) k f name OPEN_READ excl =
      Some (DOESNT_EXIST, f\<lparr>m_lastError := ENOENT, m_mode := OPEN_READ, m_fd := -1\<rparr>, k')"
    by (simp add: File_open_write_def open_flags_def open_outcome_def o(1) ENOENT_def ENOSPC_def)
  from that [OF this o(2,3)] show thesis .
qed

lemma open_write_rd:
  assumes "regular_disk C files fds" "mode = (if ap then OPEN_APPEND else OPEN_WRITE)"
  obtains fd k' where "File_open_write (kc_disk C) k f name mode excl =
      Some (OP_OK, f\<lparr>m_mode := mode, m_fd := fd, m_pos := 0\<rparr>, k')"
    "fd \<noteq> -1" "fds k fd = None" "files k' = (files k)(name \<mapsto> content_of (files k) name)"
    "fds k' = (fds k)(fd \<mapsto> (name, if ap then length (content_of (files k) name) else 0))"
proof -
  have "rd_open_write C files fds" using assms(1) by (simp add: regular_disk_def)
  from this [unfolded rd_open_write_def, rule_format, of k name ap] obtain fd k' where
    o: "k_open (kc_disk C) k name (if ap then O_WRONLY OR O_CREAT OR O_APPEND else O_WRONLY OR O_CREAT) = (Inr fd, k')"
      "fd \<noteq> -1" "fds k fd = None" "files k' = (files k)(name \<mapsto> content_of (files k) name)"
      "fds k' = (fds k)(fd \<mapsto> (name, if ap then length (content_of (files k) name) else 0))"
    by blast
  have "open_flags mode excl = Some (if ap then O_WRONLY OR O_CREAT OR O_APPEND else O_WRONLY OR O_CREAT)"
    by (simp add: assms(2) open_flags_def)
  then have "File_open_write (kc_disk C) k f name mode excl = Some (OP_OK, f\<lparr>m_mode := mode, m_fd := fd, m_pos := 0\<rparr>, k')"
    by (simp add: File_open_write_def open_outcome_def o(1))
  from that [OF this o(2-5)] show thesis .
qed

lemma seek_rd:
  assumes "regular_disk C files fds" "fds k (m_fd f) = Some (name, pos)" "m_mode f \<noteq> OPEN_NO_MODE" "0 \<le> off"
  obtains k' where "File_seek (kc_disk C) k f off True = (OP_OK, f, k')" "files k' = files k"
    "fds k' = (fds k)(m_fd f \<mapsto> (name, nat off))"
proof -
  have "rd_seek C files fds" using assms(1) by (simp add: regular_disk_def)
  from this [unfolded rd_seek_def, rule_format, OF assms(2), of off] obtain k' where
    o: "k_lseek (kc_disk C) k (m_fd f) off SEEK_SET = (Inr off, k')" "files k' = files k"
      "fds k' = (fds k)(m_fd f \<mapsto> (name, nat off))"
    using assms(4) by auto
  have "File_seek (kc_disk C) k f off True = (OP_OK, f, k')" using assms(3) by (simp add: File_seek_def o(1))
  from that [OF this o(2,3)] show thesis .
qed

lemma read_call:
  assumes "regular_disk C files fds" "fds k fd = Some (name, pos)" "files k name = Some c" "0 < n"
  obtains k' where "kc_read C k fd n = (Inr (take n (drop pos c)), k')" "files k' = files k"
    "fds k' = (fds k)(fd \<mapsto> (name, pos + length (take n (drop pos c))))"
proof -
  have "rd_read C files fds" using assms(1) by (simp add: regular_disk_def)
  from this [unfolded rd_read_def, rule_format, OF assms(2-4)] show thesis using that by blast
qed

lemma read_rd:
  assumes "regular_disk C files fds" "fds k (m_fd f) = Some (name, pos)" "files k name = Some c" "m_mode f \<noteq> OPEN_NO_MODE"
    and "0 < sz" "bytes = take (nat sz) (drop pos c)" "sz < 1073741824"
  obtains k' where "File_read_disk C k f sz w = Some (OP_OK, bytes, int (length bytes), f, k')" "files k' = files k"
    "fds k' = (fds k)(m_fd f \<mapsto> (name, pos + length bytes))"
proof -
  obtain k1 where k1: "kc_read C k (m_fd f) (nat sz) = (Inr bytes, k1)" "files k1 = files k"
    "fds k1 = (fds k)(m_fd f \<mapsto> (name, pos + length bytes))"
    using read_call [OF assms(1-3), of "nat sz"] assms(5,6) by auto
  obtain m where m: "nat (sz * 2) = Suc (Suc m)" using assms(5) by (cases "nat (sz * 2)" rule: nat.exhaust; cases "nat (sz * 2) - 1") auto
  show thesis
  proof (cases "length bytes = nat sz \<or> bytes = [] \<or> \<not> w")
    case True
    then have "File_read_disk C k f sz w = Some (OP_OK, bytes, int (length bytes), f, k1)"
      using assms(4,5,7) m k1(1) by (auto simp: File_read_disk_def)
    then show thesis using that k1(2,3) by blast
  next
    case False
    have len: "length bytes < nat sz" "pos + length bytes = length c" using False assms(6) by (auto simp: min_def split: if_splits)
    obtain k2 where k2: "kc_read C k1 (m_fd f) (nat sz - length bytes) = (Inr [], k2)" "files k2 = files k"
      "fds k2 = (fds k)(m_fd f \<mapsto> (name, pos + length bytes))"
      using read_call [OF assms(1), of k1 "m_fd f" name "length c" c "nat sz - length bytes"] len k1 assms(3) by auto
    have "2 < Suc (Suc m)" using len(1) False assms(5) m by (cases bytes) auto
    then obtain m' where m': "m = Suc m'" by (cases m) auto
    have "File_read_disk C k f sz w = Some (OP_OK, bytes, int (length bytes), f, k2)"
      using False assms(4,5,7) m m' k1(1) k2(1) len(1) by (simp add: File_read_disk_def)
    then show thesis using that k2(2,3) by blast
  qed
qed

lemma write_rd:
  assumes "regular_disk C files fds" "fds k (m_fd f) = Some (name, pos)" "files k name = Some c" "m_mode f \<noteq> OPEN_NO_MODE"
    and "0 < sz" "nat sz \<le> length buffer" "sz < 1073741824"
  obtains k' where "File_write (kc_disk C) k f buffer sz = Some (OP_OK, sz, f, k')"
    "files k' = (files k)(name \<mapsto> overwrite pos (take (nat sz) buffer) c)"
    "fds k' = (fds k)(m_fd f \<mapsto> (name, pos + nat sz))"
proof -
  let ?bs = "take (nat sz) buffer"
  have bs: "?bs \<noteq> []" "length ?bs = nat sz" using assms(5,6) by auto
  have "rd_write C files fds" using assms(1) by (simp add: regular_disk_def)
  from this [unfolded rd_write_def, rule_format, OF assms(2,3) bs(1)] obtain k' where
    o: "k_write (kc_disk C) k (m_fd f) ?bs = (Inr (length ?bs), k')" "files k' = (files k)(name \<mapsto> overwrite pos ?bs c)"
      "fds k' = (fds k)(m_fd f \<mapsto> (name, pos + length ?bs))"
    by blast
  obtain n where n: "nat (sz * 2) = Suc n" using assms(5) by (cases "nat (sz * 2)") auto
  have "File_write (kc_disk C) k f buffer sz = Some (OP_OK, sz, f, k')"
    using assms(4-7) o(1) bs(2) n by (simp add: File_write_def read_at_def)
  from that [OF this o(2)] show thesis using o(3) bs(2) by simp
qed

lemma close_rd:
  assumes "regular_disk C files fds"
  shows "files (snd (File_close_write (kc_disk C) k f)) = files k"
    "fd \<noteq> m_fd f \<Longrightarrow> fds (snd (File_close_write (kc_disk C) k f)) fd = fds k fd"
    "fst (File_close_write (kc_disk C) k f) = File_close f"
  using assms by (simp_all add: regular_disk_def rd_close_def File_close_write_def)

lemma close_on_return_rd:
  assumes "regular_disk C files fds"
  shows "files (close_on_return (kc_disk C) f k) = files k"
    "fd \<noteq> m_fd f \<Longrightarrow> fds (close_on_return (kc_disk C) f k) fd = fds k fd"
  using close_rd [OF assms] by (simp_all add: close_on_return_def)

lemma stat_rd:
  assumes "regular_disk C files fds"
  obtains k' where "kc_stat C k name = ((case files k name of None \<Rightarrow> Inl ENOENT | Some c \<Rightarrow> Inr (True, of_nat (length c))), k')"
    "files k' = files k" "fds k' = fds k"
proof -
  have "rd_stat C files fds" using assms by (simp add: regular_disk_def)
  from this [unfolded rd_stat_def, rule_format, of k name] show thesis using that by (auto split: option.splits)
qed

text \<open>A disk with a table of descriptors, to show that the assumptions can hold.\<close>

type_synonym table_disk_state = "(string \<Rightarrow> U8 list option) \<times> (int \<times> string \<times> nat) list"

definition td_fds :: "table_disk_state \<Rightarrow> int \<Rightarrow> (string \<times> nat) option" where
  "td_fds k = map_of (snd k)"

definition td_new_fd :: "table_disk_state \<Rightarrow> int" where
  "td_new_fd k = fold max (map fst (snd k)) 2 + 1"

definition table_disk :: "table_disk_state kernel_calls" where
  "table_disk = \<lparr>
     kc_disk = \<lparr>
       k_open = (\<lambda>k name flags.
         if flags = O_RDONLY
         then (case fst k name of None \<Rightarrow> (Inl ENOENT, k)
           | Some c \<Rightarrow> (Inr (td_new_fd k), (fst k, (td_new_fd k, name, 0) # snd k)))
         else (Inr (td_new_fd k), ((fst k)(name \<mapsto> content_of (fst k) name),
           (td_new_fd k, name, if flags = O_WRONLY OR O_CREAT then 0 else length (content_of (fst k) name)) # snd k))),
       k_lseek = (\<lambda>k fd off whence.
         (case td_fds k fd of None \<Rightarrow> (Inl EBADF, k)
          | Some (name, pos) \<Rightarrow> if 0 \<le> off then (Inr off, (fst k, (fd, name, nat off) # snd k)) else (Inl 22, k))),
       k_write = (\<lambda>k fd bs.
         (case td_fds k fd of None \<Rightarrow> (Inl EBADF, k)
          | Some (name, pos) \<Rightarrow> (Inr (length bs),
              ((fst k)(name \<mapsto> overwrite pos bs (content_of (fst k) name)), (fd, name, pos + length bs) # snd k)))),
       k_fsync = (\<lambda>k fd. (Inr (), k)),
       k_fallocate = (\<lambda>k fd off len. (0, k)),
       k_close = (\<lambda>k fd. k)\<rparr>,
     kc_read = (\<lambda>k fd n.
       (case td_fds k fd of None \<Rightarrow> (Inl EBADF, k)
        | Some (name, pos) \<Rightarrow>
            let bs = take n (drop pos (content_of (fst k) name)) in
            (Inr bs, (fst k, (fd, name, pos + length bs) # snd k)))),
     kc_stat = (\<lambda>k name.
       ((case fst k name of None \<Rightarrow> Inl ENOENT | Some c \<Rightarrow> Inr (True, of_nat (length c))), k))\<rparr>"

lemma fold_max_le: "(m :: int) \<le> fold max xs m" "x \<in> set xs \<Longrightarrow> x \<le> fold max xs m"
proof (induction xs arbitrary: m)
  case (Cons y xs)
  { case 1 show ?case using Cons.IH(1) [of "max y m"] by simp }
  { case 2 then show ?case using Cons.IH(1) [of "max y m"] Cons.IH(2) [of "max y m"] by fastforce }
qed simp_all

lemma td_new_fd: "td_fds k (td_new_fd k) = None" "td_new_fd k \<noteq> -1"
proof -
  have "x \<le> fold max (map fst (snd k)) 2" if "x \<in> fst ` set (snd k)" for x
    using fold_max_le(2) [of x "map fst (snd k)" 2] that by simp
  then have "td_new_fd k \<notin> fst ` set (snd k)" by (force simp: td_new_fd_def)
  then show "td_fds k (td_new_fd k) = None" by (simp add: td_fds_def map_of_eq_None_iff)
  show "td_new_fd k \<noteq> -1" using fold_max_le(1) [of 2 "map fst (snd k)"] by (simp add: td_new_fd_def)
qed

lemma open_flags_distinct:
  "O_WRONLY OR O_CREAT \<noteq> O_RDONLY" "O_WRONLY OR O_CREAT OR O_APPEND \<noteq> O_RDONLY"
  "O_WRONLY OR O_CREAT OR O_APPEND \<noteq> O_WRONLY OR O_CREAT"
  by (simp_all add: O_WRONLY_def O_CREAT_def O_RDONLY_def O_APPEND_def)

lemma table_disk_regular: "regular_disk table_disk fst td_fds"
  unfolding regular_disk_def
proof (intro conjI)
  show "rd_open_read table_disk fst td_fds"
    by (auto simp: rd_open_read_def table_disk_def td_new_fd split: option.split) (simp_all add: td_fds_def)
  show "rd_open_write table_disk fst td_fds"
    using open_flags_distinct by (auto simp: rd_open_write_def table_disk_def td_new_fd) (simp_all add: td_fds_def)
  show "rd_seek table_disk fst td_fds"
    by (auto simp: rd_seek_def table_disk_def) (simp add: td_fds_def)
  show "rd_read table_disk fst td_fds"
    by (auto simp: rd_read_def table_disk_def content_of_def Let_def) (simp add: td_fds_def)
  show "rd_write table_disk fst td_fds"
    by (auto simp: rd_write_def table_disk_def content_of_def) (simp add: td_fds_def)
  show "rd_close table_disk fst td_fds" by (simp add: rd_close_def table_disk_def)
  show "rd_stat table_disk fst td_fds" by (auto simp: rd_stat_def table_disk_def split: option.split)
qed

section \<open>Both CRCs are the CRC of the content\<close>

lemma drop_split: "drop pos c = take n (drop pos c) @ drop (pos + length (take n (drop pos c))) c"
proof (cases "n \<le> length c - pos")
  case True
  then have "drop (pos + length (take n (drop pos c))) c = drop n (drop pos c)" by (simp add: min_def add.commute)
  then show ?thesis by (metis append_take_drop_id)
qed (simp add: min_def)

lemma crc_loop_disk:
  assumes "regular_disk C files fds" "m_mode f \<noteq> OPEN_NO_MODE" "files k name = Some c"
    and "fds k (m_fd f) = Some (name, pos)" "unat i + length (drop pos c) < 4294967295"
  shows "\<exists>k'. crc_file_loop C i seed f k = Some (Inr (crc_update seed (drop pos c)), f, k') \<and> files k' = files k"
  using assms(3-)
proof (induction "length (drop pos c)" arbitrary: i seed k pos rule: less_induct)
  case less
  define bs where "bs = take (nat crc_chunk) (drop pos c)"
  have i: "i < 0xFFFFFFFF" using less.prems(3) by (simp add: word_less_nat_alt)
  obtain k1 where k1: "File_read_disk C k f crc_chunk False = Some (OP_OK, bs, int (length bs), f, k1)" "files k1 = files k"
    "fds k1 = (fds k)(m_fd f \<mapsto> (name, pos + length bs))"
    by (rule read_rd [OF assms(1) less.prems(2,1) assms(2), of crc_chunk bs False]) (simp_all add: crc_chunk_def bs_def)
  show ?case
  proof (cases "drop pos c = []")
    case True
    then have "bs = []" by (simp add: bs_def)
    then show ?thesis using True i k1(1,2) by (subst crc_file_loop.simps) simp
  next
    case False
    then have bs: "bs \<noteq> []" by (simp add: bs_def crc_chunk_def)
    let ?pos = "pos + length bs"
    have rest: "drop pos c = bs @ drop ?pos c"
      unfolding bs_def by (rule drop_split)
    have "pos < length c" using False by simp
    then have l: "length (drop ?pos c) < length (drop pos c)" using bs unfolding length_drop by (cases bs) auto
    have "unat (i + 1) = unat i + 1" using less.prems(3) by (simp add: unat_add_small)
    then have lim: "unat (i + 1) + length (drop ?pos c) < 4294967295" using l less.prems(3) by linarith
    have "\<exists>k'. crc_file_loop C (i + 1) (crc_update seed bs) f k1 =
        Some (Inr (crc_update (crc_update seed bs) (drop ?pos c)), f, k') \<and> files k' = files k1"
      by (rule less.hyps [OF l]) (use less.prems(1) k1(2,3) lim in simp_all)
    moreover have "crc_update seed (drop pos c) = crc_update (crc_update seed bs) (drop ?pos c)"
      by (subst rest) (simp add: crc_update_append)
    ultimately show ?thesis using i k1(1,2) bs by (subst crc_file_loop.simps) simp
  qed
qed

lemma nice_loop_disk:
  assumes "regular_disk C files fds" "files k name = Some c" "pos \<le> length c" "length c < 2147483648"
    and "unat i + length (drop pos c) < 4294967295"
  shows "\<exists>k'. nice_loop C name i (int pos) seed f k = Some (OP_OK, crc_update seed (drop pos c), k') \<and> files k' = files k"
  using assms(2-)
proof (induction "length (drop pos c)" arbitrary: i seed k pos f rule: less_induct)
  case less
  define bs where "bs = take (nat nice_chunk) (drop pos c)"
  have i: "i < 0xFFFFFFFF" using less.prems(4) by (simp add: word_less_nat_alt)
  obtain fd k1 where k1: "File_open_write (kc_disk C) k f name OPEN_READ True =
      Some (OP_OK, f\<lparr>m_mode := OPEN_READ, m_fd := fd, m_pos := 0\<rparr>, k1)" "fd \<noteq> -1" "files k1 = files k"
    "fds k1 = (fds k)(fd \<mapsto> (name, 0))"
    by (rule open_read_rd [OF assms(1) less.prems(1)])
  let ?f = "f\<lparr>m_mode := OPEN_READ, m_fd := fd, m_pos := 0\<rparr>"
  obtain k2 where k2: "File_seek (kc_disk C) k1 ?f (int pos) True = (OP_OK, ?f, k2)" "files k2 = files k"
    "fds k2 = (fds k)(fd \<mapsto> (name, pos))"
    using seek_rd [OF assms(1), of k1 ?f name 0 "int pos"] k1(3,4) by auto
  have "files k2 name = Some c" using k2(2) less.prems(1) by simp
  then obtain k3 where k3: "File_read_disk C k2 ?f nice_chunk False = Some (OP_OK, bs, int (length bs), ?f, k3)" "files k3 = files k"
    using read_rd [OF assms(1), of k2 ?f name pos c nice_chunk bs False] k2(2,3) by (auto simp: nice_chunk_def bs_def)
  obtain f4 k4 where k4: "File_close_write (kc_disk C) k3 ?f = (f4, k4)" "files k4 = files k"
    using close_rd(1) [OF assms(1), of k3 ?f] k3(2) by (cases "File_close_write (kc_disk C) k3 ?f") simp
  have le: "pos + length bs \<le> length c" using less.prems(2) by (simp add: bs_def)
  have sm: "int pos + int (length bs) < 2147483648" using le less.prems(3) by linarith
  show ?case
  proof (cases "drop pos c = []")
    case True
    then have "bs = []" by (simp add: bs_def)
    then show ?thesis
      using True i k1(1) k2(1) k3(1) k4 sm by (subst nice_loop.simps) simp
  next
    case False
    then have bs: "bs \<noteq> []" by (simp add: bs_def nice_chunk_def)
    let ?pos = "pos + length bs"
    have rest: "drop pos c = bs @ drop ?pos c"
      unfolding bs_def by (rule drop_split)
    have "pos < length c" using False by simp
    then have l: "length (drop ?pos c) < length (drop pos c)" using bs unfolding length_drop by (cases bs) auto
    have "unat (i + 1) = unat i + 1" using less.prems(4) by (simp add: unat_add_small)
    then have lim: "unat (i + 1) + length (drop ?pos c) < 4294967295" using l less.prems(4) by linarith
    have "\<exists>k'. nice_loop C name (i + 1) (int ?pos) (crc_update seed bs) f4 k4 =
        Some (OP_OK, crc_update (crc_update seed bs) (drop ?pos c), k') \<and> files k' = files k4"
      by (rule less.hyps [OF l]) (use less.prems(1,3) k4(2) lim le in simp_all)
    moreover have "crc_update seed (drop pos c) = crc_update (crc_update seed bs) (drop ?pos c)"
      by (subst rest) (simp add: crc_update_append)
    ultimately show ?thesis
      using i k1(1) k2(1) k3(1) k4 bs sm by (subst nice_loop.simps) (simp add: add.commute)
  qed
qed

text \<open>
  The two CRC functions of the file layer agree: \<open>calculateCRC32\<close>, which reads the open file in
  chunks of 32 bytes, and \<open>niceCRC32\<close>, which opens it again for each 4096 bytes, both give the
  CRC-32 register after the whole content (from the seed 0xFFFFFFFF and without the final
  complement of the hash utility), for files below 2 GB, and leave the files as they are.
\<close>

theorem file_crcs_agree:
  assumes "regular_disk C files fds" "files k name = Some c" "length c < 2147483648"
    and "m_mode f \<noteq> OPEN_NO_MODE" "fds k (m_fd f) = Some (name, pos)"
  shows "\<exists>k1 k2. calculateCRC32 C k f = Some (OP_OK, crc_update 0xFFFFFFFF c, f, k1) \<and>
    niceCRC32 C name k = Some (OP_OK, crc_update 0xFFFFFFFF c, k2) \<and> files k1 = files k \<and> files k2 = files k"
proof -
  obtain k0 where k0: "File_seek (kc_disk C) k f 0 True = (OP_OK, f, k0)" "files k0 = files k"
    "fds k0 (m_fd f) = Some (name, 0)"
    by (rule seek_rd [OF assms(1,5,4), of 0]) simp_all
  have "\<exists>k'. crc_file_loop C 0 0xFFFFFFFF f k0 = Some (Inr (crc_update 0xFFFFFFFF (drop 0 c)), f, k') \<and> files k' = files k0"
    by (rule crc_loop_disk [OF assms(1,4)]) (use assms(2,3) k0(2,3) in simp_all)
  moreover have "\<exists>k'. nice_loop C name 0 (int 0) 0xFFFFFFFF File_new k =
      Some (OP_OK, crc_update 0xFFFFFFFF (drop 0 c), k') \<and> files k' = files k"
    by (rule nice_loop_disk [OF assms(1,2)]) (use assms(3) in simp_all)
  ultimately show ?thesis using assms(4) k0(1,2) unfolding calculateCRC32_def niceCRC32_def by (auto simp del: crc_update.simps)
qed

lemma file_crcs_agree_witness:
  "\<exists>k1 k2. calculateCRC32 table_disk (Map.empty(''a'' \<mapsto> [1, 2]), [(3, ''a'', 1)]) (File_new\<lparr>m_mode := OPEN_READ, m_fd := 3\<rparr>) =
      Some (OP_OK, crc_update 0xFFFFFFFF [1, 2], File_new\<lparr>m_mode := OPEN_READ, m_fd := 3\<rparr>, k1) \<and>
    niceCRC32 table_disk ''a'' (Map.empty(''a'' \<mapsto> [1, 2]), [(3, ''a'', 1)]) = Some (OP_OK, crc_update 0xFFFFFFFF [1, 2], k2)"
  using file_crcs_agree [OF table_disk_regular, of "(Map.empty(''a'' \<mapsto> [1, 2]), [(3, ''a'', 1)])" "''a''" "[1, 2]"
      "File_new\<lparr>m_mode := OPEN_READ, m_fd := 3\<rparr>" 1]
  by (auto simp: td_fds_def simp del: crc_update.simps)

end
