(* ===== verification/Os_File_System.thy ===== *)
theory Os_File_System
  imports Os_File_Read
begin

text \<open>
  Os/Linux/FileSystem.cpp: directories, removing and moving files, copying and appending a file to
  another. The results of the directory calls of the kernel are parameters; what copying relies on
  is \<^const>\<open>regular_disk\<close>.
\<close>

section \<open>Statuses and error numbers\<close>

datatype FS_Status =
  FS_OP_OK | FS_ALREADY_EXISTS | FS_NO_SPACE | FS_NO_PERMISSION | FS_NOT_DIR | FS_IS_DIR | FS_NOT_EMPTY |
  FS_INVALID_PATH | FS_FILE_LIMIT | FS_BUSY | FS_OTHER_ERROR

definition EPERM :: int where "EPERM = 1"
definition EFAULT :: int where "EFAULT = 14"
definition EBUSY :: int where "EBUSY = 16"
definition ENOTDIR :: int where "ENOTDIR = 20"
definition EISDIR :: int where "EISDIR = 21"
definition EINVAL :: int where "EINVAL = 22"
definition EROFS :: int where "EROFS = 30"
definition EMLINK :: int where "EMLINK = 31"
definition ENAMETOOLONG :: int where "ENAMETOOLONG = 36"
definition ENOTEMPTY :: int where "ENOTEMPTY = 39"
definition ELOOP :: int where "ELOOP = 40"
definition EDQUOT :: int where "EDQUOT = 122"

text \<open>What \<open>opendir\<close> leads to: the entries, whether each is a regular file, and how the list ends.\<close>

record dir_stream =
  ds_entries :: "(bool \<times> string) list"
  ds_errno :: int
  ds_close_ok :: bool

text \<open>The directory calls; \<^const>\<open>None\<close> is success, \<open>Some errno\<close> a failure.\<close>

record 'k dir_calls =
  dc_mkdir :: "'k \<Rightarrow> string \<Rightarrow> int option \<times> 'k"
  dc_rmdir :: "'k \<Rightarrow> string \<Rightarrow> int option \<times> 'k"
  dc_unlink :: "'k \<Rightarrow> string \<Rightarrow> int option \<times> 'k"
  dc_rename :: "'k \<Rightarrow> string \<Rightarrow> string \<Rightarrow> int option \<times> 'k"
  dc_chdir :: "'k \<Rightarrow> string \<Rightarrow> int option \<times> 'k"
  dc_opendir :: "'k \<Rightarrow> string \<Rightarrow> (int + dir_stream) \<times> 'k"
  dc_statvfs :: "'k \<Rightarrow> string \<Rightarrow> (int + U64 \<times> U64 \<times> U64) \<times> 'k"

section \<open>Directories\<close>

definition createDirectory :: "'k dir_calls \<Rightarrow> string \<Rightarrow> 'k \<Rightarrow> FS_Status \<times> 'k" where
  "createDirectory F path k = (case dc_mkdir F k path of (mkStat, k) \<Rightarrow>
     ((case mkStat of None \<Rightarrow> FS_OP_OK
       | Some errno \<Rightarrow>
           if errno \<in> {EACCES, EPERM, EROFS, EFAULT} then FS_NO_PERMISSION
           else if errno = EEXIST then FS_ALREADY_EXISTS
           else if errno \<in> {ELOOP, ENOENT, ENAMETOOLONG} then FS_INVALID_PATH
           else if errno = ENOTDIR then FS_NOT_DIR
           else if errno \<in> {ENOSPC, EDQUOT} then FS_NO_SPACE
           else if errno = EMLINK then FS_FILE_LIMIT
           else FS_OTHER_ERROR), k))"

definition removeDirectory :: "'k dir_calls \<Rightarrow> string \<Rightarrow> 'k \<Rightarrow> FS_Status \<times> 'k" where
  "removeDirectory F path k = (case dc_rmdir F k path of (r, k) \<Rightarrow>
     ((case r of None \<Rightarrow> FS_OP_OK
       | Some errno \<Rightarrow>
           if errno \<in> {EACCES, EPERM, EROFS, EFAULT} then FS_NO_PERMISSION
           else if errno \<in> {ENOTEMPTY, EEXIST} then FS_NOT_EMPTY
           else if errno \<in> {EINVAL, ELOOP, ENOENT, ENAMETOOLONG} then FS_INVALID_PATH
           else if errno = ENOTDIR then FS_NOT_DIR
           else if errno = EBUSY then FS_BUSY
           else FS_OTHER_ERROR), k))"

definition opendir_error :: "int \<Rightarrow> FS_Status" where
  "opendir_error errno =
     (if errno = EACCES then FS_NO_PERMISSION
      else if errno = ENOENT then FS_INVALID_PATH
      else if errno = ENOTDIR then FS_NOT_DIR
      else FS_OTHER_ERROR)"

definition dir_loop_limit :: U32 where "dir_loop_limit = 0xFFFFFFFF"

text \<open>The loop stops at \<open>maxNum\<close> names, at the limit of turns, or at the end of the directory.\<close>

fun readdir_loop :: "U32 \<Rightarrow> int \<Rightarrow> (bool \<times> string) list \<Rightarrow> U32 \<Rightarrow> string list \<Rightarrow> FS_Status \<times> U32 \<times> string list" where
  "readdir_loop maxNum errno entries limitCount fileArray =
     (if of_nat (length fileArray) < maxNum \<and> limitCount < dir_loop_limit
      then (case entries of
          (regular, name) # entries \<Rightarrow> readdir_loop maxNum errno entries (limitCount + 1)
            (if regular then fileArray @ [take 255 name] else fileArray)
        | [] \<Rightarrow> (if errno \<noteq> 0 then FS_OTHER_ERROR else FS_OP_OK, limitCount + 1, fileArray))
      else (FS_OP_OK, limitCount, fileArray))"

declare readdir_loop.simps [simp del]

definition readDirectory :: "'k dir_calls \<Rightarrow> string \<Rightarrow> U32 \<Rightarrow> 'k \<Rightarrow> (FS_Status \<times> string list) \<times> 'k" where
  "readDirectory F path maxNum k = (case dc_opendir F k path of
     (Inl errno, k) \<Rightarrow> ((opendir_error errno, []), k)
   | (Inr d, k) \<Rightarrow>
       (case readdir_loop maxNum (ds_errno d) (ds_entries d) 0 [] of
          (dirStat, limitCount, fileArray) \<Rightarrow>
            let dirStat = (if limitCount = dir_loop_limit then FS_FILE_LIMIT else dirStat);
                dirStat = (if \<not> ds_close_ok d then FS_OTHER_ERROR else dirStat) in
            ((dirStat, fileArray), k)))"

fun count_loop :: "int \<Rightarrow> (bool \<times> string) list \<Rightarrow> U32 \<Rightarrow> U32 \<Rightarrow> FS_Status \<times> U32 \<times> U32" where
  "count_loop errno entries limitCount fileCount =
     (if limitCount < dir_loop_limit
      then (case entries of
          (regular, name) # entries \<Rightarrow> count_loop errno entries (limitCount + 1) (if regular then fileCount + 1 else fileCount)
        | [] \<Rightarrow> (if errno \<noteq> 0 then FS_OTHER_ERROR else FS_OP_OK, limitCount, fileCount))
      else (FS_OP_OK, limitCount, fileCount))"

declare count_loop.simps [simp del]

definition getFileCount :: "'k dir_calls \<Rightarrow> string \<Rightarrow> 'k \<Rightarrow> (FS_Status \<times> U32) \<times> 'k" where
  "getFileCount F directory k = (case dc_opendir F k directory of
     (Inl errno, k) \<Rightarrow> ((opendir_error errno, 0), k)
   | (Inr d, k) \<Rightarrow>
       (case count_loop (ds_errno d) (ds_entries d) 0 0 of
          (dirStat, limitCount, fileCount) \<Rightarrow>
            let dirStat = (if limitCount = dir_loop_limit then FS_FILE_LIMIT else dirStat);
                dirStat = (if \<not> ds_close_ok d then FS_OTHER_ERROR else dirStat) in
            ((dirStat, fileCount), k)))"

definition removeFile :: "'k dir_calls \<Rightarrow> string \<Rightarrow> 'k \<Rightarrow> FS_Status \<times> 'k" where
  "removeFile F path k = (case dc_unlink F k path of (r, k) \<Rightarrow>
     ((case r of None \<Rightarrow> FS_OP_OK
       | Some errno \<Rightarrow>
           if errno \<in> {EACCES, EPERM, EROFS} then FS_NO_PERMISSION
           else if errno = EISDIR then FS_IS_DIR
           else if errno \<in> {ELOOP, ENOENT, ENAMETOOLONG} then FS_INVALID_PATH
           else if errno = ENOTDIR then FS_NOT_DIR
           else if errno = EBUSY then FS_BUSY
           else FS_OTHER_ERROR), k))"

definition moveFile :: "'k dir_calls \<Rightarrow> string \<Rightarrow> string \<Rightarrow> 'k \<Rightarrow> FS_Status \<times> 'k" where
  "moveFile F originPath destPath k = (case dc_rename F k originPath destPath of (r, k) \<Rightarrow>
     ((case r of None \<Rightarrow> FS_OP_OK
       | Some errno \<Rightarrow>
           if errno \<in> {EACCES, EPERM, EROFS, EFAULT} then FS_NO_PERMISSION
           else if errno \<in> {EDQUOT, ENOSPC} then FS_NO_SPACE
           else if errno \<in> {ELOOP, ENAMETOOLONG, ENOENT, EINVAL} then FS_INVALID_PATH
           else if errno \<in> {ENOTDIR, EISDIR} then FS_NOT_DIR
           else if errno \<in> {ENOTEMPTY, EEXIST} then FS_NOT_EMPTY
           else if errno = EMLINK then FS_FILE_LIMIT
           else if errno = EBUSY then FS_BUSY
           else FS_OTHER_ERROR), k))"

definition changeWorkingDirectory :: "'k dir_calls \<Rightarrow> string \<Rightarrow> 'k \<Rightarrow> FS_Status \<times> 'k" where
  "changeWorkingDirectory F path k = (case dc_chdir F k path of (r, k) \<Rightarrow>
     ((case r of None \<Rightarrow> FS_OP_OK
       | Some errno \<Rightarrow>
           if errno \<in> {EACCES, EFAULT} then FS_NO_PERMISSION
           else if errno = ENOTEMPTY then FS_NOT_EMPTY
           else if errno \<in> {ENOENT, ELOOP, ENAMETOOLONG} then FS_INVALID_PATH
           else if errno = ENOTDIR then FS_NOT_DIR
           else FS_OTHER_ERROR), k))"

text \<open>The result has the total and the free bytes, which a failure leaves as they are.\<close>

definition getFreeSpace :: "'k dir_calls \<Rightarrow> string \<Rightarrow> 'k \<Rightarrow> (FS_Status + U64 \<times> U64) \<times> 'k" where
  "getFreeSpace F path k = (case dc_statvfs F k path of
     (Inl errno, k) \<Rightarrow>
       (Inl (if errno = EACCES then FS_NO_PERMISSION
          else if errno \<in> {ELOOP, ENOENT, ENAMETOOLONG} then FS_INVALID_PATH
          else if errno = ENOTDIR then FS_NOT_DIR
          else FS_OTHER_ERROR), k)
   | (Inr (blocks, frsize, bfree), k) \<Rightarrow> (Inr (blocks * frsize, bfree * frsize), k))"

section \<open>Files\<close>

definition handleFileError :: "File_Status \<Rightarrow> FS_Status" where
  "handleFileError fileStatus = (case fileStatus of
     NO_SPACE \<Rightarrow> FS_NO_SPACE
   | NO_PERMISSION \<Rightarrow> FS_NO_PERMISSION
   | DOESNT_EXIST \<Rightarrow> FS_INVALID_PATH
   | _ \<Rightarrow> FS_OTHER_ERROR)"

text \<open>The size is what \<open>stat\<close> left in the struct.\<close>

definition initAndCheckFileStats :: "'k kernel_calls \<Rightarrow> string \<Rightarrow> 'k \<Rightarrow> (FS_Status + U64) \<times> 'k" where
  "initAndCheckFileStats C filePath k = (case kc_stat C k filePath of
     (Inl errno, k) \<Rightarrow>
       (Inl (if errno = EACCES then FS_NO_PERMISSION
          else if errno \<in> {ELOOP, ENOENT, ENAMETOOLONG} then FS_INVALID_PATH
          else if errno = ENOTDIR then FS_NOT_DIR
          else FS_OTHER_ERROR), k)
   | (Inr (regular, st_size), k) \<Rightarrow> (if \<not> regular then Inl FS_INVALID_PATH else Inr st_size, k))"

definition getFileSize :: "'k kernel_calls \<Rightarrow> string \<Rightarrow> 'k \<Rightarrow> (FS_Status + U64) \<times> 'k" where
  "getFileSize C path k = (case initAndCheckFileStats C path k of
     (Inl fileStat, k) \<Rightarrow> (Inl fileStat, k)
   | (Inr st_size, k) \<Rightarrow> (Inr st_size, k))"

text \<open>
  The turns that are left are the first argument; when they are used up the assertion behind the
  loop fails. \<open>source\<close> and \<open>destination\<close> are passed by value: the destructors of the copies close
  the descriptors when \<open>copyFileData\<close> returns, and the caller closes them a second time.
\<close>

definition FILE_SYSTEM_CHUNK_SIZE :: int where "FILE_SYSTEM_CHUNK_SIZE = 256"

fun copy_loop :: "nat \<Rightarrow> 'k kernel_calls \<Rightarrow> File \<Rightarrow> File \<Rightarrow> 'k \<Rightarrow> (FS_Status \<times> File \<times> File \<times> 'k) option" where
  "copy_loop 0 C source destination k = None"
| "copy_loop (Suc n) C source destination k = do {
     (file_status, fileBuffer, chunkSize, source, k) \<leftarrow> File_read_disk C k source FILE_SYSTEM_CHUNK_SIZE False;
     if file_status \<noteq> OP_OK then Some (handleFileError file_status, source, destination, k)
     else if chunkSize = 0 then Some (FS_OP_OK, source, destination, k)
     else do {
       (file_status, chunkSize, destination, k) \<leftarrow> File_write (kc_disk C) k destination fileBuffer chunkSize;
       if file_status \<noteq> OP_OK then Some (handleFileError file_status, source, destination, k)
       else copy_loop n C source destination k
     }
   }"

declare copy_loop.simps(2) [simp del]

definition copyFileData :: "'k kernel_calls \<Rightarrow> File \<Rightarrow> File \<Rightarrow> U64 \<Rightarrow> 'k \<Rightarrow> (FS_Status \<times> 'k) option" where
  "copyFileData C source destination sz k = do {
     (status, source, destination, k) \<leftarrow> copy_loop (unat (sz div 256 + 2)) C source destination k;
     Some (status, close_on_return (kc_disk C) source (close_on_return (kc_disk C) destination k))
   }"

definition copy_opened :: "'k kernel_calls \<Rightarrow> File \<Rightarrow> string \<Rightarrow> File_Mode \<Rightarrow> U64 \<Rightarrow> 'k \<Rightarrow> (FS_Status \<times> 'k) option" where
  "copy_opened C source destPath mode fileSize k = do {
     (file_status, destination, k) \<leftarrow> File_open_write (kc_disk C) k File_new destPath mode True;
     if file_status \<noteq> OP_OK
     then Some (handleFileError file_status, close_on_return (kc_disk C) source (close_on_return (kc_disk C) destination k))
     else do {
       (fs_status, k) \<leftarrow> copyFileData C source destination fileSize k;
       let (source, k) = File_close_write (kc_disk C) k source;
       let (destination, k) = File_close_write (kc_disk C) k destination;
       Some (fs_status, k)
     }
   }"

definition copyFile :: "'k kernel_calls \<Rightarrow> string \<Rightarrow> string \<Rightarrow> 'k \<Rightarrow> (FS_Status \<times> 'k) option" where
  "copyFile C originPath destPath k =
     (case initAndCheckFileStats C originPath k of
        (Inl fs_status, k) \<Rightarrow> Some (fs_status, k)
      | (Inr _, k) \<Rightarrow>
          (case getFileSize C originPath k of
             (Inl fs_status, k) \<Rightarrow> Some (fs_status, k)
           | (Inr fileSize, k) \<Rightarrow> do {
               (file_status, source, k) \<leftarrow> File_open_write (kc_disk C) k File_new originPath OPEN_READ True;
               if file_status \<noteq> OP_OK then Some (handleFileError file_status, close_on_return (kc_disk C) source k)
               else copy_opened C source destPath OPEN_WRITE fileSize k
             }))"

definition appendFile :: "'k kernel_calls \<Rightarrow> string \<Rightarrow> string \<Rightarrow> bool \<Rightarrow> 'k \<Rightarrow> (FS_Status \<times> 'k) option" where
  "appendFile C originPath destPath createMissingDest k =
     (case initAndCheckFileStats C originPath k of
        (Inl fs_status, k) \<Rightarrow> Some (fs_status, k)
      | (Inr _, k) \<Rightarrow>
          (case getFileSize C originPath k of
             (Inl fs_status, k) \<Rightarrow> Some (fs_status, k)
           | (Inr fileSize, k) \<Rightarrow> do {
               (file_status, source, k) \<leftarrow> File_open_write (kc_disk C) k File_new originPath OPEN_READ True;
               if file_status \<noteq> OP_OK then Some (handleFileError file_status, close_on_return (kc_disk C) source k)
               else
                 (case (if createMissingDest then (Inr 0, k) else initAndCheckFileStats C destPath k) of
                    (Inl fs_status, k) \<Rightarrow> Some (fs_status, close_on_return (kc_disk C) source k)
                  | (Inr _, k) \<Rightarrow> copy_opened C source destPath OPEN_APPEND fileSize k)
             }))"

section \<open>Copying\<close>

lemma chunk_size [simp]: "0 < FILE_SYSTEM_CHUNK_SIZE" "nat FILE_SYSTEM_CHUNK_SIZE = 256" "FILE_SYSTEM_CHUNK_SIZE < 1073741824"
  by (simp_all add: FILE_SYSTEM_CHUNK_SIZE_def)

lemma overwrite_end: "overwrite (length c) bs c = c @ bs"
  by (simp add: overwrite_def)

text \<open>A turn of the loop: what is read at the source is written at the destination.\<close>

lemma copy_turn:
  assumes "regular_disk C files fds" "m_mode s \<noteq> OPEN_NO_MODE" "m_mode d \<noteq> OPEN_NO_MODE" "m_fd s \<noteq> m_fd d"
    and "fds k (m_fd s) = Some (src, pos)" "fds k (m_fd d) = Some (dst, dpos)" "files k src = Some c" "files k dst = Some old"
    and "bs = take 256 (drop pos c)" "bs \<noteq> []"
  obtains k' where "copy_loop (Suc n) C s d k = copy_loop n C s d k'" "files k' = (files k)(dst \<mapsto> overwrite dpos bs old)"
    "fds k' (m_fd s) = Some (src, pos + length bs)" "fds k' (m_fd d) = Some (dst, dpos + length bs)"
proof -
  have bs: "bs = take (nat FILE_SYSTEM_CHUNK_SIZE) (drop pos c)" using assms(9) by simp
  obtain k1 where k1: "File_read_disk C k s FILE_SYSTEM_CHUNK_SIZE False = Some (OP_OK, bs, int (length bs), s, k1)"
    "files k1 = files k" "fds k1 = (fds k)(m_fd s \<mapsto> (src, pos + length bs))"
    by (rule read_rd [OF assms(1,5,7,2) chunk_size(1) bs chunk_size(3)])
  have len: "0 < int (length bs)" "nat (int (length bs)) \<le> length bs" using assms(10) by simp_all
  have d: "fds k1 (m_fd d) = Some (dst, dpos)" "files k1 dst = Some old" using k1 assms(4,6,8) by simp_all
  obtain k2 where k2: "File_write (kc_disk C) k1 d bs (int (length bs)) = Some (OP_OK, int (length bs), d, k2)"
    "files k2 = (files k1)(dst \<mapsto> overwrite dpos (take (nat (int (length bs))) bs) old)"
    "fds k2 = (fds k1)(m_fd d \<mapsto> (dst, dpos + nat (int (length bs))))"
    by (rule write_rd [OF assms(1) d assms(3) len]) (simp add: bs)
  show thesis
  proof (rule that)
    show "copy_loop (Suc n) C s d k = copy_loop n C s d k2" using k1(1) k2(1) len(1) by (simp add: copy_loop.simps(2))
  qed (use k1 k2 assms(4) in simp_all)
qed

lemma copy_loop_done:
  assumes "regular_disk C files fds" "m_mode s \<noteq> OPEN_NO_MODE" "fds k (m_fd s) = Some (src, pos)" "files k src = Some c"
    and "drop pos c = []"
  obtains k' where "copy_loop (Suc n) C s d k = Some (FS_OP_OK, s, d, k')" "files k' = files k"
    "\<And>fd. fd \<noteq> m_fd s \<Longrightarrow> fds k' fd = fds k fd"
proof -
  have "[] = take (nat FILE_SYSTEM_CHUNK_SIZE) (drop pos c)" using assms(5) by simp
  then obtain k1 where "File_read_disk C k s FILE_SYSTEM_CHUNK_SIZE False = Some (OP_OK, [], int (length ([] :: U8 list)), s, k1)"
    "files k1 = files k" "fds k1 = (fds k)(m_fd s \<mapsto> (src, pos + length ([] :: U8 list)))"
    by (rule read_rd [OF assms(1,3,4,2) chunk_size(1) _ chunk_size(3)])
  then show thesis using that [of k1] by (simp add: copy_loop.simps(2))
qed

lemma copy_loop_disk:
  assumes "regular_disk C files fds" "m_mode s \<noteq> OPEN_NO_MODE" "m_mode d \<noteq> OPEN_NO_MODE" "m_fd s \<noteq> m_fd d" "src \<noteq> dst"
    and "fds k (m_fd s) = Some (src, pos)" "fds k (m_fd d) = Some (dst, dpos)" "files k src = Some c" "files k dst = Some old"
    and "dpos \<le> length old" "length (drop pos c) \<le> 256 * n"
  shows "\<exists>k'. copy_loop (Suc n) C s d k = Some (FS_OP_OK, s, d, k') \<and>
    files k' = (files k)(dst \<mapsto> overwrite dpos (drop pos c) old)"
  using assms(6-)
proof (induction n arbitrary: k pos dpos old)
  case 0
  then have "drop pos c = []" by simp
  then obtain k' where "copy_loop (Suc 0) C s d k = Some (FS_OP_OK, s, d, k')" "files k' = files k"
    by (rule copy_loop_done [OF assms(1,2) 0(1,3)])
  moreover have "overwrite dpos [] old = old" using 0 by (simp add: overwrite_Nil)
  ultimately show ?case using 0 \<open>drop pos c = []\<close> by (simp add: map_upd_triv)
next
  case (Suc n)
  define bs where "bs = take 256 (drop pos c)"
  show ?case
  proof (cases "drop pos c = []")
    case True
    then obtain k' where "copy_loop (Suc (Suc n)) C s d k = Some (FS_OP_OK, s, d, k')" "files k' = files k"
      by (rule copy_loop_done [OF assms(1,2) Suc.prems(1,3)])
    moreover have "overwrite dpos [] old = old" using Suc.prems by (simp add: overwrite_Nil)
    ultimately show ?thesis using Suc.prems True by (simp add: map_upd_triv)
  next
    case False
    then have ne: "bs \<noteq> []" by (simp add: bs_def)
    have rest: "drop pos c = bs @ drop (pos + length bs) c" unfolding bs_def by (rule drop_split)
    have len: "length (drop (pos + length bs) c) \<le> 256 * n"
      using Suc.prems(6) unfolding bs_def length_drop length_take by (simp add: min_def; linarith)
    obtain k' where k': "copy_loop (Suc (Suc n)) C s d k = copy_loop (Suc n) C s d k'"
      "files k' = (files k)(dst \<mapsto> overwrite dpos bs old)" "fds k' (m_fd s) = Some (src, pos + length bs)"
      "fds k' (m_fd d) = Some (dst, dpos + length bs)"
      by (rule copy_turn [OF assms(1-4) Suc.prems(1-4) bs_def ne, where n = "Suc n"])
    have src: "files k' src = Some c" "files k' dst = Some (overwrite dpos bs old)"
      using k'(2) Suc.prems(3) assms(5) by simp_all
    have "dpos + length bs \<le> length (overwrite dpos bs old)" by (simp add: length_overwrite)
    from Suc.IH [OF k'(3,4) src this len] obtain k2 where
      "copy_loop (Suc n) C s d k' = Some (FS_OP_OK, s, d, k2)"
      "files k2 = (files k')(dst \<mapsto> overwrite (dpos + length bs) (drop (pos + length bs) c) (overwrite dpos bs old))"
      by blast
    moreover from this(2) have "files k2 = (files k)(dst \<mapsto> overwrite dpos (drop pos c) old)"
      unfolding k'(2) rest by (simp add: overwrite_append)
    ultimately show ?thesis using k'(1) by auto
  qed
qed

text \<open>Copying a file to its own end: there is always more to read.\<close>

lemma copy_loop_self:
  assumes "regular_disk C files fds" "m_mode s \<noteq> OPEN_NO_MODE" "m_mode d \<noteq> OPEN_NO_MODE" "m_fd s \<noteq> m_fd d"
    and "fds k (m_fd s) = Some (name, pos)" "fds k (m_fd d) = Some (name, length c)" "files k name = Some c" "pos < length c"
  shows "copy_loop n C s d k = None"
  using assms(5-)
proof (induction n arbitrary: k pos c)
  case (Suc n)
  define bs where "bs = take 256 (drop pos c)"
  have ne: "bs \<noteq> []" using Suc.prems(4) by (simp add: bs_def)
  obtain k' where k': "copy_loop (Suc n) C s d k = copy_loop n C s d k'"
    "files k' = (files k)(name \<mapsto> overwrite (length c) bs c)" "fds k' (m_fd s) = Some (name, pos + length bs)"
    "fds k' (m_fd d) = Some (name, length c + length bs)"
    by (rule copy_turn [OF assms(1-4) Suc.prems(1-3,3) bs_def ne])
  have "copy_loop n C s d k' = None"
    using Suc.IH [OF k'(3), of "c @ bs"] k'(2,4) Suc.prems(4) by (simp add: overwrite_end)
  then show ?case using k'(1) by simp
qed simp

lemma getFileSize_rd:
  assumes "regular_disk C files fds" "files k name = Some c"
  obtains k' where "getFileSize C name k = (Inr (of_nat (length c)), k')"
    "initAndCheckFileStats C name k = (Inr (of_nat (length c)), k')" "files k' = files k" "fds k' = fds k"
  by (rule stat_rd [OF assms(1), of k name]) (simp add: getFileSize_def initAndCheckFileStats_def assms(2))

lemma open_source:
  assumes "regular_disk C files fds" "files k src = Some c"
  obtains k1 k2 s k3 where "initAndCheckFileStats C src k = (Inr (of_nat (length c)), k1)"
    "getFileSize C src k1 = (Inr (of_nat (length c)), k2)"
    "File_open_write (kc_disk C) k2 File_new src OPEN_READ True = Some (OP_OK, s, k3)"
    "m_mode s \<noteq> OPEN_NO_MODE" "files k3 = files k" "fds k3 (m_fd s) = Some (src, 0)"
proof -
  obtain k1 where k1: "initAndCheckFileStats C src k = (Inr (of_nat (length c)), k1)" "files k1 = files k"
    by (rule getFileSize_rd [OF assms])
  have c1: "files k1 src = Some c" using k1(2) assms(2) by simp
  obtain k2 where k2: "getFileSize C src k1 = (Inr (of_nat (length c)), k2)" "files k2 = files k1"
    by (rule getFileSize_rd [OF assms(1) c1])
  have c2: "files k2 src = Some c" using k2(2) c1 by simp
  obtain fd k3 where "File_open_write (kc_disk C) k2 File_new src OPEN_READ True =
      Some (OP_OK, File_new\<lparr>m_mode := OPEN_READ, m_fd := fd, m_pos := 0\<rparr>, k3)" "files k3 = files k2"
    "fds k3 = (fds k2)(fd \<mapsto> (src, 0))"
    by (rule open_read_rd [OF assms(1) c2])
  then show thesis using that [OF k1(1) k2(1)] k1(2) k2(2) by simp
qed

lemma copy_turns:
  assumes "length c < 18446744073709551616"
  shows "unat ((of_nat (length c) :: U64) div 256 + 2) = Suc (length c div 256 + 1)"
proof -
  have "unat ((of_nat (length c) :: U64) div 256) = length c div 256"
    using assms by (simp add: unat_div unat_of_nat)
  then show ?thesis using assms by (subst unat_add_small) simp_all
qed

lemma copy_opened_disk:
  assumes "regular_disk C files fds" "m_mode s \<noteq> OPEN_NO_MODE" "fds k (m_fd s) = Some (src, 0)" "files k src = Some c"
    and "src \<noteq> dst" "length c < 18446744073709551616" "mode = (if ap then OPEN_APPEND else OPEN_WRITE)"
    and "old = content_of (files k) dst"
  shows "\<exists>k'. copy_opened C s dst mode (of_nat (length c)) k = Some (FS_OP_OK, k') \<and>
    files k' = (files k)(dst \<mapsto> (if ap then old @ c else c @ drop (length c) old))"
proof -
  obtain fd k1 where k1: "File_open_write (kc_disk C) k File_new dst mode True =
      Some (OP_OK, File_new\<lparr>m_mode := mode, m_fd := fd, m_pos := 0\<rparr>, k1)"
    "fds k fd = None" "files k1 = (files k)(dst \<mapsto> old)" "fds k1 = (fds k)(fd \<mapsto> (dst, if ap then length old else 0))"
    unfolding assms(8) by (rule open_write_rd [OF assms(1,7)])
  let ?d = "File_new\<lparr>m_mode := mode, m_fd := fd, m_pos := 0\<rparr>"
  have fd: "m_fd s \<noteq> fd" using k1(2) assms(3) by auto
  have "m_mode ?d \<noteq> OPEN_NO_MODE" using assms(7) by simp
  moreover have "length (drop 0 c) \<le> 256 * (length c div 256 + 1)"
    using mult_div_mod_eq [of 256 "length c"] mod_less_divisor [of 256 "length c"] unfolding drop_0 distrib_left by linarith
  moreover have le: "(if ap then length old else 0) \<le> length old" by simp
  ultimately obtain k2 where k2: "copy_loop (Suc (length c div 256 + 1)) C s ?d k1 = Some (FS_OP_OK, s, ?d, k2)"
    "files k2 = (files k1)(dst \<mapsto> overwrite (if ap then length old else 0) (drop 0 c) old)"
    using copy_loop_disk [OF assms(1,2), of ?d src dst k1 0 "if ap then length old else 0" c old "length c div 256 + 1"]
      k1(3,4) fd assms(3-5) le by auto
  have "copyFileData C s ?d (of_nat (length c)) k1 =
      Some (FS_OP_OK, close_on_return (kc_disk C) s (close_on_return (kc_disk C) ?d k2))"
    unfolding copyFileData_def copy_turns [OF assms(6)] k2(1) by simp
  moreover define k3 where "k3 = close_on_return (kc_disk C) s (close_on_return (kc_disk C) ?d k2)"
  moreover obtain s' k4 where k4: "File_close_write (kc_disk C) k3 s = (s', k4)" "files k4 = files k3"
    using close_rd(1) [OF assms(1), of k3 s] by (cases "File_close_write (kc_disk C) k3 s") simp
  moreover obtain d' k5 where k5: "File_close_write (kc_disk C) k4 ?d = (d', k5)" "files k5 = files k4"
    using close_rd(1) [OF assms(1), of k4 ?d] by (cases "File_close_write (kc_disk C) k4 ?d") simp
  ultimately have "copy_opened C s dst mode (of_nat (length c)) k = Some (FS_OP_OK, k5)"
    using k1(1) by (simp add: copy_opened_def)
  moreover have "files k5 = (files k)(dst \<mapsto> (if ap then old @ c else c @ drop (length c) old))"
    using k5(2) k4(2) k2(2) k1(3) by (simp add: k3_def close_on_return_rd(1) [OF assms(1)] overwrite_end overwrite_0)
  ultimately show ?thesis by blast
qed

lemma copy_append_disk:
  assumes "regular_disk C files fds" "files k src = Some c" "src \<noteq> dst" "length c < 18446744073709551616"
    and "old = content_of (files k) dst"
  obtains k1 k2 where "copyFile C src dst k = Some (FS_OP_OK, k1)" "files k1 = (files k)(dst \<mapsto> c @ drop (length c) old)"
    "appendFile C src dst True k = Some (FS_OP_OK, k2)" "files k2 = (files k)(dst \<mapsto> old @ c)"
proof -
  obtain k1 k2 s k3 where op: "initAndCheckFileStats C src k = (Inr (of_nat (length c)), k1)"
    "getFileSize C src k1 = (Inr (of_nat (length c)), k2)"
    "File_open_write (kc_disk C) k2 File_new src OPEN_READ True = Some (OP_OK, s, k3)"
    and s: "m_mode s \<noteq> OPEN_NO_MODE" "files k3 = files k" "fds k3 (m_fd s) = Some (src, 0)"
    by (rule open_source [OF assms(1,2)])
  have "\<exists>k'. copy_opened C s dst (if ap then OPEN_APPEND else OPEN_WRITE) (of_nat (length c)) k3 = Some (FS_OP_OK, k') \<and>
      files k' = (files k)(dst \<mapsto> (if ap then old @ c else c @ drop (length c) old))" for ap
    using copy_opened_disk [OF assms(1) s(1,3), of c dst "if ap then OPEN_APPEND else OPEN_WRITE" ap old] s(2) assms(2-5) by simp
  from this [of False] this [of True] show thesis
    using that by (auto simp: copyFile_def appendFile_def op)
qed

text \<open>
  C37: \<open>copyFile\<close> copies and \<open>appendFile\<close> appends: for two different files, on a disk that reads what it
  is asked for, the bytes of the first are in the second, in front of what was behind them
  (\<open>copyFile\<close> opens without \<open>O_TRUNC\<close>, so that a longer destination keeps its tail) or behind what
  was there. The loop limit is never reached and no other file changes.
\<close>

theorem copy_and_append:
  assumes "regular_disk C files fds" "files k src = Some c" "src \<noteq> dst" "length c < 18446744073709551616"
    and "old = content_of (files k) dst"
  shows "\<exists>k1 k2. copyFile C src dst k = Some (FS_OP_OK, k1) \<and> files k1 = (files k)(dst \<mapsto> c @ drop (length c) old) \<and>
    appendFile C src dst True k = Some (FS_OP_OK, k2) \<and> files k2 = (files k)(dst \<mapsto> old @ c)"
  using copy_append_disk [OF assms] by metis

theorem copy_and_append_witness:
  "\<exists>k1 k2. copyFile table_disk ''a'' ''b'' (Map.empty(''a'' \<mapsto> [1, 2], ''b'' \<mapsto> [7, 8, 9]), []) = Some (FS_OP_OK, k1) \<and>
    fst k1 ''b'' = Some [1, 2, 9] \<and>
    appendFile table_disk ''a'' ''b'' True (Map.empty(''a'' \<mapsto> [1, 2], ''b'' \<mapsto> [7, 8, 9]), []) = Some (FS_OP_OK, k2) \<and>
    fst k2 ''b'' = Some [7, 8, 9, 1, 2]"
  using copy_and_append [OF table_disk_regular, of "(Map.empty(''a'' \<mapsto> [1, 2], ''b'' \<mapsto> [7, 8, 9]), [])" "''a''" "[1, 2]" "''b''" "[7, 8, 9]"]
  by (auto simp: content_of_def)

text \<open>
  Appending a file that is not empty to itself stops the program: each turn of the copy loop finds
  what the turn before has written, so that the turns run out and the assertion behind the loop fails.
\<close>

lemma appendFile_itself:
  assumes "regular_disk C files fds" "files k name = Some c" "c \<noteq> []"
  shows "appendFile C name name create k = None"
proof -
  obtain k1 k2 s k3 where op: "initAndCheckFileStats C name k = (Inr (of_nat (length c)), k1)"
    "getFileSize C name k1 = (Inr (of_nat (length c)), k2)"
    "File_open_write (kc_disk C) k2 File_new name OPEN_READ True = Some (OP_OK, s, k3)"
    and s: "m_mode s \<noteq> OPEN_NO_MODE" "files k3 = files k" "fds k3 (m_fd s) = Some (name, 0)"
    by (rule open_source [OF assms(1,2)])
  have c3: "files k3 name = Some c" using s(2) assms(2) by simp
  obtain k4 where k4: "initAndCheckFileStats C name k3 = (Inr (of_nat (length c)), k4)" "files k4 = files k3" "fds k4 = fds k3"
    by (rule getFileSize_rd [OF assms(1) c3])
  have stops: "copy_opened C s name OPEN_APPEND sz k5 = None" if k5: "files k5 name = Some c" "fds k5 (m_fd s) = Some (name, 0)" for k5 sz
  proof -
    obtain fd' k6 where k6: "File_open_write (kc_disk C) k5 File_new name OPEN_APPEND True =
        Some (OP_OK, File_new\<lparr>m_mode := OPEN_APPEND, m_fd := fd', m_pos := 0\<rparr>, k6)"
      "fds k5 fd' = None" "files k6 = (files k5)(name \<mapsto> c)" "fds k6 = (fds k5)(fd' \<mapsto> (name, length c))"
      by (rule open_write_rd [OF assms(1), of OPEN_APPEND True k5 File_new name True]) (simp_all add: content_of_def k5(1))
    have "copy_loop n C s (File_new\<lparr>m_mode := OPEN_APPEND, m_fd := fd', m_pos := 0\<rparr>) k6 = None" for n
      by (rule copy_loop_self [OF assms(1), where name = name and pos = 0 and c = c]) (use s(1) k6 k5 assms(3) in auto)
    then show ?thesis by (simp add: copy_opened_def k6(1) copyFileData_def)
  qed
  show ?thesis
    using stops [of k3] stops [of k4] c3 s(3) k4 by (simp add: appendFile_def op)
qed

end
