(* ===== verification/File_Manager.thy ===== *)
theory File_Manager
  imports Os_File_System Cmd_Sequence
begin

text \<open>
  Svc/FileManager/FileManager.cpp: the component that runs file system commands from the ground. A
  command argument is the text of a \<open>CmdStringArg\<close>, at most 39 characters. The directory and
  file calls go to the file system layer of \<^theory_text>\<open>Os_File_System\<close>; \<open>system\<close> of the C
  library is a parameter, a function of the kernel state and the command line.
\<close>

section \<open>State and output\<close>

datatype file_manager_event =
    CreateDirectoryStarted string | DirectoryCreateError string FS_Status | CreateDirectorySucceeded string
  | RemoveFileStarted string | FileRemoveError string FS_Status | RemoveFileSucceeded string
  | MoveFileStarted string string | FileMoveError string string FS_Status | MoveFileSucceeded string string
  | RemoveDirectoryStarted string | DirectoryRemoveError string FS_Status | RemoveDirectorySucceeded string
  | ShellCommandStarted string | ShellCommandSucceeded string | ShellCommandFailed string int
  | AppendFileStarted string string | AppendFileFailed string string FS_Status | AppendFileSucceeded string string

datatype file_manager_output =
    FmLog file_manager_event
  | FmTlm_CommandsExecuted U32
  | FmTlm_Errors U32
  | FmCmdResponse U32 U32 CmdResponse
  | FmPingOut U32

record file_manager =
  fm_commandCount :: U32
  fm_errorCount :: U32
  fm_outs :: "file_manager_output list"

definition FileManager_new :: file_manager where
  "FileManager_new = \<lparr>fm_commandCount = 0, fm_errorCount = 0, fm_outs = []\<rparr>"

definition fm_out :: "file_manager_output \<Rightarrow> file_manager \<Rightarrow> file_manager" where
  "fm_out v m = m\<lparr>fm_outs := fm_outs m @ [v]\<rparr>"

section \<open>Helpers\<close>

definition fm_emitTelemetry :: "FS_Status \<Rightarrow> file_manager \<Rightarrow> file_manager" where
  "fm_emitTelemetry status m =
     (if status = FS_OP_OK
      then let m = m\<lparr>fm_commandCount := fm_commandCount m + 1\<rparr> in fm_out (FmTlm_CommandsExecuted (fm_commandCount m)) m
      else let m = m\<lparr>fm_errorCount := fm_errorCount m + 1\<rparr> in fm_out (FmTlm_Errors (fm_errorCount m)) m)"

definition fm_sendCommandResponse :: "U32 \<Rightarrow> U32 \<Rightarrow> FS_Status \<Rightarrow> file_manager \<Rightarrow> file_manager" where
  "fm_sendCommandResponse opCode cmdSeq status m =
     fm_out (FmCmdResponse opCode cmdSeq (if status = FS_OP_OK then CmdResponse_OK else EXECUTION_ERROR)) m"

text \<open>
  The command line is printed into a buffer for the format and two command strings; the four
  characters of the two conversions are not counted, the null byte is.
\<close>

definition FW_CMD_STRING_MAX_SIZE :: nat where
  "FW_CMD_STRING_MAX_SIZE = 40"

definition system_line :: "string \<Rightarrow> string \<Rightarrow> string" where
  "system_line command logFileName =
     ''eval '' @ [CHR 0x27] @ command @ [CHR 0x27] @ '' 1>>'' @ logFileName @ '' 2>&1'' @ [CHR 0x0A]"

definition system_buffer_size :: nat where
  "system_buffer_size = (length (system_line ''%s'' ''%s'') + 1) - 4 + 2 * FW_CMD_STRING_MAX_SIZE"

definition systemCall :: "('k \<Rightarrow> string \<Rightarrow> int \<times> 'k) \<Rightarrow> string \<Rightarrow> string \<Rightarrow> 'k \<Rightarrow> (int \<times> 'k) option" where
  "systemCall sys command logFileName k = do {
     let bytesCopied = length (system_line command logFileName);
     fw_assert (bytesCopied < system_buffer_size);
     Some (sys k (system_line command logFileName))
   }"

section \<open>Command handlers\<close>

definition CreateDirectory_cmdHandler ::
  "'k dir_calls \<Rightarrow> U32 \<Rightarrow> U32 \<Rightarrow> string \<Rightarrow> file_manager \<times> 'k \<Rightarrow> file_manager \<times> 'k" where
  "CreateDirectory_cmdHandler F opCode cmdSeq dirName = (\<lambda>(m, k).
     let logStringDirName = LogStringArg_of dirName;
         m = fm_out (FmLog (CreateDirectoryStarted logStringDirName)) m;
         (status, k) = createDirectory F dirName k;
         m = fm_out (FmLog (if status \<noteq> FS_OP_OK then DirectoryCreateError logStringDirName status
                            else CreateDirectorySucceeded logStringDirName)) m;
         m = fm_emitTelemetry status m
     in (fm_sendCommandResponse opCode cmdSeq status m, k))"

definition RemoveFile_cmdHandler ::
  "'k dir_calls \<Rightarrow> U32 \<Rightarrow> U32 \<Rightarrow> string \<Rightarrow> file_manager \<times> 'k \<Rightarrow> file_manager \<times> 'k" where
  "RemoveFile_cmdHandler F opCode cmdSeq fileName = (\<lambda>(m, k).
     let logStringFileName = LogStringArg_of fileName;
         m = fm_out (FmLog (RemoveFileStarted logStringFileName)) m;
         (status, k) = removeFile F fileName k;
         m = fm_out (FmLog (if status \<noteq> FS_OP_OK then FileRemoveError logStringFileName status
                            else RemoveFileSucceeded logStringFileName)) m;
         m = fm_emitTelemetry status m
     in (fm_sendCommandResponse opCode cmdSeq status m, k))"

definition MoveFile_cmdHandler ::
  "'k dir_calls \<Rightarrow> U32 \<Rightarrow> U32 \<Rightarrow> string \<Rightarrow> string \<Rightarrow> file_manager \<times> 'k \<Rightarrow> file_manager \<times> 'k" where
  "MoveFile_cmdHandler F opCode cmdSeq sourceFileName destFileName = (\<lambda>(m, k).
     let logStringSource = LogStringArg_of sourceFileName;
         logStringDest = LogStringArg_of destFileName;
         m = fm_out (FmLog (MoveFileStarted logStringSource logStringDest)) m;
         (status, k) = moveFile F sourceFileName destFileName k;
         m = fm_out (FmLog (if status \<noteq> FS_OP_OK then FileMoveError logStringSource logStringDest status
                            else MoveFileSucceeded logStringSource logStringDest)) m;
         m = fm_emitTelemetry status m
     in (fm_sendCommandResponse opCode cmdSeq status m, k))"

definition RemoveDirectory_cmdHandler ::
  "'k dir_calls \<Rightarrow> U32 \<Rightarrow> U32 \<Rightarrow> string \<Rightarrow> file_manager \<times> 'k \<Rightarrow> file_manager \<times> 'k" where
  "RemoveDirectory_cmdHandler F opCode cmdSeq dirName = (\<lambda>(m, k).
     let logStringDirName = LogStringArg_of dirName;
         m = fm_out (FmLog (RemoveDirectoryStarted logStringDirName)) m;
         (status, k) = removeDirectory F dirName k;
         m = fm_out (FmLog (if status \<noteq> FS_OP_OK then DirectoryRemoveError logStringDirName status
                            else RemoveDirectorySucceeded logStringDirName)) m;
         m = fm_emitTelemetry status m
     in (fm_sendCommandResponse opCode cmdSeq status m, k))"

definition ShellCommand_cmdHandler ::
  "('k \<Rightarrow> string \<Rightarrow> int \<times> 'k) \<Rightarrow> U32 \<Rightarrow> U32 \<Rightarrow> string \<Rightarrow> string \<Rightarrow> file_manager \<times> 'k \<Rightarrow> (file_manager \<times> 'k) option" where
  "ShellCommand_cmdHandler sys opCode cmdSeq command logFileName = (\<lambda>(m, k). do {
     let logStringCommand = LogStringArg_of command;
     let m = fm_out (FmLog (ShellCommandStarted logStringCommand)) m;
     (status, k) \<leftarrow> systemCall sys command logFileName k;
     let m = fm_out (FmLog (if status = 0 then ShellCommandSucceeded logStringCommand
                            else ShellCommandFailed logStringCommand status)) m;
     let m = fm_emitTelemetry (if status = 0 then FS_OP_OK else FS_OTHER_ERROR) m;
     Some (fm_sendCommandResponse opCode cmdSeq (if status = 0 then FS_OP_OK else FS_OTHER_ERROR) m, k)
   })"

definition AppendFile_cmdHandler ::
  "'k kernel_calls \<Rightarrow> U32 \<Rightarrow> U32 \<Rightarrow> string \<Rightarrow> string \<Rightarrow> file_manager \<times> 'k \<Rightarrow> (file_manager \<times> 'k) option" where
  "AppendFile_cmdHandler C opCode cmdSeq source target = (\<lambda>(m, k). do {
     let logStringSource = LogStringArg_of source;
     let logStringTarget = LogStringArg_of target;
     let m = fm_out (FmLog (AppendFileStarted logStringSource logStringTarget)) m;
     (status, k) \<leftarrow> appendFile C source target True k;
     let m = fm_out (FmLog (if status \<noteq> FS_OP_OK then AppendFileFailed logStringSource logStringTarget status
                            else AppendFileSucceeded logStringSource logStringTarget)) m;
     let m = fm_emitTelemetry status m;
     Some (fm_sendCommandResponse opCode cmdSeq status m, k)
   })"

definition fm_pingIn_handler :: "U32 \<Rightarrow> file_manager \<Rightarrow> file_manager" where
  "fm_pingIn_handler key m = fm_out (FmPingOut key) m"

text \<open>The commands of Commands.fppi, with their arguments, and the handler of each.\<close>

datatype file_command =
    CreateDirectory string | MoveFile string string | RemoveDirectory string | RemoveFile string
  | ShellCommand string string | AppendFile string string

fun FileManager_command ::
  "'k dir_calls \<Rightarrow> 'k kernel_calls \<Rightarrow> ('k \<Rightarrow> string \<Rightarrow> int \<times> 'k) \<Rightarrow> U32 \<Rightarrow> U32 \<Rightarrow> file_command \<Rightarrow>
     file_manager \<times> 'k \<Rightarrow> (file_manager \<times> 'k) option" where
  "FileManager_command F C sys opCode cmdSeq (CreateDirectory dirName) mk =
     Some (CreateDirectory_cmdHandler F opCode cmdSeq dirName mk)"
| "FileManager_command F C sys opCode cmdSeq (MoveFile source dest) mk =
     Some (MoveFile_cmdHandler F opCode cmdSeq source dest mk)"
| "FileManager_command F C sys opCode cmdSeq (RemoveDirectory dirName) mk =
     Some (RemoveDirectory_cmdHandler F opCode cmdSeq dirName mk)"
| "FileManager_command F C sys opCode cmdSeq (RemoveFile fileName) mk =
     Some (RemoveFile_cmdHandler F opCode cmdSeq fileName mk)"
| "FileManager_command F C sys opCode cmdSeq (ShellCommand command logFileName) mk =
     ShellCommand_cmdHandler sys opCode cmdSeq command logFileName mk"
| "FileManager_command F C sys opCode cmdSeq (AppendFile source target) mk =
     AppendFile_cmdHandler C opCode cmdSeq source target mk"

text \<open>The queue of the component hands it one command after the other.\<close>

fun FileManager_commands ::
  "'k dir_calls \<Rightarrow> 'k kernel_calls \<Rightarrow> ('k \<Rightarrow> string \<Rightarrow> int \<times> 'k) \<Rightarrow> (U32 \<times> U32 \<times> file_command) list \<Rightarrow>
     file_manager \<times> 'k \<Rightarrow> (file_manager \<times> 'k) option" where
  "FileManager_commands F C sys [] mk = Some mk"
| "FileManager_commands F C sys ((opCode, cmdSeq, c) # cs) mk = do {
     mk \<leftarrow> FileManager_command F C sys opCode cmdSeq c mk;
     FileManager_commands F C sys cs mk
   }"

section \<open>One answer to every command\<close>

fun response_of :: "file_manager_output \<Rightarrow> (U32 \<times> U32 \<times> CmdResponse) list" where
  "response_of (FmCmdResponse opCode cmdSeq r) = [(opCode, cmdSeq, r)]"
| "response_of _ = []"

definition responses :: "file_manager \<Rightarrow> (U32 \<times> U32 \<times> CmdResponse) list" where
  "responses m = concat (map response_of (fm_outs m))"

lemma responses_out [simp]:
  "responses (fm_out v m) = responses m @ response_of v"
  "fm_commandCount (fm_out v m) = fm_commandCount m" "fm_errorCount (fm_out v m) = fm_errorCount m"
  by (simp_all add: responses_def fm_out_def)

text \<open>What the end of every handler does to the counters and the answers.\<close>

definition answered :: "U32 \<Rightarrow> U32 \<Rightarrow> file_manager \<Rightarrow> file_manager \<Rightarrow> bool" where
  "answered opCode cmdSeq m m' \<longleftrightarrow>
     (responses m' = responses m @ [(opCode, cmdSeq, CmdResponse_OK)] \<and>
        fm_commandCount m' = fm_commandCount m + 1 \<and> fm_errorCount m' = fm_errorCount m) \<or>
     (responses m' = responses m @ [(opCode, cmdSeq, EXECUTION_ERROR)] \<and>
        fm_commandCount m' = fm_commandCount m \<and> fm_errorCount m' = fm_errorCount m + 1)"

lemma finish_answered:
  assumes "responses m0 = responses m" "fm_commandCount m0 = fm_commandCount m" "fm_errorCount m0 = fm_errorCount m"
  shows "answered opCode cmdSeq m (fm_sendCommandResponse opCode cmdSeq status (fm_emitTelemetry status m0))"
proof -
  have "responses (m\<lparr>fm_commandCount := c\<rparr>) = responses m" "responses (m\<lparr>fm_errorCount := c\<rparr>) = responses m" for m c
    by (simp_all add: responses_def)
  with assms show ?thesis
    by (cases "status = FS_OP_OK") (simp_all add: answered_def fm_sendCommandResponse_def fm_emitTelemetry_def Let_def)
qed

lemmas fm_handlers =
  CreateDirectory_cmdHandler_def MoveFile_cmdHandler_def RemoveDirectory_cmdHandler_def RemoveFile_cmdHandler_def
  ShellCommand_cmdHandler_def AppendFile_cmdHandler_def

lemma command_answered:
  "FileManager_command F C sys opCode cmdSeq c (m, k) = Some (m', k') \<Longrightarrow> answered opCode cmdSeq m m'"
  by (cases c)
    (auto simp: fm_handlers Let_def split: prod.splits Option.bind_splits intro!: finish_answered)

text \<open>The number of answers of each kind, which the two counters report.\<close>

definition ok_count :: "(U32 \<times> U32 \<times> CmdResponse) list \<Rightarrow> nat" where
  "ok_count rs = length (filter (\<lambda>(_, _, r). r = CmdResponse_OK) rs)"

text \<open>What the answers to a list of commands are.\<close>

definition answers_to :: "(U32 \<times> U32 \<times> file_command) list \<Rightarrow> file_manager \<Rightarrow> file_manager \<Rightarrow> bool" where
  "answers_to cs m m' \<longleftrightarrow> (\<exists>rs. responses m' = responses m @ rs \<and>
    map (\<lambda>(opCode, cmdSeq, r). (opCode, cmdSeq)) rs = map (\<lambda>(opCode, cmdSeq, c). (opCode, cmdSeq)) cs \<and>
    (\<forall>(opCode, cmdSeq, r) \<in> set rs. r = CmdResponse_OK \<or> r = EXECUTION_ERROR) \<and>
    fm_commandCount m' = fm_commandCount m + of_nat (ok_count rs) \<and>
    fm_errorCount m' = fm_errorCount m + of_nat (length rs - ok_count rs))"

lemma commands_answered:
  assumes "FileManager_commands F C sys cs (m, k) = Some (m', k')"
  shows "answers_to cs m m'"
  unfolding answers_to_def
  using assms
proof (induction cs arbitrary: m k)
  case Nil
  then show ?case
    by (auto simp: ok_count_def)
next
  case (Cons x cs)
  obtain opCode cmdSeq c where x: "x = (opCode, cmdSeq, c)"
    by (cases x)
  obtain m1 k1 where 1: "FileManager_command F C sys opCode cmdSeq c (m, k) = Some (m1, k1)"
    "FileManager_commands F C sys cs (m1, k1) = Some (m', k')"
    using Cons.prems by (auto simp: x split: Option.bind_splits)
  obtain rs where rs: "responses m' = responses m1 @ rs"
    "map (\<lambda>(opCode, cmdSeq, r). (opCode, cmdSeq)) rs = map (\<lambda>(opCode, cmdSeq, c). (opCode, cmdSeq)) cs"
    "\<forall>(opCode, cmdSeq, r) \<in> set rs. r = CmdResponse_OK \<or> r = EXECUTION_ERROR"
    "fm_commandCount m' = fm_commandCount m1 + of_nat (ok_count rs)"
    "fm_errorCount m' = fm_errorCount m1 + of_nat (length rs - ok_count rs)"
    using Cons.IH [OF 1(2)] by blast
  have le: "ok_count rs \<le> length rs"
    by (simp add: ok_count_def)
  from command_answered [OF 1(1)] consider
      "responses m1 = responses m @ [(opCode, cmdSeq, CmdResponse_OK)]"
      "fm_commandCount m1 = fm_commandCount m + 1" "fm_errorCount m1 = fm_errorCount m"
    | "responses m1 = responses m @ [(opCode, cmdSeq, EXECUTION_ERROR)]"
      "fm_commandCount m1 = fm_commandCount m" "fm_errorCount m1 = fm_errorCount m + 1"
    by (auto simp: answered_def)
  then show ?case
  proof cases
    case 1
    then show ?thesis
      using rs by (intro exI [of _ "(opCode, cmdSeq, CmdResponse_OK) # rs"]) (simp add: x ok_count_def)
  next
    case 2
    then show ?thesis
      using rs le by (intro exI [of _ "(opCode, cmdSeq, EXECUTION_ERROR) # rs"]) (simp add: x ok_count_def Suc_diff_le)
  qed
qed

section \<open>Commands return\<close>

text \<open>The buffer for the command line is never too small for two command strings.\<close>

lemma systemCall_fits:
  assumes "length command < FW_CMD_STRING_MAX_SIZE" "length logFileName < FW_CMD_STRING_MAX_SIZE"
  shows "systemCall sys command logFileName k = Some (sys k (system_line command logFileName))"
  using assms by (simp add: systemCall_def system_buffer_size_def system_line_def FW_CMD_STRING_MAX_SIZE_def)

text \<open>The arguments are command strings.\<close>

fun command_strings :: "file_command \<Rightarrow> bool" where
  "command_strings (CreateDirectory a) \<longleftrightarrow> length a < FW_CMD_STRING_MAX_SIZE"
| "command_strings (RemoveDirectory a) \<longleftrightarrow> length a < FW_CMD_STRING_MAX_SIZE"
| "command_strings (RemoveFile a) \<longleftrightarrow> length a < FW_CMD_STRING_MAX_SIZE"
| "command_strings (MoveFile a b) \<longleftrightarrow> length a < FW_CMD_STRING_MAX_SIZE \<and> length b < FW_CMD_STRING_MAX_SIZE"
| "command_strings (ShellCommand a b) \<longleftrightarrow> length a < FW_CMD_STRING_MAX_SIZE \<and> length b < FW_CMD_STRING_MAX_SIZE"
| "command_strings (AppendFile a b) \<longleftrightarrow> length a < FW_CMD_STRING_MAX_SIZE \<and> length b < FW_CMD_STRING_MAX_SIZE"

text \<open>Only an append of a file to itself, or of one whose size does not fit 64 bits, can fail to return.\<close>

fun append_stops :: "(string \<Rightarrow> U8 list option) \<Rightarrow> file_command \<Rightarrow> bool" where
  "append_stops fs (AppendFile source target) \<longleftrightarrow>
     source = target \<or> 18446744073709551616 \<le> length (content_of fs source)"
| "append_stops fs _ \<longleftrightarrow> False"

lemma appendFile_returns:
  assumes "regular_disk C files fds" "source \<noteq> target" "length (content_of (files k) source) < 18446744073709551616"
  shows "\<exists>r. appendFile C source target True k = Some r"
proof (cases "files k source")
  case None
  then have "\<exists>k'. kc_stat C k source = (Inl ENOENT, k')" using stat_rd [OF assms(1), of k source] by auto
  then show ?thesis by (auto simp: appendFile_def initAndCheckFileStats_def)
next
  case (Some c)
  then have "length c < 18446744073709551616" using assms(3) by (simp add: content_of_def)
  from copy_append_disk [OF assms(1) Some assms(2) this refl] show ?thesis by blast
qed

lemma command_returns:
  assumes "regular_disk C files fds" "command_strings c" "\<not> append_stops (files k) c"
  obtains m' k' where "FileManager_command F C sys opCode cmdSeq c (m, k) = Some (m', k')"
proof -
  have "\<exists>r. FileManager_command F C sys opCode cmdSeq c (m, k) = Some r"
  proof (cases c)
    case (ShellCommand a b)
    then show ?thesis using assms(2)
      by (cases "sys k (system_line a b)") (simp add: ShellCommand_cmdHandler_def systemCall_fits Let_def)
  next
    case (AppendFile a b)
    with assms(3) obtain r where "appendFile C a b True k = Some r" using appendFile_returns [OF assms(1)] by fastforce
    with AppendFile show ?thesis by (cases r) (simp add: AppendFile_cmdHandler_def Let_def)
  qed simp_all
  then show thesis using that by fastforce
qed

text \<open>
  C32: commands are answered in the order in which they arrive, each exactly once and with its own
  opcode and sequence number, OK or an execution error; the command counter has counted the OK
  answers and the error counter the others (both modulo \<open>2 ^ 32\<close>). On a regular disk, with any directory calls and
  any shell, all commands are answered, unless one of them does not return: then those before it are,
  and it is an append of a file to itself, or of a file of 2^64 bytes or more.
\<close>

theorem file_commands_answered_in_order:
  assumes "regular_disk C files fds" "\<forall>(opCode, cmdSeq, c) \<in> set cs. command_strings c"
  shows "\<exists>n \<le> length cs. \<exists>m' k'. FileManager_commands F C sys (take n cs) (m, k) = Some (m', k') \<and>
    answers_to (take n cs) m m' \<and>
    (n < length cs \<longrightarrow> FileManager_commands F C sys (take (Suc n) cs) (m, k) = None \<and> append_stops (files k') (snd (snd (cs ! n))))"
proof -
  have "\<exists>n m' k'. n \<le> length cs \<and> FileManager_commands F C sys (take n cs) (m, k) = Some (m', k') \<and>
    (n < length cs \<longrightarrow> FileManager_commands F C sys (take (Suc n) cs) (m, k) = None \<and> append_stops (files k') (snd (snd (cs ! n))))"
    using assms(2)
  proof (induction cs arbitrary: m k)
    case (Cons x cs)
    obtain opCode cmdSeq c where x: "x = (opCode, cmdSeq, c)" by (cases x)
    show ?case
    proof (cases "FileManager_command F C sys opCode cmdSeq c (m, k)")
      case None
      then have "append_stops (files k) c" using command_returns [OF assms(1), of c k F sys opCode cmdSeq m] Cons.prems x by fastforce
      then show ?thesis using None by (intro exI [of _ 0]) (simp add: x)
    next
      case (Some mk)
      obtain m1 k1 where mk: "mk = (m1, k1)" by (cases mk)
      obtain n m' k' where "n \<le> length cs" "FileManager_commands F C sys (take n cs) (m1, k1) = Some (m', k')"
        "n < length cs \<longrightarrow> FileManager_commands F C sys (take (Suc n) cs) (m1, k1) = None \<and> append_stops (files k') (snd (snd (cs ! n)))"
        using Cons.IH [of m1 k1] Cons.prems by auto
      then show ?thesis using Some mk by (intro exI [of _ "Suc n"]) (simp add: x)
    qed
  qed simp
  then obtain n m' k' where n: "n \<le> length cs" "FileManager_commands F C sys (take n cs) (m, k) = Some (m', k')"
    "n < length cs \<longrightarrow> FileManager_commands F C sys (take (Suc n) cs) (m, k) = None \<and> append_stops (files k') (snd (snd (cs ! n)))"
    by blast
  show ?thesis using n commands_answered [OF n(2)] by (intro exI [of _ n] exI [of _ m'] exI [of _ k'] conjI) simp_all
qed

definition dirs_ok :: "'k dir_calls" where
  "dirs_ok = \<lparr>dc_mkdir = \<lambda>k _. (None, k), dc_rmdir = \<lambda>k _. (None, k), dc_unlink = \<lambda>k _. (None, k),
     dc_rename = \<lambda>k _ _. (None, k), dc_chdir = \<lambda>k _. (None, k), dc_opendir = \<lambda>k _. (Inl 2, k),
     dc_statvfs = \<lambda>k _. (Inl 2, k)\<rparr>"

theorem file_commands_answered_in_order_witness:
  "\<exists>m'. FileManager_commands dirs_ok table_disk (\<lambda>k _. (0, k)) [(2, 9, RemoveDirectory ''d'')]
      (FileManager_new, (Map.empty, [])) = Some (m', (Map.empty, [])) \<and>
    answers_to [(2, 9, RemoveDirectory ''d'')] FileManager_new m'"
proof -
  have run: "\<exists>m'. FileManager_commands dirs_ok table_disk (\<lambda>k _. (0, k)) [(2, 9, RemoveDirectory ''d'')]
      (FileManager_new, (Map.empty, [])) = Some (m', (Map.empty, []))"
    by (simp add: RemoveDirectory_cmdHandler_def removeDirectory_def dirs_ok_def Let_def)
  have "\<forall>(opCode, cmdSeq, c) \<in> set [(2 :: U32, 9 :: U32, RemoveDirectory ''d'')]. command_strings c"
    by (simp add: FW_CMD_STRING_MAX_SIZE_def)
  from file_commands_answered_in_order [OF table_disk_regular this, of dirs_ok "\<lambda>k _. (0, k)" FileManager_new "(Map.empty, [])"]
  obtain n m' k' where n: "n \<le> 1" "FileManager_commands dirs_ok table_disk (\<lambda>k _. (0, k)) (take n [(2, 9, RemoveDirectory ''d'')])
      (FileManager_new, (Map.empty, [])) = Some (m', k')" "answers_to (take n [(2, 9, RemoveDirectory ''d'')]) FileManager_new m'"
    "n < 1 \<longrightarrow> append_stops (fst k') (snd (snd ([(2 :: U32, 9 :: U32, RemoveDirectory ''d'')] ! n)))"
    by auto
  then have "n = 1" by (cases n) auto
  with n run show ?thesis by auto
qed

section \<open>Appending a file\<close>

text \<open>
  The command AppendFile on a regular disk. With two different files, the first one's bytes go
  behind those of the second, nothing else changes, and the command is answered OK. With the same
  file twice the program stops in a failed assertion, whatever the file holds.
\<close>

theorem append_file_command:
  assumes "regular_disk C files fds" "files k source = Some c" "c \<noteq> []" "length c < 18446744073709551616"
  shows "if source = target then AppendFile_cmdHandler C opCode cmdSeq source target (m, k) = None
    else \<exists>m' k'. AppendFile_cmdHandler C opCode cmdSeq source target (m, k) = Some (m', k') \<and>
      files k' = (files k)(target \<mapsto> content_of (files k) target @ c) \<and>
      fm_outs m' = fm_outs m @ [FmLog (AppendFileStarted (LogStringArg_of source) (LogStringArg_of target)),
        FmLog (AppendFileSucceeded (LogStringArg_of source) (LogStringArg_of target)),
        FmTlm_CommandsExecuted (fm_commandCount m + 1), FmCmdResponse opCode cmdSeq CmdResponse_OK]"
proof (cases "source = target")
  case True
  then show ?thesis
    using appendFile_itself [OF assms(1,2,3)] by (simp add: AppendFile_cmdHandler_def)
next
  case False
  obtain k' where "appendFile C source target True k = Some (FS_OP_OK, k')"
    "files k' = (files k)(target \<mapsto> content_of (files k) target @ c)"
    by (rule copy_append_disk [OF assms(1,2) False assms(4) refl])
  then show ?thesis
    using False
    by (simp add: AppendFile_cmdHandler_def fm_emitTelemetry_def fm_sendCommandResponse_def fm_out_def Let_def)
qed

theorem append_file_command_witness:
  "\<exists>m' k'. AppendFile_cmdHandler table_disk 5 1 ''a'' ''b'' (FileManager_new, (Map.empty(''a'' \<mapsto> [1, 2]), [])) = Some (m', k') \<and>
     fst k' ''b'' = Some [1, 2] \<and> last (fm_outs m') = FmCmdResponse 5 1 CmdResponse_OK"
  using append_file_command [OF table_disk_regular, of "(Map.empty(''a'' \<mapsto> [1, 2]), [])" "''a''" "[1, 2]" "''b''" 5 1 FileManager_new]
  by (auto simp: content_of_def)

end
