(* ===== verification/File_Downlink.thy ===== *)
theory File_Downlink
  imports Os_File_System File_Packet Cmd_Sequence
begin

text \<open>
  Svc/FileDownlink (FileDownlink.cpp, FileDownlink.hpp, File.cpp, Warnings.cpp): the component that
  sends files to the ground, one packet after the other. A packet goes out in a buffer over the
  component's own memory; when the buffer comes back, the next packet follows. Every event,
  telemetry write and port call goes to the list \<open>dn_outs\<close> in the order of the calls. The kernel
  state \<open>dn_disk\<close> is that of the file system layer. The file queue is an \<open>Os::Queue\<close> with one
  priority: the bounded first-in-first-out list that its store refines. A file name is a character
  array with a null byte.
\<close>

section \<open>Configuration\<close>

definition FILEDOWNLINK_COMMAND_FAILURES_DISABLED :: bool where
  "FILEDOWNLINK_COMMAND_FAILURES_DISABLED = True"

definition FILEDOWNLINK_INTERNAL_BUFFER_SIZE :: U32 where
  "FILEDOWNLINK_INTERNAL_BUFFER_SIZE = of_nat FW_COM_BUFFER_MAX_SIZE - 4"

definition DataPacket_HEADERSIZE :: U32 where
  "DataPacket_HEADERSIZE = 5 + 4 + 2"

definition FILE_ENTRY_FILENAME_LEN :: U32 where
  "FILE_ENTRY_FILENAME_LEN = 101"

section \<open>State\<close>

datatype Downlink_Mode = Dl_IDLE | Dl_DOWNLINK | Dl_CANCEL | Dl_WAIT | Dl_COOLDOWN

datatype CallerSource = From_COMMAND | From_PORT

datatype SendFileStatus = STATUS_OK | STATUS_ERROR | STATUS_INVALID | STATUS_BUSY

record FileEntry =
  fe_srcFilename :: "U8 list"
  fe_destFilename :: "U8 list"
  fe_offset :: U32
  fe_length :: U32
  fe_source :: CallerSource
  fe_opCode :: U32
  fe_cmdSeq :: U32
  fe_context :: U32

datatype PacketType = FILE_PACKET | CANCEL_PACKET

text \<open>The names are the characters of a \<open>LogStringArg\<close>, without the null byte behind them.\<close>

record Downlink_File =
  df_sourceName :: "U8 list"
  df_destName :: "U8 list"
  df_osFile :: File
  df_size :: U32
  df_checksum :: Checksum

datatype downlink_out =
    Dn_FileOpenError "U8 list"
  | Dn_FileReadError "U8 list" File_Status
  | Dn_FileSent "U8 list" "U8 list"
  | Dn_DownlinkCanceled "U8 list" "U8 list"
  | Dn_DownlinkTimeout "U8 list" "U8 list"
  | Dn_DownlinkPartialWarning U32 U32 U32 "U8 list" "U8 list"
  | Dn_DownlinkPartialFail "U8 list" "U8 list" U32 U32
  | Dn_SendDataFail "U8 list" U32
  | Dn_SendStarted U32 "U8 list" "U8 list"
  | Dn_Tlm_FilesSent U32
  | Dn_Tlm_PacketsSent U32
  | Dn_Tlm_Warnings U32
  | Dn_bufferSendOut Fw_Buffer
  | Dn_cmdResponse U32 U32 CmdResponse
  | Dn_FileComplete nat SendFileStatus U32
  | Dn_SendFile_return SendFileStatus U32
  | Dn_pingOut U32

record 'k FileDownlink =
  dn_configured :: bool
  dn_filesSent :: U32
  dn_packetsSent :: U32
  dn_warnings :: U32
  dn_sequenceIndex :: U32
  dn_curTimer :: U32
  dn_byteOffset :: U32
  dn_endOffset :: U32
  dn_lastCompletedType :: FilePacket_Type
  dn_lastBufferId :: U32
  dn_curEntry :: FileEntry
  dn_cntxId :: U32
  dn_timeout :: U32
  dn_cooldown :: U32
  dn_cycleTime :: U32
  dn_queue :: "FileEntry list option"
  dn_queueDepth :: nat
  dn_mode :: Downlink_Mode
  dn_file :: Downlink_File
  dn_buffer :: Fw_Buffer
  dn_memoryStore :: "PacketType \<Rightarrow> U8 list"
  dn_FileComplete_connected :: "bool list"
  dn_disk :: 'k
  dn_outs :: "downlink_out list"

definition FileEntry_zero :: FileEntry where
  "FileEntry_zero = \<lparr>fe_srcFilename = replicate 101 0, fe_destFilename = replicate 101 0, fe_offset = 0, fe_length = 0,
     fe_source = From_COMMAND, fe_opCode = 0, fe_cmdSeq = 0, fe_context = 0\<rparr>"

text \<open>
  The constructor; \<open>ports\<close> says which of the \<open>FileComplete\<close> ports are connected, \<open>memory\<close> is what
  is in the arrays of the packets. The timer settings are set by \<open>configure\<close>.
\<close>

definition FileDownlink_new :: "bool list \<Rightarrow> (PacketType \<Rightarrow> U8 list) \<Rightarrow> 'k \<Rightarrow> 'k FileDownlink" where
  "FileDownlink_new ports memory k =
     \<lparr>dn_configured = False, dn_filesSent = 0, dn_packetsSent = 0, dn_warnings = 0, dn_sequenceIndex = 0,
      dn_curTimer = 0, dn_byteOffset = 0, dn_endOffset = 0, dn_lastCompletedType = T_NONE, dn_lastBufferId = 0,
      dn_curEntry = FileEntry_zero, dn_cntxId = 0, dn_timeout = 0, dn_cooldown = 0, dn_cycleTime = 0,
      dn_queue = None, dn_queueDepth = 0, dn_mode = Dl_IDLE,
      dn_file = \<lparr>df_sourceName = [], df_destName = [], df_osFile = File_new, df_size = 0, df_checksum = Checksum_new\<rparr>,
      dn_buffer = Buffer_empty, dn_memoryStore = memory, dn_FileComplete_connected = ports, dn_disk = k, dn_outs = []\<rparr>"

text \<open>\<open>created\<close> says whether the operating system could make the queue.\<close>

definition FileDownlink_configure ::
  "bool \<Rightarrow> U32 \<Rightarrow> U32 \<Rightarrow> U32 \<Rightarrow> nat \<Rightarrow> 'k FileDownlink \<Rightarrow> 'k FileDownlink option" where
  "FileDownlink_configure created timeout cooldown cycleTime fileQueueDepth u = do {
     fw_assert created;
     Some (u\<lparr>dn_timeout := timeout, dn_cooldown := cooldown, dn_cycleTime := cycleTime, dn_configured := True,
       dn_queue := Some [], dn_queueDepth := fileQueueDepth\<rparr>)
   }"

definition FileDownlink_preamble :: "'k FileDownlink \<Rightarrow> unit option" where
  "FileDownlink_preamble u = fw_assert (dn_configured u)"

definition dn_emit :: "downlink_out \<Rightarrow> 'k FileDownlink \<Rightarrow> 'k FileDownlink" where
  "dn_emit e u = u\<lparr>dn_outs := dn_outs u @ [e]\<rparr>"

section \<open>Counters, warnings and responses\<close>

definition dn_fileSent :: "'k FileDownlink \<Rightarrow> 'k FileDownlink" where
  "dn_fileSent u =
     (let u = u\<lparr>dn_filesSent := dn_filesSent u + 1\<rparr> in dn_emit (Dn_Tlm_FilesSent (dn_filesSent u)) u)"

definition dn_packetSent :: "'k FileDownlink \<Rightarrow> 'k FileDownlink" where
  "dn_packetSent u =
     (let u = u\<lparr>dn_packetsSent := dn_packetsSent u + 1\<rparr> in dn_emit (Dn_Tlm_PacketsSent (dn_packetsSent u)) u)"

definition dn_warning :: "'k FileDownlink \<Rightarrow> 'k FileDownlink" where
  "dn_warning u =
     (let u = u\<lparr>dn_warnings := dn_warnings u + 1\<rparr> in dn_emit (Dn_Tlm_Warnings (dn_warnings u)) u)"

definition dn_fileOpenError :: "'k FileDownlink \<Rightarrow> 'k FileDownlink" where
  "dn_fileOpenError u = dn_warning (dn_emit (Dn_FileOpenError (df_sourceName (dn_file u))) u)"

definition dn_fileRead :: "File_Status \<Rightarrow> 'k FileDownlink \<Rightarrow> 'k FileDownlink" where
  "dn_fileRead status u = dn_warning (dn_emit (Dn_FileReadError (df_sourceName (dn_file u)) status) u)"

definition statusToCmdResp :: "SendFileStatus \<Rightarrow> CmdResponse" where
  "statusToCmdResp status = (case status of
     STATUS_OK \<Rightarrow> CmdResponse_OK
   | STATUS_ERROR \<Rightarrow> EXECUTION_ERROR
   | STATUS_INVALID \<Rightarrow> VALIDATION_ERROR
   | STATUS_BUSY \<Rightarrow> BUSY)"

fun fileComplete_loop :: "nat \<Rightarrow> bool list \<Rightarrow> SendFileStatus \<Rightarrow> U32 \<Rightarrow> downlink_out list" where
  "fileComplete_loop i [] resp context = []"
| "fileComplete_loop i (connected # ports) resp context =
     (if connected then [Dn_FileComplete i resp context] else []) @ fileComplete_loop (i + 1) ports resp context"

definition dn_sendResponse :: "SendFileStatus \<Rightarrow> 'k FileDownlink \<Rightarrow> 'k FileDownlink" where
  "dn_sendResponse resp u =
     (if fe_source (dn_curEntry u) = From_COMMAND
      then dn_emit (Dn_cmdResponse (fe_opCode (dn_curEntry u)) (fe_cmdSeq (dn_curEntry u)) (statusToCmdResp resp)) u
      else u\<lparr>dn_outs := dn_outs u @
             fileComplete_loop 0 (dn_FileComplete_connected u) resp (fe_context (dn_curEntry u))\<rparr>)"

section \<open>The file\<close>

definition Downlink_File_open ::
  "'k kernel_calls \<Rightarrow> U8 list \<Rightarrow> U8 list \<Rightarrow> Downlink_File \<Rightarrow> 'k \<Rightarrow> (File_Status \<times> Downlink_File \<times> 'k) option" where
  "Downlink_File_open C sourceFileName destFileName f k =
     (let f = f\<lparr>df_sourceName := Fw_Strings.LogStringArg_of sourceFileName,
                df_destName := Fw_Strings.LogStringArg_of destFileName\<rparr> in
      case getFileSize C (path_string sourceFileName) k of
        (Inl status, k) \<Rightarrow> Some (BAD_SIZE, f, k)
      | (Inr sz, k) \<Rightarrow> do {
          let f = f\<lparr>df_size := ucast sz, df_checksum := Checksum_assign (df_checksum f) Checksum_new\<rparr>;
          (status, osFile, k) \<leftarrow> File_open_write (kc_disk C) k (df_osFile f) (path_string sourceFileName) OPEN_READ True;
          Some (status, f\<lparr>df_osFile := osFile\<rparr>, k)
        })"

definition Downlink_File_read ::
  "'k kernel_calls \<Rightarrow> U32 \<Rightarrow> U32 \<Rightarrow> Downlink_File \<Rightarrow> 'k \<Rightarrow> (File_Status \<times> U8 list \<times> Downlink_File \<times> 'k) option" where
  "Downlink_File_read C byteOffset sz f k =
     (case File_seek (kc_disk C) k (df_osFile f) (sint byteOffset) True of
        (status, osFile, k) \<Rightarrow>
          let f = f\<lparr>df_osFile := osFile\<rparr> in
          if status \<noteq> OP_OK then Some (status, [], f, k)
          else do {
            (status, data, intSize, osFile, k) \<leftarrow> File_read_disk C k osFile (sint sz) True;
            let f = f\<lparr>df_osFile := osFile\<rparr>;
            if status \<noteq> OP_OK then Some (status, data, f, k)
            else do {
              fw_assert (of_int intSize = sz);
              c \<leftarrow> Checksum_update data byteOffset sz (df_checksum f);
              Some (OP_OK, data, f\<lparr>df_checksum := c\<rparr>, k)
            }
          })"

section \<open>Sending packets\<close>

definition dn_getBuffer :: "Fw_Buffer \<Rightarrow> PacketType \<Rightarrow> 'k FileDownlink \<Rightarrow> Fw_Buffer \<times> 'k FileDownlink" where
  "dn_getBuffer buffer t u =
     (let buffer = Buffer_setData buffer (Some (dn_memoryStore u t));
          buffer = Buffer_setSize buffer FILEDOWNLINK_INTERNAL_BUFFER_SIZE;
          buffer = Buffer_setContext buffer (dn_lastBufferId u)
      in (buffer, u\<lparr>dn_lastBufferId := dn_lastBufferId u + 1\<rparr>))"

text \<open>The bytes written through a buffer are in the memory of its packet type.\<close>

definition dn_stored :: "PacketType \<Rightarrow> Fw_Buffer \<Rightarrow> 'k FileDownlink \<Rightarrow> 'k FileDownlink" where
  "dn_stored t buffer u =
     (case m_bufferData buffer of None \<Rightarrow> u
      | Some m \<Rightarrow> u\<lparr>dn_memoryStore := (dn_memoryStore u)(t := m)\<rparr>)"

definition sendFilePacket :: "FilePacket \<Rightarrow> 'k FileDownlink \<Rightarrow> 'k FileDownlink option" where
  "sendFilePacket filePacket u = do {
     bufferSize \<leftarrow> FilePacket_bufferSize filePacket;
     fw_assert (m_bufferData (dn_buffer u) \<noteq> None);
     fw_assert (m_size (dn_buffer u) \<ge> bufferSize);
     (status, buffer) \<leftarrow> FilePacket_toBuffer filePacket (dn_buffer u);
     fw_assert (status = FW_SERIALIZE_OK);
     let u = dn_stored FILE_PACKET buffer u;
     let buffer = Buffer_setSize buffer bufferSize;
     let u = dn_emit (Dn_bufferSendOut buffer) u;
     let u = u\<lparr>dn_buffer := Buffer_setSize buffer FILEDOWNLINK_INTERNAL_BUFFER_SIZE\<rparr>;
     Some (dn_packetSent u)
   }"

definition sendStartPacket :: "'k FileDownlink \<Rightarrow> 'k FileDownlink option" where
  "sendStartPacket u = do {
     startPacket \<leftarrow> StartPacket_initialize (df_size (dn_file u))
       (Some (df_sourceName (dn_file u) @ [0])) (Some (df_destName (dn_file u) @ [0]));
     sendFilePacket (fromStartPacket startPacket) u
   }"

definition sendDataPacket :: "'k kernel_calls \<Rightarrow> 'k FileDownlink \<Rightarrow> (File_Status \<times> 'k FileDownlink) option" where
  "sendDataPacket C u = do {
     let byteOffset = dn_byteOffset u;
     fw_assert (byteOffset < dn_endOffset u);
     let maxDataSize = FILEDOWNLINK_INTERNAL_BUFFER_SIZE - DataPacket_HEADERSIZE;
     let dataSize = (if byteOffset + maxDataSize > dn_endOffset u then dn_endOffset u - byteOffset else maxDataSize);
     let u = (if dataSize + byteOffset = dn_endOffset u then u\<lparr>dn_lastCompletedType := T_DATA\<rparr> else u);
     (status, data, f, k) \<leftarrow> Downlink_File_read C byteOffset dataSize (dn_file u) (dn_disk u);
     let u = u\<lparr>dn_file := f, dn_disk := k\<rparr>;
     if status \<noteq> OP_OK then Some (status, dn_fileRead status u)
     else do {
       let dataPacket = \<lparr>dp_header = \<lparr>hdr_type = T_DATA, hdr_sequenceIndex = dn_sequenceIndex u\<rparr>,
             dp_byteOffset = byteOffset, dp_dataSize = ucast dataSize, dp_data = data\<rparr>;
       let u = u\<lparr>dn_sequenceIndex := dn_sequenceIndex u + 1\<rparr>;
       u \<leftarrow> sendFilePacket (fromDataPacket dataPacket) u;
       Some (OP_OK, u\<lparr>dn_byteOffset := byteOffset + dataSize\<rparr>)
     }
   }"

definition sendCancelPacket :: "'k FileDownlink \<Rightarrow> 'k FileDownlink option" where
  "sendCancelPacket u = do {
     let cancelPacket = \<lparr>cp_header = \<lparr>hdr_type = T_CANCEL, hdr_sequenceIndex = dn_sequenceIndex u\<rparr>\<rparr>;
     let (buffer, u) = dn_getBuffer Buffer_empty CANCEL_PACKET u;
     (status, buffer) \<leftarrow> FilePacket_toBuffer (fromCancelPacket cancelPacket) buffer;
     fw_assert (status = FW_SERIALIZE_OK);
     let u = dn_stored CANCEL_PACKET buffer u;
     Some (dn_packetSent (dn_emit (Dn_bufferSendOut buffer) u))
   }"

definition sendEndPacket :: "'k FileDownlink \<Rightarrow> 'k FileDownlink option" where
  "sendEndPacket u = do {
     let endPacket = \<lparr>ep_header = \<lparr>hdr_type = T_END, hdr_sequenceIndex = dn_sequenceIndex u\<rparr>, ep_checksumValue = 0\<rparr>;
     sendFilePacket (fromEndPacket (setChecksum endPacket (df_checksum (dn_file u)))) u
   }"

section \<open>The steps of a downlink\<close>

definition enterCooldown :: "'k kernel_calls \<Rightarrow> 'k FileDownlink \<Rightarrow> 'k FileDownlink" where
  "enterCooldown C u =
     (case File_close_write (kc_disk C) (dn_disk u) (df_osFile (dn_file u)) of
        (osFile, k) \<Rightarrow> u\<lparr>dn_file := (dn_file u)\<lparr>df_osFile := osFile\<rparr>, dn_disk := k,
          dn_mode := Dl_COOLDOWN, dn_lastCompletedType := T_NONE, dn_curTimer := 0\<rparr>)"

definition failure_or_ok :: "SendFileStatus \<Rightarrow> SendFileStatus" where
  "failure_or_ok status = (if FILEDOWNLINK_COMMAND_FAILURES_DISABLED then STATUS_OK else status)"

text \<open>The part of \<open>sendFile\<close> behind the checks of offset and length.\<close>

definition sendFile_start :: "U32 \<Rightarrow> U32 \<Rightarrow> 'k FileDownlink \<Rightarrow> 'k FileDownlink option" where
  "sendFile_start startOffset len u = do {
     let (buffer, u) = dn_getBuffer (dn_buffer u) FILE_PACKET u;
     u \<leftarrow> sendStartPacket (u\<lparr>dn_buffer := buffer\<rparr>);
     let u = u\<lparr>dn_mode := Dl_WAIT, dn_sequenceIndex := 1, dn_curTimer := 0, dn_byteOffset := startOffset,
               dn_lastCompletedType := T_START\<rparr>;
     let f = dn_file u;
     if len > 0
     then Some ((dn_emit (Dn_SendStarted len (df_sourceName f) (df_destName f)) u)\<lparr>dn_endOffset := startOffset + len\<rparr>)
     else Some ((dn_emit (Dn_SendStarted (df_size f - startOffset) (df_sourceName f) (df_destName f)) u)
                  \<lparr>dn_endOffset := df_size f\<rparr>)
   }"

definition sendFile ::
  "'k kernel_calls \<Rightarrow> U8 list \<Rightarrow> U8 list \<Rightarrow> U32 \<Rightarrow> U32 \<Rightarrow> 'k FileDownlink \<Rightarrow> 'k FileDownlink option" where
  "sendFile C sourceFilename destFilename startOffset len u = do {
     (status, f, k) \<leftarrow> Downlink_File_open C sourceFilename destFilename (dn_file u) (dn_disk u);
     let u = u\<lparr>dn_file := f, dn_disk := k\<rparr>;
     if status \<noteq> OP_OK
     then Some (dn_sendResponse (failure_or_ok STATUS_ERROR) (dn_fileOpenError (u\<lparr>dn_mode := Dl_IDLE\<rparr>)))
     else if startOffset \<ge> df_size f
     then Some (dn_sendResponse (failure_or_ok STATUS_INVALID)
            (dn_emit (Dn_DownlinkPartialFail (df_sourceName f) (df_destName f) startOffset (df_size f)) (enterCooldown C u)))
     else if startOffset + len > df_size f
     then sendFile_start startOffset (df_size f - startOffset)
            (dn_emit (Dn_DownlinkPartialWarning startOffset len (df_size f) (df_sourceName f) (df_destName f)) u)
     else sendFile_start startOffset len u
   }"

definition downlinkPacket :: "'k kernel_calls \<Rightarrow> 'k FileDownlink \<Rightarrow> 'k FileDownlink option" where
  "downlinkPacket C u = do {
     fw_assert (dn_lastCompletedType u \<noteq> T_NONE);
     fw_assert (dn_mode u = Dl_CANCEL \<or> dn_mode u = Dl_DOWNLINK);
     if dn_mode u = Dl_CANCEL \<and> dn_lastCompletedType u = T_START then do {
       u \<leftarrow> sendCancelPacket u;
       Some (u\<lparr>dn_lastCompletedType := T_CANCEL, dn_mode := Dl_WAIT, dn_curTimer := 0\<rparr>)
     }
     else if dn_mode u = Dl_DOWNLINK \<and> dn_lastCompletedType u = T_START then do {
       (status, u) \<leftarrow> sendDataPacket C u;
       if status \<noteq> OP_OK
       then Some (dn_sendResponse (failure_or_ok STATUS_ERROR)
              (enterCooldown C (dn_emit (Dn_SendDataFail (df_sourceName (dn_file u)) (dn_byteOffset u)) u)))
       else Some (u\<lparr>dn_mode := Dl_WAIT, dn_curTimer := 0\<rparr>)
     }
     else if dn_lastCompletedType u = T_DATA then do {
       u \<leftarrow> sendEndPacket u;
       Some (u\<lparr>dn_lastCompletedType := T_END, dn_mode := Dl_WAIT, dn_curTimer := 0\<rparr>)
     }
     else Some (u\<lparr>dn_mode := Dl_WAIT, dn_curTimer := 0\<rparr>)
   }"

definition finishHelper :: "'k kernel_calls \<Rightarrow> bool \<Rightarrow> 'k FileDownlink \<Rightarrow> 'k FileDownlink" where
  "finishHelper C cancel u =
     (let f = dn_file u;
          u = (if \<not> cancel then dn_emit (Dn_FileSent (df_sourceName f) (df_destName f)) (dn_fileSent u)
               else dn_emit (Dn_DownlinkCanceled (df_sourceName f) (df_destName f)) u)
      in dn_sendResponse STATUS_OK (enterCooldown C u))"

section \<open>Handlers\<close>

definition dn_Run_handler :: "'k kernel_calls \<Rightarrow> 'k FileDownlink \<Rightarrow> 'k FileDownlink option" where
  "dn_Run_handler C u = (case dn_mode u of
     Dl_IDLE \<Rightarrow>
       (case dn_queue u of
          Some (entry # queue) \<Rightarrow>
            sendFile C (fe_srcFilename entry) (fe_destFilename entry) (fe_offset entry) (fe_length entry)
              (u\<lparr>dn_queue := Some queue, dn_curEntry := entry\<rparr>)
        | _ \<Rightarrow> Some u)
   | Dl_COOLDOWN \<Rightarrow>
       if dn_curTimer u \<ge> dn_cooldown u then Some (u\<lparr>dn_curTimer := 0, dn_mode := Dl_IDLE\<rparr>)
       else Some (u\<lparr>dn_curTimer := dn_curTimer u + dn_cycleTime u\<rparr>)
   | Dl_WAIT \<Rightarrow>
       if dn_curTimer u \<ge> dn_timeout u then
         Some (dn_sendResponse (failure_or_ok STATUS_ERROR)
           (enterCooldown C (dn_emit (Dn_DownlinkTimeout (df_sourceName (dn_file u)) (df_destName (dn_file u)))
             (u\<lparr>dn_curTimer := 0\<rparr>))))
       else Some (u\<lparr>dn_curTimer := dn_curTimer u + dn_cycleTime u\<rparr>)
   | _ \<Rightarrow> Some u)"

text \<open>\<open>fileQueue.send\<close> without blocking.\<close>

definition fileQueue_send :: "FileEntry \<Rightarrow> 'k FileDownlink \<Rightarrow> bool \<times> 'k FileDownlink" where
  "fileQueue_send entry u = (case dn_queue u of
     None \<Rightarrow> (False, u)
   | Some q \<Rightarrow> if length q < dn_queueDepth u then (True, u\<lparr>dn_queue := Some (q @ [entry])\<rparr>) else (False, u))"

text \<open>The two names are copied into the arrays of the entry, which have room for them.\<close>

definition entry_names :: "U8 list \<Rightarrow> U8 list \<Rightarrow> FileEntry \<Rightarrow> FileEntry option" where
  "entry_names sourceFilename destFilename entry = do {
     n1 \<leftarrow> StringBase_length sourceFilename;
     fw_assert (n1 < FILE_ENTRY_FILENAME_LEN);
     n2 \<leftarrow> StringBase_length destFilename;
     fw_assert (n2 < FILE_ENTRY_FILENAME_LEN);
     src \<leftarrow> StringUtils_copy (fe_srcFilename entry) (Some sourceFilename) FILE_ENTRY_FILENAME_LEN;
     dest \<leftarrow> StringUtils_copy (fe_destFilename entry) (Some destFilename) FILE_ENTRY_FILENAME_LEN;
     Some (entry\<lparr>fe_srcFilename := src, fe_destFilename := dest\<rparr>)
   }"

definition dn_SendFile_handler ::
  "U8 list \<Rightarrow> U8 list \<Rightarrow> U32 \<Rightarrow> U32 \<Rightarrow> 'k FileDownlink \<Rightarrow> 'k FileDownlink option" where
  "dn_SendFile_handler sourceFilename destFilename offset len u = do {
     let entry = FileEntry_zero\<lparr>fe_offset := offset, fe_length := len, fe_source := From_PORT, fe_opCode := 0,
           fe_cmdSeq := 0, fe_context := dn_cntxId u\<rparr>;
     let u = u\<lparr>dn_cntxId := dn_cntxId u + 1\<rparr>;
     entry \<leftarrow> entry_names sourceFilename destFilename entry;
     let (ok, u) = fileQueue_send entry u;
     if \<not> ok then Some (dn_emit (Dn_SendFile_return STATUS_ERROR 0xFFFFFFFF) u)
     else Some (dn_emit (Dn_SendFile_return STATUS_OK (fe_context entry)) u)
   }"

definition dn_pingIn_handler :: "U32 \<Rightarrow> 'k FileDownlink \<Rightarrow> 'k FileDownlink" where
  "dn_pingIn_handler key u = dn_emit (Dn_pingOut key) u"

definition dn_bufferReturn_handler :: "'k kernel_calls \<Rightarrow> Fw_Buffer \<Rightarrow> 'k FileDownlink \<Rightarrow> 'k FileDownlink option" where
  "dn_bufferReturn_handler C fwBuffer u =
     (if dn_lastBufferId u \<noteq> m_context fwBuffer + 1 \<or> dn_mode u = Dl_IDLE then Some u
      else do {
        fw_assert (dn_mode u = Dl_WAIT \<or> dn_mode u = Dl_CANCEL);
        if dn_lastCompletedType u = T_END \<or> dn_lastCompletedType u = T_CANCEL
        then Some (finishHelper C (dn_lastCompletedType u = T_CANCEL) u)
        else downlinkPacket C (if dn_mode u = Dl_WAIT then u\<lparr>dn_mode := Dl_DOWNLINK\<rparr> else u)
      })"

definition dn_SendFile_cmdHandler ::
  "U32 \<Rightarrow> U32 \<Rightarrow> U8 list \<Rightarrow> U8 list \<Rightarrow> 'k FileDownlink \<Rightarrow> 'k FileDownlink option" where
  "dn_SendFile_cmdHandler opCode cmdSeq sourceFilename destFilename u = do {
     let entry = FileEntry_zero\<lparr>fe_offset := 0, fe_length := 0, fe_source := From_COMMAND, fe_opCode := opCode,
           fe_cmdSeq := cmdSeq, fe_context := 0xFFFFFFFF\<rparr>;
     entry \<leftarrow> entry_names sourceFilename destFilename entry;
     let (ok, u) = fileQueue_send entry u;
     if \<not> ok then Some (dn_emit (Dn_cmdResponse opCode cmdSeq EXECUTION_ERROR) u) else Some u
   }"

definition dn_SendPartial_cmdHandler ::
  "U32 \<Rightarrow> U32 \<Rightarrow> U8 list \<Rightarrow> U8 list \<Rightarrow> U32 \<Rightarrow> U32 \<Rightarrow> 'k FileDownlink \<Rightarrow> 'k FileDownlink option" where
  "dn_SendPartial_cmdHandler opCode cmdSeq sourceFilename destFilename startOffset len u = do {
     let entry = FileEntry_zero\<lparr>fe_offset := startOffset, fe_length := len, fe_source := From_COMMAND,
           fe_opCode := opCode, fe_cmdSeq := cmdSeq, fe_context := 0xFFFFFFFF\<rparr>;
     entry \<leftarrow> entry_names sourceFilename destFilename entry;
     let (ok, u) = fileQueue_send entry u;
     if \<not> ok then Some (dn_emit (Dn_cmdResponse opCode cmdSeq EXECUTION_ERROR) u) else Some u
   }"

definition dn_Cancel_cmdHandler :: "U32 \<Rightarrow> U32 \<Rightarrow> 'k FileDownlink \<Rightarrow> 'k FileDownlink" where
  "dn_Cancel_cmdHandler opCode cmdSeq u =
     dn_emit (Dn_cmdResponse opCode cmdSeq CmdResponse_OK)
       (if dn_mode u = Dl_DOWNLINK \<or> dn_mode u = Dl_WAIT then u\<lparr>dn_mode := Dl_CANCEL\<rparr> else u)"

text \<open>What can happen to the component, and the handler of each.\<close>

datatype downlink_input =
    In_Run
  | In_SendFile "U8 list" "U8 list" U32 U32
  | In_ping U32
  | In_bufferReturn Fw_Buffer
  | In_SendFile_cmd U32 U32 "U8 list" "U8 list"
  | In_SendPartial_cmd U32 U32 "U8 list" "U8 list" U32 U32
  | In_Cancel_cmd U32 U32

fun downlink_step :: "'k kernel_calls \<Rightarrow> downlink_input \<Rightarrow> 'k FileDownlink \<Rightarrow> 'k FileDownlink option" where
  "downlink_step C In_Run u = dn_Run_handler C u"
| "downlink_step C (In_SendFile src dest offset len) u = dn_SendFile_handler src dest offset len u"
| "downlink_step C (In_ping key) u = Some (dn_pingIn_handler key u)"
| "downlink_step C (In_bufferReturn b) u = dn_bufferReturn_handler C b u"
| "downlink_step C (In_SendFile_cmd opCode cmdSeq src dest) u = dn_SendFile_cmdHandler opCode cmdSeq src dest u"
| "downlink_step C (In_SendPartial_cmd opCode cmdSeq src dest offset len) u =
     dn_SendPartial_cmdHandler opCode cmdSeq src dest offset len u"
| "downlink_step C (In_Cancel_cmd opCode cmdSeq) u = Some (dn_Cancel_cmdHandler opCode cmdSeq u)"

fun downlink_run :: "'k kernel_calls \<Rightarrow> downlink_input list \<Rightarrow> 'k FileDownlink \<Rightarrow> 'k FileDownlink option" where
  "downlink_run C [] u = Some u"
| "downlink_run C (i # is) u = do {
     u \<leftarrow> downlink_step C i u;
     downlink_run C is u
   }"

end
