(* ===== verification/File_Downlink_Properties.thy ===== *)
theory File_Downlink_Properties
  imports File_Downlink "HOL-Library.Multiset"
begin

text \<open>
  What the requesters of a downlink can rely on: every command is answered exactly once, every
  request accepted at the port is completed exactly once and in order, whatever the order of the
  inputs and whatever the disk does. Then the two ways in which the component stops the program.
\<close>

section \<open>The books of the component\<close>

fun response_out :: "downlink_out \<Rightarrow> (U32 \<times> U32) list" where
  "response_out (Dn_cmdResponse opCode cmdSeq r) = [(opCode, cmdSeq)]"
| "response_out _ = []"

fun completed_out :: "downlink_out \<Rightarrow> U32 list" where
  "completed_out (Dn_FileComplete i status context) = (if i = 0 then [context] else [])"
| "completed_out _ = []"

fun accepted_out :: "downlink_out \<Rightarrow> U32 list" where
  "accepted_out (Dn_SendFile_return status context) = (if status = STATUS_OK then [context] else [])"
| "accepted_out _ = []"

definition dn_responses :: "'k FileDownlink \<Rightarrow> (U32 \<times> U32) list" where
  "dn_responses u = concat (map response_out (dn_outs u))"

definition dn_completed :: "'k FileDownlink \<Rightarrow> U32 list" where
  "dn_completed u = concat (map completed_out (dn_outs u))"

definition dn_accepted :: "'k FileDownlink \<Rightarrow> U32 list" where
  "dn_accepted u = concat (map accepted_out (dn_outs u))"

text \<open>The requests that wait or are being served, in the order in which they came.\<close>

definition dn_active :: "'k FileDownlink \<Rightarrow> bool" where
  "dn_active u \<longleftrightarrow> dn_mode u \<noteq> Dl_IDLE \<and> dn_mode u \<noteq> Dl_COOLDOWN"

definition dn_pending :: "'k FileDownlink \<Rightarrow> FileEntry list" where
  "dn_pending u = (if dn_active u then [dn_curEntry u] else []) @ (case dn_queue u of None \<Rightarrow> [] | Some q \<Rightarrow> q)"

definition cmd_entries :: "FileEntry list \<Rightarrow> (U32 \<times> U32) list" where
  "cmd_entries es = map (\<lambda>e. (fe_opCode e, fe_cmdSeq e)) (filter (\<lambda>e. fe_source e = From_COMMAND) es)"

definition port_entries :: "FileEntry list \<Rightarrow> U32 list" where
  "port_entries es = map fe_context (filter (\<lambda>e. fe_source e = From_PORT) es)"

fun commands_of :: "downlink_input list \<Rightarrow> (U32 \<times> U32) list" where
  "commands_of [] = []"
| "commands_of (In_SendFile_cmd opCode cmdSeq src dest # is) = (opCode, cmdSeq) # commands_of is"
| "commands_of (In_SendPartial_cmd opCode cmdSeq src dest offset len # is) = (opCode, cmdSeq) # commands_of is"
| "commands_of (In_Cancel_cmd opCode cmdSeq # is) = (opCode, cmdSeq) # commands_of is"
| "commands_of (i # is) = commands_of is"

text \<open>The helpers that neither answer nor take a request leave the books as they are.\<close>

definition books :: "'k FileDownlink \<Rightarrow>
    (U32 \<times> U32) list \<times> U32 list \<times> U32 list \<times> FileEntry \<times> FileEntry list option \<times> bool list" where
  "books u = (dn_responses u, dn_completed u, dn_accepted u, dn_curEntry u, dn_queue u, dn_FileComplete_connected u)"

definition quiet :: "downlink_out \<Rightarrow> bool" where
  "quiet e \<longleftrightarrow> response_out e = [] \<and> completed_out e = [] \<and> accepted_out e = []"

lemma books_emit [simp]: "quiet e \<Longrightarrow> books (dn_emit e u) = books u"
  by (simp add: quiet_def books_def dn_emit_def dn_responses_def dn_completed_def dn_accepted_def)

lemma books_upd [simp]:
  "books (u\<lparr>dn_filesSent := n\<rparr>) = books u" "books (u\<lparr>dn_packetsSent := n\<rparr>) = books u"
  "books (u\<lparr>dn_warnings := n\<rparr>) = books u" "books (u\<lparr>dn_sequenceIndex := n\<rparr>) = books u"
  "books (u\<lparr>dn_curTimer := n\<rparr>) = books u" "books (u\<lparr>dn_byteOffset := n\<rparr>) = books u"
  "books (u\<lparr>dn_endOffset := n\<rparr>) = books u" "books (u\<lparr>dn_lastCompletedType := t\<rparr>) = books u"
  "books (u\<lparr>dn_lastBufferId := n\<rparr>) = books u" "books (u\<lparr>dn_mode := m\<rparr>) = books u"
  "books (u\<lparr>dn_file := f\<rparr>) = books u" "books (u\<lparr>dn_buffer := b\<rparr>) = books u"
  "books (u\<lparr>dn_memoryStore := s\<rparr>) = books u" "books (u\<lparr>dn_disk := k\<rparr>) = books u"
  "books (u\<lparr>dn_cntxId := n\<rparr>) = books u"
  by (simp_all add: books_def dn_responses_def dn_completed_def dn_accepted_def)

lemma dn_quiet_simps [simp]:
  "quiet (Dn_FileOpenError n)" "quiet (Dn_FileReadError n s)" "quiet (Dn_FileSent n d)" "quiet (Dn_DownlinkCanceled n d)"
  "quiet (Dn_DownlinkTimeout n d)" "quiet (Dn_DownlinkPartialWarning a b c n d)" "quiet (Dn_DownlinkPartialFail n d a b)"
  "quiet (Dn_SendDataFail n a)" "quiet (Dn_SendStarted a n d)" "quiet (Dn_Tlm_FilesSent a)" "quiet (Dn_Tlm_PacketsSent a)"
  "quiet (Dn_Tlm_Warnings a)" "quiet (Dn_bufferSendOut buf)" "quiet (Dn_pingOut a)"
  by (simp_all add: quiet_def)

lemma books_helpers [simp]:
  "books (dn_fileSent u) = books u" "books (dn_packetSent u) = books u" "books (dn_fileOpenError u) = books u"
  "books (dn_fileRead s u) = books u" "books (dn_stored t b u) = books u" "books (enterCooldown C u) = books u"
  by (simp_all add: dn_fileSent_def dn_packetSent_def dn_fileOpenError_def dn_fileRead_def dn_warning_def dn_stored_def
      enterCooldown_def Let_def split: option.split prod.split)

lemma mode_helpers [simp]:
  "dn_mode (dn_emit e u) = dn_mode u" "dn_mode (dn_packetSent u) = dn_mode u" "dn_mode (dn_stored t b u) = dn_mode u"
  "dn_mode (dn_fileRead s u) = dn_mode u" "dn_mode (dn_fileOpenError u) = dn_mode u"
  "dn_mode (enterCooldown C u) = Dl_COOLDOWN" "dn_mode (dn_sendResponse r u) = dn_mode u"
  by (simp_all add: dn_emit_def dn_packetSent_def dn_stored_def dn_fileRead_def dn_fileOpenError_def dn_warning_def
      enterCooldown_def dn_sendResponse_def Let_def split: option.split prod.split)

lemma books_getBuffer: "dn_getBuffer b t u = (b', u') \<Longrightarrow> books u' = books u \<and> dn_mode u' = dn_mode u"
  by (auto simp: dn_getBuffer_def Let_def)

lemma books_sendFilePacket: "sendFilePacket p u = Some u' \<Longrightarrow> books u' = books u \<and> dn_mode u' = dn_mode u"
  by (auto simp: sendFilePacket_def Let_def split: Option.bind_splits if_splits)

lemma books_sendDataPacket: "sendDataPacket C u = Some (s, u') \<Longrightarrow> books u' = books u"
  by (auto simp: sendDataPacket_def Let_def dest!: books_sendFilePacket split: Option.bind_splits if_splits)

lemma books_sendCancelPacket: "sendCancelPacket u = Some u' \<Longrightarrow> books u' = books u"
  by (auto simp: sendCancelPacket_def Let_def dest!: books_getBuffer split: Option.bind_splits if_splits prod.splits)

lemma books_sendEndPacket: "sendEndPacket u = Some u' \<Longrightarrow> books u' = books u"
  by (auto simp: sendEndPacket_def Let_def dest!: books_sendFilePacket)

text \<open>The current request is answered: what the books say of the others stays.\<close>

definition closed_books :: "'k FileDownlink \<Rightarrow> 'k FileDownlink \<Rightarrow> bool" where
  "closed_books u u' \<longleftrightarrow> dn_responses u' = dn_responses u @ cmd_entries [dn_curEntry u] \<and>
     dn_completed u' = dn_completed u @ port_entries [dn_curEntry u] \<and> dn_accepted u' = dn_accepted u \<and>
     dn_queue u' = dn_queue u \<and> dn_FileComplete_connected u' = dn_FileComplete_connected u"

lemma fileComplete_loop_out:
  "concat (map response_out (fileComplete_loop i ports r c)) = []"
  "concat (map accepted_out (fileComplete_loop i ports r c)) = []"
  "0 < i \<Longrightarrow> concat (map completed_out (fileComplete_loop i ports r c)) = []"
  by (induction i ports r c rule: fileComplete_loop.induct) auto

lemma closed_sendResponse:
  assumes "books u' = books u" "dn_FileComplete_connected u = True # ports"
  shows "closed_books u (dn_sendResponse r u')"
proof -
  have u': "dn_responses u' = dn_responses u" "dn_completed u' = dn_completed u" "dn_accepted u' = dn_accepted u"
    "dn_curEntry u' = dn_curEntry u" "dn_queue u' = dn_queue u" "dn_FileComplete_connected u' = True # ports"
    using assms by (simp_all add: books_def)
  show ?thesis
  proof (cases "fe_source (dn_curEntry u)")
    case From_COMMAND
    then show ?thesis
      using u' assms(2)
      by (simp add: closed_books_def dn_sendResponse_def dn_emit_def cmd_entries_def port_entries_def dn_responses_def
          dn_completed_def dn_accepted_def)
  next
    case From_PORT
    then show ?thesis
      using u' assms(2)
      by (simp add: closed_books_def dn_sendResponse_def cmd_entries_def port_entries_def dn_responses_def
          dn_completed_def dn_accepted_def fileComplete_loop_out)
  qed
qed

text \<open>A downlink goes on, or its request is answered and the component is idle or cools down.\<close>

definition served :: "'k FileDownlink \<Rightarrow> 'k FileDownlink \<Rightarrow> bool" where
  "served u u' \<longleftrightarrow> (books u' = books u \<and> dn_active u') \<or> (closed_books u u' \<and> \<not> dn_active u')"

lemma served_cong: "books v = books u \<Longrightarrow> served v u' = served u u'"
  by (simp add: served_def closed_books_def books_def)

lemma served_sendFile:
  assumes "sendFile C src dest offset len u = Some u'" "dn_FileComplete_connected u = True # ports"
  shows "served u u'"
proof -
  have start: "served u v'" if "sendFile_start o' l' v = Some v'" "books v = books u" for o' l' v v'
  proof -
    have "books v' = books u \<and> dn_mode v' = Dl_WAIT"
      using that
      by (auto simp: sendFile_start_def sendStartPacket_def Let_def dest!: books_sendFilePacket books_getBuffer
          split: Option.bind_splits prod.splits if_splits)
    then show ?thesis by (simp add: served_def dn_active_def)
  qed
  have stop: "served u (dn_sendResponse r v)" if "books v = books u" "\<not> dn_active v" for r v
    using closed_sendResponse [OF that(1) assms(2), of r] that(2) by (simp add: served_def dn_active_def)
  show ?thesis
    using assms(1) unfolding sendFile_def
    by (auto simp: Let_def dn_active_def split: Option.bind_splits if_splits intro!: stop) (rule start, assumption, simp)+
qed

lemma served_downlinkPacket:
  assumes "downlinkPacket C u = Some u'" "dn_FileComplete_connected u = True # ports"
  shows "served u u'"
proof -
  have on: "served u (v\<lparr>dn_lastCompletedType := t, dn_mode := Dl_WAIT, dn_curTimer := 0\<rparr>)" if "books v = books u" for v t
    using that by (simp add: served_def dn_active_def)
  have on': "served u (v\<lparr>dn_mode := Dl_WAIT, dn_curTimer := 0\<rparr>)" if "books v = books u" for v
    using that by (simp add: served_def dn_active_def)
  have stop: "served u (dn_sendResponse r v)" if "books v = books u" "\<not> dn_active v" for r v
    using closed_sendResponse [OF that(1) assms(2), of r] that(2) by (simp add: served_def dn_active_def)
  let ?t = "dn_lastCompletedType u"
  consider "dn_mode u = Dl_CANCEL" "?t = T_START" | "dn_mode u = Dl_DOWNLINK" "?t = T_START" | "?t = T_DATA"
    | "?t \<noteq> T_START" "?t \<noteq> T_DATA"
    using assms(1) by (cases "dn_mode u") (auto simp: downlinkPacket_def)
  then show ?thesis
  proof cases
    case 1
    then obtain v where "sendCancelPacket u = Some v"
      "u' = v\<lparr>dn_lastCompletedType := T_CANCEL, dn_mode := Dl_WAIT, dn_curTimer := 0\<rparr>"
      using assms(1) by (auto simp: downlinkPacket_def split: Option.bind_splits)
    then show ?thesis using on books_sendCancelPacket by blast
  next
    case 2
    then obtain st v where v: "sendDataPacket C u = Some (st, v)"
      "u' = (if st \<noteq> OP_OK then dn_sendResponse (failure_or_ok STATUS_ERROR)
          (enterCooldown C (dn_emit (Dn_SendDataFail (df_sourceName (dn_file v)) (dn_byteOffset v)) v))
        else v\<lparr>dn_mode := Dl_WAIT, dn_curTimer := 0\<rparr>)"
      using assms(1) by (auto simp: downlinkPacket_def split: Option.bind_splits if_splits)
    have "books v = books u" by (rule books_sendDataPacket [OF v(1)])
    then show ?thesis
      using v(2) on' [of v] stop [of "enterCooldown C (dn_emit (Dn_SendDataFail (df_sourceName (dn_file v)) (dn_byteOffset v)) v)"]
      by (simp add: dn_active_def)
  next
    case 3
    then obtain v where "sendEndPacket u = Some v"
      "u' = v\<lparr>dn_lastCompletedType := T_END, dn_mode := Dl_WAIT, dn_curTimer := 0\<rparr>"
      using assms(1) by (auto simp: downlinkPacket_def split: Option.bind_splits if_splits)
    then show ?thesis using on books_sendEndPacket by blast
  next
    case 4
    then show ?thesis using assms(1) on' [OF refl] by (auto simp: downlinkPacket_def split: if_splits)
  qed
qed

section \<open>Every request is answered once\<close>

definition balance :: "downlink_input list \<Rightarrow> 'k FileDownlink \<Rightarrow> 'k FileDownlink \<Rightarrow> bool" where
  "balance is u u' \<longleftrightarrow>
     mset (dn_responses u') + mset (cmd_entries (dn_pending u')) =
       mset (commands_of is) + mset (dn_responses u) + mset (cmd_entries (dn_pending u)) \<and>
     (\<exists>new. dn_accepted u' = dn_accepted u @ new \<and>
        dn_completed u' @ port_entries (dn_pending u') = dn_completed u @ port_entries (dn_pending u) @ new) \<and>
     dn_FileComplete_connected u' = dn_FileComplete_connected u"

lemma entries_append [simp]:
  "cmd_entries (xs @ ys) = cmd_entries xs @ cmd_entries ys" "port_entries (xs @ ys) = port_entries xs @ port_entries ys"
  "cmd_entries [] = []" "port_entries [] = []"
  "cmd_entries (e # es) = (if fe_source e = From_COMMAND then [(fe_opCode e, fe_cmdSeq e)] else []) @ cmd_entries es"
  "port_entries (e # es) = (if fe_source e = From_PORT then [fe_context e] else []) @ port_entries es"
  by (simp_all add: cmd_entries_def port_entries_def)

lemma served_balance:
  assumes "served u u'" "dn_active u" "commands_of is = []"
  shows "balance is u u'"
  using assms
  by (auto simp: served_def balance_def books_def closed_books_def dn_pending_def)

lemma step_Run:
  assumes "dn_Run_handler C u = Some u'" "dn_FileComplete_connected u = True # ports"
  shows "balance [In_Run] u u'"
proof (cases "dn_mode u")
  case Dl_IDLE
  show ?thesis
  proof (cases "\<exists>entry queue. dn_queue u = Some (entry # queue)")
    case True
    then obtain entry queue where q: "dn_queue u = Some (entry # queue)" by blast
    let ?u = "u\<lparr>dn_queue := Some queue, dn_curEntry := entry\<rparr>"
    have "served ?u u'"
      using assms q Dl_IDLE by (intro served_sendFile [where ports = ports]) (simp_all add: dn_Run_handler_def)
    then show ?thesis
      using q Dl_IDLE
      by (auto simp: served_def balance_def books_def closed_books_def dn_pending_def dn_active_def dn_responses_def
          dn_completed_def dn_accepted_def cmd_entries_def port_entries_def)
  next
    case False
    then have "u' = u" using assms(1) Dl_IDLE by (auto simp: dn_Run_handler_def split: option.splits list.splits)
    then show ?thesis by (simp add: balance_def)
  qed
next
  case Dl_WAIT
  show ?thesis
  proof (cases "dn_curTimer u \<ge> dn_timeout u")
    case True
    let ?v = "enterCooldown C (dn_emit (Dn_DownlinkTimeout (df_sourceName (dn_file u)) (df_destName (dn_file u)))
        (u\<lparr>dn_curTimer := 0\<rparr>))"
    have "u' = dn_sendResponse (failure_or_ok STATUS_ERROR) ?v" using assms(1) Dl_WAIT True by (simp add: dn_Run_handler_def)
    then have "served u u'" using closed_sendResponse [OF _ assms(2), of ?v] by (simp add: served_def dn_active_def)
    then show ?thesis using Dl_WAIT by (intro served_balance) (simp_all add: dn_active_def)
  next
    case False
    then show ?thesis
      using assms(1) Dl_WAIT
      by (auto simp: dn_Run_handler_def balance_def dn_pending_def dn_active_def dn_responses_def dn_completed_def dn_accepted_def)
  qed
qed (use assms in \<open>auto simp: dn_Run_handler_def balance_def dn_pending_def dn_active_def dn_responses_def dn_completed_def
  dn_accepted_def split: if_splits\<close>)

lemma step_bufferReturn:
  assumes "dn_bufferReturn_handler C b u = Some u'" "dn_FileComplete_connected u = True # ports"
  shows "balance [In_bufferReturn b] u u'"
proof (cases "dn_lastBufferId u \<noteq> m_context b + 1 \<or> dn_mode u = Dl_IDLE")
  case True
  then show ?thesis using assms(1) by (auto simp: dn_bufferReturn_handler_def balance_def)
next
  case False
  have m: "dn_mode u = Dl_WAIT \<or> dn_mode u = Dl_CANCEL"
    using assms(1) False by (auto simp: dn_bufferReturn_handler_def split: if_splits)
  let ?u = "if dn_mode u = Dl_WAIT then u\<lparr>dn_mode := Dl_DOWNLINK\<rparr> else u"
  have "served u u'"
  proof (cases "dn_lastCompletedType u = T_END \<or> dn_lastCompletedType u = T_CANCEL")
    case True
    then have "u' = finishHelper C (dn_lastCompletedType u = T_CANCEL) u"
      using assms(1) False m by (auto simp: dn_bufferReturn_handler_def)
    then show ?thesis
      using closed_sendResponse [OF _ assms(2)] by (auto simp: served_def dn_active_def finishHelper_def Let_def)
  next
    case noend: False
    then have "downlinkPacket C ?u = Some u'"
      using assms(1) False m by (auto simp: dn_bufferReturn_handler_def)
    then have "served ?u u'" using assms(2) by (intro served_downlinkPacket [where ports = ports]) simp_all
    moreover have "books ?u = books u" by simp
    ultimately show ?thesis using served_cong by blast
  qed
  then show ?thesis using m by (intro served_balance) (auto simp: dn_active_def)
qed

lemma entry_names_books:
  assumes "entry_names src dest e = Some e'"
  shows "fe_source e' = fe_source e" "fe_opCode e' = fe_opCode e" "fe_cmdSeq e' = fe_cmdSeq e" "fe_context e' = fe_context e"
  using assms by (auto simp: entry_names_def split: Option.bind_splits if_splits)

lemma pending_send:
  assumes "fileQueue_send e u = (ok, u')"
  shows "dn_pending u' = dn_pending u @ (if ok then [e] else [])" "dn_responses u' = dn_responses u"
    "dn_completed u' = dn_completed u" "dn_accepted u' = dn_accepted u"
    "dn_FileComplete_connected u' = dn_FileComplete_connected u"
  using assms
  by (auto simp: fileQueue_send_def dn_pending_def dn_active_def dn_responses_def dn_completed_def dn_accepted_def
      split: option.splits if_splits)

lemma books_of_emit:
  "dn_responses (dn_emit e u) = dn_responses u @ response_out e" "dn_completed (dn_emit e u) = dn_completed u @ completed_out e"
  "dn_accepted (dn_emit e u) = dn_accepted u @ accepted_out e" "dn_pending (dn_emit e u) = dn_pending u"
  "dn_FileComplete_connected (dn_emit e u) = dn_FileComplete_connected u"
  by (simp_all add: dn_emit_def dn_responses_def dn_completed_def dn_accepted_def dn_pending_def dn_active_def)

lemma step_queue:
  assumes "entry_names src dest e = Some e'" "fileQueue_send e' u = (ok, u')" "fe_source e = From_COMMAND"
    and "v = (if \<not> ok then dn_emit (Dn_cmdResponse (fe_opCode e) (fe_cmdSeq e) EXECUTION_ERROR) u' else u')"
    and "commands_of is = [(fe_opCode e, fe_cmdSeq e)]"
  shows "balance is u v"
  using assms(3-) entry_names_books [OF assms(1)] pending_send [OF assms(2)]
  by (cases ok) (simp_all add: balance_def books_of_emit)

lemma step_SendFile:
  assumes "dn_SendFile_handler src dest offset len u = Some u'"
  shows "balance [In_SendFile src dest offset len] u u'"
proof -
  let ?e = "FileEntry_zero\<lparr>fe_offset := offset, fe_length := len, fe_source := From_PORT,
      fe_opCode := 0, fe_cmdSeq := 0, fe_context := dn_cntxId u\<rparr>" and ?u = "u\<lparr>dn_cntxId := dn_cntxId u + 1\<rparr>"
  obtain e where e: "entry_names src dest ?e = Some e"
    using assms by (auto simp: dn_SendFile_handler_def Let_def split: Option.bind_splits)
  obtain ok v where q: "fileQueue_send e ?u = (ok, v)"
    by fastforce
  have u': "u' = dn_emit (if \<not> ok then Dn_SendFile_return STATUS_ERROR 0xFFFFFFFF else Dn_SendFile_return STATUS_OK (fe_context e)) v"
    using assms by (auto simp: dn_SendFile_handler_def Let_def e q split: if_splits)
  have "dn_pending ?u = dn_pending u" "dn_responses ?u = dn_responses u" "dn_completed ?u = dn_completed u"
    "dn_accepted ?u = dn_accepted u"
    by (simp_all add: dn_pending_def dn_active_def dn_responses_def dn_completed_def dn_accepted_def)
  then show ?thesis
    using entry_names_books [OF e] pending_send [OF q] unfolding u'
    by (cases ok) (simp_all add: balance_def books_of_emit)
qed

lemma step_balance:
  assumes "downlink_step C i u = Some u'" "dn_FileComplete_connected u = True # ports"
  shows "balance [i] u u'"
proof (cases i)
  case In_Run
  then show ?thesis using assms step_Run by auto
next
  case (In_SendFile src dest offset len)
  then show ?thesis using assms(1) step_SendFile by auto
next
  case (In_bufferReturn b)
  then show ?thesis using assms step_bufferReturn by auto
next
  case (In_SendFile_cmd opCode cmdSeq src dest)
  let ?e = "FileEntry_zero\<lparr>fe_offset := 0, fe_length := 0, fe_source := From_COMMAND, fe_opCode := opCode,
      fe_cmdSeq := cmdSeq, fe_context := 0xFFFFFFFF\<rparr>"
  obtain e ok v where "entry_names src dest ?e = Some e" "fileQueue_send e u = (ok, v)"
    "u' = (if \<not> ok then dn_emit (Dn_cmdResponse opCode cmdSeq EXECUTION_ERROR) v else v)"
    using assms(1) In_SendFile_cmd
    by (auto simp: dn_SendFile_cmdHandler_def Let_def split: Option.bind_splits prod.splits if_splits)
  then show ?thesis using In_SendFile_cmd by (intro step_queue [of src dest ?e e]) auto
next
  case (In_SendPartial_cmd opCode cmdSeq src dest offset len)
  let ?e = "FileEntry_zero\<lparr>fe_offset := offset, fe_length := len, fe_source := From_COMMAND, fe_opCode := opCode,
      fe_cmdSeq := cmdSeq, fe_context := 0xFFFFFFFF\<rparr>"
  obtain e ok v where "entry_names src dest ?e = Some e" "fileQueue_send e u = (ok, v)"
    "u' = (if \<not> ok then dn_emit (Dn_cmdResponse opCode cmdSeq EXECUTION_ERROR) v else v)"
    using assms(1) In_SendPartial_cmd
    by (auto simp: dn_SendPartial_cmdHandler_def Let_def split: Option.bind_splits prod.splits if_splits)
  then show ?thesis using In_SendPartial_cmd by (intro step_queue [of src dest ?e e]) auto
next
  case (In_ping key)
  then show ?thesis using assms(1) by (auto simp: dn_pingIn_handler_def balance_def books_of_emit)
next
  case (In_Cancel_cmd opCode cmdSeq)
  define v where "v = (if dn_mode u = Dl_DOWNLINK \<or> dn_mode u = Dl_WAIT then u\<lparr>dn_mode := Dl_CANCEL\<rparr> else u)"
  have "dn_pending v = dn_pending u" "dn_responses v = dn_responses u" "dn_completed v = dn_completed u"
    "dn_accepted v = dn_accepted u" "dn_FileComplete_connected v = dn_FileComplete_connected u"
    by (simp_all add: v_def dn_pending_def dn_active_def dn_responses_def dn_completed_def dn_accepted_def)
  moreover have "u' = dn_emit (Dn_cmdResponse opCode cmdSeq CmdResponse_OK) v"
    using assms(1) In_Cancel_cmd by (auto simp: dn_Cancel_cmdHandler_def v_def)
  ultimately show ?thesis using In_Cancel_cmd by (simp add: balance_def books_of_emit)
qed

lemma commands_of_Cons: "commands_of (i # is) = commands_of [i] @ commands_of is"
  by (cases i) simp_all

lemma balance_run:
  assumes "downlink_run C is u = Some u'" "dn_FileComplete_connected u = True # ports"
  shows "balance is u u'"
  using assms
proof (induction "is" arbitrary: u)
  case Nil
  then show ?case by (simp add: balance_def)
next
  case (Cons i "is")
  obtain v where v: "downlink_step C i u = Some v" "downlink_run C is v = Some u'"
    using Cons.prems(1) by (auto split: Option.bind_splits)
  have b: "balance [i] u v"
    by (rule step_balance [OF v(1) Cons.prems(2)])
  then have "dn_FileComplete_connected v = True # ports"
    using Cons.prems(2) by (simp add: balance_def)
  then have "balance is v u'"
    by (rule Cons.IH [OF v(2)])
  with b show ?case
    by (auto simp: balance_def commands_of_Cons [of i "is"] ac_simps)
qed

text \<open>
  C4: whatever happens, in whatever order, and whatever the disk does: of the commands the component
  was given, each is answered exactly once or is still waiting or being served; the contexts it has
  completed and those still to be completed are, in order, the contexts it has accepted at the port.
  So no request is lost, answered twice or overtaken.
\<close>

theorem every_request_answered_once:
  assumes "FileDownlink_configure True timeout cooldown cycleTime depth (FileDownlink_new (True # ports) memory k) = Some u0"
    and "downlink_run C is u0 = Some u"
  shows "mset (dn_responses u) + mset (cmd_entries (dn_pending u)) = mset (commands_of is) \<and>
    dn_completed u @ port_entries (dn_pending u) = dn_accepted u"
proof -
  have u0: "dn_FileComplete_connected u0 = True # ports" "dn_pending u0 = []" "dn_responses u0 = []" "dn_completed u0 = []"
    "dn_accepted u0 = []"
    using assms(1) by (auto simp: FileDownlink_configure_def FileDownlink_new_def dn_pending_def dn_active_def dn_responses_def
        dn_completed_def dn_accepted_def)
  have "balance is u0 u" by (rule balance_run [OF assms(2) u0(1)])
  with u0 show ?thesis by (simp add: balance_def)
qed

theorem every_request_answered_once_witness:
  "\<exists>u0 u. FileDownlink_configure True 1 1 1 2 (FileDownlink_new [True] (\<lambda>_. replicate 124 0) (Map.empty, [])) = Some u0 \<and>
    downlink_run table_disk [In_SendFile_cmd 3 7 [97, 0] [98, 0], In_Cancel_cmd 4 8] u0 = Some u \<and>
    mset (dn_responses u) + mset (cmd_entries (dn_pending u)) = {#(3, 7), (4, 8)#}"
proof -
  define u0 :: "table_disk_state FileDownlink" where
    "u0 = (FileDownlink_new [True] (\<lambda>_. replicate 124 0) (Map.empty, []))\<lparr>dn_timeout := 1, dn_cooldown := 1, dn_cycleTime := 1,
       dn_configured := True, dn_queue := Some [], dn_queueDepth := 2\<rparr>"
  have u0: "FileDownlink_configure True 1 1 1 2 (FileDownlink_new [True] (\<lambda>_. replicate 124 0) (Map.empty, [])) = Some u0"
    by (simp add: FileDownlink_configure_def u0_def)
  have "\<exists>e. entry_names [97, 0] [98, 0] (FileEntry_zero\<lparr>fe_offset := 0, fe_length := 0, fe_source := From_COMMAND, fe_opCode := 3,
      fe_cmdSeq := 7, fe_context := 0xFFFFFFFF\<rparr>) = Some e"
    by (simp add: entry_names_def StringBase_length_eq string_wf_def FILE_ENTRY_FILENAME_LEN_def StringUtils_copy_def
        string_length_eq FileEntry_zero_def strncpy_chars_def write_at_def)
  then obtain e where e: "entry_names [97, 0] [98, 0] (FileEntry_zero\<lparr>fe_offset := 0, fe_length := 0, fe_source := From_COMMAND,
      fe_opCode := 3, fe_cmdSeq := 7, fe_context := 0xFFFFFFFF\<rparr>) = Some e" ..
  obtain u where u: "downlink_run table_disk [In_SendFile_cmd 3 7 [97, 0] [98, 0], In_Cancel_cmd 4 8] u0 = Some u"
    by (simp add: dn_SendFile_cmdHandler_def e fileQueue_send_def u0_def FileDownlink_new_def dn_Cancel_cmdHandler_def)
  from every_request_answered_once [OF u0 u] u0 u show ?thesis by auto
qed

section \<open>A buffer that comes back too late\<close>

text \<open>
  C29: when the wait for a buffer has timed out, the component cools down, and the return of the
  buffer it was waiting for then stops the program: the check that recognizes stale buffers lets it
  through, and the assertion behind it fails. Only a return after the cooldown is ignored.
\<close>

theorem late_buffer_return_stops:
  assumes "dn_mode u = Dl_WAIT" "dn_timeout u \<le> dn_curTimer u" "dn_lastBufferId u = m_context b + 1"
  shows "\<exists>v. downlink_step C In_Run u = Some v \<and> dn_mode v = Dl_COOLDOWN \<and>
    downlink_step C (In_bufferReturn b) v = None \<and>
    downlink_step C (In_bufferReturn b) (v\<lparr>dn_mode := Dl_IDLE\<rparr>) = Some (v\<lparr>dn_mode := Dl_IDLE\<rparr>)"
proof -
  let ?v = "dn_sendResponse (failure_or_ok STATUS_ERROR) (enterCooldown C
    (dn_emit (Dn_DownlinkTimeout (df_sourceName (dn_file u)) (df_destName (dn_file u))) (u\<lparr>dn_curTimer := 0\<rparr>)))"
  have "dn_lastBufferId ?v = dn_lastBufferId u"
    by (simp add: dn_sendResponse_def dn_emit_def enterCooldown_def split: prod.split)
  then show ?thesis
    using assms by (simp add: dn_Run_handler_def dn_bufferReturn_handler_def)
qed

theorem late_buffer_return_stops_witness:
  "\<exists>v. downlink_step table_disk In_Run
      ((FileDownlink_new [True] (\<lambda>_. replicate 124 0) (Map.empty, []))\<lparr>dn_mode := Dl_WAIT, dn_lastBufferId := 1\<rparr>) = Some v \<and>
    downlink_step table_disk (In_bufferReturn (Buffer_new None 0 0)) v = None"
  using late_buffer_return_stops [of "(FileDownlink_new [True] (\<lambda>_. replicate 124 0) (Map.empty, []))
      \<lparr>dn_mode := Dl_WAIT, dn_lastBufferId := 1\<rparr>" "Buffer_new None 0 0" table_disk]
  by (auto simp: FileDownlink_new_def Buffer_new_def)

end
