(* ===== verification/File_Transfer.thy ===== *)
theory File_Transfer
  imports File_Downlink_Properties File_Uplink
begin

text \<open>
  A file on its way: \<open>FileDownlink\<close> turns a file into packets, \<open>FileUplink\<close> turns the packets into
  a file. The environment of the sender gives every buffer back after it has been taken over.
\<close>

section \<open>Chunks of a file\<close>

fun file_chunks :: "U8 list \<Rightarrow> U8 list list" where
  "file_chunks [] = []"
| "file_chunks (x # xs) = take 113 (x # xs) # file_chunks (drop 112 xs)"

lemma file_chunks_step: "c \<noteq> [] \<Longrightarrow> file_chunks c = take 113 c # file_chunks (drop 113 c)"
  by (cases c) (simp_all add: numeral_eq_Suc)

lemma file_chunks_concat: "concat (file_chunks c) = c"
  by (induction c rule: file_chunks.induct) (auto simp: numeral_eq_Suc)

lemma file_chunks_bounds: "\<forall>x \<in> set (file_chunks c). x \<noteq> [] \<and> length x \<le> 113"
  by (induction c rule: file_chunks.induct) auto

lemma drop_chunk: "drop n (drop m xs) = drop (m + length (take n (drop m xs))) xs"
  by (cases "m + n \<le> length xs") (simp_all add: add.commute)

section \<open>Sending one packet\<close>

fun sent_out :: "downlink_out \<Rightarrow> Fw_Buffer list" where
  "sent_out (Dn_bufferSendOut b) = [b]"
| "sent_out _ = []"

definition dn_sent :: "'k FileDownlink \<Rightarrow> Fw_Buffer list" where
  "dn_sent u = concat (map sent_out (dn_outs u))"

definition ready_buffer :: "U32 \<Rightarrow> Fw_Buffer \<Rightarrow> bool" where
  "ready_buffer context b \<longleftrightarrow> (\<exists>m. m_bufferData b = Some m \<and> length m = 124) \<and> m_size b = 124 \<and> m_context b = context"

lemma Buffer_setSize_sel [simp]:
  "m_bufferData (Buffer_setSize b n) = m_bufferData b" "m_size (Buffer_setSize b n) = n"
  "m_context (Buffer_setSize b n) = m_context b"
  by (simp_all add: Buffer_setSize_def)

lemma internal_size: "FILEDOWNLINK_INTERNAL_BUFFER_SIZE = 124"
  by (simp add: FILEDOWNLINK_INTERNAL_BUFFER_SIZE_def FW_COM_BUFFER_MAX_SIZE_def)

text \<open>A packet that fits goes out in a buffer that carries it; the component keeps its own buffer.\<close>

lemma sendFilePacket_ok:
  assumes "packet_ok p" "length (packet_image p) \<le> 124" "ready_buffer ctx (dn_buffer u)"
  obtains ms bf n b where "sendFilePacket p u = Some (u\<lparr>dn_memoryStore := ms, dn_buffer := bf, dn_packetsSent := n,
      dn_outs := dn_outs u @ [Dn_bufferSendOut b, Dn_Tlm_PacketsSent n]\<rparr>)"
    "carries b p" "m_context b = ctx" "ready_buffer ctx bf"
proof -
  obtain m where m: "m_bufferData (dn_buffer u) = Some m" "length m = 124" "m_size (dn_buffer u) = 124"
    "m_context (dn_buffer u) = ctx"
    using assms(3) by (auto simp: ready_buffer_def)
  obtain n where n: "FilePacket_bufferSize p = Some n" "unat n = length (packet_image p)"
    by (rule FilePacket_bufferSize_image [OF assms(1)])
  have nn: "n \<le> 124" using n(2) assms(2) by (simp add: word_le_nat_alt)
  have size: "length (packet_image p) \<le> unat (m_size (dn_buffer u))" "unat (m_size (dn_buffer u)) \<le> length m"
    "unat (m_size (dn_buffer u)) < 2147483648"
    using m assms(2) by simp_all
  obtain buf where buf: "FilePacket_toBuffer p (dn_buffer u) = Some (FW_SERIALIZE_OK, buf)"
    "m_bufferData buf = Some (packet_image p @ drop (length (packet_image p)) m)" "m_context buf = ctx"
    using FilePacket_toBuffer_room [OF assms(1) m(1) size] m(4) by auto
  let ?b = "Buffer_setSize buf n"
  let ?u = "u\<lparr>dn_memoryStore := (dn_memoryStore u)(FILE_PACKET := packet_image p @ drop (length (packet_image p)) m),
      dn_buffer := Buffer_setSize ?b 124, dn_packetsSent := dn_packetsSent u + 1,
      dn_outs := dn_outs u @ [Dn_bufferSendOut ?b, Dn_Tlm_PacketsSent (dn_packetsSent u + 1)]\<rparr>"
  show thesis
  proof (rule that)
    show "sendFilePacket p u = Some ?u"
      using n(1) m nn buf
      by (simp add: sendFilePacket_def dn_stored_def dn_emit_def dn_packetSent_def internal_size Let_def)
    show "carries ?b p"
      using assms(1,2) buf(2) n(2) m(2) by (simp add: carries_def buffer_bytes_def)
    show "m_context ?b = ctx" using buf(3) by simp
    show "ready_buffer ctx (Buffer_setSize ?b 124)"
      using buf(2,3) assms(2) m(2) by (simp add: ready_buffer_def)
  qed
qed

section \<open>Reading a chunk\<close>

lemma Downlink_File_read_ok:
  assumes "regular_disk C files fds" "m_mode (df_osFile f) \<noteq> OPEN_NO_MODE" "fds k (m_fd (df_osFile f)) = Some (name, pos)"
    and "files k name = Some c" "0 < n" "n \<le> 113" "off + n \<le> length c" "length c < 2147483648"
    and "df_checksum f = Checksum_of v"
  obtains k' where "Downlink_File_read C (of_nat off) (of_nat n) f k = Some (OP_OK, take n (drop off c),
      f\<lparr>df_checksum := Checksum_of (v + byte_sum off (take n (drop off c)))\<rparr>, k')"
    "files k' = files k" "fds k' (m_fd (df_osFile f)) = Some (name, off + n)"
proof -
  let ?f = "df_osFile f" and ?bs = "take n (drop off c)"
  have o: "unat (of_nat off :: U32) = off" using assms(7,8) by (intro unat_of_nat32) linarith
  have l: "unat (of_nat n :: U32) = n" using assms(6) by (intro unat_of_nat32) linarith
  have so: "sint (of_nat off :: U32) = int off" using assms(7,8) sint_small [of "of_nat off :: U32"] o by simp
  have sl: "sint (of_nat n :: U32) = int n" using assms(6) sint_small [of "of_nat n :: U32"] l by simp
  have len: "length ?bs = n" using assms(7) by simp
  obtain k1 where k1: "File_seek (kc_disk C) k ?f (int off) True = (OP_OK, ?f, k1)" "files k1 = files k"
    "fds k1 = (fds k)(m_fd ?f \<mapsto> (name, nat (int off)))"
    by (rule seek_rd [OF assms(1,3,2), of "int off"]) simp_all
  have p1: "fds k1 (m_fd ?f) = Some (name, off)" "files k1 name = Some c" using k1 assms(4) by simp_all
  obtain k2 where k2: "File_read_disk C k1 ?f (int n) True = Some (OP_OK, ?bs, int (length ?bs), ?f, k2)"
    "files k2 = files k1" "fds k2 = (fds k1)(m_fd ?f \<mapsto> (name, off + length ?bs))"
    by (rule read_rd [OF assms(1) p1 assms(2), of "int n" ?bs True]) (use assms(5,6) in simp_all)
  have "Checksum_update ?bs (of_nat off) (of_nat n) (Checksum_of v) = Some (add_sum off ?bs (Checksum_of v))"
    using Checksum_update_ok [of ?bs "of_nat n" "of_nat off" "Checksum_of v"] o l len assms(6) by simp
  then have cs: "Checksum_update ?bs (of_nat off) (of_nat n) (df_checksum f) = Some (Checksum_of (v + byte_sum off ?bs))"
    by (simp add: assms(9) add_sum_def Checksum_of_def)
  show thesis
  proof (rule that)
    show "Downlink_File_read C (of_nat off) (of_nat n) f k = Some (OP_OK, ?bs,
      f\<lparr>df_checksum := Checksum_of (v + byte_sum off ?bs)\<rparr>, k2)"
      using cs len by (simp add: Downlink_File_read_def so sl k1(1) k2(1))
    show "files k2 = files k" using k1(2) k2(2) by simp
    show "fds k2 (m_fd ?f) = Some (name, off + n)" using k2(3) len by simp
  qed
qed

section \<open>The state between two packets\<close>

text \<open>
  \<open>off\<close> bytes into the file, of which the part from \<open>start\<close> to \<open>stop\<close> is sent; \<open>ctx\<close> is the
  context of the component's buffer, \<open>i\<close> the next sequence index.
\<close>

definition sending ::
  "('k \<Rightarrow> string \<Rightarrow> U8 list option) \<Rightarrow> ('k \<Rightarrow> int \<Rightarrow> (string \<times> nat) option) \<Rightarrow> string \<Rightarrow> U8 list \<Rightarrow>
     nat \<Rightarrow> nat \<Rightarrow> U32 \<Rightarrow> nat \<Rightarrow> U32 \<Rightarrow> 'k FileDownlink \<Rightarrow> bool" where
  "sending files fds name c start stop ctx off i u \<longleftrightarrow>
     dn_mode u = Dl_WAIT \<and> dn_lastCompletedType u = (if off = stop then T_DATA else T_START) \<and>
     start \<le> off \<and> off \<le> stop \<and> stop \<le> length c \<and> length c < 2147483648 \<and>
     dn_byteOffset u = of_nat off \<and> dn_endOffset u = of_nat stop \<and> dn_sequenceIndex u = i \<and>
     dn_lastBufferId u = ctx + 1 \<and> ready_buffer ctx (dn_buffer u) \<and>
     m_mode (df_osFile (dn_file u)) \<noteq> OPEN_NO_MODE \<and>
     (\<exists>pos. fds (dn_disk u) (m_fd (df_osFile (dn_file u))) = Some (name, pos)) \<and>
     files (dn_disk u) name = Some c \<and>
     df_checksum (dn_file u) = Checksum_of (byte_sum start (drop start (take off c)))"

text \<open>What stays the same from the start packet to the end.\<close>

definition same_request :: "'k FileDownlink \<Rightarrow> 'k FileDownlink \<Rightarrow> bool" where
  "same_request u u' \<longleftrightarrow> dn_curEntry u' = dn_curEntry u \<and> dn_queue u' = dn_queue u \<and>
     df_sourceName (dn_file u') = df_sourceName (dn_file u) \<and> df_destName (dn_file u') = df_destName (dn_file u) \<and>
     dn_FileComplete_connected u' = dn_FileComplete_connected u"

lemma same_request_trans: "same_request u v \<Longrightarrow> same_request v w \<Longrightarrow> same_request u w"
  by (simp add: same_request_def)

lemma byte_sum_snoc_part:
  assumes "start \<le> off" "off + n \<le> length c"
  shows "byte_sum start (drop start (take off c)) + byte_sum off (take n (drop off c)) =
    byte_sum start (drop start (take (off + n) c))"
proof -
  have "drop start (take (off + n) c) = drop start (take off c) @ take n (drop off c)"
    using assms by (simp add: take_add)
  moreover have "start + length (drop start (take off c)) = off" using assms by simp
  ultimately show ?thesis using byte_sum_append [of start "drop start (take off c)" "take n (drop off c)"] by simp
qed

lemma send_data:
  assumes "regular_disk C files fds" "sending files fds name c start stop ctx off i u" "off < stop" "m_context b = ctx"
    and "bs = take 113 (drop off (take stop c))"
  obtains b' u' where "dn_bufferReturn_handler C b u = Some u'"
    "sending files fds name c start stop ctx (off + length bs) (i + 1) u'"
    "dn_sent u' = dn_sent u @ [b']" "m_context b' = ctx"
    "carries b' (FP_data (DataPacket_initialize i (of_nat off) (of_nat (length bs)) bs))"
    "same_request u u'" "files (dn_disk u') = files (dn_disk u)"
proof -
  define n where "n = min 113 (stop - off)"
  have s: "start \<le> off" "off \<le> stop" "stop \<le> length c" "length c < 2147483648" "dn_mode u = Dl_WAIT"
    "dn_lastCompletedType u = T_START" "dn_byteOffset u = of_nat off" "dn_endOffset u = of_nat stop"
    "dn_sequenceIndex u = i" "dn_lastBufferId u = ctx + 1" "ready_buffer ctx (dn_buffer u)"
    "m_mode (df_osFile (dn_file u)) \<noteq> OPEN_NO_MODE" "files (dn_disk u) name = Some c"
    "df_checksum (dn_file u) = Checksum_of (byte_sum start (drop start (take off c)))"
    using assms(2,3) by (simp_all add: sending_def)
  obtain pos where pos: "fds (dn_disk u) (m_fd (df_osFile (dn_file u))) = Some (name, pos)"
    using assms(2) by (auto simp: sending_def)
  have n: "0 < n" "n \<le> 113" "off + n \<le> length c" "off + n \<le> stop" using assms(3) s by (auto simp: n_def)
  have bs: "bs = take n (drop off c)" "length bs = n"
    using assms(3,5) s(3) by (auto simp: n_def drop_take min_def)
  have un: "unat (of_nat off :: U32) = off" "unat (of_nat stop :: U32) = stop" "unat (of_nat n :: U32) = n"
    using s n by (auto intro!: unat_of_nat32)
  have lt: "(of_nat off :: U32) < of_nat stop" using un assms(3) by (simp add: word_less_nat_alt)
  have sum: "unat (of_nat off + 113 :: U32) = off + 113" using un(1) s by (subst unat_add_small) simp_all
  have size: "(if (of_nat off :: U32) + 113 > of_nat stop then of_nat stop - of_nat off else 113) = (of_nat n :: U32)"
  proof (cases "stop < off + 113")
    case True
    then have "(of_nat n :: U32) = of_nat stop - of_nat off"
      unfolding n_def of_nat_diff [OF s(2), symmetric] by simp
    then show ?thesis using True sum un by (simp add: word_less_nat_alt)
  next
    case False
    then have "n = 113" by (simp add: n_def)
    then show ?thesis using False sum un by (simp add: word_less_nat_alt)
  qed
  have last: "(of_nat n + of_nat off :: U32) = of_nat stop \<longleftrightarrow> off + n = stop"
    using of_nat_eq_iff32 [of "n + off" stop] s n by (simp add: ac_simps)
  let ?u0 = "u\<lparr>dn_mode := Dl_DOWNLINK\<rparr>"
  let ?u1 = "?u0\<lparr>dn_lastCompletedType := if off + n = stop then T_DATA else T_START\<rparr>"
  have u1: "(if off + n = stop then ?u0\<lparr>dn_lastCompletedType := T_DATA\<rparr> else ?u0) = ?u1"
    using s(6) by (cases u) simp
  obtain k where k: "Downlink_File_read C (of_nat off) (of_nat n) (dn_file u) (dn_disk u) = Some (OP_OK, bs,
      (dn_file u)\<lparr>df_checksum := Checksum_of (byte_sum start (drop start (take off c)) + byte_sum off bs)\<rparr>, k)"
    "files k = files (dn_disk u)" "fds k (m_fd (df_osFile (dn_file u))) = Some (name, off + n)"
    unfolding bs(1)
    by (rule Downlink_File_read_ok [OF assms(1) s(12) pos s(13) n(1,2,3) s(4,14)])
  let ?f = "(dn_file u)\<lparr>df_checksum := Checksum_of (byte_sum start (drop start (take (off + n) c)))\<rparr>"
  have cs: "byte_sum start (drop start (take off c)) + byte_sum off bs = byte_sum start (drop start (take (off + n) c))"
    unfolding bs(1) by (rule byte_sum_snoc_part [OF s(1) n(3)])
  let ?p = "FP_data (DataPacket_initialize i (of_nat off) (of_nat (length bs)) bs)"
  have n16: "unat (of_nat n :: U16) = n" using n(2) by (simp add: unat_of_nat)
  then have p: "packet_ok ?p" "length (packet_image ?p) \<le> 124"
    using n(2) bs(2) by (simp_all add: DataPacket_initialize_def FP_Header_initialize_def)
  let ?u2 = "?u1\<lparr>dn_file := ?f, dn_disk := k, dn_sequenceIndex := i + 1\<rparr>"
  have rb: "ready_buffer ctx (dn_buffer ?u2)" using s(11) by simp
  obtain ms bf t b' where w: "sendFilePacket ?p ?u2 = Some (?u2\<lparr>dn_memoryStore := ms, dn_buffer := bf, dn_packetsSent := t,
      dn_outs := dn_outs ?u2 @ [Dn_bufferSendOut b', Dn_Tlm_PacketsSent t]\<rparr>)"
    "carries b' ?p" "m_context b' = ctx" "ready_buffer ctx bf"
    by (rule sendFilePacket_ok [OF p rb])
  define u' where "u' = ?u2\<lparr>dn_memoryStore := ms, dn_buffer := bf, dn_packetsSent := t,
      dn_outs := dn_outs u @ [Dn_bufferSendOut b', Dn_Tlm_PacketsSent t], dn_byteOffset := of_nat off + of_nat n,
      dn_mode := Dl_WAIT, dn_curTimer := 0\<rparr>"
  have pkt: "fromDataPacket \<lparr>dp_header = \<lparr>hdr_type = T_DATA, hdr_sequenceIndex = i\<rparr>, dp_byteOffset = of_nat off,
      dp_dataSize = ucast (of_nat n :: U32), dp_data = bs\<rparr> = ?p"
    using n(2) bs(2)
    by (simp add: fromDataPacket_def DataPacket_initialize_def FP_Header_initialize_def word_unat_eq_iff unat_ucast_mod un unat_of_nat)
  have data: "sendDataPacket C (u\<lparr>dn_mode := Dl_DOWNLINK\<rparr>) = Some (OP_OK, ?u2\<lparr>dn_memoryStore := ms, dn_buffer := bf,
      dn_packetsSent := t, dn_outs := dn_outs u @ [Dn_bufferSendOut b', Dn_Tlm_PacketsSent t],
      dn_byteOffset := of_nat off + of_nat n\<rparr>)"
    using w(1) lt size last k(1) pkt s(7-9) u1
    by (simp add: sendDataPacket_def Let_def internal_size DataPacket_HEADERSIZE_def cs bs(2) cong: if_cong)
  show thesis
  proof (rule that)
    show "dn_bufferReturn_handler C b u = Some u'"
      using data s by (simp add: dn_bufferReturn_handler_def downlinkPacket_def assms(4) u'_def)
    show "sending files fds name c start stop ctx (off + length bs) (i + 1) u'"
      using s n k w bs(2) by (auto simp: sending_def u'_def)
    show "dn_sent u' = dn_sent u @ [b']" by (simp add: u'_def dn_sent_def)
    show "m_context b' = ctx" "carries b' ?p" by (rule w)+
    show "same_request u u'" by (simp add: same_request_def u'_def)
    show "files (dn_disk u') = files (dn_disk u)" by (simp add: u'_def k(2))
  qed
qed

section \<open>Sending all of the data\<close>

text \<open>The receiver gives back the buffer it got last, \<open>n\<close> times.\<close>

fun downlink_exchange :: "'k kernel_calls \<Rightarrow> nat \<Rightarrow> 'k FileDownlink \<Rightarrow> 'k FileDownlink option" where
  "downlink_exchange C 0 u = Some u"
| "downlink_exchange C (Suc n) u = do {
     u \<leftarrow> dn_bufferReturn_handler C (last (dn_sent u)) u;
     downlink_exchange C n u
   }"

lemma downlink_exchange_add:
  "downlink_exchange C (m + n) u = Option.bind (downlink_exchange C m u) (downlink_exchange C n)"
  by (induction m arbitrary: u) (auto split: Option.bind_splits)

definition outstanding :: "U32 \<Rightarrow> 'k FileDownlink \<Rightarrow> bool" where
  "outstanding ctx u \<longleftrightarrow> dn_sent u \<noteq> [] \<and> m_context (last (dn_sent u)) = ctx"

lemma send_all:
  assumes "regular_disk C files fds" "sending files fds name c start stop ctx off i u" "outstanding ctx u"
    and "rest = drop off (take stop c)"
  shows "\<exists>u' bs. downlink_exchange C (length (file_chunks rest)) u = Some u' \<and>
    sending files fds name c start stop ctx stop (i + of_nat (length (file_chunks rest))) u' \<and>
    dn_sent u' = dn_sent u @ bs \<and> list_all2 carries bs (data_packets i off (file_chunks rest)) \<and>
    outstanding ctx u' \<and> same_request u u' \<and> files (dn_disk u') = files (dn_disk u)"
  using assms(2-)
proof (induction "length (file_chunks rest)" arbitrary: rest off i u)
  case 0
  have "rest = []" using 0(1) by (cases rest) auto
  moreover from this have "off = stop" using 0(2,4) by (auto simp: sending_def)
  ultimately show ?case using 0 by (auto simp: same_request_def)
next
  case (Suc n)
  have off: "off < stop" "rest \<noteq> []"
    using Suc(2-5) by (auto simp: sending_def) (metis (no_types, lifting) drop_eq_Nil2 file_chunks.simps(1) le_neq_implies_less length_take list.size(3) min.absorb2 old.nat.distinct(2))
  define bs where "bs = take 113 rest"
  have cx: "m_context (last (dn_sent u)) = ctx" and bsd: "bs = take 113 (drop off (take stop c))"
    using Suc(4,5) by (simp_all add: outstanding_def bs_def)
  obtain b u1 where u1: "dn_bufferReturn_handler C (last (dn_sent u)) u = Some u1"
    "sending files fds name c start stop ctx (off + length bs) (i + 1) u1"
    "dn_sent u1 = dn_sent u @ [b]" "m_context b = ctx"
    "carries b (FP_data (DataPacket_initialize i (of_nat off) (of_nat (length bs)) bs))"
    "same_request u u1" "files (dn_disk u1) = files (dn_disk u)"
    by (rule send_data [OF assms(1) Suc(3) off(1) cx bsd])
  have fc: "file_chunks rest = bs # file_chunks (drop 113 rest)"
    unfolding bs_def by (rule file_chunks_step [OF off(2)])
  have n: "n = length (file_chunks (drop 113 rest))" using Suc(2) fc by simp
  have dr: "drop 113 rest = drop (off + length bs) (take stop c)"
    unfolding bs_def Suc(5) by (rule drop_chunk)
  have o1: "outstanding ctx u1" using u1(3,4) by (simp add: outstanding_def)
  obtain u2 bs2 where "downlink_exchange C (length (file_chunks (drop 113 rest))) u1 = Some u2"
    "sending files fds name c start stop ctx stop (i + 1 + of_nat (length (file_chunks (drop 113 rest)))) u2"
    "dn_sent u2 = dn_sent u1 @ bs2" "list_all2 carries bs2 (data_packets (i + 1) (off + length bs) (file_chunks (drop 113 rest)))"
    "outstanding ctx u2" "same_request u1 u2" "files (dn_disk u2) = files (dn_disk u1)"
    using Suc(1) [OF n u1(2) o1 dr] by blast
  then show ?case
    using u1 fc same_request_trans [OF u1(6)]
    by (intro exI [of _ u2] exI [of _ "b # bs2"]) (simp add: add.assoc)
qed

section \<open>The end of a transfer\<close>

definition answer_of :: "bool list \<Rightarrow> FileEntry \<Rightarrow> downlink_out list" where
  "answer_of ports e = (if fe_source e = From_COMMAND then [Dn_cmdResponse (fe_opCode e) (fe_cmdSeq e) CmdResponse_OK]
     else fileComplete_loop 0 ports STATUS_OK (fe_context e))"

lemma sent_answer: "concat (map sent_out (answer_of ports e)) = []"
proof -
  have "concat (map sent_out (fileComplete_loop i ports r x)) = []" for i r x
    by (induction i ports r x rule: fileComplete_loop.induct) auto
  then show ?thesis by (simp add: answer_of_def)
qed

lemma files_enterCooldown:
  assumes "regular_disk C files fds"
  shows "files (dn_disk (enterCooldown C u)) = files (dn_disk u)"
  using close_rd(1) [OF assms, of "dn_disk u" "df_osFile (dn_file u)"]
  by (cases "File_close_write (kc_disk C) (dn_disk u) (df_osFile (dn_file u))") (simp add: enterCooldown_def)

lemma send_end:
  assumes "regular_disk C files fds" "sending files fds name c start stop ctx stop i u" "outstanding ctx u"
  shows "\<exists>u' b out. downlink_exchange C 2 u = Some u' \<and> dn_mode u' = Dl_COOLDOWN \<and>
    dn_sent u' = dn_sent u @ [b] \<and>
    carries b (FP_end \<lparr>ep_header = \<lparr>hdr_type = T_END, hdr_sequenceIndex = i\<rparr>,
      ep_checksumValue = byte_sum start (drop start (take stop c))\<rparr>) \<and>
    dn_queue u' = dn_queue u \<and> files (dn_disk u') = files (dn_disk u) \<and>
    dn_outs u' = out @ [Dn_FileSent (df_sourceName (dn_file u)) (df_destName (dn_file u))] @
      answer_of (dn_FileComplete_connected u) (dn_curEntry u)"
proof -
  let ?p = "FP_end \<lparr>ep_header = \<lparr>hdr_type = T_END, hdr_sequenceIndex = i\<rparr>,
      ep_checksumValue = byte_sum start (drop start (take stop c))\<rparr>"
  let ?u0 = "u\<lparr>dn_mode := Dl_DOWNLINK\<rparr>"
  have s: "dn_mode u = Dl_WAIT" "dn_lastCompletedType u = T_DATA" "dn_sequenceIndex u = i" "dn_lastBufferId u = ctx + 1"
    "df_checksum (dn_file u) = Checksum_of (byte_sum start (drop start (take stop c)))" "m_context (last (dn_sent u)) = ctx"
    using assms(2,3) by (simp_all add: sending_def outstanding_def)
  have rb: "ready_buffer ctx (dn_buffer ?u0)" using assms(2) by (simp add: sending_def)
  have p: "packet_ok ?p" "length (packet_image ?p) \<le> 124" by simp_all
  obtain ms bf t b where w: "sendFilePacket ?p ?u0 = Some (?u0\<lparr>dn_memoryStore := ms, dn_buffer := bf, dn_packetsSent := t,
      dn_outs := dn_outs ?u0 @ [Dn_bufferSendOut b, Dn_Tlm_PacketsSent t]\<rparr>)"
    "carries b ?p" "m_context b = ctx" "ready_buffer ctx bf"
    by (rule sendFilePacket_ok [OF p rb])
  define v where "v = u\<lparr>dn_mode := Dl_WAIT, dn_memoryStore := ms, dn_buffer := bf, dn_packetsSent := t,
      dn_outs := dn_outs u @ [Dn_bufferSendOut b, Dn_Tlm_PacketsSent t], dn_lastCompletedType := T_END, dn_curTimer := 0\<rparr>"
  have step1: "dn_bufferReturn_handler C (last (dn_sent u)) u = Some v"
    using s w(1)
    by (simp add: dn_bufferReturn_handler_def downlinkPacket_def sendEndPacket_def fromEndPacket_def setChecksum_def
        Checksum_of_def Checksum_getValue_def v_def)
  have v: "dn_sent v = dn_sent u @ [b]" "dn_mode v = Dl_WAIT" "dn_lastCompletedType v = T_END" "dn_lastBufferId v = ctx + 1"
    by (simp_all add: v_def dn_sent_def s(4))
  define w where "w = dn_emit (Dn_FileSent (df_sourceName (dn_file v)) (df_destName (dn_file v))) (dn_fileSent v)"
  have step2: "dn_bufferReturn_handler C b v = Some (dn_sendResponse STATUS_OK (enterCooldown C w))"
    using v(2-4) \<open>m_context b = ctx\<close> by (simp add: dn_bufferReturn_handler_def finishHelper_def w_def Let_def)
  have ex: "downlink_exchange C 2 u = Some (dn_sendResponse STATUS_OK (enterCooldown C w))"
    using step1 step2 v(1) by (simp add: numeral_2_eq_2)
  have cool: "dn_curEntry (enterCooldown C w) = dn_curEntry u" "dn_FileComplete_connected (enterCooldown C w) = dn_FileComplete_connected u"
    "dn_queue (enterCooldown C w) = dn_queue u"
    "dn_outs (enterCooldown C w) = dn_outs u @ [Dn_bufferSendOut b, Dn_Tlm_PacketsSent t, Dn_Tlm_FilesSent (dn_filesSent u + 1)]
       @ [Dn_FileSent (df_sourceName (dn_file u)) (df_destName (dn_file u))]"
    by (simp_all add: enterCooldown_def w_def v_def dn_emit_def dn_fileSent_def Let_def split: prod.split)
  have resp: "dn_outs (dn_sendResponse STATUS_OK x) = dn_outs x @ answer_of (dn_FileComplete_connected x) (dn_curEntry x)"
    "dn_queue (dn_sendResponse STATUS_OK x) = dn_queue x" "dn_disk (dn_sendResponse STATUS_OK x) = dn_disk x" for x :: "'a FileDownlink"
    by (simp_all add: dn_sendResponse_def answer_of_def dn_emit_def statusToCmdResp_def)
  have disk: "files (dn_disk w) = files (dn_disk u)" by (simp add: w_def v_def dn_emit_def dn_fileSent_def Let_def)
  have snt: "dn_sent (dn_sendResponse STATUS_OK (enterCooldown C w)) = dn_sent u @ [b]"
    by (simp add: dn_sent_def resp cool sent_answer)
  show ?thesis
    unfolding ex using w(2) snt disk files_enterCooldown [OF assms(1), of w]
    by (intro exI [of _ "dn_sendResponse STATUS_OK (enterCooldown C w)"] exI [of _ b]
        exI [of _ "dn_outs u @ [Dn_bufferSendOut b, Dn_Tlm_PacketsSent t, Dn_Tlm_FilesSent (dn_filesSent u + 1)]"])
      (simp add: resp cool)
qed

section \<open>The start of a transfer\<close>

definition start_packet :: "U8 list \<Rightarrow> U8 list \<Rightarrow> U32 \<Rightarrow> FilePacket" where
  "start_packet src dest n = FP_start \<lparr>sp_header = \<lparr>hdr_type = T_START, hdr_sequenceIndex = 0\<rparr>, sp_fileSize = n,
     sp_sourcePath = path_name src, sp_destinationPath = path_name dest\<rparr>"

lemma LogStringArg_of_bounds:
  "0 \<notin> set (Fw_Strings.LogStringArg_of s)" "length (Fw_Strings.LogStringArg_of s) \<le> 99"
  using C_string_no_null [of s]
  by (auto simp: Fw_Strings.LogStringArg_of_def FW_LOG_STRING_MAX_SIZE_def dest: in_set_takeD)

lemma PathName_initialize_ok:
  assumes "0 \<notin> set s" "length s \<le> 99"
  shows "PathName_initialize (Some (s @ [0])) = Some \<lparr>pn_length = of_nat (length s), pn_value = s @ [0]\<rparr>"
proof -
  have "C_string (s @ [0]) = s" using assms(1) by (rule C_string_ended)
  then have "string_length (Some (s @ [0])) PathName_MAX_LENGTH = Some (of_nat (length s))"
    using assms(2) by (simp add: string_length_eq PathName_MAX_LENGTH_def min_absorb2)
  moreover have "unat (of_nat (length s) :: U32) = length s" using assms(2) by (intro unat_of_nat32) simp
  ultimately show ?thesis
    by (simp add: PathName_initialize_def word_unat_eq_iff unat_ucast_mod unat_of_nat)
qed

lemma carries_cong: "carries b p \<Longrightarrow> packet_ok q \<Longrightarrow> packet_image q = packet_image p \<Longrightarrow> carries b q"
  by (simp add: carries_def)

lemma sendStartPacket_ok:
  assumes "df_sourceName (dn_file u) = Fw_Strings.LogStringArg_of s" "df_destName (dn_file u) = Fw_Strings.LogStringArg_of d"
    and "src = Fw_Strings.LogStringArg_of s" "dest = Fw_Strings.LogStringArg_of d"
    and "length src + length dest \<le> 113" "ready_buffer ctx (dn_buffer u)"
  obtains ms bf n b where "sendStartPacket u = Some (u\<lparr>dn_memoryStore := ms, dn_buffer := bf, dn_packetsSent := n,
      dn_outs := dn_outs u @ [Dn_bufferSendOut b, Dn_Tlm_PacketsSent n]\<rparr>)"
    "carries b (start_packet src dest (df_size (dn_file u)))" "m_context b = ctx" "ready_buffer ctx bf"
proof -
  let ?q = "start_packet src dest (df_size (dn_file u))"
  let ?p = "FP_start \<lparr>sp_header = \<lparr>hdr_type = T_START, hdr_sequenceIndex = 0\<rparr>, sp_fileSize = df_size (dn_file u),
      sp_sourcePath = \<lparr>pn_length = of_nat (length src), pn_value = src @ [0]\<rparr>,
      sp_destinationPath = \<lparr>pn_length = of_nat (length dest), pn_value = dest @ [0]\<rparr>\<rparr>"
  have b: "0 \<notin> set src" "length src \<le> 99" "0 \<notin> set dest" "length dest \<le> 99"
    using LogStringArg_of_bounds by (simp_all add: assms(3,4))
  have l: "unat (of_nat (length src) :: U8) = length src" "unat (of_nat (length dest) :: U8) = length dest"
    using b by (simp_all add: unat_of_nat)
  have p: "packet_ok ?p" using l by (simp add: path_ok_def)
  have len: "length (packet_image ?p) \<le> 124" using assms(5) l by (simp add: path_image_def)
  have q: "packet_ok ?q" "packet_image ?q = packet_image ?p"
    using l by (simp_all add: start_packet_def path_ok_def path_name_def path_image_def)
  have init: "sendStartPacket u = sendFilePacket ?p u"
    using b assms(1-4) by (simp add: sendStartPacket_def StartPacket_initialize_def PathName_initialize_ok fromStartPacket_def)
  obtain ms bf n b where "sendFilePacket ?p u = Some (u\<lparr>dn_memoryStore := ms, dn_buffer := bf, dn_packetsSent := n,
      dn_outs := dn_outs u @ [Dn_bufferSendOut b, Dn_Tlm_PacketsSent n]\<rparr>)"
    "carries b ?p" "m_context b = ctx" "ready_buffer ctx bf"
    by (rule sendFilePacket_ok [OF p len assms(6)])
  then show thesis using that carries_cong [OF _ q] unfolding init by blast
qed

text \<open>The file is open at its start and nothing of it has been sent.\<close>

definition opened ::
  "('k \<Rightarrow> string \<Rightarrow> U8 list option) \<Rightarrow> ('k \<Rightarrow> int \<Rightarrow> (string \<times> nat) option) \<Rightarrow> string \<Rightarrow> U8 list \<Rightarrow>
     U8 list \<Rightarrow> U8 list \<Rightarrow> Downlink_File \<Rightarrow> 'k \<Rightarrow> bool" where
  "opened files fds name c s d f k \<longleftrightarrow>
     df_sourceName f = Fw_Strings.LogStringArg_of s \<and> df_destName f = Fw_Strings.LogStringArg_of d \<and>
     df_size f = of_nat (length c) \<and> df_checksum f = Checksum_of 0 \<and> m_mode (df_osFile f) \<noteq> OPEN_NO_MODE \<and>
     fds k (m_fd (df_osFile f)) = Some (name, 0) \<and> files k name = Some c"

lemma Downlink_File_open_ok:
  assumes "regular_disk C files fds" "files k (path_string s) = Some c" "length c < 2147483648"
  obtains f' k' where "Downlink_File_open C s d f k = Some (OP_OK, f', k')" "files k' = files k"
    "opened files fds (path_string s) c s d f' k'"
proof -
  obtain k1 where k1: "getFileSize C (path_string s) k = (Inr (of_nat (length c)), k1)" "files k1 = files k"
    by (rule getFileSize_rd [OF assms(1,2)]) blast
  have c1: "files k1 (path_string s) = Some c" using k1(2) assms(2) by simp
  let ?f = "f\<lparr>df_sourceName := Fw_Strings.LogStringArg_of s, df_destName := Fw_Strings.LogStringArg_of d,
      df_size := ucast (of_nat (length c) :: U64), df_checksum := Checksum_of 0\<rparr>"
  obtain fd k2 where k2: "File_open_write (kc_disk C) k1 (df_osFile f) (path_string s) OPEN_READ True =
      Some (OP_OK, (df_osFile f)\<lparr>m_mode := OPEN_READ, m_fd := fd, m_pos := 0\<rparr>, k2)"
    "files k2 = files k1" "fds k2 = (fds k1)(fd \<mapsto> (path_string s, 0))"
    by (rule open_read_rd [OF assms(1) c1])
  have sz: "(ucast (of_nat (length c) :: U64) :: U32) = of_nat (length c)"
    using assms(3) by (simp add: word_unat_eq_iff unat_ucast_mod unat_of_nat)
  show thesis
  proof (rule that)
    show "Downlink_File_open C s d f k = Some (OP_OK, ?f\<lparr>df_osFile := (df_osFile f)\<lparr>m_mode := OPEN_READ, m_fd := fd, m_pos := 0\<rparr>\<rparr>, k2)"
      by (simp add: Downlink_File_open_def k1(1) k2(1) Let_def Checksum_assign_def Checksum_new_def Checksum_of_def)
    show "files k2 = files k" using k1 k2 by simp
    show "opened files fds (path_string s) c s d (?f\<lparr>df_osFile := (df_osFile f)\<lparr>m_mode := OPEN_READ, m_fd := fd, m_pos := 0\<rparr>\<rparr>) k2"
      using k1 k2 assms(2) sz by (simp add: opened_def)
  qed
qed

lemma ready_getBuffer:
  assumes "length (dn_memoryStore u t) = 124"
  shows "ready_buffer (dn_lastBufferId u) (fst (dn_getBuffer b t u))"
  using assms by (simp add: ready_buffer_def dn_getBuffer_def Buffer_setContext_def Buffer_setData_def internal_size Let_def)

lemma sendFile_start_run:
  assumes "opened files fds name c s d (dn_file u) (dn_disk u)" "length (dn_memoryStore u FILE_PACKET) = 124"
    and "src = Fw_Strings.LogStringArg_of s" "dest = Fw_Strings.LogStringArg_of d" "length src + length dest \<le> 113"
  obtains ms bf n b ev where "sendFile_start start len u = Some (u\<lparr>dn_lastBufferId := dn_lastBufferId u + 1,
      dn_memoryStore := ms, dn_buffer := bf, dn_packetsSent := n,
      dn_outs := dn_outs u @ [Dn_bufferSendOut b, Dn_Tlm_PacketsSent n, ev], dn_mode := Dl_WAIT, dn_sequenceIndex := 1,
      dn_curTimer := 0, dn_byteOffset := start, dn_lastCompletedType := T_START,
      dn_endOffset := if len > 0 then start + len else of_nat (length c)\<rparr>)"
    "carries b (start_packet src dest (of_nat (length c)))" "m_context b = dn_lastBufferId u"
    "ready_buffer (dn_lastBufferId u) bf" "sent_out ev = []"
proof -
  let ?ctx = "dn_lastBufferId u"
  obtain buf where buf: "dn_getBuffer (dn_buffer u) FILE_PACKET u = (buf, u\<lparr>dn_lastBufferId := ?ctx + 1\<rparr>)"
    by (simp add: dn_getBuffer_def Let_def)
  let ?u = "u\<lparr>dn_lastBufferId := ?ctx + 1, dn_buffer := buf\<rparr>"
  have rb: "ready_buffer ?ctx (dn_buffer ?u)" using ready_getBuffer [OF assms(2), of "dn_buffer u"] buf by simp
  have names: "df_sourceName (dn_file ?u) = Fw_Strings.LogStringArg_of s" "df_destName (dn_file ?u) = Fw_Strings.LogStringArg_of d"
    and size: "df_size (dn_file u) = of_nat (length c)"
    using assms(1) by (simp_all add: opened_def)
  obtain ms bf n b where w: "sendStartPacket ?u = Some (?u\<lparr>dn_memoryStore := ms, dn_buffer := bf, dn_packetsSent := n,
      dn_outs := dn_outs ?u @ [Dn_bufferSendOut b, Dn_Tlm_PacketsSent n]\<rparr>)"
    "carries b (start_packet src dest (df_size (dn_file ?u)))" "m_context b = ?ctx" "ready_buffer ?ctx bf"
    by (rule sendStartPacket_ok [OF names assms(3-5) rb])
  let ?ev = "Dn_SendStarted (if len > 0 then len else of_nat (length c) - start) (df_sourceName (dn_file u)) (df_destName (dn_file u))"
  have run: "sendFile_start start len u = Some (u\<lparr>dn_lastBufferId := ?ctx + 1, dn_memoryStore := ms, dn_buffer := bf,
      dn_packetsSent := n, dn_outs := dn_outs u @ [Dn_bufferSendOut b, Dn_Tlm_PacketsSent n, ?ev], dn_mode := Dl_WAIT,
      dn_sequenceIndex := 1, dn_curTimer := 0, dn_byteOffset := start, dn_lastCompletedType := T_START,
      dn_endOffset := if len > 0 then start + len else of_nat (length c)\<rparr>)"
    using w(1) buf size by (cases "len > 0") (simp_all add: sendFile_start_def Let_def dn_emit_def)
  have "carries b (start_packet src dest (of_nat (length c)))" using w(2) size by simp
  from that [OF run this w(3,4)] show thesis by simp
qed

lemma sendFile_start_ok:
  assumes "opened files fds name c s d (dn_file u) (dn_disk u)" "length (dn_memoryStore u FILE_PACKET) = 124"
    and "src = Fw_Strings.LogStringArg_of s" "dest = Fw_Strings.LogStringArg_of d" "length src + length dest \<le> 113"
    and "unat start < stop" "stop \<le> length c" "length c < 2147483648"
    and "(if len > 0 then start + len else of_nat (length c)) = of_nat stop"
  obtains u' b where "sendFile_start start len u = Some u'"
    "sending files fds name c (unat start) stop (dn_lastBufferId u) (unat start) 1 u'"
    "dn_sent u' = dn_sent u @ [b]" "m_context b = dn_lastBufferId u"
    "carries b (start_packet src dest (of_nat (length c)))"
    "dn_curEntry u' = dn_curEntry u" "dn_queue u' = dn_queue u" "dn_file u' = dn_file u" "dn_disk u' = dn_disk u"
    "dn_FileComplete_connected u' = dn_FileComplete_connected u"
proof -
  obtain ms bf n b ev where run: "sendFile_start start len u = Some (u\<lparr>dn_lastBufferId := dn_lastBufferId u + 1,
      dn_memoryStore := ms, dn_buffer := bf, dn_packetsSent := n,
      dn_outs := dn_outs u @ [Dn_bufferSendOut b, Dn_Tlm_PacketsSent n, ev], dn_mode := Dl_WAIT, dn_sequenceIndex := 1,
      dn_curTimer := 0, dn_byteOffset := start, dn_lastCompletedType := T_START,
      dn_endOffset := if len > 0 then start + len else of_nat (length c)\<rparr>)"
    and b: "carries b (start_packet src dest (of_nat (length c)))" "m_context b = dn_lastBufferId u"
    "ready_buffer (dn_lastBufferId u) bf" "sent_out ev = []"
    by (rule sendFile_start_run [OF assms(1-5)])
  show thesis
    by (rule that [OF run _ _ b(2,1)])
      (use assms(1,6-9) b(3,4) in \<open>auto simp: sending_def opened_def dn_sent_def\<close>)
qed

section \<open>A whole downlink\<close>

definition part_end :: "nat \<Rightarrow> nat \<Rightarrow> nat \<Rightarrow> nat" where
  "part_end fileSize start len = (if len = 0 then fileSize else min (start + len) fileSize)"

lemma sendFile_ok:
  assumes "regular_disk C files fds" "files (dn_disk u) (path_string s) = Some c" "length c < 2147483648"
    and "unat start < length c" "unat start + unat len < 4294967296" "stop = part_end (length c) (unat start) (unat len)"
    and "length (dn_memoryStore u FILE_PACKET) = 124"
    and "src = Fw_Strings.LogStringArg_of s" "dest = Fw_Strings.LogStringArg_of d" "length src + length dest \<le> 113"
  obtains u' b where "sendFile C s d start len u = Some u'"
    "sending files fds (path_string s) c (unat start) stop (dn_lastBufferId u) (unat start) 1 u'"
    "dn_sent u' = dn_sent u @ [b]" "m_context b = dn_lastBufferId u"
    "carries b (start_packet src dest (of_nat (length c)))"
    "dn_curEntry u' = dn_curEntry u" "dn_queue u' = dn_queue u" "files (dn_disk u') = files (dn_disk u)"
    "df_sourceName (dn_file u') = src" "df_destName (dn_file u') = dest"
    "dn_FileComplete_connected u' = dn_FileComplete_connected u"
proof -
  obtain f k where f: "Downlink_File_open C s d (dn_file u) (dn_disk u) = Some (OP_OK, f, k)" "files k = files (dn_disk u)"
    "opened files fds (path_string s) c s d f k"
    by (rule Downlink_File_open_ok [OF assms(1-3)])
  have size: "df_size f = of_nat (length c)" "unat (of_nat (length c) :: U32) = length c"
    and names: "df_sourceName f = src" "df_destName f = dest"
    using f(3) assms(3,8,9) by (simp_all add: opened_def unat_of_nat32)
  have in_file: "\<not> start \<ge> df_size f" using assms(4) size by (simp add: word_le_nat_alt)
  have sum: "unat (start + len) = unat start + unat len" using assms(5) by (simp add: unat_add_small)
  let ?u = "u\<lparr>dn_file := f, dn_disk := k\<rparr>"
  let ?long = "start + len > df_size f"
  define v where "v = (if ?long then dn_emit (Dn_DownlinkPartialWarning start len (df_size f) src dest) ?u else ?u)"
  define l where "l = (if ?long then df_size f - start else len)"
  have vs: "dn_lastBufferId v = dn_lastBufferId u" "dn_sent v = dn_sent u" "dn_curEntry v = dn_curEntry u"
    "dn_queue v = dn_queue u" "dn_file v = f" "dn_disk v = k" "dn_FileComplete_connected v = dn_FileComplete_connected u"
    "dn_memoryStore v = dn_memoryStore u"
    by (simp_all add: v_def dn_emit_def dn_sent_def)
  have v: "opened files fds (path_string s) c s d (dn_file v) (dn_disk v)" "length (dn_memoryStore v FILE_PACKET) = 124"
    using f(3) assms(7) by (simp_all add: vs)
  have stop: "unat start < stop" "stop \<le> length c"
    using assms(4,6) by (auto simp: part_end_def)
  have "(if l > 0 then start + l else of_nat (length c)) = of_nat stop"
  proof (cases ?long)
    case True
    then have "stop = length c" using assms(4,6) sum size by (auto simp: part_end_def word_less_nat_alt)
    moreover have "start < df_size f" using in_file by simp
    then have "df_size f - start > 0" by (simp add: word_greater_zero_iff)
    ultimately show ?thesis using True size by (simp add: l_def)
  next
    case False
    then have "stop = (if unat len = 0 then length c else unat start + unat len)"
      using assms(6) sum size by (auto simp: part_end_def word_less_nat_alt)
    then show ?thesis using False by (auto simp: l_def word_greater_zero_iff unat_eq_0)
  qed
  then obtain u' b where u': "sendFile_start start l v = Some u'"
    "sending files fds (path_string s) c (unat start) stop (dn_lastBufferId v) (unat start) 1 u'"
    "dn_sent u' = dn_sent v @ [b]" "m_context b = dn_lastBufferId v"
    "carries b (start_packet src dest (of_nat (length c)))"
    "dn_curEntry u' = dn_curEntry v" "dn_queue u' = dn_queue v" "dn_file u' = dn_file v" "dn_disk u' = dn_disk v"
    "dn_FileComplete_connected u' = dn_FileComplete_connected v"
    by (rule sendFile_start_ok [OF v assms(8-10) stop assms(3)])
  have "sendFile C s d start len u = Some u'"
    using u'(1) f(1) in_file names by (cases ?long) (simp_all add: sendFile_def v_def l_def Let_def)
  then show thesis
    by (rule that) (use u'(2-) f(2) names vs in simp_all)
qed

definition downlink_packets :: "U8 list \<Rightarrow> U8 list \<Rightarrow> U32 \<Rightarrow> nat \<Rightarrow> U8 list \<Rightarrow> FilePacket list" where
  "downlink_packets src dest n start data =
     start_packet src dest n # data_packets 1 start (file_chunks data) @
     [FP_end \<lparr>ep_header = \<lparr>hdr_type = T_END, hdr_sequenceIndex = of_nat (length (file_chunks data)) + 1\<rparr>,
        ep_checksumValue = byte_sum start data\<rparr>]"

text \<open>
  A component that is idle, with a request for a file on a regular disk at the head of its queue:
  the part asked for is from \<open>start\<close> to \<open>stop\<close> in the contents \<open>c\<close>.
\<close>

definition ready_to_send where
  "ready_to_send C files fds e q c u \<longleftrightarrow> regular_disk C files fds \<and> dn_mode u = Dl_IDLE \<and> dn_queue u = Some (e # q) \<and>
     files (dn_disk u) (path_string (fe_srcFilename e)) = Some c \<and> length c < 2147483648 \<and>
     length (dn_memoryStore u FILE_PACKET) = 124 \<and> unat (fe_offset e) < length c \<and>
     length (Fw_Strings.LogStringArg_of (fe_srcFilename e)) + length (Fw_Strings.LogStringArg_of (fe_destFilename e)) \<le> 113"

lemma whole_downlink:
  assumes "ready_to_send C files fds e q c u" "unat (fe_offset e) + unat (fe_length e) < 4294967296"
    and "src = Fw_Strings.LogStringArg_of (fe_srcFilename e)" "dest = Fw_Strings.LogStringArg_of (fe_destFilename e)"
    and "data = drop (unat (fe_offset e)) (take (part_end (length c) (unat (fe_offset e)) (unat (fe_length e))) c)"
  shows "\<exists>u' bs out. Option.bind (dn_Run_handler C u) (downlink_exchange C (length (file_chunks data) + 2)) = Some u' \<and>
    dn_mode u' = Dl_COOLDOWN \<and> dn_queue u' = Some q \<and> files (dn_disk u') = files (dn_disk u) \<and>
    dn_sent u' = dn_sent u @ bs \<and>
    list_all2 carries bs (downlink_packets src dest (of_nat (length c)) (unat (fe_offset e)) data) \<and>
    dn_outs u' = out @ [Dn_FileSent src dest] @ answer_of (dn_FileComplete_connected u) e"
proof -
  have r: "regular_disk C files fds" "dn_mode u = Dl_IDLE" "dn_queue u = Some (e # q)"
    "files (dn_disk u) (path_string (fe_srcFilename e)) = Some c" "length c < 2147483648"
    "length (dn_memoryStore u FILE_PACKET) = 124" "unat (fe_offset e) < length c" "length src + length dest \<le> 113"
    using assms(1,3,4) by (simp_all add: ready_to_send_def)
  let ?u0 = "u\<lparr>dn_queue := Some q, dn_curEntry := e\<rparr>" and ?start = "unat (fe_offset e)"
  define stop where "stop = part_end (length c) ?start (unat (fe_length e))"
  have d0: "files (dn_disk ?u0) (path_string (fe_srcFilename e)) = Some c" and m0: "length (dn_memoryStore ?u0 FILE_PACKET) = 124"
    using r by simp_all
  obtain u1 b1 where u1: "sendFile C (fe_srcFilename e) (fe_destFilename e) (fe_offset e) (fe_length e) ?u0 = Some u1"
    "sending files fds (path_string (fe_srcFilename e)) c ?start stop (dn_lastBufferId ?u0) ?start 1 u1"
    "dn_sent u1 = dn_sent ?u0 @ [b1]" "m_context b1 = dn_lastBufferId ?u0"
    "carries b1 (start_packet src dest (of_nat (length c)))"
    "dn_curEntry u1 = dn_curEntry ?u0" "dn_queue u1 = dn_queue ?u0" "files (dn_disk u1) = files (dn_disk ?u0)"
    "df_sourceName (dn_file u1) = src" "df_destName (dn_file u1) = dest"
    "dn_FileComplete_connected u1 = dn_FileComplete_connected ?u0"
    by (rule sendFile_ok [OF r(1) d0 r(5,7) assms(2) stop_def m0 assms(3,4) r(8)])
  have run: "dn_Run_handler C u = Some u1" using u1(1) r(2,3) by (simp add: dn_Run_handler_def)
  have o1: "outstanding (dn_lastBufferId ?u0) u1" using u1(3,4) by (simp add: outstanding_def)
  have data: "data = drop ?start (take stop c)" using assms(5) by (simp add: stop_def)
  obtain u2 bs where u2: "downlink_exchange C (length (file_chunks data)) u1 = Some u2"
    "sending files fds (path_string (fe_srcFilename e)) c ?start stop (dn_lastBufferId ?u0) stop (1 + of_nat (length (file_chunks data))) u2"
    "dn_sent u2 = dn_sent u1 @ bs" "list_all2 carries bs (data_packets 1 ?start (file_chunks data))"
    "outstanding (dn_lastBufferId ?u0) u2" "same_request u1 u2" "files (dn_disk u2) = files (dn_disk u1)"
    using send_all [OF r(1) u1(2) o1 data] by blast
  obtain u3 b3 out where u3: "downlink_exchange C 2 u2 = Some u3" "dn_mode u3 = Dl_COOLDOWN" "dn_sent u3 = dn_sent u2 @ [b3]"
    "carries b3 (FP_end \<lparr>ep_header = \<lparr>hdr_type = T_END, hdr_sequenceIndex = 1 + of_nat (length (file_chunks data))\<rparr>,
      ep_checksumValue = byte_sum ?start (drop ?start (take stop c))\<rparr>)"
    "dn_queue u3 = dn_queue u2" "files (dn_disk u3) = files (dn_disk u2)"
    "dn_outs u3 = out @ [Dn_FileSent (df_sourceName (dn_file u2)) (df_destName (dn_file u2))] @
      answer_of (dn_FileComplete_connected u2) (dn_curEntry u2)"
    using send_end [OF r(1) u2(2,5)] by blast
  have ports: "dn_FileComplete_connected u2 = dn_FileComplete_connected u1"
    using u2(6) by (simp add: same_request_def)
  have "Option.bind (dn_Run_handler C u) (downlink_exchange C (length (file_chunks data) + 2)) = Some u3"
    unfolding downlink_exchange_add run using u2(1) u3(1) by simp
  moreover have "dn_sent u3 = dn_sent u @ b1 # bs @ [b3]"
    using u1(3) u2(3) u3(3) by (simp add: dn_sent_def)
  moreover have "list_all2 carries (b1 # bs @ [b3]) (downlink_packets src dest (of_nat (length c)) ?start data)"
    using u1(5) u2(4) u3(4) data
    by (simp add: downlink_packets_def add.commute list_all2_append list_all2_lengthD)
  moreover have "dn_outs u3 = out @ [Dn_FileSent src dest] @ answer_of (dn_FileComplete_connected u) e"
    using u3(7) u2(6) u1 ports by (simp add: same_request_def)
  moreover have "dn_queue u3 = Some q" "files (dn_disk u3) = files (dn_disk u)"
    using u3(5,6) u2(6,7) u1(7,8) by (simp_all add: same_request_def)
  ultimately show ?thesis using u3(2) by blast
qed

definition one_request :: "U32 \<Rightarrow> U32 \<Rightarrow> FileEntry" where
  "one_request offset len = \<lparr>fe_srcFilename = [97, 0], fe_destFilename = [98, 0], fe_offset = offset, fe_length = len,
     fe_source = From_COMMAND, fe_opCode = 3, fe_cmdSeq = 7, fe_context = 0xFFFFFFFF\<rparr>"

definition requested :: "FileEntry \<Rightarrow> table_disk_state FileDownlink" where
  "requested e = (FileDownlink_new [True] (\<lambda>_. replicate 124 0) (Map.empty(''a'' \<mapsto> [1, 2, 3]), []))
     \<lparr>dn_queue := Some [e], dn_queueDepth := 1\<rparr>"

lemma one_request_names:
  "path_string (fe_srcFilename (one_request a b)) = ''a''"
  "Fw_Strings.LogStringArg_of (fe_srcFilename (one_request a b)) = [97]"
  "Fw_Strings.LogStringArg_of (fe_destFilename (one_request a b)) = [98]"
  by (simp_all add: one_request_def path_string_def Fw_Strings.LogStringArg_of_def FW_LOG_STRING_MAX_SIZE_def)
    code_simp

lemma requested_ready:
  "unat off < 3 \<Longrightarrow> ready_to_send table_disk fst td_fds (one_request off len) [] [1, 2, 3] (requested (one_request off len))"
  by (simp add: ready_to_send_def table_disk_regular requested_def FileDownlink_new_def one_request_names)
    (simp add: one_request_def)

text \<open>
  C8: a request for a part of a file, or for all of it, is carried out completely. The component is idle, the file is on a
  regular disk and has less than 2^31 bytes, the offset lies inside it (so it is not empty) and offset plus length do
  not pass 2^32, and the two names have at most 113 characters together. If every buffer is
  given back, the component sends a start packet with the file's size and names, the bytes asked for
  in data packets of 113 bytes (the last one may be shorter) with their offsets and consecutive
  sequence indices, and an end packet with their checksum; it reports the file, answers the request
  and cools down. A part that reaches behind the end of the file is cut there. The disk is unchanged
  and the other requests stay in the queue.
\<close>

theorem downlink_sends_part:
  assumes "ready_to_send C files fds e q c u" "unat (fe_offset e) + unat (fe_length e) < 4294967296"
    and "src = Fw_Strings.LogStringArg_of (fe_srcFilename e)" "dest = Fw_Strings.LogStringArg_of (fe_destFilename e)"
    and "data = drop (unat (fe_offset e)) (take (part_end (length c) (unat (fe_offset e)) (unat (fe_length e))) c)"
  shows "\<exists>u' bs out. Option.bind (dn_Run_handler C u) (downlink_exchange C (length (file_chunks data) + 2)) = Some u' \<and>
    dn_mode u' = Dl_COOLDOWN \<and> dn_queue u' = Some q \<and> files (dn_disk u') = files (dn_disk u) \<and>
    dn_sent u' = dn_sent u @ bs \<and>
    list_all2 carries bs (downlink_packets src dest (of_nat (length c)) (unat (fe_offset e)) data) \<and>
    dn_outs u' = out @ [Dn_FileSent src dest] @ answer_of (dn_FileComplete_connected u) e"
  by (rule whole_downlink [OF assms])

theorem downlink_sends_part_witness:
  "\<exists>u' bs. Option.bind (dn_Run_handler table_disk (requested (one_request 1 9))) (downlink_exchange table_disk 3) = Some u' \<and>
    dn_sent u' = bs \<and> list_all2 carries bs (downlink_packets [97] [98] 3 1 [2, 3])"
proof -
  have p: "[2, 3] = drop (unat (fe_offset (one_request 1 9))) (take (part_end (length [1, 2, 3 :: U8])
      (unat (fe_offset (one_request 1 9))) (unat (fe_length (one_request 1 9)))) [1, 2, 3 :: U8])"
    by (simp add: one_request_def part_end_def)
  have n: "unat (fe_offset (one_request 1 9)) + unat (fe_length (one_request 1 9)) < 4294967296"
    by (simp add: one_request_def)
  have r: "ready_to_send table_disk fst td_fds (one_request 1 9) [] [1, 2, 3] (requested (one_request 1 9))"
    by (rule requested_ready) simp
  have s0: "dn_sent (requested (one_request 1 9)) = []" by (simp add: requested_def FileDownlink_new_def dn_sent_def)
  have o: "unat (fe_offset (one_request 1 9)) = 1" by (simp add: one_request_def)
  show ?thesis
    using downlink_sends_part [OF r n refl refl p] o
    by (auto simp: one_request_names s0 numeral_3_eq_3)
qed

section \<open>From the sender's disk to the receiver's\<close>

lemma LogStringArg_of_idem: "Fw_Strings.LogStringArg_of (Fw_Strings.LogStringArg_of s) = Fw_Strings.LogStringArg_of s"
proof -
  let ?l = "Fw_Strings.LogStringArg_of s"
  have "C_string ?l = ?l" using LogStringArg_of_bounds(1) [of s] by (rule C_string_id)
  then show ?thesis using LogStringArg_of_bounds(2) [of s]
    by (simp add: Fw_Strings.LogStringArg_of_def [of ?l] FW_LOG_STRING_MAX_SIZE_def)
qed

lemma downlink_packets_whole:
  "downlink_packets src dest n 0 c = transfer src dest n (file_chunks c)"
  by (simp add: downlink_packets_def transfer_def start_packet_def file_chunks_concat)

text \<open>
  C3: a file arrives as it is. The sender is idle and is asked, by a command, for a whole file of a regular disk: one that
  is not empty and has less than 2^31 bytes, and whose two names, as the component keeps them, have at most 113 characters
  together. It goes out in buffers whose
  bytes, given to \<open>FileUplink\<close> of another system in the order in which they were sent, leave the
  contents of the file under the destination's name there, in front of what that file had behind
  them; the receiver reports the file and no warning, the sender reports it and answers OK, and the
  sender's disk is as before.
\<close>

theorem file_transfer_end_to_end:
  assumes "ready_to_send C files fds e q c u" "fe_offset e = 0" "fe_length e = 0" "fe_source e = From_COMMAND"
    and "posix_disk D gfiles gfds" "up_receiveMode v = START"
    and "dest = Fw_Strings.LogStringArg_of (fe_destFilename e)"
  shows "\<exists>u' v' bs. Option.bind (dn_Run_handler C u) (downlink_exchange C (length (file_chunks c) + 2)) = Some u' \<and>
    dn_sent u' = dn_sent u @ bs \<and> files (dn_disk u') = files (dn_disk u) \<and>
    last (dn_outs u') = Dn_cmdResponse (fe_opCode e) (fe_cmdSeq e) CmdResponse_OK \<and>
    uplink_run D bs v = Some v' \<and> events v' = events v @ [FileReceived dest] \<and> up_warnings v' = up_warnings v \<and>
    gfiles (up_disk v') = (gfiles (up_disk v))(path_string dest \<mapsto>
      c @ drop (length c) (case gfiles (up_disk v) (path_string dest) of None \<Rightarrow> [] | Some old \<Rightarrow> old))"
proof -
  let ?src = "Fw_Strings.LogStringArg_of (fe_srcFilename e)"
  have c: "length c < 2147483648" "c \<noteq> []"
    using assms(1) by (auto simp: ready_to_send_def)
  have part: "c = drop (unat (fe_offset e)) (take (part_end (length c) (unat (fe_offset e)) (unat (fe_length e))) c)"
    and small: "unat (fe_offset e) + unat (fe_length e) < 4294967296"
    by (simp_all add: assms(2,3) part_end_def)
  obtain u' bs out where u': "Option.bind (dn_Run_handler C u) (downlink_exchange C (length (file_chunks c) + 2)) = Some u'"
    "files (dn_disk u') = files (dn_disk u)" "dn_sent u' = dn_sent u @ bs"
    "list_all2 carries bs (transfer ?src dest (of_nat (length c)) (file_chunks c))"
    "dn_outs u' = out @ [Dn_FileSent ?src dest] @ answer_of (dn_FileComplete_connected u) e"
    using whole_downlink [OF assms(1) small refl assms(7) part] assms(2) by (auto simp: downlink_packets_whole)
  have n: "unat (of_nat (length c) :: U32) = length c" using c(1) by (intro unat_of_nat32) simp
  have len: "length dest < 256" using LogStringArg_of_bounds(2) [of "fe_destFilename e"] assms(7) by simp
  have chunks: "\<forall>x \<in> set (file_chunks c). x \<noteq> [] \<and> length x < 65536" using file_chunks_bounds [of c] by fastforce
  have fits: "length (concat (file_chunks c)) \<le> unat (of_nat (length c) :: U32)" "unat (of_nat (length c) :: U32) < 2147483648"
    using n c(1) by (simp_all add: file_chunks_concat)
  obtain b0 bs' b1 where b: "bs = b0 # bs' @ [b1]" "list_all2 carries bs' (data_packets 1 0 (file_chunks c))"
    "carries b0 (hd (transfer ?src dest (of_nat (length c)) (file_chunks c)))"
    "carries b1 (last (transfer ?src dest (of_nat (length c)) (file_chunks c)))"
    by (rule transfer_lists [OF u'(4)])
  have b1: "carries b1 (FP_end \<lparr>ep_header = \<lparr>hdr_type = T_END, hdr_sequenceIndex = of_nat (length (file_chunks c)) + 1\<rparr>,
      ep_checksumValue = byte_sum 0 (concat (file_chunks c))\<rparr>)"
    using b(4) by (simp add: transfer_def)
  obtain v' where "uplink_run D bs v = Some v'" "up_warnings v' = up_warnings v"
    "gfiles (up_disk v') = (gfiles (up_disk v))(path_string dest \<mapsto> concat (file_chunks c) @ drop (length (concat (file_chunks c)))
      (case gfiles (up_disk v) (path_string dest) of None \<Rightarrow> [] | Some c \<Rightarrow> c))"
    "events v' = events v @ [FileReceived (Fw_Strings.LogStringArg_of dest)]"
    using uplink_transfer [OF assms(5,6) len chunks fits b(3,2) b1] unfolding b(1) by auto
  moreover have "Fw_Strings.LogStringArg_of dest = dest" unfolding assms(7) by (rule LogStringArg_of_idem)
  moreover have "last (dn_outs u') = Dn_cmdResponse (fe_opCode e) (fe_cmdSeq e) CmdResponse_OK"
    using u'(5) assms(4) by (simp add: answer_of_def)
  ultimately show ?thesis using u'(1-3) by (simp add: file_chunks_concat)
qed

theorem file_transfer_end_to_end_witness:
  "\<exists>u' v' bs. Option.bind (dn_Run_handler table_disk (requested (one_request 0 0))) (downlink_exchange table_disk 3) = Some u' \<and>
    dn_sent u' = bs \<and> uplink_run one_file_disk bs (FileUplink_new 0 (Map.empty(''b'' \<mapsto> [9, 9, 9, 9]), ''a'', 0)) = Some v' \<and>
    fst (up_disk v') = Map.empty(''b'' \<mapsto> [1, 2, 3, 9])"
proof -
  have r: "ready_to_send table_disk fst td_fds (one_request 0 0) [] [1, 2, 3] (requested (one_request 0 0))"
    by (rule requested_ready) simp
  have e: "fe_offset (one_request 0 0) = 0" "fe_length (one_request 0 0) = 0" "fe_source (one_request 0 0) = From_COMMAND"
    by (simp_all add: one_request_def)
  have v: "up_receiveMode (FileUplink_new 0 (Map.empty(''b'' \<mapsto> [9, 9, 9, 9 :: U8]), ''a'', 0 :: nat)) = START"
    by (simp add: FileUplink_new_def)
  have s0: "dn_sent (requested (one_request 0 0)) = []" by (simp add: requested_def FileDownlink_new_def dn_sent_def)
  show ?thesis
    using file_transfer_end_to_end [OF r e one_file_posix v refl]
    by (auto simp: one_request_names path_b FileUplink_new_def s0 numeral_3_eq_3)
qed

section \<open>A part that wraps around\<close>

text \<open>
  If offset and length of a part add up to \<open>2 ^ 32\<close> or more, the check against the file's size
  does not see it: the start packet goes out, and when its buffer comes back an assertion stops the
  program.
\<close>

theorem wrapped_part_stops:
  assumes "ready_to_send C files fds e q c u" "4294967296 \<le> unat (fe_offset e) + unat (fe_length e)"
  shows "\<exists>u'. dn_Run_handler C u = Some u' \<and> dn_mode u' = Dl_WAIT \<and>
    dn_bufferReturn_handler C (last (dn_sent u')) u' = None"
proof -
  define S where "S = fe_offset e"
  define L where "L = fe_length e"
  have r: "regular_disk C files fds" "dn_mode u = Dl_IDLE" "dn_queue u = Some (e # q)"
    "files (dn_disk u) (path_string (fe_srcFilename e)) = Some c" "length c < 2147483648"
    "length (dn_memoryStore u FILE_PACKET) = 124" "unat S < length c"
    "length (Fw_Strings.LogStringArg_of (fe_srcFilename e)) + length (Fw_Strings.LogStringArg_of (fe_destFilename e)) \<le> 113"
    using assms(1) by (simp_all add: ready_to_send_def S_def)
  let ?u0 = "u\<lparr>dn_queue := Some q, dn_curEntry := e\<rparr>"
  have d0: "files (dn_disk ?u0) (path_string (fe_srcFilename e)) = Some c" using r by simp
  obtain f k where f: "Downlink_File_open C (fe_srcFilename e) (fe_destFilename e) (dn_file ?u0) (dn_disk ?u0) = Some (OP_OK, f, k)"
    "opened files fds (path_string (fe_srcFilename e)) c (fe_srcFilename e) (fe_destFilename e) f k"
    by (rule Downlink_File_open_ok [OF r(1) d0 r(5)])
  let ?u1 = "?u0\<lparr>dn_file := f, dn_disk := k\<rparr>"
  have size: "df_size f = of_nat (length c)" "unat (df_size f) = length c"
    using f(2) r(5) by (simp_all add: opened_def unat_of_nat32)
  have wrap: "unat (S + L) = unat S + unat L - 4294967296"
  proof -
    have "unat S + unat L - 4294967296 < 4294967296" using unat_lt32 [of S] unat_lt32 [of L] by linarith
    then have "(unat S + unat L) mod 4294967296 = unat S + unat L - 4294967296"
      using assms(2) by (subst le_mod_geq) (simp_all add: S_def L_def)
    then show ?thesis by (simp add: unat_word_ariths)
  qed
  have lt: "S + L < S" "\<not> S \<ge> df_size f" "\<not> S + L > df_size f" "L > 0"
    using wrap size(2) r(7) assms(2) unat_lt32 [of S] unat_lt32 [of L]
    unfolding word_less_nat_alt word_le_nat_alt unat_0 S_def [symmetric] L_def [symmetric] by linarith+
  have o1: "opened files fds (path_string (fe_srcFilename e)) c (fe_srcFilename e) (fe_destFilename e) (dn_file ?u1) (dn_disk ?u1)"
    and m1: "length (dn_memoryStore ?u1 FILE_PACKET) = 124"
    using f(2) r(6) by simp_all
  obtain ms bf n b ev where run: "sendFile_start S L ?u1 = Some (?u1\<lparr>dn_lastBufferId := dn_lastBufferId ?u1 + 1,
      dn_memoryStore := ms, dn_buffer := bf, dn_packetsSent := n,
      dn_outs := dn_outs ?u1 @ [Dn_bufferSendOut b, Dn_Tlm_PacketsSent n, ev], dn_mode := Dl_WAIT, dn_sequenceIndex := 1,
      dn_curTimer := 0, dn_byteOffset := S, dn_lastCompletedType := T_START,
      dn_endOffset := if L > 0 then S + L else of_nat (length c)\<rparr>)"
    "m_context b = dn_lastBufferId ?u1" "sent_out ev = []"
    by (rule sendFile_start_run [OF o1 m1 refl refl r(8)])
  define u' where "u' = ?u1\<lparr>dn_lastBufferId := dn_lastBufferId u + 1,
      dn_memoryStore := ms, dn_buffer := bf, dn_packetsSent := n,
      dn_outs := dn_outs u @ [Dn_bufferSendOut b, Dn_Tlm_PacketsSent n, ev], dn_mode := Dl_WAIT, dn_sequenceIndex := 1,
      dn_curTimer := 0, dn_byteOffset := S, dn_lastCompletedType := T_START, dn_endOffset := S + L\<rparr>"
  have "sendFile C (fe_srcFilename e) (fe_destFilename e) S L ?u0 = Some u'"
    using f(1) lt run(1) by (simp add: sendFile_def u'_def Let_def)
  then have "dn_Run_handler C u = Some u'" using r(2,3) by (simp add: dn_Run_handler_def S_def L_def)
  moreover have "dn_mode u' = Dl_WAIT" by (simp add: u'_def)
  moreover have "m_context (last (dn_sent u')) = dn_lastBufferId u" using run(2,3) by (simp add: u'_def dn_sent_def)
  moreover have "\<not> S < S + L" using lt(1) by simp
  then have "sendDataPacket C (u'\<lparr>dn_mode := Dl_DOWNLINK\<rparr>) = None" by (simp add: sendDataPacket_def u'_def)
  ultimately show ?thesis by (auto simp: dn_bufferReturn_handler_def downlinkPacket_def u'_def)
qed

theorem wrapped_part_stops_witness:
  "\<exists>u'. dn_Run_handler table_disk (requested (one_request 1 0xFFFFFFFF)) = Some u' \<and>
    dn_bufferReturn_handler table_disk (last (dn_sent u')) u' = None"
  using wrapped_part_stops [OF requested_ready [of 1 "0xFFFFFFFF"]] by (auto simp: one_request_def)

end
