(* ===== verification/Poly_Type.thy ===== *)
theory Poly_Type
  imports Ser_Codecs C_Format
begin

text \<open>
  Fw/Types/PolyType.cpp: a value that knows its type. The object is a type tag and a union of
  eight bytes; every overload of the constructor, the cast, \<open>get\<close>, \<open>is...\<close> and \<open>operator=\<close>
  is a definition of its own. The union is the little-endian word of its bytes: a member is written
  into its low bytes and leaves the other ones as they are. The properties say that the object
  behaves like a dynamically typed variable, and where it does not.
\<close>

section \<open>The object\<close>

text \<open>
  \<open>TYPE_other\<close> is a value of the enumeration type that no enumerator names: the cast in
  \<open>deserialize\<close> makes one from any other number.
\<close>

datatype PolyType_Type =
    TYPE_NOTYPE | TYPE_U8 | TYPE_I8 | TYPE_U16 | TYPE_I16 | TYPE_U32 | TYPE_I32 | TYPE_U64 | TYPE_I64
  | TYPE_F32 | TYPE_F64 | TYPE_BOOL | TYPE_PTR | TYPE_other I32

record PolyType =
  m_dataType :: PolyType_Type
  m_val :: U64

definition union_put :: "'a::len word \<Rightarrow> U64 \<Rightarrow> U64" where
  "union_put v m = (m AND NOT (mask LENGTH('a))) OR ucast v"

definition union_get :: "U64 \<Rightarrow> 'a::len word" where
  "union_get m = ucast m"

text \<open>A \<open>bool\<close> is the byte 0 or 1; to read another byte as a \<open>bool\<close> has no defined result.\<close>

definition union_put_bool :: "bool \<Rightarrow> U64 \<Rightarrow> U64" where
  "union_put_bool v = union_put (if v then 1 else 0 :: U8)"

definition union_get_bool :: "U64 \<Rightarrow> bool option" where
  "union_get_bool m =
     (if (union_get m :: U8) = 0 then Some False else if (union_get m :: U8) = 1 then Some True else None)"

text \<open>The storage of a new object holds whatever was there before: it is an argument of the constructors.\<close>

definition PolyType_new :: "U64 \<Rightarrow> PolyType" where
  "PolyType_new store = \<lparr>m_dataType = TYPE_NOTYPE, m_val = store\<rparr>"

definition PolyType_copy :: "PolyType \<Rightarrow> PolyType" where
  "PolyType_copy original = \<lparr>m_dataType = m_dataType original, m_val = m_val original\<rparr>"

definition PolyType_assign :: "PolyType \<Rightarrow> PolyType \<Rightarrow> PolyType" where
  "PolyType_assign p src = p\<lparr>m_dataType := m_dataType src, m_val := m_val src\<rparr>"

section \<open>One group of operations for each type\<close>

definition PolyType_of_U8 :: "U64 \<Rightarrow> U8 \<Rightarrow> PolyType" where
  "PolyType_of_U8 store val = \<lparr>m_dataType = TYPE_U8, m_val = union_put val store\<rparr>"

definition PolyType_to_U8 :: "PolyType \<Rightarrow> U8 option" where
  "PolyType_to_U8 p = do { fw_assert (TYPE_U8 = m_dataType p); Some (union_get (m_val p)) }"

definition PolyType_get_U8 :: "PolyType \<Rightarrow> U8 option" where
  "PolyType_get_U8 p = do { fw_assert (TYPE_U8 = m_dataType p); Some (union_get (m_val p)) }"

definition isU8 :: "PolyType \<Rightarrow> bool" where
  "isU8 p \<longleftrightarrow> TYPE_U8 = m_dataType p"

definition PolyType_assign_U8 :: "PolyType \<Rightarrow> U8 \<Rightarrow> PolyType" where
  "PolyType_assign_U8 p other = p\<lparr>m_dataType := TYPE_U8, m_val := union_put other (m_val p)\<rparr>"

definition PolyType_of_I8 :: "U64 \<Rightarrow> I8 \<Rightarrow> PolyType" where
  "PolyType_of_I8 store val = \<lparr>m_dataType = TYPE_I8, m_val = union_put val store\<rparr>"

definition PolyType_to_I8 :: "PolyType \<Rightarrow> I8 option" where
  "PolyType_to_I8 p = do { fw_assert (TYPE_I8 = m_dataType p); Some (union_get (m_val p)) }"

definition PolyType_get_I8 :: "PolyType \<Rightarrow> I8 option" where
  "PolyType_get_I8 p = do { fw_assert (TYPE_I8 = m_dataType p); Some (union_get (m_val p)) }"

definition isI8 :: "PolyType \<Rightarrow> bool" where
  "isI8 p \<longleftrightarrow> TYPE_I8 = m_dataType p"

definition PolyType_assign_I8 :: "PolyType \<Rightarrow> I8 \<Rightarrow> PolyType" where
  "PolyType_assign_I8 p other = p\<lparr>m_dataType := TYPE_I8, m_val := union_put other (m_val p)\<rparr>"

definition PolyType_of_U16 :: "U64 \<Rightarrow> U16 \<Rightarrow> PolyType" where
  "PolyType_of_U16 store val = \<lparr>m_dataType = TYPE_U16, m_val = union_put val store\<rparr>"

definition PolyType_to_U16 :: "PolyType \<Rightarrow> U16 option" where
  "PolyType_to_U16 p = do { fw_assert (TYPE_U16 = m_dataType p); Some (union_get (m_val p)) }"

definition PolyType_get_U16 :: "PolyType \<Rightarrow> U16 option" where
  "PolyType_get_U16 p = do { fw_assert (TYPE_U16 = m_dataType p); Some (union_get (m_val p)) }"

definition isU16 :: "PolyType \<Rightarrow> bool" where
  "isU16 p \<longleftrightarrow> TYPE_U16 = m_dataType p"

definition PolyType_assign_U16 :: "PolyType \<Rightarrow> U16 \<Rightarrow> PolyType" where
  "PolyType_assign_U16 p other = p\<lparr>m_dataType := TYPE_U16, m_val := union_put other (m_val p)\<rparr>"

definition PolyType_of_I16 :: "U64 \<Rightarrow> I16 \<Rightarrow> PolyType" where
  "PolyType_of_I16 store val = \<lparr>m_dataType = TYPE_I16, m_val = union_put val store\<rparr>"

definition PolyType_to_I16 :: "PolyType \<Rightarrow> I16 option" where
  "PolyType_to_I16 p = do { fw_assert (TYPE_I16 = m_dataType p); Some (union_get (m_val p)) }"

definition PolyType_get_I16 :: "PolyType \<Rightarrow> I16 option" where
  "PolyType_get_I16 p = do { fw_assert (TYPE_I16 = m_dataType p); Some (union_get (m_val p)) }"

definition isI16 :: "PolyType \<Rightarrow> bool" where
  "isI16 p \<longleftrightarrow> TYPE_I16 = m_dataType p"

definition PolyType_assign_I16 :: "PolyType \<Rightarrow> I16 \<Rightarrow> PolyType" where
  "PolyType_assign_I16 p other = p\<lparr>m_dataType := TYPE_I16, m_val := union_put other (m_val p)\<rparr>"

definition PolyType_of_U32 :: "U64 \<Rightarrow> U32 \<Rightarrow> PolyType" where
  "PolyType_of_U32 store val = \<lparr>m_dataType = TYPE_U32, m_val = union_put val store\<rparr>"

definition PolyType_to_U32 :: "PolyType \<Rightarrow> U32 option" where
  "PolyType_to_U32 p = do { fw_assert (TYPE_U32 = m_dataType p); Some (union_get (m_val p)) }"

definition PolyType_get_U32 :: "PolyType \<Rightarrow> U32 option" where
  "PolyType_get_U32 p = do { fw_assert (TYPE_U32 = m_dataType p); Some (union_get (m_val p)) }"

definition isU32 :: "PolyType \<Rightarrow> bool" where
  "isU32 p \<longleftrightarrow> TYPE_U32 = m_dataType p"

definition PolyType_assign_U32 :: "PolyType \<Rightarrow> U32 \<Rightarrow> PolyType" where
  "PolyType_assign_U32 p other = p\<lparr>m_dataType := TYPE_U32, m_val := union_put other (m_val p)\<rparr>"

definition PolyType_of_I32 :: "U64 \<Rightarrow> I32 \<Rightarrow> PolyType" where
  "PolyType_of_I32 store val = \<lparr>m_dataType = TYPE_I32, m_val = union_put val store\<rparr>"

definition PolyType_to_I32 :: "PolyType \<Rightarrow> I32 option" where
  "PolyType_to_I32 p = do { fw_assert (TYPE_I32 = m_dataType p); Some (union_get (m_val p)) }"

definition PolyType_get_I32 :: "PolyType \<Rightarrow> I32 option" where
  "PolyType_get_I32 p = do { fw_assert (TYPE_I32 = m_dataType p); Some (union_get (m_val p)) }"

definition isI32 :: "PolyType \<Rightarrow> bool" where
  "isI32 p \<longleftrightarrow> TYPE_I32 = m_dataType p"

definition PolyType_assign_I32 :: "PolyType \<Rightarrow> I32 \<Rightarrow> PolyType" where
  "PolyType_assign_I32 p other = p\<lparr>m_dataType := TYPE_I32, m_val := union_put other (m_val p)\<rparr>"

definition PolyType_of_U64 :: "U64 \<Rightarrow> U64 \<Rightarrow> PolyType" where
  "PolyType_of_U64 store val = \<lparr>m_dataType = TYPE_U64, m_val = union_put val store\<rparr>"

definition PolyType_to_U64 :: "PolyType \<Rightarrow> U64 option" where
  "PolyType_to_U64 p = do { fw_assert (TYPE_U64 = m_dataType p); Some (union_get (m_val p)) }"

definition PolyType_get_U64 :: "PolyType \<Rightarrow> U64 option" where
  "PolyType_get_U64 p = do { fw_assert (TYPE_U64 = m_dataType p); Some (union_get (m_val p)) }"

definition isU64 :: "PolyType \<Rightarrow> bool" where
  "isU64 p \<longleftrightarrow> TYPE_U64 = m_dataType p"

definition PolyType_assign_U64 :: "PolyType \<Rightarrow> U64 \<Rightarrow> PolyType" where
  "PolyType_assign_U64 p other = p\<lparr>m_dataType := TYPE_U64, m_val := union_put other (m_val p)\<rparr>"

definition PolyType_of_I64 :: "U64 \<Rightarrow> I64 \<Rightarrow> PolyType" where
  "PolyType_of_I64 store val = \<lparr>m_dataType = TYPE_I64, m_val = union_put val store\<rparr>"

definition PolyType_to_I64 :: "PolyType \<Rightarrow> I64 option" where
  "PolyType_to_I64 p = do { fw_assert (TYPE_I64 = m_dataType p); Some (union_get (m_val p)) }"

definition PolyType_get_I64 :: "PolyType \<Rightarrow> I64 option" where
  "PolyType_get_I64 p = do { fw_assert (TYPE_I64 = m_dataType p); Some (union_get (m_val p)) }"

definition isI64 :: "PolyType \<Rightarrow> bool" where
  "isI64 p \<longleftrightarrow> TYPE_I64 = m_dataType p"

definition PolyType_assign_I64 :: "PolyType \<Rightarrow> I64 \<Rightarrow> PolyType" where
  "PolyType_assign_I64 p other = p\<lparr>m_dataType := TYPE_I64, m_val := union_put other (m_val p)\<rparr>"

definition PolyType_of_F64 :: "U64 \<Rightarrow> F64 \<Rightarrow> PolyType" where
  "PolyType_of_F64 store val = \<lparr>m_dataType = TYPE_F64, m_val = union_put val store\<rparr>"

definition PolyType_to_F64 :: "PolyType \<Rightarrow> F64 option" where
  "PolyType_to_F64 p = do { fw_assert (TYPE_F64 = m_dataType p); Some (union_get (m_val p)) }"

definition PolyType_get_F64 :: "PolyType \<Rightarrow> F64 option" where
  "PolyType_get_F64 p = do { fw_assert (TYPE_F64 = m_dataType p); Some (union_get (m_val p)) }"

definition isF64 :: "PolyType \<Rightarrow> bool" where
  "isF64 p \<longleftrightarrow> TYPE_F64 = m_dataType p"

definition PolyType_assign_F64 :: "PolyType \<Rightarrow> F64 \<Rightarrow> PolyType" where
  "PolyType_assign_F64 p other = p\<lparr>m_dataType := TYPE_F64, m_val := union_put other (m_val p)\<rparr>"

definition PolyType_of_F32 :: "U64 \<Rightarrow> F32 \<Rightarrow> PolyType" where
  "PolyType_of_F32 store val = \<lparr>m_dataType = TYPE_F32, m_val = union_put val store\<rparr>"

definition PolyType_to_F32 :: "PolyType \<Rightarrow> F32 option" where
  "PolyType_to_F32 p = do { fw_assert (TYPE_F32 = m_dataType p); Some (union_get (m_val p)) }"

definition PolyType_get_F32 :: "PolyType \<Rightarrow> F32 option" where
  "PolyType_get_F32 p = do { fw_assert (TYPE_F32 = m_dataType p); Some (union_get (m_val p)) }"

definition isF32 :: "PolyType \<Rightarrow> bool" where
  "isF32 p \<longleftrightarrow> TYPE_F32 = m_dataType p"

definition PolyType_assign_F32 :: "PolyType \<Rightarrow> F32 \<Rightarrow> PolyType" where
  "PolyType_assign_F32 p other = p\<lparr>m_dataType := TYPE_F32, m_val := union_put other (m_val p)\<rparr>"

definition PolyType_of_bool :: "U64 \<Rightarrow> bool \<Rightarrow> PolyType" where
  "PolyType_of_bool store val = \<lparr>m_dataType = TYPE_BOOL, m_val = union_put_bool val store\<rparr>"

definition PolyType_to_bool :: "PolyType \<Rightarrow> bool option" where
  "PolyType_to_bool p = do { fw_assert (TYPE_BOOL = m_dataType p); union_get_bool (m_val p) }"

definition PolyType_get_bool :: "PolyType \<Rightarrow> bool option" where
  "PolyType_get_bool p = do { fw_assert (TYPE_BOOL = m_dataType p); union_get_bool (m_val p) }"

definition isBool :: "PolyType \<Rightarrow> bool" where
  "isBool p \<longleftrightarrow> TYPE_BOOL = m_dataType p"

definition PolyType_assign_bool :: "PolyType \<Rightarrow> bool \<Rightarrow> PolyType" where
  "PolyType_assign_bool p other = p\<lparr>m_dataType := TYPE_BOOL, m_val := union_put_bool other (m_val p)\<rparr>"

definition PolyType_of_ptr :: "U64 \<Rightarrow> U64 \<Rightarrow> PolyType" where
  "PolyType_of_ptr store val = \<lparr>m_dataType = TYPE_PTR, m_val = union_put val store\<rparr>"

definition PolyType_to_ptr :: "PolyType \<Rightarrow> U64 option" where
  "PolyType_to_ptr p = do { fw_assert (TYPE_PTR = m_dataType p); Some (union_get (m_val p)) }"

definition PolyType_get_ptr :: "PolyType \<Rightarrow> U64 option" where
  "PolyType_get_ptr p = do { fw_assert (TYPE_PTR = m_dataType p); Some (union_get (m_val p)) }"

definition isPtr :: "PolyType \<Rightarrow> bool" where
  "isPtr p \<longleftrightarrow> TYPE_PTR = m_dataType p"

definition PolyType_assign_ptr :: "PolyType \<Rightarrow> U64 \<Rightarrow> PolyType" where
  "PolyType_assign_ptr p other = p\<lparr>m_dataType := TYPE_PTR, m_val := union_put other (m_val p)\<rparr>"

section \<open>Comparison\<close>

text \<open>The comparison of doubles, as that of floats in C\_Format: no order with a NaN, both zeros equal.\<close>

definition f64_magnitude :: "F64 \<Rightarrow> nat" where
  "f64_magnitude x = unat (x AND 0x7FFFFFFFFFFFFFFF)"

definition f64_is_nan :: "F64 \<Rightarrow> bool" where
  "f64_is_nan x \<longleftrightarrow> f64_magnitude x > 0x7FF0000000000000"

definition f64_key :: "F64 \<Rightarrow> int" where
  "f64_key x = (if bit x 63 then - int (f64_magnitude x) else int (f64_magnitude x))"

definition f64_less :: "F64 \<Rightarrow> F64 \<Rightarrow> bool" where
  "f64_less a b \<longleftrightarrow> \<not> f64_is_nan a \<and> \<not> f64_is_nan b \<and> f64_key a < f64_key b"

text \<open>\<^const>\<open>None\<close> is the failed assertion of the default branch.\<close>

definition PolyType_eq :: "PolyType \<Rightarrow> PolyType \<Rightarrow> bool option" where
  "PolyType_eq p other =
     (if m_dataType p \<noteq> m_dataType other then Some False
      else case m_dataType p of
      TYPE_U8 \<Rightarrow> Some ((union_get (m_val p) :: U8) = union_get (m_val other))
    | TYPE_I8 \<Rightarrow> Some ((union_get (m_val p) :: I8) = union_get (m_val other))
    | TYPE_U16 \<Rightarrow> Some ((union_get (m_val p) :: U16) = union_get (m_val other))
    | TYPE_I16 \<Rightarrow> Some ((union_get (m_val p) :: I16) = union_get (m_val other))
    | TYPE_U32 \<Rightarrow> Some ((union_get (m_val p) :: U32) = union_get (m_val other))
    | TYPE_I32 \<Rightarrow> Some ((union_get (m_val p) :: I32) = union_get (m_val other))
    | TYPE_U64 \<Rightarrow> Some ((union_get (m_val p) :: U64) = union_get (m_val other))
    | TYPE_I64 \<Rightarrow> Some ((union_get (m_val p) :: I64) = union_get (m_val other))
    | TYPE_BOOL \<Rightarrow> do { a \<leftarrow> union_get_bool (m_val p); b \<leftarrow> union_get_bool (m_val other); Some (a = b) }
    | TYPE_PTR \<Rightarrow> Some ((union_get (m_val p) :: U64) = union_get (m_val other))
    | TYPE_F64 \<Rightarrow> Some False
    | TYPE_F32 \<Rightarrow> Some False
    | TYPE_NOTYPE \<Rightarrow> Some False
    | TYPE_other n \<Rightarrow> None)"

definition PolyType_neq :: "PolyType \<Rightarrow> PolyType \<Rightarrow> bool option" where
  "PolyType_neq p other = map_option Not (PolyType_eq p other)"

definition PolyType_less :: "PolyType \<Rightarrow> PolyType \<Rightarrow> bool option" where
  "PolyType_less p other =
     (if m_dataType p \<noteq> m_dataType other then Some False
      else case m_dataType p of
      TYPE_U8 \<Rightarrow> Some ((union_get (m_val p) :: U8) < union_get (m_val other))
    | TYPE_I8 \<Rightarrow> Some (sint (union_get (m_val p) :: I8) < sint (union_get (m_val other) :: I8))
    | TYPE_U16 \<Rightarrow> Some ((union_get (m_val p) :: U16) < union_get (m_val other))
    | TYPE_I16 \<Rightarrow> Some (sint (union_get (m_val p) :: I16) < sint (union_get (m_val other) :: I16))
    | TYPE_U32 \<Rightarrow> Some ((union_get (m_val p) :: U32) < union_get (m_val other))
    | TYPE_I32 \<Rightarrow> Some (sint (union_get (m_val p) :: I32) < sint (union_get (m_val other) :: I32))
    | TYPE_U64 \<Rightarrow> Some ((union_get (m_val p) :: U64) < union_get (m_val other))
    | TYPE_I64 \<Rightarrow> Some (sint (union_get (m_val p) :: I64) < sint (union_get (m_val other) :: I64))
    | TYPE_F64 \<Rightarrow> Some (f64_less (union_get (m_val p)) (union_get (m_val other)))
    | TYPE_F32 \<Rightarrow> Some (f32_less (union_get (m_val p)) (union_get (m_val other)))
    | TYPE_PTR \<Rightarrow> Some ((union_get (m_val p) :: U64) < union_get (m_val other))
    | TYPE_BOOL \<Rightarrow> Some False
    | TYPE_NOTYPE \<Rightarrow> Some False
    | TYPE_other n \<Rightarrow> None)"

definition PolyType_greater :: "PolyType \<Rightarrow> PolyType \<Rightarrow> bool option" where
  "PolyType_greater p other = PolyType_less other p"

definition PolyType_ge :: "PolyType \<Rightarrow> PolyType \<Rightarrow> bool option" where
  "PolyType_ge p other = do { g \<leftarrow> PolyType_greater p other; if g then Some True else PolyType_eq p other }"

definition PolyType_le :: "PolyType \<Rightarrow> PolyType \<Rightarrow> bool option" where
  "PolyType_le p other = do { l \<leftarrow> PolyType_less p other; if l then Some True else PolyType_eq p other }"

section \<open>The wire format\<close>

definition type_number :: "PolyType_Type \<Rightarrow> I32" where
  "type_number t = (case t of TYPE_NOTYPE \<Rightarrow> 0 | TYPE_U8 \<Rightarrow> 1 | TYPE_I8 \<Rightarrow> 2 | TYPE_U16 \<Rightarrow> 3 | TYPE_I16 \<Rightarrow> 4
     | TYPE_U32 \<Rightarrow> 5 | TYPE_I32 \<Rightarrow> 6 | TYPE_U64 \<Rightarrow> 7 | TYPE_I64 \<Rightarrow> 8 | TYPE_F32 \<Rightarrow> 9 | TYPE_F64 \<Rightarrow> 10
     | TYPE_BOOL \<Rightarrow> 11 | TYPE_PTR \<Rightarrow> 12 | TYPE_other n \<Rightarrow> n)"

definition type_of_number :: "I32 \<Rightarrow> PolyType_Type" where
  "type_of_number n = (if n = 0 then TYPE_NOTYPE else if n = 1 then TYPE_U8 else if n = 2 then TYPE_I8
     else if n = 3 then TYPE_U16 else if n = 4 then TYPE_I16 else if n = 5 then TYPE_U32
     else if n = 6 then TYPE_I32 else if n = 7 then TYPE_U64 else if n = 8 then TYPE_I64
     else if n = 9 then TYPE_F32 else if n = 10 then TYPE_F64 else if n = 11 then TYPE_BOOL
     else if n = 12 then TYPE_PTR else TYPE_other n)"

definition PolyType_serialize :: "PolyType \<Rightarrow> ser_buf \<Rightarrow> (SerializeStatus \<times> ser_buf) option" where
  "PolyType_serialize p b = do {
     (stat, b) \<leftarrow> serialize_I32 b (type_number (m_dataType p));
     if stat \<noteq> FW_SERIALIZE_OK then Some (stat, b)
     else case m_dataType p of
       TYPE_U8 \<Rightarrow> serialize_U8 b (union_get (m_val p))
     | TYPE_I8 \<Rightarrow> serialize_I8 b (union_get (m_val p))
     | TYPE_U16 \<Rightarrow> serialize_U16 b (union_get (m_val p))
     | TYPE_I16 \<Rightarrow> serialize_I16 b (union_get (m_val p))
     | TYPE_U32 \<Rightarrow> serialize_U32 b (union_get (m_val p))
     | TYPE_I32 \<Rightarrow> serialize_I32 b (union_get (m_val p))
     | TYPE_U64 \<Rightarrow> serialize_U64 b (union_get (m_val p))
     | TYPE_I64 \<Rightarrow> serialize_I64 b (union_get (m_val p))
     | TYPE_F64 \<Rightarrow> serialize_F64 b (union_get (m_val p))
     | TYPE_F32 \<Rightarrow> serialize_F32 b (union_get (m_val p))
     | TYPE_BOOL \<Rightarrow> do { v \<leftarrow> union_get_bool (m_val p); serialize_bool b v }
     | TYPE_PTR \<Rightarrow> serialize_ptr b (union_get (m_val p))
     | _ \<Rightarrow> Some (FW_SERIALIZE_FORMAT_ERROR, b)
   }"

text \<open>A member of the union is the target of \<open>deserialize\<close>: it is written when the status is OK.\<close>

definition union_read ::
  "(('a \<Rightarrow> U64 \<Rightarrow> U64)) \<Rightarrow> ((SerializeStatus + 'a) \<times> ser_buf) option \<Rightarrow> PolyType
     \<Rightarrow> (SerializeStatus \<times> PolyType \<times> ser_buf) option" where
  "union_read put r p = do {
     (res, b) \<leftarrow> r;
     case res of Inl e \<Rightarrow> Some (e, p, b)
     | Inr v \<Rightarrow> Some (FW_SERIALIZE_OK, p\<lparr>m_val := put v (m_val p)\<rparr>, b)
   }"

definition PolyType_deserialize ::
  "PolyType \<Rightarrow> ser_buf \<Rightarrow> (SerializeStatus \<times> PolyType \<times> ser_buf) option" where
  "PolyType_deserialize p b = do {
     (res, b) \<leftarrow> deserialize_I32 b;
     case res of Inl stat \<Rightarrow> Some (stat, p, b)
     | Inr des \<Rightarrow>
         let p = p\<lparr>m_dataType := type_of_number des\<rparr> in
         case m_dataType p of
           TYPE_U8 \<Rightarrow> union_read union_put (deserialize_U8 b) p
         | TYPE_I8 \<Rightarrow> union_read union_put (deserialize_I8 b) p
         | TYPE_U16 \<Rightarrow> union_read union_put (deserialize_U16 b) p
         | TYPE_I16 \<Rightarrow> union_read union_put (deserialize_I16 b) p
         | TYPE_U32 \<Rightarrow> union_read union_put (deserialize_U32 b) p
         | TYPE_I32 \<Rightarrow> union_read union_put (deserialize_I32 b) p
         | TYPE_U64 \<Rightarrow> union_read union_put (deserialize_U64 b) p
         | TYPE_I64 \<Rightarrow> union_read union_put (deserialize_I64 b) p
         | TYPE_F64 \<Rightarrow> union_read union_put (deserialize_F64 b) p
         | TYPE_F32 \<Rightarrow> union_read union_put (deserialize_F32 b) p
         | TYPE_BOOL \<Rightarrow> union_read union_put_bool (deserialize_bool b) p
         | TYPE_PTR \<Rightarrow> union_read union_put (deserialize_ptr b) p
         | _ \<Rightarrow> Some (FW_DESERIALIZE_FORMAT_ERROR, p, b)
   }"

section \<open>A dynamically typed value\<close>

lemma union_get_put:
  fixes v :: "'a::len word"
  assumes "LENGTH('a) \<le> 64"
  shows "union_get (union_put v m) = v"
  using assms
  by (intro bit_word_eqI) (auto simp: union_get_def union_put_def bit_simps)

lemma union_get_put_simps [simp]:
  "union_get (union_put (v8 :: U8) m) = v8" "union_get (union_put (v16 :: U16) m) = v16"
  "union_get (union_put (v32 :: U32) m) = v32" "union_get (union_put (v64 :: U64) m) = v64"
  by (rule union_get_put; simp)+

lemma union_get_put_bool [simp]: "union_get_bool (union_put_bool v m) = Some v"
  by (simp add: union_get_bool_def union_put_bool_def)

text \<open>
  The value an object stands for is one of the built-in types, or none. \<open>poly_set\<close> and
  \<open>poly_get\<close> are the overload of \<open>operator=\<close> and \<open>get\<close> the compiler picks.
\<close>

fun poly_value :: "PolyType \<Rightarrow> prim option" where
  "poly_value \<lparr>m_dataType = t, m_val = m\<rparr> = (case t of
       TYPE_U8 \<Rightarrow> Some (PU8 (union_get m)) | TYPE_I8 \<Rightarrow> Some (PI8 (union_get m))
     | TYPE_U16 \<Rightarrow> Some (PU16 (union_get m)) | TYPE_I16 \<Rightarrow> Some (PI16 (union_get m))
     | TYPE_U32 \<Rightarrow> Some (PU32 (union_get m)) | TYPE_I32 \<Rightarrow> Some (PI32 (union_get m))
     | TYPE_U64 \<Rightarrow> Some (PU64 (union_get m)) | TYPE_I64 \<Rightarrow> Some (PI64 (union_get m))
     | TYPE_F32 \<Rightarrow> Some (PF32 (union_get m)) | TYPE_F64 \<Rightarrow> Some (PF64 (union_get m))
     | TYPE_BOOL \<Rightarrow> map_option PBool (union_get_bool m) | TYPE_PTR \<Rightarrow> Some (PPtr (union_get m))
     | _ \<Rightarrow> None)"

fun poly_set :: "PolyType \<Rightarrow> prim \<Rightarrow> PolyType" where
  "poly_set p (PU8 v) = PolyType_assign_U8 p v" | "poly_set p (PI8 v) = PolyType_assign_I8 p v"
| "poly_set p (PU16 v) = PolyType_assign_U16 p v" | "poly_set p (PI16 v) = PolyType_assign_I16 p v"
| "poly_set p (PU32 v) = PolyType_assign_U32 p v" | "poly_set p (PI32 v) = PolyType_assign_I32 p v"
| "poly_set p (PU64 v) = PolyType_assign_U64 p v" | "poly_set p (PI64 v) = PolyType_assign_I64 p v"
| "poly_set p (PF32 v) = PolyType_assign_F32 p v" | "poly_set p (PF64 v) = PolyType_assign_F64 p v"
| "poly_set p (PBool v) = PolyType_assign_bool p v" | "poly_set p (PPtr v) = PolyType_assign_ptr p v"

fun poly_get :: "prim_type \<Rightarrow> PolyType \<Rightarrow> prim option" where
  "poly_get TU8 p = map_option PU8 (PolyType_get_U8 p)" | "poly_get TI8 p = map_option PI8 (PolyType_get_I8 p)"
| "poly_get TU16 p = map_option PU16 (PolyType_get_U16 p)" | "poly_get TI16 p = map_option PI16 (PolyType_get_I16 p)"
| "poly_get TU32 p = map_option PU32 (PolyType_get_U32 p)" | "poly_get TI32 p = map_option PI32 (PolyType_get_I32 p)"
| "poly_get TU64 p = map_option PU64 (PolyType_get_U64 p)" | "poly_get TI64 p = map_option PI64 (PolyType_get_I64 p)"
| "poly_get TF32 p = map_option PF32 (PolyType_get_F32 p)" | "poly_get TF64 p = map_option PF64 (PolyType_get_F64 p)"
| "poly_get TBool p = map_option PBool (PolyType_get_bool p)" | "poly_get TPtr p = map_option PPtr (PolyType_get_ptr p)"

lemmas assign_defs = PolyType_assign_U8_def PolyType_assign_I8_def PolyType_assign_U16_def
  PolyType_assign_I16_def PolyType_assign_U32_def PolyType_assign_I32_def PolyType_assign_U64_def
  PolyType_assign_I64_def PolyType_assign_F32_def PolyType_assign_F64_def PolyType_assign_bool_def
  PolyType_assign_ptr_def

lemmas get_defs = PolyType_get_U8_def PolyType_get_I8_def PolyType_get_U16_def PolyType_get_I16_def
  PolyType_get_U32_def PolyType_get_I32_def PolyType_get_U64_def PolyType_get_I64_def
  PolyType_get_F32_def PolyType_get_F64_def PolyType_get_bool_def PolyType_get_ptr_def

lemma value_after_set [simp]: "poly_value (poly_set p v) = Some v"
  by (cases p; cases v) (simp_all add: assign_defs)

lemma get_by_value:
  "poly_get t p = (case poly_value p of None \<Rightarrow> None | Some v \<Rightarrow> if prim_type_of v = t then Some v else None)"
  by (cases p; cases t) (auto simp: get_defs fw_assert_def split: PolyType_Type.split option.splits)

lemma type_number_inverse: "poly_value p \<noteq> None \<or> m_dataType p = TYPE_NOTYPE \<Longrightarrow> type_of_number (type_number (m_dataType p)) = m_dataType p"
  by (cases p) (auto simp: type_number_def type_of_number_def split: PolyType_Type.splits)

section \<open>On the wire\<close>

definition poly_bytes :: "prim \<Rightarrow> U8 list" where
  "poly_bytes v = bytes_of_U32 (type_number (m_dataType (poly_set (PolyType_new 0) v))) @ prim_bytes v"

lemmas prim_codec_ok =
  u8.put_ok i8.put_ok u16.put_ok i16.put_ok u32.put_ok i32.put_ok u64.put_ok i64.put_ok
  f32.put_ok f64.put_ok boolean.put_ok ptr.put_ok

lemmas prim_codec_get =
  u8.get_ok i8.get_ok u16.get_ok i16.get_ok u32.get_ok i32.get_ok u64.get_ok i64.get_ok
  f32.get_ok f64.get_ok boolean.get_ok ptr.get_ok

definition prim_tag :: "prim \<Rightarrow> PolyType_Type" where
  "prim_tag v = m_dataType (poly_set (PolyType_new 0) v)"

lemma prim_tag_simps [simp]:
  "prim_tag (PU8 a) = TYPE_U8" "prim_tag (PI8 b) = TYPE_I8" "prim_tag (PU16 c) = TYPE_U16"
  "prim_tag (PI16 d) = TYPE_I16" "prim_tag (PU32 e) = TYPE_U32" "prim_tag (PI32 f) = TYPE_I32"
  "prim_tag (PU64 g) = TYPE_U64" "prim_tag (PI64 h) = TYPE_I64" "prim_tag (PF32 i) = TYPE_F32"
  "prim_tag (PF64 j) = TYPE_F64" "prim_tag (PBool k) = TYPE_BOOL" "prim_tag (PPtr l) = TYPE_PTR"
  by (simp_all add: prim_tag_def assign_defs)

lemma poly_bytes_tag: "poly_bytes v = bytes_of_U32 (type_number (prim_tag v)) @ prim_bytes v"
  by (simp add: poly_bytes_def prim_tag_def)

lemma serialize_by_value:
  assumes "poly_value p = Some v"
  shows "PolyType_serialize p b =
    ser_then (serialize_I32 b (type_number (prim_tag v))) (\<lambda>b. serialize_prim b v)"
  using assms
  by (cases p) (auto simp: PolyType_serialize_def ser_then_def split_def cong: if_cong split: PolyType_Type.splits)

lemma PolyType_serialize_ok:
  assumes "poly_value p = Some v" "ser_wf b" "length (poly_bytes v) \<le> room b"
  shows "PolyType_serialize p b = Some (FW_SERIALIZE_OK, append_to b (poly_bytes v))"
  using assms
  by (simp add: serialize_by_value poly_bytes_tag i32.put_ok serialize_prim_cases append_to_wf
      append_to_room append_to_append)

lemma PolyType_deserialize_ok:
  assumes "ser_wf b" "unread b = poly_bytes v @ rest"
  shows "\<exists>p'. PolyType_deserialize p b = Some (FW_SERIALIZE_OK, p', consume b (length (poly_bytes v))) \<and>
    poly_value p' = Some v"
proof -
  let ?b = "consume b 4"
  have t: "deserialize_I32 b = Some (Inr (type_number (prim_tag v)), ?b)"
    using i32.get_ok [OF assms(1), of "type_number (prim_tag v)"] assms(2) by (simp add: poly_bytes_tag)
  have "ser_wf ?b" "unread ?b = prim_bytes v @ rest"
    using assms by (simp_all add: consume_wf consume_unread poly_bytes_tag)
  then show ?thesis
    using t by (cases v; cases p)
      (simp_all add: PolyType_deserialize_def union_read_def type_number_def type_of_number_def
        prim_codec_get [unfolded length_bytes_of] bytes_of_bool_def consume_consume poly_bytes_tag Let_def)
qed

text \<open>A value sent and received through fresh objects: one more serializable type of the framework.\<close>

definition poly_send :: "ser_buf \<Rightarrow> prim \<Rightarrow> (SerializeStatus \<times> ser_buf) option" where
  "poly_send b v = PolyType_serialize (poly_set (PolyType_new 0) v) b"

definition poly_receive :: "ser_buf \<Rightarrow> ((SerializeStatus + prim) \<times> ser_buf) option" where
  "poly_receive b = do {
     (stat, p, b) \<leftarrow> PolyType_deserialize (PolyType_new 0) b;
     if stat \<noteq> FW_SERIALIZE_OK then Some (Inl stat, b)
     else do { v \<leftarrow> poly_value p; Some (Inr v, b) }
   }"

interpretation poly: codec poly_send poly_receive poly_bytes
proof
  fix b v assume "ser_wf b" "length (poly_bytes v) \<le> room b"
  then show "poly_send b v = Some (FW_SERIALIZE_OK, append_to b (poly_bytes v))"
    unfolding poly_send_def by (intro PolyType_serialize_ok) simp_all
next
  fix b v rest assume "ser_wf b" "unread b = poly_bytes v @ rest"
  from PolyType_deserialize_ok [OF this, of "PolyType_new 0"]
  show "poly_receive b = Some (Inr v, consume b (length (poly_bytes v)))"
    by (auto simp: poly_receive_def)
qed

section \<open>Programs over variables of the type\<close>

text \<open>
  \<open>Pass x y\<close> sends the variable \<open>y\<close> through a buffer of its serialized size to \<open>x\<close>, without a
  look at the status.
\<close>

datatype poly_stmt = Set_value nat prim | Copy nat nat | Pass nat nat

fun poly_exec :: "poly_stmt \<Rightarrow> PolyType list \<Rightarrow> PolyType list option" where
  "poly_exec (Set_value x v) ps = Some (ps[x := poly_set (ps ! x) v])"
| "poly_exec (Copy x y) ps = Some (ps[x := PolyType_assign (ps ! x) (ps ! y)])"
| "poly_exec (Pass x y) ps = do {
     (stat, b) \<leftarrow> PolyType_serialize (ps ! y) (SerializeBufferBase_new (replicate 12 0));
     (stat, p, b) \<leftarrow> PolyType_deserialize (ps ! x) b;
     Some (ps[x := p])
   }"

fun poly_run :: "poly_stmt list \<Rightarrow> PolyType list \<Rightarrow> PolyType list option" where
  "poly_run [] ps = Some ps"
| "poly_run (s # ss) ps = do { ps \<leftarrow> poly_exec s ps; poly_run ss ps }"

text \<open>The same program over variables that hold a value with its type, or nothing yet.\<close>

fun typed_exec :: "poly_stmt \<Rightarrow> prim option list \<Rightarrow> prim option list" where
  "typed_exec (Set_value x v) vs = vs[x := Some v]"
| "typed_exec (Copy x y) vs = vs[x := vs ! y]"
| "typed_exec (Pass x y) vs = vs[x := vs ! y]"

definition typed_get :: "prim_type \<Rightarrow> prim option \<Rightarrow> prim option" where
  "typed_get t w = (case w of None \<Rightarrow> None | Some v \<Rightarrow> if prim_type_of v = t then Some v else None)"

fun stmt_vars :: "poly_stmt \<Rightarrow> nat set" where
  "stmt_vars (Set_value x v) = {x}" | "stmt_vars (Copy x y) = {x, y}" | "stmt_vars (Pass x y) = {x, y}"

definition poly_ok :: "PolyType \<Rightarrow> bool" where
  "poly_ok p \<longleftrightarrow> poly_value p \<noteq> None \<or> m_dataType p = TYPE_NOTYPE"

lemma length_poly_bytes: "length (poly_bytes v) \<le> 12"
  by (cases v) (simp_all add: poly_bytes_tag bytes_of_bool_def)

lemma empty_buffer: "length xs < 2147483648 \<Longrightarrow> ser_wf (SerializeBufferBase_new xs)"
  "room (SerializeBufferBase_new xs) = length xs" "contents (SerializeBufferBase_new xs) = []"
  by (simp_all add: ser_wf_def room_def contents_def SerializeBufferBase_new_def)

lemma notype_value: "m_dataType p = TYPE_NOTYPE \<Longrightarrow> poly_value p = None"
  by (cases p) simp

lemma pass_ok:
  assumes "poly_ok q"
  shows "\<exists>stat b stat' p' b'. PolyType_serialize q (SerializeBufferBase_new (replicate 12 0)) = Some (stat, b) \<and>
    PolyType_deserialize p b = Some (stat', p', b') \<and> poly_value p' = poly_value q \<and> poly_ok p'"
proof (cases "poly_value q")
  case (Some v)
  let ?empty = "SerializeBufferBase_new (replicate 12 0)" and ?b = "append_to (SerializeBufferBase_new (replicate 12 0)) (poly_bytes v)"
  have fits: "length (poly_bytes v) \<le> room ?empty"
    using length_poly_bytes by (simp add: empty_buffer)
  have s: "PolyType_serialize q ?empty = Some (FW_SERIALIZE_OK, ?b)"
    by (rule PolyType_serialize_ok [OF Some _ fits]) (simp add: empty_buffer)
  have wf: "ser_wf ?b" and u: "unread ?b = poly_bytes v @ []"
    using fits by (simp_all add: append_to_wf append_to_unread empty_buffer)
  obtain p' where "PolyType_deserialize p ?b = Some (FW_SERIALIZE_OK, p', consume ?b (length (poly_bytes v)))"
    "poly_value p' = Some v"
    using PolyType_deserialize_ok [OF wf u] by blast
  with s Some show ?thesis by (auto simp: poly_ok_def)
next
  case None
  let ?empty = "SerializeBufferBase_new (replicate 12 0)" and ?b = "append_to (SerializeBufferBase_new (replicate 12 0)) (bytes_of_U32 0)"
  have t: "m_dataType q = TYPE_NOTYPE" using assms None by (simp add: poly_ok_def)
  have s: "PolyType_serialize q ?empty = Some (FW_SERIALIZE_FORMAT_ERROR, ?b)"
    using t by (simp add: PolyType_serialize_def type_number_def i32.put_ok empty_buffer)
  have "ser_wf ?b" "unread ?b = bytes_of_U32 0 @ []"
    by (simp_all add: append_to_wf append_to_unread empty_buffer)
  then have "deserialize_I32 ?b = Some (Inr 0, consume ?b 4)"
    using i32.get_ok [of ?b 0 "[]"] by simp
  then have "PolyType_deserialize p ?b = Some (FW_DESERIALIZE_FORMAT_ERROR, p\<lparr>m_dataType := TYPE_NOTYPE\<rparr>, consume ?b 4)"
    by (simp add: PolyType_deserialize_def type_of_number_def)
  with s None show ?thesis by (simp add: poly_ok_def notype_value)
qed

lemma poly_exec_typed:
  assumes "stmt_vars s \<subseteq> {..<length ps}" "\<forall>p \<in> set ps. poly_ok p"
  shows "\<exists>ps'. poly_exec s ps = Some ps' \<and> map poly_value ps' = typed_exec s (map poly_value ps) \<and>
    length ps' = length ps \<and> (\<forall>p \<in> set ps'. poly_ok p)"
proof -
  have upd: "\<And>x p. poly_ok p \<Longrightarrow> \<forall>q \<in> set (ps[x := p]). poly_ok q"
    using assms(2) set_update_subset_insert by fastforce
  have ok: "\<And>y. y < length ps \<Longrightarrow> poly_ok (ps ! y)" using assms(2) by simp
  show ?thesis
  proof (cases s)
    case (Set_value x v)
    then show ?thesis using upd [of "poly_set (ps ! x) v" x] by (simp add: map_update poly_ok_def)
  next
    case (Copy x y)
    then have "poly_value (PolyType_assign (ps ! x) (ps ! y)) = poly_value (ps ! y)"
      by (cases "ps ! x"; cases "ps ! y") (simp add: PolyType_assign_def)
    moreover have "poly_ok (PolyType_assign (ps ! x) (ps ! y))"
      using ok [of y] assms(1) Copy calculation by (simp add: poly_ok_def PolyType_assign_def)
    ultimately show ?thesis using assms(1) Copy upd by (simp add: map_update)
  next
    case (Pass x y)
    then obtain stat b stat' p' b' where "PolyType_serialize (ps ! y) (SerializeBufferBase_new (replicate 12 0)) = Some (stat, b)"
      "PolyType_deserialize (ps ! x) b = Some (stat', p', b')" "poly_value p' = poly_value (ps ! y)" "poly_ok p'"
      using pass_ok [OF ok [of y], of "ps ! x"] assms(1) by auto
    then show ?thesis using assms(1) Pass upd [of p' x] by (simp add: map_update)
  qed
qed

lemma poly_run_typed:
  "\<forall>s \<in> set ss. stmt_vars s \<subseteq> {..<length ps} \<Longrightarrow> \<forall>p \<in> set ps. poly_ok p \<Longrightarrow>
   \<exists>ps'. poly_run ss ps = Some ps' \<and> map poly_value ps' = fold typed_exec ss (map poly_value ps)"
proof (induction ss arbitrary: ps)
  case Nil
  then show ?case by simp
next
  case (Cons s ss)
  obtain qs where q: "poly_exec s ps = Some qs" "map poly_value qs = typed_exec s (map poly_value ps)"
    "length qs = length ps" "\<forall>p \<in> set qs. poly_ok p"
    using poly_exec_typed [of s ps] Cons.prems by auto
  have "\<exists>ps'. poly_run ss qs = Some ps' \<and> map poly_value ps' = fold typed_exec ss (map poly_value qs)"
    by (rule Cons.IH) (use Cons.prems q in auto)
  with q show ?case by simp
qed


text \<open>
  C23: a \<open>PolyType\<close> object behaves as a variable with a dynamic type. In every program of assignments of typed
  values, copies and passages through a buffer, over objects whose storage holds anything at the
  start, no assertion fails, and afterwards each object gives its value to \<open>get\<close> of a type exactly
  if the last value that reached it has that type: then \<open>get\<close> returns that value, and for every other
  type the assertion of \<open>get\<close> stops the program.
\<close>

theorem polytype_dynamically_typed:
  assumes "\<forall>s \<in> set ss. stmt_vars s \<subseteq> {..<length stores}"
  shows "\<exists>ps. poly_run ss (map PolyType_new stores) = Some ps \<and>
    (\<forall>t. map (poly_get t) ps = map (typed_get t) (fold typed_exec ss (replicate (length stores) None)))"
proof -
  have n: "poly_value \<circ> PolyType_new = (\<lambda>m. None)"
    by (simp add: fun_eq_iff PolyType_new_def)
  have new: "map poly_value (map PolyType_new stores) = replicate (length stores) None"
    by (simp add: n map_replicate_const)
  have "\<exists>ps. poly_run ss (map PolyType_new stores) = Some ps \<and>
      map poly_value ps = fold typed_exec ss (map poly_value (map PolyType_new stores))"
    by (rule poly_run_typed) (use assms in \<open>simp_all add: poly_ok_def PolyType_new_def\<close>)
  then obtain ps where ps: "poly_run ss (map PolyType_new stores) = Some ps"
    "map poly_value ps = fold typed_exec ss (replicate (length stores) None)"
    unfolding new by blast
  have "\<And>t. poly_get t = typed_get t \<circ> poly_value"
    by (simp add: fun_eq_iff get_by_value typed_get_def)
  then have "\<And>t. map (poly_get t) ps = map (typed_get t) (map poly_value ps)" by simp
  with ps show ?thesis by auto
qed

theorem polytype_dynamically_typed_witness:
  "\<exists>ps. poly_run [Set_value 0 (PU64 0xFFFFFFFFFFFFFFFF), Set_value 0 (PU8 5), Pass 1 0, Copy 2 1]
       (map PolyType_new [7, 8, 9]) = Some ps \<and>
    (\<forall>t. map (poly_get t) ps = map (typed_get t) [Some (PU8 5), Some (PU8 5), Some (PU8 5)])"
  using polytype_dynamically_typed [of "[Set_value 0 (PU64 0xFFFFFFFFFFFFFFFF), Set_value 0 (PU8 5), Pass 1 0, Copy 2 1]" "[7, 8, 9]"]
  by (simp add: numeral_eq_Suc)

text \<open>
  Values sent one after the other through an empty buffer with room for them are received with their
  types and in their order, and nothing is left.
\<close>

theorem polytype_roundtrip:
  assumes "ser_wf b" "contents b = []" "length (concat (map poly_bytes vs)) \<le> room b" "vs \<noteq> []"
  shows "\<exists>b' b''. put_all poly_send b vs = Some (FW_SERIALIZE_OK, b') \<and>
    get_all poly_receive (length vs) b' = Some (Inr vs, b'') \<and> unread b'' = []"
  using poly.roundtrip [OF assms] by metis

theorem polytype_roundtrip_witness:
  "\<exists>b' b''. put_all poly_send (SerializeBufferBase_new (replicate 20 0)) [PI16 (- 2), PBool True, PF32 0] =
      Some (FW_SERIALIZE_OK, b') \<and>
    get_all poly_receive (length [PI16 (- 2), PBool True, PF32 0]) b' =
      Some (Inr [PI16 (- 2), PBool True, PF32 0], b'') \<and> unread b'' = []"
  by (rule polytype_roundtrip)
    (simp_all add: ser_wf_def contents_def room_def SerializeBufferBase_new_def poly_bytes_tag bytes_of_bool_def)

text \<open>
  A failed \<open>deserialize\<close> has changed the object: when the buffer ends behind a type number, the
  object has the new type, and \<open>get\<close> of that type reads the bytes of the old value.
\<close>

theorem failed_deserialize_retypes:
  assumes "ser_wf b" "unread b = bytes_of_U32 (type_number TYPE_U64)"
  shows "\<exists>stat p' b'. PolyType_deserialize p b = Some (stat, p', b') \<and> stat \<noteq> FW_SERIALIZE_OK \<and>
    PolyType_get_U64 p' = Some (m_val p)"
proof -
  have t: "deserialize_I32 b = Some (Inr 7, consume b 4)"
    using i32.get_ok [OF assms(1), of 7 "[]"] assms(2) by (simp add: type_number_def)
  have wf: "ser_wf (consume b 4)" and u: "unread (consume b 4) = []"
    using assms by (simp_all add: consume_wf consume_unread)
  obtain e where e: "deserialize_U64 (consume b 4) = Some (Inl e, consume b 4)" "e \<noteq> FW_SERIALIZE_OK"
    using u64.get_total [OF wf] u64.get_error u by (auto simp: bytes_of_U64_def)
  then have "PolyType_deserialize p b = Some (e, p\<lparr>m_dataType := TYPE_U64\<rparr>, consume b 4)"
    using t by (simp add: PolyType_deserialize_def type_of_number_def union_read_def)
  with e(2) show ?thesis by (simp add: PolyType_get_U64_def union_get_def)
qed

theorem failed_deserialize_retypes_witness:
  "\<exists>stat p' b'. PolyType_deserialize (PolyType_of_U8 0xAABB 5)
      (append_to (SerializeBufferBase_new (replicate 4 0)) (bytes_of_U32 (type_number TYPE_U64))) = Some (stat, p', b') \<and>
    stat \<noteq> FW_SERIALIZE_OK \<and> PolyType_get_U64 p' = Some (m_val (PolyType_of_U8 0xAABB 5))"
  by (rule failed_deserialize_retypes) (simp_all add: append_to_wf append_to_unread empty_buffer)

text \<open>
  Floating point values are never equal, not even to themselves, so the order is not reflexive: for
  equal floating point values \<open>\<le>\<close>, \<open>\<ge>\<close> and \<open>==\<close> are all false.
\<close>

lemma float_not_equal_itself:
  "PolyType_le (PolyType_of_F32 m v) (PolyType_of_F32 m v) = Some False"
  "PolyType_eq (PolyType_of_F64 m w) (PolyType_of_F64 m w) = Some False"
  by (simp_all add: PolyType_le_def PolyType_less_def PolyType_eq_def PolyType_of_F32_def PolyType_of_F64_def
      f32_less_def)

text \<open>On the signed and unsigned integers the operators are the order of the numbers.\<close>

definition prim_number :: "prim \<Rightarrow> int option" where
  "prim_number v = (case v of PU8 a \<Rightarrow> Some (uint a) | PU16 a \<Rightarrow> Some (uint a) | PU32 a \<Rightarrow> Some (uint a)
     | PU64 a \<Rightarrow> Some (uint a) | PI8 a \<Rightarrow> Some (sint a) | PI16 a \<Rightarrow> Some (sint a) | PI32 a \<Rightarrow> Some (sint a)
     | PI64 a \<Rightarrow> Some (sint a) | _ \<Rightarrow> None)"

lemma integer_value:
  "poly_value p = Some (PU8 a8) \<longleftrightarrow> m_dataType p = TYPE_U8 \<and> union_get (m_val p) = a8"
  "poly_value p = Some (PI8 b8) \<longleftrightarrow> m_dataType p = TYPE_I8 \<and> union_get (m_val p) = b8"
  "poly_value p = Some (PU16 a16) \<longleftrightarrow> m_dataType p = TYPE_U16 \<and> union_get (m_val p) = a16"
  "poly_value p = Some (PI16 b16) \<longleftrightarrow> m_dataType p = TYPE_I16 \<and> union_get (m_val p) = b16"
  "poly_value p = Some (PU32 a32) \<longleftrightarrow> m_dataType p = TYPE_U32 \<and> union_get (m_val p) = a32"
  "poly_value p = Some (PI32 b32) \<longleftrightarrow> m_dataType p = TYPE_I32 \<and> union_get (m_val p) = b32"
  "poly_value p = Some (PU64 a64) \<longleftrightarrow> m_dataType p = TYPE_U64 \<and> union_get (m_val p) = a64"
  "poly_value p = Some (PI64 b64) \<longleftrightarrow> m_dataType p = TYPE_I64 \<and> union_get (m_val p) = b64"
  by (cases p; auto split: PolyType_Type.splits)+

lemma prim_number_cases:
  assumes "prim_number v = Some m" "prim_number w = Some n" "prim_type_of v = prim_type_of w"
  obtains (U8) a b where "v = PU8 a" "w = PU8 b" "m = uint a" "n = uint b"
  | (I8) a b where "v = PI8 a" "w = PI8 b" "m = sint a" "n = sint b"
  | (U16) a b where "v = PU16 a" "w = PU16 b" "m = uint a" "n = uint b"
  | (I16) a b where "v = PI16 a" "w = PI16 b" "m = sint a" "n = sint b"
  | (U32) a b where "v = PU32 a" "w = PU32 b" "m = uint a" "n = uint b"
  | (I32) a b where "v = PI32 a" "w = PI32 b" "m = sint a" "n = sint b"
  | (U64) a b where "v = PU64 a" "w = PU64 b" "m = uint a" "n = uint b"
  | (I64) a b where "v = PI64 a" "w = PI64 b" "m = sint a" "n = sint b"
  using assms by (cases v; cases w; simp add: prim_number_def)

lemma integer_less:
  assumes "poly_value p = Some v" "poly_value q = Some w" "prim_number v = Some m" "prim_number w = Some n"
    "prim_type_of v = prim_type_of w"
  shows "PolyType_less p q = Some (m < n)"
  by (rule prim_number_cases [OF assms(3-5)])
    (use assms(1,2) in \<open>simp_all add: integer_value PolyType_less_def word_less_def\<close>)

lemma integer_eq:
  assumes "poly_value p = Some v" "poly_value q = Some w" "prim_number v = Some m" "prim_number w = Some n"
    "prim_type_of v = prim_type_of w"
  shows "PolyType_eq p q = Some (m = n)"
  by (rule prim_number_cases [OF assms(3-5)])
    (use assms(1,2) in \<open>simp_all add: integer_value PolyType_eq_def sint_eq_iff word_uint_eq_iff\<close>)

text \<open>
  Integer values of one type compare as their numbers: exactly one of \<open><\<close>, \<open>==\<close>, \<open>>\<close> holds, and
  the other operators follow.
\<close>

theorem polytype_integers_ordered:
  assumes "poly_value p = Some v" "poly_value q = Some w" "prim_number v = Some m" "prim_number w = Some n"
    "prim_type_of v = prim_type_of w"
  shows "PolyType_less p q = Some (m < n) \<and> PolyType_greater p q = Some (m > n) \<and> PolyType_eq p q = Some (m = n) \<and>
    PolyType_le p q = Some (m \<le> n) \<and> PolyType_ge p q = Some (m \<ge> n) \<and> PolyType_neq p q = Some (m \<noteq> n)"
  using integer_less [OF assms] integer_less [OF assms(2,1,4,3) assms(5) [symmetric]] integer_eq [OF assms]
  by (auto simp: PolyType_greater_def PolyType_le_def PolyType_ge_def PolyType_neq_def)

end
