(* ===== verification/Health.thy ===== *)
theory Health
  imports Cmd_Sequence
begin

text \<open>
  Svc/Health (HealthComponentImpl.cpp and the stub of doOtherChecks): the component that pings the
  active components and reports those that do not answer. The messages of the asynchronous ports
  wait in a queue until \<open>Run\<close> dispatches them. Events, telemetry and port calls go to \<open>he_outs\<close>
  in their order. The texts of the names are HOL strings.
\<close>

section \<open>State and output\<close>

definition NUM_PINGSEND_OUTPUT_PORTS :: nat where "NUM_PINGSEND_OUTPUT_PORTS = 25"

datatype Enabled = DISABLED | ENABLED

record PingEntry =
  warnCycles :: U32
  fatalCycles :: U32
  entryName :: string

record PingTracker =
  pt_entry :: PingEntry
  pt_cycleCount :: U32
  pt_key :: U32
  pt_enabled :: Enabled

datatype health_output =
    PingSend nat U32 | WdogStroke U32
  | HLTH_PING_WARN string | HLTH_PING_LATE string | HLTH_PING_WRONG_KEY string U32
  | HLTH_CHECK_ENABLE Enabled | HLTH_CHECK_PING Enabled string | HLTH_CHECK_LOOKUP_ERROR string
  | HLTH_PING_UPDATED string U32 U32 | HLTH_PING_INVALID_VALUES string U32 U32
  | PingLateWarnings U32 | HlthCmdResponse U32 U32 CmdResponse

datatype health_message =
    Msg_PingReturn nat U32
  | Msg_HLTH_ENABLE U32 U32 Enabled
  | Msg_HLTH_PING_ENABLE U32 U32 string Enabled
  | Msg_HLTH_CHNG_PING U32 U32 string U32 U32

record HealthImpl =
  he_entries :: "PingTracker list"
  he_numPingEntries :: U32
  he_key :: U32
  he_watchDogCode :: U32
  he_warnings :: U32
  he_enabled :: Enabled
  he_queue_depth :: U32
  he_queue :: "health_message list"
  he_wdogConnected :: bool
  he_outs :: "health_output list"

definition he_out :: "health_output list \<Rightarrow> HealthImpl \<Rightarrow> HealthImpl" where
  "he_out vs h = h\<lparr>he_outs := he_outs h @ vs\<rparr>"

text \<open>\<open>ts\<close> is what the table held; \<open>init\<close> gets the depth of the queue.\<close>

definition HealthImpl_new :: "PingTracker list \<Rightarrow> bool \<Rightarrow> HealthImpl" where
  "HealthImpl_new ts wdog = \<lparr>he_entries = map (\<lambda>t. t\<lparr>pt_enabled := DISABLED\<rparr>) ts, he_numPingEntries = 0, he_key = 0,
     he_watchDogCode = 0, he_warnings = 0, he_enabled = ENABLED, he_queue_depth = 0, he_queue = [],
     he_wdogConnected = wdog, he_outs = []\<rparr>"

definition Health_init :: "int \<Rightarrow> HealthImpl \<Rightarrow> HealthImpl" where
  "Health_init queueDepth h = h\<lparr>he_queue_depth := of_int queueDepth\<rparr>"

fun setPingEntries_loop :: "nat \<Rightarrow> PingEntry list \<Rightarrow> PingTracker list \<Rightarrow> PingTracker list option" where
  "setPingEntries_loop entry [] ts = Some ts"
| "setPingEntries_loop entry (e # es) ts = do {
     fw_assert (warnCycles e \<le> fatalCycles e);
     setPingEntries_loop (entry + 1) es
       (ts[entry := (ts ! entry)\<lparr>pt_entry := e, pt_cycleCount := 0, pt_enabled := ENABLED, pt_key := 0\<rparr>])
   }"

definition setPingEntries :: "PingEntry list option \<Rightarrow> int \<Rightarrow> U32 \<Rightarrow> HealthImpl \<Rightarrow> HealthImpl option" where
  "setPingEntries pingEntries numPingEntries watchDogCode h = do {
     es \<leftarrow> pingEntries;
     fw_assert (numPingEntries \<le> int NUM_PINGSEND_OUTPUT_PORTS);
     es \<leftarrow> read_at es 0 (nat numPingEntries);
     ts \<leftarrow> setPingEntries_loop 0 es (he_entries h);
     Some (h\<lparr>he_numPingEntries := of_int numPingEntries, he_watchDogCode := watchDogCode, he_entries := ts\<rparr>)
   }"

section \<open>Messages\<close>

text \<open>The generated base class asserts the range of a port number.\<close>

definition PingReturn_handler :: "nat \<Rightarrow> U32 \<Rightarrow> HealthImpl \<Rightarrow> HealthImpl option" where
  "PingReturn_handler portNum key h = do {
     fw_assert (portNum < NUM_PINGSEND_OUTPUT_PORTS);
     let t = he_entries h ! portNum;
     Some (if key \<noteq> pt_key t
           then he_out [HLTH_PING_WRONG_KEY (LogStringArg_of (entryName (pt_entry t))) key] h
           else h\<lparr>he_entries := (he_entries h)[portNum := t\<lparr>pt_cycleCount := 0, pt_key := 0\<rparr>]\<rparr>)
   }"

text \<open>\<^const>\<open>None\<close> is the index -1.\<close>

definition findEntry :: "string \<Rightarrow> HealthImpl \<Rightarrow> nat option \<times> HealthImpl" where
  "findEntry entry h =
     (case first_index (\<lambda>t. entry = entryName (pt_entry t)) (he_entries h) of
        Some tableEntry \<Rightarrow> (Some tableEntry, h)
      | None \<Rightarrow> (None, he_out [HLTH_CHECK_LOOKUP_ERROR (LogStringArg_of entry)] h))"

definition HLTH_ENABLE_cmdHandler :: "U32 \<Rightarrow> U32 \<Rightarrow> Enabled \<Rightarrow> HealthImpl \<Rightarrow> HealthImpl" where
  "HLTH_ENABLE_cmdHandler opCode cmdSeq enable h =
     (let h = h\<lparr>he_enabled := enable\<rparr>;
          isEnabled = (if enable = ENABLED then ENABLED else DISABLED)
      in he_out [HLTH_CHECK_ENABLE isEnabled, HlthCmdResponse opCode cmdSeq CmdResponse_OK] h)"

definition HLTH_PING_ENABLE_cmdHandler :: "U32 \<Rightarrow> U32 \<Rightarrow> string \<Rightarrow> Enabled \<Rightarrow> HealthImpl \<Rightarrow> HealthImpl" where
  "HLTH_PING_ENABLE_cmdHandler opCode cmdSeq entry enable h =
     (case findEntry entry h of
        (None, h) \<Rightarrow> he_out [HlthCmdResponse opCode cmdSeq VALIDATION_ERROR] h
      | (Some entryIndex, h) \<Rightarrow>
          if enable \<noteq> DISABLED \<and> enable \<noteq> ENABLED then he_out [HlthCmdResponse opCode cmdSeq VALIDATION_ERROR] h
          else
            let h = h\<lparr>he_entries := (he_entries h)[entryIndex := (he_entries h ! entryIndex)\<lparr>pt_enabled := enable\<rparr>]\<rparr>;
                isEnabled = (if enable = ENABLED then ENABLED else DISABLED)
            in he_out [HLTH_CHECK_PING isEnabled (LogStringArg_of entry), HlthCmdResponse opCode cmdSeq CmdResponse_OK] h)"

definition HLTH_CHNG_PING_cmdHandler :: "U32 \<Rightarrow> U32 \<Rightarrow> string \<Rightarrow> U32 \<Rightarrow> U32 \<Rightarrow> HealthImpl \<Rightarrow> HealthImpl" where
  "HLTH_CHNG_PING_cmdHandler opCode cmdSeq entry warningValue fatalValue h =
     (case findEntry entry h of
        (None, h) \<Rightarrow> he_out [HlthCmdResponse opCode cmdSeq VALIDATION_ERROR] h
      | (Some entryIndex, h) \<Rightarrow>
          if warningValue > fatalValue
          then he_out [HLTH_PING_INVALID_VALUES (LogStringArg_of entry) warningValue fatalValue,
                       HlthCmdResponse opCode cmdSeq VALIDATION_ERROR] h
          else
            let t = he_entries h ! entryIndex;
                h = h\<lparr>he_entries := (he_entries h)[entryIndex :=
                   t\<lparr>pt_entry := (pt_entry t)\<lparr>warnCycles := warningValue, fatalCycles := fatalValue\<rparr>\<rparr>]\<rparr>
            in he_out [HLTH_PING_UPDATED (LogStringArg_of entry) warningValue fatalValue,
                       HlthCmdResponse opCode cmdSeq CmdResponse_OK] h)"

definition health_handle :: "health_message \<Rightarrow> HealthImpl \<Rightarrow> HealthImpl option" where
  "health_handle m h = (case m of
     Msg_PingReturn portNum key \<Rightarrow> PingReturn_handler portNum key h
   | Msg_HLTH_ENABLE opCode cmdSeq enable \<Rightarrow> Some (HLTH_ENABLE_cmdHandler opCode cmdSeq enable h)
   | Msg_HLTH_PING_ENABLE opCode cmdSeq entry enable \<Rightarrow> Some (HLTH_PING_ENABLE_cmdHandler opCode cmdSeq entry enable h)
   | Msg_HLTH_CHNG_PING opCode cmdSeq entry w f \<Rightarrow> Some (HLTH_CHNG_PING_cmdHandler opCode cmdSeq entry w f h))"

section \<open>The cycle\<close>

fun health_dispatch :: "nat \<Rightarrow> HealthImpl \<Rightarrow> HealthImpl option" where
  "health_dispatch 0 h = Some h"
| "health_dispatch (Suc n) h =
     (case he_queue h of
        [] \<Rightarrow> Some h
      | m # ms \<Rightarrow> do {
          h \<leftarrow> health_handle m (h\<lparr>he_queue := ms\<rparr>);
          health_dispatch n h
        })"

definition check_entry :: "nat \<Rightarrow> HealthImpl \<Rightarrow> HealthImpl" where
  "check_entry entry h =
     (let t = he_entries h ! entry in
      if ENABLED = pt_enabled t then
        if 0 = pt_cycleCount t
        then
          let t = t\<lparr>pt_key := he_key h\<rparr>;
              h = he_out [PingSend entry (pt_key t)] h;
              h = h\<lparr>he_key := he_key h + 1\<rparr>;
              t = t\<lparr>pt_cycleCount := pt_cycleCount t + 1\<rparr>
          in h\<lparr>he_entries := (he_entries h)[entry := t]\<rparr>
        else
          let nm = LogStringArg_of (entryName (pt_entry t));
              h = (if pt_cycleCount t = warnCycles (pt_entry t)
                   then he_out [HLTH_PING_WARN nm, PingLateWarnings (he_warnings h + 1)] (h\<lparr>he_warnings := he_warnings h + 1\<rparr>)
                   else if fatalCycles (pt_entry t) = pt_cycleCount t then he_out [HLTH_PING_LATE nm] h
                   else h)
          in h\<lparr>he_entries := (he_entries h)[entry := t\<lparr>pt_cycleCount := pt_cycleCount t + 1\<rparr>]\<rparr>
      else h)"

definition doOtherChecks :: "HealthImpl \<Rightarrow> HealthImpl" where
  "doOtherChecks h = h"

text \<open>A number of entries beyond the table leaves the array: no next state.\<close>

definition health_Run_handler :: "HealthImpl \<Rightarrow> HealthImpl option" where
  "health_Run_handler h = do {
     h \<leftarrow> health_dispatch (unat (he_queue_depth h)) h;
     h \<leftarrow> (if he_enabled h = ENABLED
          then do {
            fw_assert (unat (he_numPingEntries h) \<le> length (he_entries h));
            Some (doOtherChecks (fold check_entry [0..<unat (he_numPingEntries h)] h))
          }
          else Some h);
     Some (if he_wdogConnected h then he_out [WdogStroke (he_watchDogCode h)] h else h)
   }"


section \<open>One entry\<close>

text \<open>What a run says of an entry.\<close>

datatype verdict = Pinged | Warned | Declared_dead | Quiet

definition verdict_of :: "nat \<Rightarrow> string \<Rightarrow> health_output list \<Rightarrow> verdict" where
  "verdict_of i nm outs =
     (if \<exists>key. PingSend i key \<in> set outs then Pinged else if HLTH_PING_WARN nm \<in> set outs then Warned
      else if HLTH_PING_LATE nm \<in> set outs then Declared_dead else Quiet)"

text \<open>Messages that only return pings; \<open>answers\<close> says whether the right key for entry \<open>i\<close> is among them.\<close>

definition returns_only :: "health_message list \<Rightarrow> bool" where
  "returns_only ms \<longleftrightarrow> (\<forall>m \<in> set ms. \<exists>p key. m = Msg_PingReturn p key \<and> p < NUM_PINGSEND_OUTPUT_PORTS)"

definition answers :: "nat \<Rightarrow> U32 \<Rightarrow> health_message list \<Rightarrow> bool" where
  "answers i key ms \<longleftrightarrow> Msg_PingReturn i key \<in> set ms"

text \<open>The runs of the component; before each of them a batch of messages arrives.\<close>

fun health_runs :: "health_message list list \<Rightarrow> HealthImpl \<Rightarrow> (health_output list list \<times> HealthImpl) option" where
  "health_runs [] h = Some ([], h)"
| "health_runs (ms # mss) h = do {
     h1 \<leftarrow> health_Run_handler (h\<lparr>he_queue := he_queue h @ ms, he_outs := []\<rparr>);
     (os, h2) \<leftarrow> health_runs mss h1;
     Some (he_outs h1 # os, h2)
   }"

text \<open>Entry \<open>i\<close> of a component with distinct names, all messages of a batch fit one run.\<close>

definition watched :: "nat \<Rightarrow> PingEntry \<Rightarrow> HealthImpl \<Rightarrow> bool" where
  "watched i e h \<longleftrightarrow> length (he_entries h) = NUM_PINGSEND_OUTPUT_PORTS \<and> he_enabled h = ENABLED \<and> he_queue h = [] \<and>
     i < unat (he_numPingEntries h) \<and> unat (he_numPingEntries h) \<le> NUM_PINGSEND_OUTPUT_PORTS \<and>
     pt_entry (he_entries h ! i) = e \<and> pt_enabled (he_entries h ! i) = ENABLED \<and>
     distinct (map (\<lambda>t. LogStringArg_of (entryName (pt_entry t))) (take (unat (he_numPingEntries h)) (he_entries h)))"

text \<open>What a step may change: counters and keys of trackers, outputs, the next key, the warnings.\<close>

definition same_setup :: "HealthImpl \<Rightarrow> HealthImpl \<Rightarrow> bool" where
  "same_setup h h' \<longleftrightarrow> map pt_entry (he_entries h') = map pt_entry (he_entries h) \<and>
     map pt_enabled (he_entries h') = map pt_enabled (he_entries h) \<and> he_numPingEntries h' = he_numPingEntries h \<and>
     he_enabled h' = he_enabled h \<and> he_queue_depth h' = he_queue_depth h \<and> he_wdogConnected h' = he_wdogConnected h"

lemma same_setup_refl [simp]: "same_setup h h"
  by (simp add: same_setup_def)

lemma same_setup_trans: "same_setup a b \<Longrightarrow> same_setup b c \<Longrightarrow> same_setup a c"
  by (simp add: same_setup_def)

lemma setup_nth:
  assumes "same_setup h h'"
  shows "length (he_entries h') = length (he_entries h)"
    "j < length (he_entries h) \<Longrightarrow> pt_entry (he_entries h' ! j) = pt_entry (he_entries h ! j)"
    "j < length (he_entries h) \<Longrightarrow> pt_enabled (he_entries h' ! j) = pt_enabled (he_entries h ! j)"
proof -
  show l: "length (he_entries h') = length (he_entries h)"
    using assms by (simp add: same_setup_def) (metis length_map)
  assume j: "j < length (he_entries h)"
  have "map pt_entry (he_entries h') ! j = map pt_entry (he_entries h) ! j"
    "map pt_enabled (he_entries h') ! j = map pt_enabled (he_entries h) ! j"
    using assms by (simp_all add: same_setup_def)
  then show "pt_entry (he_entries h' ! j) = pt_entry (he_entries h ! j)"
    "pt_enabled (he_entries h' ! j) = pt_enabled (he_entries h ! j)" using j l by simp_all
qed

lemma watched_setup:
  assumes "watched i e h" "same_setup h h'" "he_queue h' = []"
  shows "watched i e h'"
proof -
  let ?L = "\<lambda>e. LogStringArg_of (entryName e)"
  have i: "i < length (he_entries h)" using assms(1) by (simp add: watched_def)
  have m: "map (\<lambda>t. ?L (pt_entry t)) xs = map ?L (map pt_entry xs)" for xs
    by simp
  have "distinct (map (\<lambda>t. ?L (pt_entry t)) (take (unat (he_numPingEntries h)) (he_entries h')))"
    using assms(1,2) unfolding m watched_def same_setup_def take_map [symmetric] by metis
  then show ?thesis
    using assms i setup_nth [OF assms(2)] by (simp add: watched_def same_setup_def)
qed

lemma verdict_append:
  "verdict_of i nm a = Quiet \<Longrightarrow> verdict_of i nm (a @ b) = verdict_of i nm b"
  "verdict_of i nm b = Quiet \<Longrightarrow> verdict_of i nm (a @ b) = verdict_of i nm a"
  by (auto simp: verdict_of_def split: if_splits)

lemma verdict_of_Nil [simp]: "verdict_of i nm [] = Quiet"
  by (simp add: verdict_of_def)

text \<open>What a step that says nothing about entry \<open>i\<close> does.\<close>

definition silent_about :: "nat \<Rightarrow> string \<Rightarrow> HealthImpl \<Rightarrow> HealthImpl \<Rightarrow> bool" where
  "silent_about i nm h h' \<longleftrightarrow> same_setup h h' \<and> he_queue h' = he_queue h \<and>
     (\<exists>os. he_outs h' = he_outs h @ os \<and> verdict_of i nm os = Quiet)"

lemma silent_refl: "silent_about i nm h h"
  by (simp add: silent_about_def)

lemma silent_trans:
  assumes "silent_about i nm a b" "silent_about i nm b c"
  shows "silent_about i nm a c"
proof -
  obtain u v where "he_outs b = he_outs a @ u" "verdict_of i nm u = Quiet" "he_outs c = he_outs b @ v" "verdict_of i nm v = Quiet"
    using assms by (auto simp: silent_about_def)
  then have "he_outs c = he_outs a @ (u @ v) \<and> verdict_of i nm (u @ v) = Quiet" by (simp add: verdict_append)
  then show ?thesis using assms same_setup_trans unfolding silent_about_def by metis
qed

text \<open>The dispatch of returned pings.\<close>

lemma return_step:
  assumes "p < NUM_PINGSEND_OUTPUT_PORTS" "length (he_entries h) = NUM_PINGSEND_OUTPUT_PORTS"
  shows "\<exists>h'. PingReturn_handler p key h = Some h' \<and> silent_about i nm h h' \<and>
    (pt_cycleCount (he_entries h' ! i), pt_key (he_entries h' ! i)) =
      (if p = i \<and> key = pt_key (he_entries h ! i) then (0, 0) else (pt_cycleCount (he_entries h ! i), pt_key (he_entries h ! i)))"
  using assms
  by (auto simp: PingReturn_handler_def Let_def he_out_def silent_about_def same_setup_def verdict_of_def nth_list_update
      map_update list_update_same_conv)

lemma dispatch_returns:
  assumes "he_queue h = ms" "returns_only ms" "length ms \<le> n" "length (he_entries h) = NUM_PINGSEND_OUTPUT_PORTS"
  shows "\<exists>h'. health_dispatch n h = Some h' \<and> silent_about i nm (h\<lparr>he_queue := []\<rparr>) h' \<and>
    (pt_cycleCount (he_entries h' ! i), pt_key (he_entries h' ! i)) =
      (if answers i (pt_key (he_entries h ! i)) ms then (0, 0)
       else (pt_cycleCount (he_entries h ! i), pt_key (he_entries h ! i)))"
  using assms
proof (induction ms arbitrary: h n)
  case Nil
  have e: "h\<lparr>he_queue := []\<rparr> = h" using Nil.prems(1) by simp
  have "silent_about i nm (h\<lparr>he_queue := []\<rparr>) h" unfolding e by (rule silent_refl)
  then show ?case using Nil.prems(1) by (cases n) (simp_all add: answers_def)
next
  case (Cons m ms)
  obtain n' where n: "n = Suc n'" using Cons.prems(3) by (cases n) simp_all
  have "\<exists>p key. m = Msg_PingReturn p key \<and> p < NUM_PINGSEND_OUTPUT_PORTS"
    using Cons.prems(2) by (simp add: returns_only_def)
  then obtain p key where m: "m = Msg_PingReturn p key" "p < NUM_PINGSEND_OUTPUT_PORTS" by blast
  let ?g = "h\<lparr>he_queue := ms\<rparr>" and ?t = "he_entries h ! i"
  obtain g where g: "PingReturn_handler p key ?g = Some g" "silent_about i nm ?g g"
    "(pt_cycleCount (he_entries g ! i), pt_key (he_entries g ! i)) =
      (if p = i \<and> key = pt_key ?t then (0, 0) else (pt_cycleCount ?t, pt_key ?t))"
    using return_step [OF m(2), of ?g key i nm] Cons.prems(4) by auto
  have q: "he_queue g = ms" "length (he_entries g) = NUM_PINGSEND_OUTPUT_PORTS"
    using g(2) setup_nth(1) [of ?g g] Cons.prems(4) by (simp_all add: silent_about_def)
  have r: "returns_only ms" "length ms \<le> n'" using Cons.prems(2,3) n by (simp_all add: returns_only_def)
  obtain h' where h': "health_dispatch n' g = Some h'" "silent_about i nm (g\<lparr>he_queue := []\<rparr>) h'"
    "(pt_cycleCount (he_entries h' ! i), pt_key (he_entries h' ! i)) =
      (if answers i (pt_key (he_entries g ! i)) ms then (0, 0) else (pt_cycleCount (he_entries g ! i), pt_key (he_entries g ! i)))"
    using Cons.IH [OF q(1) r q(2)] by blast
  have "silent_about i nm (h\<lparr>he_queue := []\<rparr>) (g\<lparr>he_queue := []\<rparr>)"
    using g(2) by (simp add: silent_about_def same_setup_def)
  then have "silent_about i nm (h\<lparr>he_queue := []\<rparr>) h'" using h'(2) silent_trans by blast
  moreover have "health_dispatch n h = Some h'"
    using g(1) h'(1) m(1) Cons.prems(1) by (simp add: n health_handle_def)
  moreover have "answers i (pt_key ?t) (m # ms) \<longleftrightarrow> (p = i \<and> key = pt_key ?t) \<or> answers i (pt_key ?t) ms"
    using m(1) by (auto simp: answers_def)
  ultimately show ?case using h'(3) g(3) by (auto split: if_splits)
qed

text \<open>The checks of the other entries.\<close>

definition names_distinct :: "HealthImpl \<Rightarrow> bool" where
  "names_distinct h \<longleftrightarrow> distinct (map (\<lambda>t. LogStringArg_of (entryName (pt_entry t))) (take (unat (he_numPingEntries h)) (he_entries h)))"

abbreviation log_name :: "nat \<Rightarrow> HealthImpl \<Rightarrow> string" where
  "log_name i h \<equiv> LogStringArg_of (entryName (pt_entry (he_entries h ! i)))"

lemma map_same_update: "f y = f (xs ! j) \<Longrightarrow> map f (xs[j := y]) = map f xs"
  by (cases "j < length xs") (simp_all add: map_update list_update_same_conv list_update_beyond)

lemma check_setup: "same_setup h (check_entry j h) \<and> he_queue (check_entry j h) = he_queue h"
  by (simp add: check_entry_def Let_def he_out_def same_setup_def map_same_update)

lemma check_other:
  assumes "j \<noteq> i" "log_name j h \<noteq> nm"
  shows "silent_about i nm h (check_entry j h) \<and> he_entries (check_entry j h) ! i = he_entries h ! i"
proof -
  have "\<exists>os. he_outs (check_entry j h) = he_outs h @ os \<and> verdict_of i nm os = Quiet"
    using assms by (auto simp: check_entry_def Let_def he_out_def verdict_of_def)
  moreover have "he_entries (check_entry j h) ! i = he_entries h ! i"
    using assms(1) by (auto simp: check_entry_def Let_def he_out_def)
  ultimately show ?thesis using check_setup by (auto simp: silent_about_def)
qed

lemma check_others:
  assumes "\<forall>j \<in> set js. j \<noteq> i \<and> j < length (he_entries h) \<and> log_name j h \<noteq> nm"
  shows "silent_about i nm h (fold check_entry js h) \<and> he_entries (fold check_entry js h) ! i = he_entries h ! i"
  using assms
proof (induction js arbitrary: h)
  case Nil
  then show ?case by (simp add: silent_refl)
next
  case (Cons j js)
  have j: "silent_about i nm h (check_entry j h)" "he_entries (check_entry j h) ! i = he_entries h ! i"
    using check_other [of j i h nm] Cons.prems by auto
  then have "same_setup h (check_entry j h)" by (simp add: silent_about_def)
  then have "\<forall>j' \<in> set js. j' \<noteq> i \<and> j' < length (he_entries (check_entry j h)) \<and> log_name j' (check_entry j h) \<noteq> nm"
    using Cons.prems by (simp add: setup_nth)
  then show ?case using Cons.IH [of "check_entry j h"] j silent_trans by auto
qed

text \<open>The check of the entry itself.\<close>

definition count_verdict :: "PingEntry \<Rightarrow> U32 \<Rightarrow> verdict" where
  "count_verdict e c = (if c = 0 then Pinged else if c = warnCycles e then Warned
     else if c = fatalCycles e then Declared_dead else Quiet)"

lemma check_self:
  fixes h i
  defines "t \<equiv> he_entries h ! i" and "h' \<equiv> check_entry i h"
  assumes "i < length (he_entries h)" "pt_enabled t = ENABLED"
  shows "\<exists>os. he_outs h' = he_outs h @ os \<and> verdict_of i (log_name i h) os = count_verdict (pt_entry t) (pt_cycleCount t) \<and>
    pt_cycleCount (he_entries h' ! i) = pt_cycleCount t + 1 \<and>
    (if pt_cycleCount t = 0 then PingSend i (pt_key (he_entries h' ! i)) \<in> set os
     else pt_key (he_entries h' ! i) = pt_key t)"
  using assms(3,4) unfolding h'_def t_def
  by (auto simp: check_entry_def Let_def he_out_def verdict_of_def count_verdict_def)


section \<open>A run\<close>

lemma check_all:
  fixes h i
  defines "t \<equiv> he_entries h ! i" and "h' \<equiv> fold check_entry [0..<unat (he_numPingEntries h)] h"
  assumes w: "watched i e h"
  shows "\<exists>os. he_outs h' = he_outs h @ os \<and> same_setup h h' \<and> he_queue h' = he_queue h \<and>
    verdict_of i (LogStringArg_of (entryName e)) os = count_verdict e (pt_cycleCount t) \<and>
    pt_cycleCount (he_entries h' ! i) = pt_cycleCount t + 1 \<and>
    (if pt_cycleCount t = 0 then PingSend i (pt_key (he_entries h' ! i)) \<in> set os else pt_key (he_entries h' ! i) = pt_key t)"
proof -
  let ?nm = "LogStringArg_of (entryName e)" and ?n = "unat (he_numPingEntries h)"
  have i: "i < ?n" "?n \<le> length (he_entries h)" and t: "pt_entry t = e" "pt_enabled t = ENABLED"
    using w by (simp_all add: watched_def t_def)
  have names: "log_name j h \<noteq> ?nm" if "j < ?n" "j \<noteq> i" for j
  proof
    assume a: "log_name j h = ?nm"
    have d: "distinct (map (\<lambda>t. LogStringArg_of (entryName (pt_entry t))) (take ?n (he_entries h)))"
      using w by (simp add: watched_def)
    show False using nth_eq_iff_index_eq [OF d, of j i] that i a t(1) by (simp add: t_def)
  qed
  let ?a = "fold check_entry [0..<i] h"
  have a: "silent_about i ?nm h ?a \<and> he_entries ?a ! i = t"
    unfolding t_def by (rule check_others) (use names i in auto)
  then obtain oa where oa: "he_outs ?a = he_outs h @ oa" "verdict_of i ?nm oa = Quiet" by (auto simp: silent_about_def)
  have sa: "same_setup h ?a" using a by (simp add: silent_about_def)
  let ?b = "check_entry i ?a"
  have ia: "i < length (he_entries ?a)" "pt_enabled (he_entries ?a ! i) = ENABLED" using setup_nth [OF sa] i a t by simp_all
  obtain ob where ob: "he_outs ?b = he_outs ?a @ ob" "verdict_of i ?nm ob = count_verdict e (pt_cycleCount t)"
    "pt_cycleCount (he_entries ?b ! i) = pt_cycleCount t + 1"
    "if pt_cycleCount t = 0 then PingSend i (pt_key (he_entries ?b ! i)) \<in> set ob else pt_key (he_entries ?b ! i) = pt_key t"
    using check_self [OF ia] a t by auto
  have sb: "same_setup h ?b" using sa check_setup same_setup_trans by blast
  let ?c = "fold check_entry [Suc i..<?n] ?b"
  have c: "silent_about i ?nm ?b ?c \<and> he_entries ?c ! i = he_entries ?b ! i"
    by (rule check_others) (use names i setup_nth [OF sb] in auto)
  then obtain oc where oc: "he_outs ?c = he_outs ?b @ oc" "verdict_of i ?nm oc = Quiet" by (auto simp: silent_about_def)
  have split: "[0..<?n] = [0..<i] @ i # [Suc i..<?n]"
    using upt_add_eq_append [of 0 i "?n - i"] upt_conv_Cons [of i ?n] i(1) by simp
  have h': "h' = ?c" by (simp add: h'_def split)
  have "same_setup h ?c" "he_queue ?c = he_queue h"
    using same_setup_trans [OF sb] c a check_setup [of ?a i] by (simp_all add: silent_about_def)
  then show ?thesis
    unfolding h' using oa ob oc c by (intro exI [of _ "oa @ ob @ oc"]) (auto simp: verdict_append)
qed

lemma health_step:
  fixes h i ms
  defines "t \<equiv> he_entries h ! i"
  defines "c \<equiv> (if answers i (pt_key t) ms then 0 else pt_cycleCount t)"
  assumes w: "watched i e h" and ms: "returns_only ms" "length ms \<le> unat (he_queue_depth h)"
  shows "\<exists>h'. health_Run_handler (h\<lparr>he_queue := he_queue h @ ms, he_outs := []\<rparr>) = Some h' \<and> watched i e h' \<and>
    he_queue_depth h' = he_queue_depth h \<and>
    verdict_of i (LogStringArg_of (entryName e)) (he_outs h') = count_verdict e c \<and>
    pt_cycleCount (he_entries h' ! i) = c + 1 \<and>
    (if c = 0 then PingSend i (pt_key (he_entries h' ! i)) \<in> set (he_outs h') else pt_key (he_entries h' ! i) = pt_key t)"
proof -
  let ?nm = "LogStringArg_of (entryName e)" and ?h = "h\<lparr>he_queue := ms, he_outs := []\<rparr>"
  have h0: "h\<lparr>he_queue := he_queue h @ ms, he_outs := []\<rparr> = ?h" "length (he_entries h) = NUM_PINGSEND_OUTPUT_PORTS"
    using w by (simp_all add: watched_def)
  obtain h1 where h1: "health_dispatch (unat (he_queue_depth h)) ?h = Some h1" "silent_about i ?nm (?h\<lparr>he_queue := []\<rparr>) h1"
    "(pt_cycleCount (he_entries h1 ! i), pt_key (he_entries h1 ! i)) =
      (if answers i (pt_key t) ms then (0, 0) else (pt_cycleCount t, pt_key t))"
    using dispatch_returns [of ?h ms "unat (he_queue_depth h)" i ?nm] ms h0(2) unfolding t_def by auto
  have s1: "same_setup h h1" "he_queue h1 = []" using h1(2) by (simp_all add: silent_about_def same_setup_def)
  have o1: "verdict_of i ?nm (he_outs h1) = Quiet" using h1(2) by (auto simp: silent_about_def)
  have w1: "watched i e h1" by (rule watched_setup [OF w s1])
  have c1: "pt_cycleCount (he_entries h1 ! i) = c" "c \<noteq> 0 \<Longrightarrow> pt_key (he_entries h1 ! i) = pt_key t"
    using h1(3) by (auto simp: c_def split: if_splits)
  let ?c = "fold check_entry [0..<unat (he_numPingEntries h1)] h1"
  obtain os where os: "he_outs ?c = he_outs h1 @ os" "same_setup h1 ?c" "he_queue ?c = he_queue h1"
    "verdict_of i ?nm os = count_verdict e c" "pt_cycleCount (he_entries ?c ! i) = c + 1"
    "if c = 0 then PingSend i (pt_key (he_entries ?c ! i)) \<in> set os else pt_key (he_entries ?c ! i) = pt_key t"
    using check_all [OF w1] c1 by auto
  let ?ws = "if he_wdogConnected ?c then [WdogStroke (he_watchDogCode ?c)] else []"
  let ?h' = "?c\<lparr>he_outs := he_outs ?c @ ?ws\<rparr>"
  have "health_Run_handler ?h = Some ?h'"
    using h1(1) w1 by (simp add: health_Run_handler_def watched_def doOtherChecks_def he_out_def)
  moreover have sc: "same_setup h ?c" "he_queue ?c = []" using same_setup_trans [OF s1(1) os(2)] os(3) s1(2) by simp_all
  then have "watched i e ?h'" by (intro watched_setup [OF w]) (simp_all add: same_setup_def)
  moreover have "he_queue_depth ?h' = he_queue_depth h" using sc(1) by (simp add: same_setup_def)
  moreover have "verdict_of i ?nm (os @ ?ws) = count_verdict e c"
    using os(4) by (simp add: verdict_append(2) verdict_of_def [of _ _ "[_]"])
  then have "verdict_of i ?nm (he_outs ?h') = count_verdict e c" using os(1) o1 by (simp add: verdict_append(1))
  ultimately show ?thesis unfolding h0(1) using os(1,5,6) by (intro exI [of _ ?h']) auto
qed


section \<open>Runs\<close>

definition batches_ok :: "HealthImpl \<Rightarrow> health_message list list \<Rightarrow> bool" where
  "batches_ok h mss \<longleftrightarrow> list_all (\<lambda>ms. returns_only ms \<and> length ms \<le> unat (he_queue_depth h)) mss"

lemma health_runs_Cons:
  assumes "watched i e h" "batches_ok h (ms # mss)"
  obtains h1 where "watched i e h1" "batches_ok h1 mss"
    "health_runs (ms # mss) h = map_option (\<lambda>(os, h2). (he_outs h1 # os, h2)) (health_runs mss h1)"
    "verdict_of i (LogStringArg_of (entryName e)) (he_outs h1) = count_verdict e
      (if answers i (pt_key (he_entries h ! i)) ms then 0 else pt_cycleCount (he_entries h ! i))"
    "pt_cycleCount (he_entries h1 ! i) =
      (if answers i (pt_key (he_entries h ! i)) ms then 0 else pt_cycleCount (he_entries h ! i)) + 1"
    "if answers i (pt_key (he_entries h ! i)) ms \<or> pt_cycleCount (he_entries h ! i) = 0
     then PingSend i (pt_key (he_entries h1 ! i)) \<in> set (he_outs h1) else pt_key (he_entries h1 ! i) = pt_key (he_entries h ! i)"
proof -
  have "returns_only ms" "length ms \<le> unat (he_queue_depth h)" using assms(2) by (simp_all add: batches_ok_def)
  from health_step [OF assms(1) this] obtain h1 where h1:
    "health_Run_handler (h\<lparr>he_queue := he_queue h @ ms, he_outs := []\<rparr>) = Some h1" "watched i e h1"
    "he_queue_depth h1 = he_queue_depth h" and r: "verdict_of i (LogStringArg_of (entryName e)) (he_outs h1) = count_verdict e
      (if answers i (pt_key (he_entries h ! i)) ms then 0 else pt_cycleCount (he_entries h ! i))"
    "pt_cycleCount (he_entries h1 ! i) =
      (if answers i (pt_key (he_entries h ! i)) ms then 0 else pt_cycleCount (he_entries h ! i)) + 1"
    "if (if answers i (pt_key (he_entries h ! i)) ms then 0 else pt_cycleCount (he_entries h ! i)) = 0
     then PingSend i (pt_key (he_entries h1 ! i)) \<in> set (he_outs h1) else pt_key (he_entries h1 ! i) = pt_key (he_entries h ! i)"
    by blast
  show thesis
  proof (rule that [of h1])
    show "batches_ok h1 mss" using assms(2) h1(3) by (simp add: batches_ok_def)
    show "health_runs (ms # mss) h = map_option (\<lambda>(os, h2). (he_outs h1 # os, h2)) (health_runs mss h1)"
      using h1(1) by (cases "health_runs mss h1") (simp_all add: split_def)
  qed (use h1 r in \<open>auto split: if_splits\<close>)
qed

lemma runs_waiting:
  assumes "watched i e h" "batches_ok h mss" "pt_cycleCount (he_entries h ! i) = c" "c \<noteq> 0" "unat c + length mss < 2 ^ 32"
    "pt_key (he_entries h ! i) = key"
  shows "\<exists>oss h'. health_runs mss h = Some (oss, h') \<and> length oss = length mss \<and>
    (\<forall>k < length mss. (\<forall>m < k. \<not> answers i key (mss ! m)) \<longrightarrow>
      verdict_of i (LogStringArg_of (entryName e)) (oss ! k) =
        (if answers i key (mss ! k) then Pinged else count_verdict e (c + of_nat k)))"
  using assms
proof (induction mss arbitrary: h c key)
  case Nil
  then show ?case by simp
next
  case (Cons ms mss)
  let ?nm = "LogStringArg_of (entryName e)"
  obtain h1 where h1: "watched i e h1" "batches_ok h1 mss"
    "health_runs (ms # mss) h = map_option (\<lambda>(os, h2). (he_outs h1 # os, h2)) (health_runs mss h1)"
    "verdict_of i ?nm (he_outs h1) = count_verdict e (if answers i key ms then 0 else c)"
    "pt_cycleCount (he_entries h1 ! i) = (if answers i key ms then 0 else c) + 1"
    "if answers i key ms \<or> c = 0 then PingSend i (pt_key (he_entries h1 ! i)) \<in> set (he_outs h1)
     else pt_key (he_entries h1 ! i) = key"
    using health_runs_Cons [OF Cons.prems(1,2)] unfolding Cons.prems(3,6) by blast
  let ?c = "(if answers i key ms then 0 else c) + 1"
  have uc: "unat (c + 1) = unat c + 1" using Cons.prems(5) by (intro unat_add_small [THEN trans]) auto
  have nz: "?c \<noteq> 0" "unat ?c + length mss < 2 ^ 32"
  proof -
    have "unat ?c \<noteq> 0" using uc by simp
    then show "?c \<noteq> 0" by (metis unat_0)
    have "unat c \<noteq> 0" using Cons.prems(4) by (simp add: unat_eq_0)
    then show "unat ?c + length mss < 2 ^ 32" using uc Cons.prems(5) by simp
  qed
  obtain oss h' where r: "health_runs mss h1 = Some (oss, h')" "length oss = length mss"
    "\<forall>k < length mss. (\<forall>m < k. \<not> answers i (pt_key (he_entries h1 ! i)) (mss ! m)) \<longrightarrow>
      verdict_of i ?nm (oss ! k) =
        (if answers i (pt_key (he_entries h1 ! i)) (mss ! k) then Pinged else count_verdict e (?c + of_nat k))"
    using Cons.IH [OF h1(1,2,5) nz refl] by blast
  have "verdict_of i ?nm ((he_outs h1 # oss) ! k) = (if answers i key ((ms # mss) ! k) then Pinged else count_verdict e (c + of_nat k))"
    if k: "k < Suc (length mss)" "\<forall>m < k. \<not> answers i key ((ms # mss) ! m)" for k
  proof (cases k)
    case 0
    then show ?thesis using h1(4) by (simp add: count_verdict_def)
  next
    case (Suc k')
    then have no: "\<not> answers i key ms" "\<forall>m < k'. \<not> answers i key (mss ! m)" using k(2) by auto
    then have "pt_key (he_entries h1 ! i) = key" using h1(6) Cons.prems(4) by simp
    then show ?thesis using r(3) no k(1) Suc by (simp add: add.assoc)
  qed
  then show ?case using h1(3) r(1,2) by auto
qed

text \<open>
  C35: The health component watches its components. Take entry \<open>i\<close> with thresholds 0 < warning < fatal that is not
  waiting for an answer, and runs with batches of returned pings before them. The first run pings the entry with a
  key. In the runs after it, up to the first batch that returns this key for this entry, the entry is warned about in
  exactly the run number \<open>warnCycles\<close> and declared dead in exactly the run number \<open>fatalCycles\<close>; the run
  after the answer pings it again.
\<close>

theorem unanswered_ping_declared_dead:
  assumes "watched i e h" "batches_ok h (ms # mss)" "pt_cycleCount (he_entries h ! i) = 0"
    and "0 < warnCycles e" "warnCycles e < fatalCycles e" "length mss < 2 ^ 32 - 1"
  shows "\<exists>os oss h' key. health_runs (ms # mss) h = Some (os # oss, h') \<and> PingSend i key \<in> set os \<and> length oss = length mss \<and>
    (\<forall>k < length mss. (\<forall>m < k. \<not> answers i key (mss ! m)) \<longrightarrow>
      verdict_of i (LogStringArg_of (entryName e)) (oss ! k) =
        (if answers i key (mss ! k) then Pinged
         else if k + 1 = unat (warnCycles e) then Warned
         else if k + 1 = unat (fatalCycles e) then Declared_dead else Quiet))"
proof -
  obtain h1 where h1: "watched i e h1" "batches_ok h1 mss"
    "health_runs (ms # mss) h = map_option (\<lambda>(os, h2). (he_outs h1 # os, h2)) (health_runs mss h1)"
    "pt_cycleCount (he_entries h1 ! i) = 1" "PingSend i (pt_key (he_entries h1 ! i)) \<in> set (he_outs h1)"
    using health_runs_Cons [OF assms(1,2), unfolded assms(3) if_cancel add_0] by auto
  let ?key = "pt_key (he_entries h1 ! i)"
  have c: "count_verdict e (1 + of_nat k) = (if k + 1 = unat (warnCycles e) then Warned
      else if k + 1 = unat (fatalCycles e) then Declared_dead else Quiet)" if "k < length mss" for k
  proof -
    have "unat (1 + of_nat k :: U32) = k + 1" using that assms(6) by (simp add: unat_of_nat32 flip: of_nat_Suc)
    then have "1 + of_nat k \<noteq> (0 :: U32)" "1 + of_nat k = w \<longleftrightarrow> k + 1 = unat w" for w :: U32
      by (metis add_is_0 one_neq_zero unat_0, metis word_eq_of_unat)
    then show ?thesis by (simp add: count_verdict_def)
  qed
  obtain oss h' where "health_runs mss h1 = Some (oss, h')" "length oss = length mss"
    "\<forall>k < length mss. (\<forall>m < k. \<not> answers i ?key (mss ! m)) \<longrightarrow>
      verdict_of i (LogStringArg_of (entryName e)) (oss ! k) =
        (if answers i ?key (mss ! k) then Pinged else count_verdict e (1 + of_nat k))"
    using runs_waiting [OF h1(1,2,4) one_neq_zero _ refl] assms(6) by auto
  then show ?thesis using h1(3,5) c by (intro exI [of _ "he_outs h1"] exI [of _ oss] exI [of _ h'] exI [of _ ?key]) simp
qed


text \<open>A component of two entries, set up through its operations.\<close>

definition demo_entries :: "U32 \<Rightarrow> PingEntry list" where
  "demo_entries f = [\<lparr>warnCycles = 2, fatalCycles = f, entryName = ''cmd''\<rparr>, \<lparr>warnCycles = 1, fatalCycles = 5, entryName = ''tlm''\<rparr>]"

definition blank_tracker :: PingTracker where
  "blank_tracker = \<lparr>pt_entry = \<lparr>warnCycles = 0, fatalCycles = 0, entryName = []\<rparr>, pt_cycleCount = 0, pt_key = 0, pt_enabled = DISABLED\<rparr>"

definition demo_health :: "U32 \<Rightarrow> HealthImpl option" where
  "demo_health f = setPingEntries (Some (demo_entries f)) 2 66 (Health_init 5 (HealthImpl_new (replicate 25 blank_tracker) True))"

definition demo_ready :: "U32 \<Rightarrow> bool" where
  "demo_ready f = (case demo_health f of
     Some h \<Rightarrow> watched 0 \<lparr>warnCycles = 2, fatalCycles = f, entryName = ''cmd''\<rparr> h \<and>
       pt_cycleCount (he_entries h ! 0) = 0 \<and> unat (he_queue_depth h) = 5
   | None \<Rightarrow> False)"

lemma demo_health_ok: "demo_ready 2" "demo_ready 3"
  by code_simp+

lemma demo_readyE:
  assumes "demo_ready f"
  obtains h where "demo_health f = Some h" "watched 0 \<lparr>warnCycles = 2, fatalCycles = f, entryName = ''cmd''\<rparr> h"
    "pt_cycleCount (he_entries h ! 0) = 0" "unat (he_queue_depth h) = 5"
  using assms by (auto simp: demo_ready_def split: option.splits)

theorem unanswered_ping_declared_dead_witness:
  "\<exists>h os0 os1 os2 os3 h' key. demo_health 3 = Some h \<and>
     health_runs [[], [], [], []] h = Some ([os0, os1, os2, os3], h') \<and> PingSend 0 key \<in> set os0 \<and>
     verdict_of 0 (LogStringArg_of ''cmd'') os2 = Warned \<and> verdict_of 0 (LogStringArg_of ''cmd'') os3 = Declared_dead"
proof -
  let ?e = "\<lparr>warnCycles = 2, fatalCycles = 3, entryName = ''cmd''\<rparr>"
  obtain h where h: "demo_health 3 = Some h" "watched 0 ?e h" "pt_cycleCount (he_entries h ! 0) = 0"
    using demo_readyE [OF demo_health_ok(2)] by blast
  have b: "batches_ok h [[], [], [], []]" by (simp add: batches_ok_def returns_only_def)
  obtain os oss h' key where r: "health_runs [[], [], [], []] h = Some (os # oss, h')" "PingSend 0 key \<in> set os" "length oss = 3"
    "\<forall>k < 3. verdict_of 0 (LogStringArg_of ''cmd'') (oss ! k) =
       (if k + 1 = 2 then Warned else if k + 1 = 3 then Declared_dead else Quiet)"
    using unanswered_ping_declared_dead [OF h(2) b h(3)] by (auto simp: answers_def nth_Cons')
  then have "verdict_of 0 (LogStringArg_of ''cmd'') (oss ! 1) = Warned" "verdict_of 0 (LogStringArg_of ''cmd'') (oss ! 2) = Declared_dead"
    by simp_all
  moreover obtain a b c where "oss = [a, b, c]" using r(3) by (auto simp: numeral_eq_Suc length_Suc_conv)
  ultimately show ?thesis using h(1) r(1,2) by auto
qed

text \<open>
  C31: Equal thresholds, which \<open>setPingEntries\<close> and the command that changes them accept, turn the declaration off:
  whatever pings return, no run declares the entry dead, however long it stays silent.
\<close>

theorem equal_thresholds_never_fatal:
  assumes "watched i e h" "batches_ok h mss" "warnCycles e = fatalCycles e"
  shows "\<exists>oss h'. health_runs mss h = Some (oss, h') \<and> length oss = length mss \<and>
    list_all (\<lambda>os. verdict_of i (LogStringArg_of (entryName e)) os \<noteq> Declared_dead) oss"
  using assms(1,2)
proof (induction mss arbitrary: h)
  case (Cons ms mss)
  obtain h1 where h1: "watched i e h1" "batches_ok h1 mss"
    "health_runs (ms # mss) h = map_option (\<lambda>(os, h2). (he_outs h1 # os, h2)) (health_runs mss h1)"
    "verdict_of i (LogStringArg_of (entryName e)) (he_outs h1) = count_verdict e
      (if answers i (pt_key (he_entries h ! i)) ms then 0 else pt_cycleCount (he_entries h ! i))"
    using health_runs_Cons [OF Cons.prems] by blast
  have "count_verdict e c \<noteq> Declared_dead" for c using assms(3) by (simp add: count_verdict_def)
  then show ?case using Cons.IH [OF h1(1,2)] h1(3,4) by auto
qed simp

theorem equal_thresholds_never_fatal_witness:
  "\<exists>h oss h'. demo_health 2 = Some h \<and> health_runs (replicate 1000 []) h = Some (oss, h') \<and> length oss = 1000 \<and>
     list_all (\<lambda>os. verdict_of 0 (LogStringArg_of ''cmd'') os \<noteq> Declared_dead) oss"
proof -
  let ?e = "\<lparr>warnCycles = 2, fatalCycles = 2, entryName = ''cmd''\<rparr>"
  obtain h where h: "demo_health 2 = Some h" "watched 0 ?e h"
    using demo_readyE [OF demo_health_ok(1)] by blast
  have b: "batches_ok h (replicate 1000 [])" by (simp add: batches_ok_def returns_only_def list_all_iff)
  show ?thesis using equal_thresholds_never_fatal [OF h(2) b] h(1) by simp
qed

end
