(* ===== verification/Tlm_Packetizer.thy ===== *)
theory Tlm_Packetizer
  imports Tlm_Packet Cmd_Sequence
begin

text \<open>
  Svc/TlmPacketizer (TlmPacketizer.cpp, TlmPacketizerTypes.hpp, TlmPacketizerComponentImplCfg.hpp): the
  component that gathers the values of channels in packets. A hash table gives for a channel its
  place in each packet; a received value is copied to these places of the fill buffers, and \<open>Run\<close> copies the
  packets with new values to the send buffers and sends them. The lock around the fill buffers is not
  modelled: a handler is one step. A pointer to a bucket is its index.
\<close>

section \<open>Configuration\<close>

definition MAX_PACKETIZER_PACKETS :: nat where "MAX_PACKETIZER_PACKETS = 200"
definition TLMPACKETIZER_NUM_TLM_HASH_SLOTS :: nat where "TLMPACKETIZER_NUM_TLM_HASH_SLOTS = 15"
definition TLMPACKETIZER_HASH_MOD_VALUE :: U32 where "TLMPACKETIZER_HASH_MOD_VALUE = 99"
definition TLMPACKETIZER_HASH_BUCKETS :: nat where "TLMPACKETIZER_HASH_BUCKETS = 1000"
definition TLMPACKETIZER_MAX_MISSING_TLM_CHECK :: nat where "TLMPACKETIZER_MAX_MISSING_TLM_CHECK = 25"

datatype PacketUpdateMode = PACKET_UPDATE_ALWAYS | PACKET_UPDATE_ON_CHANGE | PACKET_UPDATE_AFTER_FIRST_CHANGE

definition PACKET_UPDATE_MODE :: PacketUpdateMode where "PACKET_UPDATE_MODE = PACKET_UPDATE_ON_CHANGE"

text \<open>A null pointer is \<^const>\<open>None\<close>. The list a pointer leads to may be longer than the number of entries says.\<close>

record TlmPacketizerChannelEntry =
  ce_id :: U32
  ce_size :: U32

record TlmPacketizerPacket =
  pp_list :: "TlmPacketizerChannelEntry list option"
  pp_id :: U16
  pp_level :: U32
  pp_numEntries :: U32

record TlmPacketizerPacketList =
  pl_list :: "TlmPacketizerPacket list"
  pl_numEntries :: U32

section \<open>State\<close>

record BufferEntry =
  be_buffer :: ser_buf
  be_latestTime :: Time
  be_id :: U32
  be_level :: U32
  be_updated :: bool
  be_requested :: bool

record PkEntry =
  ke_id :: U32
  ke_packetOffset :: "I32 list"
  ke_next :: "nat option"
  ke_used :: bool
  ke_ignored :: bool
  ke_bucketNo :: nat

record PkSet =
  ks_slots :: "nat option list"
  ks_buckets :: "PkEntry list"
  ks_free :: nat

datatype pk_output =
    PktSend "U8 list" U32 | PkPingOut U32
  | NoChan U32 | LevelSet U32 | MaxLevelExceed U32 U32 | PacketSent U32 | PacketNotFound U32
  | SendLevel U32 | PkCmdResponse U32 U32 CmdResponse

record TlmPacketizer =
  tz_numPackets :: U32
  tz_fill :: "BufferEntry list"
  tz_send :: "BufferEntry list"
  tz_entries :: PkSet
  tz_configured :: bool
  tz_missTlmCheck :: "(U32 \<times> bool) list"
  tz_startLevel :: U32
  tz_maxLevel :: U32
  tz_outs :: "pk_output list"

definition tz_out :: "pk_output list \<Rightarrow> TlmPacketizer \<Rightarrow> TlmPacketizer" where
  "tz_out os z = z\<lparr>tz_outs := tz_outs z @ os\<rparr>"

text \<open>The constructor leaves some members as they are: \<open>old\<close> is what the memory held.\<close>

definition TlmPacketizer_new :: "TlmPacketizer \<Rightarrow> TlmPacketizer" where
  "TlmPacketizer_new old = \<lparr>tz_numPackets = 0,
     tz_fill = map (\<lambda>b. b\<lparr>be_buffer := ComBuffer_new, be_latestTime := Time_new, be_updated := False, be_requested := False\<rparr>) (tz_fill old),
     tz_send = map (\<lambda>b. b\<lparr>be_buffer := ComBuffer_new, be_latestTime := Time_new, be_updated := False\<rparr>) (tz_send old),
     tz_entries = \<lparr>ks_slots = replicate TLMPACKETIZER_NUM_TLM_HASH_SLOTS None,
       ks_buckets = map (\<lambda>(entry, b). b\<lparr>ke_used := False, ke_bucketNo := entry, ke_next := None, ke_id := 0\<rparr>)
         (enumerate 0 (ks_buckets (tz_entries old))), ks_free = 0\<rparr>,
     tz_configured = False,
     tz_missTlmCheck = map (\<lambda>_. (0, False)) (tz_missTlmCheck old),
     tz_startLevel = 0, tz_maxLevel = 0, tz_outs = []\<rparr>"

section \<open>The table of channels\<close>

definition tz_doHash :: "U32 \<Rightarrow> nat" where
  "tz_doHash i = unat (i mod TLMPACKETIZER_HASH_MOD_VALUE) mod TLMPACKETIZER_NUM_TLM_HASH_SLOTS"

definition set_bucket :: "nat \<Rightarrow> (PkEntry \<Rightarrow> PkEntry) \<Rightarrow> PkSet \<Rightarrow> PkSet" where
  "set_bucket e f s = s\<lparr>ks_buckets := (ks_buckets s)[e := f (ks_buckets s ! e)]\<rparr>"

definition ks_take :: "PkSet \<Rightarrow> (nat \<times> PkSet) option" where
  "ks_take s = do {
     fw_assert (ks_free s < TLMPACKETIZER_HASH_BUCKETS);
     Some (ks_free s, s\<lparr>ks_free := ks_free s + 1\<rparr>)
   }"

definition clear_bucket :: "nat \<Rightarrow> PkSet \<Rightarrow> PkSet" where
  "clear_bucket e = set_bucket e (\<lambda>x. x\<lparr>ke_next := None, ke_packetOffset := replicate MAX_PACKETIZER_PACKETS (-1)\<rparr>)"

fun bucket_search :: "U32 \<Rightarrow> nat \<Rightarrow> nat option \<Rightarrow> nat option \<Rightarrow> PkSet \<Rightarrow> (nat option \<times> PkSet) option" where
  "bucket_search i 0 entryToUse prevEntry s = Some (entryToUse, s)"
| "bucket_search i (Suc n) entryToUse prevEntry s =
     (case entryToUse of
        Some e \<Rightarrow>
          if ke_id (ks_buckets s ! e) = i then Some (Some e, s)
          else bucket_search i n (ke_next (ks_buckets s ! e)) (Some e) s
      | None \<Rightarrow> do {
          (e, s) \<leftarrow> ks_take s;
          p \<leftarrow> prevEntry;
          Some (Some e, clear_bucket e (set_bucket p (ke_next_update (\<lambda>_. Some e)) s))
        })"

definition findBucket :: "U32 \<Rightarrow> PkSet \<Rightarrow> (nat option \<times> PkSet) option" where
  "findBucket i s = (
     let index = tz_doHash i in do {
     fw_assert (index < TLMPACKETIZER_HASH_BUCKETS);
     (case ks_slots s ! index of
        Some e \<Rightarrow> bucket_search i TLMPACKETIZER_HASH_BUCKETS (Some e) None s
      | None \<Rightarrow> do {
          (e, s) \<leftarrow> ks_take s;
          Some (Some e, clear_bucket e (s\<lparr>ks_slots := (ks_slots s)[index := Some e]\<rparr>))
        })
   })"

fun set_channels :: "nat \<Rightarrow> TlmPacketizerChannelEntry list \<Rightarrow> U32 \<Rightarrow> PkSet \<Rightarrow> (U32 \<times> PkSet) option" where
  "set_channels pktEntry [] packetLen s = Some (packetLen, s)"
| "set_channels pktEntry (c # cs) packetLen s = do {
     (entryToUse, s) \<leftarrow> findBucket (ce_id c) s;
     e \<leftarrow> entryToUse;
     let s = set_bucket e (\<lambda>x. x\<lparr>ke_used := True, ke_ignored := False, ke_id := ce_id c,
       ke_packetOffset := (ke_packetOffset x)[pktEntry := ucast packetLen]\<rparr>) s;
     set_channels pktEntry cs (packetLen + ce_size c) s
   }"

definition set_packet :: "nat \<Rightarrow> TlmPacketizerPacket \<Rightarrow> U32 \<Rightarrow> TlmPacketizer \<Rightarrow> TlmPacketizer option" where
  "set_packet pktEntry p startLevel z = do {
     channels \<leftarrow> pp_list p;
     channels \<leftarrow> read_at channels 0 (unat (pp_numEntries p));
     (packetLen, s) \<leftarrow> set_channels pktEntry channels (4 + 11 + 2) (tz_entries z);
     fw_assert (unat packetLen \<le> FW_COM_BUFFER_MAX_SIZE);
     let b = tz_fill z ! pktEntry;
     d \<leftarrow> write_at (m_data (be_buffer b)) 0 (replicate (unat packetLen) 0);
     (stat, buf) \<leftarrow> serialize_U32 ((be_buffer b)\<lparr>m_data := d\<rparr>) (packet_type_code FW_PACKET_PACKETIZED_TLM);
     fw_assert (stat = FW_SERIALIZE_OK);
     (stat, buf) \<leftarrow> serialize_U16 buf (pp_id p);
     fw_assert (stat = FW_SERIALIZE_OK);
     let (stat, buf) = setBuffLen buf packetLen;
     fw_assert (stat = FW_SERIALIZE_OK);
     Some (z\<lparr>tz_entries := s, tz_fill := (tz_fill z)[pktEntry := b\<lparr>be_buffer := buf, be_id := ucast (pp_id p), be_level := pp_level p\<rparr>],
       tz_maxLevel := (if pp_level p > tz_maxLevel z then pp_level p else tz_maxLevel z), tz_startLevel := startLevel\<rparr>)
   }"

fun set_packets :: "nat \<Rightarrow> TlmPacketizerPacket list \<Rightarrow> U32 \<Rightarrow> TlmPacketizer \<Rightarrow> TlmPacketizer option" where
  "set_packets pktEntry [] startLevel z = Some z"
| "set_packets pktEntry (p # ps) startLevel z = do {
     z \<leftarrow> set_packet pktEntry p startLevel z;
     set_packets (pktEntry + 1) ps startLevel z
   }"

fun set_ignored :: "TlmPacketizerChannelEntry list \<Rightarrow> PkSet \<Rightarrow> PkSet option" where
  "set_ignored [] s = Some s"
| "set_ignored (c # cs) s = do {
     (entryToUse, s) \<leftarrow> findBucket (ce_id c) s;
     e \<leftarrow> entryToUse;
     set_ignored cs (set_bucket e (\<lambda>x. x\<lparr>ke_used := True, ke_ignored := True, ke_id := ce_id c\<rparr>) s)
   }"

definition setPacketList :: "TlmPacketizerPacketList \<Rightarrow> TlmPacketizerPacket \<Rightarrow> U32 \<Rightarrow> TlmPacketizer \<Rightarrow> TlmPacketizer option" where
  "setPacketList packetList ignoreList startLevel z = do {
     ignored \<leftarrow> pp_list ignoreList;
     fw_assert (unat (pl_numEntries packetList) \<le> MAX_PACKETIZER_PACKETS);
     packets \<leftarrow> read_at (pl_list packetList) 0 (unat (pl_numEntries packetList));
     z \<leftarrow> set_packets 0 packets startLevel z;
     ignored \<leftarrow> read_at ignored 0 (unat (pp_numEntries ignoreList));
     s \<leftarrow> set_ignored ignored (tz_entries z);
     Some (z\<lparr>tz_entries := s, tz_numPackets := pl_numEntries packetList, tz_configured := True\<rparr>)
   }"

section \<open>Receiving a value\<close>

fun missing_loop :: "U32 \<Rightarrow> nat list \<Rightarrow> TlmPacketizer \<Rightarrow> TlmPacketizer" where
  "missing_loop i [] z = z"
| "missing_loop i (slot # slots) z =
     (let (slot_id, checked) = tz_missTlmCheck z ! slot in
      if checked \<and> slot_id = i then z
      else if \<not> checked then tz_out [NoChan i] (z\<lparr>tz_missTlmCheck := (tz_missTlmCheck z)[slot := (i, True)]\<rparr>)
      else missing_loop i slots z)"

definition missingChannel :: "U32 \<Rightarrow> TlmPacketizer \<Rightarrow> TlmPacketizer" where
  "missingChannel i = missing_loop i [0..<TLMPACKETIZER_MAX_MISSING_TLM_CHECK]"

text \<open>How the search in \<open>TlmRecv\<close> ends: at an ignored channel, at a null pointer, or with an entry to use,
  which is what the pointer is when the loop has run out.\<close>

datatype recv_found = Ignored_channel | Missing_channel | Use_entry "nat option"

fun tz_search :: "U32 \<Rightarrow> nat \<Rightarrow> nat option \<Rightarrow> PkSet \<Rightarrow> recv_found" where
  "tz_search i 0 entryToUse s = Use_entry entryToUse"
| "tz_search i (Suc n) entryToUse s =
     (case entryToUse of
        Some e \<Rightarrow>
          if ke_id (ks_buckets s ! e) = i
          then (if ke_ignored (ks_buckets s ! e) then Ignored_channel else Use_entry (Some e))
          else tz_search i n (ke_next (ks_buckets s ! e)) s
      | None \<Rightarrow> Missing_channel)"

text \<open>The value goes to its offset whatever its length is: \<^const>\<open>None\<close> when it leaves the buffer's array.\<close>

definition copy_value :: "PkEntry \<Rightarrow> Time \<Rightarrow> ser_buf \<Rightarrow> nat \<Rightarrow> TlmPacketizer \<Rightarrow> TlmPacketizer option" where
  "copy_value x timeTag val pkt z = (
     let off = ke_packetOffset x ! pkt; b = tz_fill z ! pkt in
     if off \<noteq> - 1 then do {
       fw_assert (0 \<le> sint off);
       bs \<leftarrow> read_at (m_data val) 0 (unat (getBuffLength val));
       d \<leftarrow> write_at (m_data (be_buffer b)) (unat off) bs;
       Some (z\<lparr>tz_fill := (tz_fill z)[pkt := b\<lparr>be_updated := True, be_latestTime := timeTag,
         be_buffer := (be_buffer b)\<lparr>m_data := d\<rparr>\<rparr>]\<rparr>)
     }
     else Some z)"

fun copy_values :: "PkEntry \<Rightarrow> Time \<Rightarrow> ser_buf \<Rightarrow> nat list \<Rightarrow> TlmPacketizer \<Rightarrow> TlmPacketizer option" where
  "copy_values x timeTag val [] z = Some z"
| "copy_values x timeTag val (pkt # pkts) z = do {
     z \<leftarrow> copy_value x timeTag val pkt z;
     copy_values x timeTag val pkts z
   }"

definition tz_TlmRecv_handler :: "U32 \<Rightarrow> Time \<Rightarrow> ser_buf \<Rightarrow> TlmPacketizer \<Rightarrow> TlmPacketizer option" where
  "tz_TlmRecv_handler i timeTag val z = do {
     fw_assert (tz_configured z);
     let s = tz_entries z;
     (case ks_slots s ! tz_doHash i of
        None \<Rightarrow> Some (missingChannel i z)
      | Some e \<Rightarrow>
          (case tz_search i TLMPACKETIZER_HASH_BUCKETS (Some e) s of
             Ignored_channel \<Rightarrow> Some z
           | Missing_channel \<Rightarrow> Some (missingChannel i z)
           | Use_entry p \<Rightarrow> do {
               e \<leftarrow> p;
               copy_values (ks_buckets s ! e) timeTag val [0..<MAX_PACKETIZER_PACKETS] z
             }))
   }"

section \<open>Sending\<close>

definition BufferEntry_assign :: "BufferEntry \<Rightarrow> BufferEntry \<Rightarrow> BufferEntry option" where
  "BufferEntry_assign a other = do {
     b \<leftarrow> ComBuffer_assign (be_buffer a) (be_buffer other);
     Some (other\<lparr>be_buffer := b\<rparr>)
   }"

text \<open>One turn of the loop under the lock, and one of the loop that sends.\<close>

definition fill_to_send :: "nat \<Rightarrow> TlmPacketizer \<Rightarrow> TlmPacketizer option" where
  "fill_to_send pkt z = (
     let f = tz_fill z ! pkt in
     if be_updated f \<and> (be_level f \<le> tz_startLevel z \<or> be_requested f) then do {
       b \<leftarrow> BufferEntry_assign (tz_send z ! pkt) f;
       let f = (if PACKET_UPDATE_MODE = PACKET_UPDATE_ON_CHANGE then f\<lparr>be_updated := False\<rparr> else f);
       Some (z\<lparr>tz_send := (tz_send z)[pkt := b], tz_fill := (tz_fill z)[pkt := f\<lparr>be_requested := False\<rparr>]\<rparr>)
     }
     else if PACKET_UPDATE_MODE = PACKET_UPDATE_ALWAYS \<and> be_level f \<le> tz_startLevel z then do {
       b \<leftarrow> BufferEntry_assign (tz_send z ! pkt) f;
       Some (z\<lparr>tz_send := (tz_send z)[pkt := b\<lparr>be_updated := True\<rparr>]\<rparr>)
     }
     else Some (z\<lparr>tz_send := (tz_send z)[pkt := (tz_send z ! pkt)\<lparr>be_updated := False\<rparr>]\<rparr>))"

definition send_packet :: "nat \<Rightarrow> TlmPacketizer \<Rightarrow> TlmPacketizer option" where
  "send_packet pkt z = (
     let b = tz_send z ! pkt; buf = be_buffer b in
     if be_updated b then do {
       d \<leftarrow> read_at (m_data buf) (4 + 2) 11;
       (stat, buff) \<leftarrow> Time_serialize (SerializeBufferBase_new d) (be_latestTime b);
       fw_assert (stat = FW_SERIALIZE_OK);
       d \<leftarrow> write_at (m_data buf) (4 + 2) (m_data buff);
       let buf = buf\<lparr>m_data := d\<rparr>;
       Some (tz_out [PktSend (contents buf) 0] (z\<lparr>tz_send := (tz_send z)[pkt := b\<lparr>be_buffer := buf\<rparr>]\<rparr>))
     }
     else Some z)"

fun each_packet :: "(nat \<Rightarrow> TlmPacketizer \<Rightarrow> TlmPacketizer option) \<Rightarrow> nat list \<Rightarrow> TlmPacketizer \<Rightarrow> TlmPacketizer option" where
  "each_packet f [] z = Some z"
| "each_packet f (pkt # pkts) z = do {
     z \<leftarrow> f pkt z;
     each_packet f pkts z
   }"

definition tz_Run_handler :: "bool \<Rightarrow> TlmPacketizer \<Rightarrow> TlmPacketizer option" where
  "tz_Run_handler connected z = do {
     fw_assert (tz_configured z);
     if \<not> connected then Some z
     else do {
       z \<leftarrow> each_packet fill_to_send [0..<unat (tz_numPackets z)] z;
       each_packet send_packet [0..<unat (tz_numPackets z)] z
     }
   }"

section \<open>Ping and commands\<close>

definition tz_pingIn_handler :: "U32 \<Rightarrow> TlmPacketizer \<Rightarrow> TlmPacketizer" where
  "tz_pingIn_handler key z = tz_out [PkPingOut key] z"

definition SET_LEVEL_cmdHandler :: "U32 \<Rightarrow> U32 \<Rightarrow> U32 \<Rightarrow> TlmPacketizer \<Rightarrow> TlmPacketizer" where
  "SET_LEVEL_cmdHandler opCode cmdSeq level z = (
     let z = z\<lparr>tz_startLevel := level\<rparr>;
         z = (if level > tz_maxLevel z then tz_out [MaxLevelExceed level (tz_maxLevel z)] z else z)
     in tz_out [SendLevel level, LevelSet level, PkCmdResponse opCode cmdSeq CmdResponse_OK] z)"

text \<open>\<open>now\<close> is the time of the clock behind \<open>getTime\<close>.\<close>

definition SEND_PKT_cmdHandler :: "Time \<Rightarrow> U32 \<Rightarrow> U32 \<Rightarrow> U32 \<Rightarrow> TlmPacketizer \<Rightarrow> TlmPacketizer" where
  "SEND_PKT_cmdHandler now opCode cmdSeq i z =
     (case first_index (\<lambda>b. be_id b = i) (take (unat (tz_numPackets z)) (tz_fill z)) of
        Some pkt \<Rightarrow>
          let z = z\<lparr>tz_fill := (tz_fill z)[pkt := (tz_fill z ! pkt)\<lparr>be_updated := True, be_latestTime := now, be_requested := True\<rparr>]\<rparr>
          in tz_out [PacketSent i, PkCmdResponse opCode cmdSeq CmdResponse_OK] z
      | None \<Rightarrow> tz_out [PacketNotFound i, PkCmdResponse opCode cmdSeq VALIDATION_ERROR] z)"

end
