(* ===== verification/Hash_Chains.thy ===== *)
theory Hash_Chains
  imports Prelude
begin

text \<open>
  Hash tables of the telemetry components: buckets taken in order from an array and chained through next
  pointers, one chain for each value of the hash function. A table is given by the functions that read it: the next
  pointer and the key of a bucket, the head of a slot, and the number of buckets in use. The searches of the
  code are \<open>chase\<close>, with the number of turns of their loop.
\<close>

section \<open>Chains\<close>

primrec path :: "(nat \<Rightarrow> nat option) \<Rightarrow> nat option \<Rightarrow> nat list \<Rightarrow> bool" where
  "path nx p [] \<longleftrightarrow> p = None"
| "path nx p (x # xs) \<longleftrightarrow> p = Some x \<and> path nx (nx x) xs"

datatype hunt = Found nat | At_end "nat option" | Spent "nat option"

fun chase :: "(nat \<Rightarrow> nat option) \<Rightarrow> (nat \<Rightarrow> 'k) \<Rightarrow> 'k \<Rightarrow> nat \<Rightarrow> nat option \<Rightarrow> nat option \<Rightarrow> hunt" where
  "chase nx key k 0 p prev = Spent p"
| "chase nx key k (Suc n) p prev =
     (case p of None \<Rightarrow> At_end prev | Some e \<Rightarrow> if key e = k then Found e else chase nx key k n (nx e) (Some e))"

lemma path_cong: "(\<And>x. x \<in> set xs \<Longrightarrow> nx' x = nx x) \<Longrightarrow> path nx' p xs \<longleftrightarrow> path nx p xs"
  by (induction xs arbitrary: p) simp_all

lemma path_snoc:
  assumes "path nx p xs" "xs \<noteq> []" "k \<notin> set xs" "distinct xs"
  shows "path (nx(last xs := Some k, k := None)) p (xs @ [k])"
  using assms
proof (induction xs arbitrary: p)
  case (Cons x xs)
  show ?case
  proof (cases "xs = []")
    case False
    then have "x \<noteq> last xs" using Cons.prems(4) by auto
    then show ?thesis using Cons False by simp
  qed (use Cons.prems in simp)
qed simp

lemma chase_found:
  assumes "path nx p (xs @ x # ys)" "\<forall>y \<in> set xs. key y \<noteq> k" "key x = k" "length xs < n"
  shows "chase nx key k n p prev = Found x"
  using assms
proof (induction xs arbitrary: p prev n)
  case Nil
  then show ?case by (cases n) simp_all
next
  case (Cons y xs)
  then show ?case by (cases n) simp_all
qed

lemma chase_end:
  assumes "path nx p xs" "\<forall>y \<in> set xs. key y \<noteq> k" "length xs < n"
  shows "chase nx key k n p prev = At_end (if xs = [] then prev else Some (last xs))"
  using assms
proof (induction xs arbitrary: p prev n)
  case Nil
  then show ?case by (cases n) simp_all
next
  case (Cons y xs)
  then show ?case by (cases n) simp_all
qed

section \<open>Tables\<close>

definition hash_table :: "('k \<Rightarrow> nat) \<Rightarrow> (nat \<Rightarrow> nat option) \<Rightarrow> (nat \<Rightarrow> 'k) \<Rightarrow> (nat \<Rightarrow> nat option) \<Rightarrow> nat \<Rightarrow> bool" where
  "hash_table hash nx key slot free \<longleftrightarrow> inj_on key {..<free} \<and>
     (\<forall>k. \<exists>xs. path nx (slot (hash k)) xs \<and> distinct xs \<and> set xs = {x. x < free \<and> hash (key x) = hash k})"

lemma hash_tableD:
  assumes "hash_table hash nx key slot free"
  obtains xs where "path nx (slot (hash k)) xs" "distinct xs" "set xs = {x. x < free \<and> hash (key x) = hash k}" "length xs \<le> free"
proof -
  obtain xs where xs: "path nx (slot (hash k)) xs" "distinct xs" "set xs = {x. x < free \<and> hash (key x) = hash k}"
    using assms by (auto simp: hash_table_def)
  have "card (set xs) \<le> card {..<free}" by (rule card_mono) (use xs(3) in auto)
  then show thesis using that [OF xs] distinct_card [OF xs(2)] by simp
qed

lemma hash_table_empty: "(\<And>k. slot (hash k) = None) \<Longrightarrow> hash_table hash nx key slot 0"
  by (auto simp: hash_table_def)

lemma hash_table_cong:
  assumes "hash_table hash nx key slot free" "\<And>x. x < free \<Longrightarrow> nx' x = nx x \<and> key' x = key x" "\<And>k. slot' (hash k) = slot (hash k)"
  shows "hash_table hash nx' key' slot' free"
proof -
  have "inj_on key' {..<free}" using assms(1,2) by (auto simp: hash_table_def inj_on_def)
  moreover have "\<exists>xs. path nx' (slot' (hash k)) xs \<and> distinct xs \<and> set xs = {x. x < free \<and> hash (key' x) = hash k}" for k
  proof -
    obtain xs where xs: "path nx (slot (hash k)) xs" "distinct xs" "set xs = {x. x < free \<and> hash (key x) = hash k}"
      using hash_tableD [OF assms(1)] by blast
    then have "path nx' (slot' (hash k)) xs" using assms(2,3) path_cong [of xs nx' nx] by auto
    moreover have "set xs = {x. x < free \<and> hash (key' x) = hash k}" using xs(3) assms(2) by auto
    ultimately show ?thesis using xs(2) by blast
  qed
  ultimately show ?thesis by (simp add: hash_table_def)
qed

lemma table_found:
  assumes "hash_table hash nx key slot free" "x < free" "key x = k" "free \<le> n"
  shows "chase nx key k n (slot (hash k)) prev = Found x"
proof -
  obtain xs where xs: "path nx (slot (hash k)) xs" "distinct xs" "set xs = {x. x < free \<and> hash (key x) = hash k}" "length xs \<le> free"
    using hash_tableD [OF assms(1)] by blast
  then have "x \<in> set xs" using assms(2,3) by simp
  then obtain us ys where us: "xs = us @ x # ys" by (auto dest: split_list)
  have "key y \<noteq> k" if "y \<in> set us" for y
  proof
    assume "key y = k"
    moreover have "y < free" using that us xs(3) by auto
    ultimately have "y = x" using assms by (auto simp: hash_table_def inj_on_def)
    then show False using that us xs(2) by simp
  qed
  then show ?thesis using xs(1,4) us assms(3,4) by (intro chase_found [where xs = us and ys = ys]) auto
qed

text \<open>A key that is not in the table: the search ends at the last bucket of the chain, behind which the
  next free bucket is put.\<close>

lemma table_missing:
  assumes "hash_table hash nx key slot free" "k \<notin> key ` {..<free}" "free < n"
  shows "(slot (hash k) = None \<and> chase nx key k n (slot (hash k)) prev = At_end prev \<and>
      hash_table hash (nx(free := None)) (key(free := k)) (slot(hash k := Some free)) (Suc free)) \<or>
    (\<exists>l < free. slot (hash k) \<noteq> None \<and> chase nx key k n (slot (hash k)) prev = At_end (Some l) \<and>
      hash_table hash (nx(l := Some free, free := None)) (key(free := k)) slot (Suc free))"
proof -
  obtain xs where xs: "path nx (slot (hash k)) xs" "distinct xs" "set xs = {x. x < free \<and> hash (key x) = hash k}" "length xs \<le> free"
    using hash_tableD [OF assms(1)] by blast
  let ?key = "key(free := k)"
  have inj: "inj_on ?key {..<Suc free}"
    using assms(1,2) by (auto simp: hash_table_def inj_on_def less_Suc_eq)
  have c: "chase nx key k n (slot (hash k)) prev = At_end (if xs = [] then prev else Some (last xs))"
    by (rule chase_end [OF xs(1)]) (use assms(2,3) xs(3,4) in auto)
  define nx' where "nx' = (if xs = [] then nx else nx(last xs := Some free))(free := None)"
  define slot' where "slot' = (if xs = [] then slot(hash k := Some free) else slot)"
  have "\<exists>ys. path nx' (slot' (hash j)) ys \<and> distinct ys \<and> set ys = {x. x < Suc free \<and> hash (?key x) = hash j}" for j
  proof (cases "hash j = hash k")
    case True
    have "path nx' (slot' (hash k)) (xs @ [free])"
      using path_snoc [OF xs(1) _ _ xs(2), of free] xs(3) by (cases "xs = []") (simp_all add: nx'_def slot'_def)
    moreover have "set (xs @ [free]) = {x. x < Suc free \<and> hash (?key x) = hash k}" using xs(3) by (auto simp: less_Suc_eq)
    ultimately show ?thesis using True xs(2,3) by (intro exI [of _ "xs @ [free]"]) simp
  next
    case False
    obtain ys where ys: "path nx (slot (hash j)) ys" "distinct ys" "set ys = {x. x < free \<and> hash (key x) = hash j}"
      using hash_tableD [OF assms(1)] by blast
    have eq: "nx' y = nx y" if "y \<in> set ys" for y
    proof -
      have "y \<noteq> free" using that ys(3) by auto
      moreover have "y \<notin> set xs" using that ys(3) xs(3) False by simp
      then have "xs \<noteq> [] \<Longrightarrow> y \<noteq> last xs" using last_in_set [of xs] by blast
      ultimately show ?thesis by (simp add: nx'_def)
    qed
    have "slot' (hash j) = slot (hash j)" using False by (simp add: slot'_def)
    moreover have "path nx' (slot (hash j)) ys"
      by (subst path_cong [OF eq]) (use ys(1) in auto)
    ultimately have "path nx' (slot' (hash j)) ys" by (simp only:)
    moreover have "set ys = {x. x < Suc free \<and> hash (?key x) = hash j}"
    proof (rule set_eqI)
      fix x show "x \<in> set ys \<longleftrightarrow> x \<in> {x. x < Suc free \<and> hash (?key x) = hash j}"
        unfolding ys(3) using False not_sym [OF False] by (cases "x = free") (simp_all add: less_Suc_eq)
    qed
    ultimately show ?thesis using ys(2) by blast
  qed
  then have t: "hash_table hash nx' ?key slot' (Suc free)" using inj by (simp add: hash_table_def)
  show ?thesis
  proof (cases "xs = []")
    case True
    then show ?thesis using t c xs(1) by (simp add: nx'_def slot'_def)
  next
    case False
    then have "last xs < free" "slot (hash k) \<noteq> None" using xs(1,3) last_in_set [OF False] by (auto, cases xs) auto
    then show ?thesis using t c False by (auto simp: nx'_def slot'_def)
  qed
qed

end
