(* ===== verification/Packetizer_Table.thy ===== *)
theory Packetizer_Table
  imports Tlm_Packetizer Hash_Chains
begin

text \<open>
  The hash table of the telemetry packetizer is a map from channels to whether they are ignored and to their
  offsets in the packets. The configuration fills it with the places of the channels in the packet list.
\<close>

section \<open>The table as a map\<close>

abbreviation ks_nx :: "PkSet \<Rightarrow> nat \<Rightarrow> nat option" where "ks_nx s \<equiv> \<lambda>x. ke_next (ks_buckets s ! x)"
abbreviation ks_key :: "PkSet \<Rightarrow> nat \<Rightarrow> U32" where "ks_key s \<equiv> \<lambda>x. ke_id (ks_buckets s ! x)"

definition ks_inv :: "PkSet \<Rightarrow> bool" where
  "ks_inv s \<longleftrightarrow> length (ks_slots s) = TLMPACKETIZER_NUM_TLM_HASH_SLOTS \<and> length (ks_buckets s) = TLMPACKETIZER_HASH_BUCKETS \<and>
     ks_free s \<le> TLMPACKETIZER_HASH_BUCKETS \<and> hash_table tz_doHash (ks_nx s) (ks_key s) (\<lambda>h. ks_slots s ! h) (ks_free s)"

definition ks_view :: "PkSet \<Rightarrow> U32 \<Rightarrow> (bool \<times> I32 list) option" where
  "ks_view s i = map_option (\<lambda>x. (ke_ignored (ks_buckets s ! x), ke_packetOffset (ks_buckets s ! x)))
     (first_index (\<lambda>b. ke_id b = i) (take (ks_free s) (ks_buckets s)))"

definition ks_offsets :: "PkSet \<Rightarrow> U32 \<Rightarrow> I32 list" where
  "ks_offsets s i = (case ks_view s i of Some (_, os) \<Rightarrow> os | None \<Rightarrow> replicate MAX_PACKETIZER_PACKETS (-1))"

lemma pk_sizes [simp]: "TLMPACKETIZER_NUM_TLM_HASH_SLOTS = 15" "TLMPACKETIZER_HASH_BUCKETS = 1000" "MAX_PACKETIZER_PACKETS = 200"
  by (simp_all add: TLMPACKETIZER_NUM_TLM_HASH_SLOTS_def TLMPACKETIZER_HASH_BUCKETS_def MAX_PACKETIZER_PACKETS_def)

lemma tz_doHash_lt [simp]: "tz_doHash i < 15" "tz_doHash i < 1000"
proof -
  show "tz_doHash i < 15" by (simp add: tz_doHash_def)
  then show "tz_doHash i < 1000" by linarith
qed

lemma ks_view_used:
  assumes "ks_inv s" "x < ks_free s"
  shows "ks_view s (ks_key s x) = Some (ke_ignored (ks_buckets s ! x), ke_packetOffset (ks_buckets s ! x))"
proof -
  have len: "ks_free s \<le> length (ks_buckets s)" using assms(1) by (simp add: ks_inv_def)
  have "first_index (\<lambda>b. ke_id b = ks_key s x) (take (ks_free s) (ks_buckets s)) \<noteq> None"
  proof -
    have "ks_buckets s ! x \<in> set (take (ks_free s) (ks_buckets s))"
      unfolding in_set_conv_nth by (rule exI [of _ x]) (use assms(2) len in simp)
    then show ?thesis by (auto simp: first_index_None)
  qed
  then obtain y where y: "first_index (\<lambda>b. ke_id b = ks_key s x) (take (ks_free s) (ks_buckets s)) = Some y" by blast
  then have "y < ks_free s" "ks_key s y = ks_key s x" using first_index_Some [OF y] by auto
  then have "y = x" using assms by (auto simp: ks_inv_def hash_table_def inj_on_def)
  then show ?thesis using y by (simp add: ks_view_def)
qed

lemma ks_view_None: "ks_inv s \<Longrightarrow> ks_view s i = None \<longleftrightarrow> i \<notin> ks_key s ` {..<ks_free s}"
  by (fastforce simp: ks_view_def first_index_None in_set_conv_nth ks_inv_def)

lemma ks_view_Some:
  assumes "ks_inv s" "ks_view s i = Some v"
  obtains x where "x < ks_free s" "ks_key s x = i" "v = (ke_ignored (ks_buckets s ! x), ke_packetOffset (ks_buckets s ! x))"
  using assms ks_view_None [OF assms(1), of i] ks_view_used [OF assms(1)] by auto

lemma ks_dom: "ks_inv s \<Longrightarrow> dom (ks_view s) = ks_key s ` {..<ks_free s}"
  by (rule set_eqI) (simp add: domIff ks_view_None)

lemma ks_card: "ks_inv s \<Longrightarrow> card (dom (ks_view s)) = ks_free s"
  by (simp add: ks_dom card_image ks_inv_def hash_table_def)

lemma ks_inv_finite: "ks_inv s \<Longrightarrow> finite (dom (ks_view s))"
  by (simp add: ks_dom)

section \<open>The searches\<close>

lemma bucket_search_chase:
  "bucket_search i n p prev s = (case chase (ks_nx s) (ks_key s) i n p prev of
     Found e \<Rightarrow> Some (Some e, s)
   | At_end q \<Rightarrow> do {
       (e, s) \<leftarrow> ks_take s;
       p \<leftarrow> q;
       Some (Some e, clear_bucket e (set_bucket p (ke_next_update (\<lambda>_. Some e)) s))
     }
   | Spent q \<Rightarrow> Some (q, s))"
  by (induction i n p prev s rule: bucket_search.induct) (simp_all split: option.splits)

lemma tz_search_chase:
  "tz_search i n p s = (case chase (ks_nx s) (ks_key s) i n p prev of
     Found e \<Rightarrow> if ke_ignored (ks_buckets s ! e) then Ignored_channel else Use_entry (Some e)
   | At_end q \<Rightarrow> Missing_channel
   | Spent q \<Rightarrow> Use_entry q)"
  by (induction i n p s arbitrary: prev rule: tz_search.induct) (simp_all split: option.splits)

text \<open>What \<open>TlmRecv\<close> finds of a channel.\<close>

lemma recv_finds:
  assumes "ks_inv s"
  shows "case ks_view s i of
      Some (True, _) \<Rightarrow> \<exists>e. ks_slots s ! tz_doHash i = Some e \<and> tz_search i 1000 (Some e) s = Ignored_channel
    | Some (False, os) \<Rightarrow> \<exists>e x. ks_slots s ! tz_doHash i = Some e \<and> tz_search i 1000 (Some e) s = Use_entry (Some x) \<and>
        ke_packetOffset (ks_buckets s ! x) = os
    | None \<Rightarrow> ks_free s < 1000 \<longrightarrow>
        (ks_slots s ! tz_doHash i = None \<or> (\<exists>e. ks_slots s ! tz_doHash i = Some e \<and> tz_search i 1000 (Some e) s = Missing_channel))"
proof (cases "ks_view s i")
  case None
  then have "i \<notin> ks_key s ` {..<ks_free s}" using ks_view_None [OF assms] by blast
  then show ?thesis
    using None table_missing [of tz_doHash "ks_nx s" "ks_key s" "\<lambda>h. ks_slots s ! h" "ks_free s" i 1000 None] assms
      tz_search_chase [of i 1000 _ s None]
    by (auto simp: ks_inv_def)
next
  case (Some v)
  obtain x where x: "x < ks_free s" "ks_key s x = i" "v = (ke_ignored (ks_buckets s ! x), ke_packetOffset (ks_buckets s ! x))"
    by (rule ks_view_Some [OF assms Some])
  have c: "chase (ks_nx s) (ks_key s) i 1000 (ks_slots s ! tz_doHash i) None = Found x"
    by (rule table_found [where free = "ks_free s"]) (use assms x in \<open>simp_all add: ks_inv_def\<close>)
  then obtain e where e: "ks_slots s ! tz_doHash i = Some e" by (cases "ks_slots s ! tz_doHash i") (simp_all add: numeral_eq_Suc)
  then have "tz_search i 1000 (Some e) s = (if fst v then Ignored_channel else Use_entry (Some x))"
    using c tz_search_chase [of i 1000 "Some e" s None] x(3) by simp
  then show ?thesis using Some x(3) e by (auto split: bool.splits)
qed

text \<open>Storing an entry.\<close>

abbreviation ks_put :: "nat \<Rightarrow> bool \<Rightarrow> U32 \<Rightarrow> (I32 list \<Rightarrow> I32 list) \<Rightarrow> PkSet \<Rightarrow> PkSet" where
  "ks_put e ign i f s \<equiv> set_bucket e (\<lambda>x. x\<lparr>ke_used := True, ke_ignored := ign, ke_id := i,
     ke_packetOffset := f (ke_packetOffset x)\<rparr>) s"

lemma put_known:
  assumes "ks_inv s" "e < ks_free s" "ks_key s e = i"
  shows "ks_inv (ks_put e ign i f s)" "ks_view (ks_put e ign i f s) = (ks_view s)(i \<mapsto> (ign, f (ks_offsets s i)))"
proof -
  let ?s = "ks_put e ign i f s"
  have e: "e < length (ks_buckets s)" using assms(1,2) by (simp add: ks_inv_def)
  have same: "ks_nx ?s x = ks_nx s x" "ks_key ?s x = ks_key s x" "ks_free ?s = ks_free s" for x
    using assms(3) e by (auto simp: set_bucket_def nth_list_update)
  have "hash_table tz_doHash (ks_nx ?s) (ks_key ?s) (\<lambda>h. ks_slots ?s ! h) (ks_free ?s)"
    using assms(1) unfolding same by (simp add: ks_inv_def set_bucket_def)
  then show inv: "ks_inv ?s" using assms(1) by (simp add: ks_inv_def set_bucket_def)
  show "ks_view ?s = (ks_view s)(i \<mapsto> (ign, f (ks_offsets s i)))"
  proof
    fix j
    have o: "ks_offsets s i = ke_packetOffset (ks_buckets s ! e)"
      using ks_view_used [OF assms(1,2)] assms(3) by (simp add: ks_offsets_def)
    show "ks_view ?s j = ((ks_view s)(i \<mapsto> (ign, f (ks_offsets s i)))) j"
    proof (cases "j \<in> ks_key s ` {..<ks_free s}")
      case True
      then obtain x where x: "x < ks_free s" "ks_key s x = j" by auto
      have "x = e \<longleftrightarrow> j = i"
        using assms x by (auto simp: ks_inv_def hash_table_def inj_on_def)
      then show ?thesis
        using ks_view_used [OF assms(1) x(1)] ks_view_used [OF inv, of x] x e o unfolding same
        by (auto simp: set_bucket_def)
    next
      case False
      then have "j \<noteq> i" "ks_view s j = None" using assms(2,3) ks_view_None [OF assms(1)] by auto
      moreover have "ks_view ?s j = None" using False ks_view_None [OF inv] unfolding same by simp
      ultimately show ?thesis by simp
    qed
  qed
qed

text \<open>A new channel, seen from the state behind it.\<close>

lemma put_new:
  assumes "ks_inv s" "ks_free s < 1000" "i \<notin> ks_key s ` {..<ks_free s}"
    and len: "length (ks_slots s') = 15" "length (ks_buckets s') = 1000" "ks_free s' = Suc (ks_free s)"
    and table: "hash_table tz_doHash nx (\<lambda>x. if x = ks_free s then i else ks_key s x) (\<lambda>h. ks_slots s' ! h) (Suc (ks_free s))"
    and here: "ke_id (ks_buckets s' ! ks_free s) = i"
    and other: "\<And>x. x < ks_free s \<Longrightarrow> ke_id (ks_buckets s' ! x) = ke_id (ks_buckets s ! x) \<and>
      ke_ignored (ks_buckets s' ! x) = ke_ignored (ks_buckets s ! x) \<and> ke_packetOffset (ks_buckets s' ! x) = ke_packetOffset (ks_buckets s ! x)"
    and link: "\<And>x. x \<le> ks_free s \<Longrightarrow> ke_next (ks_buckets s' ! x) = nx x"
  shows "ks_inv s'" "ks_view s' = (ks_view s)(i \<mapsto> (ke_ignored (ks_buckets s' ! ks_free s), ke_packetOffset (ks_buckets s' ! ks_free s)))"
proof -
  have "hash_table tz_doHash (ks_nx s') (ks_key s') (\<lambda>h. ks_slots s' ! h) (Suc (ks_free s))"
    by (rule hash_table_cong [OF table]) (use here other link in \<open>auto simp: less_Suc_eq\<close>)
  then show inv: "ks_inv s'" using len assms(2) by (simp add: ks_inv_def)
  show "ks_view s' = (ks_view s)(i \<mapsto> (ke_ignored (ks_buckets s' ! ks_free s), ke_packetOffset (ks_buckets s' ! ks_free s)))"
  proof
    fix j
    show "ks_view s' j = ((ks_view s)(i \<mapsto> (ke_ignored (ks_buckets s' ! ks_free s), ke_packetOffset (ks_buckets s' ! ks_free s)))) j"
    proof (cases "j \<in> ks_key s ` {..<ks_free s}")
      case True
      then obtain x where x: "x < ks_free s" "ks_key s x = j" by auto
      moreover from this have "j \<noteq> i" using assms(3) by auto
      ultimately show ?thesis
        using ks_view_used [OF assms(1) x(1)] ks_view_used [OF inv, of x] len(3) other [OF x(1)] by simp
    next
      case False
      then have "ks_view s j = None" using ks_view_None [OF assms(1)] by simp
      moreover have "j \<noteq> i \<Longrightarrow> ks_view s' j = None"
        using False ks_view_None [OF inv, of j] len(3) here other by (auto simp: less_Suc_eq)
      moreover have "ks_view s' i = Some (ke_ignored (ks_buckets s' ! ks_free s), ke_packetOffset (ks_buckets s' ! ks_free s))"
        using ks_view_used [OF inv, of "ks_free s"] len(3) here by simp
      ultimately show ?thesis by simp
    qed
  qed
qed

lemma findBucket_put:
  assumes "ks_inv s" "i \<in> dom (ks_view s) \<or> ks_free s < 1000"
  shows "\<exists>e s'. findBucket i s = Some (Some e, s') \<and> ks_inv (ks_put e ign i f s') \<and>
    ks_view (ks_put e ign i f s') = (ks_view s)(i \<mapsto> (ign, f (ks_offsets s i)))"
proof (cases "i \<in> ks_key s ` {..<ks_free s}")
  case True
  then obtain x where x: "x < ks_free s" "ks_key s x = i" by auto
  have c: "chase (ks_nx s) (ks_key s) i 1000 (ks_slots s ! tz_doHash i) None = Found x"
    by (rule table_found [where free = "ks_free s"]) (use assms x in \<open>simp_all add: ks_inv_def\<close>)
  then obtain e where e: "ks_slots s ! tz_doHash i = Some e" by (cases "ks_slots s ! tz_doHash i") (simp_all add: numeral_eq_Suc)
  have "findBucket i s = Some (Some x, s)"
    using c e by (simp add: findBucket_def Let_def bucket_search_chase)
  then show ?thesis using put_known [OF assms(1) x] by blast
next
  case False
  let ?k = "ks_free s"
  have k: "?k < 1000" using assms False by (simp add: ks_dom)
  have len: "length (ks_slots s) = 15" "length (ks_buckets s) = 1000" using assms(1) by (simp_all add: ks_inv_def)
  have off: "ks_offsets s i = replicate 200 (-1)" using False ks_view_None [OF assms(1), of i] by (simp add: ks_offsets_def)
  have key: "(ks_key s)(?k := i) = (\<lambda>x. if x = ?k then i else ks_key s x)" by auto
  from table_missing [of tz_doHash "ks_nx s" "ks_key s" "\<lambda>h. ks_slots s ! h" ?k i 1000 None] assms(1) False k
  consider
    (empty) "ks_slots s ! tz_doHash i = None"
      "hash_table tz_doHash ((ks_nx s)(?k := None)) ((ks_key s)(?k := i)) ((\<lambda>h. ks_slots s ! h)(tz_doHash i := Some ?k)) (Suc ?k)"
  | (tail) l p where "l < ?k" "ks_slots s ! tz_doHash i = Some p" "chase (ks_nx s) (ks_key s) i 1000 (Some p) None = At_end (Some l)"
      "hash_table tz_doHash ((ks_nx s)(l := Some ?k, ?k := None)) ((ks_key s)(?k := i)) (\<lambda>h. ks_slots s ! h) (Suc ?k)"
    by (auto simp: ks_inv_def)
  then show ?thesis
  proof cases
    case empty
    let ?s = "clear_bucket ?k (s\<lparr>ks_free := ?k + 1, ks_slots := (ks_slots s)[tz_doHash i := Some ?k]\<rparr>)"
    have f: "findBucket i s = Some (Some ?k, ?s)"
      using empty(1) k by (simp add: findBucket_def Let_def ks_take_def)
    have sl: "(\<lambda>h. ks_slots (ks_put ?k ign i f ?s) ! h) = (\<lambda>h. ks_slots s ! h)(tz_doHash i := Some ?k)"
      using len by (auto simp: set_bucket_def clear_bucket_def nth_list_update)
    have t: "hash_table tz_doHash ((ks_nx s)(?k := None)) (\<lambda>x. if x = ?k then i else ks_key s x)
        (\<lambda>h. ks_slots (ks_put ?k ign i f ?s) ! h) (Suc ?k)" using empty(2) unfolding key sl .
    have "ks_inv (ks_put ?k ign i f ?s)"
      by (rule put_new(1) [OF assms(1) k False _ _ _ t]; use len k in \<open>simp add: set_bucket_def clear_bucket_def nth_list_update\<close>)
    moreover have "ks_view (ks_put ?k ign i f ?s) = (ks_view s)(i \<mapsto> (ke_ignored (ks_buckets (ks_put ?k ign i f ?s) ! ?k),
        ke_packetOffset (ks_buckets (ks_put ?k ign i f ?s) ! ?k)))"
      by (rule put_new(2) [OF assms(1) k False _ _ _ t]; use len k in \<open>simp add: set_bucket_def clear_bucket_def nth_list_update\<close>)
    ultimately show ?thesis using f off len k by (simp add: set_bucket_def clear_bucket_def)
  next
    case tail
    let ?s = "clear_bucket ?k (set_bucket l (ke_next_update (\<lambda>_. Some ?k)) (s\<lparr>ks_free := ?k + 1\<rparr>))"
    have f: "findBucket i s = Some (Some ?k, ?s)"
      using tail(2,3) k by (simp add: findBucket_def Let_def ks_take_def bucket_search_chase)
    have sl: "(\<lambda>h. ks_slots (ks_put ?k ign i f ?s) ! h) = (\<lambda>h. ks_slots s ! h)"
      by (simp add: set_bucket_def clear_bucket_def)
    have t: "hash_table tz_doHash ((ks_nx s)(l := Some ?k, ?k := None)) (\<lambda>x. if x = ?k then i else ks_key s x)
        (\<lambda>h. ks_slots (ks_put ?k ign i f ?s) ! h) (Suc ?k)" using tail(4) unfolding key sl .
    have "ks_inv (ks_put ?k ign i f ?s)"
      by (rule put_new(1) [OF assms(1) k False _ _ _ t]; use len k tail(1) in \<open>simp add: set_bucket_def clear_bucket_def nth_list_update\<close>)
    moreover have "ks_view (ks_put ?k ign i f ?s) = (ks_view s)(i \<mapsto> (ke_ignored (ks_buckets (ks_put ?k ign i f ?s) ! ?k),
        ke_packetOffset (ks_buckets (ks_put ?k ign i f ?s) ! ?k)))"
      by (rule put_new(2) [OF assms(1) k False _ _ _ t]; use len k tail(1) in \<open>simp add: set_bucket_def clear_bucket_def nth_list_update\<close>)
    ultimately show ?thesis using f off len k tail(1) by (simp add: set_bucket_def clear_bucket_def)
  qed
qed

end
