(* ===== verification/Packetizer_Config.thy ===== *)
theory Packetizer_Config
  imports Packetizer_Table
begin

text \<open>
  Valid configurations of the telemetry packetizer, and the state \<open>setPacketList\<close> leaves for them: the table has the
  place of each channel in the packets, the fill buffers hold the headers of the packets and values of zeros.
\<close>

section \<open>Configurations\<close>

definition chans :: "TlmPacketizerPacket \<Rightarrow> TlmPacketizerChannelEntry list" where
  "chans p = (case pp_list p of Some cs \<Rightarrow> take (unat (pp_numEntries p)) cs | None \<Rightarrow> [])"

definition listed :: "TlmPacketizerPacket \<Rightarrow> bool" where
  "listed p = (case pp_list p of Some cs \<Rightarrow> unat (pp_numEntries p) \<le> length cs | None \<Rightarrow> False)"

definition channel_ids :: "TlmPacketizerPacket \<Rightarrow> U32 list" where
  "channel_ids p = map ce_id (chans p)"

definition sizes :: "TlmPacketizerChannelEntry list \<Rightarrow> nat" where
  "sizes cs = (\<Sum>c\<leftarrow>cs. unat (ce_size c))"

definition packet_ok :: "TlmPacketizerPacket \<Rightarrow> bool" where
  "packet_ok p \<longleftrightarrow> listed p \<and> distinct (channel_ids p) \<and> 17 + sizes (chans p) \<le> FW_COM_BUFFER_MAX_SIZE"

definition packets_of :: "TlmPacketizerPacketList \<Rightarrow> TlmPacketizerPacket list" where
  "packets_of l = take (unat (pl_numEntries l)) (pl_list l)"

definition ids_of :: "TlmPacketizerPacket list \<Rightarrow> U32 list" where
  "ids_of ps = concat (map channel_ids ps)"

text \<open>A valid configuration: packets that fit, channels packetized or ignored but not both, room in the table.\<close>

definition config_ok :: "TlmPacketizerPacketList \<Rightarrow> TlmPacketizerPacket \<Rightarrow> bool" where
  "config_ok l ig \<longleftrightarrow> unat (pl_numEntries l) \<le> length (pl_list l) \<and> unat (pl_numEntries l) \<le> MAX_PACKETIZER_PACKETS \<and>
     list_all packet_ok (packets_of l) \<and> listed ig \<and> set (ids_of (packets_of l)) \<inter> set (channel_ids ig) = {} \<and>
     length (ids_of (packets_of l)) + length (channel_ids ig) < TLMPACKETIZER_HASH_BUCKETS"

text \<open>Where a channel lies, from a start position on.\<close>

fun place :: "TlmPacketizerChannelEntry list \<Rightarrow> nat \<Rightarrow> U32 \<Rightarrow> nat option" where
  "place [] n i = None"
| "place (c # cs) n i = (if ce_id c = i then Some n else place cs (n + unat (ce_size c)) i)"

lemma place_None: "place cs n i = None \<longleftrightarrow> i \<notin> ce_id ` set cs"
  by (induction cs arbitrary: n) auto

lemma place_shift: "place cs (n + m) i = map_option ((+) n) (place cs m i)"
proof (induction cs arbitrary: m)
  case (Cons c cs)
  show ?case using Cons [of "m + unat (ce_size c)"] by (simp add: add.assoc)
qed simp

lemma place_0:
  assumes "place cs n i = Some off"
  obtains off' where "place cs 0 i = Some off'" "off = n + off'"
  using assms place_shift [of cs n 0 i] by (cases "place cs 0 i") auto

lemma place_bounds:
  assumes "place cs n i = Some off" "c \<in> set cs" "ce_id c = i" "distinct (map ce_id cs)"
  shows "n \<le> off \<and> off + unat (ce_size c) \<le> n + sizes cs"
  using assms
proof (induction cs arbitrary: n)
  case (Cons d cs)
  show ?case
  proof (cases "ce_id d = i")
    case True
    have "ce_id d \<notin> ce_id ` set cs" using Cons.prems(4) by simp
    then have "c \<notin> set cs" using Cons.prems(3) True by (metis image_eqI)
    then have "c = d" using Cons.prems(2) by simp
    then show ?thesis using Cons.prems(1) True by (simp add: sizes_def)
  next
    case False
    then have "c \<in> set cs" using Cons.prems(2,3) by auto
    then show ?thesis using Cons.IH [of "n + unat (ce_size d)"] Cons.prems False by (simp add: sizes_def)
  qed
qed simp

definition offsets_of :: "TlmPacketizerPacket list \<Rightarrow> U32 \<Rightarrow> I32 list" where
  "offsets_of ps i = map (\<lambda>k. if k < length ps
     then (case place (chans (ps ! k)) 17 i of Some off \<Rightarrow> of_nat off | None \<Rightarrow> -1) else -1) [0..<MAX_PACKETIZER_PACKETS]"

lemma offsets_of_none: "i \<notin> set (ids_of ps) \<Longrightarrow> offsets_of ps i = replicate 200 (-1)"
proof -
  assume i: "i \<notin> set (ids_of ps)"
  have "place (chans (ps ! k)) 17 i = None" if "k < length ps" for k
    using i that nth_mem [OF that] by (auto simp: place_None ids_of_def channel_ids_def)
  then show ?thesis by (intro nth_equalityI) (simp_all add: offsets_of_def)
qed

lemma offsets_of_snoc:
  assumes "length ps < 200"
  shows "offsets_of (ps @ [p]) i = (case place (chans p) 17 i of None \<Rightarrow> offsets_of ps i
    | Some off \<Rightarrow> (offsets_of ps i)[length ps := of_nat off])"
  using assms
  by (intro nth_equalityI) (auto simp: offsets_of_def nth_append nth_list_update less_Suc_eq split: option.splits)

section \<open>Filling the table\<close>

lemma ks_view_put_offsets:
  "ks_view s' = (ks_view s)(i \<mapsto> (ign, os)) \<Longrightarrow> ks_offsets s' j = (if j = i then os else ks_offsets s j)"
  by (simp add: ks_offsets_def)

lemma room_for:
  assumes "ks_inv s" "card (dom (ks_view s) \<union> A) \<le> 1000" "i \<in> A" "finite A"
  shows "i \<in> dom (ks_view s) \<or> ks_free s < 1000"
proof (rule ccontr)
  assume n: "\<not> ?thesis"
  have "card (dom (ks_view s)) < card (dom (ks_view s) \<union> A)"
    by (rule psubset_card_mono) (use n assms ks_inv_finite [OF assms(1)] in auto)
  then show False using n assms(2) ks_card [OF assms(1)] by simp
qed

lemma set_channels_ok:
  assumes "ks_inv s" "card (dom (ks_view s) \<union> ce_id ` set cs) \<le> 1000" "distinct (map ce_id cs)"
  shows "\<exists>s'. set_channels k cs len s = Some (len + of_nat (sizes cs), s') \<and> ks_inv s' \<and>
    (unat len + sizes cs < 2 ^ 32 \<longrightarrow> (\<forall>i. ks_view s' i = (case place cs (unat len) i of None \<Rightarrow> ks_view s i
      | Some off \<Rightarrow> Some (False, (ks_offsets s i)[k := of_nat off]))))"
  using assms
proof (induction cs arbitrary: s len)
  case Nil
  then show ?case by (simp add: sizes_def)
next
  case (Cons c cs)
  obtain e s1 where e: "findBucket (ce_id c) s = Some (Some e, s1)"
    "ks_inv (ks_put e False (ce_id c) (\<lambda>os. os[k := ucast len]) s1)"
    "ks_view (ks_put e False (ce_id c) (\<lambda>os. os[k := ucast len]) s1) =
      (ks_view s)(ce_id c \<mapsto> (False, (ks_offsets s (ce_id c))[k := ucast len]))"
    using findBucket_put [OF Cons.prems(1), where i = "ce_id c" and ign = False and f = "\<lambda>os. os[k := ucast len]"] room_for [OF Cons.prems(1,2)] by auto
  let ?s = "ks_put e False (ce_id c) (\<lambda>os. os[k := ucast len]) s1"
  have d: "dom (ks_view ?s) \<union> ce_id ` set cs = dom (ks_view s) \<union> ce_id ` set (c # cs)"
    unfolding e(3) by auto
  have dc: "distinct (map ce_id cs)" using Cons.prems(3) by simp
  have card: "card (dom (ks_view ?s) \<union> ce_id ` set cs) \<le> 1000" unfolding d by (rule Cons.prems(2))
  obtain s' where s': "set_channels k cs (len + ce_size c) ?s = Some (len + ce_size c + of_nat (sizes cs), s')" "ks_inv s'"
    "unat (len + ce_size c) + sizes cs < 2 ^ 32 \<longrightarrow> (\<forall>i. ks_view s' i = (case place cs (unat (len + ce_size c)) i of
        None \<Rightarrow> ks_view ?s i | Some off \<Rightarrow> Some (False, (ks_offsets ?s i)[k := of_nat off])))"
    using Cons.IH [OF e(2) card dc, of "len + ce_size c"] by blast
  have "set_channels k (c # cs) len s = Some (len + of_nat (sizes (c # cs)), s')"
    using e(1) s'(1) by (simp add: sizes_def add.assoc Let_def)
  moreover have "ks_view s' i = (case place (c # cs) (unat len) i of None \<Rightarrow> ks_view s i
      | Some off \<Rightarrow> Some (False, (ks_offsets s i)[k := of_nat off]))" if b: "unat len + sizes (c # cs) < 2 ^ 32" for i
  proof -
    have u: "unat (len + ce_size c) = unat len + unat (ce_size c)"
      using b by (intro unat_add_small) (simp add: sizes_def)
    have v: "ks_view s' i = (case place cs (unat len + unat (ce_size c)) i of
        None \<Rightarrow> ks_view ?s i | Some off \<Rightarrow> Some (False, (ks_offsets ?s i)[k := of_nat off]))"
      using s'(3) b unfolding u by (simp add: sizes_def)
    show ?thesis
    proof (cases "ce_id c = i")
      case True
      then have "place cs (unat len + unat (ce_size c)) i = None" using Cons.prems(3) by (auto simp: place_None)
      then show ?thesis using v True e(3) by simp
    next
      case False
      then show ?thesis using v e(3) ks_view_put_offsets [OF e(3)] by (auto split: option.splits)
    qed
  qed
  ultimately show ?case using s'(2) by blast
qed

lemma set_ignored_ok:
  assumes "ks_inv s" "card (dom (ks_view s) \<union> ce_id ` set cs) \<le> 1000"
  shows "\<exists>s'. set_ignored cs s = Some s' \<and> ks_inv s' \<and>
    (\<forall>i. ks_view s' i = (if i \<in> ce_id ` set cs then Some (True, ks_offsets s i) else ks_view s i))"
  using assms
proof (induction cs arbitrary: s)
  case (Cons c cs)
  obtain e s1 where e: "findBucket (ce_id c) s = Some (Some e, s1)" "ks_inv (ks_put e True (ce_id c) id s1)"
    "ks_view (ks_put e True (ce_id c) id s1) = (ks_view s)(ce_id c \<mapsto> (True, ks_offsets s (ce_id c)))"
    using findBucket_put [OF Cons.prems(1), where i = "ce_id c" and ign = True and f = id] room_for [OF Cons.prems(1,2)] by auto
  let ?s = "ks_put e True (ce_id c) id s1"
  have p: "set_bucket e (\<lambda>x. x\<lparr>ke_used := True, ke_ignored := True, ke_id := ce_id c\<rparr>) s1 = ?s"
    by (simp add: set_bucket_def)
  have d: "dom (ks_view ?s) \<union> ce_id ` set cs = dom (ks_view s) \<union> ce_id ` set (c # cs)" unfolding e(3) by auto
  have "card (dom (ks_view ?s) \<union> ce_id ` set cs) \<le> 1000" unfolding d by (rule Cons.prems(2))
  then obtain s' where s': "set_ignored cs ?s = Some s'" "ks_inv s'"
    "\<forall>i. ks_view s' i = (if i \<in> ce_id ` set cs then Some (True, ks_offsets ?s i) else ks_view ?s i)"
    using Cons.IH [OF e(2)] by blast
  have "ks_view s' i = (if i \<in> ce_id ` set (c # cs) then Some (True, ks_offsets s i) else ks_view s i)" for i
  proof -
    have o: "ks_offsets ?s i = ks_offsets s i"
      unfolding ks_view_put_offsets [OF e(3)] by simp
    have "ks_view s' i = (if i \<in> ce_id ` set cs then Some (True, ks_offsets ?s i) else ks_view ?s i)"
      by (rule s'(3) [rule_format])
    then show ?thesis unfolding o e(3) by (cases "i = ce_id c") simp_all
  qed
  moreover have "set_ignored (c # cs) s = Some s'" using e(1) s'(1) [folded p] by simp
  ultimately show ?case using s'(2) by blast
qed simp


section \<open>Setting up the packets\<close>

definition packet_header :: "TlmPacketizerPacket \<Rightarrow> U8 list" where
  "packet_header p = bytes_of_U32 (packet_type_code FW_PACKET_PACKETIZED_TLM) @ bytes_of_U16 (pp_id p)"

lemma length_packet_header [simp]: "length (packet_header p) = 6"
  by (simp add: packet_header_def)

definition fill_ok :: "TlmPacketizerPacket \<Rightarrow> BufferEntry \<Rightarrow> bool" where
  "fill_ok p b \<longleftrightarrow> ser_wf (be_buffer b) \<and> length (m_data (be_buffer b)) = 128 \<and> \<not> m_null (be_buffer b) \<and>
     m_serLoc (be_buffer b) = of_nat (17 + sizes (chans p)) \<and> take 6 (m_data (be_buffer b)) = packet_header p \<and>
     be_id b = ucast (pp_id p) \<and> be_level b = pp_level p"

definition blank_buffer :: "ser_buf \<Rightarrow> bool" where
  "blank_buffer b \<longleftrightarrow> ser_wf b \<and> length (m_data b) = 128 \<and> \<not> m_null b \<and> m_serLoc b = 0"

text \<open>The tables before the packets from \<open>n\<close> on are set up.\<close>

definition table_for :: "TlmPacketizerPacket list \<Rightarrow> PkSet \<Rightarrow> bool" where
  "table_for ps s \<longleftrightarrow> ks_inv s \<and> (\<forall>i. ks_view s i = (if i \<in> set (ids_of ps) then Some (False, offsets_of ps i) else None))"

lemma table_for_offsets: "table_for ps s \<Longrightarrow> ks_offsets s i = offsets_of ps i"
  by (simp add: table_for_def ks_offsets_def offsets_of_none)

lemma header_written:
  assumes "blank_buffer b" "n \<le> 128" "17 \<le> n"
  shows "\<exists>d s2 b2 b3. write_at (m_data b) 0 (replicate n 0) = Some d \<and>
    serialize_U32 (b\<lparr>m_data := d\<rparr>) (packet_type_code FW_PACKET_PACKETIZED_TLM) = Some (FW_SERIALIZE_OK, s2) \<and>
    serialize_U16 s2 i = Some (FW_SERIALIZE_OK, b2) \<and> setBuffLen b2 (of_nat n) = (FW_SERIALIZE_OK, b3) \<and>
    ser_wf b3 \<and> length (m_data b3) = 128 \<and> \<not> m_null b3 \<and> m_serLoc b3 = of_nat n \<and>
    take 6 (m_data b3) = bytes_of_U32 (packet_type_code FW_PACKET_PACKETIZED_TLM) @ bytes_of_U16 i \<and>
    drop 17 (take n (m_data b3)) = replicate (n - 17) 0"
proof -
  let ?h = "bytes_of_U32 (packet_type_code FW_PACKET_PACKETIZED_TLM)" and ?d = "replicate n 0 @ drop n (m_data b)"
  let ?b = "b\<lparr>m_data := ?d\<rparr>"
  have b: "ser_wf ?b" "contents ?b = []" "room ?b = 128" "\<not> m_null ?b" "m_serLoc ?b = 0"
    using assms by (auto simp: blank_buffer_def ser_wf_def contents_def room_def)
  have s2: "serialize_U32 ?b (packet_type_code FW_PACKET_PACKETIZED_TLM) = Some (FW_SERIALIZE_OK, append_to ?b ?h)"
    by (rule u32.put_ok) (use b in simp_all)
  let ?b2 = "append_to (append_to ?b ?h) (bytes_of_U16 i)"
  have f: "ser_wf (append_to ?b ?h)" "room (append_to ?b ?h) = 124"
    using append_to_facts [of ?b ?h] b by simp_all
  have b2: "serialize_U16 (append_to ?b ?h) i = Some (FW_SERIALIZE_OK, ?b2)"
    by (rule u16.put_ok) (use f in simp_all)
  have a: "?b2 = append_to ?b (?h @ bytes_of_U16 i)"
    by (rule append_to_append) (use b in simp_all)
  have d2: "m_data ?b2 = (?h @ bytes_of_U16 i) @ drop 6 ?d" "length (m_data ?b2) = 128" "ser_wf ?b2" "\<not> m_null ?b2"
    using append_to_facts [of ?b "?h @ bytes_of_U16 i"] b assms unfolding a
    by (simp_all add: append_to_def blank_buffer_def)
  let ?b3 = "?b2\<lparr>m_serLoc := of_nat n, m_deserLoc := 0\<rparr>"
  have sb: "setBuffLen ?b2 (of_nat n) = (FW_SERIALIZE_OK, ?b3)"
    using assms(2) unat_getBuffCapacity [OF d2(3)] d2(2) by (simp add: setBuffLen_def word_less_nat_alt unat_of_nat32)
  have wf3: "ser_wf ?b3" using d2(2,3) assms(2) by (simp add: ser_wf_def unat_of_nat32)
  have tail: "drop 17 (take n (m_data ?b3)) = replicate (n - 17) 0"
  proof -
    have "drop 17 (take n ((?h @ bytes_of_U16 i) @ drop 6 ?d)) = take (n - 17) (drop 11 (drop 6 ?d))"
      using assms(3) by (simp add: drop_take)
    also have "\<dots> = replicate (n - 17) 0" using assms(3) by simp
    finally show ?thesis using d2(1) by simp
  qed
  have w: "write_at (m_data b) 0 (replicate n 0) = Some ?d"
    using assms by (simp add: blank_buffer_def write_at_def)
  have rest: "length (m_data ?b3) = 128" "\<not> m_null ?b3" "m_serLoc ?b3 = of_nat n" "take 6 (m_data ?b3) = ?h @ bytes_of_U16 i"
    using d2 by simp_all
  show ?thesis by (intro exI conjI) (rule w s2 b2 sb wf3 rest tail)+
qed


text \<open>Buffers before and after the set-up of their packet.\<close>

definition fresh :: "BufferEntry \<Rightarrow> bool" where
  "fresh b \<longleftrightarrow> blank_buffer (be_buffer b) \<and> \<not> be_updated b \<and> \<not> be_requested b \<and> be_latestTime b = Time_new"

definition started :: "TlmPacketizerPacket \<Rightarrow> BufferEntry \<Rightarrow> bool" where
  "started p b \<longleftrightarrow> fill_ok p b \<and> drop 17 (contents (be_buffer b)) = replicate (sizes (chans p)) 0 \<and>
     \<not> be_updated b \<and> \<not> be_requested b \<and> be_latestTime b = Time_new"

lemma table_for_dom: "table_for ps s \<Longrightarrow> dom (ks_view s) = set (ids_of ps)"
  by (auto simp: table_for_def dom_def split: if_splits)

lemma ids_of_snoc [simp]: "ids_of (ps @ qs) = ids_of ps @ ids_of qs" "ids_of [] = []" "ids_of (p # ps) = channel_ids p @ ids_of ps"
  by (simp_all add: ids_of_def)

lemma table_for_snoc:
  assumes "table_for ps s" "packet_ok p" "length ps < 200" "length (ids_of (ps @ [p])) \<le> 1000"
  shows "\<exists>s'. set_channels (length ps) (chans p) 17 s = Some (of_nat (17 + sizes (chans p)), s') \<and> table_for (ps @ [p]) s'"
proof -
  have inv: "ks_inv s" and d: "distinct (map ce_id (chans p))" "17 + sizes (chans p) \<le> 128"
    using assms(1,2) by (simp_all add: table_for_def packet_ok_def channel_ids_def)
  have "dom (ks_view s) \<union> ce_id ` set (chans p) = set (ids_of (ps @ [p]))"
    using table_for_dom [OF assms(1)] by (simp add: channel_ids_def)
  then have card: "card (dom (ks_view s) \<union> ce_id ` set (chans p)) \<le> 1000"
    using card_length [of "ids_of (ps @ [p])"] assms(4) by simp
  obtain s' where s': "set_channels (length ps) (chans p) 17 s = Some (17 + of_nat (sizes (chans p)), s')" "ks_inv s'"
    "\<forall>i. ks_view s' i = (case place (chans p) 17 i of None \<Rightarrow> ks_view s i
      | Some off \<Rightarrow> Some (False, (ks_offsets s i)[length ps := of_nat off]))"
    using set_channels_ok [OF inv card d(1), of "length ps" 17] d(2) by auto
  have "ks_view s' i = (if i \<in> set (ids_of (ps @ [p])) then Some (False, offsets_of (ps @ [p]) i) else None)" for i
  proof -
    have v: "ks_view s' i = (case place (chans p) 17 i of None \<Rightarrow> ks_view s i
        | Some off \<Rightarrow> Some (False, (offsets_of ps i)[length ps := of_nat off]))"
      using s'(3) [rule_format, of i] unfolding table_for_offsets [OF assms(1)] .
    have i: "i \<in> set (channel_ids p) \<longleftrightarrow> place (chans p) 17 i \<noteq> None" by (simp add: place_None channel_ids_def)
    have t: "ks_view s i = (if i \<in> set (ids_of ps) then Some (False, offsets_of ps i) else None)"
      using assms(1) by (simp add: table_for_def)
    show ?thesis unfolding v t offsets_of_snoc [OF assms(3)] using i by (cases "place (chans p) 17 i") auto
  qed
  then show ?thesis using s'(1,2) by (simp add: table_for_def)
qed

lemma set_packet_ok:
  assumes "table_for ps (tz_entries z)" "packet_ok p" "length ps < 200" "length (ids_of (ps @ [p])) \<le> 1000"
    and "fresh (tz_fill z ! length ps)"
  shows "\<exists>s b. set_packet (length ps) p lvl z = Some (z\<lparr>tz_entries := s, tz_fill := (tz_fill z)[length ps := b],
      tz_maxLevel := max (tz_maxLevel z) (pp_level p), tz_startLevel := lvl\<rparr>) \<and> table_for (ps @ [p]) s \<and> started p b"
proof -
  let ?b = "tz_fill z ! length ps" and ?n = "17 + sizes (chans p)"
  have n: "?n \<le> 128" and l: "listed p" using assms(2) by (simp_all add: packet_ok_def)
  have cs: "pp_list p \<bind> (\<lambda>cs. read_at cs 0 (unat (pp_numEntries p)) \<bind> g) = g (chans p)" for g :: "_ \<Rightarrow> 'a option"
    using l by (auto simp: listed_def chans_def read_at_def split: option.splits)
  obtain s where s: "set_channels (length ps) (chans p) 17 (tz_entries z) = Some (of_nat ?n, s)" "table_for (ps @ [p]) s"
    using table_for_snoc [OF assms(1-4)] by blast
  have bb: "blank_buffer (be_buffer ?b)" using assms(5) by (simp add: fresh_def)
  obtain d s2 b2 b3 where w: "write_at (m_data (be_buffer ?b)) 0 (replicate ?n 0) = Some d"
    "serialize_U32 ((be_buffer ?b)\<lparr>m_data := d\<rparr>) (packet_type_code FW_PACKET_PACKETIZED_TLM) = Some (FW_SERIALIZE_OK, s2)"
    "serialize_U16 s2 (pp_id p) = Some (FW_SERIALIZE_OK, b2)" "setBuffLen b2 (of_nat ?n) = (FW_SERIALIZE_OK, b3)"
    "ser_wf b3" "length (m_data b3) = 128" "\<not> m_null b3" "m_serLoc b3 = of_nat ?n"
    "take 6 (m_data b3) = packet_header p" "drop 17 (take ?n (m_data b3)) = replicate (?n - 17) 0"
    using header_written [OF bb n, of "pp_id p"] unfolding packet_header_def by auto
  let ?b' = "?b\<lparr>be_buffer := b3, be_id := ucast (pp_id p), be_level := pp_level p\<rparr>"
  have un: "unat (of_nat ?n :: U32) = ?n" using n by (simp add: unat_of_nat32 del: of_nat_add)
  have "started p ?b'"
    using w(5-10) assms(5) un by (simp add: started_def fill_ok_def fresh_def contents_def del: of_nat_add)
  moreover have "set_packet (length ps) p lvl z = Some (z\<lparr>tz_entries := s, tz_fill := (tz_fill z)[length ps := ?b'],
      tz_maxLevel := max (tz_maxLevel z) (pp_level p), tz_startLevel := lvl\<rparr>)"
    using s(1) w(1-4) n un
    by (simp add: set_packet_def cs Let_def max_def not_less del: of_nat_add)
  ultimately show ?thesis using s(2) by blast
qed

definition ready :: "TlmPacketizerPacket list \<Rightarrow> TlmPacketizer \<Rightarrow> bool" where
  "ready ps z \<longleftrightarrow> table_for ps (tz_entries z) \<and> length (tz_fill z) = 200 \<and>
     (\<forall>k < length ps. started (ps ! k) (tz_fill z ! k)) \<and> (\<forall>k < 200. length ps \<le> k \<longrightarrow> fresh (tz_fill z ! k))"

lemma set_packets_ok:
  assumes "ready ps z" "list_all packet_ok qs" "length (ps @ qs) \<le> 200" "length (ids_of (ps @ qs)) \<le> 1000"
  shows "\<exists>s F. set_packets (length ps) qs lvl z = Some (z\<lparr>tz_entries := s, tz_fill := F,
      tz_maxLevel := fold max (map pp_level qs) (tz_maxLevel z), tz_startLevel := (if qs = [] then tz_startLevel z else lvl)\<rparr>) \<and>
    ready (ps @ qs) (z\<lparr>tz_entries := s, tz_fill := F\<rparr>)"
  using assms
proof (induction qs arbitrary: ps z)
  case Nil
  then show ?case by (intro exI [of _ "tz_entries z"] exI [of _ "tz_fill z"]) simp
next
  case (Cons q qs)
  have p: "table_for ps (tz_entries z)" "packet_ok q" "length ps < 200" "length (ids_of (ps @ [q])) \<le> 1000"
    "fresh (tz_fill z ! length ps)" and len: "length (tz_fill z) = 200"
    using Cons.prems by (simp_all add: ready_def)
  obtain s b where s: "set_packet (length ps) q lvl z = Some (z\<lparr>tz_entries := s, tz_fill := (tz_fill z)[length ps := b],
      tz_maxLevel := max (tz_maxLevel z) (pp_level q), tz_startLevel := lvl\<rparr>)" "table_for (ps @ [q]) s" "started q b"
    using set_packet_ok [OF p] by blast
  let ?z = "z\<lparr>tz_entries := s, tz_fill := (tz_fill z)[length ps := b],
      tz_maxLevel := max (tz_maxLevel z) (pp_level q), tz_startLevel := lvl\<rparr>"
  have "ready (ps @ [q]) ?z"
    using Cons.prems(1) s(2,3) p(3) len by (auto simp: ready_def nth_append nth_list_update less_Suc_eq)
  then obtain s' F where r: "set_packets (length (ps @ [q])) qs lvl ?z = Some (?z\<lparr>tz_entries := s', tz_fill := F,
      tz_maxLevel := fold max (map pp_level qs) (tz_maxLevel ?z), tz_startLevel := (if qs = [] then tz_startLevel ?z else lvl)\<rparr>)"
    "ready ((ps @ [q]) @ qs) (?z\<lparr>tz_entries := s', tz_fill := F\<rparr>)"
    using Cons.IH [of "ps @ [q]" ?z] Cons.prems by auto
  have "ready (ps @ q # qs) (z\<lparr>tz_entries := s', tz_fill := F\<rparr>)" using r(2) by (simp add: ready_def)
  moreover have "set_packets (length ps) (q # qs) lvl z = Some (z\<lparr>tz_entries := s', tz_fill := F,
      tz_maxLevel := fold max (map pp_level (q # qs)) (tz_maxLevel z), tz_startLevel := lvl\<rparr>)"
    using s(1) r(1) by (simp add: max.commute)
  ultimately show ?case by auto
qed

end
