(* ===== verification/Packetizer_Properties.thy ===== *)
theory Packetizer_Properties
  imports Packetizer_Config Refinement
begin

text \<open>
  What the telemetry packetizer promises: it sends the packets of its configuration with the latest values of
  their channels. The specification knows neither hash tables nor offsets: a packet is the list of the latest
  values of its channels, and the component refines it for every valid configuration.
\<close>

section \<open>Specification\<close>

record packet_state =
  ps_values :: "U8 list list"
  ps_time :: Time
  ps_updated :: bool
  ps_requested :: bool

record packetizer_state =
  sp_packets :: "packet_state list"
  sp_level :: U32
  sp_max :: U32
  sp_reported :: "U32 list"

datatype pk_op =
    Receive U32 Time ser_buf | Cycle bool | Ping U32 | Set_level U32 U32 U32 | Send_packet Time U32 U32 U32

definition receive_value :: "U32 \<Rightarrow> Time \<Rightarrow> U8 list \<Rightarrow> TlmPacketizerPacket \<Rightarrow> packet_state \<Rightarrow> packet_state" where
  "receive_value i t v p st =
     (if i \<in> set (channel_ids p)
      then st\<lparr>ps_values := map2 (\<lambda>c old. if ce_id c = i then v else old) (chans p) (ps_values st), ps_time := t, ps_updated := True\<rparr>
      else st)"

definition due :: "U32 \<Rightarrow> TlmPacketizerPacket \<Rightarrow> packet_state \<Rightarrow> bool" where
  "due level p st \<longleftrightarrow> ps_updated st \<and> (pp_level p \<le> level \<or> ps_requested st)"

definition packet_image :: "TlmPacketizerPacket \<Rightarrow> packet_state \<Rightarrow> U8 list" where
  "packet_image p st = packet_header p @ Time_bytes (ps_time st) @ concat (ps_values st)"

fun packetizer_spec :: "TlmPacketizerPacket list \<Rightarrow> U32 list \<Rightarrow> pk_op \<Rightarrow> packetizer_state \<Rightarrow> pk_output list \<times> packetizer_state" where
  "packetizer_spec ps igs (Receive i t val) st =
     (if i \<in> set (ids_of ps) then ([], st\<lparr>sp_packets := map2 (receive_value i t (contents val)) ps (sp_packets st)\<rparr>)
      else if i \<in> set igs \<or> i \<in> set (sp_reported st) \<or> length (sp_reported st) = TLMPACKETIZER_MAX_MISSING_TLM_CHECK then ([], st)
      else ([NoChan i], st\<lparr>sp_reported := sp_reported st @ [i]\<rparr>))"
| "packetizer_spec ps igs (Cycle connected) st =
     (if connected
      then (map (\<lambda>(p, x). PktSend (packet_image p x) 0) (filter (\<lambda>(p, x). due (sp_level st) p x) (zip ps (sp_packets st))),
        st\<lparr>sp_packets := map2 (\<lambda>p x. if due (sp_level st) p x then x\<lparr>ps_updated := False, ps_requested := False\<rparr> else x)
          ps (sp_packets st)\<rparr>)
      else ([], st))"
| "packetizer_spec ps igs (Ping key) st = ([PkPingOut key], st)"
| "packetizer_spec ps igs (Set_level opCode cmdSeq level) st =
     ((if level > sp_max st then [MaxLevelExceed level (sp_max st)] else []) @
        [SendLevel level, LevelSet level, PkCmdResponse opCode cmdSeq CmdResponse_OK], st\<lparr>sp_level := level\<rparr>)"
| "packetizer_spec ps igs (Send_packet now opCode cmdSeq i) st =
     (case first_index (\<lambda>p. ucast (pp_id p) = i) ps of
        Some k \<Rightarrow> ([PacketSent i, PkCmdResponse opCode cmdSeq CmdResponse_OK],
          st\<lparr>sp_packets := (sp_packets st)[k := (sp_packets st ! k)\<lparr>ps_updated := True, ps_time := now, ps_requested := True\<rparr>]\<rparr>)
      | None \<Rightarrow> ([PacketNotFound i, PkCmdResponse opCode cmdSeq VALIDATION_ERROR], st))"

text \<open>The code's step, with what it sends and reports.\<close>

definition pk_step :: "pk_op \<Rightarrow> TlmPacketizer \<Rightarrow> (pk_output list \<times> TlmPacketizer) option" where
  "pk_step x z = (
     let z = z\<lparr>tz_outs := []\<rparr> in
     map_option (\<lambda>z. (tz_outs z, z)) (case x of
       Receive i t val \<Rightarrow> tz_TlmRecv_handler i t val z
     | Cycle connected \<Rightarrow> tz_Run_handler connected z
     | Ping key \<Rightarrow> Some (tz_pingIn_handler key z)
     | Set_level opCode cmdSeq level \<Rightarrow> Some (SET_LEVEL_cmdHandler opCode cmdSeq level z)
     | Send_packet now opCode cmdSeq i \<Rightarrow> Some (SEND_PKT_cmdHandler now opCode cmdSeq i z)))"

text \<open>A value has the size the configuration gives for its channel.\<close>

fun pk_op_ok :: "TlmPacketizerPacket list \<Rightarrow> pk_op \<Rightarrow> bool" where
  "pk_op_ok ps (Receive i t val) \<longleftrightarrow> tlm_buffer val \<and>
     list_all (\<lambda>p. list_all (\<lambda>c. ce_id c = i \<longrightarrow> unat (ce_size c) = length (contents val)) (chans p)) ps"
| "pk_op_ok ps _ \<longleftrightarrow> True"

section \<open>Abstraction\<close>

fun values_in :: "TlmPacketizerChannelEntry list \<Rightarrow> U8 list \<Rightarrow> U8 list list" where
  "values_in [] bs = []"
| "values_in (c # cs) bs = take (unat (ce_size c)) bs # values_in cs (drop (unat (ce_size c)) bs)"

definition abs_packet :: "TlmPacketizerPacket \<Rightarrow> BufferEntry \<Rightarrow> packet_state" where
  "abs_packet p b = \<lparr>ps_values = values_in (chans p) (drop 17 (contents (be_buffer b))), ps_time = be_latestTime b,
     ps_updated = be_updated b, ps_requested = be_requested b\<rparr>"

definition pk_abs :: "TlmPacketizerPacket list \<Rightarrow> TlmPacketizer \<Rightarrow> packetizer_state" where
  "pk_abs ps z = \<lparr>sp_packets = map2 abs_packet ps (tz_fill z), sp_level = tz_startLevel z, sp_max = tz_maxLevel z,
     sp_reported = map fst (takeWhile snd (tz_missTlmCheck z))\<rparr>"

definition send_ok :: "BufferEntry \<Rightarrow> bool" where
  "send_ok b \<longleftrightarrow> ser_wf (be_buffer b) \<and> length (m_data (be_buffer b)) = 128 \<and> \<not> m_null (be_buffer b)"

definition miss_ok :: "(U32 \<times> bool) list \<Rightarrow> bool" where
  "miss_ok m \<longleftrightarrow> length m = TLMPACKETIZER_MAX_MISSING_TLM_CHECK \<and> (\<forall>x \<in> set (dropWhile snd m). \<not> snd x)"

definition pk_inv :: "TlmPacketizerPacket list \<Rightarrow> U32 list \<Rightarrow> TlmPacketizer \<Rightarrow> bool" where
  "pk_inv ps igs z \<longleftrightarrow> tz_configured z \<and> unat (tz_numPackets z) = length ps \<and> length ps \<le> 200 \<and> list_all packet_ok ps \<and>
     ks_inv (tz_entries z) \<and> ks_free (tz_entries z) < 1000 \<and>
     (\<forall>i. ks_view (tz_entries z) i = (if i \<in> set (ids_of ps) then Some (False, offsets_of ps i)
        else if i \<in> set igs then Some (True, offsets_of ps i) else None)) \<and>
     length (tz_fill z) = 200 \<and> (\<forall>k < length ps. fill_ok (ps ! k) (tz_fill z ! k)) \<and>
     length (tz_send z) = 200 \<and> (\<forall>k < length ps. send_ok (tz_send z ! k)) \<and> miss_ok (tz_missTlmCheck z)"

lemma length_values_in [simp]: "length (values_in cs bs) = length cs"
  by (induction cs bs rule: values_in.induct) simp_all

lemma concat_values_in: "concat (values_in cs bs) = take (sizes cs) bs"
  by (induction cs bs rule: values_in.induct) (simp_all add: sizes_def take_add)

lemma values_in_update:
  assumes "place cs 0 i = Some off" "distinct (map ce_id cs)" "\<forall>c \<in> set cs. ce_id c = i \<longrightarrow> unat (ce_size c) = length v"
    "sizes cs \<le> length bs"
  shows "values_in cs (take off bs @ v @ drop (off + length v) bs) =
    map2 (\<lambda>c old. if ce_id c = i then v else old) cs (values_in cs bs)"
  using assms
proof (induction cs arbitrary: off bs)
  case (Cons c cs)
  let ?n = "unat (ce_size c)"
  have n: "?n \<le> length bs" "sizes cs \<le> length (drop ?n bs)" using Cons.prems(4) by (simp_all add: sizes_def)
  show ?case
  proof (cases "ce_id c = i")
    case True
    have "ce_id c \<notin> ce_id ` set cs" using Cons.prems(2) by simp
    then have no: "\<forall>d \<in> set cs. ce_id d \<noteq> i" using True by (metis image_eqI)
    have "map2 (\<lambda>c old. if ce_id c = i then v else old) cs xs = xs" if "length xs = length cs" for xs :: "U8 list list"
      using no that by (intro nth_equalityI) auto
    then show ?thesis using Cons.prems(1,3) True by simp
  next
    case False
    then have "place cs ?n i = Some off" using Cons.prems(1) by simp
    then obtain off' where o: "place cs 0 i = Some off'" "off = ?n + off'" by (rule place_0)
    have t: "take ?n (take off bs @ v @ drop (off + length v) bs) = take ?n bs"
      using o(2) n(1) by simp
    have d: "drop ?n (take off bs @ v @ drop (off + length v) bs) =
        take off' (drop ?n bs) @ v @ drop (off' + length v) (drop ?n bs)"
      using o(2) n(1) by (simp add: drop_take add.commute add.left_commute)
    have IH: "values_in cs (take off' (drop ?n bs) @ v @ drop (off' + length v) (drop ?n bs)) =
        map2 (\<lambda>c old. if ce_id c = i then v else old) cs (values_in cs (drop ?n bs))"
      by (rule Cons.IH [OF o(1) _ _ n(2)]) (use Cons.prems(2,3) in auto)
    show ?thesis unfolding values_in.simps(2) t d IH using False by simp
  qed
qed simp

section \<open>Receiving\<close>

definition put_value :: "Time \<Rightarrow> U8 list \<Rightarrow> nat \<Rightarrow> BufferEntry \<Rightarrow> BufferEntry" where
  "put_value t v off b = b\<lparr>be_updated := True, be_latestTime := t,
     be_buffer := (be_buffer b)\<lparr>m_data := take off (m_data (be_buffer b)) @ v @ drop (off + length v) (m_data (be_buffer b))\<rparr>\<rparr>"

definition receive_entry :: "U32 \<Rightarrow> Time \<Rightarrow> U8 list \<Rightarrow> TlmPacketizerPacket \<Rightarrow> BufferEntry \<Rightarrow> BufferEntry" where
  "receive_entry i t v p b = (case place (chans p) 17 i of None \<Rightarrow> b | Some off \<Rightarrow> put_value t v off b)"

lemma drop_take_insert:
  assumes "off = m + o'" "off + length v \<le> n" "n \<le> length d"
  shows "drop m (take n (take off d @ v @ drop (off + length v) d)) =
    take o' (drop m (take n d)) @ v @ drop (o' + length v) (drop m (take n d))"
proof -
  let ?k = "n - (off + length v)"
  have t: "take n (take off d @ v @ drop (off + length v) d) = take off d @ v @ take ?k (drop (off + length v) d)"
    using assms by simp
  have a: "drop m (take off d @ v @ take ?k (drop (off + length v) d)) = drop m (take off d) @ v @ take ?k (drop (off + length v) d)"
    using assms by simp
  have b: "drop m (take off d) = take o' (drop m (take n d))"
    using assms by (simp add: drop_take min_def)
  have c: "take ?k (drop (off + length v) d) = drop (o' + length v) (drop m (take n d))"
    using assms by (simp add: drop_take add.assoc add.commute add.left_commute)
  show ?thesis by (simp only: t a) (simp only: b c)
qed

text \<open>The place of the value of \<open>i\<close> leaves room for \<open>v\<close> in the packet.\<close>

definition fits :: "TlmPacketizerPacket \<Rightarrow> U32 \<Rightarrow> U8 list \<Rightarrow> bool" where
  "fits p i v \<longleftrightarrow> packet_ok p \<and> (\<forall>off. place (chans p) 0 i = Some off \<longrightarrow> off + length v \<le> sizes (chans p))"

lemma fitsD:
  assumes "fits p i v" "place (chans p) 17 i = Some off"
  shows "17 \<le> off" "off + length v \<le> 17 + sizes (chans p)" "off + length v \<le> 128"
proof -
  obtain o' where o': "place (chans p) 0 i = Some o'" "off = 17 + o'" by (rule place_0 [OF assms(2)])
  have "o' + length v \<le> sizes (chans p)" using assms(1) o'(1) unfolding fits_def by blast
  moreover have "17 + sizes (chans p) \<le> 128" using assms(1) by (simp add: fits_def packet_ok_def)
  ultimately show "17 \<le> off" "off + length v \<le> 17 + sizes (chans p)" "off + length v \<le> 128" using o'(2) by simp_all
qed

lemma fits_size:
  assumes "packet_ok p" "\<forall>c \<in> set (chans p). ce_id c = i \<longrightarrow> unat (ce_size c) = length v"
  shows "fits p i v"
  unfolding fits_def
proof (intro conjI allI impI)
  fix off assume off: "place (chans p) 0 i = Some off"
  then have "i \<in> ce_id ` set (chans p)" using place_None [of "chans p" 0 i] by auto
  then obtain c where c: "c \<in> set (chans p)" "ce_id c = i" by auto
  then show "off + length v \<le> sizes (chans p)"
    using place_bounds [OF off c] assms by (simp add: packet_ok_def channel_ids_def)
qed (rule assms(1))

lemma receive_entry_fill:
  assumes "fill_ok p b" "fits p i v"
  shows "fill_ok p (receive_entry i t v p b)"
    "place (chans p) 0 i = Some o' \<Longrightarrow> drop 17 (contents (be_buffer (receive_entry i t v p b))) =
      take o' (drop 17 (contents (be_buffer b))) @ v @ drop (o' + length v) (drop 17 (contents (be_buffer b)))"
proof -
  let ?d = "m_data (be_buffer b)" and ?n = "17 + sizes (chans p)"
  have b: "length ?d = 128" "unat (m_serLoc (be_buffer b)) = ?n" "?n \<le> 128"
    using assms by (simp_all add: fill_ok_def fits_def packet_ok_def unat_of_nat32 del: of_nat_add)
  show "fill_ok p (receive_entry i t v p b)"
  proof (cases "place (chans p) 17 i")
    case (Some off)
    note off = fitsD [OF assms(2) Some]
    have "take 6 (take off ?d @ v @ drop (off + length v) ?d) = take 6 ?d" using off b by (simp add: min_def)
    then show ?thesis
      using assms(1) off b Some by (simp add: fill_ok_def put_value_def receive_entry_def ser_wf_def)
  qed (use assms(1) in \<open>simp add: receive_entry_def\<close>)
  assume o': "place (chans p) 0 i = Some o'"
  have off: "place (chans p) 17 i = Some (17 + o')" using place_shift [of "chans p" 17 0 i] o' by simp
  have "drop 17 (take ?n (take (17 + o') ?d @ v @ drop (17 + o' + length v) ?d)) =
      take o' (drop 17 (take ?n ?d)) @ v @ drop (o' + length v) (drop 17 (take ?n ?d))"
    by (rule drop_take_insert [OF refl fitsD(2) [OF assms(2) off]]) (use b in simp)
  moreover have "contents (be_buffer (receive_entry i t v p b)) = take ?n (take (17 + o') ?d @ v @ drop (17 + o' + length v) ?d)"
    "contents (be_buffer b) = take ?n ?d"
    using off b(2) by (simp_all add: receive_entry_def put_value_def contents_def)
  ultimately show "drop 17 (contents (be_buffer (receive_entry i t v p b))) =
      take o' (drop 17 (contents (be_buffer b))) @ v @ drop (o' + length v) (drop 17 (contents (be_buffer b)))"
    by (simp only:)
qed

lemma receive_entry_abs:
  assumes "fill_ok p b" "packet_ok p" "\<forall>c \<in> set (chans p). ce_id c = i \<longrightarrow> unat (ce_size c) = length v"
  shows "abs_packet p (receive_entry i t v p b) = receive_value i t v p (abs_packet p b)"
proof (cases "place (chans p) 17 i")
  case None
  then have "i \<notin> set (channel_ids p)" using place_None [of "chans p" 17 i] by (simp add: channel_ids_def)
  then show ?thesis using None by (simp add: receive_entry_def receive_value_def)
next
  case (Some off)
  obtain o' where o': "place (chans p) 0 i = Some o'" "off = 17 + o'" by (rule place_0 [OF Some])
  have "sizes (chans p) \<le> length (drop 17 (contents (be_buffer b)))" "distinct (map ce_id (chans p))"
    using assms(1,2) by (simp_all add: fill_ok_def packet_ok_def channel_ids_def contents_def unat_of_nat32 del: of_nat_add)
  then have "values_in (chans p) (drop 17 (contents (be_buffer (receive_entry i t v p b)))) =
      map2 (\<lambda>c old. if ce_id c = i then v else old) (chans p) (values_in (chans p) (drop 17 (contents (be_buffer b))))"
    unfolding receive_entry_fill(2) [OF assms(1) fits_size [OF assms(2,3)] o'(1)]
    by (intro values_in_update [OF o'(1)]) (use assms(3) in auto)
  moreover have "be_latestTime (receive_entry i t v p b) = t" "be_updated (receive_entry i t v p b)"
    "be_requested (receive_entry i t v p b) = be_requested b"
    using Some by (simp_all add: receive_entry_def put_value_def)
  moreover have "i \<in> set (channel_ids p)" using Some place_None [of "chans p" 17 i] by (simp add: channel_ids_def)
  ultimately show ?thesis by (simp add: abs_packet_def receive_value_def)
qed

lemma copy_value_ok:
  assumes "tlm_buffer val" "v = contents val" "length (tz_fill z) = 200" "k < 200" "ke_packetOffset x = offsets_of ps i"
    and "k < length ps \<Longrightarrow> fill_ok (ps ! k) (tz_fill z ! k) \<and> fits (ps ! k) i v"
  shows "copy_value x t val k z = Some (z\<lparr>tz_fill := (tz_fill z)[k :=
    (if k < length ps then receive_entry i t v (ps ! k) (tz_fill z ! k) else tz_fill z ! k)]\<rparr>)"
proof (cases "k < length ps \<and> place (chans (ps ! k)) 17 i \<noteq> None")
  case False
  then have "ke_packetOffset x ! k = -1" using assms(4,5) by (auto simp: offsets_of_def)
  then show ?thesis using False by (auto simp: copy_value_def receive_entry_def)
next
  case True
  then obtain off where off: "place (chans (ps ! k)) 17 i = Some off" by auto
  have k: "k < length ps" using True by simp
  note ok = assms(6) [OF k]
  have r: "17 \<le> off" "off + length v \<le> 128" using fitsD [OF _ off] ok by auto
  have o: "ke_packetOffset x ! k = of_nat off" using assms(4,5) k off by (simp add: offsets_of_def)
  have u: "unat (of_nat off :: U32) = off" using r by (simp add: unat_of_nat32)
  have s: "0 \<le> sint (of_nat off :: U32)"
    using sint_small [of "of_nat off :: U32"] u r by simp
  then have neg: "of_nat off \<noteq> (-1 :: U32)" by auto
  have v: "read_at (m_data val) 0 (unat (getBuffLength val)) = Some v"
    using assms(1,2) by (simp add: read_at_def getBuffLength_def contents_def tlm_buffer_def ser_wf_def)
  have "length (m_data (be_buffer (tz_fill z ! k))) = 128" using ok by (simp add: fill_ok_def)
  then have "write_at (m_data (be_buffer (tz_fill z ! k))) off v =
      Some (take off (m_data (be_buffer (tz_fill z ! k))) @ v @ drop (off + length v) (m_data (be_buffer (tz_fill z ! k))))"
    using r by (simp add: write_at_def)
  then show ?thesis using k off o u neg s v by (simp add: copy_value_def receive_entry_def put_value_def Let_def)
qed

lemma copy_values_ok:
  assumes "tlm_buffer val" "v = contents val" "length (tz_fill z) = 200" "ke_packetOffset x = offsets_of ps i"
    and "\<forall>k < length ps. fill_ok (ps ! k) (tz_fill z ! k) \<and> fits (ps ! k) i v"
    and "distinct ks" "set ks \<subseteq> {..<200}"
  shows "\<exists>F. copy_values x t val ks z = Some (z\<lparr>tz_fill := F\<rparr>) \<and> length F = 200 \<and>
    (\<forall>k. F ! k = (if k \<in> set ks \<and> k < length ps then receive_entry i t v (ps ! k) (tz_fill z ! k) else tz_fill z ! k))"
  using assms
proof (induction ks arbitrary: z)
  case Nil
  then show ?case by (intro exI [of _ "tz_fill z"]) simp
next
  case (Cons k ks)
  let ?e = "if k < length ps then receive_entry i t v (ps ! k) (tz_fill z ! k) else tz_fill z ! k"
  let ?z = "z\<lparr>tz_fill := (tz_fill z)[k := ?e]\<rparr>"
  have k: "k < 200" "k \<notin> set ks" "distinct ks" "set ks \<subseteq> {..<200}" using Cons.prems(6,7) by simp_all
  have s: "copy_value x t val k z = Some ?z"
    by (rule copy_value_ok [OF Cons.prems(1,2,3) k(1) Cons.prems(4)]) (use Cons.prems(5) in blast)
  have inv: "\<forall>j < length ps. fill_ok (ps ! j) (tz_fill ?z ! j) \<and> fits (ps ! j) i v"
    using Cons.prems(3,5) k(1) receive_entry_fill(1) by (auto simp: nth_list_update)
  obtain F where F: "copy_values x t val ks ?z = Some (?z\<lparr>tz_fill := F\<rparr>)" "length F = 200"
    "\<forall>j. F ! j = (if j \<in> set ks \<and> j < length ps then receive_entry i t v (ps ! j) (tz_fill ?z ! j) else tz_fill ?z ! j)"
    using Cons.IH [OF Cons.prems(1,2) _ Cons.prems(4) inv k(3,4)] Cons.prems(3) by auto
  have "F ! j = (if j \<in> set (k # ks) \<and> j < length ps then receive_entry i t v (ps ! j) (tz_fill z ! j) else tz_fill z ! j)" for j
    using F(3) k(1,2) Cons.prems(3) by (cases "j = k") simp_all
  then show ?case using s F(1,2) by (intro exI [of _ F]) simp
qed

lemma missing_loop_ok:
  assumes "tz_missTlmCheck z = m @ rest" "\<forall>x \<in> set m. snd x" "\<forall>x \<in> set rest. \<not> snd x" "length (m @ rest) = 25" "n \<le> length m"
  shows "missing_loop i [n..<25] z = (if i \<in> fst ` set (drop n m) \<or> rest = [] then z
      else tz_out [NoChan i] (z\<lparr>tz_missTlmCheck := m @ (i, True) # tl rest\<rparr>))"
  using assms(5)
proof (induction "length m - n" arbitrary: n)
  case 0
  then have l: "n = length m" by simp
  show ?case
  proof (cases rest)
    case Nil
    then show ?thesis using l assms(4) by simp
  next
    case (Cons x xs)
    have "[n..<25] = n # [Suc n..<25]" using assms(4) Cons l by (simp add: upt_conv_Cons)
    moreover have "tz_missTlmCheck z ! n = x" "\<not> snd x" "tz_missTlmCheck z = m @ x # xs" using assms(1,3) Cons l by simp_all
    ultimately show ?thesis
      using l Cons by (simp add: split_def Let_def)
  qed
next
  case (Suc k)
  then have l: "n < length m" by simp
  have u: "[n..<25] = n # [Suc n..<25]" using l assms(4) by (simp add: upt_conv_Cons)
  have x: "tz_missTlmCheck z ! n = m ! n" "snd (m ! n)"
    using assms(1,2) l by (simp_all add: nth_append)
  have d: "drop n m = m ! n # drop (Suc n) m" using l by (simp add: Cons_nth_drop_Suc)
  have IH: "missing_loop i [Suc n..<25] z = (if i \<in> fst ` set (drop (Suc n) m) \<or> rest = [] then z
      else tz_out [NoChan i] (z\<lparr>tz_missTlmCheck := m @ (i, True) # tl rest\<rparr>))"
    using Suc.hyps(1) [of "Suc n"] Suc.hyps(2) l by simp
  show ?case
    using x IH unfolding u d by (auto simp: split_def Let_def)
qed

lemma miss_split:
  assumes "miss_ok m"
  shows "m = takeWhile snd m @ dropWhile snd m" "\<forall>x \<in> set (takeWhile snd m). snd x" "\<forall>x \<in> set (dropWhile snd m). \<not> snd x"
    "length (takeWhile snd m @ dropWhile snd m) = 25"
  using assms by (auto simp: miss_ok_def TLMPACKETIZER_MAX_MISSING_TLM_CHECK_def dest: set_takeWhileD)

lemma missing_ok:
  assumes "miss_ok (tz_missTlmCheck z)"
  defines "r \<equiv> map fst (takeWhile snd (tz_missTlmCheck z))"
  shows "\<exists>m. missingChannel i z = (if i \<in> set r \<or> length r = 25 then z else tz_out [NoChan i] (z\<lparr>tz_missTlmCheck := m\<rparr>)) \<and>
    (\<not> (i \<in> set r \<or> length r = 25) \<longrightarrow> miss_ok m \<and> map fst (takeWhile snd m) = r @ [i])"
proof -
  let ?t = "takeWhile snd (tz_missTlmCheck z)" and ?d = "dropWhile snd (tz_missTlmCheck z)"
  note m = miss_split [OF assms(1)]
  have "length ?t + length ?d = 25" using m(4) by (simp only: length_append)
  then have d: "?d = [] \<longleftrightarrow> length r = 25" by (auto simp: r_def simp del: dropWhile_eq_Nil_conv)
  have l: "missingChannel i z = (if i \<in> fst ` set ?t \<or> ?d = [] then z
      else tz_out [NoChan i] (z\<lparr>tz_missTlmCheck := ?t @ (i, True) # tl ?d\<rparr>))"
    using missing_loop_ok [OF m(1-4), of 0] by (simp add: missingChannel_def TLMPACKETIZER_MAX_MISSING_TLM_CHECK_def)
  let ?m = "?t @ (i, True) # tl ?d"
  have "miss_ok ?m \<and> map fst (takeWhile snd ?m) = r @ [i]" if "?d \<noteq> []"
  proof -
    have tl: "\<forall>x \<in> set (tl ?d). \<not> snd x" using m(3) that by (cases ?d) simp_all
    have w: "takeWhile snd (tl ?d) = []" "dropWhile snd (tl ?d) = tl ?d" using tl by (cases "tl ?d"; simp)+
    have len: "length ?m = 25" using m(4) that by (cases ?d) simp_all
    have "takeWhile snd ?m = ?t @ [(i, True)]" "dropWhile snd ?m = tl ?d"
      using m(2) w by (simp_all add: takeWhile_append2 dropWhile_append2)
    then show ?thesis using len tl by (simp add: miss_ok_def TLMPACKETIZER_MAX_MISSING_TLM_CHECK_def r_def)
  qed
  then show ?thesis using l d by (intro exI [of _ ?m]) (auto simp: r_def)
qed


lemma receive_refines:
  assumes "pk_inv ps igs z" "pk_op_ok ps (Receive i t val)" "tz_outs z = []"
  shows "\<exists>z'. tz_TlmRecv_handler i t val z = Some z' \<and> pk_inv ps igs z' \<and>
    (tz_outs z', pk_abs ps z') = packetizer_spec ps igs (Receive i t val) (pk_abs ps z)"
proof -
  have conf: "tz_configured z" and ks: "ks_inv (tz_entries z)" "ks_free (tz_entries z) < 1000" and len: "length (tz_fill z) = 200" "length ps \<le> 200"
    and fill: "\<forall>k < length ps. fill_ok (ps ! k) (tz_fill z ! k)" and miss: "miss_ok (tz_missTlmCheck z)"
    and view: "ks_view (tz_entries z) i = (if i \<in> set (ids_of ps) then Some (False, offsets_of ps i)
        else if i \<in> set igs then Some (True, offsets_of ps i) else None)" and pok: "list_all packet_ok ps"
    using assms(1) by (simp_all add: pk_inv_def)
  note find = recv_finds [OF ks(1), of i, unfolded view]
  consider (packet) "i \<in> set (ids_of ps)" | (ignored) "i \<notin> set (ids_of ps)" "i \<in> set igs"
    | (missing) "i \<notin> set (ids_of ps)" "i \<notin> set igs" by blast
  then show ?thesis
  proof cases
    case packet
    then obtain e x where e: "ks_slots (tz_entries z) ! tz_doHash i = Some e" "tz_search i 1000 (Some e) (tz_entries z) = Use_entry (Some x)"
      "ke_packetOffset (ks_buckets (tz_entries z) ! x) = offsets_of ps i"
      using find by auto
    have vals: "\<forall>k < length ps. fill_ok (ps ! k) (tz_fill z ! k) \<and> packet_ok (ps ! k) \<and>
        (\<forall>c \<in> set (chans (ps ! k)). ce_id c = i \<longrightarrow> unat (ce_size c) = length (contents val))"
      using fill pok assms(2) by (auto simp: list_all_iff)
    obtain F where F: "copy_values (ks_buckets (tz_entries z) ! x) t val [0..<200] z = Some (z\<lparr>tz_fill := F\<rparr>)" "length F = 200"
      "\<forall>k. F ! k = (if k \<in> set [0..<200] \<and> k < length ps then receive_entry i t (contents val) (ps ! k) (tz_fill z ! k) else tz_fill z ! k)"
    proof -
      have tb: "tlm_buffer val" and sub: "set [0..<200] \<subseteq> {..<200 :: nat}" using assms(2) by auto
      have ft: "\<forall>k < length ps. fill_ok (ps ! k) (tz_fill z ! k) \<and> fits (ps ! k) i (contents val)"
        using vals fits_size by blast
      show thesis using that copy_values_ok [OF tb refl len(1) e(3) ft distinct_upt sub, where t = t] by blast
    qed
    have Fk: "F ! k = receive_entry i t (contents val) (ps ! k) (tz_fill z ! k)" if "k < length ps" for k
      using F(3) that len(2) by simp
    have "map2 abs_packet ps F = map2 (receive_value i t (contents val)) ps (map2 abs_packet ps (tz_fill z))"
      by (rule nth_equalityI) (use Fk F(2) len vals receive_entry_abs in simp_all)
    then have "pk_abs ps (z\<lparr>tz_fill := F\<rparr>) = (pk_abs ps z)\<lparr>sp_packets := map2 (receive_value i t (contents val)) ps (sp_packets (pk_abs ps z))\<rparr>"
      by (simp add: pk_abs_def)
    moreover have "pk_inv ps igs (z\<lparr>tz_fill := F\<rparr>)"
      using assms(1) F(2) Fk vals receive_entry_fill(1) [OF _ fits_size] by (simp add: pk_inv_def)
    ultimately show ?thesis
      using packet conf e F(1) assms(3) by (simp add: tz_TlmRecv_handler_def)
  next
    case ignored
    then obtain e where "ks_slots (tz_entries z) ! tz_doHash i = Some e" "tz_search i 1000 (Some e) (tz_entries z) = Ignored_channel"
      using find by auto
    then show ?thesis using ignored conf assms(1,3) by (simp add: tz_TlmRecv_handler_def)
  next
    case missing
    then have h: "tz_TlmRecv_handler i t val z = Some (missingChannel i z)"
      using find ks(2) conf by (auto simp: tz_TlmRecv_handler_def split: option.splits)
    let ?r = "map fst (takeWhile snd (tz_missTlmCheck z))"
    obtain m where m: "missingChannel i z = (if i \<in> set ?r \<or> length ?r = 25 then z else tz_out [NoChan i] (z\<lparr>tz_missTlmCheck := m\<rparr>))"
      "\<not> (i \<in> set ?r \<or> length ?r = 25) \<longrightarrow> miss_ok m \<and> map fst (takeWhile snd m) = ?r @ [i]"
      using missing_ok [OF miss] by blast
    show ?thesis
    proof (cases "i \<in> set ?r \<or> length ?r = 25")
      case True
      then show ?thesis
        using h m(1) missing assms(1,3) by (simp add: pk_abs_def TLMPACKETIZER_MAX_MISSING_TLM_CHECK_def)
    next
      case False
      let ?z = "tz_out [NoChan i] (z\<lparr>tz_missTlmCheck := m\<rparr>)"
      have "pk_inv ps igs ?z" using assms(1) m(2) False by (simp add: pk_inv_def tz_out_def)
      moreover have "tz_outs ?z = [NoChan i]" "pk_abs ps ?z = (pk_abs ps z)\<lparr>sp_reported := ?r @ [i]\<rparr>"
        using assms(3) m(2) False by (simp_all add: pk_abs_def tz_out_def)
      moreover have "sp_reported (pk_abs ps z) = ?r" by (simp add: pk_abs_def)
      ultimately show ?thesis
        using h m(1) missing False by (simp add: TLMPACKETIZER_MAX_MISSING_TLM_CHECK_def)
    qed
  qed
qed


section \<open>Sending\<close>

abbreviation entry_due :: "U32 \<Rightarrow> BufferEntry \<Rightarrow> bool" where
  "entry_due level f \<equiv> be_updated f \<and> (be_level f \<le> level \<or> be_requested f)"

lemma ComBuffer_assign_ok:
  assumes "send_ok a" "ser_wf b" "length (m_data b) = 128"
  shows "\<exists>b'. ComBuffer_assign (be_buffer a) b = Some b' \<and> ser_wf b' \<and> length (m_data b') = 128 \<and> \<not> m_null b' \<and>
    contents b' = contents b \<and> m_serLoc b' = m_serLoc b"
proof -
  have "unat (getBuffLength b) \<le> 128" using assms(2,3) by (simp add: getBuffLength_def ser_wf_def)
  then show ?thesis
    using assms unat_getBuffCapacity [of "be_buffer a"]
    by (auto simp: ComBuffer_assign_def send_ok_def setBuff_def word_less_nat_alt read_at_def write_at_def ser_wf_def contents_def getBuffLength_def)
qed

lemma fill_to_send_ok:
  assumes "k < 200" "length (tz_fill z) = 200" "length (tz_send z) = 200" "ser_wf (be_buffer (tz_fill z ! k))"
    "length (m_data (be_buffer (tz_fill z ! k))) = 128" "send_ok (tz_send z ! k)"
  shows "\<exists>b. fill_to_send k z = Some (z\<lparr>tz_send := (tz_send z)[k := b], tz_fill := (tz_fill z)[k :=
      (if entry_due (tz_startLevel z) (tz_fill z ! k) then (tz_fill z ! k)\<lparr>be_updated := False, be_requested := False\<rparr> else tz_fill z ! k)]\<rparr>) \<and>
    send_ok b \<and> be_updated b = entry_due (tz_startLevel z) (tz_fill z ! k) \<and>
    (be_updated b \<longrightarrow> contents (be_buffer b) = contents (be_buffer (tz_fill z ! k)) \<and> be_latestTime b = be_latestTime (tz_fill z ! k))"
proof -
  let ?f = "tz_fill z ! k"
  show ?thesis
  proof (cases "entry_due (tz_startLevel z) ?f")
    case True
    obtain b' where "ComBuffer_assign (be_buffer (tz_send z ! k)) (be_buffer ?f) = Some b'" "ser_wf b'" "length (m_data b') = 128"
      "\<not> m_null b'" "contents b' = contents (be_buffer ?f)"
      using ComBuffer_assign_ok [OF assms(6,4,5)] by blast
    then show ?thesis
      using True by (intro exI [of _ "?f\<lparr>be_buffer := b'\<rparr>"])
        (simp add: fill_to_send_def BufferEntry_assign_def PACKET_UPDATE_MODE_def send_ok_def Let_def)
  next
    case False
    then show ?thesis
      using assms by (intro exI [of _ "(tz_send z ! k)\<lparr>be_updated := False\<rparr>"])
        (auto simp: fill_to_send_def PACKET_UPDATE_MODE_def send_ok_def Let_def)
  qed
qed

lemma fill_loop_ok:
  assumes "distinct ks" "set ks \<subseteq> {..<n}" "n \<le> 200" "length (tz_fill z) = 200" "length (tz_send z) = 200"
    and "\<forall>k < n. ser_wf (be_buffer (tz_fill z ! k)) \<and> length (m_data (be_buffer (tz_fill z ! k))) = 128 \<and> send_ok (tz_send z ! k)"
  shows "\<exists>S F. each_packet fill_to_send ks z = Some (z\<lparr>tz_send := S, tz_fill := F\<rparr>) \<and> length S = 200 \<and> length F = 200 \<and>
    (\<forall>k < n. send_ok (S ! k) \<and>
      F ! k = (if k \<in> set ks \<and> entry_due (tz_startLevel z) (tz_fill z ! k)
        then (tz_fill z ! k)\<lparr>be_updated := False, be_requested := False\<rparr> else tz_fill z ! k) \<and>
      (k \<in> set ks \<longrightarrow> be_updated (S ! k) = entry_due (tz_startLevel z) (tz_fill z ! k) \<and>
        (be_updated (S ! k) \<longrightarrow> contents (be_buffer (S ! k)) = contents (be_buffer (tz_fill z ! k)) \<and>
          be_latestTime (S ! k) = be_latestTime (tz_fill z ! k))) \<and>
      (k \<notin> set ks \<longrightarrow> S ! k = tz_send z ! k))"
  using assms
proof (induction ks arbitrary: z)
  case Nil
  then show ?case by (intro exI [of _ "tz_send z"] exI [of _ "tz_fill z"]) simp
next
  case (Cons k ks)
  let ?f = "if entry_due (tz_startLevel z) (tz_fill z ! k) then (tz_fill z ! k)\<lparr>be_updated := False, be_requested := False\<rparr> else tz_fill z ! k"
  have k: "k < n" "k < 200" "k \<notin> set ks" "distinct ks" "set ks \<subseteq> {..<n}" using Cons.prems(1-3) by auto
  obtain b where b: "fill_to_send k z = Some (z\<lparr>tz_send := (tz_send z)[k := b], tz_fill := (tz_fill z)[k := ?f]\<rparr>)"
    "send_ok b" "be_updated b = entry_due (tz_startLevel z) (tz_fill z ! k)"
    "be_updated b \<longrightarrow> contents (be_buffer b) = contents (be_buffer (tz_fill z ! k)) \<and> be_latestTime b = be_latestTime (tz_fill z ! k)"
    using fill_to_send_ok [OF k(2) Cons.prems(4,5)] Cons.prems(6) k(1) by blast
  let ?z = "z\<lparr>tz_send := (tz_send z)[k := b], tz_fill := (tz_fill z)[k := ?f]\<rparr>"
  have z: "length (tz_fill ?z) = 200" "length (tz_send ?z) = 200"
    "\<forall>j < n. ser_wf (be_buffer (tz_fill ?z ! j)) \<and> length (m_data (be_buffer (tz_fill ?z ! j))) = 128 \<and> send_ok (tz_send ?z ! j)"
    using Cons.prems(4-6) b(2) k(1,2) by (simp_all add: nth_list_update)
  obtain S F where SF: "each_packet fill_to_send ks ?z = Some (?z\<lparr>tz_send := S, tz_fill := F\<rparr>)" "length S = 200" "length F = 200"
    "\<forall>j < n. send_ok (S ! j) \<and>
      F ! j = (if j \<in> set ks \<and> entry_due (tz_startLevel z) (tz_fill ?z ! j)
        then (tz_fill ?z ! j)\<lparr>be_updated := False, be_requested := False\<rparr> else tz_fill ?z ! j) \<and>
      (j \<in> set ks \<longrightarrow> be_updated (S ! j) = entry_due (tz_startLevel z) (tz_fill ?z ! j) \<and>
        (be_updated (S ! j) \<longrightarrow> contents (be_buffer (S ! j)) = contents (be_buffer (tz_fill ?z ! j)) \<and>
          be_latestTime (S ! j) = be_latestTime (tz_fill ?z ! j))) \<and>
      (j \<notin> set ks \<longrightarrow> S ! j = tz_send ?z ! j)"
    using Cons.IH [OF k(4,5) Cons.prems(3) z] by auto
  have fz: "tz_fill ?z ! j = (if j = k then ?f else tz_fill z ! j)" "tz_send ?z ! j = (if j = k then b else tz_send z ! j)" for j
    using Cons.prems(4,5) k(2) by (simp_all add: nth_list_update)
  show ?case
  proof (intro exI conjI allI impI)
    show "each_packet fill_to_send (k # ks) z = Some (z\<lparr>tz_send := S, tz_fill := F\<rparr>)" using b(1) SF(1) by simp
    fix j assume j: "j < n"
    note s = SF(4) [rule_format, OF j, unfolded fz]
    show "send_ok (S ! j)" using s by simp
    show "F ! j = (if j \<in> set (k # ks) \<and> entry_due (tz_startLevel z) (tz_fill z ! j)
        then (tz_fill z ! j)\<lparr>be_updated := False, be_requested := False\<rparr> else tz_fill z ! j)"
      using s k(3) by (cases "j = k") auto
    { assume "j \<in> set (k # ks)"
      then show "be_updated (S ! j) = entry_due (tz_startLevel z) (tz_fill z ! j)" using s k(3) b(3) by (cases "j = k") auto }
    { assume "j \<in> set (k # ks)" "be_updated (S ! j)"
      then show "contents (be_buffer (S ! j)) = contents (be_buffer (tz_fill z ! j))" "be_latestTime (S ! j) = be_latestTime (tz_fill z ! j)"
        using s k(3) b(4) by (cases "j = k"; auto)+ }
    { assume "j \<notin> set (k # ks)"
      then show "S ! j = tz_send z ! j" using s by auto }
  qed (use SF(2,3) in simp_all)
qed


definition stamped :: "BufferEntry \<Rightarrow> U8 list" where
  "stamped b = take 6 (contents (be_buffer b)) @ Time_bytes (be_latestTime b) @ drop 17 (contents (be_buffer b))"

lemma length_Time_bytes_11 [simp]: "length (Time_bytes t) = 11"
  by (simp add: Time_bytes_def)

lemma send_packet_ok:
  assumes "k < length (tz_send z)" "be_updated (tz_send z ! k) \<Longrightarrow> send_ok (tz_send z ! k) \<and> 17 \<le> length (contents (be_buffer (tz_send z ! k)))"
    "send_ok (tz_send z ! k)"
  shows "\<exists>b. send_packet k z = Some ((if be_updated (tz_send z ! k) then tz_out [PktSend (stamped (tz_send z ! k)) 0] else id)
      (z\<lparr>tz_send := (tz_send z)[k := b]\<rparr>)) \<and> send_ok b"
proof (cases "be_updated (tz_send z ! k)")
  case False
  then show ?thesis using assms(3) by (intro exI [of _ "tz_send z ! k"]) (simp add: send_packet_def)
next
  case True
  let ?b = "tz_send z ! k" and ?t = "Time_bytes (be_latestTime (tz_send z ! k))"
  let ?buf = "be_buffer ?b" and ?d = "m_data (be_buffer ?b)"
  have b: "ser_wf ?buf" "length ?d = 128" "\<not> m_null ?buf" "17 \<le> unat (m_serLoc ?buf)"
    using assms(2,3) True by (simp_all add: send_ok_def contents_def)
  let ?x = "SerializeBufferBase_new (take 11 (drop 6 ?d))"
  have x: "ser_wf ?x" "room ?x = 11" using b(2) by (simp_all add: ser_wf_def SerializeBufferBase_new_def room_def)
  have s: "Time_serialize ?x (be_latestTime ?b) = Some (FW_SERIALIZE_OK, append_to ?x ?t)"
    by (rule time.put_ok) (use x in simp_all)
  have m: "m_data (append_to ?x ?t) = ?t" using b(2) by (simp add: append_to_def SerializeBufferBase_new_def)
  let ?new = "take 6 ?d @ ?t @ drop 17 ?d"
  have r: "read_at ?d (4 + 2) 11 = Some (take 11 (drop 6 ?d))" "write_at ?d (4 + 2) ?t = Some ?new"
    using b(2) by (simp_all add: read_at_def write_at_def)
  let ?b' = "?b\<lparr>be_buffer := ?buf\<lparr>m_data := ?new\<rparr>\<rparr>"
  have c: "contents (?buf\<lparr>m_data := ?new\<rparr>) = stamped ?b"
    using b(2,4) by (simp add: contents_def stamped_def drop_take min_def)
  have "send_ok ?b'" using b by (simp add: send_ok_def ser_wf_def)
  moreover have "send_packet k z = Some (tz_out [PktSend (stamped ?b) 0] (z\<lparr>tz_send := (tz_send z)[k := ?b']\<rparr>))"
    using True r s m c by (simp add: send_packet_def Let_def)
  ultimately show ?thesis using True by auto
qed

lemma send_loop_ok:
  assumes "distinct ks" "set ks \<subseteq> {..<n}" "n \<le> length (tz_send z)" "\<forall>k < n. send_ok (tz_send z ! k)"
    and "\<forall>k \<in> set ks. be_updated (tz_send z ! k) \<longrightarrow> 17 \<le> length (contents (be_buffer (tz_send z ! k)))"
  shows "\<exists>S. each_packet send_packet ks z = Some (z\<lparr>tz_send := S,
      tz_outs := tz_outs z @ map (\<lambda>k. PktSend (stamped (tz_send z ! k)) 0) (filter (\<lambda>k. be_updated (tz_send z ! k)) ks)\<rparr>) \<and>
    length S = length (tz_send z) \<and> (\<forall>k < n. send_ok (S ! k))"
  using assms
proof (induction ks arbitrary: z)
  case Nil
  then show ?case by (intro exI [of _ "tz_send z"]) simp
next
  case (Cons k ks)
  have k: "k < n" "k < length (tz_send z)" "k \<notin> set ks" "distinct ks" "set ks \<subseteq> {..<n}" using Cons.prems(1-3) by auto
  obtain b where b: "send_packet k z = Some ((if be_updated (tz_send z ! k) then tz_out [PktSend (stamped (tz_send z ! k)) 0] else id)
      (z\<lparr>tz_send := (tz_send z)[k := b]\<rparr>))" "send_ok b"
    using send_packet_ok [OF k(2)] Cons.prems(4,5) k(1) by auto
  let ?z = "(if be_updated (tz_send z ! k) then tz_out [PktSend (stamped (tz_send z ! k)) 0] else id) (z\<lparr>tz_send := (tz_send z)[k := b]\<rparr>)"
  have z: "tz_send ?z = (tz_send z)[k := b]" by (simp add: tz_out_def)
  have o: "tz_outs ?z = tz_outs z @ (if be_updated (tz_send z ! k) then [PktSend (stamped (tz_send z ! k)) 0] else [])"
    by (simp add: tz_out_def)
  have same: "tz_send ?z ! j = tz_send z ! j" if "j \<in> set ks" for j using that k(3) z by (metis nth_list_update_neq)
  have pre: "n \<le> length (tz_send ?z)" "\<forall>j < n. send_ok (tz_send ?z ! j)"
    "\<forall>j \<in> set ks. be_updated (tz_send ?z ! j) \<longrightarrow> 17 \<le> length (contents (be_buffer (tz_send ?z ! j)))"
  proof -
    show "n \<le> length (tz_send ?z)" using Cons.prems(3) z by simp
    show "\<forall>j < n. send_ok (tz_send ?z ! j)" 
      unfolding z using Cons.prems(4) b(2) k(2) by (simp add: nth_list_update)
    show "\<forall>j \<in> set ks. be_updated (tz_send ?z ! j) \<longrightarrow> 17 \<le> length (contents (be_buffer (tz_send ?z ! j)))"
      using Cons.prems(5) same by simp
  qed
  obtain S where S: "each_packet send_packet ks ?z = Some (?z\<lparr>tz_send := S,
      tz_outs := tz_outs ?z @ map (\<lambda>k. PktSend (stamped (tz_send ?z ! k)) 0) (filter (\<lambda>k. be_updated (tz_send ?z ! k)) ks)\<rparr>)"
    "length S = length (tz_send ?z)" "\<forall>k < n. send_ok (S ! k)"
    using Cons.IH [OF k(4,5) pre] by blast
  have f: "filter (\<lambda>k. be_updated (tz_send ?z ! k)) ks = filter (\<lambda>k. be_updated (tz_send z ! k)) ks"
    "map (\<lambda>k. PktSend (stamped (tz_send ?z ! k)) 0) (filter (\<lambda>k. be_updated (tz_send z ! k)) ks) =
      map (\<lambda>k. PktSend (stamped (tz_send z ! k)) 0) (filter (\<lambda>k. be_updated (tz_send z ! k)) ks)"
    using same by (auto cong: filter_cong)
  have e: "?z\<lparr>tz_send := S, tz_outs := xs\<rparr> = z\<lparr>tz_send := S, tz_outs := xs\<rparr>" for xs by (simp add: tz_out_def)
  have "each_packet send_packet (k # ks) z = Some (z\<lparr>tz_send := S,
      tz_outs := tz_outs z @ map (\<lambda>k. PktSend (stamped (tz_send z ! k)) 0) (filter (\<lambda>k. be_updated (tz_send z ! k)) (k # ks))\<rparr>)"
    using S(1) b(1) unfolding f o e by simp
  then show ?case using S(2,3) z by auto
qed


lemma fill_contents:
  assumes "fill_ok p b" "packet_ok p"
  shows "take 6 (contents (be_buffer b)) = packet_header p" "length (contents (be_buffer b)) = 17 + sizes (chans p)"
proof -
  have n: "17 + sizes (chans p) \<le> 128" using assms(2) by (simp add: packet_ok_def)
  have b: "unat (m_serLoc (be_buffer b)) = 17 + sizes (chans p)" "length (m_data (be_buffer b)) = 128"
    "take 6 (m_data (be_buffer b)) = packet_header p"
    using assms(1) n by (simp_all add: fill_ok_def unat_of_nat32 del: of_nat_add)
  then show "take 6 (contents (be_buffer b)) = packet_header p" "length (contents (be_buffer b)) = 17 + sizes (chans p)"
    using n by (simp_all add: contents_def min_def)
qed

lemma first_index_map: "map f xs = map g ys \<Longrightarrow> first_index (\<lambda>x. f x = i) xs = first_index (\<lambda>y. g y = i) ys"
  by (induction xs arbitrary: ys) auto

text \<open>The packets that are sent, in the order of the configuration.\<close>

lemma sent_list:
  assumes "length fs \<ge> length ps" "\<And>k. k < length ps \<Longrightarrow> up k = P (ps ! k) (f (ps ! k) (fs ! k))"
    "\<And>k. k < length ps \<Longrightarrow> up k \<Longrightarrow> g k = h (ps ! k) (f (ps ! k) (fs ! k))"
  shows "map g (filter up [0..<length ps]) = map (\<lambda>(p, x). h p x) (filter (\<lambda>(p, x). P p x) (zip ps (map2 f ps fs)))"
proof -
  have zip: "zip ps (map2 f ps fs) = map (\<lambda>k. (ps ! k, f (ps ! k) (fs ! k))) [0..<length ps]"
    using assms(1) by (intro nth_equalityI) simp_all
  show ?thesis
    unfolding zip filter_map map_map
  proof (rule map_cong)
    show "filter up [0..<length ps] = filter ((\<lambda>(p, x). P p x) \<circ> (\<lambda>k. (ps ! k, f (ps ! k) (fs ! k)))) [0..<length ps]"
      using assms(2) by (intro filter_cong) simp_all
    fix k assume "k \<in> set (filter ((\<lambda>(p, x). P p x) \<circ> (\<lambda>k. (ps ! k, f (ps ! k) (fs ! k)))) [0..<length ps])"
    then show "g k = ((\<lambda>(p, x). h p x) \<circ> (\<lambda>k. (ps ! k, f (ps ! k) (fs ! k)))) k" using assms(2,3) by auto
  qed
qed

lemma cycle_refines:
  assumes "pk_inv ps igs z" "tz_outs z = []"
  shows "\<exists>z'. tz_Run_handler connected z = Some z' \<and> pk_inv ps igs z' \<and>
    (tz_outs z', pk_abs ps z') = packetizer_spec ps igs (Cycle connected) (pk_abs ps z)"
proof (cases connected)
  case False
  then show ?thesis using assms by (simp add: tz_Run_handler_def pk_inv_def)
next
  case True
  let ?n = "length ps" and ?lvl = "tz_startLevel z"
  have conf: "tz_configured z" "unat (tz_numPackets z) = ?n" and len: "?n \<le> 200" "length (tz_fill z) = 200" "length (tz_send z) = 200"
    and fill: "\<forall>k < ?n. fill_ok (ps ! k) (tz_fill z ! k)" and send: "\<forall>k < ?n. send_ok (tz_send z ! k)" and pok: "list_all packet_ok ps"
    using assms(1) by (simp_all add: pk_inv_def)
  have bufs: "\<forall>k < ?n. ser_wf (be_buffer (tz_fill z ! k)) \<and> length (m_data (be_buffer (tz_fill z ! k))) = 128 \<and> send_ok (tz_send z ! k)"
    using fill send by (simp add: fill_ok_def)
  have sub: "set [0..<?n] \<subseteq> {..<?n}" by auto
  obtain S F where SF: "each_packet fill_to_send [0..<?n] z = Some (z\<lparr>tz_send := S, tz_fill := F\<rparr>)" "length S = 200" "length F = 200"
    and SFk: "\<forall>k < ?n. send_ok (S ! k) \<and>
      F ! k = (if k \<in> set [0..<?n] \<and> entry_due ?lvl (tz_fill z ! k)
        then (tz_fill z ! k)\<lparr>be_updated := False, be_requested := False\<rparr> else tz_fill z ! k) \<and>
      (k \<in> set [0..<?n] \<longrightarrow> be_updated (S ! k) = entry_due ?lvl (tz_fill z ! k) \<and>
        (be_updated (S ! k) \<longrightarrow> contents (be_buffer (S ! k)) = contents (be_buffer (tz_fill z ! k)) \<and>
          be_latestTime (S ! k) = be_latestTime (tz_fill z ! k))) \<and>
      (k \<notin> set [0..<?n] \<longrightarrow> S ! k = tz_send z ! k)"
    using fill_loop_ok [OF distinct_upt sub len(1-3) bufs] by blast
  let ?z = "z\<lparr>tz_send := S, tz_fill := F\<rparr>"
  have Sk: "be_updated (S ! k) = entry_due ?lvl (tz_fill z ! k)"
    "be_updated (S ! k) \<Longrightarrow> contents (be_buffer (S ! k)) = contents (be_buffer (tz_fill z ! k))"
    "be_updated (S ! k) \<Longrightarrow> be_latestTime (S ! k) = be_latestTime (tz_fill z ! k)"
    "F ! k = (if entry_due ?lvl (tz_fill z ! k) then (tz_fill z ! k)\<lparr>be_updated := False, be_requested := False\<rparr> else tz_fill z ! k)"
    if "k < ?n" for k
    using SFk [rule_format, OF that] that by simp_all
  have cont: "take 6 (contents (be_buffer (tz_fill z ! k))) = packet_header (ps ! k)"
    "length (contents (be_buffer (tz_fill z ! k))) = 17 + sizes (chans (ps ! k))" if "k < ?n" for k
    using fill_contents [of "ps ! k" "tz_fill z ! k"] fill pok that by (simp_all add: list_all_length)
  have "\<forall>k \<in> set [0..<?n]. be_updated (tz_send ?z ! k) \<longrightarrow> 17 \<le> length (contents (be_buffer (tz_send ?z ! k)))"
    using Sk(2) cont(2) by simp
  moreover have "\<forall>k < ?n. send_ok (tz_send ?z ! k)" "?n \<le> length (tz_send ?z)" using SFk SF(2) len(1) by simp_all
  ultimately obtain S' where S': "each_packet send_packet [0..<?n] ?z = Some (?z\<lparr>tz_send := S',
      tz_outs := tz_outs ?z @ map (\<lambda>k. PktSend (stamped (tz_send ?z ! k)) 0) (filter (\<lambda>k. be_updated (tz_send ?z ! k)) [0..<?n])\<rparr>)"
    "length S' = length (tz_send ?z)" "\<forall>k < ?n. send_ok (S' ! k)"
    using send_loop_ok [OF distinct_upt sub] by blast
  let ?outs = "map (\<lambda>k. PktSend (stamped (S ! k)) 0) (filter (\<lambda>k. be_updated (S ! k)) [0..<?n])"
  let ?z' = "z\<lparr>tz_send := S', tz_fill := F, tz_outs := ?outs\<rparr>"
  have run: "tz_Run_handler connected z = Some ?z'"
    using True conf SF(1) S'(1) assms(2) by (simp add: tz_Run_handler_def)
  have d: "due ?lvl (ps ! k) (abs_packet (ps ! k) (tz_fill z ! k)) = entry_due ?lvl (tz_fill z ! k)" if "k < ?n" for k
    using fill that by (simp add: due_def abs_packet_def fill_ok_def)
  have img: "stamped (S ! k) = packet_image (ps ! k) (abs_packet (ps ! k) (tz_fill z ! k))" if "k < ?n" "be_updated (S ! k)" for k
    using Sk(2,3) [OF that(1,2)] cont [OF that(1)] by (simp add: stamped_def packet_image_def abs_packet_def concat_values_in)
  have outs: "?outs = map (\<lambda>(p, x). PktSend (packet_image p x) 0) (filter (\<lambda>(p, x). due ?lvl p x) (zip ps (map2 abs_packet ps (tz_fill z))))"
    by (rule sent_list) (use len d Sk(1) img in simp_all)
  have pk: "map2 abs_packet ps F = map2 (\<lambda>p x. if due ?lvl p x then x\<lparr>ps_updated := False, ps_requested := False\<rparr> else x)
      ps (map2 abs_packet ps (tz_fill z))"
    by (rule nth_equalityI) (use len SF(3) Sk(4) d in \<open>simp_all add: abs_packet_def\<close>)
  have "pk_inv ps igs ?z'"
    using assms(1) SF(3) S'(2,3) SF(2) Sk(4) fill by (simp add: pk_inv_def fill_ok_def)
  moreover have "(tz_outs ?z', pk_abs ps ?z') = packetizer_spec ps igs (Cycle connected) (pk_abs ps z)"
    using True outs pk by (simp add: pk_abs_def)
  ultimately show ?thesis using run by blast
qed


section \<open>The component\<close>

lemma send_packet_refines:
  assumes "pk_inv ps igs z" "tz_outs z = []"
  shows "\<exists>z'. SEND_PKT_cmdHandler now opCode cmdSeq i z = z' \<and> pk_inv ps igs z' \<and>
    (tz_outs z', pk_abs ps z') = packetizer_spec ps igs (Send_packet now opCode cmdSeq i) (pk_abs ps z)"
proof -
  have len: "length ps \<le> length (tz_fill z)" "unat (tz_numPackets z) = length ps"
    and fill: "\<forall>k < length ps. fill_ok (ps ! k) (tz_fill z ! k)" using assms(1) by (simp_all add: pk_inv_def)
  have "map be_id (take (length ps) (tz_fill z)) = map (\<lambda>p. ucast (pp_id p)) ps"
    by (rule nth_equalityI) (use len fill in \<open>simp_all add: fill_ok_def\<close>)
  then have f: "first_index (\<lambda>b. be_id b = i) (take (length ps) (tz_fill z)) = first_index (\<lambda>p. ucast (pp_id p) = i) ps"
    by (rule first_index_map)
  show ?thesis
  proof (cases "first_index (\<lambda>p. ucast (pp_id p) = i) ps")
    case None
    then show ?thesis using f len(2) assms by (simp add: SEND_PKT_cmdHandler_def tz_out_def pk_inv_def pk_abs_def)
  next
    case (Some k)
    have k: "k < length ps" using first_index_Some [OF Some] by simp
    let ?b = "(tz_fill z ! k)\<lparr>be_updated := True, be_latestTime := now, be_requested := True\<rparr>"
    let ?z = "tz_out [PacketSent i, PkCmdResponse opCode cmdSeq CmdResponse_OK] (z\<lparr>tz_fill := (tz_fill z)[k := ?b]\<rparr>)"
    have "abs_packet (ps ! k) ?b = (abs_packet (ps ! k) (tz_fill z ! k))\<lparr>ps_updated := True, ps_time := now, ps_requested := True\<rparr>"
      by (simp add: abs_packet_def)
    then have "map2 abs_packet ps ((tz_fill z)[k := ?b]) = (map2 abs_packet ps (tz_fill z))[k :=
        (map2 abs_packet ps (tz_fill z) ! k)\<lparr>ps_updated := True, ps_time := now, ps_requested := True\<rparr>]"
      using len(1) k by (intro nth_equalityI) (auto simp: nth_list_update)
    then have "pk_abs ps ?z = snd (packetizer_spec ps igs (Send_packet now opCode cmdSeq i) (pk_abs ps z))"
      using Some by (simp add: pk_abs_def tz_out_def)
    moreover have "pk_inv ps igs ?z" using assms(1) k by (auto simp: pk_inv_def tz_out_def fill_ok_def nth_list_update)
    moreover have "SEND_PKT_cmdHandler now opCode cmdSeq i z = ?z" using f len(2) Some by (simp add: SEND_PKT_cmdHandler_def Let_def)
    ultimately show ?thesis using Some assms(2) by (simp add: tz_out_def)
  qed
qed

lemma pk_step_ok:
  assumes "pk_inv ps igs z" "pk_op_ok ps x"
  shows "\<exists>z'. pk_step x z = Some (fst (packetizer_spec ps igs x (pk_abs ps z)), z') \<and> pk_inv ps igs z' \<and>
    pk_abs ps z' = snd (packetizer_spec ps igs x (pk_abs ps z))"
proof -
  let ?z = "z\<lparr>tz_outs := []\<rparr>"
  have z: "pk_inv ps igs ?z" "tz_outs ?z = []" "pk_abs ps ?z = pk_abs ps z" using assms(1) by (simp_all add: pk_inv_def pk_abs_def)
  show ?thesis
  proof (cases x)
    case (Receive i t val)
    then show ?thesis using receive_refines [OF z(1) _ z(2), of i t val] assms(2) z(3) by (auto simp: pk_step_def prod_eq_iff)
  next
    case (Cycle c)
    then show ?thesis using cycle_refines [OF z(1,2), of c] z(3) by (auto simp: pk_step_def prod_eq_iff)
  next
    case (Ping key)
    then show ?thesis using z by (simp add: pk_step_def tz_pingIn_handler_def tz_out_def pk_inv_def pk_abs_def)
  next
    case (Set_level a b level)
    then show ?thesis using z by (simp add: pk_step_def SET_LEVEL_cmdHandler_def tz_out_def pk_inv_def pk_abs_def Let_def)
  next
    case (Send_packet now a b i)
    then show ?thesis using send_packet_refines [OF z(1,2), of now a b i] z(3) by (auto simp: pk_step_def prod_eq_iff)
  qed
qed

interpretation packetizer: refinement pk_step "packetizer_spec ps igs" "pk_inv ps igs" "pk_abs ps" "pk_op_ok ps" for ps igs
  by unfold_locales (rule pk_step_ok)

text \<open>The state after the configuration.\<close>

definition memory_ok :: "TlmPacketizer \<Rightarrow> bool" where
  "memory_ok old \<longleftrightarrow> length (tz_fill old) = MAX_PACKETIZER_PACKETS \<and> length (tz_send old) = MAX_PACKETIZER_PACKETS \<and>
     length (ks_buckets (tz_entries old)) = TLMPACKETIZER_HASH_BUCKETS \<and>
     length (tz_missTlmCheck old) = TLMPACKETIZER_MAX_MISSING_TLM_CHECK"

definition packet_start :: "TlmPacketizerPacket \<Rightarrow> packet_state" where
  "packet_start p = \<lparr>ps_values = map (\<lambda>c. replicate (unat (ce_size c)) 0) (chans p), ps_time = Time_new,
     ps_updated = False, ps_requested = False\<rparr>"

definition packetizer_start :: "TlmPacketizerPacket list \<Rightarrow> U32 \<Rightarrow> packetizer_state" where
  "packetizer_start ps level = \<lparr>sp_packets = map packet_start ps, sp_level = (if ps = [] then 0 else level),
     sp_max = fold max (map pp_level ps) 0, sp_reported = []\<rparr>"

lemma values_in_zeros: "values_in cs (replicate (sizes cs) 0) = map (\<lambda>c. replicate (unat (ce_size c)) 0) cs"
  by (induction cs) (simp_all add: sizes_def)

lemma ready_new:
  assumes "memory_ok old"
  shows "ready [] (TlmPacketizer_new old)"
proof -
  have b: "blank_buffer ComBuffer_new" using ComBuffer_new_wf by (simp add: blank_buffer_def ComBuffer_new_def SerializeBufferBase_new_def ser_wf_def)
  have "ks_inv (tz_entries (TlmPacketizer_new old))"
    using assms by (simp add: ks_inv_def TlmPacketizer_new_def memory_ok_def hash_table_empty)
  then show ?thesis
    using assms b by (simp add: ready_def table_for_def ks_view_def fresh_def memory_ok_def TlmPacketizer_new_def)
qed

lemma setPacketList_ok:
  assumes "config_ok l ig" "memory_ok old"
  shows "\<exists>z. setPacketList l ig level (TlmPacketizer_new old) = Some z \<and> pk_inv (packets_of l) (channel_ids ig) z \<and>
    pk_abs (packets_of l) z = packetizer_start (packets_of l) level"
proof -
  let ?ps = "packets_of l" and ?new = "TlmPacketizer_new old"
  have c: "unat (pl_numEntries l) \<le> length (pl_list l)" "unat (pl_numEntries l) \<le> 200" "list_all packet_ok ?ps" "listed ig"
    "set (ids_of ?ps) \<inter> set (channel_ids ig) = {}" "length (ids_of ?ps) + length (channel_ids ig) < 1000"
    using assms(1) by (simp_all add: config_ok_def)
  have n: "length ?ps = unat (pl_numEntries l)" using c(1) by (simp add: packets_of_def)
  obtain s F where r: "set_packets 0 ?ps level ?new = Some (?new\<lparr>tz_entries := s, tz_fill := F,
      tz_maxLevel := fold max (map pp_level ?ps) (tz_maxLevel ?new), tz_startLevel := (if ?ps = [] then tz_startLevel ?new else level)\<rparr>)"
    "ready ?ps (?new\<lparr>tz_entries := s, tz_fill := F\<rparr>)"
    using set_packets_ok [OF ready_new [OF assms(2)] c(3), of level] c(2,6) n by auto
  let ?packed = "?new\<lparr>tz_entries := s, tz_fill := F, tz_maxLevel := fold max (map pp_level ?ps) (tz_maxLevel ?new),
      tz_startLevel := (if ?ps = [] then tz_startLevel ?new else level)\<rparr>"
  have t: "table_for ?ps s" "ks_inv s" using r(2) by (simp_all add: ready_def table_for_def)
  have "dom (ks_view s) \<union> ce_id ` set (chans ig) = set (ids_of ?ps @ channel_ids ig)"
    using table_for_dom [OF t(1)] by (simp add: channel_ids_def)
  then have card: "card (dom (ks_view s) \<union> ce_id ` set (chans ig)) < 1000"
    using card_length [of "ids_of ?ps @ channel_ids ig"] c(6) by simp
  then obtain s' where s': "set_ignored (chans ig) s = Some s'" "ks_inv s'"
    "\<forall>i. ks_view s' i = (if i \<in> ce_id ` set (chans ig) then Some (True, ks_offsets s i) else ks_view s i)"
    using set_ignored_ok [OF t(2), of "chans ig"] by auto
  have view: "ks_view s' i = (if i \<in> set (ids_of ?ps) then Some (False, offsets_of ?ps i)
      else if i \<in> set (channel_ids ig) then Some (True, offsets_of ?ps i) else None)" for i
    using s'(3) [rule_format, of i] t(1) c(5) table_for_offsets [OF t(1), of i] by (auto simp: table_for_def channel_ids_def)
  have "dom (ks_view s') = set (ids_of ?ps @ channel_ids ig)" using view by (auto simp: dom_def split: if_splits)
  then have free: "ks_free s' < 1000"
    using ks_card [OF s'(2)] card_length [of "ids_of ?ps @ channel_ids ig"] c(6) by simp
  let ?final = "?packed\<lparr>tz_entries := s', tz_numPackets := pl_numEntries l, tz_configured := True\<rparr>"
  have cs: "pp_list ig = Some cs \<Longrightarrow> read_at cs 0 (unat (pp_numEntries ig)) = Some (chans ig)" for cs
    using c(4) by (simp add: listed_def chans_def read_at_def)
  obtain cs where "pp_list ig = Some cs" using c(4) by (auto simp: listed_def split: option.splits)
  moreover have rd: "read_at (pl_list l) 0 (unat (pl_numEntries l)) = Some ?ps" using c(1) by (simp add: packets_of_def read_at_def)
  ultimately have set: "setPacketList l ig level ?new = Some ?final"
    using c(2) r(1) s'(1) cs rd by (simp add: setPacketList_def)
  have st: "started (?ps ! k) (F ! k)" if "k < length ?ps" for k using r(2) that by (simp add: ready_def)
  have snd: "send_ok (tz_send ?new ! k)" if "k < 200" for k
    using that assms(2) ComBuffer_new_wf by (simp add: TlmPacketizer_new_def memory_ok_def send_ok_def)
  have miss: "miss_ok (tz_missTlmCheck ?new)" "takeWhile snd (tz_missTlmCheck ?new) = []"
  proof -
    have "\<forall>x \<in> set (tz_missTlmCheck ?new). \<not> snd x" by (auto simp: TlmPacketizer_new_def)
    then show t: "takeWhile snd (tz_missTlmCheck ?new) = []" by (cases "tz_missTlmCheck ?new") simp_all
    have "dropWhile snd (tz_missTlmCheck ?new) = tz_missTlmCheck ?new"
      using t by (metis append_Nil takeWhile_dropWhile_id)
    then show "miss_ok (tz_missTlmCheck ?new)"
      using assms(2) \<open>\<forall>x \<in> set (tz_missTlmCheck ?new). \<not> snd x\<close> by (simp add: miss_ok_def TlmPacketizer_new_def memory_ok_def)
  qed
  have "pk_inv ?ps (channel_ids ig) ?final"
    using n c(2,3) s'(2) free view st snd miss(1) r(2) assms(2)
    by (simp add: pk_inv_def started_def ready_def) (simp add: TlmPacketizer_new_def memory_ok_def)
  moreover have "map2 abs_packet ?ps F = map packet_start ?ps"
    by (rule nth_equalityI) (use r(2) c(2) n st in \<open>simp_all add: ready_def abs_packet_def started_def packet_start_def values_in_zeros\<close>)
  then have "pk_abs ?ps ?final = packetizer_start ?ps level"
    using miss(2) by (simp add: pk_abs_def packetizer_start_def) (simp add: TlmPacketizer_new_def)
  ultimately show ?thesis using set by blast
qed


section \<open>Properties\<close>

text \<open>
  C17: The telemetry packetizer sends the latest values. For every valid configuration of packets and ignored channels,
  \<open>setPacketList\<close> succeeds on a new component, whatever its memory held, and every sequence of received
  values of the configured sizes, runs, pings and commands then runs to its end without a failed assertion and sends exactly
  what the specification sends: in a run each updated packet whose level is enabled or that was requested, once, with
  the time of its last update and the latest value of each of its channels, and one warning for each of the first 25
  channels that are neither in a packet nor ignored.
\<close>

theorem packetizer_sends_latest_values:
  assumes "config_ok l ig" "memory_ok old" "list_all (pk_op_ok (packets_of l)) ops"
  shows "\<exists>z z'. setPacketList l ig level (TlmPacketizer_new old) = Some z \<and>
    run_steps pk_step ops z =
      Some (fst (run_spec (packetizer_spec (packets_of l) (channel_ids ig)) ops (packetizer_start (packets_of l) level)), z')"
proof -
  obtain z where z: "setPacketList l ig level (TlmPacketizer_new old) = Some z" "pk_inv (packets_of l) (channel_ids ig) z"
    "pk_abs (packets_of l) z = packetizer_start (packets_of l) level"
    using setPacketList_ok [OF assms(1,2)] by blast
  have "\<forall>x \<in> set ops. pk_op_ok (packets_of l) x" using assms(3) by (simp add: list_all_iff)
  then show ?thesis using packetizer.unbounded.run_refines [OF z(2)] z(1,3) by metis
qed

definition demo_value :: "U8 list \<Rightarrow> ser_buf" where
  "demo_value bs = SerializeBufferBase_new (bs @ replicate (120 - length bs) 0) \<lparr>m_serLoc := of_nat (length bs)\<rparr>"

definition demo_packets :: TlmPacketizerPacketList where
  "demo_packets = \<lparr>pl_list =
     [\<lparr>pp_list = Some [\<lparr>ce_id = 10, ce_size = 2\<rparr>, \<lparr>ce_id = 109, ce_size = 1\<rparr>], pp_id = 7, pp_level = 1, pp_numEntries = 2\<rparr>,
      \<lparr>pp_list = Some [\<lparr>ce_id = 109, ce_size = 1\<rparr>], pp_id = 8, pp_level = 5, pp_numEntries = 1\<rparr>], pl_numEntries = 2\<rparr>"

definition demo_ignored :: TlmPacketizerPacket where
  "demo_ignored = \<lparr>pp_list = Some [\<lparr>ce_id = 12, ce_size = 4\<rparr>], pp_id = 0, pp_level = 0, pp_numEntries = 1\<rparr>"

definition demo_memory :: TlmPacketizer where
  "demo_memory = \<lparr>tz_numPackets = 9,
     tz_fill = replicate 200 \<lparr>be_buffer = ComBuffer_new, be_latestTime = Time_new, be_id = 3, be_level = 4, be_updated = True, be_requested = True\<rparr>,
     tz_send = replicate 200 \<lparr>be_buffer = ComBuffer_new, be_latestTime = Time_new, be_id = 3, be_level = 4, be_updated = True, be_requested = True\<rparr>,
     tz_entries = \<lparr>ks_slots = [], ks_buckets = replicate 1000 \<lparr>ke_id = 1, ke_packetOffset = [], ke_next = Some 1, ke_used = True,
       ke_ignored = True, ke_bucketNo = 0\<rparr>, ks_free = 3\<rparr>,
     tz_configured = True, tz_missTlmCheck = replicate 25 (1, True), tz_startLevel = 2, tz_maxLevel = 2, tz_outs = []\<rparr>"

definition demo_ops :: "pk_op list" where
  "demo_ops = [Receive 10 (Time_make 1 0 100 5) (demo_value [1, 2]), Receive 109 (Time_make 1 0 101 6) (demo_value [9]),
     Receive 12 (Time_make 1 0 102 7) (demo_value [4]), Receive 13 (Time_make 1 0 103 8) (demo_value [4]), Cycle True, Cycle True,
     Send_packet (Time_make 1 0 104 9) 40 50 8, Cycle True]"

lemma demo_config: "config_ok demo_packets demo_ignored"
  by code_simp

lemma demo_memory_ok: "memory_ok demo_memory"
  by (simp add: memory_ok_def demo_memory_def TLMPACKETIZER_MAX_MISSING_TLM_CHECK_def)

lemma demo_value_ok:
  assumes "length bs \<le> 120"
  shows "tlm_buffer (demo_value bs)" "contents (demo_value bs) = bs"
  using assms by (simp_all add: tlm_buffer_def demo_value_def SerializeBufferBase_new_def ser_wf_def contents_def unat_of_nat32)

lemma demo_ops_ok: "list_all (pk_op_ok (packets_of demo_packets)) demo_ops"
  by (simp add: demo_ops_def demo_value_ok packets_of_def demo_packets_def chans_def take_Cons')

lemma demo_run: "fst (run_spec (packetizer_spec (packets_of demo_packets) (channel_ids demo_ignored)) demo_ops
    (packetizer_start (packets_of demo_packets) 1)) =
  [[], [], [], [NoChan 13], [PktSend [0, 0, 0, 4, 0, 7, 0, 1, 0, 0, 0, 0, 101, 0, 0, 0, 6, 1, 2, 9] 0], [],
   [PacketSent 8, PkCmdResponse 40 50 CmdResponse_OK], [PktSend [0, 0, 0, 4, 0, 8, 0, 1, 0, 0, 0, 0, 104, 0, 0, 0, 9, 9] 0]]"
  by code_simp

theorem packetizer_sends_latest_values_witness:
  "\<exists>z z'. setPacketList demo_packets demo_ignored 1 (TlmPacketizer_new demo_memory) = Some z \<and>
    run_steps pk_step demo_ops z = Some (
      [[], [], [], [NoChan 13], [PktSend [0, 0, 0, 4, 0, 7, 0, 1, 0, 0, 0, 0, 101, 0, 0, 0, 6, 1, 2, 9] 0], [],
       [PacketSent 8, PkCmdResponse 40 50 CmdResponse_OK], [PktSend [0, 0, 0, 4, 0, 8, 0, 1, 0, 0, 0, 0, 104, 0, 0, 0, 9, 9] 0]], z')"
  using packetizer_sends_latest_values [OF demo_config demo_memory_ok demo_ops_ok, of 1] unfolding demo_run .

text \<open>
  A value is copied with its own length: the code does not compare it with the size the configuration
  gives for the channel. A value that is longer than its channel overwrites the beginning of the next one. For a configuration
  of one packet, the theorem gives the bytes of the packet after the first value it receives, whatever the length of the
  value is, as long as it ends inside the packet.
\<close>

theorem long_value_spills:
  assumes "config_ok l ig" "memory_ok old" "packets_of l = [p]" "place (chans p) 0 i = Some off"
    and "tlm_buffer val" "off + length (contents val) \<le> sizes (chans p)"
  shows "\<exists>z z'. setPacketList l ig level (TlmPacketizer_new old) = Some z \<and> tz_TlmRecv_handler i t val z = Some z' \<and>
    drop 17 (contents (be_buffer (tz_fill z' ! 0))) =
      replicate off 0 @ contents val @ replicate (sizes (chans p) - (off + length (contents val))) 0"
proof -
  obtain z where z: "setPacketList l ig level (TlmPacketizer_new old) = Some z" "pk_inv [p] (channel_ids ig) z"
    "pk_abs [p] z = packetizer_start [p] level"
    using setPacketList_ok [OF assms(1,2), of level] unfolding assms(3) by blast
  have p: "packet_ok p" using assms(1,3) by (simp add: config_ok_def)
  have inv: "fill_ok p (tz_fill z ! 0)" "length (tz_fill z) = 200" "tz_configured z" "ks_inv (tz_entries z)"
    using z(2) by (simp_all add: pk_inv_def)
  have "abs_packet p (tz_fill z ! 0) = packet_start p"
    using z(3) inv(2) by (cases "tz_fill z") (simp_all add: pk_abs_def packetizer_start_def)
  then have "values_in (chans p) (drop 17 (contents (be_buffer (tz_fill z ! 0)))) = map (\<lambda>c. replicate (unat (ce_size c)) 0) (chans p)"
    by (simp add: abs_packet_def packet_start_def)
  then have "take (sizes (chans p)) (drop 17 (contents (be_buffer (tz_fill z ! 0)))) = replicate (sizes (chans p)) 0"
    by (metis concat_values_in length_replicate order_refl take_all values_in_zeros)
  then have zero: "drop 17 (contents (be_buffer (tz_fill z ! 0))) = replicate (sizes (chans p)) 0"
    using fill_contents(2) [OF inv(1) p] by simp
  have i: "i \<in> set (ids_of [p])" using assms(4) place_None [of "chans p" 0 i] by (simp add: ids_of_def channel_ids_def)
  then have "ks_view (tz_entries z) i = Some (False, offsets_of [p] i)" using z(2) by (simp add: pk_inv_def)
  then obtain e x where e: "ks_slots (tz_entries z) ! tz_doHash i = Some e" "tz_search i 1000 (Some e) (tz_entries z) = Use_entry (Some x)"
    "ke_packetOffset (ks_buckets (tz_entries z) ! x) = offsets_of [p] i"
    using recv_finds [OF inv(4), of i] by auto
  have ft: "fits p i (contents val)" using p assms(4,6) by (simp add: fits_def)
  then have fts: "\<forall>k < length [p]. fill_ok ([p] ! k) (tz_fill z ! k) \<and> fits ([p] ! k) i (contents val)" using inv(1) by simp
  have sub: "set [0..<200] \<subseteq> {..<200 :: nat}" by auto
  obtain F where F: "copy_values (ks_buckets (tz_entries z) ! x) t val [0..<200] z = Some (z\<lparr>tz_fill := F\<rparr>)"
    "F ! 0 = receive_entry i t (contents val) p (tz_fill z ! 0)"
    using copy_values_ok [OF assms(5) refl inv(2) e(3) fts distinct_upt sub, where t = t] by auto
  have "tz_TlmRecv_handler i t val z = Some (z\<lparr>tz_fill := F\<rparr>)"
    using inv(3) e F(1) by (simp add: tz_TlmRecv_handler_def)
  moreover have "drop 17 (contents (be_buffer (F ! 0))) =
      replicate off 0 @ contents val @ replicate (sizes (chans p) - (off + length (contents val))) 0"
    unfolding F(2) receive_entry_fill(2) [OF inv(1) ft assms(4)] zero using assms(6) by simp
  ultimately show ?thesis using z(1) by auto
qed

definition spill_packets :: TlmPacketizerPacketList where
  "spill_packets = \<lparr>pl_list = [\<lparr>pp_list = Some [\<lparr>ce_id = 1, ce_size = 1\<rparr>, \<lparr>ce_id = 2, ce_size = 3\<rparr>], pp_id = 7, pp_level = 1, pp_numEntries = 2\<rparr>],
     pl_numEntries = 1\<rparr>"

theorem long_value_spills_witness:
  "\<exists>z z'. setPacketList spill_packets demo_ignored 1 (TlmPacketizer_new demo_memory) = Some z \<and>
    tz_TlmRecv_handler 1 (Time_make 1 0 100 5) (demo_value [5, 6, 7]) z = Some z' \<and>
    drop 17 (contents (be_buffer (tz_fill z' ! 0))) = [5, 6, 7, 0]"
proof -
  let ?p = "\<lparr>pp_list = Some [\<lparr>ce_id = 1, ce_size = 1\<rparr>, \<lparr>ce_id = 2, ce_size = 3\<rparr>], pp_id = 7, pp_level = 1, pp_numEntries = 2\<rparr>"
  have c: "config_ok spill_packets demo_ignored" by code_simp
  have p: "packets_of spill_packets = [?p]" by (simp add: packets_of_def spill_packets_def)
  have q: "chans ?p = [\<lparr>ce_id = 1, ce_size = 1\<rparr>, \<lparr>ce_id = 2, ce_size = 3\<rparr>]" by (simp add: chans_def take_Cons')
  have v: "tlm_buffer (demo_value [5, 6, 7])" "contents (demo_value [5, 6, 7]) = [5, 6, 7]"
    by (simp_all add: demo_value_ok)
  show ?thesis
    using long_value_spills [OF c demo_memory_ok p, of 1 0 "demo_value [5, 6, 7]" 1 "Time_make 1 0 100 5"] v by (simp add: q sizes_def)
qed

end
