(* ===== verification/Log_Packet.thy ===== *)
theory Log_Packet
  imports Tlm_Packet
begin

text \<open>
  Fw/Log: the packet (LogPacket.cpp) that carries one event with its serialized arguments, and the
  buffer of the arguments (LogBuffer.cpp). The layout is the one of a telemetry packet, and the
  facts about it are those of Tlm_Packet.
\<close>

section \<open>Buffers\<close>

definition FW_LOG_BUFFER_MAX_SIZE :: nat where
  "FW_LOG_BUFFER_MAX_SIZE = FW_COM_BUFFER_MAX_SIZE - 4 - 4"

definition LogBuffer_new :: ser_buf where
  "LogBuffer_new = SerializeBufferBase_new (replicate FW_LOG_BUFFER_MAX_SIZE 0)"

definition LogBuffer_of :: "U8 list option \<Rightarrow> U32 \<Rightarrow> ser_buf option" where
  "LogBuffer_of args len = do {
     (stat, b) \<leftarrow> setBuff LogBuffer_new args len;
     fw_assert (stat = FW_SERIALIZE_OK);
     Some b
   }"

definition LogBuffer_copy :: "ser_buf \<Rightarrow> ser_buf option" where
  "LogBuffer_copy other = do {
     (stat, b) \<leftarrow> setBuff LogBuffer_new (Some (m_data other)) (getBuffLength other);
     fw_assert (stat = FW_SERIALIZE_OK);
     Some b
   }"

definition LogBuffer_assign :: "ser_buf \<Rightarrow> ser_buf \<Rightarrow> ser_buf option" where
  "LogBuffer_assign b other = do {
     (stat, b) \<leftarrow> setBuff b (Some (m_data other)) (getBuffLength other);
     fw_assert (stat = FW_SERIALIZE_OK);
     Some b
   }"

section \<open>Packets\<close>

record LogPacket =
  lp_type :: U32
  lp_id :: U32
  lp_timeTag :: Time
  lp_logBuffer :: ser_buf

definition LogPacket_new :: LogPacket where
  "LogPacket_new = \<lparr>lp_type = packet_type_code FW_PACKET_LOG, lp_id = 0, lp_timeTag = Time_new,
     lp_logBuffer = LogBuffer_new\<rparr>"

definition LogPacket_serialize :: "LogPacket \<Rightarrow> ser_buf \<Rightarrow> (SerializeStatus \<times> ser_buf) option" where
  "LogPacket_serialize p buffer =
     ser_then (ComPacket_serializeBase (lp_type p) buffer) (\<lambda>buffer.
     ser_then (serialize_U32 buffer (lp_id p)) (\<lambda>buffer.
     ser_then (Time_serialize buffer (lp_timeTag p)) (\<lambda>buffer.
     serialize_bytes buffer (m_data (lp_logBuffer p)) (getBuffLength (lp_logBuffer p)) True)))"

text \<open>As in a telemetry packet, the copy of the remaining bytes does not look at the array's size.\<close>

definition LogPacket_deserialize :: "LogPacket \<Rightarrow> ser_buf \<Rightarrow> (SerializeStatus \<times> LogPacket \<times> ser_buf) option" where
  "LogPacket_deserialize p buffer = do {
     (stat, t, buffer) \<leftarrow> ComPacket_deserializeBase (lp_type p) buffer;
     let p = p\<lparr>lp_type := t\<rparr>;
     if stat \<noteq> FW_SERIALIZE_OK then Some (stat, p, buffer)
     else do {
       (r, buffer) \<leftarrow> deserialize_U32 buffer;
       (case r of
          Inl e \<Rightarrow> Some (e, p, buffer)
        | Inr i \<Rightarrow> do {
            let p = p\<lparr>lp_id := i\<rparr>;
            (stat, tag, buffer) \<leftarrow> Time_deserialize (lp_timeTag p) buffer;
            let p = p\<lparr>lp_timeTag := tag\<rparr>;
            if stat \<noteq> FW_SERIALIZE_OK then Some (stat, p, buffer)
            else do {
              let size = getBuffLeft buffer;
              (r, buffer) \<leftarrow> deserialize_bytes buffer size True;
              (case r of
                 Inl e \<Rightarrow> Some (e, p, buffer)
               | Inr bs \<Rightarrow> do {
                   d \<leftarrow> write_at (m_data (lp_logBuffer p)) 0 bs;
                   let (stat, b) = setBuffLen ((lp_logBuffer p)\<lparr>m_data := d\<rparr>) size;
                   fw_assert (stat = FW_SERIALIZE_OK);
                   Some (stat, p\<lparr>lp_logBuffer := b\<rparr>, buffer)
                 })
            }
          })
     }
   }"

definition LogPacket_setId :: "U32 \<Rightarrow> LogPacket \<Rightarrow> LogPacket" where
  "LogPacket_setId i p = p\<lparr>lp_id := i\<rparr>"

definition LogPacket_setLogBuffer :: "ser_buf \<Rightarrow> LogPacket \<Rightarrow> LogPacket option" where
  "LogPacket_setLogBuffer buffer p = do {
     b \<leftarrow> LogBuffer_assign (lp_logBuffer p) buffer;
     Some (p\<lparr>lp_logBuffer := b\<rparr>)
   }"

definition LogPacket_setTimeTag :: "Time \<Rightarrow> LogPacket \<Rightarrow> LogPacket" where
  "LogPacket_setTimeTag timeTag p = p\<lparr>lp_timeTag := timeTag\<rparr>"

section \<open>The layout of a telemetry packet\<close>

definition as_tlm :: "LogPacket \<Rightarrow> TlmPacket" where
  "as_tlm p = \<lparr>tp_type = lp_type p, tp_id = lp_id p, tp_timeTag = lp_timeTag p, tp_tlmBuffer = lp_logBuffer p\<rparr>"

definition of_tlm :: "TlmPacket \<Rightarrow> LogPacket" where
  "of_tlm p = \<lparr>lp_type = tp_type p, lp_id = tp_id p, lp_timeTag = tp_timeTag p, lp_logBuffer = tp_tlmBuffer p\<rparr>"

lemma as_tlm_sel [simp]:
  "tp_type (as_tlm p) = lp_type p" "tp_id (as_tlm p) = lp_id p" "tp_timeTag (as_tlm p) = lp_timeTag p"
  "tp_tlmBuffer (as_tlm p) = lp_logBuffer p"
  by (simp_all add: as_tlm_def)

lemma of_tlm_as_tlm [simp]: "of_tlm (as_tlm p) = p" "as_tlm (of_tlm q) = q"
  by (simp_all add: as_tlm_def of_tlm_def)

lemma log_size [simp]: "FW_LOG_BUFFER_MAX_SIZE = 120"
  by (simp add: FW_LOG_BUFFER_MAX_SIZE_def FW_COM_BUFFER_MAX_SIZE_def)

lemma log_buffers_eq:
  "LogBuffer_new = TlmBuffer_new" "LogBuffer_assign = TlmBuffer_assign"
  by (simp_all add: LogBuffer_new_def TlmBuffer_new_def LogBuffer_assign_def [abs_def] TlmBuffer_assign_def [abs_def])

lemma as_tlm_new: "as_tlm LogPacket_new = TlmPacket_new\<lparr>tp_type := packet_type_code FW_PACKET_LOG\<rparr>"
  by (simp add: as_tlm_def LogPacket_new_def TlmPacket_new_def log_buffers_eq)

lemma LogPacket_serialize_eq: "LogPacket_serialize p = TlmPacket_serialize (as_tlm p)"
  by (simp add: LogPacket_serialize_def [abs_def] TlmPacket_serialize_def [abs_def])

lemma LogPacket_deserialize_eq:
  "LogPacket_deserialize p b = map_option (\<lambda>(stat, q, b). (stat, of_tlm q, b)) (TlmPacket_deserialize (as_tlm p) b)"
  by (simp add: LogPacket_deserialize_def TlmPacket_deserialize_def as_tlm_def of_tlm_def Let_def
      split: bind_splits prod.splits sum.splits if_splits)

definition LogPacket_bytes :: "U32 \<Rightarrow> Time \<Rightarrow> U8 list \<Rightarrow> U8 list" where
  "LogPacket_bytes i t args = bytes_of_U32 (packet_type_code FW_PACKET_LOG) @ bytes_of_U32 i @ Time_bytes t @ args"

lemma length_LogPacket_bytes [simp]: "length (LogPacket_bytes i t args) = 19 + length args"
  by (simp add: LogPacket_bytes_def)

lemma LogPacket_serialize_ok:
  assumes "tlm_buffer (lp_logBuffer p)" "lp_type p = packet_type_code FW_PACKET_LOG"
    and "ser_wf b" "19 + length (contents (lp_logBuffer p)) \<le> room b"
  shows "LogPacket_serialize p b = Some (FW_SERIALIZE_OK,
    append_to b (LogPacket_bytes (lp_id p) (lp_timeTag p) (contents (lp_logBuffer p))))"
  using TlmPacket_serialize_any [of "as_tlm p" b] assms by (simp add: LogPacket_serialize_eq LogPacket_bytes_def)

lemma LogPacket_serialize_full:
  assumes "tlm_buffer (lp_logBuffer p)" "ser_wf b" "19 \<le> room b" "room b < 19 + length (contents (lp_logBuffer p))"
  obtains b' where "LogPacket_serialize p b = Some (FW_SERIALIZE_NO_ROOM_LEFT, b')"
  using TlmPacket_serialize_full [of "as_tlm p" b] assms by (auto simp: LogPacket_serialize_eq)

lemma LogPacket_deserialize_ok:
  assumes "ser_wf b" "\<not> m_null b" "unread b = LogPacket_bytes i t args" "length args \<le> 120"
  obtains p b' where "LogPacket_deserialize LogPacket_new b = Some (FW_SERIALIZE_OK, p, b')"
    "lp_id p = i" "lp_timeTag p = t" "contents (lp_logBuffer p) = args" "unread b' = []"
proof -
  obtain q b' where "TlmPacket_deserialize (as_tlm LogPacket_new) b = Some (FW_SERIALIZE_OK, q, b')"
    "tp_id q = i" "tp_timeTag q = t" "contents (tp_tlmBuffer q) = args" "unread b' = []"
    unfolding as_tlm_new by (rule TlmPacket_deserialize_any [OF assms(1,2) assms(3) [unfolded LogPacket_bytes_def] assms(4)])
  then show thesis
    by (intro that [of "of_tlm q" b']) (simp_all add: LogPacket_deserialize_eq of_tlm_def)
qed

end
