(* ===== verification/Active_Logger.thy ===== *)
theory Active_Logger
  imports Log_Packet Cmd_Sequence
begin

text \<open>
  Svc/ActiveLogger (ActiveLoggerImpl.cpp, with the types of ActiveLogger.fpp and the sizes of
  ActiveLoggerImplCfg.hpp): events are filtered by severity and by identifier where they arrive and
  wait for the thread of the component, which puts each into a packet. Enumerations are the
  integers the code compares, since two handlers check the range of what they got. Events,
  responses and port calls go to \<open>al_outs\<close> in their order.
\<close>

section \<open>Types and state\<close>

definition FILTER_WARNING_HI :: nat where "FILTER_WARNING_HI = 0"
definition FILTER_WARNING_LO :: nat where "FILTER_WARNING_LO = 1"
definition FILTER_COMMAND :: nat where "FILTER_COMMAND = 2"
definition FILTER_ACTIVITY_HI :: nat where "FILTER_ACTIVITY_HI = 3"
definition FILTER_ACTIVITY_LO :: nat where "FILTER_ACTIVITY_LO = 4"
definition FILTER_DIAGNOSTIC :: nat where "FILTER_DIAGNOSTIC = 5"
definition FILTER_NUM_CONSTANTS :: nat where "FILTER_NUM_CONSTANTS = 6"

definition FILTER_ENABLED :: I32 where "FILTER_ENABLED = 0"
definition FILTER_DISABLED :: I32 where "FILTER_DISABLED = 1"

definition LOG_FATAL :: I32 where "LOG_FATAL = 1"
definition LOG_WARNING_HI :: I32 where "LOG_WARNING_HI = 2"
definition LOG_WARNING_LO :: I32 where "LOG_WARNING_LO = 3"
definition LOG_COMMAND :: I32 where "LOG_COMMAND = 4"
definition LOG_ACTIVITY_HI :: I32 where "LOG_ACTIVITY_HI = 5"
definition LOG_ACTIVITY_LO :: I32 where "LOG_ACTIVITY_LO = 6"
definition LOG_DIAGNOSTIC :: I32 where "LOG_DIAGNOSTIC = 7"

definition TELEM_ID_FILTER_SIZE :: nat where "TELEM_ID_FILTER_SIZE = 25"

text \<open>The default states, in the order of the levels.\<close>

definition FILTER_DEFAULTS :: "bool list" where
  "FILTER_DEFAULTS = [True, True, True, True, True, False]"

datatype logger_output =
    FatalAnnounce U32
  | LogPktSend "U8 list" U32
  | LogPingOut U32
  | SEVERITY_FILTER_STATE nat bool
  | ID_FILTER_ENABLED U32 | ID_FILTER_LIST_FULL U32 | ID_FILTER_REMOVED U32 | ID_FILTER_NOT_FOUND U32
  | LogCmdResponse U32 U32 CmdResponse

text \<open>
  \<open>al_queue\<close> holds the messages of the internal port that the thread has not handled; the two flags
  say which of the optional ports are connected.
\<close>

record ActiveLogger =
  al_filterState :: "I32 list"
  al_logPacket :: LogPacket
  al_comBuffer :: ser_buf
  al_filteredIDs :: "U32 list"
  al_queue :: "(U32 \<times> Time \<times> I32 \<times> ser_buf) list"
  al_fatalConnected :: bool
  al_pktConnected :: bool
  al_outs :: "logger_output list"

definition al_out :: "logger_output list \<Rightarrow> ActiveLogger \<Rightarrow> ActiveLogger" where
  "al_out vs l = l\<lparr>al_outs := al_outs l @ vs\<rparr>"

definition ActiveLogger_new :: "bool \<Rightarrow> bool \<Rightarrow> ActiveLogger" where
  "ActiveLogger_new fc pc = \<lparr>al_filterState = map (\<lambda>d. if d then FILTER_ENABLED else FILTER_DISABLED) FILTER_DEFAULTS,
     al_logPacket = LogPacket_new, al_comBuffer = ComBuffer_new, al_filteredIDs = replicate TELEM_ID_FILTER_SIZE 0,
     al_queue = [], al_fatalConnected = fc, al_pktConnected = pc, al_outs = []\<rparr>"

section \<open>Events\<close>

text \<open>The switch over the severity: whether it returns. An unknown severity fails the assertion.\<close>

definition severity_filtered :: "I32 \<Rightarrow> ActiveLogger \<Rightarrow> bool option" where
  "severity_filtered severity l =
     (if severity = LOG_FATAL then Some False
      else if severity = LOG_WARNING_HI then Some (al_filterState l ! FILTER_WARNING_HI = FILTER_DISABLED)
      else if severity = LOG_WARNING_LO then Some (al_filterState l ! FILTER_WARNING_LO = FILTER_DISABLED)
      else if severity = LOG_COMMAND then Some (al_filterState l ! FILTER_COMMAND = FILTER_DISABLED)
      else if severity = LOG_ACTIVITY_HI then Some (al_filterState l ! FILTER_ACTIVITY_HI = FILTER_DISABLED)
      else if severity = LOG_ACTIVITY_LO then Some (al_filterState l ! FILTER_ACTIVITY_LO = FILTER_DISABLED)
      else if severity = LOG_DIAGNOSTIC then Some (al_filterState l ! FILTER_DIAGNOSTIC = FILTER_DISABLED)
      else None)"

text \<open>A message to the thread is dropped when the queue has no room; \<open>accepted\<close> is its answer.\<close>

definition loqQueue_invoke :: "bool \<Rightarrow> U32 \<Rightarrow> Time \<Rightarrow> I32 \<Rightarrow> ser_buf \<Rightarrow> ActiveLogger \<Rightarrow> ActiveLogger" where
  "loqQueue_invoke accepted i timeTag severity args l =
     (if accepted then l\<lparr>al_queue := al_queue l @ [(i, timeTag, severity, args)]\<rparr> else l)"

definition LogRecv_handler :: "bool \<Rightarrow> U32 \<Rightarrow> Time \<Rightarrow> I32 \<Rightarrow> ser_buf \<Rightarrow> ActiveLogger \<Rightarrow> ActiveLogger option" where
  "LogRecv_handler accepted i timeTag severity args l = do {
     fw_assert (i \<noteq> 0);
     filtered \<leftarrow> severity_filtered severity l;
     if filtered then Some l
     else if list_ex (\<lambda>e. e = i \<and> severity \<noteq> LOG_FATAL) (al_filteredIDs l) then Some l
     else
       let l = loqQueue_invoke accepted i timeTag severity args l in
       Some (if LOG_FATAL = severity \<and> al_fatalConnected l then al_out [FatalAnnounce i] l else l)
   }"

definition loqQueue_handler :: "U32 \<Rightarrow> Time \<Rightarrow> I32 \<Rightarrow> ser_buf \<Rightarrow> ActiveLogger \<Rightarrow> ActiveLogger option" where
  "loqQueue_handler i timeTag severity args l = do {
     let p = LogPacket_setTimeTag timeTag (LogPacket_setId i (al_logPacket l));
     p \<leftarrow> LogPacket_setLogBuffer args p;
     (stat, b) \<leftarrow> LogPacket_serialize p (resetSer (al_comBuffer l));
     fw_assert (stat = FW_SERIALIZE_OK);
     let l = l\<lparr>al_logPacket := p, al_comBuffer := b\<rparr>;
     Some (if al_pktConnected l then al_out [LogPktSend (contents b) 0] l else l)
   }"

text \<open>The thread takes the oldest message.\<close>

definition logger_dispatch :: "ActiveLogger \<Rightarrow> ActiveLogger option" where
  "logger_dispatch l =
     (case al_queue l of
        [] \<Rightarrow> Some l
      | (i, timeTag, severity, args) # q \<Rightarrow> loqQueue_handler i timeTag severity args (l\<lparr>al_queue := q\<rparr>))"

section \<open>Commands\<close>

definition SET_EVENT_FILTER_cmdHandler :: "U32 \<Rightarrow> U32 \<Rightarrow> I32 \<Rightarrow> I32 \<Rightarrow> ActiveLogger \<Rightarrow> ActiveLogger" where
  "SET_EVENT_FILTER_cmdHandler opCode cmdSeq filterLevel filterEnable l =
     (if sint filterLevel > int FILTER_DIAGNOSTIC \<or> sint filterLevel < int FILTER_WARNING_HI \<or>
         sint filterEnable < sint FILTER_ENABLED \<or> sint filterEnable > sint FILTER_DISABLED
      then al_out [LogCmdResponse opCode cmdSeq VALIDATION_ERROR] l
      else al_out [LogCmdResponse opCode cmdSeq CmdResponse_OK]
        (l\<lparr>al_filterState := (al_filterState l)[nat (sint filterLevel) := filterEnable]\<rparr>))"

definition SET_ID_FILTER_cmdHandler :: "U32 \<Rightarrow> U32 \<Rightarrow> U32 \<Rightarrow> I32 \<Rightarrow> ActiveLogger \<Rightarrow> ActiveLogger" where
  "SET_ID_FILTER_cmdHandler opCode cmdSeq i idEnabled l =
     (if idEnabled \<noteq> FILTER_ENABLED \<and> idEnabled \<noteq> FILTER_DISABLED
      then al_out [LogCmdResponse opCode cmdSeq VALIDATION_ERROR] l
      else if FILTER_ENABLED = idEnabled then
        (case first_index (\<lambda>e. e = i) (al_filteredIDs l) of
           Some entry \<Rightarrow> al_out [LogCmdResponse opCode cmdSeq CmdResponse_OK, ID_FILTER_ENABLED i] l
         | None \<Rightarrow>
             (case first_index (\<lambda>e. e = 0) (al_filteredIDs l) of
                Some entry \<Rightarrow> al_out [LogCmdResponse opCode cmdSeq CmdResponse_OK, ID_FILTER_ENABLED i]
                  (l\<lparr>al_filteredIDs := (al_filteredIDs l)[entry := i]\<rparr>)
              | None \<Rightarrow> al_out [ID_FILTER_LIST_FULL i, LogCmdResponse opCode cmdSeq EXECUTION_ERROR] l))
      else
        (case first_index (\<lambda>e. e = i) (al_filteredIDs l) of
           Some entry \<Rightarrow> al_out [LogCmdResponse opCode cmdSeq CmdResponse_OK, ID_FILTER_REMOVED i]
             (l\<lparr>al_filteredIDs := (al_filteredIDs l)[entry := 0]\<rparr>)
         | None \<Rightarrow> al_out [ID_FILTER_NOT_FOUND i, LogCmdResponse opCode cmdSeq EXECUTION_ERROR] l))"

definition DUMP_FILTER_STATE_cmdHandler :: "U32 \<Rightarrow> U32 \<Rightarrow> ActiveLogger \<Rightarrow> ActiveLogger" where
  "DUMP_FILTER_STATE_cmdHandler opCode cmdSeq l =
     al_out (map (\<lambda>k. SEVERITY_FILTER_STATE k (FILTER_ENABLED = al_filterState l ! k)) [0..<FILTER_NUM_CONSTANTS] @
       map ID_FILTER_ENABLED (filter (\<lambda>e. e \<noteq> 0) (al_filteredIDs l)) @
       [LogCmdResponse opCode cmdSeq CmdResponse_OK]) l"

definition logger_pingIn_handler :: "U32 \<Rightarrow> ActiveLogger \<Rightarrow> ActiveLogger" where
  "logger_pingIn_handler key l = al_out [LogPingOut key] l"

text \<open>
  The handlers of the component, in the order in which they run. \<open>Recv\<close> and \<open>Set_severity\<close> run on the
  threads of the callers, the others on the thread of the component.
\<close>

datatype logger_op =
    Recv bool U32 Time I32 ser_buf
  | Dispatch
  | Set_severity U32 U32 I32 I32
  | Set_id U32 U32 U32 I32
  | Dump U32 U32
  | Log_ping U32

fun logger_exec :: "logger_op \<Rightarrow> ActiveLogger \<Rightarrow> ActiveLogger option" where
  "logger_exec (Recv accepted i t severity args) l = LogRecv_handler accepted i t severity args l"
| "logger_exec Dispatch l = logger_dispatch l"
| "logger_exec (Set_severity op sq level en) l = Some (SET_EVENT_FILTER_cmdHandler op sq level en l)"
| "logger_exec (Set_id op sq i en) l = Some (SET_ID_FILTER_cmdHandler op sq i en l)"
| "logger_exec (Dump op sq) l = Some (DUMP_FILTER_STATE_cmdHandler op sq l)"
| "logger_exec (Log_ping key) l = Some (logger_pingIn_handler key l)"

end
