(* ===== verification/Logger_Properties.thy ===== *)
theory Logger_Properties
  imports Active_Logger Refinement "HOL-Library.Multiset"
begin

text \<open>
  Contract of Svc/ActiveLogger: two sets, the severity levels that pass and the identifiers that
  do not, and a queue of events. The slots of the identifier array, the packet and the Com
  buffer the component keeps are not visible.
\<close>

section \<open>The abstract logger\<close>

record event_spec =
  es_levels :: "nat set"
  es_ids :: "U32 set"
  es_waiting :: "(U32 \<times> Time \<times> U8 list) list"

text \<open>
  The identifiers of a dump come in the order of the slots, which the sets do not have: the answer
  to a dump is the multiset of its outputs, the answer to anything else the list.
\<close>

type_synonym logger_answer = "logger_output list + logger_output multiset"

definition answer_to :: "logger_op \<Rightarrow> logger_output list \<Rightarrow> logger_answer" where
  "answer_to x outs = (case x of Dump op sq \<Rightarrow> Inr (mset outs) | _ \<Rightarrow> Inl outs)"

definition logger_step :: "logger_op \<Rightarrow> ActiveLogger \<Rightarrow> (logger_answer \<times> ActiveLogger) option" where
  "logger_step x l = do {
     l \<leftarrow> logger_exec x (l\<lparr>al_outs := []\<rparr>);
     Some (answer_to x (al_outs l), l)
   }"

text \<open>A FATAL event always passes, another one when its level passes and its identifier is not filtered.\<close>

definition event_passes :: "U32 \<Rightarrow> I32 \<Rightarrow> event_spec \<Rightarrow> bool" where
  "event_passes i severity a \<longleftrightarrow> severity = LOG_FATAL \<or> unat severity - 2 \<in> es_levels a \<and> i \<notin> es_ids a"

text \<open>
  Zero marks a free slot: the search for it succeeds while there is one. A command for the
  identifier zero is then answered as any other, and changes nothing.
\<close>

fun set_id_spec :: "U32 \<Rightarrow> U32 \<Rightarrow> U32 \<Rightarrow> I32 \<Rightarrow> event_spec \<Rightarrow> logger_output list \<times> event_spec" where
  "set_id_spec op sq i en a =
     (let room = card (es_ids a) < TELEM_ID_FILTER_SIZE; known = (i \<in> es_ids a \<or> i = 0 \<and> room)
      in if en = FILTER_ENABLED then
           if known \<or> room
           then ([LogCmdResponse op sq CmdResponse_OK, ID_FILTER_ENABLED i],
                 if i = 0 then a else a\<lparr>es_ids := insert i (es_ids a)\<rparr>)
           else ([ID_FILTER_LIST_FULL i, LogCmdResponse op sq EXECUTION_ERROR], a)
         else if en = FILTER_DISABLED then
           if known
           then ([LogCmdResponse op sq CmdResponse_OK, ID_FILTER_REMOVED i], a\<lparr>es_ids := es_ids a - {i}\<rparr>)
           else ([ID_FILTER_NOT_FOUND i, LogCmdResponse op sq EXECUTION_ERROR], a)
         else ([LogCmdResponse op sq VALIDATION_ERROR], a))"

fun logger_spec :: "bool \<Rightarrow> bool \<Rightarrow> logger_op \<Rightarrow> event_spec \<Rightarrow> logger_answer \<times> event_spec" where
  "logger_spec fc pc (Recv accepted i t severity args) a =
     (Inl (if severity = LOG_FATAL \<and> fc then [FatalAnnounce i] else []),
      if event_passes i severity a \<and> accepted
      then a\<lparr>es_waiting := es_waiting a @ [(i, t, contents args)]\<rparr> else a)"
| "logger_spec fc pc Dispatch a =
     (case es_waiting a of
        [] \<Rightarrow> (Inl [], a)
      | (i, t, args) # w \<Rightarrow> (Inl (if pc then [LogPktSend (LogPacket_bytes i t args) 0] else []), a\<lparr>es_waiting := w\<rparr>))"
| "logger_spec fc pc (Set_severity op sq level en) a =
     (if 0 \<le> sint level \<and> sint level < 6 \<and> (en = FILTER_ENABLED \<or> en = FILTER_DISABLED)
      then (Inl [LogCmdResponse op sq CmdResponse_OK],
            a\<lparr>es_levels := (if en = FILTER_ENABLED then insert (unat level) (es_levels a) else es_levels a - {unat level})\<rparr>)
      else (Inl [LogCmdResponse op sq VALIDATION_ERROR], a))"
| "logger_spec fc pc (Set_id op sq i en) a = apfst Inl (set_id_spec op sq i en a)"
| "logger_spec fc pc (Dump op sq) a =
     (Inr (mset (map (\<lambda>k. SEVERITY_FILTER_STATE k (k \<in> es_levels a)) [0..<6]) +
       image_mset ID_FILTER_ENABLED (mset_set (es_ids a)) + {#LogCmdResponse op sq CmdResponse_OK#}), a)"
| "logger_spec fc pc (Log_ping key) a = (Inl [LogPingOut key], a)"

definition logger_start :: event_spec where
  "logger_start = \<lparr>es_levels = {0, 1, 2, 3, 4}, es_ids = {}, es_waiting = []\<rparr>"

text \<open>
  The operations: events have an identifier other than zero, a severity of the enumeration
  and arguments that fit a packet with its time tag.
\<close>

fun logger_op_ok :: "logger_op \<Rightarrow> bool" where
  "logger_op_ok (Recv accepted i t severity args) \<longleftrightarrow>
     i \<noteq> 0 \<and> 1 \<le> severity \<and> severity \<le> 7 \<and> tlm_buffer args \<and> length (contents args) \<le> 109"
| "logger_op_ok _ \<longleftrightarrow> True"

section \<open>Abstraction\<close>

definition logger_abs :: "ActiveLogger \<Rightarrow> event_spec" where
  "logger_abs l = \<lparr>es_levels = {k. k < 6 \<and> al_filterState l ! k = FILTER_ENABLED}, es_ids = set (al_filteredIDs l) - {0},
     es_waiting = map (\<lambda>(i, t, severity, args). (i, t, contents args)) (al_queue l)\<rparr>"

definition logger_inv :: "bool \<Rightarrow> bool \<Rightarrow> ActiveLogger \<Rightarrow> bool" where
  "logger_inv fc pc l \<longleftrightarrow>
     length (al_filterState l) = 6 \<and> set (al_filterState l) \<subseteq> {FILTER_ENABLED, FILTER_DISABLED} \<and>
     length (al_filteredIDs l) = TELEM_ID_FILTER_SIZE \<and> distinct (filter (\<lambda>e. e \<noteq> 0) (al_filteredIDs l)) \<and>
     tlm_buffer (lp_logBuffer (al_logPacket l)) \<and> lp_type (al_logPacket l) = packet_type_code FW_PACKET_LOG \<and>
     ser_wf (al_comBuffer l) \<and> length (m_data (al_comBuffer l)) = 128 \<and>
     (\<forall>(i, t, severity, args) \<in> set (al_queue l). tlm_buffer args \<and> length (contents args) \<le> 109) \<and>
     al_fatalConnected l = fc \<and> al_pktConnected l = pc"

lemma logger_inv_outs [simp]: "logger_inv fc pc (l\<lparr>al_outs := vs\<rparr>) = logger_inv fc pc l"
  by (simp add: logger_inv_def)

lemma logger_abs_outs [simp]: "logger_abs (l\<lparr>al_outs := vs\<rparr>) = logger_abs l"
  by (simp add: logger_abs_def)

lemmas filter_codes = FILTER_ENABLED_def FILTER_DISABLED_def FILTER_WARNING_HI_def FILTER_WARNING_LO_def
  FILTER_COMMAND_def FILTER_ACTIVITY_HI_def FILTER_ACTIVITY_LO_def FILTER_DIAGNOSTIC_def FILTER_NUM_CONSTANTS_def
  LOG_FATAL_def LOG_WARNING_HI_def LOG_WARNING_LO_def LOG_COMMAND_def LOG_ACTIVITY_HI_def LOG_ACTIVITY_LO_def LOG_DIAGNOSTIC_def

lemma logger_new: "logger_inv fc pc (ActiveLogger_new fc pc)" "logger_abs (ActiveLogger_new fc pc) = logger_start"
proof -
  have b: "tlm_buffer TlmBuffer_new" "ser_wf ComBuffer_new" "length (m_data ComBuffer_new) = 128"
    using ComBuffer_new_wf by (simp_all add: ComBuffer_new_def SerializeBufferBase_new_def FW_COM_BUFFER_MAX_SIZE_def)
  show "logger_inv fc pc (ActiveLogger_new fc pc)"
    using b by (auto simp: logger_inv_def ActiveLogger_new_def FILTER_DEFAULTS_def LogPacket_new_def log_buffers_eq TELEM_ID_FILTER_SIZE_def)
  have "{k. k < 6 \<and> al_filterState (ActiveLogger_new fc pc) ! k = FILTER_ENABLED} = {0, 1, 2, 3, 4 :: nat}"
    by (auto simp: ActiveLogger_new_def FILTER_DEFAULTS_def filter_codes less_Suc_eq numeral_eq_Suc)
  then show "logger_abs (ActiveLogger_new fc pc) = logger_start"
    by (simp add: logger_abs_def logger_start_def) (simp add: ActiveLogger_new_def TELEM_ID_FILTER_SIZE_def)
qed

section \<open>Slots\<close>

text \<open>Slots hold distinct identifiers; zero marks the free ones.\<close>

abbreviation distinct_slots :: "U32 list \<Rightarrow> bool" where
  "distinct_slots es \<equiv> distinct (filter (\<lambda>e. e \<noteq> 0) es)"

lemma slots_room:
  assumes "distinct_slots es"
  shows "card (set es - {0}) < length es \<longleftrightarrow> 0 \<in> set es"
proof -
  have "set es - {0} = set (filter (\<lambda>e. e \<noteq> 0) es)" by auto
  then have "card (set es - {0}) = length (filter (\<lambda>e. e \<noteq> 0) es)" using distinct_card [OF assms] by simp
  moreover have "filter (\<lambda>e. e \<noteq> 0) es = es" if "0 \<notin> set es" using that by (auto simp: filter_id_conv)
  ultimately show ?thesis using length_filter_less [of 0 es "\<lambda>e. e \<noteq> 0"] by (cases "0 \<in> set es") auto
qed

lemma slot_split:
  assumes "first_index P es = Some n"
  obtains us e vs where "es = us @ e # vs" "length us = n" "P e"
  using first_index_Some [OF assms] id_take_nth_drop [of n es] that [of "take n es" "es ! n" "drop (Suc n) es"] by auto

lemma slots_take:
  assumes "distinct_slots es" "first_index (\<lambda>e. e = 0) es = Some n" "i \<notin> set es"
  shows "distinct_slots (es[n := i])" "set (es[n := i]) - {0} = (if i = 0 then set es - {0} else insert i (set es - {0}))"
proof -
  obtain us e vs where "es = us @ e # vs" "length us = n" "e = 0" by (rule slot_split [OF assms(2)])
  then show "distinct_slots (es[n := i])" "set (es[n := i]) - {0} = (if i = 0 then set es - {0} else insert i (set es - {0}))"
    using assms(1,3) by (auto simp: list_update_append)
qed

lemma slots_free:
  assumes "distinct_slots es" "first_index (\<lambda>e. e = i) es = Some n"
  shows "distinct_slots (es[n := 0])" "set (es[n := 0]) - {0} = set es - {0} - {i}"
proof -
  obtain us e vs where "es = us @ e # vs" "length us = n" "e = i" by (rule slot_split [OF assms(2)])
  then show "distinct_slots (es[n := 0])" "set (es[n := 0]) - {0} = set es - {0} - {i}"
    using assms(1) by (cases "i = 0"; auto simp: list_update_append)+
qed

lemma first_slot: "first_index (\<lambda>e. e = i) es \<noteq> None \<longleftrightarrow> i \<in> set es"
  by (auto simp: first_index_None)

section \<open>Operations\<close>

text \<open>What a handler does, from a state with empty output.\<close>

definition logger_done :: "bool \<Rightarrow> bool \<Rightarrow> logger_op \<Rightarrow> ActiveLogger \<Rightarrow> bool" where
  "logger_done fc pc x l \<longleftrightarrow> (\<exists>l'. logger_exec x l = Some l' \<and> logger_inv fc pc l' \<and>
     answer_to x (al_outs l') = fst (logger_spec fc pc x (logger_abs l)) \<and> logger_abs l' = snd (logger_spec fc pc x (logger_abs l)))"

lemma set_id_done:
  assumes "logger_inv fc pc l" "al_outs l = []"
  shows "logger_done fc pc (Set_id op sq i en) l"
proof -
  let ?es = "al_filteredIDs l" and ?a = "logger_abs l"
  have es: "distinct_slots ?es" "length ?es = TELEM_ID_FILTER_SIZE" "es_ids ?a = set ?es - {0}"
    using assms(1) by (simp_all add: logger_inv_def logger_abs_def)
  have room: "card (es_ids ?a) < TELEM_ID_FILTER_SIZE \<longleftrightarrow> 0 \<in> set ?es"
    using slots_room [OF es(1)] es(2,3) by simp
  have known: "i \<in> es_ids ?a \<or> i = 0 \<and> 0 \<in> set ?es \<longleftrightarrow> i \<in> set ?es" using es(3) by auto
  have upd: "logger_done fc pc (Set_id op sq i en) l"
    if "SET_ID_FILTER_cmdHandler op sq i en l = al_out vs (l\<lparr>al_filteredIDs := fs\<rparr>)" "distinct_slots fs" "length fs = length ?es"
      "set_id_spec op sq i en ?a = (vs, ?a\<lparr>es_ids := set fs - {0}\<rparr>)" for vs fs
    using assms that by (simp add: logger_done_def logger_inv_def logger_abs_def al_out_def answer_to_def)
  have same: "logger_done fc pc (Set_id op sq i en) l"
    if "SET_ID_FILTER_cmdHandler op sq i en l = al_out vs l" "set_id_spec op sq i en ?a = (vs, ?a)" for vs
    using that es by (intro upd [of vs ?es]) simp_all
  have absent: "i \<notin> set ?es \<Longrightarrow> i \<notin> es_ids ?a" using es(3) by simp
  note spec = set_id_spec.simps Let_def room known SET_ID_FILTER_cmdHandler_def filter_codes
  consider (bad) "en \<noteq> FILTER_ENABLED" "en \<noteq> FILTER_DISABLED"
    | (add_known) n where "en = FILTER_ENABLED" "first_index (\<lambda>e. e = i) ?es = Some n"
    | (add) n where "en = FILTER_ENABLED" "first_index (\<lambda>e. e = i) ?es = None" "first_index (\<lambda>e. e = 0) ?es = Some n"
    | (full) "en = FILTER_ENABLED" "first_index (\<lambda>e. e = i) ?es = None" "first_index (\<lambda>e. e = 0) ?es = None"
    | (remove) n where "en = FILTER_DISABLED" "first_index (\<lambda>e. e = i) ?es = Some n"
    | (unknown) "en = FILTER_DISABLED" "first_index (\<lambda>e. e = i) ?es = None"
    by fastforce
  then show ?thesis
  proof cases
    case bad
    then show ?thesis by (intro same) (simp_all add: spec)
  next
    case add_known
    then have i: "i \<in> set ?es" using first_slot [of i ?es] by simp
    then have "i \<noteq> 0 \<Longrightarrow> insert i (es_ids ?a) = es_ids ?a" using es(3) by auto
    then show ?thesis using add_known i by (intro same) (auto simp: spec)
  next
    case add
    then have "i \<notin> set ?es" "0 \<in> set ?es" using first_slot [of i ?es] first_slot [of 0 ?es] by simp_all
    then show ?thesis using add es(2) slots_take [OF es(1) add(3), folded es(3)] by (intro upd [of _ "?es[n := i]"]) (auto simp: spec)
  next
    case full
    then have "i \<notin> set ?es" "0 \<notin> set ?es" using first_slot [of i ?es] first_slot [of 0 ?es] by simp_all
    then show ?thesis using full absent by (intro same) (simp_all add: spec)
  next
    case remove
    then have "i \<in> set ?es" using first_slot [of i ?es] by simp
    then show ?thesis using remove es(2) slots_free [OF es(1) remove(2), folded es(3)] by (intro upd [of _ "?es[n := 0]"]) (simp_all add: spec)
  next
    case unknown
    then have "i \<notin> set ?es" using first_slot [of i ?es] by simp
    then show ?thesis using unknown absent by (intro same) (auto simp: spec)
  qed
qed

lemma severities:
  assumes "1 \<le> severity" "severity \<le> (7 :: I32)"
  shows "severity \<in> {1, 2, 3, 4, 5, 6, 7}"
proof -
  have "1 \<le> unat severity" "unat severity \<le> 7" using assms by (simp_all add: word_le_nat_alt)
  then have "unat severity = 1 \<or> unat severity = 2 \<or> unat severity = 3 \<or> unat severity = 4 \<or>
    unat severity = 5 \<or> unat severity = 6 \<or> unat severity = 7" by arith
  then show ?thesis by (elim disjE) (auto dest: word_eq_of_unat)
qed

lemma severity_filtered_ok:
  assumes "logger_inv fc pc l" "1 \<le> severity" "severity \<le> 7"
  shows "severity_filtered severity l = Some (severity \<noteq> LOG_FATAL \<and> unat severity - 2 \<notin> es_levels (logger_abs l))"
proof -
  have "al_filterState l ! k = FILTER_DISABLED \<longleftrightarrow> al_filterState l ! k \<noteq> FILTER_ENABLED" if "k < 6" for k
  proof -
    have "al_filterState l ! k \<in> set (al_filterState l)" using assms(1) that by (simp add: logger_inv_def)
    then have "al_filterState l ! k \<in> {FILTER_ENABLED, FILTER_DISABLED}" using assms(1) by (auto simp: logger_inv_def)
    then show ?thesis by (auto simp: FILTER_ENABLED_def FILTER_DISABLED_def)
  qed
  then show ?thesis
    using severities [OF assms(2,3)]
    by (auto simp: severity_filtered_def logger_abs_def FILTER_WARNING_HI_def FILTER_WARNING_LO_def
      FILTER_COMMAND_def FILTER_ACTIVITY_HI_def FILTER_ACTIVITY_LO_def FILTER_DIAGNOSTIC_def
      LOG_FATAL_def LOG_WARNING_HI_def LOG_WARNING_LO_def LOG_COMMAND_def LOG_ACTIVITY_HI_def LOG_ACTIVITY_LO_def LOG_DIAGNOSTIC_def)
qed

lemma recv_done:
  assumes "logger_inv fc pc l" "al_outs l = []" "logger_op_ok (Recv accepted i t severity args)"
  shows "logger_done fc pc (Recv accepted i t severity args) l"
proof -
  have filtered: "list_ex (\<lambda>e. e = i \<and> severity \<noteq> LOG_FATAL) (al_filteredIDs l) \<longleftrightarrow> severity \<noteq> LOG_FATAL \<and> i \<in> es_ids (logger_abs l)"
    using assms(3) by (auto simp: list_ex_iff logger_abs_def)
  have s: "severity_filtered severity l = Some (severity \<noteq> LOG_FATAL \<and> unat severity - 2 \<notin> es_levels (logger_abs l))"
    using severity_filtered_ok [OF assms(1)] assms(3) by simp
  have "LogRecv_handler accepted i t severity args l = Some (al_out
      (if severity = LOG_FATAL \<and> fc then [FatalAnnounce i] else [])
      (if event_passes i severity (logger_abs l) then loqQueue_invoke accepted i t severity args l else l))"
    using assms by (auto simp: LogRecv_handler_def s filtered event_passes_def al_out_def logger_inv_def loqQueue_invoke_def)
  then show ?thesis
    using assms by (auto simp: logger_done_def al_out_def logger_inv_def logger_abs_def loqQueue_invoke_def answer_to_def event_passes_def)
qed

lemma set_severity_done:
  assumes "logger_inv fc pc l" "al_outs l = []"
  shows "logger_done fc pc (Set_severity op sq level en) l"
proof (cases "0 \<le> sint level \<and> sint level < 6 \<and> (en = FILTER_ENABLED \<or> en = FILTER_DISABLED)")
  case True
  then have "uint level = sint level" by (simp add: uint_sint take_bit_eq_mod)
  then have n: "nat (sint level) = unat level" "unat level < 6"
    using True by (simp_all add: unat_eq_nat_uint nat_less_iff)
  have "SET_EVENT_FILTER_cmdHandler op sq level en l = al_out [LogCmdResponse op sq CmdResponse_OK]
      (l\<lparr>al_filterState := (al_filterState l)[unat level := en]\<rparr>)"
    using True n(1) by (auto simp: SET_EVENT_FILTER_cmdHandler_def filter_codes)
  moreover have "set ((al_filterState l)[unat level := en]) \<subseteq> {FILTER_ENABLED, FILTER_DISABLED}"
    using True assms(1) set_update_subset_insert [of "al_filterState l" "unat level" en] by (auto simp: logger_inv_def)
  moreover have "{k. k < 6 \<and> (al_filterState l)[unat level := en] ! k = FILTER_ENABLED} =
      (if en = FILTER_ENABLED then insert (unat level) (es_levels (logger_abs l)) else es_levels (logger_abs l) - {unat level})"
    using assms(1) n(2) by (auto simp: logger_inv_def logger_abs_def nth_list_update)
  ultimately show ?thesis
    using assms True by (simp add: logger_done_def logger_inv_def logger_abs_def al_out_def answer_to_def)
next
  case False
  have "en = FILTER_ENABLED \<or> en = FILTER_DISABLED" if "0 \<le> sint en" "sint en \<le> 1"
    using that sint_eq_iff [of en 0] sint_eq_iff [of en 1] by (auto simp: filter_codes)
  then have "SET_EVENT_FILTER_cmdHandler op sq level en l = al_out [LogCmdResponse op sq VALIDATION_ERROR] l"
    using False by (auto simp: SET_EVENT_FILTER_cmdHandler_def FILTER_DIAGNOSTIC_def FILTER_WARNING_HI_def FILTER_ENABLED_def
      FILTER_DISABLED_def not_less)
  then show ?thesis
    using assms False by (auto simp: logger_done_def al_out_def answer_to_def logger_inv_def logger_abs_def)
qed

lemma dump_done:
  assumes "logger_inv fc pc l" "al_outs l = []"
  shows "logger_done fc pc (Dump op sq) l"
proof -
  have "mset (filter (\<lambda>e. e \<noteq> 0) (al_filteredIDs l)) = mset_set (es_ids (logger_abs l))"
    using assms(1) mset_set_set [of "filter (\<lambda>e. e \<noteq> 0) (al_filteredIDs l)"]
    by (simp add: logger_inv_def logger_abs_def set_diff_eq)
  moreover have "mset (map (\<lambda>k. SEVERITY_FILTER_STATE k (FILTER_ENABLED = al_filterState l ! k)) [0..<6]) =
      mset (map (\<lambda>k. SEVERITY_FILTER_STATE k (k \<in> es_levels (logger_abs l))) [0..<6])"
    by (rule arg_cong [of _ _ mset]) (auto simp: logger_abs_def)
  ultimately show ?thesis
    using assms by (simp add: logger_done_def DUMP_FILTER_STATE_cmdHandler_def FILTER_NUM_CONSTANTS_def al_out_def answer_to_def)
qed

lemma ping_done:
  "logger_inv fc pc l \<Longrightarrow> al_outs l = [] \<Longrightarrow> logger_done fc pc (Log_ping key) l"
  by (simp add: logger_done_def logger_pingIn_handler_def al_out_def answer_to_def logger_inv_def logger_abs_def)

section \<open>Packets\<close>

text \<open>The packet the thread assembles, and the Com buffer it has room in.\<close>

lemma packet_prepared:
  assumes "logger_inv fc pc l" "tlm_buffer args"
  obtains p where "LogPacket_setLogBuffer args (LogPacket_setTimeTag t (LogPacket_setId i (al_logPacket l))) = Some p"
    "tlm_buffer (lp_logBuffer p)" "contents (lp_logBuffer p) = contents args" "lp_id p = i" "lp_timeTag p = t"
    "lp_type p = packet_type_code FW_PACKET_LOG"
proof -
  obtain b where "TlmBuffer_assign (lp_logBuffer (al_logPacket l)) args = Some b" "tlm_buffer b" "contents b = contents args"
    using assms by (auto simp: logger_inv_def elim: tlm_assign_ok)
  then show thesis
    using assms(1) that [of "(al_logPacket l)\<lparr>lp_id := i, lp_timeTag := t, lp_logBuffer := b\<rparr>"]
    by (simp add: LogPacket_setLogBuffer_def LogPacket_setTimeTag_def LogPacket_setId_def log_buffers_eq logger_inv_def)
qed

lemma com_buffer_reset:
  assumes "logger_inv fc pc l"
  shows "ser_wf (resetSer (al_comBuffer l))" "room (resetSer (al_comBuffer l)) = 128" "contents (resetSer (al_comBuffer l)) = []"
    "length (m_data (resetSer (al_comBuffer l))) = 128"
  using assms by (simp_all add: logger_inv_def ser_wf_def resetSer_def room_def contents_def)

lemma dispatch_done:
  assumes "logger_inv fc pc l" "al_outs l = []"
  shows "logger_done fc pc Dispatch l"
proof (cases "al_queue l")
  case Nil
  then show ?thesis using assms by (simp add: logger_done_def logger_dispatch_def logger_abs_def answer_to_def)
next
  case (Cons m q)
  obtain i t severity args where m: "m = (i, t, severity, args)" by (cases m)
  have args: "tlm_buffer args" "length (contents args) \<le> 109"
    using assms(1) Cons m by (simp_all add: logger_inv_def)
  obtain p where p: "LogPacket_setLogBuffer args (LogPacket_setTimeTag t (LogPacket_setId i (al_logPacket l))) = Some p"
    "tlm_buffer (lp_logBuffer p)" "contents (lp_logBuffer p) = contents args" "lp_id p = i" "lp_timeTag p = t"
    "lp_type p = packet_type_code FW_PACKET_LOG"
    by (rule packet_prepared [OF assms(1) args(1)])
  let ?b = "resetSer (al_comBuffer l)" and ?bs = "LogPacket_bytes i t (contents args)"
  note b = com_buffer_reset [OF assms(1)]
  have "LogPacket_serialize p ?b = Some (FW_SERIALIZE_OK, append_to ?b ?bs)"
    using LogPacket_serialize_ok [OF p(2,6) b(1)] b(2) p(3-5) args(2) by simp
  then have step: "logger_dispatch l = Some (al_out (if pc then [LogPktSend ?bs 0] else [])
      (l\<lparr>al_queue := q, al_logPacket := p, al_comBuffer := append_to ?b ?bs\<rparr>))"
    using assms(1) b args(2) p(1)
    by (simp add: logger_dispatch_def loqQueue_handler_def Cons m logger_inv_def Let_def append_to_contents al_out_def)
  have "ser_wf (append_to ?b ?bs)" "length (m_data (append_to ?b ?bs)) = 128"
    using b args(2) by (simp add: append_to_wf) (use b args(2) in \<open>simp add: append_to_def room_def\<close>)
  then show ?thesis
    using assms Cons m step p by (simp add: logger_done_def logger_inv_def logger_abs_def al_out_def answer_to_def)
qed

section \<open>Refinement\<close>

interpretation event_logger: refinement logger_step "logger_spec fc pc" "logger_inv fc pc" logger_abs logger_op_ok for fc pc
proof unfold_locales
  fix l x assume l: "logger_inv fc pc l" and x: "logger_op_ok x"
  let ?l = "l\<lparr>al_outs := []\<rparr>"
  have "logger_done fc pc x ?l"
    using l x by (cases x) (simp_all add: recv_done dispatch_done set_severity_done set_id_done dump_done ping_done del: logger_op_ok.simps)
  then show "\<exists>l'. logger_step x l = Some (fst (logger_spec fc pc x (logger_abs l)), l') \<and> logger_inv fc pc l' \<and>
      logger_abs l' = snd (logger_spec fc pc x (logger_abs l))"
    by (auto simp: logger_done_def logger_step_def)
qed

section \<open>Properties\<close>


lemma long_event_fails:
  assumes "logger_inv fc pc l" "al_queue l = []" "i \<noteq> 0" "tlm_buffer args" "109 < length (contents args)"
  shows "run_steps logger_step [Recv True i t LOG_FATAL args, Dispatch] l = None"
proof -
  let ?q = "[(i, t, LOG_FATAL, args)]"
  obtain l1 where l1: "logger_step (Recv True i t LOG_FATAL args) l = Some (Inl (if fc then [FatalAnnounce i] else []), l1)"
    "al_queue l1 = ?q" "al_logPacket l1 = al_logPacket l" "al_comBuffer l1 = al_comBuffer l"
    using assms(1-3)
    by (simp add: logger_step_def LogRecv_handler_def severity_filtered_def list_ex_iff loqQueue_invoke_def al_out_def
        logger_inv_def answer_to_def Let_def)
  obtain p where p: "LogPacket_setLogBuffer args (LogPacket_setTimeTag t (LogPacket_setId i (al_logPacket l))) = Some p"
    "tlm_buffer (lp_logBuffer p)" "contents (lp_logBuffer p) = contents args"
    by (rule packet_prepared [OF assms(1,4)])
  note b = com_buffer_reset [OF assms(1)]
  have "room (resetSer (al_comBuffer l)) < 19 + length (contents (lp_logBuffer p))" using b(2) p(3) assms(5) by simp
  then obtain b' where "LogPacket_serialize p (resetSer (al_comBuffer l)) = Some (FW_SERIALIZE_NO_ROOM_LEFT, b')"
    using LogPacket_serialize_full [OF p(2) b(1)] b(2) by auto
  then have "logger_step Dispatch l1 = None"
    using l1 p(1) by (simp add: logger_step_def logger_dispatch_def loqQueue_handler_def Let_def)
  then show ?thesis using l1(1) by simp
qed

text \<open>
  The size of an argument buffer leaves no room for the time tag in a packet. An event with more than 109
  bytes of arguments, which the buffer takes, fails the assertion on the packet when the thread handles it. A
  FATAL event is never filtered: it stops the logger after any events and commands that leave the queue empty.
\<close>

theorem long_event_stops_logger:
  assumes "\<forall>x \<in> set ops. logger_op_ok x" "es_waiting (snd (run_spec (logger_spec fc pc) ops logger_start)) = []"
    and "i \<noteq> 0" "tlm_buffer args" "109 < length (contents args)"
  shows "run_steps logger_step (ops @ [Recv True i t LOG_FATAL args, Dispatch]) (ActiveLogger_new fc pc) = None"
proof -
  obtain l where l: "run_steps logger_step ops (ActiveLogger_new fc pc) = Some (fst (run_spec (logger_spec fc pc) ops logger_start), l)"
    "logger_inv fc pc l" "logger_abs l = snd (run_spec (logger_spec fc pc) ops logger_start)"
    using event_logger.unbounded.run_refines [OF logger_new(1) assms(1)] unfolding logger_new(2) by blast
  have q: "al_queue l = []" using assms(2) unfolding l(3) [symmetric] by (simp add: logger_abs_def)
  show ?thesis using l(1) long_event_fails [OF l(2) q assms(3-5)] by (simp add: run_steps_append del: run_steps.simps)
qed

text \<open>A run in which the filters matter, and arguments of 110 bytes.\<close>

definition log_args :: "U8 list \<Rightarrow> ser_buf" where
  "log_args bs = \<lparr>m_data = bs @ replicate (FW_LOG_BUFFER_MAX_SIZE - length bs) 0, m_null = False,
     m_serLoc = of_nat (length bs), m_deserLoc = 0\<rparr>"

lemma log_args_ok:
  assumes "length bs \<le> 120"
  shows "tlm_buffer (log_args bs)" "contents (log_args bs) = bs"
proof -
  have "unat (of_nat (length bs) :: U32) = length bs" using assms by (intro unat_of_nat32) simp
  then show "tlm_buffer (log_args bs)" "contents (log_args bs) = bs"
    using assms by (simp_all add: tlm_buffer_def log_args_def ser_wf_def contents_def)
qed




theorem long_event_stops_logger_witness:
  "run_steps logger_step ([] @ [Recv True 5 (Time_make 1 0 5 6) LOG_FATAL (log_args (replicate 110 7)), Dispatch])
     (ActiveLogger_new True True) = None"
  by (rule long_event_stops_logger) (simp_all add: log_args_ok logger_start_def)

end
