(* ===== verification/Prm_Db.thy ===== *)
theory Prm_Db
  imports Os_File_Read Com_Buffer Latest_Values Cmd_Sequence
begin

text \<open>
  Svc/PrmDb (PrmDbImpl.cpp) and Fw/Prm/PrmBuffer.cpp: the parameter database, a table of 25 entries
  with the serialized value of a parameter each, and its file. A record of the file is the delimiter,
  the size of the rest, the identifier and the value. The lock of the component, which keeps \<open>getPrm\<close>
  out of a change, is not modelled; events, responses and pings go to \<open>pd_outs\<close> in their order.
\<close>

section \<open>Parameter buffers\<close>

definition FW_PARAM_BUFFER_MAX_SIZE :: nat where
  "FW_PARAM_BUFFER_MAX_SIZE = FW_COM_BUFFER_MAX_SIZE - 4 - 4"

definition ParamBuffer_new :: ser_buf where
  "ParamBuffer_new = SerializeBufferBase_new (replicate FW_PARAM_BUFFER_MAX_SIZE 0)"

definition ParamBuffer_of :: "U8 list option \<Rightarrow> U32 \<Rightarrow> ser_buf option" where
  "ParamBuffer_of args len = do {
     (stat, b) \<leftarrow> setBuff ParamBuffer_new args len;
     fw_assert (stat = FW_SERIALIZE_OK);
     Some b
   }"

definition ParamBuffer_copy :: "ser_buf \<Rightarrow> ser_buf option" where
  "ParamBuffer_copy other = do {
     (stat, b) \<leftarrow> setBuff ParamBuffer_new (Some (m_data other)) (getBuffLength other);
     fw_assert (stat = FW_SERIALIZE_OK);
     Some b
   }"

definition ParamBuffer_assign :: "ser_buf \<Rightarrow> ser_buf \<Rightarrow> ser_buf option" where
  "ParamBuffer_assign b other = do {
     (stat, b) \<leftarrow> setBuff b (Some (m_data other)) (getBuffLength other);
     fw_assert (stat = FW_SERIALIZE_OK);
     Some b
   }"

section \<open>State and output\<close>

definition PRMDB_NUM_DB_ENTRIES :: nat where "PRMDB_NUM_DB_ENTRIES = 25"

definition PRMDB_ENTRY_DELIMITER :: U8 where "PRMDB_ENTRY_DELIMITER = 0xA5"

datatype PrmReadError =
    PrmRead_OPEN | PrmRead_DELIMITER | PrmRead_DELIMITER_SIZE | PrmRead_DELIMITER_VALUE | PrmRead_RECORD_SIZE
  | PrmRead_RECORD_SIZE_SIZE | PrmRead_RECORD_SIZE_VALUE | PrmRead_PARAMETER_ID | PrmRead_PARAMETER_ID_SIZE
  | PrmRead_PARAMETER_VALUE | PrmRead_PARAMETER_VALUE_SIZE

datatype PrmWriteError =
    PrmWrite_OPEN | PrmWrite_DELIMITER | PrmWrite_DELIMITER_SIZE | PrmWrite_RECORD_SIZE | PrmWrite_RECORD_SIZE_SIZE
  | PrmWrite_PARAMETER_ID | PrmWrite_PARAMETER_ID_SIZE | PrmWrite_PARAMETER_VALUE | PrmWrite_PARAMETER_VALUE_SIZE

datatype ParamValid = Prm_UNINIT | Prm_VALID | Prm_INVALID | Prm_DEFAULT

datatype prm_output =
    PrmIdNotFound U32 | PrmIdUpdated U32 | PrmDbFull U32 | PrmIdAdded U32
  | PrmFileWriteError PrmWriteError U32 I32 | PrmFileSaveComplete U32
  | PrmFileReadError PrmReadError U32 I32 | PrmFileLoadComplete U32
  | PrmCmdResponse U32 U32 CmdResponse | PrmPingOut U32

record t_dbStruct =
  pe_used :: bool
  pe_id :: U32
  pe_val :: ser_buf

record 'k PrmDb =
  pd_db :: "t_dbStruct list"
  pd_fileName :: string
  pd_outs :: "prm_output list"
  pd_disk :: 'k

definition prm_out :: "prm_output \<Rightarrow> 'k PrmDb \<Rightarrow> 'k PrmDb" where
  "prm_out v d = d\<lparr>pd_outs := pd_outs d @ [v]\<rparr>"

text \<open>The numbers of the enumeration \<open>Os::File::Status\<close>.\<close>

definition file_status_number :: "File_Status \<Rightarrow> I32" where
  "file_status_number s = (case s of OP_OK \<Rightarrow> 0 | DOESNT_EXIST \<Rightarrow> 1 | NO_SPACE \<Rightarrow> 2 | NO_PERMISSION \<Rightarrow> 3
     | BAD_SIZE \<Rightarrow> 4 | NOT_OPENED \<Rightarrow> 5 | FILE_EXISTS \<Rightarrow> 6 | OTHER_ERROR \<Rightarrow> 7)"

definition clearDb :: "t_dbStruct list \<Rightarrow> t_dbStruct list" where
  "clearDb db = map (\<lambda>e. e\<lparr>pe_used := False, pe_id := 0\<rparr>) db"

text \<open>\<open>u\<close> is what the storage of the table held; the file name is cut to the array of \<open>Fw::String\<close>.\<close>

definition FW_FIXED_LENGTH_STRING_SIZE :: nat where "FW_FIXED_LENGTH_STRING_SIZE = 256"

definition PrmDb_new :: "(bool \<times> U32) list \<Rightarrow> string \<Rightarrow> 'k \<Rightarrow> 'k PrmDb" where
  "PrmDb_new u fileName k =
     \<lparr>pd_db = clearDb (map (\<lambda>(used, i). \<lparr>pe_used = used, pe_id = i, pe_val = ParamBuffer_new\<rparr>) u),
      pd_fileName = take (FW_FIXED_LENGTH_STRING_SIZE - 1) fileName, pd_outs = [], pd_disk = k\<rparr>"

section \<open>Parameter ports\<close>

definition getPrm_handler :: "U32 \<Rightarrow> ser_buf \<Rightarrow> 'k PrmDb \<Rightarrow> (ParamValid \<times> ser_buf \<times> 'k PrmDb) option" where
  "getPrm_handler i val d =
     (case first_index (\<lambda>e. pe_used e \<and> pe_id e = i) (pd_db d) of
        Some entry \<Rightarrow> do {
          val \<leftarrow> ParamBuffer_assign val (pe_val (pd_db d ! entry));
          Some (Prm_VALID, val, d)
        }
      | None \<Rightarrow> Some (Prm_INVALID, val, prm_out (PrmIdNotFound i) d))"

definition setPrm_handler :: "U32 \<Rightarrow> ser_buf \<Rightarrow> 'k PrmDb \<Rightarrow> 'k PrmDb option" where
  "setPrm_handler i val d =
     (case first_index (\<lambda>e. pe_used e \<and> i = pe_id e) (pd_db d) of
        Some entry \<Rightarrow> do {
          v \<leftarrow> ParamBuffer_assign (pe_val (pd_db d ! entry)) val;
          Some (prm_out (PrmIdUpdated i) (d\<lparr>pd_db := (pd_db d)[entry := (pd_db d ! entry)\<lparr>pe_val := v\<rparr>]\<rparr>))
        }
      | None \<Rightarrow>
          (case first_index (\<lambda>e. \<not> pe_used e) (pd_db d) of
             Some entry \<Rightarrow> do {
               v \<leftarrow> ParamBuffer_assign (pe_val (pd_db d ! entry)) val;
               Some (prm_out (PrmIdAdded i)
                 (d\<lparr>pd_db := (pd_db d)[entry := \<lparr>pe_used = True, pe_id = i, pe_val = v\<rparr>]\<rparr>))
             }
           | None \<Rightarrow> Some (prm_out (PrmDbFull i) d)))"

definition prm_pingIn_handler :: "U32 \<Rightarrow> 'k PrmDb \<Rightarrow> 'k PrmDb" where
  "prm_pingIn_handler key d = prm_out (PrmPingOut key) d"

section \<open>Saving\<close>

text \<open>The working buffer has room for a value and its identifier.\<close>

definition WorkingBuffer_new :: "U8 list \<Rightarrow> ser_buf" where
  "WorkingBuffer_new store = SerializeBufferBase_new (take (FW_PARAM_BUFFER_MAX_SIZE + 4) (store @ replicate (FW_PARAM_BUFFER_MAX_SIZE + 4) 0))"

text \<open>A write with its two checks; \<open>Inl\<close> is the stage, record and error of the event.\<close>

definition prm_write ::
  "'k kernel_calls \<Rightarrow> PrmWriteError \<times> PrmWriteError \<Rightarrow> U32 \<Rightarrow> U8 list \<Rightarrow> int \<Rightarrow> int \<Rightarrow> File \<Rightarrow> 'k \<Rightarrow>
     ((PrmWriteError \<times> U32 \<times> I32 + unit) \<times> File \<times> 'k) option" where
  "prm_write C stages numRecords data writeSize expected paramFile k = do {
     (stat, writeSize, paramFile, k) \<leftarrow> File_write (kc_disk C) k paramFile data writeSize;
     Some (if stat \<noteq> OP_OK then Inl (fst stages, numRecords, file_status_number stat)
           else if writeSize \<noteq> expected then Inl (snd stages, numRecords, of_int writeSize)
           else Inr (), paramFile, k)
   }"

definition prm_save_entry ::
  "'k kernel_calls \<Rightarrow> t_dbStruct \<Rightarrow> U32 \<Rightarrow> ser_buf \<Rightarrow> File \<Rightarrow> 'k \<Rightarrow>
     ((PrmWriteError \<times> U32 \<times> I32 + unit) \<times> ser_buf \<times> File \<times> 'k) option" where
  "prm_save_entry C e numRecords buff paramFile k = do {
     (r, paramFile, k) \<leftarrow> prm_write C (PrmWrite_DELIMITER, PrmWrite_DELIMITER_SIZE) numRecords [PRMDB_ENTRY_DELIMITER] 1 1 paramFile k;
     case r of Inl err \<Rightarrow> Some (Inl err, buff, paramFile, k) | Inr _ \<Rightarrow> do {
       let recordSize = 4 + getBuffLength (pe_val e);
       let buff = resetSer buff;
       (serStat, buff) \<leftarrow> serialize_U32 buff recordSize;
       fw_assert (FW_SERIALIZE_OK = serStat);
       (r, paramFile, k) \<leftarrow> prm_write C (PrmWrite_RECORD_SIZE, PrmWrite_RECORD_SIZE_SIZE) numRecords (m_data buff)
         (sint (getBuffLength buff)) 4 paramFile k;
       case r of Inl err \<Rightarrow> Some (Inl err, buff, paramFile, k) | Inr _ \<Rightarrow> do {
         let buff = resetSer buff;
         (serStat, buff) \<leftarrow> serialize_U32 buff (pe_id e);
         fw_assert (FW_SERIALIZE_OK = serStat);
         (r, paramFile, k) \<leftarrow> prm_write C (PrmWrite_PARAMETER_ID, PrmWrite_PARAMETER_ID_SIZE) numRecords (m_data buff)
           (sint (getBuffLength buff)) (sint (getBuffLength buff)) paramFile k;
         case r of Inl err \<Rightarrow> Some (Inl err, buff, paramFile, k) | Inr _ \<Rightarrow> do {
           (r, paramFile, k) \<leftarrow> prm_write C (PrmWrite_PARAMETER_VALUE, PrmWrite_PARAMETER_VALUE_SIZE) numRecords
             (m_data (pe_val e)) (sint (getBuffLength (pe_val e))) (sint (getBuffLength (pe_val e))) paramFile k;
           Some (r, buff, paramFile, k)
         }
       }
     }
   }"

fun prm_save_loop ::
  "'k kernel_calls \<Rightarrow> t_dbStruct list \<Rightarrow> U32 \<Rightarrow> ser_buf \<Rightarrow> File \<Rightarrow> 'k \<Rightarrow>
     ((PrmWriteError \<times> U32 \<times> I32 + U32) \<times> File \<times> 'k) option" where
  "prm_save_loop C [] numRecords buff paramFile k = Some (Inr numRecords, paramFile, k)"
| "prm_save_loop C (e # db) numRecords buff paramFile k =
     (if pe_used e then do {
        (r, buff, paramFile, k) \<leftarrow> prm_save_entry C e numRecords buff paramFile k;
        case r of Inl err \<Rightarrow> Some (Inl err, paramFile, k)
        | Inr _ \<Rightarrow> prm_save_loop C db (numRecords + 1) buff paramFile k
      }
      else prm_save_loop C db numRecords buff paramFile k)"

text \<open>\<open>store\<close> is what the stack held where the working buffer is.\<close>

definition PRM_SAVE_FILE_cmdHandler ::
  "'k kernel_calls \<Rightarrow> U8 list \<Rightarrow> U32 \<Rightarrow> U32 \<Rightarrow> 'k PrmDb \<Rightarrow> 'k PrmDb option" where
  "PRM_SAVE_FILE_cmdHandler C store opCode cmdSeq d = do {
     (stat, paramFile, k) \<leftarrow> File_open_write (kc_disk C) (pd_disk d) File_new (pd_fileName d) OPEN_WRITE True;
     if stat \<noteq> OP_OK
     then Some (prm_out (PrmCmdResponse opCode cmdSeq EXECUTION_ERROR)
            (prm_out (PrmFileWriteError PrmWrite_OPEN 0 (file_status_number stat))
              (d\<lparr>pd_disk := close_on_return (kc_disk C) paramFile k\<rparr>)))
     else do {
       (r, paramFile, k) \<leftarrow> prm_save_loop C (pd_db d) 0 (WorkingBuffer_new store) paramFile k;
       let d = d\<lparr>pd_disk := close_on_return (kc_disk C) paramFile k\<rparr>;
       case r of
         Inl (stage, i, err) \<Rightarrow> Some (prm_out (PrmCmdResponse opCode cmdSeq EXECUTION_ERROR) (prm_out (PrmFileWriteError stage i err) d))
       | Inr numRecords \<Rightarrow> Some (prm_out (PrmCmdResponse opCode cmdSeq CmdResponse_OK) (prm_out (PrmFileSaveComplete numRecords) d))
     }
   }"

section \<open>Loading\<close>

text \<open>A read into the working buffer, with its two checks; the buffer then holds the four bytes read.\<close>

definition prm_read_U32 ::
  "'k kernel_calls \<Rightarrow> PrmReadError \<times> PrmReadError \<Rightarrow> U32 \<Rightarrow> ser_buf \<Rightarrow> File \<Rightarrow> 'k \<Rightarrow>
     ((PrmReadError \<times> U32 \<times> I32 + U32) \<times> ser_buf \<times> File \<times> 'k) option" where
  "prm_read_U32 C stages recordNum buff paramFile k = do {
     (fStat, bytes, readSize, paramFile, k) \<leftarrow> File_read_disk C k paramFile 4 True;
     dat \<leftarrow> write_at (m_data buff) 0 bytes;
     let buff = buff\<lparr>m_data := dat\<rparr>;
     if fStat \<noteq> OP_OK then Some (Inl (fst stages, recordNum, file_status_number fStat), buff, paramFile, k)
     else if 4 \<noteq> readSize then Some (Inl (snd stages, recordNum, of_int readSize), buff, paramFile, k)
     else do {
       let (desStat, buff) = setBuffLen buff (of_int readSize);
       fw_assert (FW_SERIALIZE_OK = desStat);
       (r, buff) \<leftarrow> deserialize_U32 (resetDeser buff);
       case r of Inl e \<Rightarrow> None | Inr v \<Rightarrow> Some (Inr v, buff, paramFile, k)
     }
   }"

text \<open>
  One turn of the loop: the end of the file, an error with its event, or one more record. The size of
  the delimiter is looked at before the status, so that a read error, which sets the size to 0, counts
  as the end of the file.
\<close>

datatype prm_load = Load_end | Load_error PrmReadError U32 I32 | Load_next

definition prm_load_value ::
  "'k kernel_calls \<Rightarrow> nat \<Rightarrow> U32 \<Rightarrow> U32 \<Rightarrow> U32 \<Rightarrow> t_dbStruct list \<Rightarrow> File \<Rightarrow> 'k \<Rightarrow>
     (prm_load \<times> t_dbStruct list \<times> File \<times> 'k) option" where
  "prm_load_value C entry recordSize parameterId recordNum db paramFile k = do {
     let e = (db ! entry)\<lparr>pe_used := True, pe_id := parameterId\<rparr>;
     let readSize = sint (recordSize - 4);
     (fStat, bytes, readSize, paramFile, k) \<leftarrow> File_read_disk C k paramFile readSize True;
     dat \<leftarrow> write_at (m_data (pe_val e)) 0 bytes;
     let e = e\<lparr>pe_val := (pe_val e)\<lparr>m_data := dat\<rparr>\<rparr>;
     if fStat \<noteq> OP_OK then Some (Load_error PrmRead_PARAMETER_VALUE recordNum (file_status_number fStat), db[entry := e], paramFile, k)
     else if (of_int readSize :: U32) \<noteq> recordSize - 4
     then Some (Load_error PrmRead_PARAMETER_VALUE_SIZE recordNum (of_int readSize), db[entry := e], paramFile, k)
     else do {
       let (desStat, v) = setBuffLen (pe_val e) (of_int readSize);
       fw_assert (FW_SERIALIZE_OK = desStat);
       Some (Load_next, db[entry := e\<lparr>pe_val := v\<rparr>], paramFile, k)
     }
   }"

definition prm_load_entry ::
  "'k kernel_calls \<Rightarrow> nat \<Rightarrow> U32 \<Rightarrow> t_dbStruct list \<Rightarrow> ser_buf \<Rightarrow> File \<Rightarrow> 'k \<Rightarrow>
     (prm_load \<times> t_dbStruct list \<times> ser_buf \<times> File \<times> 'k) option" where
  "prm_load_entry C entry recordNum db buff paramFile k = do {
     (fStat, delimiter, readSize, paramFile, k) \<leftarrow> File_read_disk C k paramFile 1 True;
     if 0 = readSize then Some (Load_end, db, buff, paramFile, k)
     else if fStat \<noteq> OP_OK then Some (Load_error PrmRead_DELIMITER recordNum (file_status_number fStat), db, buff, paramFile, k)
     else if 1 \<noteq> readSize then Some (Load_error PrmRead_DELIMITER_SIZE recordNum (of_int readSize), db, buff, paramFile, k)
     else if PRMDB_ENTRY_DELIMITER \<noteq> hd delimiter
     then Some (Load_error PrmRead_DELIMITER_VALUE recordNum (ucast (hd delimiter)), db, buff, paramFile, k)
     else do {
       (r, buff, paramFile, k) \<leftarrow> prm_read_U32 C (PrmRead_RECORD_SIZE, PrmRead_RECORD_SIZE_SIZE) recordNum buff paramFile k;
       case r of Inl (stage, i, err) \<Rightarrow> Some (Load_error stage i err, db, buff, paramFile, k)
       | Inr recordSize \<Rightarrow>
           if recordSize > of_nat FW_PARAM_BUFFER_MAX_SIZE + 4 \<or> recordSize < 4
           then Some (Load_error PrmRead_RECORD_SIZE_VALUE recordNum recordSize, db, buff, paramFile, k)
           else do {
             (r, buff, paramFile, k) \<leftarrow> prm_read_U32 C (PrmRead_PARAMETER_ID, PrmRead_PARAMETER_ID_SIZE) recordNum buff paramFile k;
             case r of Inl (stage, i, err) \<Rightarrow> Some (Load_error stage i err, db, buff, paramFile, k)
             | Inr parameterId \<Rightarrow> do {
                 (l, db, paramFile, k) \<leftarrow> prm_load_value C entry recordSize parameterId recordNum db paramFile k;
                 Some (l, db, buff, paramFile, k)
               }
           }
     }
   }"

fun prm_load_loop ::
  "'k kernel_calls \<Rightarrow> nat list \<Rightarrow> U32 \<Rightarrow> t_dbStruct list \<Rightarrow> ser_buf \<Rightarrow> File \<Rightarrow> 'k \<Rightarrow>
     (prm_output \<times> t_dbStruct list \<times> File \<times> 'k) option" where
  "prm_load_loop C [] recordNum db buff paramFile k = Some (PrmFileLoadComplete recordNum, db, paramFile, k)"
| "prm_load_loop C (entry # es) recordNum db buff paramFile k = do {
     (l, db, buff, paramFile, k) \<leftarrow> prm_load_entry C entry recordNum db buff paramFile k;
     case l of
       Load_end \<Rightarrow> Some (PrmFileLoadComplete recordNum, db, paramFile, k)
     | Load_error stage i err \<Rightarrow> Some (PrmFileReadError stage i err, db, paramFile, k)
     | Load_next \<Rightarrow> prm_load_loop C es (recordNum + 1) db buff paramFile k
   }"

definition readParamFile :: "'k kernel_calls \<Rightarrow> U8 list \<Rightarrow> 'k PrmDb \<Rightarrow> 'k PrmDb option" where
  "readParamFile C store d = do {
     (stat, paramFile, k) \<leftarrow> File_open_write (kc_disk C) (pd_disk d) File_new (pd_fileName d) OPEN_READ True;
     if stat \<noteq> OP_OK
     then Some (prm_out (PrmFileReadError PrmRead_OPEN 0 (file_status_number stat))
            (d\<lparr>pd_disk := close_on_return (kc_disk C) paramFile k\<rparr>))
     else do {
       (event, db, paramFile, k) \<leftarrow>
         prm_load_loop C [0..<PRMDB_NUM_DB_ENTRIES] 0 (clearDb (pd_db d)) (WorkingBuffer_new store) paramFile k;
       Some (prm_out event (d\<lparr>pd_db := db, pd_disk := close_on_return (kc_disk C) paramFile k\<rparr>))
     }
   }"

end
