(* ===== verification/Prm_Properties.thy ===== *)
theory Prm_Properties
  imports Prm_Db
begin

text \<open>
  What the parameter database promises: it holds the latest value of each parameter, and a saved
  database comes back from its file. The table is an interpretation of \<open>latest_values\<close>.
\<close>

section \<open>The table\<close>

definition param_buffer :: "ser_buf \<Rightarrow> bool" where
  "param_buffer b \<longleftrightarrow> ser_wf b \<and> length (m_data b) = FW_PARAM_BUFFER_MAX_SIZE \<and> \<not> m_null b"

lemma prm_sizes [simp]: "FW_PARAM_BUFFER_MAX_SIZE = 120" "PRMDB_NUM_DB_ENTRIES = 25"
  by (simp_all add: FW_PARAM_BUFFER_MAX_SIZE_def PRMDB_NUM_DB_ENTRIES_def)

lemma param_buffer_new [simp]: "param_buffer ParamBuffer_new" "contents ParamBuffer_new = []"
  by (simp_all add: param_buffer_def ParamBuffer_new_def SerializeBufferBase_new_def ser_wf_def contents_def)

lemma param_assign_ok:
  assumes "param_buffer b" "param_buffer v"
  obtains b' where "ParamBuffer_assign b v = Some b'" "param_buffer b'" "contents b' = contents v"
proof -
  have v: "unat (getBuffLength v) \<le> length (m_data v)" "ser_wf v"
    using assms(2) by (simp_all add: getBuffLength_def param_buffer_def ser_wf_def)
  obtain b' where "setBuff b (Some (m_data v)) (getBuffLength v) = Some (FW_SERIALIZE_OK, b')" "ser_wf b'"
    "contents b' = contents v" "length (m_data b') = length (m_data b)"
    using setBuff_ok [of b "getBuffLength v" "m_data v"] assms v
    by (auto simp: param_buffer_def contents_def getBuffLength_def)
  moreover from this(1) have "\<not> m_null b'"
    using assms(1) by (auto simp: setBuff_def param_buffer_def split: if_splits bind_splits)
  ultimately show thesis
    using assms that [of b'] by (simp add: ParamBuffer_assign_def param_buffer_def)
qed

text \<open>The used entries come first; the content is what they hold.\<close>

definition prm_view :: "t_dbStruct list \<Rightarrow> (U32 \<times> U8 list) list" where
  "prm_view db = map (\<lambda>e. (pe_id e, contents (pe_val e))) (filter pe_used db)"

definition table_ok :: "t_dbStruct list \<Rightarrow> bool" where
  "table_ok db \<longleftrightarrow> length db = PRMDB_NUM_DB_ENTRIES \<and> (\<forall>e \<in> set db. param_buffer (pe_val e)) \<and>
     (\<forall>e \<in> set (dropWhile pe_used db). \<not> pe_used e)"

definition prm_inv :: "'k PrmDb \<Rightarrow> bool" where
  "prm_inv d \<longleftrightarrow> table_ok (pd_db d) \<and> distinct (map fst (prm_view (pd_db d)))"

lemma table_split:
  assumes "table_ok db"
  obtains us fs where "db = us @ fs" "\<forall>e \<in> set us. pe_used e" "\<forall>e \<in> set fs. \<not> pe_used e"
    "prm_view db = map (\<lambda>e. (pe_id e, contents (pe_val e))) us" "length us + length fs = PRMDB_NUM_DB_ENTRIES"
    "\<forall>e \<in> set us \<union> set fs. param_buffer (pe_val e)"
proof (rule that)
  let ?us = "takeWhile pe_used db" and ?fs = "dropWhile pe_used db"
  show db: "db = ?us @ ?fs" by simp
  show us: "\<forall>e \<in> set ?us. pe_used e" by (auto dest: set_takeWhileD)
  show fs: "\<forall>e \<in> set ?fs. \<not> pe_used e" using assms by (simp add: table_ok_def)
  have "filter pe_used (?us @ ?fs) = ?us" using us fs by (simp del: takeWhile_dropWhile_id)
  then have "filter pe_used db = ?us" unfolding db [symmetric] .
  then show "prm_view db = map (\<lambda>e. (pe_id e, contents (pe_val e))) ?us" by (simp add: prm_view_def)
  have "length (?us @ ?fs) = PRMDB_NUM_DB_ENTRIES" using assms by (simp only: db [symmetric] table_ok_def)
  then show "length ?us + length ?fs = PRMDB_NUM_DB_ENTRIES" by (simp only: length_append)
  have "set ?us \<union> set ?fs = set db" by (metis db set_append)
  then show "\<forall>e \<in> set ?us \<union> set ?fs. param_buffer (pe_val e)" using assms unfolding table_ok_def by blast
qed

lemma table_join:
  assumes "\<forall>e \<in> set us. pe_used e" "\<forall>e \<in> set fs. \<not> pe_used e" "length us + length fs = PRMDB_NUM_DB_ENTRIES"
    "\<forall>e \<in> set us \<union> set fs. param_buffer (pe_val e)"
  shows "table_ok (us @ fs)" "prm_view (us @ fs) = map (\<lambda>e. (pe_id e, contents (pe_val e))) us"
proof -
  have "dropWhile pe_used fs = fs" using assms(2) by (cases fs) auto
  then have "dropWhile pe_used (us @ fs) = fs" using assms(1) by simp
  then show "table_ok (us @ fs)" using assms by (auto simp: table_ok_def)
  show "prm_view (us @ fs) = map (\<lambda>e. (pe_id e, contents (pe_val e))) us"
    using assms(1,2) by (simp add: prm_view_def)
qed

lemma first_index_append:
  "first_index P (xs @ ys) = (case first_index P xs of Some i \<Rightarrow> Some i | None \<Rightarrow> map_option ((+) (length xs)) (first_index P ys))"
  by (induction xs; cases "first_index P ys") (auto split: option.splits)

lemma find_id:
  assumes "\<forall>e \<in> set us. pe_used e" "\<forall>e \<in> set fs. \<not> pe_used e"
  shows "first_index (\<lambda>e. pe_used e \<and> pe_id e = i) (us @ fs) = first_index (\<lambda>e. pe_used e \<and> pe_id e = i) us"
proof -
  have "first_index (\<lambda>e. pe_used e \<and> pe_id e = i) fs = None" using assms(2) by (auto simp: first_index_None)
  then show ?thesis by (simp add: first_index_append split: option.split)
qed

lemma find_free:
  assumes "\<forall>e \<in> set us. pe_used e" "\<forall>e \<in> set fs. \<not> pe_used e"
  shows "first_index (\<lambda>e. \<not> pe_used e) (us @ fs) = (if fs = [] then None else Some (length us))"
proof -
  have "first_index (\<lambda>e. \<not> pe_used e) us = None" using assms(1) by (auto simp: first_index_None)
  then show ?thesis using assms(2) by (cases fs) (simp_all add: first_index_append)
qed

text \<open>A store that finds no room reports it: it counts as failed.\<close>

definition prm_store :: "U32 \<Rightarrow> ser_buf \<Rightarrow> 'k PrmDb \<Rightarrow> 'k PrmDb option" where
  "prm_store i w d = do {
     d' \<leftarrow> setPrm_handler i w d;
     if last (pd_outs d') = PrmDbFull i then None else Some d'
   }"

lemma store_known:
  assumes "prm_inv d" "param_buffer w" "i \<in> fst ` set (prm_view (pd_db d))"
  shows "\<exists>d'. setPrm_handler i w d = Some (prm_out (PrmIdUpdated i) d') \<and> prm_inv d' \<and>
    prm_view (pd_db d') = AList.update i (contents w) (prm_view (pd_db d)) \<and> pd_outs d' = pd_outs d"
proof -
  have ok: "table_ok (pd_db d)" and dist: "distinct (map fst (prm_view (pd_db d)))" using assms(1) by (simp_all add: prm_inv_def)
  obtain us fs where s: "pd_db d = us @ fs" "\<forall>e \<in> set us. pe_used e" "\<forall>e \<in> set fs. \<not> pe_used e"
    "prm_view (pd_db d) = map (\<lambda>e. (pe_id e, contents (pe_val e))) us" "length us + length fs = PRMDB_NUM_DB_ENTRIES"
    "\<forall>e \<in> set us \<union> set fs. param_buffer (pe_val e)" by (rule table_split [OF ok])
  have "first_index (\<lambda>e. pe_used e \<and> pe_id e = i) us \<noteq> None"
    using assms(3) s(2,4) by (auto simp: first_index_None)
  then obtain n where n: "first_index (\<lambda>e. pe_used e \<and> pe_id e = i) us = Some n" by blast
  have nu: "n < length us" "pe_id (us ! n) = i" "pe_used (us ! n)" using first_index_Some [OF n] by auto
  have "param_buffer (pe_val (us ! n))" using s(6) nu(1) by auto
  then obtain v where v: "ParamBuffer_assign (pe_val (us ! n)) w = Some v" "param_buffer v" "contents v = contents w"
    by (rule param_assign_ok [OF _ assms(2)])
  let ?us = "us[n := (us ! n)\<lparr>pe_val := v\<rparr>]" and ?d = "d\<lparr>pd_db := us[n := (us ! n)\<lparr>pe_val := v\<rparr>] @ fs\<rparr>"
  have f: "first_index (\<lambda>e. pe_used e \<and> i = pe_id e) (pd_db d) = Some n"
    using find_id [OF s(2,3), of i] n s(1) by (simp add: eq_commute)
  have set: "setPrm_handler i w d = Some (prm_out (PrmIdUpdated i) ?d)"
    using v(1) nu(1) unfolding setPrm_handler_def f by (simp add: s(1) nth_append list_update_append)
  have us: "\<forall>e \<in> set ?us. pe_used e" "\<forall>e \<in> set ?us \<union> set fs. param_buffer (pe_val e)"
    using s(2,6) nu v(2) set_update_subset_insert [of us n "(us ! n)\<lparr>pe_val := v\<rparr>"] by auto
  have len: "length ?us + length fs = PRMDB_NUM_DB_ENTRIES" using s(5) by simp
  have view: "prm_view (?us @ fs) = AList.update i (contents w) (prm_view (pd_db d))"
    using update_nth [of "prm_view (pd_db d)" n i "contents w"] dist nu v(3)
    by (simp add: table_join(2) [OF us(1) s(3) len us(2)] s(4) map_update)
  then have "distinct (map fst (prm_view (?us @ fs)))" using dist by (simp add: distinct_update)
  with set view table_join(1) [OF us(1) s(3) len us(2)] show ?thesis
    by (intro exI [of _ ?d]) (simp add: prm_inv_def)
qed

lemma store_new:
  assumes "prm_inv d" "param_buffer w" "i \<notin> fst ` set (prm_view (pd_db d))"
  shows "if length (prm_view (pd_db d)) < PRMDB_NUM_DB_ENTRIES
    then \<exists>d'. setPrm_handler i w d = Some (prm_out (PrmIdAdded i) d') \<and> prm_inv d' \<and>
      prm_view (pd_db d') = AList.update i (contents w) (prm_view (pd_db d)) \<and> pd_outs d' = pd_outs d
    else setPrm_handler i w d = Some (prm_out (PrmDbFull i) d)"
proof -
  have ok: "table_ok (pd_db d)" and dist: "distinct (map fst (prm_view (pd_db d)))" using assms(1) by (simp_all add: prm_inv_def)
  obtain us fs where s: "pd_db d = us @ fs" "\<forall>e \<in> set us. pe_used e" "\<forall>e \<in> set fs. \<not> pe_used e"
    "prm_view (pd_db d) = map (\<lambda>e. (pe_id e, contents (pe_val e))) us" "length us + length fs = PRMDB_NUM_DB_ENTRIES"
    "\<forall>e \<in> set us \<union> set fs. param_buffer (pe_val e)" by (rule table_split [OF ok])
  have "first_index (\<lambda>e. pe_used e \<and> pe_id e = i) us = None" using assms(3) s(4) by (force simp: first_index_None)
  then have f: "first_index (\<lambda>e. pe_used e \<and> i = pe_id e) (pd_db d) = None"
    using find_id [OF s(2,3), of i] s(1) by (simp add: eq_commute)
  show ?thesis
  proof (cases fs)
    case Nil
    then show ?thesis using s f find_free [OF s(2,3)] by (simp add: setPrm_handler_def)
  next
    case (Cons e fs')
    have "param_buffer (pe_val e)" using s(6) Cons by simp
    then obtain v where v: "ParamBuffer_assign (pe_val e) w = Some v" "param_buffer v" "contents v = contents w"
      by (rule param_assign_ok [OF _ assms(2)])
    let ?us = "us @ [\<lparr>pe_used = True, pe_id = i, pe_val = v\<rparr>]"
    have set: "setPrm_handler i w d = Some (prm_out (PrmIdAdded i) (d\<lparr>pd_db := ?us @ fs'\<rparr>))"
      using v(1) find_free [OF s(2,3)] unfolding setPrm_handler_def f by (simp add: s(1) Cons nth_append)
    have us: "\<forall>e \<in> set ?us. pe_used e" "\<forall>e \<in> set fs'. \<not> pe_used e" "length ?us + length fs' = PRMDB_NUM_DB_ENTRIES"
      "\<forall>e \<in> set ?us \<union> set fs'. param_buffer (pe_val e)"
      using s(2,3,5,6) v(2) Cons by auto
    have view: "prm_view (?us @ fs') = AList.update i (contents w) (prm_view (pd_db d))"
      using update_new [OF assms(3), of "contents w"] v(3) unfolding table_join(2) [OF us] s(4) by simp
    then have "distinct (map fst (prm_view (?us @ fs')))" using dist by (simp add: distinct_update)
    with set view table_join(1) [OF us] have "\<exists>d'. setPrm_handler i w d = Some (prm_out (PrmIdAdded i) d') \<and> prm_inv d' \<and>
        prm_view (pd_db d') = AList.update i (contents w) (prm_view (pd_db d)) \<and> pd_outs d' = pd_outs d"
      by (intro exI [of _ "d\<lparr>pd_db := ?us @ fs'\<rparr>"]) (simp add: prm_inv_def)
    moreover have "length (prm_view (pd_db d)) < PRMDB_NUM_DB_ENTRIES" using s(4,5) Cons by simp
    ultimately show ?thesis by simp
  qed
qed


lemma prm_view_bounds:
  assumes "prm_inv d"
  shows "length (prm_view (pd_db d)) \<le> PRMDB_NUM_DB_ENTRIES" "w \<in> snd ` set (prm_view (pd_db d)) \<Longrightarrow> length w \<le> 120"
proof -
  have ok: "table_ok (pd_db d)" using assms(1) by (simp add: prm_inv_def)
  obtain us fs where s: "pd_db d = us @ fs" "\<forall>e \<in> set us. pe_used e" "\<forall>e \<in> set fs. \<not> pe_used e"
    "prm_view (pd_db d) = map (\<lambda>e. (pe_id e, contents (pe_val e))) us" "length us + length fs = PRMDB_NUM_DB_ENTRIES"
    "\<forall>e \<in> set us \<union> set fs. param_buffer (pe_val e)" by (rule table_split [OF ok])
  then show "length (prm_view (pd_db d)) \<le> PRMDB_NUM_DB_ENTRIES" by simp
  have "length (contents b) \<le> 120" if "param_buffer b" for b using that by (auto simp: param_buffer_def contents_def)
  with s show "w \<in> snd ` set (prm_view (pd_db d)) \<Longrightarrow> length w \<le> 120" by auto
qed

interpretation prm: latest_values prm_store param_buffer contents "\<lambda>d. prm_view (pd_db d)" prm_inv PRMDB_NUM_DB_ENTRIES
proof unfold_locales
  fix d assume d: "prm_inv d"
  then show "distinct (map fst (prm_view (pd_db d)))" by (simp add: prm_inv_def)
  show "length (prm_view (pd_db d)) \<le> PRMDB_NUM_DB_ENTRIES" using d by (rule prm_view_bounds)
  fix w i assume w: "param_buffer w"
  { assume "i \<in> fst ` set (prm_view (pd_db d)) \<or> length (prm_view (pd_db d)) < PRMDB_NUM_DB_ENTRIES"
    then obtain o' d' where "setPrm_handler i w d = Some (prm_out o' d')" "o' \<noteq> PrmDbFull i" "prm_inv d'"
      "prm_view (pd_db d') = AList.update i (contents w) (prm_view (pd_db d))"
      using store_known [OF d w, of i] store_new [OF d w, of i] by (cases "i \<in> fst ` set (prm_view (pd_db d))") auto
    then show "\<exists>d'. prm_store i w d = Some d' \<and> prm_inv d' \<and> prm_view (pd_db d') = AList.update i (contents w) (prm_view (pd_db d))"
      by (intro exI [of _ "prm_out o' d'"]) (simp add: prm_store_def prm_out_def prm_inv_def) }
  { assume "i \<notin> fst ` set (prm_view (pd_db d))" "length (prm_view (pd_db d)) = PRMDB_NUM_DB_ENTRIES"
    then show "prm_store i w d = None"
      using store_new [OF d w, of i] by (simp add: prm_store_def prm_out_def) }
qed

text \<open>What a reader of a parameter gets: the value, when the status is VALID.\<close>

definition prm_read :: "U32 \<Rightarrow> ser_buf \<Rightarrow> 'k PrmDb \<Rightarrow> U8 list option" where
  "prm_read i b d = (case getPrm_handler i b d of
     Some (stat, v, d) \<Rightarrow> if stat = Prm_VALID then Some (contents v) else None | None \<Rightarrow> None)"

lemma prm_read_view:
  assumes "prm_inv d" "param_buffer b"
  shows "prm_read i b d = map_of (prm_view (pd_db d)) i"
proof -
  have ok: "table_ok (pd_db d)" and dist: "distinct (map fst (prm_view (pd_db d)))" using assms(1) by (simp_all add: prm_inv_def)
  obtain us fs where s: "pd_db d = us @ fs" "\<forall>e \<in> set us. pe_used e" "\<forall>e \<in> set fs. \<not> pe_used e"
    "prm_view (pd_db d) = map (\<lambda>e. (pe_id e, contents (pe_val e))) us" "length us + length fs = PRMDB_NUM_DB_ENTRIES"
    "\<forall>e \<in> set us \<union> set fs. param_buffer (pe_val e)" by (rule table_split [OF ok])
  show ?thesis
  proof (cases "first_index (\<lambda>e. pe_used e \<and> pe_id e = i) us")
    case None
    then have "map_of (prm_view (pd_db d)) i = None"
      using s(2,4) by (force simp: first_index_None map_of_eq_None_iff)
    then show ?thesis using None find_id [OF s(2,3), of i] by (simp add: prm_read_def getPrm_handler_def s(1))
  next
    case (Some n)
    have nu: "n < length us" "pe_id (us ! n) = i" using first_index_Some [OF Some] by auto
    have "param_buffer (pe_val (us ! n))" using s(6) nu(1) by auto
    then obtain v where v: "ParamBuffer_assign b (pe_val (us ! n)) = Some v" "contents v = contents (pe_val (us ! n))"
      by (rule param_assign_ok [OF assms(2)])
    have "(i, contents (pe_val (us ! n))) \<in> set (prm_view (pd_db d))" using nu s(4) by force
    then have "map_of (prm_view (pd_db d)) i = Some (contents (pe_val (us ! n)))" using dist by simp
    then show ?thesis
      using v nu(1) Some find_id [OF s(2,3), of i] by (simp add: prm_read_def getPrm_handler_def s(1) nth_append)
  qed
qed

lemma prm_inv_new:
  assumes "length u = PRMDB_NUM_DB_ENTRIES"
  shows "prm_inv (PrmDb_new u fn k)" "prm_view (pd_db (PrmDb_new u fn k)) = []"
proof -
  let ?db = "pd_db (PrmDb_new u fn k)"
  have un: "\<forall>e \<in> set ?db. \<not> pe_used e" by (auto simp: PrmDb_new_def clearDb_def)
  have ok: "table_ok ([] @ ?db)" and v: "prm_view ([] @ ?db) = []"
    using table_join [of "[]" ?db] un assms by (auto simp: PrmDb_new_def clearDb_def split_def)
  then show "prm_inv (PrmDb_new u fn k)" "prm_view ?db = []" by (simp_all add: prm_inv_def)
qed

lemma set_all:
  "store_all prm_store kws d = Some d' \<Longrightarrow> store_all setPrm_handler kws d = Some d'"
  by (induction kws arbitrary: d) (auto simp: prm_store_def split: bind_splits if_splits)

section \<open>The file\<close>

definition prm_record :: "U32 \<times> U8 list \<Rightarrow> U8 list" where
  "prm_record = (\<lambda>(i, v). PRMDB_ENTRY_DELIMITER # bytes_of_U32 (of_nat (4 + length v)) @ bytes_of_U32 i @ v)"

definition prm_image :: "(U32 \<times> U8 list) list \<Rightarrow> U8 list" where
  "prm_image al = concat (map prm_record al)"

lemma prm_image_simps [simp]: "prm_image [] = []" "prm_image (p # al) = prm_record p @ prm_image al"
  "prm_image (al @ bl) = prm_image al @ prm_image bl"
  by (simp_all add: prm_image_def)

definition working :: "ser_buf \<Rightarrow> bool" where
  "working b \<longleftrightarrow> ser_wf b \<and> length (m_data b) = 124 \<and> \<not> m_null b"

lemma working_new: "working (WorkingBuffer_new store)"
  by (auto simp: working_def WorkingBuffer_new_def SerializeBufferBase_new_def ser_wf_def min_def)

lemma working_U32:
  assumes "working b"
  obtains b' where "serialize_U32 (resetSer b) v = Some (FW_SERIALIZE_OK, b')" "working b'"
    "take 4 (m_data b') = bytes_of_U32 v" "getBuffLength b' = 4"
proof (rule that)
  have wf: "ser_wf (resetSer b)" and room: "4 \<le> room (resetSer b)" and c: "contents (resetSer b) = []"
    using assms by (simp_all add: working_def resetSer_def ser_wf_def room_def contents_def)
  let ?b' = "append_to (resetSer b) (bytes_of_U32 v)"
  show "serialize_U32 (resetSer b) v = Some (FW_SERIALIZE_OK, ?b')" using wf room by (simp add: u32.put_ok)
  have "ser_wf ?b'" using wf room by (simp add: append_to_wf)
  then show "working ?b'" using assms by (simp add: working_def append_to_def resetSer_def)
  show l: "getBuffLength ?b' = 4" by (simp add: getBuffLength_def append_to_def resetSer_def)
  then have "contents ?b' = take 4 (m_data ?b')" by (simp add: contents_def getBuffLength_def)
  then show "take 4 (m_data ?b') = bytes_of_U32 v" using wf room c by (simp add: append_to_contents)
qed

lemma prm_write_rd:
  assumes "regular_disk C files fds" "fds k (m_fd f) = Some (name, pos)" "files k name = Some c" "m_mode f \<noteq> OPEN_NO_MODE"
    and "bs = take (nat sz) data" "length bs = nat sz" "0 < sz" "sz < 1073741824"
  obtains k' where "prm_write C st n data sz sz f k = Some (Inr (), f, k')"
    "files k' = (files k)(name \<mapsto> overwrite pos bs c)" "fds k' (m_fd f) = Some (name, pos + length bs)"
proof -
  have "nat sz \<le> length data" using assms(5,6) by simp
  then obtain k' where "File_write (kc_disk C) k f data sz = Some (OP_OK, sz, f, k')"
    "files k' = (files k)(name \<mapsto> overwrite pos (take (nat sz) data) c)" "fds k' = (fds k)(m_fd f \<mapsto> (name, pos + nat sz))"
    by (rule write_rd [OF assms(1-4,7) _ assms(8)])
  then show thesis using that [of k'] assms(5,6) by (simp add: prm_write_def)
qed

lemma param_length:
  assumes "param_buffer b"
  shows "unat (getBuffLength b) = length (contents b)" "sint (getBuffLength b) = int (length (contents b))"
    "take (length (contents b)) (m_data b) = contents b" "length (contents b) \<le> 120"
proof -
  have wf: "ser_wf b" and sz: "length (m_data b) = 120" using assms by (simp_all add: param_buffer_def)
  show u: "unat (getBuffLength b) = length (contents b)" using wf by (rule unat_getBuffLength)
  show le: "length (contents b) \<le> 120" using sz by (simp add: contents_def)
  show "sint (getBuffLength b) = int (length (contents b))" using u le by (simp add: sint_small)
  show "take (length (contents b)) (m_data b) = contents b" using u by (simp add: contents_def getBuffLength_def)
qed

text \<open>A record is written in four pieces; together they replace what was at the position.\<close>

lemma prm_save_entry_rd:
  assumes "regular_disk C files fds" "fds k (m_fd f) = Some (name, pos)" "files k name = Some c" "m_mode f \<noteq> OPEN_NO_MODE"
    and "param_buffer (pe_val e)" "contents (pe_val e) \<noteq> []" "working buff" "r = prm_record (pe_id e, contents (pe_val e))"
  obtains buff' k' where "prm_save_entry C e n buff f k = Some (Inr (), buff', f, k')" "working buff'"
    "files k' = (files k)(name \<mapsto> overwrite pos r c)" "fds k' (m_fd f) = Some (name, pos + length r)"
proof -
  let ?v = "contents (pe_val e)"
  note len = param_length [OF assms(5)]
  obtain k1 where k1: "prm_write C (PrmWrite_DELIMITER, PrmWrite_DELIMITER_SIZE) n [PRMDB_ENTRY_DELIMITER] 1 1 f k = Some (Inr (), f, k1)"
    "files k1 = (files k)(name \<mapsto> overwrite pos [PRMDB_ENTRY_DELIMITER] c)" "fds k1 (m_fd f) = Some (name, pos + length [PRMDB_ENTRY_DELIMITER])"
    by (rule prm_write_rd [OF assms(1-4), of "[PRMDB_ENTRY_DELIMITER]" 1 "[PRMDB_ENTRY_DELIMITER]"]) simp_all
  let ?sz = "4 + getBuffLength (pe_val e)"
  have sz: "?sz = of_nat (4 + length ?v)" using len(1) by (metis of_nat_add of_nat_numeral word_eq_of_unat)
  obtain b2 where b2: "serialize_U32 (resetSer buff) ?sz = Some (FW_SERIALIZE_OK, b2)" "working b2"
    "take 4 (m_data b2) = bytes_of_U32 ?sz" "getBuffLength b2 = 4"
    by (rule working_U32 [OF assms(7)])
  let ?c1 = "overwrite pos [PRMDB_ENTRY_DELIMITER] c"
  have f1: "files k1 name = Some ?c1" using k1(2) by simp
  obtain k2 where k2: "prm_write C (PrmWrite_RECORD_SIZE, PrmWrite_RECORD_SIZE_SIZE) n (m_data b2) 4 4 f k1 = Some (Inr (), f, k2)"
    "files k2 = (files k1)(name \<mapsto> overwrite (pos + length [PRMDB_ENTRY_DELIMITER]) (bytes_of_U32 ?sz) ?c1)"
    "fds k2 (m_fd f) = Some (name, pos + length [PRMDB_ENTRY_DELIMITER] + length (bytes_of_U32 ?sz))"
    by (rule prm_write_rd [OF assms(1) k1(3) f1 assms(4), of "bytes_of_U32 ?sz" 4 "m_data b2"]) (use b2(3) in simp_all)
  obtain b3 where b3: "serialize_U32 (resetSer b2) (pe_id e) = Some (FW_SERIALIZE_OK, b3)" "working b3"
    "take 4 (m_data b3) = bytes_of_U32 (pe_id e)" "getBuffLength b3 = 4"
    by (rule working_U32 [OF b2(2)])
  let ?h2 = "PRMDB_ENTRY_DELIMITER # bytes_of_U32 ?sz"
  have f2: "files k2 name = Some (overwrite pos ?h2 c)" "fds k2 (m_fd f) = Some (name, pos + length ?h2)"
    using k2(2,3) overwrite_append [of pos "[PRMDB_ENTRY_DELIMITER]" "bytes_of_U32 ?sz" c] by simp_all
  obtain k3 where k3: "prm_write C (PrmWrite_PARAMETER_ID, PrmWrite_PARAMETER_ID_SIZE) n (m_data b3) 4 4 f k2 = Some (Inr (), f, k3)"
    "files k3 = (files k2)(name \<mapsto> overwrite (pos + length ?h2) (bytes_of_U32 (pe_id e)) (overwrite pos ?h2 c))"
    "fds k3 (m_fd f) = Some (name, pos + length ?h2 + length (bytes_of_U32 (pe_id e)))"
    by (rule prm_write_rd [OF assms(1) f2(2,1) assms(4), of "bytes_of_U32 (pe_id e)" 4 "m_data b3"]) (use b3(3) in simp_all)
  let ?h3 = "?h2 @ bytes_of_U32 (pe_id e)"
  have f3: "files k3 name = Some (overwrite pos ?h3 c)" "fds k3 (m_fd f) = Some (name, pos + length ?h3)"
    using k3(2,3) overwrite_append [of pos ?h2 "bytes_of_U32 (pe_id e)" c] by simp_all
  obtain k4 where k4: "prm_write C (PrmWrite_PARAMETER_VALUE, PrmWrite_PARAMETER_VALUE_SIZE) n (m_data (pe_val e)) (int (length ?v)) (int (length ?v)) f k3 = Some (Inr (), f, k4)"
    "files k4 = (files k3)(name \<mapsto> overwrite (pos + length ?h3) ?v (overwrite pos ?h3 c))"
    "fds k4 (m_fd f) = Some (name, pos + length ?h3 + length ?v)"
    by (rule prm_write_rd [OF assms(1) f3(2,1) assms(4), of ?v "int (length ?v)" "m_data (pe_val e)"]) (use len assms(6) in simp_all)
  have r: "r = ?h3 @ ?v" using sz by (simp add: assms(8) prm_record_def)
  show thesis
  proof (rule that [of b3 k4])
    show "prm_save_entry C e n buff f k = Some (Inr (), b3, f, k4)"
      using k1(1) b2(1,4) k2(1) b3(1,4) k3(1) k4(1) len(2) by (simp add: prm_save_entry_def)
    show "files k4 = (files k)(name \<mapsto> overwrite pos r c)"
      unfolding k4(2) k3(2) k2(2) k1(2) r overwrite_append by simp
    show "fds k4 (m_fd f) = Some (name, pos + length r)" using k4(3) by (simp add: r)
  qed (fact b3(2))
qed

lemma prm_save_loop_rd:
  assumes "regular_disk C files fds" "fds k (m_fd f) = Some (name, pos)" "files k name = Some c" "m_mode f \<noteq> OPEN_NO_MODE"
    and "\<forall>e \<in> set db. param_buffer (pe_val e)" "[] \<notin> snd ` set (prm_view db)" "working buff" "pos \<le> length c"
  shows "\<exists>k'. prm_save_loop C db n buff f k = Some (Inr (n + of_nat (length (prm_view db))), f, k') \<and>
    files k' = (files k)(name \<mapsto> overwrite pos (prm_image (prm_view db)) c)"
  using assms(2,3,5-)
proof (induction db arbitrary: k pos c n buff)
  case Nil
  then show ?case by (simp add: prm_view_def overwrite_Nil map_upd_triv)
next
  case (Cons e db)
  show ?case
  proof (cases "pe_used e")
    case False
    then have "prm_view (e # db) = prm_view db" by (simp add: prm_view_def)
    then show ?thesis using Cons False by simp
  next
    case True
    let ?r = "prm_record (pe_id e, contents (pe_val e))"
    have v: "prm_view (e # db) = (pe_id e, contents (pe_val e)) # prm_view db" using True by (simp add: prm_view_def)
    have e: "param_buffer (pe_val e)" "contents (pe_val e) \<noteq> []" using Cons.prems(3,4) by (auto simp: v)
    obtain buff' k' where k': "prm_save_entry C e n buff f k = Some (Inr (), buff', f, k')" "working buff'"
      "files k' = (files k)(name \<mapsto> overwrite pos ?r c)" "fds k' (m_fd f) = Some (name, pos + length ?r)"
      by (rule prm_save_entry_rd [OF assms(1) Cons.prems(1,2) assms(4) e Cons.prems(5) refl])
    have "\<exists>k2. prm_save_loop C db (n + 1) buff' f k' = Some (Inr (n + 1 + of_nat (length (prm_view db))), f, k2) \<and>
        files k2 = (files k')(name \<mapsto> overwrite (pos + length ?r) (prm_image (prm_view db)) (overwrite pos ?r c))"
      by (rule Cons.IH) (use k' Cons.prems(3,4) v in \<open>simp_all add: length_overwrite\<close>)
    then show ?thesis using True k'(1,3) by (auto simp: v overwrite_append add.assoc)
  qed
qed

lemma prm_read_U32_rd:
  assumes "regular_disk C files fds" "fds k (m_fd f) = Some (name, pos)" "files k name = Some c" "m_mode f \<noteq> OPEN_NO_MODE"
    and "working buff" "drop pos c = bytes_of_U32 v @ rest"
  obtains buff' k' where "prm_read_U32 C st n buff f k = Some (Inr v, buff', f, k')" "working buff'"
    "files k' = files k" "fds k' (m_fd f) = Some (name, pos + 4)"
proof -
  have bs: "bytes_of_U32 v = take (nat 4) (drop pos c)" using assms(6) by simp
  obtain k' where k': "File_read_disk C k f 4 True = Some (OP_OK, bytes_of_U32 v, int (length (bytes_of_U32 v)), f, k')"
    "files k' = files k" "fds k' = (fds k)(m_fd f \<mapsto> (name, pos + length (bytes_of_U32 v)))"
    by (rule read_rd [OF assms(1-4) _ bs]) simp_all
  have len: "length (m_data buff) = 124" "\<not> m_null buff" using assms(5) by (simp_all add: working_def)
  let ?d = "bytes_of_U32 v @ drop 4 (m_data buff)"
  let ?b = "buff\<lparr>m_data := ?d, m_serLoc := 4, m_deserLoc := 0\<rparr>"
  have w: "write_at (m_data buff) 0 (bytes_of_U32 v) = Some ?d" using len by (simp add: write_at_def)
  have s: "setBuffLen (buff\<lparr>m_data := ?d\<rparr>) 4 = (FW_SERIALIZE_OK, ?b)"
    using len by (simp add: setBuffLen_def getBuffCapacity_def)
  have wf: "ser_wf ?b" and u: "unread ?b = bytes_of_U32 v @ []"
    using len by (simp_all add: ser_wf_def unread_def contents_def)
  have g: "deserialize_U32 ?b = Some (Inr v, consume ?b 4)" using u32.get_ok [OF wf u] by simp
  have "prm_read_U32 C st n buff f k = Some (Inr v, consume ?b 4, f, k')"
    using k'(1) w s g by (simp add: prm_read_U32_def resetDeser_def)
  moreover have "working (consume ?b 4)"
    using consume_wf [OF wf, of 4] u len by (simp add: working_def)
  ultimately show thesis using that k'(2,3) by simp
qed

lemma entry_all: "e\<lparr>pe_used := u, pe_id := i, pe_val := v\<rparr> = \<lparr>pe_used = u, pe_id = i, pe_val = v\<rparr>"
  by (cases e) simp

text \<open>A record at the position of the file goes to the entry.\<close>

lemma prm_load_value_rd:
  assumes "regular_disk C files fds" "fds k (m_fd f) = Some (name, pos)" "files k name = Some c" "m_mode f \<noteq> OPEN_NO_MODE"
    and "entry < length db" "param_buffer (pe_val (db ! entry))" "drop pos c = v @ rest" "v \<noteq> []" "length v \<le> 120"
    and "sz = of_nat (4 + length v)"
  obtains w k' where "prm_load_value C entry sz i n db f k =
      Some (Load_next, db[entry := \<lparr>pe_used = True, pe_id = i, pe_val = w\<rparr>], f, k')" "param_buffer w" "contents w = v"
    "files k' = files k" "fds k' (m_fd f) = Some (name, pos + length v)"
proof -
  have sz: "sz - 4 = of_nat (length v)" by (simp add: assms(10))
  then have ssz: "sint (sz - 4) = int (length v)" using assms(9) by (simp add: sint_small unat_of_nat32)
  have bs: "v = take (nat (int (length v))) (drop pos c)" using assms(7) by simp
  have pos: "0 < int (length v)" and small: "int (length v) < 1073741824" using assms(8,9) by simp_all
  obtain k' where k': "File_read_disk C k f (int (length v)) True = Some (OP_OK, v, int (length v), f, k')"
    "files k' = files k" "fds k' = (fds k)(m_fd f \<mapsto> (name, pos + length v))"
    by (rule read_rd [OF assms(1-4) pos bs small])
  let ?b = "pe_val (db ! entry)"
  have len: "length (m_data ?b) = 120" "\<not> m_null ?b" using assms(6) by (simp_all add: param_buffer_def)
  let ?d = "v @ drop (length v) (m_data ?b)"
  let ?w = "?b\<lparr>m_data := ?d, m_serLoc := of_nat (length v), m_deserLoc := 0\<rparr>"
  have w: "write_at (m_data ?b) 0 v = Some ?d" using len assms(9) by (simp add: write_at_def)
  have u: "unat (of_nat (length v) :: U32) = length v" using assms(9) by (simp add: unat_of_nat32)
  have "\<not> getBuffCapacity (?b\<lparr>m_data := ?d\<rparr>) < of_nat (length v)"
    using len u assms(9) by (simp add: getBuffCapacity_def word_less_nat_alt unat_of_nat32)
  then have s: "setBuffLen (?b\<lparr>m_data := ?d\<rparr>) (of_nat (length v)) = (FW_SERIALIZE_OK, ?w)"
    by (simp add: setBuffLen_def)
  have "prm_load_value C entry sz i n db f k = Some (Load_next, db[entry := \<lparr>pe_used = True, pe_id = i, pe_val = ?w\<rparr>], f, k')"
    using k'(1) w s sz ssz by (simp add: prm_load_value_def entry_all)
  moreover have "param_buffer ?w" "contents ?w = v"
    using len u assms(9) by (simp_all add: param_buffer_def ser_wf_def contents_def)
  ultimately show thesis using that k'(2,3) by simp
qed

lemma prm_load_entry_rd:
  assumes "regular_disk C files fds" "fds k (m_fd f) = Some (name, pos)" "files k name = Some c" "m_mode f \<noteq> OPEN_NO_MODE"
    and "entry < length db" "param_buffer (pe_val (db ! entry))" "drop pos c = prm_record (i, v) @ rest" "v \<noteq> []" "length v \<le> 120"
    and "working buff"
  obtains w buff' k' where "prm_load_entry C entry n db buff f k =
      Some (Load_next, db[entry := \<lparr>pe_used = True, pe_id = i, pe_val = w\<rparr>], buff', f, k')" "param_buffer w" "contents w = v"
    "working buff'" "files k' = files k" "fds k' (m_fd f) = Some (name, pos + length (prm_record (i, v)))"
proof -
  let ?sz = "of_nat (4 + length v) :: U32"
  have d: "drop pos c = [PRMDB_ENTRY_DELIMITER] @ bytes_of_U32 ?sz @ bytes_of_U32 i @ v @ rest"
    using assms(7) by (simp add: prm_record_def)
  have d1: "drop (pos + 1) c = bytes_of_U32 ?sz @ bytes_of_U32 i @ v @ rest"
    using drop_prefix_add [OF d] by simp
  have d2: "drop (pos + 1 + 4) c = bytes_of_U32 i @ v @ rest" using drop_prefix_add [OF d1] by simp
  have d3: "drop (pos + 1 + 4 + 4) c = v @ rest" using drop_prefix_add [OF d2] by simp
  have bs: "[PRMDB_ENTRY_DELIMITER] = take (nat 1) (drop pos c)" using d by simp
  obtain k1 where k1: "File_read_disk C k f 1 True = Some (OP_OK, [PRMDB_ENTRY_DELIMITER], int (length [PRMDB_ENTRY_DELIMITER]), f, k1)"
    "files k1 = files k" "fds k1 = (fds k)(m_fd f \<mapsto> (name, pos + length [PRMDB_ENTRY_DELIMITER]))"
    by (rule read_rd [OF assms(1-4) _ bs]) simp_all
  have f1: "files k1 name = Some c" "fds k1 (m_fd f) = Some (name, pos + 1)" using k1(2,3) assms(3) by simp_all
  obtain b2 k2 where k2: "prm_read_U32 C (PrmRead_RECORD_SIZE, PrmRead_RECORD_SIZE_SIZE) n buff f k1 = Some (Inr ?sz, b2, f, k2)" "working b2"
    "files k2 = files k1" "fds k2 (m_fd f) = Some (name, pos + 1 + 4)"
    by (rule prm_read_U32_rd [OF assms(1) f1(2,1) assms(4,10) d1])
  have f2: "files k2 name = Some c" using k2(3) f1 by simp
  obtain b3 k3 where k3: "prm_read_U32 C (PrmRead_PARAMETER_ID, PrmRead_PARAMETER_ID_SIZE) n b2 f k2 = Some (Inr i, b3, f, k3)" "working b3"
    "files k3 = files k2" "fds k3 (m_fd f) = Some (name, pos + 1 + 4 + 4)"
    by (rule prm_read_U32_rd [OF assms(1) k2(4) f2 assms(4) k2(2) d2])
  have f3: "files k3 name = Some c" using k3(3) f2 by simp
  obtain w k4 where k4: "prm_load_value C entry ?sz i n db f k3 = Some (Load_next, db[entry := \<lparr>pe_used = True, pe_id = i, pe_val = w\<rparr>], f, k4)"
    "param_buffer w" "contents w = v" "files k4 = files k3" "fds k4 (m_fd f) = Some (name, pos + 1 + 4 + 4 + length v)"
    by (rule prm_load_value_rd [OF assms(1) k3(4) f3 assms(4-6) d3 assms(8,9) refl])
  have u: "unat ?sz = 4 + length v" using assms(9) by (simp only: unat_of_nat32)
  have "\<not> (?sz > of_nat FW_PARAM_BUFFER_MAX_SIZE + 4 \<or> ?sz < 4)"
    unfolding word_less_nat_alt u using assms(9) by simp
  then have "prm_load_entry C entry n db buff f k = Some (Load_next, db[entry := \<lparr>pe_used = True, pe_id = i, pe_val = w\<rparr>], b3, f, k4)"
    using k1(1) k2(1) k3(1) k4(1) by (simp add: prm_load_entry_def)
  moreover have "length (prm_record (i, v)) = 1 + 4 + 4 + length v" by (simp add: prm_record_def)
  ultimately show thesis using that k4 k3(2,3) k2(3) k1(2) by (simp add: add.assoc)
qed

lemma prm_load_end_rd:
  assumes "regular_disk C files fds" "fds k (m_fd f) = Some (name, pos)" "files k name = Some c" "m_mode f \<noteq> OPEN_NO_MODE"
    and "drop pos c = []"
  obtains k' where "prm_load_entry C entry n db buff f k = Some (Load_end, db, buff, f, k')" "files k' = files k"
proof -
  have bs: "[] = take (nat 1) (drop pos c)" using assms(5) by simp
  obtain k' where "File_read_disk C k f 1 True = Some (OP_OK, [], int (length ([] :: U8 list)), f, k')" "files k' = files k"
    by (rule read_rd [OF assms(1-4) _ bs]) simp_all
  then show thesis using that by (simp add: prm_load_entry_def)
qed

text \<open>The records at the position fill the free entries in their order.\<close>

lemma prm_load_loop_rd:
  assumes "regular_disk C files fds" "fds k (m_fd f) = Some (name, pos)" "files k name = Some c" "m_mode f \<noteq> OPEN_NO_MODE"
    and "drop pos c = prm_image al" "\<forall>(i, v) \<in> set al. v \<noteq> [] \<and> length v \<le> 120" "working buff"
    and "\<forall>e \<in> set us. pe_used e" "\<forall>e \<in> set fs. \<not> pe_used e" "length us + length fs = PRMDB_NUM_DB_ENTRIES"
      "\<forall>e \<in> set us \<union> set fs. param_buffer (pe_val e)" "length al \<le> length fs"
  shows "\<exists>db k'. prm_load_loop C [length us..<PRMDB_NUM_DB_ENTRIES] n (us @ fs) buff f k =
      Some (PrmFileLoadComplete (n + of_nat (length al)), db, f, k') \<and> files k' = files k \<and> table_ok db \<and>
      prm_view db = prm_view (us @ fs) @ al"
  using assms(2,3,5-)
proof (induction al arbitrary: k pos n buff us fs)
  case Nil
  note ok = table_join [OF Nil.prems(6-9)]
  show ?case
  proof (cases "length us < PRMDB_NUM_DB_ENTRIES")
    case True
    then have "[length us..<PRMDB_NUM_DB_ENTRIES] = length us # [Suc (length us)..<PRMDB_NUM_DB_ENTRIES]" by (rule upt_conv_Cons)
    moreover have "drop pos c = []" using Nil.prems(3) by simp
    then obtain k' where "prm_load_entry C (length us) n (us @ fs) buff f k = Some (Load_end, us @ fs, buff, f, k')" "files k' = files k"
      by (rule prm_load_end_rd [OF assms(1) Nil.prems(1,2) assms(4)])
    ultimately show ?thesis using ok by simp
  next
    case False
    then show ?thesis using ok by simp
  qed
next
  case (Cons p al)
  obtain i v where p: "p = (i, v)" by fastforce
  obtain e fs' where fs: "fs = e # fs'" using Cons.prems(10) by (cases fs) auto
  have lt: "length us < PRMDB_NUM_DB_ENTRIES" using Cons.prems(8) fs by simp
  have es: "[length us..<PRMDB_NUM_DB_ENTRIES] = length us # [Suc (length us)..<PRMDB_NUM_DB_ENTRIES]" using lt by (rule upt_conv_Cons)
  have d: "drop pos c = prm_record (i, v) @ prm_image al" using Cons.prems(3) by (simp add: p)
  have v: "v \<noteq> []" "length v \<le> 120" using Cons.prems(4) by (simp_all add: p)
  have e: "length us < length (us @ fs)" "param_buffer (pe_val ((us @ fs) ! length us))" using Cons.prems(9) by (simp_all add: fs)
  obtain w buff' k' where k': "prm_load_entry C (length us) n (us @ fs) buff f k =
      Some (Load_next, (us @ fs)[length us := \<lparr>pe_used = True, pe_id = i, pe_val = w\<rparr>], buff', f, k')" "param_buffer w" "contents w = v"
    "working buff'" "files k' = files k" "fds k' (m_fd f) = Some (name, pos + length (prm_record (i, v)))"
    by (rule prm_load_entry_rd [OF assms(1) Cons.prems(1,2) assms(4) e d v Cons.prems(5)])
  let ?us = "us @ [\<lparr>pe_used = True, pe_id = i, pe_val = w\<rparr>]"
  have db: "(us @ fs)[length us := \<lparr>pe_used = True, pe_id = i, pe_val = w\<rparr>] = ?us @ fs'" by (simp add: fs)
  have us: "\<forall>e \<in> set ?us. pe_used e" "\<forall>e \<in> set fs'. \<not> pe_used e" "length ?us + length fs' = PRMDB_NUM_DB_ENTRIES"
    "\<forall>e \<in> set ?us \<union> set fs'. param_buffer (pe_val e)"
    using Cons.prems(6-9) k'(2) fs by auto
  have "\<exists>db k2. prm_load_loop C [length ?us..<PRMDB_NUM_DB_ENTRIES] (n + 1) (?us @ fs') buff' f k' =
      Some (PrmFileLoadComplete (n + 1 + of_nat (length al)), db, f, k2) \<and> files k2 = files k' \<and> table_ok db \<and>
      prm_view db = prm_view (?us @ fs') @ al"
  proof (rule Cons.IH [OF k'(6) _ _ _ k'(4) us])
    show "files k' name = Some c" using k'(5) Cons.prems(2) by simp
    show "drop (pos + length (prm_record (i, v))) c = prm_image al" by (rule drop_prefix_add [OF d])
    show "\<forall>(i, v) \<in> set al. v \<noteq> [] \<and> length v \<le> 120" using Cons.prems(4) by simp
    show "length al \<le> length fs'" using Cons.prems(10) fs by simp
  qed
  moreover have "prm_view (?us @ fs') = prm_view (us @ fs) @ [(i, v)]"
    unfolding table_join(2) [OF us] table_join(2) [OF Cons.prems(6-9)] using k'(3) by simp
  ultimately show ?case using k'(1,5) es db p by (auto simp: add.assoc)
qed


text \<open>Saving writes the image over what the file holds; a file that is the image of a list is loaded as that list.\<close>

lemma save_rd:
  assumes "regular_disk C files fds" "prm_inv d" "[] \<notin> snd ` set (prm_view (pd_db d))"
    and "old = content_of (files (pd_disk d)) (pd_fileName d)"
  obtains d' where "PRM_SAVE_FILE_cmdHandler C store opCode cmdSeq d = Some d'"
    "pd_outs d' = pd_outs d @ [PrmFileSaveComplete (of_nat (length (prm_view (pd_db d)))), PrmCmdResponse opCode cmdSeq CmdResponse_OK]"
    "files (pd_disk d') = (files (pd_disk d))(pd_fileName d \<mapsto> overwrite 0 (prm_image (prm_view (pd_db d))) old)"
    "pd_db d' = pd_db d" "pd_fileName d' = pd_fileName d"
proof -
  let ?name = "pd_fileName d" and ?n = "of_nat (length (prm_view (pd_db d))) :: U32"
  obtain fd k1 where k1: "File_open_write (kc_disk C) (pd_disk d) File_new ?name OPEN_WRITE True =
      Some (OP_OK, File_new\<lparr>m_mode := OPEN_WRITE, m_fd := fd, m_pos := 0\<rparr>, k1)" "fd \<noteq> -1" "fds (pd_disk d) fd = None"
    "files k1 = (files (pd_disk d))(?name \<mapsto> old)" "fds k1 = (fds (pd_disk d))(fd \<mapsto> (?name, if False then length old else 0))"
    unfolding assms(4) by (rule open_write_rd [OF assms(1), of OPEN_WRITE False]) simp_all
  let ?f = "File_new\<lparr>m_mode := OPEN_WRITE, m_fd := fd, m_pos := 0\<rparr>"
  have bufs: "\<forall>e \<in> set (pd_db d). param_buffer (pe_val e)" using assms(2) by (simp add: prm_inv_def table_ok_def)
  have "\<exists>k'. prm_save_loop C (pd_db d) 0 (WorkingBuffer_new store) ?f k1 = Some (Inr (0 + ?n), ?f, k') \<and>
      files k' = (files k1)(?name \<mapsto> overwrite 0 (prm_image (prm_view (pd_db d))) old)"
    by (rule prm_save_loop_rd [OF assms(1) _ _ _ bufs assms(3) working_new]) (use k1(4,5) in simp_all)
  then obtain k2 where k2: "prm_save_loop C (pd_db d) 0 (WorkingBuffer_new store) ?f k1 = Some (Inr ?n, ?f, k2)"
    "files k2 = (files k1)(?name \<mapsto> overwrite 0 (prm_image (prm_view (pd_db d))) old)" by auto
  let ?d = "prm_out (PrmCmdResponse opCode cmdSeq CmdResponse_OK) (prm_out (PrmFileSaveComplete ?n)
    (d\<lparr>pd_disk := close_on_return (kc_disk C) ?f k2\<rparr>))"
  have "PRM_SAVE_FILE_cmdHandler C store opCode cmdSeq d = Some ?d"
    by (simp add: PRM_SAVE_FILE_cmdHandler_def k1(1) k2(1))
  then show thesis
    by (rule that) (simp_all add: prm_out_def close_on_return_rd(1) [OF assms(1)] k2(2) k1(4))
qed

lemma load_rd:
  assumes "regular_disk C files fds" "length (pd_db d) = PRMDB_NUM_DB_ENTRIES" "\<forall>e \<in> set (pd_db d). param_buffer (pe_val e)"
    and "files (pd_disk d) (pd_fileName d) = Some (prm_image al)" "\<forall>(i, v) \<in> set al. v \<noteq> [] \<and> length v \<le> 120"
    and "length al \<le> PRMDB_NUM_DB_ENTRIES"
  obtains d' where "readParamFile C store d = Some d'" "pd_outs d' = pd_outs d @ [PrmFileLoadComplete (of_nat (length al))]"
    "table_ok (pd_db d')" "prm_view (pd_db d') = al" "files (pd_disk d') = files (pd_disk d)"
proof -
  let ?name = "pd_fileName d"
  obtain fd k1 where k1: "File_open_write (kc_disk C) (pd_disk d) File_new ?name OPEN_READ True =
      Some (OP_OK, File_new\<lparr>m_mode := OPEN_READ, m_fd := fd, m_pos := 0\<rparr>, k1)" "fd \<noteq> -1" "fds (pd_disk d) fd = None"
    "files k1 = files (pd_disk d)" "fds k1 = (fds (pd_disk d))(fd \<mapsto> (?name, 0))"
    by (rule open_read_rd [OF assms(1,4)])
  let ?f = "File_new\<lparr>m_mode := OPEN_READ, m_fd := fd, m_pos := 0\<rparr>" and ?fs = "clearDb (pd_db d)"
  have fs: "\<forall>e \<in> set ?fs. \<not> pe_used e" "length ([] :: t_dbStruct list) + length ?fs = PRMDB_NUM_DB_ENTRIES"
    "\<forall>e \<in> set [] \<union> set ?fs. param_buffer (pe_val e)" "length al \<le> length ?fs"
    using assms(2,3,6) by (auto simp: clearDb_def)
  have "\<exists>db k'. prm_load_loop C [length ([] :: t_dbStruct list)..<PRMDB_NUM_DB_ENTRIES] 0 ([] @ ?fs) (WorkingBuffer_new store) ?f k1 =
      Some (PrmFileLoadComplete (0 + of_nat (length al)), db, ?f, k') \<and> files k' = files k1 \<and> table_ok db \<and>
      prm_view db = prm_view ([] @ ?fs) @ al"
    by (rule prm_load_loop_rd [OF assms(1) _ _ _ drop_0 assms(5) working_new _ fs]) (use k1(4,5) assms(4) in simp_all)
  moreover have "prm_view ([] @ ?fs) = []" using fs(1) by (simp add: prm_view_def)
  ultimately obtain db k2 where k2: "prm_load_loop C [0..<PRMDB_NUM_DB_ENTRIES] 0 ?fs (WorkingBuffer_new store) ?f k1 =
      Some (PrmFileLoadComplete (of_nat (length al)), db, ?f, k2)" "files k2 = files k1" "table_ok db" "prm_view db = al"
    by auto
  let ?d = "prm_out (PrmFileLoadComplete (of_nat (length al))) (d\<lparr>pd_db := db, pd_disk := close_on_return (kc_disk C) ?f k2\<rparr>)"
  have "readParamFile C store d = Some ?d" by (simp add: readParamFile_def k1(1) k2(1) del: prm_sizes)
  then show thesis
    by (rule that) (simp_all add: prm_out_def close_on_return_rd(1) [OF assms(1)] k2 k1(4))
qed


section \<open>Properties\<close>

text \<open>The value that the last store of each identifier left.\<close>

definition last_values :: "(U32 \<times> ser_buf) list \<Rightarrow> U32 \<Rightarrow> U8 list option" where
  "last_values kws = map_of (rev (map (\<lambda>(i, w). (i, contents w)) kws))"

lemma stored:
  assumes "length u = PRMDB_NUM_DB_ENTRIES" "\<forall>w \<in> snd ` set kws. param_buffer w" "card (fst ` set kws) \<le> PRMDB_NUM_DB_ENTRIES"
  obtains d where "store_all setPrm_handler kws (PrmDb_new u fn k) = Some d" "prm_inv d" "map_of (prm_view (pd_db d)) = last_values kws"
    "pd_fileName d = pd_fileName (PrmDb_new u fn k)" "pd_disk d = k"
    "prm_view (pd_db d) = AList.updates (map fst kws) (map (contents \<circ> snd) kws) []"
proof -
  let ?d = "PrmDb_new u fn k"
  note new = prm_inv_new [OF assms(1), of fn k]
  obtain d where d: "store_all prm_store kws ?d = Some d"
    using prm.store_all_fails [OF new(1) assms(2)] assms(3) new(2) by (cases "store_all prm_store kws ?d") auto
  have keep: "store_all setPrm_handler kws e = Some e' \<Longrightarrow> pd_fileName e' = pd_fileName e \<and> pd_disk e' = pd_disk e" for e e' :: "'a PrmDb"
  proof (induction kws arbitrary: e)
    case (Cons kw kws)
    obtain i w where kw: "kw = (i, w)" by fastforce
    then obtain e1 where e1: "setPrm_handler i w e = Some e1" "store_all setPrm_handler kws e1 = Some e'"
      using Cons.prems by (auto split: bind_splits)
    have "pd_fileName e1 = pd_fileName e \<and> pd_disk e1 = pd_disk e"
      using e1(1) by (auto simp: setPrm_handler_def prm_out_def split: option.splits bind_splits)
    then show ?case using Cons.IH [OF e1(2)] by simp
  qed simp
  show thesis
  proof (rule that)
    show "store_all setPrm_handler kws ?d = Some d" by (rule set_all [OF d])
    then show "pd_fileName d = pd_fileName ?d" "pd_disk d = k" using keep [of ?d d] by (simp_all add: PrmDb_new_def)
    show "prm_inv d" "prm_view (pd_db d) = AList.updates (map fst kws) (map (contents \<circ> snd) kws) []"
      using prm.store_all_content [OF new(1) assms(2) d] new(2) by simp_all
    show "map_of (prm_view (pd_db d)) = last_values kws"
      using prm.store_all_map [OF new(1) assms(2) d] new(2) by (simp add: last_values_def)
  qed
qed

text \<open>
  C9: parameters survive a restart. A database is filled by any sequence of \<open>setPrm\<close> calls with nonempty
  values and at most 25 identifiers, and saved over a file that holds nothing: the command answers OK
  with the number of parameters. A second component with the same file name, whatever its storage
  held, loads the file: it reports that number, and \<open>getPrm\<close> of every identifier gives the value that
  was set last, and no value for an identifier that was never set.
\<close>

theorem parameters_survive_restart:
  assumes "regular_disk C files fds" "length u = PRMDB_NUM_DB_ENTRIES" "length u' = PRMDB_NUM_DB_ENTRIES"
    and "\<forall>w \<in> snd ` set kws. param_buffer w \<and> contents w \<noteq> []" "card (fst ` set kws) \<le> PRMDB_NUM_DB_ENTRIES"
    and "content_of (files k) (take 255 fn) = []"
  shows "\<exists>d1 d2 d3 n. store_all setPrm_handler kws (PrmDb_new u fn k) = Some d1 \<and>
    PRM_SAVE_FILE_cmdHandler C store opCode cmdSeq d1 = Some d2 \<and>
    pd_outs d2 = pd_outs d1 @ [PrmFileSaveComplete n, PrmCmdResponse opCode cmdSeq CmdResponse_OK] \<and>
    readParamFile C store' (PrmDb_new u' fn (pd_disk d2)) = Some d3 \<and> pd_outs d3 = [PrmFileLoadComplete n] \<and>
    (\<forall>i b. param_buffer b \<longrightarrow> prm_read i b d3 = last_values kws i)"
proof -
  have w: "\<forall>w \<in> snd ` set kws. param_buffer w" using assms(4) by simp
  obtain d1 where d1: "store_all setPrm_handler kws (PrmDb_new u fn k) = Some d1" "prm_inv d1"
    "map_of (prm_view (pd_db d1)) = last_values kws" "pd_fileName d1 = pd_fileName (PrmDb_new u fn k)" "pd_disk d1 = k"
    by (rule stored [OF assms(2) w assms(5)])
  let ?al = "prm_view (pd_db d1)"
  have name: "pd_fileName d1 = take 255 fn" using d1(4) by (simp add: PrmDb_new_def FW_FIXED_LENGTH_STRING_SIZE_def)
  have dist: "distinct (map fst ?al)" using d1(2) by (simp add: prm_inv_def)
  have ne: "v \<noteq> []" if "(i, v) \<in> set ?al" for i v
  proof -
    have "last_values kws i = Some v" using that dist by (simp flip: d1(3))
    then have "(i, v) \<in> (\<lambda>(i, w). (i, contents w)) ` set kws" unfolding last_values_def by (auto dest: map_of_SomeD)
    then show ?thesis using assms(4) by auto
  qed
  have old: "[] = content_of (files (pd_disk d1)) (pd_fileName d1)" by (simp add: d1(5) name assms(6))
  have nonempty: "[] \<notin> snd ` set ?al" by (auto dest: ne)
  obtain d2 where d2: "PRM_SAVE_FILE_cmdHandler C store opCode cmdSeq d1 = Some d2"
    "pd_outs d2 = pd_outs d1 @ [PrmFileSaveComplete (of_nat (length ?al)), PrmCmdResponse opCode cmdSeq CmdResponse_OK]"
    "files (pd_disk d2) = (files (pd_disk d1))(pd_fileName d1 \<mapsto> overwrite 0 (prm_image ?al) [])"
    by (rule save_rd [OF assms(1) d1(2) nonempty old])
  let ?d = "PrmDb_new u' fn (pd_disk d2)"
  have d: "length (pd_db ?d) = PRMDB_NUM_DB_ENTRIES" "\<forall>e \<in> set (pd_db ?d). param_buffer (pe_val e)"
    using assms(3) by (auto simp: PrmDb_new_def clearDb_def)
  have f: "files (pd_disk ?d) (pd_fileName ?d) = Some (prm_image ?al)"
    using d2(3) name by (simp add: PrmDb_new_def FW_FIXED_LENGTH_STRING_SIZE_def overwrite_0)
  have vals: "\<forall>(i, v) \<in> set ?al. v \<noteq> [] \<and> length v \<le> 120" using ne prm_view_bounds(2) [OF d1(2)] by fastforce
  obtain d3 where d3: "readParamFile C store' ?d = Some d3" "pd_outs d3 = pd_outs ?d @ [PrmFileLoadComplete (of_nat (length ?al))]"
    "table_ok (pd_db d3)" "prm_view (pd_db d3) = ?al"
    by (rule load_rd [OF assms(1) d f vals prm_view_bounds(1) [OF d1(2)]])
  have "prm_inv d3" using d3(3,4) dist by (simp add: prm_inv_def)
  then have "\<forall>i b. param_buffer b \<longrightarrow> prm_read i b d3 = last_values kws i"
    using prm_read_view d3(4) d1(3) by metis
  moreover have "pd_outs d3 = [PrmFileLoadComplete (of_nat (length ?al))]" using d3(2) by (simp add: PrmDb_new_def)
  ultimately show ?thesis using d1(1) d2(1,2) d3(1) by blast
qed


definition byte_param :: "U8 list \<Rightarrow> ser_buf" where
  "byte_param bs = append_to ParamBuffer_new bs"

lemma byte_param:
  assumes "length bs \<le> 120"
  shows "param_buffer (byte_param bs)" "contents (byte_param bs) = bs"
proof -
  have wf: "ser_wf ParamBuffer_new" and room: "length bs \<le> room ParamBuffer_new" and null: "\<not> m_null ParamBuffer_new"
    and len: "length (m_data ParamBuffer_new) = 120" and c: "contents ParamBuffer_new = []"
    using assms by (simp_all add: ParamBuffer_new_def SerializeBufferBase_new_def ser_wf_def room_def contents_def)
  show "contents (byte_param bs) = bs" using append_to_contents [OF wf room] c by (simp add: byte_param_def)
  have "m_null (byte_param bs) = m_null ParamBuffer_new" by (simp add: byte_param_def append_to_def)
  moreover have "m_serLoc ParamBuffer_new = 0" by (simp add: ParamBuffer_new_def SerializeBufferBase_new_def)
  then have "length (m_data (byte_param bs)) = 120" using assms len by (simp add: byte_param_def append_to_def)
  ultimately show "param_buffer (byte_param bs)"
    using append_to_wf [OF wf room] null by (simp add: param_buffer_def byte_param_def)
qed

theorem parameters_survive_restart_witness:
  "\<exists>d1 d2 d3 n. store_all setPrm_handler [(7, byte_param [1]), (9, byte_param [2, 3]), (7, byte_param [4])]
      (PrmDb_new (replicate 25 (True, 5)) ''p'' (Map.empty, [])) = Some d1 \<and>
    PRM_SAVE_FILE_cmdHandler table_disk [] 1 2 d1 = Some d2 \<and>
    pd_outs d2 = pd_outs d1 @ [PrmFileSaveComplete n, PrmCmdResponse 1 2 CmdResponse_OK] \<and>
    readParamFile table_disk [] (PrmDb_new (replicate 25 (False, 0)) ''p'' (pd_disk d2)) = Some d3 \<and>
    pd_outs d3 = [PrmFileLoadComplete n] \<and> prm_read 7 ParamBuffer_new d3 = Some [4]"
proof -
  let ?kws = "[(7, byte_param [1]), (9, byte_param [2, 3]), (7, byte_param [4])] :: (U32 \<times> ser_buf) list"
  have "\<exists>d1 d2 d3 n. store_all setPrm_handler ?kws (PrmDb_new (replicate 25 (True, 5)) ''p'' (Map.empty, [])) = Some d1 \<and>
    PRM_SAVE_FILE_cmdHandler table_disk [] 1 2 d1 = Some d2 \<and>
    pd_outs d2 = pd_outs d1 @ [PrmFileSaveComplete n, PrmCmdResponse 1 2 CmdResponse_OK] \<and>
    readParamFile table_disk [] (PrmDb_new (replicate 25 (False, 0)) ''p'' (pd_disk d2)) = Some d3 \<and>
    pd_outs d3 = [PrmFileLoadComplete n] \<and>
    (\<forall>i b. param_buffer b \<longrightarrow> prm_read i b d3 = last_values ?kws i)"
    by (rule parameters_survive_restart [OF table_disk_regular])
      (simp_all add: byte_param content_of_def card_insert_if)
  moreover have "last_values ?kws 7 = Some [4]" by (simp add: last_values_def byte_param)
  ultimately show ?thesis by (metis param_buffer_new(1))
qed

text \<open>
  After any sequence of stores to 25 different identifiers, \<open>getPrm\<close> gives the last value of each; a
  store to a further identifier is refused with the event PrmDbFull, and the table is as it was.
\<close>

theorem full_database_refuses:
  assumes "length u = PRMDB_NUM_DB_ENTRIES" "\<forall>w \<in> snd ` set kws. param_buffer w" "card (fst ` set kws) = PRMDB_NUM_DB_ENTRIES"
    and "i \<notin> fst ` set kws" "param_buffer w"
  shows "\<exists>d. store_all setPrm_handler kws (PrmDb_new u fn k) = Some d \<and>
    setPrm_handler i w d = Some (prm_out (PrmDbFull i) d) \<and>
    (\<forall>j b. param_buffer b \<longrightarrow> prm_read j b d = last_values kws j)"
proof -
  have le: "card (fst ` set kws) \<le> PRMDB_NUM_DB_ENTRIES" using assms(3) by simp
  obtain d where d: "store_all setPrm_handler kws (PrmDb_new u fn k) = Some d" "prm_inv d" "map_of (prm_view (pd_db d)) = last_values kws"
    by (rule stored [OF assms(1,2) le])
  have "dom (last_values kws) = fst ` set kws" by (simp add: last_values_def dom_map_of_conv_image_fst image_image split_def)
  then have keys: "fst ` set (prm_view (pd_db d)) = fst ` set kws"
    using d(3) by (metis dom_map_of_conv_image_fst)
  then have "length (prm_view (pd_db d)) = PRMDB_NUM_DB_ENTRIES" using prm.card_keys [OF d(2)] assms(3) by simp
  then have "setPrm_handler i w d = Some (prm_out (PrmDbFull i) d)"
    using store_new [OF d(2) assms(5), of i] assms(4) keys by simp
  moreover have "\<forall>j b. param_buffer b \<longrightarrow> prm_read j b d = last_values kws j" using prm_read_view [OF d(2)] d(3) by metis
  ultimately show ?thesis using d(1) by blast
qed

theorem full_database_refuses_witness:
  "\<exists>d. store_all setPrm_handler (map (\<lambda>i. (of_nat i, byte_param [1])) [0..<25]) (PrmDb_new (replicate 25 (False, 0)) ''p'' ()) = Some d \<and>
    setPrm_handler 99 (byte_param [2]) d = Some (prm_out (PrmDbFull 99) d)"
proof -
  let ?kws = "map (\<lambda>i. (of_nat i, byte_param [1])) [0..<25] :: (U32 \<times> ser_buf) list"
  have ids: "fst ` set ?kws = of_nat ` {0..<25}" by (auto simp: image_image)
  have "inj_on (of_nat :: nat \<Rightarrow> U32) {0..<25}" by (rule inj_onI) (simp add: of_nat_eq_iff32)
  then have c: "card (fst ` set ?kws) = PRMDB_NUM_DB_ENTRIES" unfolding ids by (simp add: card_image)
  have n: "99 \<notin> fst ` set ?kws" unfolding ids using of_nat_eq_iff32 [of 99] by auto
  have u: "length (replicate 25 (False, 0 :: U32)) = PRMDB_NUM_DB_ENTRIES" by simp
  have w: "\<forall>w \<in> snd ` set ?kws. param_buffer w" by (auto simp: byte_param)
  have p: "param_buffer (byte_param [2])" by (simp add: byte_param)
  from full_database_refuses [OF u w c n p, of "''p''" "()"] show ?thesis by blast
qed

text \<open>
  C30: the parameter file is opened without truncation: when the records of the old file go on behind the last
  saved one, the next load brings them back behind the saved parameters.
\<close>

theorem stale_records_come_back:
  assumes "regular_disk C files fds" "prm_inv d" "[] \<notin> snd ` set (prm_view (pd_db d))"
    and "files (pd_disk d) (pd_fileName d) = Some (prm_image (al @ bl))"
    and "length (prm_image al) = length (prm_image (prm_view (pd_db d)))"
    and "\<forall>(i, v) \<in> set bl. v \<noteq> [] \<and> length v \<le> 120" "length (prm_view (pd_db d)) + length bl \<le> PRMDB_NUM_DB_ENTRIES"
  shows "\<exists>d2 d3. PRM_SAVE_FILE_cmdHandler C store opCode cmdSeq d = Some d2 \<and> readParamFile C store' d2 = Some d3 \<and>
    prm_view (pd_db d3) = prm_view (pd_db d) @ bl"
proof -
  let ?al = "prm_view (pd_db d)"
  have old: "prm_image (al @ bl) = content_of (files (pd_disk d)) (pd_fileName d)" by (simp add: content_of_def assms(4))
  obtain d2 where d2: "PRM_SAVE_FILE_cmdHandler C store opCode cmdSeq d = Some d2"
    "files (pd_disk d2) = (files (pd_disk d))(pd_fileName d \<mapsto> overwrite 0 (prm_image ?al) (prm_image (al @ bl)))"
    "pd_db d2 = pd_db d" "pd_fileName d2 = pd_fileName d"
    by (rule save_rd [OF assms(1-3) old])
  have f: "files (pd_disk d2) (pd_fileName d2) = Some (prm_image (?al @ bl))"
    using d2(2,4) assms(5) by (simp add: overwrite_0)
  have d: "length (pd_db d2) = PRMDB_NUM_DB_ENTRIES" "\<forall>e \<in> set (pd_db d2). param_buffer (pe_val e)"
    using assms(2) d2(3) by (simp_all only: prm_inv_def table_ok_def) blast+
  have al: "v \<noteq> [] \<and> length v \<le> 120" if "(i, v) \<in> set ?al" for i v
  proof -
    have v: "v \<in> snd ` set ?al" using that by force
    then show ?thesis using assms(3) prm_view_bounds(2) [OF assms(2) v] by blast
  qed
  have vals: "\<forall>(i, v) \<in> set (?al @ bl). v \<noteq> [] \<and> length v \<le> 120" using al assms(6) by auto
  obtain d3 where "readParamFile C store' d2 = Some d3" "prm_view (pd_db d3) = ?al @ bl"
    by (rule load_rd [OF assms(1) d f vals]) (use assms(7) in simp_all)
  with d2(1) show ?thesis by blast
qed

theorem stale_records_come_back_witness:
  "\<exists>d d2 d3. PRM_SAVE_FILE_cmdHandler table_disk [] 1 2 d = Some d2 \<and> readParamFile table_disk [] d2 = Some d3 \<and>
    prm_view (pd_db d3) = prm_view (pd_db d) @ [(9, [8])]"
proof -
  define old where "old = prm_image ([(7, [0])] @ [(9, [8])])"
  obtain d :: "table_disk_state PrmDb" where d: "prm_inv d" "prm_view (pd_db d) = [(7, [5])]" "pd_fileName d = ''p''" "pd_disk d = (Map.empty(''p'' \<mapsto> old), [])"
    by (rule stored [of "replicate 25 (False, 0)" "[(7, byte_param [5])]" "''p''" "(Map.empty(''p'' \<mapsto> old), [])"])
      (auto simp: byte_param PrmDb_new_def FW_FIXED_LENGTH_STRING_SIZE_def)
  have "\<exists>d2 d3. PRM_SAVE_FILE_cmdHandler table_disk [] 1 2 d = Some d2 \<and> readParamFile table_disk [] d2 = Some d3 \<and>
      prm_view (pd_db d3) = prm_view (pd_db d) @ [(9, [8])]"
    by (rule stale_records_come_back [OF table_disk_regular d(1), of "[(7, [0])]"]) (use d(2-4) in \<open>simp_all add: old_def prm_record_def\<close>)
  then show ?thesis by blast
qed

text \<open>A failed read of the delimiter is taken for the end of the file.\<close>

lemma delimiter_read_error_is_end:
  assumes "m_mode f \<noteq> OPEN_NO_MODE" "kc_read C k (m_fd f) 1 = (Inl errno, k')" "errno \<noteq> EINTR"
  shows "\<exists>f'. prm_load_entry C entry n db buff f k = Some (Load_end, db, buff, f', k')"
proof -
  have "File_read_disk C k f 1 True = Some (OTHER_ERROR, [], 0, f\<lparr>m_lastError := errno\<rparr>, k')"
    using assms by (simp add: File_read_disk_def numeral_2_eq_2)
  then show ?thesis by (simp add: prm_load_entry_def)
qed

text \<open>A value without bytes cannot be saved: the write refuses the size 0, so the command fails.\<close>

lemma empty_value_refused:
  "m_mode f \<noteq> OPEN_NO_MODE \<Longrightarrow> prm_write C stages n data 0 0 f k = Some (Inl (fst stages, n, file_status_number BAD_SIZE), f, k)"
  by (simp add: prm_write_def File_write_def)

end
