(* ===== verification/Spec2Isabelle.thy ===== *)
theory Spec2Isabelle
  imports
    Prelude
    Ser_Codecs
    Fw_Time
    Crc32
    Os_File
    Fprime_Files
    Cmd_Sequencer_Properties
    Deframer_Properties
    Motor_Bridge
    Os_Queue File_Uplink Cmd_Dispatcher
    Tlm_Properties
    Buffer_Manager
    Rate_Limiting
    Rate_Groups
    Fw_Strings
    File_Manager
    File_Transfer
    Poly_Type Health Packetizer_Properties Logger_Properties
    Prm_Properties
begin

text \<open>
  A verification of the flight software framework of this repository (F Prime) and of the motor
  bridge built on it.

  \<^bold>\<open>The program.\<close> A deployment is a set of components that exchange typed messages over ports. Fw holds
  what they share: serialization buffers, times, strings, packets. Os is the port to the operating
  system: files, the file system, message queues. Svc holds the components themselves: command
  dispatching and sequencing, the framing of the ground link, file transfer, telemetry, parameters,
  buffers, rate groups, health. Utils and CFDP hold checksums, the byte ring and rate limiting.
  Components/Stage9MotorBridge is the application: it passes motor commands to a VESC server.
  Data travels as follows. Bytes from the ground go through the deframer, which finds frames in a byte
  ring and hands command packets to the dispatcher and file packets to the file uplink; the dispatcher
  sends each command to the component registered for it and its response to the sender, among them the
  command sequencer, which reads its commands from a file. Telemetry and file downlink packets
  go through the framer to the ground. The rate groups call the periodic handlers of all of them.

  \<^bold>\<open>Conventions.\<close> A class is a \<open>record\<close> of its members, a member function a definition that
  takes the record and returns it changed; its name is that of the source, with the name of the class in
  front where two classes share it. An overloaded function is one definition for each overload, its
  type at the end. Integers are words of their width (\<open>U8\<close> to \<open>U64\<close>), signed ones where the code
  computes with signs are read by \<open>sint\<close> or are \<open>int\<close>s with the undefined overflow written
  out. A function that may fail an \<open>FW_ASSERT\<close>, or leave an array, returns an \<open>option\<close>: \<open>None\<close> is the
  program stopped there. A status code is a datatype, and every early return is a branch. What leaves a
  component on its ports, its events and its telemetry are appended, in the order of the calls, to an
  output list in its state. The name of a record field or a constructor carries a short prefix where the name
  alone would be ambiguous.

  \<^bold>\<open>The theories.\<close> Below each group is the source under \<open>src\<close>, what the definitions are and what the lemmas show.

  \<^item> \<open>Prelude\<close>: words of the code, \<open>fw_assert\<close>, \<open>read_at\<close> and \<open>write_at\<close> (memcpy), the search of an
    array. \<open>Refinement\<close>: the locales \<open>budgeted_refinement\<close> and \<open>refinement\<close>, a functional refinement of a
    component with operations against a total step on an abstract state, possibly for a bounded number
    of operations (where a counter wraps).
  \<^item> \<open>Ser_Buffer\<close>, \<open>Ser_Spec\<close>, \<open>Ser_Codecs\<close> (Fw/Types/Serializable.cpp): the serialization buffer, one
    definition for each overload of serialize and deserialize. The locale \<open>codec\<close> is the contract of a
    serializable type, \<open>atomic_codec\<close> adds that a failure changes nothing, \<open>codec_pair\<close> composes two. All
    overloads interpret it; round trips, totality, and the operations outside the contract follow.
  \<^item> \<open>Fw_Time\<close> (Fw/Time/Time.cpp): comparison, addition and subtraction of times and their wire form.
    \<open>Fw_Buffer\<close> (Fw/Buffer/Buffer.cpp), \<open>Com_Buffer\<close> (Fw/Com), \<open>Fw_Strings\<close> (Fw/Types/StringUtils.cpp,
    StringType.cpp), \<open>Poly_Type\<close> (Fw/Types/PolyType.cpp): the other data types of the framework.
  \<^item> \<open>Crc32\<close> (Utils/Hash/libcrc/lib_crc.c), \<open>Hash\<close> (Utils/Hash), \<open>Cfdp_Checksum\<close> (CFDP/Checksum): the table
    CRC is the shift register CRC and detects every changed byte; the file checksum does not depend on
    how the file is cut into chunks.
  \<^item> \<open>Os_File\<close>, \<open>Os_File_Write\<close>, \<open>Os_File_Read\<close> (Os/Linux/File.cpp, Os/FileCommon.cpp): the file class over
    system calls that are parameters. \<open>Os_File\<close> has a kernel without a state for programs that only
    read, the other two a kernel with a state of any type. The loop limit \<open>size*2\<close> of a read or write is the 32-bit
    product of the code (\<open>maxIters_of\<close>): from 2^30 bytes on it overflows, a read fails its assertion and a write does nothing.
    \<open>Os_File_System\<close> (Os/Linux/FileSystem.cpp), \<open>File_Manager\<close> (Svc/FileManager).
  \<^item> \<open>Buffer_Queue\<close>, \<open>Array_Heap\<close>, \<open>Max_Heap\<close>, \<open>Priority_Queue\<close>, \<open>Fifo_Queue\<close>, \<open>Os_Queue\<close> (Os/Pthreads): the
    message queues. The locale \<open>message_store\<close> is what a queue needs of the store that is linked in; the
    FIFO store and the priority store interpret it. The heap refines a stable priority queue.
    \<open>Os_Queue\<close> has the threads: critical sections as functions, their interleaving as the inductive
    relation of steps, and the proof that no wake-up is lost.
  \<^item> \<open>Cmd_Sequence\<close>, \<open>Fprime_Sequence\<close>, \<open>Fprime_Format\<close>, \<open>Fprime_Load\<close>, \<open>Fprime_Files\<close>, \<open>Cmd_Sequencer\<close>,
    \<open>Cmd_Sequencer_Runs\<close>, \<open>Cmd_Sequencer_Properties\<close> (Svc/CmdSequencer): the class of sequence formats as a
    table of functions, the F Prime format as its implementation, the component over any format. The
    locale \<open>sequence_format\<close> is what the component needs of a format, \<open>fprime\<close> the interpretation. A run is the
    inductive relation of the handlers; its invariant ties the commands sent to the records of the file.
  \<^item> \<open>Circular_Buffer\<close> (Utils/Types), \<open>Fprime_Protocol\<close> (Svc/FramingProtocol), \<open>Deframer\<close>, \<open>Deframer_Spec\<close>,
    \<open>Framer\<close>, \<open>Deframer_Properties\<close> (Svc/Deframer, Svc/Framer): the ground link. The ring refines a byte
    queue. \<open>deframing_protocol\<close> is what the component needs of a protocol: a decision about the
    bytes at the head of the ring that more bytes do not change. The component then computes \<open>scan\<close>, the cut of
    the whole byte stream into packets; \<open>fprime_protocol\<close> is the interpretation.
  \<^item> \<open>Cmd_Packet\<close>, \<open>Cmd_Dispatcher\<close> (Fw/Cmd, Svc/CmdDispatcher): registration, dispatch, and the way of a response
    back to the source of its command.
  \<^item> \<open>File_Packet\<close> (Fw/FilePacket), \<open>File_Uplink\<close> (Svc/FileUplink), \<open>File_Downlink\<close>, \<open>File_Downlink_Properties\<close>
    (Svc/FileDownlink), \<open>File_Transfer\<close>: files on the link. The last one runs both components
    against each other: what the uplink stores is the file the downlink read.
  \<^item> \<open>Tlm_Packet\<close>, \<open>Tlm_Chan\<close>, \<open>Tlm_Table\<close>, \<open>Tlm_Properties\<close> (Fw/Tlm, Svc/TlmChan), \<open>Prm_Db\<close>,
    \<open>Prm_Properties\<close> (Fw/Prm, Svc/PrmDb): the telemetry and the parameter database. Both interpret
    the locale \<open>latest_values\<close> of \<open>Latest_Values\<close>, an association list with a bound.
  \<^item> \<open>Hash_Chains\<close>, \<open>Tlm_Packetizer\<close>, \<open>Packetizer_Table\<close>, \<open>Packetizer_Config\<close>, \<open>Packetizer_Properties\<close>
    (Svc/TlmPacketizer): chained hash tables in general, the component, its table as a map, valid
    configurations, and the refinement of packets as lists of latest values (\<open>packetizer\<close> interprets
    \<open>refinement\<close> for every configuration).
  \<^item> \<open>Log_Packet\<close>, \<open>Active_Logger\<close>, \<open>Logger_Properties\<close> (Fw/Log, Svc/ActiveLogger): events, filtered by
    severity and identifier and put into packets; \<open>event_logger\<close> refines two sets and a queue. Whether the queue
    takes a message is an argument, and a handler runs as a whole.
  \<^item> \<open>Buffer_Manager\<close> (Svc/BufferManager), \<open>Rate_Limiting\<close> (Utils/TokenBucket.cpp, RateLimiter.cpp),
    \<open>Rate_Groups\<close> (Svc/RateGroupDriver, Svc/ActiveRateGroup, the timers), \<open>Health\<close> (Svc/Health).
  \<^item> \<open>C_Format\<close>, \<open>Motor_Bridge\<close> (Components/Stage9MotorBridge): printf and sscanf as far as they are used, the bridge
    and the branch the server julia_vesc_server.jl takes for a line (its variables are not modelled).

  \<^bold>\<open>Loops and bounds.\<close> Loops are recursions over lists or indices wherever the code bounds them. A loop the code
  does not bound has a limit as argument, and the theorems show that the limit they use suffices: the read
  loop of a file gets twice the requested size (of less than 2^30 bytes), since each turn but an interrupted one reads a byte and the
  hypotheses bound the interruptions; copying a file of n bytes gets the limit n div 256 + 2 of the code;
  an exchange of downlink and buffer returns needs the number of chunks plus two steps; the deframer's
  loop consumes a byte of the ring in each turn. A run of the health component counts to
  at most 2^32 - 1 cycles. Word arithmetic wraps as in the code; where a property excludes a wrap it says so.

  \<^bold>\<open>Parameters and hypotheses.\<close> Code outside \<open>src\<close> is a parameter: the kernel (\<open>posix\<close>, \<open>posix_disk\<close> and
  \<open>regular_disk\<close> state what the manual pages promise for regular files on a disk with room), the
  allocators and drivers behind ports, the number parsers and \<open>system\<close> of the C library, the layout sizes the
  compiler chooses. Each hypothesis about them is met by a concrete instance in the witness of the property
  that has it. Generated code (the port and component base classes) is modelled by what it does with a call:
  it dispatches, asserts the port number and appends to the outputs.

  \<^bold>\<open>Not modelled.\<close> The generator of the base classes (Autocoders), the files it and CMake have generated
  (RefTopologyAc.cpp, build-fprime-automatic), tests and their libraries, the deployments Ref and RPI, whose
  own code connects components and starts threads, the drivers (Drv), whose content is system calls, the ports of Os
  to other systems, and the ground tools in other languages. Of the modelled components, the parts that
  print text for people (toString, the text of events) are left out; locks are modelled in \<open>Os_Queue\<close>
  only, where the property is about them. The manifest lists every part with its reason.
\<close>

end
